(* ===== verification/SolarBase.thy ===== *)
theory SolarBase
  imports Main "HOL-Library.Word"
begin

text \<open>
  Shared vocabulary of the development: the machine integer types of the firmware, the ESP-IDF
  error codes, the C string helpers the services use, fixed tables of slots scanned by index, and
  big-endian byte codecs.

  Conventions used by every theory:
  \<^item> a pointer argument that the code compares with NULL is an \<open>option\<close>, \<open>None\<close> for NULL;
  \<^item> a C string is the list of its characters up to the terminating NUL;
  \<^item> \<open>uint8_t\<close>, \<open>uint16_t\<close>, \<open>uint32_t\<close>, \<open>uint64_t\<close> are words, so their arithmetic wraps;
    a \<open>size_t\<close> that counts elements of a bounded buffer is a \<open>nat\<close>, a free-running \<open>size_t\<close>
    counter is a 32-bit word (the targets are 32-bit);
  \<^item> a static array of slots is a list of fixed length.
\<close>

unbundle bit_operations_syntax

section \<open>Types\<close>

type_synonym u8 = "8 word"
type_synonym u16 = "16 word"
type_synonym u32 = "32 word"
type_synonym u64 = "64 word"

datatype esp_err =
    ESP_OK
  | ESP_FAIL
  | ESP_ERR_NO_MEM
  | ESP_ERR_INVALID_ARG
  | ESP_ERR_INVALID_STATE
  | ESP_ERR_INVALID_SIZE
  | ESP_ERR_NOT_FOUND
  | ESP_ERR_NOT_SUPPORTED
  | ESP_ERR_TIMEOUT
  | ESP_ERR_INVALID_RESPONSE
  | ESP_ERR_INVALID_CRC
  | ESP_ERR_INVALID_VERSION

named_theorems solar_defs "definitions unfolded by the component proofs"

section \<open>C strings\<close>

text \<open>
  \<open>strlcpy\<close> into an array of \<open>n\<close> bytes keeps at most \<open>n - 1\<close> characters, and
  \<open>strncmp\<close> with bound \<open>n\<close> looks at no more than the first \<open>n\<close> characters of each string.
\<close>

definition strlcpy :: "nat \<Rightarrow> string \<Rightarrow> string" where
  "strlcpy n s = take (n - 1) s"

definition strncmp_eq :: "nat \<Rightarrow> string \<Rightarrow> string \<Rightarrow> bool" where
  "strncmp_eq n a b \<longleftrightarrow> take n a = take n b"

definition cstr :: "string option \<Rightarrow> string" where
  "cstr s = (case s of None \<Rightarrow> [] | Some t \<Rightarrow> t)"

definition isspace :: "char \<Rightarrow> bool" where
  "isspace c \<longleftrightarrow> (let n = (of_char c :: nat) in n = 32 \<or> (9 \<le> n \<and> n \<le> 13))"

definition isdigit :: "char \<Rightarrow> bool" where
  "isdigit c \<longleftrightarrow> (let n = (of_char c :: nat) in 48 \<le> n \<and> n \<le> 57)"

definition isxdigit :: "char \<Rightarrow> bool" where
  "isxdigit c \<longleftrightarrow> (let n = (of_char c :: nat) in
     (48 \<le> n \<and> n \<le> 57) \<or> (65 \<le> n \<and> n \<le> 70) \<or> (97 \<le> n \<and> n \<le> 102))"

definition tolower :: "char \<Rightarrow> char" where
  "tolower c = (let n = (of_char c :: nat) in if 65 \<le> n \<and> n \<le> 90 then char_of (n + 32) else c)"

lemma strlcpy_length: "0 < n \<Longrightarrow> length (strlcpy n s) < n"
  by (auto simp: strlcpy_def)

lemma strlcpy_id: "length s < n \<Longrightarrow> strlcpy n s = s"
  by (simp add: strlcpy_def)

lemma strncmp_eq_refl [simp]: "strncmp_eq n s s"
  by (simp add: strncmp_eq_def)

lemma strncmp_eq_strlcpy_short:
  assumes "length s < n"
  shows "strncmp_eq n (strlcpy n s) t \<longleftrightarrow> s = t"
proof
  assume "strncmp_eq n (strlcpy n s) t"
  then have e: "s = take n t" using assms by (simp add: strncmp_eq_def strlcpy_def)
  then have "length (take n t) < n" using assms by simp
  then have "length t < n" by (simp add: min_def split: if_splits)
  with e show "s = t" by simp
next
  assume "s = t"
  then show "strncmp_eq n (strlcpy n s) t" using assms by (simp add: strlcpy_id)
qed

lemma strncmp_eq_strlcpy_long:
  assumes "n \<le> length s" and "0 < n"
  shows "\<not> strncmp_eq n (strlcpy n s) s"
proof
  assume "strncmp_eq n (strlcpy n s) s"
  then have "length (take n (take (n - 1) s)) = length (take n s)"
    by (simp add: strncmp_eq_def strlcpy_def)
  then show False using assms by (simp add: min_def split: if_splits)
qed

section \<open>Decimal numbers\<close>

text \<open>The text of \<open>%u\<close> (\<open>printf\<close> of an unsigned number).\<close>

fun decimal :: "nat \<Rightarrow> string" where
  "decimal n = (if n < 10 then [char_of (48 + n)] else decimal (n div 10) @ [char_of (48 + n mod 10)])"

declare decimal.simps [simp del]

definition digit_value :: "char \<Rightarrow> nat" where
  "digit_value c = of_char c - 48"

lemma digit_char: "d < 10 \<Longrightarrow> of_char (char_of (48 + d) :: char) = (48 + d :: nat)"
  by (simp add: of_char_of)

lemma decimal_digits: "decimal n \<noteq> [] \<and> (\<forall>c \<in> set (decimal n). isdigit c)"
proof (induction n rule: decimal.induct)
  case (1 n)
  have "isdigit (char_of (48 + d))" if "d < 10" for d :: nat
    using that by (simp add: isdigit_def digit_char Let_def)
  then show ?case using 1 by (subst (1 2) decimal.simps) auto
qed

lemma decimal_value: "foldl (\<lambda>v c. v * 10 + digit_value c) 0 (decimal n) = n"
proof (induction n rule: decimal.induct)
  case (1 n)
  show ?case
  proof (cases "n < 10")
    case True
    then show ?thesis by (subst decimal.simps) (simp add: digit_value_def digit_char)
  next
    case False
    then show ?thesis using 1 by (subst decimal.simps) (simp add: digit_value_def digit_char)
  qed
qed

section \<open>Words\<close>

lemma unat_u8_less: "unat (x :: u8) < 256"
  using unsigned_less [of x, where ?'a = nat] by simp

lemma unat_u16_less: "unat (x :: u16) < 65536"
  using unsigned_less [of x, where ?'a = nat] by simp

lemma unat_u32_less: "unat (x :: u32) < 4294967296"
  using unsigned_less [of x, where ?'a = nat] by simp

lemma unat_of_nat_u32: "n < 4294967296 \<Longrightarrow> unat (of_nat n :: u32) = n"
  by (simp add: unat_of_nat take_bit_nat_eq_self)

lemma unat_of_nat_u64: "n < 2 ^ 64 \<Longrightarrow> unat (of_nat n :: u64) = n"
  by (simp add: unat_of_nat take_bit_nat_eq_self)

text \<open>The cast of a 32-bit difference to \<open>int32_t\<close> is non-negative on the lower half.\<close>

lemma sint_u32_nonneg: "0 \<le> sint (w :: u32) \<longleftrightarrow> unat w < 2 ^ 31"
proof -
  have s: "sint w = signed_take_bit 31 (uint w)" by (simp add: sint_uint)
  have "uint w div 2 ^ 31 \<in> {0, 1}"
    using uint_lt2p [of w] by auto
  then have "bit (uint w) 31 \<longleftrightarrow> 2 ^ 31 \<le> uint w"
    using uint_ge_0 [of w] by (auto simp: bit_iff_odd)
  then have "0 \<le> sint w \<longleftrightarrow> uint w < 2 ^ 31"
    by (simp add: s not_le)
  moreover have "uint w < 2 ^ 31 \<longleftrightarrow> unat w < 2 ^ 31"
    using of_nat_less_iff [of "unat w" "2 ^ 31", where ?'a = int] by simp
  ultimately show ?thesis by (rule trans)
qed

lemma unat_u32_diff: "b \<le> a \<Longrightarrow> unat (a - b :: u32) = unat a - unat b"
  by (simp add: unat_sub)

lemma unat_u32_diff_wrap: "unat a < unat b \<Longrightarrow> unat (a - b :: u32) = 2 ^ 32 + unat a - unat b"
  by (simp add: unat_sub_if')

section \<open>Options and lists\<close>

lemma option_eqI: "(\<And>v. x = Some v \<longleftrightarrow> y = Some v) \<Longrightarrow> x = y"
  by (cases x; cases y) auto

section \<open>Tables of slots\<close>

text \<open>
  Every registry of the firmware is a static array that is scanned by index for the first slot
  with some property (a matching key, or being free).
\<close>

fun first_index :: "('a \<Rightarrow> bool) \<Rightarrow> 'a list \<Rightarrow> nat option" where
  "first_index P [] = None"
| "first_index P (x # xs) = (if P x then Some 0 else map_option Suc (first_index P xs))"

lemma first_index_None: "first_index P xs = None \<longleftrightarrow> (\<forall>x \<in> set xs. \<not> P x)"
  by (induction xs) auto

lemma first_index_Some:
  "first_index P xs = Some i \<longleftrightarrow> i < length xs \<and> P (xs ! i) \<and> (\<forall>j < i. \<not> P (xs ! j))"
proof (induction xs arbitrary: i)
  case Nil
  then show ?case by simp
next
  case (Cons x xs)
  show ?case
  proof (cases i)
    case 0
    then show ?thesis by auto
  next
    case (Suc k)
    then show ?thesis using Cons.IH [of k] by (auto simp: less_Suc_eq_0_disj)
  qed
qed

lemma first_indexD:
  assumes "first_index P xs = Some i"
  shows "i < length xs" and "P (xs ! i)"
  using assms by (simp_all add: first_index_Some)

lemma first_index_exists: "x \<in> set xs \<Longrightarrow> P x \<Longrightarrow> \<exists>i. first_index P xs = Some i"
  using first_index_None [of P xs] by (cases "first_index P xs") auto

lemma first_index_nth_exists: "i < length xs \<Longrightarrow> P (xs ! i) \<Longrightarrow> \<exists>j. first_index P xs = Some j"
  using first_index_exists [of "xs ! i" xs P] by simp

definition unique_used :: "('s \<Rightarrow> bool) \<Rightarrow> ('s \<Rightarrow> 'k) \<Rightarrow> 's list \<Rightarrow> bool" where
  "unique_used used key xs \<longleftrightarrow>
     (\<forall>i < length xs. \<forall>j < length xs.
        used (xs ! i) \<longrightarrow> used (xs ! j) \<longrightarrow> key (xs ! i) = key (xs ! j) \<longrightarrow> i = j)"

definition used_keys :: "('s \<Rightarrow> bool) \<Rightarrow> ('s \<Rightarrow> 'k) \<Rightarrow> 's list \<Rightarrow> 'k set" where
  "used_keys used key xs = {key (xs ! i) |i. i < length xs \<and> used (xs ! i)}"

lemma used_keys_iff:
  "k \<in> used_keys used key xs \<longleftrightarrow> (\<exists>j. j < length xs \<and> used (xs ! j) \<and> key (xs ! j) = k)"
  by (auto simp: used_keys_def)

lemma unique_used_cong:
  assumes "length xs = length ys"
    and "\<And>i. i < length ys \<Longrightarrow> used (xs ! i) = used (ys ! i) \<and> key (xs ! i) = key (ys ! i)"
  shows "unique_used used key xs = unique_used used key ys"
  using assms by (simp add: unique_used_def)

lemma nth_upd: "a < length xs \<Longrightarrow> xs[i := c] ! a = (if a = i then c else xs ! a)"
  by (simp add: nth_list_update)

lemma map_update_same: "g y = g (xs ! i) \<Longrightarrow> map g (xs[i := y]) = map g xs"
  by (metis list_update_id map_update)

text \<open>
  The contract of such a table: a slot counts when it is \<open>used\<close>, used slots are told apart by
  their \<open>key\<close>, and clearing a slot makes it unused.
\<close>

locale keyed_slots =
  fixes used :: "'s \<Rightarrow> bool"
    and key :: "'s \<Rightarrow> 'k"
    and cleared :: 's
  assumes cleared_unused: "\<not> used cleared"
begin

lemma unique_cleared: "unique_used used key (replicate n cleared)"
  by (simp add: unique_used_def cleared_unused)

lemma unique_clear:
  assumes "unique_used used key xs"
  shows "unique_used used key (xs[i := cleared])"
  using assms cleared_unused by (simp add: unique_used_def nth_upd)

lemma unique_insert:
  assumes u: "unique_used used key xs"
    and fresh: "\<And>j. j < length xs \<Longrightarrow> used (xs ! j) \<Longrightarrow> key (xs ! j) \<noteq> key s"
  shows "unique_used used key (xs[i := s])"
  using u fresh unfolding unique_used_def by (simp add: nth_upd) metis

lemma unique_rekey:
  assumes "unique_used used key xs"
    and "i < length xs" and "used (xs ! i)" and "key s = key (xs ! i)"
  shows "unique_used used key (xs[i := s])"
  using assms unfolding unique_used_def by (simp add: nth_upd) metis

lemma found_index:
  assumes u: "unique_used used key xs"
    and i: "i < length xs" "used (xs ! i)" "key (xs ! i) = k"
  shows "first_index (\<lambda>s. used s \<and> key s = k) xs = Some i"
proof -
  obtain j where j: "first_index (\<lambda>s. used s \<and> key s = k) xs = Some j"
    using first_index_nth_exists [of i xs "\<lambda>s. used s \<and> key s = k"] i by auto
  then have "j = i"
    using u i first_indexD [OF j] unfolding unique_used_def by auto
  with j show ?thesis by simp
qed

lemma keys_clear:
  assumes "unique_used used key xs" and "i < length xs" and "used (xs ! i)"
  shows "used_keys used key (xs[i := cleared]) = used_keys used key xs - {key (xs ! i)}"
proof (rule set_eqI)
  fix k
  have "k \<in> used_keys used key (xs[i := cleared])
      \<longleftrightarrow> (\<exists>j. j < length xs \<and> j \<noteq> i \<and> used (xs ! j) \<and> key (xs ! j) = k)"
    using cleared_unused by (auto simp: used_keys_iff nth_upd cong: conj_cong)
  also have "\<dots> \<longleftrightarrow> k \<in> used_keys used key xs - {key (xs ! i)}"
    using assms by (auto simp: used_keys_iff unique_used_def)
  finally show "k \<in> used_keys used key (xs[i := cleared])
      \<longleftrightarrow> k \<in> used_keys used key xs - {key (xs ! i)}" .
qed

lemma keys_insert:
  assumes "i < length xs" and "\<not> used (xs ! i)" and "used s"
  shows "used_keys used key (xs[i := s]) = insert (key s) (used_keys used key xs)"
proof (rule set_eqI)
  fix k
  have "k \<in> used_keys used key (xs[i := s])
      \<longleftrightarrow> (\<exists>j. j < length xs \<and> (if j = i then key s = k else used (xs ! j) \<and> key (xs ! j) = k))"
    using assms by (auto simp: used_keys_iff nth_upd cong: conj_cong)
  also have "\<dots> \<longleftrightarrow> k \<in> insert (key s) (used_keys used key xs)"
    using assms by (auto simp: used_keys_iff split: if_splits)
  finally show "k \<in> used_keys used key (xs[i := s])
      \<longleftrightarrow> k \<in> insert (key s) (used_keys used key xs)" .
qed

end

section \<open>Fixed-width fields\<close>

text \<open>
  The contract of a fixed-width field of a frame: \<open>put\<close> writes \<open>width\<close> bytes, \<open>get\<close> reads them
  back, and what \<open>get\<close> reads is what \<open>put\<close> would have written.
\<close>

locale byte_codec =
  fixes put :: "'v \<Rightarrow> u8 list"
    and get :: "u8 list \<Rightarrow> 'v"
    and width :: nat
  assumes put_length: "length (put v) = width"
    and get_put: "get (put v @ r) = v"
    and put_get: "width \<le> length bs \<Longrightarrow> put (get bs) = take width bs"
begin

lemma get_put_only: "get (put v) = v"
  using get_put [of v "[]"] by simp

lemma get_at: "length p = n \<Longrightarrow> get (drop n (p @ put v @ r)) = v"
  by (simp add: get_put)

lemma put_inj: "put v @ r = put w @ q \<Longrightarrow> v = w \<and> r = q"
  by (metis append_eq_append_conv get_put put_length)

lemma put_get_drop: "n + width \<le> length bs \<Longrightarrow> put (get (drop n bs)) = take width (drop n bs)"
  by (simp add: put_get)

end

end
