(* ===== verification/Scheduler.thy ===== *)
theory Scheduler
  imports SolarBase
begin

text \<open>
  The cooperative tick scheduler of \<open>src/src/solar_os_scheduler.c\<close>: the tick statistics that
  decide when an application or a job is dispatched again, the execution budget accounting, and
  the idle statistics of the main loop. All times are free-running 32-bit millisecond counters,
  so differences wrap. \<open>esp_timer_get_time()\<close> is not part of the sources: its value is the
  argument \<open>timer_us\<close>.
\<close>

unbundle bit_operations_syntax

section \<open>State\<close>

record tick_stats =
  ts_interval_ms :: u32
  ts_deadline_ms :: u32
  ts_dispatch_count :: u32
  ts_deadline_miss_count :: u32
  ts_last_dispatch_ms :: u32
  ts_last_duration_us :: u32
  ts_max_duration_us :: u32

record runtime_loop_stats =
  rl_initialized :: bool
  rl_sample_started_ms :: u32
  rl_loop_count :: u32
  rl_planned_wait_total_ms :: u64
  rl_planned_wait_min_ms :: u32
  rl_planned_wait_max_ms :: u32

record runtime_loop_report =
  rr_elapsed_ms :: u32
  rr_loop_count :: u32
  rr_planned_wait_total_ms :: u64
  rr_planned_wait_min_ms :: u32
  rr_planned_wait_max_ms :: u32

definition RUNTIME_WAIT_EVENT_MAX_MS :: u32 where
  "RUNTIME_WAIT_EVENT_MAX_MS = 25"

definition RUNTIME_WAIT_POLL_MAX_MS :: u32 where
  "RUNTIME_WAIT_POLL_MAX_MS = 10"

definition tick_stats_zero :: tick_stats where
  "tick_stats_zero = \<lparr>ts_interval_ms = 0, ts_deadline_ms = 0, ts_dispatch_count = 0,
     ts_deadline_miss_count = 0, ts_last_dispatch_ms = 0, ts_last_duration_us = 0,
     ts_max_duration_us = 0\<rparr>"

definition runtime_loop_stats_zero :: runtime_loop_stats where
  "runtime_loop_stats_zero = \<lparr>rl_initialized = False, rl_sample_started_ms = 0,
     rl_loop_count = 0, rl_planned_wait_total_ms = 0, rl_planned_wait_min_ms = 0,
     rl_planned_wait_max_ms = 0\<rparr>"

section \<open>Ticks\<close>

definition solar_os_tick_stats_reset :: "tick_stats option \<Rightarrow> tick_stats option" where
  "solar_os_tick_stats_reset stats = map_option (\<lambda>_. tick_stats_zero) stats"

definition solar_os_tick_interval_ms :: "u32 \<Rightarrow> u32 \<Rightarrow> u32" where
  "solar_os_tick_interval_ms configured_interval_ms default_interval_ms =
     (if configured_interval_ms \<noteq> 0 then configured_interval_ms else default_interval_ms)"

definition solar_os_tick_due ::
  "tick_stats option \<Rightarrow> u32 \<Rightarrow> u32 \<Rightarrow> u32 \<Rightarrow> u32 \<Rightarrow> u32 \<Rightarrow> bool \<times> tick_stats option" where
  "solar_os_tick_due stats configured_interval_ms configured_deadline_ms
      default_interval_ms default_deadline_ms now_ms =
     (case stats of
        None \<Rightarrow> (False, None)
      | Some s \<Rightarrow>
          let interval_ms = solar_os_tick_interval_ms configured_interval_ms default_interval_ms;
              deadline_ms = (if configured_deadline_ms \<noteq> 0 then configured_deadline_ms
                             else default_deadline_ms);
              s1 = s\<lparr>ts_interval_ms := interval_ms, ts_deadline_ms := deadline_ms\<rparr>
          in if ts_dispatch_count s1 \<noteq> 0 \<and> now_ms - ts_last_dispatch_ms s1 < interval_ms
             then (False, Some s1)
             else (True, Some (s1\<lparr>ts_last_dispatch_ms := now_ms\<rparr>)))"

definition solar_os_tick_begin :: "int \<Rightarrow> int" where
  "solar_os_tick_begin timer_us = timer_us"

definition solar_os_tick_end ::
  "tick_stats option \<Rightarrow> int \<Rightarrow> int \<Rightarrow> bool \<times> tick_stats option" where
  "solar_os_tick_end stats started_us timer_us =
     (case stats of
        None \<Rightarrow> (False, None)
      | Some s \<Rightarrow>
          let d0 = timer_us - started_us;
              d1 = (if d0 < 0 then 0 else d0);
              d2 = (if 2 ^ 32 - 1 < d1 then 2 ^ 32 - 1 else d1);
              duration = (word_of_int d2 :: u32);
              s1 = s\<lparr>ts_dispatch_count := ts_dispatch_count s + 1,
                     ts_last_duration_us := duration\<rparr>;
              s2 = (if ts_max_duration_us s1 < ts_last_duration_us s1
                    then s1\<lparr>ts_max_duration_us := ts_last_duration_us s1\<rparr> else s1);
              missed = (ts_deadline_ms s2 \<noteq> 0 \<and>
                        (ucast (ts_deadline_ms s2) :: u64) * 1000 < ucast (ts_last_duration_us s2))
          in (missed,
              Some (if missed then s2\<lparr>ts_deadline_miss_count := ts_deadline_miss_count s2 + 1\<rparr>
                    else s2)))"

definition solar_os_tick_should_log_miss :: "tick_stats option \<Rightarrow> bool" where
  "solar_os_tick_should_log_miss stats =
     (case stats of
        None \<Rightarrow> False
      | Some s \<Rightarrow>
          if ts_deadline_miss_count s = 0 then False
          else let count = ts_deadline_miss_count s in count AND (count - 1) = 0)"

section \<open>The main loop\<close>

definition solar_os_runtime_wait_ms :: "u32 \<Rightarrow> bool \<Rightarrow> u32" where
  "solar_os_runtime_wait_ms requested_interval_ms requires_fast_poll =
     (let maximum_ms = (if requires_fast_poll then RUNTIME_WAIT_POLL_MAX_MS
                        else RUNTIME_WAIT_EVENT_MAX_MS)
      in if requested_interval_ms = 0 then 1
         else if requested_interval_ms < maximum_ms then requested_interval_ms
         else maximum_ms)"

definition runtime_loop_fresh :: "u32 \<Rightarrow> runtime_loop_stats" where
  "runtime_loop_fresh now_ms = runtime_loop_stats_zero\<lparr>rl_initialized := True,
     rl_sample_started_ms := now_ms, rl_planned_wait_min_ms := - 1\<rparr>"

definition solar_os_runtime_loop_note ::
  "runtime_loop_stats option \<Rightarrow> u32 \<Rightarrow> u32 \<Rightarrow> runtime_loop_stats option" where
  "solar_os_runtime_loop_note stats now_ms planned_wait_ms =
     (case stats of
        None \<Rightarrow> None
      | Some s \<Rightarrow>
          let s0 = (if \<not> rl_initialized s then runtime_loop_fresh now_ms else s);
              s1 = s0\<lparr>rl_loop_count := rl_loop_count s0 + 1,
                     rl_planned_wait_total_ms := rl_planned_wait_total_ms s0 + ucast planned_wait_ms\<rparr>;
              s2 = (if planned_wait_ms < rl_planned_wait_min_ms s1
                    then s1\<lparr>rl_planned_wait_min_ms := planned_wait_ms\<rparr> else s1);
              s3 = (if rl_planned_wait_max_ms s2 < planned_wait_ms
                    then s2\<lparr>rl_planned_wait_max_ms := planned_wait_ms\<rparr> else s2)
          in Some s3)"

definition solar_os_runtime_loop_take_report ::
  "runtime_loop_stats option \<Rightarrow> u32 \<Rightarrow> u32 \<Rightarrow> runtime_loop_report option
   \<Rightarrow> bool \<times> runtime_loop_stats option \<times> runtime_loop_report option" where
  "solar_os_runtime_loop_take_report stats now_ms report_interval_ms report =
     (case (stats, report) of
        (Some s, Some r) \<Rightarrow>
          if \<not> rl_initialized s \<or> report_interval_ms = 0 then (False, stats, report)
          else
            let elapsed_ms = now_ms - rl_sample_started_ms s
            in if elapsed_ms < report_interval_ms then (False, stats, report)
               else (True, Some (runtime_loop_fresh now_ms),
                     Some \<lparr>rr_elapsed_ms = elapsed_ms,
                           rr_loop_count = rl_loop_count s,
                           rr_planned_wait_total_ms = rl_planned_wait_total_ms s,
                           rr_planned_wait_min_ms =
                             (if rl_loop_count s \<noteq> 0 then rl_planned_wait_min_ms s else 0),
                           rr_planned_wait_max_ms = rl_planned_wait_max_ms s\<rparr>)
      | _ \<Rightarrow> (False, stats, report))"

text \<open>A dispatch: a tick that is due, run from \<open>started_us\<close> to \<open>ended_us\<close>.\<close>

definition tick_dispatch ::
  "tick_stats \<Rightarrow> u32 \<Rightarrow> u32 \<Rightarrow> u32 \<Rightarrow> u32 \<Rightarrow> u32 \<Rightarrow> int \<Rightarrow> int \<Rightarrow> tick_stats option" where
  "tick_dispatch s ci cd di dd now_ms started_us ended_us =
     (case solar_os_tick_due (Some s) ci cd di dd now_ms of
        (True, s1) \<Rightarrow> snd (solar_os_tick_end s1 (solar_os_tick_begin started_us) ended_us)
      | (False, _) \<Rightarrow> None)"

fun runtime_loop_notes :: "runtime_loop_stats option \<Rightarrow> (u32 \<times> u32) list \<Rightarrow> runtime_loop_stats option"
where
  "runtime_loop_notes s [] = s"
| "runtime_loop_notes s ((now, w) # ws) =
     runtime_loop_notes (solar_os_runtime_loop_note s now w) ws"

section \<open>Properties\<close>

lemma tick_end_fields:
  assumes "solar_os_tick_end (Some s) a b = (m, Some s')"
  shows "ts_dispatch_count s' = ts_dispatch_count s + 1"
    and "ts_last_dispatch_ms s' = ts_last_dispatch_ms s"
    and "ts_interval_ms s' = ts_interval_ms s"
  using assms by (auto simp: solar_os_tick_end_def Let_def split: if_splits)

lemma tick_due_True:
  assumes "solar_os_tick_due (Some s) ci cd di dd now = (True, Some s')"
  shows "ts_last_dispatch_ms s' = now" and "ts_dispatch_count s' = ts_dispatch_count s"
    and "ts_dispatch_count s \<noteq> 0 \<Longrightarrow>
           solar_os_tick_interval_ms ci di \<le> now - ts_last_dispatch_ms s"
  using assms by (auto simp: solar_os_tick_due_def Let_def not_less split: if_splits)

lemma tick_dispatch_Some:
  assumes "tick_dispatch s ci cd di dd now a b = Some s'"
  shows "ts_last_dispatch_ms s' = now" and "ts_dispatch_count s' = ts_dispatch_count s + 1"
    and "ts_dispatch_count s \<noteq> 0 \<Longrightarrow>
           solar_os_tick_interval_ms ci di \<le> now - ts_last_dispatch_ms s"
proof -
  from assms obtain s1 where due: "solar_os_tick_due (Some s) ci cd di dd now = (True, Some s1)"
    and fin: "snd (solar_os_tick_end (Some s1) a b) = Some s'"
    by (auto simp: tick_dispatch_def solar_os_tick_begin_def solar_os_tick_due_def Let_def
        split: prod.splits bool.splits if_splits)
  from fin obtain m where e: "solar_os_tick_end (Some s1) a b = (m, Some s')"
    by (metis prod.collapse)
  show "ts_last_dispatch_ms s' = now" "ts_dispatch_count s' = ts_dispatch_count s + 1"
    using tick_end_fields [OF e] tick_due_True [OF due] by simp_all
  show "ts_dispatch_count s \<noteq> 0 \<Longrightarrow>
      solar_os_tick_interval_ms ci di \<le> now - ts_last_dispatch_ms s"
    using tick_due_True [OF due] by simp
qed


lemma tick_dispatch_wrap_run:
  "\<exists>s1 s2. tick_dispatch tick_stats_zero 0 0 25 25 0xFFFFFFF0 0 400 = Some s1 \<and>
     tick_dispatch s1 0 0 25 25 9 1000 1200 = Some s2"
  by (simp add: tick_dispatch_def solar_os_tick_due_def solar_os_tick_end_def
      solar_os_tick_begin_def solar_os_tick_interval_ms_def tick_stats_zero_def Let_def)


lemma nat_and_pred_zero: "0 < n \<Longrightarrow> n AND (n - 1) = 0 \<longleftrightarrow> (\<exists>k. n = (2 :: nat) ^ k)"
proof (induction n rule: less_induct)
  case (less n)
  show ?case
  proof (cases "even n")
    case True
    then obtain m where m: "n = 2 * m" by (elim evenE)
    then have pos: "0 < m" and lt: "m < n" using less.prems by auto
    have d: "(2 * m - 1) div 2 = m - 1" using pos by (cases m) auto
    have "n AND (n - 1) = 2 * (m AND (m - 1))"
      using m pos d by (subst and_nat_rec) auto
    then have "n AND (n - 1) = 0 \<longleftrightarrow> (\<exists>k. m = 2 ^ k)"
      using less.IH [OF lt pos] by simp
    also have "\<dots> \<longleftrightarrow> (\<exists>k. n = 2 ^ k)"
    proof
      assume "\<exists>k. m = 2 ^ k"
      then show "\<exists>k. n = 2 ^ k" using m by (metis power_Suc)
    next
      assume "\<exists>k. n = 2 ^ k"
      then obtain k where k: "n = 2 ^ k" by blast
      then have "k \<noteq> 0" using True by (metis odd_one power_0)
      then obtain j where "k = Suc j" by (cases k) auto
      then show "\<exists>k. m = 2 ^ k" using k m by auto
    qed
    finally show ?thesis .
  next
    case False
    then obtain m where m: "n = 2 * m + 1" by (elim oddE)
    have "n AND (n - 1) = 2 * (m AND m)"
      using m by (subst and_nat_rec) auto
    then have "n AND (n - 1) = 0 \<longleftrightarrow> n = 1" using m by simp
    also have "\<dots> \<longleftrightarrow> (\<exists>k. n = 2 ^ k)"
    proof
      assume "\<exists>k. n = 2 ^ k"
      then obtain k where "n = 2 ^ k" by blast
      then show "n = 1" using False by (cases k) auto
    qed (metis power_0)
    finally show ?thesis .
  qed
qed

text \<open>
  Deadline misses are logged with exponential back-off: the predicate is true exactly when the
  miss counter is a power of two, so the n-th miss is logged iff n is 1, 2, 4, 8, \<dots>.
\<close>

theorem should_log_miss_powers_of_two:
  "solar_os_tick_should_log_miss (Some s) \<longleftrightarrow> (\<exists>k. unat (ts_deadline_miss_count s) = 2 ^ k)"
proof (cases "ts_deadline_miss_count s = 0")
  case True
  then show ?thesis by (simp add: solar_os_tick_should_log_miss_def)
next
  case False
  let ?c = "ts_deadline_miss_count s"
  have pred: "unat (?c - 1) = unat ?c - 1"
    using False by (simp add: unat_sub word_le_nat_alt Suc_leI unat_gt_0)
  have "?c AND (?c - 1) = 0 \<longleftrightarrow> unat (?c AND (?c - 1)) = 0"
    by (simp add: unat_eq_zero)
  also have "\<dots> \<longleftrightarrow> unat ?c AND (unat ?c - 1) = 0"
    by (simp only: unsigned_and_eq pred)
  also have "\<dots> \<longleftrightarrow> (\<exists>k. unat ?c = 2 ^ k)"
    using False by (intro nat_and_pred_zero) (simp add: unat_gt_0)
  finally show ?thesis using False by (simp add: solar_os_tick_should_log_miss_def Let_def)
qed

lemma min_as_if: "min a (b :: 'a :: linorder) = (if a < b then a else b)"
  by (auto simp: min_def)

lemma max_as_if: "max a (b :: 'a :: linorder) = (if b < a then a else b)"
  by (auto simp: max_def)

lemma runtime_loop_note_init:
  assumes "rl_initialized s"
  shows "\<exists>s'. solar_os_runtime_loop_note (Some s) now w = Some s' \<and> rl_initialized s'
    \<and> rl_sample_started_ms s' = rl_sample_started_ms s
    \<and> rl_loop_count s' = rl_loop_count s + 1
    \<and> rl_planned_wait_total_ms s' = rl_planned_wait_total_ms s + ucast w
    \<and> rl_planned_wait_min_ms s' = min w (rl_planned_wait_min_ms s)
    \<and> rl_planned_wait_max_ms s' = max w (rl_planned_wait_max_ms s)"
  using assms by (simp add: solar_os_runtime_loop_note_def Let_def min_as_if max_as_if)

lemma runtime_loop_notes_init:
  assumes "rl_initialized s"
  shows "\<exists>s'. runtime_loop_notes (Some s) ws = Some s' \<and> rl_initialized s'
    \<and> rl_sample_started_ms s' = rl_sample_started_ms s
    \<and> rl_loop_count s' = rl_loop_count s + of_nat (length ws)
    \<and> rl_planned_wait_total_ms s' = rl_planned_wait_total_ms s + of_nat (sum_list (map (unat \<circ> snd) ws))
    \<and> rl_planned_wait_min_ms s' = fold min (map snd ws) (rl_planned_wait_min_ms s)
    \<and> rl_planned_wait_max_ms s' = fold max (map snd ws) (rl_planned_wait_max_ms s)"
  using assms
proof (induction ws arbitrary: s)
  case Nil
  then show ?case by simp
next
  case (Cons x ws)
  obtain now w where x: "x = (now, w)" by (cases x)
  obtain s1 where s1: "solar_os_runtime_loop_note (Some s) now w = Some s1" "rl_initialized s1"
    "rl_sample_started_ms s1 = rl_sample_started_ms s"
    "rl_loop_count s1 = rl_loop_count s + 1"
    "rl_planned_wait_total_ms s1 = rl_planned_wait_total_ms s + ucast w"
    "rl_planned_wait_min_ms s1 = min w (rl_planned_wait_min_ms s)"
    "rl_planned_wait_max_ms s1 = max w (rl_planned_wait_max_ms s)"
    using runtime_loop_note_init [OF Cons.prems] by blast
  show ?case
    using Cons.IH [OF s1(2)] s1 x by (auto simp: algebra_simps unsigned_ucast_eq)
qed

lemma notes_uninitialized:
  assumes "\<not> rl_initialized s0" and "ws \<noteq> []"
  shows "runtime_loop_notes (Some s0) ws = runtime_loop_notes (Some (runtime_loop_fresh (fst (hd ws)))) ws"
  using assms
  by (cases ws) (auto simp: solar_os_runtime_loop_note_def runtime_loop_fresh_def
      runtime_loop_stats_zero_def Let_def)

lemma fold_min_top:
  fixes xs :: "u32 list"
  assumes "xs \<noteq> []"
  shows "fold min xs (- 1) = Min (set xs)"
proof -
  have "fold min xs (- 1) = Min (insert (- 1) (set xs))"
    using Min.set_eq_fold [of "- 1" xs] by simp
  also have "\<dots> = min (- 1) (Min (set xs))"
    using assms by (simp add: Min_insert)
  also have "\<dots> = Min (set xs)" by (simp add: min_absorb2)
  finally show ?thesis .
qed

lemma fold_max_bottom:
  fixes xs :: "u32 list"
  assumes "xs \<noteq> []"
  shows "fold max xs 0 = Max (set xs)"
proof -
  have "fold max xs 0 = Max (insert 0 (set xs))"
    using Max.set_eq_fold [of 0 xs] by simp
  also have "\<dots> = max 0 (Max (set xs))"
    using assms by (simp add: Max_insert)
  finally show ?thesis by simp
qed

lemma waits_sum_bound:
  "length ws < 2 ^ 32 \<Longrightarrow> sum_list (map (unat \<circ> snd) (ws :: (u32 \<times> u32) list)) < 2 ^ 64"
proof -
  assume len: "length ws < 2 ^ 32"
  have "sum_list (map (unat \<circ> snd) ws) \<le> length ws * (2 ^ 32 - 1)"
  proof (induction ws)
    case (Cons x ws)
    have "unat (snd x) \<le> 2 ^ 32 - 1"
      using unat_u32_less [of "snd x"] by simp
    with Cons show ?case by (simp add: algebra_simps)
  qed simp
  also have "\<dots> \<le> (2 ^ 32 - 1) * (2 ^ 32 - 1)"
    using len by (intro mult_right_mono) auto
  finally show ?thesis by simp
qed

text \<open>
  The main loop report is exact: after noting any non-empty sequence of planned waits (fewer
  than 2^32 of them) from uninitialised statistics, the report gives their number, their sum
  without overflow, their minimum and their maximum, and the statistics restart at the report time.
\<close>

theorem runtime_loop_report_exact:
  assumes "ws \<noteq> []" and "length ws < 2 ^ 32" and "\<not> rl_initialized s0"
    and "interval \<noteq> 0" and "interval \<le> now - fst (hd ws)"
  shows "\<exists>r. solar_os_runtime_loop_take_report (runtime_loop_notes (Some s0) ws) now interval (Some r0)
           = (True, Some (runtime_loop_fresh now), Some r)
     \<and> rr_elapsed_ms r = now - fst (hd ws)
     \<and> unat (rr_loop_count r) = length ws
     \<and> unat (rr_planned_wait_total_ms r) = sum_list (map (unat \<circ> snd) ws)
     \<and> rr_planned_wait_min_ms r = Min (snd ` set ws)
     \<and> rr_planned_wait_max_ms r = Max (snd ` set ws)"
proof -
  let ?f = "runtime_loop_fresh (fst (hd ws))"
  have init: "rl_initialized ?f" "rl_sample_started_ms ?f = fst (hd ws)" "rl_loop_count ?f = 0"
    "rl_planned_wait_total_ms ?f = 0" "rl_planned_wait_min_ms ?f = - 1" "rl_planned_wait_max_ms ?f = 0"
    by (simp_all add: runtime_loop_fresh_def runtime_loop_stats_zero_def)
  obtain s where s: "runtime_loop_notes (Some s0) ws = Some s" "rl_initialized s"
    "rl_sample_started_ms s = fst (hd ws)" "rl_loop_count s = of_nat (length ws)"
    "rl_planned_wait_total_ms s = of_nat (sum_list (map (unat \<circ> snd) ws))"
    "rl_planned_wait_min_ms s = Min (set (map snd ws))"
    "rl_planned_wait_max_ms s = Max (set (map snd ws))"
    using runtime_loop_notes_init [OF init(1), of ws] notes_uninitialized [OF assms(3,1)] init assms(1)
    by (auto simp: fold_min_top fold_max_bottom)
  have cnt: "unat (of_nat (length ws) :: u32) = length ws"
    using assms(2) by (simp add: unat_of_nat_u32)
  moreover have "unat (of_nat (sum_list (map (unat \<circ> snd) ws)) :: u64) = sum_list (map (unat \<circ> snd) ws)"
    using waits_sum_bound [OF assms(2)] by (rule unat_of_nat_u64)
  moreover have "(of_nat (length ws) :: u32) \<noteq> 0"
    using cnt assms(1) by (metis length_0_conv unat_0)
  ultimately show ?thesis
    using s assms(4,5) by (simp add: solar_os_runtime_loop_take_report_def Let_def not_less)
qed

theorem runtime_loop_report_exact_witness:
  "\<exists>r. solar_os_runtime_loop_take_report
      (runtime_loop_notes (Some runtime_loop_stats_zero) [(100, 7), (110, 3)]) 160 50
      (Some \<lparr>rr_elapsed_ms = 0, rr_loop_count = 0, rr_planned_wait_total_ms = 0,
             rr_planned_wait_min_ms = 0, rr_planned_wait_max_ms = 0\<rparr>)
      = (True, Some (runtime_loop_fresh 160), Some r)
    \<and> rr_elapsed_ms r = 60 \<and> unat (rr_loop_count r) = Suc (Suc 0)
    \<and> unat (rr_planned_wait_total_ms r) = 10
    \<and> rr_planned_wait_min_ms r = 3 \<and> rr_planned_wait_max_ms r = 7"
  using runtime_loop_report_exact [of "[(100, 7), (110, 3)]" runtime_loop_stats_zero 50 160
      "\<lparr>rr_elapsed_ms = 0, rr_loop_count = 0, rr_planned_wait_total_ms = 0,
             rr_planned_wait_min_ms = 0, rr_planned_wait_max_ms = 0\<rparr>"]
  by (simp add: runtime_loop_stats_zero_def)

end
