(* ===== verification/Resources.thy ===== *)
theory Resources
  imports SolarBase
begin

text \<open>
  The hardware resource registry of \<open>src/src/services/solar_os_resources.c\<close>: a fixed table of
  claims on pins, buses and addresses. A driver claims a bundle of resources in one step; a claim
  has an owner and is refused while another owner holds the same resource. The mutex is created on
  first use: \<open>mutex_ok\<close> is the outcome of \<open>xSemaphoreCreateMutexStatic\<close>, which is not part of
  the sources. An operation runs inside the mutex, so it is one step.
\<close>

section \<open>State\<close>

datatype resource_kind =
    RESOURCE_GPIO_PIN
  | RESOURCE_ADC_PIN
  | RESOURCE_PWM_PIN
  | RESOURCE_I2C_PORT
  | RESOURCE_SPI_HOST
  | RESOURCE_I2C_ADDRESS
  | RESOURCE_SPI_CS
  | RESOURCE_UART_PORT
  | RESOURCE_I2S_PORT
  | RESOURCE_OTHER int

record resource_claim =
  rc_active :: bool
  rc_kind :: resource_kind
  rc_primary :: int
  rc_secondary :: int
  rc_owner :: string
  rc_label :: string

record resource_request =
  rq_kind :: resource_kind
  rq_primary :: int
  rq_secondary :: int
  rq_label :: "string option"

record resource_conflict =
  cf_request_index :: nat
  cf_existing :: resource_claim

record resources_state =
  rs_mutex :: bool
  rs_claims :: "resource_claim list"

definition SOLAR_OS_RESOURCE_CLAIM_MAX :: nat where
  "SOLAR_OS_RESOURCE_CLAIM_MAX = 64"

definition SOLAR_OS_RESOURCE_OWNER_MAX :: nat where
  "SOLAR_OS_RESOURCE_OWNER_MAX = 24"

definition SOLAR_OS_RESOURCE_LABEL_MAX :: nat where
  "SOLAR_OS_RESOURCE_LABEL_MAX = 24"

definition SOLAR_OS_RESOURCE_BUNDLE_MAX :: nat where
  "SOLAR_OS_RESOURCE_BUNDLE_MAX = 16"

definition resource_claim_zero :: resource_claim where
  "resource_claim_zero = \<lparr>rc_active = False, rc_kind = RESOURCE_GPIO_PIN, rc_primary = 0,
     rc_secondary = 0, rc_owner = [], rc_label = []\<rparr>"

definition resource_conflict_zero :: resource_conflict where
  "resource_conflict_zero = \<lparr>cf_request_index = 0, cf_existing = resource_claim_zero\<rparr>"

definition resources_boot :: resources_state where
  "resources_boot = \<lparr>rs_mutex = False,
     rs_claims = replicate SOLAR_OS_RESOURCE_CLAIM_MAX resource_claim_zero\<rparr>"

section \<open>Operations\<close>

definition resources_ensure_init :: "bool \<Rightarrow> resources_state \<Rightarrow> esp_err \<times> resources_state" where
  "resources_ensure_init mutex_ok s =
     (if rs_mutex s then (ESP_OK, s)
      else if \<not> mutex_ok then (ESP_ERR_NO_MEM, s)
      else (ESP_OK, s\<lparr>rs_mutex := True\<rparr>))"

definition resource_key_matches :: "resource_claim \<Rightarrow> resource_kind \<Rightarrow> int \<Rightarrow> int \<Rightarrow> bool" where
  "resource_key_matches claim kind primary secondary \<longleftrightarrow>
     rc_active claim \<and> rc_kind claim = kind \<and> rc_primary claim = primary
     \<and> rc_secondary claim = secondary"

definition request_key_matches :: "resource_request \<Rightarrow> resource_request \<Rightarrow> bool" where
  "request_key_matches a b \<longleftrightarrow>
     rq_kind a = rq_kind b \<and> rq_primary a = rq_primary b \<and> rq_secondary a = rq_secondary b"

definition resource_find_locked ::
  "resource_claim list \<Rightarrow> resource_kind \<Rightarrow> int \<Rightarrow> int \<Rightarrow> nat option" where
  "resource_find_locked claims kind primary secondary =
     first_index (\<lambda>c. resource_key_matches c kind primary secondary) claims"

definition solar_os_resources_init :: "bool \<Rightarrow> resources_state \<Rightarrow> esp_err \<times> resources_state" where
  "solar_os_resources_init mutex_ok s = resources_ensure_init mutex_ok s"

fun bundle_has_duplicate :: "resource_request list \<Rightarrow> bool" where
  "bundle_has_duplicate [] = False"
| "bundle_has_duplicate (r # rs) =
     (list_ex (request_key_matches r) rs \<or> bundle_has_duplicate rs)"

text \<open>The checking loop of a bundle: the first foreign claim, or the number of missing claims.\<close>

fun bundle_check ::
  "resource_claim list \<Rightarrow> string \<Rightarrow> nat \<Rightarrow> nat \<Rightarrow> resource_request list
   \<Rightarrow> resource_conflict + nat" where
  "bundle_check claims owner i required_count [] = Inr required_count"
| "bundle_check claims owner i required_count (r # rs) =
     (case resource_find_locked claims (rq_kind r) (rq_primary r) (rq_secondary r) of
        None \<Rightarrow> bundle_check claims owner (Suc i) (Suc required_count) rs
      | Some k \<Rightarrow>
          if \<not> strncmp_eq SOLAR_OS_RESOURCE_OWNER_MAX (rc_owner (claims ! k)) owner
          then Inl \<lparr>cf_request_index = i, cf_existing = claims ! k\<rparr>
          else bundle_check claims owner (Suc i) required_count rs)"

definition new_claim :: "resource_request \<Rightarrow> string \<Rightarrow> resource_claim" where
  "new_claim r owner = \<lparr>rc_active = True, rc_kind = rq_kind r, rc_primary = rq_primary r,
     rc_secondary = rq_secondary r, rc_owner = strlcpy SOLAR_OS_RESOURCE_OWNER_MAX owner,
     rc_label = strlcpy SOLAR_OS_RESOURCE_LABEL_MAX (cstr (rq_label r))\<rparr>"

fun bundle_fill :: "string \<Rightarrow> resource_claim list \<Rightarrow> resource_request list \<Rightarrow> resource_claim list" where
  "bundle_fill owner claims [] = claims"
| "bundle_fill owner claims (r # rs) =
     (if resource_find_locked claims (rq_kind r) (rq_primary r) (rq_secondary r) \<noteq> None
      then bundle_fill owner claims rs
      else (case first_index (\<lambda>c. \<not> rc_active c) claims of
              None \<Rightarrow> bundle_fill owner claims rs
            | Some k \<Rightarrow> bundle_fill owner (claims[k := new_claim r owner]) rs))"

definition free_count :: "resource_claim list \<Rightarrow> nat" where
  "free_count claims = length (filter (\<lambda>c. \<not> rc_active c) claims)"

definition solar_os_resource_claim_bundle ::
  "bool \<Rightarrow> resources_state \<Rightarrow> resource_request list option \<Rightarrow> string option
   \<Rightarrow> esp_err \<times> resources_state \<times> resource_conflict" where
  "solar_os_resource_claim_bundle mutex_ok s requests owner =
     (case (requests, owner) of
        (Some rs, Some own) \<Rightarrow>
          if rs = [] \<or> SOLAR_OS_RESOURCE_BUNDLE_MAX < length rs \<or> own = []
          then (ESP_ERR_INVALID_ARG, s, resource_conflict_zero)
          else if bundle_has_duplicate rs then (ESP_ERR_INVALID_ARG, s, resource_conflict_zero)
          else (case resources_ensure_init mutex_ok s of
                  (ESP_OK, s1) \<Rightarrow>
                    (case bundle_check (rs_claims s1) own 0 0 rs of
                       Inl conflict \<Rightarrow> (ESP_ERR_INVALID_STATE, s1, conflict)
                     | Inr required_count \<Rightarrow>
                         if free_count (rs_claims s1) < required_count
                         then (ESP_ERR_NO_MEM, s1, resource_conflict_zero)
                         else (ESP_OK, s1\<lparr>rs_claims := bundle_fill own (rs_claims s1) rs\<rparr>,
                               resource_conflict_zero))
                | (err, s1) \<Rightarrow> (err, s1, resource_conflict_zero))
      | _ \<Rightarrow> (ESP_ERR_INVALID_ARG, s, resource_conflict_zero))"

definition solar_os_resource_claim ::
  "bool \<Rightarrow> resources_state \<Rightarrow> resource_kind \<Rightarrow> int \<Rightarrow> int \<Rightarrow> string option \<Rightarrow> string option
   \<Rightarrow> esp_err \<times> resources_state" where
  "solar_os_resource_claim mutex_ok s kind primary secondary owner label =
     (case solar_os_resource_claim_bundle mutex_ok s
             (Some [\<lparr>rq_kind = kind, rq_primary = primary, rq_secondary = secondary,
                     rq_label = label\<rparr>]) owner of
        (err, s1, _) \<Rightarrow> (err, s1))"

definition solar_os_resource_release ::
  "bool \<Rightarrow> resources_state \<Rightarrow> resource_kind \<Rightarrow> int \<Rightarrow> int \<Rightarrow> string option
   \<Rightarrow> esp_err \<times> resources_state" where
  "solar_os_resource_release mutex_ok s kind primary secondary owner =
     (case owner of
        None \<Rightarrow> (ESP_ERR_INVALID_ARG, s)
      | Some own \<Rightarrow>
          if own = [] then (ESP_ERR_INVALID_ARG, s)
          else (case resources_ensure_init mutex_ok s of
                  (ESP_OK, s1) \<Rightarrow>
                    (case resource_find_locked (rs_claims s1) kind primary secondary of
                       None \<Rightarrow> (ESP_ERR_NOT_FOUND, s1)
                     | Some k \<Rightarrow>
                         if \<not> strncmp_eq SOLAR_OS_RESOURCE_OWNER_MAX (rc_owner (rs_claims s1 ! k)) own
                         then (ESP_ERR_INVALID_STATE, s1)
                         else (ESP_OK, s1\<lparr>rs_claims := (rs_claims s1)[k := resource_claim_zero]\<rparr>))
                | (err, s1) \<Rightarrow> (err, s1)))"

definition owned_by :: "string \<Rightarrow> resource_claim \<Rightarrow> bool" where
  "owned_by own c \<longleftrightarrow> rc_active c \<and> strncmp_eq SOLAR_OS_RESOURCE_OWNER_MAX (rc_owner c) own"

definition solar_os_resource_release_owner ::
  "bool \<Rightarrow> resources_state \<Rightarrow> string option \<Rightarrow> nat \<times> resources_state" where
  "solar_os_resource_release_owner mutex_ok s owner =
     (case owner of
        None \<Rightarrow> (0, s)
      | Some own \<Rightarrow>
          if own = [] then (0, s)
          else (case resources_ensure_init mutex_ok s of
                  (ESP_OK, s1) \<Rightarrow>
                    (length (filter (owned_by own) (rs_claims s1)),
                     s1\<lparr>rs_claims := map (\<lambda>c. if owned_by own c then resource_claim_zero else c)
                                       (rs_claims s1)\<rparr>)
                | (_, s1) \<Rightarrow> (0, s1)))"

definition solar_os_resource_claim_count :: "bool \<Rightarrow> resources_state \<Rightarrow> nat \<times> resources_state" where
  "solar_os_resource_claim_count mutex_ok s =
     (case resources_ensure_init mutex_ok s of
        (ESP_OK, s1) \<Rightarrow> (length (filter rc_active (rs_claims s1)), s1)
      | (_, s1) \<Rightarrow> (0, s1))"

fun nth_active :: "nat \<Rightarrow> resource_claim list \<Rightarrow> resource_claim option" where
  "nth_active index [] = None"
| "nth_active index (c # cs) =
     (if \<not> rc_active c then nth_active index cs
      else if index = 0 then Some c
      else nth_active (index - 1) cs)"

definition solar_os_resource_get_claim ::
  "bool \<Rightarrow> resources_state \<Rightarrow> nat \<Rightarrow> resource_claim option
   \<Rightarrow> bool \<times> resources_state \<times> resource_claim option" where
  "solar_os_resource_get_claim mutex_ok s index claim =
     (case claim of
        None \<Rightarrow> (False, s, None)
      | Some old \<Rightarrow>
          (case resources_ensure_init mutex_ok s of
             (ESP_OK, s1) \<Rightarrow>
               (case nth_active index (rs_claims s1) of
                  Some c \<Rightarrow> (True, s1, Some c)
                | None \<Rightarrow> (False, s1, Some old))
           | (_, s1) \<Rightarrow> (False, s1, Some old)))"

definition solar_os_resource_find_claim ::
  "bool \<Rightarrow> resources_state \<Rightarrow> resource_kind \<Rightarrow> int \<Rightarrow> int \<Rightarrow> resource_claim option
   \<Rightarrow> bool \<times> resources_state \<times> resource_claim option" where
  "solar_os_resource_find_claim mutex_ok s kind primary secondary claim =
     (case claim of
        None \<Rightarrow> (False, s, None)
      | Some old \<Rightarrow>
          (case resources_ensure_init mutex_ok s of
             (ESP_OK, s1) \<Rightarrow>
               (case resource_find_locked (rs_claims s1) kind primary secondary of
                  Some k \<Rightarrow> (True, s1, Some (rs_claims s1 ! k))
                | None \<Rightarrow> (False, s1, Some old))
           | (_, s1) \<Rightarrow> (False, s1, Some old)))"

fun solar_os_resource_kind_name :: "resource_kind \<Rightarrow> string" where
  "solar_os_resource_kind_name RESOURCE_GPIO_PIN = ''gpio''"
| "solar_os_resource_kind_name RESOURCE_ADC_PIN = ''adc''"
| "solar_os_resource_kind_name RESOURCE_PWM_PIN = ''pwm''"
| "solar_os_resource_kind_name RESOURCE_I2C_PORT = ''i2c_port''"
| "solar_os_resource_kind_name RESOURCE_SPI_HOST = ''spi_host''"
| "solar_os_resource_kind_name RESOURCE_I2C_ADDRESS = ''i2c_addr''"
| "solar_os_resource_kind_name RESOURCE_SPI_CS = ''spi_cs''"
| "solar_os_resource_kind_name RESOURCE_UART_PORT = ''uart''"
| "solar_os_resource_kind_name RESOURCE_I2S_PORT = ''i2s_port''"
| "solar_os_resource_kind_name (RESOURCE_OTHER n) = ''unknown''"

section \<open>The abstract registry: a map from resources to owners\<close>

type_synonym resource_key = "resource_kind \<times> int \<times> int"

definition claim_key :: "resource_claim \<Rightarrow> resource_key" where
  "claim_key c = (rc_kind c, rc_primary c, rc_secondary c)"

definition request_key :: "resource_request \<Rightarrow> resource_key" where
  "request_key r = (rq_kind r, rq_primary r, rq_secondary r)"

definition holders :: "resource_claim list \<Rightarrow> resource_key \<Rightarrow> string option" where
  "holders claims k =
     map_option (\<lambda>i. rc_owner (claims ! i)) (first_index (\<lambda>c. rc_active c \<and> claim_key c = k) claims)"

definition held :: "resource_claim list \<Rightarrow> resource_key \<Rightarrow> string \<Rightarrow> bool" where
  "held claims k own \<longleftrightarrow>
     (\<exists>i < length claims. rc_active (claims ! i) \<and> claim_key (claims ! i) = k \<and> rc_owner (claims ! i) = own)"

definition resources_inv :: "resources_state \<Rightarrow> bool" where
  "resources_inv s \<longleftrightarrow>
     length (rs_claims s) = SOLAR_OS_RESOURCE_CLAIM_MAX
     \<and> unique_used rc_active claim_key (rs_claims s)
     \<and> (\<forall>c \<in> set (rs_claims s). rc_active c \<longrightarrow> length (rc_owner c) < SOLAR_OS_RESOURCE_OWNER_MAX)"

interpretation claim_table: keyed_slots rc_active claim_key resource_claim_zero
  by unfold_locales (simp add: resource_claim_zero_def)

lemma new_claim_simps [simp]:
  "rc_active (new_claim r own)"
  "claim_key (new_claim r own) = request_key r"
  "rc_owner (new_claim r own) = strlcpy SOLAR_OS_RESOURCE_OWNER_MAX own"
  by (simp_all add: new_claim_def claim_key_def request_key_def)

lemma find_locked_key:
  "resource_find_locked claims kind primary secondary =
     first_index (\<lambda>c. rc_active c \<and> claim_key c = (kind, primary, secondary)) claims"
  unfolding resource_find_locked_def
  by (rule arg_cong [where f = "\<lambda>P. first_index P claims"])
     (auto simp: resource_key_matches_def claim_key_def)

lemma find_locked_request:
  "resource_find_locked claims (rq_kind r) (rq_primary r) (rq_secondary r) =
     first_index (\<lambda>c. rc_active c \<and> claim_key c = request_key r) claims"
  by (simp add: find_locked_key request_key_def)

lemma request_key_matches_key: "request_key_matches a b \<longleftrightarrow> request_key a = request_key b"
  by (simp add: request_key_matches_def request_key_def)

lemma bundle_has_duplicate_distinct:
  "bundle_has_duplicate rs \<longleftrightarrow> \<not> distinct (map request_key rs)"
  by (induction rs) (auto simp: list_ex_iff request_key_matches_key)

lemma holders_None: "holders claims k = None \<longleftrightarrow> k \<notin> used_keys rc_active claim_key claims"
  by (auto simp: holders_def first_index_None used_keys_iff all_set_conv_all_nth)

lemma holders_Some:
  assumes "unique_used rc_active claim_key claims"
  shows "holders claims k = Some own \<longleftrightarrow> held claims k own"
proof
  assume "holders claims k = Some own"
  then show "held claims k own" by (auto simp: holders_def held_def dest: first_indexD)
next
  assume "held claims k own"
  then obtain i where i: "i < length claims" "rc_active (claims ! i)" "claim_key (claims ! i) = k"
    "rc_owner (claims ! i) = own" by (auto simp: held_def)
  from claim_table.found_index [OF assms i(1-3)] i(4) show "holders claims k = Some own"
    by (simp add: holders_def)
qed

lemma holders_eqI:
  assumes "unique_used rc_active claim_key claims"
    and "\<And>k own. held claims k own \<longleftrightarrow> f k = Some own"
  shows "holders claims = f"
proof (intro ext option_eqI)
  fix k own
  show "holders claims k = Some own \<longleftrightarrow> f k = Some own"
    by (simp only: holders_Some [OF assms(1)] assms(2))
qed

section \<open>Filling a bundle\<close>

lemma free_count_update:
  assumes "k < length claims" and "\<not> rc_active (claims ! k)" and "rc_active c"
  shows "Suc (free_count (claims[k := c])) = free_count claims"
  using assms
proof (induction claims arbitrary: k)
  case (Cons x xs)
  then show ?case by (cases k) (auto simp: free_count_def)
qed simp

lemma free_slot: "0 < free_count claims \<Longrightarrow> \<exists>k. first_index (\<lambda>c. \<not> rc_active c) claims = Some k"
  using first_index_None [of "\<lambda>c. \<not> rc_active c" claims]
  by (cases "first_index (\<lambda>c. \<not> rc_active c) claims") (auto simp: free_count_def)

lemma insert_claim:
  assumes u: "unique_used rc_active claim_key claims"
    and none: "holders claims (request_key r) = None"
    and k: "first_index (\<lambda>c. \<not> rc_active c) claims = Some k"
  shows "unique_used rc_active claim_key (claims[k := new_claim r own])"
    and "holders (claims[k := new_claim r own]) =
           (holders claims)(request_key r \<mapsto> strlcpy SOLAR_OS_RESOURCE_OWNER_MAX own)"
proof -
  from k have kd: "k < length claims" "\<not> rc_active (claims ! k)" by (auto dest: first_indexD)
  show u': "unique_used rc_active claim_key (claims[k := new_claim r own])"
    using u none by (intro claim_table.unique_insert) (auto simp: holders_None used_keys_def)
  show "holders (claims[k := new_claim r own]) =
      (holders claims)(request_key r \<mapsto> strlcpy SOLAR_OS_RESOURCE_OWNER_MAX own)"
  proof (rule holders_eqI [OF u'])
    fix q e
    have "held (claims[k := new_claim r own]) q e \<longleftrightarrow>
        (request_key r = q \<and> strlcpy SOLAR_OS_RESOURCE_OWNER_MAX own = e) \<or> held claims q e"
      using kd by (auto simp: held_def nth_upd cong: conj_cong split: if_splits)
    then show "held (claims[k := new_claim r own]) q e
      \<longleftrightarrow> ((holders claims)(request_key r \<mapsto> strlcpy SOLAR_OS_RESOURCE_OWNER_MAX own)) q = Some e"
      using none holders_Some [OF u, of q e] by auto
  qed
qed

definition missing :: "resource_claim list \<Rightarrow> resource_request list \<Rightarrow> nat" where
  "missing claims rs = length (filter (\<lambda>r. holders claims (request_key r) = None) rs)"

lemma bundle_fill_spec:
  assumes "unique_used rc_active claim_key claims" and "distinct (map request_key rs)"
    and "missing claims rs \<le> free_count claims"
  shows "unique_used rc_active claim_key (bundle_fill own claims rs)
    \<and> length (bundle_fill own claims rs) = length claims
    \<and> holders (bundle_fill own claims rs) =
        (\<lambda>k. if k \<in> request_key ` set rs \<and> holders claims k = None
             then Some (strlcpy SOLAR_OS_RESOURCE_OWNER_MAX own) else holders claims k)"
  using assms
proof (induction rs arbitrary: claims)
  case Nil
  then show ?case by simp
next
  case (Cons r rs)
  show ?case
  proof (cases "holders claims (request_key r)")
    case (Some own')
    then have found: "resource_find_locked claims (rq_kind r) (rq_primary r) (rq_secondary r) \<noteq> None"
      by (auto simp: find_locked_request holders_def)
    have "missing claims rs \<le> free_count claims"
      using Cons.prems(3) Some by (simp add: missing_def)
    with Cons.prems Cons.IH [of claims] found Some show ?thesis by (auto simp: fun_eq_iff)
  next
    case None
    then have absent: "resource_find_locked claims (rq_kind r) (rq_primary r) (rq_secondary r) = None"
      by (simp add: find_locked_request holders_def)
    have miss: "missing claims (r # rs) = Suc (missing claims rs)"
      using None by (simp add: missing_def)
    then obtain k where k: "first_index (\<lambda>c. \<not> rc_active c) claims = Some k"
      using Cons.prems(3) free_slot [of claims] by auto
    let ?c = "claims[k := new_claim r own]"
    note ins = insert_claim [OF Cons.prems(1) None k, of own]
    have "free_count claims = Suc (free_count ?c)"
      using k by (intro free_count_update [symmetric]) (auto dest: first_indexD)
    moreover have "missing ?c rs \<le> missing claims rs"
      unfolding missing_def ins(2) by (induction rs) auto
    ultimately have "missing ?c rs \<le> free_count ?c" using miss Cons.prems(3) by simp
    with Cons.IH [OF ins(1)] Cons.prems(2) k absent ins(2) None
    show ?thesis by (auto simp: fun_eq_iff)
  qed
qed

section \<open>Each operation on the abstract map\<close>

definition owners_short :: "resource_claim list \<Rightarrow> bool" where
  "owners_short claims \<longleftrightarrow>
     (\<forall>k own. holders claims k = Some own \<longrightarrow> length own < SOLAR_OS_RESOURCE_OWNER_MAX)"

lemma inv_owners_short: "resources_inv s \<Longrightarrow> owners_short (rs_claims s)"
  by (auto simp: resources_inv_def owners_short_def holders_Some held_def all_set_conv_all_nth)

lemma strncmp_short_owner:
  "length e < n \<Longrightarrow> strncmp_eq n e own \<longleftrightarrow> e = own"
  using strncmp_eq_strlcpy_short [of e n own] by (simp add: strlcpy_id)

lemma bundle_check_Inr:
  assumes "bundle_check claims own i n rs = Inr m"
  shows "m = n + missing claims rs
    \<and> (\<forall>r \<in> set rs. \<forall>e. holders claims (request_key r) = Some e
         \<longrightarrow> strncmp_eq SOLAR_OS_RESOURCE_OWNER_MAX e own)"
  using assms
proof (induction rs arbitrary: i n)
  case Nil
  then show ?case by (simp add: missing_def)
next
  case (Cons r rs)
  show ?case
  proof (cases "resource_find_locked claims (rq_kind r) (rq_primary r) (rq_secondary r)")
    case None
    with Cons.prems have "bundle_check claims own (Suc i) (Suc n) rs = Inr m" by simp
    from Cons.IH [OF this] None show ?thesis
      by (auto simp: missing_def holders_def find_locked_request)
  next
    case (Some k)
    with Cons.prems have ok: "strncmp_eq SOLAR_OS_RESOURCE_OWNER_MAX (rc_owner (claims ! k)) own"
      and "bundle_check claims own (Suc i) n rs = Inr m" by (auto split: if_splits)
    from Cons.IH [OF this(2)] ok Some show ?thesis
      by (auto simp: missing_def holders_def find_locked_request)
  qed
qed

lemma bundle_check_Inl:
  assumes "bundle_check claims own i n rs = Inl c"
  shows "\<exists>j < length rs. cf_request_index c = i + j
    \<and> holders claims (request_key (rs ! j)) = Some (rc_owner (cf_existing c))
    \<and> \<not> strncmp_eq SOLAR_OS_RESOURCE_OWNER_MAX (rc_owner (cf_existing c)) own"
  using assms
proof (induction rs arbitrary: i n)
  case Nil
  then show ?case by simp
next
  case (Cons r rs)
  show ?case
  proof (cases "\<exists>k. resource_find_locked claims (rq_kind r) (rq_primary r) (rq_secondary r) = Some k
      \<and> \<not> strncmp_eq SOLAR_OS_RESOURCE_OWNER_MAX (rc_owner (claims ! k)) own")
    case True
    with Cons.prems show ?thesis
      by (intro exI [of _ 0]) (auto simp: holders_def find_locked_request)
  next
    case False
    then obtain n' where "bundle_check claims own (Suc i) n' rs = Inl c"
      using Cons.prems by (auto split: option.splits if_splits)
    from Cons.IH [OF this] obtain j where "j < length rs" "cf_request_index c = Suc i + j"
      "holders claims (request_key (rs ! j)) = Some (rc_owner (cf_existing c))"
      "\<not> strncmp_eq SOLAR_OS_RESOURCE_OWNER_MAX (rc_owner (cf_existing c)) own" by blast
    then show ?thesis by (intro exI [of _ "Suc j"]) auto
  qed
qed

lemma ensure_init_cases:
  "resources_ensure_init ok s = (err, s1) \<Longrightarrow>
     rs_claims s1 = rs_claims s \<and> (err = ESP_OK \<or> err = ESP_ERR_NO_MEM)"
  by (auto simp: resources_ensure_init_def split: if_splits)

lemma inv_claims_cong: "rs_claims s' = rs_claims s \<Longrightarrow> resources_inv s' = resources_inv s"
  by (simp add: resources_inv_def)

lemma claim_bundle_cases:
  assumes "solar_os_resource_claim_bundle ok s rs own = (err, s', conf)"
  obtains (same) "rs_claims s' = rs_claims s" "err \<noteq> ESP_OK" "err \<noteq> ESP_ERR_INVALID_STATE"
  | (conflict) rl o' where "rs = Some rl" "own = Some o'" "rs_claims s' = rs_claims s"
      "err = ESP_ERR_INVALID_STATE" "bundle_check (rs_claims s) o' 0 0 rl = Inl conf"
  | (granted) rl o' m where "rs = Some rl" "own = Some o'" "err = ESP_OK"
      "\<not> bundle_has_duplicate rl" "bundle_check (rs_claims s) o' 0 0 rl = Inr m"
      "m \<le> free_count (rs_claims s)" "rs_claims s' = bundle_fill o' (rs_claims s) rl"
proof (cases "\<exists>rl o'. rs = Some rl \<and> own = Some o' \<and> rl \<noteq> [] \<and> o' \<noteq> []
    \<and> length rl \<le> SOLAR_OS_RESOURCE_BUNDLE_MAX \<and> \<not> bundle_has_duplicate rl")
  case False
  then have "s' = s" "err = ESP_ERR_INVALID_ARG"
    using assms by (auto simp: solar_os_resource_claim_bundle_def split: option.splits if_splits)
  then show ?thesis using same by simp
next
  case True
  then obtain rl o' where a: "rs = Some rl" "own = Some o'" "rl \<noteq> []" "o' \<noteq> []"
    "\<not> SOLAR_OS_RESOURCE_BUNDLE_MAX < length rl" "\<not> bundle_has_duplicate rl" by auto
  obtain e0 s1 where e: "resources_ensure_init ok s = (e0, s1)" by fastforce
  show ?thesis
  proof (cases "e0 = ESP_OK")
    case False
    then show ?thesis using assms a e ensure_init_cases [OF e] same
      by (auto simp: solar_os_resource_claim_bundle_def)
  next
    case init: True
    show ?thesis
    proof (cases "bundle_check (rs_claims s1) o' 0 0 rl")
      case (Inl c)
      then show ?thesis using assms a e init ensure_init_cases [OF e] conflict
        by (auto simp: solar_os_resource_claim_bundle_def)
    next
      case (Inr m)
      then show ?thesis using assms a e init ensure_init_cases [OF e] same granted
        by (auto simp: solar_os_resource_claim_bundle_def not_less split: if_splits)
    qed
  qed
qed

lemma claim_bundle_granted:
  assumes inv: "resources_inv s"
    and g: "\<not> bundle_has_duplicate rs" "bundle_check (rs_claims s) own 0 0 rs = Inr m"
      "m \<le> free_count (rs_claims s)"
  shows "unique_used rc_active claim_key (bundle_fill own (rs_claims s) rs)"
    and "length (bundle_fill own (rs_claims s) rs) = length (rs_claims s)"
    and "holders (bundle_fill own (rs_claims s) rs) =
      (\<lambda>k. if k \<in> request_key ` set rs then Some (strlcpy SOLAR_OS_RESOURCE_OWNER_MAX own)
           else holders (rs_claims s) k)"
proof -
  note chk = bundle_check_Inr [OF g(2)]
  from inv have u: "unique_used rc_active claim_key (rs_claims s)" by (simp add: resources_inv_def)
  have spec: "unique_used rc_active claim_key (bundle_fill own (rs_claims s) rs)
    \<and> length (bundle_fill own (rs_claims s) rs) = length (rs_claims s)
    \<and> holders (bundle_fill own (rs_claims s) rs) =
        (\<lambda>k. if k \<in> request_key ` set rs \<and> holders (rs_claims s) k = None
             then Some (strlcpy SOLAR_OS_RESOURCE_OWNER_MAX own) else holders (rs_claims s) k)"
    using u g chk by (intro bundle_fill_spec) (auto simp: bundle_has_duplicate_distinct)
  then show "unique_used rc_active claim_key (bundle_fill own (rs_claims s) rs)"
    and "length (bundle_fill own (rs_claims s) rs) = length (rs_claims s)" by blast+
  have held: "e = strlcpy SOLAR_OS_RESOURCE_OWNER_MAX own"
    if "r \<in> set rs" "holders (rs_claims s) (request_key r) = Some e" for r e
  proof -
    have "length e < SOLAR_OS_RESOURCE_OWNER_MAX"
      using inv_owners_short [OF inv] that unfolding owners_short_def by blast
    with chk that show ?thesis using strncmp_short_owner [of e SOLAR_OS_RESOURCE_OWNER_MAX own]
      by (auto simp: strlcpy_id)
  qed
  show "holders (bundle_fill own (rs_claims s) rs) =
      (\<lambda>k. if k \<in> request_key ` set rs then Some (strlcpy SOLAR_OS_RESOURCE_OWNER_MAX own)
           else holders (rs_claims s) k)"
    using spec held by (fastforce simp: fun_eq_iff)
qed

lemma inv_holders_short:
  "resources_inv s \<Longrightarrow> holders (rs_claims s) k = Some e \<Longrightarrow> length e < SOLAR_OS_RESOURCE_OWNER_MAX"
  using inv_owners_short unfolding owners_short_def by blast

lemma inv_from_holders:
  assumes "length (rs_claims s) = SOLAR_OS_RESOURCE_CLAIM_MAX"
    and "unique_used rc_active claim_key (rs_claims s)"
    and "\<And>k e. holders (rs_claims s) k = Some e \<Longrightarrow> length e < SOLAR_OS_RESOURCE_OWNER_MAX"
  shows "resources_inv s"
proof -
  have "length (rc_owner c) < SOLAR_OS_RESOURCE_OWNER_MAX"
    if "c \<in> set (rs_claims s)" "rc_active c" for c
  proof -
    from that have "held (rs_claims s) (claim_key c) (rc_owner c)"
      by (auto simp: held_def in_set_conv_nth)
    then show ?thesis by (simp add: assms(3) holders_Some [OF assms(2)])
  qed
  with assms(1,2) show ?thesis by (simp add: resources_inv_def)
qed

lemma claim_bundle_inv:
  assumes "resources_inv s" and "solar_os_resource_claim_bundle ok s rs own = (err, s', conf)"
  shows "resources_inv s'"
  using assms(2)
proof (cases rule: claim_bundle_cases)
  case (granted rl o' m)
  note g = claim_bundle_granted [OF assms(1) granted(4,5,6)]
  show ?thesis
  proof (rule inv_from_holders)
    fix k e
    assume "holders (rs_claims s') k = Some e"
    then show "length e < SOLAR_OS_RESOURCE_OWNER_MAX"
      using g(3) granted(7) inv_holders_short [OF assms(1)]
      by (auto simp: strlcpy_length SOLAR_OS_RESOURCE_OWNER_MAX_def split: if_splits)
  qed (use g granted(7) assms(1) in \<open>simp_all add: resources_inv_def\<close>)
qed (use assms(1) in \<open>simp_all add: resources_inv_def\<close>)

lemma holders_clear:
  assumes "unique_used rc_active claim_key claims"
    and "first_index (\<lambda>c. rc_active c \<and> claim_key c = k) claims = Some i"
  shows "holders (claims[i := resource_claim_zero]) = (holders claims)(k := None)"
proof (rule holders_eqI)
  show "unique_used rc_active claim_key (claims[i := resource_claim_zero])"
    using assms(1) by (rule claim_table.unique_clear)
  fix q own
  have i: "i < length claims" "rc_active (claims ! i)" "claim_key (claims ! i) = k"
    using assms(2) by (auto dest: first_indexD)
  have other: "j \<noteq> i \<longleftrightarrow> claim_key (claims ! j) \<noteq> k" if "j < length claims" "rc_active (claims ! j)" for j
    using assms(1) i that unfolding unique_used_def by auto
  have "held (claims[i := resource_claim_zero]) q own \<longleftrightarrow>
      (\<exists>j<length claims. j \<noteq> i \<and> rc_active (claims ! j) \<and> claim_key (claims ! j) = q
        \<and> rc_owner (claims ! j) = own)"
    by (auto simp: held_def nth_upd resource_claim_zero_def cong: conj_cong)
  also have "\<dots> \<longleftrightarrow> ((holders claims)(k := None)) q = Some own"
    using other by (auto simp: holders_Some [OF assms(1)] held_def)
  finally show "held (claims[i := resource_claim_zero]) q own
      \<longleftrightarrow> ((holders claims)(k := None)) q = Some own" .
qed

lemma release_spec:
  assumes inv: "resources_inv s"
    and r: "solar_os_resource_release ok s kind prim sec own = (err, s')"
  shows "resources_inv s'"
    and "holders (rs_claims s') =
      (if err = ESP_OK then (holders (rs_claims s))((kind, prim, sec) := None)
       else holders (rs_claims s))"
    and "err = ESP_OK \<Longrightarrow> \<exists>o'. own = Some o' \<and> holders (rs_claims s) (kind, prim, sec) = Some o'"
proof -
  have main: "(rs_claims s' = rs_claims s \<and> err \<noteq> ESP_OK)
    \<or> (err = ESP_OK \<and> (\<exists>i o'. own = Some o' \<and>
         first_index (\<lambda>c. rc_active c \<and> claim_key c = (kind, prim, sec)) (rs_claims s) = Some i
         \<and> strncmp_eq SOLAR_OS_RESOURCE_OWNER_MAX (rc_owner (rs_claims s ! i)) o'
         \<and> rs_claims s' = (rs_claims s)[i := resource_claim_zero]))"
    using r by (auto simp: solar_os_resource_release_def resources_ensure_init_def find_locked_key
        split: option.splits if_splits)
  have u: "unique_used rc_active claim_key (rs_claims s)" using inv by (simp add: resources_inv_def)
  show h: "holders (rs_claims s') =
      (if err = ESP_OK then (holders (rs_claims s))((kind, prim, sec) := None)
       else holders (rs_claims s))"
    using main holders_clear [OF u] by auto
  show "err = ESP_OK \<Longrightarrow> \<exists>o'. own = Some o' \<and> holders (rs_claims s) (kind, prim, sec) = Some o'"
    using main inv_holders_short [OF inv, of "(kind, prim, sec)"]
    by (auto simp: holders_def strncmp_short_owner)
  show "resources_inv s'"
  proof (rule inv_from_holders)
    show "length (rs_claims s') = SOLAR_OS_RESOURCE_CLAIM_MAX"
      using main inv by (auto simp: resources_inv_def)
    show "unique_used rc_active claim_key (rs_claims s')"
      using main u claim_table.unique_clear by auto
    fix k e
    assume "holders (rs_claims s') k = Some e"
    then have "holders (rs_claims s) k = Some e" by (auto simp: h split: if_splits)
    then show "length e < SOLAR_OS_RESOURCE_OWNER_MAX" by (rule inv_holders_short [OF inv])
  qed
qed

lemma unique_map_clear:
  assumes "unique_used rc_active claim_key claims"
  shows "unique_used rc_active claim_key (map (\<lambda>c. if P c then resource_claim_zero else c) claims)"
  using assms by (auto simp: unique_used_def resource_claim_zero_def split: if_splits)

lemma release_owner_spec:
  assumes inv: "resources_inv s"
    and r: "solar_os_resource_release_owner ok s own = (n, s')"
  shows "resources_inv s'"
    and "holders (rs_claims s') = holders (rs_claims s) \<and> n = 0 \<or>
      (\<exists>o'. own = Some o' \<and> n = length (filter (owned_by o') (rs_claims s)) \<and>
        holders (rs_claims s') =
        (\<lambda>k. if holders (rs_claims s) k = Some o' then None else holders (rs_claims s) k))"
proof -
  have u: "unique_used rc_active claim_key (rs_claims s)" using inv by (simp add: resources_inv_def)
  have main: "(rs_claims s' = rs_claims s \<and> n = 0) \<or>
    (\<exists>o'. own = Some o' \<and> n = length (filter (owned_by o') (rs_claims s)) \<and>
      rs_claims s' = map (\<lambda>c. if owned_by o' c then resource_claim_zero else c) (rs_claims s))"
    using r by (auto simp: solar_os_resource_release_owner_def resources_ensure_init_def
        split: option.splits if_splits)
  have cleared: "holders (map (\<lambda>c. if owned_by o' c then resource_claim_zero else c) (rs_claims s)) =
      (\<lambda>k. if holders (rs_claims s) k = Some o' then None else holders (rs_claims s) k)" for o'
  proof (rule holders_eqI [OF unique_map_clear [OF u]])
    fix k e
    have own: "owned_by o' (rs_claims s ! i) \<longleftrightarrow> rc_owner (rs_claims s ! i) = o'"
      if "i < length (rs_claims s)" "rc_active (rs_claims s ! i)" for i
      using inv that by (auto simp: resources_inv_def owned_by_def strncmp_short_owner)
    have "held (map (\<lambda>c. if owned_by o' c then resource_claim_zero else c) (rs_claims s)) k e
      \<longleftrightarrow> (\<exists>i<length (rs_claims s). rc_active (rs_claims s ! i) \<and> \<not> owned_by o' (rs_claims s ! i) \<and>
        claim_key (rs_claims s ! i) = k \<and> rc_owner (rs_claims s ! i) = e)"
      by (auto simp: held_def resource_claim_zero_def cong: conj_cong)
    also have "\<dots> \<longleftrightarrow> e \<noteq> o' \<and> held (rs_claims s) k e"
      using own by (auto simp: held_def)
    finally show "held (map (\<lambda>c. if owned_by o' c then resource_claim_zero else c) (rs_claims s)) k e
      \<longleftrightarrow> (if holders (rs_claims s) k = Some o' then None else holders (rs_claims s) k) = Some e"
      using holders_Some [OF u, of k e] by auto
  qed
  then show h: "holders (rs_claims s') = holders (rs_claims s) \<and> n = 0 \<or>
      (\<exists>o'. own = Some o' \<and> n = length (filter (owned_by o') (rs_claims s)) \<and>
        holders (rs_claims s') =
        (\<lambda>k. if holders (rs_claims s) k = Some o' then None else holders (rs_claims s) k))"
    using main by auto
  show "resources_inv s'"
  proof (rule inv_from_holders)
    show "length (rs_claims s') = SOLAR_OS_RESOURCE_CLAIM_MAX"
      using main inv by (auto simp: resources_inv_def)
    show "unique_used rc_active claim_key (rs_claims s')"
      using main u unique_map_clear by auto
    fix k e
    assume "holders (rs_claims s') k = Some e"
    then have "holders (rs_claims s) k = Some e" using h by (auto split: if_splits)
    then show "length e < SOLAR_OS_RESOURCE_OWNER_MAX" by (rule inv_holders_short [OF inv])
  qed
qed

section \<open>The registry as a transition system\<close>

text \<open>
  The public operations, labelled with the owner string the caller passes. Every driver and
  service of the firmware reaches the table through one of them.
\<close>

inductive resource_step :: "string \<Rightarrow> resources_state \<Rightarrow> resources_state \<Rightarrow> bool" where
  step_init: "solar_os_resources_init ok s = (err, s') \<Longrightarrow> resource_step own s s'"
| step_bundle: "solar_os_resource_claim_bundle ok s rs (Some own) = (err, s', conf)
    \<Longrightarrow> resource_step own s s'"
| step_claim: "solar_os_resource_claim ok s kind prim sec (Some own) label = (err, s')
    \<Longrightarrow> resource_step own s s'"
| step_release: "solar_os_resource_release ok s kind prim sec (Some own) = (err, s')
    \<Longrightarrow> resource_step own s s'"
| step_release_owner: "solar_os_resource_release_owner ok s (Some own) = (n, s')
    \<Longrightarrow> resource_step own s s'"
| step_count: "solar_os_resource_claim_count ok s = (n, s') \<Longrightarrow> resource_step own s s'"
| step_get: "solar_os_resource_get_claim ok s i out = (found, s', out') \<Longrightarrow> resource_step own s s'"
| step_find: "solar_os_resource_find_claim ok s kind prim sec out = (found, s', out')
    \<Longrightarrow> resource_step own s s'"

inductive resource_reachable :: "resources_state \<Rightarrow> bool" where
  reach_boot: "resource_reachable resources_boot"
| reach_step: "resource_reachable s \<Longrightarrow> resource_step own s s' \<Longrightarrow> resource_reachable s'"

inductive_cases resource_stepE: "resource_step own s s'"

lemma claim_via_bundle:
  assumes "solar_os_resource_claim ok s kind prim sec own label = (err, s')"
  shows "\<exists>rs conf. solar_os_resource_claim_bundle ok s rs own = (err, s', conf)"
  using assms by (fastforce simp: solar_os_resource_claim_def split: prod.splits)

lemma query_claims:
  "solar_os_resources_init ok s = (err, s') \<Longrightarrow> rs_claims s' = rs_claims s"
  "solar_os_resource_claim_count ok s = (n, s') \<Longrightarrow> rs_claims s' = rs_claims s"
  "solar_os_resource_get_claim ok s i out = (found, s', out') \<Longrightarrow> rs_claims s' = rs_claims s"
  "solar_os_resource_find_claim ok s kind prim sec out = (found, s', out') \<Longrightarrow> rs_claims s' = rs_claims s"
  by (auto simp: solar_os_resources_init_def solar_os_resource_claim_count_def
      solar_os_resource_get_claim_def solar_os_resource_find_claim_def resources_ensure_init_def
      split: option.splits if_splits)

text \<open>Every step is a query, a claim of a bundle, a release, or a release of all of an owner's claims.\<close>

lemma resource_step_cases:
  assumes "resource_step own s s'"
  obtains (query) "rs_claims s' = rs_claims s"
  | (claim) ok rs err conf where "solar_os_resource_claim_bundle ok s rs (Some own) = (err, s', conf)"
  | (release) ok kind prim sec err where
      "solar_os_resource_release ok s kind prim sec (Some own) = (err, s')"
  | (release_owner) ok n where "solar_os_resource_release_owner ok s (Some own) = (n, s')"
  using assms by (cases rule: resource_step.cases) (blast dest: query_claims claim_via_bundle)+

lemma resource_step_inv:
  assumes "resources_inv s" and "resource_step own s s'"
  shows "resources_inv s'"
  using assms(2)
proof (cases rule: resource_step_cases)
  case query
  then show ?thesis using assms(1) inv_claims_cong by blast
qed (use assms(1) claim_bundle_inv release_spec(1) release_owner_spec(1) in blast)+

lemma resources_boot_inv: "resources_inv resources_boot"
  by (simp add: resources_inv_def resources_boot_def claim_table.unique_cleared)
     (simp add: resource_claim_zero_def)

lemma resource_reachable_inv: "resource_reachable s \<Longrightarrow> resources_inv s"
  by (induction rule: resource_reachable.induct) (blast intro: resources_boot_inv resource_step_inv)+

text \<open>
  What a claim of a bundle promises on the abstract registry \<open>h\<close>: it is granted as a whole, for
  resources that are free or already held by the same owner, or it changes nothing; a refusal with
  \<open>ESP_ERR_INVALID_STATE\<close> names a request of the bundle and its foreign holder.
\<close>

definition claim_spec ::
  "(resource_key \<Rightarrow> string option) \<Rightarrow> resource_request list \<Rightarrow> string \<Rightarrow> esp_err
   \<Rightarrow> resource_conflict \<Rightarrow> (resource_key \<Rightarrow> string option) \<Rightarrow> bool" where
  "claim_spec h rs own err conf h' \<longleftrightarrow>
     (if err = ESP_OK
      then (\<forall>k \<in> request_key ` set rs. h k \<in> {None, Some own})
        \<and> h' = (\<lambda>k. if k \<in> request_key ` set rs
                   then Some (strlcpy SOLAR_OS_RESOURCE_OWNER_MAX own) else h k)
      else h' = h
        \<and> (err = ESP_ERR_INVALID_STATE \<longrightarrow>
             cf_request_index conf < length rs
             \<and> h (request_key (rs ! cf_request_index conf)) = Some (rc_owner (cf_existing conf))
             \<and> rc_owner (cf_existing conf) \<noteq> own))"

lemma claim_bundle_spec:
  assumes inv: "resources_inv s"
    and c: "solar_os_resource_claim_bundle ok s rs own = (err, s', conf)"
  shows "claim_spec (holders (rs_claims s)) (the rs) (the own) err conf (holders (rs_claims s'))"
  using c
proof (cases rule: claim_bundle_cases)
  case same
  then show ?thesis by (simp add: claim_spec_def)
next
  case (conflict rl o')
  then show ?thesis using bundle_check_Inl [OF conflict(5)] by (auto simp: claim_spec_def)
next
  case (granted rl o' m)
  have "holders (rs_claims s) k \<in> {None, Some o'}" if "k \<in> request_key ` set rl" for k
    using bundle_check_Inr [OF granted(5)] that inv_holders_short [OF inv, of k]
    by (cases "holders (rs_claims s) k") (auto simp: strncmp_short_owner)
  then show ?thesis
    using granted claim_bundle_granted(3) [OF inv granted(4,5,6)] by (simp add: claim_spec_def)
qed

section \<open>Properties of the registry\<close>

text \<open>
  C2. Ownership safety: in every reachable state of the registry, a step by a caller with owner
  string \<open>own\<close> changes the holder of a resource only from free to that owner (as stored) or from
  exactly that owner to free. No caller can take over or release what another owner holds.
\<close>

theorem resource_ownership_safety:
  assumes reach: "resource_reachable s" and step: "resource_step own s s'"
    and change: "holders (rs_claims s') k \<noteq> holders (rs_claims s) k"
  shows "holders (rs_claims s) k = None \<and>
           holders (rs_claims s') k = Some (strlcpy SOLAR_OS_RESOURCE_OWNER_MAX own)
       \<or> holders (rs_claims s) k = Some own \<and> holders (rs_claims s') k = None"
  using step
proof (cases rule: resource_step_cases)
  case query
  with change show ?thesis by simp
next
  note inv = resource_reachable_inv [OF reach]
  case (claim ok rs err conf)
  have ok: "err = ESP_OK" and k: "k \<in> request_key ` set (the rs)"
    and new: "holders (rs_claims s') k = Some (strlcpy SOLAR_OS_RESOURCE_OWNER_MAX own)"
    and old: "holders (rs_claims s) k \<in> {None, Some own}"
    using claim_bundle_spec [OF inv claim] change by (auto simp: claim_spec_def split: if_splits)
  show ?thesis
  proof (cases "holders (rs_claims s) k")
    case (Some e)
    then have "strlcpy SOLAR_OS_RESOURCE_OWNER_MAX own = own"
      using old inv_holders_short [OF inv Some] by (simp add: strlcpy_id)
    with Some old new change show ?thesis by simp
  qed (use new in simp)
next
  note inv = resource_reachable_inv [OF reach]
  case (release ok kind prim sec err)
  then show ?thesis using release_spec [OF inv release] change by (auto split: if_splits)
next
  note inv = resource_reachable_inv [OF reach]
  case (release_owner ok n)
  then show ?thesis using release_owner_spec(2) [OF inv release_owner] change
    by (auto split: if_splits)
qed

definition demo_requests :: "resource_request list" where
  "demo_requests =
     [\<lparr>rq_kind = RESOURCE_I2C_PORT, rq_primary = 0, rq_secondary = 0, rq_label = None\<rparr>,
      \<lparr>rq_kind = RESOURCE_GPIO_PIN, rq_primary = 5, rq_secondary = 0, rq_label = Some ''sda''\<rparr>]"

definition demo_claimed :: resources_state where
  "demo_claimed = fst (snd (solar_os_resource_claim_bundle True resources_boot
     (Some demo_requests) (Some ''rtc'')))"

lemmas demo_eval = demo_claimed_def demo_requests_def solar_os_resource_claim_bundle_def
  resources_ensure_init_def resources_boot_def SOLAR_OS_RESOURCE_CLAIM_MAX_def
  SOLAR_OS_RESOURCE_BUNDLE_MAX_def SOLAR_OS_RESOURCE_OWNER_MAX_def SOLAR_OS_RESOURCE_LABEL_MAX_def
  request_key_matches_def resource_key_matches_def resource_claim_zero_def resource_find_locked_def
  new_claim_def strlcpy_def cstr_def free_count_def request_key_def claim_key_def holders_def
  strncmp_eq_def eval_nat_numeral

lemma demo_claim: "\<exists>conf. solar_os_resource_claim_bundle True resources_boot (Some demo_requests)
    (Some ''rtc'') = (ESP_OK, demo_claimed, conf)"
  by (simp add: demo_eval)

lemma demo_step: "resource_step ''rtc'' resources_boot demo_claimed"
  using demo_claim step_bundle by blast

lemma demo_reachable: "resource_reachable demo_claimed"
  using demo_step reach_boot reach_step by blast

lemma demo_holders:
  "holders (rs_claims resources_boot) (RESOURCE_GPIO_PIN, 5, 0) = None"
  "holders (rs_claims demo_claimed) (RESOURCE_GPIO_PIN, 5, 0) = Some ''rtc''"
  by (simp_all add: demo_eval)

theorem resource_ownership_safety_witness:
  "holders (rs_claims resources_boot) (RESOURCE_GPIO_PIN, 5, 0) = None \<and>
     holders (rs_claims demo_claimed) (RESOURCE_GPIO_PIN, 5, 0) =
       Some (strlcpy SOLAR_OS_RESOURCE_OWNER_MAX ''rtc'')"
  using resource_ownership_safety [OF reach_boot demo_step, of "(RESOURCE_GPIO_PIN, 5, 0)"]
  by (simp add: demo_holders)


lemma find_locked_None: "resource_find_locked claims a b c = None \<longleftrightarrow> holders claims (a, b, c) = None"
  by (simp add: holders_def find_locked_key)

lemma bundle_check_accepts:
  assumes "\<forall>r \<in> set rs. holders claims (request_key r) \<in> {None, Some own}"
  shows "bundle_check claims own 0 0 rs = Inr (missing claims rs)"
proof (cases "bundle_check claims own 0 0 rs")
  case (Inl c)
  then obtain j where "j < length rs" "cf_request_index c = 0 + j"
    "holders claims (request_key (rs ! j)) = Some (rc_owner (cf_existing c))"
    "\<not> strncmp_eq SOLAR_OS_RESOURCE_OWNER_MAX (rc_owner (cf_existing c)) own"
    using bundle_check_Inl by blast
  then show ?thesis using assms nth_mem by fastforce
next
  case (Inr m)
  then show ?thesis using bundle_check_Inr [OF Inr] by simp
qed

lemma claim_bundle_total:
  assumes "rs \<noteq> []" and "length rs \<le> SOLAR_OS_RESOURCE_BUNDLE_MAX" and "own \<noteq> []"
    and "distinct (map request_key rs)" and "rs_mutex s \<or> ok"
    and "\<forall>r \<in> set rs. holders (rs_claims s) (request_key r) \<in> {None, Some own}"
    and "missing (rs_claims s) rs \<le> free_count (rs_claims s)"
  shows "fst (solar_os_resource_claim_bundle ok s (Some rs) (Some own)) = ESP_OK"
  using assms bundle_check_accepts [OF assms(6)]
  by (auto simp: solar_os_resource_claim_bundle_def resources_ensure_init_def
      bundle_has_duplicate_distinct not_less split: if_splits)

text \<open>
  C3. A bundle claim is atomic and implements its contract on the abstract map from resources to
  holders: on success every requested resource was free or already the caller's and all of them
  are now held by the caller, on any error no holder changed and a conflict report names a truly
  foreign holder; and a well-formed bundle without foreign holder that fits in the free slots is
  always granted.
\<close>

theorem claim_bundle_atomic:
  assumes "resource_reachable s"
    and "solar_os_resource_claim_bundle ok s (Some rs) (Some own) = (err, s', conf)"
  shows "claim_spec (holders (rs_claims s)) rs own err conf (holders (rs_claims s'))
    \<and> (rs \<noteq> [] \<and> length rs \<le> SOLAR_OS_RESOURCE_BUNDLE_MAX \<and> own \<noteq> []
        \<and> distinct (map request_key rs) \<and> (rs_mutex s \<or> ok)
        \<and> (\<forall>r \<in> set rs. holders (rs_claims s) (request_key r) \<in> {None, Some own})
        \<and> missing (rs_claims s) rs \<le> free_count (rs_claims s)
       \<longrightarrow> err = ESP_OK)"
  using claim_bundle_spec [OF resource_reachable_inv [OF assms(1)] assms(2)]
    claim_bundle_total [of rs own s ok] assms(2) by simp

theorem claim_bundle_atomic_witness:
  "\<exists>conf. claim_spec (holders (rs_claims resources_boot)) demo_requests ''rtc'' ESP_OK conf
     (holders (rs_claims demo_claimed))"
proof -
  obtain conf where "solar_os_resource_claim_bundle True resources_boot (Some demo_requests)
    (Some ''rtc'') = (ESP_OK, demo_claimed, conf)" using demo_claim by blast
  from claim_bundle_atomic [OF reach_boot this] show ?thesis by blast
qed

lemma owner_slots_card:
  assumes "resources_inv s"
  shows "length (filter (owned_by own) (rs_claims s)) = card {k. holders (rs_claims s) k = Some own}"
proof -
  let ?I = "{i. i < length (rs_claims s) \<and> owned_by own (rs_claims s ! i)}"
  have u: "unique_used rc_active claim_key (rs_claims s)" using assms by (simp add: resources_inv_def)
  have owned: "owned_by own (rs_claims s ! i)
      \<longleftrightarrow> rc_active (rs_claims s ! i) \<and> rc_owner (rs_claims s ! i) = own"
    if "i < length (rs_claims s)" for i
    using assms that by (auto simp: resources_inv_def owned_by_def strncmp_short_owner)
  have "inj_on (\<lambda>i. claim_key (rs_claims s ! i)) ?I"
    using u by (auto simp: inj_on_def unique_used_def owned)
  moreover have "(\<lambda>i. claim_key (rs_claims s ! i)) ` ?I = {k. holders (rs_claims s) k = Some own}"
  proof (rule set_eqI)
    fix k
    have "k \<in> (\<lambda>i. claim_key (rs_claims s ! i)) ` ?I
        \<longleftrightarrow> (\<exists>i < length (rs_claims s). owned_by own (rs_claims s ! i) \<and> claim_key (rs_claims s ! i) = k)"
      by blast
    also have "\<dots> \<longleftrightarrow> held (rs_claims s) k own"
      using owned unfolding held_def by metis
    finally show "k \<in> (\<lambda>i. claim_key (rs_claims s ! i)) ` ?I \<longleftrightarrow> k \<in> {k. holders (rs_claims s) k = Some own}"
      by (simp add: holders_Some [OF u])
  qed
  ultimately have "card {k. holders (rs_claims s) k = Some own} = card ?I"
    using card_image by fastforce
  then show ?thesis by (simp add: length_filter_conv_card)
qed

text \<open>
  Releasing all claims of an owner is exact: the owner's resources, and no others, become
  free, and the returned count is the number of resources the owner held.
\<close>

theorem release_owner_exact:
  assumes "resource_reachable s" and "own \<noteq> []" and "rs_mutex s \<or> ok"
    and "solar_os_resource_release_owner ok s (Some own) = (n, s')"
  shows "n = card {k. holders (rs_claims s) k = Some own}
    \<and> holders (rs_claims s') =
        (\<lambda>k. if holders (rs_claims s) k = Some own then None else holders (rs_claims s) k)"
proof -
  note inv = resource_reachable_inv [OF assms(1)]
  have n: "n = length (filter (owned_by own) (rs_claims s))"
    using assms(2-4) by (auto simp: solar_os_resource_release_owner_def resources_ensure_init_def
        split: if_splits)
  have card: "n = card {k. holders (rs_claims s) k = Some own}"
    using n owner_slots_card [OF inv] by simp
  have "holders (rs_claims s') =
      (\<lambda>k. if holders (rs_claims s) k = Some own then None else holders (rs_claims s) k)"
    if "holders (rs_claims s') = holders (rs_claims s)" "n = 0"
  proof -
    have "\<not> owned_by own c" if "c \<in> set (rs_claims s)" for c
      using n \<open>n = 0\<close> that by (auto simp: filter_empty_conv)
    then have "\<not> held (rs_claims s) k own" for k
      using nth_mem unfolding held_def owned_by_def by fastforce
    moreover have "unique_used rc_active claim_key (rs_claims s)" using inv by (simp add: resources_inv_def)
    ultimately have "holders (rs_claims s) k \<noteq> Some own" for k
      using holders_Some by blast
    with that(1) show ?thesis by (auto simp: fun_eq_iff)
  qed
  with release_owner_spec(2) [OF inv assms(4)] card show ?thesis by blast
qed

theorem release_owner_exact_witness:
  "\<exists>n s'. solar_os_resource_release_owner True demo_claimed (Some ''rtc'') = (n, s')
    \<and> n = card {k. holders (rs_claims demo_claimed) k = Some ''rtc''}
    \<and> holders (rs_claims s') (RESOURCE_GPIO_PIN, 5, 0) = None"
proof -
  obtain n s' where r: "solar_os_resource_release_owner True demo_claimed (Some ''rtc'') = (n, s')"
    by fastforce
  from release_owner_exact [OF demo_reachable _ _ r] demo_holders(2) r show ?thesis by simp
qed

text \<open>
  C4. The 24-byte owner field truncates: an owner string of 24 characters or more is granted its
  bundle, but the stored owner then never compares equal to it, so the same owner can neither
  release the resources, nor release them by owner, nor claim them again.
\<close>

theorem long_owner_cannot_release:
  assumes reach: "resource_reachable s" and long: "SOLAR_OS_RESOURCE_OWNER_MAX \<le> length own"
    and claim: "solar_os_resource_claim_bundle ok s (Some rs) (Some own) = (ESP_OK, s', conf)"
    and r: "r \<in> set rs" and init: "rs_mutex s' \<or> ok'"
  shows "fst (solar_os_resource_release ok' s' (rq_kind r) (rq_primary r) (rq_secondary r) (Some own))
           = ESP_ERR_INVALID_STATE
    \<and> fst (solar_os_resource_release_owner ok' s' (Some own)) = 0
    \<and> fst (solar_os_resource_claim ok' s' (rq_kind r) (rq_primary r) (rq_secondary r) (Some own) label)
           = ESP_ERR_INVALID_STATE"
proof -
  note inv = resource_reachable_inv [OF reach]
  note inv' = claim_bundle_inv [OF inv claim]
  have ne: "own \<noteq> []" using long by (auto simp: SOLAR_OS_RESOURCE_OWNER_MAX_def)
  have h: "holders (rs_claims s') (request_key r) = Some (strlcpy SOLAR_OS_RESOURCE_OWNER_MAX own)"
    using claim_bundle_spec [OF inv claim] r by (simp add: claim_spec_def)
  then obtain k where k: "resource_find_locked (rs_claims s') (rq_kind r) (rq_primary r) (rq_secondary r)
      = Some k" and ow: "rc_owner (rs_claims s' ! k) = strlcpy SOLAR_OS_RESOURCE_OWNER_MAX own"
    by (auto simp: holders_def find_locked_request)
  have mis: "\<not> strncmp_eq SOLAR_OS_RESOURCE_OWNER_MAX (strlcpy SOLAR_OS_RESOURCE_OWNER_MAX own) own"
    using long by (intro strncmp_eq_strlcpy_long) (auto simp: SOLAR_OS_RESOURCE_OWNER_MAX_def)
  have none: "\<not> owned_by own c" if "c \<in> set (rs_claims s')" for c
    using inv' that long by (auto simp: resources_inv_def owned_by_def strncmp_short_owner)
  show ?thesis
    using k ow mis none ne init
    by (auto simp: solar_os_resource_release_def solar_os_resource_release_owner_def
        solar_os_resource_claim_def solar_os_resource_claim_bundle_def resources_ensure_init_def
        SOLAR_OS_RESOURCE_BUNDLE_MAX_def split: option.splits)
qed

definition demo_long_owner :: string where
  "demo_long_owner = ''sensor-module-bme280-port''"

lemma demo_long_claim: "\<exists>s' conf. solar_os_resource_claim_bundle True resources_boot
    (Some demo_requests) (Some demo_long_owner) = (ESP_OK, s', conf) \<and> rs_mutex s'"
  by (simp add: demo_eval demo_long_owner_def)

theorem long_owner_cannot_release_witness:
  "\<exists>s' conf. solar_os_resource_claim_bundle True resources_boot
      (Some demo_requests) (Some demo_long_owner) = (ESP_OK, s', conf)
    \<and> fst (solar_os_resource_release True s' RESOURCE_I2C_PORT 0 0 (Some demo_long_owner))
        = ESP_ERR_INVALID_STATE"
proof -
  obtain s' conf where c: "solar_os_resource_claim_bundle True resources_boot
    (Some demo_requests) (Some demo_long_owner) = (ESP_OK, s', conf)" "rs_mutex s'"
    using demo_long_claim by blast
  have "SOLAR_OS_RESOURCE_OWNER_MAX \<le> length demo_long_owner"
    by (simp add: SOLAR_OS_RESOURCE_OWNER_MAX_def demo_long_owner_def)
  from long_owner_cannot_release [OF reach_boot this c(1), of "hd demo_requests" True] c
  show ?thesis by (auto simp: demo_requests_def)
qed

end
