(* ===== verification/LinkCodec.thy ===== *)
theory LinkCodec
  imports SolarBase
begin

text \<open>
  The frame format of the radio link, \<open>src/src/services/solar_os_link.c\<close>: message types, the
  CRC-16, big-endian fields, \<open>solar_os_link_encode\<close> and \<open>solar_os_link_decode\<close>. A message
  payload is the list of its \<open>payload_len\<close> bytes, a frame the list of its \<open>len\<close> bytes. An out
  pointer that the code compares with NULL is an optional cell, returned with its new content.
\<close>

unbundle bit_operations_syntax

section \<open>Messages\<close>

datatype link_message_type =
    LINK_MESSAGE_TEXT
  | LINK_MESSAGE_BINARY
  | LINK_MESSAGE_ACKNOWLEDGEMENT
  | LINK_MESSAGE_STREAM
  | LINK_MESSAGE_OTHER int

record link_message =
  lm_version :: u8
  lm_flags :: u8
  lm_type :: link_message_type
  lm_sequence :: u16
  lm_source :: u32
  lm_destination :: u32
  lm_payload :: "u8 list"

type_synonym link_frame = "u8 list"

definition LINK_FRAME_MAX :: nat where
  "LINK_FRAME_MAX = 256"

definition LINK_HEADER_SIZE :: nat where
  "LINK_HEADER_SIZE = 12"

definition LINK_CRC_SIZE :: nat where
  "LINK_CRC_SIZE = 2"

definition LINK_PAYLOAD_MAX :: nat where
  "LINK_PAYLOAD_MAX = LINK_FRAME_MAX - LINK_HEADER_SIZE - LINK_CRC_SIZE"

definition LINK_BROADCAST :: u32 where
  "LINK_BROADCAST = - 1"

definition LINK_FLAG_ACK_REQUESTED :: u8 where
  "LINK_FLAG_ACK_REQUESTED = 1"

definition LINK_FLAG_RELAYED :: u8 where
  "LINK_FLAG_RELAYED = 2"

definition LINK_PROTOCOL_VERSION :: u8 where
  "LINK_PROTOCOL_VERSION = 1"

lemmas link_size_defs = LINK_FRAME_MAX_def LINK_HEADER_SIZE_def LINK_CRC_SIZE_def LINK_PAYLOAD_MAX_def

text \<open>The casts between the enumeration and the type byte of a frame.\<close>

fun type_byte :: "link_message_type \<Rightarrow> u8" where
  "type_byte LINK_MESSAGE_TEXT = 1"
| "type_byte LINK_MESSAGE_BINARY = 2"
| "type_byte LINK_MESSAGE_ACKNOWLEDGEMENT = 3"
| "type_byte LINK_MESSAGE_STREAM = 4"
| "type_byte (LINK_MESSAGE_OTHER n) = word_of_int n"

definition byte_type :: "u8 \<Rightarrow> link_message_type" where
  "byte_type b =
     (if b = 1 then LINK_MESSAGE_TEXT
      else if b = 2 then LINK_MESSAGE_BINARY
      else if b = 3 then LINK_MESSAGE_ACKNOWLEDGEMENT
      else if b = 4 then LINK_MESSAGE_STREAM
      else LINK_MESSAGE_OTHER (uint b))"

section \<open>CRC and fields\<close>

definition crc_bit :: "u16 \<Rightarrow> u16" where
  "crc_bit crc = (if crc AND 0x8000 \<noteq> 0 then (push_bit 1 crc) XOR 0x1021 else push_bit 1 crc)"

definition crc_byte :: "u16 \<Rightarrow> u8 \<Rightarrow> u16" where
  "crc_byte crc b = (crc_bit ^^ 8) (crc XOR push_bit 8 (ucast b))"

definition link_crc16 :: "u8 list \<Rightarrow> u16" where
  "link_crc16 data = foldl crc_byte 0xffff data"

definition link_write_u16 :: "u16 \<Rightarrow> u8 list" where
  "link_write_u16 value = [ucast (drop_bit 8 value), ucast value]"

definition link_write_u32 :: "u32 \<Rightarrow> u8 list" where
  "link_write_u32 value =
     [ucast (drop_bit 24 value), ucast (drop_bit 16 value), ucast (drop_bit 8 value), ucast value]"

definition link_read_u16 :: "u8 list \<Rightarrow> u16" where
  "link_read_u16 src = push_bit 8 (ucast (src ! 0)) OR ucast (src ! 1)"

definition link_read_u32 :: "u8 list \<Rightarrow> u32" where
  "link_read_u32 src =
     push_bit 24 (ucast (src ! 0)) OR push_bit 16 (ucast (src ! 1)) OR
     push_bit 8 (ucast (src ! 2)) OR ucast (src ! 3)"

section \<open>Encoding and decoding\<close>

definition link_type_valid :: "link_message_type \<Rightarrow> bool" where
  "link_type_valid t \<longleftrightarrow>
     t = LINK_MESSAGE_TEXT \<or> t = LINK_MESSAGE_BINARY \<or> t = LINK_MESSAGE_ACKNOWLEDGEMENT
     \<or> t = LINK_MESSAGE_STREAM"

definition link_type_requests_acknowledgement :: "link_message_type \<Rightarrow> bool" where
  "link_type_requests_acknowledgement t \<longleftrightarrow> t = LINK_MESSAGE_TEXT \<or> t = LINK_MESSAGE_BINARY"

definition message_body :: "link_message \<Rightarrow> u8 list" where
  "message_body m =
     [push_bit 4 (lm_version m) OR (lm_flags m AND 0x0f), type_byte (lm_type m)]
     @ link_write_u16 (lm_sequence m) @ link_write_u32 (lm_source m)
     @ link_write_u32 (lm_destination m) @ lm_payload m"

definition solar_os_link_encode ::
  "link_message option \<Rightarrow> link_frame option \<Rightarrow> esp_err \<times> link_frame option" where
  "solar_os_link_encode message frame =
     (case (message, frame) of
        (Some m, Some f) \<Rightarrow>
          if lm_version m \<noteq> LINK_PROTOCOL_VERSION \<or> \<not> link_type_valid (lm_type m)
             \<or> LINK_PAYLOAD_MAX < length (lm_payload m)
             \<or> (lm_type m = LINK_MESSAGE_ACKNOWLEDGEMENT \<and>
                 (lm_payload m \<noteq> [] \<or> lm_flags m AND LINK_FLAG_ACK_REQUESTED \<noteq> 0))
             \<or> (lm_type m = LINK_MESSAGE_STREAM \<and> lm_flags m AND LINK_FLAG_ACK_REQUESTED \<noteq> 0)
          then (ESP_ERR_INVALID_ARG, frame)
          else let body = message_body m
               in (ESP_OK, Some (body @ link_write_u16 (link_crc16 body)))
      | _ \<Rightarrow> (ESP_ERR_INVALID_ARG, frame))"

definition solar_os_link_decode ::
  "u8 list option \<Rightarrow> link_message option \<Rightarrow> esp_err \<times> link_message option" where
  "solar_os_link_decode frame message =
     (case (frame, message) of
        (Some f, Some old) \<Rightarrow>
          if length f < LINK_HEADER_SIZE + LINK_CRC_SIZE \<or> LINK_FRAME_MAX < length f
          then (ESP_ERR_INVALID_SIZE, message)
          else
            let crc_offset = length f - LINK_CRC_SIZE
            in if link_read_u16 (drop crc_offset f) \<noteq> link_crc16 (take crc_offset f)
               then (ESP_ERR_INVALID_CRC, message)
               else
                 let m = \<lparr>lm_version = drop_bit 4 (f ! 0), lm_flags = (f ! 0) AND 0x0f,
                          lm_type = byte_type (f ! 1),
                          lm_sequence = link_read_u16 (drop 2 f),
                          lm_source = link_read_u32 (drop 4 f),
                          lm_destination = link_read_u32 (drop 8 f),
                          lm_payload = replicate (crc_offset - LINK_HEADER_SIZE) 0\<rparr>
                 in if lm_version m \<noteq> LINK_PROTOCOL_VERSION \<or> \<not> link_type_valid (lm_type m)
                       \<or> (lm_type m = LINK_MESSAGE_ACKNOWLEDGEMENT \<and>
                           (lm_payload m \<noteq> [] \<or> lm_flags m AND LINK_FLAG_ACK_REQUESTED \<noteq> 0))
                       \<or> (lm_type m = LINK_MESSAGE_STREAM \<and>
                           lm_flags m AND LINK_FLAG_ACK_REQUESTED \<noteq> 0)
                    then (ESP_ERR_INVALID_VERSION, Some m)
                    else (ESP_OK, Some (m\<lparr>lm_payload := take (crc_offset - LINK_HEADER_SIZE)
                                                          (drop LINK_HEADER_SIZE f)\<rparr>))
      | _ \<Rightarrow> (ESP_ERR_INVALID_SIZE, message))"

fun solar_os_link_message_type_name :: "link_message_type \<Rightarrow> string" where
  "solar_os_link_message_type_name LINK_MESSAGE_TEXT = ''text''"
| "solar_os_link_message_type_name LINK_MESSAGE_BINARY = ''binary''"
| "solar_os_link_message_type_name LINK_MESSAGE_ACKNOWLEDGEMENT = ''acknowledgement''"
| "solar_os_link_message_type_name LINK_MESSAGE_STREAM = ''stream''"
| "solar_os_link_message_type_name (LINK_MESSAGE_OTHER n) = ''unknown''"

section \<open>Fields round trip\<close>

lemma link_u16_get_put: "link_read_u16 (link_write_u16 v @ r) = v"
  by (rule bit_word_eqI) (auto simp: link_read_u16_def link_write_u16_def bit_simps)

lemma link_u32_get_put: "link_read_u32 (link_write_u32 v @ r) = v"
proof (rule bit_word_eqI)
  fix n
  assume "n < LENGTH(32)"
  then show "bit (link_read_u32 (link_write_u32 v @ r)) n = bit v n"
    by (cases "n < 8"; cases "n < 16"; cases "n < 24")
       (auto simp: link_read_u32_def link_write_u32_def bit_simps)
qed

lemma link_u16_put_get: "2 \<le> length bs \<Longrightarrow> link_write_u16 (link_read_u16 bs) = take 2 bs"
proof -
  assume "2 \<le> length bs"
  then obtain a b r where bs: "bs = a # b # r"
    by (metis One_nat_def Suc_1 Suc_le_length_iff)
  have "ucast (drop_bit 8 (push_bit 8 (ucast a) OR ucast b :: u16)) = a"
    by (rule bit_word_eqI) (auto simp: bit_simps dest: bit_imp_le_length)
  moreover have "ucast (push_bit 8 (ucast a) OR ucast b :: u16) = b"
    by (rule bit_word_eqI) (auto simp: bit_simps)
  ultimately show ?thesis by (simp add: bs link_read_u16_def link_write_u16_def)
qed

lemma link_u32_put_get: "4 \<le> length bs \<Longrightarrow> link_write_u32 (link_read_u32 bs) = take 4 bs"
proof -
  assume "4 \<le> length bs"
  then obtain a b c d r where bs: "bs = a # b # c # d # r"
    by (auto simp: numeral_eq_Suc Suc_le_length_iff)
  let ?w = "push_bit 24 (ucast a) OR push_bit 16 (ucast b) OR push_bit 8 (ucast c) OR ucast d :: u32"
  have "ucast (drop_bit 24 ?w) = a" "ucast (drop_bit 16 ?w) = b" "ucast (drop_bit 8 ?w) = c" "ucast ?w = d"
    by (rule bit_word_eqI; auto simp: bit_simps dest: bit_imp_le_length)+
  then show ?thesis by (simp add: bs link_read_u32_def link_write_u32_def)
qed

interpretation be16: byte_codec link_write_u16 link_read_u16 2
  by unfold_locales (simp_all add: link_u16_get_put link_u16_put_get, simp add: link_write_u16_def)

interpretation be32: byte_codec link_write_u32 link_read_u32 4
  by unfold_locales (simp_all add: link_u32_get_put link_u32_put_get, simp add: link_write_u32_def)

section \<open>The CRC\<close>

lemma u16_top_bit: "bit (0x8000 :: u16) n \<longleftrightarrow> n = 15"
proof -
  have "(0x8000 :: u16) = 2 ^ 15" by simp
  then show ?thesis by (simp only: bit_exp_iff) (auto dest: possible_bit_less_imp)
qed

lemma and_top_bit: "(x :: u16) AND 0x8000 \<noteq> 0 \<longleftrightarrow> bit x 15"
proof
  assume "x AND 0x8000 \<noteq> 0"
  then obtain n where "bit (x AND 0x8000) n" by (metis bit_eqI bit_0_eq bot_apply bot_bool_def)
  then show "bit x 15" by (auto simp only: bit_and_iff u16_top_bit)
next
  assume "bit x 15"
  then have "bit (x AND 0x8000) 15" by (simp only: bit_and_iff u16_top_bit)
  then show "x AND 0x8000 \<noteq> 0" by auto
qed

lemma u16_shift_bit:
  "bit (push_bit 1 (x :: u16)) (Suc n) \<longleftrightarrow> Suc n < 16 \<and> bit x n"
  "\<not> bit (push_bit 1 (x :: u16)) 0"
  by (simp_all only: bit_push_bit_iff) auto

lemma crc_bit_low: "bit (crc_bit x) 0 \<longleftrightarrow> bit x 15"
  unfolding crc_bit_def and_top_bit using u16_shift_bit(2) [of x] by (auto simp: bit_xor_iff)

lemma xor_twice: "(x XOR c) XOR c = (x :: 'a :: len word)"
  by (simp add: xor.assoc)

lemma xor_cancel: "x XOR c = y XOR c \<Longrightarrow> x = (y :: 'a :: len word)"
  by (drule arg_cong [where f = "\<lambda>z. z XOR c"]) (simp only: xor_twice)

lemma xor_cancel_left: "c XOR x = c XOR y \<Longrightarrow> x = (y :: 'a :: len word)"
  by (rule xor_cancel [of x c y]) (simp only: xor.commute)

lemma crc_bit_shift: "push_bit 1 x = (if bit (crc_bit x) 0 then crc_bit x XOR 0x1021 else crc_bit x)"
  unfolding crc_bit_low unfolding crc_bit_def and_top_bit by (cases "bit x 15") (simp_all only: xor_twice if_True if_False)

lemma crc_bit_inj: "crc_bit x = crc_bit y \<Longrightarrow> x = y"
proof (rule bit_word_eqI)
  fix n
  assume e: "crc_bit x = crc_bit y" and n: "n < LENGTH(16)"
  have shift: "push_bit 1 x = push_bit 1 y"
    by (simp only: crc_bit_shift e)
  show "bit x n = bit y n"
  proof (cases "n = 15")
    case True
    then show ?thesis using crc_bit_low e by metis
  next
    case False
    have "bit (push_bit 1 x) (Suc n) = bit (push_bit 1 y) (Suc n)" by (simp only: shift)
    then show ?thesis using n False by (simp only: u16_shift_bit) simp
  qed
qed

lemma crc_bits_inj: "(crc_bit ^^ n) x = (crc_bit ^^ n) y \<Longrightarrow> x = y"
  by (induction n arbitrary: x y) (auto dest: crc_bit_inj)

lemma crc_byte_inj_state: "crc_byte x b = crc_byte y b \<Longrightarrow> x = y"
  unfolding crc_byte_def by (blast dest: crc_bits_inj xor_cancel)

lemma crc_byte_inj_data: "crc_byte x a = crc_byte x b \<Longrightarrow> a = b"
proof -
  assume "crc_byte x a = crc_byte x b"
  then have "x XOR push_bit 8 (ucast a) = x XOR push_bit 8 (ucast b)"
    unfolding crc_byte_def by (rule crc_bits_inj)
  then have eq: "push_bit 8 (ucast a :: u16) = push_bit 8 (ucast b)"
    by (rule xor_cancel_left)
  show "a = b"
  proof (rule bit_word_eqI)
    fix n
    assume n: "n < LENGTH(8)"
    have "bit (push_bit 8 (ucast a :: u16)) (8 + n) = bit (push_bit 8 (ucast b :: u16)) (8 + n)"
      by (simp add: eq)
    then show "bit a n = bit b n" using n by (simp add: bit_simps)
  qed
qed

lemma crc_fold_inj: "foldl crc_byte x bs = foldl crc_byte y bs \<Longrightarrow> x = y"
  by (induction bs arbitrary: x y) (auto dest: crc_byte_inj_state)

lemma link_crc16_detects_byte:
  assumes "i < length bs" and "b \<noteq> bs ! i"
  shows "link_crc16 (bs[i := b]) \<noteq> link_crc16 bs"
proof
  assume "link_crc16 (bs[i := b]) = link_crc16 bs"
  moreover have "bs[i := b] = take i bs @ b # drop (Suc i) bs"
    using assms(1) by (rule upd_conv_take_nth_drop)
  moreover have "bs = take i bs @ bs ! i # drop (Suc i) bs"
    using assms(1) by (rule id_take_nth_drop)
  ultimately have "foldl crc_byte 0xffff (take i bs @ b # drop (Suc i) bs) =
      foldl crc_byte 0xffff (take i bs @ bs ! i # drop (Suc i) bs)"
    by (metis link_crc16_def)
  then have "crc_byte (foldl crc_byte 0xffff (take i bs)) b =
      crc_byte (foldl crc_byte 0xffff (take i bs)) (bs ! i)"
    by (simp only: foldl_append foldl_Cons) (rule crc_fold_inj)
  with assms(2) show False by (blast dest: crc_byte_inj_data)
qed

section \<open>Properties of the frame format\<close>

definition encodable :: "link_message \<Rightarrow> bool" where
  "encodable m \<longleftrightarrow>
     lm_version m = LINK_PROTOCOL_VERSION \<and> link_type_valid (lm_type m)
     \<and> length (lm_payload m) \<le> LINK_PAYLOAD_MAX
     \<and> (lm_type m = LINK_MESSAGE_ACKNOWLEDGEMENT \<longrightarrow>
          lm_payload m = [] \<and> lm_flags m AND LINK_FLAG_ACK_REQUESTED = 0)
     \<and> (lm_type m = LINK_MESSAGE_STREAM \<longrightarrow> lm_flags m AND LINK_FLAG_ACK_REQUESTED = 0)"

definition framed :: "u8 list \<Rightarrow> link_frame" where
  "framed body = body @ link_write_u16 (link_crc16 body)"

lemma encode_iff:
  "solar_os_link_encode (Some m) (Some f0) =
     (if encodable m then (ESP_OK, Some (framed (message_body m))) else (ESP_ERR_INVALID_ARG, Some f0))"
  by (auto simp: solar_os_link_encode_def encodable_def framed_def Let_def)

lemma body_length: "length (message_body m) = LINK_HEADER_SIZE + length (lm_payload m)"
  by (simp add: message_body_def be16.put_length be32.put_length LINK_HEADER_SIZE_def)

lemma framed_length: "length (framed body) = length body + LINK_CRC_SIZE"
  by (simp add: framed_def be16.put_length LINK_CRC_SIZE_def)

lemma byte_type_inverse: "link_type_valid t \<Longrightarrow> byte_type (type_byte t) = t"
  by (auto simp: link_type_valid_def byte_type_def)

lemma type_byte_inverse: "type_byte (byte_type b) = b"
  by (simp add: byte_type_def)

lemma version_flags_split:
  fixes v f :: u8
  assumes "v = LINK_PROTOCOL_VERSION"
  shows "drop_bit 4 (push_bit 4 v OR (f AND 0x0f)) = v"
    and "(push_bit 4 v OR (f AND 0x0f)) AND 0x0f = f AND 0x0f"
proof -
  have m: "(0x0f :: u8) = mask 4" by (simp add: mask_eq_exp_minus_1)
  have v: "v = 1" using assms by (simp add: LINK_PROTOCOL_VERSION_def)
  show "drop_bit 4 (push_bit 4 v OR (f AND 0x0f)) = v"
    unfolding m v by (rule bit_word_eqI) (auto simp: bit_simps)
  show "(push_bit 4 v OR (f AND 0x0f)) AND 0x0f = f AND 0x0f"
    unfolding m by (rule bit_word_eqI) (auto simp: bit_simps)
qed

lemma version_shift: "drop_bit 4 (push_bit 4 LINK_PROTOCOL_VERSION) = LINK_PROTOCOL_VERSION"
  by (simp add: LINK_PROTOCOL_VERSION_def)

lemma version_flags_join:
  fixes b :: u8
  shows "push_bit 4 (drop_bit 4 b) OR ((b AND 0x0f) AND 0x0f) = b"
proof -
  have m: "(0x0f :: u8) = mask 4" by (simp add: mask_eq_exp_minus_1)
  show ?thesis unfolding m by (rule bit_word_eqI) (auto simp: bit_simps)
qed

lemma ack_flag_and: "(f AND 0x0f) AND LINK_FLAG_ACK_REQUESTED = f AND LINK_FLAG_ACK_REQUESTED"
  by (simp add: LINK_FLAG_ACK_REQUESTED_def and.assoc)

definition parse_body :: "u8 list \<Rightarrow> link_message" where
  "parse_body b = \<lparr>lm_version = drop_bit 4 (b ! 0), lm_flags = (b ! 0) AND 0x0f,
     lm_type = byte_type (b ! 1), lm_sequence = link_read_u16 (drop 2 b),
     lm_source = link_read_u32 (drop 4 b), lm_destination = link_read_u32 (drop 8 b),
     lm_payload = drop LINK_HEADER_SIZE b\<rparr>"

lemma read_u16_append: "2 \<le> length p \<Longrightarrow> link_read_u16 (p @ r) = link_read_u16 p"
  by (auto simp: link_read_u16_def nth_append)

lemma read_u32_append: "4 \<le> length p \<Longrightarrow> link_read_u32 (p @ r) = link_read_u32 p"
  by (auto simp: link_read_u32_def nth_append)

lemma decode_framed:
  assumes "LINK_HEADER_SIZE \<le> length b" and "length b + LINK_CRC_SIZE \<le> LINK_FRAME_MAX"
  shows "solar_os_link_decode (Some (framed b)) (Some m0) =
    (if encodable (parse_body b) then (ESP_OK, Some (parse_body b))
     else (ESP_ERR_INVALID_VERSION,
           Some (parse_body b\<lparr>lm_payload := replicate (length b - LINK_HEADER_SIZE) 0\<rparr>)))"
proof -
  have len: "12 \<le> length b" "length b \<le> 254" using assms by (simp_all add: link_size_defs)
  have flen: "length (framed b) = length b + 2" by (simp add: framed_length LINK_CRC_SIZE_def)
  have crc: "link_read_u16 (drop (length b) (framed b)) = link_crc16 b"
    "take (length b) (framed b) = b"
    by (simp_all add: framed_def be16.get_put_only)
  have at: "framed b ! 0 = b ! 0" "framed b ! 1 = b ! 1"
    "link_read_u16 (drop 2 (framed b)) = link_read_u16 (drop 2 b)"
    "link_read_u32 (drop 4 (framed b)) = link_read_u32 (drop 4 b)"
    "link_read_u32 (drop 8 (framed b)) = link_read_u32 (drop 8 b)"
    "take (length b - 12) (drop 12 (framed b)) = drop 12 b"
    using len by (auto simp: framed_def nth_append read_u16_append read_u32_append)
  have payload: "drop 12 b = [] \<longleftrightarrow> length b \<le> 12" "replicate (length b - 12) (0 :: u8) = [] \<longleftrightarrow> length b \<le> 12"
    by simp_all
  have enc: "encodable (parse_body b) \<longleftrightarrow>
     drop_bit 4 (b ! 0) = LINK_PROTOCOL_VERSION \<and> link_type_valid (byte_type (b ! 1))
     \<and> \<not> (byte_type (b ! 1) = LINK_MESSAGE_ACKNOWLEDGEMENT \<and>
          (replicate (length b - 12) (0 :: u8) \<noteq> [] \<or> ((b ! 0) AND 0x0f) AND LINK_FLAG_ACK_REQUESTED \<noteq> 0))
     \<and> \<not> (byte_type (b ! 1) = LINK_MESSAGE_STREAM \<and> ((b ! 0) AND 0x0f) AND LINK_FLAG_ACK_REQUESTED \<noteq> 0)"
    unfolding payload(2) using len by (auto simp: encodable_def parse_body_def link_size_defs)
  have size: "(length (framed b) < LINK_HEADER_SIZE + LINK_CRC_SIZE) = False"
    "(length (framed b) < 12 + LINK_CRC_SIZE) = False" "(LINK_FRAME_MAX < length (framed b)) = False"
    "length (framed b) - LINK_CRC_SIZE = length b" "LINK_HEADER_SIZE = 12"
    using len flen by (simp_all add: link_size_defs)
  show ?thesis
  proof (cases "encodable (parse_body b)")
    case True
    then show ?thesis using enc
      by (simp only: solar_os_link_decode_def Let_def option.case prod.case size at crc if_False)
         (simp add: parse_body_def size)
  next
    case False
    then show ?thesis using enc
      by (simp only: solar_os_link_decode_def Let_def option.case prod.case size at crc if_False)
         (auto simp: parse_body_def size)
  qed
qed

lemma decode_size_error:
  assumes "\<not> (LINK_HEADER_SIZE + LINK_CRC_SIZE \<le> length f \<and> length f \<le> LINK_FRAME_MAX)"
  shows "solar_os_link_decode (Some f) (Some m0) = (ESP_ERR_INVALID_SIZE, Some m0)"
  using assms by (auto simp: solar_os_link_decode_def not_le)

lemma decode_crc_error:
  assumes "LINK_HEADER_SIZE + LINK_CRC_SIZE \<le> length f" and "length f \<le> LINK_FRAME_MAX"
    and "link_read_u16 (drop (length f - LINK_CRC_SIZE) f) \<noteq> link_crc16 (take (length f - LINK_CRC_SIZE) f)"
  shows "solar_os_link_decode (Some f) (Some m0) = (ESP_ERR_INVALID_CRC, Some m0)"
  using assms by (simp add: solar_os_link_decode_def Let_def not_less)

lemma framed_take:
  assumes "LINK_CRC_SIZE \<le> length f"
    and "link_read_u16 (drop (length f - LINK_CRC_SIZE) f) = link_crc16 (take (length f - LINK_CRC_SIZE) f)"
  shows "f = framed (take (length f - LINK_CRC_SIZE) f)"
proof -
  have "link_write_u16 (link_read_u16 (drop (length f - LINK_CRC_SIZE) f)) = drop (length f - LINK_CRC_SIZE) f"
    using assms(1) by (subst be16.put_get) (simp_all add: LINK_CRC_SIZE_def)
  then show ?thesis by (metis append_take_drop_id assms(2) framed_def)
qed

lemma parse_message_body:
  assumes "encodable m"
  shows "parse_body (message_body m) = m\<lparr>lm_flags := lm_flags m AND 0x0f\<rparr>"
  using assms
  by (cases m) (simp add: parse_body_def message_body_def be16.get_put be32.get_put be16.put_length
      be32.put_length LINK_HEADER_SIZE_def encodable_def version_flags_split version_shift
      byte_type_inverse)

lemma message_body_parse:
  assumes "LINK_HEADER_SIZE \<le> length b"
  shows "message_body (parse_body b) = b"
proof -
  have len: "12 \<le> length b" using assms by (simp add: LINK_HEADER_SIZE_def)
  have w: "link_write_u16 (link_read_u16 (drop 2 b)) = take 2 (drop 2 b)"
    "link_write_u32 (link_read_u32 (drop 4 b)) = take 4 (drop 4 b)"
    "link_write_u32 (link_read_u32 (drop 8 b)) = take 4 (drop 8 b)"
    using len by (simp_all add: be16.put_get_drop be32.put_get_drop)
  have "take 2 b = [b ! 0, b ! 1]"
    using len by (auto simp: numeral_eq_Suc Suc_le_length_iff)
  then have "message_body (parse_body b) =
      take 2 b @ take 2 (drop 2 b) @ take 4 (drop 4 b) @ take 4 (drop 8 b) @ drop 12 b"
    by (simp only: message_body_def parse_body_def link_message.simps w version_flags_join
        type_byte_inverse LINK_HEADER_SIZE_def)
  also have "\<dots> = (((take 2 b @ take 2 (drop 2 b)) @ take 4 (drop 4 b)) @ take 4 (drop 8 b)) @ drop 12 b"
    by simp
  also have "\<dots> = b"
  proof -
    have "take 2 b @ take 2 (drop 2 b) = take 4 b" "take 4 b @ take 4 (drop 4 b) = take 8 b"
      "take 8 b @ take 4 (drop 8 b) = take 12 b"
      using take_add [of 2 2 b] take_add [of 4 4 b] take_add [of 8 4 b] by simp_all
    then show ?thesis by (simp only: append_take_drop_id)
  qed
  finally show ?thesis .
qed

lemma encodable_parse:
  assumes "encodable m"
  shows "encodable (m\<lparr>lm_flags := lm_flags m AND 0x0f\<rparr>)"
  using assms by (simp add: encodable_def ack_flag_and)

lemma decode_message_body:
  assumes "encodable m" and "lm_flags m AND 0x0f = lm_flags m"
  shows "solar_os_link_decode (Some (framed (message_body m))) (Some m0) = (ESP_OK, Some m)"
proof -
  have size: "LINK_HEADER_SIZE \<le> length (message_body m)"
    "length (message_body m) + LINK_CRC_SIZE \<le> LINK_FRAME_MAX"
    using assms(1) by (simp_all add: body_length encodable_def link_size_defs)
  have "parse_body (message_body m) = m"
    using parse_message_body [OF assms(1)] assms(2) by simp
  then show ?thesis using decode_framed [OF size, of m0] assms(1) by simp
qed

lemma decode_OKD:
  assumes "solar_os_link_decode (Some f) (Some m0) = (ESP_OK, Some m)"
  shows "encodable m" and "f = framed (message_body m)" and "lm_flags m AND 0x0f = lm_flags m"
proof -
  let ?b = "take (length f - LINK_CRC_SIZE) f"
  have size: "LINK_HEADER_SIZE + LINK_CRC_SIZE \<le> length f" "length f \<le> LINK_FRAME_MAX"
    using assms decode_size_error [of f m0] by auto
  have crc: "link_read_u16 (drop (length f - LINK_CRC_SIZE) f) = link_crc16 ?b"
    using assms decode_crc_error [OF size, of m0] by auto
  have f: "f = framed ?b" using size crc by (intro framed_take) simp_all
  have b: "LINK_HEADER_SIZE \<le> length ?b" "length ?b + LINK_CRC_SIZE \<le> LINK_FRAME_MAX"
    using size by (simp_all add: link_size_defs)
  have m: "encodable (parse_body ?b)" "m = parse_body ?b"
    using assms decode_framed [OF b, of m0] f by (auto split: if_splits)
  show "encodable m" using m by simp
  show "f = framed (message_body m)" using message_body_parse [OF b(1)] f m(2) by simp
  show "lm_flags m AND 0x0f = lm_flags m" by (simp add: m(2) parse_body_def and.assoc)
qed

text \<open>
  C5. Decoding inverts encoding: whatever frame \<open>solar_os_link_encode\<close> produces has the message's
  size, at most 256 bytes, and \<open>solar_os_link_decode\<close> returns the message itself, except that of the
  flags only the four bits that fit in the first byte survive.
\<close>

theorem link_decode_encode:
  assumes "solar_os_link_encode (Some m) (Some f0) = (ESP_OK, Some f)"
  shows "solar_os_link_decode (Some f) (Some m0) =
           (ESP_OK, Some (m\<lparr>lm_flags := lm_flags m AND 0x0f\<rparr>))
    \<and> length f = LINK_HEADER_SIZE + length (lm_payload m) + LINK_CRC_SIZE
    \<and> length f \<le> LINK_FRAME_MAX"
proof -
  have e: "encodable m" and f: "f = framed (message_body m)"
    using assms by (auto simp: encode_iff split: if_splits)
  have size: "length (message_body m) + LINK_CRC_SIZE \<le> LINK_FRAME_MAX"
    using e by (simp add: encodable_def body_length link_size_defs)
  show ?thesis
    using decode_framed [OF _ size] size e
    by (simp add: f body_length framed_length parse_message_body encodable_parse)
qed

definition demo_message :: link_message where
  "demo_message = \<lparr>lm_version = 1, lm_flags = 0x31, lm_type = LINK_MESSAGE_TEXT, lm_sequence = 0x1234,
     lm_source = 0xA1B2C3D4, lm_destination = 7, lm_payload = [104, 105]\<rparr>"

lemma demo_encode:
  "solar_os_link_encode (Some demo_message) (Some []) = (ESP_OK, Some (framed (message_body demo_message)))"
  by (simp add: encode_iff encodable_def demo_message_def LINK_PROTOCOL_VERSION_def
      link_type_valid_def link_size_defs)

theorem link_decode_encode_witness:
  "\<exists>f. solar_os_link_encode (Some demo_message) (Some []) = (ESP_OK, Some f)
    \<and> solar_os_link_decode (Some f) (Some demo_message) = (ESP_OK, Some (demo_message\<lparr>lm_flags := 1\<rparr>))
    \<and> length f = 16"
  using link_decode_encode [OF demo_encode, of demo_message] demo_encode
  by (simp add: link_size_defs) (simp add: demo_message_def)

text \<open>
  C6. Encoding inverts decoding: a frame that \<open>solar_os_link_decode\<close> accepts is exactly the frame
  that \<open>solar_os_link_encode\<close> makes of the decoded message, so no two frames decode to the same
  message and the repeater re-encodes what it received.
\<close>

theorem link_encode_decode:
  assumes "solar_os_link_decode (Some f) (Some m0) = (ESP_OK, Some m)"
  shows "solar_os_link_encode (Some m) (Some f0) = (ESP_OK, Some f)"
  using decode_OKD(1,2) [OF assms] by (simp add: encode_iff)

definition demo_ack :: link_message where
  "demo_ack = \<lparr>lm_version = 1, lm_flags = 2, lm_type = LINK_MESSAGE_ACKNOWLEDGEMENT, lm_sequence = 9,
     lm_source = 3, lm_destination = 4, lm_payload = []\<rparr>"

lemma demo_ack_decode:
  "solar_os_link_decode (Some (framed (message_body demo_ack))) (Some demo_message) = (ESP_OK, Some demo_ack)"
proof -
  have e: "encodable demo_ack"
    by (simp add: encodable_def demo_ack_def LINK_PROTOCOL_VERSION_def link_type_valid_def
        link_size_defs LINK_FLAG_ACK_REQUESTED_def)
  have "lm_payload demo_ack = []" "demo_ack\<lparr>lm_flags := lm_flags demo_ack AND 15\<rparr> = demo_ack"
    by (simp_all add: demo_ack_def)
  then show ?thesis
    using decode_framed [of "message_body demo_ack" demo_message] e
    by (simp add: parse_message_body body_length link_size_defs)
qed

theorem link_encode_decode_witness:
  "solar_os_link_encode (Some demo_ack) (Some []) = (ESP_OK, Some (framed (message_body demo_ack)))"
  by (rule link_encode_decode [OF demo_ack_decode])

text \<open>
  C7. Integrity: if any single byte of an encoded frame is changed, whether in the header, the
  payload or the checksum, decoding reports a CRC error and leaves the message untouched.
\<close>

theorem link_corruption_detected:
  assumes enc: "solar_os_link_encode (Some m) (Some f0) = (ESP_OK, Some f)"
    and i: "i < length f" and b: "b \<noteq> f ! i"
  shows "solar_os_link_decode (Some (f[i := b])) (Some m0) = (ESP_ERR_INVALID_CRC, Some m0)"
proof (rule decode_crc_error)
  let ?body = "message_body m" and ?g = "f[i := b]"
  have f: "f = framed ?body" and e: "encodable m"
    using enc by (auto simp: encode_iff split: if_splits)
  have flen: "length f = length ?body + LINK_CRC_SIZE" by (simp add: f framed_length)
  show "LINK_HEADER_SIZE + LINK_CRC_SIZE \<le> length ?g" "length ?g \<le> LINK_FRAME_MAX"
    using e flen by (simp_all add: body_length encodable_def link_size_defs)
  show "link_read_u16 (drop (length ?g - LINK_CRC_SIZE) ?g) \<noteq> link_crc16 (take (length ?g - LINK_CRC_SIZE) ?g)"
  proof
    let ?n = "length ?g - LINK_CRC_SIZE"
    assume "link_read_u16 (drop ?n ?g) = link_crc16 (take ?n ?g)"
    then have g: "?g = framed (take ?n ?g)" using flen by (intro framed_take) simp_all
    have n: "?n = length ?body" using flen by simp
    show False
    proof (cases "i < length ?body")
      case True
      have t: "take ?n ?g = ?body[i := b]"
        by (simp only: n take_update_swap) (simp add: f framed_def)
      have "drop ?n ?g = drop ?n f" using True n by simp
      also have "\<dots> = link_write_u16 (link_crc16 ?body)" unfolding n by (simp add: f framed_def)
      finally have "link_write_u16 (link_crc16 ?body) = link_write_u16 (link_crc16 (?body[i := b]))"
        using g t n by (metis append_eq_conv_conj framed_def length_list_update)
      then have "link_crc16 ?body = link_crc16 (?body[i := b])" by (metis be16.get_put_only)
      moreover have "?body ! i = f ! i" using True by (simp add: f framed_def nth_append)
      ultimately show False using link_crc16_detects_byte [OF True, of b] b by simp
    next
      case False
      have "take ?n ?g = ?body"
        using False n by (simp add: take_update_cancel) (simp add: f framed_def)
      then have "?g = f" using g f by simp
      then show False using b i by (metis nth_list_update_eq)
    qed
  qed
qed

theorem link_corruption_detected_witness:
  "solar_os_link_decode (Some ((framed (message_body demo_message))[13 := 0])) (Some demo_ack)
    = (ESP_ERR_INVALID_CRC, Some demo_ack)"
  by (rule link_corruption_detected [OF demo_encode])
     (simp_all add: framed_length body_length link_size_defs demo_message_def framed_def
       message_body_def nth_append link_write_u16_def link_write_u32_def)

end
