(* ===== verification/BoundedQueue.thy ===== *)
theory BoundedQueue
  imports SolarBase
begin

text \<open>
  FreeRTOS queues are not part of the sources: the components that use one take its operations as
  an argument, a record of functions on an abstract queue state. What they rely on is the documented
  behaviour of \<open>xQueueSend\<close> and \<open>xQueueReceive\<close> with zero wait, the laws of the locale
  \<open>bounded_fifo\<close>: first in, first out, a send is refused exactly when the queue is full, a receive
  fails exactly when it is empty. A list with a capacity satisfies the laws.
\<close>

record ('q, 'a) queue_ops =
  q_create :: "nat \<Rightarrow> 'q"
  q_send :: "'q \<Rightarrow> 'a \<Rightarrow> 'q option"
  q_receive :: "'q \<Rightarrow> ('a \<times> 'q) option"
  q_waiting :: "'q \<Rightarrow> nat"

locale bounded_fifo =
  fixes ops :: "('q, 'a) queue_ops"
    and contents :: "'q \<Rightarrow> 'a list"
    and depth :: "'q \<Rightarrow> nat"
  assumes create_contents: "contents (q_create ops n) = []"
    and create_depth: "depth (q_create ops n) = n"
    and send_full: "depth q \<le> length (contents q) \<Longrightarrow> q_send ops q x = None"
    and send_room: "length (contents q) < depth q \<Longrightarrow>
          \<exists>q'. q_send ops q x = Some q' \<and> contents q' = contents q @ [x] \<and> depth q' = depth q"
    and receive_empty: "contents q = [] \<Longrightarrow> q_receive ops q = None"
    and receive_head: "contents q = y # ys \<Longrightarrow>
          \<exists>q'. q_receive ops q = Some (y, q') \<and> contents q' = ys \<and> depth q' = depth q"
    and waiting_length: "q_waiting ops q = length (contents q)"
begin

lemma send_SomeD:
  assumes "q_send ops q x = Some q'"
  shows "contents q' = contents q @ [x]" and "depth q' = depth q" and "length (contents q) < depth q"
proof -
  show r: "length (contents q) < depth q"
    using assms send_full [of q x] by (metis not_less option.distinct(1))
  then show "contents q' = contents q @ [x]" "depth q' = depth q"
    using assms send_room [OF r, of x] by auto
qed

lemma send_None_iff: "q_send ops q x = None \<longleftrightarrow> depth q \<le> length (contents q)"
  using send_full send_room by (metis not_le option.distinct(1))

lemma receive_SomeD:
  assumes "q_receive ops q = Some (y, q')"
  shows "contents q = y # contents q'" and "depth q' = depth q"
proof -
  obtain z zs where c: "contents q = z # zs"
    using assms receive_empty [of q] by (cases "contents q") auto
  with assms receive_head [OF c] show "contents q = y # contents q'" "depth q' = depth q" by auto
qed

lemma receive_None_iff: "q_receive ops q = None \<longleftrightarrow> contents q = []"
proof (cases "contents q")
  case (Cons y ys)
  with receive_head [OF Cons] show ?thesis by auto
qed (simp add: receive_empty)

text \<open>Evicting the oldest element makes room, as long as the queue has any capacity.\<close>

lemma evict_then_send:
  assumes "0 < depth q" and "q_send ops q x = None" and bounded: "length (contents q) \<le> depth q"
  obtains y q1 q2 where "q_receive ops q = Some (y, q1)" and "q_send ops q1 x = Some q2"
    and "contents q = y # contents q1" and "contents q2 = contents q1 @ [x]" and "depth q2 = depth q"
proof -
  have full: "length (contents q) = depth q" using assms send_None_iff by force
  then obtain y ys where c: "contents q = y # ys" using assms(1) by (cases "contents q") auto
  from receive_head [OF c] obtain q1 where q1: "q_receive ops q = Some (y, q1)"
    "contents q1 = ys" "depth q1 = depth q" by blast
  have "length (contents q1) < depth q1" using full c q1 by simp
  from send_room [OF this, of x] obtain q2 where "q_send ops q1 x = Some q2"
    "contents q2 = contents q1 @ [x]" "depth q2 = depth q1" by blast
  with q1 c that show ?thesis by simp
qed

end

section \<open>A queue that satisfies the laws\<close>

type_synonym 'a list_queue = "nat \<times> 'a list"

definition list_queue_ops :: "('a list_queue, 'a) queue_ops" where
  "list_queue_ops = \<lparr>q_create = (\<lambda>n. (n, [])),
     q_send = (\<lambda>(n, xs) x. if length xs < n then Some (n, xs @ [x]) else None),
     q_receive = (\<lambda>(n, xs). case xs of [] \<Rightarrow> None | y # ys \<Rightarrow> Some (y, (n, ys))),
     q_waiting = (\<lambda>(n, xs). length xs)\<rparr>"

interpretation list_queue: bounded_fifo list_queue_ops snd fst
  by unfold_locales (auto simp: list_queue_ops_def)

end
