(* ===== verification/LinkCore.thy ===== *)
theory LinkCore
  imports LinkCodec BoundedQueue
begin

text \<open>
  The link service of \<open>src/src/services/solar_os_link.c\<close>: a table of named link instances, each with
  a receive and a transmit queue, a window of remembered messages and a list of messages that wait
  for an acknowledgement.

  A queue handle is a number into a heap of queues (\<open>lk_rx_heap\<close>, \<open>lk_tx_heap\<close>), because the handle
  is copied into a \<open>link_ref\<close> and used outside the mutex. Using a handle whose queue is gone is
  undefined behaviour in C; here it sets the ghost flag \<open>lk_fault\<close>. Each critical section and each
  queue operation outside the mutex is a definition of its own, and the public operations compose
  them in the order of the code. Queue operations never block here: a receive with a timeout is
  its final attempt.
\<close>

unbundle bit_operations_syntax

section \<open>State\<close>

record link_duplicate =
  ld_source :: u32
  ld_sequence :: u16
  ld_type :: u8
  ld_active :: bool

record link_pending =
  lp_destination :: u32
  lp_sequence :: u16
  lp_active :: bool

record link_status =
  ls_name :: string
  ls_local_id :: u32
  ls_frame_mtu :: nat
  ls_next_sequence :: u16
  ls_rx_queued :: nat
  ls_tx_queued :: nat
  ls_acknowledgements_pending :: nat
  ls_tx_messages :: u32
  ls_rx_messages :: u32
  ls_duplicates :: u32
  ls_crc_errors :: u32
  ls_acknowledgements_sent :: u32
  ls_acknowledgements_received :: u32
  ls_dropped :: u32
  ls_last_error :: esp_err

record link_instance =
  li_active :: bool
  li_closing :: bool
  li_generation :: u32
  li_refs :: nat
  li_name :: string
  li_local_id :: u32
  li_frame_mtu :: nat
  li_next_sequence :: u16
  li_rx_queue :: "nat option"
  li_tx_queue :: "nat option"
  li_duplicates :: "link_duplicate list"
  li_duplicate_next :: u32
  li_pending :: "link_pending list"
  li_pending_next :: u32
  li_status :: link_status

record link_ref =
  lf_index :: int
  lf_generation :: u32
  lf_rx_queue :: "nat option"
  lf_tx_queue :: "nat option"

record ingest_result =
  ir_accepted :: bool
  ir_duplicate :: bool
  ir_acknowledgement :: bool
  ir_message :: link_message

record ('m, 'f) link_state =
  lk_mutex :: bool
  lk_instances :: "link_instance list"
  lk_generation :: u32
  lk_rx_heap :: "nat \<Rightarrow> 'm option"
  lk_tx_heap :: "nat \<Rightarrow> 'f option"
  lk_next_handle :: nat
  lk_fault :: bool

definition LINK_NAME_MAX :: nat where
  "LINK_NAME_MAX = 20"

definition LINK_INSTANCE_MAX :: nat where
  "LINK_INSTANCE_MAX = 3"

definition LINK_QUEUE_DEPTH :: nat where
  "LINK_QUEUE_DEPTH = 4"

definition LINK_DUPLICATE_DEPTH :: nat where
  "LINK_DUPLICATE_DEPTH = 12"

definition LINK_PENDING_DEPTH :: nat where
  "LINK_PENDING_DEPTH = 8"

definition link_status_zero :: link_status where
  "link_status_zero = \<lparr>ls_name = [], ls_local_id = 0, ls_frame_mtu = 0, ls_next_sequence = 0,
     ls_rx_queued = 0, ls_tx_queued = 0, ls_acknowledgements_pending = 0, ls_tx_messages = 0,
     ls_rx_messages = 0, ls_duplicates = 0, ls_crc_errors = 0, ls_acknowledgements_sent = 0,
     ls_acknowledgements_received = 0, ls_dropped = 0, ls_last_error = ESP_OK\<rparr>"

definition link_instance_zero :: link_instance where
  "link_instance_zero = \<lparr>li_active = False, li_closing = False, li_generation = 0, li_refs = 0,
     li_name = [], li_local_id = 0, li_frame_mtu = 0, li_next_sequence = 0, li_rx_queue = None,
     li_tx_queue = None,
     li_duplicates = replicate LINK_DUPLICATE_DEPTH
       \<lparr>ld_source = 0, ld_sequence = 0, ld_type = 0, ld_active = False\<rparr>,
     li_duplicate_next = 0,
     li_pending = replicate LINK_PENDING_DEPTH \<lparr>lp_destination = 0, lp_sequence = 0, lp_active = False\<rparr>,
     li_pending_next = 0, li_status = link_status_zero\<rparr>"

definition link_message_zero :: link_message where
  "link_message_zero = \<lparr>lm_version = 0, lm_flags = 0, lm_type = LINK_MESSAGE_OTHER 0,
     lm_sequence = 0, lm_source = 0, lm_destination = 0, lm_payload = []\<rparr>"

definition ingest_result_zero :: ingest_result where
  "ingest_result_zero = \<lparr>ir_accepted = False, ir_duplicate = False, ir_acknowledgement = False,
     ir_message = link_message_zero\<rparr>"

definition link_boot :: "('m, 'f) link_state" where
  "link_boot = \<lparr>lk_mutex = False, lk_instances = replicate LINK_INSTANCE_MAX link_instance_zero,
     lk_generation = 1, lk_rx_heap = Map.empty, lk_tx_heap = Map.empty, lk_next_handle = 0,
     lk_fault = False\<rparr>"

definition upd_instance ::
  "nat \<Rightarrow> (link_instance \<Rightarrow> link_instance) \<Rightarrow> ('m, 'f) link_state \<Rightarrow> ('m, 'f) link_state" where
  "upd_instance i f s = s\<lparr>lk_instances := (lk_instances s)[i := f (lk_instances s ! i)]\<rparr>"

section \<open>Queue handles\<close>

definition rx_send ::
  "('m, link_message) queue_ops \<Rightarrow> ('m, 'f) link_state \<Rightarrow> nat option \<Rightarrow> link_message
   \<Rightarrow> bool \<times> ('m, 'f) link_state" where
  "rx_send rxo s handle m =
     (case handle of
        None \<Rightarrow> (False, s\<lparr>lk_fault := True\<rparr>)
      | Some h \<Rightarrow>
          (case lk_rx_heap s h of
             None \<Rightarrow> (False, s\<lparr>lk_fault := True\<rparr>)
           | Some q \<Rightarrow>
               (case q_send rxo q m of
                  None \<Rightarrow> (False, s)
                | Some q' \<Rightarrow> (True, s\<lparr>lk_rx_heap := (lk_rx_heap s)(h \<mapsto> q')\<rparr>))))"

definition rx_receive ::
  "('m, link_message) queue_ops \<Rightarrow> ('m, 'f) link_state \<Rightarrow> nat option
   \<Rightarrow> link_message option \<times> ('m, 'f) link_state" where
  "rx_receive rxo s handle =
     (case handle of
        None \<Rightarrow> (None, s\<lparr>lk_fault := True\<rparr>)
      | Some h \<Rightarrow>
          (case lk_rx_heap s h of
             None \<Rightarrow> (None, s\<lparr>lk_fault := True\<rparr>)
           | Some q \<Rightarrow>
               (case q_receive rxo q of
                  None \<Rightarrow> (None, s)
                | Some (m, q') \<Rightarrow> (Some m, s\<lparr>lk_rx_heap := (lk_rx_heap s)(h \<mapsto> q')\<rparr>))))"

definition tx_send ::
  "('f, link_frame) queue_ops \<Rightarrow> ('m, 'f) link_state \<Rightarrow> nat option \<Rightarrow> link_frame
   \<Rightarrow> bool \<times> ('m, 'f) link_state" where
  "tx_send txo s handle frame =
     (case handle of
        None \<Rightarrow> (False, s\<lparr>lk_fault := True\<rparr>)
      | Some h \<Rightarrow>
          (case lk_tx_heap s h of
             None \<Rightarrow> (False, s\<lparr>lk_fault := True\<rparr>)
           | Some q \<Rightarrow>
               (case q_send txo q frame of
                  None \<Rightarrow> (False, s)
                | Some q' \<Rightarrow> (True, s\<lparr>lk_tx_heap := (lk_tx_heap s)(h \<mapsto> q')\<rparr>))))"

definition tx_receive ::
  "('f, link_frame) queue_ops \<Rightarrow> ('m, 'f) link_state \<Rightarrow> nat option
   \<Rightarrow> link_frame option \<times> ('m, 'f) link_state" where
  "tx_receive txo s handle =
     (case handle of
        None \<Rightarrow> (None, s\<lparr>lk_fault := True\<rparr>)
      | Some h \<Rightarrow>
          (case lk_tx_heap s h of
             None \<Rightarrow> (None, s\<lparr>lk_fault := True\<rparr>)
           | Some q \<Rightarrow>
               (case q_receive txo q of
                  None \<Rightarrow> (None, s)
                | Some (m, q') \<Rightarrow> (Some m, s\<lparr>lk_tx_heap := (lk_tx_heap s)(h \<mapsto> q')\<rparr>))))"

section \<open>Names and references\<close>

definition link_name_valid :: "string option \<Rightarrow> bool" where
  "link_name_valid name \<longleftrightarrow>
     (case name of None \<Rightarrow> False | Some n \<Rightarrow> n \<noteq> [] \<and> min (length n) LINK_NAME_MAX < LINK_NAME_MAX)"

definition link_ensure_init :: "bool \<Rightarrow> ('m, 'f) link_state \<Rightarrow> esp_err \<times> ('m, 'f) link_state" where
  "link_ensure_init mutex_ok s =
     (if lk_mutex s then (ESP_OK, s)
      else if mutex_ok then (ESP_OK, s\<lparr>lk_mutex := True\<rparr>)
      else (ESP_ERR_NO_MEM, s))"

definition link_visible :: "link_instance \<Rightarrow> bool" where
  "link_visible inst \<longleftrightarrow> li_active inst \<and> \<not> li_closing inst"

definition link_find_locked :: "('m, 'f) link_state \<Rightarrow> string \<Rightarrow> int" where
  "link_find_locked s name =
     (case first_index (\<lambda>inst. link_visible inst \<and> li_name inst = name) (lk_instances s) of
        None \<Rightarrow> - 1
      | Some i \<Rightarrow> int i)"

definition link_ref_valid_locked :: "('m, 'f) link_state \<Rightarrow> link_ref \<Rightarrow> bool" where
  "link_ref_valid_locked s ref \<longleftrightarrow>
     0 \<le> lf_index ref \<and> lf_index ref < int LINK_INSTANCE_MAX
     \<and> (let inst = lk_instances s ! nat (lf_index ref)
        in li_generation inst = lf_generation ref \<and> 0 < li_refs inst)"

definition link_ref_none :: link_ref where
  "link_ref_none = \<lparr>lf_index = - 1, lf_generation = 0, lf_rx_queue = None, lf_tx_queue = None\<rparr>"

definition link_acquire ::
  "bool \<Rightarrow> ('m, 'f) link_state \<Rightarrow> string option \<Rightarrow> esp_err \<times> ('m, 'f) link_state \<times> link_ref" where
  "link_acquire mutex_ok s name =
     (if \<not> link_name_valid name then (ESP_ERR_INVALID_ARG, s, link_ref_none)
      else (case link_ensure_init mutex_ok s of
              (ESP_OK, s1) \<Rightarrow>
                let index = link_find_locked s1 (the name)
                in if index < 0 then (ESP_ERR_NOT_FOUND, s1, link_ref_none)
                   else let inst = lk_instances s1 ! nat index
                        in (ESP_OK,
                            upd_instance (nat index) (\<lambda>x. x\<lparr>li_refs := li_refs x + 1\<rparr>) s1,
                            \<lparr>lf_index = index, lf_generation = li_generation inst,
                             lf_rx_queue = li_rx_queue inst, lf_tx_queue = li_tx_queue inst\<rparr>)
            | (err, s1) \<Rightarrow> (err, s1, link_ref_none)))"

definition link_release :: "('m, 'f) link_state \<Rightarrow> link_ref \<Rightarrow> ('m, 'f) link_state" where
  "link_release s ref =
     (if \<not> lk_mutex s then s
      else if link_ref_valid_locked s ref
           then upd_instance (nat (lf_index ref)) (\<lambda>x. x\<lparr>li_refs := li_refs x - 1\<rparr>) s
           else s)"

section \<open>Creation and destruction\<close>

definition solar_os_link_init :: "bool \<Rightarrow> ('m, 'f) link_state \<Rightarrow> esp_err \<times> ('m, 'f) link_state" where
  "solar_os_link_init mutex_ok s = link_ensure_init mutex_ok s"

text \<open>\<open>mac\<close> is the result of \<open>esp_efuse_mac_get_default\<close>, \<open>None\<close> on an error.\<close>

definition fnv_step :: "u32 \<Rightarrow> u8 \<Rightarrow> u32" where
  "fnv_step hash b = (hash XOR ucast b) * 16777619"

definition solar_os_link_default_local_id :: "u8 list option \<Rightarrow> u32" where
  "solar_os_link_default_local_id mac =
     (case mac of
        None \<Rightarrow> 1
      | Some m \<Rightarrow>
          let hash = foldl fnv_step 2166136261 m
          in if hash = 0 \<or> hash = LINK_BROADCAST then hash XOR 0xa5a5a5a5 else hash)"

text \<open>\<open>rx_ok\<close> and \<open>tx_ok\<close> are the outcomes of the two queue allocations.\<close>

definition solar_os_link_create ::
  "('m, link_message) queue_ops \<Rightarrow> ('f, link_frame) queue_ops \<Rightarrow> bool \<Rightarrow> bool \<Rightarrow> bool
   \<Rightarrow> ('m, 'f) link_state \<Rightarrow> string option \<Rightarrow> u32 \<Rightarrow> nat \<Rightarrow> esp_err \<times> ('m, 'f) link_state" where
  "solar_os_link_create rxo txo mutex_ok rx_ok tx_ok s name local_id frame_mtu =
     (if \<not> link_name_valid name \<or> local_id = 0 \<or> local_id = LINK_BROADCAST
         \<or> frame_mtu < LINK_HEADER_SIZE + LINK_CRC_SIZE \<or> LINK_FRAME_MAX < frame_mtu
      then (ESP_ERR_INVALID_ARG, s)
      else (case link_ensure_init mutex_ok s of
              (ESP_OK, s1) \<Rightarrow>
                if \<not> rx_ok then (ESP_ERR_NO_MEM, s1)
                else if \<not> tx_ok then (ESP_ERR_NO_MEM, s1)
                else if 0 \<le> link_find_locked s1 (the name) then (ESP_ERR_INVALID_STATE, s1)
                else (case first_index (\<lambda>inst. \<not> li_active inst \<and> \<not> li_closing inst) (lk_instances s1) of
                        None \<Rightarrow> (ESP_ERR_NO_MEM, s1)
                      | Some slot \<Rightarrow>
                          let h = lk_next_handle s1;
                              inst = link_instance_zero\<lparr>li_active := True,
                                li_generation := lk_generation s1,
                                li_name := strlcpy LINK_NAME_MAX (the name),
                                li_local_id := local_id, li_frame_mtu := frame_mtu,
                                li_next_sequence := 1,
                                li_rx_queue := Some h, li_tx_queue := Some h\<rparr>;
                              generation = lk_generation s1 + 1
                          in (ESP_OK,
                              upd_instance slot (\<lambda>_. inst)
                                (s1\<lparr>lk_generation := (if generation = 0 then 1 else generation),
                                    lk_rx_heap := (lk_rx_heap s1)(h \<mapsto> q_create rxo LINK_QUEUE_DEPTH),
                                    lk_tx_heap := (lk_tx_heap s1)(h \<mapsto> q_create txo LINK_QUEUE_DEPTH),
                                    lk_next_handle := Suc h\<rparr>)))
            | (err, s1) \<Rightarrow> (err, s1)))"

text \<open>
  Destruction: the instance is hidden, then the caller waits for the outstanding references. Each
  element of \<open>polls\<close> is one turn of the waiting loop: the tick counter read in it, and what the
  other tasks do to the state while the caller sleeps. \<open>None\<close> means the loop still runs when
  \<open>polls\<close> is exhausted. \<open>wait_ticks\<close> is \<open>pdMS_TO_TICKS(LINK_DESTROY_WAIT_MS)\<close>.
\<close>

definition link_destroy_begin ::
  "('m, 'f) link_state \<Rightarrow> string \<Rightarrow> (nat \<times> nat option \<times> nat option) option \<times> ('m, 'f) link_state" where
  "link_destroy_begin s name =
     (let index = link_find_locked s name
      in if index < 0 then (None, s)
         else let inst = lk_instances s ! nat index
              in (Some (nat index, li_rx_queue inst, li_tx_queue inst),
                  upd_instance (nat index) (\<lambda>x. x\<lparr>li_active := False, li_closing := True\<rparr>) s))"

definition heap_delete :: "nat option \<Rightarrow> (nat \<Rightarrow> 'q option) \<Rightarrow> nat \<Rightarrow> 'q option" where
  "heap_delete handle heap = (case handle of None \<Rightarrow> heap | Some h \<Rightarrow> heap(h := None))"

definition link_destroy_finish ::
  "('m, 'f) link_state \<Rightarrow> nat \<Rightarrow> nat option \<Rightarrow> nat option \<Rightarrow> ('m, 'f) link_state" where
  "link_destroy_finish s index rx tx =
     upd_instance index (\<lambda>_. link_instance_zero)
       (s\<lparr>lk_tx_heap := heap_delete tx (lk_tx_heap s), lk_rx_heap := heap_delete rx (lk_rx_heap s)\<rparr>)"

fun link_destroy_wait ::
  "nat \<Rightarrow> u32 \<Rightarrow> (u32 \<times> (('m, 'f) link_state \<Rightarrow> ('m, 'f) link_state)) list \<Rightarrow> ('m, 'f) link_state
   \<Rightarrow> (bool \<times> ('m, 'f) link_state) option" where
  "link_destroy_wait index deadline [] s =
     (if li_refs (lk_instances s ! index) = 0 then Some (True, s) else None)"
| "link_destroy_wait index deadline ((now, others) # polls) s =
     (if li_refs (lk_instances s ! index) = 0 then Some (True, s)
      else if sint (deadline - now) \<le> 0 then Some (False, s)
      else link_destroy_wait index deadline polls (others s))"

definition solar_os_link_destroy ::
  "bool \<Rightarrow> u32 \<Rightarrow> u32 \<Rightarrow> (u32 \<times> (('m, 'f) link_state \<Rightarrow> ('m, 'f) link_state)) list
   \<Rightarrow> ('m, 'f) link_state \<Rightarrow> string option \<Rightarrow> (esp_err \<times> ('m, 'f) link_state) option" where
  "solar_os_link_destroy mutex_ok start wait_ticks polls s name =
     (if \<not> link_name_valid name then Some (ESP_ERR_INVALID_ARG, s)
      else (case link_ensure_init mutex_ok s of
              (ESP_OK, s1) \<Rightarrow>
                (case link_destroy_begin s1 (the name) of
                   (None, s2) \<Rightarrow> Some (ESP_ERR_NOT_FOUND, s2)
                 | (Some (index, rx, tx), s2) \<Rightarrow>
                     (case link_destroy_wait index (start + wait_ticks) polls s2 of
                        None \<Rightarrow> None
                      | Some (False, s3) \<Rightarrow> Some (ESP_ERR_TIMEOUT, s3)
                      | Some (True, s3) \<Rightarrow> Some (ESP_OK, link_destroy_finish s3 index rx tx)))
            | (err, s1) \<Rightarrow> Some (err, s1)))"

section \<open>Status\<close>

definition solar_os_link_count :: "bool \<Rightarrow> ('m, 'f) link_state \<Rightarrow> nat \<times> ('m, 'f) link_state" where
  "solar_os_link_count mutex_ok s =
     (case link_ensure_init mutex_ok s of
        (ESP_OK, s1) \<Rightarrow> (length (filter link_visible (lk_instances s1)), s1)
      | (_, s1) \<Rightarrow> (0, s1))"

text \<open>The number of messages waiting behind a handle, and whether the handle was still live.\<close>

definition handle_waiting :: "('q, 'a) queue_ops \<Rightarrow> (nat \<Rightarrow> 'q option) \<Rightarrow> nat option \<Rightarrow> nat \<times> bool" where
  "handle_waiting ops heap handle =
     (case handle of
        None \<Rightarrow> (0, False)
      | Some h \<Rightarrow> (case heap h of None \<Rightarrow> (0, False) | Some q \<Rightarrow> (q_waiting ops q, True)))"

definition link_fill_status_locked ::
  "('m, link_message) queue_ops \<Rightarrow> ('f, link_frame) queue_ops \<Rightarrow> ('m, 'f) link_state
   \<Rightarrow> link_instance \<Rightarrow> link_status \<times> ('m, 'f) link_state" where
  "link_fill_status_locked rxo txo s inst =
     (let (rx, rx_live) = handle_waiting rxo (lk_rx_heap s) (li_rx_queue inst);
          (tx, tx_live) = handle_waiting txo (lk_tx_heap s) (li_tx_queue inst)
      in ((li_status inst)\<lparr>ls_name := strlcpy LINK_NAME_MAX (li_name inst),
            ls_local_id := li_local_id inst, ls_frame_mtu := li_frame_mtu inst,
            ls_next_sequence := li_next_sequence inst, ls_rx_queued := rx, ls_tx_queued := tx,
            ls_acknowledgements_pending := length (filter lp_active (li_pending inst))\<rparr>,
          if rx_live \<and> tx_live then s else s\<lparr>lk_fault := True\<rparr>))"

fun nth_visible :: "nat \<Rightarrow> link_instance list \<Rightarrow> link_instance option" where
  "nth_visible index [] = None"
| "nth_visible index (inst # insts) =
     (if \<not> link_visible inst then nth_visible index insts
      else if index = 0 then Some inst
      else nth_visible (index - 1) insts)"

definition solar_os_link_get ::
  "('m, link_message) queue_ops \<Rightarrow> ('f, link_frame) queue_ops \<Rightarrow> bool \<Rightarrow> ('m, 'f) link_state
   \<Rightarrow> nat \<Rightarrow> link_status option \<Rightarrow> bool \<times> ('m, 'f) link_state \<times> link_status option" where
  "solar_os_link_get rxo txo mutex_ok s index status =
     (if status = None then (False, s, status)
      else (case link_ensure_init mutex_ok s of
              (ESP_OK, s1) \<Rightarrow>
                (case nth_visible index (lk_instances s1) of
                   None \<Rightarrow> (False, s1, status)
                 | Some inst \<Rightarrow>
                     let (st, s2) = link_fill_status_locked rxo txo s1 inst in (True, s2, Some st))
            | (_, s1) \<Rightarrow> (False, s1, status)))"

definition solar_os_link_get_status ::
  "('m, link_message) queue_ops \<Rightarrow> ('f, link_frame) queue_ops \<Rightarrow> bool \<Rightarrow> ('m, 'f) link_state
   \<Rightarrow> string option \<Rightarrow> link_status option \<Rightarrow> esp_err \<times> ('m, 'f) link_state \<times> link_status option" where
  "solar_os_link_get_status rxo txo mutex_ok s name status =
     (if \<not> link_name_valid name \<or> status = None then (ESP_ERR_INVALID_ARG, s, status)
      else (case link_ensure_init mutex_ok s of
              (ESP_OK, s1) \<Rightarrow>
                let index = link_find_locked s1 (the name)
                in if index < 0 then (ESP_ERR_NOT_FOUND, s1, status)
                   else let (st, s2) = link_fill_status_locked rxo txo s1 (lk_instances s1 ! nat index)
                        in (ESP_OK, s2, Some st)
            | (err, s1) \<Rightarrow> (err, s1, status)))"

section \<open>Sending\<close>

definition link_pending_alloc_locked :: "link_instance \<Rightarrow> nat \<times> link_instance" where
  "link_pending_alloc_locked inst =
     (case first_index (\<lambda>p. \<not> lp_active p) (li_pending inst) of
        Some i \<Rightarrow> (i, inst)
      | None \<Rightarrow> (unat (li_pending_next inst) mod LINK_PENDING_DEPTH,
                 inst\<lparr>li_pending_next := li_pending_next inst + 1\<rparr>))"

definition wants_ack :: "link_message_type \<Rightarrow> u32 \<Rightarrow> bool" where
  "wants_ack type destination \<longleftrightarrow>
     destination \<noteq> LINK_BROADCAST \<and> link_type_requests_acknowledgement type"

text \<open>The first critical section of a send: the sequence number and the header of the message.\<close>

definition next_sequence_after :: "u16 \<Rightarrow> u16" where
  "next_sequence_after sequence = (if sequence + 1 = 0 then 1 else sequence + 1)"

definition link_send_begin ::
  "('m, 'f) link_state \<Rightarrow> link_ref \<Rightarrow> link_message_type \<Rightarrow> u32
   \<Rightarrow> link_message option \<times> ('m, 'f) link_state" where
  "link_send_begin s ref type destination =
     (if \<not> link_ref_valid_locked s ref then (None, s)
      else let index = nat (lf_index ref);
               inst = lk_instances s ! index
           in (Some \<lparr>lm_version = LINK_PROTOCOL_VERSION,
                     lm_flags = (if wants_ack type destination then LINK_FLAG_ACK_REQUESTED else 0),
                     lm_type = type, lm_sequence = li_next_sequence inst,
                     lm_source = li_local_id inst, lm_destination = destination, lm_payload = []\<rparr>,
               upd_instance index
                 (\<lambda>x. x\<lparr>li_next_sequence := next_sequence_after (li_next_sequence x)\<rparr>) s))"

text \<open>Outside the mutex: encode, compare with the instance's MTU, queue the frame.\<close>

definition link_send_enqueue ::
  "('f, link_frame) queue_ops \<Rightarrow> ('m, 'f) link_state \<Rightarrow> link_ref \<Rightarrow> link_message
   \<Rightarrow> esp_err \<times> ('m, 'f) link_state" where
  "link_send_enqueue txo s ref m =
     (case solar_os_link_encode (Some m) (Some []) of
        (ESP_OK, Some frame) \<Rightarrow>
          if li_frame_mtu (lk_instances s ! nat (lf_index ref)) < length frame
          then (ESP_ERR_INVALID_SIZE, s)
          else (case tx_send txo s (lf_tx_queue ref) frame of
                  (True, s1) \<Rightarrow> (ESP_OK, s1)
                | (False, s1) \<Rightarrow> (ESP_ERR_NO_MEM, s1))
      | (err, _) \<Rightarrow> (err, s))"

definition add_pending :: "u32 \<Rightarrow> u16 \<Rightarrow> link_instance \<Rightarrow> link_instance" where
  "add_pending destination sequence inst =
     (let (i, inst1) = link_pending_alloc_locked inst
      in inst1\<lparr>li_pending := (li_pending inst1)[i := \<lparr>lp_destination = destination,
           lp_sequence = sequence, lp_active = True\<rparr>]\<rparr>)"

definition upd_status :: "(link_status \<Rightarrow> link_status) \<Rightarrow> link_instance \<Rightarrow> link_instance" where
  "upd_status f inst = inst\<lparr>li_status := f (li_status inst)\<rparr>"

definition link_send_commit ::
  "('m, 'f) link_state \<Rightarrow> link_ref \<Rightarrow> esp_err \<Rightarrow> link_message \<Rightarrow> ('m, 'f) link_state" where
  "link_send_commit s ref ret m =
     (if \<not> link_ref_valid_locked s ref then s
      else upd_instance (nat (lf_index ref))
        (\<lambda>inst.
          let inst1 = upd_status (\<lambda>st. st\<lparr>ls_last_error := ret\<rparr>) inst
          in if ret = ESP_OK
             then let inst2 = upd_status (\<lambda>st. st\<lparr>ls_tx_messages := ls_tx_messages st + 1\<rparr>) inst1
                  in if wants_ack (lm_type m) (lm_destination m)
                     then add_pending (lm_destination m) (lm_sequence m) inst2
                     else inst2
             else upd_status (\<lambda>st. st\<lparr>ls_dropped := ls_dropped st + 1\<rparr>) inst1) s)"

definition solar_os_link_send ::
  "('f, link_frame) queue_ops \<Rightarrow> bool \<Rightarrow> ('m, 'f) link_state \<Rightarrow> string option
   \<Rightarrow> link_message_type \<Rightarrow> u32 \<Rightarrow> u8 list option \<Rightarrow> nat \<Rightarrow> u16 option
   \<Rightarrow> esp_err \<times> ('m, 'f) link_state \<times> u16 option" where
  "solar_os_link_send txo mutex_ok s name type destination payload payload_len sequence =
     (if (type \<noteq> LINK_MESSAGE_TEXT \<and> type \<noteq> LINK_MESSAGE_BINARY \<and> type \<noteq> LINK_MESSAGE_STREAM)
         \<or> destination = 0 \<or> LINK_PAYLOAD_MAX < payload_len
         \<or> (type = LINK_MESSAGE_STREAM \<and> destination = LINK_BROADCAST)
         \<or> (payload = None \<and> 0 < payload_len)
      then (ESP_ERR_INVALID_ARG, s, sequence)
      else (case link_acquire mutex_ok s name of
              (ESP_OK, s1, ref) \<Rightarrow>
                (case link_send_begin s1 ref type destination of
                   (None, s2) \<Rightarrow> (ESP_ERR_INVALID_STATE, link_release s2 ref, sequence)
                 | (Some header, s2) \<Rightarrow>
                     let m = header\<lparr>lm_payload := (if 0 < payload_len then take payload_len (the payload)
                                                  else [])\<rparr>;
                         (ret, s3) = link_send_enqueue txo s2 ref m;
                         s4 = link_send_commit s3 ref ret m
                     in (ret, link_release s4 ref,
                         if sequence \<noteq> None \<and> ret = ESP_OK then Some (lm_sequence m) else sequence))
            | (err, s1, _) \<Rightarrow> (err, s1, sequence)))"

definition solar_os_link_take_tx ::
  "('f, link_frame) queue_ops \<Rightarrow> bool \<Rightarrow> ('m, 'f) link_state \<Rightarrow> string option \<Rightarrow> link_frame option
   \<Rightarrow> esp_err \<times> ('m, 'f) link_state \<times> link_frame option" where
  "solar_os_link_take_tx txo mutex_ok s name frame =
     (if frame = None then (ESP_ERR_INVALID_ARG, s, frame)
      else (case link_acquire mutex_ok s name of
              (ESP_OK, s1, ref) \<Rightarrow>
                (case tx_receive txo s1 (lf_tx_queue ref) of
                   (Some f, s2) \<Rightarrow> (ESP_OK, link_release s2 ref, Some f)
                 | (None, s2) \<Rightarrow> (ESP_ERR_TIMEOUT, link_release s2 ref, frame))
            | (err, s1, _) \<Rightarrow> (err, s1, frame)))"

section \<open>Receiving\<close>

definition duplicate_matches :: "link_message \<Rightarrow> link_duplicate \<Rightarrow> bool" where
  "duplicate_matches m d \<longleftrightarrow>
     ld_active d \<and> ld_source d = lm_source m \<and> ld_sequence d = lm_sequence m
     \<and> ld_type d = type_byte (lm_type m)"

definition link_is_duplicate_locked :: "link_instance \<Rightarrow> link_message \<Rightarrow> bool" where
  "link_is_duplicate_locked inst m \<longleftrightarrow> list_ex (duplicate_matches m) (li_duplicates inst)"

definition link_remember_locked :: "link_message \<Rightarrow> link_instance \<Rightarrow> link_instance" where
  "link_remember_locked m inst =
     inst\<lparr>li_duplicates := (li_duplicates inst)
            [unat (li_duplicate_next inst) mod LINK_DUPLICATE_DEPTH :=
               \<lparr>ld_source = lm_source m, ld_sequence = lm_sequence m,
                ld_type = type_byte (lm_type m), ld_active = True\<rparr>],
          li_duplicate_next := li_duplicate_next inst + 1\<rparr>"

definition pending_matches :: "link_message \<Rightarrow> link_pending \<Rightarrow> bool" where
  "pending_matches m p \<longleftrightarrow>
     lp_active p \<and> lp_destination p = lm_source m \<and> lp_sequence p = lm_sequence m"

definition link_ack_pending_locked :: "link_message \<Rightarrow> link_instance \<Rightarrow> link_instance" where
  "link_ack_pending_locked m inst =
     (case first_index (pending_matches m) (li_pending inst) of
        None \<Rightarrow> inst
      | Some i \<Rightarrow>
          upd_status (\<lambda>st. st\<lparr>ls_acknowledgements_received := ls_acknowledgements_received st + 1\<rparr>)
            (inst\<lparr>li_pending := (li_pending inst)[i := (li_pending inst ! i)\<lparr>lp_active := False\<rparr>]\<rparr>))"

definition ack_message :: "u32 \<Rightarrow> link_message \<Rightarrow> link_message" where
  "ack_message local_id m =
     \<lparr>lm_version = LINK_PROTOCOL_VERSION, lm_flags = 0, lm_type = LINK_MESSAGE_ACKNOWLEDGEMENT,
      lm_sequence = lm_sequence m, lm_source = local_id, lm_destination = lm_source m, lm_payload = []\<rparr>"

definition link_queue_ack ::
  "('f, link_frame) queue_ops \<Rightarrow> ('m, 'f) link_state \<Rightarrow> nat \<Rightarrow> nat option \<Rightarrow> link_message
   \<Rightarrow> esp_err \<times> ('m, 'f) link_state" where
  "link_queue_ack txo s index tx_queue m =
     (case solar_os_link_encode (Some (ack_message (li_local_id (lk_instances s ! index)) m)) (Some []) of
        (ESP_OK, Some frame) \<Rightarrow>
          (case tx_send txo s tx_queue frame of
             (True, s1) \<Rightarrow> (ESP_OK, s1)
           | (False, s1) \<Rightarrow> (ESP_ERR_NO_MEM, s1))
      | (err, _) \<Rightarrow> (err, s))"

definition link_queue_received ::
  "('m, link_message) queue_ops \<Rightarrow> ('m, 'f) link_state \<Rightarrow> nat option \<Rightarrow> link_message
   \<Rightarrow> esp_err \<times> bool \<times> ('m, 'f) link_state" where
  "link_queue_received rxo s rx_queue m =
     (case rx_send rxo s rx_queue m of
        (True, s1) \<Rightarrow> (ESP_OK, False, s1)
      | (False, s1) \<Rightarrow>
          let (oldest, s2) = rx_receive rxo s1 rx_queue;
              (sent, s3) = rx_send rxo s2 rx_queue m
          in (if sent then ESP_OK else ESP_ERR_NO_MEM, oldest \<noteq> None, s3))"

text \<open>The critical section for a frame that does not decode.\<close>

definition link_ingest_reject ::
  "('m, 'f) link_state \<Rightarrow> link_ref \<Rightarrow> esp_err \<Rightarrow> ('m, 'f) link_state" where
  "link_ingest_reject s ref ret =
     (if \<not> link_ref_valid_locked s ref then s
      else upd_instance (nat (lf_index ref))
        (upd_status (\<lambda>st.
           let st1 = st\<lparr>ls_last_error := ret\<rparr>
           in if ret = ESP_ERR_INVALID_CRC then st1\<lparr>ls_crc_errors := ls_crc_errors st1 + 1\<rparr>
              else st1\<lparr>ls_dropped := ls_dropped st1 + 1\<rparr>)) s)"

text \<open>The critical section that classifies a decoded message.\<close>

datatype ingest_class =
    IC_INVALID_STATE
  | IC_NOT_FOUND
  | IC_ACKNOWLEDGEMENT
  | IC_DATA bool bool

definition link_ingest_classify ::
  "('m, 'f) link_state \<Rightarrow> link_ref \<Rightarrow> link_message \<Rightarrow> ingest_class \<times> ('m, 'f) link_state" where
  "link_ingest_classify s ref m =
     (if \<not> link_ref_valid_locked s ref then (IC_INVALID_STATE, s)
      else let index = nat (lf_index ref);
               inst = lk_instances s ! index
           in if lm_destination m \<noteq> li_local_id inst \<and> lm_destination m \<noteq> LINK_BROADCAST
              then (IC_NOT_FOUND, s)
              else if lm_type m = LINK_MESSAGE_ACKNOWLEDGEMENT
              then (IC_ACKNOWLEDGEMENT,
                    upd_instance index
                      (\<lambda>x. upd_status (\<lambda>st. st\<lparr>ls_last_error := ESP_OK\<rparr>) (link_ack_pending_locked m x)) s)
              else let duplicate = (lm_type m \<noteq> LINK_MESSAGE_STREAM \<and> link_is_duplicate_locked inst m);
                       send_ack = (lm_destination m \<noteq> LINK_BROADCAST \<and>
                                   lm_flags m AND LINK_FLAG_ACK_REQUESTED \<noteq> 0)
                   in (IC_DATA duplicate send_ack,
                       if duplicate
                       then upd_instance index
                              (upd_status (\<lambda>st. st\<lparr>ls_duplicates := ls_duplicates st + 1\<rparr>)) s
                       else s))"

text \<open>The closing critical section of a data message.\<close>

definition link_ingest_commit ::
  "('m, 'f) link_state \<Rightarrow> link_ref \<Rightarrow> link_message \<Rightarrow> esp_err \<Rightarrow> bool \<Rightarrow> bool \<Rightarrow> bool \<Rightarrow> esp_err
   \<Rightarrow> ('m, 'f) link_state" where
  "link_ingest_commit s ref m ret duplicate evicted send_ack ack_ret =
     (if \<not> link_ref_valid_locked s ref then s
      else upd_instance (nat (lf_index ref))
        (\<lambda>inst.
          let dropped = upd_status (\<lambda>st. st\<lparr>ls_dropped := ls_dropped st + 1\<rparr>);
              inst1 =
                (if ret = ESP_OK
                 then let i1 = (if \<not> duplicate \<and> lm_type m \<noteq> LINK_MESSAGE_STREAM
                                then link_remember_locked m inst else inst);
                          i2 = (if \<not> duplicate
                                then let j = upd_status (\<lambda>st. st\<lparr>ls_rx_messages := ls_rx_messages st + 1\<rparr>) i1
                                     in if evicted then dropped j else j
                                else i1)
                      in if send_ack \<and> ack_ret = ESP_OK
                         then upd_status (\<lambda>st. st\<lparr>ls_acknowledgements_sent := ls_acknowledgements_sent st + 1\<rparr>) i2
                         else if send_ack then dropped i2
                         else i2
                 else dropped inst)
          in upd_status (\<lambda>st. st\<lparr>ls_last_error := (if ret \<noteq> ESP_OK then ret else ack_ret)\<rparr>) inst1) s)"

definition solar_os_link_ingest ::
  "('m, link_message) queue_ops \<Rightarrow> ('f, link_frame) queue_ops \<Rightarrow> bool \<Rightarrow> ('m, 'f) link_state
   \<Rightarrow> string option \<Rightarrow> u8 list option \<Rightarrow> ingest_result option
   \<Rightarrow> esp_err \<times> ('m, 'f) link_state \<times> ingest_result option" where
  "solar_os_link_ingest rxo txo mutex_ok s name frame result =
     (if result = None then (ESP_ERR_INVALID_ARG, s, None)
      else
        let (ret, decoded) = solar_os_link_decode frame (Some link_message_zero);
            m = the decoded;
            zero = ingest_result_zero
        in (case link_acquire mutex_ok s name of
              (ESP_OK, s1, ref) \<Rightarrow>
                if ret \<noteq> ESP_OK
                then (ret, link_release (link_ingest_reject s1 ref ret) ref, Some zero)
                else (case link_ingest_classify s1 ref m of
                        (IC_INVALID_STATE, s2) \<Rightarrow> (ESP_ERR_INVALID_STATE, link_release s2 ref, Some zero)
                      | (IC_NOT_FOUND, s2) \<Rightarrow> (ESP_ERR_NOT_FOUND, link_release s2 ref, Some zero)
                      | (IC_ACKNOWLEDGEMENT, s2) \<Rightarrow>
                          (ESP_OK, link_release s2 ref,
                           Some (zero\<lparr>ir_acknowledgement := True, ir_message := m\<rparr>))
                      | (IC_DATA duplicate send_ack, s2) \<Rightarrow>
                          let (ret1, evicted, s3) =
                                (if \<not> duplicate \<and> lm_type m \<noteq> LINK_MESSAGE_STREAM
                                 then link_queue_received rxo s2 (lf_rx_queue ref) m
                                 else (ESP_OK, False, s2));
                              (ack_ret, s4) =
                                (if ret1 = ESP_OK \<and> send_ack
                                 then link_queue_ack txo s3 (nat (lf_index ref)) (lf_tx_queue ref) m
                                 else (ESP_OK, s3));
                              s5 = link_ingest_commit s4 ref m ret1 duplicate evicted send_ack ack_ret
                          in (ret1, link_release s5 ref,
                              Some (zero\<lparr>ir_accepted := (ret1 = ESP_OK \<and> \<not> duplicate),
                                         ir_duplicate := duplicate, ir_message := m\<rparr>)))
            | (err, s1, _) \<Rightarrow> (err, s1, Some zero)))"

definition solar_os_link_receive ::
  "('m, link_message) queue_ops \<Rightarrow> bool \<Rightarrow> ('m, 'f) link_state \<Rightarrow> string option \<Rightarrow> link_message option
   \<Rightarrow> esp_err \<times> ('m, 'f) link_state \<times> link_message option" where
  "solar_os_link_receive rxo mutex_ok s name message =
     (if message = None then (ESP_ERR_INVALID_ARG, s, message)
      else (case link_acquire mutex_ok s name of
              (ESP_OK, s1, ref) \<Rightarrow>
                (case rx_receive rxo s1 (lf_rx_queue ref) of
                   (Some m, s2) \<Rightarrow> (ESP_OK, link_release s2 ref, Some m)
                 | (None, s2) \<Rightarrow> (ESP_ERR_TIMEOUT, link_release s2 ref, message))
            | (err, s1, _) \<Rightarrow> (err, s1, message)))"

end
