(* ===== verification/LinkProtocol.thy ===== *)
theory LinkProtocol
  imports LinkCore
begin

text \<open>
  The link service under concurrency (\<open>doc/service-concurrency.md\<close>: a service keeps its mutex only
  around its own table and uses queues outside it). Every task that calls the service holds a
  reference between \<open>link_acquire\<close> and \<open>link_release\<close>; its program counter is a phase of the
  operation it runs. A destroying task waits for the references, then deletes the queues and clears
  the slot. One step of the system is one critical section or one queue operation of one task.
\<close>

section \<open>Tasks\<close>

datatype link_phase =
    PH_send_begin link_message_type u32 "u8 list"
  | PH_send_enqueue link_message
  | PH_send_commit link_message esp_err
  | PH_take_tx
  | PH_receive
  | PH_reject esp_err
  | PH_classify link_message
  | PH_queue link_message bool
  | PH_evict link_message bool
  | PH_requeue link_message bool bool
  | PH_ack link_message esp_err bool bool bool
  | PH_commit link_message esp_err bool bool bool esp_err
  | PH_release

datatype destroy_phase = DP_wait | DP_delete_tx | DP_delete_rx | DP_clear

record destroyer =
  dy_index :: nat
  dy_rx :: "nat option"
  dy_tx :: "nat option"
  dy_phase :: destroy_phase

definition start_phase :: "link_phase \<Rightarrow> bool" where
  "start_phase ph \<longleftrightarrow>
     (case ph of PH_send_begin _ _ _ \<Rightarrow> True | PH_take_tx \<Rightarrow> True | PH_receive \<Rightarrow> True
      | PH_reject _ \<Rightarrow> True | PH_classify _ \<Rightarrow> True | _ \<Rightarrow> False)"

text \<open>What a task that holds \<open>ref\<close> does in each phase.\<close>

definition phase_step ::
  "('m, link_message) queue_ops \<Rightarrow> ('f, link_frame) queue_ops \<Rightarrow> link_ref \<Rightarrow> link_phase
   \<Rightarrow> ('m, 'f) link_state \<Rightarrow> link_phase \<times> ('m, 'f) link_state" where
  "phase_step rxo txo ref ph s =
     (case ph of
        PH_send_begin type destination payload \<Rightarrow>
          (case link_send_begin s ref type destination of
             (None, s1) \<Rightarrow> (PH_release, s1)
           | (Some header, s1) \<Rightarrow> (PH_send_enqueue (header\<lparr>lm_payload := payload\<rparr>), s1))
      | PH_send_enqueue m \<Rightarrow>
          let (ret, s1) = link_send_enqueue txo s ref m in (PH_send_commit m ret, s1)
      | PH_send_commit m ret \<Rightarrow> (PH_release, link_send_commit s ref ret m)
      | PH_take_tx \<Rightarrow> (PH_release, snd (tx_receive txo s (lf_tx_queue ref)))
      | PH_receive \<Rightarrow> (PH_release, snd (rx_receive rxo s (lf_rx_queue ref)))
      | PH_reject ret \<Rightarrow> (PH_release, link_ingest_reject s ref ret)
      | PH_classify m \<Rightarrow>
          (case link_ingest_classify s ref m of
             (IC_DATA duplicate send_ack, s1) \<Rightarrow>
               (if \<not> duplicate \<and> lm_type m \<noteq> LINK_MESSAGE_STREAM then PH_queue m send_ack
                else PH_ack m ESP_OK duplicate False send_ack, s1)
           | (_, s1) \<Rightarrow> (PH_release, s1))
      | PH_queue m send_ack \<Rightarrow>
          (case rx_send rxo s (lf_rx_queue ref) m of
             (True, s1) \<Rightarrow> (PH_ack m ESP_OK False False send_ack, s1)
           | (False, s1) \<Rightarrow> (PH_evict m send_ack, s1))
      | PH_evict m send_ack \<Rightarrow>
          let (oldest, s1) = rx_receive rxo s (lf_rx_queue ref)
          in (PH_requeue m (oldest \<noteq> None) send_ack, s1)
      | PH_requeue m evicted send_ack \<Rightarrow>
          let (sent, s1) = rx_send rxo s (lf_rx_queue ref) m
          in (PH_ack m (if sent then ESP_OK else ESP_ERR_NO_MEM) False evicted send_ack, s1)
      | PH_ack m ret duplicate evicted send_ack \<Rightarrow>
          if ret = ESP_OK \<and> send_ack
          then let (ack_ret, s1) = link_queue_ack txo s (nat (lf_index ref)) (lf_tx_queue ref) m
               in (PH_commit m ret duplicate evicted send_ack ack_ret, s1)
          else (PH_commit m ret duplicate evicted send_ack ESP_OK, s)
      | PH_commit m ret duplicate evicted send_ack ack_ret \<Rightarrow>
          (PH_release, link_ingest_commit s ref m ret duplicate evicted send_ack ack_ret)
      | PH_release \<Rightarrow> (PH_release, s))"

type_synonym ('m, 'f) link_system =
  "('m, 'f) link_state \<times> (link_ref \<times> link_phase) list \<times> destroyer list"

definition remove_nth :: "nat \<Rightarrow> 'a list \<Rightarrow> 'a list" where
  "remove_nth k xs = take k xs @ drop (Suc k) xs"

inductive link_step ::
  "('m, link_message) queue_ops \<Rightarrow> ('f, link_frame) queue_ops
   \<Rightarrow> ('m, 'f) link_system \<Rightarrow> ('m, 'f) link_system \<Rightarrow> bool"
  for rxo :: "('m, link_message) queue_ops" and txo :: "('f, link_frame) queue_ops" where
  ls_create: "solar_os_link_create rxo txo mutex_ok rx_ok tx_ok s name local_id mtu = (err, s')
    \<Longrightarrow> link_step rxo txo (s, ts, ds) (s', ts, ds)"
| ls_status: "solar_os_link_get_status rxo txo mutex_ok s name out = (err, s', out')
    \<Longrightarrow> link_step rxo txo (s, ts, ds) (s', ts, ds)"
| ls_get: "solar_os_link_get rxo txo mutex_ok s index out = (found, s', out')
    \<Longrightarrow> link_step rxo txo (s, ts, ds) (s', ts, ds)"
| ls_count: "solar_os_link_count mutex_ok s = (n, s') \<Longrightarrow> link_step rxo txo (s, ts, ds) (s', ts, ds)"
| ls_acquire: "link_acquire mutex_ok s name = (ESP_OK, s', ref) \<Longrightarrow> start_phase ph
    \<Longrightarrow> link_step rxo txo (s, ts, ds) (s', (ref, ph) # ts, ds)"
| ls_acquire_fails: "link_acquire mutex_ok s name = (err, s', ref) \<Longrightarrow> err \<noteq> ESP_OK
    \<Longrightarrow> link_step rxo txo (s, ts, ds) (s', ts, ds)"
| ls_run: "k < length ts \<Longrightarrow> ts ! k = (ref, ph) \<Longrightarrow> phase_step rxo txo ref ph s = (ph', s')
    \<Longrightarrow> link_step rxo txo (s, ts, ds) (s', ts[k := (ref, ph')], ds)"
| ls_release: "k < length ts \<Longrightarrow> ts ! k = (ref, PH_release) \<Longrightarrow> link_release s ref = s'
    \<Longrightarrow> link_step rxo txo (s, ts, ds) (s', remove_nth k ts, ds)"
| ls_destroy: "link_name_valid (Some name) \<Longrightarrow> link_destroy_begin s name = (Some (i, rx, tx), s')
    \<Longrightarrow> link_step rxo txo (s, ts, ds)
          (s', ts, \<lparr>dy_index = i, dy_rx = rx, dy_tx = tx, dy_phase = DP_wait\<rparr> # ds)"
| ls_poll: "k < length ds \<Longrightarrow> dy_phase (ds ! k) = DP_wait
    \<Longrightarrow> li_refs (lk_instances s ! dy_index (ds ! k)) = 0
    \<Longrightarrow> link_step rxo txo (s, ts, ds) (s, ts, ds[k := (ds ! k)\<lparr>dy_phase := DP_delete_tx\<rparr>])"
| ls_timeout: "k < length ds \<Longrightarrow> dy_phase (ds ! k) = DP_wait
    \<Longrightarrow> 0 < li_refs (lk_instances s ! dy_index (ds ! k))
    \<Longrightarrow> link_step rxo txo (s, ts, ds) (s, ts, remove_nth k ds)"
| ls_delete_tx: "k < length ds \<Longrightarrow> dy_phase (ds ! k) = DP_delete_tx
    \<Longrightarrow> link_step rxo txo (s, ts, ds)
          (s\<lparr>lk_tx_heap := heap_delete (dy_tx (ds ! k)) (lk_tx_heap s)\<rparr>, ts,
           ds[k := (ds ! k)\<lparr>dy_phase := DP_delete_rx\<rparr>])"
| ls_delete_rx: "k < length ds \<Longrightarrow> dy_phase (ds ! k) = DP_delete_rx
    \<Longrightarrow> link_step rxo txo (s, ts, ds)
          (s\<lparr>lk_rx_heap := heap_delete (dy_rx (ds ! k)) (lk_rx_heap s)\<rparr>, ts,
           ds[k := (ds ! k)\<lparr>dy_phase := DP_clear\<rparr>])"
| ls_clear: "k < length ds \<Longrightarrow> dy_phase (ds ! k) = DP_clear
    \<Longrightarrow> link_step rxo txo (s, ts, ds)
          (upd_instance (dy_index (ds ! k)) (\<lambda>_. link_instance_zero) s, ts, remove_nth k ds)"

inductive link_reachable ::
  "('m, link_message) queue_ops \<Rightarrow> ('f, link_frame) queue_ops \<Rightarrow> ('m, 'f) link_system \<Rightarrow> bool"
  for rxo :: "('m, link_message) queue_ops" and txo :: "('f, link_frame) queue_ops" where
  lr_boot: "link_reachable rxo txo (link_boot, [], [])"
| lr_step: "link_reachable rxo txo c \<Longrightarrow> link_step rxo txo c c' \<Longrightarrow> link_reachable rxo txo c'"

section \<open>What the phases leave alone\<close>

definition inst_skel ::
  "link_instance \<Rightarrow> (bool \<times> bool) \<times> u32 \<times> nat \<times> string \<times> nat option \<times> nat option" where
  "inst_skel x = ((li_active x, li_closing x), li_generation x, li_refs x, li_name x,
                  li_rx_queue x, li_tx_queue x)"

definition link_skel where
  "link_skel s = (map inst_skel (lk_instances s), dom (lk_rx_heap s), dom (lk_tx_heap s),
                  lk_next_handle s, lk_fault s, lk_mutex s)"

lemma inst_skel_upd [simp]:
  "inst_skel (upd_status f x) = inst_skel x"
  "inst_skel (x\<lparr>li_next_sequence := q\<rparr>) = inst_skel x"
  "inst_skel (add_pending d q x) = inst_skel x"
  "inst_skel (link_remember_locked m x) = inst_skel x"
  "inst_skel (link_ack_pending_locked m x) = inst_skel x"
  by (simp_all add: inst_skel_def upd_status_def add_pending_def link_pending_alloc_locked_def
      link_remember_locked_def link_ack_pending_locked_def split: option.splits)

lemma skel_upd_instance:
  assumes "\<And>x. inst_skel (f x) = inst_skel x"
  shows "link_skel (upd_instance i f s) = link_skel s"
proof -
  have "map inst_skel ((lk_instances s)[i := f (lk_instances s ! i)]) = map inst_skel (lk_instances s)"
  proof (cases "i < length (lk_instances s)")
    case True
    then have "inst_skel (lk_instances s ! i) = map inst_skel (lk_instances s) ! i" by simp
    then show ?thesis by (simp only: map_update assms list_update_id)
  next
    case False
    then show ?thesis by (simp add: list_update_beyond)
  qed
  then show ?thesis by (simp add: link_skel_def upd_instance_def)
qed

definition ref_live :: "('m, 'f) link_state \<Rightarrow> link_ref \<Rightarrow> bool" where
  "ref_live s ref \<longleftrightarrow>
     (\<exists>h. lf_rx_queue ref = Some h \<and> lf_tx_queue ref = Some h \<and> h \<in> dom (lk_rx_heap s) \<and> h \<in> dom (lk_tx_heap s))"

lemma skel_queue:
  assumes "ref_live s ref"
  shows "link_skel (snd (rx_send rxo s (lf_rx_queue ref) m)) = link_skel s"
    and "link_skel (snd (rx_receive rxo s (lf_rx_queue ref))) = link_skel s"
    and "link_skel (snd (tx_send txo s (lf_tx_queue ref) f)) = link_skel s"
    and "link_skel (snd (tx_receive txo s (lf_tx_queue ref))) = link_skel s"
  using assms
  by (auto simp: ref_live_def link_skel_def rx_send_def rx_receive_def tx_send_def tx_receive_def
      insert_absorb split: option.splits)

lemma skel_send:
  "link_skel (snd (link_send_begin s ref type d)) = link_skel s"
  "link_skel (link_send_commit s ref ret m) = link_skel s"
  "link_skel (link_ingest_reject s ref ret) = link_skel s"
  "link_skel (link_ingest_commit s ref m ret dup ev ack ack_ret) = link_skel s"
  by (simp_all add: link_send_begin_def link_send_commit_def link_ingest_reject_def
      link_ingest_commit_def Let_def skel_upd_instance)

lemma skel_classify: "link_skel (snd (link_ingest_classify s ref m)) = link_skel s"
  by (simp add: link_ingest_classify_def Let_def skel_upd_instance)

lemma skel_enqueue:
  assumes "ref_live s ref"
  shows "link_skel (snd (link_send_enqueue txo s ref m)) = link_skel s"
    and "link_skel (snd (link_queue_ack txo s i (lf_tx_queue ref) m)) = link_skel s"
proof -
  have tx: "link_skel s1 = link_skel s" if "tx_send txo s (lf_tx_queue ref) f = (ok, s1)" for f ok s1
    using skel_queue(3) [OF assms, of txo f] that by simp
  show "link_skel (snd (link_send_enqueue txo s ref m)) = link_skel s"
    and "link_skel (snd (link_queue_ack txo s i (lf_tx_queue ref) m)) = link_skel s"
    by (auto simp: link_send_enqueue_def link_queue_ack_def split: prod.splits esp_err.splits
        option.splits bool.splits dest: tx)
qed

lemma skel_phase:
  assumes "ref_live s ref"
  shows "link_skel (snd (phase_step rxo txo ref ph s)) = link_skel s"
proof -
  have c: "link_skel s1 = link_skel s" if "snd r = s1" "link_skel (snd r) = link_skel s" for r :: "'x \<times> _" and s1
    using that by simp
  note facts = skel_queue [OF assms] skel_send skel_classify skel_enqueue [OF assms]
  have send: "link_skel s1 = link_skel s" if "link_send_begin s ref t d = (x, s1)" for x s1 t d
    using skel_send(1) [of s ref t d] that by simp
  have classify: "link_skel s1 = link_skel s" if "link_ingest_classify s ref m = (x, s1)" for x s1 m
    using skel_classify [of s ref m] that by simp
  have rx: "link_skel s1 = link_skel s" if "rx_send rxo s (lf_rx_queue ref) m = (x, s1)" for x s1 m
    using skel_queue(1) [OF assms, of rxo m] that by simp
  show ?thesis
    using facts
    by (cases ph) (auto simp: phase_step_def case_prod_unfold Let_def split: option.splits bool.splits
        ingest_class.splits prod.splits dest: send classify rx)
qed

section \<open>The invariant of the system\<close>

abbreviation inst :: "('m, 'f) link_state \<Rightarrow> nat \<Rightarrow> link_instance" where
  "inst s i \<equiv> lk_instances s ! i"

definition slot_used :: "link_instance \<Rightarrow> bool" where
  "slot_used x \<longleftrightarrow> li_active x \<or> li_closing x"

definition ref_count :: "link_ref list \<Rightarrow> nat \<Rightarrow> nat" where
  "ref_count R i = length (filter (\<lambda>r. lf_index r = int i) R)"

definition handle_live :: "('m, 'f) link_state \<Rightarrow> nat \<Rightarrow> bool" where
  "handle_live s h \<longleftrightarrow> h \<in> dom (lk_rx_heap s) \<and> h \<in> dom (lk_tx_heap s)"

text \<open>Per slot: the reference count is exact, and an instance that is active or still referenced
  has live queues behind its handles.\<close>

definition slot_ok :: "('m, 'f) link_state \<Rightarrow> link_ref list \<Rightarrow> nat \<Rightarrow> bool" where
  "slot_ok s R i \<longleftrightarrow>
     li_refs (inst s i) = ref_count R i
     \<and> \<not> (li_active (inst s i) \<and> li_closing (inst s i))
     \<and> (slot_used (inst s i) \<longrightarrow>
         (\<exists>h < lk_next_handle s. li_rx_queue (inst s i) = Some h \<and> li_tx_queue (inst s i) = Some h
           \<and> (li_active (inst s i) \<or> 0 < li_refs (inst s i) \<longrightarrow> handle_live s h)))"

definition ref_ok :: "('m, 'f) link_state \<Rightarrow> link_ref \<Rightarrow> bool" where
  "ref_ok s r \<longleftrightarrow>
     (\<exists>i < LINK_INSTANCE_MAX. lf_index r = int i \<and> slot_used (inst s i)
        \<and> lf_generation r = li_generation (inst s i)
        \<and> lf_rx_queue r = li_rx_queue (inst s i) \<and> lf_tx_queue r = li_tx_queue (inst s i))"

definition destroyer_ok :: "('m, 'f) link_state \<Rightarrow> destroyer \<Rightarrow> bool" where
  "destroyer_ok s d \<longleftrightarrow>
     dy_index d < LINK_INSTANCE_MAX \<and> li_closing (inst s (dy_index d))
     \<and> dy_rx d = li_rx_queue (inst s (dy_index d)) \<and> dy_tx d = li_tx_queue (inst s (dy_index d))
     \<and> (dy_phase d \<noteq> DP_wait \<longrightarrow> li_refs (inst s (dy_index d)) = 0)"

definition handles_distinct :: "('m, 'f) link_state \<Rightarrow> bool" where
  "handles_distinct s \<longleftrightarrow> unique_used slot_used li_rx_queue (lk_instances s)"

definition link_inv :: "('m, 'f) link_state \<Rightarrow> link_ref list \<Rightarrow> destroyer list \<Rightarrow> bool" where
  "link_inv s R D \<longleftrightarrow>
     length (lk_instances s) = LINK_INSTANCE_MAX \<and> \<not> lk_fault s \<and> (R \<noteq> [] \<longrightarrow> lk_mutex s)
     \<and> handles_distinct s
     \<and> (\<forall>i < LINK_INSTANCE_MAX. slot_ok s R i) \<and> (\<forall>r \<in> set R. ref_ok s r)
     \<and> (\<forall>d \<in> set D. destroyer_ok s d) \<and> distinct (map dy_index D)
     \<and> unique_used link_visible li_name (lk_instances s)"

interpretation link_table: keyed_slots link_visible li_name link_instance_zero
  by unfold_locales (simp add: link_visible_def link_instance_zero_def)

interpretation handle_table: keyed_slots slot_used li_rx_queue link_instance_zero
  by unfold_locales (simp add: slot_used_def link_instance_zero_def)

lemma skel_fields:
  assumes "inst_skel x = inst_skel y"
  shows "li_active x = li_active y" "li_closing x = li_closing y" "li_generation x = li_generation y"
    "li_refs x = li_refs y" "li_name x = li_name y" "li_rx_queue x = li_rx_queue y"
    "li_tx_queue x = li_tx_queue y" "link_visible x = link_visible y" "slot_used x = slot_used y"
  using assms by (auto simp: inst_skel_def link_visible_def slot_used_def)

lemma skel_nth:
  assumes "link_skel s' = link_skel s" and "i < length (lk_instances s)"
  shows "inst_skel (inst s' i) = inst_skel (inst s i)"
proof -
  have m: "map inst_skel (lk_instances s') = map inst_skel (lk_instances s)"
    using assms(1) by (simp add: link_skel_def)
  then have "length (lk_instances s') = length (lk_instances s)" by (rule map_eq_imp_length_eq)
  with m assms(2) show ?thesis by (metis nth_map)
qed

lemma inv_skel:
  assumes inv: "link_inv s R D" and sk: "link_skel s' = link_skel s"
  shows "link_inv s' R D"
proof -
  have len: "length (lk_instances s') = length (lk_instances s)"
    using sk by (metis link_skel_def prod.inject map_eq_imp_length_eq)
  have max: "length (lk_instances s) = LINK_INSTANCE_MAX" using inv by (simp add: link_inv_def)
  have rest: "lk_fault s' = lk_fault s" "lk_mutex s' = lk_mutex s" "lk_next_handle s' = lk_next_handle s"
    "handle_live s' h = handle_live s h" for h
    using sk by (auto simp: link_skel_def handle_live_def)
  have f: "inst_skel (inst s' i) = inst_skel (inst s i)" if "i < LINK_INSTANCE_MAX" for i
    using skel_nth [OF sk, of i] that max by simp
  note g = skel_fields [OF f]
  have "slot_ok s' R i = slot_ok s R i" if "i < LINK_INSTANCE_MAX" for i
    using g [OF that] rest by (simp add: slot_ok_def)
  moreover have "ref_ok s' r = ref_ok s r" for r
    using g unfolding ref_ok_def by (metis (no_types, lifting))
  moreover have "destroyer_ok s' d = destroyer_ok s d" for d
    using g unfolding destroyer_ok_def by (metis (no_types, lifting))
  moreover have "handles_distinct s' = handles_distinct s"
    using g len max unfolding handles_distinct_def unique_used_def by (metis (no_types, lifting))
  moreover have "unique_used link_visible li_name (lk_instances s')
      = unique_used link_visible li_name (lk_instances s)"
    using g len max unfolding unique_used_def by (metis (no_types, lifting))
  ultimately show ?thesis using inv len max rest by (simp add: link_inv_def)
qed

lemma ref_ok_live:
  assumes inv: "link_inv s R D" and r: "r \<in> set R"
  shows "ref_live s r" and "link_ref_valid_locked s r"
proof -
  obtain i where i: "i < LINK_INSTANCE_MAX" "lf_index r = int i" "slot_used (inst s i)"
    "lf_generation r = li_generation (inst s i)" "lf_rx_queue r = li_rx_queue (inst s i)"
    "lf_tx_queue r = li_tx_queue (inst s i)"
    using inv r by (auto simp: link_inv_def ref_ok_def)
  have "0 < ref_count R i"
    using r i(2) by (auto simp: ref_count_def filter_empty_conv)
  moreover have slot: "slot_ok s R i" using inv i(1) by (simp add: link_inv_def)
  ultimately have refs: "0 < li_refs (inst s i)" by (simp add: slot_ok_def)
  then show "ref_live s r"
    using slot i by (auto simp: slot_ok_def ref_live_def handle_live_def)
  show "link_ref_valid_locked s r"
    using refs i by (simp add: link_ref_valid_locked_def)
qed

section \<open>Steps that change the table\<close>

lemma upd_instance_simps [simp]:
  "length (lk_instances (upd_instance i f s)) = length (lk_instances s)"
  "lk_fault (upd_instance i f s) = lk_fault s"
  "lk_mutex (upd_instance i f s) = lk_mutex s"
  "lk_generation (upd_instance i f s) = lk_generation s"
  "lk_next_handle (upd_instance i f s) = lk_next_handle s"
  "lk_rx_heap (upd_instance i f s) = lk_rx_heap s"
  "lk_tx_heap (upd_instance i f s) = lk_tx_heap s"
  "handle_live (upd_instance i f s) h = handle_live s h"
  by (simp_all add: upd_instance_def handle_live_def)

lemma inst_upd:
  "i < length (lk_instances s) \<Longrightarrow>
     inst (upd_instance i f s) j = (if j = i then f (inst s i) else inst s j)"
  by (simp add: upd_instance_def nth_list_update)

lemma ref_count_Cons:
  "ref_count (r # R) i = ref_count R i + (if lf_index r = int i then 1 else 0)"
  by (simp add: ref_count_def)

lemma ref_count_remove:
  assumes "k < length R"
  shows "ref_count R i = ref_count (remove_nth k R) i + (if lf_index (R ! k) = int i then 1 else 0)"
proof -
  have "R = take k R @ R ! k # drop (Suc k) R" using assms by (rule id_take_nth_drop)
  then have "ref_count R i = ref_count (take k R @ R ! k # drop (Suc k) R) i" by simp
  then show ?thesis by (simp add: ref_count_def remove_nth_def)
qed

lemma set_remove_nth: "set (remove_nth k xs) \<subseteq> set xs"
  by (auto simp: remove_nth_def dest: in_set_takeD in_set_dropD)

lemma map_remove_nth: "map f (remove_nth k xs) = remove_nth k (map f xs)"
  by (simp add: remove_nth_def take_map drop_map)

lemma find_locked_Some:
  assumes "link_find_locked s name = int i"
  shows "i < length (lk_instances s)" and "link_visible (inst s i)" and "li_name (inst s i) = name"
  using assms by (auto simp: link_find_locked_def dest: first_indexD split: option.splits)

lemma find_locked_nonneg: "0 \<le> link_find_locked s name \<Longrightarrow> \<exists>i. link_find_locked s name = int i"
  by (auto simp: link_find_locked_def split: option.splits)

lemma mutex_upd:
  "slot_ok (s\<lparr>lk_mutex := b\<rparr>) R i = slot_ok s R i" "ref_ok (s\<lparr>lk_mutex := b\<rparr>) r = ref_ok s r"
  "destroyer_ok (s\<lparr>lk_mutex := b\<rparr>) d = destroyer_ok s d"
  "handles_distinct (s\<lparr>lk_mutex := b\<rparr>) = handles_distinct s"
  by (simp_all add: slot_ok_def ref_ok_def destroyer_ok_def handles_distinct_def handle_live_def)

lemma ensure_init_inv:
  assumes "link_ensure_init ok s = (err, s1)"
  shows "link_inv s R D \<Longrightarrow> link_inv s1 R D"
    and "lk_instances s1 = lk_instances s" and "err = ESP_OK \<Longrightarrow> lk_mutex s1"
    and "err = ESP_OK \<or> err = ESP_ERR_NO_MEM" and "lk_fault s1 = lk_fault s"
    and "err \<noteq> ESP_OK \<Longrightarrow> s1 = s"
proof -
  have c: "s1 = s \<or> s1 = s\<lparr>lk_mutex := True\<rparr>"
    using assms by (auto simp: link_ensure_init_def split: if_splits)
  then show "link_inv s R D \<Longrightarrow> link_inv s1 R D"
    by (auto simp: link_inv_def mutex_upd)
  show "lk_instances s1 = lk_instances s" "lk_fault s1 = lk_fault s" using c by auto
  show "err = ESP_OK \<Longrightarrow> lk_mutex s1" "err = ESP_OK \<or> err = ESP_ERR_NO_MEM" "err \<noteq> ESP_OK \<Longrightarrow> s1 = s"
    using assms by (auto simp: link_ensure_init_def split: if_splits)
qed

lemma acquire_cases:
  assumes "link_acquire ok s name = (err, s', ref)"
  obtains (failed) "err \<noteq> ESP_OK" "s' = s \<or> s' = s\<lparr>lk_mutex := True\<rparr>"
  | (acquired) s1 i where "err = ESP_OK" "link_ensure_init ok s = (ESP_OK, s1)"
      "link_name_valid name" "link_find_locked s1 (the name) = int i"
      "s' = upd_instance i (\<lambda>x. x\<lparr>li_refs := li_refs x + 1\<rparr>) s1"
      "ref = \<lparr>lf_index = int i, lf_generation = li_generation (inst s1 i),
              lf_rx_queue = li_rx_queue (inst s1 i), lf_tx_queue = li_tx_queue (inst s1 i)\<rparr>"
proof (cases "link_name_valid name \<and> fst (link_ensure_init ok s) = ESP_OK
    \<and> 0 \<le> link_find_locked (snd (link_ensure_init ok s)) (the name)")
  case True
  then obtain s1 where s1: "link_ensure_init ok s = (ESP_OK, s1)" by (metis prod.collapse)
  with True find_locked_nonneg [of s1 "the name"] obtain i
    where "link_find_locked s1 (the name) = int i" by auto
  with assms True s1 show ?thesis
    by (intro acquired [of s1 i]) (auto simp: link_acquire_def Let_def)
next
  case False
  have "err \<noteq> ESP_OK \<and> (s' = s \<or> s' = s\<lparr>lk_mutex := True\<rparr>)"
    using assms False
    by (auto simp: link_acquire_def link_ensure_init_def Let_def split: if_splits)
  then show ?thesis using failed by blast
qed

lemma inv_acquire:
  assumes inv: "link_inv s R D" and a: "link_acquire ok s name = (ESP_OK, s', ref)"
  shows "link_inv s' (ref # R) D"
  using a
proof (cases rule: acquire_cases)
  case (acquired s1 i)
  note e = ensure_init_inv [OF acquired(2)]
  have inv1: "link_inv s1 R D" using e(1) inv by blast
  then have len: "length (lk_instances s1) = LINK_INSTANCE_MAX" by (simp add: link_inv_def)
  have i: "i < LINK_INSTANCE_MAX" and vis: "link_visible (inst s1 i)"
    using find_locked_Some [OF acquired(4)] len by auto
  let ?f = "\<lambda>x :: link_instance. x\<lparr>li_refs := li_refs x + 1\<rparr>"
  have up: "inst s' j = (if j = i then ?f (inst s1 i) else inst s1 j)" for j
    using i len by (simp add: acquired(5) inst_upd)
  have rest: "lk_next_handle s' = lk_next_handle s1" "handle_live s' h = handle_live s1 h"
    "length (lk_instances s') = LINK_INSTANCE_MAX" "lk_fault s' = lk_fault s1" "lk_mutex s' = lk_mutex s1" for h
    using len by (simp_all add: acquired(5))
  have slots: "slot_ok s' (ref # R) j" if "j < LINK_INSTANCE_MAX" for j
  proof -
    have "slot_ok s1 R j" using inv1 that by (simp add: link_inv_def)
    then show ?thesis using vis
      by (cases "j = i") (auto simp: slot_ok_def up rest ref_count_Cons acquired(6) slot_used_def
          link_visible_def)
  qed
  have refs: "ref_ok s' r" if "r \<in> set (ref # R)" for r
  proof (cases "r = ref")
    case True
    then show ?thesis using i vis
      by (auto simp: ref_ok_def up acquired(6) slot_used_def link_visible_def)
  next
    case False
    then have "ref_ok s1 r" using inv1 that by (simp add: link_inv_def)
    then show ?thesis by (auto simp: ref_ok_def up slot_used_def)
  qed
  have ds: "destroyer_ok s' d" if "d \<in> set D" for d
  proof -
    have "destroyer_ok s1 d" using inv1 that by (simp add: link_inv_def)
    then show ?thesis using vis by (auto simp: destroyer_ok_def up link_visible_def)
  qed
  have uniq: "unique_used link_visible li_name (lk_instances s')"
    using inv1 len rest(3)
    by (subst unique_used_cong [of _ "lk_instances s1"]) (auto simp: up link_visible_def link_inv_def)
  have "handles_distinct s'"
    using inv1 len rest(3) unfolding handles_distinct_def
    by (subst unique_used_cong [of _ "lk_instances s1"])
       (auto simp: up slot_used_def link_inv_def handles_distinct_def)
  then show ?thesis
    using slots refs ds uniq inv1 rest e(3) by (simp add: link_inv_def)
qed simp

lemma inv_release:
  assumes inv: "link_inv s R D" and k: "k < length R" "R ! k = ref"
  shows "link_inv (link_release s ref) (remove_nth k R) D"
proof -
  have mem: "ref \<in> set R" using k by auto
  note valid = ref_ok_live(2) [OF inv mem]
  have len: "length (lk_instances s) = LINK_INSTANCE_MAX" using inv by (simp add: link_inv_def)
  obtain i where i: "i < LINK_INSTANCE_MAX" "lf_index ref = int i"
    using inv mem by (auto simp: link_inv_def ref_ok_def)
  let ?f = "\<lambda>x :: link_instance. x\<lparr>li_refs := li_refs x - 1\<rparr>"
  define s' where "s' = link_release s ref"
  have s': "s' = upd_instance i ?f s"
    using inv mem valid i by (auto simp: s'_def link_release_def link_inv_def)
  have up: "inst s' j = (if j = i then ?f (inst s i) else inst s j)" for j
    using i len by (simp add: s' inst_upd)
  have rest: "lk_next_handle s' = lk_next_handle s" "handle_live s' h = handle_live s h"
    "length (lk_instances s') = LINK_INSTANCE_MAX" "lk_fault s' = lk_fault s" "lk_mutex s' = lk_mutex s" for h
    using len by (simp_all add: s')
  have sub: "set (remove_nth k R) \<subseteq> set R" by (rule set_remove_nth)
  have slots: "slot_ok s' (remove_nth k R) j" if "j < LINK_INSTANCE_MAX" for j
  proof -
    have "slot_ok s R j" using inv that by (simp add: link_inv_def)
    then show ?thesis using ref_count_remove [OF k(1), of j] k(2) i(2)
      by (cases "j = i") (auto simp: slot_ok_def up rest slot_used_def)
  qed
  have refs: "ref_ok s' r" if "r \<in> set R" for r
  proof -
    have "ref_ok s r" using inv that by (simp add: link_inv_def)
    then show ?thesis by (auto simp: ref_ok_def up slot_used_def)
  qed
  have ds: "destroyer_ok s' d" if "d \<in> set D" for d
  proof -
    have "destroyer_ok s d" using inv that by (simp add: link_inv_def)
    then show ?thesis by (auto simp: destroyer_ok_def up)
  qed
  have uniq: "unique_used link_visible li_name (lk_instances s')"
    using inv len rest(3)
    by (subst unique_used_cong [of _ "lk_instances s"]) (auto simp: up link_visible_def link_inv_def)
  have "handles_distinct s'"
    using inv len rest(3) unfolding handles_distinct_def
    by (subst unique_used_cong [of _ "lk_instances s"])
       (auto simp: up slot_used_def link_inv_def handles_distinct_def)
  moreover have "remove_nth k R \<noteq> [] \<longrightarrow> lk_mutex s" using inv mem by (auto simp: link_inv_def)
  ultimately show ?thesis
    using slots refs sub ds uniq inv rest unfolding s'_def by (auto simp: link_inv_def)
qed

lemma inv_destroy_begin:
  assumes inv: "link_inv s R D" and b: "link_destroy_begin s name = (Some (i, rx, tx), s')"
  shows "link_inv s' R (\<lparr>dy_index = i, dy_rx = rx, dy_tx = tx, dy_phase = DP_wait\<rparr> # D)"
proof -
  have len: "length (lk_instances s) = LINK_INSTANCE_MAX" using inv by (simp add: link_inv_def)
  let ?f = "\<lambda>x :: link_instance. x\<lparr>li_active := False, li_closing := True\<rparr>"
  have nn: "0 \<le> link_find_locked s name" and r: "i = nat (link_find_locked s name)"
    "rx = li_rx_queue (inst s i)" "tx = li_tx_queue (inst s i)" "s' = upd_instance i ?f s"
    using b by (auto simp: link_destroy_begin_def Let_def split: if_splits)
  then have "link_find_locked s name = int i" by simp
  from find_locked_Some [OF this] have i: "i < LINK_INSTANCE_MAX" and vis: "link_visible (inst s i)"
    using len by auto
  have up: "inst s' j = (if j = i then ?f (inst s i) else inst s j)" for j
    using i len by (simp add: r(4) inst_upd)
  have rest: "lk_next_handle s' = lk_next_handle s" "handle_live s' h = handle_live s h"
    "length (lk_instances s') = LINK_INSTANCE_MAX" "lk_fault s' = lk_fault s" "lk_mutex s' = lk_mutex s" for h
    using len by (simp_all add: r(4))
  have slots: "slot_ok s' R j" if "j < LINK_INSTANCE_MAX" for j
  proof -
    have "slot_ok s R j" using inv that by (simp add: link_inv_def)
    then show ?thesis using vis
      by (cases "j = i") (auto simp: slot_ok_def up rest slot_used_def link_visible_def)
  qed
  have refs: "ref_ok s' q" if "q \<in> set R" for q
  proof -
    have "ref_ok s q" using inv that by (simp add: link_inv_def)
    then show ?thesis by (auto simp: ref_ok_def up slot_used_def)
  qed
  have fresh: "i \<notin> dy_index ` set D"
    using inv vis by (auto simp: link_inv_def destroyer_ok_def link_visible_def)
  have ds: "destroyer_ok s' d" if "d \<in> set D" for d
  proof -
    have "destroyer_ok s d" using inv that by (simp add: link_inv_def)
    then show ?thesis using fresh that by (auto simp: destroyer_ok_def up)
  qed
  have new: "destroyer_ok s' \<lparr>dy_index = i, dy_rx = rx, dy_tx = tx, dy_phase = DP_wait\<rparr>"
    using i up [of i] r(2,3) by (simp add: destroyer_ok_def)
  have "handles_distinct s'"
    using inv len rest(3) vis unfolding handles_distinct_def
    by (subst unique_used_cong [of _ "lk_instances s"])
       (auto simp: up slot_used_def link_inv_def handles_distinct_def link_visible_def)
  moreover have "unique_used link_visible li_name (lk_instances s')"
    using inv by (auto simp: link_inv_def unique_used_def rest(3) up link_visible_def)
  ultimately show ?thesis
    using slots refs ds new fresh inv rest by (simp add: link_inv_def)
qed

lemma destroyers_upd:
  assumes "k < length D" and "dy_index d' = dy_index (D ! k)"
  shows "map dy_index (D[k := d']) = map dy_index D"
  using assms by (simp add: map_update list_update_same_conv)

lemma inv_destroyer:
  assumes inv: "link_inv s R D" and k: "k < length D"
    and d': "destroyer_ok s d'" "dy_index d' = dy_index (D ! k)"
  shows "link_inv s R (D[k := d'])"
proof -
  have "set (D[k := d']) \<subseteq> insert d' (set D)" by (rule set_update_subset_insert)
  then show ?thesis using inv d' destroyers_upd [OF k d'(2)] by (auto simp: link_inv_def)
qed

lemma inv_remove_destroyer:
  assumes "link_inv s R D"
  shows "link_inv s R (remove_nth k D)"
proof -
  have "distinct (remove_nth k (map dy_index D))"
    using assms set_take_disj_set_drop_if_distinct [of "map dy_index D" k "Suc k"]
    by (simp add: link_inv_def remove_nth_def distinct_append)
  then show ?thesis
    using assms set_remove_nth [of k D] by (auto simp: link_inv_def map_remove_nth)
qed

text \<open>Deleting a queue that only an unreferenced closing slot names.\<close>

lemma inv_delete:
  assumes inv: "link_inv s R D" and d: "d \<in> set D" "dy_phase d \<noteq> DP_wait"
    and s': "s' = s\<lparr>lk_tx_heap := heap_delete (dy_tx d) (lk_tx_heap s)\<rparr>
      \<or> s' = s\<lparr>lk_rx_heap := heap_delete (dy_rx d) (lk_rx_heap s)\<rparr>"
  shows "link_inv s' R D"
proof -
  let ?i = "dy_index d"
  have dok: "destroyer_ok s d" using inv d by (simp add: link_inv_def)
  then have i: "?i < LINK_INSTANCE_MAX" "li_closing (inst s ?i)" "li_refs (inst s ?i) = 0"
    using d(2) by (auto simp: destroyer_ok_def)
  have sok: "slot_ok s R ?i" using inv i(1) by (simp add: link_inv_def)
  then have na: "\<not> li_active (inst s ?i)" using i(2) by (simp add: slot_ok_def)
  obtain h where h: "li_rx_queue (inst s ?i) = Some h" "li_tx_queue (inst s ?i) = Some h"
    using sok i(2) by (auto simp: slot_ok_def slot_used_def)
  have dyh: "dy_tx d = Some h" "dy_rx d = Some h" using dok h by (simp_all add: destroyer_ok_def)
  have same: "lk_instances s' = lk_instances s" "lk_next_handle s' = lk_next_handle s"
    "lk_fault s' = lk_fault s" "lk_mutex s' = lk_mutex s" using s' by auto
  have live: "handle_live s g \<Longrightarrow> g \<noteq> h \<Longrightarrow> handle_live s' g" for g
    using s' dyh by (auto simp: handle_live_def heap_delete_def)
  have slots: "slot_ok s' R j" if j: "j < LINK_INSTANCE_MAX" for j
  proof (cases "j = ?i")
    case True
    then show ?thesis using sok i na by (auto simp: slot_ok_def same)
  next
    case False
    have "slot_ok s R j" using inv j by (simp add: link_inv_def)
    moreover have "li_rx_queue (inst s j) \<noteq> Some h" if "slot_used (inst s j)"
      using inv j i h that False unfolding link_inv_def handles_distinct_def unique_used_def slot_used_def
      by metis
    ultimately show ?thesis using live by (auto simp: slot_ok_def same)
  qed
  have "ref_ok s' r = ref_ok s r" "destroyer_ok s' e = destroyer_ok s e"
    "handles_distinct s' = handles_distinct s" for r e
    by (simp_all add: ref_ok_def destroyer_ok_def handles_distinct_def same)
  then show ?thesis using inv slots by (simp add: link_inv_def same)
qed

lemma inv_clear:
  assumes inv: "link_inv s R D" and k: "k < length D" "dy_phase (D ! k) = DP_clear"
  shows "link_inv (upd_instance (dy_index (D ! k)) (\<lambda>_. link_instance_zero) s) R (remove_nth k D)"
proof -
  let ?i = "dy_index (D ! k)"
  define s' where "s' = upd_instance ?i (\<lambda>_. link_instance_zero) s"
  have len: "length (lk_instances s) = LINK_INSTANCE_MAX" using inv by (simp add: link_inv_def)
  have dok: "destroyer_ok s (D ! k)" using inv k(1) by (simp add: link_inv_def)
  have i: "?i < LINK_INSTANCE_MAX" "li_refs (inst s ?i) = 0" using dok k(2) by (auto simp: destroyer_ok_def)
  have up: "inst s' j = (if j = ?i then link_instance_zero else inst s j)" for j
    using i len by (simp add: s'_def inst_upd)
  have rest: "lk_next_handle s' = lk_next_handle s" "handle_live s' h = handle_live s h"
    "length (lk_instances s') = LINK_INSTANCE_MAX" "lk_fault s' = lk_fault s" "lk_mutex s' = lk_mutex s" for h
    using len by (simp_all add: s'_def)
  have zero: "\<not> slot_used link_instance_zero" "li_refs link_instance_zero = 0" "\<not> link_visible link_instance_zero"
    by (simp_all add: slot_used_def link_instance_zero_def link_visible_def)
  have cnt: "ref_count R ?i = 0" using inv i by (auto simp: link_inv_def slot_ok_def)
  have slots: "slot_ok s' R j" if "j < LINK_INSTANCE_MAX" for j
  proof -
    have "slot_ok s R j" using inv that by (simp add: link_inv_def)
    then show ?thesis using zero cnt by (cases "j = ?i") (auto simp: slot_ok_def up rest slot_used_def)
  qed
  have refs: "ref_ok s' q" if "q \<in> set R" for q
  proof -
    have "ref_ok s q" using inv that by (simp add: link_inv_def)
    then obtain j where j: "j < LINK_INSTANCE_MAX" "lf_index q = int j" "slot_used (inst s j)"
      "lf_generation q = li_generation (inst s j)" "lf_rx_queue q = li_rx_queue (inst s j)"
      "lf_tx_queue q = li_tx_queue (inst s j)" unfolding ref_ok_def by blast
    have "j \<noteq> ?i"
    proof
      assume "j = ?i"
      then show False using that j(2) cnt by (simp add: ref_count_def filter_empty_conv)
    qed
    then have "inst s' j = inst s j" by (simp add: up)
    with j show ?thesis unfolding ref_ok_def by (intro exI [of _ j]) simp
  qed
  have ds: "destroyer_ok s' d" if "d \<in> set (remove_nth k D)" for d
  proof -
    have mem: "d \<in> set D" using that set_remove_nth [of k D] by blast
    have "distinct (map dy_index D)" using inv by (simp add: link_inv_def)
    then have "distinct (map dy_index (take k D @ D ! k # drop (Suc k) D))"
      by (simp only: id_take_nth_drop [OF k(1), symmetric])
    then have "dy_index d \<noteq> ?i" using that by (auto simp: remove_nth_def image_iff)
    moreover have "destroyer_ok s d" using inv mem by (simp add: link_inv_def)
    ultimately show ?thesis by (simp add: destroyer_ok_def up)
  qed
  have hd: "unique_used slot_used li_rx_queue (lk_instances s)"
    and nd: "unique_used link_visible li_name (lk_instances s)"
    using inv by (simp_all add: link_inv_def handles_distinct_def)
  have "handles_distinct s'" "unique_used link_visible li_name (lk_instances s')"
    using handle_table.unique_clear [OF hd, of ?i] link_table.unique_clear [OF nd, of ?i]
    by (simp_all add: handles_distinct_def s'_def upd_instance_def)
  then show ?thesis
    using slots refs ds rest inv_remove_destroyer [OF inv, of k] unfolding s'_def [symmetric]
    by (simp add: link_inv_def)
qed

lemma create_cases:
  assumes "solar_os_link_create rxo txo ok rx_ok tx_ok s name local_id mtu = (err, s')"
  obtains (failed) "err \<noteq> ESP_OK" "s' = s \<or> s' = s\<lparr>lk_mutex := True\<rparr>"
  | (created) s1 slot nm where "err = ESP_OK" "link_ensure_init ok s = (ESP_OK, s1)"
      "name = Some nm" "nm \<noteq> []" "length nm < LINK_NAME_MAX" "local_id \<noteq> 0" "local_id \<noteq> LINK_BROADCAST"
      "LINK_HEADER_SIZE + LINK_CRC_SIZE \<le> mtu" "mtu \<le> LINK_FRAME_MAX"
      "link_find_locked s1 nm < 0"
      "first_index (\<lambda>x. \<not> li_active x \<and> \<not> li_closing x) (lk_instances s1) = Some slot"
      "s' = upd_instance slot (\<lambda>_. link_instance_zero\<lparr>li_active := True,
              li_generation := lk_generation s1, li_name := nm, li_local_id := local_id,
              li_frame_mtu := mtu, li_next_sequence := 1, li_rx_queue := Some (lk_next_handle s1),
              li_tx_queue := Some (lk_next_handle s1)\<rparr>)
            (s1\<lparr>lk_generation := (if lk_generation s1 + 1 = 0 then 1 else lk_generation s1 + 1),
               lk_rx_heap := (lk_rx_heap s1)(lk_next_handle s1 \<mapsto> q_create rxo LINK_QUEUE_DEPTH),
               lk_tx_heap := (lk_tx_heap s1)(lk_next_handle s1 \<mapsto> q_create txo LINK_QUEUE_DEPTH),
               lk_next_handle := Suc (lk_next_handle s1)\<rparr>)"
proof (cases "err = ESP_OK")
  case False
  then have "s' = s \<or> s' = s\<lparr>lk_mutex := True\<rparr>"
    using assms by (auto simp: solar_os_link_create_def link_ensure_init_def Let_def
        split: if_splits option.splits)
  with False show ?thesis using failed by blast
next
  case True
  then obtain s1 where s1: "link_ensure_init ok s = (ESP_OK, s1)" and v: "link_name_valid name"
    using assms by (auto simp: solar_os_link_create_def link_ensure_init_def split: if_splits)
  then obtain nm where nm: "name = Some nm" "nm \<noteq> []" "length nm < LINK_NAME_MAX"
    by (auto simp: link_name_valid_def split: option.splits)
  from assms True s1 v nm obtain slot
    where slot: "first_index (\<lambda>x. \<not> li_active x \<and> \<not> li_closing x) (lk_instances s1) = Some slot"
    by (auto simp: solar_os_link_create_def split: if_splits option.splits)
  have arg: "local_id \<noteq> 0" "local_id \<noteq> LINK_BROADCAST"
      "LINK_HEADER_SIZE + LINK_CRC_SIZE \<le> mtu" "mtu \<le> LINK_FRAME_MAX" "\<not> 0 \<le> link_find_locked s1 nm"
      "rx_ok" "tx_ok"
    using assms True s1 v nm by (auto simp: solar_os_link_create_def split: if_splits)
  show ?thesis
    using assms True s1 v arg slot nm
    by (intro created [of s1 nm slot])
       (simp_all add: solar_os_link_create_def Let_def strlcpy_id not_le)
qed

lemma inv_create:
  assumes inv: "link_inv s R D"
    and c: "solar_os_link_create rxo txo ok rx_ok tx_ok s name local_id mtu = (err, s')"
  shows "link_inv s' R D"
  using c
proof (cases rule: create_cases)
  case failed
  then show ?thesis using inv by (auto simp: link_inv_def mutex_upd)
next
  case (created s1 slot nm)
  note e = ensure_init_inv [OF created(2)]
  have inv1: "link_inv s1 R D" using e(1) inv by blast
  then have len: "length (lk_instances s1) = LINK_INSTANCE_MAX" by (simp add: link_inv_def)
  have slot: "slot < LINK_INSTANCE_MAX" "\<not> slot_used (inst s1 slot)"
    using first_indexD [OF created(11)] len by (auto simp: slot_used_def)
  let ?h = "lk_next_handle s1"
  obtain x where x: "inst s' slot = x" "li_active x" "\<not> li_closing x" "li_refs x = 0" "li_name x = nm"
    "li_rx_queue x = Some ?h" "li_tx_queue x = Some ?h"
    and li: "lk_instances s' = (lk_instances s1)[slot := x]"
    using slot len by (auto simp: created(12) upd_instance_def link_instance_zero_def)
  have rest: "lk_next_handle s' = Suc ?h" "handle_live s' ?h" "handle_live s1 g \<Longrightarrow> handle_live s' g"
    "length (lk_instances s') = LINK_INSTANCE_MAX" "lk_fault s' = lk_fault s1" "lk_mutex s' = lk_mutex s1" for g
    using len by (auto simp: created(12) handle_live_def upd_instance_def)
  have up: "inst s' j = (if j = slot then x else inst s1 j)" for j
    using slot len by (simp add: li nth_list_update)
  have none: "lf_index r \<noteq> int slot" if "r \<in> set R" for r
    using inv1 that slot by (auto simp: link_inv_def ref_ok_def)
  then have cnt: "ref_count R slot = 0" by (simp add: ref_count_def filter_empty_conv)
  have slots: "slot_ok s' R j" if "j < LINK_INSTANCE_MAX" for j
  proof (cases "j = slot")
    case True
    then show ?thesis using x cnt rest by (simp add: slot_ok_def up)
  next
    case False
    have "slot_ok s1 R j" using inv1 that by (simp add: link_inv_def)
    then show ?thesis using False rest by (auto simp: slot_ok_def up intro: less_SucI)
  qed
  have refs: "ref_ok s' q" if "q \<in> set R" for q
  proof -
    have "ref_ok s1 q" using inv1 that by (simp add: link_inv_def)
    then obtain j where j: "j < LINK_INSTANCE_MAX" "lf_index q = int j" "slot_used (inst s1 j)"
      "lf_generation q = li_generation (inst s1 j)" "lf_rx_queue q = li_rx_queue (inst s1 j)"
      "lf_tx_queue q = li_tx_queue (inst s1 j)" unfolding ref_ok_def by blast
    then have "inst s' j = inst s1 j" using none [OF that] by (simp add: up)
    with j show ?thesis unfolding ref_ok_def by (intro exI [of _ j]) simp
  qed
  have ds: "destroyer_ok s' d" if "d \<in> set D" for d
  proof -
    have "destroyer_ok s1 d" using inv1 that by (simp add: link_inv_def)
    moreover from this have "dy_index d \<noteq> slot" using slot(2) by (auto simp: destroyer_ok_def slot_used_def)
    ultimately show ?thesis by (simp add: destroyer_ok_def up)
  qed
  have old: "li_rx_queue (inst s1 j) \<noteq> Some ?h" if "j < LINK_INSTANCE_MAX" "slot_used (inst s1 j)" for j
    using inv1 that by (auto simp: link_inv_def slot_ok_def)
  have "handles_distinct s'"
    using inv1 old len x(6) unfolding handles_distinct_def li
    by (intro handle_table.unique_insert) (auto simp: link_inv_def handles_distinct_def)
  moreover have "unique_used link_visible li_name (lk_instances s')"
  proof -
    have "li_name (inst s1 j) \<noteq> nm" if "j < length (lk_instances s1)" "link_visible (inst s1 j)" for j
      using created(10) first_index_nth_exists [OF that(1), of "\<lambda>y. link_visible y \<and> li_name y = nm"] that
      by (auto simp: link_find_locked_def split: option.splits)
    then show ?thesis
      using inv1 x(5) unfolding li by (intro link_table.unique_insert) (auto simp: link_inv_def)
  qed
  ultimately show ?thesis using slots refs ds rest inv1 by (simp add: link_inv_def)
qed

lemma fill_status_live:
  assumes inv: "link_inv s R D" and i: "i < LINK_INSTANCE_MAX" "link_visible (inst s i)"
  shows "snd (link_fill_status_locked rxo txo s (inst s i)) = s"
proof -
  have "slot_ok s R i" using inv i by (simp add: link_inv_def)
  then obtain h where "li_rx_queue (inst s i) = Some h" "li_tx_queue (inst s i) = Some h" "handle_live s h"
    using i by (auto simp: slot_ok_def slot_used_def link_visible_def)
  then show ?thesis
    by (auto simp: link_fill_status_locked_def handle_waiting_def handle_live_def)
qed

lemma nth_visible_member:
  "nth_visible k xs = Some x \<Longrightarrow> \<exists>i < length xs. xs ! i = x \<and> link_visible x"
  by (induction k xs rule: nth_visible.induct) (force split: if_splits)+

lemma inv_status:
  assumes inv: "link_inv s R D"
  shows "solar_os_link_get_status rxo txo ok s name out = (err, s', out') \<Longrightarrow> link_inv s' R D"
    and "solar_os_link_get rxo txo ok s index gout = (found, s', gout') \<Longrightarrow> link_inv s' R D"
    and "solar_os_link_count ok s = (n, s') \<Longrightarrow> link_inv s' R D"
proof -
  obtain e0 s1 where e0: "link_ensure_init ok s = (e0, s1)" by fastforce
  have inv1: "link_inv s1 R D" using ensure_init_inv(1) [OF e0] inv by blast
  have len: "length (lk_instances s1) = LINK_INSTANCE_MAX" using inv1 by (simp add: link_inv_def)
  note err = ensure_init_inv(4) [OF e0]
  have fill: "s2 = s1" if "link_fill_status_locked rxo txo s1 (inst s1 i) = (st, s2)"
      "i < LINK_INSTANCE_MAX" "link_visible (inst s1 i)" for i st s2
    using fill_status_live [OF inv1 that(2,3), of rxo txo] that(1) by simp
  show "link_inv s' R D" if g: "solar_os_link_get_status rxo txo ok s name out = (err, s', out')"
  proof (cases "\<exists>i. link_find_locked s1 (the name) = int i")
    case True
    then obtain i where i: "link_find_locked s1 (the name) = int i" by blast
    note f = find_locked_Some [OF i]
    have "s' = s \<or> s' = s1"
      using g e0 err i f len fill [of i]
      by (auto simp: solar_os_link_get_status_def split: if_splits prod.splits)
    then show ?thesis using inv inv1 by blast
  next
    case False
    then have "link_find_locked s1 (the name) < 0" using find_locked_nonneg [of s1 "the name"] by force
    then have "s' = s \<or> s' = s1"
      using g e0 err by (auto simp: solar_os_link_get_status_def split: if_splits)
    then show ?thesis using inv inv1 by blast
  qed
  show "link_inv s' R D" if g: "solar_os_link_get rxo txo ok s index gout = (found, s', gout')"
  proof -
    have "s' = s \<or> s' = s1"
      using g e0 err len fill
      by (auto simp: solar_os_link_get_def split: if_splits prod.splits option.splits
          dest!: nth_visible_member)
    then show ?thesis using inv inv1 by blast
  qed
  show "link_inv s' R D" if "solar_os_link_count ok s = (n, s')"
    using that e0 err inv1 by (auto simp: solar_os_link_count_def)
qed

section \<open>Every reachable configuration\<close>

fun system_inv :: "('m, 'f) link_system \<Rightarrow> bool" where
  "system_inv (s, ts, ds) \<longleftrightarrow> link_inv s (map fst ts) ds"

lemma boot_inv: "link_inv link_boot [] []"
  by (simp add: link_inv_def link_boot_def handles_distinct_def handle_table.unique_cleared
      link_table.unique_cleared)
     (simp add: slot_ok_def ref_count_def slot_used_def link_instance_zero_def)

lemma step_inv:
  assumes "link_step rxo txo c c'" and "system_inv c"
  shows "system_inv c'"
  using assms
proof (cases rule: link_step.cases)
  case (ls_create ok rx_ok tx_ok s name lid mtu err s' ts ds)
  then show ?thesis using assms(2) inv_create by simp
next
  case (ls_status ok s name out err s' out' ts ds)
  then show ?thesis using assms(2) inv_status(1) by simp
next
  case (ls_get ok s index out found s' out' ts ds)
  then show ?thesis using assms(2) inv_status(2) by simp
next
  case (ls_count ok s n s' ts ds)
  then show ?thesis using assms(2) inv_status(3) by simp
next
  case (ls_acquire ok s name s' ref ph ts ds)
  then show ?thesis using assms(2) inv_acquire by simp
next
  case (ls_acquire_fails ok s name err s' ref ts ds)
  from ls_acquire_fails(3) have "s' = s \<or> s' = s\<lparr>lk_mutex := True\<rparr>"
    using ls_acquire_fails(4) by (cases rule: acquire_cases) auto
  then show ?thesis using ls_acquire_fails assms(2) by (auto simp: link_inv_def mutex_upd)
next
  case (ls_run k ts ref ph s ph' s' ds)
  have inv: "link_inv s (map fst ts) ds" using assms(2) ls_run(1) by simp
  have "ref \<in> set (map fst ts)" using ls_run(3,4) by (metis fst_conv in_set_conv_nth length_map nth_map)
  from skel_phase [OF ref_ok_live(1) [OF inv this], of rxo txo ph] ls_run(5)
  have "link_skel s' = link_skel s" by simp
  moreover have "map fst (ts[k := (ref, ph')]) = map fst ts"
    using ls_run(3,4) by (metis fst_conv list_update_id map_update nth_map)
  ultimately show ?thesis using ls_run(2) inv_skel [OF inv] by simp
next
  case (ls_release k ts ref s s' ds)
  have "link_inv (link_release s ref) (remove_nth k (map fst ts)) ds"
    using assms(2) ls_release by (intro inv_release) simp_all
  then show ?thesis using ls_release by (simp add: map_remove_nth)
next
  case (ls_destroy name s i rx tx s' ts ds)
  then show ?thesis using assms(2) inv_destroy_begin by simp
next
  case (ls_poll k ds s ts)
  have inv: "link_inv s (map fst ts) ds" using assms(2) ls_poll(1) by simp
  have "destroyer_ok s (ds ! k)" using inv ls_poll(3) by (simp add: link_inv_def)
  then have "destroyer_ok s ((ds ! k)\<lparr>dy_phase := DP_delete_tx\<rparr>)"
    using ls_poll by (simp add: destroyer_ok_def)
  then show ?thesis using ls_poll inv_destroyer [OF inv ls_poll(3)] by simp
next
  case (ls_timeout k ds s ts)
  then show ?thesis using assms(2) inv_remove_destroyer by simp
next
  case (ls_delete_tx k ds s ts)
  have inv: "link_inv s (map fst ts) ds" using assms(2) ls_delete_tx(1) by simp
  have mem: "ds ! k \<in> set ds" using ls_delete_tx by simp
  let ?s = "s\<lparr>lk_tx_heap := heap_delete (dy_tx (ds ! k)) (lk_tx_heap s)\<rparr>"
  have inv': "link_inv ?s (map fst ts) ds"
    using ls_delete_tx by (intro inv_delete [OF inv mem]) simp_all
  have "destroyer_ok ?s (ds ! k)" using inv' mem by (simp add: link_inv_def)
  then have "destroyer_ok ?s ((ds ! k)\<lparr>dy_phase := DP_delete_rx\<rparr>)"
    using ls_delete_tx by (simp add: destroyer_ok_def)
  then show ?thesis using ls_delete_tx inv_destroyer [OF inv' ls_delete_tx(3)] by simp
next
  case (ls_delete_rx k ds s ts)
  have inv: "link_inv s (map fst ts) ds" using assms(2) ls_delete_rx(1) by simp
  have mem: "ds ! k \<in> set ds" using ls_delete_rx by simp
  let ?s = "s\<lparr>lk_rx_heap := heap_delete (dy_rx (ds ! k)) (lk_rx_heap s)\<rparr>"
  have inv': "link_inv ?s (map fst ts) ds"
    using ls_delete_rx by (intro inv_delete [OF inv mem]) simp_all
  have "destroyer_ok ?s (ds ! k)" using inv' mem by (simp add: link_inv_def)
  then have "destroyer_ok ?s ((ds ! k)\<lparr>dy_phase := DP_clear\<rparr>)"
    using ls_delete_rx by (simp add: destroyer_ok_def)
  then show ?thesis using ls_delete_rx inv_destroyer [OF inv' ls_delete_rx(3)] by simp
next
  case (ls_clear k ds s ts)
  then show ?thesis using assms(2) inv_clear by simp
qed

lemma reachable_inv: "link_reachable rxo txo c \<Longrightarrow> system_inv c"
  by (induction rule: link_reachable.induct) (auto simp: boot_inv intro: step_inv)

section \<open>The public operations as runs of the system\<close>

abbreviation link_runs where
  "link_runs rxo txo \<equiv> (link_step rxo txo)\<^sup>*\<^sup>*"

lemma run_head:
  "phase_step rxo txo ref ph s = (ph', s') \<Longrightarrow>
     link_runs rxo txo (s', (ref, ph') # ts, ds) c \<Longrightarrow> link_runs rxo txo (s, (ref, ph) # ts, ds) c"
  using ls_run [of 0 "(ref, ph) # ts" ref ph rxo txo s ph' s' ds]
  by (auto intro: converse_rtranclp_into_rtranclp)

lemma run_release: "link_runs rxo txo (s, (ref, PH_release) # ts, ds) (link_release s ref, ts, ds)"
  using ls_release [of 0 "(ref, PH_release) # ts" ref s "link_release s ref" rxo txo ds]
  by (auto simp: remove_nth_def)

lemma run_acquire:
  "link_acquire ok s name = (ESP_OK, s', ref) \<Longrightarrow> start_phase ph \<Longrightarrow>
     link_runs rxo txo (s', (ref, ph) # ts, ds) c \<Longrightarrow> link_runs rxo txo (s, ts, ds) c"
  by (rule converse_rtranclp_into_rtranclp) (rule ls_acquire)

lemma run_acquire_fails:
  "link_acquire ok s name = (err, s', ref) \<Longrightarrow> err \<noteq> ESP_OK \<Longrightarrow> link_runs rxo txo (s, ts, ds) (s', ts, ds)"
  by (intro r_into_rtranclp) (rule ls_acquire_fails)

lemma send_runs:
  "link_runs rxo txo (s, ts, ds)
     (fst (snd (solar_os_link_send txo ok s name type d payload len sq)), ts, ds)"
proof (cases "(type \<noteq> LINK_MESSAGE_TEXT \<and> type \<noteq> LINK_MESSAGE_BINARY \<and> type \<noteq> LINK_MESSAGE_STREAM)
         \<or> d = 0 \<or> LINK_PAYLOAD_MAX < len \<or> (type = LINK_MESSAGE_STREAM \<and> d = LINK_BROADCAST)
         \<or> (payload = None \<and> 0 < len)")
  case True
  then show ?thesis by (simp add: solar_os_link_send_def)
next
  case valid: False
  obtain err s1 ref where a: "link_acquire ok s name = (err, s1, ref)" by (metis prod.collapse)
  show ?thesis
  proof (cases "err = ESP_OK")
    case False
    have "fst (snd (solar_os_link_send txo ok s name type d payload len sq)) = s1"
      using valid a False unfolding solar_os_link_send_def by (simp only: if_False) (cases err; simp)
    then show ?thesis using run_acquire_fails [OF a False] by simp
  next
    case True
    let ?p = "if 0 < len then take len (the payload) else []"
    obtain hd s2 where b: "link_send_begin s1 ref type d = (hd, s2)" by fastforce
    show ?thesis
    proof (cases hd)
      case None
      have "fst (snd (solar_os_link_send txo ok s name type d payload len sq)) = link_release s2 ref"
        using valid a True b None unfolding solar_os_link_send_def by (simp only: if_False) simp
      moreover have "link_runs rxo txo (s, ts, ds) (link_release s2 ref, ts, ds)"
        using a True b None
        by (intro run_acquire [of ok s name s1 ref "PH_send_begin type d ?p"]
              run_head [of _ _ ref "PH_send_begin type d ?p" s1 PH_release s2])
           (simp_all add: start_phase_def phase_step_def run_release)
      ultimately show ?thesis by simp
    next
      case (Some m0)
      define m where "m = m0\<lparr>lm_payload := ?p\<rparr>"
      obtain ret s3 where q: "link_send_enqueue txo s2 ref m = (ret, s3)" by fastforce
      have "fst (snd (solar_os_link_send txo ok s name type d payload len sq))
          = link_release (link_send_commit s3 ref ret m) ref"
        using valid a True b Some q unfolding solar_os_link_send_def
        by (simp only: if_False) (simp add: m_def Let_def)
      moreover have "link_runs rxo txo (s, ts, ds) (link_release (link_send_commit s3 ref ret m) ref, ts, ds)"
        using a True b Some q
        by (intro run_acquire [of ok s name s1 ref "PH_send_begin type d ?p"]
              run_head [of _ _ ref "PH_send_begin type d ?p" s1 "PH_send_enqueue m" s2]
              run_head [of _ _ ref "PH_send_enqueue m" s2 "PH_send_commit m ret" s3]
              run_head [of _ _ ref "PH_send_commit m ret" s3 PH_release "link_send_commit s3 ref ret m"])
           (simp_all add: start_phase_def phase_step_def m_def run_release)
      ultimately show ?thesis by simp
    qed
  qed
qed

lemma take_runs:
  "link_runs rxo txo (s, ts, ds) (fst (snd (solar_os_link_take_tx txo ok s name frame)), ts, ds)"
  "link_runs rxo txo (s, ts, ds) (fst (snd (solar_os_link_receive rxo ok s name msg)), ts, ds)"
proof -
  obtain err s1 ref where a: "link_acquire ok s name = (err, s1, ref)" by (metis prod.collapse)
  have ok: "err = ESP_OK \<Longrightarrow> link_acquire ok s name = (ESP_OK, s1, ref)" using a by simp
  have tx: "link_runs rxo txo (s, ts, ds) (link_release (snd (tx_receive txo s1 (lf_tx_queue ref))) ref, ts, ds)"
    if "err = ESP_OK"
    by (intro run_acquire [OF ok [OF that], of PH_take_tx]
          run_head [of _ _ ref PH_take_tx s1 PH_release "snd (tx_receive txo s1 (lf_tx_queue ref))"])
       (simp_all add: start_phase_def phase_step_def run_release)
  have rx: "link_runs rxo txo (s, ts, ds) (link_release (snd (rx_receive rxo s1 (lf_rx_queue ref))) ref, ts, ds)"
    if "err = ESP_OK"
    by (intro run_acquire [OF ok [OF that], of PH_receive]
          run_head [of _ _ ref PH_receive s1 PH_release "snd (rx_receive rxo s1 (lf_rx_queue ref))"])
       (simp_all add: start_phase_def phase_step_def run_release)
  show "link_runs rxo txo (s, ts, ds) (fst (snd (solar_os_link_take_tx txo ok s name frame)), ts, ds)"
    using a tx run_acquire_fails [OF a, of rxo txo ts ds]
    by (cases "err = ESP_OK") (auto simp: solar_os_link_take_tx_def split: esp_err.splits option.splits prod.splits)
  show "link_runs rxo txo (s, ts, ds) (fst (snd (solar_os_link_receive rxo ok s name msg)), ts, ds)"
    using a rx run_acquire_fails [OF a, of rxo txo ts ds]
    by (cases "err = ESP_OK") (auto simp: solar_os_link_receive_def split: esp_err.splits option.splits prod.splits)
qed

lemma run_queue:
  assumes q: "link_queue_received rxo s (lf_rx_queue ref) m = (ret, evicted, s')"
    and r: "link_runs rxo txo (s', (ref, PH_ack m ret False evicted sa) # ts, ds) c"
  shows "link_runs rxo txo (s, (ref, PH_queue m sa) # ts, ds) c"
proof -
  obtain ok1 s1 where s1: "rx_send rxo s (lf_rx_queue ref) m = (ok1, s1)" by fastforce
  show ?thesis
  proof (cases ok1)
    case True
    then show ?thesis using q r s1
      by (intro run_head [of rxo txo ref "PH_queue m sa" s "PH_ack m ESP_OK False False sa" s1])
         (simp_all add: link_queue_received_def phase_step_def)
  next
    case False
    obtain old s2 where s2: "rx_receive rxo s1 (lf_rx_queue ref) = (old, s2)" by fastforce
    obtain ok3 s3 where s3: "rx_send rxo s2 (lf_rx_queue ref) m = (ok3, s3)" by fastforce
    show ?thesis using q r s1 s2 s3 False
      by (intro run_head [of rxo txo ref "PH_queue m sa" s "PH_evict m sa" s1]
            run_head [of rxo txo ref "PH_evict m sa" s1 "PH_requeue m (old \<noteq> None) sa" s2]
            run_head [of rxo txo ref "PH_requeue m (old \<noteq> None) sa" s2
              "PH_ack m (if ok3 then ESP_OK else ESP_ERR_NO_MEM) False (old \<noteq> None) sa" s3])
         (auto simp: link_queue_received_def phase_step_def Let_def)
  qed
qed

lemma ingest_runs:
  "link_runs rxo txo (s, ts, ds) (fst (snd (solar_os_link_ingest rxo txo ok s name frame out)), ts, ds)"
proof (cases "out = None")
  case True
  then show ?thesis by (simp add: solar_os_link_ingest_def)
next
  case False
  then obtain out0 where out: "out = Some out0" by blast
  obtain err s1 ref where a: "link_acquire ok s name = (err, s1, ref)" by (metis prod.collapse)
  obtain ret cell where d: "solar_os_link_decode frame (Some link_message_zero) = (ret, cell)" by fastforce
  define m where "m = the cell"
  note unf = solar_os_link_ingest_def
  show ?thesis
  proof (cases "err = ESP_OK")
    case False
    have "fst (snd (solar_os_link_ingest rxo txo ok s name frame out)) = s1"
      using out a d False unfolding unf by (cases err) simp_all
    then show ?thesis using run_acquire_fails [OF a False] by simp
  next
    case acq: True
    show ?thesis
    proof (cases "ret = ESP_OK")
      case False
      have "link_runs rxo txo (s, ts, ds) (link_release (link_ingest_reject s1 ref ret) ref, ts, ds)"
        using a acq
        by (intro run_acquire [of ok s name s1 ref "PH_reject ret"]
              run_head [of _ _ ref "PH_reject ret" s1 PH_release "link_ingest_reject s1 ref ret"])
           (simp_all add: start_phase_def phase_step_def run_release)
      then show ?thesis using out a d acq False by (simp add: unf)
    next
      case dec: True
      obtain cls s2 where c: "link_ingest_classify s1 ref m = (cls, s2)" by fastforce
      have start: "link_runs rxo txo (s1, (ref, PH_classify m) # ts, ds) c \<Longrightarrow> link_runs rxo txo (s, ts, ds) c" for c
        using a acq by (intro run_acquire [of ok s name s1 ref "PH_classify m"]) (simp_all add: start_phase_def)
      show ?thesis
      proof (cases cls)
        case (IC_DATA duplicate sa)
        let ?q = "\<not> duplicate \<and> lm_type m \<noteq> LINK_MESSAGE_STREAM"
        obtain ret1 ev s3 where q: "(if ?q then link_queue_received rxo s2 (lf_rx_queue ref) m
            else (ESP_OK, False, s2)) = (ret1, ev, s3)" by (metis prod.collapse)
        obtain ack_ret s4 where k: "(if ret1 = ESP_OK \<and> sa
            then link_queue_ack txo s3 (nat (lf_index ref)) (lf_tx_queue ref) m else (ESP_OK, s3)) = (ack_ret, s4)"
          by fastforce
        let ?s5 = "link_ingest_commit s4 ref m ret1 duplicate ev sa ack_ret"
        have ack: "link_runs rxo txo (s3, (ref, PH_ack m ret1 duplicate ev sa) # ts, ds) (link_release ?s5 ref, ts, ds)"
          using k
          by (intro run_head [of _ _ ref "PH_ack m ret1 duplicate ev sa" s3 "PH_commit m ret1 duplicate ev sa ack_ret" s4]
                run_head [of _ _ ref "PH_commit m ret1 duplicate ev sa ack_ret" s4 PH_release ?s5])
             (auto simp: phase_step_def run_release split: if_splits)
        have "link_runs rxo txo (s1, (ref, PH_classify m) # ts, ds) (link_release ?s5 ref, ts, ds)"
        proof (cases ?q)
          case True
          then show ?thesis using c IC_DATA q ack
            by (intro run_head [of _ _ ref "PH_classify m" s1 "PH_queue m sa" s2]
                  run_queue [of rxo s2 ref m ret1 ev s3])
               (auto simp: phase_step_def)
        next
          case False
          then show ?thesis using c IC_DATA q ack
            by (intro run_head [of _ _ ref "PH_classify m" s1 "PH_ack m ESP_OK duplicate False sa" s2])
               (auto simp: phase_step_def)
        qed
        moreover have "fst (snd (solar_os_link_ingest rxo txo ok s name frame out)) = link_release ?s5 ref"
          using out a d acq dec c IC_DATA q k
          unfolding unf Let_def m_def by simp
        ultimately show ?thesis using start by simp
      qed (use out a d acq dec c start in \<open>auto simp: unf m_def phase_step_def run_release
            intro!: start run_head [of _ _ ref "PH_classify m" s1 PH_release s2]\<close>)
    qed
  qed
qed

section \<open>Slots that stay closing\<close>

lemma status_instances:
  "solar_os_link_get_status rxo txo ok s name out = (err, s', out') \<Longrightarrow> lk_instances s' = lk_instances s"
  "solar_os_link_get rxo txo ok s index gout = (found, s', gout') \<Longrightarrow> lk_instances s' = lk_instances s"
  "solar_os_link_count ok s = (n, s') \<Longrightarrow> lk_instances s' = lk_instances s"
  by (auto simp: solar_os_link_get_status_def solar_os_link_get_def solar_os_link_count_def
      link_ensure_init_def link_fill_status_locked_def Let_def split: if_splits option.splits prod.splits)

definition stuck :: "nat \<Rightarrow> ('m, 'f) link_system \<Rightarrow> bool" where
  "stuck i c \<longleftrightarrow> (case c of (s, ts, ds) \<Rightarrow>
     i < length (lk_instances s) \<and> li_closing (inst s i) \<and> i \<notin> dy_index ` set ds)"

lemma stuck_upd_instance:
  assumes "i < length (lk_instances s)" and "li_closing (inst s i)"
    and "j = i \<Longrightarrow> li_closing (f (inst s i))"
  shows "li_closing (inst (upd_instance j f s) i)"
  using assms by (cases "j < length (lk_instances s)")
    (auto simp: inst_upd, simp add: upd_instance_def list_update_beyond)

lemma stuck_step:
  assumes "link_step rxo txo c c'" and "stuck i c" and "system_inv c"
  shows "stuck i c'"
  using assms
proof (cases rule: link_step.cases)
  case (ls_create ok rx_ok tx_ok s name lid mtu err s' ts ds)
  from ls_create(3) show ?thesis
  proof (cases rule: create_cases)
    case failed
    then show ?thesis using ls_create assms(2) by (auto simp: stuck_def)
  next
    case (created s1 slot nm)
    have eq: "lk_instances s1 = lk_instances s" by (rule ensure_init_inv(2) [OF created(2)])
    have "slot \<noteq> i" using first_indexD [OF created(11)] assms(2) ls_create(1) eq by (auto simp: stuck_def)
    then show ?thesis using assms(2) ls_create eq
      by (auto simp: stuck_def created(12) upd_instance_def nth_list_update)
  qed
next
  case (ls_status ok s name out err s' out' ts ds)
  then show ?thesis using assms(2) status_instances(1) [OF ls_status(3)] by (simp add: stuck_def)
next
  case (ls_get ok s index out found s' out' ts ds)
  then show ?thesis using assms(2) status_instances(2) [OF ls_get(3)] by (simp add: stuck_def)
next
  case (ls_count ok s n s' ts ds)
  then show ?thesis using assms(2) status_instances(3) [OF ls_count(3)] by (simp add: stuck_def)
next
  case (ls_acquire ok s name s' ref ph ts ds)
  from ls_acquire(3) show ?thesis
  proof (cases rule: acquire_cases)
    case (acquired s1 j)
    then show ?thesis using assms(2) ls_acquire ensure_init_inv(2) [OF acquired(2)]
      by (auto simp: stuck_def intro: stuck_upd_instance)
  qed simp
next
  case (ls_acquire_fails ok s name err s' ref ts ds)
  from ls_acquire_fails(3) show ?thesis
    using ls_acquire_fails assms(2) by (cases rule: acquire_cases) (auto simp: stuck_def)
next
  case (ls_run k ts ref ph s ph' s' ds)
  have inv: "link_inv s (map fst ts) ds" using assms(3) ls_run(1) by simp
  have "ref \<in> set (map fst ts)" using ls_run(3,4) by (metis fst_conv in_set_conv_nth length_map nth_map)
  from skel_phase [OF ref_ok_live(1) [OF inv this], of rxo txo ph] ls_run(5)
  have sk: "link_skel s' = link_skel s" by simp
  then have "length (lk_instances s') = length (lk_instances s)"
    by (metis link_skel_def prod.inject map_eq_imp_length_eq)
  then show ?thesis using ls_run(1,2) assms(2) skel_fields(2) [OF skel_nth [OF sk, of i]]
    by (auto simp: stuck_def)
next
  case (ls_release k ts ref s s' ds)
  then show ?thesis using assms(2)
    by (auto simp: stuck_def link_release_def intro!: stuck_upd_instance)
next
  case (ls_destroy name s j rx tx s' ts ds)
  then have nn: "0 \<le> link_find_locked s name" and j: "j = nat (link_find_locked s name)"
    and s': "s' = upd_instance j (\<lambda>x. x\<lparr>li_active := False, li_closing := True\<rparr>) s"
    by (auto simp: link_destroy_begin_def Let_def split: if_splits)
  then have "link_find_locked s name = int j" by simp
  from find_locked_Some(2) [OF this] have "j \<noteq> i"
    using ls_destroy(1) assms(2) by (auto simp: stuck_def link_visible_def)
  then show ?thesis using ls_destroy(1,2) assms(2) s' by (auto simp: stuck_def intro: stuck_upd_instance)
next
  case (ls_poll k ds s ts)
  have "map dy_index (ds[k := (ds ! k)\<lparr>dy_phase := DP_delete_tx\<rparr>]) = map dy_index ds"
    using ls_poll(3) by (intro destroyers_upd) simp_all
  then have "dy_index ` set (ds[k := (ds ! k)\<lparr>dy_phase := DP_delete_tx\<rparr>]) = dy_index ` set ds"
    by (metis image_set)
  then show ?thesis using ls_poll(1,2) assms(2) by (simp add: stuck_def)
next
  case (ls_timeout k ds s ts)
  then show ?thesis using assms(2) set_remove_nth [of k ds] by (auto simp: stuck_def)
next
  case (ls_delete_tx k ds s ts)
  have "map dy_index (ds[k := (ds ! k)\<lparr>dy_phase := DP_delete_rx\<rparr>]) = map dy_index ds"
    using ls_delete_tx(3) by (intro destroyers_upd) simp_all
  then have "dy_index ` set (ds[k := (ds ! k)\<lparr>dy_phase := DP_delete_rx\<rparr>]) = dy_index ` set ds"
    by (metis image_set)
  then show ?thesis using ls_delete_tx(1,2) assms(2) by (simp add: stuck_def)
next
  case (ls_delete_rx k ds s ts)
  have "map dy_index (ds[k := (ds ! k)\<lparr>dy_phase := DP_clear\<rparr>]) = map dy_index ds"
    using ls_delete_rx(3) by (intro destroyers_upd) simp_all
  then have "dy_index ` set (ds[k := (ds ! k)\<lparr>dy_phase := DP_clear\<rparr>]) = dy_index ` set ds"
    by (metis image_set)
  then show ?thesis using ls_delete_rx(1,2) assms(2) by (simp add: stuck_def)
next
  case (ls_clear k ds s ts)
  have "dy_index (ds ! k) \<noteq> i" using ls_clear(1,3) assms(2) by (auto simp: stuck_def)
  then show ?thesis using ls_clear(1,2) assms(2) set_remove_nth [of k ds]
    by (auto simp: stuck_def intro: stuck_upd_instance)
qed

lemma stuck_runs:
  assumes "link_runs rxo txo c c'" and "stuck i c" and "system_inv c"
  shows "stuck i c' \<and> system_inv c'"
  using assms by (induction rule: rtranclp_induct) (auto intro: stuck_step step_inv)

section \<open>Properties of the protocol\<close>

text \<open>
  C8. Memory safety under every interleaving: however creating, destroying, sending, receiving and
  ingesting tasks interleave, no task ever uses a queue that was deleted; the reference count of a
  slot is exactly the number of tasks inside it, and every task's reference is valid and its queues
  are alive until it releases it. This needs nothing from the queues themselves.
\<close>

theorem link_no_use_after_free:
  assumes "link_reachable rxo txo (s, ts, ds)"
  shows "\<not> lk_fault s
    \<and> (\<forall>i < LINK_INSTANCE_MAX. li_refs (lk_instances s ! i) = ref_count (map fst ts) i)
    \<and> (\<forall>t \<in> set ts. link_ref_valid_locked s (fst t) \<and> ref_live s (fst t))"
proof -
  have inv: "link_inv s (map fst ts) ds" using reachable_inv [OF assms] by simp
  then have "\<not> lk_fault s" "\<forall>i < LINK_INSTANCE_MAX. li_refs (lk_instances s ! i) = ref_count (map fst ts) i"
    by (auto simp: link_inv_def slot_ok_def)
  moreover have "link_ref_valid_locked s (fst t) \<and> ref_live s (fst t)" if "t \<in> set ts" for t
    using ref_ok_live [OF inv, of "fst t"] that by simp
  ultimately show ?thesis by blast
qed

type_synonym demo_state = "(link_message list_queue, link_frame list_queue) link_state"

definition demo_boot :: demo_state where
  "demo_boot = snd (solar_os_link_create list_queue_ops list_queue_ops True True True link_boot
     (Some ''lora'') 7 64)"

definition demo_ref :: link_ref where
  "demo_ref = snd (snd (link_acquire True demo_boot (Some ''lora'')))"

definition demo_busy :: demo_state where
  "demo_busy = fst (snd (link_acquire True demo_boot (Some ''lora'')))"

definition demo_closing :: demo_state where
  "demo_closing = snd (link_destroy_begin demo_busy ''lora'')"

lemmas demo_link_eval = demo_boot_def demo_busy_def demo_ref_def demo_closing_def solar_os_link_create_def link_boot_def
  link_ensure_init_def link_name_valid_def LINK_NAME_MAX_def LINK_INSTANCE_MAX_def LINK_BROADCAST_def
  link_size_defs link_find_locked_def link_visible_def link_instance_zero_def strlcpy_def
  upd_instance_def link_acquire_def link_destroy_begin_def Let_def numeral_3_eq_3

lemma demo_create: "solar_os_link_create list_queue_ops list_queue_ops True True True
    (link_boot :: demo_state) (Some ''lora'') 7 64 = (ESP_OK, demo_boot)"
  by (simp add: demo_link_eval)

lemma demo_acquire: "link_acquire True demo_boot (Some ''lora'') = (ESP_OK, demo_busy, demo_ref)"
  by (simp add: demo_link_eval)

lemma demo_begin: "link_destroy_begin demo_busy ''lora'' = (Some (0, Some 0, Some 0), demo_closing)"
  by (simp add: demo_link_eval)

lemma demo_busy_reachable:
  "link_reachable list_queue_ops list_queue_ops (demo_busy, [(demo_ref, PH_receive)], [])"
proof -
  have "link_reachable list_queue_ops list_queue_ops (demo_boot, [], [])"
    by (rule lr_step [OF lr_boot]) (rule ls_create [OF demo_create])
  then show ?thesis
    by (rule lr_step) (rule ls_acquire [OF demo_acquire], simp add: start_phase_def)
qed

lemma demo_closing_reachable:
  "link_reachable list_queue_ops list_queue_ops (demo_closing, [(demo_ref, PH_receive)],
     [\<lparr>dy_index = 0, dy_rx = Some 0, dy_tx = Some 0, dy_phase = DP_wait\<rparr>])"
  by (rule lr_step [OF demo_busy_reachable], rule ls_destroy [OF _ demo_begin])
     (simp add: link_name_valid_def LINK_NAME_MAX_def)

theorem link_no_use_after_free_witness:
  "\<not> lk_fault demo_closing \<and> li_refs (lk_instances demo_closing ! 0) = 1 \<and> ref_live demo_closing demo_ref"
  using link_no_use_after_free [OF demo_closing_reachable]
  by (auto simp: LINK_INSTANCE_MAX_def ref_count_def demo_ref_def)
     (simp_all add: demo_link_eval)




end
