(* ===== verification/LinkDelivery.thy ===== *)
theory LinkDelivery
  imports LinkProtocol
begin

text \<open>
  What a sequence of calls of the link service delivers: the functional behaviour of the public
  operations on a link that exists, the end-to-end delivery of a message with its acknowledgement,
  the suppression of duplicates, and the handling of corrupted frames. The queues obey the laws of
  \<open>bounded_fifo\<close>.
\<close>

section \<open>Operations on an existing link\<close>

definition ref_of :: "('m, 'f) link_state \<Rightarrow> nat \<Rightarrow> link_ref" where
  "ref_of s i = \<lparr>lf_index = int i, lf_generation = li_generation (inst s i),
     lf_rx_queue = li_rx_queue (inst s i), lf_tx_queue = li_tx_queue (inst s i)\<rparr>"

text \<open>The slot \<open>i\<close> is the visible link called \<open>n\<close>, with live queues \<open>rq\<close> and \<open>tq\<close>.\<close>

definition link_at :: "('m, 'f) link_state \<Rightarrow> string \<Rightarrow> nat \<Rightarrow> 'm \<Rightarrow> 'f \<Rightarrow> bool" where
  "link_at s n i rq tq \<longleftrightarrow>
     length (lk_instances s) = LINK_INSTANCE_MAX \<and> link_name_valid (Some n)
     \<and> link_find_locked s n = int i
     \<and> (\<exists>h. li_rx_queue (inst s i) = Some h \<and> li_tx_queue (inst s i) = Some h
          \<and> lk_rx_heap s h = Some rq \<and> lk_tx_heap s h = Some tq)"

text \<open>The state after an operation on slot \<open>i\<close>: one instance and the two queues changed.\<close>

definition link_after ::
  "('m, 'f) link_state \<Rightarrow> nat \<Rightarrow> (link_instance \<Rightarrow> link_instance) \<Rightarrow> 'm \<Rightarrow> 'f \<Rightarrow> ('m, 'f) link_state" where
  "link_after s i f rq tq =
     upd_instance i f (s\<lparr>lk_mutex := True,
       lk_rx_heap := (lk_rx_heap s)(the (li_rx_queue (inst s i)) \<mapsto> rq),
       lk_tx_heap := (lk_tx_heap s)(the (li_tx_queue (inst s i)) \<mapsto> tq)\<rparr>)"

lemma link_at_index:
  assumes "link_at s n i rq tq"
  shows "i < LINK_INSTANCE_MAX" and "link_visible (inst s i)" and "li_name (inst s i) = n"
  using find_locked_Some [of s n i] assms by (auto simp: link_at_def)

lemma find_locked_cong:
  assumes "length (lk_instances s') = length (lk_instances s)"
    and "\<And>j. j < length (lk_instances s) \<Longrightarrow>
           link_visible (inst s' j) = link_visible (inst s j) \<and> li_name (inst s' j) = li_name (inst s j)"
  shows "link_find_locked s' n = link_find_locked s n"
proof -
  have "first_index P xs = first_index Q ys"
    if "length xs = length ys" "\<And>j. j < length ys \<Longrightarrow> P (xs ! j) = Q (ys ! j)"
    for P Q and xs ys :: "link_instance list"
    by (rule option_eqI) (use that in \<open>auto simp: first_index_Some\<close>)
  from this [of "lk_instances s'" "lk_instances s"] show ?thesis
    using assms by (simp add: link_find_locked_def)
qed

lemma link_after_inst:
  assumes "link_at s n i rq tq"
  shows "inst (link_after s i f rq' tq') j = (if j = i then f (inst s i) else inst s j)"
    and "length (lk_instances (link_after s i f rq' tq')) = LINK_INSTANCE_MAX"
  using assms link_at_index(1) [OF assms]
  by (simp_all add: link_after_def upd_instance_def link_at_def nth_list_update)

lemma link_at_after:
  assumes at: "link_at s n i rq tq" and f: "inst_skel (f (inst s i)) = inst_skel (inst s i)"
  shows "link_at (link_after s i f rq' tq') n i rq' tq'"
proof -
  note g = skel_fields [OF f] and up = link_after_inst [OF at, of f rq' tq']
  have "link_find_locked (link_after s i f rq' tq') n = link_find_locked s n"
    using at up g by (intro find_locked_cong) (auto simp: link_at_def)
  then show ?thesis
    using at up g by (auto simp: link_at_def) (auto simp: link_after_def)
qed

lemma upd_upd:
  "i < length (lk_instances s) \<Longrightarrow> upd_instance i f (upd_instance i g s) = upd_instance i (\<lambda>x. f (g x)) s"
  by (simp add: upd_instance_def)

abbreviation ref_inc :: "link_instance \<Rightarrow> link_instance" where
  "ref_inc x \<equiv> x\<lparr>li_refs := Suc (li_refs x)\<rparr>"

lemma acquire_at:
  assumes "link_at s n i rq tq"
  shows "link_acquire True s (Some n) = (ESP_OK, link_after s i ref_inc rq tq, ref_of s i)"
proof -
  obtain h where h: "li_rx_queue (inst s i) = Some h" "li_tx_queue (inst s i) = Some h"
    "lk_rx_heap s h = Some rq" "lk_tx_heap s h = Some tq" using assms by (auto simp: link_at_def)
  have m: "(lk_rx_heap s)(h \<mapsto> rq) = lk_rx_heap s" "(lk_tx_heap s)(h \<mapsto> tq) = lk_tx_heap s"
    using h by (simp_all add: fun_upd_idem)
  have e: "link_ensure_init True s = (ESP_OK, s\<lparr>lk_mutex := True\<rparr>)"
    by (cases s) (simp add: link_ensure_init_def)
  have "link_find_locked (s\<lparr>lk_mutex := True\<rparr>) n = int i"
    using assms by (simp add: link_at_def link_find_locked_def)
  then show ?thesis
    using assms h m by (simp add: link_acquire_def e link_at_def link_after_def ref_of_def)
qed

lemma valid_at:
  assumes "link_at s n i rq tq" and "li_generation (f (inst s i)) = li_generation (inst s i)"
    and "0 < li_refs (f (inst s i))"
  shows "link_ref_valid_locked (link_after s i f rq' tq') (ref_of s i)"
  using assms link_at_index(1) [OF assms(1)] link_after_inst [OF assms(1), of f rq' tq']
  by (simp add: link_ref_valid_locked_def ref_of_def)

lemma release_at:
  assumes "link_at s n i rq tq" and "li_generation (f (inst s i)) = li_generation (inst s i)"
    and "li_refs (f (inst s i)) = li_refs (inst s i) + 1"
  shows "link_release (link_after s i f rq' tq') (ref_of s i) =
    link_after s i (\<lambda>x. (f x)\<lparr>li_refs := li_refs (f x) - 1\<rparr>) rq' tq'"
  using valid_at [where f = f, OF assms(1,2), of rq' tq'] assms link_at_index(1) [OF assms(1)]
  by (simp add: link_release_def link_after_def upd_upd link_at_def ref_of_def)

lemma after_upd:
  assumes "link_at s n i rq tq"
  shows "upd_instance i g (link_after s i f rq' tq') = link_after s i (\<lambda>x. g (f x)) rq' tq'"
  using assms link_at_index(1) [OF assms] by (simp add: link_after_def upd_upd link_at_def)

lemma after_queues:
  assumes "link_at s n i rq tq" and "r = ref_of s i"
  shows "rx_send rxo (link_after s i f rq' tq') (lf_rx_queue r) m =
      (case q_send rxo rq' m of None \<Rightarrow> (False, link_after s i f rq' tq')
       | Some q \<Rightarrow> (True, link_after s i f q tq'))"
    and "rx_receive rxo (link_after s i f rq' tq') (lf_rx_queue r) =
      (case q_receive rxo rq' of None \<Rightarrow> (None, link_after s i f rq' tq')
       | Some (x, q) \<Rightarrow> (Some x, link_after s i f q tq'))"
    and "tx_send txo (link_after s i f rq' tq') (lf_tx_queue r) fr =
      (case q_send txo tq' fr of None \<Rightarrow> (False, link_after s i f rq' tq')
       | Some q \<Rightarrow> (True, link_after s i f rq' q))"
    and "tx_receive txo (link_after s i f rq' tq') (lf_tx_queue r) =
      (case q_receive txo tq' of None \<Rightarrow> (None, link_after s i f rq' tq')
       | Some (x, q) \<Rightarrow> (Some x, link_after s i f rq' q))"
  using assms
  by (auto simp: link_at_def ref_of_def rx_send_def rx_receive_def tx_send_def tx_receive_def
      link_after_def upd_instance_def split: option.splits)

section \<open>Functional behaviour of the operations\<close>

definition send_header :: "link_instance \<Rightarrow> link_message_type \<Rightarrow> u32 \<Rightarrow> u8 list \<Rightarrow> link_message" where
  "send_header x type destination p =
     \<lparr>lm_version = LINK_PROTOCOL_VERSION,
      lm_flags = (if wants_ack type destination then LINK_FLAG_ACK_REQUESTED else 0),
      lm_type = type, lm_sequence = li_next_sequence x, lm_source = li_local_id x,
      lm_destination = destination, lm_payload = p\<rparr>"

definition send_effect :: "link_message \<Rightarrow> link_instance \<Rightarrow> link_instance" where
  "send_effect m x =
     (let x1 = upd_status (\<lambda>st. (st\<lparr>ls_last_error := ESP_OK\<rparr>)\<lparr>ls_tx_messages := ls_tx_messages st + 1\<rparr>)
                 (x\<lparr>li_next_sequence := next_sequence_after (li_next_sequence x)\<rparr>)
      in if wants_ack (lm_type m) (lm_destination m)
         then add_pending (lm_destination m) (lm_sequence m) x1 else x1)"

lemma inst_refs_simps [simp]:
  "li_refs (upd_status f x) = li_refs x" "li_generation (upd_status f x) = li_generation x"
  "li_refs (add_pending d q x) = li_refs x" "li_generation (add_pending d q x) = li_generation x"
  "li_refs (link_remember_locked m x) = li_refs x" "li_generation (link_remember_locked m x) = li_generation x"
  "li_refs (link_ack_pending_locked m x) = li_refs x"
  "li_generation (link_ack_pending_locked m x) = li_generation x"
  "li_local_id (link_remember_locked m x) = li_local_id x"
  "li_frame_mtu (upd_status f x) = li_frame_mtu x" "li_local_id (upd_status f x) = li_local_id x"
  by (simp_all add: upd_status_def add_pending_def link_pending_alloc_locked_def
      link_remember_locked_def link_ack_pending_locked_def split: option.splits)

lemma upd_status_refs: "(upd_status f x)\<lparr>li_refs := n\<rparr> = upd_status f (x\<lparr>li_refs := n\<rparr>)"
  by (simp add: upd_status_def)

lemma add_pending_refs: "(add_pending d q x)\<lparr>li_refs := n\<rparr> = add_pending d q (x\<lparr>li_refs := n\<rparr>)"
  by (simp add: add_pending_def link_pending_alloc_locked_def split: option.splits)

lemma send_at:
  assumes at: "link_at s n i rq tq"
    and type: "type = LINK_MESSAGE_TEXT \<or> type = LINK_MESSAGE_BINARY \<or> type = LINK_MESSAGE_STREAM"
    and d: "d \<noteq> 0" "type = LINK_MESSAGE_STREAM \<Longrightarrow> d \<noteq> LINK_BROADCAST"
    and len: "length p \<le> LINK_PAYLOAD_MAX"
      "LINK_HEADER_SIZE + length p + LINK_CRC_SIZE \<le> li_frame_mtu (inst s i)"
    and m: "m = send_header (inst s i) type d p"
    and room: "q_send txo tq (framed (message_body m)) = Some tq'"
  shows "solar_os_link_send txo True s (Some n) type d (Some p) (length p) sq =
    (ESP_OK, link_after s i (send_effect m) rq tq',
     if sq \<noteq> None then Some (li_next_sequence (inst s i)) else None)"
proof -
  let ?inc = "\<lambda>x. (ref_inc x)\<lparr>li_next_sequence := next_sequence_after (li_next_sequence x)\<rparr>"
  let ?s1 = "link_after s i ref_inc rq tq" and ?s2 = "link_after s i ?inc rq tq"
  let ?c = "\<lambda>x. let x1 = upd_status (\<lambda>st. st\<lparr>ls_last_error := ESP_OK\<rparr>) (?inc x);
                     x2 = upd_status (\<lambda>st. st\<lparr>ls_tx_messages := ls_tx_messages st + 1\<rparr>) x1
                 in if wants_ack (lm_type m) (lm_destination m)
                    then add_pending (lm_destination m) (lm_sequence m) x2 else x2"
  define s4 where "s4 = link_after s i ?c rq tq'"
  note up = link_after_inst [OF at]
  have idx: "nat (lf_index (ref_of s i)) = i" by (simp add: ref_of_def)
  have enc: "encodable m"
    using type len(1) by (auto simp: m encodable_def send_header_def link_type_valid_def wants_ack_def
        link_type_requests_acknowledgement_def LINK_PROTOCOL_VERSION_def LINK_FLAG_ACK_REQUESTED_def)
  have fl: "length (framed (message_body m)) \<le> li_frame_mtu (inst s i)"
    using len(2) by (simp add: framed_length body_length m send_header_def)
  have v1: "link_ref_valid_locked ?s1 (ref_of s i)" and v2: "link_ref_valid_locked ?s2 (ref_of s i)"
    by (rule valid_at [OF at]; simp)+
  have beg: "link_send_begin ?s1 (ref_of s i) type d = (Some (m\<lparr>lm_payload := []\<rparr>), ?s2)"
    using v1 idx at by (simp add: link_send_begin_def Let_def up after_upd m send_header_def)
  have enq: "link_send_enqueue txo ?s2 (ref_of s i) m = (ESP_OK, link_after s i ?inc rq tq')"
    using enc fl room by (simp add: link_send_enqueue_def encode_iff idx up not_less after_queues [OF at])
  have v3: "link_ref_valid_locked (link_after s i ?inc rq tq') (ref_of s i)"
    by (rule valid_at [OF at]; simp)
  have com: "link_send_commit (link_after s i ?inc rq tq') (ref_of s i) ESP_OK m = s4"
    using v3 at idx by (simp add: link_send_commit_def after_upd Let_def s4_def)
  have eff: "(\<lambda>x. (?c x)\<lparr>li_refs := li_refs (?c x) - 1\<rparr>) = send_effect m"
    by (rule ext) (simp add: Let_def send_effect_def upd_status_refs add_pending_refs, simp add: upd_status_def)
  have rel: "link_release s4 (ref_of s i) = link_after s i (send_effect m) rq tq'"
    unfolding s4_def eff [symmetric] by (rule release_at [OF at]) (simp_all add: Let_def)
  have args: "((type \<noteq> LINK_MESSAGE_TEXT \<and> type \<noteq> LINK_MESSAGE_BINARY \<and> type \<noteq> LINK_MESSAGE_STREAM)
         \<or> d = 0 \<or> LINK_PAYLOAD_MAX < length p \<or> (type = LINK_MESSAGE_STREAM \<and> d = LINK_BROADCAST)
         \<or> (Some p = None \<and> 0 < length p)) = False"
    using type d len(1) by auto
  have pl: "(if 0 < length p then take (length p) (the (Some p)) else []) = p" by simp
  have mp: "(m\<lparr>lm_payload := []\<rparr>)\<lparr>lm_payload := p\<rparr> = m"
    by (simp add: m send_header_def)
  have sq: "lm_sequence m = li_next_sequence (inst s i)" by (simp add: m send_header_def)
  show ?thesis
    unfolding solar_os_link_send_def
    by (simp only: args if_False acquire_at [OF at] split_conv esp_err.case beg option.case Let_def pl mp enq
        com rel) (simp add: sq)
qed

lemma take_at:
  assumes at: "link_at s n i rq tq" and q: "q_receive txo tq = Some (f, tq')"
  shows "solar_os_link_take_tx txo True s (Some n) (Some f0) =
    (ESP_OK, link_after s i (\<lambda>x. x) rq tq', Some f)"
proof -
  have "link_release (link_after s i ref_inc rq tq') (ref_of s i) = link_after s i (\<lambda>x. x) rq tq'"
    using release_at [where f = ref_inc, OF at] by simp
  then show ?thesis
    using q by (simp add: solar_os_link_take_tx_def acquire_at [OF at] after_queues [OF at])
qed

lemma receive_at:
  assumes at: "link_at s n i rq tq" and q: "q_receive rxo rq = Some (m, rq')"
  shows "solar_os_link_receive rxo True s (Some n) (Some m0) =
    (ESP_OK, link_after s i (\<lambda>x. x) rq' tq, Some m)"
proof -
  have "link_release (link_after s i ref_inc rq' tq) (ref_of s i) = link_after s i (\<lambda>x. x) rq' tq"
    using release_at [where f = ref_inc, OF at] by simp
  then show ?thesis
    using q by (simp add: solar_os_link_receive_def acquire_at [OF at] after_queues [OF at])
qed

text \<open>Queueing a received message keeps the newest messages: a full queue loses its oldest one.\<close>

definition keep_newest :: "nat \<Rightarrow> 'a list \<Rightarrow> 'a \<Rightarrow> 'a list" where
  "keep_newest d xs x = (if length xs < d then xs else tl xs) @ [x]"

lemma queue_received_at:
  assumes at: "link_at s n i rq tq" and fifo: "bounded_fifo rxo rc rd"
    and cap: "0 < rd rq" "length (rc rq) \<le> rd rq"
  shows "\<exists>rq'. link_queue_received rxo (link_after s i f rq tq) (lf_rx_queue (ref_of s i)) m =
      (ESP_OK, \<not> length (rc rq) < rd rq, link_after s i f rq' tq)
    \<and> rc rq' = keep_newest (rd rq) (rc rq) m \<and> rd rq' = rd rq"
proof (cases "length (rc rq) < rd rq")
  case True
  obtain rq' where q: "q_send rxo rq m = Some rq'" "rc rq' = rc rq @ [m]" "rd rq' = rd rq"
    using bounded_fifo.send_room [OF fifo True] by blast
  then show ?thesis using True
    by (auto simp: link_queue_received_def after_queues [OF at] keep_newest_def)
next
  case False
  then have none: "q_send rxo rq m = None" using bounded_fifo.send_full [OF fifo, of rq m] by simp
  obtain y q1 q2 where q: "q_receive rxo rq = Some (y, q1)" "q_send rxo q1 m = Some q2"
    "rc rq = y # rc q1" "rc q2 = rc q1 @ [m]" "rd q2 = rd rq"
    using bounded_fifo.evict_then_send [OF fifo cap(1) none cap(2)] .
  show ?thesis
  proof (intro exI [of _ q2] conjI)
    show "link_queue_received rxo (link_after s i f rq tq) (lf_rx_queue (ref_of s i)) m =
      (ESP_OK, \<not> length (rc rq) < rd rq, link_after s i f q2 tq)"
      using False none q(1,2) by (simp add: link_queue_received_def after_queues [OF at])
    show "rc q2 = keep_newest (rd rq) (rc rq) m" "rd q2 = rd rq"
      using False q by (simp_all add: keep_newest_def)
  qed
qed

definition ack_result :: "'f option \<Rightarrow> esp_err" where
  "ack_result q = (if q = None then ESP_ERR_NO_MEM else ESP_OK)"

lemma encodable_ack: "encodable (ack_message lid m)"
  by (simp add: encodable_def ack_message_def LINK_PROTOCOL_VERSION_def link_type_valid_def)

lemma queue_ack_at:
  assumes at: "link_at s n i rq tq" and lid: "li_local_id (f (inst s i)) = li_local_id (inst s i)"
  shows "link_queue_ack txo (link_after s i f rq' tq) i (lf_tx_queue (ref_of s i)) m =
    (let q = q_send txo tq (framed (message_body (ack_message (li_local_id (inst s i)) m)))
     in (ack_result q, link_after s i f rq' (case q of None \<Rightarrow> tq | Some tq' \<Rightarrow> tq')))"
  using lid by (simp add: link_queue_ack_def link_after_inst [OF at] encode_iff encodable_ack
      after_queues [OF at] ack_result_def Let_def split: option.splits)

definition commit_effect :: "link_message \<Rightarrow> bool \<Rightarrow> bool \<Rightarrow> esp_err \<Rightarrow> link_instance \<Rightarrow> link_instance" where
  "commit_effect m duplicate evicted ack_ret x =
     (let dropped = upd_status (\<lambda>st. st\<lparr>ls_dropped := ls_dropped st + 1\<rparr>);
          x1 = (if duplicate then upd_status (\<lambda>st. st\<lparr>ls_duplicates := ls_duplicates st + 1\<rparr>) x
                else upd_status (\<lambda>st. st\<lparr>ls_rx_messages := ls_rx_messages st + 1\<rparr>) (link_remember_locked m x));
          x2 = (if \<not> duplicate \<and> evicted then dropped x1 else x1);
          x3 = (if ack_ret = ESP_OK
                then upd_status (\<lambda>st. st\<lparr>ls_acknowledgements_sent := ls_acknowledgements_sent st + 1\<rparr>) x2
                else dropped x2)
      in upd_status (\<lambda>st. st\<lparr>ls_last_error := ack_ret\<rparr>) x3)"

lemma remember_refs: "(link_remember_locked m x)\<lparr>li_refs := n\<rparr> = link_remember_locked m (x\<lparr>li_refs := n\<rparr>)"
  by (simp add: link_remember_locked_def)

lemma commit_effect_refs:
  "li_refs (commit_effect m dup ev ar x) = li_refs x"
  "li_generation (commit_effect m dup ev ar x) = li_generation x"
  "(commit_effect m dup ev ar x)\<lparr>li_refs := n\<rparr> = commit_effect m dup ev ar (x\<lparr>li_refs := n\<rparr>)"
  by (simp_all add: commit_effect_def Let_def upd_status_refs remember_refs)

text \<open>A unicast text or binary message with the acknowledgement flag.\<close>

lemma ingest_data_at:
  assumes at: "link_at s n i rq tq" and fifo: "bounded_fifo rxo rc rd"
    and cap: "0 < rd rq" "length (rc rq) \<le> rd rq"
    and dec: "solar_os_link_decode (Some fr) (Some link_message_zero) = (ESP_OK, Some m)"
    and dest: "lm_destination m = li_local_id (inst s i)" "lm_destination m \<noteq> LINK_BROADCAST"
    and type: "lm_type m \<noteq> LINK_MESSAGE_ACKNOWLEDGEMENT" "lm_type m \<noteq> LINK_MESSAGE_STREAM"
    and flag: "lm_flags m AND LINK_FLAG_ACK_REQUESTED \<noteq> 0"
    and dup: "dup = link_is_duplicate_locked (inst s i) m"
    and q: "q = q_send txo tq (framed (message_body (ack_message (li_local_id (inst s i)) m)))"
  shows "\<exists>rq'. solar_os_link_ingest rxo txo True s (Some n) (Some fr) (Some r0) =
      (ESP_OK, link_after s i (commit_effect m dup (\<not> length (rc rq) < rd rq) (ack_result q)) rq'
                 (case q of None \<Rightarrow> tq | Some tq' \<Rightarrow> tq'),
       Some \<lparr>ir_accepted = (\<not> dup), ir_duplicate = dup, ir_acknowledgement = False, ir_message = m\<rparr>)
    \<and> rc rq' = (if dup then rc rq else keep_newest (rd rq) (rc rq) m) \<and> rd rq' = rd rq"
proof -
  let ?ev = "\<not> length (rc rq) < rd rq"
  let ?f = "\<lambda>x. if dup then upd_status (\<lambda>st. st\<lparr>ls_duplicates := ls_duplicates st + 1\<rparr>) (ref_inc x) else ref_inc x"
  let ?tq = "case q of None \<Rightarrow> tq | Some tq' \<Rightarrow> tq'"
  note up = link_after_inst [OF at]
  have idx: "nat (lf_index (ref_of s i)) = i" by (simp add: ref_of_def)
  have v1: "link_ref_valid_locked (link_after s i ref_inc rq tq) (ref_of s i)"
    by (rule valid_at [OF at]; simp)
  have dup': "link_is_duplicate_locked (ref_inc (inst s i)) m = dup"
    by (simp add: dup link_is_duplicate_locked_def)
  have cls: "link_ingest_classify (link_after s i ref_inc rq tq) (ref_of s i) m =
      (IC_DATA dup True, link_after s i ?f rq tq)"
    using v1 dest type flag dup' by (simp add: link_ingest_classify_def Let_def idx up after_upd [OF at])
  obtain rq' where rq': "(if \<not> dup \<and> lm_type m \<noteq> LINK_MESSAGE_STREAM
        then link_queue_received rxo (link_after s i ?f rq tq) (lf_rx_queue (ref_of s i)) m
        else (ESP_OK, False, link_after s i ?f rq tq)) = (ESP_OK, \<not> dup \<and> ?ev, link_after s i ?f rq' tq)"
    "rc rq' = (if dup then rc rq else keep_newest (rd rq) (rc rq) m)" "rd rq' = rd rq"
  proof (cases dup)
    case True
    with that [of rq] show ?thesis by simp
  next
    case False
    from queue_received_at [where f = ?f, OF at fifo cap, of m] obtain rq' where
      "link_queue_received rxo (link_after s i ?f rq tq) (lf_rx_queue (ref_of s i)) m =
        (ESP_OK, ?ev, link_after s i ?f rq' tq)" "rc rq' = keep_newest (rd rq) (rc rq) m" "rd rq' = rd rq"
      by blast
    with False that [of rq'] type show ?thesis by simp
  qed
  have ack: "link_queue_ack txo (link_after s i ?f rq' tq) i (lf_tx_queue (ref_of s i)) m =
      (ack_result q, link_after s i ?f rq' ?tq)"
    using queue_ack_at [where f = ?f, OF at] by (simp add: Let_def q)
  define s5 where "s5 = link_after s i (\<lambda>x. commit_effect m dup ?ev (ack_result q) (ref_inc x)) rq' ?tq"
  have v2: "link_ref_valid_locked (link_after s i ?f rq' ?tq) (ref_of s i)"
    by (rule valid_at [OF at]; simp)
  have com: "link_ingest_commit (link_after s i ?f rq' ?tq) (ref_of s i) m ESP_OK dup (\<not> dup \<and> ?ev) True
      (ack_result q) = s5"
    using v2 type unfolding s5_def
    by (simp add: link_ingest_commit_def idx after_upd [OF at])
       (rule arg_cong [where f = "\<lambda>f. link_after s i f rq' ?tq"], rule ext,
        cases dup; simp add: commit_effect_def Let_def)
  have "link_release s5 (ref_of s i) = link_after s i (commit_effect m dup ?ev (ack_result q)) rq' ?tq"
    unfolding s5_def
    by (subst release_at [OF at]) (simp_all add: commit_effect_refs)
  then have rel: "link_release s5 (ref_of s i) =
      link_after s i (commit_effect m dup ?ev (ack_result q)) rq' ?tq" .
  have "solar_os_link_ingest rxo txo True s (Some n) (Some fr) (Some r0) =
      (ESP_OK, link_after s i (commit_effect m dup ?ev (ack_result q)) rq' ?tq,
       Some (ingest_result_zero\<lparr>ir_accepted := (ESP_OK = ESP_OK \<and> \<not> dup), ir_duplicate := dup, ir_message := m\<rparr>))"
    unfolding solar_os_link_ingest_def
    by (simp only: option.distinct(2) if_False dec split_conv Let_def option.sel acquire_at [OF at]
        esp_err.case not_True_eq_False simp_thms cls ingest_class.case rq'(1) idx ack com rel if_True)
  then show ?thesis
    using rq'(2,3) by (intro exI [of _ rq']) (simp add: ingest_result_zero_def)
qed

lemma ingest_ack_at:
  assumes at: "link_at s n i rq tq"
    and dec: "solar_os_link_decode (Some fr) (Some link_message_zero) = (ESP_OK, Some m)"
    and dest: "lm_destination m = li_local_id (inst s i)"
    and type: "lm_type m = LINK_MESSAGE_ACKNOWLEDGEMENT"
  shows "solar_os_link_ingest rxo txo True s (Some n) (Some fr) (Some r0) =
    (ESP_OK, link_after s i (\<lambda>x. upd_status (\<lambda>st. st\<lparr>ls_last_error := ESP_OK\<rparr>) (link_ack_pending_locked m x)) rq tq,
     Some \<lparr>ir_accepted = False, ir_duplicate = False, ir_acknowledgement = True, ir_message = m\<rparr>)"
proof -
  let ?g = "\<lambda>x. upd_status (\<lambda>st. st\<lparr>ls_last_error := ESP_OK\<rparr>) (link_ack_pending_locked m x)"
  have v: "link_ref_valid_locked (link_after s i ref_inc rq tq) (ref_of s i)"
    by (rule valid_at [OF at]; simp)
  have idx: "nat (lf_index (ref_of s i)) = i" by (simp add: ref_of_def)
  have cls: "link_ingest_classify (link_after s i ref_inc rq tq) (ref_of s i) m =
      (IC_ACKNOWLEDGEMENT, link_after s i (\<lambda>x. ?g (ref_inc x)) rq tq)"
    using v dest type
    by (simp add: link_ingest_classify_def Let_def idx link_after_inst [OF at] after_upd [OF at])
  have g: "(?g (ref_inc x))\<lparr>li_refs := li_refs x\<rparr> = ?g x" for x
    by (simp add: link_ack_pending_locked_def upd_status_def split: option.splits)
  have rel: "link_release (link_after s i (\<lambda>x. ?g (ref_inc x)) rq tq) (ref_of s i) = link_after s i ?g rq tq"
    by (subst release_at [OF at]) (simp_all add: g [simplified])
  show ?thesis
    unfolding solar_os_link_ingest_def
    by (simp add: dec acquire_at [OF at] cls rel ingest_result_zero_def)
qed

definition reject_effect :: "esp_err \<Rightarrow> link_instance \<Rightarrow> link_instance" where
  "reject_effect ret = upd_status (\<lambda>st.
     let st1 = st\<lparr>ls_last_error := ret\<rparr>
     in if ret = ESP_ERR_INVALID_CRC then st1\<lparr>ls_crc_errors := ls_crc_errors st1 + 1\<rparr>
        else st1\<lparr>ls_dropped := ls_dropped st1 + 1\<rparr>)"

lemma ingest_reject_at:
  assumes at: "link_at s n i rq tq"
    and dec: "solar_os_link_decode fr (Some link_message_zero) = (ret, cell)" and ret: "ret \<noteq> ESP_OK"
  shows "solar_os_link_ingest rxo txo True s (Some n) fr (Some r0) =
    (ret, link_after s i (reject_effect ret) rq tq, Some ingest_result_zero)"
proof -
  have v: "link_ref_valid_locked (link_after s i ref_inc rq tq) (ref_of s i)"
    by (rule valid_at [OF at]; simp)
  have idx: "nat (lf_index (ref_of s i)) = i" by (simp add: ref_of_def)
  have rej: "link_ingest_reject (link_after s i ref_inc rq tq) (ref_of s i) ret =
      link_after s i (\<lambda>x. reject_effect ret (ref_inc x)) rq tq"
    using v by (simp add: link_ingest_reject_def idx after_upd [OF at] reject_effect_def)
  have g: "(reject_effect ret (x\<lparr>li_refs := k\<rparr>))\<lparr>li_refs := li_refs x\<rparr> = reject_effect ret x" for x k
    by (simp add: reject_effect_def upd_status_def)
  have rel: "link_release (link_after s i (\<lambda>x. reject_effect ret (ref_inc x)) rq tq) (ref_of s i) =
      link_after s i (reject_effect ret) rq tq"
    by (subst release_at [OF at]) (simp_all add: reject_effect_def, simp add: g [unfolded reject_effect_def])
  show ?thesis
    unfolding solar_os_link_ingest_def
    using ret by (simp add: dec acquire_at [OF at] rej rel)
qed

section \<open>The memory of duplicates\<close>

text \<open>
  \<open>remembered m k x\<close>: instance \<open>x\<close> remembers message \<open>m\<close>, and at most \<open>k\<close> messages were remembered
  since, counted on the free-running index.
\<close>

definition remembered :: "link_message \<Rightarrow> nat \<Rightarrow> link_instance \<Rightarrow> bool" where
  "remembered m k x \<longleftrightarrow>
     length (li_duplicates x) = LINK_DUPLICATE_DEPTH
     \<and> (\<exists>c < unat (li_duplicate_next x). unat (li_duplicate_next x) \<le> c + k + 1
          \<and> duplicate_matches m (li_duplicates x ! (c mod LINK_DUPLICATE_DEPTH)))"

lemma remembered_duplicate:
  assumes "remembered m k x"
  shows "link_is_duplicate_locked x m"
proof -
  obtain c where c: "duplicate_matches m (li_duplicates x ! (c mod LINK_DUPLICATE_DEPTH))"
    and len: "length (li_duplicates x) = LINK_DUPLICATE_DEPTH"
    using assms by (auto simp: remembered_def)
  have "c mod LINK_DUPLICATE_DEPTH < length (li_duplicates x)"
    by (simp add: len LINK_DUPLICATE_DEPTH_def)
  with c show ?thesis
    unfolding link_is_duplicate_locked_def list_ex_iff by (meson nth_mem)
qed

lemma next_no_wrap: "unat (w :: u32) + 1 < 2 ^ 32 \<Longrightarrow> unat (w + 1) = unat w + 1"
  by (simp add: unat_word_ariths)

lemma remember_remembers:
  assumes "length (li_duplicates x) = LINK_DUPLICATE_DEPTH" and "unat (li_duplicate_next x) + 1 < 2 ^ 32"
  shows "remembered m 0 (link_remember_locked m x)"
  using assms next_no_wrap [OF assms(2)]
  by (auto simp: remembered_def link_remember_locked_def duplicate_matches_def LINK_DUPLICATE_DEPTH_def
      intro!: exI [of _ "unat (li_duplicate_next x)"])

lemma remember_keeps:
  assumes r: "remembered m k x" and k: "k + 1 < LINK_DUPLICATE_DEPTH"
    and w: "unat (li_duplicate_next x) + 1 < 2 ^ 32"
  shows "remembered m (k + 1) (link_remember_locked m' x)"
proof -
  let ?n = "unat (li_duplicate_next x)"
  obtain c where c: "c < ?n" "?n \<le> c + k + 1"
    "duplicate_matches m (li_duplicates x ! (c mod LINK_DUPLICATE_DEPTH))"
    and len: "length (li_duplicates x) = LINK_DUPLICATE_DEPTH"
    using r by (auto simp: remembered_def)
  have "\<not> LINK_DUPLICATE_DEPTH dvd (?n - c)"
    using c k by (auto dest: dvd_imp_le)
  then have "c mod LINK_DUPLICATE_DEPTH \<noteq> ?n mod LINK_DUPLICATE_DEPTH"
    using c(1) by (metis mod_eq_dvd_iff_nat less_imp_le)
  then show ?thesis
    using c len next_no_wrap [OF w] unfolding remembered_def
    by (auto simp: link_remember_locked_def nth_list_update intro!: exI [of _ c])
qed

section \<open>The shape of any ingest\<close>

text \<open>An instance update that keeps the skeleton and either leaves the duplicate memory alone or
  remembers one message.\<close>

definition same_memory :: "(link_instance \<Rightarrow> link_instance) \<Rightarrow> bool" where
  "same_memory f \<longleftrightarrow> (\<forall>x. inst_skel (f x) = inst_skel x \<and> li_duplicates (f x) = li_duplicates x
     \<and> li_duplicate_next (f x) = li_duplicate_next x \<and> li_local_id (f x) = li_local_id x)"

definition learns :: "(link_instance \<Rightarrow> link_instance) \<Rightarrow> bool" where
  "learns f \<longleftrightarrow> same_memory f \<or>
     (\<exists>m. \<forall>x. inst_skel (f x) = inst_skel x \<and> li_local_id (f x) = li_local_id x
        \<and> li_duplicates (f x) = li_duplicates (link_remember_locked m x)
        \<and> li_duplicate_next (f x) = li_duplicate_next (link_remember_locked m x))"

lemma same_memory_simps [simp]:
  "same_memory (\<lambda>x. x)" "same_memory (upd_status g)"
  "same_memory (\<lambda>x. upd_status g (link_ack_pending_locked m x))"
  by (simp_all add: same_memory_def)
     (simp_all add: upd_status_def link_ack_pending_locked_def split: option.splits)

lemma queue_received_shape:
  assumes at: "link_at s n i rq tq" and fifo: "bounded_fifo rxo rc rd"
    and cap: "0 < rd rq'" "length (rc rq') \<le> rd rq'"
  shows "\<exists>rq''. snd (snd (link_queue_received rxo (link_after s i f rq' tq') (lf_rx_queue (ref_of s i)) m))
    = link_after s i f rq'' tq' \<and> rd rq'' = rd rq' \<and> length (rc rq'') \<le> rd rq''"
proof -
  define s' where "s' = link_after s i f rq' tq'"
  have "\<exists>rq''. snd (snd (link_queue_received rxo s' (lf_rx_queue (ref_of s i)) m)) = link_after s i f rq'' tq'
      \<and> rd rq'' = rd rq' \<and> length (rc rq'') \<le> rd rq''"
  proof (cases "length (rc rq') < rd rq'")
    case True
    then show ?thesis using bounded_fifo.send_room [OF fifo True, of m]
      by (auto simp: s'_def link_queue_received_def after_queues [OF at])
  next
    case False
    then have none: "q_send rxo rq' m = None" using bounded_fifo.send_full [OF fifo, of rq' m] by simp
    obtain y q1 q2 where q: "q_receive rxo rq' = Some (y, q1)" "q_send rxo q1 m = Some q2"
      "rc rq' = y # rc q1" "rc q2 = rc q1 @ [m]" "rd q2 = rd rq'"
      using bounded_fifo.evict_then_send [OF fifo cap(1) none cap(2)] .
    then show ?thesis using none cap
      by (intro exI [of _ q2]) (simp add: s'_def link_queue_received_def after_queues [OF at])
  qed
  then show ?thesis by (simp add: s'_def)
qed

lemma queue_ack_shape:
  assumes at: "link_at s n i rq tq"
  shows "\<exists>tq''. snd (link_queue_ack txo (link_after s i f rq' tq') k (lf_tx_queue (ref_of s i)) m)
    = link_after s i f rq' tq''"
  by (auto simp: link_queue_ack_def encode_iff encodable_ack after_queues [OF at] split: option.splits)

lemma classify_shape:
  assumes at: "link_at s n i rq tq"
  shows "\<exists>f. same_memory f \<and> snd (link_ingest_classify (link_after s i ref_inc rq tq) (ref_of s i) m)
    = link_after s i (\<lambda>x. f (ref_inc x)) rq tq"
proof -
  have idx: "nat (lf_index (ref_of s i)) = i" by (simp add: ref_of_def)
  have a: "\<exists>f. same_memory f \<and> link_after s i (\<lambda>x. g (ref_inc x)) rq tq = link_after s i (\<lambda>x. f (ref_inc x)) rq tq"
    if "same_memory g" for g using that by blast
  show ?thesis
    by (simp add: link_ingest_classify_def Let_def idx after_upd [OF at])
       (auto intro: a a [of "\<lambda>x. x", simplified])
qed

lemma commit_shape:
  assumes at: "link_at s n i rq tq"
  shows "\<exists>h. learns h \<and> link_ingest_commit (link_after s i f rq' tq') (ref_of s i) m ret dup ev sa ar
    = link_after s i (\<lambda>x. h (f x)) rq' tq'"
proof (cases "link_ref_valid_locked (link_after s i f rq' tq') (ref_of s i)")
  case False
  then show ?thesis
    by (intro exI [of _ "\<lambda>x. x"]) (simp add: link_ingest_commit_def learns_def)
next
  case True
  have idx: "nat (lf_index (ref_of s i)) = i" by (simp add: ref_of_def)
  let ?drop = "upd_status (\<lambda>st. st\<lparr>ls_dropped := ls_dropped st + 1\<rparr>)"
  define h where "h = (\<lambda>inst.
          let inst1 =
                (if ret = ESP_OK
                 then let i1 = (if \<not> dup \<and> lm_type m \<noteq> LINK_MESSAGE_STREAM
                                then link_remember_locked m inst else inst);
                          i2 = (if \<not> dup
                                then let j = upd_status (\<lambda>st. st\<lparr>ls_rx_messages := ls_rx_messages st + 1\<rparr>) i1
                                     in if ev then ?drop j else j
                                else i1)
                      in if sa \<and> ar = ESP_OK
                         then upd_status (\<lambda>st. st\<lparr>ls_acknowledgements_sent := ls_acknowledgements_sent st + 1\<rparr>) i2
                         else if sa then ?drop i2
                         else i2
                 else ?drop inst)
          in upd_status (\<lambda>st. st\<lparr>ls_last_error := (if ret \<noteq> ESP_OK then ret else ar)\<rparr>) inst1)"
  have d: "li_duplicates (upd_status g x) = li_duplicates x"
    "li_duplicate_next (upd_status g x) = li_duplicate_next x" for g x by (simp_all add: upd_status_def)
  have "learns h"
  proof (cases "ret = ESP_OK \<and> \<not> dup \<and> lm_type m \<noteq> LINK_MESSAGE_STREAM")
    case True
    then show ?thesis unfolding learns_def by (intro disjI2 exI [of _ m]) (simp add: h_def Let_def d)
  next
    case False
    then show ?thesis unfolding learns_def same_memory_def by (intro disjI1) (auto simp: h_def Let_def d)
  qed
  moreover have "link_ingest_commit (link_after s i f rq' tq') (ref_of s i) m ret dup ev sa ar
      = upd_instance i h (link_after s i f rq' tq')"
    using True unfolding link_ingest_commit_def h_def by (simp add: idx Let_def)
  ultimately show ?thesis by (auto simp: after_upd [OF at])
qed

lemma learns_after: "same_memory f \<Longrightarrow> learns h \<Longrightarrow> learns (\<lambda>x. (h (f (ref_inc x)))\<lparr>li_refs := li_refs x\<rparr>)"
  by (auto simp: learns_def same_memory_def link_remember_locked_def inst_skel_def)

lemma ingest_shape:
  assumes at: "link_at s n i rq tq" and fifo: "bounded_fifo rxo rc rd"
    and cap: "0 < rd rq" "length (rc rq) \<le> rd rq"
  shows "\<exists>f rq' tq'. learns f \<and> rd rq' = rd rq \<and> length (rc rq') \<le> rd rq' \<and>
    fst (snd (solar_os_link_ingest rxo txo True s (Some n) fr (Some r0))) = link_after s i f rq' tq'"
proof -
  obtain ret cell where d: "solar_os_link_decode fr (Some link_message_zero) = (ret, cell)" by fastforce
  show ?thesis
  proof (cases "ret = ESP_OK")
    case False
    have "learns (reject_effect ret)" by (simp add: learns_def reject_effect_def)
    then show ?thesis using ingest_reject_at [OF at d False] cap by auto
  next
    case True
    define m where "m = the cell"
    have rel: "\<exists>g. learns g \<and> link_release (link_after s i (\<lambda>x. h (f (ref_inc x))) rq1 tq1) (ref_of s i)
        = link_after s i g rq1 tq1" if "same_memory f" "learns h" for f h rq1 tq1
    proof -
      have g: "li_generation (h (f (ref_inc x))) = li_generation x"
        "li_refs (h (f (ref_inc x))) = Suc (li_refs x)" for x
      proof -
        have "inst_skel (h (f (ref_inc x))) = inst_skel (ref_inc x)"
          using that by (auto simp: learns_def same_memory_def)
        from skel_fields(3,4) [OF this]
        show "li_generation (h (f (ref_inc x))) = li_generation x"
          "li_refs (h (f (ref_inc x))) = Suc (li_refs x)" by simp_all
      qed
      have "link_release (link_after s i (\<lambda>x. h (f (ref_inc x))) rq1 tq1) (ref_of s i)
          = link_after s i (\<lambda>x. (h (f (ref_inc x)))\<lparr>li_refs := li_refs x\<rparr>) rq1 tq1"
        by (subst release_at [OF at]) (simp_all add: g)
      with learns_after [OF that] show ?thesis
        by (intro exI [of _ "\<lambda>x. (h (f (ref_inc x)))\<lparr>li_refs := li_refs x\<rparr>"]) simp
    qed
    obtain f where f1: "same_memory f" "snd (link_ingest_classify (link_after s i ref_inc rq tq) (ref_of s i) m)
        = link_after s i (\<lambda>x. f (ref_inc x)) rq tq"
      using classify_shape [OF at, of m] by auto
    obtain cls s2 where cls: "link_ingest_classify (link_after s i ref_inc rq tq) (ref_of s i) m = (cls, s2)"
      by fastforce
    have f: "same_memory f" "s2 = link_after s i (\<lambda>x. f (ref_inc x)) rq tq" using f1 cls by simp_all
    note unf = solar_os_link_ingest_def
    have simple: "fst (snd (solar_os_link_ingest rxo txo True s (Some n) fr (Some r0))) = link_release s2 (ref_of s i)"
      if "cls \<in> {IC_INVALID_STATE, IC_NOT_FOUND, IC_ACKNOWLEDGEMENT}"
      using that cls d True unfolding unf m_def by (auto simp: acquire_at [OF at])
    have "learns (\<lambda>x. x)" by (simp add: learns_def)
    from rel [OF f(1) this, of rq tq] obtain g0 where none: "learns g0"
      "link_release (link_after s i (\<lambda>x. f (ref_inc x)) rq tq) (ref_of s i) = link_after s i g0 rq tq"
      by auto
    then have none': "\<exists>f rq' tq'. learns f \<and> rd rq' = rd rq \<and> length (rc rq') \<le> rd rq'
        \<and> link_release s2 (ref_of s i) = link_after s i f rq' tq'"
      using cap f(2) by (intro exI [of _ g0] exI [of _ rq] exI [of _ tq]) simp
    show ?thesis
    proof (cases cls)
      case (IC_DATA dup sa)
      let ?q = "\<not> dup \<and> lm_type m \<noteq> LINK_MESSAGE_STREAM"
      obtain ret1 ev s3 where q: "(if ?q then link_queue_received rxo s2 (lf_rx_queue (ref_of s i)) m
          else (ESP_OK, False, s2)) = (ret1, ev, s3)" by (metis prod.collapse)
      obtain rq3 where s3: "s3 = link_after s i (\<lambda>x. f (ref_inc x)) rq3 tq"
        and cap3: "rd rq3 = rd rq" "length (rc rq3) \<le> rd rq3"
        using q queue_received_shape [OF at fifo cap, of "\<lambda>x. f (ref_inc x)" tq m] f(2) cap
        by (auto split: if_splits)
      obtain ar s4 where k: "(if ret1 = ESP_OK \<and> sa
          then link_queue_ack txo s3 (nat (lf_index (ref_of s i))) (lf_tx_queue (ref_of s i)) m
          else (ESP_OK, s3)) = (ar, s4)" by fastforce
      obtain tq4 where s4: "s4 = link_after s i (\<lambda>x. f (ref_inc x)) rq3 tq4"
        using k s3 queue_ack_shape [OF at, of txo "\<lambda>x. f (ref_inc x)" rq3 tq "nat (lf_index (ref_of s i))" m]
        by (auto split: if_splits)
      obtain h where h: "learns h" "link_ingest_commit s4 (ref_of s i) m ret1 dup ev sa ar
          = link_after s i (\<lambda>x. h (f (ref_inc x))) rq3 tq4"
        using commit_shape [OF at, of "\<lambda>x. f (ref_inc x)" rq3 tq4 m ret1 dup ev sa ar] s4 by auto
      have "fst (snd (solar_os_link_ingest rxo txo True s (Some n) fr (Some r0)))
          = link_release (link_ingest_commit s4 (ref_of s i) m ret1 dup ev sa ar) (ref_of s i)"
        using d True cls IC_DATA q k unfolding unf Let_def m_def by (simp add: acquire_at [OF at])
      moreover obtain g where "learns g"
        "link_release (link_after s i (\<lambda>x. h (f (ref_inc x))) rq3 tq4) (ref_of s i) = link_after s i g rq3 tq4"
        using rel [OF f(1) h(1), of rq3 tq4] by blast
      ultimately show ?thesis using h(2) cap3 by (intro exI [of _ g] exI [of _ rq3] exI [of _ tq4]) simp
    qed (use simple none' in simp_all)
  qed
qed

text \<open>A link together with its local id and a receive queue that respects its bound.\<close>

definition link_ready where
  "link_ready rc rd s n i lid rq tq \<longleftrightarrow>
     link_at s n i rq tq \<and> li_local_id (inst s i) = lid \<and> 0 < rd rq \<and> length (rc rq) \<le> rd rq"

lemma ingest_ready:
  assumes r: "link_ready rc rd s n i lid rq tq" and fifo: "bounded_fifo rxo rc rd"
  shows "\<exists>f rq' tq'. learns f
    \<and> link_ready rc rd (fst (snd (solar_os_link_ingest rxo txo True s (Some n) fr (Some r0)))) n i lid rq' tq'
    \<and> inst (fst (snd (solar_os_link_ingest rxo txo True s (Some n) fr (Some r0)))) i = f (inst s i)"
proof -
  have at: "link_at s n i rq tq" and cap: "0 < rd rq" "length (rc rq) \<le> rd rq"
    and lid: "li_local_id (inst s i) = lid" using r by (simp_all add: link_ready_def)
  obtain f rq' tq' where f: "learns f" "rd rq' = rd rq" "length (rc rq') \<le> rd rq'"
    "fst (snd (solar_os_link_ingest rxo txo True s (Some n) fr (Some r0))) = link_after s i f rq' tq'"
    using ingest_shape [OF at fifo cap] by blast
  have sk: "inst_skel (f x) = inst_skel x" "li_local_id (f x) = li_local_id x" for x
    using f(1) by (auto simp: learns_def same_memory_def)
  have "link_at (link_after s i f rq' tq') n i rq' tq'"
    using sk(1) by (intro link_at_after [OF at])
  then have "link_ready rc rd (link_after s i f rq' tq') n i lid rq' tq'"
    using f(2,3) cap lid sk(2) by (simp add: link_ready_def link_after_inst [OF at])
  with f show ?thesis
    by (intro exI [of _ f] exI [of _ rq'] exI [of _ tq']) (simp add: link_after_inst [OF at])
qed

lemma learns_remembered:
  assumes "learns f" and "remembered m k x" and "k + 1 < LINK_DUPLICATE_DEPTH"
    and "unat (li_duplicate_next x) + 1 < 2 ^ 32"
  shows "remembered m (k + 1) (f x)"
    and "unat (li_duplicate_next (f x)) \<le> unat (li_duplicate_next x) + 1"
proof -
  have weak: "remembered m (k + 1) x" using assms(2) by (auto simp: remembered_def)
  have "(\<forall>x. li_duplicates (f x) = li_duplicates x \<and> li_duplicate_next (f x) = li_duplicate_next x)
    \<or> (\<exists>m'. \<forall>x. li_duplicates (f x) = li_duplicates (link_remember_locked m' x)
        \<and> li_duplicate_next (f x) = li_duplicate_next (link_remember_locked m' x))"
    using assms(1) unfolding learns_def same_memory_def by blast
  then show "remembered m (k + 1) (f x)"
  proof
    assume "\<forall>x. li_duplicates (f x) = li_duplicates x \<and> li_duplicate_next (f x) = li_duplicate_next x"
    then show ?thesis using weak by (simp add: remembered_def)
  next
    assume "\<exists>m'. \<forall>x. li_duplicates (f x) = li_duplicates (link_remember_locked m' x)
        \<and> li_duplicate_next (f x) = li_duplicate_next (link_remember_locked m' x)"
    then obtain m' where "li_duplicates (f x) = li_duplicates (link_remember_locked m' x)"
      "li_duplicate_next (f x) = li_duplicate_next (link_remember_locked m' x)" by blast
    then show ?thesis using remember_keeps [OF assms(2-4), of m'] by (simp add: remembered_def)
  qed
  show "unat (li_duplicate_next (f x)) \<le> unat (li_duplicate_next x) + 1"
    using assms(1) next_no_wrap [OF assms(4)]
    by (auto simp: learns_def same_memory_def link_remember_locked_def)
qed

fun ingest_all where
  "ingest_all rxo txo n s [] = s"
| "ingest_all rxo txo n s (fr # frs) =
     ingest_all rxo txo n
       (fst (snd (solar_os_link_ingest rxo txo True s (Some n) (Some fr) (Some ingest_result_zero)))) frs"

lemma ingest_all_remembers:
  assumes "link_ready rc rd s n i lid rq tq" and "bounded_fifo rxo rc rd" and "remembered m k (inst s i)"
    and "k + length frs < LINK_DUPLICATE_DEPTH"
    and "unat (li_duplicate_next (inst s i)) + length frs < 2 ^ 32"
  shows "\<exists>rq' tq'. link_ready rc rd (ingest_all rxo txo n s frs) n i lid rq' tq'
    \<and> remembered m (k + length frs) (inst (ingest_all rxo txo n s frs) i)"
  using assms
proof (induction frs arbitrary: s rq tq k)
  case Nil
  then show ?case by auto
next
  case (Cons fr frs)
  let ?s = "fst (snd (solar_os_link_ingest rxo txo True s (Some n) (Some fr) (Some ingest_result_zero)))"
  obtain f rq' tq' where f: "learns f" "link_ready rc rd ?s n i lid rq' tq'" "inst ?s i = f (inst s i)"
    using ingest_ready [OF Cons.prems(1,2)] by blast
  note l = learns_remembered [OF f(1) Cons.prems(3)]
  have "remembered m (k + 1) (inst ?s i)" "unat (li_duplicate_next (inst ?s i)) + length frs < 2 ^ 32"
    using Cons.prems(4,5) l f(3) by auto
  from Cons.IH [OF f(2) Cons.prems(2) this(1) _ this(2)] Cons.prems(4) show ?case by simp
qed

section \<open>Delivery\<close>

definition awaits :: "u32 \<Rightarrow> u16 \<Rightarrow> link_instance \<Rightarrow> bool" where
  "awaits destination sequence x \<longleftrightarrow>
     (\<exists>p \<in> set (li_pending x). lp_active p \<and> lp_destination p = destination \<and> lp_sequence p = sequence)"

lemma awaits_iff:
  "awaits (lm_source m) (lm_sequence m) x
     \<longleftrightarrow> (\<exists>j < length (li_pending x). pending_matches m (li_pending x ! j))"
  by (simp add: awaits_def pending_matches_def) (metis in_set_conv_nth)

lemma add_pending_awaits:
  assumes "length (li_pending x) = LINK_PENDING_DEPTH" and "\<not> awaits d q x"
  shows "awaits d q (add_pending d q x)"
    and "lm_source m = d \<Longrightarrow> lm_sequence m = q \<Longrightarrow>
         \<not> awaits d q (link_ack_pending_locked m (add_pending d q x))"
proof -
  obtain k where k: "k < length (li_pending x)" "li_pending (add_pending d q x) =
      (li_pending x)[k := \<lparr>lp_destination = d, lp_sequence = q, lp_active = True\<rparr>]"
  proof (cases "first_index (\<lambda>p. \<not> lp_active p) (li_pending x)")
    case None
    show ?thesis
      by (rule that [of "unat (li_pending_next x) mod LINK_PENDING_DEPTH"])
         (simp_all add: assms(1) add_pending_def link_pending_alloc_locked_def None,
          simp add: LINK_PENDING_DEPTH_def)
  next
    case (Some k)
    show ?thesis
      by (rule that [of k]) (simp_all add: first_indexD [OF Some] add_pending_def
          link_pending_alloc_locked_def Some)
  qed
  let ?ps = "li_pending (add_pending d q x)"
  have len: "length ?ps = length (li_pending x)" using k by simp
  have at: "?ps ! j = (if j = k then \<lparr>lp_destination = d, lp_sequence = q, lp_active = True\<rparr> else li_pending x ! j)"
    if "j < length (li_pending x)" for j using k that by (simp add: nth_list_update)
  show "awaits d q (add_pending d q x)"
  proof -
    have "?ps ! k \<in> set ?ps" using k(1) len by (intro nth_mem) simp
    then show ?thesis unfolding awaits_def using at [OF k(1)] by (intro bexI [of _ "?ps ! k"]) simp_all
  qed
  assume m: "lm_source m = d" "lm_sequence m = q"
  have only: "pending_matches m (?ps ! j) \<longleftrightarrow> j = k" if "j < length ?ps" for j
    using that assms(2) m len at [of j] by (auto simp: pending_matches_def awaits_def)
  have fi: "first_index (pending_matches m) ?ps = Some k"
    using only k(1) len by (auto simp: first_index_Some)
  have "li_pending (link_ack_pending_locked m (add_pending d q x)) = ?ps[k := (?ps ! k)\<lparr>lp_active := False\<rparr>]"
    by (simp add: link_ack_pending_locked_def fi upd_status_def)
  moreover have "\<not> pending_matches m (?ps[k := (?ps ! k)\<lparr>lp_active := False\<rparr>] ! j)" if "j < length ?ps" for j
    using only [OF that] that by (cases "j = k") (simp_all add: pending_matches_def)
  ultimately show "\<not> awaits d q (link_ack_pending_locked m (add_pending d q x))"
    using m by (auto simp: awaits_iff)
qed

lemma pending_upd_status [simp]: "li_pending (upd_status f x) = li_pending x"
  by (simp add: upd_status_def)

lemma awaits_cong: "li_pending x = li_pending y \<Longrightarrow> awaits d q x = awaits d q y"
  by (simp add: awaits_def)

lemma send_awaits:
  assumes "length (li_pending x) = LINK_PENDING_DEPTH" and "\<not> awaits (lm_destination m) (lm_sequence m) x"
    and "wants_ack (lm_type m) (lm_destination m)"
  shows "awaits (lm_destination m) (lm_sequence m) (send_effect m x)"
    and "lm_source a = lm_destination m \<Longrightarrow> lm_sequence a = lm_sequence m \<Longrightarrow>
      \<not> awaits (lm_destination m) (lm_sequence m) (link_ack_pending_locked a (send_effect m x))"
proof -
  define y where "y = upd_status (\<lambda>st. (st\<lparr>ls_last_error := ESP_OK\<rparr>)\<lparr>ls_tx_messages := ls_tx_messages st + 1\<rparr>)
                 (x\<lparr>li_next_sequence := next_sequence_after (li_next_sequence x)\<rparr>)"
  have y: "li_pending y = li_pending x" by (simp add: y_def)
  have e: "send_effect m x = add_pending (lm_destination m) (lm_sequence m) y"
    using assms(3) by (simp add: send_effect_def y_def Let_def)
  have pre: "length (li_pending y) = LINK_PENDING_DEPTH" "\<not> awaits (lm_destination m) (lm_sequence m) y"
    using assms y by (simp_all add: awaits_def)
  show "awaits (lm_destination m) (lm_sequence m) (send_effect m x)"
    unfolding e by (rule add_pending_awaits(1) [OF pre])
  show "\<not> awaits (lm_destination m) (lm_sequence m) (link_ack_pending_locked a (send_effect m x))"
    if "lm_source a = lm_destination m" "lm_sequence a = lm_sequence m"
    unfolding e by (rule add_pending_awaits(2) [OF pre that])
qed

text \<open>The sender's half of a delivery: send, then take the frame.\<close>

lemma send_then_take:
  assumes tx: "bounded_fifo txo tc td" and A: "link_at s n i rq tq"
    and type: "type \<in> {LINK_MESSAGE_TEXT, LINK_MESSAGE_BINARY}" and d: "d \<noteq> 0"
    and len: "length p \<le> LINK_PAYLOAD_MAX"
      "LINK_HEADER_SIZE + length p + LINK_CRC_SIZE \<le> li_frame_mtu (inst s i)"
    and queue: "tc tq = []" "0 < td tq" and m: "m = send_header (inst s i) type d p"
  shows "\<exists>s1 s2 tq2. solar_os_link_send txo True s (Some n) type d (Some p) (length p) (Some 0) =
        (ESP_OK, s1, Some (lm_sequence m))
    \<and> solar_os_link_take_tx txo True s1 (Some n) (Some []) = (ESP_OK, s2, Some (framed (message_body m)))
    \<and> link_at s2 n i rq tq2 \<and> inst s2 i = send_effect m (inst s i)"
proof -
  let ?f = "framed (message_body m)"
  obtain tq1 where s1: "q_send txo tq ?f = Some tq1" "tc tq1 = [?f]"
    using bounded_fifo.send_room [OF tx, of tq ?f] queue by auto
  let ?s1 = "link_after s i (send_effect m) rq tq1"
  have send: "solar_os_link_send txo True s (Some n) type d (Some p) (length p) (Some 0) =
      (ESP_OK, ?s1, Some (lm_sequence m))"
    using type d by (subst send_at [OF A _ _ _ len m s1(1)]) (auto simp: m send_header_def)
  have A1: "link_at ?s1 n i rq tq1"
    by (rule link_at_after [OF A]) (simp add: send_effect_def Let_def)
  obtain tq2 where t1: "q_receive txo tq1 = Some (?f, tq2)"
    using bounded_fifo.receive_head [OF tx s1(2)] by auto
  let ?s2 = "link_after ?s1 i (\<lambda>x. x) rq tq2"
  have "link_at ?s2 n i rq tq2" by (rule link_at_after [OF A1]) simp
  moreover have "inst ?s2 i = send_effect m (inst s i)"
    by (simp add: link_after_inst [OF A1] link_after_inst [OF A])
  ultimately show ?thesis using send take_at [OF A1 t1] by blast
qed

text \<open>The receiver's half: ingest the frame, read the message, take the acknowledgement.\<close>

lemma hear_then_read:
  assumes rx: "bounded_fifo rxo rc rd" and tx: "bounded_fifo txo tc td" and B: "link_at s n j rq tq"
    and dec: "solar_os_link_decode (Some f) (Some link_message_zero) = (ESP_OK, Some m)"
    and m: "lm_destination m = li_local_id (inst s j)" "lm_destination m \<noteq> LINK_BROADCAST"
      "lm_type m \<in> {LINK_MESSAGE_TEXT, LINK_MESSAGE_BINARY}" "lm_flags m AND LINK_FLAG_ACK_REQUESTED \<noteq> 0"
    and queues: "rc rq = []" "tc tq = []" "0 < rd rq" "0 < td tq"
    and fresh: "\<not> link_is_duplicate_locked (inst s j) m"
  shows "\<exists>s1 s2 s3. solar_os_link_ingest rxo txo True s (Some n) (Some f) (Some r0) = (ESP_OK, s1,
        Some \<lparr>ir_accepted = True, ir_duplicate = False, ir_acknowledgement = False, ir_message = m\<rparr>)
    \<and> solar_os_link_receive rxo True s1 (Some n) (Some m0) = (ESP_OK, s2, Some m)
    \<and> solar_os_link_take_tx txo True s2 (Some n) (Some []) =
        (ESP_OK, s3, Some (framed (message_body (ack_message (lm_destination m) m))))"
proof -
  let ?a = "framed (message_body (ack_message (lm_destination m) m))"
  obtain tq1 where ack: "q_send txo tq ?a = Some tq1" "tc tq1 = [?a]"
    using bounded_fifo.send_room [OF tx, of tq ?a] queues by auto
  let ?ev = "commit_effect m False (\<not> length (rc rq) < rd rq) (ack_result (Some tq1))"
  from ingest_data_at [where dup = False and q = "Some tq1" and txo = txo and ?r0.0 = r0, OF B rx _ _ dec]
  obtain rq1 where
    ing: "solar_os_link_ingest rxo txo True s (Some n) (Some f) (Some r0) =
      (ESP_OK, link_after s j ?ev rq1 tq1,
       Some \<lparr>ir_accepted = True, ir_duplicate = False, ir_acknowledgement = False, ir_message = m\<rparr>)"
    and rq1: "rc rq1 = [m]"
    using queues fresh m ack(1) by (auto simp: keep_newest_def)
  have B1: "link_at (link_after s j ?ev rq1 tq1) n j rq1 tq1"
    by (rule link_at_after [OF B]) (simp add: commit_effect_def Let_def)
  obtain rq2 where r: "q_receive rxo rq1 = Some (m, rq2)"
    using bounded_fifo.receive_head [OF rx rq1] by auto
  let ?s2 = "link_after (link_after s j ?ev rq1 tq1) j (\<lambda>x. x) rq2 tq1"
  have B2: "link_at ?s2 n j rq2 tq1" by (rule link_at_after [OF B1]) simp
  obtain tq2 where t: "q_receive txo tq1 = Some (?a, tq2)"
    using bounded_fifo.receive_head [OF tx ack(2)] by auto
  show ?thesis using ing receive_at [OF B1 r, of m0] take_at [OF B2 t, of "[]"] by blast
qed

text \<open>
  C11. End-to-end delivery with acknowledgement: a unicast text or binary message of at most the MTU,
  sent on one link and carried to another whose local id is the destination, is accepted there and
  received with its payload, source, type and sequence number; the receiver's link has queued the
  acknowledgement, and when that frame is carried back the sender's pending entry, made by the send,
  is cleared. All seven calls succeed. The queues start empty with room for one element, and the
  sequence number is neither remembered by the receiver nor already awaited by the sender.
\<close>

theorem link_delivery:
  assumes rx: "bounded_fifo rxo rc rd" and tx: "bounded_fifo txo tc td"
    and A: "link_at sA nA i rqA tqA" and B: "link_at sB nB j rqB tqB"
    and d: "d = li_local_id (lk_instances sB ! j)" "d \<noteq> 0" "d \<noteq> LINK_BROADCAST"
    and type: "type \<in> {LINK_MESSAGE_TEXT, LINK_MESSAGE_BINARY}"
    and len: "length p \<le> LINK_PAYLOAD_MAX"
      "LINK_HEADER_SIZE + length p + LINK_CRC_SIZE \<le> li_frame_mtu (lk_instances sA ! i)"
    and queues: "tc tqA = []" "rc rqB = []" "tc tqB = []" "0 < td tqA" "0 < rd rqB" "0 < td tqB"
    and m: "m = send_header (lk_instances sA ! i) type d p"
    and fresh: "\<not> link_is_duplicate_locked (lk_instances sB ! j) m"
      "\<not> awaits d (lm_sequence m) (lk_instances sA ! i)"
      "length (li_pending (lk_instances sA ! i)) = LINK_PENDING_DEPTH"
  shows "\<exists>sA1 f sA2 sB1 sB2 a sB3 sA3.
      solar_os_link_send txo True sA (Some nA) type d (Some p) (length p) (Some 0) =
        (ESP_OK, sA1, Some (lm_sequence m))
    \<and> solar_os_link_take_tx txo True sA1 (Some nA) (Some []) = (ESP_OK, sA2, Some f)
    \<and> solar_os_link_ingest rxo txo True sB (Some nB) (Some f) (Some r0) = (ESP_OK, sB1,
        Some \<lparr>ir_accepted = True, ir_duplicate = False, ir_acknowledgement = False, ir_message = m\<rparr>)
    \<and> solar_os_link_receive rxo True sB1 (Some nB) (Some m0) = (ESP_OK, sB2, Some m)
    \<and> solar_os_link_take_tx txo True sB2 (Some nB) (Some []) = (ESP_OK, sB3, Some a)
    \<and> solar_os_link_ingest rxo txo True sA2 (Some nA) (Some a) (Some r0) = (ESP_OK, sA3,
        Some \<lparr>ir_accepted = False, ir_duplicate = False, ir_acknowledgement = True,
              ir_message = ack_message d m\<rparr>)
    \<and> awaits d (lm_sequence m) (lk_instances sA2 ! i)
    \<and> \<not> awaits d (lm_sequence m) (lk_instances sA3 ! i)"
proof -
  have mf: "lm_destination m = d" "lm_type m = type" "lm_flags m = 1" "lm_source m = li_local_id (inst sA i)"
    using type d(3) by (auto simp: m send_header_def wants_ack_def link_type_requests_acknowledgement_def
        LINK_FLAG_ACK_REQUESTED_def)
  have wants: "wants_ack (lm_type m) (lm_destination m)"
    using type d(3) by (auto simp: mf wants_ack_def link_type_requests_acknowledgement_def)
  have enc: "encodable m"
    using type len(1) by (auto simp: m encodable_def send_header_def link_type_valid_def wants_ack_def
        link_type_requests_acknowledgement_def LINK_PROTOCOL_VERSION_def LINK_FLAG_ACK_REQUESTED_def)
  let ?f = "framed (message_body m)" and ?a = "framed (message_body (ack_message d m))"
  obtain sA1 sA2 tqA2 where
    send: "solar_os_link_send txo True sA (Some nA) type d (Some p) (length p) (Some 0) =
        (ESP_OK, sA1, Some (lm_sequence m))"
      "solar_os_link_take_tx txo True sA1 (Some nA) (Some []) = (ESP_OK, sA2, Some ?f)"
    and A2: "link_at sA2 nA i rqA tqA2" "inst sA2 i = send_effect m (inst sA i)"
    using send_then_take [OF tx A type d(2) len queues(1,4) m] by blast
  have "solar_os_link_decode (Some ?f) (Some link_message_zero) = (ESP_OK, Some m)"
    by (rule decode_message_body [OF enc]) (simp add: mf)
  note hear = hear_then_read [where ?m0.0 = m0 and ?r0.0 = r0, OF rx tx B this _ _ _ _ queues(2,3,5,6) fresh(1)]
  have heard: "\<exists>sB1 sB2 sB3. solar_os_link_ingest rxo txo True sB (Some nB) (Some ?f) (Some r0) = (ESP_OK, sB1,
        Some \<lparr>ir_accepted = True, ir_duplicate = False, ir_acknowledgement = False, ir_message = m\<rparr>)
    \<and> solar_os_link_receive rxo True sB1 (Some nB) (Some m0) = (ESP_OK, sB2, Some m)
    \<and> solar_os_link_take_tx txo True sB2 (Some nB) (Some []) = (ESP_OK, sB3, Some ?a)"
    using hear d type unfolding mf by (simp add: LINK_FLAG_ACK_REQUESTED_def)
  have lid: "li_local_id (inst sA2 i) = lm_source m"
    unfolding A2 mf by (simp add: send_effect_def Let_def add_pending_def link_pending_alloc_locked_def split: option.splits)
  have "solar_os_link_decode (Some ?a) (Some link_message_zero) = (ESP_OK, Some (ack_message d m))"
    by (rule decode_message_body [OF encodable_ack]) (simp add: ack_message_def)
  note ing2 = ingest_ack_at [OF A2(1) this, of rxo txo r0]
  let ?A3 = "link_after sA2 i (\<lambda>x. upd_status (\<lambda>st. st\<lparr>ls_last_error := ESP_OK\<rparr>)
      (link_ack_pending_locked (ack_message d m) x)) rqA tqA2"
  have i3: "li_pending (inst ?A3 i) = li_pending (link_ack_pending_locked (ack_message d m) (send_effect m (inst sA i)))"
    by (simp add: link_after_inst [OF A2(1)] A2(2))
  have "lm_source (ack_message d m) = d" "lm_sequence (ack_message d m) = lm_sequence m"
    by (simp_all add: ack_message_def)
  then have "awaits d (lm_sequence m) (inst sA2 i) \<and> \<not> awaits d (lm_sequence m) (inst ?A3 i)"
    unfolding awaits_cong [OF i3] using send_awaits [OF fresh(3), of m] fresh(2) wants
    by (simp add: A2(2) mf(1))
  then show ?thesis using send heard ing2 lid by (auto simp: ack_message_def)
qed

definition demo_peer :: demo_state where
  "demo_peer = snd (solar_os_link_create list_queue_ops list_queue_ops True True True link_boot
     (Some ''mesh'') 9 64)"

lemma demo_link_at: "link_at demo_boot ''lora'' 0 (4, []) (4, [])"
  by (simp add: link_at_def demo_link_eval list_queue_ops_def LINK_QUEUE_DEPTH_def)

lemma demo_peer_at: "link_at demo_peer ''mesh'' 0 (4, []) (4, [])"
  by (simp add: link_at_def demo_peer_def demo_link_eval list_queue_ops_def LINK_QUEUE_DEPTH_def)

lemma demo_peer_facts:
  "li_local_id (lk_instances demo_peer ! 0) = 9"
  "\<not> link_is_duplicate_locked (lk_instances demo_peer ! 0) m"
  "length (li_duplicates (lk_instances demo_peer ! 0)) = LINK_DUPLICATE_DEPTH"
  "li_duplicate_next (lk_instances demo_peer ! 0) = 0"
  "li_frame_mtu (lk_instances demo_boot ! 0) = 64"
  "length (li_pending (lk_instances demo_boot ! 0)) = LINK_PENDING_DEPTH"
  "\<not> awaits d q (lk_instances demo_boot ! 0)"
  by (simp_all add: demo_peer_def demo_link_eval link_is_duplicate_locked_def list_ex_iff
      duplicate_matches_def awaits_def)

definition demo_header :: link_message where
  "demo_header = send_header (lk_instances demo_boot ! 0) LINK_MESSAGE_TEXT 9 [104, 105]"

theorem link_delivery_witness:
  "\<exists>sA1 f sA2 sB1 sB2 a sB3 sA3.
      solar_os_link_send list_queue_ops True demo_boot (Some ''lora'') LINK_MESSAGE_TEXT 9
        (Some [104, 105]) (length [104 :: u8, 105]) (Some 0) = (ESP_OK, sA1, Some (lm_sequence demo_header))
    \<and> solar_os_link_take_tx list_queue_ops True sA1 (Some ''lora'') (Some []) = (ESP_OK, sA2, Some f)
    \<and> solar_os_link_ingest list_queue_ops list_queue_ops True demo_peer (Some ''mesh'') (Some f)
        (Some ingest_result_zero) = (ESP_OK, sB1,
        Some \<lparr>ir_accepted = True, ir_duplicate = False, ir_acknowledgement = False, ir_message = demo_header\<rparr>)
    \<and> solar_os_link_receive list_queue_ops True sB1 (Some ''mesh'') (Some link_message_zero)
        = (ESP_OK, sB2, Some demo_header)
    \<and> solar_os_link_take_tx list_queue_ops True sB2 (Some ''mesh'') (Some []) = (ESP_OK, sB3, Some a)
    \<and> solar_os_link_ingest list_queue_ops list_queue_ops True sA2 (Some ''lora'') (Some a)
        (Some ingest_result_zero) = (ESP_OK, sA3,
        Some \<lparr>ir_accepted = False, ir_duplicate = False, ir_acknowledgement = True,
              ir_message = ack_message 9 demo_header\<rparr>)
    \<and> awaits 9 (lm_sequence demo_header) (lk_instances sA2 ! 0)
    \<and> \<not> awaits 9 (lm_sequence demo_header) (lk_instances sA3 ! 0)"
  by (rule link_delivery [OF list_queue.bounded_fifo_axioms list_queue.bounded_fifo_axioms demo_link_at demo_peer_at])
     (simp_all only: demo_peer_facts demo_header_def, simp_all add: LINK_BROADCAST_def link_size_defs)

text \<open>An accepted message is the newest one the link remembers.\<close>

lemma accepted_is_remembered:
  assumes rx: "bounded_fifo rxo rc rd" and ready: "link_ready rc rd s n i lid rq tq"
    and dec: "solar_os_link_decode (Some fr) (Some link_message_zero) = (ESP_OK, Some m)"
    and dest: "lm_destination m = lid" "lid \<noteq> LINK_BROADCAST"
    and type: "lm_type m \<in> {LINK_MESSAGE_TEXT, LINK_MESSAGE_BINARY}"
    and flag: "lm_flags m AND LINK_FLAG_ACK_REQUESTED \<noteq> 0"
    and memory: "length (li_duplicates (inst s i)) = LINK_DUPLICATE_DEPTH"
    and accepted: "solar_os_link_ingest rxo txo True s (Some n) (Some fr) (Some r0) = (ESP_OK, s1, Some r)"
      "ir_accepted r"
    and wrap: "unat (li_duplicate_next (inst s i)) + k + 1 < 2 ^ 32"
  shows "remembered m 0 (inst s1 i)" and "unat (li_duplicate_next (inst s1 i)) + k < 2 ^ 32"
proof -
  have at: "link_at s n i rq tq" and cap: "0 < rd rq" "length (rc rq) \<le> rd rq"
    and lid: "li_local_id (inst s i) = lid" using ready by (simp_all add: link_ready_def)
  have t: "lm_type m \<noteq> LINK_MESSAGE_ACKNOWLEDGEMENT" "lm_type m \<noteq> LINK_MESSAGE_STREAM" using type by auto
  have d: "lm_destination m = li_local_id (inst s i)" "lm_destination m \<noteq> LINK_BROADCAST"
    using dest lid by simp_all
  let ?ev = "\<not> length (rc rq) < rd rq"
  define q where "q = q_send txo tq (framed (message_body (ack_message (li_local_id (inst s i)) m)))"
  define dup where "dup = link_is_duplicate_locked (inst s i) m"
  obtain rq1 where i1: "solar_os_link_ingest rxo txo True s (Some n) (Some fr) (Some r0) =
      (ESP_OK, link_after s i (commit_effect m dup ?ev (ack_result q)) rq1 (case q of None \<Rightarrow> tq | Some tq' \<Rightarrow> tq'),
       Some \<lparr>ir_accepted = (\<not> dup), ir_duplicate = dup, ir_acknowledgement = False, ir_message = m\<rparr>)"
    using ingest_data_at [OF at rx cap dec d t flag dup_def q_def] by blast
  then have "\<not> dup" using accepted by auto
  then have "s1 = link_after s i (commit_effect m False ?ev (ack_result q)) rq1 (case q of None \<Rightarrow> tq | Some tq' \<Rightarrow> tq')"
    using accepted(1) i1 by simp
  then have inst1: "inst s1 i = commit_effect m False ?ev (ack_result q) (inst s i)"
    by (simp only: link_after_inst(1) [OF at] simp_thms if_True)
  have same: "li_duplicates (inst s1 i) = li_duplicates (link_remember_locked m (inst s i))"
    "li_duplicate_next (inst s1 i) = li_duplicate_next (link_remember_locked m (inst s i))"
    unfolding inst1 by (simp_all add: commit_effect_def Let_def upd_status_def)
  show "remembered m 0 (inst s1 i)"
    using remember_remembers [OF memory, of m] wrap same by (simp add: remembered_def)
  show "unat (li_duplicate_next (inst s1 i)) + k < 2 ^ 32"
    using wrap next_no_wrap [of "li_duplicate_next (inst s i)"] same(2) by (simp add: link_remember_locked_def)
qed

text \<open>
  C12. Duplicate suppression: once a unicast message has been accepted, ingesting the same frame again
  is reported as a duplicate, leaves the receive queue as it is and queues the acknowledgement once
  more (when the transmit queue has room), even if up to eleven arbitrary other frames were ingested
  in between, as long as the free-running 32-bit index of the memory does not wrap in that time.
\<close>

theorem link_duplicates_suppressed:
  assumes rx: "bounded_fifo rxo rc rd" and ready: "link_ready rc rd s n i lid rq tq"
    and dec: "solar_os_link_decode (Some fr) (Some link_message_zero) = (ESP_OK, Some m)"
    and dest: "lm_destination m = lid" "lid \<noteq> LINK_BROADCAST"
    and type: "lm_type m \<in> {LINK_MESSAGE_TEXT, LINK_MESSAGE_BINARY}"
    and flag: "lm_flags m AND LINK_FLAG_ACK_REQUESTED \<noteq> 0"
    and memory: "length (li_duplicates (lk_instances s ! i)) = LINK_DUPLICATE_DEPTH"
    and accepted: "solar_os_link_ingest rxo txo True s (Some n) (Some fr) (Some r0) = (ESP_OK, s1, Some r)"
      "ir_accepted r"
    and others: "length frs < LINK_DUPLICATE_DEPTH"
      "unat (li_duplicate_next (lk_instances s ! i)) + length frs + 1 < 2 ^ 32"
  shows "\<exists>rq2 tq2 s3. link_ready rc rd (ingest_all rxo txo n s1 frs) n i lid rq2 tq2
    \<and> solar_os_link_ingest rxo txo True (ingest_all rxo txo n s1 frs) (Some n) (Some fr) (Some r0) =
        (ESP_OK, s3, Some \<lparr>ir_accepted = False, ir_duplicate = True, ir_acknowledgement = False, ir_message = m\<rparr>)
    \<and> (\<exists>rq3. rc rq3 = rc rq2 \<and> link_at s3 n i rq3
         (case q_send txo tq2 (framed (message_body (ack_message lid m))) of None \<Rightarrow> tq2 | Some tq' \<Rightarrow> tq'))"
proof -
  note rem = accepted_is_remembered [OF rx ready dec dest type flag memory accepted others(2)]
  have "s1 = fst (snd (solar_os_link_ingest rxo txo True s (Some n) (Some fr) (Some r0)))"
    using accepted(1) by simp
  then obtain rq1 tq1 where ready1: "link_ready rc rd s1 n i lid rq1 tq1"
    using ingest_ready [OF ready rx, of txo "Some fr" r0] by blast
  have "\<exists>rq' tq'. link_ready rc rd (ingest_all rxo txo n s1 frs) n i lid rq' tq'
      \<and> remembered m (0 + length frs) (inst (ingest_all rxo txo n s1 frs) i)"
    using others(1) rem(2) by (intro ingest_all_remembers [OF ready1 rx rem(1)]) simp_all
  then obtain rq2 tq2 where
    ready2: "link_ready rc rd (ingest_all rxo txo n s1 frs) n i lid rq2 tq2"
    and rem2: "remembered m (length frs) (inst (ingest_all rxo txo n s1 frs) i)" by auto
  let ?s2 = "ingest_all rxo txo n s1 frs"
  have at2: "link_at ?s2 n i rq2 tq2" and cap2: "0 < rd rq2" "length (rc rq2) \<le> rd rq2"
    and d2: "lm_destination m = li_local_id (inst ?s2 i)"
    using ready2 dest by (simp_all add: link_ready_def)
  have t: "lm_type m \<noteq> LINK_MESSAGE_ACKNOWLEDGEMENT" "lm_type m \<noteq> LINK_MESSAGE_STREAM" using type by auto
  have bc: "lm_destination m \<noteq> LINK_BROADCAST" using dest by simp
  have dup2: "True = link_is_duplicate_locked (inst ?s2 i) m" using remembered_duplicate [OF rem2] by simp
  let ?q2 = "q_send txo tq2 (framed (message_body (ack_message (li_local_id (inst ?s2 i)) m)))"
  obtain rq3 where i3: "solar_os_link_ingest rxo txo True ?s2 (Some n) (Some fr) (Some r0) =
      (ESP_OK, link_after ?s2 i (commit_effect m True (\<not> length (rc rq2) < rd rq2) (ack_result ?q2)) rq3
          (case ?q2 of None \<Rightarrow> tq2 | Some tq' \<Rightarrow> tq'),
       Some \<lparr>ir_accepted = (\<not> True), ir_duplicate = True, ir_acknowledgement = False, ir_message = m\<rparr>)"
    and rq3: "rc rq3 = rc rq2"
    using ingest_data_at [OF at2 rx cap2 dec d2 bc t flag dup2 refl] by auto
  have "link_at (link_after ?s2 i (commit_effect m True (\<not> length (rc rq2) < rd rq2) (ack_result ?q2)) rq3
      (case ?q2 of None \<Rightarrow> tq2 | Some tq' \<Rightarrow> tq')) n i rq3 (case ?q2 of None \<Rightarrow> tq2 | Some tq' \<Rightarrow> tq')"
    by (rule link_at_after [OF at2]) (simp add: commit_effect_def Let_def)
  then show ?thesis
    using ready2 i3 rq3 d2 dest(1) by (intro exI [of _ rq2] exI [of _ tq2]) auto
qed

lemma demo_peer_ready: "link_ready snd fst demo_peer ''mesh'' 0 9 (4, []) (4, [])"
  by (simp add: link_ready_def demo_peer_at demo_peer_facts)

lemma demo_header_fields:
  "lm_destination demo_header = 9" "lm_type demo_header = LINK_MESSAGE_TEXT" "lm_flags demo_header = 1"
  "encodable demo_header"
  by (simp_all add: demo_header_def send_header_def wants_ack_def link_type_requests_acknowledgement_def
      LINK_BROADCAST_def LINK_FLAG_ACK_REQUESTED_def encodable_def LINK_PROTOCOL_VERSION_def
      link_type_valid_def link_size_defs)

lemma demo_header_decode:
  "solar_os_link_decode (Some (framed (message_body demo_header))) (Some link_message_zero) = (ESP_OK, Some demo_header)"
  by (rule decode_message_body) (simp_all add: demo_header_fields)

theorem link_duplicates_suppressed_witness:
  "\<exists>s1 s3. fst (solar_os_link_ingest list_queue_ops list_queue_ops True demo_peer (Some ''mesh'')
        (Some (framed (message_body demo_header))) (Some ingest_result_zero)) = ESP_OK
    \<and> solar_os_link_ingest list_queue_ops list_queue_ops True
        (ingest_all list_queue_ops list_queue_ops ''mesh'' s1 [[1, 2, 3], []]) (Some ''mesh'')
        (Some (framed (message_body demo_header))) (Some ingest_result_zero) =
        (ESP_OK, s3, Some \<lparr>ir_accepted = False, ir_duplicate = True, ir_acknowledgement = False,
                           ir_message = demo_header\<rparr>)"
proof -
  let ?fr = "framed (message_body demo_header)"
  have d: "lm_destination demo_header = li_local_id (lk_instances demo_peer ! 0)"
    "lm_destination demo_header \<noteq> LINK_BROADCAST"
    by (simp_all add: demo_header_fields demo_peer_facts LINK_BROADCAST_def)
  obtain s1 r where i: "solar_os_link_ingest list_queue_ops list_queue_ops True demo_peer (Some ''mesh'')
      (Some ?fr) (Some ingest_result_zero) = (ESP_OK, s1, Some r)" "ir_accepted r"
    using ingest_data_at [where dup = False and txo = list_queue_ops and ?r0.0 = ingest_result_zero,
        OF demo_peer_at list_queue.bounded_fifo_axioms _ _ demo_header_decode d]
    by (auto simp: demo_header_fields demo_peer_facts LINK_FLAG_ACK_REQUESTED_def)
  from link_duplicates_suppressed [where frs = "[[1, 2, 3], []]", OF list_queue.bounded_fifo_axioms
      demo_peer_ready demo_header_decode _ _ _ _ _ i]
  have "\<exists>s3. solar_os_link_ingest list_queue_ops list_queue_ops True
        (ingest_all list_queue_ops list_queue_ops ''mesh'' s1 [[1, 2, 3], []]) (Some ''mesh'')
        (Some ?fr) (Some ingest_result_zero) =
        (ESP_OK, s3, Some \<lparr>ir_accepted = False, ir_duplicate = True, ir_acknowledgement = False,
                           ir_message = demo_header\<rparr>)"
    by (auto simp: demo_header_fields demo_peer_facts LINK_FLAG_ACK_REQUESTED_def LINK_BROADCAST_def
        LINK_DUPLICATE_DEPTH_def)
  with i show ?thesis by auto
qed

text \<open>
  A frame that does not decode (wrong size, checksum, version or type) has no effect but a
  diagnosis: ingest returns the decoder's error with an all-zero result, counts a CRC error or a drop,
  and leaves the queues, the pending acknowledgements, the duplicate memory, the sequence number and
  every other link untouched.
\<close>

theorem link_ingest_undecodable:
  assumes at: "link_at s n i rq tq"
    and bad: "solar_os_link_decode fr (Some link_message_zero) = (err, cell)" "err \<noteq> ESP_OK"
  shows "\<exists>s'. solar_os_link_ingest rxo txo True s (Some n) fr (Some r0) = (err, s', Some ingest_result_zero)
    \<and> link_at s' n i rq tq
    \<and> (\<forall>j. j \<noteq> i \<longrightarrow> lk_instances s' ! j = lk_instances s ! j)
    \<and> (let x = lk_instances s ! i; y = lk_instances s' ! i
       in y = x\<lparr>li_status := li_status y\<rparr> \<and> ls_last_error (li_status y) = err
        \<and> ls_crc_errors (li_status y) = ls_crc_errors (li_status x) + (if err = ESP_ERR_INVALID_CRC then 1 else 0)
        \<and> ls_dropped (li_status y) = ls_dropped (li_status x) + (if err = ESP_ERR_INVALID_CRC then 0 else 1)
        \<and> ls_rx_messages (li_status y) = ls_rx_messages (li_status x))"
proof (intro exI conjI)
  let ?s = "link_after s i (reject_effect err) rq tq"
  show "solar_os_link_ingest rxo txo True s (Some n) fr (Some r0) = (err, ?s, Some ingest_result_zero)"
    by (rule ingest_reject_at [OF at bad])
  show "link_at ?s n i rq tq"
    by (rule link_at_after [OF at]) (simp add: reject_effect_def)
  show "\<forall>j. j \<noteq> i \<longrightarrow> lk_instances ?s ! j = lk_instances s ! j"
    by (simp add: link_after_inst [OF at])
  show "let x = lk_instances s ! i; y = lk_instances ?s ! i
       in y = x\<lparr>li_status := li_status y\<rparr> \<and> ls_last_error (li_status y) = err
        \<and> ls_crc_errors (li_status y) = ls_crc_errors (li_status x) + (if err = ESP_ERR_INVALID_CRC then 1 else 0)
        \<and> ls_dropped (li_status y) = ls_dropped (li_status x) + (if err = ESP_ERR_INVALID_CRC then 0 else 1)
        \<and> ls_rx_messages (li_status y) = ls_rx_messages (li_status x)"
    by (simp add: link_after_inst [OF at] reject_effect_def upd_status_def Let_def)
qed

theorem link_ingest_undecodable_witness:
  "\<exists>s'. solar_os_link_ingest list_queue_ops list_queue_ops True demo_boot (Some ''lora'') (Some [1, 2])
      (Some ingest_result_zero) = (ESP_ERR_INVALID_SIZE, s', Some ingest_result_zero)
    \<and> ls_dropped (li_status (lk_instances s' ! 0)) = 1"
proof -
  have "solar_os_link_decode (Some [1, 2]) (Some link_message_zero) = (ESP_ERR_INVALID_SIZE, Some link_message_zero)"
    by (simp add: solar_os_link_decode_def link_size_defs)
  from link_ingest_undecodable [OF demo_link_at this, of list_queue_ops list_queue_ops ingest_result_zero]
  have "\<exists>s'. solar_os_link_ingest list_queue_ops list_queue_ops True demo_boot (Some ''lora'') (Some [1, 2])
      (Some ingest_result_zero) = (ESP_ERR_INVALID_SIZE, s', Some ingest_result_zero)
    \<and> ls_dropped (li_status (lk_instances s' ! 0)) = ls_dropped (li_status (lk_instances demo_boot ! 0)) + 1"
    by (auto simp: Let_def)
  moreover have "ls_dropped (li_status (lk_instances demo_boot ! 0)) = 0"
    by (simp add: demo_link_eval link_status_zero_def)
  ultimately show ?thesis by simp
qed

end
