(* ===== verification/LinkRepeater.thy ===== *)
theory LinkRepeater
  imports LinkCodec
begin

text \<open>
  The link repeater, \<open>src/src/services/solar_os_link_repeater.c\<close>, and the part of the radio link job
  that drives it, \<open>src/src/jobs/solar_os_radio_link_job.c\<close>: frames heard on the radio are queued with
  a random delay and sent once more with the RELAYED flag, unless another repeater was faster, the
  message was acknowledged, or its identity is in the cache. Times are wrapping 32-bit milliseconds;
  the clock, the random number and the outcome of the radio driver's send are arguments.
\<close>

unbundle bit_operations_syntax

section \<open>State\<close>

record repeater_identity =
  id_source :: u32
  id_destination :: u32
  id_sequence :: u16
  id_type :: u8

record repeater_pending =
  rp_identity :: repeater_identity
  rp_frame :: link_frame
  rp_due_ms :: u32
  rp_active :: bool

record repeater_cache_entry =
  ce_identity :: repeater_identity
  ce_expires_ms :: u32
  ce_active :: bool

record link_repeater =
  re_local_id :: u32
  re_pending :: "repeater_pending list"
  re_cache :: "repeater_cache_entry list"
  re_cache_next :: u32
  re_repeated :: u32
  re_suppressed :: u32
  re_queue_drops :: u32
  re_invalid_frames :: u32

record repeater_status =
  rst_queued :: nat
  rst_repeated :: u32
  rst_suppressed :: u32
  rst_queue_drops :: u32
  rst_invalid_frames :: u32

datatype observe_result =
    REPEATER_IGNORED
  | REPEATER_QUEUED
  | REPEATER_SUPPRESSED
  | REPEATER_DROPPED

definition REPEATER_PENDING_MAX :: nat where
  "REPEATER_PENDING_MAX = 4"

definition REPEATER_CACHE_MAX :: nat where
  "REPEATER_CACHE_MAX = 16"

definition REPEATER_DELAY_MIN_MS :: u32 where
  "REPEATER_DELAY_MIN_MS = 80"

definition REPEATER_DELAY_JITTER_MS :: u32 where
  "REPEATER_DELAY_JITTER_MS = 120"

definition REPEATER_CACHE_TTL_MS :: u32 where
  "REPEATER_CACHE_TTL_MS = 60000"

definition identity_zero :: repeater_identity where
  "identity_zero = \<lparr>id_source = 0, id_destination = 0, id_sequence = 0, id_type = 0\<rparr>"

definition pending_zero :: repeater_pending where
  "pending_zero = \<lparr>rp_identity = identity_zero, rp_frame = [], rp_due_ms = 0, rp_active = False\<rparr>"

definition cache_zero :: repeater_cache_entry where
  "cache_zero = \<lparr>ce_identity = identity_zero, ce_expires_ms = 0, ce_active = False\<rparr>"

definition link_repeater_zero :: link_repeater where
  "link_repeater_zero = \<lparr>re_local_id = 0, re_pending = replicate REPEATER_PENDING_MAX pending_zero,
     re_cache = replicate REPEATER_CACHE_MAX cache_zero, re_cache_next = 0, re_repeated = 0,
     re_suppressed = 0, re_queue_drops = 0, re_invalid_frames = 0\<rparr>"

definition link_message_empty :: link_message where
  "link_message_empty = \<lparr>lm_version = 0, lm_flags = 0, lm_type = LINK_MESSAGE_OTHER 0,
     lm_sequence = 0, lm_source = 0, lm_destination = 0, lm_payload = []\<rparr>"

section \<open>The repeater\<close>

definition repeater_time_reached :: "u32 \<Rightarrow> u32 \<Rightarrow> bool" where
  "repeater_time_reached now_ms deadline_ms \<longleftrightarrow> 0 \<le> sint (now_ms - deadline_ms)"

definition message_identity :: "link_message \<Rightarrow> repeater_identity" where
  "message_identity m = \<lparr>id_source = lm_source m, id_destination = lm_destination m,
     id_sequence = lm_sequence m, id_type = type_byte (lm_type m)\<rparr>"

definition repeater_identity_equal :: "repeater_identity \<Rightarrow> repeater_identity \<Rightarrow> bool" where
  "repeater_identity_equal left right \<longleftrightarrow>
     id_source left = id_source right \<and> id_destination left = id_destination right
     \<and> id_sequence left = id_sequence right \<and> id_type left = id_type right"

definition repeater_cache_prune :: "u32 \<Rightarrow> repeater_cache_entry list \<Rightarrow> repeater_cache_entry list" where
  "repeater_cache_prune now_ms cache =
     map (\<lambda>e. if ce_active e \<and> repeater_time_reached now_ms (ce_expires_ms e)
              then e\<lparr>ce_active := False\<rparr> else e) cache"

definition cache_matches :: "repeater_identity \<Rightarrow> repeater_cache_entry \<Rightarrow> bool" where
  "cache_matches identity e \<longleftrightarrow> ce_active e \<and> repeater_identity_equal (ce_identity e) identity"

definition repeater_cache_contains :: "repeater_cache_entry list \<Rightarrow> repeater_identity \<Rightarrow> bool" where
  "repeater_cache_contains cache identity \<longleftrightarrow> list_ex (cache_matches identity) cache"

text \<open>The slot: the entry of the same identity, else the first free one, else round robin.\<close>

definition repeater_cache_remember ::
  "link_repeater \<Rightarrow> repeater_identity \<Rightarrow> u32 \<Rightarrow> link_repeater" where
  "repeater_cache_remember r identity now_ms =
     (let entry = \<lparr>ce_identity = identity, ce_expires_ms = now_ms + REPEATER_CACHE_TTL_MS, ce_active = True\<rparr>
      in case first_index (cache_matches identity) (re_cache r) of
           Some i \<Rightarrow> r\<lparr>re_cache := (re_cache r)[i := entry]\<rparr>
         | None \<Rightarrow>
             (case first_index (\<lambda>e. \<not> ce_active e) (re_cache r) of
                Some i \<Rightarrow> r\<lparr>re_cache := (re_cache r)[i := entry]\<rparr>
              | None \<Rightarrow> r\<lparr>re_cache := (re_cache r)[unat (re_cache_next r) mod REPEATER_CACHE_MAX := entry],
                          re_cache_next := re_cache_next r + 1\<rparr>))"

definition deactivate_first ::
  "(repeater_pending \<Rightarrow> bool) \<Rightarrow> link_repeater \<Rightarrow> bool \<times> link_repeater" where
  "deactivate_first P r =
     (case first_index P (re_pending r) of
        None \<Rightarrow> (False, r)
      | Some i \<Rightarrow> (True, r\<lparr>re_pending := (re_pending r)[i := (re_pending r ! i)\<lparr>rp_active := False\<rparr>]\<rparr>))"

definition repeater_cancel_identity :: "link_repeater \<Rightarrow> repeater_identity \<Rightarrow> bool \<times> link_repeater" where
  "repeater_cancel_identity r identity =
     deactivate_first (\<lambda>p. rp_active p \<and> repeater_identity_equal (rp_identity p) identity) r"

definition repeater_cancel_acknowledged :: "link_repeater \<Rightarrow> link_message \<Rightarrow> bool \<times> link_repeater" where
  "repeater_cancel_acknowledged r m =
     (if lm_type m \<noteq> LINK_MESSAGE_ACKNOWLEDGEMENT then (False, r)
      else deactivate_first
             (\<lambda>p. rp_active p
                \<and> \<not> (id_type (rp_identity p) \<noteq> type_byte LINK_MESSAGE_TEXT
                     \<and> id_type (rp_identity p) \<noteq> type_byte LINK_MESSAGE_BINARY)
                \<and> id_source (rp_identity p) = lm_destination m
                \<and> id_destination (rp_identity p) = lm_source m
                \<and> id_sequence (rp_identity p) = lm_sequence m) r)"

definition solar_os_link_repeater_reset :: "link_repeater option \<Rightarrow> u32 \<Rightarrow> link_repeater option" where
  "solar_os_link_repeater_reset repeater local_id =
     map_option (\<lambda>_. link_repeater_zero\<lparr>re_local_id := local_id\<rparr>) repeater"

definition suppressed_inc :: "link_repeater \<Rightarrow> link_repeater" where
  "suppressed_inc r = r\<lparr>re_suppressed := re_suppressed r + 1\<rparr>"

text \<open>The first part of an observation: expire the cache, cancel what an acknowledgement settles.\<close>

definition observe_start :: "link_repeater \<Rightarrow> link_message \<Rightarrow> u32 \<Rightarrow> link_repeater" where
  "observe_start r m now_ms =
     (let (cancelled, r2) = repeater_cancel_acknowledged
            (r\<lparr>re_cache := repeater_cache_prune now_ms (re_cache r)\<rparr>) m
      in if cancelled then suppressed_inc r2 else r2)"

definition new_pending :: "link_message \<Rightarrow> link_frame \<Rightarrow> u32 \<Rightarrow> u32 \<Rightarrow> repeater_pending" where
  "new_pending m f now_ms random_value =
     (let delay_ms = REPEATER_DELAY_MIN_MS + random_value mod (REPEATER_DELAY_JITTER_MS + 1)
      in \<lparr>rp_identity = message_identity m, rp_frame = f, rp_due_ms = now_ms + delay_ms,
          rp_active = True\<rparr>)"

definition solar_os_link_repeater_observe ::
  "link_repeater option \<Rightarrow> link_message option \<Rightarrow> link_frame option \<Rightarrow> u32 \<Rightarrow> u32
   \<Rightarrow> observe_result \<times> link_repeater option" where
  "solar_os_link_repeater_observe repeater message frame now_ms random_value =
     (case (repeater, message, frame) of
        (Some r, Some m, Some f) \<Rightarrow>
          if length f = 0 \<or> LINK_FRAME_MAX < length f then (REPEATER_IGNORED, repeater)
          else
            let r3 = observe_start r m now_ms
            in if lm_source m = 0 \<or> lm_source m = re_local_id r3
                  \<or> lm_destination m = 0 \<or> lm_destination m = re_local_id r3
               then (REPEATER_IGNORED, Some r3)
               else
                 let identity = message_identity m
                 in if lm_flags m AND LINK_FLAG_RELAYED \<noteq> 0
                    then let r4 = snd (repeater_cancel_identity r3 identity)
                         in (REPEATER_SUPPRESSED,
                             Some (suppressed_inc (repeater_cache_remember r4 identity now_ms)))
                    else if repeater_cache_contains (re_cache r3) identity
                    then (REPEATER_SUPPRESSED, Some (suppressed_inc r3))
                    else (case first_index (\<lambda>p. \<not> rp_active p) (re_pending r3) of
                            None \<Rightarrow> (REPEATER_DROPPED, Some (r3\<lparr>re_queue_drops := re_queue_drops r3 + 1\<rparr>))
                          | Some i \<Rightarrow>
                              let r4 = repeater_cache_remember r3 identity now_ms
                              in (REPEATER_QUEUED,
                                  Some (r4\<lparr>re_pending := (re_pending r4)[i := new_pending m f now_ms random_value]\<rparr>)))
      | _ \<Rightarrow> (REPEATER_IGNORED, repeater))"

definition solar_os_link_repeater_take_due ::
  "link_repeater option \<Rightarrow> u32 \<Rightarrow> link_frame option \<Rightarrow> bool \<times> link_repeater option \<times> link_frame option" where
  "solar_os_link_repeater_take_due repeater now_ms frame =
     (case (repeater, frame) of
        (Some r, Some old) \<Rightarrow>
          (case first_index (\<lambda>p. rp_active p \<and> repeater_time_reached now_ms (rp_due_ms p)) (re_pending r) of
             None \<Rightarrow> (False, repeater, frame)
           | Some i \<Rightarrow>
               (True,
                Some (r\<lparr>re_pending := (re_pending r)[i := (re_pending r ! i)\<lparr>rp_active := False\<rparr>]\<rparr>),
                Some (rp_frame (re_pending r ! i))))
      | _ \<Rightarrow> (False, repeater, frame))"

definition solar_os_link_repeater_note_transmit :: "link_repeater option \<Rightarrow> bool \<Rightarrow> link_repeater option" where
  "solar_os_link_repeater_note_transmit repeater success =
     map_option (\<lambda>r. if success then r\<lparr>re_repeated := re_repeated r + 1\<rparr> else r) repeater"

definition solar_os_link_repeater_note_invalid :: "link_repeater option \<Rightarrow> link_repeater option" where
  "solar_os_link_repeater_note_invalid repeater =
     map_option (\<lambda>r. r\<lparr>re_invalid_frames := re_invalid_frames r + 1\<rparr>) repeater"

definition solar_os_link_repeater_get_status ::
  "link_repeater option \<Rightarrow> repeater_status option \<Rightarrow> repeater_status option" where
  "solar_os_link_repeater_get_status repeater status =
     (case (repeater, status) of
        (Some r, Some _) \<Rightarrow>
          Some \<lparr>rst_queued = length (filter rp_active (re_pending r)), rst_repeated = re_repeated r,
                rst_suppressed = re_suppressed r, rst_queue_drops = re_queue_drops r,
                rst_invalid_frames = re_invalid_frames r\<rparr>
      | _ \<Rightarrow> status)"

section \<open>The radio link job\<close>

record radio_link_job =
  rj_repeater_enabled :: bool
  rj_repeater :: link_repeater
  rj_last_error :: esp_err
  rj_transmitted :: u32
  rj_transmit_errors :: u32

text \<open>
  The local messages and frames of the job are never NULL. \<open>send_ret\<close> is what the radio driver
  answers; the third component is the packet handed to the driver, if any.
\<close>

definition radio_link_send_repeater_frame ::
  "radio_link_job \<Rightarrow> u32 \<Rightarrow> esp_err \<Rightarrow> bool \<times> radio_link_job \<times> link_frame option" where
  "radio_link_send_repeater_frame s now_ms send_ret =
     (if \<not> rj_repeater_enabled s then (False, s, None)
      else (case solar_os_link_repeater_take_due (Some (rj_repeater s)) now_ms (Some []) of
              (False, _, _) \<Rightarrow> (False, s, None)
            | (True, r, received) \<Rightarrow>
                let (ret0, decoded) = solar_os_link_decode received (Some link_message_empty);
                    (ret1, relayed) =
                      (if ret0 = ESP_OK
                       then solar_os_link_encode
                              (map_option (\<lambda>m. m\<lparr>lm_flags := lm_flags m OR LINK_FLAG_RELAYED\<rparr>) decoded)
                              (Some [])
                       else (ret0, Some []));
                    r1 = (if ret1 = ESP_OK then r else solar_os_link_repeater_note_invalid r);
                    ret = (if ret1 = ESP_OK then send_ret else ret1);
                    r2 = solar_os_link_repeater_note_transmit r1 (ret = ESP_OK);
                    s1 = s\<lparr>rj_repeater := the r2, rj_last_error := ret\<rparr>;
                    s2 = (if ret = ESP_OK then s1\<lparr>rj_transmitted := rj_transmitted s1 + 1\<rparr>
                          else s1\<lparr>rj_transmit_errors := rj_transmit_errors s1 + 1\<rparr>)
                in (True, s2, if ret1 = ESP_OK then relayed else None)))"

definition radio_link_observe_repeater_frame ::
  "radio_link_job \<Rightarrow> u8 list option \<Rightarrow> u32 \<Rightarrow> u32 \<Rightarrow> radio_link_job" where
  "radio_link_observe_repeater_frame s packet now_ms random_value =
     (if \<not> rj_repeater_enabled s \<or> packet = None then s
      else (case solar_os_link_decode packet (Some link_message_empty) of
              (ret, decoded) \<Rightarrow>
                if ret \<noteq> ESP_OK
                then s\<lparr>rj_repeater := the (solar_os_link_repeater_note_invalid (Some (rj_repeater s)))\<rparr>
                else s\<lparr>rj_repeater := the (snd (solar_os_link_repeater_observe (Some (rj_repeater s))
                       decoded packet now_ms random_value))\<rparr>))"

section \<open>Arguments of the job\<close>

text \<open>\<open>None\<close> is the NULL value pointer or text; the value after a failure is not used.\<close>

definition parse_on_off :: "string option \<Rightarrow> bool option" where
  "parse_on_off text =
     (case text of
        None \<Rightarrow> None
      | Some t \<Rightarrow> if t = ''on'' then Some True else if t = ''off'' then Some False else None)"

record link_options =
  lo_inbox :: "bool option"
  lo_chat :: "bool option"
  lo_repeater :: "bool option"

definition strip_prefix :: "string \<Rightarrow> string \<Rightarrow> string option" where
  "strip_prefix prefix s = (if take (length prefix) s = prefix then Some (drop (length prefix) s) else None)"

text \<open>The option loop: an option is \<open>None\<close> until it was seen.\<close>

fun parse_link_options :: "string list \<Rightarrow> link_options \<Rightarrow> link_options option" where
  "parse_link_options [] opts = Some opts"
| "parse_link_options (a # args) opts =
     (case strip_prefix ''inbox='' a of
        Some v \<Rightarrow>
          if lo_inbox opts \<noteq> None then None
          else (case parse_on_off (Some v) of
                  None \<Rightarrow> None
                | b \<Rightarrow> parse_link_options args (opts\<lparr>lo_inbox := b\<rparr>))
      | None \<Rightarrow>
     (case strip_prefix ''chat='' a of
        Some v \<Rightarrow>
          if lo_chat opts \<noteq> None then None
          else (case parse_on_off (Some v) of
                  None \<Rightarrow> None
                | b \<Rightarrow> parse_link_options args (opts\<lparr>lo_chat := b\<rparr>))
      | None \<Rightarrow>
     (case strip_prefix ''repeater='' a of
        Some v \<Rightarrow>
          if lo_repeater opts \<noteq> None then None
          else (case parse_on_off (Some v) of
                  None \<Rightarrow> None
                | b \<Rightarrow> parse_link_options args (opts\<lparr>lo_repeater := b\<rparr>))
      | None \<Rightarrow> None)))"

definition parse_args :: "string \<Rightarrow> string list \<Rightarrow> (string \<times> string \<times> string \<times> bool \<times> bool \<times> bool) option" where
  "parse_args job_name argv =
     (let first = (if argv \<noteq> [] \<and> argv ! 0 = job_name then 1 else 0)
      in if length argv - first < 3 \<or> 6 < length argv - first then None
         else (case parse_link_options (drop (first + 3) argv)
                      \<lparr>lo_inbox = None, lo_chat = None, lo_repeater = None\<rparr> of
                 None \<Rightarrow> None
               | Some opts \<Rightarrow>
                   let inbox = (lo_inbox opts = Some True); chat = (lo_chat opts = Some True);
                       repeater = (lo_repeater opts = Some True)
                   in if inbox \<and> chat then None
                      else Some (argv ! first, argv ! (first + 1), argv ! (first + 2), inbox, chat, repeater)))"

section \<open>Basic facts\<close>

lemma identity_equal_iff: "repeater_identity_equal a b \<longleftrightarrow> a = b"
  by (cases a; cases b) (simp add: repeater_identity_equal_def)

text \<open>What a queued frame is: the frame of a message to somebody else, not relayed yet.\<close>

definition relayable :: "u32 \<Rightarrow> link_message \<Rightarrow> bool" where
  "relayable local_id m \<longleftrightarrow>
     lm_source m \<notin> {0, local_id} \<and> lm_destination m \<notin> {0, local_id}
     \<and> lm_flags m AND LINK_FLAG_RELAYED = 0"

definition pending_ok :: "u32 \<Rightarrow> repeater_pending \<Rightarrow> bool" where
  "pending_ok local_id p \<longleftrightarrow> (rp_active p \<longrightarrow>
     (\<exists>m. solar_os_link_decode (Some (rp_frame p)) (Some link_message_empty) = (ESP_OK, Some m)
        \<and> rp_identity p = message_identity m \<and> relayable local_id m))"

definition repeater_inv :: "u32 \<Rightarrow> link_repeater \<Rightarrow> bool" where
  "repeater_inv local_id r \<longleftrightarrow>
     re_local_id r = local_id \<and> length (re_pending r) = REPEATER_PENDING_MAX
     \<and> length (re_cache r) = REPEATER_CACHE_MAX \<and> (\<forall>p \<in> set (re_pending r). pending_ok local_id p)"

lemma remember_fields [simp]:
  "re_pending (repeater_cache_remember r i t) = re_pending r"
  "re_local_id (repeater_cache_remember r i t) = re_local_id r"
  "length (re_cache (repeater_cache_remember r i t)) = length (re_cache r)"
  "re_pending (suppressed_inc r) = re_pending r"
  "re_local_id (suppressed_inc r) = re_local_id r"
  "re_cache (suppressed_inc r) = re_cache r"
  "re_cache_next (suppressed_inc r) = re_cache_next r"
  by (simp_all add: repeater_cache_remember_def suppressed_inc_def Let_def split: option.splits)

lemma prune_length [simp]: "length (repeater_cache_prune t c) = length c"
  by (simp add: repeater_cache_prune_def)

lemma deactivate_first_fields:
  assumes "deactivate_first P r = (b, r')"
  shows "re_cache r' = re_cache r" and "re_local_id r' = re_local_id r" and "re_cache_next r' = re_cache_next r"
    and "length (re_pending r') = length (re_pending r)"
    and "p \<in> set (re_pending r') \<Longrightarrow> p \<in> set (re_pending r) \<or> \<not> rp_active p"
    and "re_suppressed r' = re_suppressed r"
  using assms set_update_subset_insert
  by (fastforce simp: deactivate_first_def split: option.splits)+

lemma cancel_acknowledged_deactivates:
  assumes "repeater_cancel_acknowledged r m = (b, r')"
  shows "\<exists>P. deactivate_first P r = (b, r')"
proof (cases "lm_type m = LINK_MESSAGE_ACKNOWLEDGEMENT")
  case True
  then show ?thesis using assms by (auto simp: repeater_cancel_acknowledged_def)
next
  case False
  then show ?thesis using assms
    by (intro exI [of _ "\<lambda>_. False"])
       (simp add: repeater_cancel_acknowledged_def deactivate_first_def first_index_None
         [THEN iffD2] )
qed

lemma observe_start_fields:
  "re_cache (observe_start r m t) = repeater_cache_prune t (re_cache r)"
  "re_local_id (observe_start r m t) = re_local_id r"
  "re_cache_next (observe_start r m t) = re_cache_next r"
  "length (re_pending (observe_start r m t)) = length (re_pending r)"
  "p \<in> set (re_pending (observe_start r m t)) \<Longrightarrow> p \<in> set (re_pending r) \<or> \<not> rp_active p"
proof -
  let ?r1 = "r\<lparr>re_cache := repeater_cache_prune t (re_cache r)\<rparr>"
  obtain b r2 where c: "repeater_cancel_acknowledged ?r1 m = (b, r2)" by fastforce
  obtain P where d: "deactivate_first P ?r1 = (b, r2)" using cancel_acknowledged_deactivates [OF c] by blast
  note f = deactivate_first_fields [OF d]
  have eq: "observe_start r m t = (if b then suppressed_inc r2 else r2)"
    by (simp add: observe_start_def c)
  show "re_cache (observe_start r m t) = repeater_cache_prune t (re_cache r)"
    "re_local_id (observe_start r m t) = re_local_id r"
    "re_cache_next (observe_start r m t) = re_cache_next r"
    "length (re_pending (observe_start r m t)) = length (re_pending r)"
    "p \<in> set (re_pending (observe_start r m t)) \<Longrightarrow> p \<in> set (re_pending r) \<or> \<not> rp_active p"
    using f(1-4) f(5) [of p] by (auto simp: eq split: if_splits)
qed

lemma observe_cases:
  assumes "solar_os_link_repeater_observe (Some r) (Some m) (Some f) t rnd = (res, Some r')"
  obtains (invalid) "res = REPEATER_IGNORED" "r' = r"
  | (ignored) "res = REPEATER_IGNORED" "r' = observe_start r m t" "0 < length f" "length f \<le> LINK_FRAME_MAX"
  | (relayed) "res = REPEATER_SUPPRESSED" "lm_flags m AND LINK_FLAG_RELAYED \<noteq> 0"
      "r' = suppressed_inc (repeater_cache_remember
              (snd (repeater_cancel_identity (observe_start r m t) (message_identity m))) (message_identity m) t)"
  | (cached) "res = REPEATER_SUPPRESSED" "r' = suppressed_inc (observe_start r m t)"
      "repeater_cache_contains (re_cache (observe_start r m t)) (message_identity m)"
  | (dropped) "res = REPEATER_DROPPED"
      "r' = (observe_start r m t)\<lparr>re_queue_drops := re_queue_drops (observe_start r m t) + 1\<rparr>"
      "\<not> repeater_cache_contains (re_cache (observe_start r m t)) (message_identity m)"
      "lm_flags m AND LINK_FLAG_RELAYED = 0"
  | (queued) i where "res = REPEATER_QUEUED" "relayable (re_local_id r) m"
      "first_index (\<lambda>p. \<not> rp_active p) (re_pending (observe_start r m t)) = Some i"
      "\<not> repeater_cache_contains (re_cache (observe_start r m t)) (message_identity m)"
      "r' = (let r4 = repeater_cache_remember (observe_start r m t) (message_identity m) t
             in r4\<lparr>re_pending := (re_pending r4)[i := new_pending m f t rnd]\<rparr>)"
proof (cases "length f = 0 \<or> LINK_FRAME_MAX < length f")
  case True
  then show ?thesis using assms invalid by (simp add: solar_os_link_repeater_observe_def)
next
  case valid: False
  let ?r3 = "observe_start r m t"
  have lid: "re_local_id ?r3 = re_local_id r" by (rule observe_start_fields)
  have body: "(res, Some r') =
     (if lm_source m = 0 \<or> lm_source m = re_local_id ?r3
           \<or> lm_destination m = 0 \<or> lm_destination m = re_local_id ?r3
      then (REPEATER_IGNORED, Some ?r3)
      else if lm_flags m AND LINK_FLAG_RELAYED \<noteq> 0
      then (REPEATER_SUPPRESSED, Some (suppressed_inc (repeater_cache_remember
              (snd (repeater_cancel_identity ?r3 (message_identity m))) (message_identity m) t)))
      else if repeater_cache_contains (re_cache ?r3) (message_identity m)
      then (REPEATER_SUPPRESSED, Some (suppressed_inc ?r3))
      else (case first_index (\<lambda>p. \<not> rp_active p) (re_pending ?r3) of
              None \<Rightarrow> (REPEATER_DROPPED, Some (?r3\<lparr>re_queue_drops := re_queue_drops ?r3 + 1\<rparr>))
            | Some i \<Rightarrow> (REPEATER_QUEUED,
                Some (let r4 = repeater_cache_remember ?r3 (message_identity m) t
                      in r4\<lparr>re_pending := (re_pending r4)[i := new_pending m f t rnd]\<rparr>))))"
    using assms valid
    by (simp only: solar_os_link_repeater_observe_def Let_def option.case prod.case if_False)
  show ?thesis
  proof (cases "lm_source m = 0 \<or> lm_source m = re_local_id ?r3
           \<or> lm_destination m = 0 \<or> lm_destination m = re_local_id ?r3")
    case True
    then show ?thesis using body valid ignored by (simp only: if_True) auto
  next
    case other: False
    show ?thesis
    proof (cases "lm_flags m AND LINK_FLAG_RELAYED \<noteq> 0")
      case True
      then show ?thesis using body other relayed by (simp only: if_True if_False) auto
    next
      case nr: False
      show ?thesis
      proof (cases "repeater_cache_contains (re_cache ?r3) (message_identity m)")
        case True
        then show ?thesis using body other nr cached by (simp only: if_True if_False) auto
      next
        case nc: False
        have rl: "relayable (re_local_id r) m" using other nr lid by (auto simp: relayable_def)
        show ?thesis
        proof (cases "first_index (\<lambda>p. \<not> rp_active p) (re_pending ?r3)")
          case None
          then show ?thesis using body other nr nc dropped by (simp only: if_False) auto
        next
          case (Some i)
          then show ?thesis using body other nr nc rl queued [of i] by (simp only: if_False) auto
        qed
      qed
    qed
  qed
qed

section \<open>The invariant of the job\<close>

lemma inactive_ok: "\<not> rp_active p \<Longrightarrow> pending_ok l p"
  by (simp add: pending_ok_def)

lemma observe_inv:
  assumes inv: "repeater_inv l r"
    and dec: "solar_os_link_decode (Some f) (Some link_message_empty) = (ESP_OK, Some m)"
    and o: "solar_os_link_repeater_observe (Some r) (Some m) (Some f) t rnd = (res, Some r')"
  shows "repeater_inv l r'"
proof -
  have s: "repeater_inv l (observe_start r m t)"
    using inv observe_start_fields(1-4) [of r m t] observe_start_fields(5) [of _ r m t] inactive_ok
    unfolding repeater_inv_def by (metis prune_length)
  from o show ?thesis
  proof (cases rule: observe_cases)
    case invalid
    then show ?thesis using inv by simp
  next
    case ignored
    then show ?thesis using s by simp
  next
    case relayed
    obtain b r4 where c: "deactivate_first
        (\<lambda>p. rp_active p \<and> repeater_identity_equal (rp_identity p) (message_identity m)) (observe_start r m t) = (b, r4)"
      by fastforce
    have "repeater_inv l r4"
      using s deactivate_first_fields(1,2,4) [OF c] deactivate_first_fields(5) [OF c] inactive_ok
      unfolding repeater_inv_def by metis
    then show ?thesis using relayed c by (simp add: repeater_inv_def repeater_cancel_identity_def)
  next
    case cached
    then show ?thesis using s by (simp add: repeater_inv_def)
  next
    case dropped
    then show ?thesis using s by (simp add: repeater_inv_def)
  next
    case (queued i)
    have "pending_ok l (new_pending m f t rnd)"
      using dec queued(2) inv by (simp add: pending_ok_def new_pending_def Let_def repeater_inv_def)
    moreover have "set ((re_pending (observe_start r m t))[i := new_pending m f t rnd])
        \<subseteq> insert (new_pending m f t rnd) (set (re_pending (observe_start r m t)))"
      by (rule set_update_subset_insert)
    ultimately show ?thesis using s queued(5) by (auto simp: repeater_inv_def Let_def)
  qed
qed

lemma observe_result: "\<exists>res r'. solar_os_link_repeater_observe (Some r) (Some m) (Some f) t rnd = (res, Some r')"
  by (simp add: solar_os_link_repeater_observe_def Let_def split: option.splits)

lemma take_due_SomeD:
  assumes "solar_os_link_repeater_take_due (Some r) t (Some f0) = (b, r', f)"
  shows "b \<Longrightarrow> \<exists>i < length (re_pending r). rp_active (re_pending r ! i)
      \<and> repeater_time_reached t (rp_due_ms (re_pending r ! i)) \<and> f = Some (rp_frame (re_pending r ! i))
      \<and> r' = Some (r\<lparr>re_pending := (re_pending r)[i := (re_pending r ! i)\<lparr>rp_active := False\<rparr>]\<rparr>)"
    and "\<not> b \<Longrightarrow> r' = Some r \<and> (\<forall>p \<in> set (re_pending r). rp_active p \<longrightarrow> \<not> repeater_time_reached t (rp_due_ms p))"
  using assms
  by (auto simp: solar_os_link_repeater_take_due_def first_index_None dest: first_indexD split: option.splits)

lemma take_due_inv:
  assumes "repeater_inv l r" and "solar_os_link_repeater_take_due (Some r) t (Some f0) = (b, Some r', f)"
  shows "repeater_inv l r'"
proof (cases b)
  case True
  from take_due_SomeD(1) [OF assms(2) True] obtain i where i: "i < length (re_pending r)"
    "r' = r\<lparr>re_pending := (re_pending r)[i := (re_pending r ! i)\<lparr>rp_active := False\<rparr>]\<rparr>" by auto
  have "set ((re_pending r)[i := (re_pending r ! i)\<lparr>rp_active := False\<rparr>])
      \<subseteq> insert ((re_pending r ! i)\<lparr>rp_active := False\<rparr>) (set (re_pending r))"
    by (rule set_update_subset_insert)
  moreover have "pending_ok l ((re_pending r ! i)\<lparr>rp_active := False\<rparr>)"
    by (rule inactive_ok) simp
  ultimately have "\<forall>p \<in> set ((re_pending r)[i := (re_pending r ! i)\<lparr>rp_active := False\<rparr>]). pending_ok l p"
    using assms(1) unfolding repeater_inv_def by blast
  then show ?thesis using assms(1) i by (simp add: repeater_inv_def)
next
  case False
  then show ?thesis using take_due_SomeD(2) [OF assms(2)] assms(1) by simp
qed

inductive repeater_step :: "radio_link_job \<Rightarrow> radio_link_job \<Rightarrow> bool" where
  rs_observe: "repeater_step s (radio_link_observe_repeater_frame s packet now_ms rnd)"
| rs_send: "radio_link_send_repeater_frame s now_ms ret = (sent, s', out) \<Longrightarrow> repeater_step s s'"
| rs_other: "repeater_step s (s\<lparr>rj_last_error := e, rj_transmitted := a, rj_transmit_errors := b\<rparr>)"

inductive repeater_reachable :: "u32 \<Rightarrow> radio_link_job \<Rightarrow> bool" for local_id :: u32 where
  rr_start: "solar_os_link_repeater_reset (Some r0) local_id = Some (rj_repeater s)
    \<Longrightarrow> repeater_reachable local_id s"
| rr_step: "repeater_reachable local_id s \<Longrightarrow> repeater_step s s' \<Longrightarrow> repeater_reachable local_id s'"

lemma reset_inv: "solar_os_link_repeater_reset (Some r0) l = Some r \<Longrightarrow> repeater_inv l r"
  by (auto simp: solar_os_link_repeater_reset_def repeater_inv_def link_repeater_zero_def pending_zero_def
      inactive_ok)

lemma note_inv:
  "repeater_inv l r \<Longrightarrow> repeater_inv l (the (solar_os_link_repeater_note_invalid (Some r)))"
  "repeater_inv l r \<Longrightarrow> repeater_inv l (the (solar_os_link_repeater_note_transmit (Some r) b))"
  by (auto simp: solar_os_link_repeater_note_invalid_def solar_os_link_repeater_note_transmit_def repeater_inv_def)

text \<open>The job's send, unfolded along the taken frame.\<close>

lemma send_frame_cases:
  assumes "radio_link_send_repeater_frame s t ret = (sent, s', out)"
  obtains (idle) "\<not> sent" "s' = s" "out = None"
  | (taken) r f where "sent" "solar_os_link_repeater_take_due (Some (rj_repeater s)) t (Some []) = (True, Some r, Some f)"
      "\<exists>r1. rj_repeater s' = the (solar_os_link_repeater_note_transmit (Some r1) (rj_last_error s' = ESP_OK))
          \<and> (r1 = r \<or> r1 = the (solar_os_link_repeater_note_invalid (Some r)))"
      "out \<noteq> None \<Longrightarrow> \<exists>m. solar_os_link_decode (Some f) (Some link_message_empty) = (ESP_OK, Some m)
          \<and> solar_os_link_encode (Some (m\<lparr>lm_flags := lm_flags m OR LINK_FLAG_RELAYED\<rparr>)) (Some []) = (ESP_OK, out)"
proof (cases "rj_repeater_enabled s")
  case False
  then show ?thesis using assms idle by (simp add: radio_link_send_repeater_frame_def)
next
  case True
  obtain b r f where td: "solar_os_link_repeater_take_due (Some (rj_repeater s)) t (Some []) = (b, r, f)"
    by (metis prod.collapse)
  show ?thesis
  proof (cases b)
    case False
    then show ?thesis using assms True td idle by (simp add: radio_link_send_repeater_frame_def)
  next
    case b: True
    from take_due_SomeD(1) [OF td b] obtain r' f' where rf: "r = Some r'" "f = Some f'" by blast
    obtain ret0 cell where dec: "solar_os_link_decode (Some f') (Some link_message_empty) = (ret0, cell)" by fastforce
    have cell: "\<exists>m. cell = Some m"
      using dec by (auto simp: solar_os_link_decode_def Let_def split: if_splits)
    then obtain m where m: "cell = Some m" by blast
    obtain ret1 relayed where enc: "solar_os_link_encode (Some (m\<lparr>lm_flags := lm_flags m OR LINK_FLAG_RELAYED\<rparr>)) (Some [])
        = (ret1, relayed)" by fastforce
    show ?thesis
      using assms True td b rf dec m enc
      by (intro taken [of r' f'])
         (auto simp: radio_link_send_repeater_frame_def Let_def solar_os_link_repeater_note_invalid_def
           solar_os_link_repeater_note_transmit_def split: if_splits)
  qed
qed

lemma repeater_step_inv:
  assumes "repeater_step s s'" and inv: "repeater_inv l (rj_repeater s)"
  shows "repeater_inv l (rj_repeater s')"
  using assms(1)
proof (cases rule: repeater_step.cases)
  case (rs_observe packet now_ms rnd)
  show ?thesis
  proof (cases "rj_repeater_enabled s \<and> packet \<noteq> None")
    case True
    then obtain p where p: "packet = Some p" by blast
    obtain ret cell where d: "solar_os_link_decode (Some p) (Some link_message_empty) = (ret, cell)" by fastforce
    have "\<exists>m. cell = Some m"
      using d by (auto simp: solar_os_link_decode_def Let_def split: if_splits)
    then obtain m where m: "cell = Some m" by blast
    show ?thesis
    proof (cases "ret = ESP_OK")
      case ok: True
      obtain res r' where o: "solar_os_link_repeater_observe (Some (rj_repeater s)) (Some m) (Some p) now_ms rnd
          = (res, Some r')" using observe_result by blast
      have "repeater_inv l r'" using observe_inv [OF inv _ o] d m ok by simp
      then show ?thesis using rs_observe True p d m ok o
        by (simp add: radio_link_observe_repeater_frame_def)
    next
      case False
      then show ?thesis using rs_observe True p d note_inv(1) [OF inv]
        by (simp add: radio_link_observe_repeater_frame_def)
    qed
  next
    case False
    then show ?thesis using rs_observe inv by (auto simp: radio_link_observe_repeater_frame_def)
  qed
next
  case (rs_send now_ms ret sent out)
  from rs_send show ?thesis
  proof (cases rule: send_frame_cases)
    case idle
    then show ?thesis using inv by simp
  next
    case (taken r f)
    from take_due_inv [OF inv taken(2)] have "repeater_inv l r" .
    then show ?thesis using taken(3) note_inv by metis
  qed
next
  case rs_other
  then show ?thesis using inv by simp
qed

lemma repeater_reachable_inv: "repeater_reachable l s \<Longrightarrow> repeater_inv l (rj_repeater s)"
  by (induction rule: repeater_reachable.induct) (auto intro: reset_inv repeater_step_inv)

section \<open>Properties\<close>

lemma relayed_flag: "(f OR LINK_FLAG_RELAYED) AND LINK_FLAG_RELAYED = LINK_FLAG_RELAYED"
  "(f OR LINK_FLAG_RELAYED) AND LINK_FLAG_ACK_REQUESTED = f AND LINK_FLAG_ACK_REQUESTED"
  by (simp_all add: LINK_FLAG_RELAYED_def LINK_FLAG_ACK_REQUESTED_def bit.conj_disj_distrib2)

lemma relayed_low: "f AND 0x0f = f \<Longrightarrow> (f OR LINK_FLAG_RELAYED) AND 0x0f = f OR LINK_FLAG_RELAYED"
  by (simp add: LINK_FLAG_RELAYED_def bit.conj_disj_distrib2)

lemma observe_relayed_not_queued:
  assumes "lm_flags m AND LINK_FLAG_RELAYED \<noteq> 0"
  shows "fst (solar_os_link_repeater_observe (Some r) (Some m) (Some f) t rnd) \<noteq> REPEATER_QUEUED"
  using assms by (simp add: solar_os_link_repeater_observe_def Let_def)

definition demo_received :: link_message where
  "demo_received = demo_message\<lparr>lm_flags := 1\<rparr>"

definition demo_frame :: link_frame where
  "demo_frame = framed (message_body demo_received)"

definition demo_repeater :: link_repeater where
  "demo_repeater = link_repeater_zero\<lparr>re_local_id := 3\<rparr>"

definition demo_radio_job :: radio_link_job where
  "demo_radio_job = \<lparr>rj_repeater_enabled = True, rj_repeater = demo_repeater,
     rj_last_error = ESP_OK, rj_transmitted = 0, rj_transmit_errors = 0\<rparr>"

definition demo_queued :: link_repeater where
  "demo_queued = demo_repeater\<lparr>
     re_pending := (replicate REPEATER_PENDING_MAX pending_zero)[0 := new_pending demo_received demo_frame 0 0],
     re_cache := (replicate REPEATER_CACHE_MAX cache_zero)[0 :=
       \<lparr>ce_identity = message_identity demo_received, ce_expires_ms = 60000, ce_active = True\<rparr>]\<rparr>"

lemma demo_received_encodable: "encodable demo_received" "lm_flags demo_received AND 0x0f = lm_flags demo_received"
  by (simp_all add: encodable_def demo_received_def demo_message_def LINK_PROTOCOL_VERSION_def
      link_type_valid_def link_size_defs)

lemma demo_frame_ok:
  "solar_os_link_decode (Some demo_frame) (Some m) = (ESP_OK, Some demo_received)"
  "length demo_frame = 16"
  using decode_message_body [OF demo_received_encodable]
  by (simp_all add: demo_frame_def framed_length body_length link_size_defs)
     (simp add: demo_received_def demo_message_def)

lemma demo_observe:
  "solar_os_link_repeater_observe (Some demo_repeater) (Some demo_received) (Some demo_frame) 0 0
     = (REPEATER_QUEUED, Some demo_queued)"
proof -
  have s: "observe_start demo_repeater demo_received 0 = demo_repeater"
    by (simp add: observe_start_def repeater_cancel_acknowledged_def demo_received_def demo_message_def
        repeater_cache_prune_def demo_repeater_def link_repeater_zero_def cache_zero_def
        REPEATER_CACHE_MAX_def)
  have c: "\<not> cache_matches i cache_zero" "\<not> ce_active cache_zero" "\<not> rp_active pending_zero" for i
    by (simp_all add: cache_matches_def cache_zero_def pending_zero_def)
  have l: "length demo_frame \<noteq> 0" "\<not> LINK_FRAME_MAX < length demo_frame"
    "lm_source demo_received = 0xA1B2C3D4" "lm_destination demo_received = 7"
    "lm_flags demo_received AND LINK_FLAG_RELAYED = 0"
    using demo_frame_ok(2)
    by (simp_all add: LINK_FRAME_MAX_def demo_received_def demo_message_def LINK_FLAG_RELAYED_def)
  have r: "re_local_id demo_repeater = 3" "re_pending demo_repeater = replicate REPEATER_PENDING_MAX pending_zero"
    "re_cache demo_repeater = replicate REPEATER_CACHE_MAX cache_zero"
    by (simp_all add: demo_repeater_def link_repeater_zero_def)
  have n: "\<not> repeater_cache_contains (re_cache demo_repeater) i" for i
    using c by (simp add: repeater_cache_contains_def r list_ex_iff)
  have fi: "first_index (\<lambda>p. \<not> rp_active p) (re_pending demo_repeater) = Some 0"
    "first_index (cache_matches (message_identity demo_received)) (re_cache demo_repeater) = None"
    "first_index (\<lambda>e. \<not> ce_active e) (re_cache demo_repeater) = Some 0"
    using c by (simp_all add: r REPEATER_PENDING_MAX_def REPEATER_CACHE_MAX_def numeral_eq_Suc)
  show ?thesis
    using l r n fi
    by (simp add: solar_os_link_repeater_observe_def Let_def s repeater_cache_remember_def demo_queued_def
        REPEATER_CACHE_TTL_MS_def)
qed

lemma demo_job_reachable: "repeater_reachable 3 (demo_radio_job\<lparr>rj_repeater := demo_queued\<rparr>)"
proof -
  have "repeater_reachable 3 demo_radio_job"
    by (rule rr_start [of undefined])
       (simp add: solar_os_link_repeater_reset_def demo_radio_job_def demo_repeater_def)
  moreover have "radio_link_observe_repeater_frame demo_radio_job (Some demo_frame) 0 0
      = demo_radio_job\<lparr>rj_repeater := demo_queued\<rparr>"
    using demo_frame_ok demo_observe
    by (simp add: radio_link_observe_repeater_frame_def demo_radio_job_def)
  ultimately show ?thesis using rr_step rs_observe [of demo_radio_job "Some demo_frame" 0 0] by metis
qed



definition queued_at :: "nat \<Rightarrow> link_repeater \<Rightarrow> link_message \<Rightarrow> link_frame \<Rightarrow> u32 \<Rightarrow> u32 \<Rightarrow> bool" where
  "queued_at i r m f now_ms random_value \<longleftrightarrow>
     i < length (re_pending r) \<and> re_pending r ! i = new_pending m f now_ms random_value"

lemma delay_range:
  "80 \<le> unat (REPEATER_DELAY_MIN_MS + rnd mod (REPEATER_DELAY_JITTER_MS + 1))"
  "unat (REPEATER_DELAY_MIN_MS + rnd mod (REPEATER_DELAY_JITTER_MS + 1)) \<le> 200"
proof -
  have m: "unat (rnd mod 121) = unat rnd mod 121" by (simp add: unat_mod)
  then have "unat (rnd mod 121) < 121" by simp
  then have "unat (80 + rnd mod 121) = 80 + unat (rnd mod 121)"
    by (simp add: unat_word_ariths)
  with \<open>unat (rnd mod 121) < 121\<close> show
    "80 \<le> unat (REPEATER_DELAY_MIN_MS + rnd mod (REPEATER_DELAY_JITTER_MS + 1))"
    "unat (REPEATER_DELAY_MIN_MS + rnd mod (REPEATER_DELAY_JITTER_MS + 1)) \<le> 200"
    by (simp_all add: REPEATER_DELAY_MIN_MS_def REPEATER_DELAY_JITTER_MS_def)
qed

lemma time_reached_delay:
  assumes "80 \<le> unat d" and "unat d \<le> 200"
  shows "unat (t - now) < 80 \<Longrightarrow> \<not> repeater_time_reached t (now + d)"
    and "200 \<le> unat (t - now) \<Longrightarrow> unat (t - now) < 2 ^ 31 \<Longrightarrow> repeater_time_reached t (now + d)"
proof -
  have e: "t - (now + d) = (t - now) - d" by simp
  show "\<not> repeater_time_reached t (now + d)" if "unat (t - now) < 80"
    using that assms unat_u32_diff_wrap [of "t - now" d]
    unfolding repeater_time_reached_def sint_u32_nonneg e by simp
  show "repeater_time_reached t (now + d)" if "200 \<le> unat (t - now)" "unat (t - now) < 2 ^ 31"
  proof -
    have "d \<le> t - now" using that assms by (simp add: word_le_nat_alt)
    then show ?thesis using that assms unat_u32_diff [of d "t - now"]
      unfolding repeater_time_reached_def sint_u32_nonneg e by simp
  qed
qed

text \<open>
  Back-off: a frame queued at time \<open>now_ms\<close> waits between 80 and 200 milliseconds. Until 80 ms
  have passed no \<open>take_due\<close> removes it, and from 200 ms on (for the half range of the wrapping clock)
  \<open>take_due\<close> has something to send.
\<close>

theorem repeater_backoff_window:
  assumes "solar_os_link_repeater_observe (Some r) (Some m) (Some f) now_ms rnd = (REPEATER_QUEUED, Some r')"
  shows "\<exists>i. queued_at i r' m f now_ms rnd
    \<and> (\<forall>t f0 b r'' out. unat (t - now_ms) < 80
         \<longrightarrow> solar_os_link_repeater_take_due (Some r') t (Some f0) = (b, Some r'', out)
         \<longrightarrow> queued_at i r'' m f now_ms rnd)
    \<and> (\<forall>t f0. 200 \<le> unat (t - now_ms) \<longrightarrow> unat (t - now_ms) < 2 ^ 31
         \<longrightarrow> fst (solar_os_link_repeater_take_due (Some r') t (Some f0)))"
  using assms
proof (cases rule: observe_cases)
  case (queued i)
  let ?d = "REPEATER_DELAY_MIN_MS + rnd mod (REPEATER_DELAY_JITTER_MS + 1)"
  have i: "i < length (re_pending r')" and at: "re_pending r' ! i = new_pending m f now_ms rnd"
    using first_indexD(1) [OF queued(3)] by (simp_all add: queued(5) Let_def)
  have np: "rp_active (new_pending m f now_ms rnd)" "rp_due_ms (new_pending m f now_ms rnd) = now_ms + ?d"
    by (simp_all add: new_pending_def Let_def)
  note reached = time_reached_delay [OF delay_range [of rnd], of _ now_ms]
  have keep: "queued_at i r'' m f now_ms rnd"
    if "unat (t - now_ms) < 80" "solar_os_link_repeater_take_due (Some r') t (Some f0) = (b, Some r'', out)"
    for t f0 b r'' out
  proof (cases b)
    case True
    from take_due_SomeD(1) [OF that(2) True] obtain j where j:
      "repeater_time_reached t (rp_due_ms (re_pending r' ! j))"
      "r'' = r'\<lparr>re_pending := (re_pending r')[j := (re_pending r' ! j)\<lparr>rp_active := False\<rparr>]\<rparr>" by auto
    have "j \<noteq> i" using j(1) reached(1) [OF that(1)] at np by auto
    then show ?thesis using j(2) i at by (simp add: queued_at_def)
  next
    case False
    then show ?thesis using take_due_SomeD(2) [OF that(2)] i at by (simp add: queued_at_def)
  qed
  have avail: "fst (solar_os_link_repeater_take_due (Some r') t (Some f0))"
    if "200 \<le> unat (t - now_ms)" "unat (t - now_ms) < 2 ^ 31" for t f0
  proof (rule ccontr)
    assume n: "\<not> fst (solar_os_link_repeater_take_due (Some r') t (Some f0))"
    obtain b r'' out where td: "solar_os_link_repeater_take_due (Some r') t (Some f0) = (b, r'', out)"
      by (metis prod.collapse)
    from take_due_SomeD(2) [OF td] n td have "\<not> repeater_time_reached t (rp_due_ms (re_pending r' ! i))"
      using i at np(1) by (metis fst_conv nth_mem)
    then show False using reached(2) [OF that] at np(2) by simp
  qed
  show ?thesis using i at keep avail by (intro exI [of _ i]) (auto simp: queued_at_def)
qed auto

theorem repeater_backoff_window_witness:
  "queued_at 0 demo_queued demo_received demo_frame 0 0
   \<and> fst (solar_os_link_repeater_take_due (Some demo_queued) 250 (Some []))"
  using repeater_backoff_window [OF demo_observe]
  by (auto simp: queued_at_def demo_queued_def REPEATER_PENDING_MAX_def)

section \<open>Duplicate suppression\<close>

text \<open>A run of the repeater over what it hears: the messages, their frames, times and random numbers.\<close>

definition observe_next :: "link_repeater \<Rightarrow> link_message \<times> link_frame \<times> u32 \<times> u32 \<Rightarrow> link_repeater" where
  "observe_next r o1 = (case o1 of (m, f, t, rnd) \<Rightarrow>
     the (snd (solar_os_link_repeater_observe (Some r) (Some m) (Some f) t rnd)))"

definition observe_run :: "link_repeater \<Rightarrow> (link_message \<times> link_frame \<times> u32 \<times> u32) list \<Rightarrow> link_repeater" where
  "observe_run r os = foldl observe_next r os"

definition cache_load :: "link_repeater \<Rightarrow> nat" where
  "cache_load r = length (filter ce_active (re_cache r))"

text \<open>An entry for \<open>identity\<close> that no time within the TTL after \<open>t0\<close> reaches.\<close>

definition remembered :: "repeater_identity \<Rightarrow> u32 \<Rightarrow> link_repeater \<Rightarrow> bool" where
  "remembered identity t0 r \<longleftrightarrow> (\<exists>e \<in> set (re_cache r). cache_matches identity e
     \<and> 60000 \<le> unat (ce_expires_ms e - t0) \<and> unat (ce_expires_ms e - t0) < 120000)"

lemma not_reached_within_ttl:
  assumes "60000 \<le> unat (e - t0 :: u32)" and "unat (e - t0) < 120000" and "unat (t - t0) < 60000"
  shows "\<not> repeater_time_reached t e"
proof -
  have "t - e = (t - t0) - (e - t0)" by simp
  then show ?thesis using assms unat_u32_diff_wrap [of "t - t0" "e - t0"]
    unfolding repeater_time_reached_def sint_u32_nonneg by simp
qed

lemma expiry_window:
  assumes "unat (t - t0 :: u32) < 60000"
  shows "60000 \<le> unat (t + REPEATER_CACHE_TTL_MS - t0)" and "unat (t + REPEATER_CACHE_TTL_MS - t0) < 120000"
proof -
  have e: "t + REPEATER_CACHE_TTL_MS - t0 = (t - t0) + 60000" by (simp add: REPEATER_CACHE_TTL_MS_def)
  have "unat ((t - t0) + 60000) = unat (t - t0) + 60000"
    using assms by (simp add: unat_word_ariths)
  then show "60000 \<le> unat (t + REPEATER_CACHE_TTL_MS - t0)" "unat (t + REPEATER_CACHE_TTL_MS - t0) < 120000"
    unfolding e using assms by linarith+
qed

lemma prune_remembered:
  assumes "remembered i t0 r" and "unat (t - t0) < 60000" and "re_cache r' = repeater_cache_prune t (re_cache r)"
  shows "remembered i t0 r'"
proof -
  from assms(1) obtain e where e: "e \<in> set (re_cache r)" "cache_matches i e"
    "60000 \<le> unat (ce_expires_ms e - t0)" "unat (ce_expires_ms e - t0) < 120000"
    by (auto simp: remembered_def)
  then have "e \<in> set (re_cache r')"
    using not_reached_within_ttl [OF e(3,4) assms(2)]
    by (force simp: assms(3) repeater_cache_prune_def)
  then show ?thesis using e by (auto simp: remembered_def)
qed

lemma prune_load:
  assumes "re_cache r' = repeater_cache_prune t (re_cache r)"
  shows "cache_load r' \<le> cache_load r"
proof -
  have "length (filter ce_active (repeater_cache_prune t c)) \<le> length (filter ce_active c)" for c
    by (induction c) (auto simp: repeater_cache_prune_def)
  then show ?thesis by (simp add: cache_load_def assms)
qed

lemma load_update:
  assumes "i < length c"
  shows "length (filter ce_active (c[i := e])) =
    length (filter ce_active c) - (if ce_active (c ! i) then 1 else 0) + (if ce_active e then 1 else 0)"
proof -
  have c: "c = take i c @ c ! i # drop (Suc i) c" by (rule id_take_nth_drop [OF assms])
  have "length (filter ce_active (c[i := e])) =
      length (filter ce_active (take i c)) + (if ce_active e then 1 else 0) + length (filter ce_active (drop (Suc i) c))"
    using assms by (simp add: upd_conv_take_nth_drop)
  moreover have "length (filter ce_active c) =
      length (filter ce_active (take i c)) + (if ce_active (c ! i) then 1 else 0) + length (filter ce_active (drop (Suc i) c))"
    using arg_cong [OF c, of "\<lambda>c. length (filter ce_active c)"] by simp
  ultimately show ?thesis by simp
qed

text \<open>Remembering takes at most one slot, and while a slot is free it replaces no other identity.\<close>

lemma remember_load:
  assumes "cache_load r < length (re_cache r)"
  shows "cache_load (repeater_cache_remember r j t) \<le> cache_load r + 1"
    and "remembered i t0 r \<Longrightarrow> unat (t - t0) < 60000 \<Longrightarrow> remembered i t0 (repeater_cache_remember r j t)"
    and "unat (t - t0) < 60000 \<Longrightarrow> remembered j t0 (repeater_cache_remember r j t)"
proof -
  let ?e = "\<lparr>ce_identity = j, ce_expires_ms = t + REPEATER_CACHE_TTL_MS, ce_active = True\<rparr>"
  have free: "\<exists>e \<in> set (re_cache r). \<not> ce_active e"
  proof (rule ccontr)
    assume "\<not> ?thesis"
    then have "filter ce_active (re_cache r) = re_cache r" by (simp add: filter_id_conv)
    then show False using assms by (simp add: cache_load_def)
  qed
  then have "\<exists>k. first_index (\<lambda>e. \<not> ce_active e) (re_cache r) = Some k"
    using first_index_exists [of _ "re_cache r" "\<lambda>e. \<not> ce_active e"] by blast
  then obtain k where k: "k < length (re_cache r)" "cache_matches j (re_cache r ! k) \<or> \<not> ce_active (re_cache r ! k)"
    "repeater_cache_remember r j t = r\<lparr>re_cache := (re_cache r)[k := ?e]\<rparr>"
  proof (cases "first_index (cache_matches j) (re_cache r)")
    case None
    with \<open>\<exists>k. _ k\<close> show ?thesis
      using first_indexD [of "\<lambda>e. \<not> ce_active e" "re_cache r"]
      by (auto simp: repeater_cache_remember_def Let_def intro: that)
  next
    case (Some k)
    then show ?thesis using first_indexD [OF Some] that [of k] by (simp add: repeater_cache_remember_def Let_def)
  qed
  show "cache_load (repeater_cache_remember r j t) \<le> cache_load r + 1"
    using load_update [OF k(1), of ?e] by (simp add: cache_load_def k(3))
  have me: "?e \<in> set (re_cache (repeater_cache_remember r j t))"
    using k(1) by (auto simp: k(3) intro: set_update_memI)
  show new: "remembered j t0 (repeater_cache_remember r j t)" if "unat (t - t0) < 60000"
    unfolding remembered_def
    by (rule bexI [OF _ me]) (simp add: expiry_window [OF that] cache_matches_def identity_equal_iff)
  show "remembered i t0 (repeater_cache_remember r j t)" if i: "remembered i t0 r" and t: "unat (t - t0) < 60000"
  proof (cases "i = j")
    case True
    then show ?thesis using new [OF t] by simp
  next
    case False
    from i obtain n where n: "n < length (re_cache r)" "cache_matches i (re_cache r ! n)"
      "60000 \<le> unat (ce_expires_ms (re_cache r ! n) - t0)" "unat (ce_expires_ms (re_cache r ! n) - t0) < 120000"
      by (auto simp: remembered_def in_set_conv_nth)
    then have "n \<noteq> k" using k(2) False by (auto simp: cache_matches_def identity_equal_iff)
    then have "re_cache r ! n \<in> set (re_cache (repeater_cache_remember r j t))"
      using n(1) by (auto simp: k(3) in_set_conv_nth intro!: exI [of _ n])
    then show ?thesis using n by (auto simp: remembered_def)
  qed
qed

lemma observe_remembered:
  assumes "solar_os_link_repeater_observe (Some r) (Some m) (Some f) t rnd = (res, Some r')"
    and "cache_load r < length (re_cache r)" and "unat (t - t0) < 60000"
  shows "cache_load r' \<le> cache_load r + 1" and "remembered i t0 r \<Longrightarrow> remembered i t0 r'"
    and "res = REPEATER_QUEUED \<Longrightarrow> remembered (message_identity m) t0 r'"
    and "length (re_cache r') = length (re_cache r)" and "re_local_id r' = re_local_id r"
proof -
  let ?s = "observe_start r m t"
  have s: "re_cache ?s = repeater_cache_prune t (re_cache r)" "length (re_cache ?s) = length (re_cache r)"
    "re_local_id ?s = re_local_id r"
    by (simp_all add: observe_start_fields)
  have ls: "cache_load ?s \<le> cache_load r" "remembered i t0 r \<Longrightarrow> remembered i t0 ?s" for i
    using prune_load [OF s(1)] prune_remembered [OF _ assms(3) s(1)] by blast+
  have same: "cache_load x = cache_load y" "remembered j t0 x = remembered j t0 y"
    if "re_cache x = re_cache y" for x y j
    using that by (simp_all add: cache_load_def remembered_def)
  have *: "cache_load r' \<le> cache_load r + 1 \<and> (remembered i t0 r \<longrightarrow> remembered i t0 r')
    \<and> (res = REPEATER_QUEUED \<longrightarrow> remembered (message_identity m) t0 r')
    \<and> length (re_cache r') = length (re_cache r) \<and> re_local_id r' = re_local_id r"
    using assms(1)
  proof (cases rule: observe_cases)
    case relayed
    obtain b u where u: "repeater_cancel_identity ?s (message_identity m) = (b, u)" by fastforce
    have uf: "re_cache u = re_cache ?s" "re_local_id u = re_local_id ?s"
      using deactivate_first_fields(1,2) u by (simp_all add: repeater_cancel_identity_def)
    have "cache_load u < length (re_cache u)"
      using ls(1) assms(2) s(2) same(1) [OF uf(1)] uf(1) by simp
    note rem = remember_load(1) [OF this, of _ t] remember_load(2) [OF this, of _ t0 t]
      remember_load(3) [OF this, of t t0]
    show ?thesis
      using relayed(1) rem(1) [of "message_identity m"] rem(2) [OF _ assms(3), of i "message_identity m"]
        ls same [OF uf(1)] s uf u
      by (simp add: relayed(3) cache_load_def [of "suppressed_inc _"] remembered_def [of _ _ "suppressed_inc _"])
         (auto simp: cache_load_def remembered_def)
  next
    case (queued k)
    have "cache_load ?s < length (re_cache ?s)" using ls(1) assms(2) s(2) by simp
    note rem = remember_load(1) [OF this, of _ t] remember_load(2) [OF this, of _ t0 t]
      remember_load(3) [OF this, of t t0]
    have c: "re_cache r' = re_cache (repeater_cache_remember ?s (message_identity m) t)"
      "re_local_id r' = re_local_id r"
      using s by (simp_all add: queued(5) Let_def)
    show ?thesis
      using rem(1) [of "message_identity m"] rem(2) [OF _ assms(3), of i "message_identity m"]
        rem(3) [OF assms(3), of "message_identity m"] ls c(2) s same [OF c(1)]
      by (simp add: c(1))
  next
    case ignored
    then show ?thesis using ls s by auto
  next
    case cached
    then show ?thesis using ls s by (auto simp: cache_load_def remembered_def)
  next
    case dropped
    then show ?thesis using ls s by (auto simp: cache_load_def remembered_def)
  qed auto
  from * show "cache_load r' \<le> cache_load r + 1" "remembered i t0 r \<Longrightarrow> remembered i t0 r'"
    "res = REPEATER_QUEUED \<Longrightarrow> remembered (message_identity m) t0 r'"
    "length (re_cache r') = length (re_cache r)" "re_local_id r' = re_local_id r" by blast+
qed

lemma run_remembered:
  assumes "remembered i t0 r" and "cache_load r + length os \<le> length (re_cache r)"
    and "\<forall>(m, f, t, rnd) \<in> set os. unat (t - t0) < 60000"
  shows "remembered i t0 (observe_run r os) \<and> re_local_id (observe_run r os) = re_local_id r"
  using assms
proof (induction os arbitrary: r)
  case Nil
  then show ?case by (simp add: observe_run_def)
next
  case (Cons o1 os)
  obtain m f t rnd where o1: "o1 = (m, f, t, rnd)" by (cases o1)
  obtain res r' where ob: "solar_os_link_repeater_observe (Some r) (Some m) (Some f) t rnd = (res, Some r')"
    using observe_result by blast
  have t: "unat (t - t0) < 60000" and load: "cache_load r < length (re_cache r)"
    using Cons.prems(2,3) by (simp_all add: o1)
  note f = observe_remembered [OF ob load t]
  have "remembered i t0 (observe_run r' os) \<and> re_local_id (observe_run r' os) = re_local_id r'"
    using Cons.prems f(1,4) by (intro Cons.IH f(2)) auto
  then show ?case using f(5) by (simp add: observe_run_def o1 observe_next_def ob)
qed

lemma remembered_contains:
  assumes "remembered i t0 r" and "unat (t - t0) < 60000"
    and "re_cache (r' :: link_repeater) = repeater_cache_prune t (re_cache r)"
  shows "repeater_cache_contains (re_cache r') i"
  using prune_remembered [OF assms] by (auto simp: remembered_def repeater_cache_contains_def list_ex_iff)

text \<open>
  No frame is repeated twice: once a message has been queued, a frame with the same source,
  destination, sequence number and type that is heard within the next 60 seconds is suppressed,
  whatever was heard in between, provided the sixteen cache slots suffice for it: the entries in use
  plus the frames heard in between must not exceed sixteen (beyond that the round robin may evict
  an entry that is still valid).
\<close>

theorem repeater_suppresses_duplicates:
  assumes queued: "solar_os_link_repeater_observe (Some r) (Some m) (Some f) t0 rnd = (REPEATER_QUEUED, Some r')"
    and inv: "repeater_inv local_id r"
    and room: "cache_load r < REPEATER_CACHE_MAX" "cache_load r' + length os \<le> REPEATER_CACHE_MAX"
    and times: "\<forall>(m, f, t, rnd) \<in> set os. unat (t - t0) < 60000" "unat (t - t0) < 60000"
    and again: "message_identity m2 = message_identity m" "0 < length f2" "length f2 \<le> LINK_FRAME_MAX"
  shows "fst (solar_os_link_repeater_observe (Some (observe_run r' os)) (Some m2) (Some f2) t rnd2)
    = REPEATER_SUPPRESSED"
proof -
  have len: "length (re_cache r) = REPEATER_CACHE_MAX" using inv by (simp add: repeater_inv_def)
  have rel: "relayable (re_local_id r) m" using queued by (cases rule: observe_cases) auto
  have load: "cache_load r < length (re_cache r)" using room(1) len by simp
  note q = observe_remembered [OF queued load, of t0, simplified]
  let ?r = "observe_run r' os"
  have run: "remembered (message_identity m) t0 ?r \<and> re_local_id ?r = re_local_id r'"
    using run_remembered [OF q(3) _ times(1)] room(2) q(4) len by simp
  have c: "repeater_cache_contains (re_cache (observe_start ?r m2 t)) (message_identity m2)"
    using remembered_contains [OF conjunct1 [OF run] times(2) observe_start_fields(1)] again(1) by simp
  have lid: "re_local_id (observe_start ?r m2 t) = re_local_id r"
    using run q(5) by (simp add: observe_start_fields)
  have ids: "lm_source m2 = lm_source m" "lm_destination m2 = lm_destination m"
    using again(1) by (simp_all add: message_identity_def)
  have nodes: "\<not> (lm_source m2 = 0 \<or> lm_source m2 = re_local_id (observe_start ?r m2 t)
      \<or> lm_destination m2 = 0 \<or> lm_destination m2 = re_local_id (observe_start ?r m2 t))"
    using rel by (simp add: relayable_def lid ids)
  show ?thesis
    using again(2,3) nodes c
    by (simp add: solar_os_link_repeater_observe_def Let_def)
qed

theorem repeater_suppresses_duplicates_witness:
  "fst (solar_os_link_repeater_observe (Some (observe_run demo_queued [(demo_ack, [0], 7, 0)]))
     (Some demo_received) (Some demo_frame) 59999 0) = REPEATER_SUPPRESSED"
proof (rule repeater_suppresses_duplicates [OF demo_observe])
  show "repeater_inv 3 demo_repeater"
    by (rule reset_inv [of undefined]) (simp add: solar_os_link_repeater_reset_def demo_repeater_def)
  show "cache_load demo_repeater < REPEATER_CACHE_MAX"
    "cache_load demo_queued + length [(demo_ack, [0], 7, 0)] \<le> REPEATER_CACHE_MAX"
    by (simp_all add: cache_load_def demo_queued_def demo_repeater_def link_repeater_zero_def
      REPEATER_CACHE_MAX_def cache_zero_def numeral_eq_Suc)
qed (simp_all add: demo_frame_ok LINK_FRAME_MAX_def)

end
