(* ===== verification/ShellParse.thy ===== *)
theory ShellParse
  imports SolarBase
begin

text \<open>
  The shell's command line functions, \<open>src/src/shell/solar_os_shell_parse.c\<close>: the tokenizer that
  splits a line in place, the edit distance behind \<open>did you mean\<close>, the suggestion and the colour
  parser. The tokenizer's model keeps the code's single buffer with its read and write cursors; a
  pure tokenizer on the remaining text is its specification.
\<close>

section \<open>Types\<close>

datatype shell_parse_error =
    PARSE_OK
  | PARSE_TOO_MANY_ARGUMENTS
  | PARSE_UNTERMINATED_SINGLE_QUOTE
  | PARSE_UNTERMINATED_DOUBLE_QUOTE
  | PARSE_DANGLING_ESCAPE
  | PARSE_UNSUPPORTED_OPERATOR

record shell_parse_result =
  sp_argc :: int
  sp_error :: shell_parse_error
  sp_column :: nat
  sp_operator :: string

definition NUL :: char where
  "NUL = CHR 0x00"

definition single_quote :: char where
  "single_quote = CHR 0x27"

definition double_quote :: char where
  "double_quote = CHR 0x22"

definition backslash :: char where
  "backslash = CHR 0x5C"

lemmas char_defs = NUL_def single_quote_def double_quote_def backslash_def

text \<open>A line buffer is the list of its bytes, NULs included; reading past it reads a terminator.\<close>

definition buf_at :: "string \<Rightarrow> nat \<Rightarrow> char" where
  "buf_at buf i = (if i < length buf then buf ! i else NUL)"

definition cstring_at :: "string \<Rightarrow> nat \<Rightarrow> string" where
  "cstring_at buf i = takeWhile (\<lambda>c. c \<noteq> NUL) (drop i buf)"

lemma NUL_not_space [simp]: "\<not> isspace NUL"
  by (simp add: isspace_def NUL_def)

lemma buf_at_bound: "buf_at buf i \<noteq> NUL \<Longrightarrow> i < length buf"
  by (simp add: buf_at_def split: if_splits)

lemma space_bound: "isspace (buf_at buf i) \<Longrightarrow> i < length buf"
  by (metis NUL_not_space buf_at_bound)

section \<open>The tokenizer\<close>

definition shell_operator_token :: "string \<Rightarrow> string option" where
  "shell_operator_token value =
     (if value \<in> set [''|'', ''||'', ''<'', ''>'', ''>>'', ''&&'', '';''] then Some value else None)"

function skip_spaces :: "string \<Rightarrow> nat \<Rightarrow> nat" where
  "skip_spaces buf rd = (if isspace (buf_at buf rd) then skip_spaces buf (rd + 1) else rd)"
  by pat_completeness auto
termination
  by (relation "measure (\<lambda>(buf, rd). length buf - rd)") (auto dest: space_bound)

text \<open>
  The loop over one token: a dangling escape, the buffer, the two cursors, the open quote and
  whether any part of the token was quoted or escaped.
\<close>

function token_loop ::
  "string \<Rightarrow> nat \<Rightarrow> nat \<Rightarrow> char \<Rightarrow> bool \<Rightarrow> bool \<times> string \<times> nat \<times> nat \<times> char \<times> bool" where
  "token_loop buf rd wr quote literalized =
     (let ch = buf_at buf rd
      in if ch = NUL then (False, buf, rd, wr, quote, literalized)
         else if quote = NUL \<and> isspace ch then (False, buf, rd, wr, quote, literalized)
         else if (ch = double_quote \<or> ch = single_quote) \<and> (quote = NUL \<or> quote = ch)
         then token_loop buf (rd + 1) wr (if quote = NUL then ch else NUL) True
         else if ch = backslash \<and> quote \<noteq> single_quote
         then (if buf_at buf (rd + 1) = NUL then (True, buf, rd, wr, quote, True)
               else token_loop (buf[wr := buf_at buf (rd + 1)]) (rd + 2) (wr + 1) quote True)
         else token_loop (buf[wr := ch]) (rd + 1) (wr + 1) quote literalized)"
  by pat_completeness auto
termination
  by (relation "measure (\<lambda>(buf, rd, _). length buf - rd)")
     (auto dest: buf_at_bound intro!: diff_less_mono2 simp del: buf_at_def)

declare skip_spaces.simps [simp del] token_loop.simps [simp del]

lemma skip_spaces_le: "rd \<le> skip_spaces buf rd"
proof (induction buf rd rule: skip_spaces.induct)
  case (1 buf rd)
  then show ?case by (subst skip_spaces.simps) (auto)
qed

definition quote_toggle :: "char \<Rightarrow> char \<Rightarrow> bool" where
  "quote_toggle ch quote \<longleftrightarrow> (ch = double_quote \<or> ch = single_quote) \<and> (quote = NUL \<or> quote = ch)"

definition token_end :: "char \<Rightarrow> char \<Rightarrow> bool" where
  "token_end ch quote \<longleftrightarrow> ch = NUL \<or> quote = NUL \<and> isspace ch"

lemma token_loop_stop:
  "token_end (buf_at buf rd) quote \<Longrightarrow> token_loop buf rd wr quote lit = (False, buf, rd, wr, quote, lit)"
  by (subst token_loop.simps) (auto simp: Let_def token_end_def)

lemma token_loop_quote:
  "\<not> token_end (buf_at buf rd) quote \<Longrightarrow> quote_toggle (buf_at buf rd) quote
   \<Longrightarrow> token_loop buf rd wr quote lit =
     token_loop buf (rd + 1) wr (if quote = NUL then buf_at buf rd else NUL) True"
  unfolding token_end_def quote_toggle_def
  by (subst token_loop.simps) (simp only: Let_def if_False if_True simp_thms de_Morgan_disj)

lemma token_loop_escape:
  "\<not> token_end (buf_at buf rd) quote \<Longrightarrow> \<not> quote_toggle (buf_at buf rd) quote
   \<Longrightarrow> buf_at buf rd = backslash \<Longrightarrow> quote \<noteq> single_quote
   \<Longrightarrow> token_loop buf rd wr quote lit =
     (if buf_at buf (rd + 1) = NUL then (True, buf, rd, wr, quote, True)
      else token_loop (buf[wr := buf_at buf (rd + 1)]) (rd + 2) (wr + 1) quote True)"
  unfolding token_end_def quote_toggle_def
  by (subst token_loop.simps) (simp only: Let_def if_False if_True simp_thms de_Morgan_disj)

lemma token_loop_plain:
  "\<not> token_end (buf_at buf rd) quote \<Longrightarrow> \<not> quote_toggle (buf_at buf rd) quote
   \<Longrightarrow> \<not> (buf_at buf rd = backslash \<and> quote \<noteq> single_quote)
   \<Longrightarrow> token_loop buf rd wr quote lit =
     token_loop (buf[wr := buf_at buf rd]) (rd + 1) (wr + 1) quote lit"
  unfolding token_end_def quote_toggle_def
  by (subst token_loop.simps) (simp only: Let_def if_False if_True simp_thms de_Morgan_disj)

lemmas token_loop_steps = token_loop_stop token_loop_quote token_loop_escape token_loop_plain

lemma token_end_bound: "\<not> token_end (buf_at buf rd) quote \<Longrightarrow> rd < length buf"
  by (auto simp: token_end_def dest: buf_at_bound)

lemma token_loop_shape:
  assumes "token_loop buf rd wr quote lit = (b, buf', rd', wr', quote', lit')"
  shows "length buf' = length buf \<and> rd \<le> rd'"
  using assms
proof (induction "length buf - rd" arbitrary: buf rd wr quote lit rule: less_induct)
  case less
  let ?ch = "buf_at buf rd"
  show ?case
  proof (cases "token_end ?ch quote")
    case True
    then show ?thesis using less.prems by (simp add: token_loop_stop)
  next
    case ne: False
    have lt: "length buf - (rd + 1) < length buf - rd"
      "length (buf[wr := buf_at buf (rd + 1)]) - (rd + 2) < length buf - rd"
      "length (buf[wr := ?ch]) - (rd + 1) < length buf - rd"
      using token_end_bound [OF ne] by auto
    consider "quote_toggle ?ch quote" | "\<not> quote_toggle ?ch quote" "?ch = backslash" "quote \<noteq> single_quote"
      | "\<not> quote_toggle ?ch quote" "\<not> (?ch = backslash \<and> quote \<noteq> single_quote)" by blast
    then show ?thesis
    proof cases
      case 1
      show ?thesis using less.hyps [OF lt(1) less.prems [unfolded token_loop_quote [OF ne 1]]] by simp
    next
      case 2
      show ?thesis
      proof (cases "buf_at buf (rd + 1) = NUL")
        case True
        then show ?thesis using less.prems by (simp add: token_loop_escape [OF ne 2])
      next
        case False
        then have "token_loop (buf[wr := buf_at buf (rd + 1)]) (rd + 2) (wr + 1) quote True
            = (b, buf', rd', wr', quote', lit')"
          using less.prems by (simp add: token_loop_escape [OF ne 2])
        from less.hyps [OF lt(2) this] show ?thesis by simp
      qed
    next
      case 3
      show ?thesis using less.hyps [OF lt(3) less.prems [unfolded token_loop_plain [OF ne 3]]] by simp
    qed
  qed
qed

lemma token_loop_progress:
  assumes ne: "\<not> token_end (buf_at buf rd) quote"
    and tl: "token_loop buf rd wr quote lit = (b, buf', rd', wr', quote', lit')" and "\<not> b"
  shows "rd < rd'"
proof -
  let ?ch = "buf_at buf rd"
  consider "quote_toggle ?ch quote" | "\<not> quote_toggle ?ch quote" "?ch = backslash" "quote \<noteq> single_quote"
    | "\<not> quote_toggle ?ch quote" "\<not> (?ch = backslash \<and> quote \<noteq> single_quote)" by blast
  then show ?thesis
  proof cases
    case 1
    show ?thesis using token_loop_shape [OF tl [unfolded token_loop_quote [OF ne 1]]] by simp
  next
    case 2
    have "token_loop (buf[wr := buf_at buf (rd + 1)]) (rd + 2) (wr + 1) quote True
        = (b, buf', rd', wr', quote', lit')"
      using tl \<open>\<not> b\<close> by (simp add: token_loop_escape [OF ne 2] split: if_splits)
    from token_loop_shape [OF this] show ?thesis by simp
  next
    case 3
    show ?thesis using token_loop_shape [OF tl [unfolded token_loop_plain [OF ne 3]]] by simp
  qed
qed

definition parse_error :: "string \<Rightarrow> nat list \<Rightarrow> shell_parse_error \<Rightarrow> nat \<Rightarrow> string
    \<Rightarrow> shell_parse_result \<times> string \<times> nat list" where
  "parse_error buf argv e column op =
     (\<lparr>sp_argc = int (length argv), sp_error = e, sp_column = column, sp_operator = op\<rparr>, buf, argv)"

definition quote_error :: "char \<Rightarrow> shell_parse_error" where
  "quote_error quote = (if quote = single_quote then PARSE_UNTERMINATED_SINGLE_QUOTE
                        else PARSE_UNTERMINATED_DOUBLE_QUOTE)"

text \<open>
  The loop over the line. \<open>argv\<close> holds the offsets of the tokens in the buffer, so its length is
  the \<open>argc\<close> of the result; a successful result has column 0 and no operator.
\<close>

lemma skip_spaces_not_space: "\<not> isspace (buf_at buf (skip_spaces buf rd))"
proof (induction buf rd rule: skip_spaces.induct)
  case (1 buf rd)
  then show ?case by (subst skip_spaces.simps) auto
qed

lemma tokenize_loop_decreases:
  assumes "buf_at buf rd1 \<noteq> NUL" and "rd1 = skip_spaces buf rd"
    and tl: "token_loop buf rd1 wr NUL False = (False, buf1, rd2, wr1, quote, lit)"
  shows "length (buf1[i := c]) - (if b then rd2 + 1 else rd2) < length buf - rd"
proof -
  have "\<not> token_end (buf_at buf rd1) NUL"
    using assms(1,2) skip_spaces_not_space by (simp add: token_end_def)
  then have "rd1 < rd2" "rd1 < length buf" using token_loop_progress [OF _ tl] token_end_bound by auto
  moreover have "length buf1 = length buf" "rd \<le> rd1"
    using token_loop_shape [OF tl] skip_spaces_le assms(2) by simp_all
  ultimately show ?thesis by auto
qed

function tokenize_loop :: "int \<Rightarrow> string \<Rightarrow> nat \<Rightarrow> nat \<Rightarrow> nat list
    \<Rightarrow> shell_parse_result \<times> string \<times> nat list" where
  "tokenize_loop argv_max buf rd wr argv =
     (if buf_at buf rd = NUL then parse_error buf argv PARSE_OK 0 []
      else let rd1 = skip_spaces buf rd
           in if buf_at buf rd1 = NUL then parse_error buf argv PARSE_OK 0 []
              else if argv_max \<le> int (length argv)
              then parse_error buf argv PARSE_TOO_MANY_ARGUMENTS rd1 []
              else (case token_loop buf rd1 wr NUL False of
                      (dangling, buf1, rd2, wr1, quote, literalized) \<Rightarrow>
                        if dangling
                        then parse_error buf1 (argv @ [wr]) PARSE_DANGLING_ESCAPE rd2 []
                        else if quote \<noteq> NUL
                        then parse_error buf1 (argv @ [wr]) (quote_error quote) rd2 []
                        else let rd3 = (if isspace (buf_at buf1 rd2) then rd2 + 1 else rd2);
                                 buf2 = buf1[wr1 := NUL]
                             in (case (if literalized then None
                                       else shell_operator_token (cstring_at buf2 wr)) of
                                   Some op \<Rightarrow> parse_error buf2 (argv @ [wr]) PARSE_UNSUPPORTED_OPERATOR rd1 op
                                 | None \<Rightarrow> tokenize_loop argv_max buf2 rd3 (wr1 + 1) (argv @ [wr]))))"
  by pat_completeness auto

termination
  by (relation "measure (\<lambda>(_, buf, rd, _). length buf - rd)")
     (simp, simp only: in_measure case_prod_conv, hypsubst, rule tokenize_loop_decreases [OF _ refl],
      assumption, erule sym)

declare tokenize_loop.simps [simp del]

text \<open>
  The line (its characters without the terminator) is modified in place. Without a line, without
  \<open>argv\<close> or with a non-positive bound the result is all zero.
\<close>

definition solar_os_shell_tokenize ::
  "string option \<Rightarrow> bool \<Rightarrow> int \<Rightarrow> shell_parse_result \<times> string \<times> nat list" where
  "solar_os_shell_tokenize line argv_given argv_max =
     (if line = None \<or> \<not> argv_given \<or> argv_max \<le> 0
      then (\<lparr>sp_argc = 0, sp_error = PARSE_OK, sp_column = 0, sp_operator = []\<rparr>, cstr line, [])
      else tokenize_loop argv_max (the line @ [NUL]) 0 0 [])"

definition tokenized_args :: "shell_parse_result \<times> string \<times> nat list \<Rightarrow> string list" where
  "tokenized_args r = (case r of (_, buf, argv) \<Rightarrow> map (cstring_at buf) argv)"

definition solar_os_shell_parse_error_text :: "shell_parse_error \<Rightarrow> string" where
  "solar_os_shell_parse_error_text e =
     (case e of
        PARSE_TOO_MANY_ARGUMENTS \<Rightarrow> ''too many arguments''
      | PARSE_UNTERMINATED_SINGLE_QUOTE \<Rightarrow> ''unterminated single quote''
      | PARSE_UNTERMINATED_DOUBLE_QUOTE \<Rightarrow> ''unterminated double quote''
      | PARSE_DANGLING_ESCAPE \<Rightarrow> ''trailing backslash has nothing to escape''
      | PARSE_UNSUPPORTED_OPERATOR \<Rightarrow> ''shell operator is not supported''
      | PARSE_OK \<Rightarrow> ''invalid command line'')"

section \<open>The specification of the tokenizer\<close>

text \<open>
  The same grammar on the remaining text, with no buffer: a token, the rest of the text, the quote
  still open and whether the token was quoted or escaped.
\<close>

definition push :: "char \<Rightarrow> bool \<times> string \<times> string \<times> char \<times> bool \<Rightarrow> bool \<times> string \<times> string \<times> char \<times> bool" where
  "push c x = (case x of (b, t, r) \<Rightarrow> (b, c # t, r))"

fun spec_token :: "char \<Rightarrow> bool \<Rightarrow> string \<Rightarrow> bool \<times> string \<times> string \<times> char \<times> bool" where
  "spec_token q l [] = (False, [], [], q, l)"
| "spec_token q l (c # cs) =
     (if token_end c q then (False, [], c # cs, q, l)
      else if quote_toggle c q then spec_token (if q = NUL then c else NUL) True cs
      else if c = backslash \<and> q \<noteq> single_quote
      then (case cs of [] \<Rightarrow> (True, [], c # cs, q, True) | d # ds \<Rightarrow> push d (spec_token q True ds))
      else push c (spec_token q l cs))"

lemma spec_token_rest:
  "spec_token q l r = (b, t, r', q', l') \<Longrightarrow> length r' + length t \<le> length r \<and> set t \<union> set r' \<subseteq> set r"
proof (induction q l r arbitrary: b t r' q' l' rule: spec_token.induct)
  case (1 q l)
  then show ?case by simp
next
  case (2 q l c cs)
  show ?case
  proof (cases "token_end c q")
    case True
    then show ?thesis using "2.prems" by auto
  next
    case ne: False
    show ?thesis
    proof (cases "quote_toggle c q")
      case True
      then have "spec_token (if q = NUL then c else NUL) True cs = (b, t, r', q', l')"
        using "2.prems" ne by simp
      from "2.IH"(1) [OF ne True this] show ?thesis by auto
    next
      case nq: False
      show ?thesis
      proof (cases "c = backslash \<and> q \<noteq> single_quote")
        case True
        show ?thesis
        proof (cases cs)
          case Nil
          then show ?thesis using "2.prems" ne nq True by auto
        next
          case (Cons d ds)
          obtain b0 t0 r0 where r: "spec_token q True ds = (b0, t0, r0, q', l')" "t = d # t0" "r' = r0"
            using "2.prems" ne nq True Cons by (auto simp: push_def split: prod.splits)
          from "2.IH"(2) [OF ne nq True Cons r(1)] show ?thesis using r Cons by auto
        qed
      next
        case False
        then obtain t0 where r: "spec_token q l cs = (b, t0, r', q', l')" "t = c # t0"
          using "2.prems" ne nq by (auto simp: push_def split: prod.splits)
        from "2.IH"(3) [OF ne nq False r(1)] show ?thesis using r by auto
      qed
    qed
  qed
qed

lemma spec_rest_shorter:
  assumes "spec_token NUL False (dropWhile isspace r) = (False, t, r2, q, l)" and "dropWhile isspace r \<noteq> []"
  shows "length (tl r2) < length r"
proof -
  have "length (dropWhile isspace r) \<le> length r" by (rule length_dropWhile_le)
  then show ?thesis using spec_token_rest [OF assms(1)] assms(2) by (cases "dropWhile isspace r") auto
qed

function spec_tokenize :: "int \<Rightarrow> nat \<Rightarrow> nat \<Rightarrow> string \<Rightarrow> shell_parse_result \<times> string list" where
  "spec_tokenize argv_max n k r =
     (let r1 = dropWhile isspace r;
          res = (\<lambda>argc e column op. \<lparr>sp_argc = int argc, sp_error = e, sp_column = column, sp_operator = op\<rparr>)
      in if r1 = [] then (res k PARSE_OK 0 [], [])
         else if argv_max \<le> int k then (res k PARSE_TOO_MANY_ARGUMENTS (n - length r1) [], [])
         else (case spec_token NUL False r1 of
                 (dangling, t, r2, quote, literalized) \<Rightarrow>
                   if dangling then (res (k + 1) PARSE_DANGLING_ESCAPE (n - length r2) [], [])
                   else if quote \<noteq> NUL then (res (k + 1) (quote_error quote) (n - length r2) [], [])
                   else (case (if literalized then None else shell_operator_token t) of
                           Some op \<Rightarrow> (res (k + 1) PARSE_UNSUPPORTED_OPERATOR (n - length r1) op, [])
                         | None \<Rightarrow> (case spec_tokenize argv_max n (k + 1) (tl r2) of
                                      (result, ts) \<Rightarrow> (result, t # ts)))))"
  by pat_completeness auto

termination
  by (relation "measure (\<lambda>(_, _, _, r). length r)")
     (simp, simp only: in_measure case_prod_conv simp_thms, hypsubst, rule spec_rest_shorter,
      erule sym, assumption)

declare spec_tokenize.simps [simp del]

section \<open>The buffer implements the specification\<close>

lemma buf_at_gap:
  "length g = m \<Longrightarrow> buf_at (p @ g @ x) (length p + m + n) = buf_at x n"
  by (simp add: buf_at_def nth_append add.assoc)

lemma buf_at_gap0: "length g = m \<Longrightarrow> buf_at (p @ g @ x) (length p + m) = buf_at x 0"
  using buf_at_gap [of g m p x 0] by simp

lemma buf_at_0 [simp]: "buf_at (c # x) 0 = c" "buf_at (c # d # x) (Suc 0) = d" "buf_at (c # x) (Suc n) = buf_at x n"
  by (simp_all add: buf_at_def)

text \<open>Writing at the write cursor, which is not after the read cursor, spoils no unread byte.\<close>

lemma write_gap:
  assumes "g @ [c] = x # g'"
  shows "(p @ g @ c # r)[length p := d] = (p @ [d]) @ g' @ r"
proof -
  have e: "p @ g @ c # r = p @ x # g' @ r" using arg_cong [OF assms, of "\<lambda>l. p @ l @ r"] by simp
  show ?thesis unfolding e by simp
qed

lemma gap_shift: "\<exists>x g'. g @ [c] = x # g' \<and> length g' = length g"
  by (cases g) auto

lemma skip_spaces_refines:
  assumes "length g = m"
  shows "skip_spaces (p @ g @ r @ [NUL]) (length p + m)
    = length p + m + (length r - length (dropWhile isspace r))"
  using assms
proof (induction r arbitrary: g m)
  case Nil
  then show ?case by (subst skip_spaces.simps) (simp add: buf_at_gap0)
next
  case (Cons c r)
  show ?case
  proof (cases "isspace c")
    case True
    have "skip_spaces (p @ (g @ [c]) @ r @ [NUL]) (length p + (m + 1))
        = length p + (m + 1) + (length r - length (dropWhile isspace r))"
      using Cons.prems by (intro Cons.IH) simp
    moreover have "length (dropWhile isspace r) \<le> length r" by (rule length_dropWhile_le)
    ultimately show ?thesis using True Cons.prems
      by (subst skip_spaces.simps) (simp add: buf_at_gap0 Suc_diff_le)
  next
    case False
    then show ?thesis using Cons.prems by (subst skip_spaces.simps) (simp add: buf_at_gap0)
  qed
qed

lemma token_loop_refines:
  assumes "NUL \<notin> set r" and "spec_token q l r = (b, t, r', q', l')"
  shows "\<exists>g'. token_loop (p @ g @ r @ [NUL]) (length p + length g) (length p) q l =
      (b, (p @ t) @ g' @ r' @ [NUL], length p + length t + length g', length p + length t, q', l')
    \<and> length t + length g' + length r' = length g + length r"
  using assms
proof (induction q l r arbitrary: b t r' q' l' p g rule: spec_token.induct)
  case (1 q l)
  have "token_end (buf_at (p @ g @ [NUL]) (length p + length g)) q" by (simp add: buf_at_gap0 token_end_def)
  from token_loop_stop [OF this] show ?case using 1 by (auto intro!: exI [of _ g])
next
  case (2 q l c cs)
  let ?buf = "p @ g @ (c # cs) @ [NUL]" and ?rd = "length p + length g"
  have ch: "buf_at ?buf ?rd = c" by (simp add: buf_at_gap0)
  have nul: "NUL \<notin> set cs" "c \<noteq> NUL" using "2.prems"(1) by auto
  show ?case
  proof (cases "token_end c q")
    case True
    then show ?thesis using "2.prems"(2) token_loop_stop [of ?buf ?rd q] ch by (auto intro!: exI [of _ g])
  next
    case ne: False
    show ?thesis
    proof (cases "quote_toggle c q")
      case True
      have "spec_token (if q = NUL then c else NUL) True cs = (b, t, r', q', l')"
        using "2.prems" ne True by simp
      from "2.IH"(1) [OF ne True nul(1) this, of p "g @ [c]"] obtain g' where
        g': "token_loop (p @ (g @ [c]) @ cs @ [NUL]) (length p + length (g @ [c])) (length p)
              (if q = NUL then c else NUL) True =
            (b, (p @ t) @ g' @ r' @ [NUL], length p + length t + length g', length p + length t, q', l')"
          "length t + length g' + length r' = length (g @ [c]) + length cs" by blast
      then show ?thesis using token_loop_quote [of ?buf ?rd q] ne True
        unfolding ch by (intro exI [of _ g']) simp
    next
      case nq: False
      show ?thesis
      proof (cases "c = backslash \<and> q \<noteq> single_quote")
        case esc: True
        show ?thesis
        proof (cases cs)
          case Nil
          have "buf_at ?buf (?rd + 1) = NUL" using buf_at_gap [of g "length g" p "[c, NUL]" 1] Nil by simp
          then show ?thesis using "2.prems" ne nq esc Nil token_loop_escape [of ?buf ?rd q] unfolding ch
            by (intro exI [of _ g]) auto
        next
          case (Cons d ds)
          have d: "buf_at ?buf (?rd + 1) = d" "d \<noteq> NUL" "NUL \<notin> set ds"
            using buf_at_gap [of g "length g" p "c # d # ds @ [NUL]" 1] Cons nul by auto
          obtain t0 where r: "spec_token q True ds = (b, t0, r', q', l')" "t = d # t0"
            using "2.prems" ne nq esc Cons by (auto simp: push_def split: prod.splits)
          obtain x g1 where g1: "(g @ [c]) @ [d] = x # g1" "length g1 = length (g @ [c])"
            using gap_shift [of "g @ [c]" d] by blast
          have w: "?buf[length p := d] = (p @ [d]) @ g1 @ ds @ [NUL]"
            using write_gap [OF g1(1), of p "ds @ [NUL]" d] Cons by simp
          from "2.IH"(2) [OF ne nq esc Cons d(3) r(1), of "p @ [d]" g1] obtain g' where
            g': "token_loop ((p @ [d]) @ g1 @ ds @ [NUL]) (length (p @ [d]) + length g1) (length (p @ [d])) q True =
              (b, ((p @ [d]) @ t0) @ g' @ r' @ [NUL], length (p @ [d]) + length t0 + length g',
               length (p @ [d]) + length t0, q', l')"
              "length t0 + length g' + length r' = length g1 + length ds" by blast
          have "token_loop ?buf ?rd (length p) q l = token_loop (?buf[length p := d]) (?rd + 2) (length p + 1) q True"
            using token_loop_escape [of ?buf ?rd q "length p" l] ne nq esc unfolding ch d(1) by (simp only: d(2) if_False simp_thms)
          moreover have "?rd + 2 = length (p @ [d]) + length g1" "length p + 1 = length (p @ [d])"
            using g1(2) by simp_all
          ultimately have "token_loop ?buf ?rd (length p) q l = (b, ((p @ [d]) @ t0) @ g' @ r' @ [NUL],
              length (p @ [d]) + length t0 + length g', length (p @ [d]) + length t0, q', l')"
            by (simp only: w g'(1))
          then show ?thesis using g'(2) g1(2) r(2) Cons by (intro exI [of _ g']) simp
        qed
      next
        case pl: False
        obtain t0 where r: "spec_token q l cs = (b, t0, r', q', l')" "t = c # t0"
        proof -
          have "push c (spec_token q l cs) = (b, t, r', q', l')"
            using "2.prems"(2) ne nq pl by (simp only: spec_token.simps if_False simp_thms)
          then show ?thesis using that by (cases "spec_token q l cs") (simp add: push_def)
        qed
        obtain x g1 where g1: "g @ [c] = x # g1" "length g1 = length g" using gap_shift [of g c] by blast
        have w: "?buf[length p := c] = (p @ [c]) @ g1 @ cs @ [NUL]"
          using write_gap [OF g1(1), of p "cs @ [NUL]" c] by simp
        from "2.IH"(3) [OF ne nq pl nul(1) r(1), of "p @ [c]" g1] obtain g' where
          g': "token_loop ((p @ [c]) @ g1 @ cs @ [NUL]) (length (p @ [c]) + length g1) (length (p @ [c])) q l =
            (b, ((p @ [c]) @ t0) @ g' @ r' @ [NUL], length (p @ [c]) + length t0 + length g',
             length (p @ [c]) + length t0, q', l')"
            "length t0 + length g' + length r' = length g1 + length cs" by blast
        then show ?thesis using token_loop_plain [of ?buf ?rd q "length p" l] ne nq pl g1(2) r(2)
          unfolding ch w by (intro exI [of _ g']) simp
      qed
    qed
  qed
qed

text \<open>The tokens as they lie at the front of the buffer, each with its terminator.\<close>

definition packed :: "string list \<Rightarrow> string" where
  "packed ts = concat (map (\<lambda>t. t @ [NUL]) ts)"

fun offsets :: "nat \<Rightarrow> string list \<Rightarrow> nat list" where
  "offsets n [] = []"
| "offsets n (t # ts) = n # offsets (n + length t + 1) ts"

lemma packed_snoc: "packed (ts @ [t]) = packed ts @ t @ [NUL]"
  by (simp add: packed_def)

lemma offsets_snoc: "offsets n (ts @ [t]) = offsets n ts @ [n + length (packed ts)]"
  by (induction ts arbitrary: n) (simp_all add: packed_def)

lemma offsets_length [simp]: "length (offsets n ts) = length ts"
  by (induction ts arbitrary: n) simp_all

lemma cstring_at_token: "NUL \<notin> set t \<Longrightarrow> cstring_at (p @ t @ NUL # x) (length p) = t"
  by (simp add: cstring_at_def) (subst takeWhile_append2, auto)

lemma offsets_tokens:
  assumes "\<forall>t \<in> set ts. NUL \<notin> set t"
  shows "map (cstring_at (p @ packed ts @ x)) (offsets (length p) ts) = ts"
  using assms
proof (induction ts arbitrary: p)
  case Nil
  then show ?case by simp
next
  case (Cons t ts)
  have "map (cstring_at ((p @ t @ [NUL]) @ packed ts @ x)) (offsets (length (p @ t @ [NUL])) ts) = ts"
    using Cons by (intro Cons.IH) simp
  moreover have "cstring_at (p @ t @ NUL # packed ts @ x) (length p) = t"
    using Cons.prems by (intro cstring_at_token) simp
  ultimately show ?case by (simp add: packed_def)
qed

lemma tokenize_loop_unfold:
  "tokenize_loop argv_max buf rd wr argv =
     (let rd1 = skip_spaces buf rd
      in if buf_at buf rd1 = NUL then parse_error buf argv PARSE_OK 0 []
         else if argv_max \<le> int (length argv)
         then parse_error buf argv PARSE_TOO_MANY_ARGUMENTS rd1 []
         else (case token_loop buf rd1 wr NUL False of
                 (dangling, buf1, rd2, wr1, quote, literalized) \<Rightarrow>
                   if dangling
                   then parse_error buf1 (argv @ [wr]) PARSE_DANGLING_ESCAPE rd2 []
                   else if quote \<noteq> NUL
                   then parse_error buf1 (argv @ [wr]) (quote_error quote) rd2 []
                   else let rd3 = (if isspace (buf_at buf1 rd2) then rd2 + 1 else rd2);
                            buf2 = buf1[wr1 := NUL]
                        in (case (if literalized then None
                                  else shell_operator_token (cstring_at buf2 wr)) of
                              Some op \<Rightarrow> parse_error buf2 (argv @ [wr]) PARSE_UNSUPPORTED_OPERATOR rd1 op
                            | None \<Rightarrow> tokenize_loop argv_max buf2 rd3 (wr1 + 1) (argv @ [wr]))))"
proof (cases "buf_at buf rd = NUL")
  case True
  then have "skip_spaces buf rd = rd" by (subst skip_spaces.simps) simp
  with True show ?thesis by (subst tokenize_loop.simps) (simp add: Let_def)
next
  case False
  then show ?thesis by (subst tokenize_loop.simps) (simp only: if_False)
qed

text \<open>After a token the read cursor is at its end: at the terminator or at a space, which is skipped.\<close>

lemma spec_token_end:
  "spec_token q l r = (False, t, r', NUL, l') \<Longrightarrow> r' = [] \<or> isspace (hd r') \<or> hd r' = NUL"
proof (induction q l r arbitrary: t r' l' rule: spec_token.induct)
  case (1 q l)
  then show ?case by simp
next
  case (2 q l c cs)
  show ?case
  proof (cases "token_end c q")
    case True
    then show ?thesis using "2.prems" by (auto simp: token_end_def)
  next
    case False
    show ?thesis
      using "2.prems" False "2.IH"(1) [OF False] "2.IH"(2) [OF False] "2.IH"(3) [OF False]
      by (fastforce simp: push_def split: if_splits prod.splits list.splits)
  qed
qed

lemma tokenize_loop_refines:
  assumes "NUL \<notin> set r" and "\<forall>t \<in> set toks. NUL \<notin> set t"
    and "spec_tokenize argv_max n (length toks) r = (res, ts)"
    and "length (packed toks) + length g + length r = n"
  shows "\<exists>buf argv. tokenize_loop argv_max (packed toks @ g @ r @ [NUL]) (length (packed toks) + length g)
        (length (packed toks)) (offsets 0 toks) = (res, buf, argv)
    \<and> length buf = n + 1 \<and> int (length argv) = sp_argc res \<and> (\<forall>t \<in> set ts. NUL \<notin> set t)
    \<and> (sp_error res = PARSE_OK \<longrightarrow> argv = offsets 0 (toks @ ts) \<and> (\<exists>x. buf = packed (toks @ ts) @ x))"
  using assms
proof (induction "length r" arbitrary: r toks g res ts rule: less_induct)
  case less
  let ?p = "packed toks" and ?r1 = "dropWhile isspace r"
  let ?buf = "?p @ g @ r @ [NUL]" and ?rd = "length ?p + length g"
  obtain sp where sp: "r = sp @ ?r1" "length sp = length r - length ?r1"
    by (metis add_diff_cancel_right' length_append takeWhile_dropWhile_id)
  have sk: "skip_spaces ?buf ?rd = length ?p + length (g @ sp)"
    using skip_spaces_refines [of g _ ?p r] sp(2) by simp
  have buf: "?buf = ?p @ (g @ sp) @ ?r1 @ [NUL]" using sp(1) by (metis append.assoc)
  have len: "length ?p + length (g @ sp) + length ?r1 = n" using less.prems(4) arg_cong [OF sp(1), of length] by simp
  have at: "buf_at ?buf (length ?p + length (g @ sp)) = buf_at (?r1 @ [NUL]) 0"
    unfolding buf by (rule buf_at_gap0) simp
  have n1: "NUL \<notin> set ?r1" using less.prems(1) by (meson set_dropWhileD)
  show ?case
  proof (cases ?r1)
    case Nil
    then have "buf_at ?buf (length ?p + length (g @ sp)) = NUL" unfolding at Nil by simp
    then have "tokenize_loop argv_max ?buf ?rd (length ?p) (offsets 0 toks) = parse_error ?buf (offsets 0 toks) PARSE_OK 0 []"
      by (subst tokenize_loop_unfold) (simp only: Let_def sk if_True simp_thms)
    moreover have "res = \<lparr>sp_argc = int (length toks), sp_error = PARSE_OK, sp_column = 0, sp_operator = []\<rparr>" "ts = []"
      using less.prems(3) Nil by (subst (asm) spec_tokenize.simps, simp)+
    ultimately show ?thesis using less.prems(4) by (simp add: parse_error_def)
  next
    case (Cons c cs)
    then have c: "buf_at ?buf (length ?p + length (g @ sp)) = c" "c \<noteq> NUL" "?r1 \<noteq> []"
      using n1 unfolding at by auto
    have rd1: "length ?p + length (g @ sp) = n - length ?r1" using len by simp
    note start = tokenize_loop_unfold [of argv_max ?buf ?rd "length ?p" "offsets 0 toks", unfolded Let_def sk c(1)]
    note spec = less.prems(3) [unfolded spec_tokenize.simps [of argv_max n "length toks" r] Let_def]
    show ?thesis
    proof (cases "argv_max \<le> int (length toks)")
      case True
      then have "res = \<lparr>sp_argc = int (length toks), sp_error = PARSE_TOO_MANY_ARGUMENTS,
          sp_column = n - length ?r1, sp_operator = []\<rparr> \<and> ts = []"
        using spec by (simp only: c(3) if_True if_False) simp
      then show ?thesis using start True c(2) rd1 less.prems(4)
        by (simp add: parse_error_def)
    next
      case few: False
      obtain b t r2 q l where st: "spec_token NUL False ?r1 = (b, t, r2, q, l)" by (metis prod_cases5)
      obtain g1 where tl: "token_loop (?p @ (g @ sp) @ ?r1 @ [NUL]) (length ?p + length (g @ sp)) (length ?p) NUL False =
          (b, (?p @ t) @ g1 @ r2 @ [NUL], length ?p + length t + length g1, length ?p + length t, q, l)"
        "length t + length g1 + length r2 = length (g @ sp) + length ?r1"
        using token_loop_refines [OF n1 st] by blast
      note tl1 = tl(1) [folded buf]
      have rd2: "length ?p + length t + length g1 = n - length r2" using tl(2) len by simp
      note rest = spec_token_rest [OF st]
      show ?thesis
      proof (cases "b \<or> q \<noteq> NUL")
        case True
        then have "res = \<lparr>sp_argc = int (length toks) + 1, sp_error = (if b then PARSE_DANGLING_ESCAPE else quote_error q),
            sp_column = n - length r2, sp_operator = []\<rparr> \<and> ts = []"
          using spec by (simp only: c(3) few st prod.case if_True if_False) (auto split: if_splits)
        moreover have "quote_error q \<noteq> PARSE_OK" by (simp add: quote_error_def)
        moreover have "tokenize_loop argv_max ?buf ?rd (length ?p) (offsets 0 toks) =
            parse_error ((?p @ t) @ g1 @ r2 @ [NUL]) (offsets 0 toks @ [length ?p])
              (if b then PARSE_DANGLING_ESCAPE else quote_error q) (n - length r2) []"
          using True few by (simp only: start offsets_length c(2) tl1 prod.case rd2 if_False simp_thms)
            (cases b; simp)
        ultimately show ?thesis using len tl(2) by (simp add: parse_error_def)
      next
        case ok: False
        let ?buf1 = "(?p @ t) @ g1 @ r2 @ [NUL]" and ?wr1 = "length ?p + length t"
        let ?toks = "toks @ [t]" and ?c = "hd (r2 @ [NUL])"
        have n2: "NUL \<notin> set r2" "NUL \<notin> set t" using rest n1 by auto
        have at2: "buf_at ?buf1 (?wr1 + length g1) = ?c"
          using buf_at_gap0 [of g1 "length g1" "?p @ t" "r2 @ [NUL]"] by (cases r2) simp_all
        obtain x g2 where g2: "g1 @ [?c] = x # g2" "length g2 = length g1" using gap_shift [of g1 ?c] by blast
        have r2: "r2 @ [NUL] = ?c # tl (r2 @ [NUL])" by (cases r2) simp_all
        have buf2: "?buf1[?wr1 := NUL] = packed ?toks @ g2 @ tl (r2 @ [NUL])"
          using write_gap [OF g2(1), of "?p @ t" "tl (r2 @ [NUL])" NUL] r2 by (simp add: packed_snoc)
        have tok: "cstring_at (packed ?toks @ g2 @ tl (r2 @ [NUL])) (length ?p) = t"
          using cstring_at_token [OF n2(2), of ?p "g2 @ tl (r2 @ [NUL])"] by (simp add: packed_snoc)
        have lp: "?wr1 + 1 = length (packed ?toks)" by (simp add: packed_snoc)
        have off: "offsets 0 toks @ [length ?p] = offsets 0 ?toks" by (simp add: offsets_snoc)
        have tall: "\<forall>u \<in> set ?toks. NUL \<notin> set u" using less.prems(2) n2(2) by auto
        let ?op = "if l then None else shell_operator_token t"
        have step: "tokenize_loop argv_max ?buf ?rd (length ?p) (offsets 0 toks) =
          (case ?op of Some op \<Rightarrow> parse_error (packed ?toks @ g2 @ tl (r2 @ [NUL])) (offsets 0 ?toks)
               PARSE_UNSUPPORTED_OPERATOR (n - length ?r1) op
           | None \<Rightarrow> tokenize_loop argv_max (packed ?toks @ g2 @ tl (r2 @ [NUL]))
               (if isspace ?c then ?wr1 + length g1 + 1 else ?wr1 + length g1) (length (packed ?toks)) (offsets 0 ?toks))"
          using ok few
          by (simp only: start offsets_length c(2) tl1 [unfolded rd1] prod.case if_False simp_thms de_Morgan_disj
              at2 buf2 tok off lp rd1)
        have blen: "length (packed ?toks @ g2 @ tl (r2 @ [NUL])) = n + 1"
          using arg_cong [OF buf2, of length] len tl(2) by simp
        show ?thesis
        proof (cases ?op)
          case (Some op)
          then have "res = \<lparr>sp_argc = int (length toks) + 1, sp_error = PARSE_UNSUPPORTED_OPERATOR,
              sp_column = n - length ?r1, sp_operator = op\<rparr> \<and> ts = []"
            using spec ok by (simp only: c(3) few st prod.case if_False simp_thms) auto
          then show ?thesis using step Some blen by (simp add: parse_error_def)
        next
          case None
          obtain ts1 where ts1: "spec_tokenize argv_max n (length ?toks) (tl r2) = (res, ts1)" "ts = t # ts1"
            using spec ok None by (simp only: c(3) few st prod.case if_False simp_thms) (auto split: prod.splits)
          show ?thesis
          proof (cases r2)
            case Nil
            have "spec_tokenize argv_max n (length ?toks) (tl r2) =
                (\<lparr>sp_argc = int (length ?toks), sp_error = PARSE_OK, sp_column = 0, sp_operator = []\<rparr>, [])"
              by (subst spec_tokenize.simps) (simp add: Nil)
            then have res: "res = \<lparr>sp_argc = int (length ?toks), sp_error = PARSE_OK, sp_column = 0, sp_operator = []\<rparr>"
              "ts = [t]" using ts1 by simp_all
            have nsp: "\<not> isspace ?c" by (simp add: Nil)
            have stop: "buf_at (packed ?toks @ g2 @ tl (r2 @ [NUL])) (?wr1 + length g1) = NUL"
            proof (cases g2 rule: rev_cases)
              case Nil
              then have "length (packed ?toks @ g2 @ tl (r2 @ [NUL])) = ?wr1 + length g1 + 1"
                using g2(2) \<open>r2 = []\<close> lp by simp
              then show ?thesis
                using Nil g2(2) \<open>r2 = []\<close> by (simp add: buf_at_def packed_snoc nth_append)
            next
              case (snoc g3 y)
              have "y = NUL" using g2(1) snoc \<open>r2 = []\<close> by (cases g1) auto
              moreover have "length g1 = Suc (length g3)" using snoc g2(2) by simp
              ultimately show ?thesis using \<open>r2 = []\<close>
                by (simp add: snoc buf_at_def packed_snoc nth_append)
            qed
            have "tokenize_loop argv_max ?buf ?rd (length ?p) (offsets 0 toks) =
                parse_error (packed ?toks @ g2 @ tl (r2 @ [NUL])) (offsets 0 ?toks) PARSE_OK 0 []"
              unfolding step None option.case using nsp stop by (subst tokenize_loop.simps) simp
            then show ?thesis using res tall blen n2 by (simp add: parse_error_def)
          next
            case (Cons c2 cs2)
            have "isspace c2" using spec_token_end [of NUL False ?r1 t r2 l] st ok n2(1) Cons by auto
            then have sc: "isspace ?c" by (simp add: Cons)
            have shorter: "length (tl r2) < length r"
              using rest Cons length_dropWhile_le [of isspace r] by simp
            have n3: "NUL \<notin> set (tl r2)" using n2(1) Cons by auto
            have tl2: "tl (r2 @ [NUL]) = tl r2 @ [NUL]" by (simp add: Cons)
            have l3: "length (packed ?toks) + length g2 + length (tl r2) = n"
              using blen tl2 by simp
            have rd3: "?wr1 + length g1 + 1 = length (packed ?toks) + length g2" using lp g2(2) by simp
            from less.hyps [OF shorter n3 tall ts1(1) l3] obtain buf' argv' where
              ih: "tokenize_loop argv_max (packed ?toks @ g2 @ tl r2 @ [NUL]) (length (packed ?toks) + length g2)
                    (length (packed ?toks)) (offsets 0 ?toks) = (res, buf', argv')"
                "length buf' = n + 1" "int (length argv') = sp_argc res" "\<forall>t \<in> set ts1. NUL \<notin> set t"
                "sp_error res = PARSE_OK \<longrightarrow> argv' = offsets 0 (?toks @ ts1) \<and> (\<exists>x. buf' = packed (?toks @ ts1) @ x)"
              by blast
            have "tokenize_loop argv_max ?buf ?rd (length ?p) (offsets 0 toks) = (res, buf', argv')"
              unfolding step None option.case tl2 if_P [OF sc] rd3 by (rule ih(1))
            then show ?thesis using ih(2-5) ts1(2) n2(2) by simp
          qed
        qed
      qed
    qed
  qed
qed

lemma spec_argc_bound:
  assumes "spec_tokenize argv_max n k r = (res, ts)" and "int k \<le> argv_max"
  shows "sp_argc res \<le> argv_max"
  using assms
proof (induction "length r" arbitrary: r k res ts rule: less_induct)
  case less
  let ?r1 = "dropWhile isspace r"
  note spec = less.prems(1) [unfolded spec_tokenize.simps [of argv_max n k r] Let_def]
  obtain b t r2 q l where st: "spec_token NUL False ?r1 = (b, t, r2, q, l)" by (metis prod_cases5)
  obtain res' ts' where rec: "spec_tokenize argv_max n (k + 1) (tl r2) = (res', ts')" by fastforce
  show ?case
  proof (cases "?r1 = [] \<or> argv_max \<le> int k \<or> b \<or> q \<noteq> NUL \<or> (if l then None else shell_operator_token t) \<noteq> None")
    case True
    then show ?thesis using spec less.prems(2) unfolding st by (auto split: if_splits option.splits prod.splits)
  next
    case False
    then have f: "?r1 \<noteq> []" "\<not> argv_max \<le> int k" "\<not> b" "\<not> q \<noteq> NUL"
      "(if l then None else shell_operator_token t) = None" by auto
    have "res = res'" using spec f by (simp only: st prod.case if_False option.case rec simp_thms) simp
    moreover have "sp_argc res' \<le> argv_max"
      using f st spec_rest_shorter [of r t r2 q l] by (intro less.hyps [OF _ rec]) simp_all
    ultimately show ?thesis by simp
  qed
qed

text \<open>
  C14. The tokenizer works in place: although it overwrites the line while it reads it, it computes
  what the pure tokenizer computes from the original text. The result (count, error, column and
  operator) is the same on every path; when it is a success, the offsets in \<open>argv\<close> point at exactly
  the tokens; the buffer keeps its length and \<open>argc\<close> is the number of tokens, within the bound.
\<close>

theorem tokenize_in_place:
  assumes "NUL \<notin> set line" and "0 < argv_max"
    and "spec_tokenize argv_max (length line) 0 line = (res, ts)"
  shows "\<exists>buf argv. solar_os_shell_tokenize (Some line) True argv_max = (res, buf, argv)
    \<and> length buf = length line + 1 \<and> int (length argv) = sp_argc res \<and> sp_argc res \<le> argv_max
    \<and> (sp_error res = PARSE_OK \<longrightarrow> tokenized_args (res, buf, argv) = ts)"
proof -
  have "packed [] = []" by (simp add: packed_def)
  with tokenize_loop_refines [of line "[]" argv_max "length line" res ts "[]"] assms obtain buf argv where
    r: "tokenize_loop argv_max (line @ [NUL]) 0 0 [] = (res, buf, argv)" "length buf = length line + 1"
      "int (length argv) = sp_argc res" "\<forall>t \<in> set ts. NUL \<notin> set t"
      "sp_error res = PARSE_OK \<longrightarrow> argv = offsets 0 ts \<and> (\<exists>x. buf = packed ts @ x)"
    by auto
  have "sp_argc res \<le> argv_max" using spec_argc_bound [OF assms(3)] assms(2) by simp
  moreover have "tokenized_args (res, buf, argv) = ts" if ok: "sp_error res = PARSE_OK"
  proof -
    obtain x where x: "argv = offsets 0 ts" "buf = packed ts @ x" using r(5) ok by blast
    show ?thesis using offsets_tokens [OF r(4), of "[]" x] by (simp add: tokenized_args_def x)
  qed
  ultimately show ?thesis using r assms(2) by (simp add: solar_os_shell_tokenize_def)
qed

definition demo_line :: string where
  "demo_line = ''a '' @ single_quote # ''b c'' @ [single_quote]"

theorem tokenize_in_place_witness:
  "sp_error (fst (solar_os_shell_tokenize (Some demo_line) True 4)) = PARSE_OK
   \<and> tokenized_args (solar_os_shell_tokenize (Some demo_line) True 4) = [''a'', ''b c'']"
proof -
  have "spec_tokenize 4 (length demo_line) 0 demo_line =
      (\<lparr>sp_argc = 2, sp_error = PARSE_OK, sp_column = 0, sp_operator = []\<rparr>, [''a'', ''b c''])"
    by (simp add: demo_line_def spec_tokenize.simps token_end_def quote_toggle_def push_def char_defs isspace_def
        shell_operator_token_def)
  from tokenize_in_place [OF _ _ this] show ?thesis by (auto simp: demo_line_def char_defs)
qed

section \<open>Quoting\<close>

text \<open>How an argument is written so that it survives: in single quotes, a quote itself escaped.\<close>

definition quote_body :: "string \<Rightarrow> string" where
  "quote_body a = concat (map (\<lambda>c. if c = single_quote
     then [single_quote, backslash, single_quote, single_quote] else [c]) a)"

definition shell_quote :: "string \<Rightarrow> string" where
  "shell_quote a = single_quote # quote_body a @ [single_quote]"

definition shell_join :: "string list \<Rightarrow> string" where
  "shell_join args = concat (map (\<lambda>a. '' '' @ shell_quote a) args)"

lemma quote_distinct [simp]:
  "single_quote \<noteq> NUL" "backslash \<noteq> NUL" "backslash \<noteq> single_quote" "single_quote \<noteq> backslash"
  "NUL \<noteq> single_quote" "NUL \<noteq> backslash" "backslash \<noteq> double_quote" "single_quote \<noteq> double_quote"
  "\<not> isspace single_quote" "\<not> isspace backslash"
  by (simp_all add: char_defs isspace_def)

lemma spec_token_quoted:
  assumes "NUL \<notin> set a" and "r = [] \<or> isspace (hd r)"
  shows "spec_token single_quote True (quote_body a @ single_quote # r) = (False, a, r, NUL, True)"
  using assms(1)
proof (induction a)
  case Nil
  have "spec_token NUL True r = (False, [], r, NUL, True)"
    using assms(2) by (cases r) (simp_all add: token_end_def)
  then show ?case by (simp add: quote_body_def token_end_def quote_toggle_def)
next
  case (Cons c a)
  then have ih: "spec_token single_quote True (quote_body a @ single_quote # r) = (False, a, r, NUL, True)" by simp
  show ?case
  proof (cases "c = single_quote")
    case True
    have "quote_body (c # a) = single_quote # backslash # single_quote # single_quote # quote_body a"
      by (simp add: quote_body_def True)
    then show ?thesis using ih True by (simp add: token_end_def quote_toggle_def push_def)
  next
    case False
    have "quote_body (c # a) = c # quote_body a" by (simp add: quote_body_def False)
    then show ?thesis using ih False Cons.prems by (auto simp: token_end_def quote_toggle_def push_def)
  qed
qed

lemma spec_tokenize_quoted:
  assumes "\<forall>a \<in> set args. NUL \<notin> set a" and "int k + int (length args) \<le> argv_max"
  shows "spec_tokenize argv_max n k (shell_join args) =
    (\<lparr>sp_argc = int (k + length args), sp_error = PARSE_OK, sp_column = 0, sp_operator = []\<rparr>, args)"
  using assms
proof (induction args arbitrary: k)
  case Nil
  then show ?case by (subst spec_tokenize.simps) (simp add: shell_join_def)
next
  case (Cons a args)
  let ?r = "shell_join args"
  have sp: "isspace (CHR '' '')" by (simp add: isspace_def)
  have join: "shell_join (a # args) = CHR '' '' # single_quote # quote_body a @ single_quote # ?r"
    by (simp add: shell_join_def shell_quote_def)
  have r: "?r = [] \<or> isspace (hd ?r)" using sp by (cases args) (simp_all add: shell_join_def)
  have dw: "dropWhile isspace (shell_join (a # args)) = single_quote # quote_body a @ single_quote # ?r"
    by (simp add: join sp)
  have st: "spec_token NUL False (single_quote # quote_body a @ single_quote # ?r) = (False, a, ?r, NUL, True)"
    using spec_token_quoted [OF _ r, of a] Cons.prems(1) by (simp add: token_end_def quote_toggle_def)
  have tl: "spec_tokenize argv_max n (Suc k) (tl ?r) = spec_tokenize argv_max n (Suc k) ?r"
  proof (cases args)
    case Nil
    then show ?thesis by (simp add: shell_join_def)
  next
    case c: (Cons b bs)
    have "dropWhile isspace (tl ?r) = dropWhile isspace ?r" using sp by (simp add: c shell_join_def)
    then show ?thesis
      unfolding spec_tokenize.simps [of _ _ _ "tl ?r"] spec_tokenize.simps [of _ _ _ ?r] by (simp only:)
  qed
  have ih: "spec_tokenize argv_max n (Suc k) ?r =
      (\<lparr>sp_argc = int (Suc k + length args), sp_error = PARSE_OK, sp_column = 0, sp_operator = []\<rparr>, args)"
    using Cons.prems by (intro Cons.IH) simp_all
  have "\<not> argv_max \<le> int k" using Cons.prems(2) by simp
  then show ?case
    unfolding spec_tokenize.simps [of _ _ _ "shell_join (a # args)"] dw Let_def st
    by (simp add: tl ih)
qed

lemma join_no_NUL: "\<forall>a \<in> set args. NUL \<notin> set a \<Longrightarrow> NUL \<notin> set (shell_join args)"
proof -
  have "(CHR '' '') \<noteq> NUL" by (simp add: NUL_def)
  moreover have "NUL \<notin> set (quote_body a)" if "NUL \<notin> set a" for a
    using that by (induction a) (auto simp: quote_body_def)
  ultimately show "\<forall>a \<in> set args. NUL \<notin> set a \<Longrightarrow> NUL \<notin> set (shell_join args)"
    by (auto simp: shell_join_def shell_quote_def)
qed

text \<open>
  C15. Every argument list can be typed: whatever the arguments contain (spaces, quotes,
  backslashes, operators, nothing at all), the line that writes each one in single quotes is split
  into exactly these arguments, as long as they fit into \<open>argv\<close>.
\<close>

theorem tokenize_quoted_args:
  assumes "\<forall>a \<in> set args. NUL \<notin> set a" and "int (length args) \<le> argv_max" and "0 < argv_max"
  shows "tokenized_args (solar_os_shell_tokenize (Some (shell_join args)) True argv_max) = args
    \<and> sp_error (fst (solar_os_shell_tokenize (Some (shell_join args)) True argv_max)) = PARSE_OK"
proof -
  have "packed [] = []" by (simp add: packed_def)
  moreover have "spec_tokenize argv_max (length (shell_join args)) 0 (shell_join args) =
      (\<lparr>sp_argc = int (length args), sp_error = PARSE_OK, sp_column = 0, sp_operator = []\<rparr>, args)"
    using spec_tokenize_quoted [OF assms(1), of 0 argv_max] assms(2) by simp
  ultimately obtain buf argv where
    r: "tokenize_loop argv_max (shell_join args @ [NUL]) 0 0 [] =
        (\<lparr>sp_argc = int (length args), sp_error = PARSE_OK, sp_column = 0, sp_operator = []\<rparr>, buf, argv)"
      "argv = offsets 0 args" "\<exists>x. buf = packed args @ x"
    using tokenize_loop_refines [OF join_no_NUL [OF assms(1)], of "[]" argv_max "length (shell_join args)" _ args "[]"]
    by fastforce
  then obtain x where x: "buf = packed args @ x" by blast
  show ?thesis using offsets_tokens [OF assms(1), of "[]" x] r assms(3) x
    by (simp add: solar_os_shell_tokenize_def tokenized_args_def)
qed

theorem tokenize_quoted_args_witness:
  "tokenized_args (solar_os_shell_tokenize (Some (shell_join [''it'' @ single_quote # ''s'', ''|''])) True 8)
     = [''it'' @ single_quote # ''s'', ''|'']"
  using tokenize_quoted_args [of "[''it'' @ single_quote # ''s'', ''|'']" 8] by (simp add: char_defs)

end
