(* ===== verification/ShellEdit.thy ===== *)
theory ShellEdit
  imports SolarBase
begin

text \<open>
  Suggestions of the shell, from \<open>src/src/shell/solar_os_shell_parse.c\<close>: the edit distance with its
  rows of bytes and its early exit, the choice of the one closest command, and the colour parser.
\<close>

section \<open>Edit distance\<close>

text \<open>
  The row under construction is the initialised part of the array \<open>current\<close>, so \<open>current[j - 1]\<close>
  is its last cell; cells are bytes and their arithmetic wraps.
\<close>

definition edit_cell :: "string \<Rightarrow> string \<Rightarrow> u8 list \<Rightarrow> u8 list \<Rightarrow> nat \<Rightarrow> u8 list \<Rightarrow> nat \<Rightarrow> u8" where
  "edit_cell left right before_previous previous i current j =
     (let left_ch = tolower (left ! (i - 1));
          right_ch = tolower (right ! (j - 1));
          substitution = previous ! (j - 1) + (if left_ch = right_ch then 0 else 1);
          insertion = current ! (j - 1) + 1;
          deletion = previous ! j + 1;
          value1 = (if substitution < insertion then substitution else insertion);
          value2 = (if deletion < value1 then deletion else value1)
      in if 1 < i \<and> 1 < j \<and> tolower (left ! (i - 1)) = tolower (right ! (j - 2))
            \<and> tolower (left ! (i - 2)) = tolower (right ! (j - 1))
         then let transposition = before_previous ! (j - 2) + 1
              in if transposition < value2 then transposition else value2
         else value2)"

definition edit_step :: "string \<Rightarrow> string \<Rightarrow> u8 list \<Rightarrow> u8 list \<Rightarrow> nat \<Rightarrow> u8 list \<times> u8 \<Rightarrow> nat \<Rightarrow> u8 list \<times> u8" where
  "edit_step left right before_previous previous i x j =
     (case x of (current, row_min) \<Rightarrow>
        let value = edit_cell left right before_previous previous i current j
        in (current @ [value], if value < row_min then value else row_min))"

definition edit_row :: "string \<Rightarrow> string \<Rightarrow> u8 list \<Rightarrow> u8 list \<Rightarrow> nat \<Rightarrow> u8 list \<times> u8" where
  "edit_row left right before_previous previous i =
     foldl (edit_step left right before_previous previous i) ([of_nat i], of_nat i) [1..<length right + 1]"

text \<open>The loop over the rows \<open>i, ..., i + k - 1\<close>: \<open>None\<close> when a row exceeds the limit.\<close>

fun edit_rows :: "int \<Rightarrow> string \<Rightarrow> string \<Rightarrow> nat \<Rightarrow> nat \<Rightarrow> u8 list \<Rightarrow> u8 list \<Rightarrow> u8 list option" where
  "edit_rows limit left right i 0 before_previous previous = Some previous"
| "edit_rows limit left right i (Suc k) before_previous previous =
     (let (current, row_min) = edit_row left right before_previous previous i
      in if word_of_int limit < row_min then None
         else edit_rows limit left right (i + 1) k previous current)"

definition solar_os_shell_edit_distance :: "string option \<Rightarrow> string option \<Rightarrow> int \<Rightarrow> int" where
  "solar_os_shell_edit_distance left right limit =
     (case (left, right) of
        (Some l, Some r) \<Rightarrow>
          if limit < 0 then limit + 1
          else if 63 < length l \<or> 63 < length r
             \<or> nat limit < (if length l > length r then length l - length r else length r - length l)
          then limit + 1
          else let row0 = map of_nat [0..<length r + 1]
               in (case edit_rows limit l r 1 (length l) row0 row0 of
                     None \<Rightarrow> limit + 1
                   | Some previous \<Rightarrow>
                       if int (unat (previous ! length r)) \<le> limit then int (unat (previous ! length r))
                       else limit + 1)
      | _ \<Rightarrow> limit + 1)"

text \<open>
  The specification: the restricted edit distance between the first \<open>i\<close> characters of \<open>a\<close> and the
  first \<open>j\<close> of \<open>b\<close> (substitution, insertion, deletion, transposition of neighbours).
\<close>

fun osa :: "string \<Rightarrow> string \<Rightarrow> nat \<Rightarrow> nat \<Rightarrow> nat" where
  "osa a b 0 j = j"
| "osa a b (Suc i) 0 = Suc i"
| "osa a b (Suc i) (Suc j) =
     (let d = min (osa a b i j + (if a ! i = b ! j then 0 else 1))
                  (min (osa a b (Suc i) j + 1) (osa a b i (Suc j) + 1))
      in if 0 < i \<and> 0 < j \<and> a ! i = b ! (j - 1) \<and> a ! (i - 1) = b ! j
         then min d (osa a b (i - 1) (j - 1) + 1) else d)"

declare osa.simps(3) [simp del]

definition edit_distance_spec :: "string \<Rightarrow> string \<Rightarrow> nat" where
  "edit_distance_spec l r = osa (map tolower l) (map tolower r) (length l) (length r)"

lemma osa_le_max: "osa a b i j \<le> max i j"
proof (induction a b i j rule: osa.induct)
  case (3 a b i j)
  have "osa a b i j \<le> max i j" using 3(1) .
  then have "osa a b (Suc i) (Suc j) \<le> max i j + 1" by (auto simp: Let_def osa.simps(3))
  then show ?case by simp
qed auto

lemma osa_cases:
  obtains "osa a b (Suc i) (Suc j) = osa a b i j" "a ! i = b ! j"
  | "osa a b (Suc i) (Suc j) = osa a b i j + 1"
  | "osa a b (Suc i) (Suc j) = osa a b (Suc i) j + 1"
  | "osa a b (Suc i) (Suc j) = osa a b i (Suc j) + 1"
  | i' j' where "i = Suc i'" "j = Suc j'" "osa a b (Suc i) (Suc j) = osa a b i' j' + 1"
proof -
  define d1 d2 d3 where "d1 = osa a b i j + (if a ! i = b ! j then 0 else 1)"
    and "d2 = osa a b (Suc i) j + 1" and "d3 = osa a b i (Suc j) + 1"
  have "osa a b (Suc i) (Suc j) \<in> {d1, d2, d3}
      \<or> (0 < i \<and> 0 < j \<and> osa a b (Suc i) (Suc j) = osa a b (i - 1) (j - 1) + 1)"
    unfolding osa.simps(3) Let_def d1_def [symmetric] d2_def [symmetric] d3_def [symmetric]
    by (simp add: min_def)
  then show ?thesis using that unfolding d1_def d2_def d3_def
    by (cases i; cases j; cases "a ! i = b ! j") auto
qed

lemma osa_diff: "i \<le> osa a b i j + j \<and> j \<le> osa a b i j + i"
proof (induction "i + j" arbitrary: i j rule: less_induct)
  case less
  show ?case
  proof (cases "i = 0 \<or> j = 0")
    case True
    then show ?thesis by (cases i) auto
  next
    case False
    then obtain i' j' where ij: "i = Suc i'" "j = Suc j'" by (metis not0_implies_Suc)
    have ih: "x \<le> osa a b x y + y \<and> y \<le> osa a b x y + x" if "x + y < i + j" for x y
      using less.hyps that by blast
    show ?thesis unfolding ij
    proof (rule osa_cases [of a b i' j'])
      fix i2 j2
      assume "i' = Suc i2" "j' = Suc j2" "osa a b (Suc i') (Suc j') = osa a b i2 j2 + 1"
      then show "Suc i' \<le> osa a b (Suc i') (Suc j') + Suc j' \<and> Suc j' \<le> osa a b (Suc i') (Suc j') + Suc i'"
        using ih [of i2 j2] ij by simp
    qed (use ih [of i' j'] ih [of i j'] ih [of i' j] ij in simp_all)
  qed
qed

lemma osa_diagonal: "osa a b (Suc i) (Suc j) \<le> osa a b i j + 1"
proof -
  define d where "d = osa a b i j"
  define e where "e = min (osa a b (Suc i) j + 1) (osa a b i (Suc j) + 1)"
  show ?thesis unfolding osa.simps(3) Let_def d_def [symmetric] e_def [symmetric]
    by (simp add: min_def)
qed

text \<open>Once a whole row exceeds the limit, so does the next one: transpositions cannot jump over a row.\<close>

lemma osa_row_exceeds:
  assumes "\<forall>j \<le> n. L < osa a b i j"
  shows "\<forall>j \<le> n. L < osa a b (Suc i) j"
proof (intro allI impI)
  fix j
  assume "j \<le> n"
  then show "L < osa a b (Suc i) j"
  proof (induction j)
    case 0
    have "osa a b i 0 = i" by (cases i) simp_all
    then show ?case using assms by (metis less_SucI osa.simps(2) zero_le)
  next
    case (Suc j)
    have r: "L < osa a b i j" "L < osa a b i (Suc j)" "L < osa a b (Suc i) j"
      using assms Suc by auto
    show ?case
    proof (rule osa_cases [of a b i j])
      fix i' j'
      assume ij: "i = Suc i'" "j = Suc j'" and e: "osa a b (Suc i) (Suc j) = osa a b i' j' + 1"
      have "osa a b i j \<le> osa a b i' j' + 1" unfolding ij by (rule osa_diagonal)
      then show "L < osa a b (Suc i) (Suc j)" using r(1) e by simp
    qed (use r in simp_all)
  qed
qed

lemma osa_rows_exceed:
  assumes "\<forall>j \<le> n. L < osa a b i j" and "i \<le> m"
  shows "\<forall>j \<le> n. L < osa a b m j"
  using assms(2,1) by (induction rule: dec_induct) (simp_all add: osa_row_exceeds)

section \<open>The rows compute the specification\<close>

lemma u8_of_nat_less: "x < 256 \<Longrightarrow> y < 256 \<Longrightarrow> (of_nat x :: u8) < of_nat y \<longleftrightarrow> x < y"
  by (simp add: word_less_nat_alt unat_of_nat take_bit_nat_eq_self)

lemma u8_min: "x < 256 \<Longrightarrow> y < 256 \<Longrightarrow> (if (of_nat x :: u8) < of_nat y then of_nat x else of_nat y) = (of_nat (min x y) :: u8)"
  by (simp add: u8_of_nat_less min_def)

definition osa_row :: "string \<Rightarrow> string \<Rightarrow> nat \<Rightarrow> nat \<Rightarrow> u8 list" where
  "osa_row a b i n = map (\<lambda>j. of_nat (osa a b i j)) [0..<n + 1]"

lemma osa_row_nth: "j \<le> n \<Longrightarrow> osa_row a b i n ! j = of_nat (osa a b i j)"
  using nth_upt [of 0 j "n + 1"] by (simp add: osa_row_def del: upt_Suc)

lemma osa_row_snoc: "osa_row a b i (Suc n) = osa_row a b i n @ [of_nat (osa a b i (Suc n))]"
  by (simp add: osa_row_def)

lemma edit_cell_osa:
  fixes l r :: string
  defines "a \<equiv> map tolower l" and "b \<equiv> map tolower r"
  assumes "Suc i \<le> length l" and "Suc j \<le> length r" and "length l \<le> 63" and "length r \<le> 63"
    and "previous = osa_row a b i (length r)" and "0 < i \<Longrightarrow> before = osa_row a b (i - 1) (length r)"
  shows "edit_cell l r before previous (Suc i) (osa_row a b (Suc i) j) (Suc j) = of_nat (osa a b (Suc i) (Suc j))"
proof -
  have bound: "osa a b x y + 1 < 256" if "x \<le> length l" "y \<le> length r" for x y
    using osa_le_max [of a b x y] that assms(5,6) by simp
  define s where "s = osa a b i j + (if a ! i = b ! j then 0 else 1)"
  define ins where "ins = osa a b (Suc i) j + 1"
  define del where "del = osa a b i (Suc j) + 1"
  define tr where "tr = osa a b (i - 1) (j - 1) + 1"
  have lt: "s < 256" "ins < 256" "del < 256" "tr < 256"
    using bound [of i j] bound [of "Suc i" j] bound [of i "Suc j"] bound [of "i - 1" "j - 1"] assms(3,4)
    by (simp_all add: s_def ins_def del_def tr_def)
  have ch: "x < length l \<Longrightarrow> tolower (l ! x) = a ! x" "y < length r \<Longrightarrow> tolower (r ! y) = b ! y" for x y
    by (simp_all add: a_def b_def)
  have S: "previous ! j + (if tolower (l ! i) = tolower (r ! j) then 0 else 1) = of_nat s"
    using assms(3,4) by (simp add: assms(7) osa_row_nth s_def ch)
  have I: "osa_row a b (Suc i) j ! j + 1 = of_nat ins" by (simp add: osa_row_nth ins_def)
  have D: "previous ! Suc j + 1 = of_nat del" using assms(4) by (simp add: assms(7) osa_row_nth del_def)
  have T: "before ! (j - 1) + 1 = of_nat tr" if "0 < i"
    using assms(4) that by (simp add: assms(8) osa_row_nth tr_def)
  have cond: "(1 < Suc i \<and> 1 < Suc j \<and> tolower (l ! i) = tolower (r ! (j - 1))
            \<and> tolower (l ! (i - 1)) = tolower (r ! j))
      \<longleftrightarrow> 0 < i \<and> 0 < j \<and> a ! i = b ! (j - 1) \<and> a ! (i - 1) = b ! j"
    using assms(3,4) ch by auto
  have m1: "(if (of_nat s :: u8) < of_nat ins then of_nat s else of_nat ins) = (of_nat (min s ins) :: u8)"
    by (rule u8_min) (use lt in simp_all)
  have m2: "(if (of_nat del :: u8) < of_nat (min s ins) then of_nat del else of_nat (min s ins))
      = (of_nat (min s (min ins del)) :: u8)"
    using u8_min [of del "min s ins"] lt by (simp add: min.commute min.left_commute min.assoc)
  have m3: "(if (of_nat tr :: u8) < of_nat (min s (min ins del)) then of_nat tr else of_nat (min s (min ins del)))
      = (of_nat (min (min s (min ins del)) tr) :: u8)"
    using u8_min [of tr "min s (min ins del)"] lt by (simp add: min.commute min.left_commute min.assoc)
  have two: "Suc j - 2 = j - 1" "Suc i - 2 = i - 1" by simp_all
  show ?thesis
    unfolding edit_cell_def Let_def cond diff_Suc_1 S I D m1 m2 two osa.simps(3) s_def [symmetric]
      ins_def [symmetric] del_def [symmetric] tr_def [symmetric]
    using T m3 by auto
qed

lemma edit_row_osa:
  fixes l r :: string
  defines "a \<equiv> map tolower l" and "b \<equiv> map tolower r"
  assumes "Suc i \<le> length l" and "length l \<le> 63" and "length r \<le> 63"
    and "previous = osa_row a b i (length r)" and "0 < i \<Longrightarrow> before = osa_row a b (i - 1) (length r)"
  shows "\<exists>m. edit_row l r before previous (Suc i) = (osa_row a b (Suc i) (length r), of_nat m)
    \<and> m < 256 \<and> (\<forall>j \<le> length r. m \<le> osa a b (Suc i) j) \<and> (\<exists>j \<le> length r. m = osa a b (Suc i) j)"
proof -
  have lt: "osa a b (Suc i) j < 256" if "j \<le> length r" for j
    using osa_le_max [of a b "Suc i" j] that assms(3-5) by simp
  have "k \<le> length r \<Longrightarrow> \<exists>m. foldl (edit_step l r before previous (Suc i)) ([of_nat (Suc i)], of_nat (Suc i)) [1..<k + 1]
      = (osa_row a b (Suc i) k, of_nat m) \<and> m < 256 \<and> (\<forall>j \<le> k. m \<le> osa a b (Suc i) j) \<and> (\<exists>j \<le> k. m = osa a b (Suc i) j)" for k
  proof (induction k)
    case 0
    have "osa_row a b (Suc i) 0 = [of_nat (Suc i)]" by (simp add: osa_row_def)
    then show ?case using lt [of 0] by (intro exI [of _ "Suc i"]) simp
  next
    case (Suc k)
    then obtain m where m: "foldl (edit_step l r before previous (Suc i)) ([of_nat (Suc i)], of_nat (Suc i)) [1..<k + 1]
        = (osa_row a b (Suc i) k, of_nat m)" "m < 256" "\<forall>j \<le> k. m \<le> osa a b (Suc i) j" "\<exists>j \<le> k. m = osa a b (Suc i) j"
      by auto
    let ?v = "osa a b (Suc i) (Suc k)"
    have cell: "edit_cell l r before previous (Suc i) (osa_row a b (Suc i) k) (Suc k) = of_nat ?v"
      using edit_cell_osa [of i l k r previous before] Suc.prems assms(3-7) unfolding a_def b_def by simp
    have l: "[1..<Suc k + 1] = [1..<k + 1] @ [Suc k]" by simp
    have f: "foldl (edit_step l r before previous (Suc i)) ([of_nat (Suc i)], of_nat (Suc i)) [1..<Suc k + 1]
        = (osa_row a b (Suc i) (Suc k), of_nat (min ?v m))"
      unfolding l foldl_append m(1)
      by (simp only: foldl.simps edit_step_def prod.case cell osa_row_snoc Let_def u8_min [OF lt [OF Suc.prems] m(2)])
    show ?case
      using f m(2-4) lt [OF Suc.prems] by (intro exI [of _ "min ?v m"]) (auto simp: le_Suc_eq min_def)
  qed
  from this [of "length r"] show ?thesis by (simp add: edit_row_def)
qed

lemma edit_rows_osa:
  fixes l r :: string
  defines "a \<equiv> map tolower l" and "b \<equiv> map tolower r"
  assumes "i + k = length l" and "length l \<le> 63" and "length r \<le> 63" and "0 \<le> limit" and "limit \<le> 255"
    and "previous = osa_row a b i (length r)" and "0 < i \<Longrightarrow> before = osa_row a b (i - 1) (length r)"
  shows "case edit_rows limit l r (Suc i) k before previous of
      None \<Rightarrow> \<exists>x \<le> length l. \<forall>j \<le> length r. nat limit < osa a b x j
    | Some p \<Rightarrow> p = osa_row a b (length l) (length r)"
  using assms(3,8,9)
proof (induction k arbitrary: i before previous)
  case 0
  then show ?case by simp
next
  case (Suc k)
  obtain m where m: "edit_row l r before previous (Suc i) = (osa_row a b (Suc i) (length r), of_nat m)"
    "m < 256" "\<forall>j \<le> length r. m \<le> osa a b (Suc i) j"
    using edit_row_osa [of i l r previous before] Suc.prems assms(4,5) unfolding a_def b_def by auto
  have lim: "word_of_int limit = (of_nat (nat limit) :: u8)" using assms(6) by simp
  have cmp: "(word_of_int limit :: u8) < of_nat m \<longleftrightarrow> nat limit < m"
    unfolding lim using assms(7) m(2) by (intro u8_of_nat_less) simp_all
  show ?case
  proof (cases "nat limit < m")
    case True
    have "\<forall>j \<le> length r. nat limit < osa a b (Suc i) j" using m(3) True by fastforce
    then show ?thesis using True Suc.prems(1) by (auto simp: m(1) cmp intro!: exI [of _ "Suc i"])
  next
    case False
    have "case edit_rows limit l r (Suc (Suc i)) k previous (osa_row a b (Suc i) (length r)) of
      None \<Rightarrow> \<exists>x \<le> length l. \<forall>j \<le> length r. nat limit < osa a b x j
    | Some p \<Rightarrow> p = osa_row a b (length l) (length r)"
      using Suc.prems by (intro Suc.IH) simp_all
    then show ?thesis using False by (simp add: m(1) cmp)
  qed
qed

lemma edit_distance_bounded:
  assumes "length l \<le> 63" and "length r \<le> 63" and "0 \<le> limit" and "limit \<le> 255"
  shows "solar_os_shell_edit_distance (Some l) (Some r) limit =
    (if int (edit_distance_spec l r) \<le> limit then int (edit_distance_spec l r) else limit + 1)"
proof -
  let ?a = "map tolower l" and ?b = "map tolower r"
  let ?gap = "if length l > length r then length l - length r else length r - length l"
  note diff = osa_diff [of "length l" ?a ?b "length r"]
  show ?thesis
  proof (cases "nat limit < ?gap")
    case True
    then have "\<not> int (edit_distance_spec l r) \<le> limit"
      using diff by (auto simp: edit_distance_spec_def split: if_splits)
    then show ?thesis using True assms by (simp add: solar_os_shell_edit_distance_def)
  next
    case gap: False
    let ?row0 = "map of_nat [0..<length r + 1] :: u8 list"
    have row0: "?row0 = osa_row ?a ?b 0 (length r)" by (simp add: osa_row_def)
    have rows: "case edit_rows limit l r (Suc 0) (length l) ?row0 ?row0 of
        None \<Rightarrow> \<exists>x \<le> length l. \<forall>j \<le> length r. nat limit < osa ?a ?b x j
      | Some p \<Rightarrow> p = osa_row ?a ?b (length l) (length r)"
      by (intro edit_rows_osa) (use assms row0 in \<open>simp_all del: upt_Suc\<close>)
    show ?thesis
    proof (cases "edit_rows limit l r 1 (length l) ?row0 ?row0")
      case None
      with rows obtain x where "x \<le> length l" "\<forall>j \<le> length r. nat limit < osa ?a ?b x j" by auto
      from osa_rows_exceed [OF this(2,1)] have "nat limit < edit_distance_spec l r"
        by (simp add: edit_distance_spec_def)
      then show ?thesis using None gap assms by (simp add: solar_os_shell_edit_distance_def del: upt_Suc)
    next
      case (Some p)
      then have p: "p = osa_row ?a ?b (length l) (length r)" using rows by simp
      have "edit_distance_spec l r < 256"
        using osa_le_max [of ?a ?b "length l" "length r"] assms by (simp add: edit_distance_spec_def)
      then have "unat (p ! length r) = edit_distance_spec l r"
        by (simp add: p osa_row_nth edit_distance_spec_def unat_of_nat take_bit_nat_eq_self)
      then show ?thesis using Some gap assms by (simp add: solar_os_shell_edit_distance_def del: upt_Suc)
    qed
  qed
qed

text \<open>
  C16. The edit distance is exact: for strings of at most 63 characters and limits that fit a byte
  the program returns the case-insensitive restricted edit distance when it is within the limit, and
  \<open>limit + 1\<close> otherwise. The length filter, the early exit on a row and the byte arithmetic change
  nothing.
\<close>

theorem edit_distance_exact:
  assumes "length l \<le> 63" and "length r \<le> 63" and "0 \<le> limit" and "limit \<le> 255"
  shows "solar_os_shell_edit_distance (Some l) (Some r) limit =
    (if int (edit_distance_spec l r) \<le> limit then int (edit_distance_spec l r) else limit + 1)"
  using assms by (rule edit_distance_bounded)

theorem edit_distance_exact_witness:
  "solar_os_shell_edit_distance (Some ''Lit'') (Some ''lsit'') 2 = 1"
proof -
  have "map tolower ''Lit'' = ''lit''" "map tolower ''lsit'' = ''lsit''" by code_simp+
  moreover have "osa ''lit'' ''lsit'' (Suc (Suc (Suc 0))) (Suc (Suc (Suc (Suc 0)))) = 1"
    by (simp add: osa.simps(3) Let_def)
  ultimately have "edit_distance_spec ''Lit'' ''lsit'' = 1" by (simp add: edit_distance_spec_def)
  then show ?thesis using edit_distance_exact [of "''Lit''" "''lsit''" 2] by simp
qed

section \<open>The suggestion\<close>

record suggestion =
  sg_best :: "string option"
  sg_best_distance :: int
  sg_ambiguous :: bool

text \<open>One candidate: NULL and empty candidates are skipped.\<close>

definition suggest_step :: "string \<Rightarrow> int \<Rightarrow> suggestion \<Rightarrow> string option \<Rightarrow> suggestion" where
  "suggest_step input limit s candidate =
     (case candidate of
        None \<Rightarrow> s
      | Some c \<Rightarrow>
          if c = [] then s
          else let distance = solar_os_shell_edit_distance (Some input) (Some c) limit
               in if distance < sg_best_distance s
                  then \<lparr>sg_best = Some c, sg_best_distance = distance, sg_ambiguous = False\<rparr>
                  else if distance = sg_best_distance s \<and> distance \<le> limit
                     \<and> sg_best s \<noteq> None \<and> sg_best s \<noteq> Some c
                  then s\<lparr>sg_ambiguous := True\<rparr>
                  else s)"

definition suggest_limit :: "string \<Rightarrow> int" where
  "suggest_limit text = (if 5 \<le> length text then 2 else 1)"

definition solar_os_shell_suggest :: "string option \<Rightarrow> string option list option \<Rightarrow> string option" where
  "solar_os_shell_suggest input candidates =
     (case (input, candidates) of
        (Some text, Some cs) \<Rightarrow>
          if text = [] then None
          else let limit = suggest_limit text;
                   s = foldl (suggest_step text limit)
                         \<lparr>sg_best = None, sg_best_distance = limit + 1, sg_ambiguous = False\<rparr> cs
               in if sg_best_distance s \<le> limit \<and> \<not> sg_ambiguous s then sg_best s else None
      | _ \<Rightarrow> None)"

text \<open>The candidates that count, and what the loop knows after a part of them.\<close>

definition usable :: "string option list \<Rightarrow> string set" where
  "usable cs = {c. Some c \<in> set cs \<and> c \<noteq> []}"

definition suggest_inv :: "(string \<Rightarrow> int) \<Rightarrow> int \<Rightarrow> string set \<Rightarrow> suggestion \<Rightarrow> bool" where
  "suggest_inv d limit P s \<longleftrightarrow>
     (\<forall>c \<in> P. sg_best_distance s \<le> d c) \<and> sg_best_distance s \<le> limit + 1
     \<and> (case sg_best s of
          None \<Rightarrow> sg_best_distance s = limit + 1 \<and> \<not> sg_ambiguous s
        | Some b \<Rightarrow> b \<in> P \<and> d b = sg_best_distance s \<and> d b \<le> limit
            \<and> (sg_ambiguous s \<longleftrightarrow> (\<exists>c \<in> P. d c = d b \<and> c \<noteq> b)))"

lemma suggest_step_inv:
  assumes "suggest_inv d limit P s" and "c \<noteq> []"
    and d: "d c = solar_os_shell_edit_distance (Some text) (Some c) limit" "d c \<le> limit + 1"
  shows "suggest_inv d limit (insert c P) (suggest_step text limit s (Some c))"
proof (cases "d c < sg_best_distance s")
  case True
  then have "suggest_step text limit s (Some c) = \<lparr>sg_best = Some c, sg_best_distance = d c, sg_ambiguous = False\<rparr>"
    using assms(2) d by (simp add: suggest_step_def)
  moreover have "\<forall>x \<in> P. d c < d x" "d c \<le> limit" using True assms(1) by (auto simp: suggest_inv_def)
  ultimately show ?thesis by (auto simp: suggest_inv_def)
next
  case ge: False
  show ?thesis
  proof (cases "sg_best s")
    case None
    then show ?thesis using ge assms by (auto simp: suggest_inv_def suggest_step_def Let_def)
  next
    case (Some b)
    show ?thesis
    proof (cases "d c = sg_best_distance s \<and> c \<noteq> b")
      case True
      then have "suggest_step text limit s (Some c) = s\<lparr>sg_ambiguous := True\<rparr>"
        using assms Some by (auto simp: suggest_step_def suggest_inv_def)
      then show ?thesis using True Some assms(1) by (auto simp: suggest_inv_def)
    next
      case False
      then have "suggest_step text limit s (Some c) = s"
        using ge assms(2) d Some by (auto simp: suggest_step_def)
      then show ?thesis using False ge Some assms(1) by (auto simp: suggest_inv_def)
    qed
  qed
qed

lemma suggest_fold_inv:
  assumes "\<forall>c \<in> usable cs. d c = solar_os_shell_edit_distance (Some text) (Some c) limit \<and> d c \<le> limit + 1"
  shows "suggest_inv d limit (usable cs)
    (foldl (suggest_step text limit) \<lparr>sg_best = None, sg_best_distance = limit + 1, sg_ambiguous = False\<rparr> cs)"
  using assms
proof (induction cs rule: rev_induct)
  case Nil
  then show ?case by (simp add: suggest_inv_def usable_def)
next
  case (snoc x cs)
  let ?s = "foldl (suggest_step text limit) \<lparr>sg_best = None, sg_best_distance = limit + 1, sg_ambiguous = False\<rparr> cs"
  have ih: "suggest_inv d limit (usable cs) ?s"
    using snoc.prems by (intro snoc.IH) (auto simp: usable_def)
  show ?case
  proof (cases "x = None \<or> x = Some []")
    case True
    then have "usable (cs @ [x]) = usable cs" by (auto simp: usable_def)
    moreover have "suggest_step text limit s x = s" for s using True by (auto simp: suggest_step_def)
    ultimately show ?thesis using ih by (simp only: foldl_append foldl.simps)
  next
    case False
    then obtain c where c: "x = Some c" "c \<noteq> []" by auto
    then have u: "usable (cs @ [x]) = insert c (usable cs)" by (auto simp: usable_def)
    have "d c = solar_os_shell_edit_distance (Some text) (Some c) limit" "d c \<le> limit + 1"
      using snoc.prems u by auto
    from suggest_step_inv [OF ih c(2) this] show ?thesis by (simp add: u [unfolded c(1)] c(1))
  qed
qed

text \<open>What the loop has found when it has a best candidate.\<close>

lemma suggest_inv_best:
  assumes "suggest_inv (\<lambda>c. if int (e c) \<le> limit then int (e c) else limit + 1) limit P s"
    and "sg_best s = Some b"
  shows "b \<in> P" "int (e b) \<le> limit" "sg_best_distance s = int (e b)"
    "\<forall>x \<in> P. e b \<le> e x" "sg_ambiguous s \<longleftrightarrow> (\<exists>x \<in> P. x \<noteq> b \<and> e x = e b)"
proof -
  let ?d = "\<lambda>c. if int (e c) \<le> limit then int (e c) else limit + 1"
  note i = assms(1) [unfolded suggest_inv_def assms(2) option.case]
  have b0: "b \<in> P" "?d b = sg_best_distance s" "?d b \<le> limit"
    "sg_ambiguous s \<longleftrightarrow> (\<exists>c \<in> P. ?d c = ?d b \<and> c \<noteq> b)"
    "\<forall>x \<in> P. sg_best_distance s \<le> ?d x" using i by blast+
  have near: "int (e b) \<le> limit" using b0(3) by (simp split: if_splits)
  then have same: "?d x = ?d b \<longleftrightarrow> e x = e b" "?d b \<le> ?d x \<longleftrightarrow> e b \<le> e x" for x by auto
  show "b \<in> P" "int (e b) \<le> limit" "sg_best_distance s = int (e b)"
    using b0(1,2) near by simp_all
  show "sg_ambiguous s \<longleftrightarrow> (\<exists>x \<in> P. x \<noteq> b \<and> e x = e b)"
    unfolding b0(4) same by blast
  show "\<forall>x \<in> P. e b \<le> e x"
    using b0(5) unfolding b0(2) [symmetric] same(2) .
qed

text \<open>
  A suggestion is unmistakable: the shell suggests \<open>c\<close> exactly when \<open>c\<close> is a candidate within
  the limit (two edits from five characters on, one below) and every other candidate is strictly
  further away from the input; the order and repetitions of the candidates do not matter.
\<close>

theorem suggest_unique_closest:
  assumes "text \<noteq> []" and "length text \<le> 63" and "\<forall>c \<in> usable cs. length c \<le> 63"
  shows "solar_os_shell_suggest (Some text) (Some cs) = Some c \<longleftrightarrow>
    c \<in> usable cs \<and> int (edit_distance_spec text c) \<le> suggest_limit text
    \<and> (\<forall>x \<in> usable cs. x \<noteq> c \<longrightarrow> edit_distance_spec text c < edit_distance_spec text x)"
proof -
  let ?lim = "suggest_limit text" and ?e = "edit_distance_spec text"
  let ?d = "\<lambda>c. if int (?e c) \<le> ?lim then int (?e c) else ?lim + 1"
  have lim: "0 \<le> ?lim" "?lim \<le> 255" by (simp_all add: suggest_limit_def)
  define s where "s = foldl (suggest_step text ?lim)
    \<lparr>sg_best = None, sg_best_distance = ?lim + 1, sg_ambiguous = False\<rparr> cs"
  have inv: "suggest_inv ?d ?lim (usable cs) s" unfolding s_def
    using edit_distance_bounded [OF assms(2) _ lim] assms(3) by (intro suggest_fold_inv) auto
  have res: "solar_os_shell_suggest (Some text) (Some cs) =
      (if sg_best_distance s \<le> ?lim \<and> \<not> sg_ambiguous s then sg_best s else None)"
    using assms(1) by (simp add: solar_os_shell_suggest_def s_def Let_def)
  show ?thesis
  proof (cases "sg_best s")
    case None
    then have "\<forall>x \<in> usable cs. ?lim < int (?e x)" using inv by (force simp: suggest_inv_def split: if_splits)
    then show ?thesis using None by (auto simp: res)
  next
    case (Some b)
    note best = suggest_inv_best [OF inv Some]
    have le: "?e b \<le> ?e x" if "x \<in> usable cs" for x using best(4) that by blast
    have far: "(\<forall>x \<in> usable cs. x \<noteq> b \<longrightarrow> ?e b < ?e x) \<longleftrightarrow> \<not> sg_ambiguous s"
      unfolding best(5) using le by (metis le_neq_implies_less less_irrefl)
    have close: "sg_best_distance s \<le> ?lim" using best(2,3) by simp
    show ?thesis
    proof (cases "c = b")
      case True
      show ?thesis unfolding res Some True using far close best(1,2) by simp
    next
      case False
      then have "\<not> (c \<in> usable cs \<and> (\<forall>x \<in> usable cs. x \<noteq> c \<longrightarrow> ?e c < ?e x))"
        using best(1) le by (metis not_less)
      then show ?thesis unfolding res Some using False by simp
    qed
  qed
qed

theorem suggest_unique_closest_witness:
  "solar_os_shell_suggest (Some ''lss'') (Some [Some ''ls'', None, Some ''cat'']) = Some ''ls''"
proof -
  have u: "usable [Some ''ls'', None, Some ''cat''] = {''ls'', ''cat''}" by (auto simp: usable_def)
  have "map tolower ''lss'' = ''lss''" "map tolower ''ls'' = ''ls''" "map tolower ''cat'' = ''cat''" by code_simp+
  moreover have "osa ''lss'' ''ls'' (Suc (Suc (Suc 0))) (Suc (Suc 0)) = 1"
    "osa ''lss'' ''cat'' (Suc (Suc (Suc 0))) (Suc (Suc (Suc 0))) = 3"
    by (simp_all add: osa.simps(3) Let_def)
  ultimately have "edit_distance_spec ''lss'' ''ls'' = 1" "edit_distance_spec ''lss'' ''cat'' = 3"
    by (simp_all add: edit_distance_spec_def)
  then show ?thesis
    using suggest_unique_closest [of "''lss''" "[Some ''ls'', None, Some ''cat'']" "''ls''"]
    by (simp add: u suggest_limit_def)
qed

section \<open>Colours\<close>

definition hex_digit :: "char \<Rightarrow> u8 option" where
  "hex_digit c =
     (let ch = (of_char c :: nat)
      in if 48 \<le> ch \<and> ch \<le> 57 then Some (of_nat (ch - 48))
         else if 97 \<le> ch \<and> ch \<le> 102 then Some (of_nat (ch - 97 + 10))
         else if 65 \<le> ch \<and> ch \<le> 70 then Some (of_nat (ch - 65 + 10))
         else None)"

fun rgb_digits :: "string \<Rightarrow> u32 \<Rightarrow> u32 option" where
  "rgb_digits [] value = Some value"
| "rgb_digits (c # cs) value =
     (case hex_digit c of
        None \<Rightarrow> None
      | Some digit \<Rightarrow> rgb_digits cs (push_bit 4 value OR ucast digit))"

definition rgb_strip :: "string \<Rightarrow> string" where
  "rgb_strip text =
     (if take 1 text = ''#'' then drop 1 text
      else if take 2 text = ''0x'' \<or> take 2 text = ''0X'' then drop 2 text
      else text)"

text \<open>The out parameter is the second argument, unchanged on failure.\<close>

definition solar_os_shell_parse_rgb888 :: "string option \<Rightarrow> u32 option \<Rightarrow> bool \<times> u32 option" where
  "solar_os_shell_parse_rgb888 text rgb888 =
     (case (text, rgb888) of
        (Some t, Some _) \<Rightarrow>
          if length (rgb_strip t) \<noteq> 6 then (False, rgb888)
          else (case rgb_digits (rgb_strip t) 0 of
                  None \<Rightarrow> (False, rgb888)
                | Some value \<Rightarrow> (True, Some value))
      | _ \<Rightarrow> (False, rgb888))"

end
