(* ===== verification/MidiCodec.thy ===== *)
theory MidiCodec
  imports SolarBase
begin

text \<open>
  The MIDI codec, \<open>src/src/services/solar_os_midi_codec.c\<close>: message lengths and validity, encoding,
  the monitor text, and the byte-by-byte decoder with running status, realtime bytes between any two
  bytes and system exclusive dumps.
\<close>

unbundle bit_operations_syntax

section \<open>Types\<close>

definition MIDI_DATA_MAX :: u8 where
  "MIDI_DATA_MAX = 127"

record midi_message =
  mm_status :: u8
  mm_data1 :: u8
  mm_data2 :: u8
  mm_length :: u8

record midi_decoder =
  md_running_status :: u8
  md_active_status :: u8
  md_data :: "u8 list"
  md_data_count :: u8
  md_sysex :: bool

datatype midi_decode_result =
    MIDI_DECODE_NONE
  | MIDI_DECODE_MESSAGE
  | MIDI_DECODE_UNSUPPORTED

definition midi_message_zero :: midi_message where
  "midi_message_zero = \<lparr>mm_status = 0, mm_data1 = 0, mm_data2 = 0, mm_length = 0\<rparr>"

definition midi_decoder_zero :: midi_decoder where
  "midi_decoder_zero = \<lparr>md_running_status = 0, md_active_status = 0, md_data = [0, 0],
     md_data_count = 0, md_sysex = False\<rparr>"

section \<open>Messages\<close>

definition midi_status_supported :: "u8 \<Rightarrow> bool" where
  "midi_status_supported status =
     (if status < 0x80 then False
      else if status < 0xf0 then True
      else status \<in> {0xf1, 0xf2, 0xf3, 0xf6, 0xf7, 0xf8, 0xfa, 0xfb, 0xfc, 0xfe, 0xff})"

definition solar_os_midi_message_length :: "u8 \<Rightarrow> nat" where
  "solar_os_midi_message_length status =
     (if \<not> midi_status_supported status then 0
      else if status < 0xf0
      then (let kind = status AND 0xf0 in if kind = 0xc0 \<or> kind = 0xd0 then 2 else 3)
      else if status = 0xf1 \<or> status = 0xf3 then 2
      else if status = 0xf2 then 3
      else 1)"

definition solar_os_midi_message_valid :: "midi_message option \<Rightarrow> bool" where
  "solar_os_midi_message_valid message =
     (case message of
        None \<Rightarrow> False
      | Some m \<Rightarrow>
          if unat (mm_length m) \<noteq> solar_os_midi_message_length (mm_status m) then False
          else if 1 < mm_length m \<and> MIDI_DATA_MAX < mm_data1 m then False
          else mm_length m \<le> 2 \<or> mm_data2 m \<le> MIDI_DATA_MAX)"

text \<open>The bytes written to the front of the output.\<close>

definition solar_os_midi_encode :: "midi_message option \<Rightarrow> bool \<Rightarrow> nat \<times> u8 list" where
  "solar_os_midi_encode message output_given =
     (if \<not> output_given \<or> \<not> solar_os_midi_message_valid message then (0, [])
      else (case message of
              None \<Rightarrow> (0, [])
            | Some m \<Rightarrow>
                (unat (mm_length m),
                 [mm_status m] @ (if 1 < mm_length m then [mm_data1 m] else [])
                   @ (if 2 < mm_length m then [mm_data2 m] else []))))"

text \<open>\<open>snprintf\<close> stores the text that fits and returns the length it would have had.\<close>

definition solar_os_midi_format_monitor :: "midi_message option \<Rightarrow> string option \<Rightarrow> nat \<Rightarrow> nat \<times> string option" where
  "solar_os_midi_format_monitor message output output_len =
     (case message of
        None \<Rightarrow> (0, output)
      | Some m \<Rightarrow>
          if \<not> solar_os_midi_message_valid message \<or> output = None \<or> output_len = 0 \<or> 0xf0 \<le> mm_status m
          then (0, output)
          else
            let kind = mm_status m AND 0xf0;
                channel = unat (mm_status m AND 0x0f) + 1;
                d1 = unat (mm_data1 m);
                d2 = unat (mm_data2 m);
                written = (if kind = 0xb0
                           then Some (''CC: '' @ decimal channel @ '' '' @ decimal d1 @ '' '' @ decimal d2)
                           else if kind = 0x90
                           then Some (''KEY: '' @ decimal channel @ '' '' @ decimal d1 @ '' '' @ decimal d2)
                           else if kind = 0x80
                           then Some (''KEY: '' @ decimal channel @ '' '' @ decimal d1 @ '' 0'')
                           else None)
            in (case written of
                  None \<Rightarrow> (0, output)
                | Some text \<Rightarrow>
                    (if length text < output_len then length text else 0, Some (strlcpy output_len text))))"

section \<open>The decoder\<close>

definition solar_os_midi_decoder_reset :: "midi_decoder option \<Rightarrow> midi_decoder option" where
  "solar_os_midi_decoder_reset decoder = map_option (\<lambda>_. midi_decoder_zero) decoder"

definition midi_emit_status ::
  "midi_decoder \<Rightarrow> u8 \<Rightarrow> midi_message \<Rightarrow> midi_decode_result \<times> midi_decoder \<times> midi_message" where
  "midi_emit_status d status message =
     (let length = solar_os_midi_message_length status
      in if length = 0
         then (MIDI_DECODE_UNSUPPORTED, d\<lparr>md_active_status := 0, md_data_count := 0\<rparr>, message)
         else let d1 = d\<lparr>md_active_status := status, md_data_count := 0,
                         md_running_status := (if status < 0xf0 then status else 0)\<rparr>
              in if length \<noteq> 1 then (MIDI_DECODE_NONE, d1, message)
                 else (MIDI_DECODE_MESSAGE, d1\<lparr>md_active_status := 0\<rparr>,
                       midi_message_zero\<lparr>mm_status := status, mm_length := 1\<rparr>))"

text \<open>The last part, for a data byte: the active status is resumed from the running status.\<close>

definition midi_data_byte ::
  "midi_decoder \<Rightarrow> u8 \<Rightarrow> midi_decode_result \<times> midi_decoder \<times> midi_message" where
  "midi_data_byte d byte =
     (let d1 = (if md_active_status d = 0
                then d\<lparr>md_active_status := md_running_status d, md_data_count := 0\<rparr> else d);
          len = solar_os_midi_message_length (md_active_status d1)
      in if len < 2 \<or> 2 \<le> unat (md_data_count d1)
         then (MIDI_DECODE_UNSUPPORTED, d1\<lparr>md_active_status := 0, md_data_count := 0\<rparr>, midi_message_zero)
         else let d2 = d1\<lparr>md_data := (md_data d1)[unat (md_data_count d1) := byte],
                          md_data_count := md_data_count d1 + 1\<rparr>
              in if unat (md_data_count d2) + 1 < len then (MIDI_DECODE_NONE, d2, midi_message_zero)
                 else (MIDI_DECODE_MESSAGE,
                       d2\<lparr>md_data_count := 0, md_active_status := md_running_status d2\<rparr>,
                       \<lparr>mm_status = md_active_status d2, mm_data1 = md_data d2 ! 0,
                        mm_data2 = (if 2 < len then md_data d2 ! 1 else 0), mm_length = of_nat len\<rparr>))"

definition solar_os_midi_decode_byte ::
  "midi_decoder option \<Rightarrow> u8 \<Rightarrow> midi_message option
   \<Rightarrow> midi_decode_result \<times> midi_decoder option \<times> midi_message option" where
  "solar_os_midi_decode_byte decoder byte message =
     (case (decoder, message) of
        (Some d, Some _) \<Rightarrow>
          let wrap = (\<lambda>(r, d, m). (r, Some d, Some m))
          in if 0xf8 \<le> byte
             then (if solar_os_midi_message_length byte = 0
                   then wrap (MIDI_DECODE_UNSUPPORTED, d, midi_message_zero)
                   else wrap (MIDI_DECODE_MESSAGE, d, midi_message_zero\<lparr>mm_status := byte, mm_length := 1\<rparr>))
             else if md_sysex d \<and> byte = 0xf7
             then wrap (MIDI_DECODE_UNSUPPORTED, d\<lparr>md_sysex := False\<rparr>, midi_message_zero)
             else if md_sysex d \<and> byte AND 0x80 = 0
             then wrap (MIDI_DECODE_NONE, d, midi_message_zero)
             else let d1 = d\<lparr>md_sysex := False\<rparr>
                  in if byte AND 0x80 \<noteq> 0
                     then (if byte = 0xf0
                           then wrap (MIDI_DECODE_UNSUPPORTED,
                                      d1\<lparr>md_running_status := 0, md_active_status := 0, md_data_count := 0,
                                         md_sysex := True\<rparr>, midi_message_zero)
                           else wrap (midi_emit_status d1 byte midi_message_zero))
                     else wrap (midi_data_byte d1 byte)
      | _ \<Rightarrow> (MIDI_DECODE_UNSUPPORTED, decoder, message))"

section \<open>Runs\<close>

lemma u8_top_bit: "bit (0x80 :: u8) n \<longleftrightarrow> n = 7"
proof -
  have "(0x80 :: u8) = 2 ^ 7" by simp
  then show ?thesis by (simp only: bit_exp_iff) (auto dest: possible_bit_less_imp)
qed

lemma u8_high_bit: "(b :: u8) AND 0x80 \<noteq> 0 \<longleftrightarrow> 0x80 \<le> b"
proof -
  have "b AND 0x80 \<noteq> 0 \<longleftrightarrow> bit b 7"
  proof
    assume "b AND 0x80 \<noteq> 0"
    then obtain n where "bit (b AND 0x80) n" by (metis bit_eqI bit_0_eq bot_apply bot_bool_def)
    then show "bit b 7" by (auto simp only: bit_and_iff u8_top_bit)
  next
    assume "bit b 7"
    then have "bit (b AND 0x80) 7" by (simp only: bit_and_iff u8_top_bit)
    then show "b AND 0x80 \<noteq> 0" by auto
  qed
  also have "bit b 7 \<longleftrightarrow> bit (unat b) 7" by (simp add: bit_unsigned_iff)
  also have "\<dots> \<longleftrightarrow> odd (unat b div 128)" by (simp add: bit_iff_odd)
  also have "\<dots> \<longleftrightarrow> 128 \<le> unat b"
  proof -
    have "unat b div 128 < 2" using unat_u8_less [of b] by simp
    then have "unat b div 128 = 0 \<or> unat b div 128 = 1" by linarith
    then show ?thesis by (auto simp: div_eq_0_iff) 
  qed
  also have "\<dots> \<longleftrightarrow> 0x80 \<le> b" by (simp add: word_le_nat_alt)
  finally show ?thesis .
qed

text \<open>A byte stream through the decoder: the messages it emits and the final state.\<close>

definition midi_step :: "midi_decoder \<Rightarrow> u8 \<Rightarrow> midi_decode_result \<times> midi_decoder \<times> midi_message" where
  "midi_step d byte =
     (case solar_os_midi_decode_byte (Some d) byte (Some midi_message_zero) of
        (r, d', m) \<Rightarrow> (r, the d', the m))"

fun midi_run :: "midi_decoder \<Rightarrow> u8 list \<Rightarrow> midi_message list \<times> midi_decoder" where
  "midi_run d [] = ([], d)"
| "midi_run d (b # bs) =
     (case midi_step d b of
        (r, d1, m) \<Rightarrow> (case midi_run d1 bs of
                          (ms, d2) \<Rightarrow> (if r = MIDI_DECODE_MESSAGE then m # ms else ms, d2)))"

lemma step_realtime:
  "0xf8 \<le> b \<Longrightarrow> midi_step d b =
     (if solar_os_midi_message_length b = 0 then (MIDI_DECODE_UNSUPPORTED, d, midi_message_zero)
      else (MIDI_DECODE_MESSAGE, d, midi_message_zero\<lparr>mm_status := b, mm_length := 1\<rparr>))"
  by (simp add: midi_step_def solar_os_midi_decode_byte_def)

lemma sysex_off: "\<not> md_sysex d \<Longrightarrow> d\<lparr>md_sysex := False\<rparr> = d"
  by (cases d) simp

lemma step_status:
  assumes "\<not> md_sysex d" and "0x80 \<le> b" and "b < 0xf8" and "b \<noteq> 0xf0"
  shows "midi_step d b = midi_emit_status d b midi_message_zero"
proof -
  have "\<not> 0xf8 \<le> b" "b AND 0x80 \<noteq> 0" using assms u8_high_bit [of b] by (simp_all add: not_le)
  then show ?thesis using assms
    by (simp add: midi_step_def solar_os_midi_decode_byte_def Let_def sysex_off split: prod.split)
qed

lemma step_data:
  assumes "\<not> md_sysex d" and "b < 0x80"
  shows "midi_step d b = midi_data_byte d b"
proof -
  have "\<not> 0xf8 \<le> b" "b AND 0x80 = 0"
    using assms(2) u8_high_bit [of b] by (simp_all only: not_le [symmetric] not_not)
       (simp_all add: word_less_nat_alt word_le_nat_alt)
  then show ?thesis using assms
    by (simp add: midi_step_def solar_os_midi_decode_byte_def Let_def sysex_off split: prod.split)
qed

text \<open>Realtime bytes between any two bytes are reported and disturb nothing.\<close>

lemma midi_run_realtime:
  "filter (\<lambda>m. mm_status m < 0xf8) (fst (midi_run d bs)) =
      filter (\<lambda>m. mm_status m < 0xf8) (fst (midi_run d (filter (\<lambda>b. b < 0xf8) bs)))
   \<and> snd (midi_run d bs) = snd (midi_run d (filter (\<lambda>b. b < 0xf8) bs))"
proof (induction bs arbitrary: d)
  case Nil
  then show ?case by simp
next
  case (Cons b bs)
  show ?case
  proof (cases "b < 0xf8")
    case True
    then show ?thesis using Cons.IH by (auto split: prod.splits) (metis fst_conv snd_conv)+
  next
    case False
    then show ?thesis using Cons.IH [of d]
      by (auto simp: step_realtime not_less split: prod.splits)
  qed
qed

section \<open>Serialisations\<close>

text \<open>
  A message as the decoder builds it: valid, with the data bytes it does not have zero. The length
  is required to be positive because \<open>solar_os_midi_message_valid\<close> accepts a message of length 0 whose
  status is not a supported one, for instance the all-zero message.
\<close>

lemma midi_zero_message_valid: "solar_os_midi_message_valid (Some midi_message_zero)"
  by (simp add: solar_os_midi_message_valid_def midi_message_zero_def solar_os_midi_message_length_def
      midi_status_supported_def)

definition canonical :: "midi_message \<Rightarrow> bool" where
  "canonical m \<longleftrightarrow> solar_os_midi_message_valid (Some m) \<and> mm_length m \<noteq> 0
     \<and> (mm_length m < 2 \<longrightarrow> mm_data1 m = 0) \<and> (mm_length m < 3 \<longrightarrow> mm_data2 m = 0)"

definition running_after :: "u8 \<Rightarrow> u8" where
  "running_after status = (if status < 0xf0 then status else 0)"

text \<open>
  The legal byte streams for a list of messages, given the running status: each message in full, or
  without its status byte when that is the running status.
\<close>

inductive midi_stream :: "u8 \<Rightarrow> midi_message list \<Rightarrow> u8 list \<Rightarrow> bool" where
  ms_nil: "midi_stream r [] []"
| ms_full: "solar_os_midi_encode (Some m) True = (n, bs) \<Longrightarrow> canonical m
    \<Longrightarrow> midi_stream (running_after (mm_status m)) ms rest \<Longrightarrow> midi_stream r (m # ms) (bs @ rest)"
| ms_running: "solar_os_midi_encode (Some m) True = (n, mm_status m # bs) \<Longrightarrow> canonical m
    \<Longrightarrow> mm_status m = r \<Longrightarrow> r < 0xf0 \<Longrightarrow> midi_stream r ms rest \<Longrightarrow> midi_stream r (m # ms) (bs @ rest)"

definition decoder_ready :: "u8 \<Rightarrow> midi_decoder \<Rightarrow> bool" where
  "decoder_ready r d \<longleftrightarrow> \<not> md_sysex d \<and> length (md_data d) = 2 \<and> md_running_status d = r
     \<and> (md_active_status d = 0 \<or> md_active_status d = r \<and> md_data_count d = 0)"

lemma length_cases:
  "solar_os_midi_message_length s \<in> {0, 1, 2, 3}"
  "solar_os_midi_message_length s \<noteq> 0 \<Longrightarrow> 0x80 \<le> s \<and> s \<noteq> 0xf0"
  "solar_os_midi_message_length s = 1 \<Longrightarrow> 0xf0 \<le> s"
  by (auto simp: solar_os_midi_message_length_def midi_status_supported_def Let_def split: if_splits)

lemma canonical_cases:
  assumes "canonical m"
  obtains (one) "m = midi_message_zero\<lparr>mm_status := mm_status m, mm_length := 1\<rparr>"
      "solar_os_midi_message_length (mm_status m) = 1" "solar_os_midi_encode (Some m) True = (1, [mm_status m])"
  | (two) "m = \<lparr>mm_status = mm_status m, mm_data1 = mm_data1 m, mm_data2 = 0, mm_length = 2\<rparr>"
      "solar_os_midi_message_length (mm_status m) = 2" "mm_data1 m < 0x80"
      "solar_os_midi_encode (Some m) True = (2, [mm_status m, mm_data1 m])"
  | (three) "m = \<lparr>mm_status = mm_status m, mm_data1 = mm_data1 m, mm_data2 = mm_data2 m, mm_length = 3\<rparr>"
      "solar_os_midi_message_length (mm_status m) = 3" "mm_data1 m < 0x80" "mm_data2 m < 0x80"
      "solar_os_midi_encode (Some m) True = (3, [mm_status m, mm_data1 m, mm_data2 m])"
proof -
  have v: "solar_os_midi_message_valid (Some m)" using assms by (simp add: canonical_def)
  then have len: "unat (mm_length m) = solar_os_midi_message_length (mm_status m)"
    by (simp add: solar_os_midi_message_valid_def split: if_splits)
  have nz: "unat (mm_length m) \<noteq> 0" using assms by (simp add: canonical_def unat_eq_0)
  then have "unat (mm_length m) = 1 \<or> unat (mm_length m) = 2 \<or> unat (mm_length m) = 3"
    using len length_cases(1) [of "mm_status m"] by auto
  then have "mm_length m = 1 \<or> mm_length m = 2 \<or> mm_length m = 3"
    by (simp add: word_unat_eq_iff)
  then show ?thesis
  proof (elim disjE)
    assume l: "mm_length m = 1"
    show ?thesis using assms l len v
      by (intro one) (auto simp: canonical_def midi_message_zero_def solar_os_midi_encode_def intro!: midi_message.equality)
  next
    assume l: "mm_length m = 2"
    show ?thesis using assms l len v
      by (intro two) (auto simp: canonical_def solar_os_midi_encode_def solar_os_midi_message_valid_def MIDI_DATA_MAX_def
          not_less word_le_nat_alt word_less_nat_alt intro!: midi_message.equality split: if_splits)
  next
    assume l: "mm_length m = 3"
    show ?thesis using assms l len v
      by (intro three) (auto simp: canonical_def solar_os_midi_encode_def solar_os_midi_message_valid_def MIDI_DATA_MAX_def
          not_less word_le_nat_alt word_less_nat_alt intro!: midi_message.equality split: if_splits)
  qed
qed

text \<open>Data bytes complete the active status; the decoder is then ready for the next message.\<close>

lemma run_data:
  assumes "\<not> md_sysex d" and "length (md_data d) = 2" and "md_running_status d = running_after s"
    and "md_active_status d = s \<and> md_data_count d = 0 \<or> md_active_status d = 0 \<and> md_running_status d = s"
  shows "solar_os_midi_message_length s = 2 \<Longrightarrow> a < 0x80 \<Longrightarrow>
      \<exists>d'. midi_run d [a] = ([\<lparr>mm_status = s, mm_data1 = a, mm_data2 = 0, mm_length = 2\<rparr>], d')
        \<and> decoder_ready (running_after s) d'"
    and "solar_os_midi_message_length s = 3 \<Longrightarrow> a < 0x80 \<Longrightarrow> b < 0x80 \<Longrightarrow>
      \<exists>d'. midi_run d [a, b] = ([\<lparr>mm_status = s, mm_data1 = a, mm_data2 = b, mm_length = 3\<rparr>], d')
        \<and> decoder_ready (running_after s) d'"
proof -
  let ?d = "d\<lparr>md_active_status := s, md_data_count := 0\<rparr>"
  obtain x y where xy: "md_data d = [x, y]" using assms(2) by (auto simp: numeral_2_eq_2 length_Suc_conv)
  have start: "midi_data_byte d c = midi_data_byte ?d c" if "solar_os_midi_message_length s \<noteq> 0" for c
  proof -
    have "s \<noteq> 0" using length_cases(2) [OF that] by auto
    show ?thesis using assms(4)
    proof (elim disjE conjE)
      assume "md_active_status d = s" "md_data_count d = 0"
      then have "?d = d" by (cases d) simp
      then show ?thesis by (simp only:)
    next
      assume "md_active_status d = 0" "md_running_status d = s"
      then show ?thesis using \<open>s \<noteq> 0\<close> by (simp add: midi_data_byte_def)
    qed
  qed
  show "\<exists>d'. midi_run d [a] = ([\<lparr>mm_status = s, mm_data1 = a, mm_data2 = 0, mm_length = 2\<rparr>], d')
        \<and> decoder_ready (running_after s) d'" if "solar_os_midi_message_length s = 2" "a < 0x80"
  proof -
    have "s \<noteq> 0" using length_cases(2) [of s] that by auto
    then show ?thesis using that assms(1,3) start [of a]
      by (simp add: step_data midi_data_byte_def [of ?d] xy decoder_ready_def)
  qed
  show "\<exists>d'. midi_run d [a, b] = ([\<lparr>mm_status = s, mm_data1 = a, mm_data2 = b, mm_length = 3\<rparr>], d')
        \<and> decoder_ready (running_after s) d'" if "solar_os_midi_message_length s = 3" "a < 0x80" "b < 0x80"
  proof -
    have s: "s \<noteq> 0" using length_cases(2) [of s] that by auto
    let ?d1 = "?d\<lparr>md_data := [a, y], md_data_count := 1\<rparr>"
    have 1: "midi_step d a = (MIDI_DECODE_NONE, ?d1, midi_message_zero)"
      using s that assms(1) start [of a] by (simp add: step_data midi_data_byte_def [of ?d] xy)
    have 2: "midi_step ?d1 b = (MIDI_DECODE_MESSAGE, ?d1\<lparr>md_data := [a, b], md_data_count := 0,
        md_active_status := running_after s\<rparr>, \<lparr>mm_status = s, mm_data1 = a, mm_data2 = b, mm_length = 3\<rparr>)"
      using s that assms(1,3) by (simp add: step_data midi_data_byte_def)
    have "midi_run d [a, b] = ([\<lparr>mm_status = s, mm_data1 = a, mm_data2 = b, mm_length = 3\<rparr>],
        ?d1\<lparr>md_data := [a, b], md_data_count := 0, md_active_status := running_after s\<rparr>)"
      by (simp only: midi_run.simps 1 2 prod.case) simp
    then show ?thesis using assms(1,3) by (simp add: decoder_ready_def)
  qed
qed

lemma run_append:
  "midi_run d (xs @ ys) =
    (case midi_run d xs of (ms, d1) \<Rightarrow> (case midi_run d1 ys of (ns, d2) \<Rightarrow> (ms @ ns, d2)))"
  by (induction xs arbitrary: d) (auto split: prod.splits)

lemma run_full:
  assumes "decoder_ready r d" and "canonical m" and "mm_status m < 0xf8"
    and "solar_os_midi_encode (Some m) True = (n, bs)"
  shows "\<exists>d'. midi_run d bs = ([m], d') \<and> decoder_ready (running_after (mm_status m)) d'"
proof -
  let ?s = "mm_status m"
  have d: "\<not> md_sysex d" "length (md_data d) = 2" using assms(1) by (auto simp: decoder_ready_def)
  have emit: "midi_step d ?s = midi_emit_status d ?s midi_message_zero" if "solar_os_midi_message_length ?s \<noteq> 0"
    using length_cases(2) [OF that] assms(3) d(1) by (simp add: step_status)
  show ?thesis using assms(2)
  proof (cases rule: canonical_cases)
    case one
    have "0xf0 \<le> ?s" using length_cases(3) one(2) by blast
    then have "midi_run d [?s] = ([midi_message_zero\<lparr>mm_status := ?s, mm_length := 1\<rparr>],
        d\<lparr>md_active_status := 0, md_data_count := 0, md_running_status := 0\<rparr>)"
      using one(2) emit by (simp add: midi_emit_status_def)
    moreover have "bs = [?s]" using assms(4) one(3) by simp
    moreover have "running_after ?s = 0" using \<open>0xf0 \<le> ?s\<close> by (simp add: running_after_def leD)
    ultimately show ?thesis using d one(1) by (auto simp: decoder_ready_def)
  next
    case two
    let ?d = "d\<lparr>md_active_status := ?s, md_data_count := 0, md_running_status := running_after ?s\<rparr>"
    have 1: "midi_step d ?s = (MIDI_DECODE_NONE, ?d, midi_message_zero)"
      using two(2) emit by (simp add: midi_emit_status_def running_after_def)
    obtain d' where d': "midi_run ?d [mm_data1 m] = ([m], d')" "decoder_ready (running_after ?s) d'"
      using run_data(1) [of ?d ?s "mm_data1 m"] d two(1-3) by auto
    show ?thesis using assms(4) two(4) d' by (auto simp: 1 split: prod.splits)
  next
    case three
    let ?d = "d\<lparr>md_active_status := ?s, md_data_count := 0, md_running_status := running_after ?s\<rparr>"
    have 1: "midi_step d ?s = (MIDI_DECODE_NONE, ?d, midi_message_zero)"
      using three(2) emit by (simp add: midi_emit_status_def running_after_def)
    obtain d' where d': "midi_run ?d [mm_data1 m, mm_data2 m] = ([m], d')" "decoder_ready (running_after ?s) d'"
      using run_data(2) [of ?d ?s "mm_data1 m" "mm_data2 m"] d three(1-4) by auto
    show ?thesis using assms(4) three(5) d' by (auto simp: 1 split: prod.splits)
  qed
qed

lemma run_running:
  assumes "decoder_ready (mm_status m) d" and "canonical m" and "mm_status m < 0xf0"
    and "solar_os_midi_encode (Some m) True = (n, mm_status m # bs)"
  shows "\<exists>d'. midi_run d bs = ([m], d') \<and> decoder_ready (mm_status m) d'"
proof -
  let ?s = "mm_status m"
  have d: "\<not> md_sysex d" "length (md_data d) = 2" "md_running_status d = running_after ?s"
    "running_after ?s = ?s"
    "md_active_status d = ?s \<and> md_data_count d = 0 \<or> md_active_status d = 0 \<and> md_running_status d = ?s"
    using assms(1,3) by (auto simp: decoder_ready_def running_after_def)
  note rd = run_data [OF d(1-3,5), unfolded d(4)]
  show ?thesis using assms(2)
  proof (cases rule: canonical_cases)
    case one
    then show ?thesis using length_cases(3) [of ?s] assms(3) by auto
  next
    case two
    then show ?thesis using rd(1) [of "mm_data1 m"] assms(4) by auto
  next
    case three
    then show ?thesis using rd(2) [of "mm_data1 m" "mm_data2 m"] assms(4) by auto
  qed
qed

text \<open>
  C17. Decoding inverts every legal serialisation: if the bytes that are not realtime bytes are the
  given messages, each sent in full or under running status, then the decoder emits exactly these
  messages in this order, whatever realtime bytes are mixed in, even within a message.
\<close>

theorem midi_decodes_stream:
  assumes "midi_stream r ms (filter (\<lambda>b. b < 0xf8) bs)" and "decoder_ready r d"
    and "\<forall>m \<in> set ms. mm_status m < 0xf8"
  shows "filter (\<lambda>m. mm_status m < 0xf8) (fst (midi_run d bs)) = ms"
proof -
  have "\<exists>d'. midi_run d cs = (ms, d')"
    if "midi_stream r ms cs" "decoder_ready r d" "\<forall>m \<in> set ms. mm_status m < 0xf8" for cs
    using that
  proof (induction arbitrary: d rule: midi_stream.induct)
    case (ms_nil r)
    then show ?case by simp
  next
    case (ms_full m n bs ms rest r)
    then obtain d1 where "midi_run d bs = ([m], d1)" "decoder_ready (running_after (mm_status m)) d1"
      using run_full by (metis list.set_intros(1))
    then show ?case using ms_full.IH [of d1] ms_full.prems(2) by (auto simp: run_append)
  next
    case (ms_running m n bs r ms rest)
    then obtain d1 where "midi_run d bs = ([m], d1)" "decoder_ready r d1"
      using run_running by metis
    then show ?case using ms_running.IH [of d1] ms_running.prems(2) by (auto simp: run_append)
  qed
  from this [OF assms] obtain d' where "midi_run d (filter (\<lambda>b. b < 0xf8) bs) = (ms, d')" by blast
  then show ?thesis using midi_run_realtime [of d bs] assms(3) by simp
qed

definition demo_note :: "u8 \<Rightarrow> u8 \<Rightarrow> midi_message" where
  "demo_note key velocity = \<lparr>mm_status = 0x90, mm_data1 = key, mm_data2 = velocity, mm_length = 3\<rparr>"

theorem midi_decodes_stream_witness:
  "filter (\<lambda>m. mm_status m < 0xf8) (fst (midi_run midi_decoder_zero [0x90, 60, 0xf8, 100, 60, 0]))
     = [demo_note 60 100, demo_note 60 0]"
proof (rule midi_decodes_stream)
  have c: "canonical (demo_note k v)" "solar_os_midi_encode (Some (demo_note k v)) True = (3, [0x90, k, v])"
    if "k < 0x80" "v < 0x80" for k v
    using that by (auto simp: canonical_def demo_note_def solar_os_midi_message_valid_def solar_os_midi_encode_def
      solar_os_midi_message_length_def midi_status_supported_def MIDI_DATA_MAX_def word_less_nat_alt word_le_nat_alt)
  have n: "mm_status (demo_note k v) = 0x90" for k v by (simp add: demo_note_def)
  have "midi_stream 0x90 [demo_note 60 0] ([60, 0] @ [])"
    using c [of 60 0] by (intro ms_running [of _ 3]) (auto simp: n intro: ms_nil)
  then have "midi_stream (running_after 0x90) [demo_note 60 0] [60, 0]" by (simp add: running_after_def)
  then have "midi_stream 0 [demo_note 60 100, demo_note 60 0] ([0x90, 60, 100] @ [60, 0])"
    using c [of 60 100] by (intro ms_full [of _ 3]) (auto simp: n)
  then show "midi_stream 0 [demo_note 60 100, demo_note 60 0] (filter (\<lambda>b. b < 0xf8) [0x90, 60, 0xf8, 100, 60, 0])"
    by simp
  show "decoder_ready 0 midi_decoder_zero" by (simp add: decoder_ready_def midi_decoder_zero_def)
qed (simp add: demo_note_def)

section \<open>The decoder's invariant\<close>

definition midi_inv :: "midi_decoder \<Rightarrow> bool" where
  "midi_inv d \<longleftrightarrow> length (md_data d) = 2 \<and> md_data d ! 0 < 0x80 \<and> md_data d ! 1 < 0x80
     \<and> (md_running_status d = 0 \<or> 0x80 \<le> md_running_status d \<and> md_running_status d < 0xf0)
     \<and> (md_active_status d = 0 \<or> 2 \<le> solar_os_midi_message_length (md_active_status d)
          \<and> unat (md_data_count d) + 1 < solar_os_midi_message_length (md_active_status d))"

lemma channel_length:
  "0x80 \<le> s \<Longrightarrow> s < 0xf0 \<Longrightarrow> solar_os_midi_message_length s = 2 \<or> solar_os_midi_message_length s = 3"
  by (auto simp: solar_os_midi_message_length_def midi_status_supported_def Let_def not_less [symmetric])

lemma canonical_realtime:
  assumes "solar_os_midi_message_length s = 1"
  shows "canonical (midi_message_zero\<lparr>mm_status := s, mm_length := 1\<rparr>)"
  using assms by (simp add: canonical_def solar_os_midi_message_valid_def midi_message_zero_def)

lemma realtime_length: "0xf8 \<le> s \<Longrightarrow> solar_os_midi_message_length s = 0 \<or> solar_os_midi_message_length s = 1"
proof -
  assume "0xf8 \<le> s"
  then have "\<not> s < 0xf0" "s \<noteq> 0xf1" "s \<noteq> 0xf2" "s \<noteq> 0xf3" by (auto simp: word_le_nat_alt word_less_nat_alt)
  then show ?thesis by (simp add: solar_os_midi_message_length_def)
qed

lemma emit_inv:
  assumes "midi_inv d" and "midi_emit_status d s msg = (r, d', m)"
  shows "midi_inv d' \<and> (r = MIDI_DECODE_MESSAGE \<longrightarrow> canonical m)"
proof (cases "solar_os_midi_message_length s = 0")
  case True
  then show ?thesis using assms by (auto simp: midi_emit_status_def midi_inv_def)
next
  case False
  have s: "0x80 \<le> s" using length_cases(2) [OF False] by simp
  have l: "solar_os_midi_message_length s = 1 \<or> solar_os_midi_message_length s = 2 \<or> solar_os_midi_message_length s = 3"
    using length_cases(1) [of s] False by auto
  show ?thesis using assms s l
    by (auto simp: midi_emit_status_def midi_inv_def canonical_realtime Let_def split: if_splits)
qed

lemma data_inv:
  assumes inv: "midi_inv d" and b: "b < 0x80" and e: "midi_data_byte d b = (r, d', m)"
  shows "midi_inv d' \<and> (r = MIDI_DECODE_MESSAGE \<longrightarrow> canonical m)"
proof -
  define d1 where "d1 = (if md_active_status d = 0
      then d\<lparr>md_active_status := md_running_status d, md_data_count := 0\<rparr> else d)"
  let ?s = "md_active_status d1" and ?n = "md_data_count d1"
  let ?len = "solar_os_midi_message_length ?s"
  obtain x y where xy: "md_data d1 = [x, y]" "x < 0x80" "y < 0x80"
    using inv by (auto simp: midi_inv_def d1_def numeral_2_eq_2 length_Suc_conv split: if_splits)
  have run: "md_running_status d1 = 0 \<or> 0x80 \<le> md_running_status d1 \<and> md_running_status d1 < 0xf0"
    using inv by (auto simp: midi_inv_def d1_def)
  note e1 = e [unfolded midi_data_byte_def d1_def [symmetric] Let_def]
  show ?thesis
  proof (cases "?len < 2 \<or> 2 \<le> unat ?n")
    case True
    then show ?thesis using e1 xy run by (auto simp: midi_inv_def)
  next
    case False
    then have len: "?len = 2 \<or> ?len = 3" using length_cases(1) [of ?s] by auto
    have n: "unat ?n = 0 \<or> unat ?n = 1 \<and> ?len = 3"
      using inv False len by (auto simp: midi_inv_def d1_def split: if_splits)
    then have n': "?n = 0 \<or> ?n = 1 \<and> ?len = 3" by (simp add: word_unat_eq_iff)
    have act: "0 < ?len \<Longrightarrow> ?s \<noteq> 0" using length_cases(2) [of ?s] by auto
    have run_len: "md_running_status d1 = 0 \<or> solar_os_midi_message_length (md_running_status d1) = 2
        \<or> solar_os_midi_message_length (md_running_status d1) = 3"
      using run channel_length by blast
    have can: "canonical \<lparr>mm_status = ?s, mm_data1 = p, mm_data2 = (if 2 < ?len then q else 0), mm_length = of_nat ?len\<rparr>"
      if "p < 0x80" "q < 0x80" for p q
      using len that by (auto simp: canonical_def solar_os_midi_message_valid_def MIDI_DATA_MAX_def
        word_less_nat_alt word_le_nat_alt)
    from n' show ?thesis
    proof (elim disjE conjE)
      assume n0: "?n = 0"
      show ?thesis using len e1 False n0 xy run run_len b can [of b y]
        by (auto simp: midi_inv_def split: if_splits)
    next
      assume n1: "?n = 1" "?len = 3"
      show ?thesis using e1 n1 xy run run_len b can [of x b]
        by (auto simp: midi_inv_def split: if_splits)
    qed
  qed
qed

lemma midi_step_inv:
  assumes inv: "midi_inv d" and e: "midi_step d b = (r, d', m)"
  shows "midi_inv d' \<and> (r = MIDI_DECODE_MESSAGE \<longrightarrow> canonical m)"
proof (cases "0xf8 \<le> b")
  case True
  then show ?thesis using e inv realtime_length [OF True]
    by (auto simp: step_realtime canonical_realtime split: if_splits)
next
  case lt: False
  have inv1: "midi_inv (d\<lparr>md_sysex := False\<rparr>)" using inv by (simp add: midi_inv_def)
  show ?thesis
  proof (cases "md_sysex d \<and> (b = 0xf7 \<or> b AND 0x80 = 0)")
    case True
    then show ?thesis using lt e inv
      by (auto simp: midi_step_def solar_os_midi_decode_byte_def Let_def midi_inv_def split: if_splits)
  next
    case False
    then have step: "midi_step d b = midi_step (d\<lparr>md_sysex := False\<rparr>) b"
      using lt by (auto simp: midi_step_def solar_os_midi_decode_byte_def Let_def)
    show ?thesis
    proof (cases "0x80 \<le> b")
      case True
      show ?thesis
      proof (cases "b = 0xf0")
        case f0: True
        then show ?thesis using e inv1 False
          by (auto simp: midi_step_def solar_os_midi_decode_byte_def Let_def midi_inv_def)
      next
        case nf: False
        have "midi_emit_status (d\<lparr>md_sysex := False\<rparr>) b midi_message_zero = (r, d', m)"
          using e step step_status [of "d\<lparr>md_sysex := False\<rparr>" b] True nf lt by simp
        then show ?thesis by (rule emit_inv [OF inv1])
      qed
    next
      case small: False
      then have "midi_data_byte (d\<lparr>md_sysex := False\<rparr>) b = (r, d', m)"
        using e step step_data [of "d\<lparr>md_sysex := False\<rparr>" b] by simp
      then show ?thesis using small by (intro data_inv [OF inv1]) simp_all
    qed
  qed
qed

lemma run_inv: "midi_inv d \<Longrightarrow> midi_inv (snd (midi_run d bs)) \<and> (\<forall>m \<in> set (fst (midi_run d bs)). canonical m)"
proof (induction bs arbitrary: d)
  case (Cons b bs)
  obtain r d1 m where s: "midi_step d b = (r, d1, m)" by (metis prod_cases3)
  from midi_step_inv [OF Cons.prems s] Cons.IH [of d1] show ?case by (auto simp: s split: prod.splits)
qed simp

text \<open>
  C18. Whatever bytes arrive, the decoder emits only well-formed messages: after a reset, every
  message it reports is valid, has the length of its status byte, and encodes again to that many
  bytes. Between two bytes the decoder is in a consistent state: a running status is a channel
  status, and fewer data bytes are pending than the active status still needs.
\<close>

theorem midi_emits_valid:
  "(\<forall>m \<in> set (fst (midi_run midi_decoder_zero bs)). solar_os_midi_message_valid (Some m)
      \<and> fst (solar_os_midi_encode (Some m) True) = solar_os_midi_message_length (mm_status m)
      \<and> length (snd (solar_os_midi_encode (Some m) True)) = solar_os_midi_message_length (mm_status m))
   \<and> midi_inv (snd (midi_run midi_decoder_zero bs))"
proof -
  have "midi_inv midi_decoder_zero" by (simp add: midi_inv_def midi_decoder_zero_def)
  note r = run_inv [OF this, of bs]
  have "solar_os_midi_message_valid (Some m)
      \<and> fst (solar_os_midi_encode (Some m) True) = solar_os_midi_message_length (mm_status m)
      \<and> length (snd (solar_os_midi_encode (Some m) True)) = solar_os_midi_message_length (mm_status m)"
    if "canonical m" for m
    using that
  proof (cases rule: canonical_cases)
  qed (use that in \<open>simp_all add: canonical_def\<close>)
  with r show ?thesis by blast
qed

theorem midi_emits_valid_witness:
  "\<exists>m \<in> set (fst (midi_run midi_decoder_zero [0xf8, 0x40])). solar_os_midi_message_valid (Some m)"
proof -
  have "fst (midi_run midi_decoder_zero [0xf8, 0x40]) \<noteq> []"
    by (simp add: step_realtime solar_os_midi_message_length_def midi_status_supported_def split: prod.split)
  then obtain m where "m \<in> set (fst (midi_run midi_decoder_zero [0xf8, 0x40]))"
    by (metis list.set_intros(1) neq_Nil_conv)
  then show ?thesis using midi_emits_valid [of "[0xf8, 0x40]"] by blast
qed

end
