(* ===== verification/JsonScan.thy ===== *)
theory JsonScan
  imports SolarBase
begin

text \<open>
  The allocation-free JSON accessors, \<open>src/src/services/solar_os_json_scan.c\<close>. A pointer into the text
  is the rest of the text up to the terminator, \<open>None\<close> for NULL; an output buffer is the string stored
  in it. The scanner terminates the output only when it reaches the closing quote, so after a
  failure the modelled output is what was stored before, not a C string.
\<close>

section \<open>Scanning\<close>

definition JSON_SCAN_NESTING_MAX :: nat where
  "JSON_SCAN_NESTING_MAX = 16"

definition dquote :: char where
  "dquote = CHR 0x22"

definition bslash :: char where
  "bslash = CHR 0x5C"

definition json_scan_skip_ws :: "string option \<Rightarrow> string option" where
  "json_scan_skip_ws p = map_option (dropWhile isspace) p"

text \<open>The one-character escapes.\<close>

definition unescape :: "char \<Rightarrow> char option" where
  "unescape ch =
     (if ch = dquote \<or> ch = bslash \<or> ch = CHR ''/'' then Some ch
      else if ch = CHR ''b'' then Some (CHR 0x08)
      else if ch = CHR ''f'' then Some (CHR 0x0C)
      else if ch = CHR ''n'' then Some (CHR 0x0A)
      else if ch = CHR ''r'' then Some (CHR 0x0D)
      else if ch = CHR ''t'' then Some (CHR 0x09)
      else None)"

text \<open>
  Storing one character: the buffer of \<open>out_len\<close> bytes keeps room for the terminator; the
  \<open>truncated\<close> flag may be NULL.
\<close>

definition store_char :: "nat \<Rightarrow> char \<Rightarrow> string \<times> bool option \<Rightarrow> string \<times> bool option" where
  "store_char out_len ch st =
     (case st of (out, truncated) \<Rightarrow>
        if length out + 1 < out_len then (out @ [ch], truncated)
        else (out, map_option (\<lambda>_. True) truncated))"

function scan_chars :: "nat \<Rightarrow> string \<Rightarrow> string \<times> bool option \<Rightarrow> string option \<times> string \<times> bool option" where
  "scan_chars out_len [] st = (None, st)"
| "scan_chars out_len (ch # p) st =
     (if ch = dquote then (Some p, st)
      else if (of_char ch :: nat) < 32 then (None, st)
      else if ch = bslash
      then (case p of
              [] \<Rightarrow> (None, st)
            | e # q \<Rightarrow>
                (case unescape e of
                   Some c \<Rightarrow> scan_chars out_len q (store_char out_len c st)
                 | None \<Rightarrow>
                     if e = CHR ''u'' \<and> 4 \<le> length q \<and> list_all isxdigit (take 4 q)
                     then scan_chars out_len (drop 4 q) (store_char out_len (CHR ''?'') st)
                     else (None, st)))
      else scan_chars out_len p (store_char out_len ch st))"
  by pat_completeness auto
termination
  by (relation "measure (\<lambda>(_, p, _). length p)") auto

definition json_scan_string ::
  "string option \<Rightarrow> string option \<Rightarrow> nat \<Rightarrow> bool option \<Rightarrow> string option \<times> string option \<times> bool option" where
  "json_scan_string p out out_len truncated =
     (case (p, out) of
        (Some (ch # rest), Some _) \<Rightarrow>
          if ch \<noteq> dquote \<or> out_len = 0 then (None, out, truncated)
          else (case scan_chars out_len rest ([], truncated) of
                  (r, o1, t) \<Rightarrow> (r, Some o1, t))
      | _ \<Rightarrow> (None, out, truncated))"

lemma scan_chars_shorter: "scan_chars n p st = (Some r, st') \<Longrightarrow> length r < length p"
proof (induction "length p" arbitrary: p st rule: less_induct)
  case less
  have ih: "length r < k" if "scan_chars n q st1 = (Some r, st')" "length q < length p" "length q \<le> k" for q st1 k
    using less.hyps [OF that(2,1)] that(3) by simp
  show ?case using less.prems ih
    by (cases p) (auto split: if_splits list.splits option.splits)
qed

text \<open>Skipping a string: a scratch buffer of one byte and no truncation flag.\<close>

definition skip_string :: "string \<Rightarrow> string option" where
  "skip_string p = fst (json_scan_string (Some p) (Some []) 1 None)"

lemma skip_string_shorter: "skip_string p = Some r \<Longrightarrow> length r < length p"
  by (cases p) (auto simp: skip_string_def json_scan_string_def split: if_splits prod.splits dest: scan_chars_shorter)

definition closing_of :: "char \<Rightarrow> char" where
  "closing_of c = (if c = CHR ''{'' then CHR ''}'' else CHR '']'')"

text \<open>Inside an object or array; \<open>closing\<close> is the stack of closing brackets, innermost first.\<close>

function skip_nested :: "string \<Rightarrow> string \<Rightarrow> string option" where
  "skip_nested [] closing = None"
| "skip_nested (c # p) closing =
     (if c = dquote then (case skip_string (c # p) of
                            None \<Rightarrow> None
                          | Some r \<Rightarrow> skip_nested r closing)
      else if c = CHR ''{'' \<or> c = CHR ''[''
      then (if JSON_SCAN_NESTING_MAX \<le> length closing then None
            else skip_nested p (closing_of c # closing))
      else if c = CHR ''}'' \<or> c = CHR '']''
      then (case closing of
              [] \<Rightarrow> None
            | inner # outer \<Rightarrow> if c \<noteq> inner then None
                             else if outer = [] then Some p else skip_nested p outer)
      else skip_nested p closing)"
  by pat_completeness auto
termination
  by (relation "measure (\<lambda>(p, _). length p)") (auto dest: skip_string_shorter)

definition json_scan_skip_value :: "string option \<Rightarrow> string option" where
  "json_scan_skip_value p =
     (case json_scan_skip_ws p of
        None \<Rightarrow> None
      | Some [] \<Rightarrow> None
      | Some (c # q) \<Rightarrow>
          if c = dquote then skip_string (c # q)
          else if c = CHR ''{'' \<or> c = CHR ''['' then skip_nested q [closing_of c]
          else let rest = dropWhile (\<lambda>x. x \<noteq> CHR '','' \<and> x \<noteq> CHR ''}'') (c # q)
               in if rest \<noteq> c # q then Some rest else None)"

lemma skip_nested_shorter: "skip_nested p st = Some r \<Longrightarrow> length r < length p"
proof (induction "length p" arbitrary: p st rule: less_induct)
  case less
  have ih: "length r < k" if "skip_nested q st1 = Some r" "length q < length p" "length q \<le> k" for q st1 k
    using less.hyps [OF that(2,1)] that(3) by simp
  show ?case
  proof (cases p)
    case Nil
    then show ?thesis using less.prems by simp
  next
    case (Cons c q)
    show ?thesis
    proof (cases "c = dquote")
      case True
      then obtain r1 where r1: "skip_string p = Some r1" "skip_nested r1 st = Some r"
        using less.prems Cons by (auto split: option.splits)
      show ?thesis using ih [OF r1(2)] skip_string_shorter [OF r1(1)] by simp
    next
      case False
      have "length q < length p" using Cons by simp
      then have ih1: "length r < length p" if "skip_nested q st1 = Some r" for st1
        using ih [OF that] by simp
      show ?thesis using less.prems False Cons ih1
        by (simp split: if_splits list.splits)
    qed
  qed
qed

lemma skip_value_le:
  assumes "json_scan_skip_value (Some p) = Some r"
  shows "length r \<le> length p"
proof -
  have ws: "length (dropWhile isspace p) \<le> length p" by (rule length_dropWhile_le)
  obtain c q where cq: "dropWhile isspace p = c # q"
    using assms by (cases "dropWhile isspace p") (simp_all add: json_scan_skip_value_def json_scan_skip_ws_def)
  have "length r \<le> length (c # q)"
    using assms length_dropWhile_le [of "\<lambda>x. x \<noteq> CHR '','' \<and> x \<noteq> CHR ''}''" "c # q"]
    by (auto simp: json_scan_skip_value_def json_scan_skip_ws_def cq Let_def split: if_splits
        dest!: skip_string_shorter skip_nested_shorter simp del: dropWhile.simps)
  then show ?thesis using ws cq by simp
qed

lemma json_scan_string_shorter: "json_scan_string (Some q) x n t = (Some r, y) \<Longrightarrow> length r < length q"
  by (cases q) (auto simp: json_scan_string_def split: if_splits prod.splits option.splits dest: scan_chars_shorter)

lemma member_loop_decreases:
  assumes "json_scan_string (Some (dropWhile isspace p)) (Some []) 64 (Some False) = (Some r, y)"
    and "json_scan_skip_ws (json_scan_skip_value (Some (dropWhile isspace (drop 1 (dropWhile isspace r))))) = Some e"
  shows "length (drop 1 e) < length p"
proof -
  let ?v = "dropWhile isspace (drop 1 (dropWhile isspace r))"
  obtain e0 where e0: "json_scan_skip_value (Some ?v) = Some e0" "e = dropWhile isspace e0"
    using assms(2) by (auto simp: json_scan_skip_ws_def)
  have "length (drop 1 e) \<le> length e0" using length_dropWhile_le [of isspace e0] e0(2) by simp
  also have "\<dots> \<le> length ?v" by (rule skip_value_le [OF e0(1)])
  also have "\<dots> \<le> length (drop 1 (dropWhile isspace r))" by (rule length_dropWhile_le)
  also have "\<dots> \<le> length r" using length_dropWhile_le [of isspace r] by simp
  also have "\<dots> < length (dropWhile isspace p)" using json_scan_string_shorter [OF assms(1)] .
  also have "\<dots> \<le> length p" by (rule length_dropWhile_le)
  finally show ?thesis .
qed

text \<open>The loop over the members, from the position after the opening brace or a comma.\<close>

function member_loop :: "string \<Rightarrow> string \<Rightarrow> string option" where
  "member_loop key p =
     (if p = [] then None
      else let q = dropWhile isspace p
           in if take 1 q = ''}'' then None
              else (case json_scan_string (Some q) (Some []) 64 (Some False) of
                      (Some r, Some member, member_truncated) \<Rightarrow>
                        let r1 = dropWhile isspace r
                        in if take 1 r1 \<noteq> '':'' then None
                           else let v = dropWhile isspace (drop 1 r1)
                                in if member_truncated = Some False \<and> member = key then Some v
                                   else (case json_scan_skip_ws (json_scan_skip_value (Some v)) of
                                           None \<Rightarrow> None
                                         | Some e \<Rightarrow> if take 1 e = '','' then member_loop key (drop 1 e) else None)
                    | _ \<Rightarrow> None))"
  by pat_completeness auto

termination
  by (relation "measure (\<lambda>(key, p). length p)")
     (simp, simp only: in_measure case_prod_conv, hypsubst, rule member_loop_decreases, erule sym, assumption)

declare member_loop.simps [simp del]

definition json_scan_member_value :: "string option \<Rightarrow> string option \<Rightarrow> string option" where
  "json_scan_member_value json key =
     (case (json, key) of
        (Some j, Some k) \<Rightarrow>
          if k = [] then None
          else (case json_scan_skip_ws (Some j) of
                  Some (c # p) \<Rightarrow> if c = CHR ''{'' then member_loop k p else None
                | _ \<Rightarrow> None)
      | _ \<Rightarrow> None)"

section \<open>The accessors\<close>

text \<open>The result, the output buffer (unchanged when it is NULL or empty) and the truncation flag.\<close>

definition solar_os_json_scan_object_string ::
  "string option \<Rightarrow> string option \<Rightarrow> string option \<Rightarrow> nat \<Rightarrow> bool option
   \<Rightarrow> bool \<times> string option \<times> bool option" where
  "solar_os_json_scan_object_string json key out out_len truncated =
     (if out = None \<or> out_len = 0 then (False, out, truncated)
      else (case json_scan_member_value json key of
              None \<Rightarrow> (False, Some [], truncated)
            | Some v \<Rightarrow>
                if take 1 v \<noteq> [dquote] then (False, Some [], truncated)
                else (case json_scan_string (Some v) (Some []) out_len truncated of
                        (end_at, o1, t) \<Rightarrow>
                          ((case json_scan_skip_ws end_at of
                              None \<Rightarrow> False
                            | Some e \<Rightarrow> take 1 e = '','' \<or> take 1 e = ''}''), o1, t))))"

text \<open>The digits: \<open>None\<close> when the value would exceed 64 bits.\<close>

definition UINT64_MAX :: u64 where
  "UINT64_MAX = 18446744073709551615"

fun scan_digits :: "u64 \<Rightarrow> string \<Rightarrow> (u64 \<times> string) option" where
  "scan_digits value [] = Some (value, [])"
| "scan_digits value (c # p) =
     (if isdigit c
      then let digit = of_nat (of_char c - 48) :: u64
           in if (UINT64_MAX - digit) div 10 < value then None
              else scan_digits (value * 10 + digit) p
      else Some (value, c # p))"

definition solar_os_json_scan_object_uint64 ::
  "string option \<Rightarrow> string option \<Rightarrow> u64 option \<Rightarrow> bool \<times> u64 option" where
  "solar_os_json_scan_object_uint64 json key out =
     (if out = None then (False, out)
      else (case json_scan_member_value json key of
              Some (c # p) \<Rightarrow>
                if \<not> isdigit c then (False, out)
                else (case scan_digits 0 (c # p) of
                        None \<Rightarrow> (False, out)
                      | Some (value, rest) \<Rightarrow>
                          let e = dropWhile isspace rest
                          in if take 1 e = '','' \<or> take 1 e = ''}'' then (True, Some value) else (False, out))
            | _ \<Rightarrow> (False, out)))"

section \<open>Escaping\<close>

definition hex_char :: "nat \<Rightarrow> char" where
  "hex_char n = char_of (if n < 10 then 48 + n else 87 + n)"

definition escape_chunk :: "char \<Rightarrow> string" where
  "escape_chunk c =
     (if c = dquote then [bslash, dquote]
      else if c = bslash then [bslash, bslash]
      else if c = CHR 0x08 then [bslash, CHR ''b'']
      else if c = CHR 0x0C then [bslash, CHR ''f'']
      else if c = CHR 0x0A then [bslash, CHR ''n'']
      else if c = CHR 0x0D then [bslash, CHR ''r'']
      else if c = CHR 0x09 then [bslash, CHR ''t'']
      else let n = (of_char c :: nat)
           in if n < 32 then [bslash, CHR ''u'', CHR ''0'', CHR ''0'', hex_char (n div 16), hex_char (n mod 16)]
              else [c])"

fun escape_loop :: "nat \<Rightarrow> string \<Rightarrow> string \<Rightarrow> esp_err \<times> string" where
  "escape_loop out_len [] out = (ESP_OK, out)"
| "escape_loop out_len (c # p) out =
     (let chunk = escape_chunk c
      in if out_len \<le> length out + length chunk then (ESP_ERR_INVALID_SIZE, out)
         else escape_loop out_len p (out @ chunk))"

definition solar_os_json_escape_string :: "string option \<Rightarrow> string option \<Rightarrow> nat \<Rightarrow> esp_err \<times> string option" where
  "solar_os_json_escape_string source out out_len =
     (case (source, out) of
        (Some s, Some _) \<Rightarrow>
          if out_len = 0 then (ESP_ERR_INVALID_ARG, out)
          else (case escape_loop out_len s [] of (err, o1) \<Rightarrow> (err, Some o1))
      | _ \<Rightarrow> (ESP_ERR_INVALID_ARG, out))"

section \<open>Escaping and scanning are inverse\<close>

definition json_escape :: "string \<Rightarrow> string" where
  "json_escape s = concat (map escape_chunk s)"

text \<open>What comes back: a control character without a short escape is read as a question mark.\<close>

definition shown :: "char \<Rightarrow> char" where
  "shown c = (if (of_char c :: nat) < 32 \<and> (of_char c :: nat) \<notin> {8, 9, 10, 12, 13} then CHR ''?'' else c)"

lemma escape_loop_eq:
  "length out < n \<Longrightarrow> escape_loop n s out = (ESP_OK, o1) \<longleftrightarrow>
     o1 = out @ json_escape s \<and> length (out @ json_escape s) < n"
proof (induction s arbitrary: out)
  case Nil
  then show ?case by (auto simp: json_escape_def)
next
  case (Cons c s)
  show ?case
  proof (cases "n \<le> length out + length (escape_chunk c)")
    case True
    then show ?thesis by (auto simp: json_escape_def)
  next
    case False
    then show ?thesis using Cons.IH [of "out @ escape_chunk c"] by (auto simp: json_escape_def)
  qed
qed

lemma escape_loop_bound:
  assumes "escape_loop n s out = (err, o1)" and "length out < n"
  shows "length o1 < n \<and> (\<exists>k. o1 = out @ json_escape (take k s))"
  using assms
proof (induction s arbitrary: out)
  case Nil
  then show ?case by (auto simp: json_escape_def)
next
  case (Cons c s)
  show ?case
  proof (cases "n \<le> length out + length (escape_chunk c)")
    case True
    then have "o1 = out @ json_escape (take 0 (c # s))" using Cons.prems by (simp add: json_escape_def)
    then show ?thesis using Cons.prems(2) by (metis append_Nil2 concat.simps(1) json_escape_def list.simps(8) take0)
  next
    case False
    then obtain k where "length o1 < n" "o1 = (out @ escape_chunk c) @ json_escape (take k s)"
      using Cons.IH [of "out @ escape_chunk c"] Cons.prems(1) by auto
    then show ?thesis by (intro conjI exI [of _ "Suc k"]) (simp_all add: json_escape_def)
  qed
qed

lemma char_consts [simp]: "bslash \<noteq> dquote" "dquote \<noteq> bslash" "of_char dquote = (34 :: nat)" "of_char bslash = (92 :: nat)"
  by (simp_all add: dquote_def bslash_def)

lemma control_chars:
  "(of_char c :: nat) \<in> {8, 9, 10, 12, 13} \<Longrightarrow> c \<in> {CHR 0x08, CHR 0x09, CHR 0x0A, CHR 0x0C, CHR 0x0D}"
proof -
  have k: "char_of (8 :: nat) = CHR 0x08" "char_of (9 :: nat) = CHR 0x09" "char_of (10 :: nat) = CHR 0x0A"
    "char_of (12 :: nat) = CHR 0x0C" "char_of (13 :: nat) = CHR 0x0D"
    by code_simp+
  have "c = char_of n" if "of_char c = (n :: nat)" for n
    using char_of_char [of c, where ?'a = nat] that by simp
  then show "(of_char c :: nat) \<in> {8, 9, 10, 12, 13} \<Longrightarrow> ?thesis" using k by (elim insertE) auto
qed

lemma hex_char_digit: "k < 16 \<Longrightarrow> isxdigit (hex_char k)"
  by (auto simp: hex_char_def isxdigit_def Let_def of_char_of)

lemma scan_escape_chunk:
  "scan_chars n (escape_chunk c @ p) st = scan_chars n p (store_char n (shown c) st)"
proof -
  have u: "unescape (CHR ''u'') = None" by (simp add: unescape_def dquote_def bslash_def)
  have x0: "isxdigit (CHR ''0'')" by (simp add: isxdigit_def)
  consider "c = dquote" | "c = bslash" | "c = CHR 0x08" | "c = CHR 0x0C" | "c = CHR 0x0A" | "c = CHR 0x0D" | "c = CHR 0x09"
    | (ctl) "c \<notin> {dquote, bslash, CHR 0x08, CHR 0x0C, CHR 0x0A, CHR 0x0D, CHR 0x09}" "(of_char c :: nat) < 32"
    | (plain) "c \<notin> {dquote, bslash, CHR 0x08, CHR 0x0C, CHR 0x0A, CHR 0x0D, CHR 0x09}" "\<not> (of_char c :: nat) < 32"
    by blast
  then show ?thesis
  proof cases
    case ctl
    have "escape_chunk c = [bslash, CHR ''u'', CHR ''0'', CHR ''0'',
        hex_char ((of_char c :: nat) div 16), hex_char ((of_char c :: nat) mod 16)]"
      using ctl by (simp add: escape_chunk_def Let_def)
    moreover have "isxdigit (hex_char ((of_char c :: nat) div 16))" "isxdigit (hex_char ((of_char c :: nat) mod 16))"
      using ctl(2) by (auto intro!: hex_char_digit)
    moreover have "(of_char c :: nat) \<notin> {8, 9, 10, 12, 13}"
      using ctl(1) control_chars [of c] by blast
    then have "shown c = CHR ''?''" using ctl(2) by (simp add: shown_def)
    ultimately show ?thesis using u x0 by simp
  next
    case plain
    have "escape_chunk c = [c]" "shown c = c" using plain by (simp_all add: escape_chunk_def shown_def)
    then show ?thesis using plain by simp
  qed (simp_all add: escape_chunk_def shown_def unescape_def, simp_all add: dquote_def bslash_def)
qed

lemma scan_escaped:
  "scan_chars n (json_escape s @ p) (out, tr) = scan_chars n p (fold (store_char n) (map shown s) (out, tr))"
  by (induction s arbitrary: out tr) (simp_all add: json_escape_def scan_escape_chunk split_paired_all, metis surj_pair)

lemma store_all:
  "length out < n \<Longrightarrow> fold (store_char n) xs (out, tr) =
     (take (n - 1) (out @ xs), if length out + length xs < n then tr else map_option (\<lambda>_. True) tr)"
proof (induction xs arbitrary: out tr)
  case Nil
  then show ?case by simp
next
  case (Cons x xs)
  show ?case
  proof (cases "length out + 1 < n")
    case True
    then show ?thesis using Cons.IH [of "out @ [x]" tr] by (simp add: store_char_def)
  next
    case False
    then have "n = Suc (length out)" using Cons.prems by simp
    then show ?thesis using Cons.IH [of out "map_option (\<lambda>_. True) tr"]
      by (simp add: store_char_def option.map_comp comp_def)
  qed
qed

definition quoted :: "string \<Rightarrow> string" where
  "quoted s = dquote # json_escape s @ [dquote]"

lemma scan_quoted:
  assumes "0 < n"
  shows "json_scan_string (Some (quoted s @ rest)) (Some o1) n tr =
    (Some rest, Some (take (n - 1) (map shown s)), if length s < n then tr else map_option (\<lambda>_. True) tr)"
  using assms by (simp add: json_scan_string_def quoted_def scan_escaped store_all)

lemma skip_quoted: "skip_string (quoted s @ rest) = Some rest"
  by (simp add: skip_string_def scan_quoted)

text \<open>
  C19. Strings survive the wire: when \<open>solar_os_json_escape_string\<close> succeeds, scanning its output
  between quotes returns the original text, cut to the size of the receiving buffer with the
  truncation reported exactly when that happens; only control characters that have no short escape
  come back as a question mark. It succeeds exactly when the escaped text and its terminator fit, and
  on failure the output is the escaped text of a prefix that fits.
\<close>

theorem json_escape_roundtrip:
  assumes "solar_os_json_escape_string (Some s) (Some o0) n = (err, Some e)" and "0 < n" and "0 < m"
  shows "(err = ESP_OK \<longrightarrow> json_scan_string (Some (dquote # e @ dquote # rest)) (Some o1) m (Some False) =
        (Some rest, Some (take (m - 1) (map shown s)), Some (m \<le> length s)))
    \<and> (err = ESP_OK \<longleftrightarrow> length (json_escape s) < n)
    \<and> length e < n \<and> (\<exists>k. e = json_escape (take k s))"
proof -
  have l: "escape_loop n s [] = (err, e)"
    using assms(1,2) by (auto simp: solar_os_json_escape_string_def split: prod.splits)
  have ok: "err = ESP_OK \<longleftrightarrow> length (json_escape s) < n"
    using escape_loop_eq [of "[]" n s "json_escape s"] escape_loop_eq [of "[]" n s e] assms(2) l by auto
  have "e = json_escape s" if "err = ESP_OK"
    using escape_loop_eq [of "[]" n s e] assms(2) l that by auto
  then have "err = ESP_OK \<longrightarrow> json_scan_string (Some (dquote # e @ dquote # rest)) (Some o1) m (Some False) =
        (Some rest, Some (take (m - 1) (map shown s)), Some (m \<le> length s))"
    using scan_quoted [OF assms(3), of s rest o1 "Some False"] by (auto simp: quoted_def)
  then show ?thesis using ok escape_loop_bound [OF l] assms(2) by simp
qed

theorem json_escape_roundtrip_witness:
  "json_scan_string (Some (dquote # [CHR ''a'', bslash, dquote, CHR ''b''] @ dquote # ''}'')) (Some []) 3 (Some False)
     = (Some ''}'', Some [CHR ''a'', dquote], Some True)"
proof -
  have "solar_os_json_escape_string (Some [CHR ''a'', dquote, CHR ''b'']) (Some []) 8 =
      (ESP_OK, Some [CHR ''a'', bslash, dquote, CHR ''b''])"
    by (simp add: solar_os_json_escape_string_def escape_chunk_def dquote_def bslash_def)
  from json_escape_roundtrip [OF this, of 3 "''}''" "[]"] show ?thesis
    by (simp add: shown_def)
qed

section \<open>Looking up members\<close>

text \<open>
  JSON values as they are written to the wire by the firmware's peers: strings, other tokens
  (numbers and literals), arrays and objects, without optional white space.
\<close>

datatype json =
    JString string
  | JToken string
  | JArray "json list"
  | JObject "(string \<times> json) list"

fun commas :: "string list \<Rightarrow> string" where
  "commas [] = []"
| "commas [x] = x"
| "commas (x # y # zs) = x @ '','' @ commas (y # zs)"

fun print_json :: "json \<Rightarrow> string" where
  "print_json (JString s) = quoted s"
| "print_json (JToken t) = t"
| "print_json (JArray vs) = ''['' @ commas (map print_json vs) @ '']''"
| "print_json (JObject ms) = ''{'' @ commas (map (\<lambda>m. quoted (fst m) @ '':'' @ print_json (snd m)) ms) @ ''}''"

definition plain_char :: "char \<Rightarrow> bool" where
  "plain_char c \<longleftrightarrow> \<not> isspace c \<and> c \<noteq> dquote \<and> c \<notin> set ''{}[],''"

text \<open>The brackets around the deepest part of a value, and the tokens allowed in it.\<close>

fun json_ok :: "nat \<Rightarrow> json \<Rightarrow> bool" where
  "json_ok n (JString s) \<longleftrightarrow> True"
| "json_ok n (JToken t) \<longleftrightarrow> t \<noteq> [] \<and> list_all plain_char t"
| "json_ok n (JArray vs) \<longleftrightarrow> (case n of 0 \<Rightarrow> False | Suc k \<Rightarrow> \<forall>v \<in> set vs. json_ok k v)"
| "json_ok n (JObject ms) \<longleftrightarrow> (case n of 0 \<Rightarrow> False | Suc k \<Rightarrow> \<forall>m \<in> set ms. json_ok k (snd m))"

text \<open>Skipping a piece of text inside brackets leaves the stack as it was.\<close>

definition skips :: "string \<Rightarrow> string \<Rightarrow> bool" where
  "skips st x \<longleftrightarrow> (\<forall>rest. skip_nested (x @ rest) st = skip_nested rest st)"

lemma skips_append: "skips st x \<Longrightarrow> skips st y \<Longrightarrow> skips st (x @ y)"
  by (simp add: skips_def)

lemma skips_quoted: "skips st (quoted s)"
proof -
  have "skip_nested (quoted s @ rest) st = skip_nested rest st" for rest
  proof -
    obtain q where q: "quoted s @ rest = dquote # q" by (simp add: quoted_def)
    show ?thesis using skip_quoted [of s rest] unfolding q by simp
  qed
  then show ?thesis by (simp add: skips_def)
qed

lemma skips_char: "c \<noteq> dquote \<Longrightarrow> c \<notin> set ''{}[]'' \<Longrightarrow> skips st [c]"
  by (simp add: skips_def)

lemma skips_plain: "list_all plain_char t \<Longrightarrow> skips st t"
proof (induction t)
  case Nil
  then show ?case by (simp add: skips_def)
next
  case (Cons c t)
  then show ?case using skips_append [of st "[c]" t] skips_char [of c st] by (simp add: plain_char_def)
qed

lemma skips_commas: "\<forall>x \<in> set xs. skips st x \<Longrightarrow> skips st (commas xs)"
proof (induction xs rule: commas.induct)
  case 1
  then show ?case by (simp add: skips_def)
next
  case (3 x y zs)
  have "skips st '',''" by (rule skips_char) (simp_all add: dquote_def)
  then show ?case using 3 by (simp add: skips_append del: append_Cons append_Nil)
qed simp

lemma skip_brackets:
  assumes "skips (closing_of c # st) x" and "c = CHR ''{'' \<or> c = CHR ''[''"
  shows "skip_nested (x @ closing_of c # rest) (closing_of c # st) =
    (if st = [] then Some rest else skip_nested rest st)"
  using assms by (auto simp: skips_def closing_of_def dquote_def)

lemma skips_brackets:
  assumes "skips (closing_of c # st) x" and "c = CHR ''{'' \<or> c = CHR ''[''"
    and "st \<noteq> []" and "length st < JSON_SCAN_NESTING_MAX"
  shows "skips st (c # x @ [closing_of c])"
proof -
  have "c \<noteq> dquote" using assms(2) by (auto simp: dquote_def)
  then show ?thesis using skip_brackets [OF assms(1,2)] assms(2-4) by (auto simp: skips_def not_le)
qed

lemma skips_json:
  "json_ok n v \<Longrightarrow> length st + n \<le> JSON_SCAN_NESTING_MAX \<Longrightarrow> st \<noteq> [] \<Longrightarrow> skips st (print_json v)"
proof (induction v arbitrary: n st rule: print_json.induct)
  case (1 s)
  then show ?case by (simp add: skips_quoted)
next
  case (2 t)
  then show ?case by (simp add: skips_plain)
next
  case (3 vs)
  obtain k where k: "n = Suc k" "\<forall>v \<in> set vs. json_ok k v" using "3.prems"(1) by (cases n) auto
  have "\<forall>x \<in> set (map print_json vs). skips (closing_of (CHR ''['') # st) x"
    using "3.IH" k "3.prems"(2) by auto
  from skips_brackets [OF skips_commas [OF this]] "3.prems"(2,3) k(1) show ?case
    by (simp add: closing_of_def)
next
  case (4 ms)
  obtain k where k: "n = Suc k" "\<forall>m \<in> set ms. json_ok k (snd m)" using "4.prems"(1) by (cases n) auto
  have colon: "skips st1 '':''" for st1 by (rule skips_char) (simp_all add: dquote_def)
  have "\<forall>x \<in> set (map (\<lambda>m. quoted (fst m) @ '':'' @ print_json (snd m)) ms). skips (closing_of (CHR ''{'') # st) x"
    using "4.IH" k "4.prems"(2)
    by (auto intro!: skips_append skips_quoted colon simp del: append_Cons append_Nil)
  from skips_brackets [OF skips_commas [OF this]] "4.prems"(2,3) k(1) show ?case
    by (simp add: closing_of_def)
qed

lemma skip_value_json:
  assumes "json_ok JSON_SCAN_NESTING_MAX v" and "take 1 rest = '','' \<or> take 1 rest = ''}''"
  shows "json_scan_skip_value (Some (print_json v @ rest)) = Some rest"
proof (cases v)
  case (JString s)
  obtain q where q: "quoted s @ rest = dquote # q" by (simp add: quoted_def)
  have "\<not> isspace dquote" by (simp add: isspace_def dquote_def)
  then show ?thesis using skip_quoted [of s rest]
    by (simp add: JString json_scan_skip_value_def json_scan_skip_ws_def q)
next
  case (JToken t)
  then obtain c u where t: "t = c # u" "list_all plain_char t" using assms(1) by (cases t) auto
  let ?P = "\<lambda>x. x \<noteq> CHR '','' \<and> x \<noteq> CHR ''}''"
  have "dropWhile ?P (t @ rest) = dropWhile ?P rest"
    using t(2) by (intro dropWhile_append2) (auto simp: list_all_iff plain_char_def)
  also have "\<dots> = rest" using assms(2) by (cases rest) auto
  finally show ?thesis using t
    by (simp add: JToken json_scan_skip_value_def json_scan_skip_ws_def plain_char_def Let_def)
next
  case (JArray vs)
  obtain k where k: "JSON_SCAN_NESTING_MAX = Suc k" "\<forall>v \<in> set vs. json_ok k v"
    using assms(1) by (auto simp: JArray split: nat.splits)
  have "\<forall>x \<in> set (map print_json vs). skips [closing_of (CHR ''['')] x"
    using skips_json [of k _ "[closing_of (CHR ''['')]"] k by auto
  from skip_brackets [OF skips_commas [OF this], of rest] show ?thesis
    by (simp add: JArray json_scan_skip_value_def json_scan_skip_ws_def closing_of_def isspace_def dquote_def)
next
  case (JObject ms)
  obtain k where k: "JSON_SCAN_NESTING_MAX = Suc k" "\<forall>m \<in> set ms. json_ok k (snd m)"
    using assms(1) by (auto simp: JObject split: nat.splits)
  have colon: "skips st1 '':''" for st1 by (rule skips_char) (simp_all add: dquote_def)
  have "\<forall>x \<in> set (map (\<lambda>m. quoted (fst m) @ '':'' @ print_json (snd m)) ms). skips [closing_of (CHR ''{'')] x"
    using skips_json [of k _ "[closing_of (CHR ''{'')]"] k
    by (auto intro!: skips_append skips_quoted colon simp del: append_Cons append_Nil)
  from skip_brackets [OF skips_commas [OF this], of rest] show ?thesis
    by (simp add: JObject json_scan_skip_value_def json_scan_skip_ws_def closing_of_def isspace_def dquote_def)
qed

definition member_text :: "string \<times> json \<Rightarrow> string" where
  "member_text m = quoted (fst m) @ '':'' @ print_json (snd m)"

lemma print_object: "print_json (JObject ms) = ''{'' @ commas (map member_text ms) @ ''}''"
  by (simp add: member_text_def [abs_def])

lemma print_start: "json_ok n v \<Longrightarrow> dropWhile isspace (print_json v @ x) = print_json v @ x"
  by (cases v) (auto simp: quoted_def isspace_def dquote_def plain_char_def neq_Nil_conv)

lemma member_loop_step:
  assumes "json_ok JSON_SCAN_NESTING_MAX (snd m)" and "take 1 tail = '','' \<or> take 1 tail = ''}''"
  shows "member_loop key (member_text m @ tail) =
    (if length (fst m) \<le> 63 \<and> map shown (fst m) = key then Some (print_json (snd m) @ tail)
     else if take 1 tail = '','' then member_loop key (drop 1 tail) else None)"
proof -
  let ?p = "member_text m @ tail"
  have p: "?p = quoted (fst m) @ '':'' @ print_json (snd m) @ tail" by (simp add: member_text_def)
  obtain q where q: "?p = dquote # q" by (simp add: p quoted_def)
  have nb: "dropWhile isspace ?p = ?p" "take 1 ?p \<noteq> ''}''" "?p \<noteq> []"
    unfolding q by (simp_all add: isspace_def dquote_def)
  have sc: "json_scan_string (Some ?p) (Some []) 64 (Some False) =
      (Some ('':'' @ print_json (snd m) @ tail), Some (take 63 (map shown (fst m))),
       Some (\<not> length (fst m) < 64))"
    unfolding p using scan_quoted [of 64 "fst m" "'':'' @ print_json (snd m) @ tail" "[]" "Some False"] by simp
  have c: "dropWhile isspace ('':'' @ print_json (snd m) @ tail) = '':'' @ print_json (snd m) @ tail"
    by (simp add: isspace_def)
  have sk: "json_scan_skip_ws (json_scan_skip_value (Some (print_json (snd m) @ tail))) = Some tail"
    using assms(2) skip_value_json [OF assms(1,2)]
    by (cases tail) (auto simp: json_scan_skip_ws_def isspace_def)
  have d: "drop 1 ('':'' @ x) = x" "take 1 ('':'' @ x) = '':''" for x by simp_all
  have h: "Some (\<not> length (fst m) < 64) = Some False \<and> take 63 (map shown (fst m)) = key \<longleftrightarrow>
      length (fst m) \<le> 63 \<and> map shown (fst m) = key" by auto
  show ?thesis
    by (subst member_loop.simps)
       (simp only: nb sc c d h Let_def if_False prod.case option.case sk print_start [OF assms(1)] simp_thms)
qed

definition lookup_member :: "string \<Rightarrow> (string \<times> json) list \<Rightarrow> (string \<times> json) option" where
  "lookup_member key ms = find (\<lambda>m. length (fst m) \<le> 63 \<and> map shown (fst m) = key) ms"

lemma member_loop_print:
  assumes "\<forall>m \<in> set ms. json_ok JSON_SCAN_NESTING_MAX (snd m)"
  shows "case lookup_member key ms of
      None \<Rightarrow> member_loop key (commas (map member_text ms) @ ''}'' @ rest) = None
    | Some m \<Rightarrow> \<exists>tail. member_loop key (commas (map member_text ms) @ ''}'' @ rest) = Some (print_json (snd m) @ tail)
        \<and> (take 1 tail = '','' \<or> take 1 tail = ''}'')"
  using assms
proof (induction ms)
  case Nil
  then show ?case by (subst member_loop.simps) (simp add: lookup_member_def isspace_def)
next
  case (Cons m ms)
  have ok: "json_ok JSON_SCAN_NESTING_MAX (snd m)" using Cons.prems by simp
  let ?hit = "length (fst m) \<le> 63 \<and> map shown (fst m) = key"
  show ?case
  proof (cases ms)
    case Nil
    have "member_loop key (member_text m @ ''}'' @ rest) =
        (if ?hit then Some (print_json (snd m) @ ''}'' @ rest) else None)"
      using member_loop_step [OF ok, of "''}'' @ rest" key] by simp
    then show ?thesis by (auto simp: Nil lookup_member_def)
  next
    case (Cons m2 ms2)
    let ?tail = "'','' @ commas (map member_text ms) @ ''}'' @ rest"
    have "member_loop key (member_text m @ ?tail) =
        (if ?hit then Some (print_json (snd m) @ ?tail)
         else member_loop key (commas (map member_text ms) @ ''}'' @ rest))"
      using member_loop_step [OF ok, of ?tail key] by simp
    moreover have e: "commas (map member_text (m # ms)) @ ''}'' @ rest = member_text m @ ?tail"
      by (simp add: Cons)
    moreover have "lookup_member key (m # ms) = (if ?hit then Some m else lookup_member key ms)"
      by (simp add: lookup_member_def)
    moreover have "take 1 ?tail = '',''" by simp
    ultimately show ?thesis using Cons.IH Cons.prems unfolding e by (cases ?hit; cases "lookup_member key ms") auto
  qed
qed

lemma member_value_print:
  assumes "\<forall>m \<in> set ms. json_ok JSON_SCAN_NESTING_MAX (snd m)" and "key \<noteq> []"
  shows "json_scan_member_value (Some (print_json (JObject ms) @ rest)) (Some key) =
    member_loop key (commas (map member_text ms) @ ''}'' @ rest)"
  using assms(2) unfolding print_object
  by (simp add: json_scan_member_value_def json_scan_skip_ws_def isspace_def)


definition demo_members :: "(string \<times> json) list" where
  "demo_members = [(''a'', JArray [JToken ''1'', JObject [], JString ''}'']), (''k'', JString ''hi''), (''n'', JToken ''70'')]"

lemma demo_members_ok: "\<forall>m \<in> set demo_members. json_ok JSON_SCAN_NESTING_MAX (snd m)"
  by (simp add: demo_members_def JSON_SCAN_NESTING_MAX_def plain_char_def isspace_def dquote_def)

lemma demo_lookup:
  "lookup_member ''k'' demo_members = Some (''k'', JString ''hi'')"
  "lookup_member ''n'' demo_members = Some (''n'', JToken ''70'')"
  by (simp_all add: lookup_member_def demo_members_def shown_def)


definition number :: "nat \<Rightarrow> string \<Rightarrow> nat" where
  "number v t = foldl (\<lambda>v c. v * 10 + digit_value c) v t"

lemma number_mono: "v \<le> number v t"
proof (induction t arbitrary: v)
  case (Cons c t)
  have "v \<le> v * 10 + digit_value c" by simp
  also have "\<dots> \<le> number (v * 10 + digit_value c) t" by (rule Cons.IH)
  finally show ?case by (simp add: number_def)
qed (simp add: number_def)

lemma digit_bound: "isdigit c \<Longrightarrow> digit_value c < 10"
  by (auto simp: isdigit_def digit_value_def Let_def)

lemma digit_overflow:
  assumes "d < 10"
  shows "(UINT64_MAX - of_nat d) div 10 < value \<longleftrightarrow> 2 ^ 64 \<le> unat value * 10 + d"
proof -
  have "unat (UINT64_MAX - of_nat d) = 18446744073709551615 - d"
  proof -
    have u: "unat (of_nat d :: u64) = d" using assms by (intro unat_of_nat_u64) simp
    have m: "unat UINT64_MAX = 18446744073709551615" by (simp add: UINT64_MAX_def)
    have "(of_nat d :: u64) \<le> UINT64_MAX" using assms by (simp add: word_le_nat_alt u m)
    then show ?thesis by (simp add: unat_sub u m)
  qed
  then have "(UINT64_MAX - of_nat d) div 10 < value \<longleftrightarrow> (18446744073709551615 - d) div 10 < unat value"
    by (simp add: word_less_nat_alt unat_div)
  also have "\<dots> \<longleftrightarrow> 18446744073709551616 \<le> unat value * 10 + d" using assms by linarith
  finally show ?thesis by simp
qed

lemma scan_digits_number:
  assumes "list_all isdigit ds" and "rest = [] \<or> \<not> isdigit (hd rest)"
  shows "scan_digits v (ds @ rest) =
    (if number (unat v) ds < 2 ^ 64 then Some (of_nat (number (unat v) ds), rest) else None)"
  using assms(1)
proof (induction ds arbitrary: v)
  case Nil
  have "unat v < 2 ^ 64" using unsigned_less [of v, where ?'a = nat] by simp
  then show ?case using assms(2) by (cases rest) (simp_all add: number_def)
next
  case (Cons c ds)
  have d: "digit_value c < 10" "(of_char c - 48) = digit_value c" "isdigit c"
    using Cons.prems digit_bound by (simp_all add: digit_value_def)
  let ?v = "unat v * 10 + digit_value c"
  have n: "number (unat v) (c # ds) = number ?v ds" by (simp add: number_def)
  show ?case
  proof (cases "2 ^ 64 \<le> ?v")
    case True
    then have "\<not> number ?v ds < 2 ^ 64" using number_mono [of ?v ds] by linarith
    then show ?thesis using True d by (simp add: digit_overflow n Let_def)
  next
    case False
    have "v * 10 + of_nat (digit_value c) = of_nat ?v" by simp
    then have u: "unat (v * 10 + of_nat (digit_value c)) = ?v"
      using False unat_of_nat_u64 [of ?v] by simp
    show ?thesis using False d Cons.IH [of "v * 10 + of_nat (digit_value c)"] Cons.prems
      by (simp add: digit_overflow n u Let_def)
  qed
qed

lemma token_digits:
  assumes "list_all plain_char t" and "t \<noteq> []"
  obtains (alldigits) "list_all isdigit t"
  | (part) ds c u where "t = ds @ c # u" "list_all isdigit ds" "\<not> isdigit c" "plain_char c"
proof (cases "dropWhile isdigit t")
  case Nil
  then show ?thesis using alldigits by (simp add: list_all_iff dropWhile_eq_Nil_conv)
next
  case (Cons c u)
  have t: "t = takeWhile isdigit t @ c # u" using takeWhile_dropWhile_id [of isdigit t] Cons by simp
  have "c \<in> set t" by (subst t) simp
  moreover have "\<not> isdigit c" using Cons hd_dropWhile [of isdigit t] by simp
  moreover have "list_all isdigit (takeWhile isdigit t)" by (auto simp: list_all_iff dest: set_takeWhileD)
  ultimately show ?thesis using assms(1) part [OF t] by (auto simp: list_all_iff)
qed

text \<open>The number accessor on a bare token that is followed by the end of its member.\<close>

lemma uint64_token:
  assumes mv: "json_scan_member_value (Some doc) (Some key) = Some (t @ tail)"
    and t: "list_all plain_char t" "t \<noteq> []" and tail: "take 1 tail = '','' \<or> take 1 tail = ''}''"
  shows "solar_os_json_scan_object_uint64 (Some doc) (Some key) (Some o0) =
    (if list_all isdigit t \<and> number 0 t < 2 ^ 64 then (True, Some (of_nat (number 0 t))) else (False, Some o0))"
proof -
  have tl: "dropWhile isspace tail = tail" "tail = [] \<or> \<not> isdigit (hd tail)"
    using tail by (cases tail; auto simp: isspace_def isdigit_def)+
  obtain c0 t0 where c0: "t = c0 # t0" using t(2) by (cases t) auto
  let ?read = "\<lambda>x. case x of None \<Rightarrow> (False, Some o0)
    | Some (value, rest) \<Rightarrow> let e = dropWhile isspace rest
        in if take 1 e = '','' \<or> take 1 e = ''}'' then (True, Some value) else (False, Some o0)"
  have form: "solar_os_json_scan_object_uint64 (Some doc) (Some key) (Some o0) =
      (if \<not> isdigit c0 then (False, Some o0) else ?read (scan_digits 0 (t @ tail)))"
    unfolding solar_os_json_scan_object_uint64_def mv c0 by simp
  from t show ?thesis
  proof (cases rule: token_digits)
    case alldigits
    then have "isdigit c0" by (simp add: c0)
    then show ?thesis unfolding form scan_digits_number [OF alldigits tl(2)]
      using alldigits tail tl(1) by simp
  next
    case (part ds c u)
    have "\<not> list_all isdigit t" using part by simp
    moreover have "scan_digits 0 (t @ tail) =
        (if number 0 ds < 2 ^ 64 then Some (of_nat (number 0 ds), c # u @ tail) else None)"
      using scan_digits_number [OF part(2), of "(c # u) @ tail" 0] part(1,3) by simp
    moreover have "dropWhile isspace (c # u @ tail) = c # u @ tail" "c \<noteq> CHR '',''" "c \<noteq> CHR ''}''"
      using part(4) by (simp_all add: plain_char_def)
    ultimately show ?thesis unfolding form by simp
  qed
qed

text \<open>
  Lookup of numbers never wraps: for such an object the number of the first matching member is
  returned exactly when it is written with digits only and is below two to the power 64; a larger
  number, any other value and a missing member give false and leave the output untouched.
\<close>

theorem json_object_uint64_lookup:
  assumes "\<forall>m \<in> set ms. json_ok JSON_SCAN_NESTING_MAX (snd m)" and "key \<noteq> []"
  shows "solar_os_json_scan_object_uint64 (Some (print_json (JObject ms) @ rest)) (Some key) (Some o0) =
    (case lookup_member key ms of
       Some (_, JToken t) \<Rightarrow> if list_all isdigit t \<and> number 0 t < 2 ^ 64 then (True, Some (of_nat (number 0 t)))
                          else (False, Some o0)
     | _ \<Rightarrow> (False, Some o0))"
proof (cases "lookup_member key ms")
  case None
  then show ?thesis using member_loop_print [OF assms(1), of key rest] member_value_print [OF assms(1,2)]
    by (simp add: solar_os_json_scan_object_uint64_def)
next
  case (Some m)
  obtain tail where tail: "member_loop key (commas (map member_text ms) @ ''}'' @ rest) = Some (print_json (snd m) @ tail)"
    "take 1 tail = '','' \<or> take 1 tail = ''}''"
    using member_loop_print [OF assms(1), of key rest] Some by auto
  have mv: "json_scan_member_value (Some (print_json (JObject ms) @ rest)) (Some key) = Some (print_json (snd m) @ tail)"
    using member_value_print [OF assms(1,2)] tail(1) by simp
  have "m \<in> set ms" using Some by (auto simp: lookup_member_def find_Some_iff)
  then have ok: "json_ok JSON_SCAN_NESTING_MAX (snd m)" using assms(1) by simp
  have nd: "\<not> isdigit dquote" "\<not> isdigit (CHR ''['')" "\<not> isdigit (CHR ''{'')"
    by (simp_all add: isdigit_def dquote_def)
  show ?thesis
  proof (cases "snd m")
    case (JToken t)
    have t: "list_all plain_char t" "t \<noteq> []" using ok JToken by simp_all
    have "lookup_member key ms = Some (fst m, JToken t)" using Some JToken by (cases m) simp
    then show ?thesis using uint64_token [OF mv [unfolded JToken print_json.simps] t tail(2)] by simp
  next
    case (JString s)
    then show ?thesis using mv Some nd by (cases m) (simp add: solar_os_json_scan_object_uint64_def quoted_def)
  next
    case (JArray vs)
    then show ?thesis using mv Some nd by (cases m) (simp add: solar_os_json_scan_object_uint64_def)
  next
    case (JObject vs)
    then show ?thesis using mv Some nd by (cases m) (simp add: solar_os_json_scan_object_uint64_def)
  qed
qed

theorem json_object_uint64_lookup_witness:
  "solar_os_json_scan_object_uint64 (Some (print_json (JObject demo_members))) (Some ''n'') (Some 0) = (True, Some 70)"
  using json_object_uint64_lookup [OF demo_members_ok, of "''n''" "[]" 0] demo_lookup
  by (simp add: number_def digit_value_def isdigit_def)

end
