(* ===== verification/LinkStream.thy ===== *)
theory LinkStream
  imports LinkCore
begin

text \<open>
  Reliable byte streams over a link, \<open>src/src/services/solar_os_link_stream.c\<close>: a stream is a virtual
  serial port with a receive and a transmit queue of bytes; its frames are link messages with a
  16-byte header, sent by stop and wait with acknowledgements that ride on every frame.

  A stream owns its two queues, so a queue handle is the queue itself, \<open>None\<close> for NULL. The clock,
  the random session numbers, the allocations and the answer of the port registry are arguments;
  the link service underneath is the one of LinkCore. Every critical section is a definition on the
  stream it locks.
\<close>

unbundle bit_operations_syntax

section \<open>Types\<close>

definition LINK_STREAM_MAX :: nat where
  "LINK_STREAM_MAX = 2"

definition LINK_STREAM_QUEUE_BYTES :: nat where
  "LINK_STREAM_QUEUE_BYTES = 2048"

definition LINK_STREAM_HEADER_SIZE :: nat where
  "LINK_STREAM_HEADER_SIZE = 16"

definition LINK_STREAM_MAGIC_0 :: u8 where
  "LINK_STREAM_MAGIC_0 = 0x53"

definition LINK_STREAM_MAGIC_1 :: u8 where
  "LINK_STREAM_MAGIC_1 = 0x56"

definition LINK_STREAM_VERSION :: u8 where
  "LINK_STREAM_VERSION = 2"

definition LINK_STREAM_ACK_DELAY_MS :: u32 where
  "LINK_STREAM_ACK_DELAY_MS = 40"

definition LINK_STREAM_RETRY_MS :: u32 where
  "LINK_STREAM_RETRY_MS = 800"

definition LINK_STREAM_RETRY_JITTER_MS :: u32 where
  "LINK_STREAM_RETRY_JITTER_MS = 400"

definition LINK_STREAM_WINDOW_SIZE :: nat where
  "LINK_STREAM_WINDOW_SIZE = 1"

definition LINK_STREAM_OPEN_INTERVAL_MS :: u32 where
  "LINK_STREAM_OPEN_INTERVAL_MS = 15000"

definition LINK_STREAM_PEER_TIMEOUT_MS :: u32 where
  "LINK_STREAM_PEER_TIMEOUT_MS = 45000"

definition PORT_NAME_MAX :: nat where
  "PORT_NAME_MAX = 16"

definition PORT_LABEL_MAX :: nat where
  "PORT_LABEL_MAX = 32"

record stream_config =
  sc_port_label :: "string option"
  sc_acknowledgement_delay_ms :: u32
  sc_retry_ms :: u32
  sc_retry_jitter_ms :: u32
  sc_open_interval_ms :: u32
  sc_peer_timeout_ms :: u32

datatype decode_issue =
    DECODE_NONE
  | DECODE_STRUCTURE
  | DECODE_MAGIC
  | DECODE_VERSION
  | DECODE_OPCODE
  | DECODE_SESSION
  | DECODE_DATA
  | DECODE_CONTROL_SEQUENCE
  | DECODE_CONTROL_DATA
  | DECODE_ACKNOWLEDGEMENT

datatype stream_opcode =
    OPCODE_OPEN
  | OPCODE_DATA
  | OPCODE_ACK
  | OPCODE_CLOSE
  | OPCODE_OTHER u8

fun opcode_byte :: "stream_opcode \<Rightarrow> u8" where
  "opcode_byte OPCODE_OPEN = 1"
| "opcode_byte OPCODE_DATA = 2"
| "opcode_byte OPCODE_ACK = 3"
| "opcode_byte OPCODE_CLOSE = 4"
| "opcode_byte (OPCODE_OTHER n) = n"

definition byte_opcode :: "u8 \<Rightarrow> stream_opcode" where
  "byte_opcode b =
     (if b = 1 then OPCODE_OPEN else if b = 2 then OPCODE_DATA
      else if b = 3 then OPCODE_ACK else if b = 4 then OPCODE_CLOSE else OPCODE_OTHER b)"

record stream_status =
  ss_port :: string
  ss_link :: string
  ss_protocol_version :: u8
  ss_peer_id :: u32
  ss_port_open :: bool
  ss_connected :: bool
  ss_data_mtu :: nat
  ss_rx_queued :: nat
  ss_tx_queued :: nat
  ss_tx_inflight :: nat
  ss_retry_ms :: u32
  ss_retry_jitter_ms :: u32
  ss_peer_timeout_ms :: u32
  ss_bytes_received :: u32
  ss_bytes_sent :: u32
  ss_frames_received :: u32
  ss_frames_sent :: u32
  ss_acknowledgements_received :: u32
  ss_acknowledgements_sent :: u32
  ss_retries :: u32
  ss_reconnects :: u32
  ss_dropped :: u32
  ss_decode_errors :: u32
  ss_last_decode_issue :: decode_issue
  ss_last_decode_opcode :: u8
  ss_last_decode_sequence :: u16
  ss_last_decode_data_len :: nat
  ss_last_error :: esp_err

text \<open>A transmit slot; its length is the length of its data.\<close>

record tx_slot =
  ts_sequence :: u16
  ts_data :: "u8 list"
  ts_sent :: bool
  ts_ever_sent :: bool
  ts_last_send_ms :: u32

text \<open>The window is the list of the slots in use, so its count is its length.\<close>

record 'q link_stream =
  st_active :: bool
  st_generation :: u32
  st_port :: string
  st_link :: string
  st_peer_id :: u32
  st_config :: stream_config
  st_data_mtu :: nat
  st_rx_queue :: "'q option"
  st_tx_queue :: "'q option"
  st_port_open :: bool
  st_local_session :: u32
  st_remote_session :: u32
  st_had_remote_session :: bool
  st_remote_last_seen_ms :: u32
  st_next_open_ms :: u32
  st_next_tx_sequence :: u16
  st_expected_rx_sequence :: u16
  st_received_any :: bool
  st_tx_window :: "tx_slot list"
  st_acknowledgement_pending :: bool
  st_acknowledgement_session :: u32
  st_acknowledgement_sequence :: u16
  st_acknowledgement_due_ms :: u32
  st_close_pending :: bool
  st_close_session :: u32
  st_counters :: stream_status

record stream_action =
  sa_valid :: bool
  sa_generation :: u32
  sa_opcode :: stream_opcode
  sa_port :: string
  sa_link :: string
  sa_peer_id :: u32
  sa_session :: u32
  sa_sequence :: u16
  sa_acknowledgement_session :: u32
  sa_acknowledgement_sequence :: u16
  sa_data :: "u8 list"

record 'q stream_service =
  sv_mutex :: bool
  sv_streams :: "'q link_stream list"
  sv_generation :: u32

definition stream_config_zero :: stream_config where
  "stream_config_zero = \<lparr>sc_port_label = None, sc_acknowledgement_delay_ms = 0, sc_retry_ms = 0,
     sc_retry_jitter_ms = 0, sc_open_interval_ms = 0, sc_peer_timeout_ms = 0\<rparr>"

definition stream_status_zero :: stream_status where
  "stream_status_zero = \<lparr>ss_port = [], ss_link = [], ss_protocol_version = 0, ss_peer_id = 0,
     ss_port_open = False, ss_connected = False, ss_data_mtu = 0, ss_rx_queued = 0, ss_tx_queued = 0,
     ss_tx_inflight = 0, ss_retry_ms = 0, ss_retry_jitter_ms = 0, ss_peer_timeout_ms = 0,
     ss_bytes_received = 0, ss_bytes_sent = 0, ss_frames_received = 0, ss_frames_sent = 0,
     ss_acknowledgements_received = 0, ss_acknowledgements_sent = 0, ss_retries = 0, ss_reconnects = 0,
     ss_dropped = 0, ss_decode_errors = 0, ss_last_decode_issue = DECODE_NONE, ss_last_decode_opcode = 0,
     ss_last_decode_sequence = 0, ss_last_decode_data_len = 0, ss_last_error = ESP_OK\<rparr>"

definition link_stream_zero :: "'q link_stream" where
  "link_stream_zero = \<lparr>st_active = False, st_generation = 0, st_port = [], st_link = [], st_peer_id = 0,
     st_config = stream_config_zero, st_data_mtu = 0, st_rx_queue = None, st_tx_queue = None,
     st_port_open = False, st_local_session = 0, st_remote_session = 0, st_had_remote_session = False,
     st_remote_last_seen_ms = 0, st_next_open_ms = 0, st_next_tx_sequence = 0, st_expected_rx_sequence = 0,
     st_received_any = False, st_tx_window = [], st_acknowledgement_pending = False,
     st_acknowledgement_session = 0, st_acknowledgement_sequence = 0, st_acknowledgement_due_ms = 0,
     st_close_pending = False, st_close_session = 0, st_counters = stream_status_zero\<rparr>"

definition stream_action_zero :: stream_action where
  "stream_action_zero = \<lparr>sa_valid = False, sa_generation = 0, sa_opcode = OPCODE_OTHER 0, sa_port = [],
     sa_link = [], sa_peer_id = 0, sa_session = 0, sa_sequence = 0, sa_acknowledgement_session = 0,
     sa_acknowledgement_sequence = 0, sa_data = []\<rparr>"

definition stream_boot :: "'q stream_service" where
  "stream_boot = \<lparr>sv_mutex = False, sv_streams = replicate LINK_STREAM_MAX link_stream_zero,
     sv_generation = 1\<rparr>"

text \<open>The operations of a FreeRTOS queue the streams use beyond those of BoundedQueue.\<close>

record 'q queue_admin =
  qa_reset :: "'q \<Rightarrow> 'q"
  qa_spaces :: "'q \<Rightarrow> nat"

definition set_counters :: "(stream_status \<Rightarrow> stream_status) \<Rightarrow> 'q link_stream \<Rightarrow> 'q link_stream" where
  "set_counters f s = s\<lparr>st_counters := f (st_counters s)\<rparr>"

section \<open>Sequence numbers, sessions and fields\<close>

definition stream_next_sequence :: "u16 \<Rightarrow> u16" where
  "stream_next_sequence seq = (if seq + 1 \<noteq> 0 then seq + 1 else 1)"

definition stream_previous_sequence :: "u16 \<Rightarrow> u16" where
  "stream_previous_sequence seq = (if seq = 1 then 0xffff else seq - 1)"

text \<open>The loop looks back over as many sequence numbers as the window has slots.\<close>

fun recent_within :: "nat \<Rightarrow> u16 \<Rightarrow> u16 \<Rightarrow> bool" where
  "recent_within 0 seq previous = False"
| "recent_within (Suc n) seq previous =
     (let p = stream_previous_sequence previous in seq = p \<or> recent_within n seq p)"

definition stream_sequence_is_recent :: "u16 \<Rightarrow> u16 \<Rightarrow> bool" where
  "stream_sequence_is_recent seq expected = recent_within LINK_STREAM_WINDOW_SIZE seq expected"

definition stream_retry_delay_ms :: "'q link_stream \<Rightarrow> tx_slot \<Rightarrow> u32" where
  "stream_retry_delay_ms s slot =
     (let mixed = st_local_session s XOR (ucast (ts_sequence slot) * 2654435761)
      in sc_retry_ms (st_config s) + mixed mod (sc_retry_jitter_ms (st_config s) + 1))"

definition stream_new_session :: "u32 \<Rightarrow> u32" where
  "stream_new_session random_value = (if random_value \<noteq> 0 then random_value else 1)"

definition stream_write_u16 :: "u16 \<Rightarrow> u8 list" where
  "stream_write_u16 v = [ucast (drop_bit 8 v), ucast v]"

definition stream_write_u32 :: "u32 \<Rightarrow> u8 list" where
  "stream_write_u32 v =
     [ucast (drop_bit 24 v), ucast (drop_bit 16 v), ucast (drop_bit 8 v), ucast v]"

definition stream_read_u16 :: "u8 list \<Rightarrow> u16" where
  "stream_read_u16 src = push_bit 8 (ucast (src ! 0)) OR ucast (src ! 1)"

definition stream_read_u32 :: "u8 list \<Rightarrow> u32" where
  "stream_read_u32 src =
     push_bit 24 (ucast (src ! 0)) OR push_bit 16 (ucast (src ! 1)) OR
     push_bit 8 (ucast (src ! 2)) OR ucast (src ! 3)"

section \<open>Tables and state changes under the lock\<close>

definition stream_ensure_init :: "bool \<Rightarrow> 'q stream_service \<Rightarrow> esp_err \<times> 'q stream_service" where
  "stream_ensure_init mutex_ok sv =
     (if sv_mutex sv then (ESP_OK, sv)
      else if mutex_ok then (ESP_OK, sv\<lparr>sv_mutex := True\<rparr>) else (ESP_ERR_NO_MEM, sv))"

definition stream_find_port_locked :: "'q stream_service \<Rightarrow> string \<Rightarrow> nat option" where
  "stream_find_port_locked sv port = first_index (\<lambda>s. st_active s \<and> st_port s = port) (sv_streams sv)"

definition stream_find_peer_locked :: "'q stream_service \<Rightarrow> string \<Rightarrow> u32 \<Rightarrow> nat option" where
  "stream_find_peer_locked sv link peer_id =
     first_index (\<lambda>s. st_active s \<and> st_peer_id s = peer_id \<and> st_link s = link) (sv_streams sv)"

definition upd_stream :: "nat \<Rightarrow> ('q link_stream \<Rightarrow> 'q link_stream) \<Rightarrow> 'q stream_service \<Rightarrow> 'q stream_service" where
  "upd_stream i f sv = sv\<lparr>sv_streams := (sv_streams sv)[i := f (sv_streams sv ! i)]\<rparr>"

definition stream_reset_queues_locked :: "'q queue_admin \<Rightarrow> 'q link_stream \<Rightarrow> 'q link_stream" where
  "stream_reset_queues_locked qa s =
     s\<lparr>st_rx_queue := map_option (qa_reset qa) (st_rx_queue s),
       st_tx_queue := map_option (qa_reset qa) (st_tx_queue s)\<rparr>"

text \<open>Renumbering the outstanding slots from the given sequence number on.\<close>

fun renumber :: "u16 \<Rightarrow> tx_slot list \<Rightarrow> u16 \<times> tx_slot list" where
  "renumber seq [] = (seq, [])"
| "renumber seq (slot # slots) =
     (case renumber (stream_next_sequence seq) slots of
        (next, rest) \<Rightarrow>
          (next, slot\<lparr>ts_sequence := seq, ts_sent := False, ts_ever_sent := False, ts_last_send_ms := 0\<rparr> # rest))"

definition stream_reset_local_locked :: "u32 \<Rightarrow> bool \<Rightarrow> 'q link_stream \<Rightarrow> 'q link_stream" where
  "stream_reset_local_locked random_value preserve_outstanding s =
     (let (next, window) = renumber 1 (if preserve_outstanding then st_tx_window s else [])
      in s\<lparr>st_local_session := stream_new_session random_value, st_next_tx_sequence := next,
           st_tx_window := window, st_next_open_ms := 0\<rparr>)"

definition stream_connected_locked :: "'q link_stream \<Rightarrow> u32 \<Rightarrow> bool" where
  "stream_connected_locked s now_ms \<longleftrightarrow>
     st_port_open s \<and> st_remote_session s \<noteq> 0
     \<and> now_ms - st_remote_last_seen_ms s \<le> sc_peer_timeout_ms (st_config s)"

definition queue_count :: "('q, u8) queue_ops \<Rightarrow> 'q option \<Rightarrow> nat" where
  "queue_count qo q = (case q of None \<Rightarrow> 0 | Some x \<Rightarrow> q_waiting qo x)"

definition stream_fill_status_locked :: "('q, u8) queue_ops \<Rightarrow> 'q link_stream \<Rightarrow> u32 \<Rightarrow> stream_status" where
  "stream_fill_status_locked qo s now_ms =
     (st_counters s)\<lparr>ss_port := strlcpy PORT_NAME_MAX (st_port s), ss_link := strlcpy LINK_NAME_MAX (st_link s),
        ss_protocol_version := LINK_STREAM_VERSION, ss_peer_id := st_peer_id s, ss_port_open := st_port_open s,
        ss_connected := stream_connected_locked s now_ms, ss_data_mtu := st_data_mtu s,
        ss_retry_ms := sc_retry_ms (st_config s), ss_retry_jitter_ms := sc_retry_jitter_ms (st_config s),
        ss_peer_timeout_ms := sc_peer_timeout_ms (st_config s),
        ss_rx_queued := queue_count qo (st_rx_queue s), ss_tx_queued := queue_count qo (st_tx_queue s),
        ss_tx_inflight := sum_list (map (length \<circ> ts_data) (st_tx_window s))\<rparr>"

section \<open>The port driver\<close>

text \<open>The user pointer of the driver is the index of the stream, \<open>None\<close> for NULL.\<close>

definition stream_port_open ::
  "'q queue_admin \<Rightarrow> bool \<Rightarrow> u32 \<Rightarrow> 'q stream_service \<Rightarrow> nat option \<Rightarrow> esp_err \<times> 'q stream_service" where
  "stream_port_open qa mutex_ok random_value sv user =
     (case user of
        None \<Rightarrow> (ESP_ERR_INVALID_STATE, sv)
      | Some i \<Rightarrow>
          (case stream_ensure_init mutex_ok sv of
             (ESP_OK, sv1) \<Rightarrow>
               let s = sv_streams sv1 ! i
               in if \<not> st_active s \<or> st_port_open s then (ESP_ERR_INVALID_STATE, sv1)
                  else (ESP_OK, upd_stream i (\<lambda>s.
                         set_counters (\<lambda>c. c\<lparr>ss_last_error := ESP_OK\<rparr>)
                           (stream_reset_local_locked random_value False
                             ((stream_reset_queues_locked qa s)\<lparr>st_port_open := True, st_remote_session := 0,
                                st_had_remote_session := False, st_remote_last_seen_ms := 0,
                                st_expected_rx_sequence := 1, st_received_any := False,
                                st_acknowledgement_pending := False, st_acknowledgement_due_ms := 0,
                                st_close_pending := False\<rparr>))) sv1)
           | (_, sv1) \<Rightarrow> (ESP_ERR_INVALID_STATE, sv1)))"

definition stream_port_close ::
  "'q queue_admin \<Rightarrow> bool \<Rightarrow> 'q stream_service \<Rightarrow> nat option \<Rightarrow> esp_err \<times> 'q stream_service" where
  "stream_port_close qa mutex_ok sv user =
     (case user of
        None \<Rightarrow> (ESP_ERR_INVALID_STATE, sv)
      | Some i \<Rightarrow>
          (case stream_ensure_init mutex_ok sv of
             (ESP_OK, sv1) \<Rightarrow>
               let s = sv_streams sv1 ! i
               in if \<not> st_active s \<or> \<not> st_port_open s then (ESP_ERR_INVALID_STATE, sv1)
                  else (ESP_OK, upd_stream i (\<lambda>s.
                         stream_reset_queues_locked qa
                           (s\<lparr>st_close_pending := st_local_session s \<noteq> 0, st_close_session := st_local_session s,
                              st_port_open := False, st_remote_session := 0,
                              st_acknowledgement_pending := False, st_acknowledgement_due_ms := 0,
                              st_tx_window := []\<rparr>)) sv1)
           | (_, sv1) \<Rightarrow> (ESP_ERR_INVALID_STATE, sv1)))"

text \<open>Taking at most \<open>n\<close> bytes from a queue.\<close>

fun receive_upto :: "('q, u8) queue_ops \<Rightarrow> nat \<Rightarrow> 'q \<Rightarrow> u8 list \<times> 'q" where
  "receive_upto qo 0 q = ([], q)"
| "receive_upto qo (Suc n) q =
     (case q_receive qo q of
        None \<Rightarrow> ([], q)
      | Some (b, q1) \<Rightarrow> (case receive_upto qo n q1 of (bs, q2) \<Rightarrow> (b # bs, q2)))"

text \<open>The read with a timeout is its final attempt; the bytes read are the third component.\<close>

definition stream_port_read ::
  "('q, u8) queue_ops \<Rightarrow> 'q stream_service \<Rightarrow> nat option \<Rightarrow> bool \<Rightarrow> nat
   \<Rightarrow> esp_err \<times> 'q stream_service \<times> u8 list" where
  "stream_port_read qo sv user data_given len =
     (if user = None \<or> (\<not> data_given \<and> 0 < len) \<or> len = 0
      then ((if len = 0 then ESP_OK else ESP_ERR_INVALID_ARG), sv, [])
      else let i = the user; s = sv_streams sv ! i
           in if \<not> (st_active s \<and> st_port_open s) \<or> st_rx_queue s = None
              then (ESP_ERR_INVALID_STATE, sv, [])
              else (case receive_upto qo len (the (st_rx_queue s)) of
                      ([], _) \<Rightarrow> (ESP_ERR_TIMEOUT, sv, [])
                    | (bs, q) \<Rightarrow> (ESP_OK, upd_stream i (\<lambda>s. s\<lparr>st_rx_queue := Some q\<rparr>) sv, bs)))"

text \<open>
  The write loop: \<open>expired k\<close> is whether the deadline has passed before byte \<open>k\<close>; a send that waits
  is its final attempt. The number is what is stored in \<open>written\<close>.
\<close>

fun write_bytes :: "('q, u8) queue_ops \<Rightarrow> (nat \<Rightarrow> bool) \<Rightarrow> nat \<Rightarrow> u8 list \<Rightarrow> 'q \<Rightarrow> esp_err \<times> nat \<times> 'q" where
  "write_bytes qo expired k [] q = (ESP_OK, k, q)"
| "write_bytes qo expired k (b # bs) q =
     (if expired k then (ESP_ERR_TIMEOUT, k, q)
      else (case q_send qo q b of
              None \<Rightarrow> (ESP_ERR_TIMEOUT, k, q)
            | Some q1 \<Rightarrow> write_bytes qo expired (k + 1) bs q1))"

definition stream_port_write ::
  "('q, u8) queue_ops \<Rightarrow> (nat \<Rightarrow> bool) \<Rightarrow> 'q stream_service \<Rightarrow> nat option \<Rightarrow> u8 list option \<Rightarrow> nat
   \<Rightarrow> esp_err \<times> 'q stream_service \<times> nat" where
  "stream_port_write qo expired sv user data len =
     (if user = None \<or> (data = None \<and> 0 < len) then (ESP_ERR_INVALID_ARG, sv, 0)
      else if len = 0 then (ESP_OK, sv, 0)
      else let i = the user; s = sv_streams sv ! i
           in if \<not> (st_active s \<and> st_port_open s) \<or> st_tx_queue s = None
              then (ESP_ERR_INVALID_STATE, sv, 0)
              else (case write_bytes qo expired 0 (take len (the data)) (the (st_tx_queue s)) of
                      (err, n, q) \<Rightarrow> (err, upd_stream i (\<lambda>s. s\<lparr>st_tx_queue := Some q\<rparr>) sv, n)))"

section \<open>Creation and removal\<close>

definition solar_os_link_stream_init :: "bool \<Rightarrow> 'q stream_service \<Rightarrow> esp_err \<times> 'q stream_service" where
  "solar_os_link_stream_init mutex_ok sv = stream_ensure_init mutex_ok sv"

definition solar_os_link_stream_config_default :: "stream_config option \<Rightarrow> stream_config option" where
  "solar_os_link_stream_config_default config =
     map_option (\<lambda>_. \<lparr>sc_port_label = Some ''SolarOS Link virtual serial'',
        sc_acknowledgement_delay_ms = LINK_STREAM_ACK_DELAY_MS, sc_retry_ms = LINK_STREAM_RETRY_MS,
        sc_retry_jitter_ms = LINK_STREAM_RETRY_JITTER_MS, sc_open_interval_ms = LINK_STREAM_OPEN_INTERVAL_MS,
        sc_peer_timeout_ms = LINK_STREAM_PEER_TIMEOUT_MS\<rparr>) config"

definition stream_config_valid :: "stream_config option \<Rightarrow> bool" where
  "stream_config_valid config =
     (case config of
        None \<Rightarrow> False
      | Some c \<Rightarrow>
          (case sc_port_label c of None \<Rightarrow> False | Some l \<Rightarrow> length l < PORT_LABEL_MAX)
          \<and> sc_retry_ms c \<noteq> 0 \<and> sc_open_interval_ms c \<noteq> 0 \<and> \<not> sc_peer_timeout_ms c < sc_retry_ms c
          \<and> \<not> - 1 - sc_retry_ms c < sc_retry_jitter_ms c)"

definition stream_name_valid :: "string option \<Rightarrow> nat \<Rightarrow> bool" where
  "stream_name_valid name n = (case name of None \<Rightarrow> False | Some s \<Rightarrow> s \<noteq> [] \<and> length s < n)"

text \<open>The new stream, before it is registered as a port.\<close>

definition stream_new :: "'q stream_service \<Rightarrow> string \<Rightarrow> string \<Rightarrow> u32 \<Rightarrow> stream_config \<Rightarrow> nat
    \<Rightarrow> 'q \<Rightarrow> 'q \<Rightarrow> 'q link_stream" where
  "stream_new sv link port peer_id config payload_mtu rx_queue tx_queue =
     set_counters (\<lambda>c. c\<lparr>ss_last_error := ESP_OK\<rparr>)
       (link_stream_zero\<lparr>st_active := True, st_generation := sv_generation sv,
          st_port := strlcpy PORT_NAME_MAX port, st_link := strlcpy LINK_NAME_MAX link,
          st_peer_id := peer_id, st_config := config, st_data_mtu := payload_mtu - LINK_STREAM_HEADER_SIZE,
          st_rx_queue := Some rx_queue, st_tx_queue := Some tx_queue,
          st_expected_rx_sequence := 1, st_next_tx_sequence := 1\<rparr>)"

text \<open>
  \<open>ls\<close> is the link service, \<open>rx_alloc\<close> and \<open>tx_alloc\<close> whether the queues can be allocated and
  \<open>register_ret\<close> the answer of the port registry.
\<close>

definition solar_os_link_stream_create_configured ::
  "('q, u8) queue_ops \<Rightarrow> ('m, link_message) queue_ops \<Rightarrow> ('f, link_frame) queue_ops \<Rightarrow> bool \<Rightarrow> bool \<Rightarrow> bool
   \<Rightarrow> bool \<Rightarrow> esp_err \<Rightarrow> 'q stream_service \<Rightarrow> ('m, 'f) link_state \<Rightarrow> string option \<Rightarrow> string option \<Rightarrow> u32
   \<Rightarrow> stream_config option \<Rightarrow> esp_err \<times> 'q stream_service \<times> ('m, 'f) link_state" where
  "solar_os_link_stream_create_configured qo rxo txo mutex_ok link_mutex_ok rx_alloc tx_alloc register_ret
       sv ls link port peer_id config =
     (if \<not> stream_name_valid link LINK_NAME_MAX \<or> \<not> stream_name_valid port PORT_NAME_MAX
         \<or> peer_id = 0 \<or> peer_id = LINK_BROADCAST \<or> \<not> stream_config_valid config
      then (ESP_ERR_INVALID_ARG, sv, ls)
      else (case stream_ensure_init mutex_ok sv of
              (ESP_OK, sv1) \<Rightarrow>
                (case solar_os_link_get_status rxo txo link_mutex_ok ls link (Some link_status_zero) of
                   (ESP_OK, ls1, Some status) \<Rightarrow>
                     if peer_id = ls_local_id status
                        \<or> ls_frame_mtu status \<le> LINK_HEADER_SIZE + LINK_CRC_SIZE + LINK_STREAM_HEADER_SIZE
                     then (ESP_ERR_INVALID_ARG, sv1, ls1)
                     else if \<not> rx_alloc \<or> \<not> tx_alloc then (ESP_ERR_NO_MEM, sv1, ls1)
                     else if stream_find_port_locked sv1 (the port) \<noteq> None
                        \<or> stream_find_peer_locked sv1 (the link) peer_id \<noteq> None
                     then (ESP_ERR_INVALID_STATE, sv1, ls1)
                     else (case first_index (\<lambda>s. \<not> st_active s) (sv_streams sv1) of
                             None \<Rightarrow> (ESP_ERR_NO_MEM, sv1, ls1)
                           | Some i \<Rightarrow>
                               let s = stream_new sv1 (the link) (the port) peer_id (the config)
                                         (ls_frame_mtu status - LINK_HEADER_SIZE - LINK_CRC_SIZE)
                                         (q_create qo LINK_STREAM_QUEUE_BYTES) (q_create qo LINK_STREAM_QUEUE_BYTES);
                                   g = sv_generation sv1 + 1;
                                   sv2 = (upd_stream i (\<lambda>_. s) sv1)\<lparr>sv_generation := (if g = 0 then 1 else g)\<rparr>
                               in if register_ret = ESP_OK then (ESP_OK, sv2, ls1)
                                  else (register_ret, upd_stream i (\<lambda>_. link_stream_zero) sv2, ls1))
                 | (err, ls1, _) \<Rightarrow> (err, sv1, ls1))
            | (err, sv1) \<Rightarrow> (err, sv1, ls)))"

definition solar_os_link_stream_create ::
  "('q, u8) queue_ops \<Rightarrow> ('m, link_message) queue_ops \<Rightarrow> ('f, link_frame) queue_ops \<Rightarrow> bool \<Rightarrow> bool \<Rightarrow> bool
   \<Rightarrow> bool \<Rightarrow> esp_err \<Rightarrow> 'q stream_service \<Rightarrow> ('m, 'f) link_state \<Rightarrow> string option \<Rightarrow> string option \<Rightarrow> u32
   \<Rightarrow> esp_err \<times> 'q stream_service \<times> ('m, 'f) link_state" where
  "solar_os_link_stream_create qo rxo txo mutex_ok link_mutex_ok rx_alloc tx_alloc register_ret sv ls link port peer_id =
     solar_os_link_stream_create_configured qo rxo txo mutex_ok link_mutex_ok rx_alloc tx_alloc register_ret
       sv ls link port peer_id (solar_os_link_stream_config_default (Some stream_config_zero))"

text \<open>\<open>unregister_ret\<close> is the answer of the port registry, which refuses while the port is in use.\<close>

definition solar_os_link_stream_remove ::
  "bool \<Rightarrow> esp_err \<Rightarrow> 'q stream_service \<Rightarrow> string option \<Rightarrow> esp_err \<times> 'q stream_service" where
  "solar_os_link_stream_remove mutex_ok unregister_ret sv port =
     (if port = None \<or> port = Some [] then (ESP_ERR_INVALID_ARG, sv)
      else (case stream_ensure_init mutex_ok sv of
              (ESP_OK, sv1) \<Rightarrow>
                (case stream_find_port_locked sv1 (the port) of
                   None \<Rightarrow> (ESP_ERR_NOT_FOUND, sv1)
                 | Some i \<Rightarrow>
                     if unregister_ret \<noteq> ESP_OK then (unregister_ret, sv1)
                     else (ESP_OK, upd_stream i (\<lambda>_. link_stream_zero) sv1))
            | (_, sv1) \<Rightarrow> (ESP_ERR_INVALID_ARG, sv1)))"

definition solar_os_link_stream_count :: "bool \<Rightarrow> 'q stream_service \<Rightarrow> nat \<times> 'q stream_service" where
  "solar_os_link_stream_count mutex_ok sv =
     (case stream_ensure_init mutex_ok sv of
        (ESP_OK, sv1) \<Rightarrow> (length (filter st_active (sv_streams sv1)), sv1)
      | (_, sv1) \<Rightarrow> (0, sv1))"

fun nth_active :: "nat \<Rightarrow> 'q link_stream list \<Rightarrow> 'q link_stream option" where
  "nth_active n [] = None"
| "nth_active n (s # ss) =
     (if \<not> st_active s then nth_active n ss
      else (case n of 0 \<Rightarrow> Some s | Suc k \<Rightarrow> nth_active k ss))"

definition solar_os_link_stream_get ::
  "('q, u8) queue_ops \<Rightarrow> bool \<Rightarrow> u32 \<Rightarrow> 'q stream_service \<Rightarrow> nat \<Rightarrow> stream_status option
   \<Rightarrow> bool \<times> 'q stream_service \<times> stream_status option" where
  "solar_os_link_stream_get qo mutex_ok now_ms sv index status =
     (if status = None then (False, sv, status)
      else (case stream_ensure_init mutex_ok sv of
              (ESP_OK, sv1) \<Rightarrow>
                (case nth_active index (sv_streams sv1) of
                   None \<Rightarrow> (False, sv1, status)
                 | Some s \<Rightarrow> (True, sv1, Some (stream_fill_status_locked qo s now_ms)))
            | (_, sv1) \<Rightarrow> (False, sv1, status)))"

definition solar_os_link_stream_get_status ::
  "('q, u8) queue_ops \<Rightarrow> bool \<Rightarrow> u32 \<Rightarrow> 'q stream_service \<Rightarrow> string option \<Rightarrow> stream_status option
   \<Rightarrow> esp_err \<times> 'q stream_service \<times> stream_status option" where
  "solar_os_link_stream_get_status qo mutex_ok now_ms sv port status =
     (if port = None \<or> status = None then (ESP_ERR_INVALID_ARG, sv, status)
      else (case stream_ensure_init mutex_ok sv of
              (ESP_OK, sv1) \<Rightarrow>
                (case stream_find_port_locked sv1 (the port) of
                   None \<Rightarrow> (ESP_ERR_NOT_FOUND, sv1, status)
                 | Some i \<Rightarrow> (ESP_OK, sv1, Some (stream_fill_status_locked qo (sv_streams sv1 ! i) now_ms)))
            | (_, sv1) \<Rightarrow> (ESP_ERR_INVALID_ARG, sv1, status)))"

section \<open>Decoding\<close>

text \<open>The values behind the output pointers of the decoder; the code's pointers are never NULL.\<close>

record stream_decoded =
  de_opcode :: stream_opcode
  de_session :: u32
  de_sequence :: u16
  de_acknowledgement_session :: u32
  de_acknowledgement_sequence :: u16
  de_data :: "u8 list"
  de_data_len :: nat
  de_issue :: decode_issue

definition stream_decoded_zero :: stream_decoded where
  "stream_decoded_zero = \<lparr>de_opcode = OPCODE_OTHER 0, de_session = 0, de_sequence = 0,
     de_acknowledgement_session = 0, de_acknowledgement_sequence = 0, de_data = [], de_data_len = 0,
     de_issue = DECODE_NONE\<rparr>"

definition stream_decode :: "link_message option \<Rightarrow> stream_decoded \<Rightarrow> esp_err \<times> stream_decoded" where
  "stream_decode message d0 =
     (case message of
        None \<Rightarrow> (ESP_ERR_INVALID_ARG, d0\<lparr>de_issue := DECODE_STRUCTURE\<rparr>)
      | Some m \<Rightarrow>
          let p = lm_payload m
          in if lm_type m \<noteq> LINK_MESSAGE_STREAM \<or> lm_destination m = LINK_BROADCAST
                \<or> length p < LINK_STREAM_HEADER_SIZE
             then (ESP_ERR_INVALID_ARG, d0\<lparr>de_issue := DECODE_STRUCTURE\<rparr>)
             else if p ! 0 \<noteq> LINK_STREAM_MAGIC_0 \<or> p ! 1 \<noteq> LINK_STREAM_MAGIC_1
             then (ESP_ERR_INVALID_ARG, d0\<lparr>de_issue := DECODE_MAGIC\<rparr>)
             else if p ! 2 \<noteq> LINK_STREAM_VERSION
             then (ESP_ERR_INVALID_ARG, d0\<lparr>de_issue := DECODE_VERSION\<rparr>)
             else if p ! 3 < 1 \<or> 4 < p ! 3
             then (ESP_ERR_INVALID_ARG, d0\<lparr>de_issue := DECODE_OPCODE\<rparr>)
             else
               let opcode = byte_opcode (p ! 3);
                   d = d0\<lparr>de_opcode := opcode, de_session := stream_read_u32 (drop 4 p),
                          de_sequence := stream_read_u16 (drop 8 p),
                          de_acknowledgement_session := stream_read_u32 (drop 10 p),
                          de_acknowledgement_sequence := stream_read_u16 (drop 14 p),
                          de_data := drop LINK_STREAM_HEADER_SIZE p,
                          de_data_len := length p - LINK_STREAM_HEADER_SIZE\<rparr>
               in if de_session d = 0 then (ESP_ERR_INVALID_ARG, d\<lparr>de_issue := DECODE_SESSION\<rparr>)
                  else if opcode = OPCODE_DATA \<and> (de_sequence d = 0 \<or> de_data_len d = 0)
                  then (ESP_ERR_INVALID_ARG, d\<lparr>de_issue := DECODE_DATA\<rparr>)
                  else if opcode \<noteq> OPCODE_DATA \<and> de_sequence d \<noteq> 0
                  then (ESP_ERR_INVALID_ARG, d\<lparr>de_issue := DECODE_CONTROL_SEQUENCE\<rparr>)
                  else if opcode \<noteq> OPCODE_DATA \<and> de_data_len d \<noteq> 0
                  then (ESP_ERR_INVALID_ARG, d\<lparr>de_issue := DECODE_CONTROL_DATA\<rparr>)
                  else if (de_acknowledgement_session d = 0) \<noteq> (de_acknowledgement_sequence d = 0)
                     \<or> (opcode = OPCODE_ACK \<and> de_acknowledgement_session d = 0)
                  then (ESP_ERR_INVALID_ARG, d\<lparr>de_issue := DECODE_ACKNOWLEDGEMENT\<rparr>)
                  else (ESP_OK, d\<lparr>de_issue := DECODE_NONE\<rparr>))"

section \<open>Receiving\<close>

text \<open>The slots up to the acknowledged one leave the window.\<close>

definition stream_apply_acknowledgement_locked ::
  "'q link_stream \<Rightarrow> u32 \<Rightarrow> u16 \<Rightarrow> 'q link_stream" where
  "stream_apply_acknowledgement_locked s ack_session ack_sequence =
     (if ack_session \<noteq> st_local_session s \<or> st_tx_window s = [] then s
      else (case first_index (\<lambda>slot. ts_sequence slot = ack_sequence) (st_tx_window s) of
              None \<Rightarrow> s
            | Some i \<Rightarrow>
                let bytes = sum_list (map (\<lambda>slot. of_nat (length (ts_data slot))) (take (i + 1) (st_tx_window s)))
                in set_counters (\<lambda>c. c\<lparr>ss_bytes_sent := ss_bytes_sent c + bytes,
                       ss_acknowledgements_received := ss_acknowledgements_received c + 1\<rparr>)
                     (s\<lparr>st_tx_window := drop (i + 1) (st_tx_window s)\<rparr>)))"

definition stream_note_decode_error ::
  "bool \<Rightarrow> 'q stream_service \<Rightarrow> string option \<Rightarrow> link_message option \<Rightarrow> esp_err \<Rightarrow> stream_decoded
   \<Rightarrow> 'q stream_service" where
  "stream_note_decode_error mutex_ok sv link message error d =
     (case (link, message) of
        (Some l, Some m) \<Rightarrow>
          (case stream_ensure_init mutex_ok sv of
             (ESP_OK, sv1) \<Rightarrow>
               (case stream_find_peer_locked sv1 l (lm_source m) of
                  None \<Rightarrow> sv1
                | Some i \<Rightarrow> upd_stream i (set_counters (\<lambda>c. c\<lparr>
                    ss_decode_errors := ss_decode_errors c + 1, ss_dropped := ss_dropped c + 1,
                    ss_last_decode_issue := de_issue d, ss_last_decode_opcode := opcode_byte (de_opcode d),
                    ss_last_decode_sequence := de_sequence d, ss_last_decode_data_len := de_data_len d,
                    ss_last_error := error\<rparr>)) sv1)
           | (_, sv1) \<Rightarrow> sv1)
      | _ \<Rightarrow> sv)"

definition note_error :: "esp_err \<Rightarrow> 'q link_stream \<Rightarrow> 'q link_stream" where
  "note_error err s = set_counters (\<lambda>c. c\<lparr>ss_last_error := err\<rparr>) s"

definition note_drop :: "'q link_stream \<Rightarrow> 'q link_stream" where
  "note_drop s = set_counters (\<lambda>c. c\<lparr>ss_dropped := ss_dropped c + 1\<rparr>) s"

text \<open>An OPEN frame: a new remote session restarts the receiver and, after an earlier one, the sender.\<close>

definition ingest_open :: "'q queue_admin \<Rightarrow> u32 \<Rightarrow> u32 \<Rightarrow> 'q link_stream \<Rightarrow> 'q link_stream" where
  "ingest_open qa random_value session s =
     (let previous_session = st_remote_session s
      in if previous_session = session then s
         else
           let s1 = s\<lparr>st_remote_session := session, st_expected_rx_sequence := 1, st_received_any := False,
                      st_acknowledgement_pending := False, st_acknowledgement_due_ms := 0,
                      st_rx_queue := map_option (qa_reset qa) (st_rx_queue s)\<rparr>;
               s2 = (if previous_session \<noteq> 0 \<or> st_had_remote_session s1
                     then stream_reset_local_locked random_value True s1 else s1);
               s3 = (if st_had_remote_session s2
                     then set_counters (\<lambda>c. c\<lparr>ss_reconnects := ss_reconnects c + 1\<rparr>) s2
                     else s2\<lparr>st_next_open_ms := 0\<rparr>)
           in s3\<lparr>st_had_remote_session := True\<rparr>)"

fun send_bytes :: "('q, u8) queue_ops \<Rightarrow> u8 list \<Rightarrow> 'q \<Rightarrow> 'q" where
  "send_bytes qo [] q = q"
| "send_bytes qo (b # bs) q = send_bytes qo bs (case q_send qo q b of None \<Rightarrow> q | Some q1 \<Rightarrow> q1)"

text \<open>Accepting a data frame, and scheduling the acknowledgement of the last accepted one.\<close>

definition ingest_accept :: "('q, u8) queue_ops \<Rightarrow> u8 list \<Rightarrow> 'q link_stream \<Rightarrow> 'q link_stream" where
  "ingest_accept qo data s =
     set_counters (\<lambda>c. c\<lparr>ss_bytes_received := ss_bytes_received c + of_nat (length data),
         ss_frames_received := ss_frames_received c + 1\<rparr>)
       (s\<lparr>st_rx_queue := map_option (send_bytes qo data) (st_rx_queue s),
          st_expected_rx_sequence := stream_next_sequence (st_expected_rx_sequence s),
          st_received_any := True\<rparr>)"

definition ingest_schedule_ack :: "u32 \<Rightarrow> u32 \<Rightarrow> 'q link_stream \<Rightarrow> 'q link_stream" where
  "ingest_schedule_ack session now_ms s =
     (if st_expected_rx_sequence s = 1 \<and> \<not> st_received_any s then s
      else s\<lparr>st_acknowledgement_pending := True, st_acknowledgement_session := session,
             st_acknowledgement_sequence := stream_previous_sequence (st_expected_rx_sequence s),
             st_acknowledgement_due_ms := now_ms + sc_acknowledgement_delay_ms (st_config s)\<rparr>)"

definition ingest_data ::
  "('q, u8) queue_ops \<Rightarrow> 'q queue_admin \<Rightarrow> u32 \<Rightarrow> u16 \<Rightarrow> u8 list \<Rightarrow> u32 \<Rightarrow> 'q link_stream
   \<Rightarrow> esp_err \<times> 'q link_stream" where
  "ingest_data qo qa session seq data now_ms s =
     (if st_data_mtu s < length data
      then (ESP_ERR_INVALID_SIZE, note_error ESP_ERR_INVALID_SIZE (note_drop s))
      else if seq = st_expected_rx_sequence s
      then (if (case st_rx_queue s of None \<Rightarrow> 0 | Some q \<Rightarrow> qa_spaces qa q) < length data
            then (ESP_ERR_NO_MEM, note_error ESP_ERR_NO_MEM (note_drop s))
            else (ESP_OK, ingest_schedule_ack session now_ms (ingest_accept qo data s)))
      else (ESP_OK, ingest_schedule_ack session now_ms
             (if stream_sequence_is_recent seq (st_expected_rx_sequence s) then s else note_drop s)))"

definition ingest_close :: "'q queue_admin \<Rightarrow> 'q link_stream \<Rightarrow> 'q link_stream" where
  "ingest_close qa s =
     s\<lparr>st_remote_session := 0, st_remote_last_seen_ms := 0, st_acknowledgement_pending := False,
       st_acknowledgement_due_ms := 0, st_rx_queue := map_option (qa_reset qa) (st_rx_queue s),
       st_next_open_ms := 0\<rparr>"

text \<open>The critical section of an ingest, on the stream of the sender.\<close>

definition stream_ingest_locked ::
  "('q, u8) queue_ops \<Rightarrow> 'q queue_admin \<Rightarrow> u32 \<Rightarrow> stream_decoded \<Rightarrow> u32 \<Rightarrow> 'q link_stream
   \<Rightarrow> esp_err \<times> 'q link_stream" where
  "stream_ingest_locked qo qa random_value d now_ms s =
     (let s0 = note_error ESP_OK s
      in if de_opcode d \<noteq> OPCODE_OPEN \<and> de_session d \<noteq> st_remote_session s0
         then (ESP_ERR_INVALID_STATE, note_error ESP_ERR_INVALID_STATE (note_drop s0))
         else
           let s1 = (if de_opcode d = OPCODE_OPEN then ingest_open qa random_value (de_session d) s0 else s0);
               s2 = stream_apply_acknowledgement_locked (s1\<lparr>st_remote_last_seen_ms := now_ms\<rparr>)
                      (de_acknowledgement_session d) (de_acknowledgement_sequence d)
           in (case de_opcode d of
                 OPCODE_OPEN \<Rightarrow> (ESP_OK, s2)
               | OPCODE_DATA \<Rightarrow> ingest_data qo qa (de_session d) (de_sequence d) (de_data d) now_ms s2
               | OPCODE_ACK \<Rightarrow> (ESP_OK, s2)
               | OPCODE_CLOSE \<Rightarrow> (ESP_OK, ingest_close qa s2)
               | OPCODE_OTHER _ \<Rightarrow> (ESP_ERR_INVALID_ARG, s2)))"

definition solar_os_link_stream_ingest ::
  "('q, u8) queue_ops \<Rightarrow> 'q queue_admin \<Rightarrow> bool \<Rightarrow> u32 \<Rightarrow> 'q stream_service \<Rightarrow> string option
   \<Rightarrow> link_message option \<Rightarrow> u32 \<Rightarrow> esp_err \<times> 'q stream_service" where
  "solar_os_link_stream_ingest qo qa mutex_ok random_value sv link message now_ms =
     (case stream_decode message stream_decoded_zero of
        (error, d) \<Rightarrow>
          if error \<noteq> ESP_OK then (error, stream_note_decode_error mutex_ok sv link message error d)
          else if link = None then (ESP_ERR_INVALID_ARG, sv)
          else (case stream_ensure_init mutex_ok sv of
                  (ESP_OK, sv1) \<Rightarrow>
                    (case stream_find_peer_locked sv1 (the link) (lm_source (the message)) of
                       None \<Rightarrow> (ESP_ERR_NOT_FOUND, sv1)
                     | Some i \<Rightarrow>
                         if \<not> st_port_open (sv_streams sv1 ! i) then (ESP_ERR_INVALID_STATE, sv1)
                         else (case stream_ingest_locked qo qa random_value d now_ms (sv_streams sv1 ! i) of
                                 (err, s) \<Rightarrow> (err, upd_stream i (\<lambda>_. s) sv1)))
                | (_, sv1) \<Rightarrow> (ESP_ERR_INVALID_ARG, sv1)))"

section \<open>Sending\<close>

text \<open>One round of the loop that fills the window from the transmit queue; false ends the loop.\<close>

definition fill_slot :: "('q, u8) queue_ops \<Rightarrow> 'q link_stream \<Rightarrow> bool \<times> 'q link_stream" where
  "fill_slot qo s =
     (case st_tx_queue s of
        None \<Rightarrow> (False, s)
      | Some q \<Rightarrow>
          (case receive_upto qo (st_data_mtu s) q of
             ([], _) \<Rightarrow> (False, s)
           | (data, q1) \<Rightarrow>
               (True, s\<lparr>st_tx_queue := Some q1,
                  st_next_tx_sequence := stream_next_sequence (st_next_tx_sequence s),
                  st_tx_window := st_tx_window s @
                    [\<lparr>ts_sequence = st_next_tx_sequence s, ts_data = data, ts_sent = False,
                      ts_ever_sent = False, ts_last_send_ms = 0\<rparr>]\<rparr>)))"

fun fill_window :: "('q, u8) queue_ops \<Rightarrow> nat \<Rightarrow> 'q link_stream \<Rightarrow> 'q link_stream" where
  "fill_window qo 0 s = s"
| "fill_window qo (Suc n) s =
     (case fill_slot qo s of (False, _) \<Rightarrow> s | (True, s1) \<Rightarrow> fill_window qo n s1)"

text \<open>The slot to send: the first unsent one, or the first of all once its retry delay has passed.\<close>

definition stream_pick_slot :: "u32 \<Rightarrow> 'q link_stream \<Rightarrow> tx_slot option \<times> 'q link_stream" where
  "stream_pick_slot now_ms s =
     (case find (\<lambda>slot. \<not> ts_sent slot) (st_tx_window s) of
        Some slot \<Rightarrow> (Some slot, s)
      | None \<Rightarrow>
          (case st_tx_window s of
             [] \<Rightarrow> (None, s)
           | slot # _ \<Rightarrow>
               if stream_retry_delay_ms s slot \<le> now_ms - ts_last_send_ms slot
               then (Some (slot\<lparr>ts_sent := False\<rparr>),
                     s\<lparr>st_tx_window := map (\<lambda>t. t\<lparr>ts_sent := False\<rparr>) (st_tx_window s)\<rparr>)
               else (None, s)))"

definition stream_expire_peer :: "u32 \<Rightarrow> 'q link_stream \<Rightarrow> 'q link_stream" where
  "stream_expire_peer now_ms s =
     (if st_remote_session s \<noteq> 0 \<and> sc_peer_timeout_ms (st_config s) < now_ms - st_remote_last_seen_ms s
      then set_counters (\<lambda>c. c\<lparr>ss_last_error := ESP_ERR_TIMEOUT\<rparr>)
             (s\<lparr>st_remote_session := 0, st_remote_last_seen_ms := 0, st_next_open_ms := 0,
                st_acknowledgement_pending := False, st_acknowledgement_due_ms := 0\<rparr>)
      else s)"

text \<open>The fields of every frame; those of the acknowledgement are only written when one is pending.\<close>

definition stream_action_fields :: "'q link_stream \<Rightarrow> stream_action \<Rightarrow> stream_action" where
  "stream_action_fields s action =
     (let a = action\<lparr>sa_valid := True, sa_generation := st_generation s,
                     sa_port := strlcpy PORT_NAME_MAX (st_port s), sa_link := strlcpy LINK_NAME_MAX (st_link s),
                     sa_peer_id := st_peer_id s\<rparr>
      in if st_acknowledgement_pending s
         then a\<lparr>sa_acknowledgement_session := st_acknowledgement_session s,
                sa_acknowledgement_sequence := st_acknowledgement_sequence s\<rparr>
         else a)"

definition ms_reached :: "u32 \<Rightarrow> u32 \<Rightarrow> bool" where
  "ms_reached now_ms due \<longleftrightarrow> 0 \<le> sint (now_ms - due)"

definition stream_prepare_action_locked ::
  "('q, u8) queue_ops \<Rightarrow> 'q link_stream \<Rightarrow> u32 \<Rightarrow> stream_action \<Rightarrow> 'q link_stream \<times> stream_action" where
  "stream_prepare_action_locked qo s0 now_ms action =
     (let s = stream_expire_peer now_ms s0; a = stream_action_fields s action
      in if st_close_pending s
         then (s, a\<lparr>sa_opcode := OPCODE_CLOSE, sa_session := st_close_session s\<rparr>)
         else if \<not> st_port_open s then (s, a\<lparr>sa_valid := False\<rparr>)
         else if ms_reached now_ms (st_next_open_ms s)
         then (s, a\<lparr>sa_opcode := OPCODE_OPEN, sa_session := st_local_session s\<rparr>)
         else if \<not> stream_connected_locked s now_ms then (s, a\<lparr>sa_valid := False\<rparr>)
         else
           let s1 = fill_window qo (LINK_STREAM_WINDOW_SIZE - length (st_tx_window s)) s
           in (case stream_pick_slot now_ms s1 of
                 (None, s2) \<Rightarrow>
                   (if st_acknowledgement_pending s2 \<and> ms_reached now_ms (st_acknowledgement_due_ms s2)
                    then (s2, a\<lparr>sa_opcode := OPCODE_ACK, sa_session := st_local_session s2\<rparr>)
                    else (s2, a\<lparr>sa_valid := False\<rparr>))
               | (Some slot, s2) \<Rightarrow>
                   (s2, a\<lparr>sa_opcode := OPCODE_DATA, sa_session := st_local_session s2,
                          sa_sequence := ts_sequence slot, sa_data := ts_data slot\<rparr>)))"

definition stream_action_payload :: "stream_action \<Rightarrow> u8 list" where
  "stream_action_payload a =
     [LINK_STREAM_MAGIC_0, LINK_STREAM_MAGIC_1, LINK_STREAM_VERSION, opcode_byte (sa_opcode a)]
     @ stream_write_u32 (sa_session a) @ stream_write_u16 (sa_sequence a)
     @ stream_write_u32 (sa_acknowledgement_session a) @ stream_write_u16 (sa_acknowledgement_sequence a)
     @ sa_data a"

definition stream_send_action ::
  "('f, link_frame) queue_ops \<Rightarrow> bool \<Rightarrow> ('m, 'f) link_state \<Rightarrow> stream_action
   \<Rightarrow> esp_err \<times> ('m, 'f) link_state" where
  "stream_send_action txo link_mutex_ok ls a =
     (case solar_os_link_send txo link_mutex_ok ls (Some (sa_link a)) LINK_MESSAGE_STREAM (sa_peer_id a)
             (Some (stream_action_payload a)) (LINK_STREAM_HEADER_SIZE + length (sa_data a)) None of
        (err, ls1, _) \<Rightarrow> (err, ls1))"

text \<open>The loop over the streams of a link, with one action for all of them.\<close>

fun stream_prepare_loop ::
  "('q, u8) queue_ops \<Rightarrow> string \<Rightarrow> u32 \<Rightarrow> 'q link_stream list \<Rightarrow> stream_action
   \<Rightarrow> 'q link_stream list \<times> stream_action" where
  "stream_prepare_loop qo link now_ms [] action = ([], action)"
| "stream_prepare_loop qo link now_ms (s # ss) action =
     (if st_active s \<and> st_link s = link
      then (case stream_prepare_action_locked qo s now_ms action of
              (s1, a1) \<Rightarrow>
                if sa_valid a1 then (s1 # ss, a1)
                else (case stream_prepare_loop qo link now_ms ss a1 of (ss1, a2) \<Rightarrow> (s1 # ss1, a2)))
      else (case stream_prepare_loop qo link now_ms ss action of (ss1, a2) \<Rightarrow> (s # ss1, a2)))"

text \<open>The first slot with the sequence number has been sent.\<close>

definition stream_mark_sent :: "u16 \<Rightarrow> u32 \<Rightarrow> 'q link_stream \<Rightarrow> 'q link_stream" where
  "stream_mark_sent seq now_ms s =
     (case first_index (\<lambda>slot. ts_sequence slot = seq) (st_tx_window s) of
        None \<Rightarrow> s
      | Some i \<Rightarrow>
          let slot = st_tx_window s ! i
          in set_counters (\<lambda>c. if ts_ever_sent slot then c\<lparr>ss_retries := ss_retries c + 1\<rparr> else c)
               (s\<lparr>st_tx_window := (st_tx_window s)[i := slot\<lparr>ts_sent := True, ts_ever_sent := True,
                    ts_last_send_ms := (if now_ms \<noteq> 0 then now_ms else 1)\<rparr>]\<rparr>))"

definition stream_commit_acknowledgement :: "stream_action \<Rightarrow> 'q link_stream \<Rightarrow> 'q link_stream" where
  "stream_commit_acknowledgement a s =
     (if sa_acknowledgement_session a \<noteq> 0 \<and> st_acknowledgement_pending s
         \<and> sa_acknowledgement_session a = st_acknowledgement_session s
         \<and> sa_acknowledgement_sequence a = st_acknowledgement_sequence s
      then set_counters (\<lambda>c. c\<lparr>ss_acknowledgements_sent := ss_acknowledgements_sent c + 1\<rparr>)
             (s\<lparr>st_acknowledgement_pending := False, st_acknowledgement_due_ms := 0\<rparr>)
      else s)"

text \<open>The second critical section, on the stream of the action.\<close>

definition stream_commit_action :: "stream_action \<Rightarrow> esp_err \<Rightarrow> u32 \<Rightarrow> 'q link_stream \<Rightarrow> 'q link_stream" where
  "stream_commit_action a error now_ms s0 =
     (let s = note_error error s0
      in if error \<noteq> ESP_OK then s
         else
           let s1 = stream_commit_acknowledgement a s
           in (case sa_opcode a of
                 OPCODE_ACK \<Rightarrow> s1
               | OPCODE_CLOSE \<Rightarrow> s1\<lparr>st_close_pending := False\<rparr>
               | OPCODE_OPEN \<Rightarrow> s1\<lparr>st_next_open_ms := now_ms +
                    (if stream_connected_locked s1 now_ms then sc_open_interval_ms (st_config s1)
                     else sc_retry_ms (st_config s1))\<rparr>
               | OPCODE_DATA \<Rightarrow>
                   set_counters (\<lambda>c. c\<lparr>ss_frames_sent := ss_frames_sent c + 1\<rparr>)
                     (stream_mark_sent (sa_sequence a) now_ms s1)
               | OPCODE_OTHER _ \<Rightarrow> s1))"

definition stream_process_commit ::
  "'q stream_service \<Rightarrow> stream_action \<Rightarrow> esp_err \<Rightarrow> u32 \<Rightarrow> 'q stream_service" where
  "stream_process_commit sv a error now_ms =
     (case stream_find_port_locked sv (sa_port a) of
        None \<Rightarrow> sv
      | Some i \<Rightarrow>
          if st_generation (sv_streams sv ! i) = sa_generation a
          then upd_stream i (stream_commit_action a error now_ms) sv else sv)"

definition solar_os_link_stream_process ::
  "('q, u8) queue_ops \<Rightarrow> ('f, link_frame) queue_ops \<Rightarrow> bool \<Rightarrow> bool \<Rightarrow> 'q stream_service
   \<Rightarrow> ('m, 'f) link_state \<Rightarrow> string option \<Rightarrow> u32 \<Rightarrow> 'q stream_service \<times> ('m, 'f) link_state" where
  "solar_os_link_stream_process qo txo mutex_ok link_mutex_ok sv ls link now_ms =
     (case link of
        None \<Rightarrow> (sv, ls)
      | Some l \<Rightarrow>
          (case stream_ensure_init mutex_ok sv of
             (ESP_OK, sv1) \<Rightarrow>
               (case stream_prepare_loop qo l now_ms (sv_streams sv1) stream_action_zero of
                  (ss, a) \<Rightarrow>
                    let sv2 = sv1\<lparr>sv_streams := ss\<rparr>
                    in if \<not> sa_valid a then (sv2, ls)
                       else (case stream_send_action txo link_mutex_ok ls a of
                               (error, ls1) \<Rightarrow> (stream_process_commit sv2 a error now_ms, ls1)))
           | (_, sv1) \<Rightarrow> (sv1, ls)))"

definition stream_transport_reset :: "'q link_stream \<Rightarrow> 'q link_stream" where
  "stream_transport_reset s =
     note_error ESP_ERR_INVALID_STATE
       (s\<lparr>st_remote_session := 0, st_remote_last_seen_ms := 0, st_next_open_ms := 0,
          st_tx_window := map (\<lambda>slot. slot\<lparr>ts_sent := False, ts_last_send_ms := 0\<rparr>) (st_tx_window s),
          st_acknowledgement_pending := False, st_acknowledgement_due_ms := 0\<rparr>)"

definition solar_os_link_stream_transport_stopped ::
  "bool \<Rightarrow> 'q stream_service \<Rightarrow> string option \<Rightarrow> 'q stream_service" where
  "solar_os_link_stream_transport_stopped mutex_ok sv link =
     (case link of
        None \<Rightarrow> sv
      | Some l \<Rightarrow>
          (case stream_ensure_init mutex_ok sv of
             (ESP_OK, sv1) \<Rightarrow>
               sv1\<lparr>sv_streams := map (\<lambda>s. if \<not> st_active s \<or> st_link s \<noteq> l then s else stream_transport_reset s)
                                  (sv_streams sv1)\<rparr>
           | (_, sv1) \<Rightarrow> sv1))"

end
