(* ===== verification/StreamFrames.thy ===== *)
theory StreamFrames
  imports LinkStream LinkProtocol
begin

text \<open>
  The frames of the byte streams of LinkStream: the header and its decoder are inverse, the stream
  service keeps its tables, windows and acknowledgements consistent under every interleaving of its
  critical sections, and every frame it sends is one its peer decodes.
\<close>

unbundle bit_operations_syntax

section \<open>The header\<close>

lemma stream_fields_are_link_fields:
  "stream_write_u16 = link_write_u16" "stream_write_u32 = link_write_u32"
  "stream_read_u16 = link_read_u16" "stream_read_u32 = link_read_u32"
  by (rule ext, simp add: stream_write_u16_def link_write_u16_def stream_write_u32_def link_write_u32_def
      stream_read_u16_def link_read_u16_def stream_read_u32_def link_read_u32_def)+

interpretation stream16: byte_codec stream_write_u16 stream_read_u16 2
  unfolding stream_fields_are_link_fields by (rule be16.byte_codec_axioms)

interpretation stream32: byte_codec stream_write_u32 stream_read_u32 4
  unfolding stream_fields_are_link_fields by (rule be32.byte_codec_axioms)

text \<open>The frames of the protocol, and the actions a stream may send.\<close>

definition frame_ok :: "stream_action \<Rightarrow> bool" where
  "frame_ok a \<longleftrightarrow>
     sa_opcode a \<in> {OPCODE_OPEN, OPCODE_DATA, OPCODE_ACK, OPCODE_CLOSE} \<and> sa_session a \<noteq> 0
     \<and> (sa_opcode a = OPCODE_DATA \<longrightarrow> sa_sequence a \<noteq> 0 \<and> sa_data a \<noteq> [])
     \<and> (sa_opcode a \<noteq> OPCODE_DATA \<longrightarrow> sa_sequence a = 0 \<and> sa_data a = [])
     \<and> (sa_acknowledgement_session a = 0 \<longleftrightarrow> sa_acknowledgement_sequence a = 0)
     \<and> (sa_opcode a = OPCODE_ACK \<longrightarrow> sa_acknowledgement_session a \<noteq> 0)"

definition action_ok :: "stream_action \<Rightarrow> bool" where
  "action_ok a \<longleftrightarrow>
     frame_ok a \<and> length (sa_data a) \<le> LINK_PAYLOAD_MAX - LINK_STREAM_HEADER_SIZE
     \<and> sa_peer_id a \<noteq> 0 \<and> sa_peer_id a \<noteq> LINK_BROADCAST"

definition action_decoded :: "stream_action \<Rightarrow> stream_decoded" where
  "action_decoded a = \<lparr>de_opcode = sa_opcode a, de_session = sa_session a, de_sequence = sa_sequence a,
     de_acknowledgement_session = sa_acknowledgement_session a,
     de_acknowledgement_sequence = sa_acknowledgement_sequence a, de_data = sa_data a,
     de_data_len = length (sa_data a), de_issue = DECODE_NONE\<rparr>"

lemma payload_fields:
  fixes a :: stream_action
  defines "p \<equiv> stream_action_payload a"
  shows "length p = LINK_STREAM_HEADER_SIZE + length (sa_data a)"
    and "p ! 0 = LINK_STREAM_MAGIC_0" "p ! 1 = LINK_STREAM_MAGIC_1" "p ! 2 = LINK_STREAM_VERSION"
    and "p ! 3 = opcode_byte (sa_opcode a)"
    and "stream_read_u32 (drop 4 p) = sa_session a" "stream_read_u16 (drop 8 p) = sa_sequence a"
    and "stream_read_u32 (drop 10 p) = sa_acknowledgement_session a"
    and "stream_read_u16 (drop 14 p) = sa_acknowledgement_sequence a"
    and "drop LINK_STREAM_HEADER_SIZE p = sa_data a"
  by (simp_all add: p_def stream_action_payload_def LINK_STREAM_HEADER_SIZE_def numeral_nat
      stream16.get_put stream32.get_put stream16.put_length stream32.put_length)

lemma payload_parts:
  "stream_action_payload a ! 0 = LINK_STREAM_MAGIC_0" "stream_action_payload a ! Suc 0 = LINK_STREAM_MAGIC_1"
  "stream_action_payload a ! 2 = LINK_STREAM_VERSION" "stream_action_payload a ! 3 = opcode_byte (sa_opcode a)"
  using payload_fields(2-5) [of a] by simp_all

lemma opcode_known:
  assumes "frame_ok a"
  shows "byte_opcode (opcode_byte (sa_opcode a)) = sa_opcode a" "\<not> opcode_byte (sa_opcode a) < 1"
    "\<not> 4 < opcode_byte (sa_opcode a)"
  using assms by (auto simp: frame_ok_def byte_opcode_def)

lemma byte_opcode_known:
  assumes "\<not> b < 1" and "\<not> 4 < (b :: u8)"
  shows "byte_opcode b \<in> {OPCODE_OPEN, OPCODE_DATA, OPCODE_ACK, OPCODE_CLOSE}"
    and "opcode_byte (byte_opcode b) = b"
proof -
  have "unat b \<in> {1, 2, 3, 4}" using assms by (auto simp: word_less_nat_alt)
  then have "b \<in> {1, 2, 3, 4}" by (auto simp: word_unat_eq_iff)
  then show "byte_opcode b \<in> {OPCODE_OPEN, OPCODE_DATA, OPCODE_ACK, OPCODE_CLOSE}"
    and "opcode_byte (byte_opcode b) = b" by (auto simp: byte_opcode_def)
qed

lemma decode_payload:
  assumes m: "lm_type m = LINK_MESSAGE_STREAM" "lm_destination m \<noteq> LINK_BROADCAST"
    and a: "frame_ok a" "lm_payload m = stream_action_payload a"
  shows "stream_decode (Some m) d0 = (ESP_OK, action_decoded a)"
proof -
  note p = payload_fields [of a] opcode_known [OF a(1)] and f = a(1) [unfolded frame_ok_def]
  show ?thesis
    using f
    by (simp only: stream_decode_def option.case Let_def m a(2) p payload_parts) (auto simp: action_decoded_def)
qed

text \<open>The action whose frame a payload is.\<close>

definition payload_action :: "u8 list \<Rightarrow> stream_action" where
  "payload_action p = stream_action_zero\<lparr>sa_opcode := byte_opcode (p ! 3),
     sa_session := stream_read_u32 (drop 4 p), sa_sequence := stream_read_u16 (drop 8 p),
     sa_acknowledgement_session := stream_read_u32 (drop 10 p),
     sa_acknowledgement_sequence := stream_read_u16 (drop 14 p), sa_data := drop LINK_STREAM_HEADER_SIZE p\<rparr>"

lemma take_then_drop: "take k (drop n p) @ drop (n + k) p = drop n p"
  by (metis add.commute append_take_drop_id drop_drop)

lemma payload_rebuilt:
  assumes "LINK_STREAM_HEADER_SIZE \<le> length p" and "p ! 0 = LINK_STREAM_MAGIC_0"
    and "p ! 1 = LINK_STREAM_MAGIC_1" and "p ! 2 = LINK_STREAM_VERSION"
    and "\<not> p ! 3 < 1" and "\<not> 4 < p ! 3"
  shows "stream_action_payload (payload_action p) = p"
proof -
  have len: "16 \<le> length p" using assms(1) by (simp add: LINK_STREAM_HEADER_SIZE_def)
  have "take 4 p = [p ! 0, p ! 1, p ! 2, p ! 3]"
    using len by (intro nth_equalityI) (auto simp: less_Suc_eq numeral_nat)
  then have "take 4 p = [LINK_STREAM_MAGIC_0, LINK_STREAM_MAGIC_1, LINK_STREAM_VERSION,
      opcode_byte (byte_opcode (p ! 3))]"
    using assms byte_opcode_known(2) by simp
  moreover have "p = take 4 p @ take 4 (drop 4 p) @ take 2 (drop 8 p) @ take 4 (drop 10 p)
      @ take 2 (drop 14 p) @ drop 16 p"
    using take_then_drop [of 4 4 p] take_then_drop [of 2 8 p] take_then_drop [of 4 10 p]
      take_then_drop [of 2 14 p] by simp
  moreover have "stream_write_u32 (stream_read_u32 (drop 4 p)) = take 4 (drop 4 p)"
    "stream_write_u16 (stream_read_u16 (drop 8 p)) = take 2 (drop 8 p)"
    "stream_write_u32 (stream_read_u32 (drop 10 p)) = take 4 (drop 10 p)"
    "stream_write_u16 (stream_read_u16 (drop 14 p)) = take 2 (drop 14 p)"
    using len by (simp_all add: stream16.put_get_drop stream32.put_get_drop)
  ultimately show ?thesis
    by (simp add: stream_action_payload_def payload_action_def LINK_STREAM_HEADER_SIZE_def)
qed

lemma decode_OK_frame:
  assumes "stream_decode (Some m) d0 = (ESP_OK, d)"
  shows "frame_ok (payload_action (lm_payload m))"
    and "stream_action_payload (payload_action (lm_payload m)) = lm_payload m"
proof -
  define p where "p = lm_payload m"
  define a where "a = payload_action p"
  have h: "LINK_STREAM_HEADER_SIZE \<le> length p" "p ! 0 = LINK_STREAM_MAGIC_0"
    "p ! 1 = LINK_STREAM_MAGIC_1" "p ! 2 = LINK_STREAM_VERSION" "\<not> p ! 3 < 1" "\<not> 4 < p ! 3"
    using assms by (auto simp: stream_decode_def Let_def p_def split: if_splits)
  show "stream_action_payload (payload_action (lm_payload m)) = lm_payload m"
    using payload_rebuilt [OF h] by (simp add: p_def)
  have f: "sa_opcode a = byte_opcode (p ! 3)" "sa_session a = stream_read_u32 (drop 4 p)"
    "sa_sequence a = stream_read_u16 (drop 8 p)"
    "sa_acknowledgement_session a = stream_read_u32 (drop 10 p)"
    "sa_acknowledgement_sequence a = stream_read_u16 (drop 14 p)" "sa_data a = drop LINK_STREAM_HEADER_SIZE p"
    by (simp_all add: a_def payload_action_def)
  have "frame_ok a"
    using assms h byte_opcode_known(1) [OF h(5,6)]
    by (auto simp: stream_decode_def Let_def p_def [symmetric] frame_ok_def f split: if_splits)
  then show "frame_ok (payload_action (lm_payload m))" by (simp add: a_def p_def)
qed

text \<open>
  C21.
  The decoder accepts exactly the frames of the protocol: the payload of a unicast stream message
  decodes without error exactly when it is the frame of an action with a known opcode, a session, a
  sequence number and data for DATA and neither for the others, and an acknowledgement whose session
  and number are both present or both absent (present for ACK); the fields decoded are then those
  of the action that was encoded.\<close>
theorem stream_frame_roundtrip:
  assumes "lm_type m = LINK_MESSAGE_STREAM" and "lm_destination m \<noteq> LINK_BROADCAST"
  shows "stream_decode (Some m) d0 = (ESP_OK, d) \<longleftrightarrow>
     (\<exists>a. frame_ok a \<and> lm_payload m = stream_action_payload a \<and> d = action_decoded a)"
proof
  assume ok: "stream_decode (Some m) d0 = (ESP_OK, d)"
  note p = decode_OK_frame [OF ok]
  from decode_payload [OF assms p(1) p(2) [symmetric], of d0] ok
  show "\<exists>a. frame_ok a \<and> lm_payload m = stream_action_payload a \<and> d = action_decoded a"
    using p by (intro exI [of _ "payload_action (lm_payload m)"]) simp
next
  assume "\<exists>a. frame_ok a \<and> lm_payload m = stream_action_payload a \<and> d = action_decoded a"
  then show "stream_decode (Some m) d0 = (ESP_OK, d)" using decode_payload [OF assms] by blast
qed

definition demo_stream_action :: stream_action where
  "demo_stream_action = stream_action_zero\<lparr>sa_opcode := OPCODE_DATA, sa_session := 0x01020304,
     sa_sequence := 7, sa_acknowledgement_session := 9, sa_acknowledgement_sequence := 2, sa_data := [1, 2, 3]\<rparr>"

theorem stream_frame_roundtrip_witness:
  "stream_decode (Some (link_message_zero\<lparr>lm_type := LINK_MESSAGE_STREAM, lm_destination := 5,
       lm_payload := stream_action_payload demo_stream_action\<rparr>)) stream_decoded_zero
     = (ESP_OK, action_decoded demo_stream_action)"
proof -
  have "frame_ok demo_stream_action" by (simp add: frame_ok_def demo_stream_action_def)
  then show ?thesis
    by (subst stream_frame_roundtrip) (auto simp: LINK_BROADCAST_def)
qed

section \<open>The frame sizes of the link service\<close>

text \<open>No link has frames longer than the largest, so no stream has more data than fits one.\<close>

definition mtus :: "('m, 'f) link_state \<Rightarrow> nat list" where
  "mtus s = map li_frame_mtu (lk_instances s)"

definition mtu_bounded :: "('m, 'f) link_state \<Rightarrow> bool" where
  "mtu_bounded s \<longleftrightarrow> (\<forall>n \<in> set (mtus s). n \<le> LINK_FRAME_MAX)"

lemma mtu_fields [simp]:
  "li_frame_mtu (upd_status f x) = li_frame_mtu x"
  "li_frame_mtu (x\<lparr>li_next_sequence := q\<rparr>) = li_frame_mtu x"
  "li_frame_mtu (add_pending d q x) = li_frame_mtu x"
  "li_frame_mtu (link_remember_locked m x) = li_frame_mtu x"
  "li_frame_mtu (link_ack_pending_locked m x) = li_frame_mtu x"
  by (simp_all add: upd_status_def add_pending_def link_pending_alloc_locked_def
      link_remember_locked_def link_ack_pending_locked_def split: option.splits)

lemma mtus_upd_instance:
  assumes "\<And>x. li_frame_mtu (f x) = li_frame_mtu x"
  shows "mtus (upd_instance i f s) = mtus s"
  by (simp add: mtus_def upd_instance_def map_update_same assms)

lemma mtus_mutex [simp]: "mtus (s\<lparr>lk_mutex := b\<rparr>) = mtus s"
  by (simp add: mtus_def)

lemma mtus_queue:
  "mtus (snd (rx_send rxo s q m)) = mtus s" "mtus (snd (rx_receive rxo s q)) = mtus s"
  "mtus (snd (tx_send txo s q f)) = mtus s" "mtus (snd (tx_receive txo s q)) = mtus s"
  by (auto simp: mtus_def rx_send_def rx_receive_def tx_send_def tx_receive_def split: option.splits)

lemma mtus_phase: "mtus (snd (phase_step rxo txo ref ph s)) = mtus s"
proof -
  have tx: "mtus s1 = mtus s" if "tx_send txo s q f = (ok, s1)" for q f ok s1
    using mtus_queue(3) [of txo s q f] that by simp
  have rx: "mtus s1 = mtus s" if "rx_send rxo s q m = (x, s1)" for q x s1 m
    using mtus_queue(1) [of rxo s q m] that by simp
  have enqueue: "mtus (snd (link_send_enqueue txo s ref m)) = mtus s"
    "mtus (snd (link_queue_ack txo s i q m)) = mtus s" for i q m
    by (auto simp: link_send_enqueue_def link_queue_ack_def split: prod.splits esp_err.splits
        option.splits bool.splits dest: tx)
  have send: "mtus (snd (link_send_begin s ref t d)) = mtus s" "mtus (link_send_commit s ref ret m) = mtus s"
    "mtus (link_ingest_reject s ref ret) = mtus s" "mtus (link_ingest_commit s ref m ret dup ev ack ack_ret) = mtus s"
    for t d ret m dup ev ack ack_ret
    by (simp_all add: link_send_begin_def link_send_commit_def link_ingest_reject_def
        link_ingest_commit_def Let_def mtus_upd_instance)
  have classify: "mtus (snd (link_ingest_classify s ref m)) = mtus s" for m
    by (simp add: link_ingest_classify_def Let_def mtus_upd_instance)
  have begin1: "mtus s1 = mtus s" if "link_send_begin s ref t d = (x, s1)" for x s1 t d
    using send(1) [of t d] that by simp
  have classify1: "mtus s1 = mtus s" if "link_ingest_classify s ref m = (x, s1)" for x s1 m
    using classify [of m] that by simp
  show ?thesis
    using mtus_queue enqueue send classify
    by (cases ph) (auto simp: phase_step_def case_prod_unfold Let_def split: option.splits bool.splits
        ingest_class.splits prod.splits dest: begin1 classify1 rx)
qed

lemma mtus_acquire: "link_acquire ok s name = (err, s', ref) \<Longrightarrow> mtus s' = mtus s"
  by (auto simp: link_acquire_def link_ensure_init_def Let_def mtus_upd_instance split: if_splits)

lemma mtus_release: "mtus (link_release s ref) = mtus s"
  by (simp add: link_release_def mtus_upd_instance)

lemma mtus_destroy: "link_destroy_begin s name = (r, s') \<Longrightarrow> mtus s' = mtus s"
  by (auto simp: link_destroy_begin_def Let_def mtus_upd_instance split: if_splits)

lemma mtu_bounded_same: "mtus s' = mtus s \<Longrightarrow> mtu_bounded s \<Longrightarrow> mtu_bounded s'"
  by (simp add: mtu_bounded_def)

lemma mtu_bounded_set:
  assumes "mtu_bounded s" and "\<And>x. li_frame_mtu (f x) \<le> LINK_FRAME_MAX"
  shows "mtu_bounded (upd_instance i f s)"
  using assms set_update_subset_insert [of "lk_instances s" i "f (lk_instances s ! i)"]
  by (auto simp: mtu_bounded_def mtus_def upd_instance_def)

lemma mtus_ensure_init: "link_ensure_init ok s = (err, s') \<Longrightarrow> mtus s' = mtus s"
  by (auto simp: link_ensure_init_def split: if_splits)

lemma mtus_fill: "link_fill_status_locked rxo txo s x = (st, s') \<Longrightarrow> mtus s' = mtus s"
  by (auto simp: link_fill_status_locked_def handle_waiting_def mtus_def split: option.splits prod.splits)

lemma mtus_status:
  "solar_os_link_get_status rxo txo ok s name out = (err, s', out') \<Longrightarrow> mtus s' = mtus s"
  "solar_os_link_get rxo txo ok s index gout = (found, s', gout') \<Longrightarrow> mtus s' = mtus s"
  "solar_os_link_count ok s = (n, s') \<Longrightarrow> mtus s' = mtus s"
  by (auto simp: solar_os_link_get_status_def solar_os_link_get_def solar_os_link_count_def Let_def
      split: if_splits prod.splits esp_err.splits option.splits
      dest!: mtus_ensure_init mtus_fill)

lemma mtu_bounded_step:
  assumes "link_step rxo txo c c'" and "mtu_bounded (fst c)"
  shows "mtu_bounded (fst c')"
  using assms
proof (cases rule: link_step.cases)
  case (ls_create ok rx_ok tx_ok s name lid mtu err s' ts ds)
  from ls_create(3) show ?thesis
  proof (cases rule: create_cases)
    case failed
    then show ?thesis using assms(2) ls_create by (auto intro: mtu_bounded_same)
  next
    case (created s1 slot nm)
    have "mtu_bounded s1" using assms(2) ls_create(1) mtus_ensure_init [OF created(2)] mtu_bounded_same by auto
    then have "mtu_bounded (s1\<lparr>lk_generation := g, lk_rx_heap := h, lk_tx_heap := k, lk_next_handle := n\<rparr>)" for g h k n
      by (simp add: mtu_bounded_def mtus_def)
    then show ?thesis
      using ls_create(2) created(9) unfolding created(12) by (simp add: mtu_bounded_set)
  qed
next
  case (ls_run k ts ref ph s ph' s' ds)
  then show ?thesis using assms(2) mtus_phase [of rxo txo ref ph s] by (auto intro: mtu_bounded_same)
next
  case (ls_clear k ds s ts)
  then show ?thesis using assms(2) by (simp add: mtu_bounded_set link_instance_zero_def)
next
  case (ls_delete_tx k ds s ts)
  then show ?thesis using assms(2) by (simp add: mtu_bounded_def mtus_def)
next
  case (ls_delete_rx k ds s ts)
  then show ?thesis using assms(2) by (simp add: mtu_bounded_def mtus_def)
qed (auto intro: mtu_bounded_same dest: mtus_status mtus_acquire mtus_destroy simp: mtus_release)

lemma mtu_bounded_reachable: "link_reachable rxo txo c \<Longrightarrow> mtu_bounded (fst c)"
proof (induction rule: link_reachable.induct)
  case lr_boot
  then show ?case by (simp add: mtu_bounded_def mtus_def link_boot_def link_instance_zero_def)
qed (rule mtu_bounded_step)

lemma status_mtu:
  assumes "solar_os_link_get_status rxo txo ok s name (Some st0) = (ESP_OK, s', Some st)" and "mtu_bounded s"
  shows "ls_frame_mtu st \<le> LINK_FRAME_MAX"
proof -
  obtain s1 where s1: "link_ensure_init ok s = (ESP_OK, s1)" and i: "0 \<le> link_find_locked s1 (the name)"
    and st: "ls_frame_mtu st = li_frame_mtu (lk_instances s1 ! nat (link_find_locked s1 (the name)))"
    using assms(1)
    by (auto simp: solar_os_link_get_status_def link_fill_status_locked_def Let_def
        split: if_splits prod.splits esp_err.splits)
  obtain j where j: "link_find_locked s1 (the name) = int j" using find_locked_nonneg [OF i] by blast
  have "mtu_bounded s1" using mtus_ensure_init [OF s1] assms(2) mtu_bounded_same by blast
  then show ?thesis using find_locked_Some(1) [OF j] by (simp add: st j mtu_bounded_def mtus_def)
qed

section \<open>The queues\<close>

text \<open>Beyond the laws of \<open>bounded_fifo\<close> the streams rely on \<open>xQueueReset\<close> emptying a queue and on
  \<open>uxQueueSpacesAvailable\<close> counting its free places.\<close>

locale byte_queue = bounded_fifo ops contents depth
  for ops :: "('q, u8) queue_ops" and contents :: "'q \<Rightarrow> u8 list" and depth :: "'q \<Rightarrow> nat" +
  fixes adm :: "'q queue_admin"
  assumes reset_contents: "contents (qa_reset adm q) = []"
    and reset_depth: "depth (qa_reset adm q) = depth q"
    and spaces: "qa_spaces adm q = depth q - length (contents q)"
begin

lemma receive_upto_spec:
  "receive_upto ops n q = (bs, q') \<Longrightarrow>
     bs = take n (contents q) \<and> contents q' = drop n (contents q) \<and> depth q' = depth q"
proof (induction n arbitrary: q bs q')
  case (Suc n)
  show ?case
  proof (cases "q_receive ops q")
    case None
    then have "contents q = []" using receive_None_iff by blast
    then show ?thesis using Suc.prems None by auto
  next
    case (Some r)
    obtain b q1 where r: "r = (b, q1)" by fastforce
    obtain cs q2 where t: "receive_upto ops n q1 = (cs, q2)" by fastforce
    from Suc.IH [OF t] Suc.prems Some r t receive_SomeD [of q b q1] show ?thesis by auto
  qed
qed simp

lemma send_bytes_spec:
  "length (contents q) + length bs \<le> depth q \<Longrightarrow>
     contents (send_bytes ops bs q) = contents q @ bs \<and> depth (send_bytes ops bs q) = depth q"
proof (induction bs arbitrary: q)
  case (Cons b bs)
  have "length (contents q) < depth q" using Cons.prems by simp
  from send_room [OF this, of b] obtain q1 where "q_send ops q b = Some q1"
    "contents q1 = contents q @ [b]" "depth q1 = depth q" by blast
  with Cons.IH [of q1] Cons.prems show ?case by simp
qed simp

lemma send_bytes_depth: "depth (send_bytes ops bs q) = depth q"
  by (induction bs arbitrary: q) (auto split: option.splits dest: send_SomeD)

lemma write_bytes_spec:
  "write_bytes ops expired k bs q = (err, n, q') \<Longrightarrow> length (contents q) \<le> depth q \<Longrightarrow>
     k \<le> n \<and> n \<le> k + length bs \<and> contents q' = contents q @ take (n - k) bs \<and> depth q' = depth q
     \<and> length (contents q') \<le> depth q' \<and> (err = ESP_OK \<longleftrightarrow> n = k + length bs)"
proof (induction bs arbitrary: k q)
  case (Cons b bs)
  show ?case
  proof (cases "expired k \<or> q_send ops q b = None")
    case True
    then show ?thesis using Cons.prems by (auto split: if_splits)
  next
    case False
    then obtain q1 where q1: "q_send ops q b = Some q1" by blast
    note c = send_SomeD [OF q1]
    have w: "write_bytes ops expired (k + 1) bs q1 = (err, n, q')" using Cons.prems(1) False q1 by simp
    from Cons.IH [OF w] c have "Suc k \<le> n" "n \<le> Suc k + length bs"
      "contents q' = contents q @ b # take (n - Suc k) bs" "depth q' = depth q"
      "length (contents q') \<le> depth q'" "err = ESP_OK \<longleftrightarrow> n = Suc k + length bs" by auto
    moreover from this(1) have "take (n - k) (b # bs) = b # take (n - Suc k) bs"
      by (metis Suc_diff_le diff_Suc_Suc take_Suc_Cons)
    ultimately show ?thesis by simp
  qed
qed simp

end

definition list_queue_admin :: "'a list_queue queue_admin" where
  "list_queue_admin = \<lparr>qa_reset = (\<lambda>(n, xs). (n, [])), qa_spaces = (\<lambda>(n, xs). n - length xs)\<rparr>"

interpretation list_bytes: byte_queue list_queue_ops snd fst list_queue_admin
  by unfold_locales (auto simp: list_queue_admin_def)

section \<open>The invariant of a stream\<close>

lemma next_sequence_nonzero [simp]: "stream_next_sequence q \<noteq> 0"
  by (simp add: stream_next_sequence_def)

lemma previous_sequence_nonzero [simp]: "q \<noteq> 0 \<Longrightarrow> stream_previous_sequence q \<noteq> 0"
  by (simp add: stream_previous_sequence_def)

lemma previous_next [simp]: "q \<noteq> 0 \<Longrightarrow> stream_previous_sequence (stream_next_sequence q) = q"
  by (auto simp: stream_previous_sequence_def stream_next_sequence_def eq_neg_iff_add_eq_0 [symmetric])

text \<open>The slots of a window are numbered consecutively, from the first to the next number to use.\<close>

fun numbered :: "u16 \<Rightarrow> tx_slot list \<Rightarrow> u16 \<Rightarrow> bool" where
  "numbered f [] n \<longleftrightarrow> f = n"
| "numbered f (slot # slots) n \<longleftrightarrow> ts_sequence slot = f \<and> f \<noteq> 0 \<and> numbered (stream_next_sequence f) slots n"

definition slot_data_ok :: "nat \<Rightarrow> tx_slot \<Rightarrow> bool" where
  "slot_data_ok mtu slot \<longleftrightarrow> ts_data slot \<noteq> [] \<and> length (ts_data slot) \<le> mtu"

definition window_ok :: "'q link_stream \<Rightarrow> bool" where
  "window_ok s \<longleftrightarrow>
     length (st_tx_window s) \<le> LINK_STREAM_WINDOW_SIZE \<and> st_next_tx_sequence s \<noteq> 0
     \<and> (\<exists>f. numbered f (st_tx_window s) (st_next_tx_sequence s))
     \<and> (\<forall>slot \<in> set (st_tx_window s). slot_data_ok (st_data_mtu s) slot)"

definition identity_ok :: "'q link_stream \<Rightarrow> bool" where
  "identity_ok s \<longleftrightarrow>
     st_peer_id s \<noteq> 0 \<and> st_peer_id s \<noteq> LINK_BROADCAST
     \<and> st_data_mtu s \<le> LINK_PAYLOAD_MAX - LINK_STREAM_HEADER_SIZE
     \<and> length (st_port s) < PORT_NAME_MAX \<and> length (st_link s) < LINK_NAME_MAX"

definition session_ok :: "'q link_stream \<Rightarrow> bool" where
  "session_ok s \<longleftrightarrow>
     (st_port_open s \<longrightarrow> st_local_session s \<noteq> 0) \<and> (st_close_pending s \<longrightarrow> st_close_session s \<noteq> 0)
     \<and> (\<not> st_port_open s \<longrightarrow> st_tx_window s = [] \<and> st_remote_session s = 0)
     \<and> st_expected_rx_sequence s \<noteq> 0
     \<and> (st_acknowledgement_pending s \<longrightarrow>
          st_acknowledgement_session s \<noteq> 0 \<and> st_acknowledgement_session s = st_remote_session s
          \<and> st_acknowledgement_sequence s = stream_previous_sequence (st_expected_rx_sequence s))"

definition queue_ok :: "('q \<Rightarrow> u8 list) \<Rightarrow> ('q \<Rightarrow> nat) \<Rightarrow> 'q option \<Rightarrow> bool" where
  "queue_ok contents depth q \<longleftrightarrow>
     (\<exists>x. q = Some x \<and> depth x = LINK_STREAM_QUEUE_BYTES \<and> length (contents x) \<le> depth x)"

definition stream_ok :: "('q \<Rightarrow> u8 list) \<Rightarrow> ('q \<Rightarrow> nat) \<Rightarrow> 'q link_stream \<Rightarrow> bool" where
  "stream_ok contents depth s \<longleftrightarrow>
     (st_active s \<longrightarrow> identity_ok s \<and> window_ok s \<and> session_ok s
        \<and> queue_ok contents depth (st_rx_queue s) \<and> queue_ok contents depth (st_tx_queue s))"

lemmas stream_ok_defs = stream_ok_def identity_ok_def window_ok_def session_ok_def

lemma numbered_append:
  "numbered f (w @ [slot]) m \<longleftrightarrow>
     (\<exists>n. numbered f w n \<and> ts_sequence slot = n \<and> n \<noteq> 0 \<and> m = stream_next_sequence n)"
  by (induction w arbitrary: f) auto

lemma numbered_drop: "numbered f w n \<Longrightarrow> \<exists>g. numbered g (drop k w) n"
proof (induction w arbitrary: f k)
  case (Cons slot w)
  show ?case
  proof (cases k)
    case 0
    then show ?thesis using Cons.prems by (intro exI [of _ f]) simp
  next
    case (Suc j)
    then show ?thesis using Cons.prems Cons.IH [of "stream_next_sequence f" j] by simp
  qed
qed auto

lemma numbered_map: "map ts_sequence w' = map ts_sequence w \<Longrightarrow> numbered f w' n = numbered f w n"
proof (induction w arbitrary: f w')
  case (Cons slot w)
  then obtain slot' v where w': "w' = slot' # v" "map ts_sequence v = map ts_sequence w"
    "ts_sequence slot' = ts_sequence slot" by (cases w') simp_all
  then show ?case using Cons.IH [OF w'(2)] by simp
qed simp

lemma renumber_ok:
  "renumber f w = (n, w') \<Longrightarrow> f \<noteq> 0 \<Longrightarrow>
     numbered f w' n \<and> n \<noteq> 0 \<and> map ts_data w' = map ts_data w"
  by (induction w arbitrary: f n w') (auto split: prod.splits)

lemma window_same:
  assumes "window_ok s" and "map ts_sequence (st_tx_window s') = map ts_sequence (st_tx_window s)"
    and "map ts_data (st_tx_window s') = map ts_data (st_tx_window s)"
    and "st_next_tx_sequence s' = st_next_tx_sequence s" and "st_data_mtu s' = st_data_mtu s"
  shows "window_ok s'"
proof -
  have "(\<forall>d \<in> set (map ts_data (st_tx_window s')). d \<noteq> [] \<and> length d \<le> st_data_mtu s)"
    using assms(1) unfolding assms(3) by (simp add: window_ok_def slot_data_ok_def)
  then have "\<forall>slot \<in> set (st_tx_window s'). ts_data slot \<noteq> [] \<and> length (ts_data slot) \<le> st_data_mtu s"
    by simp
  then show ?thesis
    using assms numbered_map [OF assms(2)] assms(4,5) map_eq_imp_length_eq [OF assms(2)]
    by (simp add: window_ok_def slot_data_ok_def)
qed

lemma ok_counters [simp]:
  "stream_ok contents depth (set_counters f s) = stream_ok contents depth s"
  "stream_ok contents depth (note_error err s) = stream_ok contents depth s"
  "stream_ok contents depth (note_drop s) = stream_ok contents depth s"
  by (simp_all add: stream_ok_defs set_counters_def note_error_def note_drop_def)

lemma ok_zero [simp]: "stream_ok contents depth link_stream_zero"
  by (simp add: stream_ok_def link_stream_zero_def)

lemma reset_local_window:
  "window_ok s \<Longrightarrow> window_ok (stream_reset_local_locked r preserve s)"
proof -
  assume w: "window_ok s"
  define v where "v = (if preserve then st_tx_window s else [])"
  obtain n v' where n: "renumber 1 v = (n, v')" by fastforce
  note r = renumber_ok [OF n]
  have len: "length v' \<le> LINK_STREAM_WINDOW_SIZE"
    using r w map_eq_imp_length_eq [of ts_data v' ts_data v] by (auto simp: window_ok_def v_def)
  have "\<forall>d \<in> set (map ts_data v'). d \<noteq> [] \<and> length d \<le> st_data_mtu s"
    using r w by (auto simp: window_ok_def slot_data_ok_def v_def)
  then have "\<forall>slot \<in> set v'. slot_data_ok (st_data_mtu s) slot" by (simp add: slot_data_ok_def)
  then show ?thesis
    using r len n by (auto simp: window_ok_def stream_reset_local_locked_def v_def Let_def)
qed

lemma reset_local_fields [simp]:
  "st_rx_queue (stream_reset_local_locked r p s) = st_rx_queue s"
  "st_tx_queue (stream_reset_local_locked r p s) = st_tx_queue s"
  "st_active (stream_reset_local_locked r p s) = st_active s"
  "identity_ok (stream_reset_local_locked r p s) = identity_ok s"
  "st_port_open (stream_reset_local_locked r p s) = st_port_open s"
  "st_remote_session (stream_reset_local_locked r p s) = st_remote_session s"
  "st_expected_rx_sequence (stream_reset_local_locked r p s) = st_expected_rx_sequence s"
  "st_acknowledgement_pending (stream_reset_local_locked r p s) = st_acknowledgement_pending s"
  "st_acknowledgement_session (stream_reset_local_locked r p s) = st_acknowledgement_session s"
  "st_acknowledgement_sequence (stream_reset_local_locked r p s) = st_acknowledgement_sequence s"
  "st_close_pending (stream_reset_local_locked r p s) = st_close_pending s"
  "st_close_session (stream_reset_local_locked r p s) = st_close_session s"
  "st_data_mtu (stream_reset_local_locked r p s) = st_data_mtu s"
  "st_had_remote_session (stream_reset_local_locked r p s) = st_had_remote_session s"
  "st_local_session (stream_reset_local_locked r p s) = stream_new_session r"
  by (simp_all add: stream_reset_local_locked_def identity_ok_def case_prod_unfold Let_def)

lemma new_session_nonzero [simp]: "stream_new_session r \<noteq> 0"
  by (simp add: stream_new_session_def)

lemma set_counters_fields [simp]:
  "st_rx_queue (set_counters f s) = st_rx_queue s" "st_tx_queue (set_counters f s) = st_tx_queue s"
  "st_active (set_counters f s) = st_active s" "identity_ok (set_counters f s) = identity_ok s"
  "window_ok (set_counters f s) = window_ok s" "session_ok (set_counters f s) = session_ok s"
  "st_tx_window (set_counters f s) = st_tx_window s" "st_data_mtu (set_counters f s) = st_data_mtu s"
  "st_port (set_counters f s) = st_port s" "st_link (set_counters f s) = st_link s"
  "st_peer_id (set_counters f s) = st_peer_id s"
  by (simp_all add: set_counters_def identity_ok_def window_ok_def session_ok_def)

lemma window_cong:
  assumes "st_tx_window s' = st_tx_window s" and "st_next_tx_sequence s' = st_next_tx_sequence s"
    and "st_data_mtu s' = st_data_mtu s"
  shows "window_ok s' = window_ok s"
  using assms by (simp add: window_ok_def)

lemma identity_cong:
  assumes "st_peer_id s' = st_peer_id s" and "st_data_mtu s' = st_data_mtu s"
    and "st_port s' = st_port s" and "st_link s' = st_link s"
  shows "identity_ok s' = identity_ok s"
  using assms by (simp add: identity_ok_def)

lemma numbered_nonempty: "f \<noteq> 0 \<Longrightarrow> numbered f [] f"
  by simp

lemma empty_window: "window_ok s \<Longrightarrow> st_tx_window s' = [] \<Longrightarrow> st_next_tx_sequence s' = st_next_tx_sequence s
    \<Longrightarrow> window_ok s'"
  by (simp add: window_ok_def)

context byte_queue
begin

lemma queue_ok_reset: "queue_ok contents depth q \<Longrightarrow> queue_ok contents depth (map_option (qa_reset adm) q)"
  by (auto simp: queue_ok_def reset_contents reset_depth)

lemma ok_reset_queues:
  "stream_ok contents depth s \<Longrightarrow> stream_ok contents depth (stream_reset_queues_locked adm s)"
  by (auto simp: stream_reset_queues_locked_def stream_ok_def queue_ok_reset identity_ok_def
      window_ok_def session_ok_def)

lemma ok_read:
  assumes "stream_ok contents depth s" and "st_rx_queue s = Some q" and "receive_upto ops n q = (bs, q')"
  shows "stream_ok contents depth (s\<lparr>st_rx_queue := Some q'\<rparr>)"
  using assms(1,2) receive_upto_spec [OF assms(3)]
  by (auto simp: stream_ok_defs queue_ok_def)

lemma ok_write:
  assumes "stream_ok contents depth s" and "st_tx_queue s = Some q" and "st_active s"
    and "write_bytes ops expired 0 bs q = (err, n, q')"
  shows "stream_ok contents depth (s\<lparr>st_tx_queue := Some q'\<rparr>)"
proof -
  have "length (contents q) \<le> depth q" using assms(1-3) by (auto simp: stream_ok_def queue_ok_def)
  from write_bytes_spec [OF assms(4) this] assms(1-3) show ?thesis
    by (auto simp: stream_ok_defs queue_ok_def)
qed

lemma ok_apply_acknowledgement:
  assumes "stream_ok contents depth s"
  shows "stream_ok contents depth (stream_apply_acknowledgement_locked s a b)"
proof (cases "a \<noteq> st_local_session s \<or> st_tx_window s = []")
  case False
  show ?thesis
  proof (cases "first_index (\<lambda>slot. ts_sequence slot = b) (st_tx_window s)")
    case (Some i)
    have "window_ok (s\<lparr>st_tx_window := drop (i + 1) (st_tx_window s)\<rparr>)" if "window_ok s"
      using that numbered_drop [of _ "st_tx_window s" "st_next_tx_sequence s" "i + 1"]
      by (auto simp: window_ok_def dest: in_set_dropD)
    with assms have "stream_ok contents depth (s\<lparr>st_tx_window := drop (i + 1) (st_tx_window s)\<rparr>)"
      by (auto simp: stream_ok_def identity_ok_def session_ok_def)
    with False Some show ?thesis by (simp add: stream_apply_acknowledgement_locked_def Let_def)
  qed (use False assms in \<open>simp add: stream_apply_acknowledgement_locked_def\<close>)
qed (use assms in \<open>simp add: stream_apply_acknowledgement_locked_def\<close>)

lemma ok_ingest_close: "stream_ok contents depth s \<Longrightarrow> stream_ok contents depth (ingest_close adm s)"
  by (auto simp: ingest_close_def stream_ok_def queue_ok_reset identity_ok_def window_ok_def session_ok_def)

lemma ok_transport_reset: "stream_ok contents depth s \<Longrightarrow> stream_ok contents depth (stream_transport_reset s)"
proof -
  have "window_ok (stream_transport_reset s)" if "window_ok s"
    by (rule window_same [OF that]) (simp_all add: stream_transport_reset_def note_error_def set_counters_def o_def)
  then show "stream_ok contents depth s \<Longrightarrow> stream_ok contents depth (stream_transport_reset s)"
    by (auto simp: stream_transport_reset_def note_error_def set_counters_def stream_ok_def identity_ok_def
        session_ok_def)
qed

lemma ok_ingest_open:
  assumes "stream_ok contents depth s" and "session \<noteq> 0" and "st_port_open s"
  shows "stream_ok contents depth (ingest_open adm r session s)"
proof (cases "st_remote_session s = session")
  case False
  define s1 where "s1 = s\<lparr>st_remote_session := session, st_expected_rx_sequence := 1, st_received_any := False,
      st_acknowledgement_pending := False, st_acknowledgement_due_ms := 0,
      st_rx_queue := map_option (qa_reset adm) (st_rx_queue s)\<rparr>"
  have ok1: "stream_ok contents depth s1" "st_port_open s1"
    using assms by (auto simp: s1_def stream_ok_def queue_ok_reset identity_ok_def window_ok_def session_ok_def)
  define s2 where "s2 = (if st_remote_session s \<noteq> 0 \<or> st_had_remote_session s1
      then stream_reset_local_locked r True s1 else s1)"
  have ok2: "stream_ok contents depth s2"
    using ok1 reset_local_window [of s1 r True] by (auto simp: s2_def stream_ok_def session_ok_def)
  have ok3: "stream_ok contents depth (s2\<lparr>st_next_open_ms := 0\<rparr>)"
    using ok2 by (auto simp: stream_ok_def identity_ok_def window_ok_def session_ok_def)
  have had: "stream_ok contents depth (x\<lparr>st_had_remote_session := b\<rparr>) = stream_ok contents depth x" for x b
    by (simp add: stream_ok_def identity_ok_def window_ok_def session_ok_def)
  show ?thesis
    unfolding ingest_open_def Let_def s1_def [symmetric] s2_def [symmetric]
    using False ok2 ok3 by (simp add: had)
qed (use assms in \<open>simp add: ingest_open_def\<close>)

end

lemma port_open_ingest_open: "st_port_open (ingest_open adm r session s) = st_port_open s"
  by (simp add: ingest_open_def Let_def set_counters_def)

lemma remote_session_ingest_open: "st_remote_session (ingest_open adm r session s) = session"
  by (simp add: ingest_open_def Let_def set_counters_def)

lemma apply_acknowledgement_fields [simp]:
  "st_active (stream_apply_acknowledgement_locked s a b) = st_active s"
  "st_port_open (stream_apply_acknowledgement_locked s a b) = st_port_open s"
  "st_port (stream_apply_acknowledgement_locked s a b) = st_port s"
  "st_link (stream_apply_acknowledgement_locked s a b) = st_link s"
  "st_peer_id (stream_apply_acknowledgement_locked s a b) = st_peer_id s"
  "st_remote_session (stream_apply_acknowledgement_locked s a b) = st_remote_session s"
  "st_expected_rx_sequence (stream_apply_acknowledgement_locked s a b) = st_expected_rx_sequence s"
  "st_rx_queue (stream_apply_acknowledgement_locked s a b) = st_rx_queue s"
  "st_data_mtu (stream_apply_acknowledgement_locked s a b) = st_data_mtu s"
  "st_received_any (stream_apply_acknowledgement_locked s a b) = st_received_any s"
  by (simp_all add: stream_apply_acknowledgement_locked_def set_counters_def Let_def split: option.splits)

text \<open>The fields that name a stream and its port are only changed by creating and removing it.\<close>

definition stream_id :: "'q link_stream \<Rightarrow> bool \<times> string \<times> string \<times> u32" where
  "stream_id s = (st_active s, st_port s, st_link s, st_peer_id s)"

lemma stream_id_kept [simp]:
  "stream_id (set_counters f s) = stream_id s" "stream_id (note_error err s) = stream_id s"
  "stream_id (note_drop s) = stream_id s" "stream_id (stream_reset_local_locked r p s) = stream_id s"
  "stream_id (stream_apply_acknowledgement_locked s a b) = stream_id s"
  "stream_id (ingest_open adm r session s) = stream_id s" "stream_id (ingest_close adm s) = stream_id s"
  "stream_id (stream_reset_queues_locked adm s) = stream_id s"
  "stream_id (stream_transport_reset s) = stream_id s"
  by (simp_all add: stream_id_def note_error_def note_drop_def ingest_open_def ingest_close_def Let_def
      stream_reset_queues_locked_def stream_transport_reset_def set_counters_def
      stream_reset_local_locked_def case_prod_unfold)

context byte_queue
begin

lemma ok_schedule_ack:
  assumes "stream_ok contents depth s" and "session \<noteq> 0" and "session = st_remote_session s"
  shows "stream_ok contents depth (ingest_schedule_ack session now_ms s)"
  using assms by (auto simp: ingest_schedule_ack_def stream_ok_def identity_ok_def window_ok_def session_ok_def)

lemma ok_accept:
  assumes "stream_ok contents depth s" and "st_rx_queue s = Some q" and "length data \<le> qa_spaces adm q"
    and "st_active s" and "session \<noteq> 0" and "session = st_remote_session s"
  shows "stream_ok contents depth (ingest_schedule_ack session now_ms (ingest_accept ops data s))"
proof -
  have "length (contents q) + length data \<le> depth q"
    using assms by (auto simp: spaces stream_ok_def queue_ok_def)
  note room = this and spec = send_bytes_spec [OF this]
  show ?thesis
    using assms spec room
    by (auto simp: ingest_schedule_ack_def ingest_accept_def set_counters_def stream_ok_def identity_ok_def
        window_ok_def session_ok_def queue_ok_def)
qed

lemma ok_ingest_data:
  assumes ok: "stream_ok contents depth s" "st_active s" and d: "session \<noteq> 0" "session = st_remote_session s"
    and r: "ingest_data ops adm session seq data now_ms s = (err, s')"
  shows "stream_ok contents depth s'"
proof -
  obtain q where q: "st_rx_queue s = Some q" using ok by (auto simp: stream_ok_def queue_ok_def)
  have drop: "st_remote_session (note_drop s) = st_remote_session s" by (simp add: note_drop_def set_counters_def)
  show ?thesis
    using r ok q ok_accept [OF ok(1) q _ ok(2) d] ok_schedule_ack [OF ok(1) d]
      ok_schedule_ack [of "note_drop s" session] d drop
    by (auto simp: ingest_data_def not_less split: if_splits)
qed

lemma ok_ingest_locked:
  assumes ok: "stream_ok contents depth s" "st_active s" "st_port_open s" and d: "de_session d \<noteq> 0"
    and r: "stream_ingest_locked ops adm rv d now_ms s = (err, s')"
  shows "stream_ok contents depth s'"
proof (cases "de_opcode d \<noteq> OPCODE_OPEN \<and> de_session d \<noteq> st_remote_session s")
  case True
  then show ?thesis
    using r ok by (auto simp: stream_ingest_locked_def Let_def note_error_def set_counters_def note_drop_def
        stream_ok_defs)
next
  case False
  define s0 where "s0 = note_error ESP_OK s"
  define s1 where "s1 = (if de_opcode d = OPCODE_OPEN then ingest_open adm rv (de_session d) s0 else s0)"
  define s2 where "s2 = stream_apply_acknowledgement_locked (s1\<lparr>st_remote_last_seen_ms := now_ms\<rparr>)
      (de_acknowledgement_session d) (de_acknowledgement_sequence d)"
  have rs0: "st_remote_session s0 = st_remote_session s" "st_port_open s0 = st_port_open s"
    "st_active s0 = st_active s" by (simp_all add: s0_def note_error_def set_counters_def)
  have ok1: "stream_ok contents depth s1"
    using ok d rs0 ok_ingest_open [of s0] by (auto simp: s1_def s0_def)
  have act1: "st_active s1" using ok rs0 stream_id_kept(6) [of adm rv "de_session d" s0]
    by (auto simp: s1_def stream_id_def)
  have seen: "stream_ok contents depth (s1\<lparr>st_remote_last_seen_ms := now_ms\<rparr>)"
    using ok1 by (auto simp: stream_ok_def identity_ok_def window_ok_def session_ok_def)
  note ok2 = ok_apply_acknowledgement [OF seen, of "de_acknowledgement_session d" "de_acknowledgement_sequence d",
      folded s2_def]
  have r2: "st_remote_session s2 = de_session d"
    using False rs0 by (auto simp: s2_def s1_def remote_session_ingest_open)
  have act2: "st_active s2" using act1 by (simp add: s2_def)
  have "(case de_opcode d of OPCODE_OPEN \<Rightarrow> (ESP_OK, s2)
       | OPCODE_DATA \<Rightarrow> ingest_data ops adm (de_session d) (de_sequence d) (de_data d) now_ms s2
       | OPCODE_ACK \<Rightarrow> (ESP_OK, s2) | OPCODE_CLOSE \<Rightarrow> (ESP_OK, ingest_close adm s2)
       | OPCODE_OTHER _ \<Rightarrow> (ESP_ERR_INVALID_ARG, s2)) = (err, s')"
    using r False rs0 unfolding stream_ingest_locked_def Let_def s2_def s1_def s0_def by auto
  then show ?thesis
    using ok2 ok_ingest_close [OF ok2] ok_ingest_data [OF ok2 act2 d r2 [symmetric]]
    by (cases "de_opcode d") auto
qed

end

text \<open>An action that is carried on to the next stream of the loop.\<close>

definition action_clean :: "stream_action \<Rightarrow> bool" where
  "action_clean a \<longleftrightarrow>
     sa_sequence a = 0 \<and> sa_data a = []
     \<and> (sa_acknowledgement_session a = 0 \<longleftrightarrow> sa_acknowledgement_sequence a = 0)"

lemma find_unsent_pick:
  "stream_pick_slot now_ms s = (r, s') \<Longrightarrow>
     map ts_sequence (st_tx_window s') = map ts_sequence (st_tx_window s)
     \<and> map ts_data (st_tx_window s') = map ts_data (st_tx_window s)
     \<and> s' = s\<lparr>st_tx_window := st_tx_window s'\<rparr>
     \<and> (\<forall>slot. r = Some slot \<longrightarrow> (\<exists>t \<in> set (st_tx_window s). ts_sequence slot = ts_sequence t \<and> ts_data slot = ts_data t))"
  by (auto simp: stream_pick_slot_def find_Some_iff o_def split: option.splits list.splits if_splits)

lemma numbered_nonzero: "numbered f w n \<Longrightarrow> slot \<in> set w \<Longrightarrow> ts_sequence slot \<noteq> 0"
  by (induction w arbitrary: f) auto

lemma expire_peer_fields [simp]:
  "st_active (stream_expire_peer now_ms s) = st_active s"
  "st_port_open (stream_expire_peer now_ms s) = st_port_open s"
  "stream_id (stream_expire_peer now_ms s) = stream_id s"
  by (simp_all add: stream_expire_peer_def set_counters_def stream_id_def)

lemma action_fields_ok:
  assumes "action_clean a" and "identity_ok s" and "session_ok s"
  shows "action_clean (stream_action_fields s a)" and "sa_valid (stream_action_fields s a)"
    and "sa_peer_id (stream_action_fields s a) = st_peer_id s"
    and "st_acknowledgement_pending s \<Longrightarrow> sa_acknowledgement_session (stream_action_fields s a) \<noteq> 0"
  using assms by (auto simp: stream_action_fields_def action_clean_def session_ok_def Let_def)

lemma fill_slot_ok:
  assumes "fill_slot qo s = (again, s')"
  shows "stream_id s' = stream_id s" and "st_port_open s' = st_port_open s"
    and "st_acknowledgement_pending s' = st_acknowledgement_pending s"
  using assms by (auto simp: fill_slot_def stream_id_def split: option.splits prod.splits list.splits)

context byte_queue
begin

lemma ok_fill_slot:
  assumes ok: "stream_ok contents depth s" "st_active s" "st_port_open s"
    and room: "length (st_tx_window s) < LINK_STREAM_WINDOW_SIZE" and f: "fill_slot ops s = (again, s')"
  shows "stream_ok contents depth s' \<and> length (st_tx_window s') \<le> length (st_tx_window s) + 1"
proof -
  obtain q where q: "st_tx_queue s = Some q" "depth q = LINK_STREAM_QUEUE_BYTES" "length (contents q) \<le> depth q"
    using ok by (auto simp: stream_ok_def queue_ok_def)
  obtain bs q' where r: "receive_upto ops (st_data_mtu s) q = (bs, q')" by fastforce
  note spec = receive_upto_spec [OF r]
  show ?thesis
  proof (cases bs)
    case Nil
    then show ?thesis using f q r ok by (simp add: fill_slot_def)
  next
    case (Cons b cs)
    define slot where "slot = \<lparr>ts_sequence = st_next_tx_sequence s, ts_data = bs, ts_sent = False,
                      ts_ever_sent = False, ts_last_send_ms = 0\<rparr>"
    have s': "s' = s\<lparr>st_tx_queue := Some q',
        st_next_tx_sequence := stream_next_sequence (st_next_tx_sequence s),
        st_tx_window := st_tx_window s @ [slot]\<rparr>"
      using f q r Cons by (simp add: fill_slot_def slot_def)
    have "bs \<noteq> []" using Cons by simp
    moreover have "length bs \<le> st_data_mtu s" using spec by simp
    ultimately have "slot_data_ok (st_data_mtu s) slot" by (simp add: slot_data_ok_def slot_def)
    then have "window_ok s'" using ok room
      by (auto simp: s' window_ok_def stream_ok_def numbered_append slot_def)
    moreover have "queue_ok contents depth (st_tx_queue s')" using spec q by (simp add: s' queue_ok_def)
    ultimately show ?thesis using ok by (auto simp: s' stream_ok_def identity_ok_def session_ok_def)
  qed
qed

lemma ok_fill_window:
  "stream_ok contents depth s \<Longrightarrow> st_active s \<Longrightarrow> st_port_open s
     \<Longrightarrow> length (st_tx_window s) + n \<le> LINK_STREAM_WINDOW_SIZE
     \<Longrightarrow> stream_ok contents depth (fill_window ops n s) \<and> stream_id (fill_window ops n s) = stream_id s
         \<and> st_port_open (fill_window ops n s)
         \<and> st_acknowledgement_pending (fill_window ops n s) = st_acknowledgement_pending s"
proof (induction n arbitrary: s)
  case (Suc n)
  obtain again s' where f: "fill_slot ops s = (again, s')" by fastforce
  note ok = ok_fill_slot [OF Suc.prems(1-3) _ f] and fields = fill_slot_ok [OF f]
  show ?case
  proof (cases again)
    case True
    then have "stream_ok contents depth s' \<and> length (st_tx_window s') + n \<le> LINK_STREAM_WINDOW_SIZE"
      using ok Suc.prems(4) by auto
    moreover have "st_active s'" using fields(1) Suc.prems(2) by (simp add: stream_id_def)
    ultimately show ?thesis using True f fields Suc.prems(3) Suc.IH [of s'] by auto
  qed (use f Suc.prems in simp)
qed simp

lemma ok_expire_peer: "stream_ok contents depth s \<Longrightarrow> stream_ok contents depth (stream_expire_peer now_ms s)"
  by (auto simp: stream_expire_peer_def set_counters_def stream_ok_def identity_ok_def window_ok_def session_ok_def)

lemma ok_pick_slot:
  assumes ok: "stream_ok contents depth s" and p: "stream_pick_slot now_ms s = (r, s')"
  shows "stream_ok contents depth s'" and "st_active s' = st_active s" and "st_port_open s' = st_port_open s"
    and "stream_id s' = stream_id s" and "st_acknowledgement_pending s' = st_acknowledgement_pending s"
    and "st_local_session s' = st_local_session s"
    and "\<And>slot. r = Some slot \<Longrightarrow> st_active s \<Longrightarrow>
           ts_sequence slot \<noteq> 0 \<and> ts_data slot \<noteq> [] \<and> length (ts_data slot) \<le> st_data_mtu s"
proof -
  note f = find_unsent_pick [OF p]
  obtain w where w: "s' = s\<lparr>st_tx_window := w\<rparr>" "map ts_sequence w = map ts_sequence (st_tx_window s)"
    "map ts_data w = map ts_data (st_tx_window s)" using f by metis
  have "window_ok s'" if "window_ok s"
    by (rule window_same [OF that]) (simp_all add: w)
  moreover have "w = []" if "st_tx_window s = []" using w(2) that by simp
  ultimately show "stream_ok contents depth s'"
    using ok by (auto simp: w(1) stream_ok_def identity_ok_def session_ok_def)
  show "st_active s' = st_active s" "st_port_open s' = st_port_open s" "stream_id s' = stream_id s"
    "st_acknowledgement_pending s' = st_acknowledgement_pending s" "st_local_session s' = st_local_session s"
    by (simp_all add: w(1) stream_id_def)
  fix slot assume "r = Some slot" and a: "st_active s"
  then obtain t where t: "t \<in> set (st_tx_window s)" "ts_sequence slot = ts_sequence t" "ts_data slot = ts_data t"
    using f by blast
  from ok a t show "ts_sequence slot \<noteq> 0 \<and> ts_data slot \<noteq> [] \<and> length (ts_data slot) \<le> st_data_mtu s"
    by (auto simp: stream_ok_def window_ok_def slot_data_ok_def dest: numbered_nonzero)
qed

end

context byte_queue
begin

lemma ok_prepare:
  assumes ok: "stream_ok contents depth s" "st_active s" and c: "action_clean a"
    and p: "stream_prepare_action_locked ops s now_ms a = (s', a')"
  shows "stream_ok contents depth s' \<and> stream_id s' = stream_id s
    \<and> (if sa_valid a' then action_ok a' else action_clean a')"
proof -
  define s1 where "s1 = stream_expire_peer now_ms s"
  define b where "b = stream_action_fields s1 a"
  have ok1: "stream_ok contents depth s1" "st_active s1" "stream_id s1 = stream_id s"
    using ok ok_expire_peer by (simp_all add: s1_def)
  then have parts: "identity_ok s1" "session_ok s1" by (simp_all add: stream_ok_def)
  note b = action_fields_ok [OF c parts, folded b_def]
  have peer: "st_peer_id s1 \<noteq> 0" "st_peer_id s1 \<noteq> LINK_BROADCAST" using parts(1) by (simp_all add: identity_ok_def)
  have control: "action_ok (b\<lparr>sa_opcode := code, sa_session := sess\<rparr>)"
    if "code \<in> {OPCODE_OPEN, OPCODE_CLOSE, OPCODE_ACK}" "sess \<noteq> 0"
      "code = OPCODE_ACK \<Longrightarrow> st_acknowledgement_pending s1" for code sess
    using b peer that by (auto simp: action_ok_def frame_ok_def action_clean_def)
  have invalid: "action_clean (b\<lparr>sa_valid := False\<rparr>)" using b(1) by (simp add: action_clean_def)
  have sess: "st_port_open s1 \<Longrightarrow> st_local_session s1 \<noteq> 0" "st_close_pending s1 \<Longrightarrow> st_close_session s1 \<noteq> 0"
    using parts(2) by (simp_all add: session_ok_def)
  note unfolded = p [unfolded stream_prepare_action_locked_def Let_def, folded s1_def, folded b_def]
  consider (early) "st_close_pending s1 \<or> \<not> st_port_open s1 \<or> ms_reached now_ms (st_next_open_ms s1)
        \<or> \<not> stream_connected_locked s1 now_ms"
    | (data) "\<not> st_close_pending s1" "st_port_open s1" "\<not> ms_reached now_ms (st_next_open_ms s1)"
        "stream_connected_locked s1 now_ms" by blast
  then show ?thesis
  proof cases
    case early
    then show ?thesis using unfolded ok1 control sess invalid b(2) by (auto split: if_splits)
  next
    case data
    define n where "n = LINK_STREAM_WINDOW_SIZE - length (st_tx_window s1)"
    define s2 where "s2 = fill_window ops n s1"
    have "length (st_tx_window s1) + n \<le> LINK_STREAM_WINDOW_SIZE"
      using ok1 by (auto simp: n_def stream_ok_def window_ok_def)
    from ok_fill_window [OF ok1(1,2) data(2) this]
    have ok2: "stream_ok contents depth s2" "stream_id s2 = stream_id s1" "st_port_open s2"
      "st_acknowledgement_pending s2 = st_acknowledgement_pending s1" by (simp_all add: s2_def)
    then have act2: "st_active s2" using ok1 by (simp add: stream_id_def)
    obtain r s3 where pick: "stream_pick_slot now_ms s2 = (r, s3)" by fastforce
    note k = ok_pick_slot [OF ok2(1) pick]
    have id3: "stream_id s3 = stream_id s" using k(4) ok2(2) ok1(3) by simp
    have sess3: "st_local_session s3 \<noteq> 0"
      using k(1-3) ok2 act2 by (simp add: stream_ok_def session_ok_def)
    have pend: "st_acknowledgement_pending s3 = st_acknowledgement_pending s1" using k(5) ok2(4) by simp
    have mtu: "st_data_mtu s2 \<le> LINK_PAYLOAD_MAX - LINK_STREAM_HEADER_SIZE"
      using ok2(1) act2 by (simp add: stream_ok_def identity_ok_def)
    have res: "(case r of
          None \<Rightarrow> (if st_acknowledgement_pending s3 \<and> ms_reached now_ms (st_acknowledgement_due_ms s3)
                    then (s3, b\<lparr>sa_opcode := OPCODE_ACK, sa_session := st_local_session s3\<rparr>)
                    else (s3, b\<lparr>sa_valid := False\<rparr>))
        | Some slot \<Rightarrow> (s3, b\<lparr>sa_opcode := OPCODE_DATA, sa_session := st_local_session s3,
                          sa_sequence := ts_sequence slot, sa_data := ts_data slot\<rparr>)) = (s', a')"
      using unfolded data pick by (simp add: s2_def n_def)
    show ?thesis
    proof (cases r)
      case None
      then show ?thesis using res k(1) id3 control [of OPCODE_ACK] sess3 pend invalid b(2)
        by (auto split: if_splits)
    next
      case (Some slot)
      note slot = k(7) [OF Some act2]
      have "action_ok (b\<lparr>sa_opcode := OPCODE_DATA, sa_session := st_local_session s3,
          sa_sequence := ts_sequence slot, sa_data := ts_data slot\<rparr>)"
        using b peer slot sess3 mtu by (auto simp: action_ok_def frame_ok_def action_clean_def)
      then show ?thesis using res Some k(1) id3 b(2) by auto
    qed
  qed
qed

lemma ok_prepare_loop:
  "stream_prepare_loop ops link now_ms ss a = (ss', a') \<Longrightarrow> \<forall>s \<in> set ss. stream_ok contents depth s
     \<Longrightarrow> action_clean a
     \<Longrightarrow> (\<forall>s \<in> set ss'. stream_ok contents depth s) \<and> map stream_id ss' = map stream_id ss
         \<and> (sa_valid a' \<longrightarrow> sa_valid a \<or> action_ok a')"
proof (induction ss arbitrary: a ss')
  case (Cons s ss)
  show ?case
  proof (cases "st_active s \<and> st_link s = link")
    case False
    then obtain tt where "stream_prepare_loop ops link now_ms ss a = (tt, a')" "ss' = s # tt"
      using Cons.prems(1) by (auto split: prod.splits)
    then show ?thesis using Cons.IH [of a tt] Cons.prems by auto
  next
    case True
    obtain s1 a1 where p: "stream_prepare_action_locked ops s now_ms a = (s1, a1)" by fastforce
    have ok: "stream_ok contents depth s1 \<and> stream_id s1 = stream_id s
        \<and> (if sa_valid a1 then action_ok a1 else action_clean a1)"
      using ok_prepare [OF _ _ Cons.prems(3) p] Cons.prems(2) True by simp
    show ?thesis
    proof (cases "sa_valid a1")
      case True
      then show ?thesis using Cons.prems p ok \<open>st_active s \<and> st_link s = link\<close> by auto
    next
      case False
      then obtain tt where "stream_prepare_loop ops link now_ms ss a1 = (tt, a')" "ss' = s1 # tt"
        using Cons.prems(1) p True by (auto split: prod.splits)
      then show ?thesis using Cons.IH [of a1 tt] Cons.prems(2) ok False by auto
    qed
  qed
qed simp

end

lemma mark_sent_window:
  "map ts_sequence (st_tx_window (stream_mark_sent q now_ms s)) = map ts_sequence (st_tx_window s)"
  "map ts_data (st_tx_window (stream_mark_sent q now_ms s)) = map ts_data (st_tx_window s)"
  by (simp_all add: stream_mark_sent_def set_counters_def Let_def map_update_same split: option.splits)

lemma commit_fields:
  "stream_id (stream_commit_action a err now_ms s) = stream_id s"
  by (simp add: stream_commit_action_def stream_commit_acknowledgement_def stream_mark_sent_def
      note_error_def set_counters_def stream_id_def Let_def split: stream_opcode.splits option.splits)

context byte_queue
begin

lemma ok_mark_sent:
  assumes "stream_ok contents depth s"
  shows "stream_ok contents depth (stream_mark_sent q now_ms s)"
proof -
  have "window_ok (stream_mark_sent q now_ms s)" if "window_ok s"
    by (rule window_same [OF that mark_sent_window])
       (simp_all add: stream_mark_sent_def set_counters_def Let_def split: option.splits)
  moreover have "st_tx_window (stream_mark_sent q now_ms s) = []" if "st_tx_window s = []"
    using that by (simp add: stream_mark_sent_def)
  ultimately show ?thesis
    using assms by (auto simp: stream_mark_sent_def set_counters_def Let_def stream_ok_def identity_ok_def
        session_ok_def split: option.splits)
qed

lemma ok_commit:
  assumes "stream_ok contents depth s"
  shows "stream_ok contents depth (stream_commit_action a err now_ms s)"
proof -
  define s0 where "s0 = note_error err s"
  define s1 where "s1 = stream_commit_acknowledgement a s0"
  have ok0: "stream_ok contents depth s0" using assms by (simp add: s0_def)
  then have ok1: "stream_ok contents depth s1"
    by (auto simp: s1_def stream_commit_acknowledgement_def set_counters_def stream_ok_def identity_ok_def
        window_ok_def session_ok_def)
  have close: "stream_ok contents depth (s1\<lparr>st_close_pending := False\<rparr>)"
    and opened: "stream_ok contents depth (s1\<lparr>st_next_open_ms := t\<rparr>)" for t
    using ok1 by (auto simp: stream_ok_def identity_ok_def window_ok_def session_ok_def)
  show ?thesis
    using ok0 ok1 close opened ok_mark_sent [OF ok1]
    unfolding stream_commit_action_def Let_def s0_def [symmetric] s1_def [symmetric]
    by (simp split: stream_opcode.splits)
qed

lemma ok_port_opened:
  assumes "stream_ok contents depth s"
  shows "stream_ok contents depth (set_counters f (stream_reset_local_locked r False
      ((stream_reset_queues_locked adm s)\<lparr>st_port_open := True, st_remote_session := 0,
          st_had_remote_session := False, st_remote_last_seen_ms := 0, st_expected_rx_sequence := 1,
          st_received_any := False, st_acknowledgement_pending := False, st_acknowledgement_due_ms := 0,
          st_close_pending := False\<rparr>)))"
proof -
  define s1 where "s1 = (stream_reset_queues_locked adm s)\<lparr>st_port_open := True, st_remote_session := 0,
          st_had_remote_session := False, st_remote_last_seen_ms := 0, st_expected_rx_sequence := 1,
          st_received_any := False, st_acknowledgement_pending := False, st_acknowledgement_due_ms := 0,
          st_close_pending := False\<rparr>"
  have "st_active s1 \<longrightarrow> identity_ok s1 \<and> window_ok s1 \<and> queue_ok contents depth (st_rx_queue s1)
      \<and> queue_ok contents depth (st_tx_queue s1)"
    using ok_reset_queues [OF assms] by (auto simp: s1_def stream_ok_def identity_ok_def window_ok_def)
  moreover have "st_port_open s1" "st_expected_rx_sequence s1 = 1" "\<not> st_acknowledgement_pending s1"
    "\<not> st_close_pending s1" by (simp_all add: s1_def)
  ultimately show ?thesis
    unfolding s1_def [symmetric] ok_counters
    using reset_local_window [of s1 r False] by (auto simp: stream_ok_def session_ok_def)
qed

lemma ok_port_closed:
  assumes "stream_ok contents depth s" and "st_port_open s"
  shows "stream_ok contents depth (stream_reset_queues_locked adm
           (s\<lparr>st_close_pending := st_local_session s \<noteq> 0, st_close_session := st_local_session s,
              st_port_open := False, st_remote_session := 0, st_acknowledgement_pending := False,
              st_acknowledgement_due_ms := 0, st_tx_window := []\<rparr>))"
proof (rule ok_reset_queues)
  show "stream_ok contents depth (s\<lparr>st_close_pending := st_local_session s \<noteq> 0,
      st_close_session := st_local_session s, st_port_open := False, st_remote_session := 0,
      st_acknowledgement_pending := False, st_acknowledgement_due_ms := 0, st_tx_window := []\<rparr>)"
    using assms by (auto simp: stream_ok_def identity_ok_def window_ok_def session_ok_def)
qed

end

section \<open>The stream service\<close>

text \<open>
  A configuration is the service and the actions of the tasks that are between the two critical
  sections of \<open>solar_os_link_stream_process\<close>. A port driver call names one of the service's streams.
\<close>

inductive stream_step ::
  "('q, u8) queue_ops \<Rightarrow> 'q queue_admin \<Rightarrow> ('m, link_message) queue_ops \<Rightarrow> ('f, link_frame) queue_ops
   \<Rightarrow> 'q stream_service \<times> stream_action list \<Rightarrow> 'q stream_service \<times> stream_action list \<Rightarrow> bool"
  for qo :: "('q, u8) queue_ops" and qa :: "'q queue_admin"
    and rxo :: "('m, link_message) queue_ops" and txo :: "('f, link_frame) queue_ops" where
  ss_init: "stream_ensure_init mutex_ok sv = (err, sv') \<Longrightarrow> stream_step qo qa rxo txo (sv, acts) (sv', acts)"
| ss_create: "link_reachable rxo txo (ls, ts, ds)
    \<Longrightarrow> solar_os_link_stream_create_configured qo rxo txo ok lok rx_ok tx_ok reg sv ls link port peer config
          = (err, sv', ls')
    \<Longrightarrow> stream_step qo qa rxo txo (sv, acts) (sv', acts)"
| ss_remove: "solar_os_link_stream_remove ok unreg sv port = (err, sv')
    \<Longrightarrow> stream_step qo qa rxo txo (sv, acts) (sv', acts)"
| ss_open: "i < LINK_STREAM_MAX \<Longrightarrow> stream_port_open qa ok rv sv (Some i) = (err, sv')
    \<Longrightarrow> stream_step qo qa rxo txo (sv, acts) (sv', acts)"
| ss_close: "i < LINK_STREAM_MAX \<Longrightarrow> stream_port_close qa ok sv (Some i) = (err, sv')
    \<Longrightarrow> stream_step qo qa rxo txo (sv, acts) (sv', acts)"
| ss_read: "i < LINK_STREAM_MAX \<Longrightarrow> stream_port_read qo sv (Some i) given n = (err, sv', bs)
    \<Longrightarrow> stream_step qo qa rxo txo (sv, acts) (sv', acts)"
| ss_write: "i < LINK_STREAM_MAX \<Longrightarrow> stream_port_write qo expired sv (Some i) data n = (err, sv', written)
    \<Longrightarrow> stream_step qo qa rxo txo (sv, acts) (sv', acts)"
| ss_ingest: "solar_os_link_stream_ingest qo qa ok rv sv link message now_ms = (err, sv')
    \<Longrightarrow> stream_step qo qa rxo txo (sv, acts) (sv', acts)"
| ss_prepare: "stream_prepare_loop qo link now_ms (sv_streams sv) stream_action_zero = (ss, a)
    \<Longrightarrow> stream_step qo qa rxo txo (sv, acts)
          (sv\<lparr>sv_streams := ss\<rparr>, if sa_valid a then a # acts else acts)"
| ss_commit: "k < length acts
    \<Longrightarrow> stream_step qo qa rxo txo (sv, acts) (stream_process_commit sv (acts ! k) err now_ms, remove_nth k acts)"
| ss_stopped: "solar_os_link_stream_transport_stopped ok sv link = sv'
    \<Longrightarrow> stream_step qo qa rxo txo (sv, acts) (sv', acts)"

inductive stream_reachable ::
  "('q, u8) queue_ops \<Rightarrow> 'q queue_admin \<Rightarrow> ('m, link_message) queue_ops \<Rightarrow> ('f, link_frame) queue_ops
   \<Rightarrow> 'q stream_service \<times> stream_action list \<Rightarrow> bool"
  for qo :: "('q, u8) queue_ops" and qa :: "'q queue_admin"
    and rxo :: "('m, link_message) queue_ops" and txo :: "('f, link_frame) queue_ops" where
  sr_boot: "stream_reachable qo qa rxo txo (stream_boot, [])"
| sr_step: "stream_reachable qo qa rxo txo c \<Longrightarrow> stream_step qo qa rxo txo c c'
    \<Longrightarrow> stream_reachable qo qa rxo txo c'"

definition service_ok :: "('q \<Rightarrow> u8 list) \<Rightarrow> ('q \<Rightarrow> nat) \<Rightarrow> 'q stream_service \<Rightarrow> bool" where
  "service_ok contents depth sv \<longleftrightarrow>
     length (sv_streams sv) = LINK_STREAM_MAX \<and> (\<forall>s \<in> set (sv_streams sv). stream_ok contents depth s)
     \<and> unique_used st_active st_port (sv_streams sv)
     \<and> unique_used st_active (\<lambda>s. (st_link s, st_peer_id s)) (sv_streams sv)"

interpretation port_table: keyed_slots st_active st_port link_stream_zero
  by unfold_locales (simp add: link_stream_zero_def)

interpretation peer_table: keyed_slots st_active "\<lambda>s. (st_link s, st_peer_id s)" link_stream_zero
  by unfold_locales (simp add: link_stream_zero_def)

lemma unique_ids:
  fixes ss ss' :: "'q link_stream list"
  assumes "map stream_id ss' = map stream_id ss"
  shows "unique_used st_active st_port ss' = unique_used st_active st_port ss"
    and "unique_used st_active (\<lambda>s. (st_link s, st_peer_id s)) ss'
       = unique_used st_active (\<lambda>s. (st_link s, st_peer_id s)) ss"
proof -
  have len: "length ss' = length ss" using assms by (rule map_eq_imp_length_eq)
  have "stream_id (ss' ! i) = stream_id (ss ! i)" if "i < length ss" for i
    using assms len that by (metis nth_map)
  then have i: "st_active (ss' ! i) = st_active (ss ! i)" "st_port (ss' ! i) = st_port (ss ! i)"
    "st_link (ss' ! i) = st_link (ss ! i)" "st_peer_id (ss' ! i) = st_peer_id (ss ! i)" if "i < length ss" for i
    using that by (auto simp: stream_id_def)
  show "unique_used st_active st_port ss' = unique_used st_active st_port ss"
    by (rule unique_used_cong) (use len i in auto)
  show "unique_used st_active (\<lambda>s. (st_link s, st_peer_id s)) ss'
       = unique_used st_active (\<lambda>s. (st_link s, st_peer_id s)) ss"
    by (rule unique_used_cong) (use len i in auto)
qed

lemma service_ids:
  fixes sv sv' :: "'q stream_service"
  assumes "service_ok contents depth sv" and "map stream_id (sv_streams sv') = map stream_id (sv_streams sv)"
    and "\<And>s. s \<in> set (sv_streams sv') \<Longrightarrow> stream_ok contents depth s"
  shows "service_ok contents depth sv'"
  using assms unique_ids [OF assms(2)] map_eq_imp_length_eq [OF assms(2)] by (simp add: service_ok_def)

lemma service_upd:
  assumes sv: "service_ok contents depth sv" and f: "stream_ok contents depth (f (sv_streams sv ! i))"
    and id: "stream_id (f (sv_streams sv ! i)) = stream_id (sv_streams sv ! i)"
  shows "service_ok contents depth (upd_stream i f sv)"
proof (rule service_ids [OF sv])
  show "map stream_id (sv_streams (upd_stream i f sv)) = map stream_id (sv_streams sv)"
    using id by (simp add: upd_stream_def map_update_same)
  fix s assume "s \<in> set (sv_streams (upd_stream i f sv))"
  then have "s = f (sv_streams sv ! i) \<or> s \<in> set (sv_streams sv)"
    using set_update_subset_insert [of "sv_streams sv" i] by (auto simp: upd_stream_def)
  then show "stream_ok contents depth s" using sv f by (auto simp: service_ok_def)
qed

lemma service_nth:
  "service_ok contents depth sv \<Longrightarrow> i < LINK_STREAM_MAX \<Longrightarrow> stream_ok contents depth (sv_streams sv ! i)"
  by (simp add: service_ok_def)

lemma service_mutex [simp]: "service_ok contents depth (sv\<lparr>sv_mutex := b\<rparr>) = service_ok contents depth sv"
  by (simp add: service_ok_def)

lemma stream_init_ok:
  "stream_ensure_init ok sv = (err, sv') \<Longrightarrow> service_ok contents depth sv \<Longrightarrow> service_ok contents depth sv'"
  by (auto simp: stream_ensure_init_def split: if_splits)

lemma stream_init_err: "stream_ensure_init ok sv = (err, sv') \<Longrightarrow> err = ESP_OK \<or> err = ESP_ERR_NO_MEM"
  by (auto simp: stream_ensure_init_def split: if_splits)

lemma find_port_active:
  assumes "stream_find_port_locked sv p = Some i"
  shows "i < length (sv_streams sv)" "st_active (sv_streams sv ! i)" "st_port (sv_streams sv ! i) = p"
  using first_indexD [OF assms [unfolded stream_find_port_locked_def]] by auto

lemma find_peer_active:
  assumes "stream_find_peer_locked sv l p = Some i"
  shows "i < length (sv_streams sv)" "st_active (sv_streams sv ! i)"
  using first_indexD [OF assms [unfolded stream_find_peer_locked_def]] by auto

context byte_queue
begin

lemma init_then:
  assumes "service_ok contents depth sv" and "stream_ensure_init ok sv = (e, sv1)"
  shows "service_ok contents depth sv1"
  using stream_init_ok [OF assms(2,1)] .

lemma service_open:
  assumes sv: "service_ok contents depth sv" and i: "i < LINK_STREAM_MAX"
    and r: "stream_port_open adm ok rv sv (Some i) = (err, sv')"
  shows "service_ok contents depth sv'"
proof -
  obtain e sv1 where e: "stream_ensure_init ok sv = (e, sv1)" by fastforce
  note sv1 = init_then [OF sv e]
  have "service_ok contents depth (upd_stream i (\<lambda>s. set_counters (\<lambda>c. c\<lparr>ss_last_error := ESP_OK\<rparr>)
      (stream_reset_local_locked rv False
         ((stream_reset_queues_locked adm s)\<lparr>st_port_open := True, st_remote_session := 0,
            st_had_remote_session := False, st_remote_last_seen_ms := 0,
            st_expected_rx_sequence := 1, st_received_any := False,
            st_acknowledgement_pending := False, st_acknowledgement_due_ms := 0,
            st_close_pending := False\<rparr>))) sv1)"
    by (rule service_upd [OF sv1], rule ok_port_opened [OF service_nth [OF sv1 i]])
       (simp add: stream_id_def stream_reset_queues_locked_def stream_reset_local_locked_def set_counters_def
         case_prod_unfold Let_def)
  then show ?thesis using r e sv1
    by (auto simp: stream_port_open_def Let_def split: if_splits esp_err.splits)
qed

lemma service_close:
  assumes sv: "service_ok contents depth sv" and i: "i < LINK_STREAM_MAX"
    and r: "stream_port_close adm ok sv (Some i) = (err, sv')"
  shows "service_ok contents depth sv'"
proof -
  obtain e sv1 where e: "stream_ensure_init ok sv = (e, sv1)" by fastforce
  note sv1 = init_then [OF sv e]
  have "service_ok contents depth (upd_stream i (\<lambda>s. stream_reset_queues_locked adm
      (s\<lparr>st_close_pending := st_local_session s \<noteq> 0, st_close_session := st_local_session s,
         st_port_open := False, st_remote_session := 0, st_acknowledgement_pending := False,
         st_acknowledgement_due_ms := 0, st_tx_window := []\<rparr>)) sv1)" if "st_port_open (sv_streams sv1 ! i)"
    by (rule service_upd [OF sv1], rule ok_port_closed [OF service_nth [OF sv1 i] that])
       (simp add: stream_id_def stream_reset_queues_locked_def)
  then show ?thesis using r e sv1
    by (auto simp: stream_port_close_def Let_def split: if_splits esp_err.splits)
qed

lemma service_read:
  assumes sv: "service_ok contents depth sv" and i: "i < LINK_STREAM_MAX"
    and r: "stream_port_read ops sv (Some i) given n = (err, sv', bs)"
  shows "service_ok contents depth sv'"
proof (cases "st_rx_queue (sv_streams sv ! i)")
  case None
  then show ?thesis using r sv by (auto simp: stream_port_read_def Let_def split: if_splits)
next
  case (Some q)
  obtain cs q' where c: "receive_upto ops n q = (cs, q')" by fastforce
  have "service_ok contents depth (upd_stream i (\<lambda>s. s\<lparr>st_rx_queue := Some q'\<rparr>) sv)"
    by (rule service_upd [OF sv], rule ok_read [OF service_nth [OF sv i] Some c]) (simp add: stream_id_def)
  then show ?thesis using r sv c Some
    by (auto simp: stream_port_read_def Let_def split: if_splits list.splits)
qed

lemma service_write:
  assumes sv: "service_ok contents depth sv" and i: "i < LINK_STREAM_MAX"
    and r: "stream_port_write ops expired sv (Some i) data n = (err, sv', written)"
  shows "service_ok contents depth sv'"
proof (cases "st_active (sv_streams sv ! i) \<and> st_tx_queue (sv_streams sv ! i) \<noteq> None")
  case False
  then show ?thesis using r sv by (auto simp: stream_port_write_def Let_def split: if_splits)
next
  case True
  then obtain q where q: "st_tx_queue (sv_streams sv ! i) = Some q" by blast
  obtain e m q' where w: "write_bytes ops expired 0 (take n (the data)) q = (e, m, q')" by (metis prod_cases3)
  have "service_ok contents depth (upd_stream i (\<lambda>s. s\<lparr>st_tx_queue := Some q'\<rparr>) sv)"
    by (rule service_upd [OF sv], rule ok_write [OF service_nth [OF sv i] q _ w])
       (use True in \<open>simp_all add: stream_id_def\<close>)
  then show ?thesis using r sv q w
    by (auto simp: stream_port_write_def Let_def split: if_splits)
qed

lemma ingest_step_ids:
  "stream_id (s\<lparr>st_remote_last_seen_ms := t\<rparr>) = stream_id s" "stream_id (ingest_accept ops bs s) = stream_id s"
  "stream_id (ingest_schedule_ack session now_ms s) = stream_id s"
  by (simp_all add: stream_id_def ingest_accept_def ingest_schedule_ack_def set_counters_def)

lemma ingest_id:
  "stream_ingest_locked ops adm rv d now_ms s = (err, s') \<Longrightarrow> stream_id s' = stream_id s"
  by (auto simp: stream_ingest_locked_def Let_def ingest_data_def ingest_step_ids
      split: if_splits stream_opcode.splits)

lemma decode_session: "stream_decode message d0 = (ESP_OK, d) \<Longrightarrow> de_session d \<noteq> 0"
  by (auto simp: stream_decode_def Let_def split: option.splits if_splits)

lemma service_note_error:
  assumes sv: "service_ok contents depth sv"
  shows "service_ok contents depth (stream_note_decode_error ok sv link message error d)"
proof (cases "link = None \<or> message = None")
  case False
  then obtain l m where lm: "link = Some l" "message = Some m" by auto
  obtain e sv1 where e: "stream_ensure_init ok sv = (e, sv1)" by fastforce
  note sv1 = init_then [OF sv e]
  have "service_ok contents depth (upd_stream i (set_counters f) sv1)"
    if "stream_find_peer_locked sv1 l (lm_source m) = Some i" for i f
    using find_peer_active [OF that] sv1
    by (intro service_upd [OF sv1]) (auto simp: service_ok_def)
  with sv1 lm e show ?thesis
    by (auto simp: stream_note_decode_error_def split: option.splits esp_err.splits)
qed (use sv in \<open>auto simp: stream_note_decode_error_def split: option.splits\<close>)

lemma service_ingest:
  assumes sv: "service_ok contents depth sv"
    and r: "solar_os_link_stream_ingest ops adm ok rv sv link message now_ms = (err, sv')"
  shows "service_ok contents depth sv'"
proof -
  obtain de d where d: "stream_decode message stream_decoded_zero = (de, d)" by fastforce
  obtain e sv1 where e: "stream_ensure_init ok sv = (e, sv1)" by fastforce
  note sv1 = init_then [OF sv e]
  show ?thesis
  proof (cases "de = ESP_OK \<and> link \<noteq> None \<and> e = ESP_OK")
    case False
    then show ?thesis using r d e sv sv1 service_note_error [OF sv] stream_init_err [OF e]
      by (auto simp: solar_os_link_stream_ingest_def split: if_splits)
  next
    case True
    show ?thesis
    proof (cases "stream_find_peer_locked sv1 (the link) (lm_source (the message))")
      case None
      then show ?thesis using r d e True sv1 by (auto simp: solar_os_link_stream_ingest_def)
    next
      case (Some i)
      note f = find_peer_active [OF Some]
      obtain er s where s: "stream_ingest_locked ops adm rv d now_ms (sv_streams sv1 ! i) = (er, s)" by fastforce
      have "service_ok contents depth (upd_stream i (\<lambda>_. s) sv1)" if "st_port_open (sv_streams sv1 ! i)"
      proof (rule service_upd [OF sv1])
        show "stream_ok contents depth s"
          using ok_ingest_locked [OF _ f(2) that _ s] decode_session [of message _ d] d True sv1 f(1)
          by (auto simp: service_ok_def)
        show "stream_id s = stream_id (sv_streams sv1 ! i)" using ingest_id [OF s] .
      qed
      then show ?thesis using r d e True sv1 Some s
        by (auto simp: solar_os_link_stream_ingest_def split: if_splits)
    qed
  qed
qed

end

lemma find_port_None:
  "stream_find_port_locked sv p = None \<Longrightarrow> i < length (sv_streams sv) \<Longrightarrow> st_active (sv_streams sv ! i)
     \<Longrightarrow> st_port (sv_streams sv ! i) \<noteq> p"
  by (auto simp: stream_find_port_locked_def first_index_None)

lemma find_peer_None:
  "stream_find_peer_locked sv l p = None \<Longrightarrow> i < length (sv_streams sv) \<Longrightarrow> st_active (sv_streams sv ! i)
     \<Longrightarrow> (st_link (sv_streams sv ! i), st_peer_id (sv_streams sv ! i)) \<noteq> (l, p)"
  by (auto simp: stream_find_peer_locked_def first_index_None)

lemma service_insert:
  assumes sv: "service_ok contents depth sv" and s: "stream_ok contents depth s"
    and port: "stream_find_port_locked sv (st_port s) = None"
    and peer: "stream_find_peer_locked sv (st_link s) (st_peer_id s) = None"
  shows "service_ok contents depth (upd_stream i (\<lambda>_. s) sv)"
proof -
  have "\<forall>t \<in> set ((sv_streams sv)[i := s]). stream_ok contents depth t"
    using sv s set_update_subset_insert [of "sv_streams sv" i s] by (auto simp: service_ok_def)
  moreover have "unique_used st_active st_port ((sv_streams sv)[i := s])"
    using sv find_port_None [OF port] by (intro port_table.unique_insert) (auto simp: service_ok_def)
  moreover have "unique_used st_active (\<lambda>s. (st_link s, st_peer_id s)) ((sv_streams sv)[i := s])"
    using sv find_peer_None [OF peer] by (intro peer_table.unique_insert) (auto simp: service_ok_def)
  ultimately show ?thesis using sv by (simp add: service_ok_def upd_stream_def)
qed

lemma service_clear:
  assumes sv: "service_ok contents depth sv"
  shows "service_ok contents depth (upd_stream i (\<lambda>_. link_stream_zero) sv)"
proof -
  have "\<forall>t \<in> set ((sv_streams sv)[i := link_stream_zero]). stream_ok contents depth t"
    using sv set_update_subset_insert [of "sv_streams sv" i link_stream_zero]
    by (auto simp: service_ok_def)
  then show ?thesis
    using sv
    by (auto simp: service_ok_def upd_stream_def intro: port_table.unique_clear peer_table.unique_clear)
qed

lemma service_generation [simp]:
  "service_ok contents depth (sv\<lparr>sv_generation := g\<rparr>) = service_ok contents depth sv"
  by (simp add: service_ok_def)

lemma service_remove:
  assumes sv: "service_ok contents depth sv" and r: "solar_os_link_stream_remove ok unreg sv port = (err, sv')"
  shows "service_ok contents depth sv'"
proof -
  obtain e sv1 where e: "stream_ensure_init ok sv = (e, sv1)" by fastforce
  note sv1 = stream_init_ok [OF e sv]
  then show ?thesis using r e sv service_clear [OF sv1] stream_init_err [OF e]
    by (auto simp: solar_os_link_stream_remove_def split: if_splits option.splits)
qed

lemma service_stopped:
  assumes sv: "service_ok contents depth sv" and ok: "byte_queue qo contents depth qa"
  shows "service_ok contents depth (solar_os_link_stream_transport_stopped mok sv link)"
proof -
  obtain e sv1 where e: "stream_ensure_init mok sv = (e, sv1)" by fastforce
  note sv1 = stream_init_ok [OF e sv]
  have "service_ok contents depth (sv1\<lparr>sv_streams := map (\<lambda>s. if \<not> st_active s \<or> st_link s \<noteq> l then s
      else stream_transport_reset s) (sv_streams sv1)\<rparr>)" for l
  proof (rule service_ids [OF sv1])
    show "map stream_id (sv_streams (sv1\<lparr>sv_streams := map (\<lambda>s. if \<not> st_active s \<or> st_link s \<noteq> l then s
      else stream_transport_reset s) (sv_streams sv1)\<rparr>)) = map stream_id (sv_streams sv1)"
      by (simp add: o_def)
  qed (use sv1 byte_queue.ok_transport_reset [OF ok] in \<open>auto simp: service_ok_def split: if_splits\<close>)
  then show ?thesis using e sv1 sv
    by (auto simp: solar_os_link_stream_transport_stopped_def split: option.splits esp_err.splits)
qed

lemma service_commit:
  assumes sv: "service_ok contents depth sv" and ok: "byte_queue qo contents depth qa"
  shows "service_ok contents depth (stream_process_commit sv a err now_ms)"
proof (cases "stream_find_port_locked sv (sa_port a)")
  case (Some i)
  note f = find_port_active [OF Some]
  have "service_ok contents depth (upd_stream i (stream_commit_action a err now_ms) sv)"
    by (rule service_upd [OF sv], rule byte_queue.ok_commit [OF ok])
       (use sv f in \<open>auto simp: service_ok_def commit_fields\<close>)
  then show ?thesis using sv Some by (simp add: stream_process_commit_def)
qed (use sv in \<open>simp add: stream_process_commit_def\<close>)

lemma service_prepare:
  assumes sv: "service_ok contents depth sv" and ok: "byte_queue qo contents depth qa"
    and r: "stream_prepare_loop qo link now_ms (sv_streams sv) stream_action_zero = (ss, a)"
  shows "service_ok contents depth (sv\<lparr>sv_streams := ss\<rparr>)" and "sa_valid a \<Longrightarrow> action_ok a"
proof -
  have "action_clean stream_action_zero" and nv: "\<not> sa_valid stream_action_zero"
    by (simp_all add: action_clean_def stream_action_zero_def)
  from byte_queue.ok_prepare_loop [OF ok r _ this(1)] sv
  have p: "\<forall>s \<in> set ss. stream_ok contents depth s" "map stream_id ss = map stream_id (sv_streams sv)"
    "sa_valid a \<longrightarrow> action_ok a" using nv by (auto simp: service_ok_def)
  show "service_ok contents depth (sv\<lparr>sv_streams := ss\<rparr>)"
    by (rule service_ids [OF sv]) (use p in auto)
  show "sa_valid a \<Longrightarrow> action_ok a" using p(3) by blast
qed

lemma ok_new:
  assumes bq: "byte_queue qo contents depth qa" and mtu: "mtu \<le> LINK_PAYLOAD_MAX"
    and peer: "peer \<noteq> 0" "peer \<noteq> LINK_BROADCAST" and names: "length port < PORT_NAME_MAX" "length link < LINK_NAME_MAX"
  shows "stream_ok contents depth (stream_new sv link port peer config mtu
           (q_create qo LINK_STREAM_QUEUE_BYTES) (q_create qo LINK_STREAM_QUEUE_BYTES))"
proof -
  have fifo: "contents (q_create qo n) = []" "depth (q_create qo n) = n" for n
    using bq by (auto simp: byte_queue_def bounded_fifo_def)
  show ?thesis
    unfolding stream_new_def ok_counters
    using mtu peer names fifo
    by (auto simp: stream_ok_def link_stream_zero_def identity_ok_def window_ok_def session_ok_def queue_ok_def
        strlcpy_id)
qed

lemma service_create:
  assumes bq: "byte_queue qo contents depth qa" and sv: "service_ok contents depth sv"
    and ls: "mtu_bounded ls"
    and r: "solar_os_link_stream_create_configured qo rxo txo ok lok rx_ok tx_ok reg sv ls link port peer config
              = (err, sv', ls')"
  shows "service_ok contents depth sv'"
proof -
  obtain e sv1 where e: "stream_ensure_init ok sv = (e, sv1)" by fastforce
  note sv1 = stream_init_ok [OF e sv]
  obtain ge ls1 st where g: "solar_os_link_get_status rxo txo lok ls link (Some link_status_zero) = (ge, ls1, st)"
    by (metis prod_cases3)
  consider (same) "sv' = sv \<or> sv' = sv1"
    | (new) i status where "ge = ESP_OK" "st = Some status" "stream_name_valid link LINK_NAME_MAX"
        "stream_name_valid port PORT_NAME_MAX" "peer \<noteq> 0" "peer \<noteq> LINK_BROADCAST"
        "stream_find_port_locked sv1 (the port) = None" "stream_find_peer_locked sv1 (the link) peer = None"
        "sv' = (let s = stream_new sv1 (the link) (the port) peer (the config)
                    (ls_frame_mtu status - LINK_HEADER_SIZE - LINK_CRC_SIZE)
                    (q_create qo LINK_STREAM_QUEUE_BYTES) (q_create qo LINK_STREAM_QUEUE_BYTES);
                  sv2 = (upd_stream i (\<lambda>_. s) sv1)\<lparr>sv_generation :=
                           (if sv_generation sv1 + 1 = 0 then 1 else sv_generation sv1 + 1)\<rparr>
              in if reg = ESP_OK then sv2 else upd_stream i (\<lambda>_. link_stream_zero) sv2)"
  proof (cases "stream_name_valid link LINK_NAME_MAX \<and> stream_name_valid port PORT_NAME_MAX
      \<and> peer \<noteq> 0 \<and> peer \<noteq> LINK_BROADCAST \<and> stream_config_valid config")
    case False
    then show ?thesis using r same by (auto simp: solar_os_link_stream_create_configured_def)
  next
    case valid: True
    show ?thesis
    proof (cases "e = ESP_OK \<and> ge = ESP_OK \<and> st \<noteq> None")
      case False
      then show ?thesis
        using r e g valid same stream_init_err [OF e]
        by (cases st; cases ge) (auto simp: solar_os_link_stream_create_configured_def)
    next
      case True
      then obtain status where st: "st = Some status" by blast
      note r1 = r [unfolded solar_os_link_stream_create_configured_def]
      show ?thesis
      proof (cases "first_index (\<lambda>s. \<not> st_active s) (sv_streams sv1)")
        case None
        then show ?thesis using r1 e g valid True st same by (auto split: if_splits)
      next
        case free: (Some i)
        show ?thesis
        proof (cases "stream_find_port_locked sv1 (the port) = None
            \<and> stream_find_peer_locked sv1 (the link) peer = None")
          case False
          then show ?thesis using r1 e g valid True st same by (auto split: if_splits)
        next
          case none: True
          note r2 = r1 [unfolded e g st]
          show ?thesis
          proof (cases "sv' = sv1")
            case False
            then show ?thesis
              using r2 valid True none free st
              by (intro new [of status i]) (simp_all add: Let_def split: if_splits)
          qed (use same in blast)
        qed
      qed
    qed
  qed
  then show ?thesis
  proof cases
    case same
    then show ?thesis using sv sv1 by blast
  next
    case (new i status)
    define s where "s = stream_new sv1 (the link) (the port) peer (the config)
        (ls_frame_mtu status - LINK_HEADER_SIZE - LINK_CRC_SIZE)
        (q_create qo LINK_STREAM_QUEUE_BYTES) (q_create qo LINK_STREAM_QUEUE_BYTES)"
    have "ls_frame_mtu status \<le> LINK_FRAME_MAX" using status_mtu [OF _ ls] g new(1,2) by blast
    then have mtu: "ls_frame_mtu status - LINK_HEADER_SIZE - LINK_CRC_SIZE \<le> LINK_PAYLOAD_MAX"
      by (simp add: link_size_defs)
    have names: "length (the port) < PORT_NAME_MAX" "length (the link) < LINK_NAME_MAX"
      using new(3,4) by (auto simp: stream_name_valid_def split: option.splits)
    have s: "stream_ok contents depth s" unfolding s_def by (rule ok_new [OF bq mtu new(5,6) names])
    have id: "st_port s = the port" "st_link s = the link" "st_peer_id s = peer"
      using names by (simp_all add: s_def stream_new_def set_counters_def strlcpy_id)
    have ins: "service_ok contents depth (upd_stream i (\<lambda>_. s) sv1)"
      using service_insert [OF sv1 s] id new(7,8) by simp
    then have gen: "service_ok contents depth ((upd_stream i (\<lambda>_. s) sv1)\<lparr>sv_generation := g\<rparr>)" for g by simp
    show ?thesis
      unfolding new(9) Let_def s_def [symmetric] using gen service_clear [OF gen] by simp
  qed
qed

fun config_ok :: "('q \<Rightarrow> u8 list) \<Rightarrow> ('q \<Rightarrow> nat) \<Rightarrow> 'q stream_service \<times> stream_action list \<Rightarrow> bool" where
  "config_ok contents depth (sv, acts) \<longleftrightarrow>
     service_ok contents depth sv \<and> (\<forall>a \<in> set acts. action_ok a)"

lemma remove_nth_subset: "set (remove_nth k xs) \<subseteq> set xs"
  by (auto simp: remove_nth_def dest: in_set_takeD in_set_dropD)

lemma stream_step_ok:
  assumes "stream_step qo qa rxo txo c c'" and bq: "byte_queue qo contents depth qa"
    and "config_ok contents depth c"
  shows "config_ok contents depth c'"
  using assms(1,3)
proof (cases rule: stream_step.cases)
  case (ss_create ls ts ds ok lok rx_ok tx_ok reg sv link port peer config err sv' ls' acts)
  have "mtu_bounded ls" using mtu_bounded_reachable [OF ss_create(3)] by simp
  from service_create [OF bq _ this ss_create(4)] show ?thesis using ss_create(1,2) assms(3) by simp
next
  case (ss_prepare link now_ms sv ss a acts)
  then show ?thesis using service_prepare [OF _ bq ss_prepare(3)] assms(3) by auto
next
  case (ss_commit k acts sv err now_ms)
  then show ?thesis using service_commit [OF _ bq] assms(3) remove_nth_subset [of k acts] by auto
next
  case (ss_stopped ok sv link sv' acts)
  then show ?thesis using service_stopped [OF _ bq] assms(3) by auto
next
  case (ss_open i ok r sv err sv' acts)
  then show ?thesis using byte_queue.service_open [OF bq] assms(3) by auto
next
  case (ss_close i ok sv err sv' acts)
  then show ?thesis using byte_queue.service_close [OF bq] assms(3) by auto
next
  case (ss_read i sv given n err sv' bs acts)
  then show ?thesis using byte_queue.service_read [OF bq] assms(3) by auto
next
  case (ss_write i expired sv data n err sv' written acts)
  then show ?thesis using byte_queue.service_write [OF bq] assms(3) by auto
next
  case (ss_ingest ok rv sv link message now_ms err sv' acts)
  then show ?thesis using byte_queue.service_ingest [OF bq] assms(3) by auto
next
  case (ss_init ok sv err sv' acts)
  then show ?thesis using stream_init_ok assms(3) by auto
next
  case (ss_remove ok unreg sv port err sv' acts)
  then show ?thesis using service_remove assms(3) by auto
qed

lemma stream_reachable_ok:
  assumes "stream_reachable qo qa rxo txo c" and "byte_queue qo contents depth qa"
  shows "config_ok contents depth c"
  using assms(1)
proof (induction rule: stream_reachable.induct)
  case sr_boot
  then show ?case
    by (simp add: service_ok_def stream_boot_def port_table.unique_cleared peer_table.unique_cleared)
qed (rule stream_step_ok [OF _ assms(2)])

text \<open>A call of \<open>solar_os_link_stream_process\<close> is a run of the steps, whatever else happens in between.\<close>

lemma process_runs:
  "(stream_step qo qa rxo txo)\<^sup>*\<^sup>* (sv, acts)
     (fst (solar_os_link_stream_process qo ftx ok lok sv ls link now_ms), acts)"
proof (cases link)
  case None
  then show ?thesis by (simp add: solar_os_link_stream_process_def)
next
  case (Some l)
  obtain e sv1 where e: "stream_ensure_init ok sv = (e, sv1)" by fastforce
  obtain ss a where p: "stream_prepare_loop qo l now_ms (sv_streams sv1) stream_action_zero = (ss, a)" by fastforce
  obtain err ls1 where send: "stream_send_action ftx lok ls a = (err, ls1)" by fastforce
  have init: "stream_step qo qa rxo txo (sv, acts) (sv1, acts)" using e by (rule ss_init)
  have prep: "stream_step qo qa rxo txo (sv1, acts)
      (sv1\<lparr>sv_streams := ss\<rparr>, if sa_valid a then a # acts else acts)" using p by (rule ss_prepare)
  have commit: "stream_step qo qa rxo txo (sv1\<lparr>sv_streams := ss\<rparr>, a # acts)
      (stream_process_commit (sv1\<lparr>sv_streams := ss\<rparr>) a err now_ms, acts)"
    using ss_commit [of 0 "a # acts" qo qa rxo txo "sv1\<lparr>sv_streams := ss\<rparr>" err now_ms]
    by (simp add: remove_nth_def)
  consider (fails) "fst (solar_os_link_stream_process qo ftx ok lok sv ls link now_ms) = sv1"
    | (idle) "\<not> sa_valid a" "fst (solar_os_link_stream_process qo ftx ok lok sv ls link now_ms) = sv1\<lparr>sv_streams := ss\<rparr>"
    | (sent) "sa_valid a" "fst (solar_os_link_stream_process qo ftx ok lok sv ls link now_ms)
        = stream_process_commit (sv1\<lparr>sv_streams := ss\<rparr>) a err now_ms"
    using Some e p send stream_init_err [OF e]
    by (cases e) (auto simp: solar_os_link_stream_process_def)
  then show ?thesis
  proof cases
    case fails
    with init show ?thesis by auto
  next
    case idle
    with init prep show ?thesis by (simp add: rtranclp.rtrancl_into_rtrancl)
  next
    case sent
    with init prep commit show ?thesis by (simp add: rtranclp.rtrancl_into_rtrancl)
  qed
qed

section \<open>Properties\<close>

text \<open>
  C22.
  Under every interleaving of the stream operations and of the two halves of the process call: the
  table keeps its size, ports and peers stay unique; every active stream has a valid peer, both its
  queues within their capacity, a window whose slots are consecutively numbered up to the next number
  and carry between one byte and the data size, a session while its port is open, and a pending
  acknowledgement only for the current remote session and the number before the expected one; and
  every action on its way to the link fits a link frame and is decoded by its peer to exactly its
  fields.\<close>
theorem stream_service_invariant:
  assumes "stream_reachable qo qa rxo txo (sv, acts)" and "byte_queue qo contents depth qa"
  shows "service_ok contents depth sv \<and>
    (\<forall>a \<in> set acts. sa_peer_id a \<noteq> 0 \<and> length (stream_action_payload a) \<le> LINK_PAYLOAD_MAX \<and>
       (\<forall>m d0. lm_type m = LINK_MESSAGE_STREAM \<and> lm_destination m = sa_peer_id a
          \<and> lm_payload m = stream_action_payload a
          \<longrightarrow> stream_decode (Some m) d0 = (ESP_OK, action_decoded a)))"
proof -
  have c: "config_ok contents depth (sv, acts)" using stream_reachable_ok [OF assms] .
  have "length (stream_action_payload a) \<le> LINK_PAYLOAD_MAX" "sa_peer_id a \<noteq> 0"
    "\<And>m d0. lm_type m = LINK_MESSAGE_STREAM \<Longrightarrow> lm_destination m = sa_peer_id a
       \<Longrightarrow> lm_payload m = stream_action_payload a \<Longrightarrow> stream_decode (Some m) d0 = (ESP_OK, action_decoded a)"
    if "a \<in> set acts" for a
  proof -
    have a: "action_ok a" using c that by simp
    then show "sa_peer_id a \<noteq> 0" "length (stream_action_payload a) \<le> LINK_PAYLOAD_MAX"
      using payload_fields(1) [of a] by (auto simp: action_ok_def LINK_STREAM_HEADER_SIZE_def link_size_defs)
    fix m :: link_message and d0 assume "lm_type m = LINK_MESSAGE_STREAM" "lm_destination m = sa_peer_id a"
      "lm_payload m = stream_action_payload a"
    then show "stream_decode (Some m) d0 = (ESP_OK, action_decoded a)"
      using a decode_payload [of m a d0] by (simp add: action_ok_def)
  qed
  with c show ?thesis by auto
qed

definition demo_link :: "(link_message list_queue, link_frame list_queue) link_state" where
  "demo_link = snd (solar_os_link_create list_queue_ops list_queue_ops True True True link_boot (Some ''lora'') 7 200)"

definition demo_created :: "u8 list_queue stream_service" where
  "demo_created = fst (snd (solar_os_link_stream_create list_queue_ops list_queue_ops list_queue_ops True True
     True True ESP_OK stream_boot demo_link (Some ''lora'') (Some ''vcom0'') 9))"

definition demo_opened :: "u8 list_queue stream_service" where
  "demo_opened = snd (stream_port_open list_queue_admin True 77 demo_created (Some 0))"

definition demo_prepared :: "u8 list_queue link_stream list \<times> stream_action" where
  "demo_prepared = stream_prepare_loop list_queue_ops ''lora'' 5 (sv_streams demo_opened) stream_action_zero"

lemma demo_open_frame:
  "sa_valid (snd demo_prepared) \<and> sa_opcode (snd demo_prepared) = OPCODE_OPEN
     \<and> sa_session (snd demo_prepared) = 77 \<and> sa_peer_id (snd demo_prepared) = 9"
  by code_simp

lemma demo_stream_reachable:
  "stream_reachable list_queue_ops list_queue_admin list_queue_ops list_queue_ops
     (demo_opened\<lparr>sv_streams := fst demo_prepared\<rparr>, [snd demo_prepared])"
proof -
  let ?R = "stream_reachable list_queue_ops list_queue_admin list_queue_ops list_queue_ops"
  let ?S = "stream_step list_queue_ops list_queue_admin list_queue_ops list_queue_ops"
  have link: "link_reachable list_queue_ops list_queue_ops (demo_link, [], [])"
  proof -
    obtain e where "solar_os_link_create list_queue_ops list_queue_ops True True True link_boot (Some ''lora'') 7 200
        = (e, demo_link)" unfolding demo_link_def by (metis prod.collapse)
    then show ?thesis by (rule lr_step [OF lr_boot ls_create])
  qed
  obtain e ls where c: "solar_os_link_stream_create_configured list_queue_ops list_queue_ops list_queue_ops True True
      True True ESP_OK stream_boot demo_link (Some ''lora'') (Some ''vcom0'') 9
      (solar_os_link_stream_config_default (Some stream_config_zero)) = (e, demo_created, ls)"
    unfolding demo_created_def solar_os_link_stream_create_def by (metis prod.collapse)
  have created: "?S (stream_boot, []) (demo_created, [])" by (rule ss_create [OF link c])
  obtain e' where o: "stream_port_open list_queue_admin True 77 demo_created (Some 0) = (e', demo_opened)"
    unfolding demo_opened_def by (metis prod.collapse)
  have opened: "?S (demo_created, []) (demo_opened, [])"
    by (rule ss_open [OF _ o]) (simp add: LINK_STREAM_MAX_def)
  have prepared: "?S (demo_opened, []) (demo_opened\<lparr>sv_streams := fst demo_prepared\<rparr>, [snd demo_prepared])"
    using ss_prepare [of list_queue_ops "''lora''" 5 demo_opened "fst demo_prepared" "snd demo_prepared"
        list_queue_admin list_queue_ops list_queue_ops "[]"] demo_open_frame
    by (simp add: demo_prepared_def)
  show ?thesis by (rule sr_step [OF sr_step [OF sr_step [OF sr_boot created] opened] prepared])
qed

theorem stream_service_invariant_witness:
  "service_ok snd fst (demo_opened\<lparr>sv_streams := fst demo_prepared\<rparr>)
   \<and> sa_opcode (snd demo_prepared) = OPCODE_OPEN
   \<and> stream_decode (Some (link_message_zero\<lparr>lm_type := LINK_MESSAGE_STREAM, lm_destination := 9,
         lm_payload := stream_action_payload (snd demo_prepared)\<rparr>)) stream_decoded_zero
       = (ESP_OK, action_decoded (snd demo_prepared))"
  using stream_service_invariant [OF demo_stream_reachable list_bytes.byte_queue_axioms] demo_open_frame
  by simp

text \<open>
  A stream whose port has just been opened asks for its OPEN to be sent at once, by a due time of zero,
  and the comparison with the clock is signed: below a clock value of 2^31 ms the OPEN is sent, and from
  there to the wrap of the clock nothing is, so the stream cannot connect to a silent peer.\<close>
theorem stream_first_open:
  assumes "stream_prepare_action_locked qo s now_ms a = (s', a')"
    and "st_port_open s" and "\<not> st_close_pending s" and "st_remote_session s = 0" and "st_next_open_ms s = 0"
  shows "if unat now_ms < 2 ^ 31
         then sa_valid a' \<and> sa_opcode a' = OPCODE_OPEN \<and> sa_session a' = st_local_session s
         else \<not> sa_valid a' \<and> s' = s"
proof -
  have "stream_expire_peer now_ms s = s" using assms(4) by (simp add: stream_expire_peer_def)
  moreover have "\<not> stream_connected_locked s now_ms" using assms(4) by (simp add: stream_connected_locked_def)
  moreover have "ms_reached now_ms 0 \<longleftrightarrow> unat now_ms < 2 ^ 31"
    by (simp add: ms_reached_def sint_u32_nonneg)
  moreover have "sa_valid (stream_action_fields s a)" by (simp add: stream_action_fields_def Let_def)
  ultimately show ?thesis
    using assms(1,2,3,5) by (auto simp: stream_prepare_action_locked_def Let_def split: if_splits)
qed

theorem stream_first_open_witness:
  "\<not> sa_valid (snd (stream_prepare_action_locked list_queue_ops (sv_streams demo_opened ! 0) 0x80000000
        stream_action_zero))
   \<and> sa_valid (snd (stream_prepare_action_locked list_queue_ops (sv_streams demo_opened ! 0) 0x7fffffff
        stream_action_zero))"
proof -
  have f: "st_port_open (sv_streams demo_opened ! 0) \<and> \<not> st_close_pending (sv_streams demo_opened ! 0)
      \<and> st_remote_session (sv_streams demo_opened ! 0) = 0 \<and> st_next_open_ms (sv_streams demo_opened ! 0) = 0"
    by code_simp
  let ?s = "sv_streams demo_opened ! 0"
  obtain s1 a1 s2 a2
    where "stream_prepare_action_locked list_queue_ops ?s 0x80000000 stream_action_zero = (s1, a1)"
      and "stream_prepare_action_locked list_queue_ops ?s 0x7fffffff stream_action_zero = (s2, a2)"
    by fastforce
  with f stream_first_open [OF this(1)] stream_first_open [OF this(2)] show ?thesis by simp
qed

text \<open>
  The process call fills one action for all the streams of a link in turn. A stream that has nothing
  to send and an acknowledgement not yet due leaves that acknowledgement in the action, and the frame
  of the next stream, which has none of its own pending, carries it to another peer.\<close>
theorem stream_acknowledgement_leaks:
  assumes s1: "st_active s1" "st_link s1 = link" "\<not> st_close_pending s1" "stream_connected_locked s1 now_ms"
      "\<not> ms_reached now_ms (st_next_open_ms s1)" "st_tx_window s1 = []"
      "st_tx_queue s1 = Some q" "receive_upto qo (st_data_mtu s1) q = ([], q')"
      "st_acknowledgement_pending s1" "\<not> ms_reached now_ms (st_acknowledgement_due_ms s1)"
    and s2: "st_active s2" "st_link s2 = link" "\<not> st_close_pending s2" "st_port_open s2"
      "st_remote_session s2 = 0" "\<not> st_acknowledgement_pending s2" "ms_reached now_ms (st_next_open_ms s2)"
    and r: "stream_prepare_loop qo link now_ms [s1, s2] stream_action_zero = (ss, a)"
  shows "sa_valid a \<and> sa_opcode a = OPCODE_OPEN \<and> sa_peer_id a = st_peer_id s2
    \<and> sa_acknowledgement_session a = st_acknowledgement_session s1
    \<and> sa_acknowledgement_sequence a = st_acknowledgement_sequence s1"
proof -
  have open1: "st_port_open s1" "\<not> sc_peer_timeout_ms (st_config s1) < now_ms - st_remote_last_seen_ms s1"
    using s1(4) by (auto simp: stream_connected_locked_def)
  have e: "stream_expire_peer now_ms s1 = s1" "stream_expire_peer now_ms s2 = s2"
    using open1 s2(5) by (simp_all add: stream_expire_peer_def)
  have fill: "fill_window qo n s1 = s1" for n
    using s1(7,8) by (cases n) (simp_all add: fill_slot_def)
  define a1 where "a1 = (stream_action_fields s1 stream_action_zero)\<lparr>sa_valid := False\<rparr>"
  have p1: "stream_prepare_action_locked qo s1 now_ms stream_action_zero = (s1, a1)"
    using s1 open1 by (simp add: stream_prepare_action_locked_def Let_def e fill stream_pick_slot_def a1_def)
  have ack: "sa_acknowledgement_session a1 = st_acknowledgement_session s1"
    "sa_acknowledgement_sequence a1 = st_acknowledgement_sequence s1"
    using s1(9) by (simp_all add: a1_def stream_action_fields_def Let_def)
  have p2: "stream_prepare_action_locked qo s2 now_ms a1
      = (s2, (stream_action_fields s2 a1)\<lparr>sa_opcode := OPCODE_OPEN, sa_session := st_local_session s2\<rparr>)"
    using s2 by (simp add: stream_prepare_action_locked_def Let_def e)
  show ?thesis
    using r p1 p2 s1(1,2) s2 ack
    by (auto simp: a1_def stream_action_fields_def Let_def)
qed

definition leak_first :: "u8 list_queue link_stream" where
  "leak_first = (sv_streams demo_opened ! 0)\<lparr>st_remote_session := 0x1234, st_remote_last_seen_ms := 1000,
     st_next_open_ms := 9000, st_acknowledgement_pending := True, st_acknowledgement_session := 0x1234,
     st_acknowledgement_sequence := 5, st_acknowledgement_due_ms := 1040\<rparr>"

definition leak_second :: "u8 list_queue link_stream" where
  "leak_second = (sv_streams demo_opened ! 0)\<lparr>st_port := ''vcom1'', st_peer_id := 11\<rparr>"

theorem stream_acknowledgement_leaks_witness:
  "case stream_prepare_loop list_queue_ops ''lora'' 1010 [leak_first, leak_second] stream_action_zero of
     (ss, a) \<Rightarrow> sa_peer_id a = 11 \<and> sa_acknowledgement_session a = 0x1234 \<and> sa_acknowledgement_sequence a = 5"
proof -
  obtain ss a where r: "stream_prepare_loop list_queue_ops ''lora'' 1010 [leak_first, leak_second] stream_action_zero
      = (ss, a)" by fastforce
  have f: "st_active leak_first \<and> st_link leak_first = ''lora'' \<and> \<not> st_close_pending leak_first
      \<and> stream_connected_locked leak_first 1010 \<and> \<not> ms_reached 1010 (st_next_open_ms leak_first)
      \<and> st_tx_window leak_first = [] \<and> st_tx_queue leak_first = Some (2048, [])
      \<and> receive_upto list_queue_ops (st_data_mtu leak_first) (2048, []) = ([], (2048, []))
      \<and> st_acknowledgement_pending leak_first \<and> \<not> ms_reached 1010 (st_acknowledgement_due_ms leak_first)
      \<and> st_acknowledgement_session leak_first = 0x1234 \<and> st_acknowledgement_sequence leak_first = 5"
    by code_simp
  have g: "st_active leak_second \<and> st_link leak_second = ''lora'' \<and> \<not> st_close_pending leak_second
      \<and> st_port_open leak_second \<and> st_remote_session leak_second = 0 \<and> \<not> st_acknowledgement_pending leak_second
      \<and> ms_reached 1010 (st_next_open_ms leak_second) \<and> st_peer_id leak_second = 11"
    by code_simp
  show ?thesis
    using stream_acknowledgement_leaks [of leak_first "''lora''" 1010 "(2048, [])" list_queue_ops "(2048, [])"
        leak_second ss a] r f g
    by simp
qed

end
