(* ===== verification/StreamTransfer.thy ===== *)
theory StreamTransfer
  imports StreamFrames
begin

text \<open>
  Two streams at the ends of a link that loses, repeats and reorders frames: from the opening of the
  two ports, as long as neither side's session ends, the bytes read at one end are a prefix of the
  bytes written at the other, and nothing is forgotten before it has arrived.

  The state keeps every action either side has ever prepared; a frame may be delivered at any time,
  any number of times or never, and the second critical section of the process call may run for any
  prepared action with any result, so every interleaving and every fate of a frame is covered.
\<close>

section \<open>The system\<close>

record 'q transfer =
  tr_a :: "'q link_stream"
  tr_b :: "'q link_stream"
  tr_a_frames :: "stream_action set"
  tr_b_frames :: "stream_action set"
  tr_written :: "u8 list"
  tr_read :: "u8 list"

text \<open>The peer of a stream has been heard in time, so its session does not end.\<close>

definition peer_in_time :: "u32 \<Rightarrow> 'q link_stream \<Rightarrow> bool" where
  "peer_in_time now_ms s \<longleftrightarrow>
     st_remote_session s = 0 \<or> now_ms - st_remote_last_seen_ms s \<le> sc_peer_timeout_ms (st_config s)"

text \<open>The sequence numbers of the session are not used up.\<close>

definition numbers_left :: "'q link_stream \<Rightarrow> bool" where
  "numbers_left s \<longleftrightarrow> unat (st_next_tx_sequence s) < 65535"

text \<open>What the program does to one of the two streams; the action is one that it has prepared.\<close>

inductive endpoint_step ::
  "('q, u8) queue_ops \<Rightarrow> 'q queue_admin \<Rightarrow> stream_action set \<Rightarrow> stream_action set
   \<Rightarrow> 'q link_stream \<Rightarrow> 'q link_stream \<Rightarrow> stream_action set \<Rightarrow> bool"
  for qo :: "('q, u8) queue_ops" and qa :: "'q queue_admin" and own peer :: "stream_action set" where
  es_prepare: "peer_in_time now_ms s \<Longrightarrow> numbers_left s
    \<Longrightarrow> stream_prepare_action_locked qo s now_ms stream_action_zero = (s', a)
    \<Longrightarrow> endpoint_step qo qa own peer s s' (if sa_valid a then insert a own else own)"
| es_commit: "a \<in> own \<Longrightarrow> endpoint_step qo qa own peer s (stream_commit_action a err now_ms s) own"
| es_ingest: "a \<in> peer \<Longrightarrow> stream_ingest_locked qo qa rv (action_decoded a) now_ms s = (err, s')
    \<Longrightarrow> endpoint_step qo qa own peer s s' own"

inductive transfer_step ::
  "('q, u8) queue_ops \<Rightarrow> 'q queue_admin \<Rightarrow> 'q transfer \<Rightarrow> 'q transfer \<Rightarrow> bool"
  for qo :: "('q, u8) queue_ops" and qa :: "'q queue_admin" where
  ts_a: "endpoint_step qo qa (tr_a_frames t) (tr_b_frames t) (tr_a t) a own
    \<Longrightarrow> transfer_step qo qa t (t\<lparr>tr_a := a, tr_a_frames := own\<rparr>)"
| ts_b: "endpoint_step qo qa (tr_b_frames t) (tr_a_frames t) (tr_b t) b own
    \<Longrightarrow> transfer_step qo qa t (t\<lparr>tr_b := b, tr_b_frames := own\<rparr>)"
| ts_write: "st_tx_queue (tr_a t) = Some q \<Longrightarrow> write_bytes qo expired 0 bs q = (err, n, q')
    \<Longrightarrow> transfer_step qo qa t
          (t\<lparr>tr_a := (tr_a t)\<lparr>st_tx_queue := Some q'\<rparr>, tr_written := tr_written t @ take n bs\<rparr>)"
| ts_read: "st_rx_queue (tr_b t) = Some q \<Longrightarrow> receive_upto qo n q = (bs, q')
    \<Longrightarrow> transfer_step qo qa t
          (t\<lparr>tr_b := (tr_b t)\<lparr>st_rx_queue := Some q'\<rparr>, tr_read := tr_read t @ bs\<rparr>)"
| ts_write_b: "st_tx_queue (tr_b t) = Some q \<Longrightarrow> write_bytes qo expired 0 bs q = (err, n, q')
    \<Longrightarrow> transfer_step qo qa t (t\<lparr>tr_b := (tr_b t)\<lparr>st_tx_queue := Some q'\<rparr>\<rparr>)"
| ts_read_a: "st_rx_queue (tr_a t) = Some q \<Longrightarrow> receive_upto qo n q = (bs, q')
    \<Longrightarrow> transfer_step qo qa t (t\<lparr>tr_a := (tr_a t)\<lparr>st_rx_queue := Some q'\<rparr>\<rparr>)"

text \<open>The two streams right after their ports have been opened.\<close>

definition just_opened :: "('q \<Rightarrow> u8 list) \<Rightarrow> ('q \<Rightarrow> nat) \<Rightarrow> 'q link_stream \<Rightarrow> bool" where
  "just_opened contents depth s \<longleftrightarrow>
     st_active s \<and> st_port_open s \<and> st_local_session s \<noteq> 0 \<and> st_remote_session s = 0 \<and> \<not> st_had_remote_session s
     \<and> \<not> st_close_pending s \<and> st_tx_window s = [] \<and> st_next_tx_sequence s = 1 \<and> st_expected_rx_sequence s = 1
     \<and> \<not> st_received_any s \<and> \<not> st_acknowledgement_pending s
     \<and> (\<exists>q. st_rx_queue s = Some q \<and> contents q = []) \<and> (\<exists>q. st_tx_queue s = Some q \<and> contents q = [])"

inductive transfer_reachable ::
  "('q, u8) queue_ops \<Rightarrow> 'q queue_admin \<Rightarrow> ('q \<Rightarrow> u8 list) \<Rightarrow> ('q \<Rightarrow> nat) \<Rightarrow> 'q transfer \<Rightarrow> bool"
  for qo :: "('q, u8) queue_ops" and qa :: "'q queue_admin"
    and contents :: "'q \<Rightarrow> u8 list" and depth :: "'q \<Rightarrow> nat" where
  tr_start: "just_opened contents depth a \<Longrightarrow> just_opened contents depth b
    \<Longrightarrow> transfer_reachable qo qa contents depth
          \<lparr>tr_a = a, tr_b = b, tr_a_frames = {}, tr_b_frames = {}, tr_written = [], tr_read = []\<rparr>"
| tr_step: "transfer_reachable qo qa contents depth t \<Longrightarrow> transfer_step qo qa t t'
    \<Longrightarrow> transfer_reachable qo qa contents depth t'"

text \<open>Opening a port of an active stream leads there.\<close>

lemma opened_just_opened:
  assumes "byte_queue qo contents depth qa" and "stream_ok contents depth (sv_streams sv ! i)"
    and "i < length (sv_streams sv)" and "sv_mutex sv"
    and "stream_port_open qa ok rv sv (Some i) = (ESP_OK, sv')"
  shows "just_opened contents depth (sv_streams sv' ! i)"
proof -
  have act: "st_active (sv_streams sv ! i)"
    using assms(4,5) by (auto simp: stream_port_open_def stream_ensure_init_def Let_def split: if_splits)
  then obtain rx tx where q: "st_rx_queue (sv_streams sv ! i) = Some rx" "st_tx_queue (sv_streams sv ! i) = Some tx"
    using assms(2) by (auto simp: stream_ok_def queue_ok_def)
  then show ?thesis
    using assms(3-5) act byte_queue.reset_contents [OF assms(1)]
    by (auto simp: stream_port_open_def stream_ensure_init_def Let_def just_opened_def upd_stream_def
        set_counters_def stream_reset_local_locked_def stream_reset_queues_locked_def split: if_splits)
qed

section \<open>Both ends: the session\<close>

definition session_fixed :: "u32 \<Rightarrow> u32 \<Rightarrow> 'q link_stream \<Rightarrow> bool" where
  "session_fixed own peer s \<longleftrightarrow>
     own \<noteq> 0 \<and> peer \<noteq> 0 \<and> st_local_session s = own \<and> st_port_open s \<and> \<not> st_close_pending s
     \<and> (st_remote_session s = peer \<or> st_remote_session s = 0 \<and> \<not> st_had_remote_session s)"

definition frames_from :: "u32 \<Rightarrow> stream_action set \<Rightarrow> bool" where
  "frames_from own F \<longleftrightarrow> (\<forall>a \<in> F. sa_session a = own \<and> sa_opcode a \<in> {OPCODE_OPEN, OPCODE_DATA, OPCODE_ACK})"

section \<open>The sender\<close>

text \<open>\<open>chunks\<close> are the contents of all frames numbered so far; the last may still be in the window.\<close>

definition sender_ok :: "('q \<Rightarrow> u8 list) \<Rightarrow> u8 list list \<Rightarrow> u8 list \<Rightarrow> 'q link_stream \<Rightarrow> bool" where
  "sender_ok contents chunks written s \<longleftrightarrow>
     (\<exists>q. st_tx_queue s = Some q \<and> written = concat chunks @ contents q)
     \<and> unat (st_next_tx_sequence s) = length chunks + 1 \<and> length chunks < 65535
     \<and> (st_tx_window s = []
        \<or> chunks \<noteq> [] \<and> map ts_data (st_tx_window s) = [last chunks]
          \<and> map (unat \<circ> ts_sequence) (st_tx_window s) = [length chunks])"

definition data_frames_ok :: "u8 list list \<Rightarrow> stream_action set \<Rightarrow> bool" where
  "data_frames_ok chunks F \<longleftrightarrow>
     (\<forall>a \<in> F. sa_opcode a = OPCODE_DATA \<longrightarrow>
        0 < unat (sa_sequence a) \<and> unat (sa_sequence a) \<le> length chunks
        \<and> sa_data a = chunks ! (unat (sa_sequence a) - 1))"

section \<open>The receiver\<close>

text \<open>The first \<open>k\<close> chunks have arrived.\<close>

definition receiver_ok :: "('q \<Rightarrow> u8 list) \<Rightarrow> u32 \<Rightarrow> u8 list list \<Rightarrow> nat \<Rightarrow> u8 list \<Rightarrow> 'q link_stream \<Rightarrow> bool" where
  "receiver_ok contents peer chunks k read s \<longleftrightarrow>
     (\<exists>q. st_rx_queue s = Some q \<and> read @ contents q = concat (take k chunks))
     \<and> k \<le> length chunks \<and> unat (st_expected_rx_sequence s) = k + 1 \<and> (st_received_any s \<longleftrightarrow> 0 < k)
     \<and> (st_remote_session s = 0 \<longrightarrow> k = 0)
     \<and> (st_acknowledgement_pending s \<longrightarrow>
          st_acknowledgement_session s = peer \<and> unat (st_acknowledgement_sequence s) = k)"

definition ack_frames_ok :: "u32 \<Rightarrow> nat \<Rightarrow> stream_action set \<Rightarrow> bool" where
  "ack_frames_ok peer k F \<longleftrightarrow>
     (\<forall>a \<in> F. sa_acknowledgement_session a = peer \<longrightarrow> unat (sa_acknowledgement_sequence a) \<le> k)"

text \<open>What the window says about the receiver.\<close>

definition window_behind :: "u8 list list \<Rightarrow> nat \<Rightarrow> 'q link_stream \<Rightarrow> bool" where
  "window_behind chunks k s \<longleftrightarrow> (if st_tx_window s = [] then k = length chunks else length chunks \<le> k + 1)"

section \<open>The receive side and the send side of a stream\<close>

definition receive_side where
  "receive_side s = (st_rx_queue s, st_expected_rx_sequence s, st_received_any s, st_remote_session s,
     st_acknowledgement_session s, st_acknowledgement_sequence s)"

definition session_side where
  "session_side s = (st_local_session s, st_port_open s, st_close_pending s, st_had_remote_session s,
     st_remote_session s)"

definition send_side where
  "send_side s = (st_tx_queue s, st_next_tx_sequence s, map ts_data (st_tx_window s),
     map ts_sequence (st_tx_window s))"

lemma send_side_cong:
  assumes "send_side s' = send_side s"
  shows "sender_ok contents chunks written s' = sender_ok contents chunks written s"
    and "window_behind chunks k s' = window_behind chunks k s"
proof -
  have e: "(st_tx_window s' = []) = (st_tx_window s = [])" "map ts_data (st_tx_window s') = map ts_data (st_tx_window s)"
    "map ts_sequence (st_tx_window s') = map ts_sequence (st_tx_window s)"
    "st_tx_queue s' = st_tx_queue s" "st_next_tx_sequence s' = st_next_tx_sequence s"
    using assms by (auto simp: send_side_def dest: map_eq_imp_length_eq)
  have "map (unat \<circ> ts_sequence) (st_tx_window s') = map (unat \<circ> ts_sequence) (st_tx_window s)"
    using e(3) by (metis map_map)
  then show "sender_ok contents chunks written s' = sender_ok contents chunks written s"
    "window_behind chunks k s' = window_behind chunks k s"
    using e by (auto simp: sender_ok_def window_behind_def)
qed

lemma receive_side_cong:
  assumes "receive_side s' = receive_side s"
    and "st_acknowledgement_pending s' \<Longrightarrow> st_acknowledgement_pending s"
    and "receiver_ok contents peer chunks k read s"
  shows "receiver_ok contents peer chunks k read s'"
  using assms by (auto simp: receive_side_def receiver_ok_def)

lemma session_side_cong:
  "session_side s' = session_side s \<Longrightarrow> session_fixed own peer s' = session_fixed own peer s"
  by (auto simp: session_side_def session_fixed_def)

section \<open>Preparing an action\<close>

lemma fill_slot_sides:
  assumes "fill_slot qo s = (again, s')"
  shows "receive_side s' = receive_side s" and "session_side s' = session_side s"
    and "st_acknowledgement_pending s' = st_acknowledgement_pending s"
  using assms by (auto simp: fill_slot_def receive_side_def session_side_def split: option.splits prod.splits list.splits)

lemma fill_window_sides:
  "receive_side (fill_window qo n s) = receive_side s \<and> session_side (fill_window qo n s) = session_side s
   \<and> st_acknowledgement_pending (fill_window qo n s) = st_acknowledgement_pending s"
proof (induction n arbitrary: s)
  case (Suc n)
  obtain again s' where f: "fill_slot qo s = (again, s')" by fastforce
  with Suc.IH [of s'] fill_slot_sides [OF f] show ?case by (cases again) simp_all
qed simp

lemma pick_slot_sides:
  assumes "stream_pick_slot now_ms s = (r, s')"
  shows "receive_side s' = receive_side s" and "session_side s' = session_side s"
    and "send_side s' = send_side s" and "st_acknowledgement_pending s' = st_acknowledgement_pending s"
proof -
  obtain w where "s' = s\<lparr>st_tx_window := w\<rparr>" "map ts_sequence w = map ts_sequence (st_tx_window s)"
    "map ts_data w = map ts_data (st_tx_window s)" using find_unsent_pick [OF assms] by metis
  then show "receive_side s' = receive_side s" "session_side s' = session_side s"
    "send_side s' = send_side s" "st_acknowledgement_pending s' = st_acknowledgement_pending s"
    by (simp_all add: receive_side_def session_side_def send_side_def)
qed

text \<open>What preparing an action does when no session ends: at most the window is filled.\<close>

definition filled :: "('q, u8) queue_ops \<Rightarrow> 'q link_stream \<Rightarrow> 'q link_stream" where
  "filled qo s = fill_window qo (LINK_STREAM_WINDOW_SIZE - length (st_tx_window s)) s"

definition action_of :: "'q link_stream \<Rightarrow> 'q link_stream \<Rightarrow> stream_action \<Rightarrow> bool" where
  "action_of s s' a \<longleftrightarrow>
     sa_session a = st_local_session s \<and> sa_opcode a \<in> {OPCODE_OPEN, OPCODE_DATA, OPCODE_ACK}
     \<and> (sa_opcode a = OPCODE_DATA \<longrightarrow>
          (\<exists>slot \<in> set (st_tx_window s'). sa_sequence a = ts_sequence slot \<and> sa_data a = ts_data slot))
     \<and> (if st_acknowledgement_pending s
        then sa_acknowledgement_session a = st_acknowledgement_session s
             \<and> sa_acknowledgement_sequence a = st_acknowledgement_sequence s
        else sa_acknowledgement_session a = 0)"

lemma prepare_effect:
  assumes p: "stream_prepare_action_locked qo s now_ms stream_action_zero = (s', a)"
    and t: "peer_in_time now_ms s" and s: "st_port_open s" "\<not> st_close_pending s"
  shows "receive_side s' = receive_side s \<and> session_side s' = session_side s
      \<and> st_acknowledgement_pending s' = st_acknowledgement_pending s
      \<and> (send_side s' = send_side s \<or> send_side s' = send_side (filled qo s))
      \<and> (sa_valid a \<longrightarrow> action_of s s' a)"
proof -
  have e: "stream_expire_peer now_ms s = s" using t by (auto simp: stream_expire_peer_def peer_in_time_def)
  define b where "b = stream_action_fields s stream_action_zero"
  have b: "sa_acknowledgement_session b = (if st_acknowledgement_pending s then st_acknowledgement_session s else 0)"
    "st_acknowledgement_pending s \<Longrightarrow> sa_acknowledgement_sequence b = st_acknowledgement_sequence s"
    by (simp_all add: b_def stream_action_fields_def stream_action_zero_def Let_def)
  note f = fill_window_sides [of qo "LINK_STREAM_WINDOW_SIZE - length (st_tx_window s)" s, folded filled_def]
  obtain r s3 where pick: "stream_pick_slot now_ms (filled qo s) = (r, s3)" by fastforce
  note k = pick_slot_sides [OF pick] and m = find_unsent_pick [OF pick]
  have sess: "st_local_session s3 = st_local_session s"
    using f k(2) by (auto simp: session_side_def)
  have slot: "\<exists>t \<in> set (st_tx_window s3). ts_sequence slot = ts_sequence t \<and> ts_data slot = ts_data t" if r: "r = Some slot" for slot
  proof -
    obtain u where u: "u \<in> set (st_tx_window (filled qo s))" "ts_sequence slot = ts_sequence u" "ts_data slot = ts_data u"
      using m r by blast
    then obtain i where i: "i < length (st_tx_window (filled qo s))" "st_tx_window (filled qo s) ! i = u"
      by (auto simp: in_set_conv_nth)
    have "length (st_tx_window s3) = length (st_tx_window (filled qo s))"
      "ts_sequence (st_tx_window s3 ! i) = ts_sequence u" "ts_data (st_tx_window s3 ! i) = ts_data u"
      using m i by (metis map_eq_imp_length_eq, metis length_map nth_map, metis length_map nth_map)
    with i u show ?thesis by (metis nth_mem)
  qed
  have "(s' = s \<and> (sa_valid a \<longrightarrow> (sa_opcode a = OPCODE_OPEN \<and> sa_session a = st_local_session s
            \<and> sa_acknowledgement_session a = sa_acknowledgement_session b
            \<and> sa_acknowledgement_sequence a = sa_acknowledgement_sequence b)))
    \<or> (s' = s3 \<and> (sa_valid a \<longrightarrow> (sa_session a = st_local_session s3
            \<and> sa_acknowledgement_session a = sa_acknowledgement_session b
            \<and> sa_acknowledgement_sequence a = sa_acknowledgement_sequence b
            \<and> (sa_opcode a = OPCODE_ACK \<or> sa_opcode a = OPCODE_DATA \<and> r \<noteq> None
               \<and> sa_sequence a = ts_sequence (the r) \<and> sa_data a = ts_data (the r)))))"
    using p s pick
    unfolding stream_prepare_action_locked_def Let_def e b_def [symmetric] filled_def [symmetric]
    by (cases r) (auto split: if_splits)
  then show ?thesis
    using f k sess slot b by (auto simp: action_of_def)
qed

lemma unat_next_sequence: "unat q < 65535 \<Longrightarrow> unat (stream_next_sequence q) = unat q + 1"
proof -
  assume q: "unat q < 65535"
  then have "unat (q + 1) = unat q + 1" by (simp add: unat_word_ariths)
  moreover from this have "q + 1 \<noteq> 0" by auto
  ultimately show ?thesis by (simp add: stream_next_sequence_def)
qed

lemma unat_previous_sequence: "unat q = k + 1 \<Longrightarrow> 0 < k \<Longrightarrow> unat (stream_previous_sequence q) = k"
proof -
  assume q: "unat q = k + 1" and k: "0 < k"
  have ne: "q \<noteq> 1" using q k by auto
  have "1 \<le> q" using q by (simp add: word_le_nat_alt)
  then have "unat (q - 1) = unat q - 1" by (simp add: unat_sub word_le_nat_alt)
  then show ?thesis using q ne by (simp add: stream_previous_sequence_def)
qed

lemma sender_slot:
  assumes "sender_ok contents chunks written s" and "slot \<in> set (st_tx_window s)"
  shows "0 < unat (ts_sequence slot) \<and> unat (ts_sequence slot) = length chunks
     \<and> ts_data slot = chunks ! (unat (ts_sequence slot) - 1)"
proof -
  obtain x where "st_tx_window s = [x]" "ts_data x = last chunks" "unat (ts_sequence x) = length chunks" "chunks \<noteq> []"
    using assms by (auto simp: sender_ok_def map_eq_Cons_conv)
  with assms(2) show ?thesis by (simp add: last_conv_nth)
qed

context byte_queue
begin

lemma sender_filled:
  assumes ok: "sender_ok contents chunks written s" and k: "window_behind chunks k s" and n: "numbers_left s"
  shows "\<exists>new. sender_ok contents (chunks @ new) written (filled ops s)
           \<and> window_behind (chunks @ new) k (filled ops s)"
proof (cases "st_tx_window s")
  case (Cons slot w)
  then have "st_tx_window s = [slot]" using ok by (auto simp: sender_ok_def)
  then have "filled ops s = s" by (simp add: filled_def LINK_STREAM_WINDOW_SIZE_def)
  then show ?thesis using ok k by (intro exI [of _ "[]"]) simp
next
  case Nil
  obtain q where q: "st_tx_queue s = Some q" "written = concat chunks @ contents q"
    using ok by (auto simp: sender_ok_def)
  obtain bs q' where r: "receive_upto ops (st_data_mtu s) q = (bs, q')" by fastforce
  note spec = receive_upto_spec [OF r]
  have f: "filled ops s = (case fill_slot ops s of (False, _) \<Rightarrow> s | (True, s1) \<Rightarrow> s1)"
    using Nil by (simp add: filled_def LINK_STREAM_WINDOW_SIZE_def split: prod.splits bool.splits)
  show ?thesis
  proof (cases bs)
    case Nil
    then have "filled ops s = s" using f q r by (simp add: fill_slot_def)
    then show ?thesis using ok k by (intro exI [of _ "[]"]) simp
  next
    case (Cons b cs)
    have s': "filled ops s = s\<lparr>st_tx_queue := Some q',
        st_next_tx_sequence := stream_next_sequence (st_next_tx_sequence s),
        st_tx_window := [\<lparr>ts_sequence = st_next_tx_sequence s, ts_data = bs, ts_sent = False,
                      ts_ever_sent = False, ts_last_send_ms = 0\<rparr>]\<rparr>"
      using f q r Cons Nil by (simp add: fill_slot_def)
    have num: "unat (st_next_tx_sequence s) = length chunks + 1" "unat (st_next_tx_sequence s) < 65535"
      using ok n by (simp_all add: sender_ok_def numbers_left_def)
    have cut: "bs @ contents q' = contents q" using spec by simp
    have "length chunks = k" using k Nil by (simp add: window_behind_def)
    then have "sender_ok contents (chunks @ [bs]) written (filled ops s)
        \<and> window_behind (chunks @ [bs]) k (filled ops s)"
      using num q cut unat_next_sequence [OF num(2)]
      by (simp add: s' sender_ok_def window_behind_def)
    then show ?thesis by blast
  qed
qed

lemma sender_prepare:
  assumes ok: "sender_ok contents chunks written s" and k: "window_behind chunks k s" and n: "numbers_left s"
    and p: "stream_prepare_action_locked ops s now_ms stream_action_zero = (s', a)"
    and t: "peer_in_time now_ms s" and s: "st_port_open s" "\<not> st_close_pending s"
    and F: "data_frames_ok chunks F"
  shows "\<exists>new. sender_ok contents (chunks @ new) written s' \<and> window_behind (chunks @ new) k s'
           \<and> data_frames_ok (chunks @ new) (if sa_valid a then insert a F else F)"
proof -
  note e = prepare_effect [OF p t s]
  obtain new where new: "sender_ok contents (chunks @ new) written s'" "window_behind (chunks @ new) k s'"
  proof (cases "send_side s' = send_side s")
    case True
    then show ?thesis using that [of "[]"] ok k send_side_cong [OF True] by simp
  next
    case False
    then have e': "send_side s' = send_side (filled ops s)" using e by blast
    from sender_filled [OF ok k n] that show ?thesis using send_side_cong [OF e'] by blast
  qed
  have old: "data_frames_ok (chunks @ new) F"
    using F by (auto simp: data_frames_ok_def nth_append Suc_le_eq)
  have "0 < unat (sa_sequence a) \<and> unat (sa_sequence a) \<le> length (chunks @ new)
      \<and> sa_data a = (chunks @ new) ! (unat (sa_sequence a) - 1)" if v: "sa_valid a" "sa_opcode a = OPCODE_DATA"
  proof -
    obtain slot where "slot \<in> set (st_tx_window s')" "sa_sequence a = ts_sequence slot" "sa_data a = ts_data slot"
      using e v by (auto simp: action_of_def)
    with sender_slot [OF new(1) this(1)] show ?thesis by (metis order_refl)
  qed
  with new old show ?thesis by (intro exI [of _ new]) (auto simp: data_frames_ok_def)
qed

end

section \<open>Committing an action\<close>

lemma commit_sides:
  "receive_side (stream_commit_action a err now_ms s) = receive_side s"
  "session_side (stream_commit_action a err now_ms s) = (if sa_opcode a = OPCODE_CLOSE \<and> err = ESP_OK
     then session_side (s\<lparr>st_close_pending := False\<rparr>) else session_side s)"
  "send_side (stream_commit_action a err now_ms s) = send_side s"
  "st_acknowledgement_pending (stream_commit_action a err now_ms s) \<Longrightarrow> st_acknowledgement_pending s"
proof -
  have m: "send_side (stream_mark_sent q now_ms t) = send_side t" for q and t :: "'a link_stream"
    using mark_sent_window [of q now_ms t]
    by (simp add: send_side_def) (simp add: stream_mark_sent_def set_counters_def Let_def split: option.splits)
  have c: "send_side (set_counters f t) = send_side t" "send_side (note_error e t) = send_side t"
    "send_side (stream_commit_acknowledgement a t) = send_side t" for f e and t :: "'a link_stream"
    by (simp_all add: send_side_def set_counters_def note_error_def stream_commit_acknowledgement_def)
  show "send_side (stream_commit_action a err now_ms s) = send_side s"
    by (simp add: stream_commit_action_def Let_def c m split: stream_opcode.splits)
       (simp add: send_side_def note_error_def set_counters_def stream_commit_acknowledgement_def)
  show "receive_side (stream_commit_action a err now_ms s) = receive_side s"
    by (simp add: stream_commit_action_def stream_commit_acknowledgement_def stream_mark_sent_def note_error_def
        set_counters_def receive_side_def Let_def split: stream_opcode.splits option.splits)
  show "session_side (stream_commit_action a err now_ms s) = (if sa_opcode a = OPCODE_CLOSE \<and> err = ESP_OK
     then session_side (s\<lparr>st_close_pending := False\<rparr>) else session_side s)"
    by (simp add: stream_commit_action_def stream_commit_acknowledgement_def stream_mark_sent_def note_error_def
        set_counters_def session_side_def Let_def split: stream_opcode.splits option.splits)
  show "st_acknowledgement_pending (stream_commit_action a err now_ms s) \<Longrightarrow> st_acknowledgement_pending s"
    by (simp add: stream_commit_action_def stream_commit_acknowledgement_def stream_mark_sent_def note_error_def
        set_counters_def Let_def split: stream_opcode.splits option.splits if_splits)
qed

section \<open>Ingesting a frame\<close>

text \<open>The acknowledgement of a frame either leaves the window alone or empties it.\<close>

lemma apply_ack_effect:
  assumes s: "sender_ok contents chunks written s" and k: "window_behind chunks k s" "k \<le> length chunks"
    and ack: "ack_session = st_local_session s \<Longrightarrow> unat ack_sequence \<le> k"
  shows "sender_ok contents chunks written (stream_apply_acknowledgement_locked s ack_session ack_sequence)
    \<and> window_behind chunks k (stream_apply_acknowledgement_locked s ack_session ack_sequence)"
proof (cases "ack_session = st_local_session s \<and> st_tx_window s \<noteq> []")
  case False
  then have "stream_apply_acknowledgement_locked s ack_session ack_sequence = s"
    by (auto simp: stream_apply_acknowledgement_locked_def)
  then show ?thesis using s k by simp
next
  case True
  then obtain slot where w: "st_tx_window s = [slot]" "unat (ts_sequence slot) = length chunks"
    using s by (auto simp: sender_ok_def map_eq_Cons_conv)
  show ?thesis
  proof (cases "ts_sequence slot = ack_sequence")
    case False
    then have "stream_apply_acknowledgement_locked s ack_session ack_sequence = s"
      using w by (simp add: stream_apply_acknowledgement_locked_def)
    then show ?thesis using s k by simp
  next
    case ackd: True
    then have "k = length chunks" using ack True w k by auto
    with ackd True w s show ?thesis
      by (simp add: stream_apply_acknowledgement_locked_def set_counters_def sender_ok_def window_behind_def)
  qed
qed

lemma apply_ack_sides [simp]:
  "receive_side (stream_apply_acknowledgement_locked s x y) = receive_side s"
  "session_side (stream_apply_acknowledgement_locked s x y) = session_side s"
  "st_acknowledgement_pending (stream_apply_acknowledgement_locked s x y) = st_acknowledgement_pending s"
  by (simp_all add: stream_apply_acknowledgement_locked_def receive_side_def session_side_def set_counters_def
      Let_def split: option.splits)

text \<open>The stream after the first OPEN of its peer.\<close>

definition peer_opened :: "'q queue_admin \<Rightarrow> u32 \<Rightarrow> 'q link_stream \<Rightarrow> 'q link_stream" where
  "peer_opened qa peer s = s\<lparr>st_remote_session := peer, st_expected_rx_sequence := 1, st_received_any := False,
     st_acknowledgement_pending := False, st_acknowledgement_due_ms := 0,
     st_rx_queue := map_option (qa_reset qa) (st_rx_queue s), st_next_open_ms := 0, st_had_remote_session := True\<rparr>"

definition same_sides :: "'q link_stream \<Rightarrow> 'q link_stream \<Rightarrow> bool" where
  "same_sides s' s \<longleftrightarrow> receive_side s' = receive_side s \<and> send_side s' = send_side s
     \<and> session_side s' = session_side s \<and> st_acknowledgement_pending s' = st_acknowledgement_pending s
     \<and> st_data_mtu s' = st_data_mtu s"

lemma same_sides_simps [simp]:
  "same_sides s s" "same_sides (note_error e s) s" "same_sides (note_drop s) s" "same_sides (set_counters f s) s"
  "same_sides (s\<lparr>st_remote_last_seen_ms := t\<rparr>) s"
  by (simp_all add: same_sides_def receive_side_def send_side_def session_side_def note_error_def note_drop_def
      set_counters_def)

lemma same_sides_trans: "same_sides s2 s1 \<Longrightarrow> same_sides s1 s \<Longrightarrow> same_sides s2 s"
  by (simp add: same_sides_def)

lemma same_sides_open:
  assumes "same_sides s' s"
  shows "same_sides (peer_opened qa peer s') (peer_opened qa peer s)"
  using assms by (simp add: same_sides_def peer_opened_def receive_side_def send_side_def session_side_def)

lemma ingest_decompose:
  assumes s: "session_fixed own peer s" and a: "sa_session a = peer" "sa_opcode a \<in> {OPCODE_OPEN, OPCODE_DATA, OPCODE_ACK}"
    and r: "stream_ingest_locked qo qa rv (action_decoded a) now_ms s = (err, s')"
  obtains (ignored) "same_sides s' s"
  | (taken) s1 where "same_sides s1 s \<and> (sa_opcode a = OPCODE_DATA \<longrightarrow> st_remote_session s = peer)
        \<or> same_sides s1 (peer_opened qa peer s) \<and> st_remote_session s = 0 \<and> sa_opcode a = OPCODE_OPEN"
      "s' = (let s2 = stream_apply_acknowledgement_locked s1 (sa_acknowledgement_session a)
                        (sa_acknowledgement_sequence a)
             in if sa_opcode a = OPCODE_DATA then snd (ingest_data qo qa peer (sa_sequence a) (sa_data a) now_ms s2)
                else s2)"
proof -
  define s0 where "s0 = note_error ESP_OK s"
  have d: "de_opcode (action_decoded a) = sa_opcode a" "de_session (action_decoded a) = peer"
    "de_sequence (action_decoded a) = sa_sequence a" "de_data (action_decoded a) = sa_data a"
    "de_acknowledgement_session (action_decoded a) = sa_acknowledgement_session a"
    "de_acknowledgement_sequence (action_decoded a) = sa_acknowledgement_sequence a"
    using a(1) by (simp_all add: action_decoded_def)
  have rs0: "st_remote_session s0 = st_remote_session s" "same_sides s0 s"
    by (simp_all add: s0_def note_error_def set_counters_def) (simp add: same_sides_def receive_side_def
      send_side_def session_side_def)
  define s1 where "s1 = (if sa_opcode a = OPCODE_OPEN then ingest_open qa rv peer s0 else s0)"
  note u = r [unfolded stream_ingest_locked_def Let_def d, folded s0_def, folded s1_def]
  have result: "s' = (let s2 = stream_apply_acknowledgement_locked (s1\<lparr>st_remote_last_seen_ms := now_ms\<rparr>)
        (sa_acknowledgement_session a) (sa_acknowledgement_sequence a)
      in if sa_opcode a = OPCODE_DATA then snd (ingest_data qo qa peer (sa_sequence a) (sa_data a) now_ms s2)
         else s2)" if "sa_opcode a = OPCODE_OPEN \<or> peer = st_remote_session s0"
    using u a(2) that by (auto simp: Let_def)
  show ?thesis
  proof (cases "sa_opcode a = OPCODE_OPEN")
    case False
    show ?thesis
    proof (cases "peer = st_remote_session s0")
      case ne: False
      then have "s' = note_error ESP_ERR_INVALID_STATE (note_drop s0)" using u False by simp
      then have "same_sides s' s" using rs0(2) same_sides_simps same_sides_trans by metis
      then show ?thesis by (rule ignored)
    next
      case True
      have "same_sides (s1\<lparr>st_remote_last_seen_ms := now_ms\<rparr>) s"
        using False rs0(2) same_sides_simps(5) same_sides_trans by (metis s1_def)
      then show ?thesis using result True False rs0(1) by (intro taken) auto
    qed
  next
    case True
    show ?thesis
    proof (cases "st_remote_session s = peer")
      case same: True
      then have "s1 = s0" using True rs0 by (simp add: s1_def ingest_open_def)
      then have "same_sides (s1\<lparr>st_remote_last_seen_ms := now_ms\<rparr>) s"
        using rs0(2) same_sides_simps(5) same_sides_trans by metis
      then show ?thesis using result True by (intro taken) auto
    next
      case False
      then have z: "st_remote_session s = 0" "\<not> st_had_remote_session s" "peer \<noteq> 0"
        using s by (auto simp: session_fixed_def)
      then have "s1 = peer_opened qa peer s0"
        using True False rs0(1)
        by (simp add: s1_def s0_def ingest_open_def peer_opened_def note_error_def set_counters_def Let_def)
      then have "same_sides (s1\<lparr>st_remote_last_seen_ms := now_ms\<rparr>) (peer_opened qa peer s)"
        using same_sides_open [OF rs0(2), of qa peer] same_sides_simps(5) same_sides_trans by metis
      then show ?thesis using result True z(1) by (intro taken) auto
    qed
  qed
qed

lemma ingest_data_sides:
  "send_side (snd (ingest_data qo qa peer seq data now_ms s)) = send_side s"
  "session_side (snd (ingest_data qo qa peer seq data now_ms s)) = session_side s"
  by (simp_all add: ingest_data_def ingest_schedule_ack_def ingest_accept_def note_error_def note_drop_def
      set_counters_def send_side_def session_side_def)

lemma schedule_ack_receiver:
  assumes "receiver_ok contents peer chunks k read s"
  shows "receiver_ok contents peer chunks k read (ingest_schedule_ack peer now_ms s)"
proof (cases "0 < k")
  case True
  then have "unat (st_expected_rx_sequence s) = k + 1" "st_received_any s" using assms by (auto simp: receiver_ok_def)
  from unat_previous_sequence [OF this(1) True] this(2) assms show ?thesis
    by (auto simp: receiver_ok_def ingest_schedule_ack_def)
next
  case False
  then have "unat (st_expected_rx_sequence s) = 1" "\<not> st_received_any s" using assms by (auto simp: receiver_ok_def)
  then have "ingest_schedule_ack peer now_ms s = s" by (simp add: ingest_schedule_ack_def word_unat_eq_iff)
  then show ?thesis using assms by simp
qed

lemma counters_receiver:
  "receiver_ok contents peer chunks k read s \<Longrightarrow> receiver_ok contents peer chunks k read (note_drop s)"
  "receiver_ok contents peer chunks k read s \<Longrightarrow> receiver_ok contents peer chunks k read (note_error e s)"
  by (auto simp: receiver_ok_def note_drop_def note_error_def set_counters_def)

context byte_queue
begin

lemma receiver_accepts:
  assumes ok: "receiver_ok contents peer chunks k read s" and remote: "st_remote_session s \<noteq> 0"
    and seq: "unat (st_expected_rx_sequence s) \<le> length chunks" "length chunks < 65535"
    and data: "data = chunks ! (unat (st_expected_rx_sequence s) - 1)"
    and room: "length data \<le> (case st_rx_queue s of None \<Rightarrow> 0 | Some q \<Rightarrow> qa_spaces adm q)"
  shows "receiver_ok contents peer chunks (k + 1) read (ingest_schedule_ack peer now_ms (ingest_accept ops data s))"
proof -
  obtain q where q: "st_rx_queue s = Some q" "read @ contents q = concat (take k chunks)"
    using ok by (auto simp: receiver_ok_def)
  have k: "unat (st_expected_rx_sequence s) = k + 1" "k < length chunks" "data = chunks ! k"
    using ok seq data by (auto simp: receiver_ok_def)
  have bytes: "contents (send_bytes ops data q) = contents q @ data"
  proof (cases data)
    case Cons
    then have "length (contents q) + length data \<le> depth q" using room q spaces [of q] by simp
    then show ?thesis using send_bytes_spec by blast
  qed simp
  have succ: "unat (stream_next_sequence (st_expected_rx_sequence s)) = k + 2"
    using unat_next_sequence [of "st_expected_rx_sequence s"] k seq by simp
  have "concat (take (Suc k) chunks) = concat (take k chunks) @ data"
    using k by (simp add: take_Suc_conv_app_nth)
  then have all: "read @ contents (send_bytes ops data q) = concat (take (k + 1) chunks)"
    using q bytes by (metis Suc_eq_plus1 append.assoc)
  have prev: "unat (stream_previous_sequence (stream_next_sequence (st_expected_rx_sequence s))) = k + 1"
    by (rule unat_previous_sequence) (simp_all add: succ)
  show ?thesis
    using ok q k succ all prev remote
    by (simp add: receiver_ok_def ingest_schedule_ack_def ingest_accept_def set_counters_def)
qed

lemma receiver_ingest_data:
  assumes ok: "receiver_ok contents peer chunks k read s" and remote: "st_remote_session s = peer" "peer \<noteq> 0"
    and seq: "0 < unat seq" "unat seq \<le> length chunks" "length chunks < 65535"
    and data: "data = chunks ! (unat seq - 1)"
  shows "\<exists>k' \<ge> k. receiver_ok contents peer chunks k' read (snd (ingest_data ops adm peer seq data now_ms s))"
proof (cases "st_data_mtu s < length data")
  case True
  then show ?thesis using ok
    by (intro exI [of _ k]) (simp add: ingest_data_def counters_receiver)
next
  case mtu: False
  show ?thesis
  proof (cases "seq = st_expected_rx_sequence s")
    case False
    then show ?thesis
      using ok mtu
      by (intro exI [of _ k]) (simp add: ingest_data_def schedule_ack_receiver counters_receiver)
  next
    case True
    show ?thesis
    proof (cases "(case st_rx_queue s of None \<Rightarrow> 0 | Some q \<Rightarrow> qa_spaces adm q) < length data")
      case full: True
      then show ?thesis using True mtu ok
        by (intro exI [of _ k]) (simp add: ingest_data_def counters_receiver)
    next
      case False
      have "receiver_ok contents peer chunks (k + 1) read
          (ingest_schedule_ack peer now_ms (ingest_accept ops data s))"
        by (rule receiver_accepts) (use ok remote seq data True False in auto)
      moreover have "snd (ingest_data ops adm peer seq data now_ms s)
          = ingest_schedule_ack peer now_ms (ingest_accept ops data s)"
        using True mtu False by (simp add: ingest_data_def)
      ultimately show ?thesis by (metis le_add1)
    qed
  qed
qed

lemma receiver_peer_opened:
  assumes "receiver_ok contents peer chunks k read s" and "st_remote_session s = 0" and "peer \<noteq> 0"
  shows "receiver_ok contents peer chunks k read (peer_opened adm peer s)"
  using assms by (auto simp: receiver_ok_def peer_opened_def reset_contents)

end

section \<open>Each step keeps the bytes in order\<close>

lemma peer_opened_sides:
  "send_side (peer_opened qa peer s) = send_side s"
  "session_fixed own peer s \<Longrightarrow> session_fixed own peer (peer_opened qa peer s)"
  by (simp_all add: send_side_def peer_opened_def session_fixed_def)

lemma ingest_session:
  assumes s: "session_fixed own peer s" and a: "sa_session a = peer" "sa_opcode a \<in> {OPCODE_OPEN, OPCODE_DATA, OPCODE_ACK}"
    and r: "stream_ingest_locked qo qa rv (action_decoded a) now_ms s = (err, s')"
  shows "session_fixed own peer s'"
  using s a r
proof (cases rule: ingest_decompose)
  case ignored
  then show ?thesis using s session_side_cong by (auto simp: same_sides_def)
next
  case (taken s1)
  have "session_fixed own peer s1"
    using taken(1) s peer_opened_sides(2) [OF s, of qa] session_side_cong by (auto simp: same_sides_def)
  then have "session_fixed own peer (stream_apply_acknowledgement_locked s1 x y)" for x y
    using session_side_cong [OF apply_ack_sides(2)] by blast
  then show ?thesis
    by (simp add: taken(2) Let_def session_side_cong [OF ingest_data_sides(2)])
qed

lemma sender_ingest:
  assumes s: "session_fixed own peer s" and a: "sa_session a = peer" "sa_opcode a \<in> {OPCODE_OPEN, OPCODE_DATA, OPCODE_ACK}"
    and r: "stream_ingest_locked qo qa rv (action_decoded a) now_ms s = (err, s')"
    and ok: "sender_ok contents chunks written s" "window_behind chunks k s" "k \<le> length chunks"
    and ack: "sa_acknowledgement_session a = own \<Longrightarrow> unat (sa_acknowledgement_sequence a) \<le> k"
  shows "sender_ok contents chunks written s' \<and> window_behind chunks k s'"
  using s a r
proof (cases rule: ingest_decompose)
  case ignored
  then have "send_side s' = send_side s" by (simp add: same_sides_def)
  from send_side_cong [OF this] ok show ?thesis by simp
next
  case (taken s1)
  have e: "send_side s1 = send_side s" "st_local_session s1 = own"
    using taken(1) peer_opened_sides(1) [of qa peer s] s
    by (auto simp: same_sides_def session_fixed_def session_side_def peer_opened_def)
  define s2 where "s2 = stream_apply_acknowledgement_locked s1 (sa_acknowledgement_session a) (sa_acknowledgement_sequence a)"
  have ok2: "sender_ok contents chunks written s2 \<and> window_behind chunks k s2"
    unfolding s2_def
    by (rule apply_ack_effect) (use ok e ack send_side_cong [OF e(1)] in auto)
  then show ?thesis
    by (simp add: taken(2) Let_def s2_def send_side_cong [OF ingest_data_sides(1)])
qed

context byte_queue
begin

lemma receiver_ingest:
  assumes s: "session_fixed own peer s" and a: "sa_session a = peer" "sa_opcode a \<in> {OPCODE_OPEN, OPCODE_DATA, OPCODE_ACK}"
    and r: "stream_ingest_locked ops adm rv (action_decoded a) now_ms s = (err, s')"
    and ok: "receiver_ok contents peer chunks k read s"
    and len: "length chunks < 65535"
    and data: "sa_opcode a = OPCODE_DATA \<Longrightarrow> 0 < unat (sa_sequence a) \<and> unat (sa_sequence a) \<le> length chunks
        \<and> sa_data a = chunks ! (unat (sa_sequence a) - 1)"
  shows "\<exists>k' \<ge> k. receiver_ok contents peer chunks k' read s'"
  using s a r
proof (cases rule: ingest_decompose)
  case ignored
  then show ?thesis using ok receive_side_cong [of s' s contents peer chunks k read]
    by (intro exI [of _ k]) (simp add: same_sides_def)
next
  case (taken s1)
  have peer: "peer \<noteq> 0" using s by (simp add: session_fixed_def)
  have ok1: "receiver_ok contents peer chunks k read s1"
    using taken(1) ok receiver_peer_opened [OF ok _ peer] receive_side_cong [of s1 s contents peer chunks k read]
      receive_side_cong [of s1 "peer_opened adm peer s" contents peer chunks k read]
    by (auto simp: same_sides_def)
  define s2 where "s2 = stream_apply_acknowledgement_locked s1 (sa_acknowledgement_session a) (sa_acknowledgement_sequence a)"
  have ok2: "receiver_ok contents peer chunks k read s2"
    unfolding s2_def by (rule receive_side_cong [OF _ _ ok1]) simp_all
  show ?thesis
  proof (cases "sa_opcode a = OPCODE_DATA")
    case False
    then show ?thesis using taken(2) ok2 by (auto simp: s2_def Let_def)
  next
    case True
    then have "st_remote_session s1 = peer" using taken(1) by (auto simp: same_sides_def receive_side_def)
    then have "st_remote_session s2 = peer" by (simp add: s2_def)
    from receiver_ingest_data [OF ok2 this peer _ _ len] data [OF True] show ?thesis
      using taken(2) True by (simp add: s2_def Let_def)
  qed
qed

end

definition transfer_inv :: "('q \<Rightarrow> u8 list) \<Rightarrow> u32 \<Rightarrow> u32 \<Rightarrow> u8 list list \<Rightarrow> nat \<Rightarrow> 'q transfer \<Rightarrow> bool" where
  "transfer_inv contents a b chunks k t \<longleftrightarrow>
     session_fixed a b (tr_a t) \<and> session_fixed b a (tr_b t) \<and> frames_from a (tr_a_frames t)
     \<and> frames_from b (tr_b_frames t) \<and> sender_ok contents chunks (tr_written t) (tr_a t)
     \<and> data_frames_ok chunks (tr_a_frames t) \<and> receiver_ok contents a chunks k (tr_read t) (tr_b t)
     \<and> window_behind chunks k (tr_a t) \<and> ack_frames_ok a k (tr_b_frames t)"

lemma receiver_extend:
  "receiver_ok contents peer chunks k read s \<Longrightarrow> receiver_ok contents peer (chunks @ new) k read s"
  by (auto simp: receiver_ok_def)

lemma window_mono: "window_behind chunks k s \<Longrightarrow> k \<le> k' \<Longrightarrow> k' \<le> length chunks \<Longrightarrow> window_behind chunks k' s"
  by (auto simp: window_behind_def split: if_splits)

lemma ack_frames_mono: "ack_frames_ok peer k F \<Longrightarrow> k \<le> k' \<Longrightarrow> ack_frames_ok peer k' F"
  by (force simp: ack_frames_ok_def)

context byte_queue
begin

lemma inv_step_a:
  assumes inv: "transfer_inv contents a b chunks k t"
    and st: "endpoint_step ops adm (tr_a_frames t) (tr_b_frames t) (tr_a t) s' F"
  shows "\<exists>new. transfer_inv contents a b (chunks @ new) k (t\<lparr>tr_a := s', tr_a_frames := F\<rparr>)"
  using st
proof (cases rule: endpoint_step.cases)
  case (es_prepare now_ms x)
  have s: "session_fixed a b (tr_a t)" using inv by (simp add: transfer_inv_def)
  then have o: "st_port_open (tr_a t)" "\<not> st_close_pending (tr_a t)" by (simp_all add: session_fixed_def)
  note e = prepare_effect [OF es_prepare(4,2) o]
  obtain new where "sender_ok contents (chunks @ new) (tr_written t) s'" "window_behind (chunks @ new) k s'"
    "data_frames_ok (chunks @ new) F"
    using sender_prepare [OF _ _ es_prepare(3,4,2) o, of chunks "tr_written t" k "tr_a_frames t"] inv es_prepare(1)
    by (auto simp: transfer_inv_def)
  moreover have "session_fixed a b s'" using e s session_side_cong by blast
  moreover have "frames_from a F"
    using inv e s es_prepare(1) by (auto simp: transfer_inv_def frames_from_def action_of_def session_fixed_def)
  ultimately show ?thesis using inv receiver_extend by (auto simp: transfer_inv_def intro!: exI [of _ new])
next
  case (es_commit x err now_ms)
  have "sa_opcode x \<noteq> OPCODE_CLOSE" using inv es_commit(3) by (auto simp: transfer_inv_def frames_from_def)
  then have "session_side s' = session_side (tr_a t)" "send_side s' = send_side (tr_a t)"
    using commit_sides(2,3) [of x err now_ms "tr_a t"] es_commit(1) by simp_all
  from session_side_cong [OF this(1)] send_side_cong [OF this(2)] inv es_commit(2) show ?thesis
    by (intro exI [of _ "[]"]) (simp add: transfer_inv_def)
next
  case (es_ingest x rv now_ms err)
  have s: "session_fixed a b (tr_a t)" using inv by (simp add: transfer_inv_def)
  have x: "sa_session x = b" "sa_opcode x \<in> {OPCODE_OPEN, OPCODE_DATA, OPCODE_ACK}"
    using inv es_ingest(2) by (auto simp: transfer_inv_def frames_from_def)
  have ack: "sa_acknowledgement_session x = a \<Longrightarrow> unat (sa_acknowledgement_sequence x) \<le> k"
    using inv es_ingest(2) by (auto simp: transfer_inv_def ack_frames_ok_def)
  have k: "k \<le> length chunks" using inv by (auto simp: transfer_inv_def receiver_ok_def)
  have "sender_ok contents chunks (tr_written t) s' \<and> window_behind chunks k s'"
    by (rule sender_ingest [OF s x es_ingest(3) _ _ k ack]) (use inv in \<open>auto simp: transfer_inv_def\<close>)
  then show ?thesis
    using inv ingest_session [OF s x es_ingest(3)] es_ingest(1)
    by (intro exI [of _ "[]"]) (simp add: transfer_inv_def)
qed

lemma inv_step_b:
  assumes inv: "transfer_inv contents a b chunks k t"
    and st: "endpoint_step ops adm (tr_b_frames t) (tr_a_frames t) (tr_b t) s' F"
  shows "\<exists>k'. transfer_inv contents a b chunks k' (t\<lparr>tr_b := s', tr_b_frames := F\<rparr>)"
proof -
  have s: "session_fixed b a (tr_b t)" and ok: "receiver_ok contents a chunks k (tr_read t) (tr_b t)"
    and len: "length chunks < 65535"
    using inv by (simp_all add: transfer_inv_def sender_ok_def)
  show ?thesis
    using st
  proof (cases rule: endpoint_step.cases)
    case (es_prepare now_ms x)
    have o: "st_port_open (tr_b t)" "\<not> st_close_pending (tr_b t)" using s by (simp_all add: session_fixed_def)
    note e = prepare_effect [OF es_prepare(4,2) o]
    have "receiver_ok contents a chunks k (tr_read t) s'"
      by (rule receive_side_cong [OF _ _ ok]) (use e in auto)
    moreover have "session_fixed b a s'" using e s session_side_cong by blast
    moreover have "frames_from b F \<and> ack_frames_ok a k F"
      using inv e s ok es_prepare(1)
      by (auto simp: transfer_inv_def frames_from_def ack_frames_ok_def action_of_def session_fixed_def
          receiver_ok_def split: if_splits)
    ultimately show ?thesis using inv by (intro exI [of _ k]) (simp add: transfer_inv_def)
  next
    case (es_commit x err now_ms)
    have "sa_opcode x \<noteq> OPCODE_CLOSE" using inv es_commit(3) by (auto simp: transfer_inv_def frames_from_def)
    then have c: "session_side s' = session_side (tr_b t)"
      using commit_sides(2) [of x err now_ms "tr_b t"] es_commit(1) by simp
    have "receiver_ok contents a chunks k (tr_read t) s'"
      unfolding es_commit(1) by (rule receive_side_cong [OF commit_sides(1,4) ok])
    then show ?thesis using inv session_side_cong [OF c] es_commit(2)
      by (intro exI [of _ k]) (simp add: transfer_inv_def)
  next
    case (es_ingest x rv now_ms err)
    have x: "sa_session x = a" "sa_opcode x \<in> {OPCODE_OPEN, OPCODE_DATA, OPCODE_ACK}"
      using inv es_ingest(2) by (auto simp: transfer_inv_def frames_from_def)
    have "\<exists>k' \<ge> k. receiver_ok contents a chunks k' (tr_read t) s'"
      by (rule receiver_ingest [OF s x es_ingest(3) ok len])
         (use inv es_ingest(2) in \<open>auto simp: transfer_inv_def data_frames_ok_def\<close>)
    then obtain k' where k': "k \<le> k'" "receiver_ok contents a chunks k' (tr_read t) s'" by blast
    then have "k' \<le> length chunks" by (simp add: receiver_ok_def)
    then show ?thesis
      using inv k' ingest_session [OF s x es_ingest(3)] es_ingest(1)
      by (intro exI [of _ k']) (auto simp: transfer_inv_def intro: window_mono ack_frames_mono)
  qed
qed

lemma write_bytes_contents:
  "write_bytes ops expired k bs q = (err, n, q') \<Longrightarrow>
     k \<le> n \<and> contents q' = contents q @ take (n - k) bs"
proof (induction bs arbitrary: k q)
  case (Cons b bs)
  show ?case
  proof (cases "expired k \<or> q_send ops q b = None")
    case True
    then show ?thesis using Cons.prems by (auto split: if_splits)
  next
    case False
    then obtain q1 where q1: "q_send ops q b = Some q1" by blast
    have w: "write_bytes ops expired (k + 1) bs q1 = (err, n, q')" using Cons.prems False q1 by simp
    from Cons.IH [OF w] have "Suc k \<le> n" "contents q' = contents q @ b # take (n - Suc k) bs"
      using send_SomeD(1) [OF q1] by auto
    moreover from this(1) have "take (n - k) (b # bs) = b # take (n - Suc k) bs"
      by (metis Suc_diff_le diff_Suc_Suc take_Suc_Cons)
    ultimately show ?thesis by simp
  qed
qed simp

lemma inv_step:
  assumes inv: "transfer_inv contents a b chunks k t" and st: "transfer_step ops adm t t'"
  shows "\<exists>chunks' k'. transfer_inv contents a b chunks' k' t'"
  using st
proof (cases rule: transfer_step.cases)
  case (ts_a s' F)
  then show ?thesis using inv_step_a [OF inv] by blast
next
  case (ts_b s' F)
  then show ?thesis using inv_step_b [OF inv] by blast
next
  case (ts_write q expired bs err n q')
  have "contents q' = contents q @ take n bs" using write_bytes_contents [OF ts_write(3)] by simp
  then have "transfer_inv contents a b chunks k t'" using inv ts_write(1,2)
    by (auto simp: transfer_inv_def sender_ok_def session_fixed_def window_behind_def)
  then show ?thesis by blast
next
  case (ts_read q n bs q')
  have "bs @ contents q' = contents q" using receive_upto_spec [OF ts_read(3)] by simp
  then have "transfer_inv contents a b chunks k t'" using inv ts_read(1,2)
    by (auto simp: transfer_inv_def receiver_ok_def session_fixed_def)
  then show ?thesis by blast
next
  case (ts_write_b q expired bs err n q')
  then have "transfer_inv contents a b chunks k t'" using inv
    by (auto simp: transfer_inv_def receiver_ok_def session_fixed_def)
  then show ?thesis by blast
next
  case (ts_read_a q n bs q')
  then have "transfer_inv contents a b chunks k t'" using inv
    by (auto simp: transfer_inv_def sender_ok_def session_fixed_def window_behind_def)
  then show ?thesis by blast
qed

lemma transfer_inv_reachable:
  assumes "transfer_reachable ops adm contents depth t"
  shows "\<exists>chunks k. transfer_inv contents (st_local_session (tr_a t)) (st_local_session (tr_b t)) chunks k t"
  using assms
proof (induction rule: transfer_reachable.induct)
  case (tr_start a b)
  then have "transfer_inv contents (st_local_session a) (st_local_session b) [] 0
      \<lparr>tr_a = a, tr_b = b, tr_a_frames = {}, tr_b_frames = {}, tr_written = [], tr_read = []\<rparr>"
    by (auto simp: just_opened_def transfer_inv_def session_fixed_def frames_from_def sender_ok_def
        data_frames_ok_def receiver_ok_def window_behind_def ack_frames_ok_def)
  then show ?case by auto
next
  case (tr_step t t')
  then obtain chunks k where
    "transfer_inv contents (st_local_session (tr_a t)) (st_local_session (tr_b t)) chunks k t" by blast
  from inv_step [OF this tr_step(2)] obtain chunks' k' where i:
    "transfer_inv contents (st_local_session (tr_a t)) (st_local_session (tr_b t)) chunks' k' t'" by blast
  then have "st_local_session (tr_a t') = st_local_session (tr_a t)" "st_local_session (tr_b t') = st_local_session (tr_b t)"
    by (simp_all add: transfer_inv_def session_fixed_def)
  with i show ?case by metis
qed

end

section \<open>A run\<close>

text \<open>Reachable states by their parts.\<close>

definition run_state where
  "run_state a b F G w r = transfer_reachable list_queue_ops list_queue_admin snd fst
     \<lparr>tr_a = a, tr_b = b, tr_a_frames = F, tr_b_frames = G, tr_written = w, tr_read = r\<rparr>"

lemma run_a:
  assumes "run_state a b F G w r" and "endpoint_step list_queue_ops list_queue_admin F G a a' F'"
  shows "run_state a' b F' G w r"
  using tr_step [OF assms(1) [unfolded run_state_def] ts_a, of a' F'] assms(2) by (simp add: run_state_def)

lemma run_b:
  assumes "run_state a b F G w r" and "endpoint_step list_queue_ops list_queue_admin G F b b' G'"
  shows "run_state a b' F G' w r"
  using tr_step [OF assms(1) [unfolded run_state_def] ts_b, of b' G'] assms(2) by (simp add: run_state_def)

definition prepared where
  "prepared s now_ms = snd (stream_prepare_action_locked list_queue_ops s now_ms stream_action_zero)"

definition prepares where
  "prepares s now_ms = fst (stream_prepare_action_locked list_queue_ops s now_ms stream_action_zero)"

definition ingests where
  "ingests a now_ms s = snd (stream_ingest_locked list_queue_ops list_queue_admin 1 (action_decoded a) now_ms s)"

lemma run_prepare:
  assumes "peer_in_time now_ms s \<and> numbers_left s \<and> sa_valid (prepared s now_ms)"
  shows "endpoint_step list_queue_ops list_queue_admin F G s (prepares s now_ms) (insert (prepared s now_ms) F)"
  using es_prepare [of now_ms s list_queue_ops "prepares s now_ms" "prepared s now_ms" list_queue_admin F G] assms
  by (simp add: prepares_def prepared_def)

lemma run_ingest: "a \<in> G \<Longrightarrow> endpoint_step list_queue_ops list_queue_admin F G s (ingests a now_ms s) F"
  by (rule es_ingest [where rv = 1 and err = "fst (stream_ingest_locked list_queue_ops list_queue_admin 1
        (action_decoded a) now_ms s)"]) (simp_all add: ingests_def)

lemma run_write:
  assumes "run_state a b F G w r" and "st_tx_queue a = Some q"
    and "write_bytes list_queue_ops (\<lambda>_. False) 0 bs q = (ESP_OK, n, q')"
  shows "run_state (a\<lparr>st_tx_queue := Some q'\<rparr>) b F G (w @ take n bs) r"
  using tr_step [OF assms(1) [unfolded run_state_def] ts_write [OF _ assms(3)]]
  by (simp add: run_state_def assms(2))

lemma run_read:
  assumes "run_state a b F G w r" and "st_rx_queue b = Some q" and "receive_upto list_queue_ops n q = (bs, q')"
  shows "run_state a (b\<lparr>st_rx_queue := Some q'\<rparr>) F G w (r @ bs)"
  using tr_step [OF assms(1) [unfolded run_state_def] ts_read [OF _ assms(3)]]
  by (simp add: run_state_def assms(2))

definition run_opened :: "u32 \<Rightarrow> u8 list_queue link_stream" where
  "run_opened session = link_stream_zero\<lparr>st_active := True, st_generation := 1, st_port := ''vcom0'',
     st_link := ''lora'', st_peer_id := 9,
     st_config := \<lparr>sc_port_label = None, sc_acknowledgement_delay_ms = 40, sc_retry_ms = 800,
       sc_retry_jitter_ms = 400, sc_open_interval_ms = 15000, sc_peer_timeout_ms = 45000\<rparr>,
     st_data_mtu := 100, st_rx_queue := Some (2048, []), st_tx_queue := Some (2048, []), st_port_open := True,
     st_local_session := session, st_next_tx_sequence := 1, st_expected_rx_sequence := 1\<rparr>"

definition run_action :: "u32 \<Rightarrow> stream_action" where
  "run_action session = stream_action_zero\<lparr>sa_valid := True, sa_generation := 1, sa_opcode := OPCODE_OPEN,
     sa_port := ''vcom0'', sa_link := ''lora'', sa_peer_id := 9, sa_session := session\<rparr>"

definition run_a1 :: "u8 list_queue link_stream" where
  "run_a1 = (run_opened 77)\<lparr>st_tx_queue := Some (2048, [7, 8, 9])\<rparr>"

definition run_a2 :: "u8 list_queue link_stream" where
  "run_a2 = run_a1\<lparr>st_next_open_ms := 805\<rparr>"

definition run_a3 :: "u8 list_queue link_stream" where
  "run_a3 = run_a1\<lparr>st_remote_session := 88, st_had_remote_session := True, st_remote_last_seen_ms := 7\<rparr>"

definition run_a4 :: "u8 list_queue link_stream" where
  "run_a4 = run_a3\<lparr>st_next_open_ms := 15007\<rparr>"

definition run_a5 :: "u8 list_queue link_stream" where
  "run_a5 = run_a4\<lparr>st_tx_queue := Some (2048, []), st_next_tx_sequence := 2,
     st_tx_window := [\<lparr>ts_sequence = 1, ts_data = [7, 8, 9], ts_sent = False, ts_ever_sent = False,
       ts_last_send_ms = 0\<rparr>]\<rparr>"

definition run_data :: stream_action where
  "run_data = (run_action 77)\<lparr>sa_opcode := OPCODE_DATA, sa_sequence := 1, sa_data := [7, 8, 9]\<rparr>"

definition run_b1 :: "u8 list_queue link_stream" where
  "run_b1 = (run_opened 88)\<lparr>st_remote_session := 77, st_had_remote_session := True, st_remote_last_seen_ms := 6\<rparr>"

definition run_b2 :: "u8 list_queue link_stream" where
  "run_b2 = ingests run_data 9 run_b1"

lemma run_a_opens:
  "prepared run_a1 5 = run_action 77 \<and> prepares run_a1 5 = run_a1 \<and> peer_in_time 5 run_a1"
  by code_simp

lemma run_a_opened:
  "stream_commit_action (run_action 77) ESP_OK 5 run_a1 = run_a2"
  by code_simp

lemma run_b_hears:
  "ingests (run_action 77) 6 (run_opened 88) = run_b1"
  by code_simp

lemma run_b_opens:
  "prepared run_b1 6 = run_action 88 \<and> prepares run_b1 6 = run_b1 \<and> peer_in_time 6 run_b1"
  by code_simp

lemma run_a_hears:
  "ingests (run_action 88) 7 run_a2 = run_a3"
  by code_simp

lemma run_a_reopens:
  "prepared run_a3 7 = run_action 77 \<and> prepares run_a3 7 = run_a3 \<and> peer_in_time 7 run_a3"
  by code_simp

lemma run_a_reopened:
  "stream_commit_action (run_action 77) ESP_OK 7 run_a3 = run_a4"
  by code_simp

lemma run_a_sends:
  "prepared run_a4 8 = run_data \<and> prepares run_a4 8 = run_a5 \<and> peer_in_time 8 run_a4"
  by code_simp

lemma run_b_receives:
  "st_rx_queue run_b2 = Some (2048, [7, 8, 9])"
  by code_simp

lemma run_numbers: "numbers_left run_a1" "numbers_left run_b1" "numbers_left run_a3" "numbers_left run_a4"
  by (simp_all add: numbers_left_def run_a1_def run_b1_def run_a4_def run_a3_def run_opened_def)

lemmas run_facts = run_numbers run_a_opens run_a_opened run_b_hears run_b_opens run_a_hears run_a_reopens run_a_reopened run_a_sends run_b_receives

lemma run_valid: "sa_valid (run_action session)" "sa_valid run_data"
  by (simp_all add: run_action_def run_data_def)

lemma run_opened_opened: "session \<noteq> 0 \<Longrightarrow> just_opened snd fst (run_opened session)"
  by (simp add: just_opened_def run_opened_def link_stream_zero_def)

lemma run_reachable:
  "run_state run_a5 (run_b2\<lparr>st_rx_queue := Some (2048, [9])\<rparr>) {run_data, run_action 77} {run_action 88}
     [7, 8, 9] [7, 8]"
proof -
  have r0: "run_state (run_opened 77) (run_opened 88) {} {} [] []"
    by (simp add: run_state_def tr_start run_opened_opened)
  have "st_tx_queue (run_opened 77) = Some (2048, [])" by (simp add: run_opened_def)
  from run_write [OF r0 this, of "[7, 8, 9]" 3 "(2048, [7, 8, 9])"]
  have r1: "run_state run_a1 (run_opened 88) {} {} [7, 8, 9] []"
    by (simp add: run_a1_def list_queue_ops_def)
  have r2: "run_state run_a2 (run_opened 88) {run_action 77} {} [7, 8, 9] []"
    using run_a [OF run_a [OF r1 run_prepare [of 5]] es_commit [of "run_action 77" _ _ _ _ _ ESP_OK 5]]
    by (simp add: run_facts run_valid)
  have r3: "run_state run_a2 run_b1 {run_action 77} {} [7, 8, 9] []"
    using run_b [OF r2 run_ingest [of "run_action 77" _ _ _ 6]] by (simp add: run_facts)
  have r4: "run_state run_a2 run_b1 {run_action 77} {run_action 88} [7, 8, 9] []"
    using run_b [OF r3 run_prepare [of 6]] by (simp add: run_facts run_valid)
  have r5: "run_state run_a3 run_b1 {run_action 77} {run_action 88} [7, 8, 9] []"
    using run_a [OF r4 run_ingest [of "run_action 88" _ _ _ 7]] by (simp add: run_facts)
  have r6: "run_state run_a4 run_b1 {run_action 77} {run_action 88} [7, 8, 9] []"
    using run_a [OF run_a [OF r5 run_prepare [of 7]] es_commit [of "run_action 77" _ _ _ _ _ ESP_OK 7]]
    by (simp add: run_facts run_valid)
  have r7: "run_state run_a5 run_b1 {run_data, run_action 77} {run_action 88} [7, 8, 9] []"
    using run_a [OF r6 run_prepare [of 8]] by (simp add: run_facts run_valid)
  have r8: "run_state run_a5 run_b2 {run_data, run_action 77} {run_action 88} [7, 8, 9] []"
    using run_b [OF r7 run_ingest [of run_data _ _ _ 9]] by (simp add: run_b2_def)
  show ?thesis
    using run_read [OF r8 run_b_receives, of 2 "[7, 8]" "(2048, [9])"]
    by (simp add: list_queue_ops_def numeral_2_eq_2)
qed

section \<open>Property\<close>



end
