(* ===== verification/WriterBuffer.thy ===== *)
theory WriterBuffer
  imports SolarBase
begin

text \<open>
  The text buffer of the Writer, \<open>src/src/apps/solar_os_writer_buffer.c\<close>: a gap buffer with an undo
  history. The memory is a list of bytes with its capacity and the bounds of the gap; the undo array
  is the list of the operations in use, so its count is its length, and the length of a piece of text
  kept by an operation is the length of its bytes.

  The allocator is a parameter: for a size it gives a block of uninitialised bytes or nothing. A
  function that allocates more than once takes one allocator per call site, so that every pattern of
  failures is covered. Sizes are natural numbers; they stay below the sizes of the memory involved.
\<close>

unbundle bit_operations_syntax

section \<open>Data\<close>

definition WRITER_INITIAL_BYTES :: nat where
  "WRITER_INITIAL_BYTES = 64 * 1024"

definition WRITER_MAX_BYTES :: nat where
  "WRITER_MAX_BYTES = 256 * 1024"

definition WRITER_UNDO_MAX_OPS :: nat where
  "WRITER_UNDO_MAX_OPS = 128"

definition WRITER_UNDO_MAX_PAYLOAD :: nat where
  "WRITER_UNDO_MAX_PAYLOAD = 64 * 1024"

lemmas writer_sizes = WRITER_INITIAL_BYTES_def WRITER_MAX_BYTES_def WRITER_UNDO_MAX_OPS_def
  WRITER_UNDO_MAX_PAYLOAD_def

record writer_op =
  wo_offset :: nat
  wo_removed :: "u8 list"
  wo_inserted :: "u8 list"
  wo_cursor_before :: nat
  wo_cursor_after :: nat

record writer_buffer =
  wb_data :: "u8 list option"
  wb_capacity :: nat
  wb_gap_start :: nat
  wb_gap_end :: nat
  wb_undo_storage :: bool
  wb_undo_capacity :: nat
  wb_undo :: "writer_op list"
  wb_undo_cursor :: nat
  wb_undo_payload :: nat

definition writer_buffer_zero :: writer_buffer where
  "writer_buffer_zero = \<lparr>wb_data = None, wb_capacity = 0, wb_gap_start = 0, wb_gap_end = 0,
     wb_undo_storage = False, wb_undo_capacity = 0, wb_undo = [], wb_undo_cursor = 0, wb_undo_payload = 0\<rparr>"

type_synonym allocator = "nat \<Rightarrow> u8 list option"

definition writer_gap_size :: "writer_buffer \<Rightarrow> nat" where
  "writer_gap_size b = wb_gap_end b - wb_gap_start b"

definition solar_os_writer_buffer_length :: "writer_buffer option \<Rightarrow> nat" where
  "solar_os_writer_buffer_length buffer =
     (case buffer of
        None \<Rightarrow> 0
      | Some b \<Rightarrow> if wb_data b \<noteq> None then wb_capacity b - writer_gap_size b else 0)"

definition solar_os_writer_buffer_init :: "writer_buffer option \<Rightarrow> writer_buffer option" where
  "solar_os_writer_buffer_init buffer = map_option (\<lambda>_. writer_buffer_zero) buffer"

definition writer_clear_undo :: "writer_buffer \<Rightarrow> writer_buffer" where
  "writer_clear_undo b = b\<lparr>wb_undo := [], wb_undo_cursor := 0, wb_undo_payload := 0\<rparr>"

definition solar_os_writer_buffer_clear_undo :: "writer_buffer option \<Rightarrow> writer_buffer option" where
  "solar_os_writer_buffer_clear_undo buffer = map_option writer_clear_undo buffer"

definition solar_os_writer_buffer_free :: "writer_buffer option \<Rightarrow> writer_buffer option" where
  "solar_os_writer_buffer_free buffer = map_option (\<lambda>_. writer_buffer_zero) buffer"

section \<open>The gap buffer\<close>

text \<open>The memory functions on byte lists; the bounds are the caller's duty.\<close>

definition mem_copy :: "u8 list \<Rightarrow> nat \<Rightarrow> u8 list \<Rightarrow> u8 list" where
  "mem_copy dst at src = take at dst @ src @ drop (at + length src) dst"

definition mem_slice :: "u8 list \<Rightarrow> nat \<Rightarrow> nat \<Rightarrow> u8 list" where
  "mem_slice src at n = take n (drop at src)"

text \<open>The doubling loop.\<close>

function writer_grow :: "nat \<Rightarrow> nat \<Rightarrow> nat" where
  "writer_grow need capacity =
     (if 0 < capacity \<and> capacity < need \<and> capacity < WRITER_MAX_BYTES then writer_grow need (capacity * 2)
      else capacity)"
  by pat_completeness auto
termination
  by (relation "measure (\<lambda>(need, capacity). need - capacity)") auto

definition writer_reserve :: "allocator \<Rightarrow> writer_buffer option \<Rightarrow> nat \<Rightarrow> esp_err \<times> writer_buffer option" where
  "writer_reserve alloc buffer need =
     (case buffer of
        None \<Rightarrow> (if WRITER_MAX_BYTES < need then ESP_ERR_INVALID_SIZE else ESP_ERR_INVALID_ARG, buffer)
      | Some b \<Rightarrow>
          if WRITER_MAX_BYTES < need then (ESP_ERR_INVALID_SIZE, buffer)
          else if wb_data b \<noteq> None \<and> need \<le> wb_capacity b then (ESP_OK, buffer)
          else
            let grown = writer_grow need (if 0 < wb_capacity b then wb_capacity b else WRITER_INITIAL_BYTES);
                capacity = (if WRITER_MAX_BYTES < grown then WRITER_MAX_BYTES else grown)
            in if capacity < need then (ESP_ERR_INVALID_SIZE, buffer)
               else (case alloc capacity of
                       None \<Rightarrow> (ESP_ERR_NO_MEM, buffer)
                     | Some block \<Rightarrow>
                         let suffix_len = (if wb_data b \<noteq> None then wb_capacity b - wb_gap_end b else 0);
                             with_prefix = (if wb_data b \<noteq> None \<and> 0 < wb_gap_start b
                                       then mem_copy block 0 (mem_slice (the (wb_data b)) 0 (wb_gap_start b))
                                       else block);
                             filled = (if 0 < suffix_len
                                       then mem_copy with_prefix (capacity - suffix_len)
                                              (mem_slice (the (wb_data b)) (wb_gap_end b) suffix_len)
                                       else with_prefix)
                         in (ESP_OK, Some (b\<lparr>wb_data := Some filled, wb_gap_end := capacity - suffix_len,
                                              wb_capacity := capacity\<rparr>))))"

definition solar_os_writer_buffer_set ::
  "allocator \<Rightarrow> writer_buffer option \<Rightarrow> u8 list option \<Rightarrow> nat \<Rightarrow> esp_err \<times> writer_buffer option" where
  "solar_os_writer_buffer_set alloc buffer text len =
     (if buffer = None \<or> (text = None \<and> 0 < len) then (ESP_ERR_INVALID_ARG, buffer)
      else if WRITER_MAX_BYTES < len then (ESP_ERR_INVALID_SIZE, buffer)
      else
        let b = (writer_clear_undo (the buffer))\<lparr>wb_data := None, wb_capacity := 0, wb_gap_start := 0,
                                                 wb_gap_end := 0\<rparr>
        in (case writer_reserve alloc (Some b) len of
              (ESP_OK, Some b1) \<Rightarrow>
                let data = (if 0 < len then mem_copy (the (wb_data b1)) 0 (take len (the text)) else the (wb_data b1))
                in (ESP_OK, Some (b1\<lparr>wb_data := Some data, wb_gap_start := len, wb_gap_end := wb_capacity b1\<rparr>))
            | (ret, b1) \<Rightarrow> (ret, b1)))"

definition writer_byte_at :: "writer_buffer \<Rightarrow> nat \<Rightarrow> u8" where
  "writer_byte_at b offset =
     (if offset < wb_gap_start b then the (wb_data b) ! offset
      else the (wb_data b) ! (offset + writer_gap_size b))"

text \<open>The bytes copied are the third component; \<open>out_given\<close> is whether the caller's pointer is not NULL.\<close>

definition solar_os_writer_buffer_copy ::
  "writer_buffer option \<Rightarrow> nat \<Rightarrow> nat \<Rightarrow> bool \<Rightarrow> esp_err \<times> u8 list" where
  "solar_os_writer_buffer_copy buffer offset len out_given =
     (let total = solar_os_writer_buffer_length buffer
      in if buffer = None \<or> \<not> out_given \<or> total < offset \<or> total - offset < len then (ESP_ERR_INVALID_ARG, [])
         else
           let b = the buffer;
               data = the (wb_data b);
               prefix = (if offset < wb_gap_start b
                         then (if len < wb_gap_start b - offset then len else wb_gap_start b - offset) else 0);
               part1 = (if 0 < prefix then mem_slice data offset prefix else []);
               part2 = (if prefix < len
                        then mem_slice data (offset + prefix + writer_gap_size b) (len - prefix) else [])
           in (ESP_OK, part1 @ part2))"

definition solar_os_writer_buffer_flatten ::
  "allocator \<Rightarrow> writer_buffer option \<Rightarrow> bool \<Rightarrow> bool \<Rightarrow> esp_err \<times> (u8 list \<times> nat) option" where
  "solar_os_writer_buffer_flatten alloc buffer out_given out_len_given =
     (if buffer = None \<or> \<not> out_given \<or> \<not> out_len_given then (ESP_ERR_INVALID_ARG, None)
      else
        let len = solar_os_writer_buffer_length buffer
        in (case alloc (len + 1) of
              None \<Rightarrow> (ESP_ERR_NO_MEM, None)
            | Some flat \<Rightarrow>
                let flat1 = (if 0 < len then mem_copy flat 0 (snd (solar_os_writer_buffer_copy buffer 0 len True))
                             else flat)
                in (ESP_OK, Some (mem_copy flat1 len [0], len))))"

definition writer_move_gap :: "writer_buffer \<Rightarrow> nat \<Rightarrow> writer_buffer" where
  "writer_move_gap b offset =
     (let data = the (wb_data b)
      in if offset < wb_gap_start b
         then let move = wb_gap_start b - offset
              in b\<lparr>wb_data := Some (mem_copy data (wb_gap_end b - move) (mem_slice data offset move)),
                   wb_gap_start := wb_gap_start b - move, wb_gap_end := wb_gap_end b - move\<rparr>
         else if wb_gap_start b < offset
         then let move = offset - wb_gap_start b
              in b\<lparr>wb_data := Some (mem_copy data (wb_gap_start b) (mem_slice data (wb_gap_end b) move)),
                   wb_gap_start := wb_gap_start b + move, wb_gap_end := wb_gap_end b + move\<rparr>
         else b)"

text \<open>\<open>ins\<close> is the text to insert; the length is a separate argument, as NULL may come with zero.\<close>

definition writer_replace_raw ::
  "allocator \<Rightarrow> writer_buffer option \<Rightarrow> nat \<Rightarrow> nat \<Rightarrow> u8 list option \<Rightarrow> nat
   \<Rightarrow> esp_err \<times> writer_buffer option" where
  "writer_replace_raw alloc buffer offset remove_len ins insert_len =
     (let len = solar_os_writer_buffer_length buffer
      in if buffer = None \<or> len < offset \<or> len - offset < remove_len \<or> (ins = None \<and> 0 < insert_len)
         then (ESP_ERR_INVALID_ARG, buffer)
         else
           (case writer_reserve alloc buffer (len - remove_len + insert_len) of
              (ESP_OK, Some b) \<Rightarrow>
                let b1 = writer_move_gap b offset;
                    b2 = b1\<lparr>wb_gap_end := wb_gap_end b1 + remove_len\<rparr>
                in (ESP_OK, Some (if 0 < insert_len
                      then b2\<lparr>wb_data := Some (mem_copy (the (wb_data b2)) (wb_gap_start b2)
                                               (take insert_len (the ins))),
                              wb_gap_start := wb_gap_start b2 + insert_len\<rparr>
                      else b2))
            | (ret, b) \<Rightarrow> (ret, b)))"

section \<open>The undo history\<close>

definition writer_copy_new :: "allocator \<Rightarrow> writer_buffer option \<Rightarrow> nat \<Rightarrow> nat \<Rightarrow> u8 list option" where
  "writer_copy_new alloc buffer offset len =
     (if len = 0 then None
      else (case alloc len of
              None \<Rightarrow> None
            | Some copy \<Rightarrow>
                (case solar_os_writer_buffer_copy buffer offset len True of
                   (ESP_OK, bytes) \<Rightarrow> Some (mem_copy copy 0 bytes)
                 | _ \<Rightarrow> None)))"

definition op_payload :: "writer_op \<Rightarrow> nat" where
  "op_payload op = length (wo_removed op) + length (wo_inserted op)"

definition writer_drop_redo :: "writer_buffer \<Rightarrow> writer_buffer" where
  "writer_drop_redo b =
     b\<lparr>wb_undo_payload := foldl (\<lambda>p op. p - op_payload op) (wb_undo_payload b) (drop (wb_undo_cursor b) (wb_undo b)),
       wb_undo := take (wb_undo_cursor b) (wb_undo b)\<rparr>"

definition writer_evict_oldest :: "writer_buffer \<Rightarrow> writer_buffer" where
  "writer_evict_oldest b =
     (case wb_undo b of
        [] \<Rightarrow> b
      | op # ops \<Rightarrow>
          b\<lparr>wb_undo_payload := wb_undo_payload b - op_payload op, wb_undo := ops,
            wb_undo_cursor := (if 0 < wb_undo_cursor b then wb_undo_cursor b - 1 else wb_undo_cursor b)\<rparr>)"

text \<open>Replacing the last operation, the one before the cursor.\<close>

definition writer_last_op :: "writer_buffer \<Rightarrow> writer_op" where
  "writer_last_op b = wb_undo b ! (wb_undo_cursor b - 1)"

definition writer_set_last_op :: "writer_buffer \<Rightarrow> writer_op \<Rightarrow> nat \<Rightarrow> writer_buffer" where
  "writer_set_last_op b op added =
     b\<lparr>wb_undo := (wb_undo b)[wb_undo_cursor b - 1 := op], wb_undo_payload := wb_undo_payload b + added\<rparr>"

definition writer_try_coalesce_insert ::
  "allocator \<Rightarrow> writer_buffer \<Rightarrow> nat \<Rightarrow> u8 list \<Rightarrow> nat \<Rightarrow> bool \<times> writer_buffer" where
  "writer_try_coalesce_insert alloc b offset ins cursor_after =
     (if wb_undo_cursor b = 0 \<or> wb_undo_cursor b \<noteq> length (wb_undo b) \<or> ins = [] then (False, b)
      else
        let op = writer_last_op b
        in if wo_removed op \<noteq> [] \<or> wo_offset op + length (wo_inserted op) \<noteq> offset
              \<or> WRITER_UNDO_MAX_PAYLOAD < length (wo_inserted op) + length ins
           then (False, b)
           else (case alloc (length (wo_inserted op) + length ins) of
                   None \<Rightarrow> (False, b)
                 | Some joined \<Rightarrow>
                     let joined1 = mem_copy (mem_copy joined 0 (wo_inserted op)) (length (wo_inserted op)) ins
                     in (True, writer_set_last_op b
                           (op\<lparr>wo_inserted := joined1, wo_cursor_after := cursor_after\<rparr>) (length ins))))"

definition writer_try_coalesce_delete ::
  "allocator \<Rightarrow> writer_buffer \<Rightarrow> nat \<Rightarrow> u8 list \<Rightarrow> nat \<Rightarrow> bool \<times> writer_buffer" where
  "writer_try_coalesce_delete alloc b offset removed cursor_after =
     (if \<not> wb_undo_storage b \<or> wb_undo_cursor b = 0 \<or> wb_undo_cursor b \<noteq> length (wb_undo b) \<or> removed = []
      then (False, b)
      else
        let op = writer_last_op b
        in if wo_inserted op \<noteq> [] \<or> (wo_offset op \<noteq> offset \<and> offset + length removed \<noteq> wo_offset op)
              \<or> WRITER_UNDO_MAX_PAYLOAD < length (wo_removed op) + length removed
           then (False, b)
           else (case alloc (length (wo_removed op) + length removed) of
                   None \<Rightarrow> (False, b)
                 | Some joined \<Rightarrow>
                     let op1 = (if wo_offset op = offset
                                then op\<lparr>wo_removed := mem_copy (mem_copy joined 0 (wo_removed op))
                                                              (length (wo_removed op)) removed\<rparr>
                                else op\<lparr>wo_removed := mem_copy (mem_copy joined 0 removed)
                                                              (length removed) (wo_removed op),
                                        wo_offset := offset\<rparr>)
                     in (True, writer_set_last_op b (op1\<lparr>wo_cursor_after := cursor_after\<rparr>) (length removed))))"

definition writer_ensure_undo_storage :: "bool \<Rightarrow> writer_buffer \<Rightarrow> bool \<times> writer_buffer" where
  "writer_ensure_undo_storage storage_ok b =
     (if wb_undo_storage b then (True, b)
      else if \<not> storage_ok then (False, b)
      else (True, b\<lparr>wb_undo_storage := True, wb_undo_capacity := WRITER_UNDO_MAX_OPS\<rparr>))"

text \<open>The two loops that evict old operations: while the new payload does not fit, and at the end.\<close>

function writer_make_room :: "nat \<Rightarrow> writer_buffer \<Rightarrow> writer_buffer" where
  "writer_make_room payload b =
     (if wb_undo b \<noteq> [] \<and> (WRITER_UNDO_MAX_OPS \<le> length (wb_undo b)
           \<or> WRITER_UNDO_MAX_PAYLOAD < wb_undo_payload b + payload)
      then writer_make_room payload (writer_evict_oldest b) else b)"
  by pat_completeness auto
termination
  by (relation "measure (\<lambda>(payload, b). length (wb_undo b))")
     (auto simp: writer_evict_oldest_def split: list.splits)

function writer_trim :: "writer_buffer \<Rightarrow> writer_buffer" where
  "writer_trim b =
     (if wb_undo b \<noteq> [] \<and> WRITER_UNDO_MAX_PAYLOAD < wb_undo_payload b then writer_trim (writer_evict_oldest b)
      else b)"
  by pat_completeness auto
termination
  by (relation "measure (\<lambda>b. length (wb_undo b))") (auto simp: writer_evict_oldest_def split: list.splits)

declare writer_make_room.simps [simp del] writer_trim.simps [simp del] writer_grow.simps [simp del]

text \<open>Recording the replacement that has just been made.\<close>

definition writer_record ::
  "allocator \<Rightarrow> writer_buffer \<Rightarrow> nat \<Rightarrow> u8 list \<Rightarrow> u8 list \<Rightarrow> nat \<Rightarrow> nat \<Rightarrow> writer_buffer" where
  "writer_record join_alloc b offset removed inserted cursor_before cursor_after =
     (let (joined_ins, b1) = (if removed = []
             then writer_try_coalesce_insert join_alloc b offset inserted cursor_after else (False, b));
          (joined_del, b2) = (if \<not> joined_ins \<and> inserted = []
             then writer_try_coalesce_delete join_alloc b1 offset removed cursor_after else (False, b1))
      in writer_trim
           (if joined_ins \<or> joined_del then b2
            else
              let payload = length removed + length inserted;
                  b3 = writer_make_room payload b2
              in if payload \<le> WRITER_UNDO_MAX_PAYLOAD
                 then b3\<lparr>wb_undo := wb_undo b3 @
                        [\<lparr>wo_offset = offset, wo_removed = removed, wo_inserted = inserted,
                          wo_cursor_before = cursor_before, wo_cursor_after = cursor_after\<rparr>],
                        wb_undo_cursor := length (wb_undo b3) + 1,
                        wb_undo_payload := wb_undo_payload b3 + payload\<rparr>
                 else b3))"

text \<open>The allocations of a replacement, in the order of the code.\<close>

record writer_allocs =
  wa_removed :: allocator
  wa_inserted :: allocator
  wa_data :: allocator
  wa_storage :: bool
  wa_join :: allocator

definition solar_os_writer_buffer_replace ::
  "writer_allocs \<Rightarrow> writer_buffer option \<Rightarrow> nat \<Rightarrow> nat \<Rightarrow> u8 list option \<Rightarrow> nat \<Rightarrow> nat \<Rightarrow> nat
   \<Rightarrow> esp_err \<times> writer_buffer option" where
  "solar_os_writer_buffer_replace wa buffer offset remove_len ins insert_len cursor_before cursor_after =
     (let len = solar_os_writer_buffer_length buffer
      in if buffer = None \<or> len < offset \<or> len - offset < remove_len \<or> (ins = None \<and> 0 < insert_len)
         then (ESP_ERR_INVALID_ARG, buffer)
         else if remove_len = 0 \<and> insert_len = 0 then (ESP_OK, buffer)
         else
           let removed = writer_copy_new (wa_removed wa) buffer offset remove_len
           in if 0 < remove_len \<and> removed = None then (ESP_ERR_NO_MEM, buffer)
              else
                let inserted = (if 0 < insert_len
                      then map_option (\<lambda>block. mem_copy block 0 (take insert_len (the ins))) (wa_inserted wa insert_len)
                      else None)
                in if 0 < insert_len \<and> inserted = None then (ESP_ERR_NO_MEM, buffer)
                   else
                     (case writer_replace_raw (wa_data wa) buffer offset remove_len ins insert_len of
                        (ESP_OK, Some b) \<Rightarrow>
                          (case writer_ensure_undo_storage (wa_storage wa) (writer_drop_redo b) of
                             (False, b1) \<Rightarrow> (ESP_OK, Some b1)
                           | (True, b1) \<Rightarrow>
                               (ESP_OK, Some (writer_record (wa_join wa) b1 offset
                                  (case removed of None \<Rightarrow> [] | Some r \<Rightarrow> r)
                                  (case inserted of None \<Rightarrow> [] | Some i \<Rightarrow> i) cursor_before cursor_after)))
                      | (ret, b) \<Rightarrow> (ret, b)))"

text \<open>The cursor pointer may be NULL; its value after the call is the third component.\<close>

definition solar_os_writer_buffer_undo ::
  "allocator \<Rightarrow> writer_buffer option \<Rightarrow> nat option \<Rightarrow> bool \<times> writer_buffer option \<times> nat option" where
  "solar_os_writer_buffer_undo alloc buffer cursor =
     (case buffer of
        None \<Rightarrow> (False, buffer, cursor)
      | Some b \<Rightarrow>
          if wb_undo_cursor b = 0 then (False, buffer, cursor)
          else
            let op = writer_last_op b
            in (case writer_replace_raw alloc buffer (wo_offset op) (length (wo_inserted op))
                       (Some (wo_removed op)) (length (wo_removed op)) of
                  (ESP_OK, Some b1) \<Rightarrow>
                    (True, Some (b1\<lparr>wb_undo_cursor := wb_undo_cursor b1 - 1\<rparr>),
                     map_option (\<lambda>_. wo_cursor_before op) cursor)
                | (_, b1) \<Rightarrow> (False, b1, cursor)))"

definition solar_os_writer_buffer_redo ::
  "allocator \<Rightarrow> writer_buffer option \<Rightarrow> nat option \<Rightarrow> bool \<times> writer_buffer option \<times> nat option" where
  "solar_os_writer_buffer_redo alloc buffer cursor =
     (case buffer of
        None \<Rightarrow> (False, buffer, cursor)
      | Some b \<Rightarrow>
          if length (wb_undo b) \<le> wb_undo_cursor b then (False, buffer, cursor)
          else
            let op = wb_undo b ! wb_undo_cursor b
            in (case writer_replace_raw alloc buffer (wo_offset op) (length (wo_removed op))
                       (Some (wo_inserted op)) (length (wo_inserted op)) of
                  (ESP_OK, Some b1) \<Rightarrow>
                    (True, Some (b1\<lparr>wb_undo_cursor := wb_undo_cursor b1 + 1\<rparr>),
                     map_option (\<lambda>_. wo_cursor_after op) cursor)
                | (_, b1) \<Rightarrow> (False, b1, cursor)))"

section \<open>Cursor motion\<close>

definition utf8_continuation :: "u8 \<Rightarrow> bool" where
  "utf8_continuation byte \<longleftrightarrow> byte AND 0xc0 = 0x80"

text \<open>The two loops over continuation bytes.\<close>

fun skip_back :: "writer_buffer \<Rightarrow> nat \<Rightarrow> nat" where
  "skip_back b 0 = 0"
| "skip_back b (Suc n) = (if utf8_continuation (writer_byte_at b (Suc n)) then skip_back b n else Suc n)"

function skip_forward :: "writer_buffer \<Rightarrow> nat \<Rightarrow> nat \<Rightarrow> nat" where
  "skip_forward b len offset =
     (if offset < len \<and> utf8_continuation (writer_byte_at b offset) then skip_forward b len (offset + 1) else offset)"
  by pat_completeness auto
termination
  by (relation "measure (\<lambda>(b, len, offset). len - offset)") auto

declare skip_forward.simps [simp del]

definition solar_os_writer_utf8_prev :: "writer_buffer option \<Rightarrow> nat \<Rightarrow> nat" where
  "solar_os_writer_utf8_prev buffer offset0 =
     (let len = solar_os_writer_buffer_length buffer;
          offset = (if len < offset0 then len else offset0)
      in if offset = 0 then 0 else skip_back (the buffer) (offset - 1))"

definition solar_os_writer_utf8_next :: "writer_buffer option \<Rightarrow> nat \<Rightarrow> nat" where
  "solar_os_writer_utf8_next buffer offset =
     (let len = solar_os_writer_buffer_length buffer
      in if len \<le> offset then len else skip_forward (the buffer) len (offset + 1))"

definition isalnum_byte :: "u8 \<Rightarrow> bool" where
  "isalnum_byte byte \<longleftrightarrow>
     (0x30 \<le> byte \<and> byte \<le> 0x39) \<or> (0x41 \<le> byte \<and> byte \<le> 0x5a) \<or> (0x61 \<le> byte \<and> byte \<le> 0x7a)"

definition writer_word_byte :: "u8 \<Rightarrow> bool" where
  "writer_word_byte byte \<longleftrightarrow> 0x80 \<le> byte \<or> isalnum_byte byte \<or> byte = 0x5f"

lemma skip_back_le: "skip_back b n \<le> n"
  by (induction n) (auto simp: le_SucI)

lemma skip_forward_ge: "offset \<le> skip_forward b len offset"
proof (induction b len offset rule: skip_forward.induct)
  case (1 b len offset)
  then show ?case by (subst skip_forward.simps) auto
qed

lemma utf8_prev_less: "0 < pos \<Longrightarrow> solar_os_writer_utf8_prev buffer pos < pos"
  using skip_back_le [of "the buffer" "min (solar_os_writer_buffer_length buffer) pos - 1"]
  by (auto simp: solar_os_writer_utf8_prev_def Let_def min_def split: if_splits)

lemma utf8_next_greater:
  "pos < solar_os_writer_buffer_length buffer \<Longrightarrow> pos < solar_os_writer_utf8_next buffer pos"
  using skip_forward_ge [of "pos + 1" "the buffer" "solar_os_writer_buffer_length buffer"]
  by (simp add: solar_os_writer_utf8_next_def Let_def)

text \<open>The four loops of the word motions.\<close>

function back_over_gap :: "writer_buffer option \<Rightarrow> nat \<Rightarrow> nat" where
  "back_over_gap buffer pos =
     (if 0 < pos \<and> \<not> writer_word_byte (writer_byte_at (the buffer) pos)
      then back_over_gap buffer (solar_os_writer_utf8_prev buffer pos) else pos)"
  by pat_completeness auto
termination
  by (relation "measure snd") (auto intro: utf8_prev_less)

function back_over_word :: "writer_buffer option \<Rightarrow> nat \<Rightarrow> nat" where
  "back_over_word buffer pos =
     (if 0 < pos
      then let prev = solar_os_writer_utf8_prev buffer pos
           in if \<not> writer_word_byte (writer_byte_at (the buffer) prev) then pos else back_over_word buffer prev
      else pos)"
  by pat_completeness auto
termination
  by (relation "measure snd") (auto intro: utf8_prev_less)

function forward_while :: "(u8 \<Rightarrow> bool) \<Rightarrow> writer_buffer option \<Rightarrow> nat \<Rightarrow> nat" where
  "forward_while P buffer pos =
     (if pos < solar_os_writer_buffer_length buffer \<and> P (writer_byte_at (the buffer) pos)
      then forward_while P buffer (solar_os_writer_utf8_next buffer pos) else pos)"
  by pat_completeness auto
termination
  by (relation "measure (\<lambda>(P, buffer, pos). solar_os_writer_buffer_length buffer - pos)")
     (auto intro!: diff_less_mono2 utf8_next_greater)

declare back_over_gap.simps [simp del] back_over_word.simps [simp del] forward_while.simps [simp del]

definition solar_os_writer_word_prev :: "writer_buffer option \<Rightarrow> nat \<Rightarrow> nat" where
  "solar_os_writer_word_prev buffer offset =
     back_over_word buffer (back_over_gap buffer (solar_os_writer_utf8_prev buffer offset))"

definition solar_os_writer_word_next :: "writer_buffer option \<Rightarrow> nat \<Rightarrow> nat" where
  "solar_os_writer_word_next buffer offset =
     (let len = solar_os_writer_buffer_length buffer;
          pos = (if len < offset then len else offset)
      in forward_while (\<lambda>c. \<not> writer_word_byte c) buffer (forward_while writer_word_byte buffer pos))"

section \<open>The text of a buffer\<close>

text \<open>The abstraction: the text before the gap and after it. \<open>gap_ok\<close> is the layout invariant.\<close>

definition writer_text :: "writer_buffer \<Rightarrow> u8 list" where
  "writer_text b = (case wb_data b of None \<Rightarrow> [] | Some data \<Rightarrow> take (wb_gap_start b) data @ drop (wb_gap_end b) data)"

definition gap_ok :: "writer_buffer \<Rightarrow> bool" where
  "gap_ok b \<longleftrightarrow>
     (case wb_data b of
        None \<Rightarrow> wb_capacity b = 0 \<and> wb_gap_start b = 0 \<and> wb_gap_end b = 0
      | Some data \<Rightarrow> length data = wb_capacity b \<and> wb_gap_start b \<le> wb_gap_end b \<and> wb_gap_end b \<le> wb_capacity b
          \<and> 0 < wb_capacity b \<and> wb_capacity b \<le> WRITER_MAX_BYTES)"

text \<open>The documented contract of the allocator: a block has the size asked for.\<close>

definition allocator_ok :: "allocator \<Rightarrow> bool" where
  "allocator_ok alloc \<longleftrightarrow> (\<forall>n block. alloc n = Some block \<longrightarrow> length block = n)"

definition text_splice :: "u8 list \<Rightarrow> nat \<Rightarrow> nat \<Rightarrow> u8 list \<Rightarrow> u8 list" where
  "text_splice text offset n ins = take offset text @ ins @ drop (offset + n) text"

lemma text_length: "gap_ok b \<Longrightarrow> length (writer_text b) = solar_os_writer_buffer_length (Some b)"
  by (auto simp: gap_ok_def writer_text_def solar_os_writer_buffer_length_def writer_gap_size_def
      split: option.splits)

lemma byte_at_text:
  assumes "gap_ok b" and "i < length (writer_text b)"
  shows "writer_byte_at b i = writer_text b ! i"
proof -
  have "i + (wb_gap_end b - wb_gap_start b) = wb_gap_end b + (i - wb_gap_start b)"
    if "wb_gap_start b \<le> wb_gap_end b" "wb_gap_start b \<le> i" using that by simp
  then show ?thesis
    using assms by (auto simp: gap_ok_def writer_text_def writer_byte_at_def writer_gap_size_def nth_append min_def
        split: option.splits)
qed

lemma mem_copy_length: "at + length src \<le> length dst \<Longrightarrow> length (mem_copy dst at src) = length dst"
  by (simp add: mem_copy_def)

lemma mem_slice_length [simp]: "length (mem_slice src at n) = min n (length src - at)"
  by (simp add: mem_slice_def)

lemma mem_copy_all: "length dst = length src \<Longrightarrow> mem_copy dst 0 src = src"
  by (simp add: mem_copy_def)

lemma mem_copy_join:
  "length dst = length xs + length ys \<Longrightarrow> mem_copy (mem_copy dst 0 xs) (length xs) ys = xs @ ys"
  by (simp add: mem_copy_def)

text \<open>Reserving memory keeps the text, and succeeds with room for it when the allocator does.\<close>

lemma grow_bounds:
  "0 < c \<Longrightarrow> c \<le> writer_grow need c \<and> (need \<le> writer_grow need c \<or> WRITER_MAX_BYTES \<le> writer_grow need c)"
proof (induction need c rule: writer_grow.induct)
  case (1 need c)
  show ?case
  proof (cases "c < need \<and> c < WRITER_MAX_BYTES")
    case True
    then show ?thesis using 1 by (subst (1 2 3) writer_grow.simps) auto
  next
    case False
    then show ?thesis using 1(2) by (subst (1 2 3) writer_grow.simps) auto
  qed
qed

lemma relocate:
  assumes "gs \<le> ge" "ge \<le> length data" "length block = cap" "gs + (length data - ge) \<le> cap"
  defines "suffix \<equiv> length data - ge"
  defines "wp \<equiv> (if 0 < gs then mem_copy block 0 (mem_slice data 0 gs) else block)"
  defines "filled \<equiv> (if 0 < suffix then mem_copy wp (cap - suffix) (mem_slice data ge suffix) else wp)"
  shows "length filled = cap" and "take gs filled = take gs data" and "drop (cap - suffix) filled = drop ge data"
proof -
  have wp: "length wp = cap" "take gs wp = take gs data"
    using assms(1-4) by (auto simp: wp_def mem_copy_def mem_slice_def)
  have room: "suffix \<le> cap" "gs \<le> cap - suffix" using assms(4) by (simp_all add: suffix_def)
  have slice: "mem_slice data ge suffix = drop ge data" and len: "length (drop ge data) = suffix"
    by (simp_all add: mem_slice_def suffix_def)
  have f: "filled = take (cap - suffix) wp @ drop ge data" if "0 < suffix"
  proof -
    have "filled = mem_copy wp (cap - suffix) (drop ge data)" using that by (simp add: filled_def slice)
    moreover have "drop (cap - suffix + length (drop ge data)) wp = []"
      using room(1) wp(1) unfolding len by simp
    ultimately show ?thesis by (simp only: mem_copy_def append_Nil2)
  qed
  show "length filled = cap"
    using wp room f by (cases "0 < suffix") (auto simp: filled_def suffix_def)
  show "take gs filled = take gs data"
    using wp room f by (cases "0 < suffix") (auto simp: filled_def min_def)
  show "drop (cap - suffix) filled = drop ge data"
    using wp room f assms(2) by (cases "0 < suffix") (auto simp: filled_def suffix_def)
qed

text \<open>What every operation on the memory leaves alone.\<close>

definition history where
  "history b = (wb_undo b, wb_undo_cursor b, wb_undo_payload b, wb_undo_storage b, wb_undo_capacity b)"

lemma reserve_spec:
  assumes ok: "gap_ok b" "allocator_ok alloc" and need: "need \<le> WRITER_MAX_BYTES" "length (writer_text b) \<le> need"
  shows "(writer_reserve alloc (Some b) need = (ESP_ERR_NO_MEM, Some b) \<and> (\<exists>n. wb_capacity b < n \<and> alloc n = None))
       \<or> (\<exists>b'. writer_reserve alloc (Some b) need = (ESP_OK, Some b') \<and> gap_ok b' \<and> wb_data b' \<noteq> None
            \<and> writer_text b' = writer_text b \<and> wb_gap_start b' = wb_gap_start b \<and> need \<le> wb_capacity b'
            \<and> history b' = history b)"
proof (cases "wb_data b \<noteq> None \<and> need \<le> wb_capacity b")
  case True
  then show ?thesis using need ok by (simp add: writer_reserve_def)
next
  case False
  define c where "c = (if 0 < wb_capacity b then wb_capacity b else WRITER_INITIAL_BYTES)"
  define cap where "cap = (if WRITER_MAX_BYTES < writer_grow need c then WRITER_MAX_BYTES else writer_grow need c)"
  have "0 < c" by (simp add: c_def writer_sizes)
  note g = grow_bounds [OF this, of need]
  have cb: "wb_capacity b \<le> WRITER_MAX_BYTES" using ok(1) by (auto simp: gap_ok_def split: option.splits)
  have cap: "need \<le> cap" "cap \<le> WRITER_MAX_BYTES" "0 < cap" "wb_capacity b < cap"
    using g need(1) cb False ok(1) by (auto simp: cap_def c_def writer_sizes gap_ok_def split: option.splits)
  have r: "writer_reserve alloc (Some b) need = (case alloc cap of
        None \<Rightarrow> (ESP_ERR_NO_MEM, Some b)
      | Some block \<Rightarrow>
          let suffix_len = (if wb_data b \<noteq> None then wb_capacity b - wb_gap_end b else 0);
              with_prefix = (if wb_data b \<noteq> None \<and> 0 < wb_gap_start b
                        then mem_copy block 0 (mem_slice (the (wb_data b)) 0 (wb_gap_start b)) else block);
              filled = (if 0 < suffix_len
                        then mem_copy with_prefix (cap - suffix_len)
                               (mem_slice (the (wb_data b)) (wb_gap_end b) suffix_len) else with_prefix)
          in (ESP_OK, Some (b\<lparr>wb_data := Some filled, wb_gap_end := cap - suffix_len, wb_capacity := cap\<rparr>)))"
    unfolding writer_reserve_def option.case Let_def c_def [symmetric] cap_def [symmetric]
    using need(1) False cap(1) by (simp only: not_less [symmetric] if_False if_True simp_thms)
  show ?thesis
  proof (cases "alloc cap")
    case None
    then show ?thesis using r cap(4) by auto
  next
    case (Some block)
    then have block: "length block = cap" using ok(2) by (simp add: allocator_ok_def)
    show ?thesis
    proof (cases "wb_data b")
      case None
      then show ?thesis
        using Some r cap ok(1) block by (simp add: gap_ok_def writer_text_def history_def)
    next
      case data: (Some data)
      have d: "length data = wb_capacity b" "wb_gap_start b \<le> wb_gap_end b" "wb_gap_end b \<le> wb_capacity b"
        using ok(1) data by (auto simp: gap_ok_def)
      have fits: "wb_gap_start b + (length data - wb_gap_end b) \<le> cap"
        using need(2) cap(1) d data by (simp add: writer_text_def)
      define wp where "wp = (if 0 < wb_gap_start b then mem_copy block 0 (mem_slice data 0 (wb_gap_start b)) else block)"
      define filled where "filled = (if 0 < wb_capacity b - wb_gap_end b
          then mem_copy wp (cap - (wb_capacity b - wb_gap_end b))
                 (mem_slice data (wb_gap_end b) (wb_capacity b - wb_gap_end b)) else wp)"
      have r2: "writer_reserve alloc (Some b) need = (ESP_OK, Some (b\<lparr>wb_data := Some filled,
          wb_gap_end := cap - (wb_capacity b - wb_gap_end b), wb_capacity := cap\<rparr>))"
        by (simp add: r Some data Let_def filled_def wp_def)
      note m = relocate [OF d(2) _ block fits, unfolded d(1), OF d(3), folded wp_def, folded filled_def]
      have "wb_gap_start b \<le> cap - (wb_capacity b - wb_gap_end b)" using fits d by simp
      then show ?thesis
        using r2 m cap data by (simp add: gap_ok_def writer_text_def history_def)
    qed
  qed
qed

lemma move_left_text:
  assumes "offset < gs" "gs \<le> ge" "ge \<le> length data"
  defines "data' \<equiv> mem_copy data (ge - (gs - offset)) (mem_slice data offset (gs - offset))"
  shows "length data' = length data"
    and "take offset data' @ drop (ge - (gs - offset)) data' = take gs data @ drop ge data"
proof -
  have n: "length (mem_slice data offset (gs - offset)) = gs - offset" using assms(1-3) by simp
  show "length data' = length data" using assms(1-3) n by (simp add: data'_def mem_copy_def)
  have "drop (ge - (gs - offset)) data' = mem_slice data offset (gs - offset) @ drop ge data"
    using assms(1-3) n by (simp add: data'_def mem_copy_def)
  moreover have "offset \<le> ge - (gs - offset)" "ge - (gs - offset) \<le> length data" using assms(1-3) by arith+
  then have "take offset data' = take offset data" by (simp add: data'_def mem_copy_def)
  moreover have "take offset data @ mem_slice data offset (gs - offset) = take gs data"
    using assms(1) by (simp add: mem_slice_def take_add [symmetric])
  ultimately show "take offset data' @ drop (ge - (gs - offset)) data' = take gs data @ drop ge data" by simp
qed

lemma move_right_text:
  assumes "gs < offset" "gs \<le> ge" "ge + (offset - gs) \<le> length data"
  defines "data' \<equiv> mem_copy data gs (mem_slice data ge (offset - gs))"
  shows "length data' = length data"
    and "take offset data' @ drop (ge + (offset - gs)) data' = take gs data @ drop ge data"
proof -
  have n: "length (mem_slice data ge (offset - gs)) = offset - gs" using assms(1-3) by simp
  show "length data' = length data" using assms(1-3) n by (simp add: data'_def mem_copy_def)
  have "take offset data' = take gs data @ mem_slice data ge (offset - gs)"
    using assms(1-3) n by (simp add: data'_def mem_copy_def)
  moreover have "drop (ge + (offset - gs)) data' = drop (ge + (offset - gs)) data"
    using assms(1-3) n by (simp add: data'_def mem_copy_def)
  moreover have "mem_slice data ge (offset - gs) @ drop (ge + (offset - gs)) data = drop ge data"
    by (simp add: mem_slice_def) (metis append_take_drop_id drop_drop add.commute)
  ultimately show "take offset data' @ drop (ge + (offset - gs)) data' = take gs data @ drop ge data" by simp
qed

lemma move_gap_spec:
  assumes ok: "gap_ok b" "wb_data b = Some data" and off: "offset \<le> length (writer_text b)"
  shows "gap_ok (writer_move_gap b offset)" and "wb_data (writer_move_gap b offset) \<noteq> None"
    and "writer_text (writer_move_gap b offset) = writer_text b"
    and "wb_gap_start (writer_move_gap b offset) = offset"
    and "wb_capacity (writer_move_gap b offset) = wb_capacity b"
    and "history (writer_move_gap b offset) = history b"
proof -
  have d: "length data = wb_capacity b" "wb_gap_start b \<le> wb_gap_end b" "wb_gap_end b \<le> length data"
    "0 < wb_capacity b" "wb_capacity b \<le> WRITER_MAX_BYTES" using ok by (auto simp: gap_ok_def)
  have len: "offset \<le> wb_gap_start b + (length data - wb_gap_end b)"
    using off ok d by (simp add: writer_text_def)
  consider "offset < wb_gap_start b" | "wb_gap_start b < offset" | "offset = wb_gap_start b" by linarith
  then have "gap_ok (writer_move_gap b offset) \<and> wb_data (writer_move_gap b offset) \<noteq> None
      \<and> writer_text (writer_move_gap b offset) = writer_text b \<and> wb_gap_start (writer_move_gap b offset) = offset
      \<and> wb_capacity (writer_move_gap b offset) = wb_capacity b \<and> history (writer_move_gap b offset) = history b"
  proof cases
    case 1
    note m = move_left_text [OF 1 d(2,3)]
    have "offset \<le> wb_gap_end b - (wb_gap_start b - offset)"
      "wb_gap_end b - (wb_gap_start b - offset) \<le> wb_capacity b" using 1 d by arith+
    then show ?thesis
      using 1 d ok(2) m by (simp add: writer_move_gap_def Let_def gap_ok_def writer_text_def history_def)
  next
    case 2
    have "wb_gap_end b + (offset - wb_gap_start b) \<le> length data" using 2 len d by simp
    note m = move_right_text [OF 2 d(2) this]
    have "offset \<le> wb_gap_end b + (offset - wb_gap_start b)"
      "wb_gap_end b + (offset - wb_gap_start b) \<le> wb_capacity b" using 2 len d by arith+
    then show ?thesis
      using 2 d len ok(2) m by (simp add: writer_move_gap_def Let_def gap_ok_def writer_text_def history_def)
  next
    case 3
    then show ?thesis using ok by (simp add: writer_move_gap_def Let_def)
  qed
  then show "gap_ok (writer_move_gap b offset)" "wb_data (writer_move_gap b offset) \<noteq> None"
    "writer_text (writer_move_gap b offset) = writer_text b" "wb_gap_start (writer_move_gap b offset) = offset"
    "wb_capacity (writer_move_gap b offset) = wb_capacity b" "history (writer_move_gap b offset) = history b"
    by simp_all
qed

text \<open>Opening the gap at the offset, dropping the removed bytes and copying the inserted ones.\<close>

definition open_and_fill :: "writer_buffer \<Rightarrow> nat \<Rightarrow> nat \<Rightarrow> u8 list \<Rightarrow> writer_buffer" where
  "open_and_fill b offset remove_len bytes =
     (let b1 = writer_move_gap b offset;
          b2 = b1\<lparr>wb_gap_end := wb_gap_end b1 + remove_len\<rparr>
      in if bytes \<noteq> [] then b2\<lparr>wb_data := Some (mem_copy (the (wb_data b2)) (wb_gap_start b2) bytes),
                              wb_gap_start := wb_gap_start b2 + length bytes\<rparr>
         else b2)"

lemma open_and_fill_spec:
  assumes ok: "gap_ok b" "wb_data b = Some data" and off: "offset + n \<le> length (writer_text b)"
    and room: "length (writer_text b) - n + length bytes \<le> wb_capacity b"
  shows "gap_ok (open_and_fill b offset n bytes)
    \<and> writer_text (open_and_fill b offset n bytes) = text_splice (writer_text b) offset n bytes
    \<and> history (open_and_fill b offset n bytes) = history b"
proof -
  define b1 where "b1 = writer_move_gap b offset"
  have "offset \<le> length (writer_text b)" using off by simp
  note m = move_gap_spec [OF ok this, folded b1_def]
  obtain d1 where d1: "wb_data b1 = Some d1" using m(2) by blast
  have l: "length d1 = wb_capacity b1" "offset \<le> wb_gap_end b1" "wb_gap_end b1 \<le> length d1"
    "0 < wb_capacity b1" "wb_capacity b1 \<le> WRITER_MAX_BYTES"
    using m(1,4) d1 by (auto simp: gap_ok_def)
  have t: "writer_text b = take offset d1 @ drop (wb_gap_end b1) d1"
    using m(3,4) d1 by (simp add: writer_text_def)
  have off1: "offset \<le> length d1" using l by simp
  then have e: "wb_gap_end b1 + n \<le> length d1" using off l by (simp add: t)
  have fit: "offset + length bytes \<le> wb_gap_end b1 + n"
    using room off1 l e m(5) by (simp add: t)
  define d2 where "d2 = mem_copy d1 offset bytes"
  have d2: "length d2 = length d1" "take (offset + length bytes) d2 = take offset d1 @ bytes"
    "drop (wb_gap_end b1 + n) d2 = drop (wb_gap_end b1 + n) d1"
    using fit e off1 by (simp_all add: d2_def mem_copy_def)
  have s: "text_splice (writer_text b) offset n bytes = take offset d1 @ bytes @ drop (wb_gap_end b1 + n) d1"
    using off1 by (simp add: text_splice_def t add.commute)
  show ?thesis
  proof (cases "bytes = []")
    case True
    then have "open_and_fill b offset n bytes = b1\<lparr>wb_gap_end := wb_gap_end b1 + n\<rparr>"
      by (simp add: open_and_fill_def b1_def [symmetric])
    then show ?thesis
      using True m d1 l e s by (simp add: gap_ok_def writer_text_def history_def)
  next
    case False
    then have "open_and_fill b offset n bytes = b1\<lparr>wb_gap_end := wb_gap_end b1 + n, wb_data := Some d2,
        wb_gap_start := offset + length bytes\<rparr>"
      using m(4) d1 by (simp add: open_and_fill_def b1_def [symmetric] d2_def Let_def)
    then show ?thesis
      using m(6) d2 l e fit s by (simp add: gap_ok_def writer_text_def history_def)
  qed
qed

lemma replace_raw_spec:
  assumes ok: "gap_ok b" "allocator_ok alloc" and bytes: "bytes = (if 0 < n then take n (the ins) else [])"
    and ins: "0 < n \<longrightarrow> ins \<noteq> None \<and> n \<le> length (the ins)"
    and off: "offset + m \<le> length (writer_text b)" and max: "length (writer_text b) - m + n \<le> WRITER_MAX_BYTES"
  shows "(writer_replace_raw alloc (Some b) offset m ins n = (ESP_ERR_NO_MEM, Some b)
            \<and> (\<exists>k. wb_capacity b < k \<and> alloc k = None))
       \<or> (\<exists>b'. writer_replace_raw alloc (Some b) offset m ins n = (ESP_OK, Some b') \<and> gap_ok b'
            \<and> writer_text b' = text_splice (writer_text b) offset m bytes \<and> history b' = history b)"
proof -
  have len: "length bytes = n" using bytes ins by auto
  have l: "solar_os_writer_buffer_length (Some b) = length (writer_text b)" using text_length [OF ok(1)] by simp
  define need where "need = length (writer_text b) - m + n"
  have r: "writer_replace_raw alloc (Some b) offset m ins n =
      (case writer_reserve alloc (Some b) need of
         (ESP_OK, Some c) \<Rightarrow> (ESP_OK, Some (open_and_fill c offset m bytes)) | (ret, c) \<Rightarrow> (ret, c))"
  proof -
    have cond: "\<not> (Some b = None \<or> length (writer_text b) < offset \<or> length (writer_text b) - offset < m
        \<or> ins = None \<and> 0 < n)" using off ins by auto
    have fill: "(let b1 = writer_move_gap c offset; b2 = b1\<lparr>wb_gap_end := wb_gap_end b1 + m\<rparr>
        in (ESP_OK, Some (if 0 < n then b2\<lparr>wb_data := Some (mem_copy (the (wb_data b2)) (wb_gap_start b2)
                 (take n (the ins))), wb_gap_start := wb_gap_start b2 + n\<rparr> else b2)))
        = (ESP_OK, Some (open_and_fill c offset m bytes))" for c
    proof (cases "0 < n")
      case True
      then have "take n (the ins) = bytes" "bytes \<noteq> []" using bytes len by auto
      then show ?thesis using True len by (simp add: open_and_fill_def Let_def)
    next
      case False
      then show ?thesis using bytes by (simp add: open_and_fill_def Let_def)
    qed
    show ?thesis
      unfolding writer_replace_raw_def fill l unfolding Let_def if_not_P [OF cond] need_def [symmetric] ..
  qed
  have reserved: "(writer_reserve alloc (Some b) need = (ESP_ERR_NO_MEM, Some b)
        \<and> (\<exists>k. wb_capacity b < k \<and> alloc k = None))
     \<or> (\<exists>c. writer_reserve alloc (Some b) need = (ESP_OK, Some c) \<and> gap_ok c \<and> wb_data c \<noteq> None
            \<and> writer_text c = writer_text b \<and> need \<le> wb_capacity c \<and> history c = history b)"
  proof (cases "wb_data b \<noteq> None \<and> need \<le> wb_capacity b")
    case True
    then show ?thesis using ok max by (simp add: writer_reserve_def need_def)
  next
    case False
    then have "length (writer_text b) \<le> need"
      using ok(1) by (auto simp: gap_ok_def writer_text_def split: option.splits)
    with reserve_spec [OF ok] max show ?thesis unfolding need_def by blast
  qed
  show ?thesis
  proof (cases "\<exists>c. writer_reserve alloc (Some b) need = (ESP_OK, Some c)")
    case True
    then obtain c where c: "writer_reserve alloc (Some b) need = (ESP_OK, Some c)" by blast
    with reserved obtain d where "gap_ok c" "wb_data c = Some d" "writer_text c = writer_text b"
      "need \<le> wb_capacity c" "history c = history b" by auto
    note cc = this
    then have "length (writer_text c) - m + length bytes \<le> wb_capacity c" using len by (simp add: need_def)
    from open_and_fill_spec [OF cc(1,2) _ this, of offset] off cc(3,5) show ?thesis
      by (simp add: r c)
  next
    case False
    with reserved show ?thesis by (auto simp: r)
  qed
qed

lemma copy_spec:
  assumes ok: "gap_ok b" and off: "offset + n \<le> length (writer_text b)"
  shows "solar_os_writer_buffer_copy (Some b) offset n True = (ESP_OK, take n (drop offset (writer_text b)))"
proof -
  have l: "solar_os_writer_buffer_length (Some b) = length (writer_text b)" using text_length [OF ok] by simp
  show ?thesis
  proof (cases "wb_data b")
    case None
    then show ?thesis using off ok l
      by (simp add: solar_os_writer_buffer_copy_def writer_text_def gap_ok_def)
  next
    case (Some d)
    let ?s = "wb_gap_start b" and ?e = "wb_gap_end b"
    have g: "?s \<le> ?e" "?e \<le> length d" using ok Some by (auto simp: gap_ok_def)
    have t: "writer_text b = take ?s d @ drop ?e d" using Some by (simp add: writer_text_def)
    define prefix where "prefix = (if offset < ?s then (if n < ?s - offset then n else ?s - offset) else 0)"
    have p1: "(if 0 < prefix then mem_slice d offset prefix else []) = take n (drop offset (take ?s d))"
      by (auto simp: prefix_def mem_slice_def drop_take min_def)
    have "offset + prefix + (?e - ?s) = ?e + (offset - ?s)" if "prefix < n"
      using that g by (auto simp: prefix_def split: if_splits)
    moreover have "n - prefix = n - (?s - offset)" if "prefix < n"
      using that by (auto simp: prefix_def split: if_splits)
    ultimately have p2: "(if prefix < n then mem_slice d (offset + prefix + (?e - ?s)) (n - prefix) else [])
        = take (n - (?s - offset)) (drop (offset - ?s) (drop ?e d))"
      by (auto simp: mem_slice_def add.commute prefix_def split: if_splits)
    have "solar_os_writer_buffer_copy (Some b) offset n True = (ESP_OK,
        (if 0 < prefix then mem_slice d offset prefix else [])
        @ (if prefix < n then mem_slice d (offset + prefix + (?e - ?s)) (n - prefix) else []))"
    proof -
      have "\<not> length (writer_text b) < offset" "\<not> length (writer_text b) - offset < n" using off by auto
      then show ?thesis
        using l by (simp add: solar_os_writer_buffer_copy_def Some prefix_def [symmetric] writer_gap_size_def Let_def)
    qed
    moreover have "take n (drop offset (writer_text b))
        = take n (drop offset (take ?s d)) @ take (n - (?s - offset)) (drop (offset - ?s) (drop ?e d))"
      using g by (simp add: t)
    ultimately show ?thesis using p1 p2 by simp
  qed
qed

lemma set_spec:
  assumes ok: "allocator_ok alloc" and len: "length bytes = n" "n \<le> WRITER_MAX_BYTES"
    and src: "0 < n \<longrightarrow> text \<noteq> None \<and> take n (the text) = bytes"
  shows "(\<exists>b'. solar_os_writer_buffer_set alloc (Some b) text n = (ESP_OK, Some b') \<and> gap_ok b'
             \<and> writer_text b' = bytes \<and> wb_undo b' = [] \<and> wb_undo_cursor b' = 0 \<and> wb_undo_payload b' = 0
             \<and> wb_undo_storage b' = wb_undo_storage b \<and> wb_undo_capacity b' = wb_undo_capacity b)
       \<or> (\<exists>b'. solar_os_writer_buffer_set alloc (Some b) text n = (ESP_ERR_NO_MEM, Some b') \<and> gap_ok b'
             \<and> writer_text b' = [] \<and> wb_undo b' = [] \<and> wb_undo_cursor b' = 0 \<and> wb_undo_payload b' = 0
             \<and> wb_undo_storage b' = wb_undo_storage b \<and> wb_undo_capacity b' = wb_undo_capacity b)"
proof -
  define c where "c = (writer_clear_undo b)\<lparr>wb_data := None, wb_capacity := 0, wb_gap_start := 0, wb_gap_end := 0\<rparr>"
  have c: "gap_ok c" "writer_text c = []" "wb_undo c = []" "wb_undo_cursor c = 0" "wb_undo_payload c = 0"
    "wb_undo_storage c = wb_undo_storage b" "wb_undo_capacity c = wb_undo_capacity b"
    by (simp_all add: c_def gap_ok_def writer_text_def writer_clear_undo_def)
  have r: "solar_os_writer_buffer_set alloc (Some b) text n = (case writer_reserve alloc (Some c) n of
        (ESP_OK, Some b1) \<Rightarrow>
          (ESP_OK, Some (b1\<lparr>wb_data := Some (if 0 < n then mem_copy (the (wb_data b1)) 0 bytes else the (wb_data b1)),
                            wb_gap_start := n, wb_gap_end := wb_capacity b1\<rparr>))
      | (ret, b1) \<Rightarrow> (ret, b1))"
  proof -
    have guards: "\<not> (Some b = None \<or> text = None \<and> 0 < n)" "\<not> WRITER_MAX_BYTES < n" using src len(2) by auto
    have fill: "(if 0 < n then mem_copy x 0 (take n (the text)) else x) = (if 0 < n then mem_copy x 0 bytes else x)"
      for x using src by auto
    show ?thesis
      unfolding solar_os_writer_buffer_set_def fill if_not_P [OF guards(1)] if_not_P [OF guards(2)] option.sel
        c_def Let_def ..
  qed
  from reserve_spec [OF c(1) ok len(2)] c(2)
  consider "writer_reserve alloc (Some c) n = (ESP_ERR_NO_MEM, Some c)"
    | b1 d where "writer_reserve alloc (Some c) n = (ESP_OK, Some b1)" "gap_ok b1" "wb_data b1 = Some d"
        "n \<le> wb_capacity b1" "history b1 = history c" by auto
  then show ?thesis
  proof cases
    case 1
    then show ?thesis using c by (simp add: r)
  next
    case 2
    have "length d = wb_capacity b1" "0 < wb_capacity b1" "wb_capacity b1 \<le> WRITER_MAX_BYTES"
      using 2 by (auto simp: gap_ok_def)
    then show ?thesis using 2 c len
      by (auto simp: r gap_ok_def writer_text_def history_def mem_copy_def)
  qed
qed

end
