(* ===== verification/WriterHistory.thy ===== *)
theory WriterHistory
  imports WriterBuffer "HOL-Library.Sublist"
begin

text \<open>
  The undo history of the Writer's buffer as a chain of texts. An operation in the history is a pair
  of replacements, one the reverse of the other; the operations before the cursor lead from the
  present text back to the past ones, those from the cursor on lead forward again. The invariant
  \<open>writer_ok\<close> says so, with the layout of the gap buffer and the bounds of the history; every
  operation keeps it, and each is described by what it does to the text, to the past and to the
  future. The last section is about the cursor motions.
\<close>

section \<open>The chain of texts\<close>

definition revert_op :: "writer_op \<Rightarrow> u8 list \<Rightarrow> u8 list" where
  "revert_op op t = text_splice t (wo_offset op) (length (wo_inserted op)) (wo_removed op)"

definition apply_op :: "writer_op \<Rightarrow> u8 list \<Rightarrow> u8 list" where
  "apply_op op t = text_splice t (wo_offset op) (length (wo_removed op)) (wo_inserted op)"

text \<open>The text has the given bytes at the offset, and exchanging them gives no text that is too long.\<close>

definition exchange_ok :: "u8 list \<Rightarrow> nat \<Rightarrow> u8 list \<Rightarrow> u8 list \<Rightarrow> bool" where
  "exchange_ok t offset old new \<longleftrightarrow>
     offset + length old \<le> length t \<and> take (length old) (drop offset t) = old
     \<and> length t - length old + length new \<le> WRITER_MAX_BYTES"

definition reverts :: "writer_op \<Rightarrow> u8 list \<Rightarrow> bool" where
  "reverts op t \<longleftrightarrow> exchange_ok t (wo_offset op) (wo_inserted op) (wo_removed op)"

definition applies :: "writer_op \<Rightarrow> u8 list \<Rightarrow> bool" where
  "applies op t \<longleftrightarrow> exchange_ok t (wo_offset op) (wo_removed op) (wo_inserted op)"

text \<open>The operations already made, the newest first, and those undone, the next one first.\<close>

primrec undo_chain :: "writer_op list \<Rightarrow> u8 list \<Rightarrow> bool" where
  "undo_chain [] t = True"
| "undo_chain (op # ops) t = (reverts op t \<and> undo_chain ops (revert_op op t))"

primrec redo_chain :: "writer_op list \<Rightarrow> u8 list \<Rightarrow> bool" where
  "redo_chain [] t = True"
| "redo_chain (op # ops) t = (applies op t \<and> redo_chain ops (apply_op op t))"

primrec past :: "writer_op list \<Rightarrow> u8 list \<Rightarrow> u8 list list" where
  "past [] t = []"
| "past (op # ops) t = revert_op op t # past ops (revert_op op t)"

primrec future :: "writer_op list \<Rightarrow> u8 list \<Rightarrow> u8 list list" where
  "future [] t = []"
| "future (op # ops) t = apply_op op t # future ops (apply_op op t)"

definition past_texts :: "writer_buffer \<Rightarrow> u8 list list" where
  "past_texts b = past (rev (take (wb_undo_cursor b) (wb_undo b))) (writer_text b)"

definition future_texts :: "writer_buffer \<Rightarrow> u8 list list" where
  "future_texts b = future (drop (wb_undo_cursor b) (wb_undo b)) (writer_text b)"

definition payload_sum :: "writer_op list \<Rightarrow> nat" where
  "payload_sum ops = sum_list (map op_payload ops)"

definition writer_ok :: "writer_buffer \<Rightarrow> bool" where
  "writer_ok b \<longleftrightarrow> gap_ok b
     \<and> (if wb_undo_storage b then wb_undo_capacity b = WRITER_UNDO_MAX_OPS
        else wb_undo_capacity b = 0 \<and> wb_undo b = [])
     \<and> wb_undo_cursor b \<le> length (wb_undo b) \<and> length (wb_undo b) \<le> WRITER_UNDO_MAX_OPS
     \<and> wb_undo_payload b = payload_sum (wb_undo b) \<and> wb_undo_payload b \<le> WRITER_UNDO_MAX_PAYLOAD
     \<and> undo_chain (rev (take (wb_undo_cursor b) (wb_undo b))) (writer_text b)
     \<and> redo_chain (drop (wb_undo_cursor b) (wb_undo b)) (writer_text b)"

subsection \<open>Exchanging bytes and exchanging them back\<close>

lemma text_splice_length: "offset + n \<le> length t \<Longrightarrow> length (text_splice t offset n bytes) = length t - n + length bytes"
  by (simp add: text_splice_def)

lemma text_splice_same: "text_splice t offset n (take n (drop offset t)) = t"
proof -
  have "take n (drop offset t) @ drop (offset + n) t = drop offset t"
    by (metis append_take_drop_id drop_drop add.commute)
  then show ?thesis by (simp add: text_splice_def)
qed

lemma text_splice_back:
  assumes "offset + length old \<le> length t" "take (length old) (drop offset t) = old"
  shows "text_splice (text_splice t offset (length old) new) offset (length new) old = t"
proof -
  have "text_splice (text_splice t offset (length old) new) offset (length new) old
      = take offset t @ old @ drop (offset + length old) t"
    using assms(1) by (simp add: text_splice_def)
  also have "\<dots> = t" using text_splice_same [of t offset "length old"] assms(2) by (simp add: text_splice_def)
  finally show ?thesis .
qed

lemma exchange_back:
  assumes "exchange_ok t offset old new" and "length t \<le> WRITER_MAX_BYTES"
  shows "exchange_ok (text_splice t offset (length old) new) offset new old"
  using assms by (auto simp: exchange_ok_def text_splice_def)

lemma revert_then_apply:
  assumes "reverts op t" "length t \<le> WRITER_MAX_BYTES"
  shows "applies op (revert_op op t)" "apply_op op (revert_op op t) = t"
  using assms exchange_back text_splice_back
  by (auto simp: reverts_def applies_def revert_op_def apply_op_def exchange_ok_def)

lemma apply_then_revert:
  assumes "applies op t" "length t \<le> WRITER_MAX_BYTES"
  shows "reverts op (apply_op op t)" "revert_op op (apply_op op t) = t"
  using assms exchange_back text_splice_back
  by (auto simp: reverts_def applies_def revert_op_def apply_op_def exchange_ok_def)

lemma undo_chain_append: "undo_chain (xs @ ys) t \<Longrightarrow> undo_chain xs t"
  by (induction xs arbitrary: t) auto

lemma past_prefix: "prefix (past xs t) (past (xs @ ys) t)"
  by (induction xs arbitrary: t) auto

lemma text_bound: "gap_ok b \<Longrightarrow> length (writer_text b) \<le> WRITER_MAX_BYTES"
  by (auto simp: gap_ok_def writer_text_def split: option.splits)

subsection \<open>Recording an operation\<close>

text \<open>
  While an operation is recorded the bounds may be exceeded: \<open>hist b t\<close> is what the history of \<open>b\<close>
  keeps throughout, as the past of a text \<open>t\<close>.
\<close>

definition hist :: "writer_buffer \<Rightarrow> u8 list \<Rightarrow> bool" where
  "hist b t \<longleftrightarrow> wb_undo_cursor b = length (wb_undo b) \<and> wb_undo_payload b = payload_sum (wb_undo b)
     \<and> undo_chain (rev (wb_undo b)) t"

definition memory where
  "memory b = (wb_data b, wb_capacity b, wb_gap_start b, wb_gap_end b, wb_undo_storage b, wb_undo_capacity b)"

lemma memory_text: "memory b' = memory b \<Longrightarrow> gap_ok b' = gap_ok b \<and> writer_text b' = writer_text b"
  by (auto simp: memory_def gap_ok_def writer_text_def split: option.splits)

lemma payload_sum_simps [simp]:
  "payload_sum [] = 0" "payload_sum (op # ops) = op_payload op + payload_sum ops"
  "payload_sum (xs @ ys) = payload_sum xs + payload_sum ys"
  by (simp_all add: payload_sum_def)

lemma foldl_payload: "foldl (\<lambda>p op. p - op_payload op) p ops = p - payload_sum ops"
  by (induction ops arbitrary: p) simp_all

lemma drop_redo_hist:
  assumes "wb_undo_cursor b \<le> length (wb_undo b)" "wb_undo_payload b = payload_sum (wb_undo b)"
    "undo_chain (rev (take (wb_undo_cursor b) (wb_undo b))) t"
  shows "hist (writer_drop_redo b) t" "memory (writer_drop_redo b) = memory b"
    "wb_undo (writer_drop_redo b) = take (wb_undo_cursor b) (wb_undo b)"
proof -
  have "payload_sum (wb_undo b)
      = payload_sum (take (wb_undo_cursor b) (wb_undo b)) + payload_sum (drop (wb_undo_cursor b) (wb_undo b))"
    using payload_sum_simps(3) [of "take (wb_undo_cursor b) (wb_undo b)" "drop (wb_undo_cursor b) (wb_undo b)"]
    by simp
  then show "hist (writer_drop_redo b) t"
    using assms by (simp add: hist_def writer_drop_redo_def foldl_payload)
  show "memory (writer_drop_redo b) = memory b"
    "wb_undo (writer_drop_redo b) = take (wb_undo_cursor b) (wb_undo b)"
    by (simp_all add: memory_def writer_drop_redo_def)
qed

text \<open>Evicting drops the oldest operations and nothing else.\<close>

definition evicted :: "writer_buffer \<Rightarrow> writer_buffer \<Rightarrow> u8 list \<Rightarrow> bool" where
  "evicted b b' t \<longleftrightarrow> hist b' t \<and> memory b' = memory b \<and> (\<exists>k. wb_undo b' = drop k (wb_undo b))"

lemma evicted_refl: "hist b t \<Longrightarrow> evicted b b t"
  unfolding evicted_def by (metis drop0)

lemma evicted_trans: "evicted b b' t \<Longrightarrow> evicted b' b'' t \<Longrightarrow> evicted b b'' t"
  unfolding evicted_def by (metis drop_drop)

lemma evict_oldest_evicted:
  assumes "hist b t"
  shows "evicted b (writer_evict_oldest b) t"
proof (cases "wb_undo b")
  case Nil
  then show ?thesis using assms by (simp add: writer_evict_oldest_def evicted_refl)
next
  case (Cons op ops)
  have "undo_chain (rev ops) t" using assms Cons undo_chain_append by (auto simp: hist_def)
  then have "hist (writer_evict_oldest b) t" "wb_undo (writer_evict_oldest b) = drop 1 (wb_undo b)"
    using assms Cons by (auto simp: hist_def writer_evict_oldest_def)
  moreover have "memory (writer_evict_oldest b) = memory b"
    using Cons by (simp add: memory_def writer_evict_oldest_def)
  ultimately show ?thesis unfolding evicted_def by blast
qed

lemma make_room_evicted:
  "hist b t \<Longrightarrow> evicted b (writer_make_room p b) t
     \<and> (wb_undo (writer_make_room p b) = []
        \<or> length (wb_undo (writer_make_room p b)) < WRITER_UNDO_MAX_OPS
          \<and> wb_undo_payload (writer_make_room p b) + p \<le> WRITER_UNDO_MAX_PAYLOAD)"
proof (induction p b rule: writer_make_room.induct)
  case (1 p b)
  note e = evict_oldest_evicted [OF 1(2)]
  then have "hist (writer_evict_oldest b) t" by (simp add: evicted_def)
  with 1(1) e evicted_trans [OF e] evicted_refl [OF 1(2)] show ?case
    by (subst (1 2 3 4) writer_make_room.simps) (auto simp: not_le not_less)
qed

lemma trim_evicted:
  "hist b t \<Longrightarrow> evicted b (writer_trim b) t
     \<and> (wb_undo (writer_trim b) = [] \<or> wb_undo_payload (writer_trim b) \<le> WRITER_UNDO_MAX_PAYLOAD)"
proof (induction b rule: writer_trim.induct)
  case (1 b)
  note e = evict_oldest_evicted [OF 1(2)]
  then have "hist (writer_evict_oldest b) t" by (simp add: evicted_def)
  with 1(1) e evicted_trans [OF e] evicted_refl [OF 1(2)] show ?case
    by (subst (1 2 3) writer_trim.simps) (auto simp: not_less)
qed

lemma trim_keeps_last:
  "hist b t \<Longrightarrow> wb_undo b \<noteq> [] \<Longrightarrow> op_payload (last (wb_undo b)) \<le> WRITER_UNDO_MAX_PAYLOAD
     \<Longrightarrow> wb_undo (writer_trim b) \<noteq> []"
proof (induction b rule: writer_trim.induct)
  case (1 b)
  show ?case
  proof (cases "WRITER_UNDO_MAX_PAYLOAD < wb_undo_payload b")
    case False
    then show ?thesis using 1(3) by (subst writer_trim.simps) simp
  next
    case True
    obtain op ops where ops: "wb_undo b = op # ops" using 1(3) by (cases "wb_undo b") auto
    have "ops \<noteq> []" using True 1(2,4) ops by (auto simp: hist_def)
    moreover have "wb_undo (writer_evict_oldest b) = ops" using ops by (simp add: writer_evict_oldest_def)
    moreover have "hist (writer_evict_oldest b) t" using evict_oldest_evicted [OF 1(2)] by (simp add: evicted_def)
    ultimately have "wb_undo (writer_trim (writer_evict_oldest b)) \<noteq> []"
      using 1(1) [OF conjI [OF 1(3) True]] 1(4) ops by simp
    then show ?thesis using True 1(3) by (subst writer_trim.simps) simp
  qed
qed

lemma evicted_past:
  assumes "evicted b b' t"
  shows "length (wb_undo b') \<le> length (wb_undo b)" "prefix (past (rev (wb_undo b')) t) (past (rev (wb_undo b)) t)"
proof -
  obtain k where k: "wb_undo b' = drop k (wb_undo b)" using assms by (auto simp: evicted_def)
  then show "length (wb_undo b') \<le> length (wb_undo b)" by simp
  have "rev (wb_undo b) = rev (wb_undo b') @ rev (take k (wb_undo b))"
    by (simp add: k flip: rev_append)
  then show "prefix (past (rev (wb_undo b')) t) (past (rev (wb_undo b)) t)"
    by (simp add: past_prefix)
qed

text \<open>
  Joining an edit to the last operation: the past texts stay as they are, the edited text takes the
  place of the present one.
\<close>

definition joined :: "writer_buffer \<Rightarrow> writer_buffer \<Rightarrow> u8 list \<Rightarrow> u8 list \<Rightarrow> bool" where
  "joined b b' t t' \<longleftrightarrow> hist b' t' \<and> memory b' = memory b \<and> length (wb_undo b') = length (wb_undo b)
     \<and> past (rev (wb_undo b')) t' = past (rev (wb_undo b)) t
     \<and> wb_undo b' \<noteq> [] \<and> op_payload (last (wb_undo b')) \<le> WRITER_UNDO_MAX_PAYLOAD"

lemma set_last_joined:
  assumes h: "hist b t" "wb_undo b \<noteq> []" and op: "writer_last_op b = op"
    and new: "reverts op' t'" "revert_op op' t' = revert_op op t" "op_payload op' = op_payload op + added"
    and fits: "op_payload op' \<le> WRITER_UNDO_MAX_PAYLOAD"
  shows "joined b (writer_set_last_op b op' added) t t'"
proof -
  obtain op1 ops where "wb_undo b = ops @ [op1]" using h(2) by (metis rev_exhaust)
  moreover from this have "op1 = op" using h(1) op by (simp add: hist_def writer_last_op_def)
  ultimately have ops: "wb_undo b = ops @ [op]" by simp
  then have "wb_undo (writer_set_last_op b op' added) = ops @ [op']"
    using h by (simp add: hist_def writer_set_last_op_def)
  then show ?thesis
    using h ops new fits by (simp add: joined_def hist_def memory_def writer_set_last_op_def)
qed

lemma last_op_reverts:
  assumes "hist b t" "wb_undo b \<noteq> []"
  shows "reverts (writer_last_op b) t"
proof -
  obtain op ops where ops: "wb_undo b = ops @ [op]" using assms(2) by (metis rev_exhaust)
  then have "writer_last_op b = op" using assms(1) by (simp add: hist_def writer_last_op_def)
  then show ?thesis using assms(1) ops by (simp add: hist_def)
qed

lemma coalesce_insert_joined:
  assumes h: "hist b t" and ok: "allocator_ok alloc" and off: "offset \<le> length t" "length t \<le> WRITER_MAX_BYTES"
    and r: "writer_try_coalesce_insert alloc b offset ins cursor_after = (True, b')"
  shows "joined b b' t (text_splice t offset 0 ins)"
proof -
  define op where "op = writer_last_op b"
  from r have ne: "wb_undo b \<noteq> []" using h by (auto simp: writer_try_coalesce_insert_def hist_def)
  from r ne obtain block where op: "wo_removed op = []" "wo_offset op + length (wo_inserted op) = offset"
    and fits: "length (wo_inserted op) + length ins \<le> WRITER_UNDO_MAX_PAYLOAD"
    and block: "alloc (length (wo_inserted op) + length ins) = Some block"
    and b': "b' = writer_set_last_op b (op\<lparr>wo_inserted := mem_copy (mem_copy block 0 (wo_inserted op))
               (length (wo_inserted op)) ins, wo_cursor_after := cursor_after\<rparr>) (length ins)"
    by (auto simp: writer_try_coalesce_insert_def op_def Let_def not_less split: if_splits option.splits)
  have j: "mem_copy (mem_copy block 0 (wo_inserted op)) (length (wo_inserted op)) ins = wo_inserted op @ ins"
    using ok block by (intro mem_copy_join) (simp add: allocator_ok_def)
  have e: "exchange_ok t (wo_offset op) (wo_inserted op) []"
    using last_op_reverts [OF h ne] op(1) by (simp add: reverts_def op_def)
  define op' where "op' = op\<lparr>wo_inserted := wo_inserted op @ ins, wo_cursor_after := cursor_after\<rparr>"
  have t: "take (length (wo_inserted op)) (drop (wo_offset op) t) = wo_inserted op" using e by (simp add: exchange_ok_def)
  have "take (length (wo_inserted op @ ins)) (drop (wo_offset op) (text_splice t offset 0 ins)) = wo_inserted op @ ins"
    using t off(1) unfolding op(2) [symmetric] by (simp add: text_splice_def drop_take)
  then have "reverts op' (text_splice t offset 0 ins)" "revert_op op' (text_splice t offset 0 ins) = revert_op op t"
    "op_payload op' = op_payload op + length ins" "op_payload op' \<le> WRITER_UNDO_MAX_PAYLOAD"
    using off op fits by (auto simp: reverts_def op'_def exchange_ok_def text_splice_def revert_op_def op_payload_def min_def)
  from set_last_joined [OF h ne op_def [symmetric] this] show ?thesis
    by (simp add: b' j op'_def)
qed

lemma coalesce_delete_joined:
  assumes h: "hist b t" and ok: "allocator_ok alloc" and off: "offset + n \<le> length t" "length t \<le> WRITER_MAX_BYTES"
    and r: "writer_try_coalesce_delete alloc b offset (take n (drop offset t)) cursor_after = (True, b')"
  shows "joined b b' t (text_splice t offset n [])"
proof -
  define op where "op = writer_last_op b"
  define gone where "gone = take n (drop offset t)"
  have n: "length gone = n" using off by (simp add: gone_def)
  from r have ne: "wb_undo b \<noteq> []" using h by (auto simp: writer_try_coalesce_delete_def hist_def)
  define op' where "op' = (if wo_offset op = offset then op\<lparr>wo_removed := wo_removed op @ gone\<rparr>
    else op\<lparr>wo_removed := gone @ wo_removed op, wo_offset := offset\<rparr>)\<lparr>wo_cursor_after := cursor_after\<rparr>"
  from r ne obtain block where op: "wo_inserted op = []" "wo_offset op = offset \<or> offset + n = wo_offset op"
    and fits: "length (wo_removed op) + n \<le> WRITER_UNDO_MAX_PAYLOAD"
    and block: "alloc (length (wo_removed op) + length gone) = Some block"
    and b': "b' = writer_set_last_op b ((if wo_offset op = offset
        then op\<lparr>wo_removed := mem_copy (mem_copy block 0 (wo_removed op)) (length (wo_removed op)) gone\<rparr>
        else op\<lparr>wo_removed := mem_copy (mem_copy block 0 gone) (length gone) (wo_removed op), wo_offset := offset\<rparr>)
        \<lparr>wo_cursor_after := cursor_after\<rparr>) (length gone)"
    using n by (auto simp: writer_try_coalesce_delete_def op_def Let_def gone_def [symmetric] not_less split: if_splits option.splits)
  have l: "length block = length (wo_removed op) + length gone" using ok block by (simp add: allocator_ok_def)
  have b'2: "b' = writer_set_last_op b op' n"
    unfolding b' op'_def n using mem_copy_join [OF l] mem_copy_join [of block gone "wo_removed op"] l n
    by (simp add: add.commute)
  have e: "exchange_ok t (wo_offset op) [] (wo_removed op)"
    using last_op_reverts [OF h ne] op(1) by (simp add: reverts_def op_def)
  have bwd: "gone @ drop (offset + n) t = drop offset t"
    by (simp add: gone_def) (metis append_take_drop_id drop_drop add.commute)
  have fwd: "take offset t @ gone = take (offset + n) t" by (simp add: gone_def take_add)
  have "revert_op op' (text_splice t offset n []) = revert_op op t"
  proof (cases "wo_offset op = offset")
    case True
    then show ?thesis using op off bwd by (simp add: op'_def revert_op_def text_splice_def)
  next
    case False
    then show ?thesis using op off fwd by (simp add: op'_def revert_op_def text_splice_def)
  qed
  moreover have "reverts op' (text_splice t offset n [])"
    using op off e n by (auto simp: reverts_def op'_def exchange_ok_def text_splice_def)
  moreover have "op_payload op' = op_payload op + n" using n by (simp add: op'_def op_payload_def)
  moreover from this have "op_payload op' \<le> WRITER_UNDO_MAX_PAYLOAD" using fits op(1) by (simp add: op_payload_def)
  ultimately show ?thesis
    unfolding b'2 by (intro set_last_joined [OF h ne op_def [symmetric]])
qed

text \<open>An edit either joins the last operation or becomes one, and then the bounds hold again.\<close>

lemma record_spec:
  fixes cursor_before cursor_after :: nat
  assumes h: "hist b t" and ok: "allocator_ok alloc" and len: "length (wb_undo b) \<le> WRITER_UNDO_MAX_OPS"
    and off: "offset + m \<le> length t" "length t \<le> WRITER_MAX_BYTES"
    and edit: "removed = take m (drop offset t)" "removed \<noteq> [] \<or> inserted \<noteq> []"
  defines "t' \<equiv> text_splice t offset m inserted"
    and "b' \<equiv> writer_record alloc b offset removed inserted cursor_before cursor_after"
  shows "hist b' t' \<and> memory b' = memory b \<and> length (wb_undo b') \<le> WRITER_UNDO_MAX_OPS
    \<and> wb_undo_payload b' \<le> WRITER_UNDO_MAX_PAYLOAD
    \<and> (prefix (past (rev (wb_undo b')) t') (past (rev (wb_undo b)) t)
       \<or> prefix (past (rev (wb_undo b')) t') (t # past (rev (wb_undo b)) t))
    \<and> (length removed + length inserted \<le> WRITER_UNDO_MAX_PAYLOAD \<longrightarrow> wb_undo b' \<noteq> [])"
proof -
  have m: "length removed = m" using off edit by simp
  define ji where "ji = (if removed = [] then writer_try_coalesce_insert alloc b offset inserted cursor_after else (False, b))"
  define jd where "jd = (if \<not> fst ji \<and> inserted = []
    then writer_try_coalesce_delete alloc (snd ji) offset removed cursor_after else (False, snd ji))"
  define op where "op = \<lparr>wo_offset = offset, wo_removed = removed, wo_inserted = inserted,
    wo_cursor_before = cursor_before, wo_cursor_after = cursor_after\<rparr>"
  define payload where "payload = length removed + length inserted"
  define room where "room = writer_make_room payload (snd jd)"
  define step where "step = (if fst ji \<or> fst jd then snd jd
     else if payload \<le> WRITER_UNDO_MAX_PAYLOAD
          then room\<lparr>wb_undo := wb_undo room @ [op], wb_undo_cursor := length (wb_undo room) + 1,
                    wb_undo_payload := wb_undo_payload room + payload\<rparr>
          else room)"
  obtain j1 b1 j2 b2 where p: "ji = (j1, b1)" "jd = (j2, b2)" by (cases ji, cases jd) blast
  have ji: "(if removed = [] then writer_try_coalesce_insert alloc b offset inserted cursor_after else (False, b))
      = (j1, b1)" using p(1) by (simp add: ji_def)
  have jd: "(if \<not> j1 \<and> inserted = [] then writer_try_coalesce_delete alloc b1 offset removed cursor_after
      else (False, b1)) = (j2, b2)" using p(2) unfolding jd_def p(1) fst_conv snd_conv .
  have b': "b' = writer_trim step"
    unfolding b'_def writer_record_def ji prod.case Let_def jd step_def room_def payload_def op_def p fst_conv snd_conv ..
  have step: "hist step t' \<and> memory step = memory b \<and> length (wb_undo step) \<le> WRITER_UNDO_MAX_OPS
    \<and> (prefix (past (rev (wb_undo step)) t') (past (rev (wb_undo b)) t)
       \<or> prefix (past (rev (wb_undo step)) t') (t # past (rev (wb_undo b)) t))
    \<and> (payload \<le> WRITER_UNDO_MAX_PAYLOAD
         \<longrightarrow> wb_undo step \<noteq> [] \<and> op_payload (last (wb_undo step)) \<le> WRITER_UNDO_MAX_PAYLOAD)"
  proof (cases "fst ji \<or> fst jd")
    case True
    have "joined b (snd jd) t t'"
    proof (cases "fst ji")
      case True
      then have "removed = []" "jd = (False, snd ji)" "writer_try_coalesce_insert alloc b offset inserted cursor_after
          = (True, snd ji)" by (auto simp: ji_def jd_def prod_eq_iff split: if_splits)
      moreover from this have "m = 0" using m by simp
      ultimately show ?thesis using coalesce_insert_joined [OF h ok _ off(2)] off(1) by (simp add: t'_def)
    next
      case False
      then have "inserted = []" "writer_try_coalesce_delete alloc (snd ji) offset removed cursor_after = (True, snd jd)"
        using True by (auto simp: jd_def prod_eq_iff split: if_splits)
      moreover have "snd ji = b" using False
        by (auto simp: ji_def writer_try_coalesce_insert_def Let_def split: if_splits option.splits)
      ultimately show ?thesis using coalesce_delete_joined [OF h ok off] edit(1) by (simp add: t'_def)
    qed
    then show ?thesis using True len by (simp add: step_def joined_def)
  next
    case False
    then have same: "snd jd = b"
      by (auto simp: ji_def jd_def writer_try_coalesce_insert_def writer_try_coalesce_delete_def Let_def
          split: if_splits option.splits)
    note r = make_room_evicted [OF h, of payload, folded same, folded room_def, unfolded same]
    then have e: "evicted b room t" by simp
    note p = evicted_past [OF e]
    have bwd: "revert_op op t' = t" "reverts op t'"
      using text_splice_back [of offset removed t inserted] exchange_back [of t offset removed inserted] off m edit(1)
        text_splice_same [of t offset m]
      by (simp_all add: op_def revert_op_def t'_def reverts_def exchange_ok_def text_splice_def)
    show ?thesis
    proof (cases "payload \<le> WRITER_UNDO_MAX_PAYLOAD")
      case True
      with False have s: "step = room\<lparr>wb_undo := wb_undo room @ [op], wb_undo_cursor := length (wb_undo room) + 1,
          wb_undo_payload := wb_undo_payload room + payload\<rparr>" by (simp add: step_def)
      have "length (wb_undo room) < WRITER_UNDO_MAX_OPS" using r by (auto simp: WRITER_UNDO_MAX_OPS_def)
      then show ?thesis
        using e p bwd unfolding s
        by (simp add: evicted_def hist_def memory_def op_payload_def) (simp add: op_def payload_def)
    next
      case big: False
      then have "wb_undo room = []" using r by auto
      then show ?thesis
        using False big e by (simp add: step_def evicted_def hist_def)
    qed
  qed
  note t = trim_evicted [OF conjunct1 [OF step], folded b']
  then have e: "evicted step b' t'" by simp
  moreover have "wb_undo_payload b' \<le> WRITER_UNDO_MAX_PAYLOAD"
    using t by (auto simp: evicted_def hist_def)
  moreover have "payload \<le> WRITER_UNDO_MAX_PAYLOAD \<longrightarrow> wb_undo b' \<noteq> []"
    using trim_keeps_last [OF conjunct1 [OF step]] step by (simp add: b')
  ultimately show ?thesis
    using step evicted_past [OF e] by (auto simp: evicted_def payload_def intro: prefix_order.trans)
qed

section \<open>What the operations do\<close>

definition writer_allocs_ok :: "writer_allocs \<Rightarrow> bool" where
  "writer_allocs_ok wa \<longleftrightarrow> allocator_ok (wa_removed wa) \<and> allocator_ok (wa_inserted wa)
     \<and> allocator_ok (wa_data wa) \<and> allocator_ok (wa_join wa)"

definition some_alloc_fails :: "writer_allocs \<Rightarrow> bool" where
  "some_alloc_fails wa \<longleftrightarrow> (\<exists>n. wa_removed wa n = None) \<or> (\<exists>n. wa_inserted wa n = None) \<or> (\<exists>n. wa_data wa n = None)"

definition given_bytes :: "u8 list option \<Rightarrow> nat \<Rightarrow> u8 list" where
  "given_bytes ins n = (if 0 < n then take n (the ins) else [])"

text \<open>The caller's duty: as many bytes behind the pointer as the length says.\<close>

definition bytes_given :: "u8 list option \<Rightarrow> nat \<Rightarrow> bool" where
  "bytes_given ins n \<longleftrightarrow> (case ins of None \<Rightarrow> True | Some bytes \<Rightarrow> n \<le> length bytes)"

definition valid_range :: "writer_buffer \<Rightarrow> nat \<Rightarrow> nat \<Rightarrow> bool" where
  "valid_range b offset m \<longleftrightarrow> offset + m \<le> length (writer_text b)"

lemma zero_writer_ok: "writer_ok writer_buffer_zero"
  by (simp add: writer_ok_def writer_buffer_zero_def gap_ok_def writer_sizes)

lemma clear_undo_writer_ok: "writer_ok b \<Longrightarrow> writer_ok (writer_clear_undo b)"
  by (auto simp: writer_ok_def writer_clear_undo_def gap_ok_def split: option.splits if_splits)

lemma replace_raw_too_big:
  assumes "gap_ok b" "valid_range b offset m" "ins = None \<longrightarrow> n = 0" "WRITER_MAX_BYTES < length (writer_text b) - m + n"
  shows "writer_replace_raw alloc (Some b) offset m ins n = (ESP_ERR_INVALID_SIZE, Some b)"
  using assms text_length [OF assms(1)]
  by (auto simp: writer_replace_raw_def writer_reserve_def valid_range_def Let_def)

lemma copy_new_spec:
  assumes "gap_ok b" "allocator_ok alloc" "valid_range b offset m"
  shows "writer_copy_new alloc (Some b) offset m =
     (if m = 0 then None else map_option (\<lambda>_. take m (drop offset (writer_text b))) (alloc m))"
  using assms copy_spec [OF assms(1), of offset m]
  by (auto simp: writer_copy_new_def valid_range_def allocator_ok_def mem_copy_all split: option.splits)

lemma history_chain:
  assumes "writer_ok b" "gap_ok b'" "history b' = history b"
  shows "hist (writer_drop_redo b') (writer_text b)" "gap_ok (writer_drop_redo b')"
    "writer_text (writer_drop_redo b') = writer_text b'"
    "past (rev (wb_undo (writer_drop_redo b'))) (writer_text b) = past_texts b"
    "length (wb_undo (writer_drop_redo b')) \<le> WRITER_UNDO_MAX_OPS"
    "wb_undo_payload (writer_drop_redo b') \<le> WRITER_UNDO_MAX_PAYLOAD"
    "wb_undo_storage (writer_drop_redo b') = wb_undo_storage b"
    "wb_undo_capacity (writer_drop_redo b') = wb_undo_capacity b"
proof -
  have same: "wb_undo b' = wb_undo b" "wb_undo_cursor b' = wb_undo_cursor b" "wb_undo_payload b' = wb_undo_payload b"
    "wb_undo_storage b' = wb_undo_storage b" "wb_undo_capacity b' = wb_undo_capacity b"
    using assms(3) by (auto simp: history_def)
  note d = drop_redo_hist [of b' "writer_text b", unfolded same]
  show "hist (writer_drop_redo b') (writer_text b)" using assms(1) d(1) by (simp add: writer_ok_def)
  have m: "memory (writer_drop_redo b') = memory b'" and u: "wb_undo (writer_drop_redo b') = take (wb_undo_cursor b) (wb_undo b)"
    using assms(1) d(2,3) by (simp_all add: writer_ok_def)
  show "gap_ok (writer_drop_redo b')" "writer_text (writer_drop_redo b') = writer_text b'"
    using memory_text [OF m] assms(2) by simp_all
  show "past (rev (wb_undo (writer_drop_redo b'))) (writer_text b) = past_texts b" by (simp add: u past_texts_def)
  show "length (wb_undo (writer_drop_redo b')) \<le> WRITER_UNDO_MAX_OPS" using assms(1) by (simp add: u writer_ok_def)
  show "wb_undo_payload (writer_drop_redo b') \<le> WRITER_UNDO_MAX_PAYLOAD"
    using assms(1) same order_trans [OF diff_le_self] by (simp add: writer_drop_redo_def writer_ok_def foldl_payload)
  show "wb_undo_storage (writer_drop_redo b') = wb_undo_storage b" "wb_undo_capacity (writer_drop_redo b') = wb_undo_capacity b"
    using m same by (simp_all add: memory_def)
qed

lemma hist_writer_ok:
  assumes "hist b (writer_text b)" "gap_ok b" "length (wb_undo b) \<le> WRITER_UNDO_MAX_OPS"
    "wb_undo_payload b \<le> WRITER_UNDO_MAX_PAYLOAD"
    "if wb_undo_storage b then wb_undo_capacity b = WRITER_UNDO_MAX_OPS else wb_undo_capacity b = 0 \<and> wb_undo b = []"
  shows "writer_ok b" "past_texts b = past (rev (wb_undo b)) (writer_text b)" "future_texts b = []"
  using assms by (simp_all add: writer_ok_def hist_def past_texts_def future_texts_def)

lemma recorded:
  fixes cursor_before cursor_after :: nat
  assumes ok: "writer_ok b" "writer_allocs_ok wa" and raw: "gap_ok c" "history c = history b"
    "writer_text c = text_splice (writer_text b) offset m inserted" and range: "valid_range b offset m"
    and edit: "removed = take m (drop offset (writer_text b))" "removed \<noteq> [] \<or> inserted \<noteq> []"
  defines "ret \<equiv> (case writer_ensure_undo_storage (wa_storage wa) (writer_drop_redo c) of
      (False, b1) \<Rightarrow> b1 | (True, b1) \<Rightarrow> writer_record (wa_join wa) b1 offset removed inserted cursor_before cursor_after)"
  shows "writer_ok ret \<and> writer_text ret = writer_text c \<and> future_texts ret = []
    \<and> (prefix (past_texts ret) (past_texts b) \<or> prefix (past_texts ret) (writer_text b # past_texts b))
    \<and> ((wb_undo_storage b \<or> wa_storage wa) \<and> length removed + length inserted \<le> WRITER_UNDO_MAX_PAYLOAD
         \<longrightarrow> past_texts ret \<noteq> [])"
proof -
  note d = history_chain [OF ok(1) raw(1,2)]
  have bound: "length (writer_text b) \<le> WRITER_MAX_BYTES" using ok(1) text_bound by (simp add: writer_ok_def)
  show ?thesis
  proof (cases "wb_undo_storage b \<or> wa_storage wa")
    case False
    then have ret: "ret = writer_drop_redo c"
      using d(7) by (simp add: ret_def writer_ensure_undo_storage_def)
    have "wb_undo b = []" "wb_undo_capacity b = 0" using False ok(1) by (auto simp: writer_ok_def)
    moreover from this have "wb_undo (writer_drop_redo c) = []"
      using raw(2) by (simp add: writer_drop_redo_def history_def)
    ultimately have "hist ret (writer_text ret)" "past_texts ret = []" "past_texts b = []"
      using d(1) by (simp_all add: ret hist_def past_texts_def)
    with hist_writer_ok [of ret] d False show ?thesis
      using \<open>wb_undo (writer_drop_redo c) = []\<close> \<open>wb_undo_capacity b = 0\<close> by (simp add: ret)
  next
    case True
    define s where "s = snd (writer_ensure_undo_storage (wa_storage wa) (writer_drop_redo c))"
    have e: "writer_ensure_undo_storage (wa_storage wa) (writer_drop_redo c) = (True, s)"
      using True d(7) by (auto simp: s_def writer_ensure_undo_storage_def)
    have s: "hist s (writer_text b)" "gap_ok s" "writer_text s = writer_text c"
      "past (rev (wb_undo s)) (writer_text b) = past_texts b" "length (wb_undo s) \<le> WRITER_UNDO_MAX_OPS"
      "wb_undo_storage s" "wb_undo_capacity s = WRITER_UNDO_MAX_OPS"
      using d True ok(1)
      by (auto simp: s_def writer_ensure_undo_storage_def hist_def gap_ok_def writer_text_def writer_ok_def
          split: option.splits)
    have ret: "ret = writer_record (wa_join wa) s offset removed inserted cursor_before cursor_after"
      by (simp add: ret_def e)
    note r = record_spec [where cursor_before = cursor_before and cursor_after = cursor_after
        and alloc = "wa_join wa", OF s(1) _ s(5) _ bound edit, folded ret raw(3)]
    have "allocator_ok (wa_join wa)" "offset + m \<le> length (writer_text b)"
      using ok(2) range by (simp_all add: writer_allocs_ok_def valid_range_def)
    note r = r [OF this]
    from r have m: "memory ret = memory s" by simp
    note t = memory_text [OF m]
    have "wb_undo_storage ret" "wb_undo_capacity ret = WRITER_UNDO_MAX_OPS" using m s(6,7) by (simp_all add: memory_def)
    moreover have "past (rev ops) u \<noteq> []" if "ops \<noteq> []" for ops :: "writer_op list" and u
      using that by (cases ops rule: rev_cases) auto
    ultimately show ?thesis using hist_writer_ok [of ret] r t s(2-4) by auto
  qed
qed

text \<open>A replacement fails and leaves everything as it was, or it succeeds.\<close>

lemma replace_spec:
  fixes cursor_before cursor_after :: nat
  assumes ok: "writer_ok b" "writer_allocs_ok wa" and given: "ins = None \<longrightarrow> n = 0" "bytes_given ins n"
    and range: "valid_range b offset m" and some: "0 < m \<or> 0 < n"
  defines "r \<equiv> solar_os_writer_buffer_replace wa (Some b) offset m ins n cursor_before cursor_after"
  shows "(r = (ESP_ERR_NO_MEM, Some b) \<and> some_alloc_fails wa)
    \<or> (r = (ESP_ERR_INVALID_SIZE, Some b) \<and> WRITER_MAX_BYTES < length (writer_text b) - m + n)
    \<or> (\<exists>b'. r = (ESP_OK, Some b') \<and> length (writer_text b) - m + n \<le> WRITER_MAX_BYTES \<and> writer_ok b'
         \<and> writer_text b' = text_splice (writer_text b) offset m (given_bytes ins n) \<and> future_texts b' = []
         \<and> (prefix (past_texts b') (past_texts b) \<or> prefix (past_texts b') (writer_text b # past_texts b))
         \<and> ((wb_undo_storage b \<or> wa_storage wa) \<and> m + n \<le> WRITER_UNDO_MAX_PAYLOAD \<longrightarrow> past_texts b' \<noteq> []))"
proof -
  have g: "gap_ok b" using ok(1) by (simp add: writer_ok_def)
  have a: "allocator_ok (wa_removed wa)" "allocator_ok (wa_inserted wa)" "allocator_ok (wa_data wa)"
    using ok(2) by (simp_all add: writer_allocs_ok_def)
  define removed where "removed = writer_copy_new (wa_removed wa) (Some b) offset m"
  define inserted where "inserted = (if 0 < n
      then map_option (\<lambda>block. mem_copy block 0 (take n (the ins))) (wa_inserted wa n) else None)"
  have removed: "removed = (if m = 0 then None
      else map_option (\<lambda>_. take m (drop offset (writer_text b))) (wa_removed wa m))"
    unfolding removed_def by (rule copy_new_spec [OF g a(1) range])
  have n_ins: "length (take n (the ins)) = n" if "0 < n" using given that by (cases ins) (auto simp: bytes_given_def)
  have inserted: "inserted = (if n = 0 then None else map_option (\<lambda>_. given_bytes ins n) (wa_inserted wa n))"
    using a(2) n_ins
    by (cases "wa_inserted wa n") (auto simp: inserted_def given_bytes_def allocator_ok_def mem_copy_all)
  define rem where "rem = (case removed of None \<Rightarrow> [] | Some r \<Rightarrow> r)"
  define add where "add = (case inserted of None \<Rightarrow> [] | Some i \<Rightarrow> i)"
  define noted where "noted b1 = (case writer_ensure_undo_storage (wa_storage wa) (writer_drop_redo b1) of
      (False, b2) \<Rightarrow> b2 | (True, b2) \<Rightarrow> writer_record (wa_join wa) b2 offset rem add cursor_before cursor_after)" for b1
  have guards: "\<not> (Some b = None \<or> solar_os_writer_buffer_length (Some b) < offset
      \<or> solar_os_writer_buffer_length (Some b) - offset < m \<or> ins = None \<and> 0 < n)" "\<not> (m = 0 \<and> n = 0)"
    using range given(1) some text_length [OF g] by (auto simp: valid_range_def)
  have r: "r = (if 0 < m \<and> removed = None then (ESP_ERR_NO_MEM, Some b)
      else if 0 < n \<and> inserted = None then (ESP_ERR_NO_MEM, Some b)
      else (case writer_replace_raw (wa_data wa) (Some b) offset m ins n of
              (ESP_OK, Some b1) \<Rightarrow> (ESP_OK, Some (noted b1)) | (ret, b1) \<Rightarrow> (ret, b1)))"
  proof -
    have fin: "(case writer_ensure_undo_storage (wa_storage wa) (writer_drop_redo b1) of
        (False, b2) \<Rightarrow> (ESP_OK, Some b2)
      | (True, b2) \<Rightarrow> (ESP_OK, Some (writer_record (wa_join wa) b2 offset rem add cursor_before cursor_after)))
      = (ESP_OK, Some (noted b1))" for b1
      by (simp add: noted_def split: prod.splits bool.splits)
    show ?thesis
      unfolding r_def solar_os_writer_buffer_replace_def Let_def if_not_P [OF guards(1)] if_not_P [OF guards(2)]
        removed_def [symmetric] inserted_def [symmetric] rem_def [symmetric] add_def [symmetric] fin ..
  qed
  consider "removed = None" "0 < m" | "inserted = None" "0 < n" "\<not> (0 < m \<and> removed = None)"
    | "\<not> (0 < m \<and> removed = None)" "\<not> (0 < n \<and> inserted = None)" by blast
  then show ?thesis
  proof cases
    case 1
    then show ?thesis using r removed by (auto simp: some_alloc_fails_def)
  next
    case 2
    then show ?thesis using r inserted by (auto simp: some_alloc_fails_def)
  next
    case 3
    have rem: "rem = take m (drop offset (writer_text b))" and add: "add = given_bytes ins n"
      using 3 removed inserted by (auto simp: rem_def add_def given_bytes_def split: if_splits option.splits)
    have r3: "r = (case writer_replace_raw (wa_data wa) (Some b) offset m ins n of
              (ESP_OK, Some b1) \<Rightarrow> (ESP_OK, Some (noted b1)) | (ret, b1) \<Rightarrow> (ret, b1))"
      unfolding r if_not_P [OF 3(1)] if_not_P [OF 3(2)] ..
    show ?thesis
    proof (cases "WRITER_MAX_BYTES < length (writer_text b) - m + n")
      case True
      then show ?thesis using replace_raw_too_big [OF g range given(1) True] by (simp add: r3)
    next
      case False
      have edit: "rem \<noteq> [] \<or> add \<noteq> []"
        using some range n_ins by (auto simp: rem add valid_range_def given_bytes_def)
      have "0 < n \<longrightarrow> ins \<noteq> None \<and> n \<le> length (the ins)"
        using given by (cases ins) (auto simp: bytes_given_def)
      from replace_raw_spec [OF g a(3) add [unfolded given_bytes_def] this range [unfolded valid_range_def]
          False [unfolded not_less]]
      consider "writer_replace_raw (wa_data wa) (Some b) offset m ins n = (ESP_ERR_NO_MEM, Some b)"
          "some_alloc_fails wa"
        | c where "writer_replace_raw (wa_data wa) (Some b) offset m ins n = (ESP_OK, Some c)" "gap_ok c"
            "writer_text c = text_splice (writer_text b) offset m add" "history c = history b"
        by (auto simp: some_alloc_fails_def)
      then show ?thesis
      proof cases
        case 1
        then show ?thesis by (simp add: r3)
      next
        case 2
        have "length rem = m" "length (given_bytes ins n) = n"
          using range n_ins by (auto simp: rem valid_range_def given_bytes_def)
        with recorded [OF ok 2(2,4,3) range rem edit, of cursor_before cursor_after, folded noted_def] False 2
        show ?thesis by (simp add: r3 add)
      qed
    qed
  qed
qed

text \<open>Undoing and redoing: nothing happens at the end of the history or when the allocation fails.\<close>

lemma exchange_outcome:
  assumes ok: "gap_ok b" "allocator_ok alloc" and e: "exchange_ok (writer_text b) offset old new"
  obtains (failed) "writer_replace_raw alloc (Some b) offset (length old) (Some new) (length new) = (ESP_ERR_NO_MEM, Some b)"
      "\<exists>k. alloc k = None"
    | (moved) c where "writer_replace_raw alloc (Some b) offset (length old) (Some new) (length new) = (ESP_OK, Some c)"
      "\<And>n. gap_ok (c\<lparr>wb_undo_cursor := n\<rparr>)"
      "\<And>n. writer_text (c\<lparr>wb_undo_cursor := n\<rparr>) = text_splice (writer_text b) offset (length old) new"
      "wb_undo c = wb_undo b" "wb_undo_cursor c = wb_undo_cursor b" "wb_undo_payload c = wb_undo_payload b"
      "wb_undo_storage c = wb_undo_storage b" "wb_undo_capacity c = wb_undo_capacity b"
proof -
  have pre: "new = (if 0 < length new then take (length new) (the (Some new)) else [])"
    "0 < length new \<longrightarrow> Some new \<noteq> None \<and> length new \<le> length (the (Some new))"
    "offset + length old \<le> length (writer_text b)"
    "length (writer_text b) - length old + length new \<le> WRITER_MAX_BYTES"
    using e by (auto simp: exchange_ok_def)
  from replace_raw_spec [OF ok pre] show ?thesis
  proof
    assume "writer_replace_raw alloc (Some b) offset (length old) (Some new) (length new) = (ESP_ERR_NO_MEM, Some b)
      \<and> (\<exists>k. wb_capacity b < k \<and> alloc k = None)"
    then show ?thesis using failed by blast
  next
    assume "\<exists>b'. writer_replace_raw alloc (Some b) offset (length old) (Some new) (length new) = (ESP_OK, Some b')
      \<and> gap_ok b' \<and> writer_text b' = text_splice (writer_text b) offset (length old) new \<and> history b' = history b"
    then obtain c where c: "writer_replace_raw alloc (Some b) offset (length old) (Some new) (length new) = (ESP_OK, Some c)"
      "gap_ok c" "writer_text c = text_splice (writer_text b) offset (length old) new" "history c = history b" by blast
    have "memory (c\<lparr>wb_undo_cursor := n\<rparr>) = memory c" for n by (simp add: memory_def)
    note m = memory_text [OF this]
    show ?thesis
      using c(4) m c(2,3) by (intro moved [OF c(1)]) (auto simp: history_def)
  qed
qed

lemma undo_spec:
  fixes cursor :: "nat option"
  assumes ok: "writer_ok b" "allocator_ok alloc"
  defines "r \<equiv> solar_os_writer_buffer_undo alloc (Some b) cursor"
  shows "(r = (False, Some b, cursor) \<and> (past_texts b = [] \<or> (\<exists>k. alloc k = None)))
    \<or> (\<exists>b'. r = (True, Some b', map_option (\<lambda>_. wo_cursor_before (writer_last_op b)) cursor) \<and> writer_ok b'
         \<and> past_texts b = writer_text b' # past_texts b' \<and> future_texts b' = writer_text b # future_texts b
         \<and> wb_undo b' = wb_undo b \<and> wb_undo_cursor b = Suc (wb_undo_cursor b'))"
proof (cases "wb_undo_cursor b")
  case 0
  then show ?thesis by (simp add: r_def solar_os_writer_buffer_undo_def past_texts_def)
next
  case (Suc n)
  define op where "op = wb_undo b ! n"
  have g: "gap_ok b" and bound: "length (writer_text b) \<le> WRITER_MAX_BYTES"
    using ok(1) text_bound by (auto simp: writer_ok_def)
  have n: "n < length (wb_undo b)" using ok(1) Suc by (simp add: writer_ok_def)
  have op: "writer_last_op b = op" by (simp add: writer_last_op_def Suc op_def)
  have before: "rev (take (wb_undo_cursor b) (wb_undo b)) = op # rev (take n (wb_undo b))"
    using n by (simp add: Suc op_def take_Suc_conv_app_nth)
  have after: "drop n (wb_undo b) = op # drop (wb_undo_cursor b) (wb_undo b)"
    using n by (simp add: Suc op_def Cons_nth_drop_Suc)
  have e: "reverts op (writer_text b)" and chain: "undo_chain (rev (take n (wb_undo b))) (revert_op op (writer_text b))"
    using ok(1) before by (simp_all add: writer_ok_def)
  note fwd = revert_then_apply [OF e bound]
  from e have "exchange_ok (writer_text b) (wo_offset op) (wo_inserted op) (wo_removed op)" by (simp add: reverts_def)
  from g ok(2) this show ?thesis
  proof (cases rule: exchange_outcome)
    case failed
    then show ?thesis by (simp add: r_def solar_os_writer_buffer_undo_def Suc op Let_def)
  next
    case (moved c)
    note t = moved(3) [of n, folded revert_op_def]
    let ?b' = "c\<lparr>wb_undo_cursor := n\<rparr>"
    have "r = (True, Some ?b', map_option (\<lambda>_. wo_cursor_before op) cursor)"
      by (simp add: r_def solar_os_writer_buffer_undo_def Suc op moved Let_def)
    moreover have "past_texts b = writer_text ?b' # past_texts ?b'"
      unfolding past_texts_def before t by (simp add: moved)
    moreover have "future_texts ?b' = writer_text b # future_texts b"
      unfolding future_texts_def t by (simp add: moved after fwd)
    moreover have "writer_ok ?b'"
      unfolding writer_ok_def t using ok(1) moved chain fwd n after by (simp add: writer_ok_def)
    ultimately show ?thesis using moved Suc by (simp add: op)
  qed
qed

lemma redo_spec:
  fixes cursor :: "nat option"
  assumes ok: "writer_ok b" "allocator_ok alloc"
  defines "r \<equiv> solar_os_writer_buffer_redo alloc (Some b) cursor"
  shows "(r = (False, Some b, cursor) \<and> (future_texts b = [] \<or> (\<exists>k. alloc k = None)))
    \<or> (\<exists>b'. r = (True, Some b', map_option (\<lambda>_. wo_cursor_after (wb_undo b ! wb_undo_cursor b)) cursor) \<and> writer_ok b'
         \<and> future_texts b = writer_text b' # future_texts b' \<and> past_texts b' = writer_text b # past_texts b
         \<and> wb_undo b' = wb_undo b \<and> wb_undo_cursor b' = Suc (wb_undo_cursor b))"
proof (cases "wb_undo_cursor b < length (wb_undo b)")
  case False
  then show ?thesis by (simp add: r_def solar_os_writer_buffer_redo_def future_texts_def)
next
  case True
  define n where "n = wb_undo_cursor b"
  define op where "op = wb_undo b ! n"
  have g: "gap_ok b" and bound: "length (writer_text b) \<le> WRITER_MAX_BYTES"
    using ok(1) text_bound by (auto simp: writer_ok_def)
  have before: "rev (take (Suc n) (wb_undo b)) = op # rev (take n (wb_undo b))"
    using True by (simp add: n_def op_def take_Suc_conv_app_nth)
  have after: "drop n (wb_undo b) = op # drop (Suc n) (wb_undo b)"
    using True by (simp add: n_def op_def Cons_nth_drop_Suc)
  have e: "applies op (writer_text b)" and chain: "redo_chain (drop (Suc n) (wb_undo b)) (apply_op op (writer_text b))"
    using ok(1) after by (simp_all add: writer_ok_def n_def [symmetric])
  note bwd = apply_then_revert [OF e bound]
  from e have "exchange_ok (writer_text b) (wo_offset op) (wo_removed op) (wo_inserted op)" by (simp add: applies_def)
  from g ok(2) this show ?thesis
  proof (cases rule: exchange_outcome)
    case failed
    then show ?thesis using True by (simp add: r_def solar_os_writer_buffer_redo_def n_def [symmetric] op_def [symmetric] Let_def)
  next
    case (moved c)
    note t = moved(3) [of "Suc n", folded apply_op_def]
    let ?b' = "c\<lparr>wb_undo_cursor := Suc n\<rparr>"
    have "r = (True, Some ?b', map_option (\<lambda>_. wo_cursor_after op) cursor)"
      using True moved
      by (simp add: r_def solar_os_writer_buffer_redo_def n_def [symmetric] op_def [symmetric] Let_def)
    moreover have "future_texts b = writer_text ?b' # future_texts ?b'"
      unfolding future_texts_def n_def [symmetric] after t by (simp add: moved)
    moreover have "past_texts ?b' = writer_text b # past_texts b"
      unfolding past_texts_def t by (simp add: moved before bwd n_def [symmetric])
    moreover have "writer_ok ?b'"
      unfolding writer_ok_def t using ok(1) moved chain bwd True before by (simp add: writer_ok_def n_def)
    ultimately show ?thesis using moved by (simp add: op_def n_def)
  qed
qed

end
