(* ===== verification/WriterProperties.thy ===== *)
theory WriterProperties
  imports WriterHistory
begin

text \<open>
  What the Writer's buffer promises: the invariant over all sequences of its operations, the
  refinement of a flat text, undo and redo as a walk along the past and future texts, and cursor
  motions that end and stay inside the text.
\<close>

section \<open>The flat text\<close>

text \<open>The specification of a replacement on a plain list of bytes.\<close>

definition flat_replace :: "u8 list \<Rightarrow> nat \<Rightarrow> nat \<Rightarrow> u8 list option \<Rightarrow> nat \<Rightarrow> esp_err \<times> u8 list" where
  "flat_replace t offset m ins n =
     (if length t < offset + m \<or> (ins = None \<and> 0 < n) then (ESP_ERR_INVALID_ARG, t)
      else if WRITER_MAX_BYTES < length t - m + n then (ESP_ERR_INVALID_SIZE, t)
      else (ESP_OK, text_splice t offset m (given_bytes ins n)))"

lemma replace_cases:
  fixes offset m cursor_before cursor_after :: nat
  assumes ok: "writer_ok b" "writer_allocs_ok wa" and given: "bytes_given ins n"
  defines "r \<equiv> solar_os_writer_buffer_replace wa (Some b) offset m ins n cursor_before cursor_after"
  obtains (failed) "r = (ESP_ERR_NO_MEM, Some b)" "some_alloc_fails wa"
    | (refused) e where "r = (e, Some b)" "flat_replace (writer_text b) offset m ins n = (e, writer_text b)"
    | (changed) b' where "r = (ESP_OK, Some b')" "writer_ok b'"
        "flat_replace (writer_text b) offset m ins n = (ESP_OK, writer_text b')" "future_texts b' = []"
        "prefix (past_texts b') (past_texts b) \<or> prefix (past_texts b') (writer_text b # past_texts b)"
        "(wb_undo_storage b \<or> wa_storage wa) \<and> m + n \<le> WRITER_UNDO_MAX_PAYLOAD \<longrightarrow> past_texts b' \<noteq> []"
        "valid_range b offset m" "0 < m \<or> 0 < n" "ins = None \<longrightarrow> n = 0"
proof -
  have g: "gap_ok b" using ok(1) by (simp add: writer_ok_def)
  note l = text_length [OF g]
  have bound: "length (writer_text b) \<le> WRITER_MAX_BYTES" by (rule text_bound [OF g])
  consider "\<not> valid_range b offset m \<or> (ins = None \<and> 0 < n)"
    | "valid_range b offset m" "ins = None \<longrightarrow> n = 0" "m = 0 \<and> n = 0"
    | "valid_range b offset m" "ins = None \<longrightarrow> n = 0" "0 < m \<or> 0 < n" by fastforce
  then show ?thesis
  proof cases
    case 1
    then have "solar_os_writer_buffer_length (Some b) < offset \<or> solar_os_writer_buffer_length (Some b) - offset < m
      \<or> ins = None \<and> 0 < n" by (auto simp: valid_range_def l)
    then have "r = (ESP_ERR_INVALID_ARG, Some b)" by (simp add: r_def solar_os_writer_buffer_replace_def Let_def)
    moreover have "flat_replace (writer_text b) offset m ins n = (ESP_ERR_INVALID_ARG, writer_text b)"
      using 1 by (auto simp: flat_replace_def valid_range_def)
    ultimately show ?thesis by (rule refused)
  next
    case 2
    then have "r = (ESP_OK, Some b)"
      by (auto simp: r_def solar_os_writer_buffer_replace_def Let_def valid_range_def l)
    moreover have "flat_replace (writer_text b) offset m ins n = (ESP_OK, writer_text b)"
      using 2 bound by (simp add: flat_replace_def valid_range_def given_bytes_def text_splice_def)
    ultimately show ?thesis by (rule refused)
  next
    case 3
    note s = replace_spec [where cursor_before = cursor_before and cursor_after = cursor_after,
        OF ok 3(2) given 3(1) 3(3), folded r_def]
    show ?thesis
    proof (cases "r = (ESP_ERR_NO_MEM, Some b) \<and> some_alloc_fails wa")
      case True
      then show ?thesis by (auto intro: failed)
    next
      case no: False
      show ?thesis
      proof (cases "r = (ESP_ERR_INVALID_SIZE, Some b) \<and> WRITER_MAX_BYTES < length (writer_text b) - m + n")
        case True
        moreover from this have "flat_replace (writer_text b) offset m ins n = (ESP_ERR_INVALID_SIZE, writer_text b)"
          using 3 by (auto simp: flat_replace_def valid_range_def)
        ultimately show ?thesis by (auto intro: refused)
      next
        case False
        with s no obtain b' where b': "r = (ESP_OK, Some b')" "length (writer_text b) - m + n \<le> WRITER_MAX_BYTES"
          "writer_ok b'" "writer_text b' = text_splice (writer_text b) offset m (given_bytes ins n)"
          "future_texts b' = []"
          "prefix (past_texts b') (past_texts b) \<or> prefix (past_texts b') (writer_text b # past_texts b)"
          "(wb_undo_storage b \<or> wa_storage wa) \<and> m + n \<le> WRITER_UNDO_MAX_PAYLOAD \<longrightarrow> past_texts b' \<noteq> []"
          by blast
        have "flat_replace (writer_text b) offset m ins n = (ESP_OK, writer_text b')"
          using 3 b'(2,4) by (auto simp: flat_replace_def valid_range_def)
        then show ?thesis using changed [OF b'(1,3) _ b'(5,6,7) 3(1,3,2)] by simp
      qed
    qed
  qed
qed

lemma flatten_spec:
  assumes "writer_ok b" "allocator_ok alloc"
  shows "solar_os_writer_buffer_flatten alloc (Some b) True True =
     (case alloc (length (writer_text b) + 1) of
        None \<Rightarrow> (ESP_ERR_NO_MEM, None)
      | Some _ \<Rightarrow> (ESP_OK, Some (writer_text b @ [0], length (writer_text b))))"
proof (cases "alloc (length (writer_text b) + 1)")
  case None
  then show ?thesis using assms(1) by (simp add: solar_os_writer_buffer_flatten_def writer_ok_def text_length)
next
  case (Some flat)
  have g: "gap_ok b" using assms(1) by (simp add: writer_ok_def)
  have "length flat = length (writer_text b) + 1" using Some assms(2) by (simp add: allocator_ok_def)
  moreover have "solar_os_writer_buffer_copy (Some b) 0 (length (writer_text b)) True = (ESP_OK, writer_text b)"
    using copy_spec [OF g, of 0 "length (writer_text b)"] by simp
  ultimately show ?thesis using Some
    by (simp add: solar_os_writer_buffer_flatten_def text_length [OF g, symmetric] mem_copy_join Let_def)
      (simp add: mem_copy_def)
qed

section \<open>Sequences of operations\<close>

datatype writer_cmd =
    CmdInit
  | CmdSet allocator "u8 list option" nat
  | CmdReplace writer_allocs nat nat "u8 list option" nat nat nat
  | CmdUndo allocator
  | CmdRedo allocator
  | CmdClearUndo
  | CmdFree

definition writer_exec :: "writer_cmd \<Rightarrow> writer_buffer option \<Rightarrow> writer_buffer option" where
  "writer_exec cmd buffer =
     (case cmd of
        CmdInit \<Rightarrow> solar_os_writer_buffer_init buffer
      | CmdSet alloc bytes n \<Rightarrow> snd (solar_os_writer_buffer_set alloc buffer bytes n)
      | CmdReplace wa offset m ins n before after \<Rightarrow>
          snd (solar_os_writer_buffer_replace wa buffer offset m ins n before after)
      | CmdUndo alloc \<Rightarrow> fst (snd (solar_os_writer_buffer_undo alloc buffer None))
      | CmdRedo alloc \<Rightarrow> fst (snd (solar_os_writer_buffer_redo alloc buffer None))
      | CmdClearUndo \<Rightarrow> solar_os_writer_buffer_clear_undo buffer
      | CmdFree \<Rightarrow> solar_os_writer_buffer_free buffer)"

text \<open>Allocators that keep their contract and texts as long as the caller says; nothing about ranges.\<close>

definition cmd_ok :: "writer_cmd \<Rightarrow> bool" where
  "cmd_ok cmd \<longleftrightarrow>
     (case cmd of
        CmdSet alloc bytes n \<Rightarrow> allocator_ok alloc \<and> bytes_given bytes n
      | CmdReplace wa offset m ins n before after \<Rightarrow> writer_allocs_ok wa \<and> bytes_given ins n
      | CmdUndo alloc \<Rightarrow> allocator_ok alloc
      | CmdRedo alloc \<Rightarrow> allocator_ok alloc
      | _ \<Rightarrow> True)"

lemma set_writer_ok:
  assumes "writer_ok b" "allocator_ok alloc" "bytes_given bytes n"
  shows "\<exists>b'. snd (solar_os_writer_buffer_set alloc (Some b) bytes n) = Some b' \<and> writer_ok b'"
proof (cases "bytes = None \<and> 0 < n \<or> WRITER_MAX_BYTES < n")
  case True
  then show ?thesis using assms(1) by (auto simp: solar_os_writer_buffer_set_def)
next
  case False
  define src where "src = given_bytes bytes n"
  have "length src = n" "0 < n \<longrightarrow> bytes \<noteq> None \<and> take n (the bytes) = src" "n \<le> WRITER_MAX_BYTES"
    using False assms(3) by (auto simp: src_def given_bytes_def bytes_given_def split: option.splits)
  note s = set_spec [OF assms(2) this(1,3,2), of b]
  have stored: "writer_ok b'" if "gap_ok b'" "wb_undo b' = []" "wb_undo_cursor b' = 0" "wb_undo_payload b' = 0"
    "wb_undo_storage b' = wb_undo_storage b" "wb_undo_capacity b' = wb_undo_capacity b" for b'
    using that assms(1) by (simp add: writer_ok_def writer_sizes split: if_splits)
  show ?thesis using s stored by auto
qed

lemma exec_writer_ok:
  assumes "writer_ok b" "cmd_ok cmd"
  shows "\<exists>b'. writer_exec cmd (Some b) = Some b' \<and> writer_ok b'"
proof (cases cmd)
  case (CmdSet alloc bytes n)
  then show ?thesis using assms set_writer_ok by (simp add: writer_exec_def cmd_ok_def)
next
  case (CmdReplace wa offset m ins n before after)
  then have "writer_allocs_ok wa" "bytes_given ins n" using assms(2) by (simp_all add: cmd_ok_def)
  from assms(1) this show ?thesis
    by (cases rule: replace_cases [where offset = offset and m = m and cursor_before = before and cursor_after = after])
      (auto simp: writer_exec_def CmdReplace assms(1))
next
  case (CmdUndo alloc)
  then show ?thesis using assms undo_spec [OF assms(1), of alloc None] by (auto simp: writer_exec_def cmd_ok_def)
next
  case (CmdRedo alloc)
  then show ?thesis using assms redo_spec [OF assms(1), of alloc None] by (auto simp: writer_exec_def cmd_ok_def)
qed (auto simp: writer_exec_def solar_os_writer_buffer_init_def solar_os_writer_buffer_free_def
    solar_os_writer_buffer_clear_undo_def zero_writer_ok clear_undo_writer_ok assms(1))

text \<open>
  C24. Whatever sequence of calls is made on an initialised buffer, with any arguments and any pattern
  of failing allocations, the buffer keeps its layout: the gap lies inside the memory, the text stays
  below 256 KiB, the history holds at most 128 operations whose bytes are counted exactly and stay
  within 64 KiB, and every operation in it fits the text it would be undone or redone on.
\<close>

theorem writer_buffer_invariant:
  assumes "list_all cmd_ok cmds"
  shows "\<exists>b. fold writer_exec cmds (solar_os_writer_buffer_init (Some b0)) = Some b \<and> writer_ok b
     \<and> length (writer_text b) \<le> WRITER_MAX_BYTES \<and> length (wb_undo b) \<le> WRITER_UNDO_MAX_OPS
     \<and> sum_list (map op_payload (wb_undo b)) \<le> WRITER_UNDO_MAX_PAYLOAD"
proof -
  have run: "list_all cmd_ok cmds \<Longrightarrow> writer_ok b \<Longrightarrow> \<exists>b'. fold writer_exec cmds (Some b) = Some b' \<and> writer_ok b'"
    for b
  proof (induction cmds arbitrary: b)
    case (Cons cmd cmds)
    then show ?case using exec_writer_ok [of b cmd] by fastforce
  qed simp
  obtain b where b: "fold writer_exec cmds (solar_os_writer_buffer_init (Some b0)) = Some b" "writer_ok b"
    using run [OF assms zero_writer_ok] by (auto simp: solar_os_writer_buffer_init_def)
  moreover from b(2) have "length (writer_text b) \<le> WRITER_MAX_BYTES" by (simp add: writer_ok_def text_bound)
  moreover from b(2) have "length (wb_undo b) \<le> WRITER_UNDO_MAX_OPS"
    "sum_list (map op_payload (wb_undo b)) \<le> WRITER_UNDO_MAX_PAYLOAD"
    by (simp_all add: writer_ok_def payload_sum_def [symmetric])
  ultimately show ?thesis by blast
qed

definition zeroed :: allocator where
  "zeroed n = Some (replicate n 0)"

definition all_zeroed :: writer_allocs where
  "all_zeroed = \<lparr>wa_removed = zeroed, wa_inserted = zeroed, wa_data = zeroed, wa_storage = True, wa_join = zeroed\<rparr>"

lemma zeroed_ok: "allocator_ok zeroed" "\<exists>block. zeroed n = Some block" "writer_allocs_ok all_zeroed"
  by (simp_all add: allocator_ok_def zeroed_def writer_allocs_ok_def all_zeroed_def)

lemma writer_buffer_invariant_witness:
  "\<exists>b. fold writer_exec [CmdReplace all_zeroed 0 0 (Some [0x68, 0x69]) 2 0 2, CmdUndo zeroed, CmdRedo (\<lambda>_. None),
        CmdSet (\<lambda>_. None) (Some [0x21]) 1] (solar_os_writer_buffer_init (Some writer_buffer_zero)) = Some b \<and> writer_ok b
     \<and> length (writer_text b) \<le> WRITER_MAX_BYTES \<and> length (wb_undo b) \<le> WRITER_UNDO_MAX_OPS
     \<and> sum_list (map op_payload (wb_undo b)) \<le> WRITER_UNDO_MAX_PAYLOAD"
proof (rule writer_buffer_invariant)
  have "allocator_ok (\<lambda>_. None)" by (simp add: allocator_ok_def)
  then show "list_all cmd_ok [CmdReplace all_zeroed 0 0 (Some [0x68, 0x69]) 2 0 2, CmdUndo zeroed, CmdRedo (\<lambda>_. None),
        CmdSet (\<lambda>_. None) (Some [0x21]) 1]"
    by (simp add: cmd_ok_def zeroed_ok bytes_given_def)
qed

text \<open>
  C25. A replacement refines the replacement in a flat text: unless an allocation fails, the result
  code and the new text are those of the flat text, with an invalid range or a text that would grow
  too long refused; a call that does not succeed leaves the buffer as it was. What a caller reads out
  of the buffer afterwards, whatever the position of the gap, is that text.
\<close>

theorem writer_replace_refines:
  fixes cursor_before cursor_after :: nat
  assumes "writer_ok b" "writer_allocs_ok wa" "bytes_given ins n"
  shows "\<exists>e b'. solar_os_writer_buffer_replace wa (Some b) offset m ins n cursor_before cursor_after = (e, Some b')
     \<and> writer_ok b' \<and> (e \<noteq> ESP_OK \<longrightarrow> b' = b)
     \<and> (if e = ESP_ERR_NO_MEM then some_alloc_fails wa
        else (e, writer_text b') = flat_replace (writer_text b) offset m ins n)
     \<and> solar_os_writer_buffer_flatten zeroed (Some b') True True
         = (ESP_OK, Some (writer_text b' @ [0], length (writer_text b')))
     \<and> (\<forall>i < length (writer_text b'). writer_byte_at b' i = writer_text b' ! i)"
proof -
  have seen: "solar_os_writer_buffer_flatten zeroed (Some c) True True
         = (ESP_OK, Some (writer_text c @ [0], length (writer_text c)))
     \<and> (\<forall>i < length (writer_text c). writer_byte_at c i = writer_text c ! i)" if "writer_ok c" for c
    using flatten_spec [OF that zeroed_ok(1)] that byte_at_text by (auto simp: zeroed_def writer_ok_def)
  from assms show ?thesis
  proof (cases rule: replace_cases [where offset = offset and m = m and cursor_before = cursor_before
        and cursor_after = cursor_after])
    case failed
    then show ?thesis using seen [OF assms(1)] assms(1) by simp
  next
    case (refused e)
    then have "e \<noteq> ESP_ERR_NO_MEM" by (auto simp: flat_replace_def split: if_splits)
    then show ?thesis using refused seen [OF assms(1)] assms(1) by simp
  next
    case (changed b')
    then show ?thesis using seen by auto
  qed
qed

text \<open>A small buffer: the text "hi!" with the gap before its last byte.\<close>

definition hi_buffer :: writer_buffer where
  "hi_buffer = writer_buffer_zero\<lparr>wb_data := Some [0x68, 0x69, 0, 0, 0x21], wb_capacity := 5,
     wb_gap_start := 2, wb_gap_end := 4\<rparr>"

lemma hi_buffer_ok: "writer_ok hi_buffer" "writer_text hi_buffer = [0x68, 0x69, 0x21]"
  by (simp_all add: hi_buffer_def writer_ok_def gap_ok_def writer_text_def writer_buffer_zero_def writer_sizes)

lemma writer_replace_refines_witness:
  "\<exists>e b'. solar_os_writer_buffer_replace all_zeroed (Some hi_buffer) 1 1 (Some [0x6f]) 1 1 2 = (e, Some b')
     \<and> e = ESP_OK \<and> writer_text b' = [0x68, 0x6f, 0x21]"
proof -
  have flat: "flat_replace (writer_text hi_buffer) 1 1 (Some [0x6f]) 1 = (ESP_OK, [0x68, 0x6f, 0x21])"
    by (simp add: flat_replace_def hi_buffer_ok given_bytes_def text_splice_def writer_sizes)
  have none: "\<not> some_alloc_fails all_zeroed" by (simp add: some_alloc_fails_def all_zeroed_def zeroed_def)
  from writer_replace_refines [OF hi_buffer_ok(1) zeroed_ok(3), of "Some [0x6f]" 1 1 1 1 2]
  obtain e b' where "solar_os_writer_buffer_replace all_zeroed (Some hi_buffer) 1 1 (Some [0x6f]) 1 1 2 = (e, Some b')"
    "if e = ESP_ERR_NO_MEM then some_alloc_fails all_zeroed
     else (e, writer_text b') = flat_replace (writer_text hi_buffer) 1 1 (Some [0x6f]) 1"
    by (auto simp: bytes_given_def)
  then show ?thesis using flat none by (auto split: if_splits)
qed

section \<open>Undo and redo\<close>

text \<open>
  C26. A successful edit makes a new end of the history: nothing can be redone, and the texts that
  undo will return to are, newest first, the text before the edit and the texts undo could reach
  before, or only those when the edit continues the last one (a run of typing or of deleting is undone
  in one step); only the oldest ones may be missing. When there is an undo array and the edit fits in the
  history, there is always something to undo.
\<close>

theorem writer_edit_history:
  fixes cursor_before cursor_after :: nat
  assumes ok: "writer_ok b" "writer_allocs_ok wa" "bytes_given ins n" and some: "0 < m \<or> 0 < n"
    and r: "solar_os_writer_buffer_replace wa (Some b) offset m ins n cursor_before cursor_after = (ESP_OK, Some b')"
  shows "future_texts b' = []
     \<and> (prefix (past_texts b') (past_texts b) \<or> prefix (past_texts b') (writer_text b # past_texts b))
     \<and> ((wb_undo_storage b \<or> wa_storage wa) \<and> m + n \<le> WRITER_UNDO_MAX_PAYLOAD \<longrightarrow> past_texts b' \<noteq> [])
     \<and> solar_os_writer_buffer_redo alloc (Some b') cursor = (False, Some b', cursor)"
proof -
  from ok(1) text_bound have bound: "length (writer_text b) \<le> WRITER_MAX_BYTES" by (simp add: writer_ok_def)
  obtain "future_texts b' = []" "writer_ok b'"
    "prefix (past_texts b') (past_texts b) \<or> prefix (past_texts b') (writer_text b # past_texts b)"
    "(wb_undo_storage b \<or> wa_storage wa) \<and> m + n \<le> WRITER_UNDO_MAX_PAYLOAD \<longrightarrow> past_texts b' \<noteq> []"
    using ok
  proof (cases rule: replace_cases [where offset = offset and m = m and cursor_before = cursor_before
        and cursor_after = cursor_after])
    case (refused e)
    then have "flat_replace (writer_text b) offset m ins n = (ESP_OK, writer_text b)" using r by simp
    then have "ins = None \<longrightarrow> n = 0" "valid_range b offset m"
      by (auto simp: flat_replace_def valid_range_def not_less split: if_splits)
    from replace_spec [OF ok(1,2) this(1) ok(3) this(2) some, of cursor_before cursor_after] r that
    show ?thesis by auto
  qed (use r that in auto)
  moreover from this have "drop (wb_undo_cursor b') (wb_undo b') = []"
    unfolding future_texts_def by (cases "drop (wb_undo_cursor b') (wb_undo b')") auto
  ultimately show ?thesis by (simp add: solar_os_writer_buffer_redo_def)
qed

text \<open>The "i" of "hi!" becomes an "o": one step back is the old text, and there is nothing ahead.\<close>

lemma writer_edit_history_witness:
  "\<exists>b'. past_texts b' = [[0x68, 0x69, 0x21]]
     \<and> solar_os_writer_buffer_redo zeroed (Some b') None = (False, Some b', None)"
proof -
  obtain b' where r: "solar_os_writer_buffer_replace all_zeroed (Some hi_buffer) 1 1 (Some [0x6f]) 1 1 2 = (ESP_OK, Some b')"
    by (simp add: solar_os_writer_buffer_replace_def solar_os_writer_buffer_length_def hi_buffer_def writer_buffer_zero_def
        writer_gap_size_def writer_copy_new_def all_zeroed_def zeroed_def writer_replace_raw_def writer_reserve_def
        solar_os_writer_buffer_copy_def mem_slice_def Let_def writer_sizes writer_ensure_undo_storage_def
        writer_drop_redo_def writer_move_gap_def)
  have given: "bytes_given (Some [0x6f]) 1" by (simp add: bytes_given_def)
  have "past_texts hi_buffer = []" by (simp add: past_texts_def hi_buffer_def writer_buffer_zero_def)
  with writer_edit_history [OF hi_buffer_ok(1) zeroed_ok(3) given _ r, of zeroed None] show ?thesis
    by (auto simp: hi_buffer_ok all_zeroed_def writer_sizes prefix_Cons)
qed

text \<open>Undoing and redoing a number of times.\<close>

definition undo_step :: "allocator \<Rightarrow> writer_buffer option \<Rightarrow> writer_buffer option" where
  "undo_step alloc buffer = fst (snd (solar_os_writer_buffer_undo alloc buffer None))"

definition redo_step :: "allocator \<Rightarrow> writer_buffer option \<Rightarrow> writer_buffer option" where
  "redo_step alloc buffer = fst (snd (solar_os_writer_buffer_redo alloc buffer None))"

lemma undo_steps:
  assumes alloc: "allocator_ok alloc" "\<And>n. \<exists>block. alloc n = Some block"
  shows "writer_ok b \<Longrightarrow> k \<le> length (past_texts b) \<Longrightarrow> \<exists>b'. (undo_step alloc ^^ k) (Some b) = Some b' \<and> writer_ok b'
    \<and> writer_text b' # past_texts b' = drop k (writer_text b # past_texts b)
    \<and> future_texts b' = rev (take k (writer_text b # past_texts b)) @ future_texts b
    \<and> wb_undo b' = wb_undo b \<and> wb_undo_cursor b = wb_undo_cursor b' + k"
proof (induction k arbitrary: b)
  case (Suc k)
  then have "past_texts b \<noteq> []" by auto
  moreover have "(\<exists>k. alloc k = None) = False" using alloc(2) by auto
  moreover note undo_spec [OF Suc.prems(1) alloc(1), of None, unfolded this]
  ultimately obtain c where c: "undo_step alloc (Some b) = Some c" "writer_ok c" "past_texts b = writer_text c # past_texts c"
    "future_texts c = writer_text b # future_texts b" "wb_undo c = wb_undo b" "wb_undo_cursor b = Suc (wb_undo_cursor c)"
    by (auto simp: undo_step_def)
  have "k \<le> length (past_texts c)" using Suc.prems(2) c(3) by simp
  from Suc.IH [OF c(2) this] c show ?case by (auto simp: funpow_Suc_right simp del: funpow.simps)
qed simp

lemma redo_steps:
  assumes alloc: "allocator_ok alloc" "\<And>n. \<exists>block. alloc n = Some block"
  shows "writer_ok b \<Longrightarrow> k \<le> length (future_texts b) \<Longrightarrow> \<exists>b'. (redo_step alloc ^^ k) (Some b) = Some b' \<and> writer_ok b'
    \<and> writer_text b' # future_texts b' = drop k (writer_text b # future_texts b)
    \<and> past_texts b' = rev (take k (writer_text b # future_texts b)) @ past_texts b
    \<and> wb_undo b' = wb_undo b \<and> wb_undo_cursor b' = wb_undo_cursor b + k"
proof (induction k arbitrary: b)
  case (Suc k)
  then have "future_texts b \<noteq> []" by auto
  moreover have "(\<exists>k. alloc k = None) = False" using alloc(2) by auto
  moreover note redo_spec [OF Suc.prems(1) alloc(1), of None, unfolded this]
  ultimately obtain c where c: "redo_step alloc (Some b) = Some c" "writer_ok c" "future_texts b = writer_text c # future_texts c"
    "past_texts c = writer_text b # past_texts b" "wb_undo c = wb_undo b" "wb_undo_cursor c = Suc (wb_undo_cursor b)"
    by (auto simp: redo_step_def)
  have "k \<le> length (future_texts c)" using Suc.prems(2) c(3) by simp
  from Suc.IH [OF c(2) this] c show ?case by (auto simp: funpow_Suc_right simp del: funpow.simps)
qed simp

text \<open>
  C27. As long as memory is available, undoing \<open>k\<close> times shows the \<open>k\<close>-th past text, and redoing as many
  times brings back the text, the past and the future there were, with the same operations in the
  history; past the end of the history undo says so and changes nothing.
\<close>

theorem writer_undo_redo_roundtrip:
  assumes ok: "writer_ok b" and alloc: "allocator_ok alloc" "\<And>n. \<exists>block. alloc n = Some block"
    and k: "k \<le> wb_undo_cursor b"
  shows "\<exists>b1 b2. (undo_step alloc ^^ k) (Some b) = Some b1 \<and> writer_text b1 = (writer_text b # past_texts b) ! k
     \<and> (redo_step alloc ^^ k) (Some b1) = Some b2 \<and> writer_text b2 = writer_text b
     \<and> past_texts b2 = past_texts b \<and> future_texts b2 = future_texts b
     \<and> wb_undo b2 = wb_undo b \<and> wb_undo_cursor b2 = wb_undo_cursor b
     \<and> (k = wb_undo_cursor b \<longrightarrow> solar_os_writer_buffer_undo alloc (Some b1) cursor = (False, Some b1, cursor))"
proof -
  have length_past: "length (past ops t) = length ops" for ops t by (induction ops arbitrary: t) simp_all
  then have "length (past_texts b) = wb_undo_cursor b" using ok by (simp add: past_texts_def writer_ok_def)
  with undo_steps [OF alloc ok] k obtain b1 where b1: "(undo_step alloc ^^ k) (Some b) = Some b1" "writer_ok b1"
    "writer_text b1 # past_texts b1 = drop k (writer_text b # past_texts b)"
    "future_texts b1 = rev (take k (writer_text b # past_texts b)) @ future_texts b"
    "wb_undo b1 = wb_undo b" "wb_undo_cursor b = wb_undo_cursor b1 + k" by force
  have len: "length (take k (writer_text b # past_texts b)) = k"
    using \<open>length (past_texts b) = wb_undo_cursor b\<close> k by simp
  then have "k \<le> length (future_texts b1)" by (simp add: b1(4))
  from redo_steps [OF alloc b1(2) this] obtain b2 where b2: "(redo_step alloc ^^ k) (Some b1) = Some b2"
    "writer_text b2 # future_texts b2 = drop k (writer_text b1 # future_texts b1)"
    "past_texts b2 = rev (take k (writer_text b1 # future_texts b1)) @ past_texts b1"
    "wb_undo b2 = wb_undo b1" "wb_undo_cursor b2 = wb_undo_cursor b1 + k" by blast
  have all: "rev (writer_text b1 # future_texts b1) @ past_texts b1
      = rev (future_texts b) @ (writer_text b # past_texts b)"
    using b1(3) by (simp add: b1(4))
  have again: "writer_text b2 # future_texts b2 = writer_text b # future_texts b \<and> past_texts b2 = past_texts b"
  proof -
    have "rev (writer_text b2 # future_texts b2) @ past_texts b2 = rev (writer_text b1 # future_texts b1) @ past_texts b1"
      unfolding b2(2,3) append_assoc [symmetric] rev_append [symmetric] append_take_drop_id ..
    moreover have "length (future_texts b2) = length (future_texts b)"
      using arg_cong [OF b2(2), of length] len by (simp add: b1(4))
    ultimately show ?thesis unfolding all by simp
  qed
  have "writer_text b1 = (writer_text b # past_texts b) ! k"
    using b1(3) by (metis hd_drop_conv_nth list.sel(1) drop_eq_Nil2 list.distinct(1) not_less)
  moreover have "solar_os_writer_buffer_undo alloc (Some b1) cursor = (False, Some b1, cursor)"
    if "k = wb_undo_cursor b" using that b1(6) by (simp add: solar_os_writer_buffer_undo_def)
  ultimately show ?thesis using b1(1,5,6) b2(1,4,5) again by auto
qed

text \<open>The history of a typed letter, undone and made again.\<close>

definition typed_buffer :: writer_buffer where
  "typed_buffer = hi_buffer\<lparr>wb_undo_storage := True, wb_undo_capacity := 128,
     wb_undo := [\<lparr>wo_offset = 1, wo_removed = [], wo_inserted = [0x69], wo_cursor_before = 1, wo_cursor_after = 2\<rparr>],
     wb_undo_cursor := 1, wb_undo_payload := 1\<rparr>"

lemma typed_buffer_ok: "writer_ok typed_buffer" "past_texts typed_buffer = [[0x68, 0x21]]"
    "wb_undo_cursor typed_buffer = 1"
  by (simp_all add: typed_buffer_def hi_buffer_def writer_ok_def gap_ok_def writer_text_def writer_buffer_zero_def
      writer_sizes past_texts_def reverts_def exchange_ok_def revert_op_def text_splice_def op_payload_def)

lemma writer_undo_redo_roundtrip_witness:
  "\<exists>b1 b2. undo_step zeroed (Some typed_buffer) = Some b1 \<and> writer_text b1 = [0x68, 0x21]
     \<and> redo_step zeroed (Some b1) = Some b2 \<and> writer_text b2 = [0x68, 0x69, 0x21]"
proof -
  have now: "writer_text typed_buffer = [0x68, 0x69, 0x21]"
    by (simp add: typed_buffer_def hi_buffer_def writer_text_def)
  have one: "(1::nat) \<le> wb_undo_cursor typed_buffer" by (simp add: typed_buffer_ok)
  show ?thesis
    using writer_undo_redo_roundtrip [OF typed_buffer_ok(1) zeroed_ok(1,2) one, of None]
    by (auto simp: typed_buffer_ok(2) now)
qed

section \<open>Cursor motion\<close>

lemma skip_back_spec:
  "(\<forall>i. skip_back b n < i \<and> i \<le> n \<longrightarrow> utf8_continuation (writer_byte_at b i))
   \<and> (skip_back b n = 0 \<or> \<not> utf8_continuation (writer_byte_at b (skip_back b n)))"
  by (induction n) (auto simp: le_Suc_eq)

lemma skip_forward_spec:
  "offset \<le> len \<Longrightarrow> skip_forward b len offset \<le> len
   \<and> (\<forall>i. offset \<le> i \<and> i < skip_forward b len offset \<longrightarrow> utf8_continuation (writer_byte_at b i))
   \<and> (skip_forward b len offset = len \<or> \<not> utf8_continuation (writer_byte_at b (skip_forward b len offset)))"
proof (induction b len offset rule: skip_forward.induct)
  case (1 b len offset)
  show ?case
  proof (cases "offset < len \<and> utf8_continuation (writer_byte_at b offset)")
    case True
    then have e: "skip_forward b len offset = skip_forward b len (offset + 1)" by (subst skip_forward.simps) simp
    have "utf8_continuation (writer_byte_at b i)" if "offset \<le> i" "i < skip_forward b len (offset + 1)" for i
      using 1(1) [OF True] True that by (cases "i = offset") auto
    then show ?thesis using 1(1) [OF True] True unfolding e by auto
  next
    case False
    have "skip_forward b len offset = offset" using False by (subst skip_forward.simps) (rule if_not_P)
    then show ?thesis using False 1(2) by auto
  qed
qed

text \<open>A character begins at the start of the text and at every byte that continues no other.\<close>

definition char_start :: "writer_buffer \<Rightarrow> nat \<Rightarrow> bool" where
  "char_start b p \<longleftrightarrow> p = 0 \<or> p = length (writer_text b) \<or> \<not> utf8_continuation (writer_byte_at b p)"

lemma utf8_prev_spec:
  assumes "gap_ok b" "0 < p" "p \<le> length (writer_text b)"
  shows "solar_os_writer_utf8_prev (Some b) p < p \<and> char_start b (solar_os_writer_utf8_prev (Some b) p)
    \<and> (\<forall>i. solar_os_writer_utf8_prev (Some b) p < i \<and> i < p \<longrightarrow> utf8_continuation (writer_byte_at b i))"
proof -
  have e: "solar_os_writer_utf8_prev (Some b) p = skip_back b (p - 1)"
    using assms by (simp add: solar_os_writer_utf8_prev_def text_length [symmetric] Let_def)
  show ?thesis
    using skip_back_spec [of b "p - 1"] skip_back_le [of b "p - 1"] assms(2) unfolding e char_start_def by auto
qed

lemma utf8_next_spec:
  assumes "gap_ok b" "p < length (writer_text b)"
  shows "p < solar_os_writer_utf8_next (Some b) p \<and> solar_os_writer_utf8_next (Some b) p \<le> length (writer_text b)
    \<and> char_start b (solar_os_writer_utf8_next (Some b) p)
    \<and> (\<forall>i. p < i \<and> i < solar_os_writer_utf8_next (Some b) p \<longrightarrow> utf8_continuation (writer_byte_at b i))"
proof -
  have e: "solar_os_writer_utf8_next (Some b) p = skip_forward b (length (writer_text b)) (p + 1)"
    using assms by (simp add: solar_os_writer_utf8_next_def text_length [symmetric] Let_def)
  show ?thesis
    using skip_forward_spec [of "p + 1" "length (writer_text b)" b] assms(2)
      skip_forward_ge [of "p + 1" b "length (writer_text b)"] unfolding e char_start_def by auto
qed

text \<open>Between two neighbouring starts of characters the two motions are inverse.\<close>

lemma char_start_unique:
  assumes "char_start b p" "char_start b q" "p < n" "q < n" "n \<le> length (writer_text b)"
    "\<forall>i. p < i \<and> i < n \<longrightarrow> utf8_continuation (writer_byte_at b i)"
    "\<forall>i. q < i \<and> i < n \<longrightarrow> utf8_continuation (writer_byte_at b i)"
  shows "p = q"
  using assms by (cases p q rule: linorder_cases) (auto simp: char_start_def)

lemma prev_next:
  assumes "gap_ok b" "p < length (writer_text b)" "char_start b p"
  shows "solar_os_writer_utf8_prev (Some b) (solar_os_writer_utf8_next (Some b) p) = p"
  using utf8_next_spec [OF assms(1,2)] assms
    utf8_prev_spec [OF assms(1), of "solar_os_writer_utf8_next (Some b) p"]
  by (intro char_start_unique [of b _ _ "solar_os_writer_utf8_next (Some b) p"]) auto

lemma next_prev:
  assumes "gap_ok b" "0 < p" "p \<le> length (writer_text b)" "char_start b p"
  shows "solar_os_writer_utf8_next (Some b) (solar_os_writer_utf8_prev (Some b) p) = p"
proof -
  define q where "q = solar_os_writer_utf8_prev (Some b) p"
  note q = utf8_prev_spec [OF assms(1-3), folded q_def]
  then have "q < length (writer_text b)" using assms(3) by simp
  note n = utf8_next_spec [OF assms(1) this]
  have "\<not> solar_os_writer_utf8_next (Some b) q < p"
    using q n assms(2,3) by (auto simp: char_start_def)
  moreover have "\<not> p < solar_os_writer_utf8_next (Some b) q"
    using q n assms(2,3,4) by (auto simp: char_start_def)
  ultimately show ?thesis by (simp add: q_def)
qed

subsection \<open>Word motion\<close>

lemma back_over_gap_spec:
  "back_over_gap buffer pos \<le> pos \<and> (back_over_gap buffer pos = 0
     \<or> writer_word_byte (writer_byte_at (the buffer) (back_over_gap buffer pos)))"
proof (induction buffer pos rule: back_over_gap.induct)
  case (1 buffer pos)
  show ?case
  proof (cases "0 < pos \<and> \<not> writer_word_byte (writer_byte_at (the buffer) pos)")
    case True
    then have "back_over_gap buffer pos = back_over_gap buffer (solar_os_writer_utf8_prev buffer pos)"
      by (subst back_over_gap.simps) simp
    then show ?thesis using 1 [OF True] True utf8_prev_less [of pos buffer] by auto
  next
    case False
    then have "back_over_gap buffer pos = pos" by (subst back_over_gap.simps) (rule if_not_P)
    then show ?thesis using False by auto
  qed
qed

lemma back_over_word_le: "back_over_word buffer pos \<le> pos"
proof (induction buffer pos rule: back_over_word.induct)
  case (1 buffer pos)
  show ?case
  proof (cases "0 < pos \<and> writer_word_byte (writer_byte_at (the buffer) (solar_os_writer_utf8_prev buffer pos))")
    case True
    then have "back_over_word buffer pos = back_over_word buffer (solar_os_writer_utf8_prev buffer pos)"
      by (subst back_over_word.simps) (simp add: Let_def)
    then show ?thesis using 1 True utf8_prev_less [of pos buffer] by auto
  next
    case False
    then have "back_over_word buffer pos = pos" by (subst back_over_word.simps) (auto simp: Let_def)
    then show ?thesis by simp
  qed
qed

lemma forward_while_spec:
  "pos \<le> solar_os_writer_buffer_length buffer \<Longrightarrow>
     pos \<le> forward_while P buffer pos \<and> forward_while P buffer pos \<le> solar_os_writer_buffer_length buffer
     \<and> (forward_while P buffer pos = solar_os_writer_buffer_length buffer
        \<or> \<not> P (writer_byte_at (the buffer) (forward_while P buffer pos)))
     \<and> (pos < solar_os_writer_buffer_length buffer \<and> P (writer_byte_at (the buffer) pos) \<longrightarrow> pos < forward_while P buffer pos)"
proof (induction P buffer pos rule: forward_while.induct)
  case (1 P buffer pos)
  let ?len = "solar_os_writer_buffer_length buffer"
  show ?case
  proof (cases "pos < ?len \<and> P (writer_byte_at (the buffer) pos)")
    case True
    then have e: "forward_while P buffer pos = forward_while P buffer (solar_os_writer_utf8_next buffer pos)"
      by (subst forward_while.simps) simp
    have "solar_os_writer_utf8_next buffer pos \<le> ?len"
      using True skip_forward_spec [of "pos + 1" ?len "the buffer"] by (simp add: solar_os_writer_utf8_next_def Let_def)
    then show ?thesis
      using 1(1) [OF True] utf8_next_greater [of pos buffer] True unfolding e by auto
  next
    case False
    then have "forward_while P buffer pos = pos" by (subst forward_while.simps) (rule if_not_P)
    then show ?thesis using False 1(2) by auto
  qed
qed

lemma word_prev_less:
  assumes "0 < p" shows "solar_os_writer_word_prev buffer p < p"
  using utf8_prev_less [OF assms, of buffer] back_over_gap_spec [of buffer "solar_os_writer_utf8_prev buffer p"]
    back_over_word_le [of buffer "back_over_gap buffer (solar_os_writer_utf8_prev buffer p)"]
  by (simp add: solar_os_writer_word_prev_def)

lemma word_next_spec:
  assumes "p < solar_os_writer_buffer_length buffer"
  shows "p < solar_os_writer_word_next buffer p \<and> solar_os_writer_word_next buffer p \<le> solar_os_writer_buffer_length buffer
    \<and> (solar_os_writer_word_next buffer p = solar_os_writer_buffer_length buffer
       \<or> writer_word_byte (writer_byte_at (the buffer) (solar_os_writer_word_next buffer p)))"
proof -
  define q where "q = forward_while writer_word_byte buffer p"
  have e: "solar_os_writer_word_next buffer p = forward_while (\<lambda>c. \<not> writer_word_byte c) buffer q"
    using assms by (simp add: solar_os_writer_word_next_def q_def Let_def)
  note s1 = forward_while_spec [of p buffer writer_word_byte, folded q_def]
  then have q: "p \<le> q" "q \<le> solar_os_writer_buffer_length buffer" using assms by simp_all
  note s2 = forward_while_spec [OF q(2), of "\<lambda>c. \<not> writer_word_byte c", folded e]
  show ?thesis using s1 s2 assms q by (cases "p = q") auto
qed

text \<open>A motion that always moves towards an end reaches it.\<close>

lemma steps_to_end:
  assumes "\<And>q. q < len \<Longrightarrow> q < f q \<and> f q \<le> len"
  shows "p \<le> len \<Longrightarrow> \<exists>k \<le> len - p. (f ^^ k) p = (len::nat)"
proof (induction "len - p" arbitrary: p rule: less_induct)
  case less
  show ?case
  proof (cases "p = len")
    case True
    then show ?thesis by (intro exI [of _ 0]) simp
  next
    case False
    then have f: "p < f p" "f p \<le> len" using less.prems assms [of p] by auto
    then have "len - f p < len - p" by simp
    from less.hyps [OF this f(2)] obtain k where "k \<le> len - f p" "(f ^^ k) (f p) = len" by blast
    then show ?thesis using f by (intro exI [of _ "Suc k"]) (auto simp: funpow_Suc_right simp del: funpow.simps)
  qed
qed

lemma steps_to_start:
  assumes "\<And>q. 0 < q \<Longrightarrow> f q < q"
  shows "\<exists>k \<le> p. (f ^^ k) p = (0::nat)"
proof (induction p rule: less_induct)
  case (less p)
  show ?case
  proof (cases "p = 0")
    case False
    then have f: "f p < p" using assms by simp
    then obtain k where "k \<le> f p" "(f ^^ k) (f p) = 0" using less by blast
    then show ?thesis using f by (intro exI [of _ "Suc k"]) (auto simp: funpow_Suc_right simp del: funpow.simps)
  qed simp
qed

text \<open>
  Cursor motion ends and stays inside the text. Forward motion by characters or by words reaches
  the end in at most as many steps as there are bytes ahead, backward motion the start in at most as
  many as there are bytes behind; a step by a character lands where a character starts and skips only
  continuation bytes, and steps from where a character starts take each other back. Moving forward by
  a word lands on a byte of a word or at the end.
\<close>

theorem writer_motion_terminates:
  assumes ok: "writer_ok b" and p: "p \<le> length (writer_text b)"
  shows "(\<exists>k \<le> length (writer_text b) - p. (solar_os_writer_utf8_next (Some b) ^^ k) p = length (writer_text b))
     \<and> (\<exists>k \<le> length (writer_text b) - p. (solar_os_writer_word_next (Some b) ^^ k) p = length (writer_text b))
     \<and> (\<exists>k \<le> p. (solar_os_writer_utf8_prev (Some b) ^^ k) p = 0)
     \<and> (\<exists>k \<le> p. (solar_os_writer_word_prev (Some b) ^^ k) p = 0)
     \<and> (p < length (writer_text b) \<longrightarrow> char_start b (solar_os_writer_utf8_next (Some b) p)
         \<and> (\<forall>i. p < i \<and> i < solar_os_writer_utf8_next (Some b) p \<longrightarrow> utf8_continuation (writer_text b ! i))
         \<and> (char_start b p \<longrightarrow> solar_os_writer_utf8_prev (Some b) (solar_os_writer_utf8_next (Some b) p) = p)
         \<and> (solar_os_writer_word_next (Some b) p = length (writer_text b)
            \<or> writer_word_byte (writer_text b ! solar_os_writer_word_next (Some b) p)))
     \<and> (0 < p \<and> char_start b p \<longrightarrow> solar_os_writer_utf8_next (Some b) (solar_os_writer_utf8_prev (Some b) p) = p)"
proof -
  have g: "gap_ok b" using ok by (simp add: writer_ok_def)
  note l = text_length [OF g]
  have step: "\<exists>k \<le> length (writer_text b) - p. (solar_os_writer_utf8_next (Some b) ^^ k) p = length (writer_text b)"
    using utf8_next_spec [OF g] by (intro steps_to_end [OF _ p]) simp
  have word: "\<exists>k \<le> length (writer_text b) - p. (solar_os_writer_word_next (Some b) ^^ k) p = length (writer_text b)"
    using word_next_spec [of _ "Some b"] by (intro steps_to_end [OF _ p]) (simp add: l)
  have here: "writer_byte_at b i = writer_text b ! i" if "i < length (writer_text b)" for i
    using byte_at_text [OF g that] .
  have inner: "char_start b (solar_os_writer_utf8_next (Some b) p)
      \<and> (\<forall>i. p < i \<and> i < solar_os_writer_utf8_next (Some b) p \<longrightarrow> utf8_continuation (writer_text b ! i))
      \<and> (char_start b p \<longrightarrow> solar_os_writer_utf8_prev (Some b) (solar_os_writer_utf8_next (Some b) p) = p)
      \<and> (solar_os_writer_word_next (Some b) p = length (writer_text b)
         \<or> writer_word_byte (writer_text b ! solar_os_writer_word_next (Some b) p))"
    if len: "p < length (writer_text b)"
  proof -
    have w: "p < solar_os_writer_buffer_length (Some b)" using len by (simp add: l)
    have "utf8_continuation (writer_text b ! i)" if i: "p < i \<and> i < solar_os_writer_utf8_next (Some b) p" for i
    proof -
      have "i < length (writer_text b)" using utf8_next_spec [OF g len] i by linarith
      then show ?thesis using utf8_next_spec [OF g len] i by (simp add: here [symmetric])
    qed
    moreover have "solar_os_writer_word_next (Some b) p = length (writer_text b)
         \<or> writer_word_byte (writer_text b ! solar_os_writer_word_next (Some b) p)"
      using word_next_spec [OF w] here [of "solar_os_writer_word_next (Some b) p"] by (auto simp: l le_less)
    ultimately show ?thesis using utf8_next_spec [OF g len] prev_next [OF g len] by blast
  qed
  show ?thesis
    using step word inner next_prev [OF g _ p] steps_to_start [of "solar_os_writer_utf8_prev (Some b)" p, OF utf8_prev_less]
      steps_to_start [of "solar_os_writer_word_prev (Some b)" p, OF word_prev_less] by simp
qed

lemma writer_motion_terminates_witness:
  "\<exists>k \<le> 3. (solar_os_writer_utf8_next (Some hi_buffer) ^^ k) 0 = 3"
proof -
  have "length (writer_text hi_buffer) = 3" by (simp add: hi_buffer_ok)
  with writer_motion_terminates [OF hi_buffer_ok(1), of 0] show ?thesis by auto
qed

end
