(* ===== verification/Pocsag.thy ===== *)
theory Pocsag
  imports SolarBase
begin

text \<open>
  The pager codec, \<open>src/src/services/solar_os_pocsag.c\<close>: code words of 21 data bits protected by a
  BCH code with a parity bit, messages of four-bit or seven-bit characters packed into them, and the
  decoder that corrects code words and collects the text of a message.

  The characters of a message are a list; the decoder keeps the number of them in use beside it, as
  the code does, and writing at that position ends the text there. A callback that is not NULL is
  called with the messages of the list a function returns.
\<close>

unbundle bit_operations_syntax

section \<open>Code words\<close>

definition POCSAG_BATCH_BYTES :: nat where
  "POCSAG_BATCH_BYTES = 64"

definition POCSAG_PAYLOAD_MAX :: nat where
  "POCSAG_PAYLOAD_MAX = 512"

definition POCSAG_TEXT_MAX :: nat where
  "POCSAG_TEXT_MAX = 256"

definition POCSAG_IDLE_CODEWORD :: u32 where
  "POCSAG_IDLE_CODEWORD = 0x7A89C197"

definition POCSAG_SYNC_CODEWORD :: u32 where
  "POCSAG_SYNC_CODEWORD = 0x7CD215D8"

definition POCSAG_BCH_GENERATOR :: u32 where
  "POCSAG_BCH_GENERATOR = 0x769"

definition POCSAG_RIC_MAX :: u32 where
  "POCSAG_RIC_MAX = 2097151"

definition POCSAG_CODEWORDS_PER_BATCH :: nat where
  "POCSAG_CODEWORDS_PER_BATCH = 16"

text \<open>\<open>__builtin_popcount\<close> counts the bits that are set.\<close>

definition popcount :: "u32 \<Rightarrow> nat" where
  "popcount w = length (filter (bit w) [0..<32])"

text \<open>The division by the generator, bit by bit from 30 down to 10, and its remainder.\<close>

definition bch_step :: "nat \<Rightarrow> u32 \<Rightarrow> u32" where
  "bch_step b value = (if bit value b then value XOR push_bit (b - 10) POCSAG_BCH_GENERATOR else value)"

definition bch_divide :: "u32 \<Rightarrow> u32" where
  "bch_divide value = fold bch_step (rev [10..<31]) value"

definition codeword_valid :: "u32 \<Rightarrow> bool" where
  "codeword_valid w \<longleftrightarrow> even (popcount w) \<and> bch_divide (drop_bit 1 w) AND 0x3FF = 0"

definition encode_codeword :: "u32 \<Rightarrow> u32" where
  "encode_codeword payload =
     (let w = payload OR push_bit 1 (bch_divide (drop_bit 1 payload) AND 0x3FF)
      in if odd (popcount w) then w OR 1 else w)"

text \<open>The code words tried in turn: each single bit flipped, then the same with each later bit.\<close>

definition correction_candidates :: "u32 \<Rightarrow> (u32 \<times> u8) list" where
  "correction_candidates received =
     concat (map (\<lambda>first. let one_bit = received XOR push_bit first 1
        in (one_bit, 1) # map (\<lambda>second. (one_bit XOR push_bit second 1, 2)) [first + 1..<32]) [0..<32])"

definition correct_codeword :: "u32 \<Rightarrow> (u32 \<times> u8) option" where
  "correct_codeword received =
     (if codeword_valid received then Some (received, 0)
      else List.find (\<lambda>(w, bits). codeword_valid w) (correction_candidates received))"

section \<open>Messages\<close>

datatype pocsag_format = POCSAG_FORMAT_ALPHA | POCSAG_FORMAT_NUMERIC

definition numeric_chars :: string where
  "numeric_chars = ''0123456789*U -)(''"

text \<open>\<open>strchr\<close> also finds the terminating NUL.\<close>

definition numeric_symbol :: "char \<Rightarrow> u8 option" where
  "numeric_symbol c =
     map_option of_nat (List.find (\<lambda>i. (numeric_chars @ [CHR 0x00]) ! i = c) [0..<length numeric_chars + 1])"

definition pocsag_width :: "pocsag_format \<Rightarrow> nat" where
  "pocsag_width format = (if format = POCSAG_FORMAT_NUMERIC then 4 else 7)"

text \<open>The length of a valid message, \<open>None\<close> when it is not valid.\<close>

definition message_valid :: "pocsag_format \<Rightarrow> string option \<Rightarrow> nat option" where
  "message_valid format txt =
     (case txt of
        None \<Rightarrow> None
      | Some t \<Rightarrow>
          let len = min POCSAG_TEXT_MAX (length t)
          in if len = 0 \<or> POCSAG_TEXT_MAX \<le> len then None
             else if \<forall>c \<in> set t. (case format of
                       POCSAG_FORMAT_ALPHA \<Rightarrow> 0x20 \<le> (of_char c :: nat) \<and> (of_char c :: nat) \<le> 0x7E
                     | POCSAG_FORMAT_NUMERIC \<Rightarrow> numeric_symbol c \<noteq> None)
                  then Some len else None)"

text \<open>The number sent for a character, and the bit at an index of the message with its padding.\<close>

definition char_symbol :: "pocsag_format \<Rightarrow> char \<Rightarrow> u8" where
  "char_symbol format c =
     (if format = POCSAG_FORMAT_NUMERIC
      then (case numeric_symbol c of None \<Rightarrow> of_nat (of_char c) | Some s \<Rightarrow> s) else of_nat (of_char c))"

definition message_bit :: "pocsag_format \<Rightarrow> string \<Rightarrow> nat \<Rightarrow> nat \<Rightarrow> bool" where
  "message_bit format txt text_len bit_index =
     (let width = pocsag_width format; message_bits = text_len * width
      in if bit_index < message_bits
         then bit (char_symbol format (txt ! (bit_index div width))) (bit_index mod width)
         else bit (if format = POCSAG_FORMAT_NUMERIC then 12 else 0x20 :: u8) ((bit_index - message_bits) mod width))"

definition message_data_word :: "pocsag_format \<Rightarrow> string \<Rightarrow> nat \<Rightarrow> nat \<Rightarrow> u32" where
  "message_data_word format txt text_len message_word =
     fold (\<lambda>output_bit w. w OR push_bit (19 - output_bit)
             (of_bool (message_bit format txt text_len (message_word * 20 + output_bit)))) [0..<20] 0"

definition write_word :: "u32 \<Rightarrow> u8 list" where
  "write_word w = [ucast (drop_bit 24 w), ucast (drop_bit 16 w), ucast (drop_bit 8 w), ucast w]"

text \<open>The code word of an index over all batches.\<close>

definition payload_codeword :: "u32 \<Rightarrow> u8 \<Rightarrow> pocsag_format \<Rightarrow> string \<Rightarrow> nat \<Rightarrow> nat \<Rightarrow> nat \<Rightarrow> nat \<Rightarrow> u32" where
  "payload_codeword ric function format txt text_len address_index message_words codeword_index =
     (if codeword_index = address_index
      then encode_codeword (push_bit 13 (drop_bit 3 ric AND 0x3FFFF) OR push_bit 11 (ucast function))
      else if address_index < codeword_index \<and> codeword_index \<le> address_index + message_words
      then encode_codeword (0x80000000 OR
             push_bit 11 (message_data_word format txt text_len (codeword_index - address_index - 1)))
      else POCSAG_IDLE_CODEWORD)"

text \<open>The payload is the second component, with the number of batches; a pointer that is not given is False.\<close>

definition solar_os_pocsag_encode_payload ::
  "u32 \<Rightarrow> u8 \<Rightarrow> pocsag_format \<Rightarrow> string option \<Rightarrow> bool \<Rightarrow> nat \<Rightarrow> bool
   \<Rightarrow> esp_err \<times> (u8 list \<times> nat) option" where
  "solar_os_pocsag_encode_payload ric function format txt payload_given payload_capacity payload_len_given =
     (if POCSAG_RIC_MAX < ric \<or> 3 < function \<or> \<not> payload_given \<or> \<not> payload_len_given
      then (ESP_ERR_INVALID_ARG, None)
      else (case message_valid format txt of
              None \<Rightarrow> (ESP_ERR_INVALID_ARG, None)
            | Some text_len \<Rightarrow>
                let width = pocsag_width format;
                    message_words = (text_len * width + 19) div 20;
                    address_index = unat (ric AND 7) * 2;
                    batches = (address_index + 1 + message_words + POCSAG_CODEWORDS_PER_BATCH - 1)
                                div POCSAG_CODEWORDS_PER_BATCH;
                    required = batches * POCSAG_BATCH_BYTES + (batches - 1) * 4
                in if payload_capacity < required \<or> POCSAG_PAYLOAD_MAX < required
                   then (ESP_ERR_INVALID_SIZE, None)
                   else (ESP_OK, Some (concat (map (\<lambda>batch.
                          (if 0 < batch then write_word POCSAG_SYNC_CODEWORD else [])
                          @ concat (map (\<lambda>slot. write_word (payload_codeword ric function format (the txt) text_len
                                address_index message_words (batch * POCSAG_CODEWORDS_PER_BATCH + slot)))
                              [0..<POCSAG_CODEWORDS_PER_BATCH])) [0..<batches]), batches))))"

definition solar_os_pocsag_format_name :: "pocsag_format \<Rightarrow> string" where
  "solar_os_pocsag_format_name format = (if format = POCSAG_FORMAT_NUMERIC then ''numeric'' else ''alpha'')"

section \<open>The decoder\<close>

record pocsag_message =
  pm_ric :: u32
  pm_function :: u8
  pm_format :: pocsag_format
  pm_rssi_dbm :: int
  pm_corrected_codewords :: u16
  pm_uncorrectable_codewords :: u16
  pm_truncated :: bool
  pm_text :: string

record pocsag_decoder =
  pd_target_ric :: u32
  pd_format :: pocsag_format
  pd_active :: bool
  pd_message :: pocsag_message
  pd_text_len :: nat
  pd_character :: u8
  pd_character_bits :: nat

definition pocsag_message_zero :: pocsag_message where
  "pocsag_message_zero = \<lparr>pm_ric = 0, pm_function = 0, pm_format = POCSAG_FORMAT_ALPHA, pm_rssi_dbm = 0,
     pm_corrected_codewords = 0, pm_uncorrectable_codewords = 0, pm_truncated = False, pm_text = []\<rparr>"

definition solar_os_pocsag_decoder_init ::
  "pocsag_decoder option \<Rightarrow> u32 \<Rightarrow> pocsag_format \<Rightarrow> pocsag_decoder option" where
  "solar_os_pocsag_decoder_init decoder target_ric format =
     map_option (\<lambda>_. \<lparr>pd_target_ric = target_ric, pd_format = format, pd_active = False,
        pd_message = pocsag_message_zero, pd_text_len = 0, pd_character = 0, pd_character_bits = 0\<rparr>) decoder"

definition append_character :: "pocsag_decoder \<Rightarrow> char \<Rightarrow> pocsag_decoder" where
  "append_character d c =
     (if c = CHR 0x00 \<or> c = CHR 0x03 \<or> c = CHR 0x04 then d
      else if (of_char c :: nat) < 0x20 \<and> c \<noteq> CHR 0x0A \<and> c \<noteq> CHR 0x0D then d
      else if POCSAG_TEXT_MAX \<le> pd_text_len d + 1
      then d\<lparr>pd_message := (pd_message d)\<lparr>pm_truncated := True\<rparr>\<rparr>
      else d\<lparr>pd_message := (pd_message d)\<lparr>pm_text := take (pd_text_len d) (pm_text (pd_message d)) @ [c]\<rparr>,
             pd_text_len := pd_text_len d + 1\<rparr>)"

definition append_bit :: "bool \<Rightarrow> pocsag_decoder \<Rightarrow> pocsag_decoder" where
  "append_bit b d =
     (let width = (if pd_format d = POCSAG_FORMAT_NUMERIC then 4 else 7);
          d1 = d\<lparr>pd_character := pd_character d OR push_bit (pd_character_bits d) (of_bool b),
                 pd_character_bits := pd_character_bits d + 1\<rparr>
      in if pd_character_bits d1 \<noteq> width then d1
         else (if pd_format d1 = POCSAG_FORMAT_NUMERIC
               then append_character d1 (numeric_chars ! unat (pd_character d1 AND 0x0F))
               else append_character d1 (char_of (unat (pd_character d1 AND 0x7F))))
                \<lparr>pd_character := 0, pd_character_bits := 0\<rparr>)"

definition append_message_bits :: "pocsag_decoder \<Rightarrow> u32 \<Rightarrow> pocsag_decoder" where
  "append_message_bits d bits = fold (\<lambda>i. append_bit (bit bits i)) (rev [0..<20]) d"

text \<open>The loop that drops trailing blanks.\<close>

function trim_message :: "pocsag_decoder \<Rightarrow> pocsag_decoder" where
  "trim_message d =
     (if 0 < pd_text_len d \<and> pm_text (pd_message d) ! (pd_text_len d - 1) \<in> {CHR '' '', CHR 0x0D, CHR 0x0A}
      then trim_message (d\<lparr>pd_message := (pd_message d)\<lparr>pm_text := take (pd_text_len d - 1) (pm_text (pd_message d))\<rparr>,
                           pd_text_len := pd_text_len d - 1\<rparr>)
      else d)"
  by pat_completeness auto
termination
  by (relation "measure pd_text_len") auto

declare trim_message.simps [simp del]

definition finish_message :: "pocsag_decoder \<Rightarrow> bool \<Rightarrow> bool \<times> pocsag_message list \<times> pocsag_decoder" where
  "finish_message d callback =
     (if \<not> pd_active d then (False, [], d)
      else
        let d1 = trim_message d; emitted = 0 < pd_text_len d1
        in (emitted, if emitted \<and> callback then [pd_message d1] else [],
            d1\<lparr>pd_active := False, pd_text_len := 0, pd_character := 0, pd_character_bits := 0\<rparr>))"

definition begin_message :: "pocsag_decoder \<Rightarrow> u32 \<Rightarrow> u8 \<Rightarrow> int \<Rightarrow> pocsag_decoder" where
  "begin_message d ric function rssi_dbm =
     d\<lparr>pd_message := pocsag_message_zero\<lparr>pm_ric := ric, pm_function := function, pm_format := pd_format d,
                                           pm_rssi_dbm := rssi_dbm\<rparr>,
       pd_active := True, pd_text_len := 0, pd_character := 0, pd_character_bits := 0\<rparr>"

text \<open>One code word of a batch: the number of messages emitted, the messages, the decoder.\<close>

definition decode_codeword ::
  "int \<Rightarrow> bool \<Rightarrow> nat \<Rightarrow> u32 \<Rightarrow> pocsag_decoder \<Rightarrow> nat \<times> pocsag_message list \<times> pocsag_decoder" where
  "decode_codeword rssi_dbm callback index received d =
     (case correct_codeword received of
        None \<Rightarrow>
          (0, [], if pd_active d
                  then d\<lparr>pd_message := (pd_message d)\<lparr>pm_uncorrectable_codewords :=
                           pm_uncorrectable_codewords (pd_message d) + 1\<rparr>\<rparr> else d)
      | Some (w, corrected_bits) \<Rightarrow>
          let d1 = (if pd_active d \<and> 0 < corrected_bits
                    then d\<lparr>pd_message := (pd_message d)\<lparr>pm_corrected_codewords :=
                             pm_corrected_codewords (pd_message d) + 1\<rparr>\<rparr> else d)
          in if w = POCSAG_IDLE_CODEWORD
             then (let (emitted, msgs, d2) = finish_message d1 callback in (of_bool emitted, msgs, d2))
             else if w AND 0x80000000 = 0
             then (let (emitted, msgs, d2) = finish_message d1 callback;
                       ric = push_bit 3 (drop_bit 13 w AND 0x3FFFF) OR of_nat (index div 2);
                       d3 = (if pd_target_ric d2 = 0 \<or> ric = pd_target_ric d2
                             then (let d = begin_message d2 ric (ucast (drop_bit 11 w) AND 0x03) rssi_dbm
                                   in d\<lparr>pd_message := (pd_message d)\<lparr>pm_corrected_codewords :=
                                           (if 0 < corrected_bits then 1 else 0)\<rparr>\<rparr>)
                             else d2)
                   in (of_bool emitted, msgs, d3))
             else (0, [], if pd_active d1 then append_message_bits d1 (drop_bit 11 w AND 0xFFFFF) else d1))"

definition read_word :: "u8 list \<Rightarrow> u32" where
  "read_word raw = push_bit 24 (ucast (raw ! 0)) OR push_bit 16 (ucast (raw ! 1)) OR push_bit 8 (ucast (raw ! 2))
     OR ucast (raw ! 3)"

definition solar_os_pocsag_decode_batch ::
  "pocsag_decoder option \<Rightarrow> u8 list option \<Rightarrow> nat \<Rightarrow> int \<Rightarrow> bool
   \<Rightarrow> nat \<times> pocsag_message list \<times> pocsag_decoder option" where
  "solar_os_pocsag_decode_batch decoder batch len rssi_dbm callback =
     (case (decoder, batch) of
        (Some d, Some bytes) \<Rightarrow>
          if len \<noteq> POCSAG_BATCH_BYTES then (0, [], decoder)
          else
            (let (n, msgs, d1) = fold (\<lambda>index (n, msgs, d).
                   let (n1, msgs1, d1) = decode_codeword rssi_dbm callback index
                         (read_word (take 4 (drop (index * 4) bytes))) d
                   in (n + n1, msgs @ msgs1, d1)) [0..<len div 4] (0, [], d)
             in (n, msgs, Some d1))
      | _ \<Rightarrow> (0, [], decoder))"

definition solar_os_pocsag_decoder_flush ::
  "pocsag_decoder option \<Rightarrow> bool \<Rightarrow> bool \<times> pocsag_message list \<times> pocsag_decoder option" where
  "solar_os_pocsag_decoder_flush decoder callback =
     (case decoder of
        None \<Rightarrow> (False, [], None)
      | Some d \<Rightarrow> (let (emitted, msgs, d1) = finish_message d callback in (emitted, msgs, Some d1)))"

end
