(* ===== verification/PocsagCode.thy ===== *)
theory PocsagCode
  imports Pocsag
begin

text \<open>
  The code words of the pager codec, \<open>src/src/services/solar_os_pocsag.c\<close>, correct two errors. A
  word is valid when it has an even number of bits and a zero syndrome; the syndrome is linear, so it
  is enough that no word of one to four bits is valid. The parity rules out odd numbers, and the
  syndromes of all pairs of bits, listed in their order, differ from each other and from zero.
\<close>

unbundle bit_operations_syntax

section \<open>The code corrects two errors\<close>

text \<open>The division is linear, so a difference of valid words is valid.\<close>

lemma bch_step_xor: "bch_step b (v XOR w) = bch_step b v XOR bch_step b w"
  by (auto simp: bch_step_def bit_xor_iff ac_simps xor.left_commute)

lemma fold_bch_xor: "fold bch_step bs (v XOR w) = fold bch_step bs v XOR fold bch_step bs w"
  by (induction bs arbitrary: v w) (simp_all add: bch_step_xor)

definition syndrome :: "u32 \<Rightarrow> u32" where
  "syndrome w = bch_divide (drop_bit 1 w) AND 0x3FF"

lemma syndrome_xor: "syndrome (v XOR w) = syndrome v XOR syndrome w"
proof -
  have "(x XOR y) AND m = (x AND m) XOR (y AND m)" for x y m :: u32
    by (rule bit_eqI) (auto simp: bit_simps)
  then show ?thesis unfolding syndrome_def bch_divide_def drop_bit_xor fold_bch_xor .
qed

lemma syndrome_0 [simp]: "syndrome 0 = 0"
  using syndrome_xor [of 0 0] by simp

definition ones :: "u32 \<Rightarrow> nat set" where
  "ones w = {i. bit w i}"

lemma ones_bound: "i \<in> ones w \<Longrightarrow> i < 32"
  using bit_imp_le_length [of w i] by (simp add: ones_def)

lemma finite_ones [simp]: "finite (ones w)"
  using ones_bound by (intro finite_subset [of "ones w" "{..<32}"]) auto

lemma popcount_ones: "popcount w = card (ones w)"
proof -
  have "set (filter (bit w) [0..<32]) = ones w" using ones_bound by (auto simp: ones_def)
  then show ?thesis unfolding popcount_def by (metis distinct_card distinct_filter distinct_upt)
qed

lemma ones_xor: "ones (v XOR w) = (ones v - ones w) \<union> (ones w - ones v)"
  by (auto simp: ones_def bit_xor_iff)

lemma popcount_xor_le: "popcount (v XOR w) \<le> popcount v + popcount w"
proof -
  have "card ((ones v - ones w) \<union> (ones w - ones v)) \<le> card (ones v - ones w) + card (ones w - ones v)"
    by (rule card_Un_le)
  also have "\<dots> \<le> card (ones v) + card (ones w)" by (intro add_mono card_mono) auto
  finally show ?thesis by (simp add: popcount_ones ones_xor)
qed

lemma even_popcount_xor: "even (popcount (v XOR w)) = (even (popcount v) = even (popcount w))"
proof -
  have "card (ones v) = card (ones v - ones w) + card (ones v \<inter> ones w)"
    "card (ones w) = card (ones w - ones v) + card (ones v \<inter> ones w)"
    by (metis (no_types) card_Diff_subset_Int card_mono finite_Int finite_ones inf_le1 le_add_diff_inverse2 inf_commute)+
  moreover have "card (ones (v XOR w)) = card (ones v - ones w) + card (ones w - ones v)"
    unfolding ones_xor by (rule card_Un_disjoint) auto
  ultimately show ?thesis unfolding popcount_ones by presburger
qed

lemma codeword_valid_iff: "codeword_valid w \<longleftrightarrow> even (popcount w) \<and> syndrome w = 0"
  by (simp add: codeword_valid_def syndrome_def)

lemma codeword_valid_xor: "codeword_valid v \<Longrightarrow> codeword_valid w \<Longrightarrow> codeword_valid (v XOR w)"
  by (simp add: codeword_valid_iff syndrome_xor even_popcount_xor)

text \<open>The syndrome of a word is the sum of the syndromes of its bits.\<close>

definition flips :: "nat list \<Rightarrow> u32" where
  "flips is = foldr (\<lambda>i w. push_bit i 1 XOR w) is 0"

lemma bit_flips: "distinct is \<Longrightarrow> set is \<subseteq> {..<32} \<Longrightarrow> bit (flips is) i \<longleftrightarrow> i \<in> set is"
  by (induction "is") (auto simp: flips_def bit_xor_iff bit_exp_iff)

lemma word_flips: "w = flips (filter (bit w) [0..<32])"
proof (rule bit_eqI)
  fix i
  have "i < 32" if "bit w i" using bit_imp_le_length [OF that] by simp
  then show "bit w i \<longleftrightarrow> bit (flips (filter (bit w) [0..<32])) i" by (subst bit_flips) auto
qed

definition bit_syndrome :: "nat \<Rightarrow> u32" where
  "bit_syndrome i = syndrome (push_bit i 1)"

lemma syndrome_flips: "syndrome (flips is) = foldr (\<lambda>i s. bit_syndrome i XOR s) is 0"
  by (induction "is") (simp_all add: flips_def syndrome_xor bit_syndrome_def)

section \<open>The table of pairs\<close>

text \<open>The syndromes of the 32 bits, evaluated.\<close>

lemma bch_bits: "rev [10..<31] = [30,29,28,27,26,25,24,23,22,21,20,19,18,17,16,15,14,13,12,11,10]"
  by (simp add: upt_rec)

lemma bit_syndromes:
  "bit_syndrome 0 = 0"
  "bit_syndrome 1 = 1"
  "bit_syndrome 2 = 2"
  "bit_syndrome 3 = 4"
  "bit_syndrome 4 = 8"
  "bit_syndrome 5 = 16"
  "bit_syndrome 6 = 32"
  "bit_syndrome 7 = 64"
  "bit_syndrome 8 = 128"
  "bit_syndrome 9 = 256"
  "bit_syndrome 10 = 512"
  "bit_syndrome 11 = 873"
  "bit_syndrome 12 = 443"
  "bit_syndrome 13 = 886"
  "bit_syndrome 14 = 389"
  "bit_syndrome 15 = 778"
  "bit_syndrome 16 = 381"
  "bit_syndrome 17 = 762"
  "bit_syndrome 18 = 669"
  "bit_syndrome 19 = 595"
  "bit_syndrome 20 = 975"
  "bit_syndrome 21 = 247"
  "bit_syndrome 22 = 494"
  "bit_syndrome 23 = 988"
  "bit_syndrome 24 = 209"
  "bit_syndrome 25 = 418"
  "bit_syndrome 26 = 836"
  "bit_syndrome 27 = 481"
  "bit_syndrome 28 = 962"
  "bit_syndrome 29 = 237"
  "bit_syndrome 30 = 474"
  "bit_syndrome 31 = 948"
  by (simp_all add: bit_syndrome_def syndrome_def bch_divide_def bch_bits bch_step_def drop_bit_push_bit
      POCSAG_BCH_GENERATOR_def)

text \<open>
  All pairs of bits in the order of their common syndromes, and these syndromes: as they ascend
  strictly, no two pairs have the same one.
\<close>

definition bit_pairs :: "(nat \<times> nat) list" where
  "bit_pairs =
  [(0,1), (0,2), (1,2), (0,3), (1,3), (2,3), (0,4), (1,4), (2,4), (3,4), (20,28), (22,27), (0,5), (1,5), (2,5),
   (20,23), (3,5), (4,5), (12,25), (21,29), (23,28), (11,13), (0,6), (1,6), (2,6), (3,6), (21,24), (14,25),
   (4,6), (11,26), (5,6), (13,26), (22,30), (27,30), (24,29), (12,14), (0,7), (1,7), (2,7), (25,27), (3,7),
   (4,7), (22,25), (15,26), (5,7), (8,24), (10,19), (12,22), (12,27), (14,30), (6,7), (12,30), (11,15), (14,27),
   (17,18), (23,31), (14,22), (8,29), (28,31), (8,21), (25,30), (20,31), (13,15), (9,16), (0,8), (1,8), (2,8),
   (3,8), (9,14), (26,28), (4,8), (20,26), (5,8), (7,24), (16,22), (23,26), (16,27), (10,18), (6,8), (9,25),
   (11,20), (16,30), (17,19), (13,23), (11,28), (7,29), (13,28), (11,23), (7,21), (13,20), (9,12), (15,31),
   (7,8), (5,24), (13,31), (15,20), (12,16), (15,28), (6,29), (18,19), (1,24), (0,24), (2,24), (3,24), (15,23),
   (6,21), (4,24), (9,30), (11,31), (16,25), (9,27), (4,29), (5,21), (3,29), (1,29), (0,29), (9,22), (2,29),
   (26,31), (6,24), (3,21), (2,21), (1,21), (0,21), (14,16), (10,17), (5,29), (4,21), (0,9), (1,9), (2,9),
   (22,29), (3,9), (8,14), (4,9), (10,15), (24,30), (27,29), (5,9), (21,27), (19,26), (21,22), (6,9), (8,25),
   (13,19), (17,23), (18,31), (21,30), (24,27), (17,20), (29,30), (17,28), (11,19), (8,12), (7,16), (22,24),
   (7,9), (18,23), (10,26), (12,21), (17,31), (25,29), (18,20), (14,24), (21,25), (12,29), (15,19), (8,30),
   (6,16), (18,28), (8,27), (14,29), (10,11), (12,24), (5,16), (8,22), (14,21), (24,25), (4,16), (10,13),
   (3,16), (1,16), (0,16), (2,16), (8,9), (3,14), (6,25), (1,14), (0,14), (2,14), (16,21), (13,17), (4,14),
   (19,23), (16,29), (19,28), (11,17), (5,14), (15,18), (7,30), (6,12), (19,20), (2,25), (7,27), (0,25), (1,25),
   (6,14), (3,25), (4,25), (5,12), (16,24), (7,22), (5,25), (4,12), (10,31), (2,12), (1,12), (0,12), (17,26),
   (3,12), (6,27), (10,28), (7,14), (5,30), (6,22), (10,20), (9,24), (4,30), (2,30), (18,26), (0,30), (1,30),
   (10,23), (3,30), (1,27), (0,27), (7,25), (2,27), (3,27), (4,22), (19,31), (4,27), (3,22), (13,18), (2,22),
   (9,29), (0,22), (1,22), (15,17), (5,27), (11,18), (9,21), (6,30), (7,12), (8,16), (5,22), (0,10), (1,10),
   (2,10), (3,10), (23,30), (4,10), (9,15), (13,16), (17,21), (12,31), (5,10), (7,19), (11,16), (20,30),
   (25,31), (17,29), (28,30), (8,18), (6,10), (20,22), (27,28), (17,24), (22,28), (20,27), (14,31), (22,23),
   (16,26), (23,27), (7,10), (5,19), (9,26), (14,28), (14,20), (18,24), (2,19), (1,19), (0,19), (27,31), (3,19),
   (14,23), (22,31), (4,19), (25,28), (12,23), (9,11), (18,21), (20,25), (30,31), (18,29), (6,19), (12,20),
   (9,13), (15,16), (12,28), (8,17), (23,25), (8,10), (19,24), (11,22), (11,27), (5,18), (14,15), (4,18),
   (13,27), (13,22), (3,18), (1,18), (0,18), (26,30), (2,18), (16,23), (19,21), (26,27), (15,25), (22,26),
   (13,30), (12,15), (16,20), (11,30), (9,31), (7,17), (6,18), (19,29), (16,28), (14,26), (9,28), (16,31),
   (11,25), (12,13), (9,20), (15,30), (10,24), (11,12), (8,19), (13,25), (6,17), (9,23), (7,18), (15,22),
   (25,26), (5,17), (15,27), (11,14), (10,29), (4,17), (13,14), (10,21), (2,17), (0,17), (1,17), (3,17),
   (12,26), (9,10), (4,15), (7,26), (2,15), (0,15), (1,15), (23,24), (3,15), (24,28), (17,22), (14,18), (5,15),
   (17,27), (20,24), (17,30), (20,29), (12,18), (7,11), (6,15), (21,23), (16,19), (28,29), (23,29), (8,31),
   (21,28), (7,13), (20,21), (18,25), (3,26), (12,17), (8,28), (21,31), (0,26), (1,26), (2,26), (18,30), (6,11),
   (7,15), (4,26), (8,20), (9,19), (5,26), (6,13), (17,25), (29,31), (8,23), (4,11), (6,26), (24,31), (5,13),
   (1,11), (0,11), (2,11), (3,11), (3,13), (18,22), (2,13), (0,13), (1,13), (5,11), (18,27), (10,16), (4,13),
   (14,17), (13,21), (7,28), (11,29), (10,14), (16,17), (19,30), (8,15), (7,20), (6,31), (24,26), (13,29),
   (7,23), (9,18), (11,21), (10,25), (5,31), (13,24), (26,29), (3,31), (19,27), (21,26), (0,31), (1,31), (2,31),
   (11,24), (10,12), (4,31), (19,22), (2,28), (0,28), (1,28), (8,26), (3,28), (4,20), (4,28), (3,20), (5,23),
   (2,20), (1,20), (0,20), (5,28), (4,23), (14,19), (3,23), (10,30), (15,24), (0,23), (1,23), (2,23), (5,20),
   (16,18), (10,27), (6,28), (15,29), (12,19), (8,11), (10,22), (6,20), (19,25), (7,31), (8,13), (9,17), (6,23),
   (15,21)]"

definition pair_syndromes :: "nat list" where
  "pair_syndromes =
  [1, 2, 3, 4, 5, 6, 8, 9, 10, 12, 13, 15, 16, 17, 18, 19, 20, 24, 25, 26, 30, 31, 32, 33, 34, 36, 38, 39, 40,
   45, 48, 50, 52, 59, 60, 62, 64, 65, 66, 67, 68, 72, 76, 78, 80, 81, 83, 85, 90, 95, 96, 97, 99, 100, 103,
   104, 107, 109, 118, 119, 120, 123, 124, 125, 128, 129, 130, 132, 133, 134, 136, 139, 144, 145, 147, 152, 156,
   157, 160, 162, 166, 167, 169, 170, 171, 173, 180, 181, 183, 185, 187, 190, 192, 193, 194, 197, 198, 200, 205,
   206, 208, 209, 211, 213, 214, 215, 217, 218, 221, 223, 225, 229, 231, 233, 236, 237, 238, 239, 240, 241, 243,
   245, 246, 247, 248, 250, 253, 255, 256, 257, 258, 259, 260, 261, 264, 266, 267, 268, 272, 278, 279, 281, 288,
   290, 293, 294, 297, 301, 304, 309, 311, 312, 314, 315, 317, 319, 320, 321, 324, 332, 334, 335, 338, 340, 341,
   342, 345, 346, 349, 351, 353, 360, 361, 362, 365, 366, 370, 371, 373, 374, 377, 380, 381, 383, 384, 385, 386,
   388, 389, 391, 394, 396, 397, 399, 400, 401, 403, 405, 407, 410, 411, 412, 416, 417, 418, 419, 421, 422, 426,
   427, 428, 430, 434, 435, 436, 441, 442, 443, 446, 447, 449, 450, 453, 458, 462, 463, 465, 466, 472, 473, 474,
   475, 476, 478, 480, 481, 482, 483, 485, 486, 487, 489, 490, 491, 492, 493, 494, 495, 496, 497, 500, 503, 506,
   507, 509, 510, 512, 513, 514, 516, 518, 520, 522, 523, 525, 527, 528, 531, 532, 533, 534, 535, 536, 541, 544,
   545, 547, 555, 556, 558, 561, 562, 569, 573, 576, 579, 580, 583, 586, 588, 593, 594, 595, 597, 599, 601, 602,
   603, 608, 615, 617, 618, 621, 622, 624, 627, 628, 630, 631, 633, 634, 638, 640, 642, 647, 648, 653, 655, 661,
   663, 664, 665, 668, 669, 670, 671, 673, 676, 677, 680, 682, 684, 689, 690, 691, 692, 698, 701, 702, 703, 705,
   706, 713, 715, 717, 719, 720, 721, 722, 723, 724, 730, 732, 733, 740, 742, 746, 747, 748, 749, 754, 755, 759,
   760, 762, 763, 766, 767, 768, 770, 772, 776, 778, 779, 781, 782, 787, 788, 792, 794, 795, 798, 800, 802, 806,
   809, 810, 811, 814, 815, 817, 820, 821, 822, 824, 831, 832, 833, 834, 835, 836, 837, 838, 839, 841, 842, 844,
   847, 851, 852, 854, 856, 857, 860, 865, 868, 869, 870, 872, 873, 875, 877, 882, 883, 884, 886, 887, 889, 892,
   893, 894, 895, 897, 898, 900, 901, 903, 905, 906, 911, 916, 917, 923, 924, 925, 926, 930, 932, 935, 937, 944,
   946, 947, 948, 949, 950, 952, 955, 956, 957, 960, 962, 963, 964, 966, 967, 970, 971, 972, 973, 974, 975, 978,
   980, 982, 984, 986, 987, 988, 989, 990, 991, 992, 993, 994, 999, 1000, 1001, 1006, 1007, 1009, 1012, 1014,
   1018, 1020, 1021]"

fun ascending :: "nat list \<Rightarrow> bool" where
  "ascending (x # y # zs) = (x < y \<and> ascending (y # zs))"
| "ascending _ = True"

lemma ascending_distinct: "ascending xs \<Longrightarrow> distinct xs \<and> (\<forall>y \<in> set (tl xs). hd xs < y)"
  by (induction xs rule: ascending.induct) auto

definition pair_syndrome :: "nat \<times> nat \<Rightarrow> nat" where
  "pair_syndrome p = unat (bit_syndrome (fst p) XOR bit_syndrome (snd p))"

lemma bit_pairs_syndromes: "map pair_syndrome bit_pairs = pair_syndromes"
  unfolding bit_pairs_def pair_syndromes_def by (simp add: pair_syndrome_def bit_syndromes bit_syndromes(2) [unfolded One_nat_def])

lemma pair_syndromes_ascending: "ascending (0 # pair_syndromes)"
  unfolding pair_syndromes_def by simp

lemma bit_pairs_ordered: "list_all (\<lambda>p. fst p < snd p \<and> snd p < 32) bit_pairs" "length bit_pairs = 496"
  unfolding bit_pairs_def by simp_all

lemmas bit_pairs_sound = bit_pairs_ordered [unfolded list_all_iff]

lemma bit_pairs_complete: "set bit_pairs = {(i, j). i < j \<and> j < 32}"
proof -
  let ?S = "{(i, j). i < j \<and> j < (32::nat)}"
  have "?S = (SIGMA j:{..<32}. {..<j})\<inverse>" by auto
  then have "card ?S = card (SIGMA j:{..<32::nat}. {..<j})" by simp
  also have "\<dots> = 496" by (simp add: card_SigmaI eval_nat_numeral)
  finally have S: "card ?S = 496" .
  have "distinct (map pair_syndrome bit_pairs)"
    using ascending_distinct [OF pair_syndromes_ascending] by (simp add: bit_pairs_syndromes)
  then have "distinct bit_pairs" by (simp add: distinct_map)
  then have "card (set bit_pairs) = 496" using bit_pairs_sound(2) by (simp add: distinct_card)
  moreover have "finite ?S" by (rule card_ge_0_finite) (simp add: S)
  moreover have "set bit_pairs \<subseteq> ?S" using bit_pairs_sound(1) by force
  ultimately show ?thesis using S by (intro card_subset_eq) simp_all
qed

lemma pair_syndromes_differ:
  assumes "i < j" "j < 32" "k < l" "l < 32" "bit_syndrome i XOR bit_syndrome j = bit_syndrome k XOR bit_syndrome l"
  shows "i = k \<and> j = l"
proof -
  have "inj_on pair_syndrome (set bit_pairs)"
    using ascending_distinct [OF pair_syndromes_ascending] by (simp add: bit_pairs_syndromes [symmetric] distinct_map)
  moreover have "(i, j) \<in> set bit_pairs" "(k, l) \<in> set bit_pairs" using assms by (simp_all add: bit_pairs_complete)
  moreover have "pair_syndrome (i, j) = pair_syndrome (k, l)" using assms(5) by (simp add: pair_syndrome_def)
  ultimately have "(i, j) = (k, l)" unfolding inj_on_def by blast
  then show ?thesis by simp
qed

lemma pair_syndromes_nonzero:
  assumes "i < j" "j < 32" shows "bit_syndrome i XOR bit_syndrome j \<noteq> 0"
proof
  assume "bit_syndrome i XOR bit_syndrome j = 0"
  then have "pair_syndrome (i, j) = 0" by (simp add: pair_syndrome_def)
  moreover have "(i, j) \<in> set bit_pairs" using assms by (simp add: bit_pairs_complete)
  then have "pair_syndrome (i, j) \<in> set pair_syndromes" unfolding bit_pairs_syndromes [symmetric] by simp
  ultimately show False using ascending_distinct [OF pair_syndromes_ascending] by auto
qed

section \<open>The distance of the code\<close>

lemma xor_eq_0: "x XOR y = 0 \<longleftrightarrow> x = (y :: u32)"
proof
  assume "x XOR y = 0"
  then have "x XOR (x XOR y) = x" by simp
  then show "x = y" by (simp add: xor.assoc [symmetric])
qed simp

lemma no_light_codeword:
  assumes "codeword_valid w" "popcount w \<le> 4"
  shows "w = 0"
proof -
  define bs where "bs = filter (bit w) [0..<32]"
  have w: "w = flips bs" unfolding bs_def by (rule word_flips)
  have "syndrome w = 0" using assms(1) by (simp add: codeword_valid_iff)
  then have s: "foldr (\<lambda>i s. bit_syndrome i XOR s) bs 0 = 0"
    using syndrome_flips [of bs] unfolding w [symmetric] by simp
  have "even (length bs)" "length bs \<le> 4"
    using assms by (simp_all add: codeword_valid_iff popcount_def bs_def)
  moreover have sorted: "sorted_wrt (<) bs" "\<forall>i \<in> set bs. i < 32"
    by (simp_all add: bs_def sorted_wrt_filter)
  ultimately consider "bs = []" | i j where "bs = [i, j]" | i j k l where "bs = [i, j, k, l]"
  proof -
    have "length bs = 0 \<or> length bs = 2 \<or> length bs = 4"
      using \<open>even (length bs)\<close> \<open>length bs \<le> 4\<close> by presburger
    then show ?thesis using that by (auto simp: length_Suc_conv numeral_eq_Suc)
  qed
  then show ?thesis
  proof cases
    case 1
    then show ?thesis using w by (simp add: flips_def)
  next
    case (2 i j)
    then show ?thesis using s sorted pair_syndromes_nonzero [of i j] by simp
  next
    case (3 i j k l)
    have "(bit_syndrome i XOR bit_syndrome j) XOR (bit_syndrome k XOR bit_syndrome l) = 0"
      using s unfolding 3 by (simp add: xor.assoc)
    then have "bit_syndrome i XOR bit_syndrome j = bit_syndrome k XOR bit_syndrome l"
      by (simp only: xor_eq_0)
    then show ?thesis using 3 sorted pair_syndromes_differ [of i j k l] by simp
  qed
qed

lemma correction_candidates_popcount:
  assumes "(w, n) \<in> set (correction_candidates received)"
  shows "popcount (received XOR w) \<le> 2"
proof -
  have one: "popcount (push_bit i 1) \<le> 1" for i
  proof -
    have "ones (push_bit i 1) \<subseteq> {i}" by (auto simp: ones_def bit_exp_iff)
    then show ?thesis unfolding popcount_ones by (metis card_mono finite.intros card.empty card_insert_le_m1 One_nat_def card_1_singleton_iff finite.emptyI finite.insertI le_trans order_refl is_singletonI is_singleton_altdef)
  qed
  have two: "popcount (push_bit i 1 XOR push_bit j 1) \<le> 2" for i j
    using popcount_xor_le [of "push_bit i 1" "push_bit j 1"] one [of i] one [of j] by linarith
  have x: "received XOR (received XOR v) = v" for v :: u32 by (simp add: xor.assoc [symmetric])
  have "(\<exists>i. w = received XOR push_bit i 1) \<or> (\<exists>i j. w = received XOR (push_bit i 1 XOR push_bit j 1))"
    using assms unfolding correction_candidates_def Let_def by (auto simp: xor.assoc simp del: push_bit_of_1)
  moreover have "popcount (push_bit i 1) \<le> 2" for i using one [of i] by linarith
  ultimately show ?thesis using two by (auto simp: x simp del: push_bit_of_1)
qed

lemma candidate_two:
  assumes "i < j" "j < 32"
  shows "(received XOR push_bit i 1 XOR push_bit j 1, 2) \<in> set (correction_candidates received)"
proof -
  have "((received XOR push_bit i 1) XOR push_bit j 1, 2 :: u8)
      \<in> set (map (\<lambda>second. ((received XOR push_bit i 1) XOR push_bit second 1, 2)) [i + 1..<32])"
    using assms unfolding set_map by (intro image_eqI [of _ _ j]) auto
  then have e: "((received XOR push_bit i 1) XOR push_bit j 1, 2 :: u8) \<in> set ((received XOR push_bit i 1, 1)
      # map (\<lambda>second. ((received XOR push_bit i 1) XOR push_bit second 1, 2)) [i + 1..<32])"
    by (rule list.set_intros(2))
  have i: "i \<in> set [0..<32]" using assms by simp
  show ?thesis
    unfolding xor.assoc [symmetric] correction_candidates_def Let_def set_concat set_map by (rule UN_I, rule imageI, rule i, rule e)
qed

text \<open>A word with at most two wrong bits is corrected to the word that was sent.\<close>

lemma correct_codeword_corrects:
  assumes sent: "codeword_valid sent" and noise: "popcount (received XOR sent) \<le> 2"
  shows "\<exists>n. correct_codeword received = Some (sent, n)"
proof -
  have only: "w = sent" if "codeword_valid w" "popcount (received XOR w) \<le> 2" for w
  proof -
    have e: "w XOR sent = (received XOR w) XOR (received XOR sent)"
      by (rule bit_eqI) (auto simp: bit_xor_iff)
    then have "popcount (w XOR sent) \<le> 4"
      using popcount_xor_le [of "received XOR w" "received XOR sent"] that(2) noise by simp
    then have "w XOR sent = 0" using no_light_codeword codeword_valid_xor [OF that(1) sent] by blast
    then show ?thesis by (simp only: xor_eq_0)
  qed
  show ?thesis
  proof (cases "codeword_valid received")
    case True
    then show ?thesis using only [of received] by (simp add: correct_codeword_def popcount_def)
  next
    case False
    define bs where "bs = filter (bit (received XOR sent)) [0..<32]"
    have d: "received XOR sent = flips bs" unfolding bs_def by (rule word_flips)
    have sorted: "sorted_wrt (<) bs" "\<forall>i \<in> set bs. i < 32" by (simp_all add: bs_def sorted_wrt_filter)
    have "bs \<noteq> []" using False sent d by (auto simp: flips_def xor_eq_0)
    moreover have "length bs \<le> 2" using noise by (simp add: popcount_def bs_def)
    ultimately have "length bs = 1 \<or> length bs = 2" by (cases bs) (auto simp: le_Suc_eq)
    then consider i where "bs = [i]" | i j where "bs = [i, j]" by (auto simp: length_Suc_conv numeral_eq_Suc)
    moreover have s: "sent = received XOR flips bs" unfolding d [symmetric] by (simp add: xor.assoc [symmetric])
    ultimately have "\<exists>n. (sent, n) \<in> set (correction_candidates received)"
    proof cases
      case (1 i)
      then have "i < 32" "sent = received XOR push_bit i 1" using s sorted by (simp_all add: flips_def)
      then show ?thesis by (intro exI [of _ 1]) (auto simp: correction_candidates_def Let_def)
    next
      case (2 i j)
      then have "i < j" "j < 32" "sent = received XOR push_bit i 1 XOR push_bit j 1"
        using s sorted by (simp_all add: flips_def xor.assoc)
      then show ?thesis using candidate_two [of i j received] by blast
    qed
    then have "List.find (\<lambda>(w, bits). codeword_valid w) (correction_candidates received) \<noteq> None"
      using sent by (auto simp: find_None_iff)
    then obtain w n where f: "List.find (\<lambda>(w, bits). codeword_valid w) (correction_candidates received) = Some (w, n)"
      by auto
    then obtain i where "i < length (correction_candidates received)" "correction_candidates received ! i = (w, n)"
      and valid: "codeword_valid w" by (auto simp: find_Some_iff)
    then have "(w, n) \<in> set (correction_candidates received)" by (metis nth_mem)
    then have "w = sent" using only [OF valid] correction_candidates_popcount by blast
    then show ?thesis using False f by (simp add: correct_codeword_def)
  qed
qed

end
