(* ===== verification/PocsagMessage.thy ===== *)
theory PocsagMessage
  imports PocsagCode
begin

text \<open>
  A message sent by \<open>solar_os_pocsag_encode_payload\<close> and received with up to two wrong bits in every
  code word comes out of the decoder of \<open>src/src/services/solar_os_pocsag.c\<close> as it was sent, without
  its trailing blanks.
\<close>

unbundle bit_operations_syntax

section \<open>Encoded words are valid\<close>

lemma generator_bits: "bit POCSAG_BCH_GENERATOR n \<Longrightarrow> n \<le> 10" "bit POCSAG_BCH_GENERATOR 10"
proof -
  have "take_bit 11 POCSAG_BCH_GENERATOR = POCSAG_BCH_GENERATOR" by (simp add: POCSAG_BCH_GENERATOR_def)
  then show "bit POCSAG_BCH_GENERATOR n \<Longrightarrow> n \<le> 10" by (metis bit_take_bit_iff less_Suc_eq_le Suc_numeral semiring_norm(5) num.simps(1) eval_nat_numeral(3))
  show "bit POCSAG_BCH_GENERATOR 10" by (simp add: POCSAG_BCH_GENERATOR_def)
qed

lemma bch_step_high:
  assumes "10 \<le> b" "b < 32" "\<forall>n > b. \<not> bit v n"
  shows "\<forall>n \<ge> b. \<not> bit (bch_step b v) n"
proof (intro allI impI)
  fix n
  assume n: "b \<le> n"
  have "\<not> bit POCSAG_BCH_GENERATOR (n - (b - 10))" if "b < n"
    using generator_bits(1) [of "n - (b - 10)"] that assms(1) by auto
  moreover have "b - (b - 10) = 10" using assms(1) by simp
  ultimately show "\<not> bit (bch_step b v) n"
    using assms n generator_bits(2) by (cases "n = b") (auto simp: bch_step_def bit_xor_iff bit_push_bit_iff)
qed

lemma bch_fold_high:
  assumes "m \<le> 32" "\<forall>n \<ge> m. \<not> bit v n"
  shows "\<forall>n \<ge> 10. \<not> bit (fold bch_step (rev [10..<m]) v) n"
  using assms
proof (induction m arbitrary: v)
  case (Suc m)
  show ?case
  proof (cases "10 \<le> m")
    case True
    have "\<forall>n \<ge> m. \<not> bit (bch_step m v) n" using True Suc.prems by (intro bch_step_high) auto
    then show ?thesis using Suc.IH [of "bch_step m v"] Suc.prems(1) True by simp
  next
    case False
    then show ?thesis using Suc.prems by simp
  qed
qed simp

lemma bch_divide_high: "\<not> bit v 31 \<Longrightarrow> 10 \<le> n \<Longrightarrow> \<not> bit (bch_divide v) n"
proof -
  assume "\<not> bit v 31" "10 \<le> n"
  then have "\<not> bit v n" if "31 \<le> n" for n
    using bit_imp_le_length [of v n] that by (cases "n = 31") auto
  then show ?thesis using bch_fold_high [of 31 v] \<open>10 \<le> n\<close> by (simp add: bch_divide_def del: upt_Suc)
qed

lemma bch_divide_low:
  assumes "\<forall>n \<ge> 10. \<not> bit v n"
  shows "bch_divide v = v"
proof -
  have h: "fold bch_step bs v = v" if "\<forall>b \<in> set bs. \<not> bit v b" for bs
    using that by (induction bs) (simp_all add: bch_step_def)
  have "\<forall>b \<in> set (rev [10..<31]). \<not> bit v b" unfolding set_rev set_upt using assms by auto
  then show ?thesis unfolding bch_divide_def by (rule h)
qed

lemma mask_10: "(0x3FF :: u32) = mask 10" "(0xFFFFF :: u32) = mask 20" "(0x3FFFF :: u32) = mask 18"
  by (simp_all add: mask_eq_exp_minus_1)

lemma encode_codeword_spec:
  assumes low: "\<forall>n < 11. \<not> bit payload n"
  shows "codeword_valid (encode_codeword payload)" "\<And>n. 11 \<le> n \<Longrightarrow> bit (encode_codeword payload) n = bit payload n"
proof -
  define r where "r = bch_divide (drop_bit 1 payload) AND 0x3FF"
  have top: "\<not> bit (drop_bit 1 payload) 31" using bit_imp_le_length [of payload 32] by (auto simp: bit_drop_bit_eq)
  have r: "r = bch_divide (drop_bit 1 payload)" "\<And>n. 10 \<le> n \<Longrightarrow> \<not> bit r n"
  proof -
    have "bit r n \<longleftrightarrow> bit (bch_divide (drop_bit 1 payload)) n \<and> n < 10" for n
      unfolding r_def mask_10 bit_and_iff bit_mask_iff by auto
    then show "r = bch_divide (drop_bit 1 payload)" "\<And>n. 10 \<le> n \<Longrightarrow> \<not> bit r n"
      using bch_divide_high [OF top] by (auto intro: bit_eqI simp: not_less [symmetric])
  qed
  define w where "w = payload OR push_bit 1 r"
  have w_bit: "bit w n = (if n = 0 then False else if n < 11 then bit r (n - 1) else bit payload n)" for n
    using low r(2) [of "n - 1"] unfolding w_def bit_or_iff bit_push_bit_iff
    by (auto simp: not_less)
  have d: "drop_bit 1 w = drop_bit 1 payload XOR r"
    using low r(2) by (intro bit_eqI) (auto simp: bit_drop_bit_eq w_bit bit_xor_iff not_less)
  have s: "syndrome w = 0"
  proof -
    have "bch_divide (drop_bit 1 w) = bch_divide (drop_bit 1 payload) XOR bch_divide r"
      unfolding d bch_divide_def by (rule fold_bch_xor)
    also have "\<dots> = 0" using bch_divide_low [of r] r by simp
    finally show ?thesis by (simp add: syndrome_def)
  qed
  have e: "encode_codeword payload = (if odd (popcount w) then w OR 1 else w)"
    by (simp add: encode_codeword_def w_def r_def)
  have one: "w OR 1 = w XOR 1" by (rule bit_eqI) (auto simp: bit_or_iff bit_xor_iff bit_1_iff w_bit)
  have "syndrome 1 = 0" "popcount 1 = 1"
  proof -
    show "syndrome 1 = 0" by (simp add: syndrome_def bch_divide_low)
    have "ones 1 = {0}" by (auto simp: ones_def bit_1_iff)
    then show "popcount 1 = 1" by (simp add: popcount_ones)
  qed
  then show "codeword_valid (encode_codeword payload)"
    using s by (auto simp: e one codeword_valid_iff syndrome_xor even_popcount_xor)
  show "bit (encode_codeword payload) n = bit payload n" if "11 \<le> n" for n
    using that by (auto simp: e w_bit bit_or_iff bit_1_iff)
qed

lemma idle_valid: "codeword_valid POCSAG_IDLE_CODEWORD"
  by (simp add: codeword_valid_def POCSAG_IDLE_CODEWORD_def popcount_def bch_divide_def bch_bits bch_step_def
      POCSAG_BCH_GENERATOR_def upt_rec)

section \<open>Words on the wire\<close>

lemma fold_or_bits:
  "bit (fold (\<lambda>x w. w OR push_bit (19 - x) (of_bool (P x))) xs (w0 :: u32)) n
     \<longleftrightarrow> bit w0 n \<or> (\<exists>x \<in> set xs. P x \<and> n = 19 - x \<and> n < 32)"
proof (induction xs arbitrary: w0)
  case (Cons y xs)
  have "bit (push_bit (19 - y) (of_bool (P y)) :: u32) n \<longleftrightarrow> P y \<and> n = 19 - y \<and> n < 32"
    unfolding bit_push_bit_iff by (auto simp: bit_of_bool_iff)
  then show ?case using Cons by (auto simp: bit_or_iff)
qed simp

lemma data_word_bit:
  "bit (message_data_word f t len k) n \<longleftrightarrow> n < 20 \<and> message_bit f t len (k * 20 + (19 - n))"
  unfolding message_data_word_def fold_or_bits
  by (auto intro: bexI [of _ "19 - n"])

lemma append_data_word:
  "append_message_bits d (message_data_word f t len k)
     = fold append_bit (map (message_bit f t len) [k * 20..<k * 20 + 20]) d"
proof -
  have "map (bit (message_data_word f t len k)) (rev [0..<20])
      = map (\<lambda>i. message_bit f t len (k * 20 + (19 - i))) (rev [0..<20])"
    unfolding data_word_bit by (rule map_cong) auto
  also have "\<dots> = map (message_bit f t len) [k * 20..<k * 20 + 20]"
    by (rule nth_equalityI) (auto simp: rev_nth)
  finally have e: "map (bit (message_data_word f t len k)) (rev [0..<20])
      = map (message_bit f t len) [k * 20..<k * 20 + 20]" .
  have "append_message_bits d (message_data_word f t len k)
      = fold append_bit (map (bit (message_data_word f t len k)) (rev [0..<20])) d"
    unfolding append_message_bits_def fold_map comp_def ..
  then show ?thesis unfolding e .
qed

lemma message_word:
  fixes k len :: nat and t :: string and f :: pocsag_format
  defines "w \<equiv> encode_codeword (0x80000000 OR push_bit 11 (message_data_word f t len k))"
  shows "codeword_valid w" "w \<noteq> POCSAG_IDLE_CODEWORD" "w AND 0x80000000 \<noteq> 0"
    "drop_bit 11 w AND 0xFFFFF = message_data_word f t len k"
proof -
  have top: "(0x80000000 :: u32) = push_bit 31 1" by simp
  define p where "p = 0x80000000 OR push_bit 11 (message_data_word f t len k)"
  have p: "bit p n \<longleftrightarrow> n = 31 \<or> 11 \<le> n \<and> n < 31 \<and> bit (message_data_word f t len k) (n - 11)" for n
    unfolding p_def bit_or_iff top bit_push_bit_iff by (auto simp: bit_1_iff data_word_bit)
  have "\<forall>n < 11. \<not> bit p n" by (auto simp: p)
  note e = encode_codeword_spec [OF this, unfolded p_def, folded w_def, folded p_def]
  show "codeword_valid w" by (rule e(1))
  have t: "bit w 31" using e(2) [of 31] by (simp add: p)
  moreover have "\<not> bit POCSAG_IDLE_CODEWORD 31" by (simp add: POCSAG_IDLE_CODEWORD_def)
  ultimately show "w \<noteq> POCSAG_IDLE_CODEWORD" by auto
  have "bit (w AND 0x80000000) 31" using t unfolding bit_and_iff top bit_push_bit_iff by simp
  then show "w AND 0x80000000 \<noteq> 0" by auto
  show "drop_bit 11 w AND 0xFFFFF = message_data_word f t len k"
  proof (rule bit_eqI)
    fix n
    show "bit (drop_bit 11 w AND 0xFFFFF) n = bit (message_data_word f t len k) n"
      unfolding mask_10 bit_and_iff bit_mask_iff bit_drop_bit_eq comp_def
      using e(2) [of "11 + n"] by (auto simp: p data_word_bit)
  qed
qed

lemma address_word:
  fixes ric :: u32 and func :: u8
  assumes ric: "ric \<le> POCSAG_RIC_MAX" and fn: "func \<le> 3"
  defines "w \<equiv> encode_codeword (push_bit 13 (drop_bit 3 ric AND 0x3FFFF) OR push_bit 11 (ucast func))"
  shows "codeword_valid w" "w AND 0x80000000 = 0"
    "push_bit 3 (drop_bit 13 w AND 0x3FFFF) OR of_nat (unat (ric AND 7)) = ric" "ucast (drop_bit 11 w) AND 0x03 = func"
proof -
  have top: "(0x80000000 :: u32) = push_bit 31 1" by simp
  have seven: "(7 :: u32) = mask 3" by (simp add: mask_eq_exp_minus_1)
  have three: "(3 :: u8) = mask 2" by (simp add: mask_eq_exp_minus_1)
  have ric_bit: "n < 21" if "bit ric n" for n
  proof -
    have "take_bit 21 ric = ric"
      using ric by (intro unsigned_word_eqI [where ?'a = nat])
        (simp add: POCSAG_RIC_MAX_def unsigned_take_bit_eq take_bit_nat_eq_self_iff word_le_nat_alt)
    then show ?thesis using that by (metis bit_take_bit_iff)
  qed
  have fn_bit: "n < 2" if "bit func n" for n
  proof -
    have "take_bit 2 func = func"
      using fn by (intro unsigned_word_eqI [where ?'a = nat]) (simp add: unsigned_take_bit_eq take_bit_nat_eq_self_iff word_le_nat_alt)
    then show ?thesis using that by (metis bit_take_bit_iff)
  qed
  define p where "p = push_bit 13 (drop_bit 3 ric AND 0x3FFFF) OR push_bit 11 (ucast func)"
  have p: "bit p n \<longleftrightarrow> 13 \<le> n \<and> n < 31 \<and> bit ric (n - 10) \<or> 11 \<le> n \<and> n < 13 \<and> bit func (n - 11)" for n
  proof -
    have "3 + (n - 13) = n - 10" if "13 \<le> n" using that by simp
    then show ?thesis
      using ric_bit [of "n - 10"] fn_bit [of "n - 11"]
      unfolding p_def bit_or_iff bit_push_bit_iff mask_10 bit_and_iff bit_mask_iff bit_drop_bit_eq comp_def
      by (auto simp: bit_ucast_iff)
  qed
  have "\<forall>n < 11. \<not> bit p n" by (auto simp: p)
  note e = encode_codeword_spec [OF this, unfolded p_def, folded w_def, folded p_def]
  show "codeword_valid w" by (rule e(1))
  show "w AND 0x80000000 = 0"
  proof (rule bit_eqI)
    fix n
    show "bit (w AND 0x80000000) n = bit 0 n"
      using e(2) [of 31] unfolding top bit_and_iff bit_push_bit_iff by (cases "n = 31") (auto simp: bit_1_iff p)
  qed
  show "push_bit 3 (drop_bit 13 w AND 0x3FFFF) OR of_nat (unat (ric AND 7)) = ric"
  proof (rule bit_eqI)
    fix n :: nat
    have "13 + (n - 3) = 10 + n" if "3 \<le> n" using that by simp
    then show "bit (push_bit 3 (drop_bit 13 w AND 0x3FFFF) OR of_nat (unat (ric AND 7))) n = bit ric n"
      using e(2) [of "10 + n"] ric_bit [of n]
      unfolding seven of_nat_unat bit_or_iff bit_push_bit_iff mask_10 bit_ucast_iff bit_and_iff bit_mask_iff
        bit_drop_bit_eq comp_def
      by (cases "3 \<le> n") (auto simp: p)
  qed
  show "ucast (drop_bit 11 w) AND 0x03 = func"
  proof (rule bit_eqI)
    fix n :: nat
    show "bit (ucast (drop_bit 11 w) AND 0x03 :: u8) n = bit func n"
      using e(2) [of "n + 11"] fn_bit [of n]
      unfolding three bit_and_iff bit_mask_iff bit_ucast_iff bit_drop_bit_eq comp_def
      by (auto simp: p add.commute)
  qed
qed

section \<open>Characters\<close>

text \<open>The characters a message may have, and the character the decoder reads from a number.\<close>

definition sendable :: "pocsag_format \<Rightarrow> char \<Rightarrow> bool" where
  "sendable f c \<longleftrightarrow> c \<noteq> CHR 0x00 \<and> (case f of
      POCSAG_FORMAT_ALPHA \<Rightarrow> 0x20 \<le> (of_char c :: nat) \<and> (of_char c :: nat) \<le> 0x7E
    | POCSAG_FORMAT_NUMERIC \<Rightarrow> numeric_symbol c \<noteq> None)"

definition read_symbol :: "pocsag_format \<Rightarrow> u8 \<Rightarrow> char" where
  "read_symbol f s = (if f = POCSAG_FORMAT_NUMERIC then numeric_chars ! unat (s AND 0x0F) else char_of (unat (s AND 0x7F)))"

lemma numeric_symbol_Some:
  assumes "numeric_symbol c = Some s" "c \<noteq> CHR 0x00"
  shows "unat s < 16" "numeric_chars ! unat s = c"
proof -
  obtain i where i: "List.find (\<lambda>i. (numeric_chars @ [CHR 0x00]) ! i = c) [0..<length numeric_chars + 1] = Some i"
    "s = of_nat i" using assms(1) by (auto simp: numeric_symbol_def)
  have len: "length numeric_chars = 16" by (simp add: numeric_chars_def)
  from i(1) have "i < 17" "(numeric_chars @ [CHR 0x00]) ! i = c" by (auto simp: find_Some_iff len)
  moreover from this assms(2) have "i \<noteq> 16" by (auto simp: nth_append len)
  ultimately have "i < 16" "numeric_chars ! i = c" by (auto simp: nth_append len)
  then show "unat s < 16" "numeric_chars ! unat s = c" by (simp_all add: i(2) unat_of_nat)
qed

lemma low_masks: "x AND 0x7F = take_bit 7 x" "x AND 0x0F = take_bit 4 x" for x :: u8
  by (simp_all add: take_bit_eq_mask mask_eq_exp_minus_1)

lemma printable_numeric: "list_all (\<lambda>c. 0x20 \<le> (of_char c :: nat)) numeric_chars"
  by (simp add: numeric_chars_def)

lemma sendable_symbol:
  assumes "sendable f c"
  shows "read_symbol f (char_symbol f c) = c" "0x20 \<le> (of_char c :: nat)"
proof -
  have "read_symbol f (char_symbol f c) = c \<and> 0x20 \<le> (of_char c :: nat)"
  proof (cases f)
    case POCSAG_FORMAT_ALPHA
    then have c: "0x20 \<le> (of_char c :: nat)" "(of_char c :: nat) \<le> 0x7E" using assms by (simp_all add: sendable_def)
    have "unat ((of_nat (of_char c) :: u8) AND 0x7F) = of_char c"
      unfolding low_masks using c(2) by (simp add: unsigned_take_bit_eq unat_of_nat take_bit_nat_eq_self_iff)
    then show ?thesis using c POCSAG_FORMAT_ALPHA by (simp add: read_symbol_def char_symbol_def)
  next
    case POCSAG_FORMAT_NUMERIC
    then obtain s where s: "numeric_symbol c = Some s" using assms by (auto simp: sendable_def)
    have "c \<noteq> CHR 0x00" using assms by (simp add: sendable_def)
    note n = numeric_symbol_Some [OF s this]
    have "unat (s AND 0x0F) = unat s"
      unfolding low_masks using n(1) by (simp add: unsigned_take_bit_eq take_bit_nat_eq_self_iff)
    moreover have "0x20 \<le> (of_char (numeric_chars ! unat s) :: nat)"
      using printable_numeric n(1) by (simp add: list_all_length numeric_chars_def)
    ultimately show ?thesis using n(2) s POCSAG_FORMAT_NUMERIC by (simp add: read_symbol_def char_symbol_def)
  qed
  then show "read_symbol f (char_symbol f c) = c" "0x20 \<le> (of_char c :: nat)" by simp_all
qed

lemma append_character_state:
  "append_character (d\<lparr>pd_character := a, pd_character_bits := n\<rparr>) c
     = (append_character d c)\<lparr>pd_character := a, pd_character_bits := n\<rparr>"
  by (simp add: append_character_def)

lemma feed_prefix:
  assumes d: "pd_character d = 0" "pd_character_bits d = 0"
  shows "k < pocsag_width (pd_format d) \<Longrightarrow>
    fold append_bit (map (bit s) [0..<k]) d = d\<lparr>pd_character := take_bit k s, pd_character_bits := k\<rparr>"
proof (induction k)
  case 0
  show ?case using d by simp
next
  case (Suc k)
  have "take_bit k s OR push_bit k (of_bool (bit s k)) = take_bit (Suc k) s"
    by (rule bit_eqI) (auto simp: bit_or_iff bit_push_bit_iff bit_take_bit_iff bit_of_bool_iff less_Suc_eq dest: bit_imp_le_length)
  then show ?case using Suc
    by (simp add: append_bit_def pocsag_width_def Let_def split: if_splits)
qed

lemma feed_char:
  assumes d: "pd_character d = 0" "pd_character_bits d = 0" and f: "pd_format d = f"
  shows "fold append_bit (map (bit s) [0..<pocsag_width f]) d = append_character d (read_symbol f s)"
proof -
  have "0 < pocsag_width f" by (simp add: pocsag_width_def)
  then obtain k where k: "pocsag_width f = Suc k" using gr0_implies_Suc by blast
  have full: "take_bit k s OR push_bit k (of_bool (bit s k)) = take_bit (Suc k) s"
    by (rule bit_eqI) (auto simp: bit_or_iff bit_push_bit_iff bit_take_bit_iff bit_of_bool_iff less_Suc_eq dest: bit_imp_le_length)
  have m: "take_bit 4 s AND 0x0F = s AND 0x0F" "take_bit 7 s AND 0x7F = s AND 0x7F"
    unfolding low_masks by simp_all
  have "fold append_bit (map (bit s) [0..<pocsag_width f]) d
      = append_bit (bit s k) (d\<lparr>pd_character := take_bit k s, pd_character_bits := k\<rparr>)"
    using feed_prefix [OF d, of k s] f by (simp add: k)
  also have "\<dots> = (append_character d (read_symbol f s))\<lparr>pd_character := 0, pd_character_bits := 0\<rparr>"
    using k f m full
    by (cases f) (simp_all add: append_bit_def Let_def append_character_state read_symbol_def pocsag_width_def numeral_eq_Suc)
  also have "\<dots> = append_character d (read_symbol f s)" using d by (simp add: append_character_def)
  finally show ?thesis .
qed

section \<open>The text of a message\<close>

text \<open>A decoder between two characters that has collected a text.\<close>

definition with_text :: "pocsag_decoder \<Rightarrow> string \<Rightarrow> pocsag_decoder" where
  "with_text d t = d\<lparr>pd_message := (pd_message d)\<lparr>pm_text := t\<rparr>, pd_text_len := length t\<rparr>"

definition has_text :: "pocsag_decoder \<Rightarrow> string \<Rightarrow> bool" where
  "has_text d t \<longleftrightarrow> pm_text (pd_message d) = t \<and> pd_text_len d = length t
     \<and> pd_character d = 0 \<and> pd_character_bits d = 0"

lemma with_text_simps [simp]:
  "has_text (with_text d t) t \<longleftrightarrow> pd_character d = 0 \<and> pd_character_bits d = 0"
  "with_text (with_text d t) u = with_text d u" "pd_format (with_text d t) = pd_format d"
  "pd_character (with_text d t) = pd_character d" "pd_character_bits (with_text d t) = pd_character_bits d"
  by (simp_all add: has_text_def with_text_def)

lemma with_own_text: "has_text d t \<Longrightarrow> with_text d t = d"
  by (simp add: has_text_def with_text_def)

lemma append_printable:
  assumes "has_text d t" "0x20 \<le> (of_char c :: nat)"
  shows "append_character d c = (if length t < 255 then with_text d (t @ [c])
     else d\<lparr>pd_message := (pd_message d)\<lparr>pm_truncated := True\<rparr>\<rparr>)"
proof -
  have "c \<noteq> CHR 0x00" "c \<noteq> CHR 0x03" "c \<noteq> CHR 0x04" using assms(2) by auto
  then show ?thesis using assms by (simp add: append_character_def has_text_def with_text_def POCSAG_TEXT_MAX_def)
qed

lemma feed_text:
  assumes "has_text d t" "pd_format d = f" "\<forall>c \<in> set txt. sendable f c" "length t + length txt \<le> 255"
  shows "fold append_bit (concat (map (\<lambda>c. map (bit (char_symbol f c)) [0..<pocsag_width f]) txt)) d
     = with_text d (t @ txt)"
  using assms
proof (induction "txt" arbitrary: d t)
  case Nil
  then show ?case by (simp add: with_own_text)
next
  case (Cons c cs)
  have c: "sendable f c" using Cons.prems(3) by simp
  have z: "pd_character d = 0" "pd_character_bits d = 0" using Cons.prems(1) by (simp_all add: has_text_def)
  have "fold append_bit (map (bit (char_symbol f c)) [0..<pocsag_width f]) d = with_text d (t @ [c])"
    using feed_char [OF z Cons.prems(2), of "char_symbol f c"] sendable_symbol [OF c]
      append_printable [OF Cons.prems(1), of c] Cons.prems(4) by simp
  then show ?case using Cons.IH [of "with_text d (t @ [c])" "t @ [c]"] Cons.prems z by simp
qed

lemma message_bits_text:
  assumes "k \<le> length txt"
  shows "map (message_bit f txt (length txt)) [0..<k * pocsag_width f]
     = concat (map (\<lambda>c. map (bit (char_symbol f c)) [0..<pocsag_width f]) (take k txt))"
  using assms
proof (induction k)
  case (Suc k)
  let ?w = "pocsag_width f"
  have w: "0 < ?w" by (simp add: pocsag_width_def)
  have "message_bit f txt (length txt) (k * ?w + j) = bit (char_symbol f (txt ! k)) j" if "j < ?w" for j
  proof -
    have "k * ?w + j < Suc k * ?w" using that by simp
    also have "\<dots> \<le> length txt * ?w" using Suc.prems by (intro mult_le_mono1) simp
    finally have "k * ?w + j < length txt * ?w" .
    moreover have "(k * ?w + j) div ?w = k" "(k * ?w + j) mod ?w = j" using that by simp_all
    ultimately show ?thesis by (simp add: message_bit_def Let_def)
  qed
  then have "map (message_bit f txt (length txt)) [k * ?w..<k * ?w + ?w]
      = map (bit (char_symbol f (txt ! k))) [0..<?w]"
    by (intro nth_equalityI) auto
  moreover have "[0..<Suc k * ?w] = [0..<k * ?w] @ [k * ?w..<k * ?w + ?w]"
  proof -
    have "Suc k * ?w = k * ?w + ?w" by simp
    then show ?thesis by (simp only: upt_add_eq_append [OF le0])
  qed
  moreover have "take (Suc k) txt = take k txt @ [txt ! k]" using Suc.prems by (simp add: take_Suc_conv_app_nth)
  ultimately show ?case using Suc by simp
qed simp

subsection \<open>Padding\<close>

definition padding :: "pocsag_format \<Rightarrow> u8" where
  "padding f = (if f = POCSAG_FORMAT_NUMERIC then 12 else 0x20)"

lemma padding_blank: "read_symbol f (padding f) = CHR '' ''"
proof -
  have "char_of (of_char (CHR '' '') :: nat) = CHR '' ''" by (rule char_of_char)
  then have "char_of (32 :: nat) = CHR '' ''" by simp
  then show ?thesis by (cases f) (simp_all add: read_symbol_def padding_def numeric_chars_def low_masks)
qed

lemma message_bits_padding:
  "map (message_bit f txt len) [len * pocsag_width f..<len * pocsag_width f + n]
     = map (\<lambda>j. bit (padding f) (j mod pocsag_width f)) [0..<n]"
  by (rule nth_equalityI) (auto simp: message_bit_def padding_def Let_def)

text \<open>Blanks at the end, as far as there is room; one too many sets the flag for a lost character.\<close>

definition padded :: "pocsag_decoder \<Rightarrow> string \<Rightarrow> nat \<Rightarrow> u8 \<Rightarrow> nat \<Rightarrow> pocsag_decoder" where
  "padded d t q a n = (let blanks = replicate (min q (255 - length t)) (CHR '' '')
     in (with_text d (t @ blanks))
       \<lparr>pd_message := (pd_message d)\<lparr>pm_text := t @ blanks,
            pm_truncated := (pm_truncated (pd_message d) \<or> 255 < length t + q)\<rparr>,
        pd_character := a, pd_character_bits := n\<rparr>)"

lemma padded_0: "has_text d t \<Longrightarrow> length t \<le> 255 \<Longrightarrow> padded d t 0 a n = d\<lparr>pd_character := a, pd_character_bits := n\<rparr>"
  by (simp add: padded_def with_text_def has_text_def)

lemma padded_Suc:
  assumes "has_text d t" "length t \<le> 255"
  shows "padded d t (Suc q) a n = (if length t < 255 then padded (append_character d (CHR '' '')) (t @ [CHR '' '']) q a n
     else padded (append_character d (CHR '' '')) t q a n)"
proof -
  have "0x20 \<le> (of_char (CHR '' '') :: nat)" by simp
  note e = append_printable [OF assms(1) this]
  show ?thesis
  proof (cases "length t < 255")
    case True
    then have "min (Suc q) (255 - length t) = Suc (min q (255 - length (t @ [CHR '' ''])))" by simp
    then show ?thesis using True by (simp add: e padded_def with_text_def Let_def)
  next
    case False
    then show ?thesis using assms(2) by (simp add: e padded_def with_text_def Let_def)
  qed
qed

lemma feed_padding:
  assumes "has_text d t" "pd_format d = f" "length t \<le> 255" "r < pocsag_width f"
  shows "\<exists>a n. fold append_bit (map (\<lambda>j. bit (padding f) (j mod pocsag_width f)) [0..<q * pocsag_width f + r]) d
     = padded d t q a n"
  using assms
proof (induction q arbitrary: d t)
  case 0
  have e: "map (\<lambda>j. bit (padding f) (j mod pocsag_width f)) [0..<r] = map (bit (padding f)) [0..<r]"
    by (rule map_cong) (use 0 in auto)
  have z: "pd_character d = 0" "pd_character_bits d = 0" using 0 by (simp_all add: has_text_def)
  have "fold append_bit (map (\<lambda>j. bit (padding f) (j mod pocsag_width f)) [0..<0 * pocsag_width f + r]) d
      = d\<lparr>pd_character := take_bit r (padding f), pd_character_bits := r\<rparr>"
    using feed_prefix [OF z, of r "padding f"] 0 unfolding mult_0 add_0 e by simp
  then show ?case using padded_0 [OF 0(1,3)] by metis
next
  case (Suc q)
  let ?w = "pocsag_width f"
  have z: "pd_character d = 0" "pd_character_bits d = 0" using Suc.prems(1) by (simp_all add: has_text_def)
  have split: "map (\<lambda>j. bit (padding f) (j mod ?w)) [0..<Suc q * ?w + r]
      = map (bit (padding f)) [0..<?w] @ map (\<lambda>j. bit (padding f) (j mod ?w)) [0..<q * ?w + r]"
  proof -
    have "map (\<lambda>j. bit (padding f) (j mod ?w)) [0..<?w + n]
      = map (bit (padding f)) [0..<?w] @ map (\<lambda>j. bit (padding f) (j mod ?w)) [0..<n]" for n
      by (rule nth_equalityI) (auto simp: nth_append le_mod_geq)
    from this [of "q * ?w + r"] show ?thesis by (simp add: add.assoc)
  qed
  have first: "fold append_bit (map (bit (padding f)) [0..<?w]) d = append_character d (CHR '' '')"
    using feed_char [OF z Suc.prems(2), of "padding f"] by (simp add: padding_blank)
  have "0x20 \<le> (of_char (CHR '' '') :: nat)" by simp
  note e = append_printable [OF Suc.prems(1) this]
  define u where "u = (if length t < 255 then t @ [CHR '' ''] else t)"
  have "has_text (append_character d (CHR '' '')) u" "pd_format (append_character d (CHR '' '')) = f" "length u \<le> 255"
    using Suc.prems z by (simp_all add: e u_def has_text_def with_text_def)
  from Suc.IH [OF this Suc.prems(4)] show ?case
    unfolding split fold_append comp_def first padded_Suc [OF Suc.prems(1,3)] u_def by (auto split: if_splits)
qed

end
