(* ===== verification/PocsagReceive.thy ===== *)
theory PocsagReceive
  imports PocsagMessage
begin

text \<open>
  The way of a whole transmission: the words of the payload of \<open>solar_os_pocsag_encode_payload\<close>,
  received with noise, go through \<open>solar_os_pocsag_decode_batch\<close> batch by batch, without the
  synchronisation word between the batches, and \<open>solar_os_pocsag_decoder_flush\<close> ends the reception.
\<close>

unbundle bit_operations_syntax

section \<open>The end of a message\<close>

definition strip_blanks :: "string \<Rightarrow> string" where
  "strip_blanks t = rev (dropWhile (\<lambda>c. c = CHR '' '') (rev t))"

lemma strip_blanks_simps [simp]:
  "strip_blanks [] = []"
  "strip_blanks (t @ [CHR '' '']) = strip_blanks t" "c \<noteq> CHR '' '' \<Longrightarrow> strip_blanks (t @ [c]) = t @ [c]"
  by (simp_all add: strip_blanks_def)

lemma strip_blanks_padded: "strip_blanks (t @ replicate k (CHR '' '')) = strip_blanks t"
proof (induction k)
  case (Suc k)
  have "t @ replicate (Suc k) (CHR '' '') = (t @ replicate k (CHR '' '')) @ [CHR '' '']"
    by (simp flip: replicate_append_same)
  then show ?case using Suc by (simp only: strip_blanks_simps(2))
qed simp

lemma trim_message_text:
  assumes "pm_text (pd_message d) = t" "pd_text_len d = length t" "CHR 0x0A \<notin> set t" "CHR 0x0D \<notin> set t"
  shows "trim_message d = with_text d (strip_blanks t)"
  using assms
proof (induction t arbitrary: d rule: rev_induct)
  case Nil
  then have "trim_message d = d" by (subst trim_message.simps) simp
  then show ?case using Nil by (simp add: with_text_def)
next
  case (snoc c t)
  show ?case
  proof (cases "c = CHR '' ''")
    case True
    have "trim_message d = trim_message (with_text d t)"
      using snoc.prems True by (subst trim_message.simps) (simp add: with_text_def)
    moreover have "trim_message (with_text d t) = with_text (with_text d t) (strip_blanks t)"
      using snoc.prems by (intro snoc.IH) (simp_all add: with_text_def)
    ultimately show ?thesis using True by simp
  next
    case False
    have "trim_message d = d"
      using snoc.prems False by (subst trim_message.simps) auto
    moreover have "with_text d (t @ [c]) = d" using snoc.prems by (simp add: with_text_def)
    ultimately show ?thesis using False by simp
  qed
qed

section \<open>One received word\<close>

text \<open>A decoder up to the number of corrected words.\<close>

definition clean :: "pocsag_decoder \<Rightarrow> pocsag_decoder" where
  "clean d = d\<lparr>pd_message := (pd_message d)\<lparr>pm_corrected_codewords := 0\<rparr>\<rparr>"

lemma clean_fields [simp]:
  "pd_active (clean d) = pd_active d" "pd_format (clean d) = pd_format d" "pd_text_len (clean d) = pd_text_len d"
  "pd_target_ric (clean d) = pd_target_ric d" "pm_text (pd_message (clean d)) = pm_text (pd_message d)"
  "clean (clean d) = clean d"
  by (simp_all add: clean_def)

lemma clean_append: "clean (append_bit b d) = append_bit b (clean d)"
  by (simp add: append_bit_def append_character_def clean_def Let_def)

lemma clean_fold: "clean (fold append_bit bs d) = fold append_bit bs (clean d)"
  by (induction bs arbitrary: d) (simp_all add: clean_append)

lemma append_bit_active: "pd_active (append_bit b d) = pd_active d"
  by (simp add: append_bit_def append_character_def Let_def)

lemma fold_append_active: "pd_active (fold append_bit bs d) = pd_active d"
  by (induction bs arbitrary: d) (simp_all add: append_bit_active)

lemma decode_idle:
  assumes "popcount (received XOR POCSAG_IDLE_CODEWORD) \<le> 2" "\<not> pd_active d"
  shows "decode_codeword rssi cb i received d = (0, [], d)"
  using correct_codeword_corrects [OF idle_valid assms(1)] assms(2)
  by (auto simp: decode_codeword_def finish_message_def)

lemma decode_idle_active:
  assumes "popcount (received XOR POCSAG_IDLE_CODEWORD) \<le> 2" "pd_active d"
  shows "\<exists>d1. clean d1 = clean d \<and> decode_codeword rssi cb i received d
     = (let (emitted, msgs, d2) = finish_message d1 cb in (of_bool emitted, msgs, d2))"
proof -
  obtain n where n: "correct_codeword received = Some (POCSAG_IDLE_CODEWORD, n)"
    using correct_codeword_corrects [OF idle_valid assms(1)] by blast
  define d1 where "d1 = (if pd_active d \<and> 0 < n
      then d\<lparr>pd_message := (pd_message d)\<lparr>pm_corrected_codewords := pm_corrected_codewords (pd_message d) + 1\<rparr>\<rparr> else d)"
  have "clean d1 = clean d" by (simp add: d1_def clean_def)
  moreover have "decode_codeword rssi cb i received d
     = (let (emitted, msgs, d2) = finish_message d1 cb in (of_bool emitted, msgs, d2))"
    by (simp add: decode_codeword_def n d1_def Let_def)
  ultimately show ?thesis by blast
qed

lemma decode_address:
  fixes ric :: u32 and func :: u8
  defines "w \<equiv> encode_codeword (push_bit 13 (drop_bit 3 ric AND 0x3FFFF) OR push_bit 11 (ucast func))"
  assumes ric: "ric \<le> POCSAG_RIC_MAX" "func \<le> 3" and idle: "w \<noteq> POCSAG_IDLE_CODEWORD"
    and noise: "popcount (received XOR w) \<le> 2" and i: "i div 2 = unat (ric AND 7)"
    and d: "\<not> pd_active d" "pd_target_ric d = 0 \<or> pd_target_ric d = ric"
  shows "\<exists>d'. decode_codeword rssi cb i received d = (0, [], d') \<and> clean d' = begin_message d ric func rssi"
proof -
  note a = address_word [OF ric, folded w_def]
  obtain n where n: "correct_codeword received = Some (w, n)"
    using correct_codeword_corrects [OF a(1) noise] by blast
  have "decode_codeword rssi cb i received d = (0, [], (begin_message d ric func rssi)
      \<lparr>pd_message := (pd_message (begin_message d ric func rssi))\<lparr>pm_corrected_codewords := (if 0 < n then 1 else 0)\<rparr>\<rparr>)"
  proof -
    have r: "push_bit 3 (drop_bit 13 w AND 0x3FFFF) OR of_nat (i div 2) = ric" by (simp only: i a(3))
    show ?thesis
      unfolding decode_codeword_def n option.case prod.case Let_def r a(4)
      using idle d a(2) by (auto simp: finish_message_def)
  qed
  moreover have "clean ((begin_message d ric func rssi)
      \<lparr>pd_message := (pd_message (begin_message d ric func rssi))\<lparr>pm_corrected_codewords := c\<rparr>\<rparr>)
      = begin_message d ric func rssi" for c
    by (simp add: clean_def begin_message_def pocsag_message_zero_def)
  ultimately show ?thesis by blast
qed

lemma decode_message_word:
  fixes k len :: nat and t :: string and f :: pocsag_format
  assumes noise: "popcount (received XOR encode_codeword (0x80000000 OR push_bit 11 (message_data_word f t len k))) \<le> 2"
    and d: "pd_active d"
  shows "\<exists>d'. decode_codeword rssi cb i received d = (0, [], d') \<and> pd_active d'
     \<and> clean d' = fold append_bit (map (message_bit f t len) [k * 20..<k * 20 + 20]) (clean d)"
proof -
  note m = message_word [of f t len k]
  obtain n where n: "correct_codeword received
      = Some (encode_codeword (0x80000000 OR push_bit 11 (message_data_word f t len k)), n)"
    using correct_codeword_corrects [OF m(1) noise] by blast
  define d1 where "d1 = (if pd_active d \<and> 0 < n
      then d\<lparr>pd_message := (pd_message d)\<lparr>pm_corrected_codewords := pm_corrected_codewords (pd_message d) + 1\<rparr>\<rparr> else d)"
  have d1: "clean d1 = clean d" "pd_active d1" using d by (simp_all add: d1_def clean_def)
  have "decode_codeword rssi cb i received d = (0, [], append_message_bits d1 (message_data_word f t len k))"
    using m(2,3) d1(2) by (simp add: decode_codeword_def n d1_def [symmetric] m(4) Let_def)
  then show ?thesis
    using d1 by (simp add: append_data_word clean_fold fold_append_active)
qed

section \<open>A sequence of words\<close>

primrec receive_words ::
  "int \<Rightarrow> bool \<Rightarrow> (nat \<times> u32) list \<Rightarrow> pocsag_decoder \<Rightarrow> nat \<times> pocsag_message list \<times> pocsag_decoder" where
  "receive_words rssi cb [] d = (0, [], d)"
| "receive_words rssi cb (x # xs) d =
     (let (n1, msgs1, d1) = decode_codeword rssi cb (fst x) (snd x) d; (n2, msgs2, d2) = receive_words rssi cb xs d1
      in (n1 + n2, msgs1 @ msgs2, d2))"

lemma receive_words_append:
  "receive_words rssi cb (xs @ ys) d =
     (let (n1, msgs1, d1) = receive_words rssi cb xs d; (n2, msgs2, d2) = receive_words rssi cb ys d1
      in (n1 + n2, msgs1 @ msgs2, d2))"
  by (induction xs arbitrary: d) (simp_all add: Let_def split: prod.splits)

lemma fold_receive:
  "fold (\<lambda>index (n, msgs, d). let (n1, msgs1, d1) = decode_codeword rssi cb index (w index) d
      in (n + n1, msgs @ msgs1, d1)) is (n, msgs, d)
   = (let (n1, msgs1, d1) = receive_words rssi cb (map (\<lambda>i. (i, w i)) is) d in (n + n1, msgs @ msgs1, d1))"
  by (induction "is" arbitrary: n msgs d) (simp_all add: Let_def split: prod.splits)

definition slot_word :: "u8 list \<Rightarrow> nat \<Rightarrow> u32" where
  "slot_word bytes slot = read_word (take 4 (drop (slot * 4) bytes))"

lemma decode_batch_words:
  "solar_os_pocsag_decode_batch (Some d) (Some bytes) POCSAG_BATCH_BYTES rssi cb =
     (let (n, msgs, d1) = receive_words rssi cb (map (\<lambda>i. (i, slot_word bytes i)) [0..<16]) d in (n, msgs, Some d1))"
proof -
  have "POCSAG_BATCH_BYTES div 4 = 16" by (simp add: POCSAG_BATCH_BYTES_def)
  then show ?thesis
    unfolding solar_os_pocsag_decode_batch_def prod.case option.case slot_word_def fold_receive
    by (simp add: Let_def del: upt_Suc split: prod.splits)
qed

lemma receive_idle:
  assumes "\<forall>x \<in> set ws. popcount (snd x XOR POCSAG_IDLE_CODEWORD) \<le> 2" "\<not> pd_active d"
  shows "receive_words rssi cb ws d = (0, [], d)"
  using assms by (induction ws) (simp_all add: decode_idle)

text \<open>Idle words after a message end it, and so does the end of the reception.\<close>

lemma receive_end:
  assumes "\<forall>x \<in> set ws. popcount (snd x XOR POCSAG_IDLE_CODEWORD) \<le> 2" "pd_active d"
  shows "\<exists>d1 n2 msgs2 d2 e msgs3 d3. clean d1 = clean d \<and> receive_words rssi cb ws d = (n2, msgs2, d2)
     \<and> finish_message d2 cb = (e, msgs3, d3) \<and> msgs2 @ msgs3 = fst (snd (finish_message d1 cb))"
proof (cases ws)
  case Nil
  then show ?thesis by (cases "finish_message d cb") auto
next
  case (Cons x xs)
  obtain d1 where d1: "clean d1 = clean d" "decode_codeword rssi cb (fst x) (snd x) d
     = (let (emitted, msgs, d2) = finish_message d1 cb in (of_bool emitted, msgs, d2))"
    using decode_idle_active [of "snd x" d rssi cb "fst x"] assms Cons by auto
  obtain e msgs d2 where f: "finish_message d1 cb = (e, msgs, d2)" by (cases "finish_message d1 cb")
  have inactive: "\<not> pd_active d2" using f by (auto simp: finish_message_def Let_def split: if_splits)
  then have "receive_words rssi cb xs d2 = (0, [], d2)" using assms(1) Cons by (intro receive_idle) auto
  then have "receive_words rssi cb ws d = (of_bool e, msgs, d2)" by (simp add: Cons d1(2) f Let_def)
  moreover have "finish_message d2 cb = (False, [], d2)" using inactive by (simp add: finish_message_def)
  ultimately show ?thesis using d1(1) f by auto
qed

lemma receive_message:
  fixes k0 len :: nat and t :: string and f :: pocsag_format
  assumes "\<forall>k < n. popcount (w k XOR encode_codeword (0x80000000 OR push_bit 11 (message_data_word f t len k))) \<le> 2"
    and d: "pd_active d"
  shows "\<exists>d'. receive_words rssi cb (map (\<lambda>k. (i k, w k)) [0..<n]) d = (0, [], d') \<and> pd_active d'
     \<and> clean d' = fold append_bit (map (message_bit f t len) [0..<n * 20]) (clean d)"
  using assms(1)
proof (induction n)
  case 0
  then show ?case using d by simp
next
  case (Suc n)
  then obtain d1 where d1: "receive_words rssi cb (map (\<lambda>k. (i k, w k)) [0..<n]) d = (0, [], d1)" "pd_active d1"
    "clean d1 = fold append_bit (map (message_bit f t len) [0..<n * 20]) (clean d)" by auto
  obtain d2 where d2: "decode_codeword rssi cb (i n) (w n) d1 = (0, [], d2)" "pd_active d2"
    "clean d2 = fold append_bit (map (message_bit f t len) [n * 20..<n * 20 + 20]) (clean d1)"
    using decode_message_word [of "w n" f t len n d1 rssi cb "i n"] Suc.prems d1(2) by auto
  have "[0..<Suc n * 20] = [0..<n * 20] @ [n * 20..<n * 20 + 20]"
    using upt_add_eq_append [of 0 "n * 20" 20] by (simp add: add.commute)
  then have "clean d2 = fold append_bit (map (message_bit f t len) [0..<Suc n * 20]) (clean d)"
    by (simp only: map_append fold_append comp_def d2(3) d1(3))
  then show ?case using d1 d2 by (simp add: receive_words_append Let_def)
qed

text \<open>
  The padding makes a character too many only after 255 characters of seven bits, and then the last
  blank does not fit.
\<close>

lemma padding_overflow:
  assumes "len \<le> 255" "n = (len * pocsag_width f + 19) div 20"
  shows "255 < len + (n * 20 - len * pocsag_width f) div pocsag_width f \<longleftrightarrow> f = POCSAG_FORMAT_ALPHA \<and> len = 255"
proof -
  define rest where "rest = n * 20 - len * pocsag_width f"
  have "rest < 20" unfolding rest_def assms(2) by linarith
  then have few: "rest div pocsag_width f < 5" by (cases f) (simp_all add: pocsag_width_def)
  show ?thesis
  proof (cases "len < 251")
    case True
    then show ?thesis using few by (simp add: rest_def)
  next
    case False
    then have "len \<in> {251, 252, 253, 254, 255}" using assms(1) by auto
    then show ?thesis by (cases f) (auto simp: assms(2) pocsag_width_def)
  qed
qed

text \<open>The message that ends holds the text sent, up to its trailing blanks.\<close>

lemma message_end:
  assumes d: "clean d = fold append_bit (map (message_bit f t (length t)) [0..<n * 20]) d0" "pd_active d"
    and d0: "has_text d0 []" "pd_format d0 = f" and t: "\<forall>c \<in> set t. sendable f c" "length t \<le> 255"
    and n: "n = (length t * pocsag_width f + 19) div 20"
  shows "\<exists>c. fst (snd (finish_message d True)) = (if strip_blanks t = [] then []
      else [(pd_message d0)\<lparr>pm_corrected_codewords := c,
              pm_truncated := (pm_truncated (pd_message d0) \<or> f = POCSAG_FORMAT_ALPHA \<and> length t = 255),
              pm_text := strip_blanks t\<rparr>])"
proof -
  let ?w = "pocsag_width f"
  have w: "0 < ?w" by (simp add: pocsag_width_def)
  define rest where "rest = n * 20 - length t * ?w"
  define q where "q = rest div ?w"
  have "length t * ?w \<le> n * 20" unfolding n by linarith
  then have bits: "n * 20 = length t * ?w + rest" by (simp add: rest_def)
  have rest: "rest = q * ?w + rest mod ?w" by (simp add: q_def)
  have "map (message_bit f t (length t)) [0..<n * 20]
      = concat (map (\<lambda>c. map (bit (char_symbol f c)) [0..<?w]) t)
        @ map (\<lambda>j. bit (padding f) (j mod ?w)) [0..<rest]"
    unfolding bits upt_add_eq_append [OF le0] map_append message_bits_padding
    using message_bits_text [of "length t" t f] by simp
  moreover have "fold append_bit (concat (map (\<lambda>c. map (bit (char_symbol f c)) [0..<?w]) t)) d0 = with_text d0 t"
    using feed_text [OF d0 t(1)] t(2) by simp
  moreover have "has_text (with_text d0 t) t" using d0(1) by (simp add: has_text_def with_text_def)
  then have "\<exists>a m. fold append_bit (map (\<lambda>j. bit (padding f) (j mod ?w)) [0..<q * ?w + rest mod ?w]) (with_text d0 t)
      = padded (with_text d0 t) t q a m"
    using d0(2) t(2) w by (intro feed_padding) simp_all
  ultimately obtain a m where p: "clean d = padded (with_text d0 t) t q a m" using d(1) rest by auto
  define tr where "tr = (pm_truncated (pd_message d0) \<or> f = POCSAG_FORMAT_ALPHA \<and> length t = 255)"
  have tr: "(pm_truncated (pd_message d0) \<or> 255 < length t + q) = tr"
    using padding_overflow [OF t(2) n] by (simp add: tr_def q_def rest_def)
  define blanks where "blanks = replicate (min q (255 - length t)) (CHR '' '')"
  have k: "clean d = (with_text d0 (t @ blanks))\<lparr>pd_message := (pd_message d0)\<lparr>pm_text := t @ blanks, pm_truncated := tr\<rparr>,
        pd_character := a, pd_character_bits := m\<rparr>"
    unfolding p padded_def Let_def blanks_def [symmetric] by (simp add: with_text_def tr)
  have texts: "pm_text (pd_message d) = t @ blanks" "pd_text_len d = length (t @ blanks)"
    using arg_cong [OF k, of "\<lambda>d. pm_text (pd_message d)"] arg_cong [OF k, of pd_text_len]
    by (simp_all add: with_text_def)
  have "0x20 \<le> (of_char c :: nat)" if "c \<in> set t" for c using t(1) that sendable_symbol by blast
  then have "CHR 0x0A \<notin> set (t @ blanks)" "CHR 0x0D \<notin> set (t @ blanks)"
    by (fastforce simp: blanks_def)+
  from trim_message_text [OF texts this] have trim: "trim_message d = with_text d (strip_blanks t)"
    by (simp add: strip_blanks_padded blanks_def)
  have "(pd_message d)\<lparr>pm_corrected_codewords := 0\<rparr> = pd_message (clean d)" by (simp add: clean_def)
  also have "\<dots> = (pd_message d0)\<lparr>pm_text := t @ blanks, pm_truncated := tr\<rparr>" by (simp add: k)
  finally have "(pd_message d)\<lparr>pm_corrected_codewords := 0, pm_text := strip_blanks t\<rparr>
      = (pd_message d0)\<lparr>pm_text := strip_blanks t, pm_truncated := tr\<rparr>" by simp
  from arg_cong [OF this, of "pm_corrected_codewords_update (\<lambda>_. pm_corrected_codewords (pd_message d))"]
  have m: "(pd_message d)\<lparr>pm_text := strip_blanks t\<rparr> = (pd_message d0)\<lparr>pm_corrected_codewords :=
      pm_corrected_codewords (pd_message d), pm_truncated := tr, pm_text := strip_blanks t\<rparr>" by simp
  have "fst (snd (finish_message d True)) = (if strip_blanks t = [] then [] else [(pd_message d)\<lparr>pm_text := strip_blanks t\<rparr>])"
    using d(2) by (simp add: finish_message_def trim with_text_def Let_def)
  then show ?thesis unfolding m tr_def by blast
qed

section \<open>The words of a payload\<close>

lemma read_write_word: "read_word (write_word w) = w"
proof (rule bit_eqI)
  fix n :: nat
  consider "n < 8" | "8 \<le> n" "n < 16" | "16 \<le> n" "n < 24" | "24 \<le> n" "n < 32" | "32 \<le> n" by linarith
  then show "bit (read_word (write_word w)) n = bit w n"
    unfolding read_word_def write_word_def bit_or_iff bit_push_bit_iff
    by cases (auto simp: bit_ucast_iff bit_drop_bit_eq dest: bit_imp_le_length)
qed

lemma write_words_length: "length (concat (map (\<lambda>s. write_word (g s)) xs)) = 4 * length xs"
  by (induction xs) (simp_all add: write_word_def)

lemma upt_split:
  assumes "s < m"
  shows "[0..<m] = [0..<s] @ s # [Suc s..<m]"
proof -
  have "[0..<s + (m - s)] = [0..<s] @ [s..<s + (m - s)]" by (rule upt_add_eq_append) simp
  then show ?thesis using assms by (simp add: upt_conv_Cons)
qed

lemma nth_written_word:
  assumes "s < m"
  shows "take 4 (drop (s * 4) (concat (map (\<lambda>s. write_word (g s)) [0..<m]))) = write_word (g s)"
proof -
  have "[0..<m] = [0..<s] @ s # [Suc s..<m]"
    by (rule upt_split [OF assms])
  then have "concat (map (\<lambda>s. write_word (g s)) [0..<m]) = concat (map (\<lambda>s. write_word (g s)) [0..<s])
      @ write_word (g s) @ concat (map (\<lambda>s. write_word (g s)) [Suc s..<m])" by simp
  moreover have "length (concat (map (\<lambda>s. write_word (g s)) [0..<s])) = s * 4" by (simp add: write_words_length)
  moreover have "length (write_word (g s)) = 4" by (simp add: write_word_def)
  ultimately show ?thesis by simp
qed

text \<open>The bytes of a batch: the first one starts the payload, the others follow a synchronisation word.\<close>

definition batch_of :: "u8 list \<Rightarrow> nat \<Rightarrow> u8 list" where
  "batch_of bytes b = take POCSAG_BATCH_BYTES (drop (b * (POCSAG_BATCH_BYTES + 4)) bytes)"

lemma batch_of_payload:
  assumes chunk: "\<And>b. chunk b = (if 0 < b then write_word sync else []) @ concat (map (\<lambda>s. write_word (g (b * 16 + s))) [0..<16])"
    and b: "b < n" and s: "s < 16"
  shows "slot_word (batch_of (concat (map chunk [0..<n])) b) s = g (b * 16 + s)"
proof -
  define ws where "ws = concat (map (\<lambda>s. write_word (g (b * 16 + s))) [0..<16])"
  have ws: "length ws = 64" by (simp add: ws_def write_words_length)
  have len: "length (concat (map chunk [0..<b])) = b * 68 - (if 0 < b then 4 else 0)" for b
  proof (induction b)
    case (Suc b)
    have "length (write_word sync) = 4" by (simp add: write_word_def)
    then have "length (chunk b) = (if 0 < b then 68 else 64)" by (simp add: chunk write_words_length)
    then show ?case using Suc by (cases b) simp_all
  qed simp
  have "[0..<n] = [0..<b] @ b # [Suc b..<n]"
    by (rule upt_split [OF b])
  then have "concat (map chunk [0..<n]) = concat (map chunk [0..<b]) @ chunk b @ concat (map chunk [Suc b..<n])" by simp
  also have "\<dots> = (concat (map chunk [0..<b]) @ (if 0 < b then write_word sync else [])) @ ws @ concat (map chunk [Suc b..<n])"
    by (simp add: chunk [of b] ws_def)
  finally have e: "concat (map chunk [0..<n])
      = (concat (map chunk [0..<b]) @ (if 0 < b then write_word sync else [])) @ ws @ concat (map chunk [Suc b..<n])" .
  have "length (concat (map chunk [0..<b]) @ (if 0 < b then write_word sync else [])) = b * 68"
    using len [of b] by (auto simp: write_word_def)
  then have "batch_of (concat (map chunk [0..<n])) b = ws"
    unfolding e batch_of_def using ws by (simp add: POCSAG_BATCH_BYTES_def)
  then show ?thesis
    using nth_written_word [OF s, of "\<lambda>s. g (b * 16 + s)"] by (simp add: slot_word_def ws_def read_write_word)
qed

text \<open>Receiving batch after batch and flushing the decoder at the end.\<close>

definition pocsag_receive :: "pocsag_decoder option \<Rightarrow> int \<Rightarrow> u8 list list \<Rightarrow> pocsag_message list" where
  "pocsag_receive decoder rssi batches =
     (let (msgs, d) = fold (\<lambda>batch (msgs, d).
            let (n, msgs1, d1) = solar_os_pocsag_decode_batch d (Some batch) POCSAG_BATCH_BYTES rssi True
            in (msgs @ msgs1, d1)) batches ([], decoder);
          (e, msgs1, d1) = solar_os_pocsag_decoder_flush d True
      in msgs @ msgs1)"

lemma fold_batches:
  "fold (\<lambda>batch (msgs, d). let (n, msgs1, d1) = solar_os_pocsag_decode_batch d (Some batch) POCSAG_BATCH_BYTES rssi True
      in (msgs @ msgs1, d1)) bs (msgs, Some d)
   = (let (n, msgs1, d1) = receive_words rssi True (concat (map (\<lambda>batch. map (\<lambda>i. (i, slot_word batch i)) [0..<16]) bs)) d
      in (msgs @ msgs1, Some d1))"
  by (induction bs arbitrary: msgs d)
    (simp_all add: decode_batch_words receive_words_append Let_def del: upt_Suc upt_rec_numeral split: prod.splits)

lemma batch_words:
  "concat (map (\<lambda>batch. map (\<lambda>i. (i, slot_word batch i)) [0..<16]) (map batch [0..<n]))
     = map (\<lambda>i. (i mod 16, slot_word (batch (i div 16)) (i mod 16))) [0..<n * 16]"
proof (induction n)
  case (Suc n)
  have "map (\<lambda>i. (i mod 16, slot_word (batch (i div 16)) (i mod 16))) [n * 16..<n * 16 + 16]
      = map (\<lambda>i. (i, slot_word (batch n) i)) [0..<16]"
    by (rule nth_equalityI) auto
  moreover have "[0..<Suc n * 16] = [0..<n * 16] @ [n * 16..<n * 16 + 16]"
    using upt_add_eq_append [of 0 "n * 16" 16] by (simp add: add.commute)
  moreover have "[0..<Suc n] = [0..<n] @ [n]" by simp
  ultimately show ?case using Suc by (simp del: upt_Suc)
qed simp

section \<open>The transmission\<close>

lemma message_valid_Some:
  assumes "message_valid f (Some t) = Some len" "CHR 0x00 \<notin> set t"
  shows "len = length t" "0 < length t" "length t \<le> 255" "\<forall>c \<in> set t. sendable f c"
  using assms by (cases f; force simp: message_valid_def sendable_def POCSAG_TEXT_MAX_def Let_def split: if_splits)+

lemma decode_ignored:
  assumes sent: "codeword_valid w" "popcount (received XOR w) \<le> 2" and d: "\<not> pd_active d"
    and w: "w \<noteq> POCSAG_IDLE_CODEWORD \<Longrightarrow> w AND 0x80000000 = 0 \<Longrightarrow> pd_target_ric d \<noteq> 0 \<and>
      push_bit 3 (drop_bit 13 w AND 0x3FFFF) OR of_nat (i div 2) \<noteq> pd_target_ric d"
  shows "decode_codeword rssi cb i received d = (0, [], d)"
proof -
  obtain n where n: "correct_codeword received = Some (w, n)" using correct_codeword_corrects [OF sent] by blast
  show ?thesis
    unfolding decode_codeword_def n option.case prod.case Let_def using w d by (simp add: finish_message_def)
qed

lemma receive_ignored:
  assumes "\<forall>x \<in> set ws. \<exists>w. codeword_valid w \<and> popcount (snd x XOR w) \<le> 2 \<and> (w = POCSAG_IDLE_CODEWORD
      \<or> w AND 0x80000000 \<noteq> 0 \<or> (pd_target_ric d \<noteq> 0 \<and>
         push_bit 3 (drop_bit 13 w AND 0x3FFFF) OR of_nat (fst x div 2) \<noteq> pd_target_ric d))"
    "\<not> pd_active d"
  shows "receive_words rssi cb ws d = (0, [], d)"
  using assms(1)
proof (induction ws)
  case (Cons x ws)
  then obtain w where "codeword_valid w" "popcount (snd x XOR w) \<le> 2" "w = POCSAG_IDLE_CODEWORD
      \<or> w AND 0x80000000 \<noteq> 0 \<or> (pd_target_ric d \<noteq> 0 \<and>
         push_bit 3 (drop_bit 13 w AND 0x3FFFF) OR of_nat (fst x div 2) \<noteq> pd_target_ric d)" by auto
  then have "decode_codeword rssi cb (fst x) (snd x) d = (0, [], d)" using decode_ignored assms(2) by blast
  then show ?case using Cons by simp
qed simp

text \<open>What the encoder leaves in a payload.\<close>

definition address_codeword :: "u32 \<Rightarrow> u8 \<Rightarrow> u32" where
  "address_codeword ric func = encode_codeword (push_bit 13 (drop_bit 3 ric AND 0x3FFFF) OR push_bit 11 (ucast func))"

lemma encode_payload_words:
  assumes enc: "solar_os_pocsag_encode_payload ric func f (Some t) True capacity True = (ESP_OK, Some (payload, n))"
    and t: "CHR 0x00 \<notin> set t"
  defines "a \<equiv> unat (ric AND 7) * 2" and "mw \<equiv> (length t * pocsag_width f + 19) div 20"
  shows "ric \<le> POCSAG_RIC_MAX" "func \<le> 3" "\<forall>c \<in> set t. sendable f c" "length t \<le> 255" "a + 1 + mw \<le> n * 16"
    "length payload \<le> capacity" "length payload \<le> POCSAG_PAYLOAD_MAX"
    "\<And>b s. b < n \<Longrightarrow> s < 16 \<Longrightarrow>
       slot_word (batch_of payload b) s = payload_codeword ric func f t (length t) a mw (b * 16 + s)"
proof -
  obtain len where v: "message_valid f (Some t) = Some len" and r: "ric \<le> POCSAG_RIC_MAX" "func \<le> 3"
    using enc by (auto simp: solar_os_pocsag_encode_payload_def not_less split: if_splits option.splits)
  note m = message_valid_Some [OF v t]
  define chunk where "chunk b = (if 0 < b then write_word POCSAG_SYNC_CODEWORD else [])
      @ concat (map (\<lambda>s. write_word (payload_codeword ric func f t (length t) a mw (b * 16 + s))) [0..<16])" for b
  have chunks: "chunk = (\<lambda>b. (if 0 < b then write_word POCSAG_SYNC_CODEWORD else [])
      @ concat (map (\<lambda>s. write_word (payload_codeword ric func f t (length t) a mw (b * 16 + s))) [0..<16]))"
    by (rule ext) (rule chunk_def)
  define bs where "bs = (a + 1 + mw + 15) div 16"
  have e: "capacity \<ge> bs * 64 + (bs - 1) * 4 \<and> 512 \<ge> bs * 64 + (bs - 1) * 4
      \<and> payload = concat (map chunk [0..<bs]) \<and> n = bs"
    using enc unfolding solar_os_pocsag_encode_payload_def v option.case m(1) Let_def
    by (auto simp: a_def mw_def bs_def chunks POCSAG_CODEWORDS_PER_BATCH_def POCSAG_BATCH_BYTES_def POCSAG_PAYLOAD_MAX_def
        split: if_splits simp del: upt_Suc upt_rec_numeral)
  show "ric \<le> POCSAG_RIC_MAX" "func \<le> 3" "\<forall>c \<in> set t. sendable f c" "length t \<le> 255" using r m by simp_all
  show "a + 1 + mw \<le> n * 16" using e unfolding bs_def by linarith
  have "length (concat (map chunk [0..<k])) = k * 64 + (k - 1) * 4" for k
  proof (induction k)
    case (Suc k)
    have "length (write_word POCSAG_SYNC_CODEWORD) = 4" by (simp add: write_word_def)
    then have "length (chunk k) = (if 0 < k then 68 else 64)" by (simp add: chunk_def write_words_length)
    then show ?case using Suc by (cases k) simp_all
  qed simp
  then show "length payload \<le> capacity" "length payload \<le> POCSAG_PAYLOAD_MAX"
    using e by (simp_all add: POCSAG_PAYLOAD_MAX_def)
  show "slot_word (batch_of payload b) s = payload_codeword ric func f t (length t) a mw (b * 16 + s)"
    if "b < n" "s < 16" for b s
    using batch_of_payload [OF chunk_def _ that(2), of b bs] that e by simp
qed

lemma receive_all:
  "pocsag_receive (Some d) rssi (map (batch_of received) [0..<n]) =
     (let (k, msgs, d1) = receive_words rssi True
            (map (\<lambda>i. (i mod 16, slot_word (batch_of received (i div 16)) (i mod 16))) [0..<n * 16]) d;
          (e, msgs1, d2) = finish_message d1 True
      in msgs @ msgs1)"
  unfolding pocsag_receive_def fold_batches batch_words solar_os_pocsag_decoder_flush_def
  by (simp add: Let_def split: prod.splits)

lemma low_ric: "unat (ric AND 7) < 8" for ric :: u32
proof -
  have "ric AND 7 = take_bit 3 ric" by (simp add: take_bit_eq_mask mask_eq_exp_minus_1)
  then show ?thesis using take_bit_nat_less_exp [of 3 "unat ric"] by (simp add: unsigned_take_bit_eq)
qed

lemma transmission_ignored:
  assumes noise: "\<And>i. i < n * 16 \<Longrightarrow> popcount (r i XOR payload_codeword ric func f t len (unat (ric AND 7) * 2) mw i) \<le> 2"
    and ric: "ric \<le> POCSAG_RIC_MAX" "func \<le> 3" and d: "\<not> pd_active d"
    and other: "address_codeword ric func = POCSAG_IDLE_CODEWORD \<or> (pd_target_ric d \<noteq> 0 \<and> pd_target_ric d \<noteq> ric)"
  shows "receive_words rssi cb (map (\<lambda>i. (i mod 16, r i)) [0..<n * 16]) d = (0, [], d)"
proof (rule receive_ignored [OF _ d], rule ballI)
  fix x
  assume "x \<in> set (map (\<lambda>i. (i mod 16, r i)) [0..<n * 16])"
  then obtain i where i: "i < n * 16" "x = (i mod 16, r i)" by auto
  let ?a = "unat (ric AND 7) * 2"
  define w where "w = payload_codeword ric func f t len ?a mw i"
  note word = address_word [OF ric, folded address_codeword_def]
  have "codeword_valid w \<and> (w = POCSAG_IDLE_CODEWORD \<or> w AND 0x80000000 \<noteq> 0 \<or> (pd_target_ric d \<noteq> 0 \<and>
         push_bit 3 (drop_bit 13 w AND 0x3FFFF) OR of_nat (fst x div 2) \<noteq> pd_target_ric d))"
  proof (cases "i = ?a")
    case True
    then have w: "w = address_codeword ric func" by (simp add: w_def payload_codeword_def address_codeword_def)
    have "fst x div 2 = unat (ric AND 7)" using True low_ric [of ric] by (simp add: i(2))
    then have "push_bit 3 (drop_bit 13 w AND 0x3FFFF) OR of_nat (fst x div 2) = ric" by (simp only: w word(3))
    then show ?thesis using other word(1) w by auto
  next
    case False
    then show ?thesis
      using message_word(1,3) idle_valid by (auto simp: w_def payload_codeword_def)
  qed
  then show "\<exists>w. codeword_valid w \<and> popcount (snd x XOR w) \<le> 2 \<and> (w = POCSAG_IDLE_CODEWORD
      \<or> w AND 0x80000000 \<noteq> 0 \<or> (pd_target_ric d \<noteq> 0 \<and>
         push_bit 3 (drop_bit 13 w AND 0x3FFFF) OR of_nat (fst x div 2) \<noteq> pd_target_ric d))"
    using noise [OF i(1)] i(2) unfolding w_def by auto
qed


lemma split_words:
  assumes "a + 1 + mw \<le> (m::nat)"
  shows "map g [0..<m] = map g [0..<a] @ g a # map (\<lambda>k. g (a + 1 + k)) [0..<mw] @ map g [a + 1 + mw..<m]"
proof -
  have "[0..<m] = [0..<a] @ a # [Suc a..<m]"
    using assms by (intro upt_split) simp
  moreover have "[Suc a..<m] = [Suc a..<Suc a + mw] @ [Suc a + mw..<m]"
    using assms upt_add_eq_append [of "Suc a" "Suc a + mw" "m - (Suc a + mw)"] by simp
  moreover have "[Suc a..<Suc a + mw] = map (\<lambda>k. a + 1 + k) [0..<mw]" by (rule nth_equalityI) (simp_all del: upt_Suc)
  ultimately show ?thesis by (simp add: comp_def)
qed

lemma transmission_received:
  assumes noise: "\<And>i. i < n * 16 \<Longrightarrow> popcount (r i XOR payload_codeword ric func f t (length t) (unat (ric AND 7) * 2) mw i) \<le> 2"
    and ric: "ric \<le> POCSAG_RIC_MAX" "func \<le> 3" and t: "\<forall>c \<in> set t. sendable f c" "length t \<le> 255"
    and mw: "mw = (length t * pocsag_width f + 19) div 20" "unat (ric AND 7) * 2 + 1 + mw \<le> n * 16"
    and d: "\<not> pd_active d" "pd_format d = f" "pd_target_ric d = 0 \<or> pd_target_ric d = ric"
    and idle: "address_codeword ric func \<noteq> POCSAG_IDLE_CODEWORD"
  shows "\<exists>c k msgs d1 e msgs1 d2. receive_words rssi True (map (\<lambda>i. (i mod 16, r i)) [0..<n * 16]) d = (k, msgs, d1)
     \<and> finish_message d1 True = (e, msgs1, d2)
     \<and> msgs @ msgs1 = (if strip_blanks t = [] then [] else
          [\<lparr>pm_ric = ric, pm_function = func, pm_format = f, pm_rssi_dbm = rssi, pm_corrected_codewords = c,
            pm_uncorrectable_codewords = 0, pm_truncated = (f = POCSAG_FORMAT_ALPHA \<and> length t = 255),
            pm_text = strip_blanks t\<rparr>])"
proof -
  let ?a = "unat (ric AND 7) * 2"
  define g where "g i = (i mod 16, r i)" for i
  have g: "popcount (snd (g i) XOR payload_codeword ric func f t (length t) ?a mw i) \<le> 2" if "i < n * 16" for i
    using noise [OF that] by (simp add: g_def)
  have before: "receive_words rssi True (map g [0..<?a]) d = (0, [], d)"
  proof (rule receive_idle [OF _ d(1)], rule ballI)
    fix x assume "x \<in> set (map g [0..<?a])"
    then obtain i where i: "i < ?a" "x = g i" by auto
    then have "i < n * 16" using mw(2) by simp
    from g [OF this] i show "popcount (snd x XOR POCSAG_IDLE_CODEWORD) \<le> 2" by (simp add: payload_codeword_def)
  qed
  have heard: "popcount (r ?a XOR address_codeword ric func) \<le> 2"
    using g [of ?a] mw(2) by (simp add: g_def payload_codeword_def address_codeword_def)
  have place: "fst (g ?a) div 2 = unat (ric AND 7)" using low_ric [of ric] by (simp add: g_def)
  obtain d1 where d1: "decode_codeword rssi True (fst (g ?a)) (r ?a) d = (0, [], d1)"
    "clean d1 = begin_message d ric func rssi"
    using decode_address [OF ric idle [unfolded address_codeword_def] heard [unfolded address_codeword_def] place d(1,3)]
    by blast
  have "\<forall>k < mw. popcount (snd (g (?a + 1 + k))
      XOR encode_codeword (0x80000000 OR push_bit 11 (message_data_word f t (length t) k))) \<le> 2"
  proof (intro allI impI)
    fix k assume "k < mw"
    then show "popcount (snd (g (?a + 1 + k)) XOR encode_codeword (0x80000000 OR push_bit 11 (message_data_word f t (length t) k))) \<le> 2"
      using g [of "?a + 1 + k"] mw(2) by (simp add: payload_codeword_def)
  qed
  moreover have "pd_active d1" using arg_cong [OF d1(2), of pd_active] by (simp add: begin_message_def)
  ultimately obtain d2 where d2: "receive_words rssi True (map (\<lambda>k. (fst (g (?a + 1 + k)), snd (g (?a + 1 + k)))) [0..<mw]) d1 = (0, [], d2)"
    "pd_active d2" "clean d2 = fold append_bit (map (message_bit f t (length t)) [0..<mw * 20]) (clean d1)"
    using receive_message [of mw "\<lambda>k. snd (g (?a + 1 + k))" f t "length t" d1 rssi True "\<lambda>k. fst (g (?a + 1 + k))"] by blast
  have "\<forall>x \<in> set (map g [?a + 1 + mw..<n * 16]). popcount (snd x XOR POCSAG_IDLE_CODEWORD) \<le> 2"
  proof
    fix x assume "x \<in> set (map g [?a + 1 + mw..<n * 16])"
    then obtain i where i: "?a + 1 + mw \<le> i" "i < n * 16" "x = g i" by auto
    then show "popcount (snd x XOR POCSAG_IDLE_CODEWORD) \<le> 2" using g [OF i(2)] by (simp add: payload_codeword_def)
  qed
  from receive_end [OF this d2(2)] obtain d3 n2 msgs2 d4 e msgs3 d5 where fin: "clean d3 = clean d2"
    "receive_words rssi True (map g [?a + 1 + mw..<n * 16]) d2 = (n2, msgs2, d4)"
    "finish_message d4 True = (e, msgs3, d5)" "msgs2 @ msgs3 = fst (snd (finish_message d3 True))" by blast
  have start: "has_text (clean d1) []" "pd_format (clean d1) = f"
    using d(2) by (simp_all add: d1(2) begin_message_def has_text_def pocsag_message_zero_def)
  have "clean d3 = fold append_bit (map (message_bit f t (length t)) [0..<mw * 20]) (clean d1)" by (simp only: fin(1) d2(3))
  moreover have "pd_active d3" using arg_cong [OF fin(1), of pd_active] d2(2) by simp
  ultimately obtain c where c: "fst (snd (finish_message d3 True)) = (if strip_blanks t = [] then []
      else [(pd_message (clean d1))\<lparr>pm_corrected_codewords := c,
              pm_truncated := (pm_truncated (pd_message (clean d1)) \<or> f = POCSAG_FORMAT_ALPHA \<and> length t = 255),
              pm_text := strip_blanks t\<rparr>])"
    using message_end [OF _ _ start t mw(1)] by blast
  have "receive_words rssi True (map g [0..<n * 16]) d = (n2, msgs2, d4)"
    unfolding split_words [OF mw(2)] using before d1(1) d2(1) fin(2)
    by (simp add: receive_words_append Let_def g_def del: upt_Suc)
  moreover have "(pd_message (clean d1))\<lparr>pm_corrected_codewords := c,
              pm_truncated := (pm_truncated (pd_message (clean d1)) \<or> f = POCSAG_FORMAT_ALPHA \<and> length t = 255),
              pm_text := strip_blanks t\<rparr>
     = \<lparr>pm_ric = ric, pm_function = func, pm_format = f, pm_rssi_dbm = rssi, pm_corrected_codewords = c,
            pm_uncorrectable_codewords = 0, pm_truncated = (f = POCSAG_FORMAT_ALPHA \<and> length t = 255),
            pm_text = strip_blanks t\<rparr>"
    using d(2) by (simp add: d1(2) begin_message_def pocsag_message_zero_def)
  ultimately show ?thesis using fin(3,4) c unfolding g_def by metis
qed

text \<open>
  C28. Whatever \<open>solar_os_pocsag_encode_payload\<close> accepts fits the buffer and, received with up to two
  wrong bits in every code word and decoded batch by batch, gives exactly one message, to a receiver
  of this address or of all addresses: the address, the function and the text that was sent, without
  trailing blanks and with no word given up. The mark for lost characters is set exactly for 255
  characters of seven bits, though none is lost then. Nothing comes out for another address, for a
  text of blanks, and for the one address word that is the idle word.
\<close>

theorem pocsag_transmission:
  assumes enc: "solar_os_pocsag_encode_payload ric func f (Some t) True capacity True = (ESP_OK, Some (payload, n))"
    and t: "CHR 0x00 \<notin> set t"
    and noise: "\<forall>b < n. \<forall>s < 16. popcount (slot_word (batch_of received b) s XOR slot_word (batch_of payload b) s) \<le> 2"
  shows "\<exists>c. length payload \<le> capacity \<and>
     pocsag_receive (solar_os_pocsag_decoder_init (Some d) target f) rssi (map (batch_of received) [0..<n]) =
       (if address_codeword ric func = POCSAG_IDLE_CODEWORD \<or> target \<noteq> 0 \<and> target \<noteq> ric \<or> strip_blanks t = [] then []
        else [\<lparr>pm_ric = ric, pm_function = func, pm_format = f, pm_rssi_dbm = rssi, pm_corrected_codewords = c,
               pm_uncorrectable_codewords = 0, pm_truncated = (f = POCSAG_FORMAT_ALPHA \<and> length t = 255),
               pm_text = strip_blanks t\<rparr>])"
proof -
  note w = encode_payload_words [OF enc t]
  define mw where "mw = (length t * pocsag_width f + 19) div 20"
  define r where "r i = slot_word (batch_of received (i div 16)) (i mod 16)" for i
  have heard: "popcount (r i XOR payload_codeword ric func f t (length t) (unat (ric AND 7) * 2) mw i) \<le> 2"
    if "i < n * 16" for i
  proof -
    have b: "i div 16 < n" "i mod 16 < 16" using that by (simp_all add: less_mult_imp_div_less)
    then have "popcount (slot_word (batch_of received (i div 16)) (i mod 16)
        XOR slot_word (batch_of payload (i div 16)) (i mod 16)) \<le> 2" using noise by blast
    then show ?thesis using w(8) [OF b] by (simp add: r_def mw_def)
  qed
  define d0 where "d0 = the (solar_os_pocsag_decoder_init (Some d) target f)"
  have d0: "solar_os_pocsag_decoder_init (Some d) target f = Some d0" "\<not> pd_active d0" "pd_format d0 = f"
    "pd_target_ric d0 = target" by (simp_all add: d0_def solar_os_pocsag_decoder_init_def)
  show ?thesis
  proof (cases "address_codeword ric func = POCSAG_IDLE_CODEWORD \<or> target \<noteq> 0 \<and> target \<noteq> ric")
    case True
    then have "receive_words rssi True (map (\<lambda>i. (i mod 16, r i)) [0..<n * 16]) d0 = (0, [], d0)"
      using d0(2,4) by (intro transmission_ignored [OF heard w(1,2)]) auto
    then have "pocsag_receive (Some d0) rssi (map (batch_of received) [0..<n]) = []"
      unfolding receive_all r_def using d0(2) by (simp add: finish_message_def)
    then show ?thesis using True w(6) unfolding d0(1) by auto
  next
    case False
    have "unat (ric AND 7) * 2 + 1 + mw \<le> n * 16" using w(5) by (simp add: mw_def)
    moreover have "pd_target_ric d0 = 0 \<or> pd_target_ric d0 = ric" using False d0(4) by auto
    ultimately obtain c k msgs d1 e msgs1 d2 where
      "receive_words rssi True (map (\<lambda>i. (i mod 16, r i)) [0..<n * 16]) d0 = (k, msgs, d1)"
      "finish_message d1 True = (e, msgs1, d2)"
      "msgs @ msgs1 = (if strip_blanks t = [] then [] else
          [\<lparr>pm_ric = ric, pm_function = func, pm_format = f, pm_rssi_dbm = rssi, pm_corrected_codewords = c,
            pm_uncorrectable_codewords = 0, pm_truncated = (f = POCSAG_FORMAT_ALPHA \<and> length t = 255),
            pm_text = strip_blanks t\<rparr>])"
      using transmission_received [OF heard w(1-4) mw_def _ d0(2,3)] False by blast
    then show ?thesis
      unfolding d0(1) receive_all r_def using False w(6) by (simp add: d0(4))
  qed
qed

text \<open>Addresses from 2007664 to 2007671 with function 0 have the idle word; others do not.\<close>

lemma idle_address: "address_codeword 2007664 0 = POCSAG_IDLE_CODEWORD" "address_codeword 8 0 \<noteq> POCSAG_IDLE_CODEWORD"
  by (simp_all add: address_codeword_def encode_codeword_def bch_divide_def bch_bits bch_step_def POCSAG_BCH_GENERATOR_def
      POCSAG_IDLE_CODEWORD_def popcount_def upt_rec Let_def)

lemma pocsag_transmission_witness:
  "\<exists>payload. solar_os_pocsag_encode_payload 8 0 POCSAG_FORMAT_NUMERIC (Some ''42'') True 64 True
       = (ESP_OK, Some (payload, 1))
     \<and> (\<forall>d. \<exists>c. pocsag_receive (solar_os_pocsag_decoder_init (Some d) 8 POCSAG_FORMAT_NUMERIC) (- 70)
               [batch_of payload 0]
       = [\<lparr>pm_ric = 8, pm_function = 0, pm_format = POCSAG_FORMAT_NUMERIC, pm_rssi_dbm = - 70,
           pm_corrected_codewords = c, pm_uncorrectable_codewords = 0, pm_truncated = False, pm_text = ''42''\<rparr>])"
proof -
  have "message_valid POCSAG_FORMAT_NUMERIC (Some ''42'') = Some 2"
    by (simp add: message_valid_def numeric_symbol_def numeric_chars_def POCSAG_TEXT_MAX_def upt_rec)
  then obtain payload where e: "solar_os_pocsag_encode_payload 8 0 POCSAG_FORMAT_NUMERIC (Some ''42'') True 64 True
       = (ESP_OK, Some (payload, 1))"
    by (simp add: solar_os_pocsag_encode_payload_def POCSAG_RIC_MAX_def pocsag_width_def POCSAG_CODEWORDS_PER_BATCH_def
        POCSAG_BATCH_BYTES_def POCSAG_PAYLOAD_MAX_def Let_def)
  have "\<forall>b < 1. \<forall>s < 16. popcount (slot_word (batch_of payload b) s XOR slot_word (batch_of payload b) s) \<le> 2"
    by (simp add: popcount_def)
  note received = pocsag_transmission [OF e _ this, of _ 8 "- 70"]
  have "\<exists>c. pocsag_receive (solar_os_pocsag_decoder_init (Some d) 8 POCSAG_FORMAT_NUMERIC) (- 70)
         [batch_of payload 0]
       = [\<lparr>pm_ric = 8, pm_function = 0, pm_format = POCSAG_FORMAT_NUMERIC, pm_rssi_dbm = - 70,
           pm_corrected_codewords = c, pm_uncorrectable_codewords = 0, pm_truncated = False, pm_text = ''42''\<rparr>]" for d
    using received [of d] idle_address by (simp add: strip_blanks_def)
  with e show ?thesis by blast
qed

end
