(* ===== verification/JobsCore.thy ===== *)
theory JobsCore
  imports Scheduler
begin

text \<open>
  The job manager of \<open>src/src/solar_os_jobs.c\<close>: the table of background jobs with their state,
  generation, pending start, callback references and resources, and every operation of the module.
  An operation that leaves the spin lock (to run a job's start, stop or event code, to wait for a
  callback or to ask for memory) is one definition per critical section, in the order of the code;
  \<open>JobsSafety\<close> composes them.

  The job registry is generated from the build configuration, so its table is the parameter
  \<open>jobs_env\<close>; the answers of the allocator, of \<open>solar_os_task_can_create\<close>, of the port service, of
  the timer and of the job's own start, event and error-detail code are arguments.
\<close>

section \<open>Data\<close>

datatype job_state = JOB_STOPPED | JOB_WAITING | JOB_RUNNING | JOB_FAILED

datatype job_kind = JOB_KIND_BACKGROUND | JOB_KIND_INTERACTIVE

datatype job_resource_type =
    JOB_RESOURCE_NONE
  | JOB_RESOURCE_PORT
  | JOB_RESOURCE_FILE
  | JOB_RESOURCE_NET
  | JOB_RESOURCE_STREAM
  | JOB_RESOURCE_CUSTOM

datatype job_start_disposition =
    JOB_START_READY
  | JOB_START_RUNNING
  | JOB_START_WAITING_MEMORY
  | JOB_START_BLOCKED

datatype job_start_reason =
    JOB_REASON_NONE
  | JOB_REASON_ALREADY_RUNNING
  | JOB_REASON_WORKER_STACK_MEMORY
  | JOB_REASON_LIFECYCLE_BUSY
  | JOB_REASON_NOT_STARTABLE

definition JOB_OWNER_MAX :: nat where
  "JOB_OWNER_MAX = 24"

definition JOB_RESOURCE_MAX :: nat where
  "JOB_RESOURCE_MAX = 4"

definition JOB_RESOURCE_NAME_MAX :: nat where
  "JOB_RESOURCE_NAME_MAX = 64"

definition JOB_RESOURCE_DETAIL_MAX :: nat where
  "JOB_RESOURCE_DETAIL_MAX = 32"

definition APP_ARG_MAX :: nat where
  "APP_ARG_MAX = 8"

definition APP_ARG_LEN :: nat where
  "APP_ARG_LEN = 160"

definition TICK_INTERVAL_DEFAULT_MS :: u32 where
  "TICK_INTERVAL_DEFAULT_MS = 25"

definition TICK_DEADLINE_DEFAULT_MS :: u32 where
  "TICK_DEADLINE_DEFAULT_MS = 25"

text \<open>
  A job's descriptor: of a callback only whether it is set matters to the manager; its name and
  summary are only logged.
\<close>

record job_desc =
  jd_kind :: job_kind
  jd_start :: bool
  jd_stop :: bool
  jd_event :: bool
  jd_worker_stack_bytes :: u32
  jd_worker_stack_external :: bool
  jd_tick_interval_ms :: u32
  jd_tick_deadline_ms :: u32
  jd_detail :: bool
  jd_error_detail :: bool

record job_entry =
  je_name :: "string option"
  je_summary :: string
  je_job :: "job_desc option"

record job_resource =
  jr_type :: job_resource_type
  jr_name :: string
  jr_detail :: string

text \<open>A queued start request, a heap block: \<open>pn_addr\<close> is its address, which the code compares.\<close>

record pending_start =
  pn_addr :: nat
  pn_argc :: int
  pn_args :: "string list"

record job_runtime =
  jt_entry :: "job_entry option"
  jt_state :: job_state
  jt_last_error :: esp_err
  jt_tick_count :: u32
  jt_last_tick_ms :: u32
  jt_generation :: u32
  jt_tick_stats :: tick_stats
  jt_callback_refs :: nat
  jt_callback_task :: "nat option"
  jt_stop_after_callback :: bool
  jt_lifecycle_busy :: bool
  jt_pending_start :: "pending_start option"
  jt_owner :: string
  jt_resource_count :: nat
  jt_resources :: "job_resource list"

text \<open>The module's variables; the last three are the wait statistics of \<open>solar_os_task.c\<close>.\<close>

record jobs_state =
  js_initialized :: bool
  js_count :: nat
  js_runtimes :: "job_runtime list"
  js_task_waiting :: u32
  js_wait_successes :: u32
  js_wait_cancellations :: u32

record jobs_env =
  jv_jobs_max :: nat
  jv_registry_count :: nat
  jv_registry_get :: "nat \<Rightarrow> job_entry option"

record job_status =
  jx_name :: "string option"
  jx_summary :: string
  jx_kind :: job_kind
  jx_state :: job_state
  jx_last_error :: esp_err
  jx_tick_count :: u32
  jx_last_tick_ms :: u32
  jx_generation :: u32
  jx_has_event :: bool
  jx_detail :: bool
  jx_worker_stack_bytes :: u32
  jx_worker_stack_external :: bool
  jx_tick_stats :: tick_stats
  jx_owner :: string
  jx_resources :: "job_resource list"

record job_inspection =
  ji_status :: job_status
  ji_disposition :: job_start_disposition
  ji_reason :: job_start_reason

definition no_resource :: job_resource where
  "no_resource = \<lparr>jr_type = JOB_RESOURCE_NONE, jr_name = [], jr_detail = []\<rparr>"

definition runtime_zero :: job_runtime where
  "runtime_zero = \<lparr>jt_entry = None, jt_state = JOB_STOPPED, jt_last_error = ESP_OK,
     jt_tick_count = 0, jt_last_tick_ms = 0, jt_generation = 0, jt_tick_stats = tick_stats_zero,
     jt_callback_refs = 0, jt_callback_task = None, jt_stop_after_callback = False,
     jt_lifecycle_busy = False, jt_pending_start = None, jt_owner = [], jt_resource_count = 0,
     jt_resources = replicate JOB_RESOURCE_MAX no_resource\<rparr>"

definition jobs_boot :: "jobs_env \<Rightarrow> jobs_state" where
  "jobs_boot env = \<lparr>js_initialized = False, js_count = 0,
     js_runtimes = replicate (jv_jobs_max env) runtime_zero,
     js_task_waiting = 0, js_wait_successes = 0, js_wait_cancellations = 0\<rparr>"

abbreviation runtime :: "jobs_state \<Rightarrow> nat \<Rightarrow> job_runtime" where
  "runtime s i \<equiv> js_runtimes s ! i"

definition upd_runtime :: "nat \<Rightarrow> (job_runtime \<Rightarrow> job_runtime) \<Rightarrow> jobs_state \<Rightarrow> jobs_state" where
  "upd_runtime i f s = s\<lparr>js_runtimes := (js_runtimes s)[i := f (runtime s i)]\<rparr>"

text \<open>\<open>runtime->entry != NULL && runtime->entry->job != NULL\<close>.\<close>

definition runtime_job :: "job_runtime \<Rightarrow> job_desc option" where
  "runtime_job r = (case jt_entry r of None \<Rightarrow> None | Some e \<Rightarrow> je_job e)"

definition runtime_name :: "job_runtime \<Rightarrow> string option" where
  "runtime_name r = (case jt_entry r of None \<Rightarrow> None | Some e \<Rightarrow> je_name e)"

section \<open>Lookup\<close>

definition job_index_by_name :: "jobs_state \<Rightarrow> string option \<Rightarrow> nat option" where
  "job_index_by_name s name =
     (case name of
        None \<Rightarrow> None
      | Some n \<Rightarrow>
          if n = [] then None
          else first_index (\<lambda>r. runtime_name r = Some n) (take (js_count s) (js_runtimes s)))"

definition job_index_by_owner :: "jobs_state \<Rightarrow> string option \<Rightarrow> nat option" where
  "job_index_by_owner s owner =
     (case owner of
        None \<Rightarrow> None
      | Some w \<Rightarrow>
          if w = [] then None
          else first_index
                 (\<lambda>r. case runtime_name r of
                        None \<Rightarrow> False
                      | Some n \<Rightarrow> (jt_owner r \<noteq> [] \<and> jt_owner r = w) \<or> n = w
                                 \<or> (strncmp_eq 4 w ''job:'' \<and> n = drop 4 w))
                 (take (js_count s) (js_runtimes s)))"

definition job_kind_from_runtime :: "job_runtime \<Rightarrow> job_kind" where
  "job_kind_from_runtime r =
     (case runtime_job r of None \<Rightarrow> JOB_KIND_BACKGROUND | Some job \<Rightarrow> jd_kind job)"

definition job_clear_resources :: "job_runtime \<Rightarrow> job_runtime" where
  "job_clear_resources r =
     r\<lparr>jt_resource_count := 0, jt_resources := replicate JOB_RESOURCE_MAX no_resource\<rparr>"

definition job_clear_resources_by_index :: "nat \<Rightarrow> jobs_state \<Rightarrow> jobs_state" where
  "job_clear_resources_by_index i s =
     (if js_count s \<le> i then s else upd_runtime i job_clear_resources s)"

definition job_next_generation :: "u32 \<Rightarrow> u32" where
  "job_next_generation g = (if g + 1 = 0 then g + 1 + 1 else g + 1)"

section \<open>Pending starts\<close>

text \<open>\<open>argv\<close> is NULL or the list of its first \<open>argc\<close> pointers.\<close>

type_synonym argv = "string option list option"

definition job_pending_start_create :: "nat option \<Rightarrow> int \<Rightarrow> argv \<Rightarrow> pending_start option" where
  "job_pending_start_create block argc argv =
     (case block of
        None \<Rightarrow> None
      | Some addr \<Rightarrow>
          Some \<lparr>pn_addr = addr, pn_argc = argc,
                pn_args = map (\<lambda>a. strlcpy APP_ARG_LEN (cstr a))
                            (take (nat argc) (case argv of None \<Rightarrow> [] | Some l \<Rightarrow> l))\<rparr>)"

definition solar_os_task_note_wait_queued :: "jobs_state \<Rightarrow> jobs_state" where
  "solar_os_task_note_wait_queued s = s\<lparr>js_task_waiting := js_task_waiting s + 1\<rparr>"

definition solar_os_task_note_wait_finished :: "bool \<Rightarrow> jobs_state \<Rightarrow> jobs_state" where
  "solar_os_task_note_wait_finished launched s =
     (let s1 = (if 0 < js_task_waiting s then s\<lparr>js_task_waiting := js_task_waiting s - 1\<rparr> else s)
      in if launched then s1\<lparr>js_wait_successes := js_wait_successes s1 + 1\<rparr>
         else s1\<lparr>js_wait_cancellations := js_wait_cancellations s1 + 1\<rparr>)"

definition job_pending_start_free :: "pending_start option \<Rightarrow> bool \<Rightarrow> jobs_state \<Rightarrow> jobs_state" where
  "job_pending_start_free pending launched s =
     (case pending of None \<Rightarrow> s | Some _ \<Rightarrow> solar_os_task_note_wait_finished launched s)"

section \<open>Initialisation\<close>

text \<open>\<open>snprintf(owner, owner_len, "job:%s", name)\<close>; an untouched buffer is \<open>None\<close>.\<close>

definition solar_os_jobs_owner_name ::
  "string option \<Rightarrow> bool \<Rightarrow> nat \<Rightarrow> esp_err \<times> string option" where
  "solar_os_jobs_owner_name name owner_present owner_len =
     (case name of
        None \<Rightarrow> (ESP_ERR_INVALID_ARG, None)
      | Some n \<Rightarrow>
          if n = [] \<or> \<not> owner_present \<or> owner_len = 0 then (ESP_ERR_INVALID_ARG, None)
          else let written = length (''job:'' @ n)
               in if owner_len \<le> written then (ESP_ERR_INVALID_SIZE, Some [])
                  else (ESP_OK, Some (''job:'' @ n)))"

definition runtime_init :: "job_entry option \<Rightarrow> job_runtime" where
  "runtime_init entry =
     (let r = runtime_zero\<lparr>jt_entry := entry, jt_state := JOB_STOPPED, jt_last_error := ESP_OK\<rparr>
      in case entry of
           None \<Rightarrow> r
         | Some e \<Rightarrow>
             (case snd (solar_os_jobs_owner_name (je_name e) True JOB_OWNER_MAX) of
                None \<Rightarrow> r
              | Some w \<Rightarrow> r\<lparr>jt_owner := w\<rparr>))"

definition solar_os_jobs_init :: "jobs_env \<Rightarrow> jobs_state \<Rightarrow> esp_err \<times> jobs_state" where
  "solar_os_jobs_init env s =
     (if js_initialized s then (ESP_OK, s)
      else if jv_registry_count env \<noteq> jv_jobs_max env
           then (ESP_ERR_INVALID_SIZE,
                 s\<lparr>js_runtimes := replicate (jv_jobs_max env) runtime_zero,
                   js_count := jv_registry_count env, js_initialized := False\<rparr>)
           else (ESP_OK,
                 s\<lparr>js_runtimes := map (\<lambda>i. runtime_init (jv_registry_get env i))
                                    [0..<jv_jobs_max env],
                   js_count := jv_registry_count env, js_initialized := True\<rparr>))"

definition solar_os_jobs_count :: "jobs_env \<Rightarrow> jobs_state \<Rightarrow> nat \<times> jobs_state" where
  "solar_os_jobs_count env s =
     (case solar_os_jobs_init env s of
        (ret, s1) \<Rightarrow> if ret \<noteq> ESP_OK then (0, s1) else (js_count s1, s1))"

section \<open>Status\<close>

definition job_status_from_runtime :: "jobs_state \<Rightarrow> nat \<Rightarrow> job_status option" where
  "job_status_from_runtime s index =
     (if js_count s \<le> index then None
      else let r = runtime s index
           in case jt_entry r of
                None \<Rightarrow> None
              | Some e \<Rightarrow>
                  Some \<lparr>jx_name = je_name e, jx_summary = je_summary e,
                        jx_kind = job_kind_from_runtime r, jx_state = jt_state r,
                        jx_last_error = jt_last_error r, jx_tick_count = jt_tick_count r,
                        jx_last_tick_ms = jt_last_tick_ms r, jx_generation = jt_generation r,
                        jx_has_event = (case je_job e of None \<Rightarrow> False | Some j \<Rightarrow> jd_event j),
                        jx_detail = (case je_job e of None \<Rightarrow> False | Some j \<Rightarrow> jd_detail j),
                        jx_worker_stack_bytes =
                          (case je_job e of None \<Rightarrow> 0 | Some j \<Rightarrow> jd_worker_stack_bytes j),
                        jx_worker_stack_external =
                          (case je_job e of None \<Rightarrow> False | Some j \<Rightarrow> jd_worker_stack_external j),
                        jx_tick_stats = jt_tick_stats r,
                        jx_owner = strlcpy JOB_OWNER_MAX (jt_owner r),
                        jx_resources = take (jt_resource_count r) (jt_resources r)\<rparr>)"

definition solar_os_jobs_get ::
  "jobs_env \<Rightarrow> jobs_state \<Rightarrow> nat \<Rightarrow> job_status option \<times> jobs_state" where
  "solar_os_jobs_get env s index =
     (case solar_os_jobs_init env s of
        (ret, s1) \<Rightarrow> if ret \<noteq> ESP_OK then (None, s1) else (job_status_from_runtime s1 index, s1))"

definition status_at :: "jobs_state \<Rightarrow> nat option \<Rightarrow> job_status option" where
  "status_at s index = (case index of None \<Rightarrow> None | Some i \<Rightarrow> job_status_from_runtime s i)"

definition solar_os_jobs_get_by_name ::
  "jobs_env \<Rightarrow> jobs_state \<Rightarrow> string option \<Rightarrow> job_status option \<times> jobs_state" where
  "solar_os_jobs_get_by_name env s name =
     (case solar_os_jobs_init env s of
        (ret, s1) \<Rightarrow> if ret \<noteq> ESP_OK then (None, s1)
                    else (status_at s1 (job_index_by_name s1 name), s1))"

definition solar_os_jobs_get_by_owner ::
  "jobs_env \<Rightarrow> jobs_state \<Rightarrow> string option \<Rightarrow> job_status option \<times> jobs_state" where
  "solar_os_jobs_get_by_owner env s owner =
     (case solar_os_jobs_init env s of
        (ret, s1) \<Rightarrow> if ret \<noteq> ESP_OK then (None, s1)
                    else (status_at s1 (job_index_by_owner s1 owner), s1))"

type_synonym can_create = "u32 \<Rightarrow> bool \<Rightarrow> bool"

definition job_finish_inspection ::
  "can_create \<Rightarrow> job_status \<Rightarrow> bool \<Rightarrow> bool \<Rightarrow> job_inspection" where
  "job_finish_inspection can_create status lifecycle_busy startable =
     (let result = (\<lambda>d r. \<lparr>ji_status = status, ji_disposition = d, ji_reason = r\<rparr>)
      in if lifecycle_busy then result JOB_START_BLOCKED JOB_REASON_LIFECYCLE_BUSY
         else if jx_state status = JOB_WAITING
         then result JOB_START_WAITING_MEMORY JOB_REASON_WORKER_STACK_MEMORY
         else if jx_state status = JOB_RUNNING
         then result JOB_START_RUNNING JOB_REASON_ALREADY_RUNNING
         else if \<not> startable then result JOB_START_BLOCKED JOB_REASON_NOT_STARTABLE
         else if 0 < jx_worker_stack_bytes status
                 \<and> \<not> can_create (jx_worker_stack_bytes status) (jx_worker_stack_external status)
         then result JOB_START_WAITING_MEMORY JOB_REASON_WORKER_STACK_MEMORY
         else result JOB_START_READY JOB_REASON_NONE)"

definition job_inspection_from_runtime ::
  "jobs_state \<Rightarrow> nat \<Rightarrow> (job_status \<times> bool \<times> bool) option" where
  "job_inspection_from_runtime s index =
     (case job_status_from_runtime s index of
        None \<Rightarrow> None
      | Some status \<Rightarrow>
          let r = runtime s index
          in Some (status, jt_lifecycle_busy r,
                   (case runtime_job r of None \<Rightarrow> False | Some job \<Rightarrow> jd_start job)))"

definition inspection_at :: "can_create \<Rightarrow> jobs_state \<Rightarrow> nat option \<Rightarrow> job_inspection option" where
  "inspection_at can_create s index =
     (case index of
        None \<Rightarrow> None
      | Some i \<Rightarrow>
          (case job_inspection_from_runtime s i of
             None \<Rightarrow> None
           | Some (status, busy, startable) \<Rightarrow>
               Some (job_finish_inspection can_create status busy startable)))"

definition solar_os_jobs_inspect ::
  "jobs_env \<Rightarrow> can_create \<Rightarrow> jobs_state \<Rightarrow> nat \<Rightarrow> job_inspection option \<times> jobs_state" where
  "solar_os_jobs_inspect env can_create s index =
     (case solar_os_jobs_init env s of
        (ret, s1) \<Rightarrow> if ret \<noteq> ESP_OK then (None, s1)
                    else (inspection_at can_create s1 (Some index), s1))"

definition solar_os_jobs_inspect_by_name ::
  "jobs_env \<Rightarrow> can_create \<Rightarrow> jobs_state \<Rightarrow> string option
   \<Rightarrow> job_inspection option \<times> jobs_state" where
  "solar_os_jobs_inspect_by_name env can_create s name =
     (case solar_os_jobs_init env s of
        (ret, s1) \<Rightarrow> if ret \<noteq> ESP_OK then (None, s1)
                    else (inspection_at can_create s1 (job_index_by_name s1 name), s1))"

section \<open>Starting a job\<close>

text \<open>
  Before the lock: the argument checks, the advisory memory test and the copy of the request when
  the worker's stack is not available yet. The error is \<open>Inl\<close>.
\<close>

definition args_valid :: "int \<Rightarrow> argv \<Rightarrow> bool" where
  "args_valid argc argv \<longleftrightarrow>
     0 \<le> argc \<and> argc \<le> int APP_ARG_MAX
     \<and> (argc = 0 \<or> (case argv of
                       None \<Rightarrow> False
                     | Some l \<Rightarrow> nat argc \<le> length l
                                \<and> list_all (\<lambda>a. a \<noteq> None \<and> length (cstr a) < APP_ARG_LEN)
                                    (take (nat argc) l)))"

definition worker_wanted :: "job_desc option \<Rightarrow> bool" where
  "worker_wanted job \<longleftrightarrow> (case job of None \<Rightarrow> False | Some j \<Rightarrow> 0 < jd_worker_stack_bytes j)"

definition job_can_create :: "can_create \<Rightarrow> job_desc option \<Rightarrow> bool" where
  "job_can_create can_create job =
     (case job of
        None \<Rightarrow> False
      | Some j \<Rightarrow> can_create (jd_worker_stack_bytes j) (jd_worker_stack_external j))"

definition jobs_start_admit ::
  "jobs_env \<Rightarrow> can_create \<Rightarrow> nat option \<Rightarrow> jobs_state \<Rightarrow> string option \<Rightarrow> int \<Rightarrow> argv
   \<Rightarrow> (esp_err + pending_start option) \<times> jobs_state" where
  "jobs_start_admit env can_create block s name argc argv =
     (case solar_os_jobs_init env s of
        (ret, s1) \<Rightarrow>
          (if ret \<noteq> ESP_OK then Inl ret
           else if \<not> args_valid argc argv then Inl ESP_ERR_INVALID_ARG
           else (case job_index_by_name s1 name of
                   None \<Rightarrow> Inl ESP_ERR_NOT_FOUND
                 | Some i \<Rightarrow>
                     let job = runtime_job (runtime s1 i);
                         wait_for_memory = worker_wanted job \<and> \<not> job_can_create can_create job
                     in if \<not> wait_for_memory then Inr None
                        else (case job_pending_start_create block argc argv of
                                None \<Rightarrow> Inl ESP_ERR_NO_MEM
                              | Some p \<Rightarrow> Inr (Some p))),
           s1))"

text \<open>The first critical section: the caller takes the job's lifecycle.\<close>

record lifecycle_claim =
  lc_index :: nat
  lc_generation :: u32
  lc_stop :: bool
  lc_start :: bool
  lc_pending :: "pending_start option"

definition jobs_start_begin ::
  "nat \<Rightarrow> jobs_state \<Rightarrow> string option \<Rightarrow> (esp_err + lifecycle_claim) \<times> jobs_state" where
  "jobs_start_begin task s name =
     (case job_index_by_name s name of
        None \<Rightarrow> (Inl ESP_ERR_NOT_FOUND, s)
      | Some i \<Rightarrow>
          let r = runtime s i
          in case runtime_job r of
               None \<Rightarrow> (Inl ESP_ERR_INVALID_STATE, s)
             | Some job \<Rightarrow>
                 if jt_lifecycle_busy r then (Inl ESP_ERR_INVALID_STATE, s)
                 else if jt_callback_refs r \<noteq> 0 \<and> jt_callback_task r = Some task
                 then (Inl ESP_ERR_INVALID_STATE, s)
                 else
                   let generation = job_next_generation (jt_generation r)
                   in (Inr \<lparr>lc_index = i, lc_generation = generation,
                            lc_stop = (jt_state r = JOB_RUNNING \<and> jd_stop job),
                            lc_start = jd_start job, lc_pending = jt_pending_start r\<rparr>,
                       job_clear_resources_by_index i
                         (upd_runtime i (\<lambda>r. r\<lparr>jt_lifecycle_busy := True,
                                               jt_pending_start := None,
                                               jt_generation := generation,
                                               jt_state := JOB_STOPPED\<rparr>) s)))"

definition callbacks_drained :: "jobs_state \<Rightarrow> nat \<Rightarrow> bool" where
  "callbacks_drained s i \<longleftrightarrow> jt_callback_refs (runtime s i) = 0"

definition reset_ticks :: "job_runtime \<Rightarrow> job_runtime" where
  "reset_ticks r = r\<lparr>jt_tick_count := 0, jt_last_tick_ms := 0,
     jt_tick_stats := the (solar_os_tick_stats_reset (Some (jt_tick_stats r)))\<rparr>"

text \<open>The request is queued until the worker's stack is available.\<close>

definition jobs_start_queue ::
  "nat \<Rightarrow> u32 \<Rightarrow> pending_start \<Rightarrow> jobs_state \<Rightarrow> bool \<times> jobs_state" where
  "jobs_start_queue i generation new_pending s =
     (let r = runtime s i
      in if jt_generation r = generation \<and> jt_lifecycle_busy r
         then (True, upd_runtime i (\<lambda>r. reset_ticks (r\<lparr>jt_pending_start := Some new_pending,
                                                       jt_last_error := ESP_OK,
                                                       jt_state := JOB_WAITING,
                                                       jt_lifecycle_busy := False\<rparr>)) s)
         else (False, s))"

text \<open>
  After the job's start code returned \<open>ret\<close>: a launch that lost the race for memory is queued like
  one that was not admitted.
\<close>

definition jobs_start_repend ::
  "nat option \<Rightarrow> job_desc option \<Rightarrow> esp_err \<Rightarrow> int \<Rightarrow> argv \<Rightarrow> pending_start option" where
  "jobs_start_repend block admission_job ret argc argv =
     (if ret = ESP_ERR_NO_MEM \<and> worker_wanted admission_job
      then job_pending_start_create block argc argv else None)"

definition jobs_start_finish ::
  "nat \<Rightarrow> u32 \<Rightarrow> esp_err \<Rightarrow> pending_start option \<Rightarrow> jobs_state \<Rightarrow> bool \<times> jobs_state" where
  "jobs_start_finish i generation ret new_pending s =
     (let r = runtime s i
      in if jt_generation r = generation \<and> jt_lifecycle_busy r
         then
           (case new_pending of
              Some p \<Rightarrow>
                (True, upd_runtime i (\<lambda>r. (reset_ticks r)\<lparr>jt_pending_start := Some p,
                                             jt_last_error := ESP_OK, jt_state := JOB_WAITING,
                                             jt_lifecycle_busy := False\<rparr>) s)
            | None \<Rightarrow>
                let s1 = upd_runtime i (\<lambda>r. (reset_ticks r)\<lparr>jt_last_error := ret,
                           jt_state := (if ret = ESP_OK then JOB_RUNNING else JOB_FAILED),
                           jt_lifecycle_busy := False\<rparr>) s
                in (False, if ret \<noteq> ESP_OK then job_clear_resources_by_index i s1 else s1))
         else (False, s))"

section \<open>Stopping a job\<close>

text \<open>
  \<open>ST_done\<close> is an early return; \<open>ST_deferred\<close> leaves the teardown to the callback this task is
  running; \<open>ST_wait\<close> is the caller that waits for the callbacks and then tears the job down.
\<close>

datatype stop_outcome = ST_done esp_err | ST_deferred | ST_wait lifecycle_claim

definition jobs_stop_begin ::
  "nat \<Rightarrow> jobs_state \<Rightarrow> string option \<Rightarrow> stop_outcome \<times> jobs_state" where
  "jobs_stop_begin task s name =
     (case job_index_by_name s name of
        None \<Rightarrow> (ST_done ESP_ERR_NOT_FOUND, s)
      | Some i \<Rightarrow>
          let r = runtime s i
          in if jt_lifecycle_busy r then (ST_done ESP_ERR_INVALID_STATE, s)
             else if jt_state r \<noteq> JOB_RUNNING
             then (ST_done ESP_OK,
                   job_pending_start_free (jt_pending_start r) False
                     (job_clear_resources_by_index i
                        (upd_runtime i (\<lambda>r. r\<lparr>jt_pending_start := None,
                                              jt_state := JOB_STOPPED\<rparr>) s)))
             else
               let stop = (case runtime_job r of None \<Rightarrow> False | Some job \<Rightarrow> jd_stop job);
                   stop_after_callback = (jt_callback_refs r \<noteq> 0 \<and> jt_callback_task r = Some task);
                   generation = job_next_generation (jt_generation r);
                   s1 = job_clear_resources_by_index i
                          (upd_runtime i (\<lambda>r. r\<lparr>jt_lifecycle_busy := True,
                                                jt_stop_after_callback := stop_after_callback,
                                                jt_generation := generation,
                                                jt_state := JOB_STOPPED\<rparr>) s)
               in (if stop_after_callback then ST_deferred
                   else ST_wait \<lparr>lc_index = i, lc_generation = generation, lc_stop = stop,
                                 lc_start = False, lc_pending = None\<rparr>, s1))"

definition jobs_stop_enter ::
  "jobs_env \<Rightarrow> nat \<Rightarrow> jobs_state \<Rightarrow> string option \<Rightarrow> stop_outcome \<times> jobs_state" where
  "jobs_stop_enter env task s name =
     (case solar_os_jobs_init env s of
        (ret, s1) \<Rightarrow> if ret \<noteq> ESP_OK then (ST_done ret, s1) else jobs_stop_begin task s1 name)"

text \<open>The end of \<open>job_complete_stop\<close>, once the job's stop code has returned.\<close>

definition job_complete_stop :: "nat \<Rightarrow> u32 \<Rightarrow> jobs_state \<Rightarrow> jobs_state" where
  "job_complete_stop i generation s =
     (let r = runtime s i
      in if jt_generation r = generation \<and> jt_lifecycle_busy r
         then upd_runtime i (\<lambda>r. r\<lparr>jt_last_error := ESP_OK, jt_lifecycle_busy := False\<rparr>) s
         else s)"

definition solar_os_jobs_get_generation ::
  "jobs_env \<Rightarrow> jobs_state \<Rightarrow> string option \<Rightarrow> bool \<Rightarrow> (esp_err \<times> u32 option) \<times> jobs_state" where
  "solar_os_jobs_get_generation env s name generation_present =
     (if \<not> generation_present then ((ESP_ERR_INVALID_ARG, None), s)
      else case solar_os_jobs_init env s of
             (ret, s1) \<Rightarrow>
               (if ret \<noteq> ESP_OK then (ret, None)
                else case job_index_by_name s1 name of
                       None \<Rightarrow> (ESP_ERR_NOT_FOUND, None)
                     | Some i \<Rightarrow> (ESP_OK, Some (jt_generation (runtime s1 i))), s1))"

definition solar_os_jobs_mark_stopped ::
  "jobs_env \<Rightarrow> jobs_state \<Rightarrow> string option \<Rightarrow> u32 \<Rightarrow> esp_err \<Rightarrow> esp_err \<times> jobs_state" where
  "solar_os_jobs_mark_stopped env s name generation last_error =
     (case solar_os_jobs_init env s of
        (ret, s1) \<Rightarrow>
          if ret \<noteq> ESP_OK then (ret, s1)
          else case job_index_by_name s1 name of
                 None \<Rightarrow> (ESP_ERR_NOT_FOUND, s1)
               | Some i \<Rightarrow>
                   let r = runtime s1 i
                   in if generation = 0 \<or> jt_generation r \<noteq> generation \<or> jt_lifecycle_busy r
                      then (ESP_ERR_INVALID_STATE, s1)
                      else (ESP_OK,
                            job_clear_resources_by_index i
                              (upd_runtime i (\<lambda>r. r\<lparr>jt_state := JOB_STOPPED,
                                                    jt_last_error := last_error\<rparr>) s1)))"

section \<open>Retrying a queued start\<close>

text \<open>
  The first critical section reads the request; between it and the second one the memory test runs
  outside the lock.
\<close>

definition retry_read :: "nat \<Rightarrow> jobs_state \<Rightarrow> (job_desc \<times> nat \<times> u32) option" where
  "retry_read i s =
     (if i < js_count s
      then let r = runtime s i
           in case (jt_pending_start r, runtime_job r) of
                (Some pending, Some job) \<Rightarrow>
                  if jt_state r = JOB_WAITING \<and> \<not> jt_lifecycle_busy r
                  then Some (job, pn_addr pending, jt_generation r) else None
              | _ \<Rightarrow> None
      else None)"

definition retry_admitted ::
  "can_create \<Rightarrow> (job_desc \<times> nat \<times> u32) option \<Rightarrow> (nat \<times> u32) option" where
  "retry_admitted can_create seen =
     (case seen of
        None \<Rightarrow> None
      | Some (job, pending, generation) \<Rightarrow>
          if job_can_create can_create (Some job) then Some (pending, generation) else None)"

definition pending_is :: "job_runtime \<Rightarrow> nat \<Rightarrow> bool" where
  "pending_is r pending \<longleftrightarrow> map_option pn_addr (jt_pending_start r) = Some pending"

definition retry_claim :: "nat \<Rightarrow> nat \<Rightarrow> u32 \<Rightarrow> jobs_state \<Rightarrow> bool \<times> jobs_state" where
  "retry_claim i pending generation s =
     (let r = runtime s i
      in if jt_generation r = generation \<and> jt_state r = JOB_WAITING
            \<and> \<not> jt_lifecycle_busy r \<and> pending_is r pending
         then (True, upd_runtime i (\<lambda>r. r\<lparr>jt_lifecycle_busy := True\<rparr>) s)
         else (False, s))"

text \<open>\<open>job_call_start\<close>: the arguments the start code is called with, when it is called.\<close>

definition job_call_start ::
  "job_desc option \<Rightarrow> pending_start option \<Rightarrow> (int \<times> string list) option" where
  "job_call_start job pending =
     (case (job, pending) of
        (Some j, Some p) \<Rightarrow> if jd_start j then Some (pn_argc p, take (nat (pn_argc p)) (pn_args p))
                           else None
      | _ \<Rightarrow> None)"

definition retry_finish ::
  "nat \<Rightarrow> nat \<Rightarrow> u32 \<Rightarrow> esp_err \<Rightarrow> jobs_state \<Rightarrow> bool \<times> jobs_state" where
  "retry_finish i pending generation ret s =
     (let r = runtime s i
      in if jt_generation r = generation \<and> jt_state r = JOB_WAITING
            \<and> jt_lifecycle_busy r \<and> pending_is r pending
         then
           let s1 = upd_runtime i (\<lambda>r. r\<lparr>jt_last_error := ret, jt_lifecycle_busy := False\<rparr>) s
           in if ret = ESP_ERR_NO_MEM then (False, s1)
              else let s2 = upd_runtime i (\<lambda>r. r\<lparr>jt_pending_start := None,
                              jt_state := (if ret = ESP_OK then JOB_RUNNING else JOB_FAILED)\<rparr>) s1;
                       s3 = (if ret \<noteq> ESP_OK then job_clear_resources_by_index i s2 else s2)
                   in (True, solar_os_task_note_wait_finished (ret = ESP_OK) s3)
         else (False, s))"

section \<open>Ticks\<close>

definition tick_enter :: "nat \<Rightarrow> nat \<Rightarrow> u32 \<Rightarrow> jobs_state \<Rightarrow> u32 option \<times> jobs_state" where
  "tick_enter i task now_ms s =
     (let r = runtime s i
      in case runtime_job r of
           None \<Rightarrow> (None, s)
         | Some job \<Rightarrow>
             if jt_state r = JOB_RUNNING \<and> \<not> jt_lifecycle_busy r \<and> jd_event job
             then
               let (due, stats) =
                     solar_os_tick_due (Some (jt_tick_stats r)) (jd_tick_interval_ms job)
                       (jd_tick_deadline_ms job) TICK_INTERVAL_DEFAULT_MS
                       TICK_DEADLINE_DEFAULT_MS now_ms;
                   s1 = upd_runtime i (\<lambda>r. r\<lparr>jt_tick_stats := the stats\<rparr>) s
               in if due
                  then (Some (jt_generation r),
                        upd_runtime i (\<lambda>r. r\<lparr>jt_callback_refs := jt_callback_refs r + 1,
                                             jt_callback_task := Some task\<rparr>) s1)
                  else (None, s1)
             else (None, s))"

text \<open>
  After the event code returned: the reference is dropped, a stop that was deferred to this moment
  is claimed, and the tick is accounted unless the job was stopped or restarted meanwhile.
\<close>

definition tick_drop_reference :: "job_runtime \<Rightarrow> bool \<times> job_runtime" where
  "tick_drop_reference r =
     (let r1 = (if 0 < jt_callback_refs r then r\<lparr>jt_callback_refs := jt_callback_refs r - 1\<rparr> else r)
      in if jt_callback_refs r1 = 0
         then let r2 = r1\<lparr>jt_callback_task := None\<rparr>
              in if jt_stop_after_callback r2 \<and> jt_lifecycle_busy r2 \<and> jt_state r2 = JOB_STOPPED
                 then (True, r2\<lparr>jt_stop_after_callback := False\<rparr>)
                 else (False, r2)
         else (False, r1))"

definition tick_account ::
  "u32 \<Rightarrow> int \<Rightarrow> int \<Rightarrow> u32 \<Rightarrow> job_runtime \<Rightarrow> bool \<times> job_runtime" where
  "tick_account generation started_us timer_us now_ms r =
     (if jt_generation r = generation \<and> jt_state r = JOB_RUNNING
      then let (missed, stats) = solar_os_tick_end (Some (jt_tick_stats r)) started_us timer_us
           in (missed, r\<lparr>jt_tick_stats := the stats, jt_tick_count := ts_dispatch_count (the stats),
                         jt_last_tick_ms := now_ms\<rparr>)
      else (False, r))"

text \<open>The deferred stop that the callback's task now runs, whether to log a miss, and the state.\<close>

definition tick_leave ::
  "nat \<Rightarrow> u32 \<Rightarrow> int \<Rightarrow> int \<Rightarrow> u32 \<Rightarrow> jobs_state
   \<Rightarrow> lifecycle_claim option \<times> bool \<times> jobs_state" where
  "tick_leave i generation started_us timer_us now_ms s =
     (let (deferred, r1) = tick_drop_reference (runtime s i);
          claim = (if deferred
                   then Some \<lparr>lc_index = i, lc_generation = jt_generation r1,
                              lc_stop = (case runtime_job r1 of None \<Rightarrow> False
                                                              | Some job \<Rightarrow> jd_stop job),
                              lc_start = False, lc_pending = None\<rparr>
                   else None);
          (missed, r2) = tick_account generation started_us timer_us now_ms r1
      in (claim, missed \<and> solar_os_tick_should_log_miss (Some (jt_tick_stats r2)),
          upd_runtime i (\<lambda>_. r2) s))"

definition solar_os_jobs_requested_tick_interval_ms :: "jobs_state \<Rightarrow> u32" where
  "solar_os_jobs_requested_tick_interval_ms s =
     foldl (\<lambda>interval_ms r.
              case runtime_job r of
                None \<Rightarrow> interval_ms
              | Some job \<Rightarrow>
                  if jt_state r \<noteq> JOB_RUNNING \<or> \<not> jd_event job then interval_ms
                  else let requested_ms = solar_os_tick_interval_ms (jd_tick_interval_ms job)
                                            TICK_INTERVAL_DEFAULT_MS
                       in if requested_ms < interval_ms then requested_ms else interval_ms)
       TICK_INTERVAL_DEFAULT_MS (take (js_count s) (js_runtimes s))"

section \<open>Resources and error details\<close>

definition note_resource_in ::
  "job_runtime \<Rightarrow> job_resource_type \<Rightarrow> string \<Rightarrow> string option \<Rightarrow> esp_err \<times> job_runtime" where
  "note_resource_in r type resource detail =
     (case first_index (\<lambda>e. jr_type e = type \<and> jr_name e = resource)
             (take (jt_resource_count r) (jt_resources r)) of
        Some k \<Rightarrow>
          (ESP_OK, r\<lparr>jt_resources := (jt_resources r)[k := (jt_resources r ! k)
             \<lparr>jr_detail := strlcpy JOB_RESOURCE_DETAIL_MAX (cstr detail)\<rparr>]\<rparr>)
      | None \<Rightarrow>
          if JOB_RESOURCE_MAX \<le> jt_resource_count r then (ESP_ERR_NO_MEM, r)
          else (ESP_OK, r\<lparr>jt_resources := (jt_resources r)[jt_resource_count r :=
                            \<lparr>jr_type = type, jr_name = strlcpy JOB_RESOURCE_NAME_MAX resource,
                             jr_detail = strlcpy JOB_RESOURCE_DETAIL_MAX (cstr detail)\<rparr>],
                          jt_resource_count := jt_resource_count r + 1\<rparr>))"

definition solar_os_jobs_note_resource ::
  "jobs_env \<Rightarrow> jobs_state \<Rightarrow> string option \<Rightarrow> job_resource_type \<Rightarrow> string option \<Rightarrow> string option
   \<Rightarrow> esp_err \<times> jobs_state" where
  "solar_os_jobs_note_resource env s name type resource detail =
     (case solar_os_jobs_init env s of
        (ret, s1) \<Rightarrow>
          if ret \<noteq> ESP_OK then (ret, s1)
          else if type = JOB_RESOURCE_NONE \<or> resource = None \<or> resource = Some []
          then (ESP_ERR_INVALID_ARG, s1)
          else case job_index_by_name s1 name of
                 None \<Rightarrow> (ESP_ERR_NOT_FOUND, s1)
               | Some i \<Rightarrow>
                   (case note_resource_in (runtime s1 i) type (the resource) detail of
                      (err, r) \<Rightarrow> (err, upd_runtime i (\<lambda>_. r) s1)))"

definition solar_os_jobs_clear_resources ::
  "jobs_env \<Rightarrow> jobs_state \<Rightarrow> string option \<Rightarrow> jobs_state" where
  "solar_os_jobs_clear_resources env s name =
     (case solar_os_jobs_init env s of
        (ret, s1) \<Rightarrow>
          if ret \<noteq> ESP_OK then s1
          else case job_index_by_name s1 name of
                 None \<Rightarrow> s1
               | Some i \<Rightarrow> job_clear_resources_by_index i s1)"

text \<open>\<open>port_claim\<close> is the port service: from the port's name and the owner, its error code.\<close>

definition solar_os_jobs_claim_port ::
  "jobs_env \<Rightarrow> (string option \<Rightarrow> string \<Rightarrow> esp_err) \<Rightarrow> jobs_state \<Rightarrow> string option \<Rightarrow> string option
   \<Rightarrow> esp_err \<times> jobs_state" where
  "solar_os_jobs_claim_port env port_claim s name port_name =
     (case solar_os_jobs_owner_name name True JOB_OWNER_MAX of
        (err, owner) \<Rightarrow>
          if err \<noteq> ESP_OK then (err, s)
          else let claimed = port_claim port_name (cstr owner)
               in if claimed \<noteq> ESP_OK then (claimed, s)
                  else (ESP_OK, snd (solar_os_jobs_note_resource env s name JOB_RESOURCE_PORT
                                       port_name (Some ''rw''))))"

text \<open>
  \<open>detail_text\<close> is what the job's own \<open>error_detail\<close> code leaves in the empty buffer; the second
  component is the buffer, \<open>None\<close> when it was not touched.
\<close>

definition solar_os_jobs_get_error_detail ::
  "jobs_env \<Rightarrow> (nat \<Rightarrow> string) \<Rightarrow> jobs_state \<Rightarrow> string option \<Rightarrow> bool \<Rightarrow> nat
   \<Rightarrow> (bool \<times> string option) \<times> jobs_state" where
  "solar_os_jobs_get_error_detail env detail_text s name buffer_present buffer_len =
     (if name = None \<or> name = Some [] \<or> \<not> buffer_present \<or> buffer_len = 0
      then ((False, None), s)
      else case solar_os_jobs_init env s of
             (ret, s1) \<Rightarrow>
               (if ret \<noteq> ESP_OK then (False, None)
                else case job_index_by_name s1 name of
                       None \<Rightarrow> (False, Some [])
                     | Some i \<Rightarrow>
                         (case runtime_job (runtime s1 i) of
                            None \<Rightarrow> (False, Some [])
                          | Some job \<Rightarrow>
                              if jd_error_detail job
                              then (detail_text buffer_len \<noteq> [], Some (detail_text buffer_len))
                              else (False, Some [])), s1))"

section \<open>Names\<close>

definition solar_os_job_state_name :: "job_state \<Rightarrow> string" where
  "solar_os_job_state_name state =
     (case state of
        JOB_STOPPED \<Rightarrow> ''stopped''
      | JOB_WAITING \<Rightarrow> ''waiting''
      | JOB_RUNNING \<Rightarrow> ''running''
      | JOB_FAILED \<Rightarrow> ''failed'')"

definition solar_os_job_kind_name :: "job_kind \<Rightarrow> string" where
  "solar_os_job_kind_name kind =
     (case kind of
        JOB_KIND_BACKGROUND \<Rightarrow> ''background''
      | JOB_KIND_INTERACTIVE \<Rightarrow> ''interactive'')"

definition solar_os_job_resource_type_name :: "job_resource_type \<Rightarrow> string" where
  "solar_os_job_resource_type_name type =
     (case type of
        JOB_RESOURCE_PORT \<Rightarrow> ''port''
      | JOB_RESOURCE_FILE \<Rightarrow> ''file''
      | JOB_RESOURCE_NET \<Rightarrow> ''net''
      | JOB_RESOURCE_STREAM \<Rightarrow> ''stream''
      | JOB_RESOURCE_CUSTOM \<Rightarrow> ''custom''
      | JOB_RESOURCE_NONE \<Rightarrow> ''none'')"

definition solar_os_job_start_disposition_name :: "job_start_disposition \<Rightarrow> string" where
  "solar_os_job_start_disposition_name disposition =
     (case disposition of
        JOB_START_READY \<Rightarrow> ''ready''
      | JOB_START_RUNNING \<Rightarrow> ''running''
      | JOB_START_WAITING_MEMORY \<Rightarrow> ''waiting_for_memory''
      | JOB_START_BLOCKED \<Rightarrow> ''blocked'')"

definition solar_os_job_start_reason_name :: "job_start_reason \<Rightarrow> string" where
  "solar_os_job_start_reason_name reason =
     (case reason of
        JOB_REASON_NONE \<Rightarrow> ''none''
      | JOB_REASON_ALREADY_RUNNING \<Rightarrow> ''already_running''
      | JOB_REASON_WORKER_STACK_MEMORY \<Rightarrow> ''worker_stack_memory''
      | JOB_REASON_LIFECYCLE_BUSY \<Rightarrow> ''lifecycle_busy''
      | JOB_REASON_NOT_STARTABLE \<Rightarrow> ''not_startable'')"

end
