(* ===== verification/JobsSafety.thy ===== *)
theory JobsSafety
  imports JobsCore "HOL-Library.Multiset"
begin

text \<open>
  The job manager under concurrency. Shell sessions, the main loop, network workers and the job's
  own code call it from different tasks, and a job's start, stop and event code runs outside the
  spin lock. An activity is one call of the module that has left its first critical section; a
  configuration is the module's state with the multiset of the activities in flight, each with its
  task (a task whose event code calls the shell has several). One step is one critical section or
  one return of a job's code.
\<close>

section \<open>Activities\<close>

datatype start_phase = SP_wait | SP_stopping | SP_launch | SP_starting | SP_ended esp_err

datatype stop_phase = TP_wait | TP_stopping

datatype retry_phase = RP_seen | RP_starting | RP_ended esp_err

datatype activity =
    AC_admitted "string option" int argv "pending_start option"
  | AC_start start_phase lifecycle_claim int argv "pending_start option"
  | AC_note_queued
  | AC_stop stop_phase lifecycle_claim
  | AC_retry retry_phase nat nat u32
  | AC_event nat u32 int u32

type_synonym activities = "(nat \<times> activity) multiset"

text \<open>The rest of \<open>solar_os_jobs_start\<close>, \<open>ret\<close> being what the job's start code returns.\<close>

definition start_advance ::
  "nat option \<Rightarrow> esp_err \<Rightarrow> jobs_state \<Rightarrow> start_phase \<Rightarrow> lifecycle_claim \<Rightarrow> int \<Rightarrow> argv
   \<Rightarrow> pending_start option \<Rightarrow> activity option \<times> jobs_state" where
  "start_advance block ret s phase c argc argv new_pending =
     (case phase of
        SP_wait \<Rightarrow>
          (Some (AC_start (if callbacks_drained s (lc_index c) then SP_stopping else SP_wait)
                   c argc argv new_pending), s)
      | SP_stopping \<Rightarrow>
          (Some (AC_start SP_launch c argc argv new_pending),
           job_pending_start_free (lc_pending c) False s)
      | SP_launch \<Rightarrow>
          (case new_pending of
             None \<Rightarrow> (Some (AC_start SP_starting c argc argv None), s)
           | Some p \<Rightarrow>
               (case jobs_start_queue (lc_index c) (lc_generation c) p s of
                  (queued, s1) \<Rightarrow> (if queued then Some AC_note_queued else None, s1)))
      | SP_starting \<Rightarrow>
          let r = (if lc_start c then ret else ESP_OK)
          in (Some (AC_start (SP_ended r) c argc argv
                      (jobs_start_repend block (runtime_job (runtime s (lc_index c))) r argc argv)), s)
      | SP_ended r \<Rightarrow>
          (case jobs_start_finish (lc_index c) (lc_generation c) r new_pending s of
             (queued, s1) \<Rightarrow> (if queued then Some AC_note_queued else None, s1)))"

definition stop_advance ::
  "jobs_state \<Rightarrow> stop_phase \<Rightarrow> lifecycle_claim \<Rightarrow> activity option \<times> jobs_state" where
  "stop_advance s phase c =
     (case phase of
        TP_wait \<Rightarrow>
          (Some (AC_stop (if callbacks_drained s (lc_index c) then TP_stopping else TP_wait) c), s)
      | TP_stopping \<Rightarrow> (None, job_complete_stop (lc_index c) (lc_generation c) s))"

definition retry_advance ::
  "esp_err \<Rightarrow> jobs_state \<Rightarrow> retry_phase \<Rightarrow> nat \<Rightarrow> nat \<Rightarrow> u32 \<Rightarrow> activity option \<times> jobs_state" where
  "retry_advance ret s phase i pending generation =
     (case phase of
        RP_seen \<Rightarrow>
          (case retry_claim i pending generation s of
             (claimed, s1) \<Rightarrow>
               (if claimed then Some (AC_retry RP_starting i pending generation) else None, s1))
      | RP_starting \<Rightarrow>
          (Some (AC_retry (RP_ended (if job_call_start (runtime_job (runtime s i))
                                         (jt_pending_start (runtime s i)) = None
                                     then ESP_OK else ret)) i pending generation), s)
      | RP_ended r \<Rightarrow> (None, snd (retry_finish i pending generation r s)))"

text \<open>What an activity does next and what is left of it.\<close>

definition activity_advance ::
  "nat option \<Rightarrow> esp_err \<Rightarrow> int \<Rightarrow> nat \<Rightarrow> jobs_state \<Rightarrow> activity \<Rightarrow> activity option \<times> jobs_state" where
  "activity_advance block ret timer_us task s a =
     (case a of
        AC_admitted name argc argv new_pending \<Rightarrow>
          (case jobs_start_begin task s name of
             (Inl err, s1) \<Rightarrow> (None, s1)
           | (Inr c, s1) \<Rightarrow> (Some (AC_start SP_wait c argc argv new_pending), s1))
      | AC_start phase c argc argv new_pending \<Rightarrow>
          start_advance block ret s phase c argc argv new_pending
      | AC_note_queued \<Rightarrow> (None, solar_os_task_note_wait_queued s)
      | AC_stop phase c \<Rightarrow> stop_advance s phase c
      | AC_retry phase i pending generation \<Rightarrow> retry_advance ret s phase i pending generation
      | AC_event i generation started_us now_ms \<Rightarrow>
          (case tick_leave i generation started_us timer_us now_ms s of
             (claim, log, s1) \<Rightarrow> (map_option (AC_stop TP_stopping) claim, s1)))"

text \<open>
  Calls that are one critical section. The steps below start the others: \<open>solar_os_jobs_tick\<close> is, for
  each index in turn, \<open>jp_retry\<close> with the steps of its \<open>AC_retry\<close>, then \<open>jp_tick\<close> with those of its
  \<open>AC_event\<close> and, for a deferred stop, of its \<open>AC_stop\<close>.
\<close>

inductive jobs_query :: "jobs_env \<Rightarrow> jobs_state \<Rightarrow> jobs_state \<Rightarrow> bool" for env where
  jq_count: "jobs_query env s (snd (solar_os_jobs_count env s))"
| jq_get: "jobs_query env s (snd (solar_os_jobs_get env s index))"
| jq_get_by_name: "jobs_query env s (snd (solar_os_jobs_get_by_name env s name))"
| jq_get_by_owner: "jobs_query env s (snd (solar_os_jobs_get_by_owner env s owner))"
| jq_inspect: "jobs_query env s (snd (solar_os_jobs_inspect env can_create s index))"
| jq_inspect_by_name: "jobs_query env s (snd (solar_os_jobs_inspect_by_name env can_create s name))"
| jq_get_generation: "jobs_query env s (snd (solar_os_jobs_get_generation env s name present))"
| jq_error_detail: "jobs_query env s (snd (solar_os_jobs_get_error_detail env detail s name present len))"
| jq_mark_stopped: "jobs_query env s (snd (solar_os_jobs_mark_stopped env s name generation err))"
| jq_note_resource: "jobs_query env s (snd (solar_os_jobs_note_resource env s name type resource det))"
| jq_clear_resources: "jobs_query env s (solar_os_jobs_clear_resources env s name)"
| jq_claim_port: "jobs_query env s (snd (solar_os_jobs_claim_port env port_claim s name port))"

definition stop_activity :: "stop_outcome \<Rightarrow> activity option" where
  "stop_activity out = (case out of ST_wait c \<Rightarrow> Some (AC_stop TP_wait c) | _ \<Rightarrow> None)"

definition in_flight :: "nat \<Rightarrow> activity option \<Rightarrow> activities" where
  "in_flight task a = (case a of None \<Rightarrow> {#} | Some b \<Rightarrow> {#(task, b)#})"

inductive jobs_step ::
  "jobs_env \<Rightarrow> jobs_state \<times> activities \<Rightarrow> jobs_state \<times> activities \<Rightarrow> bool" for env where
  jp_query: "jobs_query env s s' \<Longrightarrow> jobs_step env (s, A) (s', A)"
| jp_start: "jobs_start_admit env can_create block s name argc argv = (res, s')
    \<Longrightarrow> jobs_step env (s, A)
          (s', A + in_flight task (case res of Inl err \<Rightarrow> None
                                   | Inr p \<Rightarrow> Some (AC_admitted name argc argv p)))"
| jp_stop: "jobs_stop_enter env task s name = (out, s')
    \<Longrightarrow> jobs_step env (s, A) (s', A + in_flight task (stop_activity out))"
| jp_retry: "js_initialized s \<Longrightarrow> retry_admitted can_create (retry_read i s) = Some (pending, generation)
    \<Longrightarrow> jobs_step env (s, A) (s, A + in_flight task (Some (AC_retry RP_seen i pending generation)))"
| jp_tick: "js_initialized s \<Longrightarrow> i < js_count s \<Longrightarrow> tick_enter i task now_ms s = (out, s')
    \<Longrightarrow> jobs_step env (s, A)
          (s', A + in_flight task (map_option (\<lambda>generation. AC_event i generation started_us now_ms) out))"
| jp_advance: "activity_advance block ret timer_us task s a = (a', s')
    \<Longrightarrow> jobs_step env (s, add_mset (task, a) A) (s', A + in_flight task a')"

inductive jobs_reachable :: "jobs_env \<Rightarrow> jobs_state \<times> activities \<Rightarrow> bool" for env where
  jr_boot: "jobs_reachable env (jobs_boot env, {#})"
| jr_step: "jobs_reachable env c \<Longrightarrow> jobs_step env c c' \<Longrightarrow> jobs_reachable env c'"

section \<open>Who owns a job\<close>

text \<open>The activity took the lifecycle of job \<open>i\<close> and has not given it back.\<close>

definition holds_lifecycle :: "nat \<Rightarrow> activity \<Rightarrow> bool" where
  "holds_lifecycle i a \<longleftrightarrow>
     (case a of AC_start phase c _ _ _ \<Rightarrow> lc_index c = i | AC_stop phase c \<Rightarrow> lc_index c = i
      | AC_retry phase j _ _ \<Rightarrow> j = i \<and> phase \<noteq> RP_seen | _ \<Rightarrow> False)"

text \<open>The activity is running, or about to run or just back from, the start or stop code.\<close>

definition runs_lifecycle_code :: "nat \<Rightarrow> activity \<Rightarrow> bool" where
  "runs_lifecycle_code i a \<longleftrightarrow>
     (case a of AC_start phase c _ _ _ \<Rightarrow> lc_index c = i \<and> phase \<noteq> SP_wait
      | AC_stop phase c \<Rightarrow> lc_index c = i \<and> phase = TP_stopping
      | AC_retry phase j _ _ \<Rightarrow> j = i \<and> phase \<noteq> RP_seen | _ \<Rightarrow> False)"

definition runs_event_code :: "nat \<Rightarrow> activity \<Rightarrow> bool" where
  "runs_event_code i a \<longleftrightarrow> (case a of AC_event j _ _ _ \<Rightarrow> j = i | _ \<Rightarrow> False)"

definition activity_generation :: "activity \<Rightarrow> u32" where
  "activity_generation a =
     (case a of AC_start _ c _ _ _ \<Rightarrow> lc_generation c | AC_stop _ c \<Rightarrow> lc_generation c
      | AC_retry _ _ _ g \<Rightarrow> g | AC_event _ g _ _ \<Rightarrow> g | _ \<Rightarrow> 0)"

definition lifecycle_holders :: "nat \<Rightarrow> activities \<Rightarrow> nat" where
  "lifecycle_holders i A = size (filter_mset (\<lambda>x. holds_lifecycle i (snd x)) A)"

definition event_calls :: "nat \<Rightarrow> activities \<Rightarrow> nat" where
  "event_calls i A = size (filter_mset (\<lambda>x. runs_event_code i (snd x)) A)"

text \<open>What a holder may rely on in the record of its job.\<close>

definition holder_ok :: "nat \<Rightarrow> job_runtime \<Rightarrow> activity \<Rightarrow> bool" where
  "holder_ok i r a \<longleftrightarrow>
     activity_generation a = jt_generation r
     \<and> (runs_lifecycle_code i a \<longrightarrow> jt_callback_refs r = 0)
     \<and> (case a of
          AC_retry _ _ pending _ \<Rightarrow> jt_state r = JOB_WAITING \<and> pending_is r pending
        | AC_start _ _ _ _ _ \<Rightarrow> jt_state r = JOB_STOPPED \<and> jt_pending_start r = None
        | _ \<Rightarrow> jt_state r = JOB_STOPPED)"

definition job_inv :: "nat \<Rightarrow> job_runtime \<Rightarrow> activities \<Rightarrow> bool" where
  "job_inv i r A \<longleftrightarrow>
     jt_callback_refs r = event_calls i A
     \<and> lifecycle_holders i A = (if jt_lifecycle_busy r \<and> \<not> jt_stop_after_callback r then 1 else 0)
     \<and> (\<forall>x \<in># A. holds_lifecycle i (snd x) \<longrightarrow> holder_ok i r (snd x))
     \<and> (jt_stop_after_callback r \<longrightarrow>
          jt_lifecycle_busy r \<and> jt_state r = JOB_STOPPED \<and> 0 < jt_callback_refs r)
     \<and> (jt_state r = JOB_WAITING \<longrightarrow> jt_pending_start r \<noteq> None \<and> jt_callback_refs r = 0)"

definition activity_index :: "activity \<Rightarrow> nat option" where
  "activity_index a =
     (case a of AC_start _ c _ _ _ \<Rightarrow> Some (lc_index c) | AC_stop _ c \<Rightarrow> Some (lc_index c)
      | AC_retry _ i _ _ \<Rightarrow> Some i | AC_event i _ _ _ \<Rightarrow> Some i | _ \<Rightarrow> None)"

definition jobs_inv :: "jobs_state \<times> activities \<Rightarrow> bool" where
  "jobs_inv c \<longleftrightarrow>
     (case c of (s, A) \<Rightarrow>
        (\<not> js_initialized s \<longrightarrow> A = {#})
        \<and> (js_initialized s \<longrightarrow>
             length (js_runtimes s) = js_count s
             \<and> (\<forall>x \<in># A. \<forall>i. activity_index (snd x) = Some i \<longrightarrow> i < js_count s)
             \<and> (\<forall>i < js_count s. job_inv i (runtime s i) A)))"

section \<open>The invariant of one job\<close>

abbreviation opt_holds :: "nat \<Rightarrow> activity option \<Rightarrow> bool" where
  "opt_holds i a \<equiv> (\<exists>b. a = Some b \<and> holds_lifecycle i b)"

abbreviation opt_event :: "nat \<Rightarrow> activity option \<Rightarrow> bool" where
  "opt_event i a \<equiv> (\<exists>b. a = Some b \<and> runs_event_code i b)"

lemma flight_count:
  "lifecycle_holders i (A + in_flight t a) = lifecycle_holders i A + (if opt_holds i a then 1 else 0)"
  "event_calls i (A + in_flight t a) = event_calls i A + (if opt_event i a then 1 else 0)"
  by (auto simp: in_flight_def lifecycle_holders_def event_calls_def split: option.splits)

lemma job_inv_flight:
  "job_inv i r (A + in_flight t a) \<longleftrightarrow>
     jt_callback_refs r = event_calls i A + (if opt_event i a then 1 else 0)
     \<and> lifecycle_holders i A + (if opt_holds i a then 1 else 0)
         = (if jt_lifecycle_busy r \<and> \<not> jt_stop_after_callback r then 1 else 0)
     \<and> (\<forall>x \<in># A. holds_lifecycle i (snd x) \<longrightarrow> holder_ok i r (snd x))
     \<and> (\<forall>b. a = Some b \<longrightarrow> holds_lifecycle i b \<longrightarrow> holder_ok i r b)
     \<and> (jt_stop_after_callback r \<longrightarrow>
          jt_lifecycle_busy r \<and> jt_state r = JOB_STOPPED \<and> 0 < jt_callback_refs r)
     \<and> (jt_state r = JOB_WAITING \<longrightarrow> jt_pending_start r \<noteq> None \<and> jt_callback_refs r = 0)"
proof -
  have "(\<forall>x \<in># A + in_flight t a. P (snd x)) \<longleftrightarrow> (\<forall>x \<in># A. P (snd x)) \<and> (\<forall>b. a = Some b \<longrightarrow> P b)"
    for P by (auto simp: in_flight_def split: option.splits)
  from this [of "\<lambda>b. holds_lifecycle i b \<longrightarrow> holder_ok i r b"] show ?thesis
    unfolding job_inv_def flight_count by blast
qed

lemma no_holders: "lifecycle_holders i A = 0 \<longleftrightarrow> (\<forall>x \<in># A. \<not> holds_lifecycle i (snd x))"
  by (auto simp: lifecycle_holders_def)

lemma holder_index: "holds_lifecycle i a \<Longrightarrow> activity_index a = Some i"
  by (auto simp: holds_lifecycle_def activity_index_def split: activity.splits)

lemma event_index: "runs_event_code i a \<longleftrightarrow> (\<exists>g t n. a = AC_event i g t n)"
  by (auto simp: runs_event_code_def split: activity.splits)

lemma holder_not_event: "holds_lifecycle i a \<Longrightarrow> \<not> runs_event_code j a"
  by (auto simp: holds_lifecycle_def runs_event_code_def split: activity.splits)

text \<open>The holder moves on or gives the lifecycle back.\<close>

lemma holder_replace:
  assumes inv: "job_inv i r (A + in_flight t (Some a))" and a: "holds_lifecycle i a"
    and refs: "jt_callback_refs r' = jt_callback_refs r" "\<not> jt_stop_after_callback r'"
    and a': "\<not> opt_event i a'" "opt_holds i a' = jt_lifecycle_busy r'"
      "\<And>b. a' = Some b \<Longrightarrow> holds_lifecycle i b \<Longrightarrow> holder_ok i r' b"
    and w: "jt_state r' = JOB_WAITING \<Longrightarrow> jt_pending_start r' \<noteq> None \<and> jt_callback_refs r' = 0"
  shows "job_inv i r' (A + in_flight t a')"
proof -
  have "lifecycle_holders i A = 0"
    using inv a unfolding job_inv_flight by (simp split: if_splits)
  moreover have "event_calls i A = jt_callback_refs r"
    using inv holder_not_event [OF a] unfolding job_inv_flight by simp
  ultimately show ?thesis
    using refs a' w unfolding job_inv_flight by (simp add: no_holders)
qed

text \<open>A free job is taken.\<close>

lemma holder_take:
  assumes inv: "job_inv i r A" and free: "\<not> jt_lifecycle_busy r"
    and r': "jt_callback_refs r' = jt_callback_refs r" "\<not> jt_stop_after_callback r'"
      "jt_lifecycle_busy r'"
    and a: "holds_lifecycle i a" "holder_ok i r' a"
    and w: "jt_state r' = JOB_WAITING \<Longrightarrow> jt_pending_start r' \<noteq> None \<and> jt_callback_refs r' = 0"
  shows "job_inv i r' (A + in_flight t (Some a))"
proof -
  have "lifecycle_holders i A = 0" using inv free unfolding job_inv_def by simp
  moreover have "jt_callback_refs r = event_calls i A" using inv by (simp add: job_inv_def)
  ultimately show ?thesis
    using r' a w holder_not_event [OF a(1), of i] unfolding job_inv_flight by (simp add: no_holders)
qed

text \<open>An activity that neither holds the job nor runs its event code.\<close>

lemma bystander:
  assumes "\<not> opt_holds i a" "\<not> opt_event i a"
  shows "job_inv i r (A + in_flight t a) \<longleftrightarrow> job_inv i r A"
  using assms unfolding job_inv_flight unfolding job_inv_def by auto

lemma holder_ok_cong:
  assumes "jt_generation r' = jt_generation r" "jt_callback_refs r' = jt_callback_refs r"
    "jt_state r' = jt_state r" "jt_pending_start r' = jt_pending_start r"
  shows "holder_ok i r' a = holder_ok i r a"
  unfolding holder_ok_def pending_is_def assms ..

text \<open>The record of a free job changes, or a field the lifecycle does not use.\<close>

lemma record_change:
  assumes inv: "job_inv i r A"
    and same: "jt_callback_refs r' = jt_callback_refs r" "jt_lifecycle_busy r' = jt_lifecycle_busy r"
      "jt_stop_after_callback r' = jt_stop_after_callback r"
    and busy: "jt_lifecycle_busy r \<Longrightarrow> jt_generation r' = jt_generation r \<and> jt_state r' = jt_state r
                 \<and> jt_pending_start r' = jt_pending_start r"
    and w: "jt_state r' = JOB_WAITING \<Longrightarrow> jt_pending_start r' \<noteq> None \<and> jt_callback_refs r' = 0"
  shows "job_inv i r' A"
proof (cases "jt_lifecycle_busy r")
  case True
  then show ?thesis using inv same w busy holder_ok_cong [of r' r i] unfolding job_inv_def by auto
next
  case False
  then have "lifecycle_holders i A = 0" using inv unfolding job_inv_def by simp
  then show ?thesis using inv same w False unfolding job_inv_def by (simp add: no_holders)
qed

section \<open>The invariant of the table\<close>

definition runtime_set :: "nat \<Rightarrow> job_runtime \<Rightarrow> jobs_state \<Rightarrow> jobs_state \<Rightarrow> bool" where
  "runtime_set i r s s' \<longleftrightarrow>
     js_initialized s' = js_initialized s \<and> js_count s' = js_count s
     \<and> js_runtimes s' = (js_runtimes s)[i := r]"

lemma inv_local:
  assumes inv: "jobs_inv (s, A + in_flight t a)" and init: "js_initialized s"
    and s': "runtime_set i r' s s'" and i: "i < js_count s"
    and a: "\<And>b j. a = Some b \<Longrightarrow> activity_index b = Some j \<Longrightarrow> j = i"
    and a': "\<And>b j. a' = Some b \<Longrightarrow> activity_index b = Some j \<Longrightarrow> j = i"
    and local: "job_inv i (runtime s i) (A + in_flight t a) \<Longrightarrow> job_inv i r' (A + in_flight t a')"
  shows "jobs_inv (s', A + in_flight t a')"
proof -
  have len: "length (js_runtimes s) = js_count s" using inv init by (simp add: jobs_inv_def)
  have "job_inv j (runtime s' j) (A + in_flight t a')" if j: "j < js_count s" for j
  proof (cases "j = i")
    case True
    then show ?thesis using inv init local s' i len by (simp add: jobs_inv_def runtime_set_def)
  next
    case False
    then have "job_inv j (runtime s j) A"
      using inv init j a bystander [of a j "runtime s j" A t] holder_index event_index
      by (fastforce simp: jobs_inv_def activity_index_def)
    then show ?thesis
      using False a' s' bystander [of a' j "runtime s j" A t] holder_index event_index
      by (fastforce simp: runtime_set_def activity_index_def)
  qed
  then show ?thesis
    using inv init len s' i a' unfolding jobs_inv_def
    by (auto simp: flight_count runtime_set_def in_flight_def split: option.splits)
qed

lemma inv_drop: "jobs_inv (s, add_mset x A) \<Longrightarrow> js_initialized s"
  by (auto simp: jobs_inv_def)

lemma runtime_set_simps:
  assumes "i < js_count s" and "length (js_runtimes s) = js_count s"
  shows "runtime_set i (runtime s i) s s"
    "runtime_set i r s s' \<Longrightarrow> runtime_set i (f r) s (upd_runtime i f s')"
    "runtime_set i r s s' \<Longrightarrow> runtime_set i (job_clear_resources r) s (job_clear_resources_by_index i s')"
    "runtime_set i r s s' \<Longrightarrow> runtime_set i r s (solar_os_task_note_wait_finished launched s')"
    "runtime_set i r s s' \<Longrightarrow> runtime_set i r s (job_pending_start_free p launched s')"
  using assms
  by (simp_all add: runtime_set_def upd_runtime_def job_clear_resources_by_index_def Let_def
      solar_os_task_note_wait_finished_def job_pending_start_free_def split: option.splits)

lemma index_by_name_bound:
  assumes "job_index_by_name s name = Some i"
  shows "i < js_count s \<and> i < length (js_runtimes s)"
  using assms first_index_Some [of _ "take (js_count s) (js_runtimes s)" i]
  by (auto simp: job_index_by_name_def split: option.splits if_splits)

lemma inv_member:
  assumes "jobs_inv (s, A + in_flight t (Some a))"
  shows "js_initialized s" "length (js_runtimes s) = js_count s"
    "activity_index a = Some i \<Longrightarrow> i < js_count s"
    "i < js_count s \<Longrightarrow> job_inv i (runtime s i) (A + in_flight t (Some a))"
  using assms by (auto simp: jobs_inv_def in_flight_def)

lemma holder_facts:
  assumes "job_inv i r (A + in_flight t (Some a))" "holds_lifecycle i a"
  shows "jt_lifecycle_busy r" "\<not> jt_stop_after_callback r" "holder_ok i r a"
  using assms by (auto simp: job_inv_flight split: if_splits)

lemma inv_same:
  assumes inv: "jobs_inv (s, A + in_flight t a)" and init: "js_initialized s"
    and s': "js_initialized s'" "js_count s' = js_count s" "js_runtimes s' = js_runtimes s"
    and a: "\<And>i. \<not> opt_holds i a" "\<And>i. \<not> opt_event i a"
    and a': "\<And>i. \<not> opt_holds i a'" "\<And>i. \<not> opt_event i a'"
      "\<And>b i. a' = Some b \<Longrightarrow> activity_index b = Some i \<Longrightarrow> i < js_count s"
  shows "jobs_inv (s', A + in_flight t a')"
proof -
  have "job_inv i (runtime s' i) (A + in_flight t a')" if "i < js_count s" for i
  proof -
    have "job_inv i (runtime s i) (A + in_flight t a)" using inv init that by (simp add: jobs_inv_def)
    then show ?thesis unfolding s'(3) bystander [OF a] bystander [OF a'(1,2)] .
  qed
  then show ?thesis using inv init s' a'(3) by (auto simp: jobs_inv_def in_flight_def split: option.splits)
qed

lemma inv_enter:
  assumes "jobs_inv (s, A)" and "js_initialized s"
    and "\<And>i. \<not> holds_lifecycle i a" "\<And>i. \<not> runs_event_code i a"
      "\<And>i. activity_index a = Some i \<Longrightarrow> i < js_count s"
  shows "jobs_inv (s, A + in_flight t (Some a))"
proof (rule inv_same)
  show "jobs_inv (s, A + in_flight t None)" using assms(1) by (simp add: in_flight_def)
qed (use assms in auto)

text \<open>One step of the holder of job \<open>i\<close>.\<close>

lemma holder_step:
  assumes inv: "jobs_inv (s, A + in_flight t (Some a))" and a: "holds_lifecycle i a"
    and s': "runtime_set i r' s s'"
    and refs: "jt_callback_refs r' = jt_callback_refs (runtime s i)" "\<not> jt_stop_after_callback r'"
    and a': "\<not> opt_event i a'" "opt_holds i a' = jt_lifecycle_busy r'"
      "\<And>b. a' = Some b \<Longrightarrow> holds_lifecycle i b \<Longrightarrow> holder_ok i r' b"
      "\<And>b j. a' = Some b \<Longrightarrow> activity_index b = Some j \<Longrightarrow> j = i"
    and w: "jt_state r' = JOB_WAITING \<Longrightarrow> jt_pending_start r' \<noteq> None \<and> jt_callback_refs r' = 0"
  shows "jobs_inv (s', A + in_flight t a')"
proof (rule inv_local [OF inv inv_member(1) [OF inv] s'])
  show "i < js_count s" using inv_member(3) [OF inv] holder_index [OF a] by blast
  show "j = i" if "Some a = Some b" "activity_index b = Some j" for b j
    using that holder_index [OF a] by simp
qed (use a' holder_replace [OF _ a refs a'(1-3) w] in auto)

text \<open>A call takes a free job.\<close>

lemma taker_step:
  assumes inv: "jobs_inv (s, A + in_flight t a)" and init: "js_initialized s" and i: "i < js_count s"
    and a: "\<not> opt_holds i a" "\<not> opt_event i a"
      "\<And>b j. a = Some b \<Longrightarrow> activity_index b = Some j \<Longrightarrow> j = i"
    and s': "runtime_set i r' s s'" and free: "\<not> jt_lifecycle_busy (runtime s i)"
    and r': "jt_callback_refs r' = jt_callback_refs (runtime s i)" "\<not> jt_stop_after_callback r'"
      "jt_lifecycle_busy r'"
    and b: "holds_lifecycle i b" "holder_ok i r' b"
    and w: "jt_state r' = JOB_WAITING \<Longrightarrow> jt_pending_start r' \<noteq> None \<and> jt_callback_refs r' = 0"
  shows "jobs_inv (s', A + in_flight t (Some b))"
proof (rule inv_local [OF inv init s' i a(3)])
  show "j = i" if "Some b = Some b'" "activity_index b' = Some j" for b' j
    using that holder_index [OF b(1)] by simp
  show "job_inv i r' (A + in_flight t (Some b))" if "job_inv i (runtime s i) (A + in_flight t a)"
    using holder_take [OF _ free r' b w] that bystander [OF a(1,2)] by blast
qed

section \<open>Every step keeps the invariant\<close>

lemmas job_views = holder_ok_def holds_lifecycle_def runs_lifecycle_code_def runs_event_code_def
  activity_generation_def activity_index_def

lemma start_begin_inv:
  assumes inv: "jobs_inv (s, A + in_flight t (Some (AC_admitted name argc argv p)))"
    and st: "jobs_start_begin task s name = (res, s')"
  shows "jobs_inv (s', A + in_flight t (case res of Inl err \<Rightarrow> None
                                       | Inr c \<Rightarrow> Some (AC_start SP_wait c argc argv p)))"
proof (cases res)
  case (Inl err)
  then have "s' = s" using st
    by (auto simp: jobs_start_begin_def Let_def split: option.splits if_splits)
  then show ?thesis using Inl
    by (intro inv_same [OF inv inv_member(1) [OF inv]]) (simp_all add: job_views inv_member(1) [OF inv])
next
  case (Inr c)
  then obtain i job where i: "job_index_by_name s name = Some i"
    "\<not> jt_lifecycle_busy (runtime s i)" "runtime_job (runtime s i) = Some job"
    "c = \<lparr>lc_index = i, lc_generation = job_next_generation (jt_generation (runtime s i)),
          lc_stop = (jt_state (runtime s i) = JOB_RUNNING \<and> jd_stop job),
          lc_start = jd_start job, lc_pending = jt_pending_start (runtime s i)\<rparr>"
    "s' = job_clear_resources_by_index i
            (upd_runtime i (\<lambda>r. r\<lparr>jt_lifecycle_busy := True, jt_pending_start := None,
               jt_generation := job_next_generation (jt_generation (runtime s i)),
               jt_state := JOB_STOPPED\<rparr>) s)"
    using st by (auto simp: jobs_start_begin_def Let_def split: option.splits if_splits)
  note b = index_by_name_bound [OF i(1)]
  have ji: "job_inv i (runtime s i) (A + in_flight t (Some (AC_admitted name argc argv p)))"
    using inv_member(4) [OF inv] b by blast
  show ?thesis unfolding Inr sum.case
  proof (rule taker_step [OF inv inv_member(1) [OF inv] _ _ _ _ _ i(2)])
    show "runtime_set i (job_clear_resources ((runtime s i)\<lparr>jt_lifecycle_busy := True,
        jt_pending_start := None, jt_generation := job_next_generation (jt_generation (runtime s i)),
        jt_state := JOB_STOPPED\<rparr>)) s s'"
      unfolding i(5) using b inv_member(2) [OF inv] by (intro runtime_set_simps) simp_all
  qed (use b i(2,4) ji in \<open>auto simp: job_views job_clear_resources_def job_inv_def\<close>)
qed

lemma start_advance_inv:
  assumes inv: "jobs_inv (s, A + in_flight t (Some (AC_start phase c argc argv p)))"
    and st: "start_advance block ret s phase c argc argv p = (a', s')"
  shows "jobs_inv (s', A + in_flight t a')"
proof -
  define i where "i = lc_index c"
  have h: "holds_lifecycle i (AC_start phase c argc argv p)" by (simp add: i_def holds_lifecycle_def)
  have i: "i < js_count s" using inv_member(3) [OF inv] holder_index [OF h] by blast
  note len = inv_member(2) [OF inv]
  note set = runtime_set_simps [OF i len]
  have set0: "s' = s \<Longrightarrow> runtime_set i (runtime s i) s s'" using set(1) by simp
  have set1: "s' = upd_runtime i g s \<Longrightarrow> runtime_set i (g (runtime s i)) s s'" for g
    using set(2) [OF set(1)] by simp
  note f = holder_facts [OF inv_member(4) [OF inv i] h]
  have ok: "jt_generation (runtime s i) = lc_generation c" "jt_state (runtime s i) = JOB_STOPPED"
    "jt_pending_start (runtime s i) = None" "phase \<noteq> SP_wait \<Longrightarrow> jt_callback_refs (runtime s i) = 0"
    using f(3) by (auto simp: job_views i_def)
  note step = holder_step [OF inv h]
  show ?thesis
  proof (cases phase)
    case SP_wait
    then show ?thesis using st f ok
      by (intro step [OF set0]) (auto simp: start_advance_def job_views callbacks_drained_def i_def)
  next
    case SP_stopping
    then have "runtime_set i (runtime s i) s s'" using st set(1) set(5) by (auto simp: start_advance_def)
    then show ?thesis using SP_stopping st f ok
      by (intro step) (auto simp: start_advance_def job_views i_def)
  next
    case SP_launch
    show ?thesis
    proof (cases p)
      case None
      then show ?thesis using SP_launch st f ok
        by (intro step [OF set0]) (auto simp: start_advance_def job_views i_def)
    next
      case (Some q)
      then have a': "a' = Some AC_note_queued" and u: "s' = upd_runtime i
          (\<lambda>r. reset_ticks (r\<lparr>jt_pending_start := Some q, jt_last_error := ESP_OK,
             jt_state := JOB_WAITING, jt_lifecycle_busy := False\<rparr>)) s"
        using SP_launch st f ok by (auto simp: start_advance_def jobs_start_queue_def Let_def i_def)
      show ?thesis unfolding a'
        by (rule step [OF set1 [OF u]])
          (use f ok SP_launch in \<open>auto simp: job_views reset_ticks_def\<close>)
    qed
  next
    case SP_starting
    then show ?thesis using st f ok
      by (intro step [OF set0]) (auto simp: start_advance_def job_views i_def Let_def)
  next
    case (SP_ended r')
    show ?thesis
    proof (cases p)
      case (Some q)
      then have a': "a' = Some AC_note_queued" and u: "s' = upd_runtime i
          (\<lambda>r. (reset_ticks r)\<lparr>jt_pending_start := Some q, jt_last_error := ESP_OK,
             jt_state := JOB_WAITING, jt_lifecycle_busy := False\<rparr>) s"
        using SP_ended st f ok by (auto simp: start_advance_def jobs_start_finish_def Let_def i_def)
      show ?thesis unfolding a'
        by (rule step [OF set1 [OF u]])
          (use f ok SP_ended in \<open>auto simp: job_views reset_ticks_def\<close>)
    next
      case None
      define s1 where "s1 = upd_runtime i (\<lambda>r. (reset_ticks r)\<lparr>jt_last_error := r',
           jt_state := (if r' = ESP_OK then JOB_RUNNING else JOB_FAILED), jt_lifecycle_busy := False\<rparr>) s"
      have a': "a' = None" and u: "s' = (if r' \<noteq> ESP_OK then job_clear_resources_by_index i s1 else s1)"
        using SP_ended None st f ok
        by (auto simp: start_advance_def jobs_start_finish_def Let_def i_def s1_def)
      define r1 where "r1 = (reset_ticks (runtime s i))\<lparr>jt_last_error := r',
           jt_state := (if r' = ESP_OK then JOB_RUNNING else JOB_FAILED), jt_lifecycle_busy := False\<rparr>"
      have s1: "runtime_set i r1 s s1" unfolding s1_def r1_def by (rule set(2) [OF set(1)])
      then have "runtime_set i (if r' \<noteq> ESP_OK then job_clear_resources r1 else r1) s s'"
        unfolding u using set(3) [OF s1] by simp
      then show ?thesis unfolding a'
        by (rule step) (use f ok SP_ended in \<open>auto simp: r1_def job_views reset_ticks_def job_clear_resources_def split: if_splits\<close>)
    qed
  qed
qed

lemma stop_advance_inv:
  assumes inv: "jobs_inv (s, A + in_flight t (Some (AC_stop phase c)))"
    and st: "stop_advance s phase c = (a', s')"
  shows "jobs_inv (s', A + in_flight t a')"
proof -
  define i where "i = lc_index c"
  have h: "holds_lifecycle i (AC_stop phase c)" by (simp add: i_def holds_lifecycle_def)
  have i: "i < js_count s" using inv_member(3) [OF inv] holder_index [OF h] by blast
  note set = runtime_set_simps [OF i inv_member(2) [OF inv]]
  note f = holder_facts [OF inv_member(4) [OF inv i] h]
  have ok: "jt_generation (runtime s i) = lc_generation c" "jt_state (runtime s i) = JOB_STOPPED"
    "phase = TP_stopping \<Longrightarrow> jt_callback_refs (runtime s i) = 0"
    using f(3) by (auto simp: job_views i_def)
  show ?thesis
  proof (cases phase)
    case TP_wait
    then have "runtime_set i (runtime s i) s s'" using st set(1) by (auto simp: stop_advance_def)
    then show ?thesis using TP_wait st f ok
      by (intro holder_step [OF inv h]) (auto simp: stop_advance_def job_views callbacks_drained_def i_def)
  next
    case TP_stopping
    then have a': "a' = None"
      and u: "s' = upd_runtime i (\<lambda>r. r\<lparr>jt_last_error := ESP_OK, jt_lifecycle_busy := False\<rparr>) s"
      using st f ok by (auto simp: stop_advance_def job_complete_stop_def Let_def i_def)
    have "runtime_set i ((runtime s i)\<lparr>jt_last_error := ESP_OK, jt_lifecycle_busy := False\<rparr>) s s'"
      unfolding u by (rule set(2) [OF set(1)])
    then show ?thesis unfolding a'
      by (rule holder_step [OF inv h]) (use f ok TP_stopping in \<open>auto simp: job_views\<close>)
  qed
qed

lemma retry_seen_inv:
  assumes inv: "jobs_inv (s, A + in_flight t (Some (AC_retry RP_seen i pending generation)))"
    and st: "retry_advance ret s RP_seen i pending generation = (a', s')"
  shows "jobs_inv (s', A + in_flight t a')"
proof (cases "fst (retry_claim i pending generation s)")
  case False
  then have "a' = None" "s' = s"
    using st by (auto simp: retry_advance_def retry_claim_def Let_def split: if_splits)
  then show ?thesis
    by (intro inv_same [OF inv inv_member(1) [OF inv]]) (simp_all add: job_views inv_member(1) [OF inv])
next
  case True
  have i: "i < js_count s" using inv_member(3) [OF inv, of i] by (simp add: activity_index_def)
  note set = runtime_set_simps [OF i inv_member(2) [OF inv]]
  have r: "jt_generation (runtime s i) = generation" "jt_state (runtime s i) = JOB_WAITING"
    "\<not> jt_lifecycle_busy (runtime s i)" "pending_is (runtime s i) pending"
    "a' = Some (AC_retry RP_starting i pending generation)"
    and u: "s' = upd_runtime i (\<lambda>r. r\<lparr>jt_lifecycle_busy := True\<rparr>) s"
    using st True by (auto simp: retry_advance_def retry_claim_def Let_def split: if_splits)
  note ji = inv_member(4) [OF inv i]
  have s': "runtime_set i ((runtime s i)\<lparr>jt_lifecycle_busy := True\<rparr>) s s'"
    unfolding u by (rule set(2) [OF set(1)])
  show ?thesis unfolding r(5)
    by (rule taker_step [OF inv inv_member(1) [OF inv] i _ _ _ s' r(3)])
      (use r ji in \<open>auto simp: job_views job_inv_def pending_is_def\<close>)
qed

lemma retry_advance_inv:
  assumes inv: "jobs_inv (s, A + in_flight t (Some (AC_retry phase i pending generation)))"
    and st: "retry_advance ret s phase i pending generation = (a', s')"
  shows "jobs_inv (s', A + in_flight t a')"
proof (cases "phase = RP_seen")
  case True
  then show ?thesis using retry_seen_inv inv st by simp
next
  case ph: False
  then have h: "holds_lifecycle i (AC_retry phase i pending generation)" by (simp add: holds_lifecycle_def)
  have i: "i < js_count s" using inv_member(3) [OF inv] holder_index [OF h] by blast
  note set = runtime_set_simps [OF i inv_member(2) [OF inv]]
  note f = holder_facts [OF inv_member(4) [OF inv i] h]
  have ok: "jt_generation (runtime s i) = generation" "jt_state (runtime s i) = JOB_WAITING"
    "pending_is (runtime s i) pending" "jt_callback_refs (runtime s i) = 0"
    using f(3) ph by (auto simp: job_views)
  have p: "jt_pending_start (runtime s i) \<noteq> None" using ok(3) by (auto simp: pending_is_def)
  show ?thesis
  proof (cases phase)
    case RP_seen
    then show ?thesis using ph by simp
  next
    case RP_starting
    then have "runtime_set i (runtime s i) s s'" using st set(1) by (auto simp: retry_advance_def)
    then show ?thesis using RP_starting st f ok p
      by (intro holder_step [OF inv h]) (auto simp: retry_advance_def job_views)
  next
    case (RP_ended r')
    define r1 where "r1 = (runtime s i)\<lparr>jt_last_error := r', jt_lifecycle_busy := False\<rparr>"
    define r2 where "r2 = r1\<lparr>jt_pending_start := None,
        jt_state := (if r' = ESP_OK then JOB_RUNNING else JOB_FAILED)\<rparr>"
    have a': "a' = None" using RP_ended st by (simp add: retry_advance_def)
    have "runtime_set i (if r' = ESP_ERR_NO_MEM then r1
        else if r' \<noteq> ESP_OK then job_clear_resources r2 else r2) s s'"
      using RP_ended st f ok set(1) unfolding retry_advance_def retry_finish_def r1_def r2_def
      by (auto simp: Let_def intro!: set(2-5))
    then show ?thesis unfolding a'
      by (rule holder_step [OF inv h])
        (use f ok p in \<open>auto simp: r1_def r2_def job_views job_clear_resources_def split: if_splits\<close>)
  qed
qed

lemma tick_drop_fields:
  assumes "tick_drop_reference r = (deferred, r1)" and "0 < jt_callback_refs r"
  shows "jt_callback_refs r1 = jt_callback_refs r - 1" "jt_state r1 = jt_state r"
    "jt_generation r1 = jt_generation r" "jt_lifecycle_busy r1 = jt_lifecycle_busy r"
    "jt_pending_start r1 = jt_pending_start r" "runtime_job r1 = runtime_job r"
    "deferred \<longleftrightarrow> jt_callback_refs r = 1 \<and> jt_stop_after_callback r \<and> jt_lifecycle_busy r
       \<and> jt_state r = JOB_STOPPED"
    "jt_stop_after_callback r1 \<longleftrightarrow> jt_stop_after_callback r \<and> \<not> deferred"
  using assms by (auto simp: tick_drop_reference_def runtime_job_def Let_def split: if_splits)

lemma tick_account_fields:
  assumes "tick_account generation started timer now r = (missed, r1)"
  shows "jt_callback_refs r1 = jt_callback_refs r" "jt_state r1 = jt_state r"
    "jt_generation r1 = jt_generation r" "jt_lifecycle_busy r1 = jt_lifecycle_busy r"
    "jt_pending_start r1 = jt_pending_start r" "jt_stop_after_callback r1 = jt_stop_after_callback r"
  using assms by (auto simp: tick_account_def split: if_splits prod.splits)

text \<open>The event code returns.\<close>

lemma event_leave_record:
  assumes inv: "job_inv i r (A + in_flight t (Some (AC_event i generation started now)))"
    and r': "jt_callback_refs r' = jt_callback_refs r - 1" "jt_state r' = jt_state r"
      "jt_generation r' = jt_generation r" "jt_lifecycle_busy r' = jt_lifecycle_busy r"
      "jt_pending_start r' = jt_pending_start r"
      "jt_stop_after_callback r' \<longleftrightarrow> jt_stop_after_callback r \<and> \<not> deferred"
    and d: "deferred \<longleftrightarrow> jt_callback_refs r = 1 \<and> jt_stop_after_callback r \<and> jt_lifecycle_busy r
       \<and> jt_state r = JOB_STOPPED"
    and c: "lc_index c = i" "lc_generation c = jt_generation r"
  shows "job_inv i r' (A + in_flight t (if deferred then Some (AC_stop TP_stopping c) else None))"
proof -
  have ev: "jt_callback_refs r = event_calls i A + 1"
    and no: "\<not> holds_lifecycle i (AC_event i generation started now)"
    using inv by (auto simp: job_inv_flight job_views)
  have hold: "lifecycle_holders i A = (if jt_lifecycle_busy r \<and> \<not> jt_stop_after_callback r then 1 else 0)"
    and ok: "\<forall>x \<in># A. holds_lifecycle i (snd x) \<longrightarrow> holder_ok i r (snd x)"
    using inv no unfolding job_inv_flight by simp_all
  show ?thesis
  proof (cases deferred)
    case True
    then have "lifecycle_holders i A = 0" using d hold by simp
    then show ?thesis using True d r' c ev unfolding job_inv_flight by (auto simp: no_holders job_views)
  next
    case False
    have "\<not> runs_lifecycle_code i (snd x)" if "x \<in># A" "holds_lifecycle i (snd x)" for x
      using ok that ev by (auto simp: holder_ok_def)
    moreover have "holder_ok i r' a" if "holder_ok i r a" "\<not> runs_lifecycle_code i a" for a
      using that r' by (cases a) (simp_all add: holder_ok_def pending_is_def)
    ultimately have "\<forall>x \<in># A. holds_lifecycle i (snd x) \<longrightarrow> holder_ok i r' (snd x)" using ok by blast
    then show ?thesis using False d r' hold ev inv unfolding job_inv_flight by auto
  qed
qed

lemma event_advance_inv:
  assumes inv: "jobs_inv (s, A + in_flight t (Some (AC_event i generation started now)))"
    and st: "tick_leave i generation started timer now s = (claim, log, s')"
  shows "jobs_inv (s', A + in_flight t (map_option (AC_stop TP_stopping) claim))"
proof -
  have i: "i < js_count s" using inv_member(3) [OF inv, of i] by (simp add: activity_index_def)
  note set = runtime_set_simps [OF i inv_member(2) [OF inv]]
  note ji = inv_member(4) [OF inv i]
  obtain deferred r1 where drop: "tick_drop_reference (runtime s i) = (deferred, r1)" by force
  obtain missed r2 where acct: "tick_account generation started timer now r1 = (missed, r2)" by force
  define c where "c = \<lparr>lc_index = i, lc_generation = jt_generation r1,
     lc_stop = (case runtime_job r1 of None \<Rightarrow> False | Some job \<Rightarrow> jd_stop job),
     lc_start = False, lc_pending = None\<rparr>"
  have claim: "map_option (AC_stop TP_stopping) claim
      = (if deferred then Some (AC_stop TP_stopping c) else None)"
    and s': "runtime_set i r2 s s'"
    using st set(2) [OF set(1), of "\<lambda>_. r2"] by (auto simp: tick_leave_def drop acct Let_def c_def)
  have "0 < jt_callback_refs (runtime s i)"
    using ji by (auto simp: job_inv_flight runs_event_code_def)
  note fields = tick_drop_fields [OF drop this] tick_account_fields [OF acct]
  show ?thesis unfolding claim
  proof (rule inv_local [OF inv inv_member(1) [OF inv] s' i])
    show "job_inv i r2 (A + in_flight t (if deferred then Some (AC_stop TP_stopping c) else None))"
      by (rule event_leave_record [OF ji]) (simp_all add: fields c_def)
  qed (auto simp: activity_index_def c_def split: if_splits)
qed

lemma advance_inv:
  assumes inv: "jobs_inv (s, A + in_flight t (Some a))"
    and st: "activity_advance block ret timer task s a = (a', s')"
  shows "jobs_inv (s', A + in_flight t a')"
proof (cases a)
  case (AC_admitted name argc argv p)
  obtain res s1 where b: "jobs_start_begin task s name = (res, s1)" by force
  then show ?thesis using start_begin_inv [OF inv [unfolded AC_admitted] b] st AC_admitted
    by (auto simp: activity_advance_def split: sum.splits)
next
  case (AC_start phase c argc argv p)
  then show ?thesis using start_advance_inv inv st by (simp add: activity_advance_def)
next
  case AC_note_queued
  then have "a' = None" "s' = solar_os_task_note_wait_queued s" using st by (auto simp: activity_advance_def)
  then show ?thesis using AC_note_queued
    by (intro inv_same [OF inv inv_member(1) [OF inv]]) (simp_all add: job_views solar_os_task_note_wait_queued_def inv_member(1) [OF inv])
next
  case (AC_stop phase c)
  then show ?thesis using stop_advance_inv inv st by (simp add: activity_advance_def)
next
  case (AC_retry phase i pending generation)
  then show ?thesis using retry_advance_inv inv st by (simp add: activity_advance_def)
next
  case (AC_event i generation started now)
  then show ?thesis using event_advance_inv inv st by (auto simp: activity_advance_def split: prod.splits)
qed

lemma init_inv:
  assumes inv: "jobs_inv (s, A)" and st: "solar_os_jobs_init env s = (ret, s')"
  shows "jobs_inv (s', A)" and "ret = ESP_OK \<Longrightarrow> js_initialized s'"
proof -
  have "jt_callback_refs (runtime_init e) = 0 \<and> \<not> jt_lifecycle_busy (runtime_init e)
      \<and> \<not> jt_stop_after_callback (runtime_init e) \<and> jt_state (runtime_init e) = JOB_STOPPED" for e
    by (auto simp: runtime_init_def runtime_zero_def Let_def split: option.splits)
  then have "job_inv i (runtime_init e) {#}" for i e
    by (simp add: job_inv_def lifecycle_holders_def event_calls_def)
  then show "jobs_inv (s', A)"
    using inv st by (auto simp: jobs_inv_def solar_os_jobs_init_def split: if_splits)
  show "ret = ESP_OK \<Longrightarrow> js_initialized s'" using st by (auto simp: solar_os_jobs_init_def split: if_splits)
qed

lemma record_step:
  assumes inv: "jobs_inv (s, A)" and init: "js_initialized s" and i: "job_index_by_name s name = Some i"
    and r': "jt_callback_refs r' = jt_callback_refs (runtime s i)"
      "jt_lifecycle_busy r' = jt_lifecycle_busy (runtime s i)"
      "jt_stop_after_callback r' = jt_stop_after_callback (runtime s i)"
      "jt_generation r' = jt_generation (runtime s i)"
      "jt_state r' = jt_state (runtime s i) \<or> \<not> jt_lifecycle_busy (runtime s i) \<and> jt_state r' = JOB_STOPPED"
      "jt_pending_start r' = jt_pending_start (runtime s i)
         \<or> \<not> jt_lifecycle_busy (runtime s i) \<and> jt_state r' \<noteq> JOB_WAITING"
    and s': "runtime_set i r' s s'"
  shows "jobs_inv (s', A)"
proof -
  note b = index_by_name_bound [OF i]
  have "job_inv i r' A" if "job_inv i (runtime s i) A"
    by (rule record_change [OF that r'(1-3)]) (use r' that in \<open>auto simp: job_inv_def\<close>)
  then have "job_inv i r' (A + in_flight 0 None)" if "job_inv i (runtime s i) (A + in_flight 0 None)"
    using that by (simp add: in_flight_def)
  then have "jobs_inv (s', A + in_flight 0 None)"
    using inv b by (intro inv_local [OF _ init s']) (auto simp: in_flight_def)
  then show ?thesis by (simp add: in_flight_def)
qed

lemma mark_stopped_inv:
  assumes "jobs_inv (s, A)"
  shows "jobs_inv (snd (solar_os_jobs_mark_stopped env s name generation err), A)"
proof -
  obtain ret s1 where st: "solar_os_jobs_init env s = (ret, s1)" by force
  note inv = init_inv [OF assms st]
  show ?thesis
  proof (cases "ret = ESP_OK")
    case True
    note init = inv(2) [OF True]
    show ?thesis
    proof (cases "job_index_by_name s1 name")
      case None
      then show ?thesis using True inv by (simp add: solar_os_jobs_mark_stopped_def st)
    next
      case (Some i)
      note set = runtime_set_simps [OF conjunct1 [OF index_by_name_bound [OF Some]]]
      have len: "length (js_runtimes s1) = js_count s1" using inv(1) init by (simp add: jobs_inv_def)
      show ?thesis
      proof (cases "generation = 0 \<or> jt_generation (runtime s1 i) \<noteq> generation \<or> jt_lifecycle_busy (runtime s1 i)")
        case True
        then show ?thesis using \<open>ret = ESP_OK\<close> inv Some by (simp add: solar_os_jobs_mark_stopped_def st)
      next
        case False
        then have u: "snd (solar_os_jobs_mark_stopped env s name generation err)
            = job_clear_resources_by_index i
                (upd_runtime i (\<lambda>r. r\<lparr>jt_state := JOB_STOPPED, jt_last_error := err\<rparr>) s1)"
          using True Some by (simp add: solar_os_jobs_mark_stopped_def st Let_def)
        show ?thesis unfolding u
          by (rule record_step [OF inv(1) init Some _ _ _ _ _ _ set(3) [OF len set(2) [OF len set(1) [OF len]]]])
            (use False in \<open>auto simp: job_clear_resources_def\<close>)
      qed
    qed
  next
    case False
    then show ?thesis using inv by (simp add: solar_os_jobs_mark_stopped_def st)
  qed
qed

lemma clear_resources_inv:
  assumes "jobs_inv (s, A)"
  shows "jobs_inv (solar_os_jobs_clear_resources env s name, A)"
proof -
  obtain ret s1 where st: "solar_os_jobs_init env s = (ret, s1)" by force
  note inv = init_inv [OF assms st]
  show ?thesis
  proof (cases "ret = ESP_OK \<and> job_index_by_name s1 name \<noteq> None")
    case True
    then obtain i where i: "job_index_by_name s1 name = Some i" by auto
    have init: "js_initialized s1" using inv(2) True by simp
    then have len: "length (js_runtimes s1) = js_count s1" using inv(1) by (simp add: jobs_inv_def)
    note set = runtime_set_simps [OF conjunct1 [OF index_by_name_bound [OF i]] len]
    have u: "solar_os_jobs_clear_resources env s name = job_clear_resources_by_index i s1"
      using True i by (simp add: solar_os_jobs_clear_resources_def st)
    show ?thesis unfolding u
      by (rule record_step [OF inv(1) init i _ _ _ _ _ _ set(3) [OF set(1)]])
        (auto simp: job_clear_resources_def)
  next
    case False
    then show ?thesis using inv by (auto simp: solar_os_jobs_clear_resources_def st split: option.splits)
  qed
qed

lemma note_resource_fields:
  assumes "note_resource_in r type resource detail = (err, r')"
  shows "jt_callback_refs r' = jt_callback_refs r" "jt_lifecycle_busy r' = jt_lifecycle_busy r"
    "jt_stop_after_callback r' = jt_stop_after_callback r" "jt_generation r' = jt_generation r"
    "jt_state r' = jt_state r" "jt_pending_start r' = jt_pending_start r"
  using assms by (auto simp: note_resource_in_def split: option.splits if_splits)

lemma note_resource_inv:
  assumes "jobs_inv (s, A)"
  shows "jobs_inv (snd (solar_os_jobs_note_resource env s name type resource detail), A)"
proof -
  obtain ret s1 where st: "solar_os_jobs_init env s = (ret, s1)" by force
  note inv = init_inv [OF assms st]
  show ?thesis
  proof (cases "ret = ESP_OK \<and> \<not> (type = JOB_RESOURCE_NONE \<or> resource = None \<or> resource = Some [])
      \<and> job_index_by_name s1 name \<noteq> None")
    case True
    then obtain i where i: "job_index_by_name s1 name = Some i" by auto
    have init: "js_initialized s1" using inv(2) True by simp
    then have len: "length (js_runtimes s1) = js_count s1" using inv(1) by (simp add: jobs_inv_def)
    note set = runtime_set_simps [OF conjunct1 [OF index_by_name_bound [OF i]] len]
    obtain err r' where n: "note_resource_in (runtime s1 i) type (the resource) detail = (err, r')" by force
    have u: "snd (solar_os_jobs_note_resource env s name type resource detail) = upd_runtime i (\<lambda>_. r') s1"
      using True i n by (auto simp: solar_os_jobs_note_resource_def st)
    show ?thesis unfolding u
      by (rule record_step [OF inv(1) init i _ _ _ _ _ _ set(2) [OF set(1)]])
        (simp_all add: note_resource_fields [OF n])
  next
    case False
    then show ?thesis using inv by (auto simp: solar_os_jobs_note_resource_def st split: option.splits)
  qed
qed

lemma query_inv:
  assumes "jobs_query env s s'" and inv: "jobs_inv (s, A)"
  shows "jobs_inv (s', A)"
proof -
  have initial: "jobs_inv (snd (solar_os_jobs_init env s), A)"
    using init_inv(1) [OF inv, of env] by (cases "solar_os_jobs_init env s") auto
  show ?thesis using assms(1)
  proof cases
    case jq_mark_stopped
    then show ?thesis using mark_stopped_inv [OF inv] by simp
  next
    case jq_note_resource
    then show ?thesis using note_resource_inv [OF inv] by simp
  next
    case jq_clear_resources
    then show ?thesis using clear_resources_inv [OF inv] by simp
  next
    case (jq_claim_port port_claim name port)
    then show ?thesis using inv note_resource_inv [OF inv]
      by (auto simp: solar_os_jobs_claim_port_def Let_def split: prod.splits)
  qed (use initial inv in \<open>auto simp: solar_os_jobs_count_def solar_os_jobs_get_def
      solar_os_jobs_get_by_name_def solar_os_jobs_get_by_owner_def solar_os_jobs_inspect_def
      solar_os_jobs_inspect_by_name_def solar_os_jobs_get_generation_def
      solar_os_jobs_get_error_detail_def split: prod.splits if_splits\<close>)
qed

lemma stop_enter_inv:
  assumes inv0: "jobs_inv (s, A)" and st: "jobs_stop_enter env task s name = (out, s')"
  shows "jobs_inv (s', A + in_flight task (stop_activity out))"
proof -
  obtain ret s1 where e: "solar_os_jobs_init env s = (ret, s1)" by force
  note inv = init_inv [OF inv0 e]
  show ?thesis
  proof (cases "ret = ESP_OK \<and> job_index_by_name s1 name \<noteq> None")
    case False
    then have "stop_activity out = None \<and> s' = s1"
      using st by (auto simp: jobs_stop_enter_def jobs_stop_begin_def e stop_activity_def split: if_splits)
    then show ?thesis using inv by (simp add: in_flight_def)
  next
    case True
    then obtain i where i: "job_index_by_name s1 name = Some i" by auto
    have init: "js_initialized s1" using inv(2) True by simp
    then have len: "length (js_runtimes s1) = js_count s1" using inv(1) by (simp add: jobs_inv_def)
    have ib: "i < js_count s1" using index_by_name_bound [OF i] by simp
    note set = runtime_set_simps [OF ib len]
    have ji: "job_inv i (runtime s1 i) A" using inv(1) init ib by (simp add: jobs_inv_def)
    have entered: "jobs_stop_begin task s1 name = (out, s')" using st True by (simp add: jobs_stop_enter_def e)
    show ?thesis
    proof (cases "jt_lifecycle_busy (runtime s1 i)")
      case True
      then show ?thesis using entered i inv(1)
        by (auto simp: jobs_stop_begin_def stop_activity_def in_flight_def)
    next
      case free: False
      show ?thesis
      proof (cases "jt_state (runtime s1 i) = JOB_RUNNING")
        case False
        then have "stop_activity out = None"
          and u: "s' = job_pending_start_free (jt_pending_start (runtime s1 i)) False
             (job_clear_resources_by_index i
                (upd_runtime i (\<lambda>r. r\<lparr>jt_pending_start := None, jt_state := JOB_STOPPED\<rparr>) s1))"
          using entered i free by (auto simp: jobs_stop_begin_def stop_activity_def Let_def)
        moreover have "jobs_inv (s', A)" unfolding u
          by (rule record_step [OF inv(1) init i _ _ _ _ _ _ set(5) [OF set(3) [OF set(2) [OF set(1)]]]])
            (use free in \<open>auto simp: job_clear_resources_def\<close>)
        ultimately show ?thesis by (simp add: in_flight_def)
      next
        case True
        define deferred where "deferred \<longleftrightarrow>
          jt_callback_refs (runtime s1 i) \<noteq> 0 \<and> jt_callback_task (runtime s1 i) = Some task"
        define r1 where "r1 = job_clear_resources ((runtime s1 i)\<lparr>jt_lifecycle_busy := True,
          jt_stop_after_callback := deferred,
          jt_generation := job_next_generation (jt_generation (runtime s1 i)), jt_state := JOB_STOPPED\<rparr>)"
        have s': "runtime_set i r1 s1 s'"
          using entered i free True unfolding r1_def deferred_def jobs_stop_begin_def
          by (auto simp: Let_def intro!: set(3) [OF set(2) [OF set(1)]])
        show ?thesis
        proof (cases deferred)
          case def: True
          then have out: "stop_activity out = None"
            using entered i free True by (auto simp: jobs_stop_begin_def stop_activity_def deferred_def Let_def)
          have "job_inv i r1 A" using ji free def no_holders [of i A] unfolding job_inv_def
            by (auto simp: r1_def deferred_def job_clear_resources_def)
          then have "jobs_inv (s', A + in_flight task None)"
            using inv(1) by (intro inv_local [OF _ init s' ib, of A task None]) (auto simp: in_flight_def)
          then show ?thesis unfolding out .
        next
          case False
          then obtain c where c: "out = ST_wait c" "lc_index c = i" "lc_generation c = jt_generation r1"
            using entered i free True
            by (auto simp: jobs_stop_begin_def deferred_def r1_def job_clear_resources_def Let_def)
          have "jobs_inv (s', A + in_flight task (Some (AC_stop TP_wait c)))"
            by (rule taker_step [OF _ init ib _ _ _ s' free, of A task None])
              (use inv(1) c False in \<open>auto simp: in_flight_def job_views r1_def job_clear_resources_def\<close>)
          then show ?thesis by (simp add: stop_activity_def c)
        qed
      qed
    qed
  qed
qed

lemma tick_enter_inv:
  assumes inv: "jobs_inv (s, A)" and init: "js_initialized s" and i: "i < js_count s"
    and st: "tick_enter i task now s = (out, s')"
  shows "jobs_inv (s', A + in_flight task (map_option (\<lambda>g. AC_event i g started now) out))"
proof -
  have len: "length (js_runtimes s) = js_count s" using inv init by (simp add: jobs_inv_def)
  have ji: "job_inv i (runtime s i) A" using inv init i by (simp add: jobs_inv_def)
  have inv': "jobs_inv (s, A + in_flight task None)" using inv by (simp add: in_flight_def)
  note set = runtime_set_simps [OF i len]
  show ?thesis
  proof (cases "s' = s \<and> out = None")
    case True
    then show ?thesis using inv by (simp add: in_flight_def)
  next
    case False
    then obtain job due stats where r: "runtime_job (runtime s i) = Some job" "jd_event job"
      "jt_state (runtime s i) = JOB_RUNNING" "\<not> jt_lifecycle_busy (runtime s i)"
      "solar_os_tick_due (Some (jt_tick_stats (runtime s i))) (jd_tick_interval_ms job)
         (jd_tick_deadline_ms job) TICK_INTERVAL_DEFAULT_MS TICK_DEADLINE_DEFAULT_MS now = (due, stats)"
      using st by (auto simp: tick_enter_def Let_def split: option.splits if_splits prod.splits)
    define r1 where "r1 = (runtime s i)\<lparr>jt_tick_stats := the stats\<rparr>"
    define r2 where "r2 = (if due then r1\<lparr>jt_callback_refs := jt_callback_refs r1 + 1,
                                         jt_callback_task := Some task\<rparr> else r1)"
    let ?stats = "\<lambda>r. r\<lparr>jt_tick_stats := the stats\<rparr>"
    let ?enter = "\<lambda>r. r\<lparr>jt_callback_refs := jt_callback_refs r + 1, jt_callback_task := Some task\<rparr>"
    have u: "s' = (if due then upd_runtime i ?enter (upd_runtime i ?stats s) else upd_runtime i ?stats s)"
      and out: "out = (if due then Some (jt_generation (runtime s i)) else None)"
      using st r by (auto simp: tick_enter_def Let_def)
    have s': "runtime_set i r2 s s'"
      unfolding u r2_def r1_def
      using set(2) [OF set(1), of ?stats] set(2) [OF set(2) [OF set(1), of ?stats], of ?enter] by simp
    have none: "lifecycle_holders i A = 0" using ji r(4) by (simp add: job_inv_def)
    show ?thesis
    proof (rule inv_local [OF inv' init s' i])
      show "job_inv i r2 (A + in_flight task (map_option (\<lambda>g. AC_event i g started now) out))"
        using ji r none no_holders [of i A] unfolding out job_inv_flight unfolding job_inv_def
        by (auto simp: r2_def r1_def job_views)
    qed (auto simp: out activity_index_def split: if_splits)
  qed
qed

lemma jobs_step_inv:
  assumes "jobs_step env c c'" and "jobs_inv c"
  shows "jobs_inv c'"
  using assms(1)
proof cases
  case (jp_query s s' A)
  then show ?thesis using query_inv [OF jp_query(3) assms(2) [unfolded jp_query(1)]] by simp
next
  case (jp_start can_create block s name argc argv res s' A task)
  obtain ret s1 where e: "solar_os_jobs_init env s = (ret, s1)" by force
  note inv = init_inv [OF assms(2) [unfolded jp_start(1)] e]
  have s1: "s' = s1" and ok: "\<And>p. res = Inr p \<Longrightarrow> ret = ESP_OK"
    using jp_start(3) unfolding jobs_start_admit_def e by (simp_all split: if_splits)
  show ?thesis
  proof (cases res)
    case (Inl err)
    then show ?thesis using inv(1) s1 jp_start by (simp add: in_flight_def)
  next
    case (Inr p)
    then have "js_initialized s1" using inv(2) ok by blast
    then have "jobs_inv (s1, A + in_flight task (Some (AC_admitted name argc argv p)))"
      using inv(1) by (intro inv_enter) (auto simp: job_views)
    then show ?thesis using Inr s1 jp_start by simp
  qed
next
  case (jp_stop task s name out s' A)
  then show ?thesis using stop_enter_inv [OF assms(2) [unfolded jp_stop(1)] jp_stop(3)] by simp
next
  case (jp_retry s can_create i pending generation A task)
  then have "i < js_count s"
    by (auto simp: retry_admitted_def retry_read_def split: if_splits option.splits)
  then have "jobs_inv (s, A + in_flight task (Some (AC_retry RP_seen i pending generation)))"
    using assms(2) jp_retry by (intro inv_enter) (auto simp: job_views)
  then show ?thesis using jp_retry by simp
next
  case (jp_tick s i task now_ms out s' A started)
  show ?thesis unfolding jp_tick(2)
    by (rule tick_enter_inv [OF assms(2) [unfolded jp_tick(1)] jp_tick(3-5)])
next
  case (jp_advance block ret timer task s a a' s' A)
  then show ?thesis using advance_inv [of s A task a] assms(2) by (simp add: in_flight_def)
qed

lemma jobs_reachable_inv: "jobs_reachable env c \<Longrightarrow> jobs_inv c"
proof (induction rule: jobs_reachable.induct)
  case jr_boot
  show ?case by (simp add: jobs_inv_def jobs_boot_def)
next
  case (jr_step c c')
  then show ?case using jobs_step_inv by blast
qed

section \<open>Exclusion\<close>

text \<open>
  C29. In every state the job manager can reach, whatever tasks call it and however their critical
  sections interleave, each job's lifecycle has at most one holder, and has one exactly when
  \<open>lifecycle_busy\<close> is set and no stop is deferred to a running callback. \<open>callback_refs\<close> counts the
  event calls in flight; while a task is in the start or stop phase of a job, no event code of the
  job runs and no other task holds the job. The holder's generation is the current one, so a start
  that queues its request always succeeds and never overwrites another request; a deferred stop
  always has a callback that will complete it; and a waiting job has its request and no callback.
\<close>

theorem jobs_lifecycle_exclusive:
  assumes "jobs_reachable env (s, A)" and "js_initialized s" and "i < js_count s"
  shows "lifecycle_holders i A
       = (if jt_lifecycle_busy (runtime s i) \<and> \<not> jt_stop_after_callback (runtime s i) then 1 else 0)
     \<and> jt_callback_refs (runtime s i) = event_calls i A
     \<and> (\<forall>a \<in># A. runs_lifecycle_code i (snd a) \<longrightarrow>
          event_calls i A = 0 \<and> lifecycle_holders i (A - {#a#}) = 0)
     \<and> (\<forall>a \<in># A. holds_lifecycle i (snd a) \<longrightarrow>
          activity_generation (snd a) = jt_generation (runtime s i))
     \<and> (\<forall>t c argc argv p. (t, AC_start SP_launch c argc argv (Some p)) \<in># A \<and> lc_index c = i \<longrightarrow>
          fst (jobs_start_queue i (lc_generation c) p s) \<and> jt_pending_start (runtime s i) = None)
     \<and> (jt_stop_after_callback (runtime s i) \<longrightarrow> jt_lifecycle_busy (runtime s i)
          \<and> jt_state (runtime s i) = JOB_STOPPED \<and> 0 < event_calls i A)
     \<and> (jt_state (runtime s i) = JOB_WAITING \<longrightarrow>
          jt_pending_start (runtime s i) \<noteq> None \<and> event_calls i A = 0)"
proof -
  have inv: "job_inv i (runtime s i) A"
    using jobs_reachable_inv [OF assms(1)] assms(2,3) by (simp add: jobs_inv_def)
  have code: "event_calls i A = 0 \<and> lifecycle_holders i (A - {#a#}) = 0"
    if a: "a \<in># A" "runs_lifecycle_code i (snd a)" for a
  proof -
    have h: "holds_lifecycle i (snd a)" using a(2) by (auto simp: job_views split: activity.splits)
    then have "event_calls i A = 0" using inv a by (auto simp: job_inv_def holder_ok_def)
    moreover have "lifecycle_holders i A = lifecycle_holders i (A - {#a#}) + 1"
      using a(1) h flight_count(1) [of i "A - {#a#}" "fst a" "Some (snd a)"] by (simp add: in_flight_def)
    ultimately show ?thesis using inv by (simp add: job_inv_def split: if_splits)
  qed
  have busy: "jt_lifecycle_busy (runtime s i)" if "a \<in># A" "holds_lifecycle i (snd a)" for a
    using inv no_holders [of i A] that by (auto simp: job_inv_def split: if_splits)
  have queue: "fst (jobs_start_queue i (lc_generation c) p s) \<and> jt_pending_start (runtime s i) = None"
    if q: "(t, AC_start SP_launch c argc argv (Some p)) \<in># A" "lc_index c = i" for t c argc argv p
  proof -
    have h: "holds_lifecycle i (snd (t, AC_start SP_launch c argc argv (Some p)))"
      using q(2) by (simp add: holds_lifecycle_def)
    then have "holder_ok i (runtime s i) (AC_start SP_launch c argc argv (Some p))"
      using inv q(1) by (fastforce simp: job_inv_def)
    then show ?thesis
      using busy [OF q(1) h] by (simp add: holder_ok_def activity_generation_def jobs_start_queue_def Let_def)
  qed
  have refs: "jt_callback_refs (runtime s i) = event_calls i A" using inv by (simp add: job_inv_def)
  have gen: "\<forall>a \<in># A. holds_lifecycle i (snd a) \<longrightarrow>
      activity_generation (snd a) = jt_generation (runtime s i)"
    using inv by (simp add: job_inv_def holder_ok_def)
  show ?thesis
  proof (intro conjI)
    show "\<forall>a \<in># A. runs_lifecycle_code i (snd a) \<longrightarrow>
        event_calls i A = 0 \<and> lifecycle_holders i (A - {#a#}) = 0"
      using code by blast
    show "\<forall>t c argc argv p. (t, AC_start SP_launch c argc argv (Some p)) \<in># A \<and> lc_index c = i \<longrightarrow>
        fst (jobs_start_queue i (lc_generation c) p s) \<and> jt_pending_start (runtime s i) = None"
      by (intro allI impI, elim conjE) (rule queue)
  qed (use inv [unfolded job_inv_def] refs gen in simp_all)
qed

definition demo_jobs_env :: jobs_env where
  "demo_jobs_env = \<lparr>jv_jobs_max = 1, jv_registry_count = 1,
     jv_registry_get = (\<lambda>_. Some \<lparr>je_name = Some ''ftpd'', je_summary = ''FTP server'',
       je_job = Some \<lparr>jd_kind = JOB_KIND_BACKGROUND, jd_start = True, jd_stop = True, jd_event = True,
          jd_worker_stack_bytes = 0, jd_worker_stack_external = False, jd_tick_interval_ms = 0,
          jd_tick_deadline_ms = 0, jd_detail = False, jd_error_detail = False\<rparr>\<rparr>)\<rparr>"

lemma demo_jobs_started:
  "\<exists>s c. jobs_reachable demo_jobs_env (s, {#(7, AC_start SP_stopping c 0 None None)#})
     \<and> js_initialized s \<and> js_count s = 1 \<and> lc_index c = 0"
proof -
  let ?env = demo_jobs_env
  let ?A = "{#}:: activities"
  obtain s1 where s1: "jobs_start_admit ?env (\<lambda>_ _. True) None (jobs_boot ?env) (Some ''ftpd'') 0 None
        = (Inr None, s1)"
    and i1: "js_initialized s1" "js_count s1 = 1" "runtime s1 0 = runtime_init (jv_registry_get ?env 0)"
      "length (js_runtimes s1) = 1"
    by (simp add: jobs_start_admit_def solar_os_jobs_init_def jobs_boot_def demo_jobs_env_def
        args_valid_def APP_ARG_MAX_def job_index_by_name_def runtime_name_def runtime_init_def
        solar_os_jobs_owner_name_def JOB_OWNER_MAX_def worker_wanted_def runtime_job_def)
  have "jobs_step ?env (jobs_boot ?env, {#})
      (s1, {#} + in_flight 7 (case (Inr None :: esp_err + pending_start option) of Inl err \<Rightarrow> None
                              | Inr p \<Rightarrow> Some (AC_admitted (Some ''ftpd'') 0 None p)))"
    by (rule jp_start [OF s1])
  then have r1: "jobs_reachable ?env (s1, add_mset (7, AC_admitted (Some ''ftpd'') 0 None None) ?A)"
    using jr_step [OF jr_boot] by (fastforce simp: in_flight_def)
  obtain c s2 where c: "jobs_start_begin 7 s1 (Some ''ftpd'') = (Inr c, s2)"
    and i2: "js_initialized s2" "js_count s2 = 1" "lc_index c = 0" "jt_callback_refs (runtime s2 0) = 0"
    using i1 by (auto simp: jobs_start_begin_def job_index_by_name_def runtime_name_def runtime_init_def
        demo_jobs_env_def solar_os_jobs_owner_name_def JOB_OWNER_MAX_def runtime_job_def runtime_zero_def
        upd_runtime_def job_clear_resources_by_index_def job_clear_resources_def take_Suc
        length_Suc_conv Let_def)
  have "jobs_reachable ?env (s2, {#} + in_flight 7 (Some (AC_start SP_wait c 0 None None)))"
    by (rule jr_step [OF r1], rule jp_advance [where block = None and ret = ESP_OK and timer_us = 0])
      (simp add: activity_advance_def c)
  then have r2: "jobs_reachable ?env (s2, add_mset (7, AC_start SP_wait c 0 None None) ?A)"
    by (simp add: in_flight_def)
  have "jobs_reachable ?env (s2, {#} + in_flight 7 (Some (AC_start SP_stopping c 0 None None)))"
    by (rule jr_step [OF r2], rule jp_advance [where block = None and ret = ESP_OK and timer_us = 0])
      (simp add: activity_advance_def start_advance_def callbacks_drained_def i2)
  then show ?thesis using i2 by (auto simp: in_flight_def)
qed

lemma jobs_lifecycle_exclusive_witness:
  "\<exists>s A. jobs_reachable demo_jobs_env (s, A) \<and> js_initialized s \<and> 0 < js_count s
     \<and> (\<exists>a \<in># A. runs_lifecycle_code 0 (snd a) \<and> event_calls 0 A = 0
           \<and> lifecycle_holders 0 (A - {#a#}) = 0)"
proof -
  obtain s c where r: "jobs_reachable demo_jobs_env (s, {#(7, AC_start SP_stopping c 0 None None)#})"
    "js_initialized s" "js_count s = 1" "lc_index c = 0"
    using demo_jobs_started by blast
  then have "0 < js_count s" by simp
  with r jobs_lifecycle_exclusive [OF r(1,2) this] show ?thesis
    by (auto simp: runs_lifecycle_code_def
        intro!: exI [of _ s] exI [of _ "{#(7, AC_start SP_stopping c 0 None None)#}"])
qed

end
