(* ===== verification/RamAlloc.thy ===== *)
theory RamAlloc
  imports SolarBase
begin

text \<open>
  The arena of a RAM file system, the allocator of \<open>src/src/services/solar_os_ramfs.c\<close>. The arena is
  cut into blocks, each a header followed by its payload; the doubly linked list of the headers is
  the list of the blocks in address order. A pointer into the arena is its offset from the start of
  the arena. The headers are this list, not bytes of the modelled memory: that no payload overlaps
  a header is part of what is proved. Sizes are those of the 32-bit target.
\<close>

section \<open>Blocks\<close>

definition RAMFS_ALIGNMENT :: nat where
  "RAMFS_ALIGNMENT = 4"

definition RAMFS_HEADER :: nat where
  "RAMFS_HEADER = 16"

definition SIZE_MAX :: nat where
  "SIZE_MAX = 4294967295"

datatype ramfs_errno =
    EINVAL | ENOSPC | ENOTDIR | ENOENT | ENAMETOOLONG | EMFILE | EBADF | EISDIR | EEXIST | EFBIG
  | EBUSY | ENOTEMPTY | ENOMEM

record ramfs_block =
  rb_offset :: nat
  rb_size :: nat
  rb_free :: bool

definition ramfs_align_size :: "nat \<Rightarrow> nat option" where
  "ramfs_align_size sz =
     (let mask = RAMFS_ALIGNMENT - 1
      in if SIZE_MAX - mask < sz then None
         else Some ((sz + mask) div RAMFS_ALIGNMENT * RAMFS_ALIGNMENT))"

definition ramfs_block_payload :: "ramfs_block \<Rightarrow> nat" where
  "ramfs_block_payload b = rb_offset b + RAMFS_HEADER"

text \<open>The index of the block whose payload starts at \<open>ptr\<close>.\<close>

definition ramfs_payload_block :: "ramfs_block list \<Rightarrow> nat \<Rightarrow> nat option" where
  "ramfs_payload_block bs ptr = first_index (\<lambda>b. ramfs_block_payload b = ptr) bs"

definition ramfs_ptr_in_arena :: "nat \<Rightarrow> nat option \<Rightarrow> bool" where
  "ramfs_ptr_in_arena arena_bytes ptr =
     (case ptr of None \<Rightarrow> False | Some p \<Rightarrow> RAMFS_HEADER \<le> p \<and> p < arena_bytes)"

definition ramfs_split_block :: "nat \<Rightarrow> nat \<Rightarrow> ramfs_block list \<Rightarrow> ramfs_block list" where
  "ramfs_split_block k sz bs =
     (let b = bs ! k
      in if rb_size b \<le> sz then bs
         else let remaining = rb_size b - sz
              in if remaining \<le> RAMFS_HEADER + RAMFS_ALIGNMENT then bs
                 else take k bs
                      @ [b\<lparr>rb_size := sz\<rparr>,
                         \<lparr>rb_offset = ramfs_block_payload b + sz, rb_size = remaining - RAMFS_HEADER,
                          rb_free = True\<rparr>]
                      @ drop (Suc k) bs)"

definition ramfs_merge_next :: "nat \<Rightarrow> ramfs_block list \<Rightarrow> ramfs_block list" where
  "ramfs_merge_next k bs =
     (if length bs \<le> Suc k \<or> \<not> rb_free (bs ! Suc k) then bs
      else take k bs
           @ [(bs ! k)\<lparr>rb_size := rb_size (bs ! k) + RAMFS_HEADER + rb_size (bs ! Suc k)\<rparr>]
           @ drop (Suc (Suc k)) bs)"

definition ramfs_coalesce_block :: "nat \<Rightarrow> ramfs_block list \<Rightarrow> ramfs_block list" where
  "ramfs_coalesce_block k bs =
     (let bs1 = ramfs_merge_next k bs
      in if 0 < k \<and> rb_free (bs1 ! (k - 1)) then ramfs_merge_next (k - 1) bs1 else bs1)"

definition ramfs_free_payload_bytes :: "ramfs_block list \<Rightarrow> nat" where
  "ramfs_free_payload_bytes bs = sum_list (map rb_size (filter rb_free bs))"

text \<open>The size of the block that is handed out is at least the size that was asked for.\<close>

definition ramfs_alloc :: "ramfs_block list \<Rightarrow> nat \<Rightarrow> (ramfs_errno + nat) \<times> ramfs_block list" where
  "ramfs_alloc bs sz =
     (if sz = 0 then (Inl EINVAL, bs)
      else case ramfs_align_size sz of
             None \<Rightarrow> (Inl ENOSPC, bs)
           | Some aligned \<Rightarrow>
               (case first_index (\<lambda>b. rb_free b \<and> aligned \<le> rb_size b) bs of
                  None \<Rightarrow> (Inl ENOSPC, bs)
                | Some k \<Rightarrow>
                    let bs1 = ramfs_split_block k aligned bs
                    in (Inr (ramfs_block_payload (bs ! k)),
                        bs1[k := (bs1 ! k)\<lparr>rb_free := False\<rparr>])))"

text \<open>
  A pointer that is inside the arena but is not the payload of a block would be read as a header
  that is not there: the result \<open>None\<close>.
\<close>

definition ramfs_free :: "nat \<Rightarrow> ramfs_block list \<Rightarrow> nat option \<Rightarrow> ramfs_block list option" where
  "ramfs_free arena_bytes bs ptr =
     (if \<not> ramfs_ptr_in_arena arena_bytes ptr then Some bs
      else case ramfs_payload_block bs (the ptr) of
             None \<Rightarrow> None
           | Some k \<Rightarrow> Some (ramfs_coalesce_block k (bs[k := (bs ! k)\<lparr>rb_free := True\<rparr>])))"

section \<open>Bytes\<close>

text \<open>The bytes of the arena, read and written by \<open>memcpy\<close> and \<open>memset\<close>.\<close>

type_synonym memory = "nat \<Rightarrow> u8"

definition mem_read :: "memory \<Rightarrow> nat \<Rightarrow> nat \<Rightarrow> u8 list" where
  "mem_read mem p n = map mem [p..<p + n]"

definition mem_write :: "memory \<Rightarrow> nat \<Rightarrow> u8 list \<Rightarrow> memory" where
  "mem_write mem p bytes = (\<lambda>a. if p \<le> a \<and> a < p + length bytes then bytes ! (a - p) else mem a)"

text \<open>
  The pointer is the result; \<open>None\<close> is the corruption of \<open>ramfs_free\<close>. A new size of 0 frees the
  block and returns NULL, which is not an error of the allocator.
\<close>

definition ramfs_realloc ::
  "nat \<Rightarrow> ramfs_block list \<Rightarrow> memory \<Rightarrow> nat option \<Rightarrow> nat \<Rightarrow> nat
   \<Rightarrow> ((ramfs_errno + nat option) \<times> ramfs_block list \<times> memory) option" where
  "ramfs_realloc arena_bytes bs mem ptr old_size new_size =
     (if new_size = 0
      then map_option (\<lambda>bs1. (Inr None, bs1, mem)) (ramfs_free arena_bytes bs ptr)
      else case ptr of
             None \<Rightarrow> Some (case ramfs_alloc bs new_size of
                             (Inl err, bs1) \<Rightarrow> (Inl err, bs1, mem)
                           | (Inr p, bs1) \<Rightarrow> (Inr (Some p), bs1, mem))
           | Some p \<Rightarrow>
               (case ramfs_align_size new_size of
                  None \<Rightarrow> Some (Inl EINVAL, bs, mem)
                | Some aligned \<Rightarrow>
                    if \<not> ramfs_ptr_in_arena arena_bytes ptr then Some (Inl EINVAL, bs, mem)
                    else case ramfs_payload_block bs p of
                           None \<Rightarrow> None
                         | Some k \<Rightarrow>
                             if aligned \<le> rb_size (bs ! k)
                             then Some (Inr ptr, ramfs_split_block k aligned bs, mem)
                             else if Suc k < length bs \<and> rb_free (bs ! Suc k)
                                     \<and> aligned \<le> rb_size (bs ! k) + RAMFS_HEADER + rb_size (bs ! Suc k)
                             then Some (Inr ptr, ramfs_split_block k aligned (ramfs_merge_next k bs), mem)
                             else (case ramfs_alloc bs new_size of
                                     (Inl err, bs1) \<Rightarrow> Some (Inl err, bs1, mem)
                                   | (Inr q, bs1) \<Rightarrow>
                                       let copy_size = min (min old_size (rb_size (bs ! k))) new_size
                                       in map_option
                                            (\<lambda>bs2. (Inr (Some q), bs2,
                                                    mem_write mem q (mem_read mem p copy_size)))
                                            (ramfs_free arena_bytes bs1 ptr))))"

section \<open>The allocator's invariant\<close>

text \<open>The blocks tile the arena from \<open>start\<close> to \<open>stop\<close>.\<close>

definition block_end :: "ramfs_block \<Rightarrow> nat" where
  "block_end b = rb_offset b + RAMFS_HEADER + rb_size b"

fun tiles :: "nat \<Rightarrow> ramfs_block list \<Rightarrow> nat \<Rightarrow> bool" where
  "tiles start [] stop \<longleftrightarrow> start = stop"
| "tiles start (b # bs) stop \<longleftrightarrow> rb_offset b = start \<and> tiles (block_end b) bs stop"

text \<open>The blocks in use: from a payload pointer to the size of the payload.\<close>

definition used_map :: "ramfs_block list \<Rightarrow> nat \<rightharpoonup> nat" where
  "used_map bs = map_of (map (\<lambda>b. (ramfs_block_payload b, rb_size b)) (filter (\<lambda>b. \<not> rb_free b) bs))"

lemma tiles_append: "tiles a (xs @ ys) c \<longleftrightarrow> (\<exists>b. tiles a xs b \<and> tiles b ys c)"
  by (induction xs arbitrary: a) auto

lemma tiles_le: "tiles a bs c \<Longrightarrow> a \<le> c"
  by (induction bs arbitrary: a) (fastforce simp: block_end_def)+

lemma tiles_bounds:
  assumes "tiles a bs c" and "b \<in> set bs"
  shows "a \<le> rb_offset b \<and> block_end b \<le> c"
  using assms
proof (induction bs arbitrary: a)
  case (Cons x bs)
  show ?case
  proof (cases "b = x")
    case True
    then show ?thesis using Cons.prems tiles_le [of "block_end x" bs c] by auto
  next
    case False
    then have "block_end x \<le> rb_offset b \<and> block_end b \<le> c" using Cons by auto
    then show ?thesis using Cons.prems(1) by (auto simp: block_end_def)
  qed
qed simp

lemma tiles_disjoint:
  assumes "tiles a bs c" and "b \<in> set bs" "b' \<in> set bs" "b \<noteq> b'"
  shows "block_end b \<le> rb_offset b' \<or> block_end b' \<le> rb_offset b"
  using assms
proof (induction bs arbitrary: a)
  case (Cons x bs)
  have later: "block_end x \<le> rb_offset y" if "y \<in> set bs" for y
    using tiles_bounds [of "block_end x" bs c y] Cons.prems(1) that by auto
  show ?case
  proof (cases "b = x \<or> b' = x")
    case True
    then show ?thesis using later Cons.prems by auto
  next
    case False
    then show ?thesis using Cons by auto
  qed
qed simp

lemma tiles_distinct_offset:
  assumes "tiles a bs c" and "b \<in> set bs" "b' \<in> set bs" "rb_offset b = rb_offset b'"
  shows "b = b'"
  using tiles_disjoint [OF assms(1-3)] assms(4) by (auto simp: block_end_def RAMFS_HEADER_def)

lemma tiles_distinct: "tiles a bs c \<Longrightarrow> distinct (map rb_offset bs)"
proof (induction bs arbitrary: a)
  case (Cons x bs)
  have "rb_offset x \<noteq> rb_offset y" if "y \<in> set bs" for y
    using tiles_bounds [of "block_end x" bs c y] Cons.prems that
    by (auto simp: block_end_def RAMFS_HEADER_def)
  then show ?case using Cons by auto
qed simp

lemma used_map_iff:
  assumes "tiles a bs c"
  shows "used_map bs p = Some n \<longleftrightarrow>
    (\<exists>b \<in> set bs. \<not> rb_free b \<and> ramfs_block_payload b = p \<and> rb_size b = n)"
proof -
  have d: "distinct (map rb_offset (filter (\<lambda>b. \<not> rb_free b) bs))"
    using tiles_distinct [OF assms] by (rule distinct_map_filter)
  have "distinct (map ramfs_block_payload (filter (\<lambda>b. \<not> rb_free b) bs))"
    using d by (simp add: distinct_map inj_on_def ramfs_block_payload_def)
  then have "distinct (map fst (map (\<lambda>b. (ramfs_block_payload b, rb_size b)) (filter (\<lambda>b. \<not> rb_free b) bs)))"
    by (simp add: comp_def)
  then show ?thesis unfolding used_map_def by (auto simp: map_of_eq_Some_iff)
qed

lemma used_map_None:
  assumes "tiles a bs c" and "\<And>b. b \<in> set bs \<Longrightarrow> \<not> rb_free b \<Longrightarrow> ramfs_block_payload b \<noteq> p"
  shows "used_map bs p = None"
  using used_map_iff [OF assms(1), of p] assms(2) by (metis option.exhaust)

text \<open>Two lists that tile the same arena and have the same blocks in use, but for one payload.\<close>

lemma used_map_change:
  assumes t: "tiles a bs c" "tiles a' bs' c'"
    and other: "\<And>b. ramfs_block_payload b \<noteq> p \<Longrightarrow> \<not> rb_free b \<Longrightarrow> b \<in> set bs' \<longleftrightarrow> b \<in> set bs"
    and here: "case v of None \<Rightarrow> \<forall>b \<in> set bs'. ramfs_block_payload b = p \<longrightarrow> rb_free b
      | Some n \<Rightarrow> \<exists>b \<in> set bs'. \<not> rb_free b \<and> ramfs_block_payload b = p \<and> rb_size b = n"
  shows "used_map bs' = (used_map bs)(p := v)"
proof
  fix q
  show "used_map bs' q = ((used_map bs)(p := v)) q"
  proof (cases "q = p")
    case True
    show ?thesis
    proof (cases v)
      case None
      then show ?thesis using True here used_map_None [OF t(2), of p] by auto
    next
      case (Some n)
      then show ?thesis using True here used_map_iff [OF t(2), of p n] by auto
    qed
  next
    case False
    have "used_map bs' q = Some n \<longleftrightarrow> used_map bs q = Some n" for n
      using other False unfolding used_map_iff [OF t(1)] used_map_iff [OF t(2)] by metis
    then show ?thesis using False by (metis fun_upd_apply not_Some_eq)
  qed
qed

text \<open>A segment of the list is replaced by another one over the same bytes.\<close>

lemma used_map_segment:
  assumes bs: "tiles a (xs @ seg @ ys) c" and seg: "\<And>s e. tiles s seg e \<Longrightarrow> tiles s seg' e"
    and only: "\<And>b. b \<in> set seg \<union> set seg' \<Longrightarrow> \<not> rb_free b \<Longrightarrow> ramfs_block_payload b = p"
    and here: "\<exists>b \<in> set seg. ramfs_block_payload b = p"
    and v: "case v of None \<Rightarrow> \<forall>b \<in> set seg'. rb_free b
      | Some n \<Rightarrow> \<exists>b \<in> set seg'. \<not> rb_free b \<and> ramfs_block_payload b = p \<and> rb_size b = n"
  shows "tiles a (xs @ seg' @ ys) c" and "used_map (xs @ seg' @ ys) = (used_map (xs @ seg @ ys))(p := v)"
proof -
  show t: "tiles a (xs @ seg' @ ys) c" using bs seg by (auto simp: tiles_append)
  obtain b where b: "b \<in> set seg" "ramfs_block_payload b = p" using here by blast
  have away: "ramfs_block_payload y \<noteq> p" if "y \<in> set xs \<union> set ys" for y
  proof -
    have "rb_offset y \<noteq> rb_offset b" using tiles_distinct [OF bs] that b(1) by auto
    then show ?thesis using b(2) by (auto simp: ramfs_block_payload_def)
  qed
  show "used_map (xs @ seg' @ ys) = (used_map (xs @ seg @ ys))(p := v)"
  proof (rule used_map_change [OF bs t])
    show "x \<in> set (xs @ seg' @ ys) \<longleftrightarrow> x \<in> set (xs @ seg @ ys)"
      if "ramfs_block_payload x \<noteq> p" "\<not> rb_free x" for x using only that by auto
    show "case v of None \<Rightarrow> \<forall>b \<in> set (xs @ seg' @ ys). ramfs_block_payload b = p \<longrightarrow> rb_free b
      | Some n \<Rightarrow> \<exists>b \<in> set (xs @ seg' @ ys). \<not> rb_free b \<and> ramfs_block_payload b = p \<and> rb_size b = n"
      using v away by (cases v) auto
  qed
qed

section \<open>The operations\<close>

lemma list_at:
  assumes "k < length bs"
  obtains xs ys where "bs = xs @ [bs ! k] @ ys" "length xs = k"
  using id_take_nth_drop [OF assms] assms by (metis append_Cons append_Nil length_take min.absorb4)

lemma split_shape:
  assumes "bs = xs @ [b] @ ys" and "length xs = k"
  shows "\<exists>rest. ramfs_split_block k sz bs = xs @ (b\<lparr>rb_size := if rest = [] then rb_size b else sz\<rparr> # rest) @ ys
    \<and> (\<forall>r \<in> set rest. rb_free r)
    \<and> (\<forall>s e. tiles s [b] e \<longrightarrow> tiles s (b\<lparr>rb_size := if rest = [] then rb_size b else sz\<rparr> # rest) e)"
proof -
  have nth: "bs ! k = b" "take k bs = xs" "drop (Suc k) bs = ys" using assms by (auto simp: nth_append)
  show ?thesis
  proof (cases "rb_size b \<le> sz \<or> rb_size b - sz \<le> RAMFS_HEADER + RAMFS_ALIGNMENT")
    case True
    then show ?thesis using assms by (intro exI [of _ "[]"]) (auto simp: ramfs_split_block_def nth Let_def)
  next
    case False
    then show ?thesis
      by (intro exI [of _ "[\<lparr>rb_offset = ramfs_block_payload b + sz,
          rb_size = rb_size b - sz - RAMFS_HEADER, rb_free = True\<rparr>]"])
        (auto simp: ramfs_split_block_def nth Let_def block_end_def ramfs_block_payload_def
          RAMFS_HEADER_def RAMFS_ALIGNMENT_def)
  qed
qed

lemma align_bounds: "ramfs_align_size sz = Some n \<Longrightarrow> sz \<le> n"
  unfolding ramfs_align_size_def RAMFS_ALIGNMENT_def Let_def by (simp split: if_splits)

text \<open>A successful allocation takes a pointer that was free, with enough room.\<close>

lemma alloc_spec:
  assumes t: "tiles a bs c" and al: "ramfs_alloc bs sz = (res, bs')"
  shows "tiles a bs' c"
    and "case res of Inl _ \<Rightarrow> bs' = bs
      | Inr p \<Rightarrow> used_map bs p = None \<and> (\<exists>n \<ge> sz. used_map bs' = (used_map bs)(p \<mapsto> n))"
proof -
  have "tiles a bs' c \<and> (case res of Inl _ \<Rightarrow> bs' = bs
      | Inr p \<Rightarrow> used_map bs p = None \<and> (\<exists>n \<ge> sz. used_map bs' = (used_map bs)(p \<mapsto> n)))"
  proof (cases res)
    case (Inl err)
    then show ?thesis using t al by (auto simp: ramfs_alloc_def Let_def split: if_splits option.splits)
  next
    case (Inr p)
    then obtain aligned k where k: "ramfs_align_size sz = Some aligned"
      "first_index (\<lambda>b. rb_free b \<and> aligned \<le> rb_size b) bs = Some k" "p = ramfs_block_payload (bs ! k)"
      "bs' = (ramfs_split_block k aligned bs)[k := (ramfs_split_block k aligned bs ! k)\<lparr>rb_free := False\<rparr>]"
      using al by (auto simp: ramfs_alloc_def Let_def split: if_splits option.splits)
    have b: "k < length bs" "rb_free (bs ! k)" "aligned \<le> rb_size (bs ! k)"
      using first_indexD [OF k(2)] by simp_all
    obtain xs ys where bs: "bs = xs @ [bs ! k] @ ys" "length xs = k" using list_at [OF b(1)] .
    define b where "b = bs ! k"
    obtain rest where rest: "ramfs_split_block k aligned bs
        = xs @ (b\<lparr>rb_size := if rest = [] then rb_size b else aligned\<rparr> # rest) @ ys"
      "\<forall>r \<in> set rest. rb_free r"
      "\<And>s e. tiles s [b] e \<Longrightarrow> tiles s (b\<lparr>rb_size := if rest = [] then rb_size b else aligned\<rparr> # rest) e"
      using split_shape [of bs xs b ys k aligned] bs by (auto simp: b_def)
    define n where "n = (if rest = [] then rb_size b else aligned)"
    have bs': "bs' = xs @ (b\<lparr>rb_size := n, rb_free := False\<rparr> # rest) @ ys"
      unfolding k(4) rest(1) n_def using bs(2) by (simp add: list_update_append nth_append)
    have t1: "tiles a (xs @ [b] @ ys) c" using t bs(1) by (simp add: b_def)
    have seg: "tiles s (b\<lparr>rb_size := n, rb_free := False\<rparr> # rest) e" if "tiles s [b] e" for s e
      using rest(3) [OF that] by (auto simp: n_def block_end_def split: if_splits)
    have pb: "ramfs_block_payload (b\<lparr>rb_size := n, rb_free := False\<rparr>) = p"
      by (simp add: k(3) b_def ramfs_block_payload_def)
    have "used_map bs p = None"
    proof (rule used_map_None [OF t])
      fix x assume x: "x \<in> set bs" "\<not> rb_free x"
      then have "x \<noteq> bs ! k" using b(2) by auto
      then show "ramfs_block_payload x \<noteq> p"
        using tiles_distinct_offset [OF t x(1), of "bs ! k"] b(1) by (auto simp: k(3) ramfs_block_payload_def)
    qed
    moreover have "tiles a bs' c \<and> used_map bs' = (used_map (xs @ [b] @ ys))(p \<mapsto> n)"
      using used_map_segment [OF t1 seg, of p "Some n"] rest(2) b(2) pb
      unfolding bs' by (auto simp: b_def k(3))
    moreover have "sz \<le> n" using align_bounds [OF k(1)] b(3) by (simp add: n_def b_def)
    ultimately show ?thesis using Inr bs(1) by (auto simp: b_def)
  qed
  then show "tiles a bs' c" and "case res of Inl _ \<Rightarrow> bs' = bs
      | Inr p \<Rightarrow> used_map bs p = None \<and> (\<exists>n \<ge> sz. used_map bs' = (used_map bs)(p \<mapsto> n))" by blast+
qed

lemma merge_shape:
  assumes "bs = xs @ [b, b'] @ ys" and "length xs = k" and "rb_free b'"
  shows "ramfs_merge_next k bs = xs @ [b\<lparr>rb_size := rb_size b + RAMFS_HEADER + rb_size b'\<rparr>] @ ys"
  using assms by (auto simp: ramfs_merge_next_def nth_append)

lemma merge_none:
  assumes "bs = xs @ [b] @ ys" and "length xs = k" and "ys = [] \<or> \<not> rb_free (hd ys)"
  shows "ramfs_merge_next k bs = bs"
  using assms by (cases ys) (auto simp: ramfs_merge_next_def nth_append)

lemma payload_block_used:
  assumes t: "tiles a bs c" and u: "used_map bs p = Some n"
  obtains k where "ramfs_payload_block bs p = Some k" "k < length bs"
    "ramfs_block_payload (bs ! k) = p" "rb_size (bs ! k) = n" "\<not> rb_free (bs ! k)"
proof -
  obtain b where b: "b \<in> set bs" "\<not> rb_free b" "ramfs_block_payload b = p" "rb_size b = n"
    using u unfolding used_map_iff [OF t] by blast
  then obtain k where k: "ramfs_payload_block bs p = Some k"
    using first_index_exists [OF b(1), of "\<lambda>b. ramfs_block_payload b = p"] by (auto simp: ramfs_payload_block_def)
  then have *: "k < length bs" "ramfs_block_payload (bs ! k) = p"
    using first_indexD [of "\<lambda>b. ramfs_block_payload b = p" bs k] by (simp_all add: ramfs_payload_block_def)
  then have "bs ! k = b"
    using tiles_distinct_offset [OF t _ b(1), of "bs ! k"] b(3) by (simp add: ramfs_block_payload_def)
  then show ?thesis using that k * b by blast
qed

text \<open>A block of one or two neighbours is merged with the free block behind it.\<close>

lemma merge_segment:
  assumes "bs = xs @ [b] @ ys" and "length xs = k"
  obtains ys0 n where "ys = ys0 @ drop (length ys0) ys" "length ys0 \<le> 1" "\<forall>y \<in> set ys0. rb_free y"
    "ramfs_merge_next k bs = xs @ [b\<lparr>rb_size := n\<rparr>] @ drop (length ys0) ys"
    "\<And>s e. tiles s (b # ys0) e \<Longrightarrow> tiles s [b\<lparr>rb_size := n\<rparr>] e"
proof (cases "ys = [] \<or> \<not> rb_free (hd ys)")
  case True
  then have "ramfs_merge_next k bs = xs @ [b\<lparr>rb_size := rb_size b\<rparr>] @ ys"
    using merge_none [OF assms] assms(1) by simp
  then show ?thesis by (intro that [of "[]" "rb_size b"]) (auto simp: block_end_def)
next
  case False
  then obtain b' ys' where ys: "ys = b' # ys'" "rb_free b'" by (cases ys) auto
  then have "ramfs_merge_next k bs = xs @ [b\<lparr>rb_size := rb_size b + RAMFS_HEADER + rb_size b'\<rparr>] @ ys'"
    using merge_shape [of bs xs b b' ys' k] assms by simp
  then show ?thesis using ys
    by (intro that [of "[b']" "rb_size b + RAMFS_HEADER + rb_size b'"]) (auto simp: block_end_def)
qed

lemma free_spec:
  assumes t: "tiles 0 bs arena" and u: "used_map bs p = Some n" and p: "p < arena"
  shows "\<exists>bs'. ramfs_free arena bs (Some p) = Some bs' \<and> tiles 0 bs' arena
    \<and> used_map bs' = (used_map bs)(p := None)"
proof -
  obtain k where k: "ramfs_payload_block bs p = Some k" "k < length bs"
    "ramfs_block_payload (bs ! k) = p" "rb_size (bs ! k) = n" "\<not> rb_free (bs ! k)"
    using payload_block_used [OF t u] .
  obtain xs ys where bs: "bs = xs @ [bs ! k] @ ys" "length xs = k" using list_at [OF k(2)] .
  define b where "b = bs ! k"
  have t1: "tiles 0 (xs @ [b] @ ys) arena" using t bs(1) by (simp add: b_def)
  define bs1 where "bs1 = bs[k := b\<lparr>rb_free := True\<rparr>]"
  have bs1: "bs1 = xs @ [b\<lparr>rb_free := True\<rparr>] @ ys"
    unfolding bs1_def b_def by (subst bs(1)) (simp add: bs(2) [symmetric] list_update_append)
  obtain ys0 m where merged: "ys = ys0 @ drop (length ys0) ys" "\<forall>y \<in> set ys0. rb_free y"
    "ramfs_merge_next k bs1 = xs @ [b\<lparr>rb_free := True, rb_size := m\<rparr>] @ drop (length ys0) ys"
    "\<And>s e. tiles s (b\<lparr>rb_free := True\<rparr> # ys0) e \<Longrightarrow> tiles s [b\<lparr>rb_free := True, rb_size := m\<rparr>] e"
    using merge_segment [OF bs1 bs(2)] by metis
  define bf where "bf = b\<lparr>rb_free := True, rb_size := m\<rparr>"
  define zs where "zs = drop (length ys0) ys"
  have seg1: "tiles s [bf] e" if "tiles s (b # ys0) e" for s e
    using that by (intro merged(4) [folded bf_def]) (auto simp: block_end_def)
  have in_arena: "ramfs_ptr_in_arena arena (Some p)"
    using p k(3) by (auto simp: ramfs_ptr_in_arena_def ramfs_block_payload_def)
  have res: "ramfs_free arena bs (Some p) = Some (ramfs_coalesce_block k bs1)"
    using in_arena k(1) by (simp add: ramfs_free_def bs1_def b_def)
  have b: "ramfs_block_payload b = p" "\<not> rb_free b" using k by (simp_all add: b_def)
  have bs_eq: "bs = xs @ (b # ys0) @ zs" using bs(1) merged(1) by (simp add: b_def zs_def)
  show ?thesis
  proof (cases "xs \<noteq> [] \<and> rb_free (last xs)")
    case False
    have "ramfs_coalesce_block k bs1 = xs @ [bf] @ zs"
    proof (cases "xs = []")
      case True
      then show ?thesis using merged(3) bs(2) by (simp add: ramfs_coalesce_block_def bf_def zs_def Let_def)
    next
      case ne: False
      then have "(xs @ [bf] @ zs) ! (k - 1) = last xs"
        using bs(2) by (cases xs rule: rev_cases) (auto simp: nth_append)
      then show ?thesis using merged(3) False ne bs(2)
        by (simp add: ramfs_coalesce_block_def bf_def zs_def Let_def)
    qed
    moreover have "tiles 0 (xs @ [bf] @ zs) arena"
      "used_map (xs @ [bf] @ zs) = (used_map (xs @ (b # ys0) @ zs))(p := None)"
      by (rule used_map_segment [OF t [unfolded bs_eq] seg1, of p None];
          use merged(2) b in \<open>auto simp: bf_def\<close>)+
    ultimately show ?thesis using res bs_eq by simp
  next
    case True
    then obtain ws w where xs: "xs = ws @ [w]" "rb_free w" by (metis append_butlast_last_id)
    have "(xs @ [bf] @ zs) ! (k - 1) = w" using xs bs(2) by (auto simp: nth_append)
    then have co: "ramfs_coalesce_block k bs1 = ramfs_merge_next (k - 1) (xs @ [bf] @ zs)"
      using merged(3) xs bs(2) by (auto simp: ramfs_coalesce_block_def bf_def zs_def Let_def)
    define wf where "wf = w\<lparr>rb_size := rb_size w + RAMFS_HEADER + rb_size bf\<rparr>"
    have "ramfs_merge_next (k - 1) (xs @ [bf] @ zs) = ws @ [wf] @ zs"
      using xs bs(2) unfolding wf_def by (intro merge_shape) (auto simp: bf_def)
    then have co: "ramfs_coalesce_block k bs1 = ws @ [wf] @ zs" using co by simp
    have seg2: "tiles s [wf] e" if "tiles s (w # b # ys0) e" for s e
      using that seg1 [of "block_end w" e] by (auto simp: wf_def block_end_def)
    have bs2: "bs = ws @ (w # b # ys0) @ zs" using bs_eq xs by simp
    have "tiles 0 (ws @ [wf] @ zs) arena"
      "used_map (ws @ [wf] @ zs) = (used_map (ws @ (w # b # ys0) @ zs))(p := None)"
      by (rule used_map_segment [OF t [unfolded bs2] seg2, of p None];
          use merged(2) b xs(2) in \<open>auto simp: wf_def\<close>)+
    then show ?thesis using res co bs2 by simp
  qed
qed

text \<open>The blocks in use are disjoint and lie behind their headers inside the arena.\<close>

lemma used_inside:
  assumes "tiles 0 bs arena" and "used_map bs p = Some n"
  shows "RAMFS_HEADER \<le> p" "p + n \<le> arena"
proof -
  obtain b where "b \<in> set bs" "ramfs_block_payload b = p" "rb_size b = n"
    using assms(2) unfolding used_map_iff [OF assms(1)] by blast
  then show "RAMFS_HEADER \<le> p" "p + n \<le> arena"
    using tiles_bounds [OF assms(1), of b] by (auto simp: block_end_def ramfs_block_payload_def)
qed

lemma used_disjoint:
  assumes "tiles 0 bs arena" and "used_map bs p = Some n" "used_map bs q = Some m" "p \<noteq> q"
  shows "p + n \<le> q \<or> q + m \<le> p"
proof -
  obtain b b' where "b \<in> set bs" "ramfs_block_payload b = p" "rb_size b = n"
    "b' \<in> set bs" "ramfs_block_payload b' = q" "rb_size b' = m"
    using assms(2,3) unfolding used_map_iff [OF assms(1)] by blast
  then have "b \<noteq> b'" "b \<in> set bs" "b' \<in> set bs" "p = rb_offset b + RAMFS_HEADER" "n = rb_size b"
    "q = rb_offset b' + RAMFS_HEADER" "m = rb_size b'"
    using assms(4) by (auto simp: ramfs_block_payload_def)
  then show ?thesis using tiles_disjoint [OF assms(1), of b b'] by (auto simp: block_end_def)
qed

lemma split_used:
  assumes t: "tiles 0 bs arena" and k: "k < length bs" "ramfs_block_payload (bs ! k) = p"
    and b: "\<not> rb_free (bs ! k)" "aligned \<le> rb_size (bs ! k)"
  shows "tiles 0 (ramfs_split_block k aligned bs) arena
    \<and> (\<exists>m \<ge> aligned. used_map (ramfs_split_block k aligned bs) = (used_map bs)(p \<mapsto> m))"
proof -
  obtain xs ys where bs: "bs = xs @ [bs ! k] @ ys" "length xs = k" using list_at [OF k(1)] .
  define b where "b = bs ! k"
  obtain rest where rest: "ramfs_split_block k aligned bs
      = xs @ (b\<lparr>rb_size := if rest = [] then rb_size b else aligned\<rparr> # rest) @ ys"
    "\<forall>r \<in> set rest. rb_free r"
    "\<And>s e. tiles s [b] e \<Longrightarrow> tiles s (b\<lparr>rb_size := if rest = [] then rb_size b else aligned\<rparr> # rest) e"
    using split_shape [of bs xs b ys k aligned] bs by (auto simp: b_def)
  define m where "m = (if rest = [] then rb_size b else aligned)"
  have t1: "tiles 0 (xs @ [b] @ ys) arena" using t bs(1) by (simp add: b_def)
  have pb: "ramfs_block_payload (b\<lparr>rb_size := m\<rparr>) = p" "\<not> rb_free (b\<lparr>rb_size := m\<rparr>)"
    "ramfs_block_payload b = p"
    using k b by (simp_all add: b_def ramfs_block_payload_def)
  have "tiles 0 (ramfs_split_block k aligned bs) arena"
    "used_map (ramfs_split_block k aligned bs) = (used_map (xs @ [b] @ ys))(p \<mapsto> m)"
    unfolding rest(1) m_def [symmetric]
    by (rule used_map_segment [OF t1 rest(3) [folded m_def], of p "Some m"];
        use rest(2) pb in auto)+
  moreover have "aligned \<le> m" using b by (simp add: m_def b_def)
  ultimately show ?thesis using bs(1) by (auto simp: b_def)
qed

lemma merge_used:
  assumes t: "tiles 0 bs arena" and k: "Suc k < length bs" "ramfs_block_payload (bs ! k) = p"
    and b: "\<not> rb_free (bs ! k)" "rb_free (bs ! Suc k)"
  defines "m \<equiv> rb_size (bs ! k) + RAMFS_HEADER + rb_size (bs ! Suc k)"
  shows "tiles 0 (ramfs_merge_next k bs) arena
    \<and> used_map (ramfs_merge_next k bs) = (used_map bs)(p \<mapsto> m)
    \<and> ramfs_merge_next k bs ! k = (bs ! k)\<lparr>rb_size := m\<rparr> \<and> k < length (ramfs_merge_next k bs)"
proof -
  define xs where "xs = take k bs"
  define ys where "ys = drop (Suc (Suc k)) bs"
  have len: "length xs = k" using k(1) by (simp add: xs_def)
  have bs: "bs = xs @ [bs ! k, bs ! Suc k] @ ys"
    using k(1) by (simp add: xs_def ys_def Cons_nth_drop_Suc)
  have m: "ramfs_merge_next k bs = xs @ [(bs ! k)\<lparr>rb_size := m\<rparr>] @ ys"
    unfolding m_def by (rule merge_shape [OF bs len b(2)])
  have t1: "tiles 0 (xs @ [bs ! k, bs ! Suc k] @ ys) arena" using t unfolding bs [symmetric] .
  have seg: "tiles s [(bs ! k)\<lparr>rb_size := m\<rparr>] e" if "tiles s [bs ! k, bs ! Suc k] e" for s e
    using that by (auto simp: block_end_def m_def)
  have "tiles 0 (ramfs_merge_next k bs) arena
    \<and> used_map (ramfs_merge_next k bs) = (used_map (xs @ [bs ! k, bs ! Suc k] @ ys))(p \<mapsto> m)"
    unfolding m
    by (intro conjI; rule used_map_segment [OF t1 seg, where p = p and v = "Some m"])
      (use k(2) b in \<open>auto simp: ramfs_block_payload_def\<close>)
  moreover have "ramfs_merge_next k bs ! k = (bs ! k)\<lparr>rb_size := m\<rparr>" "k < length (ramfs_merge_next k bs)"
    unfolding m by (simp_all add: nth_append len)
  ultimately show ?thesis unfolding bs [symmetric] by simp
qed

lemma mem_read_write: "n \<le> length bytes \<Longrightarrow> mem_read (mem_write mem p bytes) p n = take n bytes"
  by (rule nth_equalityI) (simp_all add: mem_read_def mem_write_def)

lemma mem_read_nth: "k < n \<Longrightarrow> mem_read mem p n ! k = mem (p + k)"
  by (simp add: mem_read_def)

lemma mem_read_length [simp]: "length (mem_read mem p n) = n"
  by (simp add: mem_read_def)

lemma mem_read_cong: "(\<And>a. p \<le> a \<Longrightarrow> a < p + n \<Longrightarrow> mem' a = mem a) \<Longrightarrow> mem_read mem' p n = mem_read mem p n"
  by (simp add: mem_read_def)

lemma mem_write_outside: "a < p \<or> p + length bytes \<le> a \<Longrightarrow> mem_write mem p bytes a = mem a"
  by (auto simp: mem_write_def)

lemma realloc_spec:
  assumes t: "tiles 0 bs arena" and u: "used_map bs p = Some n" and sizes: "old \<le> n" "0 < new" "p < arena"
  shows "\<exists>res bs' mem'. ramfs_realloc arena bs mem (Some p) old new = Some (res, bs', mem') \<and> tiles 0 bs' arena
    \<and> (case res of
         Inl err \<Rightarrow> bs' = bs \<and> mem' = mem
       | Inr q \<Rightarrow> \<exists>q0 m. q = Some q0 \<and> new \<le> m \<and> used_map bs' = (used_map bs)(p := None, q0 \<mapsto> m)
           \<and> (q0 = p \<or> used_map bs q0 = None)
           \<and> mem_read mem' q0 (min old new) = mem_read mem p (min old new)
           \<and> (\<forall>a. a < q0 \<or> q0 + m \<le> a \<longrightarrow> mem' a = mem a))"
proof -
  obtain k where k: "ramfs_payload_block bs p = Some k" "k < length bs"
    "ramfs_block_payload (bs ! k) = p" "rb_size (bs ! k) = n" "\<not> rb_free (bs ! k)"
    using payload_block_used [OF t u] .
  have in_arena: "ramfs_ptr_in_arena arena (Some p)"
    using sizes(3) k(3) by (auto simp: ramfs_ptr_in_arena_def ramfs_block_payload_def)
  show ?thesis
  proof (cases "ramfs_align_size new")
    case None
    then show ?thesis using t sizes by (simp add: ramfs_realloc_def)
  next
    case (Some aligned)
    note al = align_bounds [OF Some]
    have form: "ramfs_realloc arena bs mem (Some p) old new =
        (if aligned \<le> n then Some (Inr (Some p), ramfs_split_block k aligned bs, mem)
         else if Suc k < length bs \<and> rb_free (bs ! Suc k) \<and> aligned \<le> n + RAMFS_HEADER + rb_size (bs ! Suc k)
         then Some (Inr (Some p), ramfs_split_block k aligned (ramfs_merge_next k bs), mem)
         else (case ramfs_alloc bs new of
                 (Inl err, bs1) \<Rightarrow> Some (Inl err, bs1, mem)
               | (Inr q, bs1) \<Rightarrow>
                   map_option (\<lambda>bs2. (Inr (Some q), bs2, mem_write mem q (mem_read mem p (min (min old n) new))))
                     (ramfs_free arena bs1 (Some p))))"
      unfolding ramfs_realloc_def Let_def k(4) [symmetric] using Some in_arena sizes(2) k(1-3,5) by simp
    show ?thesis
    proof (cases "aligned \<le> n")
      case True
      then obtain m where "tiles 0 (ramfs_split_block k aligned bs) arena" "aligned \<le> m"
        "used_map (ramfs_split_block k aligned bs) = (used_map bs)(p \<mapsto> m)"
        using split_used [OF t k(2,3,5), of aligned] k(4) by blast
      then show ?thesis using True al unfolding form
        by (intro exI [of _ "Inr (Some p)"] exI [of _ "ramfs_split_block k aligned bs"] exI [of _ mem])
          (auto intro!: exI [of _ m])
    next
      case small: False
      show ?thesis
      proof (cases "Suc k < length bs \<and> rb_free (bs ! Suc k) \<and> aligned \<le> n + RAMFS_HEADER + rb_size (bs ! Suc k)")
        case True
        define bs1 where "bs1 = ramfs_merge_next k bs"
        note mg = merge_used [OF t _ k(3,5), folded bs1_def]
        have k1: "ramfs_block_payload (bs1 ! k) = p" "\<not> rb_free (bs1 ! k)" "aligned \<le> rb_size (bs1 ! k)"
          using mg True k by (auto simp: ramfs_block_payload_def)
        obtain m where "tiles 0 (ramfs_split_block k aligned bs1) arena" "aligned \<le> m"
          "used_map (ramfs_split_block k aligned bs1) = (used_map bs1)(p \<mapsto> m)"
          using split_used [of bs1 arena k p aligned] mg True k1 by blast
        then show ?thesis using True small al mg unfolding form bs1_def [symmetric]
          by (intro exI [of _ "Inr (Some p)"] exI [of _ "ramfs_split_block k aligned bs1"] exI [of _ mem])
            (auto intro!: exI [of _ m])
      next
        case False
        obtain res bs1 where a: "ramfs_alloc bs new = (res, bs1)" by force
        note as = alloc_spec [OF t a]
        show ?thesis
        proof (cases res)
          case (Inl err)
          then show ?thesis using form small False a as t by simp
        next
          case (Inr q)
          then obtain m where q: "used_map bs q = None" "new \<le> m" "used_map bs1 = (used_map bs)(q \<mapsto> m)"
            using as(2) by auto
          have pq: "p \<noteq> q" using q(1) u by auto
          then have "used_map bs1 p = Some n" using q(3) u by simp
          then obtain bs2 where f: "ramfs_free arena bs1 (Some p) = Some bs2" "tiles 0 bs2 arena"
            "used_map bs2 = (used_map bs1)(p := None)"
            using free_spec [OF as(1) _ sizes(3)] by blast
          let ?mem = "mem_write mem q (mem_read mem p (min old new))"
          have "ramfs_realloc arena bs mem (Some p) old new = Some (Inr (Some q), bs2, ?mem)"
            using form small False a Inr f(1) sizes(1) by (auto simp: min_def)
          moreover have "used_map bs2 = (used_map bs)(p := None, q \<mapsto> m)"
            using f(3) q(3) pq by (simp add: fun_upd_twist)
          moreover have "mem_read ?mem q (min old new) = mem_read mem p (min old new)"
            by (simp add: mem_read_write)
          moreover have "\<forall>a. a < q \<or> q + m \<le> a \<longrightarrow> ?mem a = mem a"
            using q(2) by (auto intro!: mem_write_outside)
          ultimately show ?thesis using f(2) q(1,2)
            by (intro exI [of _ "Inr (Some q)"] exI [of _ bs2] exI [of _ ?mem]) auto
        qed
      qed
    qed
  qed
qed

end
