(* ===== verification/RamFs.thy ===== *)
theory RamFs
  imports RamAlloc
begin

text \<open>
  The RAM file system of \<open>src/src/services/solar_os_ramfs.c\<close>: nodes in the arena, path resolution, the
  VFS callbacks and the table of mounts. A node is named by its address in the arena; the root, which
  lies in the mount itself, has address 0, where no payload can be. The singly linked list of a
  directory's children is the list \<open>rn_children\<close>, in the order of the \<open>next\<close> pointers.

  Every callback takes the mount's mutex for its whole length, so it is one definition. A callback
  that returns \<open>-1\<close> or NULL with \<open>errno\<close> set returns \<open>Inl\<close> of it. The clock is the argument \<open>now\<close>. A
  node pointer kept in a file or directory handle is checked when it is used: if the node is gone
  the ghost flag \<open>rm_fault\<close> is set, for what C leaves undefined.
\<close>

unbundle bit_operations_syntax

section \<open>State\<close>

definition RAMFS_MAX_OPEN_FILES :: nat where
  "RAMFS_MAX_OPEN_FILES = 16"

definition RAMFS_MIN_QUOTA_BYTES :: nat where
  "RAMFS_MIN_QUOTA_BYTES = 1024"

definition RAMFS_MAX_MOUNTS :: nat where
  "RAMFS_MAX_MOUNTS = 4"

definition RAMFS_MOUNT_POINT_MAX :: nat where
  "RAMFS_MOUNT_POINT_MAX = 16"

definition NAME_MAX :: nat where
  "NAME_MAX = 255"

text \<open>\<open>sizeof(ramfs_node_t)\<close> on the 32-bit target, with a 64-bit \<open>time_t\<close>.\<close>

definition NODE_SIZE :: nat where
  "NODE_SIZE = 40"

definition O_WRONLY :: u32 where "O_WRONLY = 1"
definition O_RDWR :: u32 where "O_RDWR = 2"
definition O_ACCMODE :: u32 where "O_ACCMODE = 3"
definition O_APPEND :: u32 where "O_APPEND = 0x8"
definition O_CREAT :: u32 where "O_CREAT = 0x200"
definition O_TRUNC :: u32 where "O_TRUNC = 0x400"
definition O_EXCL :: u32 where "O_EXCL = 0x800"

record ramfs_node =
  rn_name :: string
  rn_name_ptr :: "nat option"
  rn_is_dir :: bool
  rn_parent :: "nat option"
  rn_children :: "nat list"
  rn_data :: "nat option"
  rn_size :: nat
  rn_capacity :: nat
  rn_mtime :: int

record ramfs_file =
  rf_active :: bool
  rf_node :: "nat option"
  rf_offset :: nat
  rf_flags :: u32

record ramfs_mount =
  rm_active :: bool
  rm_mount_point :: string
  rm_quota_bytes :: nat
  rm_arena_bytes :: nat
  rm_blocks :: "ramfs_block list"
  rm_mem :: memory
  rm_file_count :: nat
  rm_dir_count :: nat
  rm_nodes :: "nat \<rightharpoonup> ramfs_node"
  rm_files :: "ramfs_file list"
  rm_fault :: bool

record ramfs_dir =
  rd_node :: nat
  rd_next :: "nat option"
  rd_pos :: nat

record ramfs_stat =
  rs_mode :: nat
  rs_size :: int
  rs_mtime :: int

record ramfs_dirent =
  re_name :: string
  re_is_dir :: bool

definition ramfs_file_zero :: ramfs_file where
  "ramfs_file_zero = \<lparr>rf_active = False, rf_node = None, rf_offset = 0, rf_flags = 0\<rparr>"

abbreviation RAMFS_ROOT :: nat where
  "RAMFS_ROOT \<equiv> 0"

abbreviation node :: "ramfs_mount \<Rightarrow> nat \<Rightarrow> ramfs_node" where
  "node m n \<equiv> the (rm_nodes m n)"

definition upd_node :: "nat \<Rightarrow> (ramfs_node \<Rightarrow> ramfs_node) \<Rightarrow> ramfs_mount \<Rightarrow> ramfs_mount" where
  "upd_node n f m = m\<lparr>rm_nodes := (rm_nodes m)(n \<mapsto> f (node m n))\<rparr>"

definition upd_file :: "nat \<Rightarrow> (ramfs_file \<Rightarrow> ramfs_file) \<Rightarrow> ramfs_mount \<Rightarrow> ramfs_mount" where
  "upd_file fd f m = m\<lparr>rm_files := (rm_files m)[fd := f (rm_files m ! fd)]\<rparr>"

text \<open>A pointer from a handle is followed.\<close>

definition follow :: "nat option \<Rightarrow> ramfs_mount \<Rightarrow> ramfs_mount" where
  "follow ptr m =
     (case ptr of
        None \<Rightarrow> m\<lparr>rm_fault := True\<rparr>
      | Some n \<Rightarrow> if rm_nodes m n = None then m\<lparr>rm_fault := True\<rparr> else m)"

section \<open>The arena of a mount\<close>

definition mount_alloc :: "ramfs_mount \<Rightarrow> nat \<Rightarrow> (ramfs_errno + nat) \<times> ramfs_mount" where
  "mount_alloc m sz =
     (case ramfs_alloc (rm_blocks m) sz of (res, bs) \<Rightarrow> (res, m\<lparr>rm_blocks := bs\<rparr>))"

definition mount_free :: "ramfs_mount \<Rightarrow> nat option \<Rightarrow> ramfs_mount" where
  "mount_free m ptr =
     (case ramfs_free (rm_arena_bytes m) (rm_blocks m) ptr of
        None \<Rightarrow> m\<lparr>rm_fault := True\<rparr>
      | Some bs \<Rightarrow> m\<lparr>rm_blocks := bs\<rparr>)"

definition mount_realloc ::
  "ramfs_mount \<Rightarrow> nat option \<Rightarrow> nat \<Rightarrow> nat \<Rightarrow> (ramfs_errno + nat option) \<times> ramfs_mount" where
  "mount_realloc m ptr old_size new_size =
     (case ramfs_realloc (rm_arena_bytes m) (rm_blocks m) (rm_mem m) ptr old_size new_size of
        None \<Rightarrow> (Inr None, m\<lparr>rm_fault := True\<rparr>)
      | Some (res, bs, mem) \<Rightarrow> (res, m\<lparr>rm_blocks := bs, rm_mem := mem\<rparr>))"

definition ramfs_get_space_locked :: "ramfs_mount \<Rightarrow> nat \<times> nat \<times> nat" where
  "ramfs_get_space_locked m =
     (let total = rm_quota_bytes m;
          free0 = ramfs_free_payload_bytes (rm_blocks m);
          free_space = (if total < free0 then total else free0)
      in (total, total - free_space, free_space))"

section \<open>The tree\<close>

definition ramfs_find_child :: "ramfs_mount \<Rightarrow> nat \<Rightarrow> string \<Rightarrow> nat option" where
  "ramfs_find_child m parent name =
     find (\<lambda>c. rn_name (node m c) = name) (rn_children (node m parent))"

definition ramfs_alloc_node ::
  "ramfs_mount \<Rightarrow> nat \<Rightarrow> string \<Rightarrow> bool \<Rightarrow> int \<Rightarrow> (ramfs_errno + nat) \<times> ramfs_mount" where
  "ramfs_alloc_node m parent name is_dir now =
     (case mount_alloc m NODE_SIZE of
        (Inl err, m1) \<Rightarrow> (Inl err, m1)
      | (Inr n, m1) \<Rightarrow>
          (case mount_alloc m1 (length name + 1) of
             (Inl err, m2) \<Rightarrow> (Inl err, mount_free m2 (Some n))
           | (Inr copy, m2) \<Rightarrow>
               let fresh = \<lparr>rn_name = name, rn_name_ptr = Some copy, rn_is_dir = is_dir,
                            rn_parent = Some parent, rn_children = [], rn_data = None, rn_size = 0,
                            rn_capacity = 0, rn_mtime = now\<rparr>;
                   m3 = m2\<lparr>rm_nodes := (rm_nodes m2)(n \<mapsto> fresh)\<rparr>;
                   m4 = upd_node parent (\<lambda>p. p\<lparr>rn_children := n # rn_children p\<rparr>) m3
               in (Inr n,
                   if is_dir then m4\<lparr>rm_dir_count := rm_dir_count m4 + 1\<rparr>
                   else m4\<lparr>rm_file_count := rm_file_count m4 + 1\<rparr>)))"

text \<open>
  Freeing a subtree. The first argument bounds its depth; the callers pass the number of nodes.
\<close>

definition free_node :: "ramfs_mount \<Rightarrow> nat \<Rightarrow> ramfs_mount" where
  "free_node m n =
     (if n \<noteq> RAMFS_ROOT
      then let x = node m n;
               m1 = (if rn_is_dir x then m\<lparr>rm_dir_count := rm_dir_count m - 1\<rparr>
                     else m\<lparr>rm_file_count := rm_file_count m - 1\<rparr>);
               m2 = mount_free m1 (rn_data x);
               m3 = mount_free m2 (rn_name_ptr x);
               m4 = mount_free m3 (Some n)
           in m4\<lparr>rm_nodes := (rm_nodes m4)(n := None)\<rparr>
      else upd_node n (\<lambda>x. x\<lparr>rn_children := []\<rparr>) m)"

fun ramfs_free_tree :: "nat \<Rightarrow> ramfs_mount \<Rightarrow> nat \<Rightarrow> ramfs_mount" where
  "ramfs_free_tree 0 m n = m"
| "ramfs_free_tree (Suc depth) m n =
     free_node (foldl (ramfs_free_tree depth) m (rn_children (node m n))) n"

abbreviation free_tree :: "ramfs_mount \<Rightarrow> nat \<Rightarrow> ramfs_mount" where
  "free_tree m n \<equiv> ramfs_free_tree (rm_file_count m + rm_dir_count m) m n"

definition ramfs_unlink_node :: "ramfs_mount \<Rightarrow> nat \<Rightarrow> ramfs_mount" where
  "ramfs_unlink_node m n =
     (case rn_parent (node m n) of
        None \<Rightarrow> m
      | Some parent \<Rightarrow> upd_node parent (\<lambda>p. p\<lparr>rn_children := remove1 n (rn_children p)\<rparr>) m)"

section \<open>Paths\<close>

text \<open>
  \<open>ramfs_next_segment\<close>: the next name of a path and the rest of the path, or why there is none. At the
  end of the path and at a name of more than 255 characters it returns false; only in the first
  case the callers mean to stop.
\<close>

datatype ramfs_segment = SEG_END | SEG_TOO_LONG | SEG string string

definition ramfs_next_segment :: "string \<Rightarrow> ramfs_segment" where
  "ramfs_next_segment cursor =
     (let p = dropWhile (\<lambda>c. c = CHR ''/'') cursor;
          seg = takeWhile (\<lambda>c. c \<noteq> CHR ''/'') p
      in if p = [] then SEG_END
         else if NAME_MAX + 1 \<le> length seg then SEG_TOO_LONG
         else SEG seg (drop (length seg) p))"

lemma next_segment_shorter: "ramfs_next_segment cursor = SEG s rest \<Longrightarrow> length rest < length cursor"
proof -
  assume a: "ramfs_next_segment cursor = SEG s rest"
  define p where "p = dropWhile (\<lambda>c. c = CHR ''/'') cursor"
  have p: "p \<noteq> []" "s = takeWhile (\<lambda>c. c \<noteq> CHR ''/'') p" "rest = drop (length s) p"
    using a by (auto simp: ramfs_next_segment_def p_def Let_def split: if_splits)
  have "hd p \<noteq> CHR ''/''" using p(1) hd_dropWhile [of "\<lambda>c. c = CHR ''/''" cursor] by (simp add: p_def)
  then have "s \<noteq> []" using p(1,2) by (cases p) auto
  then have "0 < length s" and "0 < length p" using p(1) by simp_all
  moreover have "length p \<le> length cursor" by (simp add: p_def length_dropWhile_le)
  ultimately show ?thesis unfolding p(3) length_drop by arith
qed

function find_from :: "ramfs_mount \<Rightarrow> nat \<Rightarrow> string \<Rightarrow> ramfs_errno + nat" where
  "find_from m n cursor =
     (case ramfs_next_segment cursor of
        SEG s rest \<Rightarrow>
          if s = ''.'' then find_from m n rest
          else if s = ''..'' then
            find_from m (case rn_parent (node m n) of None \<Rightarrow> n | Some p \<Rightarrow> p) rest
          else if \<not> rn_is_dir (node m n) then Inl ENOTDIR
          else (case ramfs_find_child m n s of
                  None \<Rightarrow> Inl ENOENT
                | Some c \<Rightarrow> find_from m c rest)
      | _ \<Rightarrow> Inr n)"
  by pat_completeness auto
termination
  by (relation "measure (\<lambda>(m, n, cursor). length cursor)") (auto dest: next_segment_shorter)

definition ramfs_find_node :: "ramfs_mount \<Rightarrow> string option \<Rightarrow> ramfs_errno + nat" where
  "ramfs_find_node m path =
     (case path of
        None \<Rightarrow> Inl EINVAL
      | Some p \<Rightarrow> if p = [] then Inl EINVAL else find_from m RAMFS_ROOT p)"

text \<open>Whether a name other than \<open>.\<close> follows.\<close>

function has_next_segment :: "string \<Rightarrow> bool" where
  "has_next_segment peek =
     (case ramfs_next_segment peek of
        SEG s rest \<Rightarrow> if s \<noteq> ''.'' then True else has_next_segment rest
      | _ \<Rightarrow> False)"
  by pat_completeness auto
termination
  by (relation "measure length") (auto dest: next_segment_shorter)

definition resolve_finish :: "ramfs_mount \<Rightarrow> nat \<Rightarrow> string \<Rightarrow> ramfs_errno + nat \<times> string" where
  "resolve_finish m n last_name =
     (if last_name = [] then Inl EINVAL
      else if \<not> rn_is_dir (node m n) then Inl ENOTDIR
      else Inr (n, last_name))"

function resolve_from :: "ramfs_mount \<Rightarrow> nat \<Rightarrow> string \<Rightarrow> string \<Rightarrow> ramfs_errno + nat \<times> string" where
  "resolve_from m n last_name cursor =
     (case ramfs_next_segment cursor of
        SEG s rest \<Rightarrow>
          if s = ''.'' then resolve_from m n last_name rest
          else if s = ''..'' then
            resolve_from m (case rn_parent (node m n) of None \<Rightarrow> n | Some p \<Rightarrow> p) [] rest
          else if \<not> has_next_segment rest then resolve_finish m n s
          else (case ramfs_find_child m n s of
                  None \<Rightarrow> Inl ENOENT
                | Some c \<Rightarrow> if \<not> rn_is_dir (node m c) then Inl ENOTDIR
                            else resolve_from m c last_name rest)
      | _ \<Rightarrow> resolve_finish m n last_name)"
  by pat_completeness auto
termination
  by (relation "measure (\<lambda>(m, n, l, cursor). length cursor)") (auto dest: next_segment_shorter)

definition ramfs_resolve_parent :: "ramfs_mount \<Rightarrow> string option \<Rightarrow> ramfs_errno + nat \<times> string" where
  "ramfs_resolve_parent m path =
     (case path of None \<Rightarrow> Inl EINVAL | Some p \<Rightarrow> resolve_from m RAMFS_ROOT [] p)"

declare find_from.simps [simp del] has_next_segment.simps [simp del] resolve_from.simps [simp del]

section \<open>Files\<close>

definition ramfs_node_is_open :: "ramfs_mount \<Rightarrow> nat \<Rightarrow> bool" where
  "ramfs_node_is_open m n \<longleftrightarrow> list_ex (\<lambda>f. rf_active f \<and> rf_node f = Some n) (rm_files m)"

definition ramfs_allocate_fd :: "ramfs_mount \<Rightarrow> nat \<Rightarrow> u32 \<Rightarrow> (ramfs_errno + nat) \<times> ramfs_mount" where
  "ramfs_allocate_fd m n flags =
     (case first_index (\<lambda>f. \<not> rf_active f) (rm_files m) of
        None \<Rightarrow> (Inl EMFILE, m)
      | Some fd \<Rightarrow>
          (Inr fd,
           upd_file fd (\<lambda>_. \<lparr>rf_active = True, rf_node = Some n,
                             rf_offset = (if flags AND O_APPEND \<noteq> 0 then rn_size (node m n) else 0),
                             rf_flags = flags\<rparr>) m))"

definition ramfs_get_file :: "ramfs_mount \<Rightarrow> int \<Rightarrow> ramfs_errno + nat" where
  "ramfs_get_file m fd =
     (if fd < 0 \<or> int RAMFS_MAX_OPEN_FILES \<le> fd \<or> \<not> rf_active (rm_files m ! nat fd) then Inl EBADF
      else Inr (nat fd))"

text \<open>\<open>None\<close> is success.\<close>

definition ramfs_resize_node :: "ramfs_mount \<Rightarrow> nat \<Rightarrow> nat \<Rightarrow> int \<Rightarrow> ramfs_errno option \<times> ramfs_mount" where
  "ramfs_resize_node m n sz now =
     (let x = node m n
      in if rn_is_dir x then (Some EISDIR, m)
         else if sz = 0
         then (None, upd_node n (\<lambda>x. x\<lparr>rn_data := None, rn_size := 0, rn_capacity := 0, rn_mtime := now\<rparr>)
                       (mount_free m (rn_data x)))
         else case mount_realloc m (rn_data x) (rn_capacity x) sz of
                (Inl err, m1) \<Rightarrow> (Some err, m1)
              | (Inr None, m1) \<Rightarrow> (Some EINVAL, m1)
              | (Inr (Some next), m1) \<Rightarrow>
                  let m2 = (if rn_capacity x < sz
                            then m1\<lparr>rm_mem := mem_write (rm_mem m1) (next + rn_capacity x)
                                                (replicate (sz - rn_capacity x) 0)\<rparr>
                            else m1)
                  in (None, upd_node n (\<lambda>x. x\<lparr>rn_data := Some next, rn_capacity := sz, rn_size := sz,
                                              rn_mtime := now\<rparr>) m2))"

definition ramfs_vfs_open ::
  "ramfs_mount \<Rightarrow> string option \<Rightarrow> u32 \<Rightarrow> int \<Rightarrow> (ramfs_errno + nat) \<times> ramfs_mount" where
  "ramfs_vfs_open m path flags now =
     (case (case ramfs_find_node m path of
              Inl err \<Rightarrow>
                if flags AND O_CREAT = 0 then (Inl err, m)
                else (case ramfs_resolve_parent m path of
                        Inl err1 \<Rightarrow> (Inl err1, m)
                      | Inr (parent, leaf) \<Rightarrow>
                          if ramfs_find_child m parent leaf \<noteq> None then (Inl EEXIST, m)
                          else ramfs_alloc_node m parent leaf False now)
            | Inr n \<Rightarrow>
                if flags AND O_CREAT \<noteq> 0 \<and> flags AND O_EXCL \<noteq> 0 then (Inl EEXIST, m) else (Inr n, m)) of
        (Inl err, m1) \<Rightarrow> (Inl err, m1)
      | (Inr n, m1) \<Rightarrow>
          if rn_is_dir (node m1 n) then (Inl EISDIR, m1)
          else if flags AND O_TRUNC \<noteq> 0 \<and> flags AND O_ACCMODE \<noteq> 0
          then (case ramfs_resize_node m1 n 0 now of
                  (Some err, m2) \<Rightarrow> (Inl err, m2)
                | (None, m2) \<Rightarrow> ramfs_allocate_fd m2 n flags)
          else ramfs_allocate_fd m1 n flags)"

definition ramfs_vfs_close :: "ramfs_mount \<Rightarrow> int \<Rightarrow> (ramfs_errno + unit) \<times> ramfs_mount" where
  "ramfs_vfs_close m fd =
     (case ramfs_get_file m fd of
        Inl err \<Rightarrow> (Inl err, m)
      | Inr k \<Rightarrow> (Inr (), upd_file k (\<lambda>_. ramfs_file_zero) m))"

text \<open>The bytes that were copied out.\<close>

definition ramfs_vfs_read ::
  "ramfs_mount \<Rightarrow> int \<Rightarrow> bool \<Rightarrow> nat \<Rightarrow> (ramfs_errno + u8 list) \<times> ramfs_mount" where
  "ramfs_vfs_read m fd dst_present sz =
     (if \<not> dst_present \<and> 0 < sz then (Inl EINVAL, m)
      else case ramfs_get_file m fd of
             Inl err \<Rightarrow> (Inl err, m)
           | Inr k \<Rightarrow>
               let file = rm_files m ! k
               in if rf_flags file AND O_ACCMODE = O_WRONLY then (Inl EBADF, m)
                  else let m1 = follow (rf_node file) m;
                           x = node m (the (rf_node file))
                       in if rn_size x \<le> rf_offset file then (Inr [], m1)
                          else let n = min sz (rn_size x - rf_offset file)
                               in (Inr (mem_read (rm_mem m1) (the (rn_data x) + rf_offset file) n),
                                   upd_file k (\<lambda>f. f\<lparr>rf_offset := rf_offset f + n\<rparr>) m1))"

definition ramfs_vfs_write ::
  "ramfs_mount \<Rightarrow> int \<Rightarrow> u8 list option \<Rightarrow> nat \<Rightarrow> int \<Rightarrow> (ramfs_errno + nat) \<times> ramfs_mount" where
  "ramfs_vfs_write m fd data sz now =
     (if data = None \<and> 0 < sz then (Inl EINVAL, m)
      else case ramfs_get_file m fd of
             Inl err \<Rightarrow> (Inl err, m)
           | Inr k \<Rightarrow>
               if rf_flags (rm_files m ! k) AND O_ACCMODE = 0 then (Inl EBADF, m)
               else
                 let n = the (rf_node (rm_files m ! k));
                     m1 = follow (rf_node (rm_files m ! k)) m;
                     m2 = (if rf_flags (rm_files m ! k) AND O_APPEND \<noteq> 0
                           then upd_file k (\<lambda>f. f\<lparr>rf_offset := rn_size (node m1 n)\<rparr>) m1 else m1);
                     offset = rf_offset (rm_files m2 ! k)
                 in if SIZE_MAX - offset < sz then (Inl EFBIG, m2)
                    else
                      let end_offset = offset + sz
                      in case (if rn_capacity (node m2 n) < end_offset
                               then ramfs_resize_node m2 n end_offset now else (None, m2)) of
                           (Some err, m3) \<Rightarrow> (Inl err, m3)
                         | (None, m3) \<Rightarrow>
                             let m4 = (case (rn_data (node m3 n), data) of
                                         (Some p, Some bytes) \<Rightarrow>
                                           m3\<lparr>rm_mem := mem_write (rm_mem m3) (p + offset) (take sz bytes)\<rparr>
                                       | _ \<Rightarrow> m3);
                                 m5 = upd_file k (\<lambda>f. f\<lparr>rf_offset := end_offset\<rparr>) m4
                             in (Inr sz,
                                 upd_node n (\<lambda>x. x\<lparr>rn_size := (if rn_size x < end_offset then end_offset
                                                               else rn_size x),
                                                   rn_mtime := now\<rparr>) m5))"

datatype seek_mode = SEEK_SET | SEEK_CUR | SEEK_END | SEEK_other

text \<open>The result is cast to \<open>off_t\<close>, a signed 32-bit integer.\<close>

definition to_off_t :: "nat \<Rightarrow> int" where
  "to_off_t n = sint (word_of_nat n :: u32)"

definition ramfs_vfs_lseek ::
  "ramfs_mount \<Rightarrow> int \<Rightarrow> int \<Rightarrow> seek_mode \<Rightarrow> (ramfs_errno + int) \<times> ramfs_mount" where
  "ramfs_vfs_lseek m fd offset mode =
     (case ramfs_get_file m fd of
        Inl err \<Rightarrow> (Inl err, m)
      | Inr k \<Rightarrow>
          let file = rm_files m ! k;
              seek = (\<lambda>next m1. if next < 0 \<or> int SIZE_MAX < next then (Inl EINVAL, m1)
                                else (Inr (to_off_t (nat next)),
                                      upd_file k (\<lambda>f. f\<lparr>rf_offset := nat next\<rparr>) m1))
          in case mode of
               SEEK_SET \<Rightarrow> seek offset m
             | SEEK_CUR \<Rightarrow> seek (int (rf_offset file) + offset) m
             | SEEK_END \<Rightarrow> seek (int (rn_size (node m (the (rf_node file)))) + offset)
                             (follow (rf_node file) m)
             | SEEK_other \<Rightarrow> (Inl EINVAL, m))"

definition ramfs_fill_stat :: "ramfs_node \<Rightarrow> ramfs_stat" where
  "ramfs_fill_stat x =
     \<lparr>rs_mode = (if rn_is_dir x then 0x41FF else 0x81B6),
      rs_size = (if rn_is_dir x then 0 else to_off_t (rn_size x)), rs_mtime = rn_mtime x\<rparr>"

definition ramfs_vfs_fstat ::
  "ramfs_mount \<Rightarrow> int \<Rightarrow> bool \<Rightarrow> (ramfs_errno + ramfs_stat) \<times> ramfs_mount" where
  "ramfs_vfs_fstat m fd st_present =
     (case ramfs_get_file m fd of
        Inl err \<Rightarrow> (Inl err, m)
      | Inr k \<Rightarrow>
          let ptr = rf_node (rm_files m ! k)
          in if ptr = None \<or> \<not> st_present then (Inl EINVAL, m)
             else (Inr (ramfs_fill_stat (node m (the ptr))), follow ptr m))"

definition ramfs_vfs_stat ::
  "ramfs_mount \<Rightarrow> string option \<Rightarrow> bool \<Rightarrow> ramfs_errno + ramfs_stat" where
  "ramfs_vfs_stat m path st_present =
     (case ramfs_find_node m path of
        Inl err \<Rightarrow> Inl err
      | Inr n \<Rightarrow> if \<not> st_present then Inl EINVAL else Inr (ramfs_fill_stat (node m n)))"

section \<open>Names\<close>

definition ramfs_vfs_unlink :: "ramfs_mount \<Rightarrow> string option \<Rightarrow> (ramfs_errno + unit) \<times> ramfs_mount" where
  "ramfs_vfs_unlink m path =
     (case ramfs_find_node m path of
        Inl err \<Rightarrow> (Inl err, m)
      | Inr n \<Rightarrow>
          if rn_is_dir (node m n) then (Inl EISDIR, m)
          else if ramfs_node_is_open m n then (Inl EBUSY, m)
          else let m1 = ramfs_unlink_node m n in (Inr (), free_tree m1 n))"

definition ramfs_vfs_rename ::
  "ramfs_mount \<Rightarrow> string option \<Rightarrow> string option \<Rightarrow> int \<Rightarrow> (ramfs_errno + unit) \<times> ramfs_mount" where
  "ramfs_vfs_rename m src dst now =
     (case ramfs_find_node m src of
        Inl err \<Rightarrow> (Inl err, m)
      | Inr n \<Rightarrow>
          if n = RAMFS_ROOT then (Inl EINVAL, m)
          else case ramfs_resolve_parent m dst of
                 Inl err \<Rightarrow> (Inl err, m)
               | Inr (new_parent, leaf) \<Rightarrow>
                   if ramfs_find_child m new_parent leaf \<noteq> None then (Inl EEXIST, m)
                   else case mount_alloc m (length leaf + 1) of
                          (Inl err, m1) \<Rightarrow> (Inl err, m1)
                        | (Inr new_name, m1) \<Rightarrow>
                            let m2 = ramfs_unlink_node m1 n;
                                m3 = mount_free m2 (rn_name_ptr (node m2 n));
                                m4 = upd_node n (\<lambda>x. x\<lparr>rn_name := leaf, rn_name_ptr := Some new_name,
                                                       rn_parent := Some new_parent\<rparr>) m3;
                                m5 = upd_node new_parent
                                       (\<lambda>p. p\<lparr>rn_children := n # rn_children p\<rparr>) m4
                            in (Inr (), upd_node n (\<lambda>x. x\<lparr>rn_mtime := now\<rparr>) m5))"

definition ramfs_vfs_mkdir ::
  "ramfs_mount \<Rightarrow> string option \<Rightarrow> int \<Rightarrow> (ramfs_errno + unit) \<times> ramfs_mount" where
  "ramfs_vfs_mkdir m name now =
     (case ramfs_resolve_parent m name of
        Inl err \<Rightarrow> (Inl err, m)
      | Inr (parent, leaf) \<Rightarrow>
          if ramfs_find_child m parent leaf \<noteq> None then (Inl EEXIST, m)
          else case ramfs_alloc_node m parent leaf True now of
                 (Inl err, m1) \<Rightarrow> (Inl err, m1)
               | (Inr _, m1) \<Rightarrow> (Inr (), m1))"

definition ramfs_vfs_rmdir :: "ramfs_mount \<Rightarrow> string option \<Rightarrow> (ramfs_errno + unit) \<times> ramfs_mount" where
  "ramfs_vfs_rmdir m name =
     (case ramfs_find_node m name of
        Inl err \<Rightarrow> (Inl err, m)
      | Inr n \<Rightarrow>
          if n = RAMFS_ROOT then (Inl EINVAL, m)
          else if \<not> rn_is_dir (node m n) then (Inl ENOTDIR, m)
          else if rn_children (node m n) \<noteq> [] then (Inl ENOTEMPTY, m)
          else let m1 = ramfs_unlink_node m n in (Inr (), free_tree m1 n))"

definition ramfs_vfs_access :: "ramfs_mount \<Rightarrow> string option \<Rightarrow> ramfs_errno + unit" where
  "ramfs_vfs_access m path =
     (case ramfs_find_node m path of Inl err \<Rightarrow> Inl err | Inr _ \<Rightarrow> Inr ())"

definition ramfs_vfs_truncate ::
  "ramfs_mount \<Rightarrow> string option \<Rightarrow> int \<Rightarrow> int \<Rightarrow> (ramfs_errno + unit) \<times> ramfs_mount" where
  "ramfs_vfs_truncate m path len now =
     (if len < 0 then (Inl EINVAL, m)
      else case ramfs_find_node m path of
             Inl err \<Rightarrow> (Inl err, m)
           | Inr n \<Rightarrow>
               (case ramfs_resize_node m n (nat len) now of
                  (Some err, m1) \<Rightarrow> (Inl err, m1)
                | (None, m1) \<Rightarrow> (Inr (), m1)))"

definition ramfs_vfs_ftruncate ::
  "ramfs_mount \<Rightarrow> int \<Rightarrow> int \<Rightarrow> int \<Rightarrow> (ramfs_errno + unit) \<times> ramfs_mount" where
  "ramfs_vfs_ftruncate m fd len now =
     (if len < 0 then (Inl EINVAL, m)
      else case ramfs_get_file m fd of
             Inl err \<Rightarrow> (Inl err, m)
           | Inr k \<Rightarrow>
               let ptr = rf_node (rm_files m ! k)
               in (case ramfs_resize_node (follow ptr m) (the ptr) (nat len) now of
                     (Some err, m1) \<Rightarrow> (Inl err, m1)
                   | (None, m1) \<Rightarrow>
                       (Inr (), if nat len < rf_offset (rm_files m1 ! k)
                                then upd_file k (\<lambda>f. f\<lparr>rf_offset := nat len\<rparr>) m1 else m1)))"

definition ramfs_vfs_fsync :: "ramfs_mount \<Rightarrow> int \<Rightarrow> ramfs_errno + unit" where
  "ramfs_vfs_fsync m fd = (case ramfs_get_file m fd of Inl err \<Rightarrow> Inl err | Inr _ \<Rightarrow> Inr ())"

section \<open>Directories\<close>

text \<open>The \<open>next\<close> pointer of a node: its successor among the children of its parent.\<close>

definition sibling_after :: "nat \<Rightarrow> nat list \<Rightarrow> nat option" where
  "sibling_after n xs = (case dropWhile (\<lambda>c. c \<noteq> n) xs of _ # y # _ \<Rightarrow> Some y | _ \<Rightarrow> None)"

definition ramfs_next :: "ramfs_mount \<Rightarrow> nat \<Rightarrow> nat option" where
  "ramfs_next m n =
     (case rn_parent (node m n) of
        None \<Rightarrow> None
      | Some p \<Rightarrow> sibling_after n (rn_children (node m p)))"

definition first_child :: "ramfs_mount \<Rightarrow> nat \<Rightarrow> nat option" where
  "first_child m n = (case rn_children (node m n) of [] \<Rightarrow> None | c # _ \<Rightarrow> Some c)"

definition ramfs_vfs_opendir :: "ramfs_mount \<Rightarrow> string option \<Rightarrow> bool \<Rightarrow> ramfs_errno + ramfs_dir" where
  "ramfs_vfs_opendir m name alloc_ok =
     (case ramfs_find_node m name of
        Inl err \<Rightarrow> Inl err
      | Inr n \<Rightarrow>
          if \<not> rn_is_dir (node m n) then Inl ENOTDIR
          else if \<not> alloc_ok then Inl ENOMEM
          else Inr \<lparr>rd_node = n, rd_next = first_child m n, rd_pos = 0\<rparr>)"

definition ramfs_vfs_readdir ::
  "ramfs_mount \<Rightarrow> ramfs_dir option
   \<Rightarrow> (ramfs_errno + ramfs_dirent option) \<times> ramfs_dir option \<times> ramfs_mount" where
  "ramfs_vfs_readdir m pdir =
     (case pdir of
        None \<Rightarrow> (Inl EBADF, pdir, m)
      | Some dir \<Rightarrow>
          (case rd_next dir of
             None \<Rightarrow> (Inr None, pdir, m)
           | Some n \<Rightarrow>
               (Inr (Some \<lparr>re_name = strlcpy (NAME_MAX + 1) (rn_name (node m n)),
                            re_is_dir = rn_is_dir (node m n)\<rparr>),
                Some (dir\<lparr>rd_next := ramfs_next m n, rd_pos := rd_pos dir + 1\<rparr>),
                follow (Some n) m)))"

text \<open>The return value, \<open>None\<close> for 0, and what \<open>*out\<close> is set to, if it is written.\<close>

definition ramfs_vfs_readdir_r ::
  "ramfs_mount \<Rightarrow> ramfs_dir option \<Rightarrow> bool \<Rightarrow> bool
   \<Rightarrow> (ramfs_errno option \<times> ramfs_dirent option option) \<times> ramfs_dir option \<times> ramfs_mount" where
  "ramfs_vfs_readdir_r m pdir entry_present out_present =
     (if \<not> entry_present \<or> \<not> out_present then ((Some EINVAL, None), pdir, m)
      else case ramfs_vfs_readdir m pdir of
             (Inr (Some e), pdir1, m1) \<Rightarrow> ((None, Some (Some e)), pdir1, m1)
           | (_, pdir1, m1) \<Rightarrow> ((None, Some None), pdir1, m1))"

definition ramfs_vfs_telldir :: "ramfs_dir option \<Rightarrow> int" where
  "ramfs_vfs_telldir dir = (case dir of None \<Rightarrow> - 1 | Some d \<Rightarrow> int (rd_pos d))"

definition ramfs_vfs_seekdir :: "ramfs_mount \<Rightarrow> ramfs_dir option \<Rightarrow> int \<Rightarrow> ramfs_dir option \<times> ramfs_mount" where
  "ramfs_vfs_seekdir m pdir offset =
     (case pdir of
        None \<Rightarrow> (pdir, m)
      | Some dir \<Rightarrow>
          if offset < 0 then (pdir, m)
          else let children = rn_children (node m (rd_node dir));
                   pos = min (nat offset) (length children)
               in (Some (dir\<lparr>rd_next := (if pos < length children then Some (children ! pos) else None),
                             rd_pos := pos\<rparr>),
                   follow (Some (rd_node dir)) m))"

definition ramfs_vfs_closedir :: "ramfs_dir option \<Rightarrow> ramfs_errno + unit" where
  "ramfs_vfs_closedir pdir = (if pdir = None then Inl EBADF else Inr ())"

section \<open>Mounts\<close>

definition ramfs_vfs_base_path :: "string option \<Rightarrow> string option" where
  "ramfs_vfs_base_path mount_point = (if mount_point = Some ''/'' then Some [] else mount_point)"

definition ramfs_path_is_on_mount :: "string option \<Rightarrow> string option \<Rightarrow> bool" where
  "ramfs_path_is_on_mount path mount_point =
     (case (path, mount_point) of
        (Some p, Some mp) \<Rightarrow>
          if mp = [] then False
          else if mp = ''/'' then take 1 p = ''/''
          else strncmp_eq (length mp) p mp
               \<and> (drop (length mp) p = [] \<or> take 1 (drop (length mp) p) = ''/'')
      | _ \<Rightarrow> False)"

definition ramfs_mount_zero :: ramfs_mount where
  "ramfs_mount_zero = \<lparr>rm_active = False, rm_mount_point = [], rm_quota_bytes = 0, rm_arena_bytes = 0,
     rm_blocks = [], rm_mem = (\<lambda>_. 0), rm_file_count = 0, rm_dir_count = 0, rm_nodes = Map.empty,
     rm_files = replicate RAMFS_MAX_OPEN_FILES ramfs_file_zero, rm_fault = False\<rparr>"

definition ramfs_find_mount :: "ramfs_mount list \<Rightarrow> string option \<Rightarrow> nat option" where
  "ramfs_find_mount ms mount_point =
     (case mount_point of
        None \<Rightarrow> None
      | Some mp \<Rightarrow> first_index (\<lambda>m. rm_active m \<and> rm_mount_point m = mp) ms)"

text \<open>The longest mount point the path is on; the index of the mount with the length so far.\<close>

definition ramfs_find_path_mount :: "ramfs_mount list \<Rightarrow> string option \<Rightarrow> nat option" where
  "ramfs_find_path_mount ms path =
     fst (foldl (\<lambda>(best, best_len) i.
                   let m = ms ! i; len = length (rm_mount_point m)
                   in if rm_active m \<and> best_len < len \<and> ramfs_path_is_on_mount path (Some (rm_mount_point m))
                      then (Some i, len) else (best, best_len))
            (None, 0 :: nat) [0..<length ms])"

definition ramfs_mount_overlaps :: "ramfs_mount list \<Rightarrow> string \<Rightarrow> bool" where
  "ramfs_mount_overlaps ms mount_point =
     list_ex (\<lambda>m. rm_active m \<and> (ramfs_path_is_on_mount (Some mount_point) (Some (rm_mount_point m))
                                 \<or> ramfs_path_is_on_mount (Some (rm_mount_point m)) (Some mount_point))) ms"

text \<open>\<open>vfs_path_max\<close> is \<open>ESP_VFS_PATH_MAX\<close>.\<close>

definition ramfs_validate_mount_point :: "nat \<Rightarrow> string option \<Rightarrow> esp_err" where
  "ramfs_validate_mount_point vfs_path_max mount_point =
     (case mount_point of
        None \<Rightarrow> ESP_ERR_INVALID_ARG
      | Some mp \<Rightarrow>
          if take 1 mp \<noteq> ''/'' then ESP_ERR_INVALID_ARG
          else if mp = ''/'' then ESP_OK
          else if length mp = 0 \<or> RAMFS_MOUNT_POINT_MAX \<le> length mp \<or> vfs_path_max < length mp
          then ESP_ERR_INVALID_SIZE
          else if last mp = CHR ''/'' then ESP_ERR_INVALID_ARG
          else if list_ex (\<lambda>i. mp ! i = CHR ''/'' \<and> mp ! (i - 1) = CHR ''/'') [1..<length mp]
          then ESP_ERR_INVALID_ARG
          else ESP_OK)"

text \<open>The fresh file system in an arena with the bytes \<open>mem\<close>.\<close>

definition ramfs_fresh :: "memory \<Rightarrow> nat \<Rightarrow> string \<Rightarrow> int \<Rightarrow> ramfs_mount" where
  "ramfs_fresh mem quota_bytes mount_point now =
     ramfs_mount_zero\<lparr>rm_arena_bytes := quota_bytes, rm_quota_bytes := quota_bytes - RAMFS_HEADER,
       rm_mem := mem,
       rm_blocks := [\<lparr>rb_offset = 0, rb_size = quota_bytes - RAMFS_HEADER, rb_free = True\<rparr>],
       rm_nodes := [RAMFS_ROOT \<mapsto> \<lparr>rn_name = [], rn_name_ptr = None, rn_is_dir = True,
          rn_parent = None, rn_children = [], rn_data = None, rn_size = 0, rn_capacity = 0,
          rn_mtime = now\<rparr>],
       rm_dir_count := 1, rm_mount_point := strlcpy RAMFS_MOUNT_POINT_MAX mount_point\<rparr>"

text \<open>
  The answers of the board and of ESP-IDF: whether there is PSRAM and any of it, the allocation of the
  arena with the bytes in it, the mutex, and the registration with the VFS.
\<close>

record ramfs_platform =
  rp_has_psram :: bool
  rp_external_total :: nat
  rp_arena :: "memory option"
  rp_mutex :: bool
  rp_vfs_register :: "string option \<Rightarrow> esp_err"
  rp_vfs_unregister :: "string option \<Rightarrow> esp_err"
  rp_vfs_path_max :: nat

definition solar_os_ramfs_mount ::
  "ramfs_platform \<Rightarrow> ramfs_mount list \<Rightarrow> string option \<Rightarrow> nat \<Rightarrow> int \<Rightarrow> esp_err \<times> ramfs_mount list" where
  "solar_os_ramfs_mount pf ms mount_point quota_bytes now =
     (if \<not> rp_has_psram pf then (ESP_ERR_NOT_SUPPORTED, ms)
      else if quota_bytes < RAMFS_MIN_QUOTA_BYTES \<or> quota_bytes \<le> RAMFS_HEADER
      then (ESP_ERR_INVALID_SIZE, ms)
      else if rp_external_total pf = 0 then (ESP_ERR_NOT_SUPPORTED, ms)
      else
        let ret = ramfs_validate_mount_point (rp_vfs_path_max pf) mount_point
        in if ret \<noteq> ESP_OK then (ret, ms)
           else if ramfs_mount_overlaps ms (cstr mount_point) then (ESP_ERR_INVALID_STATE, ms)
           else case first_index (\<lambda>m. \<not> rm_active m) ms of
                  None \<Rightarrow> (ESP_ERR_NO_MEM, ms)
                | Some i \<Rightarrow>
                    (case rp_arena pf of
                       None \<Rightarrow> (ESP_ERR_NO_MEM, ms[i := ramfs_mount_zero])
                     | Some mem \<Rightarrow>
                         if \<not> rp_mutex pf then (ESP_ERR_NO_MEM, ms[i := ramfs_mount_zero])
                         else
                           let mp = strlcpy RAMFS_MOUNT_POINT_MAX (cstr mount_point);
                               registered = rp_vfs_register pf (ramfs_vfs_base_path (Some mp))
                           in if registered \<noteq> ESP_OK then (registered, ms[i := ramfs_mount_zero])
                           else (ESP_OK,
                               ms[i := (ramfs_fresh mem quota_bytes (cstr mount_point) now)
                                         \<lparr>rm_active := True\<rparr>])))"

definition solar_os_ramfs_unmount ::
  "ramfs_platform \<Rightarrow> ramfs_mount list \<Rightarrow> string option \<Rightarrow> esp_err \<times> ramfs_mount list" where
  "solar_os_ramfs_unmount pf ms mount_point =
     (if \<not> rp_has_psram pf then (ESP_ERR_NOT_SUPPORTED, ms)
      else case ramfs_find_mount ms mount_point of
             None \<Rightarrow> (ESP_ERR_NOT_FOUND, ms)
           | Some i \<Rightarrow>
               if list_ex rf_active (rm_files (ms ! i)) then (ESP_ERR_INVALID_STATE, ms)
               else
                 let ret = rp_vfs_unregister pf (ramfs_vfs_base_path (Some (rm_mount_point (ms ! i))))
                 in if ret \<noteq> ESP_OK then (ret, ms)
                    else let m1 = free_tree (ms ! i) RAMFS_ROOT
                         in (ESP_OK, (ms[i := m1])[i := ramfs_mount_zero]))"

definition solar_os_ramfs_mount_count :: "ramfs_mount list \<Rightarrow> nat" where
  "solar_os_ramfs_mount_count ms = length (filter rm_active ms)"

record ramfs_info =
  ri_mount_point :: string
  ri_total_bytes :: nat
  ri_used_bytes :: nat
  ri_free_bytes :: nat
  ri_file_count :: nat
  ri_dir_count :: nat
  ri_open_count :: nat

definition solar_os_ramfs_get_info :: "ramfs_mount list \<Rightarrow> nat \<Rightarrow> bool \<Rightarrow> ramfs_info option" where
  "solar_os_ramfs_get_info ms index info_present =
     (let active = filter rm_active ms
      in if \<not> info_present \<or> length active \<le> index then None
         else let m = active ! index; (total, used, free) = ramfs_get_space_locked m
              in Some \<lparr>ri_mount_point = strlcpy RAMFS_MOUNT_POINT_MAX (rm_mount_point m),
                       ri_total_bytes = total, ri_used_bytes = used, ri_free_bytes = free,
                       ri_file_count = rm_file_count m, ri_dir_count = rm_dir_count m,
                       ri_open_count = length (filter rf_active (rm_files m))\<rparr>)"

definition solar_os_ramfs_path_has_mount_prefix :: "ramfs_mount list \<Rightarrow> string option \<Rightarrow> bool" where
  "solar_os_ramfs_path_has_mount_prefix ms path \<longleftrightarrow> ramfs_find_path_mount ms path \<noteq> None"

text \<open>The buffer after the call, \<open>None\<close> when it was not written.\<close>

definition solar_os_ramfs_path_mount_point ::
  "ramfs_mount list \<Rightarrow> string option \<Rightarrow> bool \<Rightarrow> nat \<Rightarrow> esp_err \<times> string option" where
  "solar_os_ramfs_path_mount_point ms path buffer_present buffer_len =
     (if path = None \<or> \<not> buffer_present \<or> buffer_len = 0 then (ESP_ERR_INVALID_ARG, None)
      else case ramfs_find_path_mount ms path of
             None \<Rightarrow> (ESP_ERR_NOT_FOUND, None)
           | Some i \<Rightarrow>
               let mp = rm_mount_point (ms ! i)
               in (if buffer_len \<le> length mp then ESP_ERR_INVALID_SIZE else ESP_OK,
                   Some (strlcpy buffer_len mp)))"

definition solar_os_ramfs_get_usage_for_path ::
  "ramfs_mount list \<Rightarrow> string option \<Rightarrow> bool \<Rightarrow> esp_err \<times> (nat \<times> nat \<times> nat) option" where
  "solar_os_ramfs_get_usage_for_path ms path outputs_present =
     (if path = None \<or> \<not> outputs_present then (ESP_ERR_INVALID_ARG, None)
      else case ramfs_find_path_mount ms path of
             None \<Rightarrow> (ESP_ERR_NOT_FOUND, None)
           | Some i \<Rightarrow> (ESP_OK, Some (ramfs_get_space_locked (ms ! i))))"

end
