(* ===== verification/RamInvariant.thy ===== *)
theory RamInvariant
  imports RamFs
begin

text \<open>
  The invariant of a RAM file system mount: who owns which block of the arena, how the tree hangs
  together, what an open file refers to. The building blocks of the VFS callbacks (allocating a node,
  resizing a file, unlinking and freeing a node) are shown to keep it, together with what they do to the
  abstract view of the mount: a table of inodes that are byte strings or maps from names to inodes.
\<close>

section \<open>The owners of the blocks\<close>

datatype ram_owner = Own_node nat | Own_name nat | Own_data nat

fun owned :: "(nat \<rightharpoonup> ramfs_node) \<Rightarrow> ram_owner \<Rightarrow> (nat \<times> nat) option" where
  "owned N (Own_node n) = (if n = RAMFS_ROOT \<or> N n = None then None else Some (n, NODE_SIZE))"
| "owned N (Own_name n) =
     (case N n of None \<Rightarrow> None
      | Some x \<Rightarrow> map_option (\<lambda>p. (p, length (rn_name x) + 1)) (rn_name_ptr x))"
| "owned N (Own_data n) =
     (case N n of None \<Rightarrow> None | Some x \<Rightarrow> map_option (\<lambda>p. (p, rn_capacity x)) (rn_data x))"

text \<open>Every owner has a block that is large enough for it, no two share one, and no block is lost.\<close>

definition arena_ok :: "(ram_owner \<Rightarrow> (nat \<times> nat) option) \<Rightarrow> ramfs_mount \<Rightarrow> bool" where
  "arena_ok ow m \<longleftrightarrow>
     tiles 0 (rm_blocks m) (rm_arena_bytes m) \<and> \<not> rm_fault m
     \<and> (\<forall>x p k. ow x = Some (p, k) \<longrightarrow> 0 < k \<and> (\<exists>z \<ge> k. used_map (rm_blocks m) p = Some z))
     \<and> (\<forall>p z. used_map (rm_blocks m) p = Some z \<longrightarrow> (\<exists>x k. ow x = Some (p, k)))
     \<and> (\<forall>x y p k l. ow x = Some (p, k) \<longrightarrow> ow y = Some (p, l) \<longrightarrow> x = y)"

lemma arena_okD:
  assumes "arena_ok ow m"
  shows "tiles 0 (rm_blocks m) (rm_arena_bytes m)" and "\<not> rm_fault m"
    and "ow x = Some (p, k) \<Longrightarrow> 0 < k \<and> (\<exists>z \<ge> k. used_map (rm_blocks m) p = Some z)"
    and "used_map (rm_blocks m) p = Some z \<Longrightarrow> \<exists>x k. ow x = Some (p, k)"
    and "ow x = Some (p, k) \<Longrightarrow> ow y = Some (p, l) \<Longrightarrow> x = y"
  using assms unfolding arena_ok_def by blast+

lemma owner_inside:
  assumes "arena_ok ow m" and "ow x = Some (p, k)"
  shows "0 < p" "p < rm_arena_bytes m" "p + k \<le> rm_arena_bytes m"
proof -
  obtain z where "0 < k" "k \<le> z" "used_map (rm_blocks m) p = Some z" using arena_okD(3) [OF assms] by blast
  then show "0 < p" "p < rm_arena_bytes m" "p + k \<le> rm_arena_bytes m"
    using used_inside [OF arena_okD(1) [OF assms(1)]] by (force simp: RAMFS_HEADER_def)+
qed

lemma owners_apart:
  assumes "arena_ok ow m" and "ow x = Some (p, k)" "ow y = Some (q, l)" "x \<noteq> y"
  shows "p + k \<le> q \<or> q + l \<le> p"
proof -
  have ne: "p \<noteq> q" using arena_okD(5) [OF assms(1)] assms(2-4) by blast
  obtain z z' where z: "k \<le> z" "used_map (rm_blocks m) p = Some z" "l \<le> z'" "used_map (rm_blocks m) q = Some z'"
    using arena_okD(3) [OF assms(1)] assms(2,3) by blast
  show ?thesis using used_disjoint [OF arena_okD(1) [OF assms(1)] z(2,4) ne] z(1,3) by arith
qed

text \<open>The arena depends on its blocks only.\<close>

lemma arena_ok_cong:
  "rm_blocks m' = rm_blocks m \<Longrightarrow> rm_arena_bytes m' = rm_arena_bytes m \<Longrightarrow> rm_fault m' = rm_fault m
   \<Longrightarrow> arena_ok ow m' \<longleftrightarrow> arena_ok ow m"
  unfolding arena_ok_def by simp

lemma mount_alloc_ok:
  assumes ok: "arena_ok ow m" and al: "mount_alloc m sz = (res, m')"
  obtains (fail) err where "res = Inl err" "m' = m"
  | (fresh) p bs where "res = Inr p" "m' = m\<lparr>rm_blocks := bs\<rparr>" "0 < p" "\<And>x k. ow x \<noteq> Some (p, k)"
      "\<And>x. ow x = None \<Longrightarrow> 0 < sz \<Longrightarrow> arena_ok (ow(x \<mapsto> (p, sz))) m'"
proof -
  obtain bs where bs: "ramfs_alloc (rm_blocks m) sz = (res, bs)" "m' = m\<lparr>rm_blocks := bs\<rparr>"
    using al by (auto simp: mount_alloc_def split: prod.splits)
  note spec = alloc_spec [OF arena_okD(1) [OF ok] bs(1)]
  show ?thesis
  proof (cases res)
    case (Inl err)
    then show ?thesis using spec(2) bs(2) by (intro fail [of err]) simp_all
  next
    case (Inr p)
    then obtain n where n: "used_map (rm_blocks m) p = None" "sz \<le> n" "used_map bs = (used_map (rm_blocks m))(p \<mapsto> n)"
      using spec(2) by auto
    have unowned: "ow x \<noteq> Some (p, k)" for x k using arena_okD(3) [OF ok, of x p k] n(1) by auto
    have pos: "0 < p" using used_inside(1) [OF spec(1), of p n] n(3) by (simp add: RAMFS_HEADER_def)
    have "arena_ok (ow(x \<mapsto> (p, sz))) m'" if x: "ow x = None" "0 < sz" for x
      unfolding arena_ok_def bs(2)
      using spec(1) n(2,3) x unowned arena_okD(2-5) [OF ok]
      by (auto simp: fun_upd_apply) (metis n(1) option.distinct(1))+
    then show ?thesis using Inr bs(2) pos unowned by (intro fresh [of p bs]) blast+
  qed
qed

lemma mount_free_None [simp]: "mount_free m None = m"
  by (simp add: mount_free_def ramfs_free_def ramfs_ptr_in_arena_def)

lemma mount_free_ok:
  assumes ok: "arena_ok ow m" and x: "ow x = Some (p, k)"
  obtains bs where "mount_free m (Some p) = m\<lparr>rm_blocks := bs\<rparr>" "arena_ok (ow(x := None)) (m\<lparr>rm_blocks := bs\<rparr>)"
proof -
  obtain z where z: "used_map (rm_blocks m) p = Some z" using arena_okD(3) [OF ok x] by blast
  obtain bs where bs: "ramfs_free (rm_arena_bytes m) (rm_blocks m) (Some p) = Some bs"
    "tiles 0 bs (rm_arena_bytes m)" "used_map bs = (used_map (rm_blocks m))(p := None)"
    using free_spec [OF arena_okD(1) [OF ok] z owner_inside(2) [OF ok x]] by blast
  have other: "ow y \<noteq> Some (p, l)" if "y \<noteq> x" for y l using arena_okD(5) [OF ok x] that by blast
  have "arena_ok (ow(x := None)) (m\<lparr>rm_blocks := bs\<rparr>)"
    unfolding arena_ok_def
    using bs(2,3) other arena_okD(2-5) [OF ok]
    by (auto simp: fun_upd_apply) (metis x option.inject prod.inject)+
  then show ?thesis using bs(1) that by (simp add: mount_free_def)
qed

lemma free_option_ok:
  assumes ok: "arena_ok ow m" and x: "map_option fst (ow x) = ptr"
  obtains bs where "mount_free m ptr = m\<lparr>rm_blocks := bs\<rparr>" "arena_ok (ow(x := None)) (m\<lparr>rm_blocks := bs\<rparr>)"
proof (cases "ow x")
  case None
  then have "ow(x := None) = ow" by auto
  then show ?thesis using that [of "rm_blocks m"] ok x None by auto
next
  case (Some pk)
  then obtain p k where pk: "ow x = Some (p, k)" by (cases pk) auto
  show ?thesis using mount_free_ok [OF ok pk] that x pk by auto
qed

text \<open>
  Resizing the block of \<open>x\<close>: its bytes are kept up to the smaller size, those of every other owner are kept.
\<close>

lemma mount_realloc_ok:
  assumes ok: "arena_ok ow m" and x: "map_option fst (ow x) = ptr" "(case ow x of None \<Rightarrow> 0 | Some pk \<Rightarrow> snd pk) = old"
    and new: "0 < new" and re: "mount_realloc m ptr old new = (res, m')"
  obtains (fail) err where "res = Inl err" "m' = m"
  | (moved) q bs mem where "res = Inr (Some q)" "m' = m\<lparr>rm_blocks := bs, rm_mem := mem\<rparr>"
      "arena_ok (ow(x \<mapsto> (q, new))) m'"
      "mem_read mem q (min old new) = (case ptr of None \<Rightarrow> [] | Some p \<Rightarrow> mem_read (rm_mem m) p (min old new))"
      "\<And>y p k. y \<noteq> x \<Longrightarrow> ow y = Some (p, k) \<Longrightarrow> mem_read mem p k = mem_read (rm_mem m) p k"
proof (cases "ow x")
  case None
  then have ptr: "ptr = None" "old = 0" using x by simp_all
  obtain r bs where al: "ramfs_alloc (rm_blocks m) new = (r, bs)" by (cases "ramfs_alloc (rm_blocks m) new")
  have re': "(res, m') = ((case r of Inl e \<Rightarrow> Inl e | Inr p \<Rightarrow> Inr (Some p)), m\<lparr>rm_blocks := bs\<rparr>)"
    using re new al ptr by (auto simp: mount_realloc_def ramfs_realloc_def split: sum.splits)
  have al': "mount_alloc m new = (r, m')" using al re' by (simp add: mount_alloc_def)
  show ?thesis
  proof (rule mount_alloc_ok [OF ok al'])
    fix err assume "r = Inl err" "m' = m"
    then show ?thesis using re' by (intro fail [of err]) simp_all
  next
    fix q bs' assume q: "r = Inr q" "m' = m\<lparr>rm_blocks := bs'\<rparr>" "\<And>y. ow y = None \<Longrightarrow> 0 < new \<Longrightarrow> arena_ok (ow(y \<mapsto> (q, new))) m'"
    show ?thesis
      by (rule moved [of q "rm_mem m" bs']) (use q(3) [OF None new] q(1,2) re' ptr in \<open>auto simp: mem_read_def\<close>)
  qed
next
  case (Some pk)
  then obtain p where pk: "ow x = Some (p, old)" and ptr: "ptr = Some p" using x by (cases pk) auto
  obtain n where n: "old \<le> n" "used_map (rm_blocks m) p = Some n" using arena_okD(3) [OF ok pk] by blast
  obtain bs mem where r: "ramfs_realloc (rm_arena_bytes m) (rm_blocks m) (rm_mem m) (Some p) old new = Some (res, bs, mem)"
    and t: "tiles 0 bs (rm_arena_bytes m)" and m': "m' = m\<lparr>rm_blocks := bs, rm_mem := mem\<rparr>"
    and spec: "case res of
         Inl err \<Rightarrow> bs = rm_blocks m \<and> mem = rm_mem m
       | Inr q \<Rightarrow> \<exists>q0 z. q = Some q0 \<and> new \<le> z \<and> used_map bs = (used_map (rm_blocks m))(p := None, q0 \<mapsto> z)
           \<and> (q0 = p \<or> used_map (rm_blocks m) q0 = None)
           \<and> mem_read mem q0 (min old new) = mem_read (rm_mem m) p (min old new)
           \<and> (\<forall>a. a < q0 \<or> q0 + z \<le> a \<longrightarrow> mem a = rm_mem m a)"
    using realloc_spec [OF arena_okD(1) [OF ok] n(2,1) new owner_inside(2) [OF ok pk], of "rm_mem m"] re ptr
    by (auto simp: mount_realloc_def)
  show ?thesis
  proof (cases res)
    case (Inl err)
    then show ?thesis using spec m' by (intro fail [of err]) simp_all
  next
    case (Inr qq)
    then obtain q z where q: "qq = Some q" "new \<le> z" "used_map bs = (used_map (rm_blocks m))(p := None, q \<mapsto> z)"
      "q = p \<or> used_map (rm_blocks m) q = None"
      "mem_read mem q (min old new) = mem_read (rm_mem m) p (min old new)"
      "\<And>a. a < q \<or> q + z \<le> a \<Longrightarrow> mem a = rm_mem m a"
      using spec by auto
    have other: "ow y \<noteq> Some (p, l) \<and> ow y \<noteq> Some (q, l)" if "y \<noteq> x" for y l
      using arena_okD(5) [OF ok pk] arena_okD(3) [OF ok, of y q l] q(4) that by (metis option.distinct(1))
    have ok': "arena_ok (ow(x \<mapsto> (q, new))) m'"
      unfolding arena_ok_def m'
      using t q(2,3) new other arena_okD(2-5) [OF ok]
      by (auto simp: fun_upd_apply) (metis pk option.inject prod.inject)+
    show ?thesis
    proof (rule moved [of q mem bs])
      fix y p' k assume y: "y \<noteq> x" "ow y = Some (p', k)"
      obtain z' where z': "k \<le> z'" "used_map bs p' = Some z'"
        using arena_okD(3) [OF ok', of y p' k] y m' by auto
      have "p' \<noteq> q" using other y by auto
      then have "p' + z' \<le> q \<or> q + z \<le> p'"
        using used_disjoint [OF t z'(2), of q z] q(3) by simp
      then show "mem_read mem p' k = mem_read (rm_mem m) p' k"
        using z'(1) q(6) by (intro mem_read_cong) auto
    qed (use Inr q(1,5) m' ok' ptr in auto)
  qed
qed

section \<open>The tree\<close>

definition name_ok :: "string \<Rightarrow> bool" where
  "name_ok s \<longleftrightarrow> s \<noteq> [] \<and> length s \<le> NAME_MAX \<and> CHR ''/'' \<notin> set s \<and> s \<noteq> ''.'' \<and> s \<noteq> ''..''"

text \<open>
  Node \<open>x\<close> at address \<open>n\<close>: it is a child of its parent and of no other directory, its children point back
  to it and differ in their names, and it has data where it has a capacity. The nodes of \<open>D\<close> are detached:
  not linked into a directory, in the middle of an operation.
\<close>

definition record_ok :: "nat \<Rightarrow> ramfs_node \<Rightarrow> bool" where
  "record_ok n x \<longleftrightarrow>
     (if n = RAMFS_ROOT then rn_is_dir x \<and> rn_parent x = None \<and> rn_name_ptr x = None
      else rn_name_ptr x \<noteq> None \<and> name_ok (rn_name x))
     \<and> distinct (rn_children x)
     \<and> (if rn_is_dir x then rn_data x = None else rn_children x = [])
     \<and> rn_size x = rn_capacity x \<and> (rn_data x = None \<longleftrightarrow> rn_capacity x = 0)"

definition node_ok :: "nat set \<Rightarrow> (nat \<rightharpoonup> ramfs_node) \<Rightarrow> nat \<Rightarrow> ramfs_node \<Rightarrow> bool" where
  "node_ok D N n x \<longleftrightarrow>
     record_ok n x
     \<and> (n \<noteq> RAMFS_ROOT \<longrightarrow> n \<notin> D \<longrightarrow>
          (\<exists>p y. rn_parent x = Some p \<and> N p = Some y \<and> rn_is_dir y \<and> n \<in> set (rn_children y)))
     \<and> (\<forall>c \<in> set (rn_children x). c \<notin> D \<and> c \<noteq> RAMFS_ROOT \<and> (\<exists>y. N c = Some y \<and> rn_parent y = Some n))
     \<and> inj_on (\<lambda>c. rn_name (the (N c))) (set (rn_children x))"

lemma node_okI:
  assumes "record_ok n x"
    and "n \<noteq> RAMFS_ROOT \<Longrightarrow> n \<notin> D \<Longrightarrow>
      \<exists>p y. rn_parent x = Some p \<and> N p = Some y \<and> rn_is_dir y \<and> n \<in> set (rn_children y)"
    and "\<And>c. c \<in> set (rn_children x) \<Longrightarrow> c \<notin> D \<and> c \<noteq> RAMFS_ROOT"
    and "\<And>c. c \<in> set (rn_children x) \<Longrightarrow> \<exists>y. N c = Some y \<and> rn_parent y = Some n"
    and "inj_on (\<lambda>c. rn_name (the (N c))) (set (rn_children x))"
  shows "node_ok D N n x"
  using assms unfolding node_ok_def by blast

definition tree_but :: "nat set \<Rightarrow> (nat \<rightharpoonup> ramfs_node) \<Rightarrow> bool" where
  "tree_but D N \<longleftrightarrow> N RAMFS_ROOT \<noteq> None \<and> (\<forall>n x. N n = Some x \<longrightarrow> node_ok D N n x)"

abbreviation tree_ok :: "(nat \<rightharpoonup> ramfs_node) \<Rightarrow> bool" where
  "tree_ok \<equiv> tree_but {}"

definition nodes_of_kind :: "bool \<Rightarrow> (nat \<rightharpoonup> ramfs_node) \<Rightarrow> nat set" where
  "nodes_of_kind d N = {n \<in> dom N. rn_is_dir (the (N n)) = d}"

definition count_ok :: "(nat \<rightharpoonup> ramfs_node) \<Rightarrow> nat \<Rightarrow> nat \<Rightarrow> bool" where
  "count_ok N files dirs \<longleftrightarrow>
     finite (dom N) \<and> files = card (nodes_of_kind False N) \<and> dirs = card (nodes_of_kind True N)"

text \<open>An open file refers to a file that exists.\<close>

definition file_ok :: "(nat \<rightharpoonup> ramfs_node) \<Rightarrow> ramfs_file \<Rightarrow> bool" where
  "file_ok N f \<longleftrightarrow> (rf_active f \<longrightarrow> (\<exists>n x. rf_node f = Some n \<and> N n = Some x \<and> \<not> rn_is_dir x))"

definition ramfs_ok :: "ramfs_mount \<Rightarrow> bool" where
  "ramfs_ok m \<longleftrightarrow>
     arena_ok (owned (rm_nodes m)) m \<and> tree_ok (rm_nodes m)
     \<and> count_ok (rm_nodes m) (rm_file_count m) (rm_dir_count m)
     \<and> length (rm_files m) = RAMFS_MAX_OPEN_FILES \<and> list_all (file_ok (rm_nodes m)) (rm_files m)"

lemma ramfs_okD:
  assumes "ramfs_ok m"
  shows "arena_ok (owned (rm_nodes m)) m" and "tree_ok (rm_nodes m)" and "count_ok (rm_nodes m) (rm_file_count m) (rm_dir_count m)"
    and "length (rm_files m) = RAMFS_MAX_OPEN_FILES" and "list_all (file_ok (rm_nodes m)) (rm_files m)"
  using assms by (simp_all add: ramfs_ok_def)

lemma tree_butD: "tree_but D N \<Longrightarrow> N n = Some x \<Longrightarrow> node_ok D N n x"
  by (simp add: tree_but_def)

lemma tree_butI:
  "N RAMFS_ROOT \<noteq> None \<Longrightarrow> (\<And>n x. N n = Some x \<Longrightarrow> node_ok D N n x) \<Longrightarrow> tree_but D N"
  by (simp add: tree_but_def)

lemma node_record: "node_ok D N n x \<Longrightarrow> record_ok n x"
  by (simp add: node_ok_def)

lemma root_node: "tree_but D N \<Longrightarrow> \<exists>x. N RAMFS_ROOT = Some x \<and> rn_is_dir x \<and> rn_parent x = None"
  by (auto simp: tree_but_def node_ok_def record_ok_def)

lemma parent_node:
  assumes "tree_but D N" "N n = Some x" "n \<noteq> RAMFS_ROOT" "n \<notin> D"
  shows "\<exists>p y. rn_parent x = Some p \<and> N p = Some y \<and> rn_is_dir y \<and> n \<in> set (rn_children y)"
  using tree_butD [OF assms(1,2)] assms(3,4) by (auto simp: node_ok_def)

lemma child_node:
  assumes "tree_but D N" "N p = Some y" "c \<in> set (rn_children y)"
  shows "\<exists>x. N c = Some x \<and> rn_parent x = Some p \<and> c \<noteq> RAMFS_ROOT \<and> c \<notin> D \<and> rn_is_dir y"
  using tree_butD [OF assms(1,2)] assms(3) by (auto simp: node_ok_def record_ok_def split: if_splits)

section \<open>The view\<close>

datatype inode = Dir "string \<rightharpoonup> nat" | File "u8 list"

definition entries :: "(nat \<rightharpoonup> ramfs_node) \<Rightarrow> ramfs_node \<Rightarrow> string \<rightharpoonup> nat" where
  "entries N x = map_of (map (\<lambda>c. (rn_name (the (N c)), c)) (rn_children x))"

definition content :: "memory \<Rightarrow> ramfs_node \<Rightarrow> u8 list" where
  "content mem x = (case rn_data x of None \<Rightarrow> [] | Some p \<Rightarrow> mem_read mem p (rn_size x))"

definition view :: "(nat \<rightharpoonup> ramfs_node) \<Rightarrow> memory \<Rightarrow> nat \<rightharpoonup> inode" where
  "view N mem n =
     map_option (\<lambda>x. if rn_is_dir x then Dir (entries N x) else File (content mem x)) (N n)"

abbreviation inodes :: "ramfs_mount \<Rightarrow> nat \<rightharpoonup> inode" where
  "inodes m \<equiv> view (rm_nodes m) (rm_mem m)"

lemma entries_Some:
  assumes "node_ok D N n x"
  shows "entries N x s = Some c \<longleftrightarrow> c \<in> set (rn_children x) \<and> rn_name (the (N c)) = s"
proof -
  have "distinct (map (\<lambda>c. rn_name (the (N c))) (rn_children x))"
    using assms by (simp add: distinct_map node_ok_def record_ok_def)
  then have "distinct (map fst (map (\<lambda>c. (rn_name (the (N c)), c)) (rn_children x)))" by (simp add: comp_def)
  then show ?thesis unfolding entries_def by (auto simp: map_of_eq_Some_iff)
qed

lemma entries_None: "entries N x s = None \<longleftrightarrow> (\<forall>c \<in> set (rn_children x). rn_name (the (N c)) \<noteq> s)"
  by (auto simp: entries_def map_of_eq_None_iff image_image)

text \<open>A name is looked up among the entries.\<close>

lemma find_child_entries: "ramfs_find_child m p s = entries (rm_nodes m) (node m p) s"
proof -
  have "find (\<lambda>c. rn_name (node m c) = s) cs = map_of (map (\<lambda>c. (rn_name (node m c), c)) cs) s" for cs
    by (induction cs) auto
  then show ?thesis by (simp add: ramfs_find_child_def entries_def)
qed

section \<open>Steps on the table of nodes\<close>

text \<open>The steps an operation is made of: detaching, renaming, deleting, creating and attaching a node.\<close>

definition detach :: "nat \<Rightarrow> nat \<Rightarrow> (nat \<rightharpoonup> ramfs_node) \<Rightarrow> nat \<rightharpoonup> ramfs_node" where
  "detach p n N = N(p \<mapsto> (the (N p))\<lparr>rn_children := remove1 n (rn_children (the (N p)))\<rparr>)"

definition attach :: "nat \<Rightarrow> nat \<Rightarrow> (nat \<rightharpoonup> ramfs_node) \<Rightarrow> nat \<rightharpoonup> ramfs_node" where
  "attach p n N = N(p \<mapsto> (the (N p))\<lparr>rn_children := n # rn_children (the (N p))\<rparr>)"

definition relabel ::
  "nat \<Rightarrow> string \<Rightarrow> nat \<Rightarrow> nat \<Rightarrow> (nat \<rightharpoonup> ramfs_node) \<Rightarrow> nat \<rightharpoonup> ramfs_node" where
  "relabel n s ptr q N = N(n \<mapsto> (the (N n))\<lparr>rn_name := s, rn_name_ptr := Some ptr, rn_parent := Some q\<rparr>)"

lemma detach_tree:
  assumes t: "tree_ok N" and n: "N n = Some x" "n \<noteq> RAMFS_ROOT" "rn_parent x = Some p"
  shows "tree_but {n} (detach p n N)"
proof (rule tree_butI)
  show "detach p n N RAMFS_ROOT \<noteq> None" using t by (simp add: detach_def tree_but_def)
next
  obtain y where y: "N p = Some y" "rn_is_dir y" "n \<in> set (rn_children y)"
    using parent_node [OF t n(1,2)] n(3) by auto
  fix k z assume z: "detach p n N k = Some z"
  then obtain z0 where z0: "N k = Some z0"
    "z = z0\<lparr>rn_children := if k = p then remove1 n (rn_children z0) else rn_children z0\<rparr>"
    using y by (auto simp: detach_def split: if_splits)
  note ok = tree_butD [OF t z0(1)]
  have d: "distinct (rn_children z0)" using node_record [OF ok] by (simp add: record_ok_def)
  have sub: "set (rn_children z) \<subseteq> set (rn_children z0)" using z0(2) set_remove1_subset [of n "rn_children z0"] by (auto split: if_splits)
  show "node_ok {n} (detach p n N) k z"
  proof (rule node_okI)
    show "record_ok k z" using node_record [OF ok] z0(2) by (auto simp: record_ok_def)
    show "\<exists>q w. rn_parent z = Some q \<and> detach p n N q = Some w \<and> rn_is_dir w \<and> k \<in> set (rn_children w)"
      if "k \<noteq> RAMFS_ROOT" "k \<notin> {n}"
      using parent_node [OF t z0(1)] that y z0(2) by (auto simp: detach_def)
    fix c assume c: "c \<in> set (rn_children z)"
    then have c0: "c \<in> set (rn_children z0)" using sub by blast
    show "c \<notin> {n} \<and> c \<noteq> RAMFS_ROOT"
      using child_node [OF t z0(1) c0] n c z0(2) d by (cases "k = p") auto
    show "\<exists>w. detach p n N c = Some w \<and> rn_parent w = Some k"
      using child_node [OF t z0(1) c0] y by (auto simp: detach_def)
  next
    have names: "rn_name (the (detach p n N c)) = rn_name (the (N c))" for c using y by (simp add: detach_def)
    show "inj_on (\<lambda>c. rn_name (the (detach p n N c))) (set (rn_children z))"
      unfolding names using ok sub by (auto simp: node_ok_def intro: inj_on_subset)
  qed
qed

lemma relabel_tree:
  assumes t: "tree_but {n} N" and n: "N n = Some x" "n \<noteq> RAMFS_ROOT" and s: "name_ok s"
  shows "tree_but {n} (relabel n s ptr q N)"
proof (rule tree_butI)
  show "relabel n s ptr q N RAMFS_ROOT \<noteq> None" using t by (simp add: relabel_def tree_but_def)
next
  fix k z assume z: "relabel n s ptr q N k = Some z"
  then obtain z0 where z0: "N k = Some z0"
    "z = (if k = n then z0\<lparr>rn_name := s, rn_name_ptr := Some ptr, rn_parent := Some q\<rparr> else z0)"
    using n by (auto simp: relabel_def split: if_splits)
  note ok = tree_butD [OF t z0(1)]
  have kids: "rn_children z = rn_children z0" "n \<notin> set (rn_children z0)"
    using z0(2) ok by (auto simp: node_ok_def)
  have same: "relabel n s ptr q N c = N c" if "c \<in> set (rn_children z)" for c
    using that kids by (auto simp: relabel_def)
  show "node_ok {n} (relabel n s ptr q N) k z"
  proof (rule node_okI)
    show "record_ok k z" using node_record [OF ok] z0(2) n s by (auto simp: record_ok_def)
    show "\<exists>r w. rn_parent z = Some r \<and> relabel n s ptr q N r = Some w \<and> rn_is_dir w \<and> k \<in> set (rn_children w)"
      if k: "k \<noteq> RAMFS_ROOT" "k \<notin> {n}"
    proof -
      obtain r w where r: "rn_parent z0 = Some r" "N r = Some w" "rn_is_dir w" "k \<in> set (rn_children w)"
        using parent_node [OF t z0(1) k] by blast
      moreover have "z = z0" using z0(2) k(2) by simp
      ultimately show ?thesis by (cases "r = n") (simp_all add: relabel_def)
    qed
    show "c \<notin> {n} \<and> c \<noteq> RAMFS_ROOT" if "c \<in> set (rn_children z)" for c
      using child_node [OF t z0(1), of c] that kids(1) by fastforce
    show "\<exists>w. relabel n s ptr q N c = Some w \<and> rn_parent w = Some k" if "c \<in> set (rn_children z)" for c
      using child_node [OF t z0(1), of c] that kids(1) same [OF that] by fastforce
    show "inj_on (\<lambda>c. rn_name (the (relabel n s ptr q N c))) (set (rn_children z))"
      using ok same kids by (simp add: node_ok_def inj_on_def)
  qed
qed

lemma delete_tree:
  assumes t: "tree_but {n} N" and n: "N n = Some x" "n \<noteq> RAMFS_ROOT" "rn_children x = []"
  shows "tree_ok (N(n := None))"
proof (rule tree_butI)
  show "(N(n := None)) RAMFS_ROOT \<noteq> None" using t n(2) by (simp add: tree_but_def)
next
  fix k z assume z: "(N(n := None)) k = Some z"
  then have k: "N k = Some z" "k \<noteq> n" by (auto split: if_splits)
  note ok = tree_butD [OF t k(1)]
  show "node_ok {} (N(n := None)) k z"
  proof (rule node_okI)
    show "record_ok k z" using node_record [OF ok] .
    show "\<exists>r w. rn_parent z = Some r \<and> (N(n := None)) r = Some w \<and> rn_is_dir w \<and> k \<in> set (rn_children w)"
      if k0: "k \<noteq> RAMFS_ROOT"
    proof -
      obtain r w where r: "rn_parent z = Some r" "N r = Some w" "rn_is_dir w" "k \<in> set (rn_children w)"
        using parent_node [OF t k(1) k0] k(2) by auto
      then have "r \<noteq> n" using n by auto
      then show ?thesis using r by auto
    qed
    show "c \<notin> {} \<and> c \<noteq> RAMFS_ROOT" if "c \<in> set (rn_children z)" for c
      using child_node [OF t k(1) that] by auto
    show "\<exists>w. (N(n := None)) c = Some w \<and> rn_parent w = Some k" if "c \<in> set (rn_children z)" for c
      using child_node [OF t k(1) that] by auto
    show "inj_on (\<lambda>c. rn_name (the ((N(n := None)) c))) (set (rn_children z))"
      using ok by (auto simp: node_ok_def inj_on_def)
  qed
qed

lemma create_tree:
  assumes t: "tree_ok N" and n: "N n = None" "n \<noteq> RAMFS_ROOT"
    and x: "rn_name_ptr x \<noteq> None" "name_ok (rn_name x)" "rn_children x = []" "rn_data x = None"
      "rn_size x = 0" "rn_capacity x = 0"
  shows "tree_but {n} (N(n \<mapsto> x))"
proof (rule tree_butI)
  show "(N(n \<mapsto> x)) RAMFS_ROOT \<noteq> None" using t n(2) by (simp add: tree_but_def)
next
  fix k z assume z: "(N(n \<mapsto> x)) k = Some z"
  show "node_ok {n} (N(n \<mapsto> x)) k z"
  proof (cases "k = n")
    case True
    then have "z = x" using z by simp
    then show ?thesis using True x n(2) by (intro node_okI) (auto simp: record_ok_def)
  next
    case False
    then have k: "N k = Some z" using z by simp
    note ok = tree_butD [OF t k]
    have kids: "c \<noteq> n" if "c \<in> set (rn_children z)" for c
      using child_node [OF t k that] n(1) by auto
    show ?thesis
    proof (rule node_okI)
      show "record_ok k z" using node_record [OF ok] .
      show "\<exists>r w. rn_parent z = Some r \<and> (N(n \<mapsto> x)) r = Some w \<and> rn_is_dir w \<and> k \<in> set (rn_children w)"
        if "k \<noteq> RAMFS_ROOT"
        using parent_node [OF t k that] n(1) by (auto simp: fun_upd_apply)
      show "c \<notin> {n} \<and> c \<noteq> RAMFS_ROOT" if "c \<in> set (rn_children z)" for c
        using child_node [OF t k that] kids that by auto
      show "\<exists>w. (N(n \<mapsto> x)) c = Some w \<and> rn_parent w = Some k" if "c \<in> set (rn_children z)" for c
        using child_node [OF t k that] kids that by auto
      show "inj_on (\<lambda>c. rn_name (the ((N(n \<mapsto> x)) c))) (set (rn_children z))"
        using ok kids by (simp add: node_ok_def inj_on_def)
    qed
  qed
qed

lemma attach_tree:
  assumes t: "tree_but {n} N" and n: "N n = Some x" "n \<noteq> RAMFS_ROOT" "rn_parent x = Some q"
    and q: "N q = Some y" "rn_is_dir y" and new: "entries N y (rn_name x) = None"
  shows "tree_ok (attach q n N)"
proof (rule tree_butI)
  show "attach q n N RAMFS_ROOT \<noteq> None" using t by (simp add: attach_def tree_but_def)
next
  fix k z assume z: "attach q n N k = Some z"
  then obtain z0 where z0: "N k = Some z0"
    "z = z0\<lparr>rn_children := if k = q then n # rn_children z0 else rn_children z0\<rparr>"
    using q by (auto simp: attach_def split: if_splits)
  note ok = tree_butD [OF t z0(1)]
  have away: "n \<notin> set (rn_children z0)" using ok by (auto simp: node_ok_def)
  have names: "rn_name (the (attach q n N c)) = rn_name (the (N c))" for c using q by (simp add: attach_def)
  have fresh: "rn_name (the (N c)) \<noteq> rn_name x" if "c \<in> set (rn_children y)" for c
    using new that by (simp add: entries_None)
  show "node_ok {} (attach q n N) k z"
  proof (rule node_okI)
    show "record_ok k z" using node_record [OF ok] z0 q away by (auto simp: record_ok_def)
    show "\<exists>r w. rn_parent z = Some r \<and> attach q n N r = Some w \<and> rn_is_dir w \<and> k \<in> set (rn_children w)"
      if k: "k \<noteq> RAMFS_ROOT"
    proof (cases "k = n")
      case True
      then show ?thesis using z0 n q by (auto simp: attach_def)
    next
      case False
      then show ?thesis using parent_node [OF t z0(1) k] z0(2) q by (auto simp: attach_def)
    qed
    fix c assume c: "c \<in> set (rn_children z)"
    then have c': "c \<in> set (rn_children z0) \<or> (k = q \<and> c = n)" using z0(2) by (auto split: if_splits)
    show "c \<notin> {} \<and> c \<noteq> RAMFS_ROOT" using child_node [OF t z0(1), of c] c' n(2) by auto
    show "\<exists>w. attach q n N c = Some w \<and> rn_parent w = Some k"
      using child_node [OF t z0(1), of c] c' q n by (auto simp: attach_def)
  next
    have "inj_on (\<lambda>c. rn_name (the (N c))) (set (rn_children z0))" using ok by (simp add: node_ok_def)
    moreover have "rn_name x \<notin> (\<lambda>c. rn_name (the (N c))) ` set (rn_children z0)" if "k = q"
      using fresh that z0(1) q(1) by (metis (no_types, lifting) imageE option.inject)
    ultimately show "inj_on (\<lambda>c. rn_name (the (attach q n N c))) (set (rn_children z))"
      unfolding names using z0 n(1) by auto
  qed
qed

lemma refit_tree:
  assumes t: "tree_but D N" and n: "N n = Some x"
    and y: "rn_name y = rn_name x" "rn_name_ptr y = rn_name_ptr x" "rn_is_dir y = rn_is_dir x"
      "rn_parent y = rn_parent x" "rn_children y = rn_children x"
      "rn_is_dir x \<Longrightarrow> rn_data y = None" "rn_size y = rn_capacity y" "rn_data y = None \<longleftrightarrow> rn_capacity y = 0"
  shows "tree_but D (N(n \<mapsto> y))"
proof (rule tree_butI)
  show "(N(n \<mapsto> y)) RAMFS_ROOT \<noteq> None" using t by (simp add: tree_but_def)
next
  fix k z assume z: "(N(n \<mapsto> y)) k = Some z"
  obtain z0 where z0: "N k = Some z0" using z n by (auto split: if_splits)
  note ok = tree_butD [OF t z0]
  have same: "rn_parent z = rn_parent z0" "rn_children z = rn_children z0"
    using z z0 n y by (auto split: if_splits)
  have names: "rn_name (the ((N(n \<mapsto> y)) c)) = rn_name (the (N c))" for c using n y by simp
  show "node_ok D (N(n \<mapsto> y)) k z"
  proof (rule node_okI)
    show "record_ok k z" using node_record [OF ok] z z0 n y by (auto simp: record_ok_def split: if_splits)
    show "\<exists>r w. rn_parent z = Some r \<and> (N(n \<mapsto> y)) r = Some w \<and> rn_is_dir w \<and> k \<in> set (rn_children w)"
      if k: "k \<noteq> RAMFS_ROOT" "k \<notin> D"
    proof -
      obtain r w where r: "rn_parent z0 = Some r" "N r = Some w" "rn_is_dir w" "k \<in> set (rn_children w)"
        using parent_node [OF t z0 k] by blast
      then show ?thesis using same(1) n y by (cases "r = n") simp_all
    qed
    fix c assume c: "c \<in> set (rn_children z)"
    obtain w where w: "N c = Some w" "rn_parent w = Some k" "c \<notin> D" "c \<noteq> RAMFS_ROOT"
      using child_node [OF t z0, of c] c same by auto
    then show "c \<notin> D \<and> c \<noteq> RAMFS_ROOT" by blast
    show "\<exists>w. (N(n \<mapsto> y)) c = Some w \<and> rn_parent w = Some k" using w n y by (cases "c = n") auto
  next
    show "inj_on (\<lambda>c. rn_name (the ((N(n \<mapsto> y)) c))) (set (rn_children z))"
      unfolding names same(2) using ok by (simp add: node_ok_def)
  qed
qed

section \<open>What the steps do to the view and the owners\<close>

lemma entries_cong:
  "(\<And>c. c \<in> set (rn_children x) \<Longrightarrow> rn_name (the (N' c)) = rn_name (the (N c))) \<Longrightarrow> rn_children x' = rn_children x
   \<Longrightarrow> entries N' x' = entries N x"
  by (simp add: entries_def cong: map_cong)

abbreviation inode_of :: "(nat \<rightharpoonup> ramfs_node) \<Rightarrow> memory \<Rightarrow> ramfs_node \<Rightarrow> inode" where
  "inode_of N mem x \<equiv> if rn_is_dir x then Dir (entries N x) else File (content mem x)"

lemma view_upd:
  assumes "\<And>n x. (N(k := v)) n = Some x \<Longrightarrow> entries (N(k := v)) x = entries N x"
  shows "view (N(k := v)) mem = (view N mem)(k := map_option (inode_of N mem) v)"
proof
  fix n
  show "view (N(k := v)) mem n = ((view N mem)(k := map_option (inode_of N mem) v)) n"
    using assms [of n] by (cases "(N(k := v)) n") (auto simp: view_def split: if_splits)
qed

lemma view_upd_same_name:
  assumes "N k = Some x" "rn_name z = rn_name x"
  shows "view (N(k \<mapsto> z)) mem = (view N mem)(k \<mapsto> inode_of N mem z)"
proof -
  have "view (N(k \<mapsto> z)) mem = (view N mem)(k := map_option (inode_of N mem) (Some z))"
    by (rule view_upd, rule entries_cong) (use assms in \<open>auto simp: fun_upd_apply\<close>)
  then show ?thesis by simp
qed

lemma view_upd_detached:
  assumes t: "tree_but {k} N" and v: "\<And>z. v = Some z \<Longrightarrow> k \<notin> set (rn_children z)"
  shows "view (N(k := v)) mem = (view N mem)(k := map_option (inode_of N mem) v)"
proof (rule view_upd)
  fix n x assume "(N(k := v)) n = Some x"
  then have "k \<notin> set (rn_children x)"
    using v child_node [OF t, of n x k] by (auto split: if_splits)
  then show "entries (N(k := v)) x = entries N x" by (intro entries_cong) auto
qed

lemma view_detach:
  assumes t: "tree_ok N" and n: "N n = Some x" "rn_parent x = Some p" and y: "N p = Some y" "n \<in> set (rn_children y)"
  shows "view (detach p n N) mem = (view N mem)(p \<mapsto> Dir ((entries N y)(rn_name x := None)))"
proof -
  note ok = tree_butD [OF t y(1)]
  have dir: "rn_is_dir y" using child_node [OF t y] by auto
  have names: "rn_name (the (detach p n N c)) = rn_name (the (N c))" for c using y by (simp add: detach_def)
  have d: "distinct (rn_children y)" using node_record [OF ok] by (simp add: record_ok_def)
  have inj: "inj_on (\<lambda>c. rn_name (the (N c))) (set (rn_children y))" using ok by (simp add: node_ok_def)
  have "entries N (y\<lparr>rn_children := remove1 n (rn_children y)\<rparr>) s = ((entries N y)(rn_name x := None)) s" for s
  proof (cases "s = rn_name x")
    case True
    have "rn_name (the (N c)) \<noteq> s" if "c \<in> set (remove1 n (rn_children y))" for c
      using inj_onD [OF inj, of c n] that d n(1) y(2) True by auto
    then show ?thesis using True by (simp add: entries_None)
  next
    case False
    have "entries N (y\<lparr>rn_children := remove1 n (rn_children y)\<rparr>) s = Some c \<longleftrightarrow> entries N y s = Some c" for c
    proof -
      have "distinct (map (\<lambda>c. rn_name (the (N c))) (remove1 n (rn_children y)))"
        using d inj by (auto simp: distinct_map intro: inj_on_subset)
      then have "distinct (map fst (map (\<lambda>c. (rn_name (the (N c)), c)) (remove1 n (rn_children y))))"
        by (simp add: comp_def)
      then show ?thesis
        using entries_Some [OF ok, of s c] d False n(1) by (auto simp: entries_def map_of_eq_Some_iff)
    qed
    then show ?thesis using False by (metis fun_upd_other not_None_eq)
  qed
  then have "entries N (y\<lparr>rn_children := remove1 n (rn_children y)\<rparr>) = (entries N y)(rn_name x := None)" ..
  then show ?thesis using view_upd_same_name [where N = N, OF y(1), of "y\<lparr>rn_children := remove1 n (rn_children y)\<rparr>"] y(1) dir
    by (simp add: detach_def)
qed

lemma view_attach:
  assumes n: "N n = Some x" and y: "N q = Some y" "rn_is_dir y"
  shows "view (attach q n N) mem = (view N mem)(q \<mapsto> Dir ((entries N y)(rn_name x \<mapsto> n)))"
proof -
  have "entries N (y\<lparr>rn_children := n # rn_children y\<rparr>) = (entries N y)(rn_name x \<mapsto> n)"
    using n by (simp add: entries_def)
  then show ?thesis using view_upd_same_name [where N = N, OF y(1), of "y\<lparr>rn_children := n # rn_children y\<rparr>"] y
    by (simp add: attach_def)
qed

lemma view_relabel:
  assumes t: "tree_but {n} N" and n: "N n = Some x"
  shows "view (relabel n s ptr q N) mem = view N mem"
proof -
  let ?z = "x\<lparr>rn_name := s, rn_name_ptr := Some ptr, rn_parent := Some q\<rparr>"
  have "n \<notin> set (rn_children ?z)" using child_node [OF t n, of n] by auto
  then have "view (N(n \<mapsto> ?z)) mem = (view N mem)(n \<mapsto> inode_of N mem ?z)"
    using view_upd_detached [OF t, of "Some ?z" mem] by simp
  also have "inode_of N mem ?z = inode_of N mem x" by (auto simp: entries_def content_def split: option.splits)
  also have "(view N mem)(n \<mapsto> inode_of N mem x) = view N mem" using n by (auto simp: view_def)
  finally show ?thesis unfolding relabel_def n option.sel .
qed

lemma view_delete: "tree_but {n} N \<Longrightarrow> view (N(n := None)) mem = (view N mem)(n := None)"
  using view_upd_detached [of n N None mem] by simp

lemma view_create:
  assumes t: "tree_ok N" and n: "N n = None" and x: "rn_children x = []" "rn_data x = None"
  shows "view (N(n \<mapsto> x)) mem = (view N mem)(n \<mapsto> (if rn_is_dir x then Dir Map.empty else File []))"
proof -
  have "view (N(n \<mapsto> x)) mem = (view N mem)(n := map_option (inode_of N mem) (Some x))"
  proof (rule view_upd)
    fix k z assume k: "(N(n \<mapsto> x)) k = Some z"
    have "n \<notin> set (rn_children z)"
      using child_node [OF t, of k z n] k n x(1) by (auto split: if_splits)
    then show "entries (N(n \<mapsto> x)) z = entries N z" by (intro entries_cong) auto
  qed
  then show ?thesis using x by (auto simp: entries_def content_def)
qed

lemma owned_upd:
  "owned (N(n := v)) = (owned N)(Own_node n := owned (N(n := v)) (Own_node n),
     Own_name n := owned (N(n := v)) (Own_name n), Own_data n := owned (N(n := v)) (Own_data n))"
proof
  fix x
  show "owned (N(n := v)) x = ((owned N)(Own_node n := owned (N(n := v)) (Own_node n),
     Own_name n := owned (N(n := v)) (Own_name n), Own_data n := owned (N(n := v)) (Own_data n))) x"
    by (cases x) auto
qed

lemma owned_same:
  assumes "N n = Some x" "rn_name z = rn_name x" "rn_name_ptr z = rn_name_ptr x" "rn_data z = rn_data x"
    "rn_capacity z = rn_capacity x"
  shows "owned (N(n \<mapsto> z)) = owned N"
proof
  fix x show "owned (N(n \<mapsto> z)) x = owned N x" using assms by (cases x) auto
qed

lemma owned_links:
  assumes "N q \<noteq> None"
  shows "owned (detach q n N) = owned N" and "owned (attach q n N) = owned N"
  using assms by (auto simp: detach_def attach_def intro!: owned_same)

lemma nodes_of_kind_upd:
  "nodes_of_kind d (N(k := v)) =
     (if (\<exists>z. v = Some z \<and> rn_is_dir z = d) then insert k (nodes_of_kind d N) else nodes_of_kind d N - {k})"
  by (auto simp: nodes_of_kind_def)

lemma nodes_of_kind_mem: "k \<in> nodes_of_kind d N \<longleftrightarrow> (\<exists>x. N k = Some x \<and> rn_is_dir x = d)"
  by (auto simp: nodes_of_kind_def)

lemma finite_nodes_of_kind: "finite (dom N) \<Longrightarrow> finite (nodes_of_kind d N)"
  by (simp add: nodes_of_kind_def)

lemma count_same:
  assumes "count_ok N f d" "N k = Some x" "rn_is_dir z = rn_is_dir x"
  shows "count_ok (N(k \<mapsto> z)) f d"
proof -
  have "nodes_of_kind b (N(k \<mapsto> z)) = nodes_of_kind b N" for b
    using assms(2,3) nodes_of_kind_mem [of k b N] by (auto simp: nodes_of_kind_upd)
  then show ?thesis using assms(1) by (simp add: count_ok_def)
qed

lemma count_add:
  assumes "count_ok N f d" "N k = None"
  shows "count_ok (N(k \<mapsto> z)) (if rn_is_dir z then f else f + 1) (if rn_is_dir z then d + 1 else d)"
proof -
  have "k \<notin> nodes_of_kind b N" for b using assms(2) by (simp add: nodes_of_kind_mem)
  then show ?thesis using assms(1) finite_nodes_of_kind [of N] by (simp add: count_ok_def nodes_of_kind_upd)
qed

lemma count_del:
  assumes "count_ok N f d" "N k = Some x"
  shows "count_ok (N(k := None)) (if rn_is_dir x then f else f - 1) (if rn_is_dir x then d - 1 else d)"
    and "0 < f + d"
proof -
  have k: "k \<in> nodes_of_kind b N \<longleftrightarrow> rn_is_dir x = b" for b using assms(2) by (simp add: nodes_of_kind_mem)
  then show "count_ok (N(k := None)) (if rn_is_dir x then f else f - 1) (if rn_is_dir x then d - 1 else d)"
    using assms(1) finite_nodes_of_kind [of N] by (simp add: count_ok_def nodes_of_kind_upd card_Diff_singleton_if)
  have "0 < card (nodes_of_kind (rn_is_dir x) N)"
    using k finite_nodes_of_kind [of N] assms(1) by (auto simp: card_gt_0_iff count_ok_def)
  then show "0 < f + d" using assms(1) by (cases "rn_is_dir x") (simp_all add: count_ok_def)
qed

lemma view_Some:
  "view N mem n = Some (Dir es) \<longleftrightarrow> (\<exists>x. N n = Some x \<and> rn_is_dir x \<and> es = entries N x)"
  "view N mem n = Some (File c) \<longleftrightarrow> (\<exists>x. N n = Some x \<and> \<not> rn_is_dir x \<and> c = content mem x)"
  "view N mem n = None \<longleftrightarrow> N n = None"
  by (auto simp: view_def)

end
