(* ===== verification/RamOperations.thy ===== *)
theory RamOperations
  imports RamInvariant
begin

text \<open>
  What the VFS callbacks of the RAM file system do to the table of inodes, and that they keep the invariant
  of the mount.
\<close>

section \<open>Creating a node\<close>

lemma ramfs_okI:
  assumes "arena_ok (owned (rm_nodes m)) m" "tree_ok (rm_nodes m)"
    "count_ok (rm_nodes m) (rm_file_count m) (rm_dir_count m)" "length (rm_files m) = RAMFS_MAX_OPEN_FILES"
    "\<And>f n. f \<in> set (rm_files m) \<Longrightarrow> rf_active f \<Longrightarrow>
       \<exists>n x. rf_node f = Some n \<and> rm_nodes m n = Some x \<and> \<not> rn_is_dir x"
  shows "ramfs_ok m"
  using assms by (auto simp: ramfs_ok_def list_all_iff file_ok_def)

lemma open_file:
  assumes "ramfs_ok m" "f \<in> set (rm_files m)" "rf_active f"
  shows "\<exists>n x. rf_node f = Some n \<and> rm_nodes m n = Some x \<and> \<not> rn_is_dir x"
  using ramfs_okD(5) [OF assms(1)] assms(2,3) by (auto simp: list_all_iff file_ok_def)

text \<open>Where only the blocks differ, the arena decides.\<close>

lemma ramfs_ok_blocks:
  assumes "ramfs_ok m" "arena_ok (owned (rm_nodes m)) (m\<lparr>rm_blocks := bs\<rparr>)"
  shows "ramfs_ok (m\<lparr>rm_blocks := bs\<rparr>)"
  using assms by (simp add: ramfs_ok_def)

lemma fresh_node:
  assumes "\<And>x k. owned N x \<noteq> Some (p, k)" "0 < p"
  shows "N p = None"
  using assms(1) [of "Own_node p" NODE_SIZE] assms(2) by (simp split: if_splits)

lemma alloc_node_ok:
  assumes ok: "ramfs_ok m" and q: "inodes m q = Some (Dir es)" and s: "name_ok s" "es s = None"
    and al: "ramfs_alloc_node m q s d now = (res, m')"
  obtains (fail) err bs where "res = Inl err" "m' = m\<lparr>rm_blocks := bs\<rparr>" "ramfs_ok m'"
  | (created) n where "res = Inr n" "ramfs_ok m'" "inodes m n = None" "n \<noteq> RAMFS_ROOT" "rm_files m' = rm_files m"
      "inodes m' = (inodes m)(n \<mapsto> if d then Dir Map.empty else File [], q \<mapsto> Dir (es(s \<mapsto> n)))"
proof -
  define N where "N = rm_nodes m"
  obtain y where y: "N q = Some y" "rn_is_dir y" "es = entries N y" using q by (auto simp: view_Some N_def)
  note ar = ramfs_okD(1) [OF ok, folded N_def] and tree = ramfs_okD(2) [OF ok, folded N_def]
  obtain r1 m1 where a1: "mount_alloc m NODE_SIZE = (r1, m1)" by (cases "mount_alloc m NODE_SIZE")
  show ?thesis
  proof (rule mount_alloc_ok [OF ar a1])
    fix err assume "r1 = Inl err" "m1 = m"
    then show ?thesis using al a1 ok by (intro fail [of err "rm_blocks m"]) (auto simp: ramfs_alloc_node_def)
  next
    fix n bs1 assume n: "r1 = Inr n" "m1 = m\<lparr>rm_blocks := bs1\<rparr>" "0 < n" "\<And>x k. owned N x \<noteq> Some (n, k)"
      and ar1: "\<And>x. owned N x = None \<Longrightarrow> 0 < NODE_SIZE \<Longrightarrow> arena_ok ((owned N)(x \<mapsto> (n, NODE_SIZE))) m1"
    have Nn: "N n = None" using fresh_node [OF n(4,3)] .
    define ow1 where "ow1 = (owned N)(Own_node n \<mapsto> (n, NODE_SIZE))"
    have ar1': "arena_ok ow1 m1" unfolding ow1_def using ar1 [of "Own_node n"] Nn by (simp add: NODE_SIZE_def)
    obtain r2 m2 where a2: "mount_alloc m1 (length s + 1) = (r2, m2)" by (cases "mount_alloc m1 (length s + 1)")
    show ?thesis
    proof (rule mount_alloc_ok [OF ar1' a2])
      fix err assume f: "r2 = Inl err" "m2 = m1"
      obtain bs where bs: "mount_free m1 (Some n) = m1\<lparr>rm_blocks := bs\<rparr>"
        "arena_ok (ow1(Own_node n := None)) (m1\<lparr>rm_blocks := bs\<rparr>)"
        using mount_free_ok [OF ar1', of "Own_node n" n NODE_SIZE] by (auto simp: ow1_def)
      have "ow1(Own_node n := None) = owned N" using Nn by (auto simp: ow1_def)
      then have "arena_ok (owned (rm_nodes m)) (m\<lparr>rm_blocks := bs\<rparr>)" using bs(2) n(2) by (simp add: N_def)
      then have "ramfs_ok (m\<lparr>rm_blocks := bs\<rparr>)" by (rule ramfs_ok_blocks [OF ok])
      moreover have "res = Inl err" "m' = m\<lparr>rm_blocks := bs\<rparr>"
        using al a1 a2 f n(1,2) bs(1) by (simp_all add: ramfs_alloc_node_def)
      ultimately show ?thesis using fail by blast
    next
      fix c bs2 assume c: "r2 = Inr c" "m2 = m1\<lparr>rm_blocks := bs2\<rparr>"
        and ar2: "\<And>x. ow1 x = None \<Longrightarrow> 0 < length s + 1 \<Longrightarrow> arena_ok (ow1(x \<mapsto> (c, length s + 1))) m2"
      define x where "x = \<lparr>rn_name = s, rn_name_ptr = Some c, rn_is_dir = d, rn_parent = Some q, rn_children = [],
         rn_data = None, rn_size = 0, rn_capacity = 0, rn_mtime = now\<rparr>"
      define N1 where "N1 = N(n \<mapsto> x)"
      have res: "res = Inr n" and m': "m' = m2\<lparr>rm_nodes := attach q n N1,
          rm_dir_count := (if d then rm_dir_count m + 1 else rm_dir_count m),
          rm_file_count := (if d then rm_file_count m else rm_file_count m + 1)\<rparr>"
        using al a1 a2 c n(1,2) y(1) by (auto simp: ramfs_alloc_node_def attach_def upd_node_def Let_def N1_def N_def x_def)
      have N1: "N1 n = Some x" "N1 q = Some y" "entries N1 y = es"
      proof -
        show "N1 n = Some x" "N1 q = Some y" using y Nn by (auto simp: N1_def)
        have "n \<notin> set (rn_children y)" using child_node [OF tree y(1), of n] Nn by auto
        then show "entries N1 y = es" unfolding y(3) N1_def by (intro entries_cong) auto
      qed
      have t1: "tree_but {n} N1"
        unfolding N1_def by (rule create_tree [OF tree Nn]) (use n(3) s in \<open>simp_all add: x_def\<close>)
      have t2: "tree_ok (attach q n N1)"
        by (rule attach_tree [OF t1 N1(1) _ _ N1(2) y(2)]) (use n(3) N1(3) s in \<open>simp_all add: x_def\<close>)
      have "owned N1 = ow1(Own_name n \<mapsto> (c, length s + 1))"
        unfolding N1_def ow1_def by (subst owned_upd) (use Nn n(3) in \<open>auto simp: x_def fun_eq_iff\<close>)
      then have ar3: "arena_ok (owned (attach q n N1)) m2"
        using ar2 [of "Own_name n"] Nn N1(2) by (simp add: owned_links ow1_def)
      have cnt: "count_ok (attach q n N1) (rm_file_count m') (rm_dir_count m')"
        unfolding attach_def
        using count_same [where N = N1, OF _ N1(2)] count_add [OF ramfs_okD(3) [OF ok, folded N_def] Nn, of x, folded N1_def]
          c(2) n(2) N1(2) by (simp add: m' x_def)
      have nodes: "rm_nodes m' = attach q n N1" "rm_files m' = rm_files m" "rm_mem m' = rm_mem m"
        using m' c n(2) by simp_all
      have "ramfs_ok m'"
      proof (rule ramfs_okI)
        show "arena_ok (owned (rm_nodes m')) m'" unfolding nodes(1)
          using ar3 by (subst arena_ok_cong [of _ m2]) (simp_all add: m')
        show "tree_ok (rm_nodes m')" "count_ok (rm_nodes m') (rm_file_count m') (rm_dir_count m')"
          unfolding nodes(1) using t2 cnt .
        show "length (rm_files m') = RAMFS_MAX_OPEN_FILES" using ramfs_okD(4) [OF ok] nodes(2) by simp
        fix f assume f: "f \<in> set (rm_files m')" "rf_active f"
        then obtain k z where "rf_node f = Some k" "N k = Some z" "\<not> rn_is_dir z"
          using open_file [OF ok, of f] nodes(2) by (auto simp: N_def)
        then show "\<exists>n x. rf_node f = Some n \<and> rm_nodes m' n = Some x \<and> \<not> rn_is_dir x"
          using Nn y N1(2) by (auto simp: nodes(1) attach_def N1_def)
      qed
      moreover have "inodes m' = (inodes m)(n \<mapsto> if d then Dir Map.empty else File [], q \<mapsto> Dir (es(s \<mapsto> n)))"
        unfolding nodes view_attach [where N = N1, OF N1(1,2) y(2)] N1(3)
        using view_create [OF tree Nn, of x] by (simp add: N1_def x_def N_def)
      ultimately show ?thesis
        using created [OF res] nodes(2) n(3) Nn by (simp add: view_Some N_def)
    qed
  qed
qed

section \<open>Resizing a file\<close>

text \<open>The content of a file of a new length: cut off, or filled up with zeros.\<close>

definition resized :: "nat \<Rightarrow> u8 list \<Rightarrow> u8 list" where
  "resized n c = take n c @ replicate (n - length c) 0"

lemma mem_read_append: "mem_read mem p (a + b) = mem_read mem p a @ mem_read mem (p + a) b"
proof -
  have "[p..<p + (a + b)] = [p..<p + a] @ [p + a..<p + a + b]" using upt_add_eq_append [of p "p + a" b] by (simp add: add.assoc)
  then show ?thesis by (simp add: mem_read_def)
qed

lemma mem_read_take: "k \<le> n \<Longrightarrow> mem_read mem p k = take k (mem_read mem p n)"
  by (simp add: mem_read_def take_map take_upt)

lemma data_node:
  assumes "node_ok D N n x"
  shows "length (content mem x) = rn_size x" and "rn_size x = rn_capacity x"
    and "rn_data x = None \<longleftrightarrow> rn_size x = 0"
  using assms by (auto simp: node_ok_def record_ok_def content_def split: option.splits)

lemma view_data:
  assumes t: "tree_ok N" and n: "N n = Some x" "\<not> rn_is_dir x" "rn_name z = rn_name x" "\<not> rn_is_dir z"
    and same: "\<And>k p l. k \<noteq> n \<Longrightarrow> owned N (Own_data k) = Some (p, l) \<Longrightarrow> mem_read mem' p l = mem_read mem p l"
  shows "view (N(n \<mapsto> z)) mem' = (view N mem)(n \<mapsto> File (content mem' z))"
proof -
  have "view N mem' k = view N mem k" if "k \<noteq> n" for k
  proof (cases "N k")
    case (Some y)
    have "content mem' y = content mem y"
      using same [OF that] Some data_node(2) [OF tree_butD [OF t Some]]
      by (auto simp: content_def split: option.splits)
    then show ?thesis using Some by (simp add: view_def)
  qed (simp add: view_def)
  then show ?thesis
    unfolding view_upd_same_name [where N = N, OF n(1,3)] using n(4) by (auto simp: fun_eq_iff)
qed

lemma realloc_content:
  assumes "mem_read mem q (min old new) = (case ptr of None \<Rightarrow> [] | Some p \<Rightarrow> mem_read mem0 p (min old new))"
    and "c = (case ptr of None \<Rightarrow> [] | Some p \<Rightarrow> mem_read mem0 p old)" "ptr = None \<longleftrightarrow> old = 0"
  shows "mem_read (if old < new then mem_write mem (q + old) (replicate (new - old) 0) else mem) q new = resized new c"
proof (cases "old < new")
  case True
  let ?mem = "mem_write mem (q + old) (replicate (new - old) 0)"
  have "mem_read ?mem q new = mem_read ?mem q old @ mem_read ?mem (q + old) (new - old)"
    using mem_read_append [of ?mem q old "new - old"] True by simp
  also have "mem_read ?mem q old = mem_read mem q old" by (rule mem_read_cong) (simp add: mem_write_outside)
  also have "mem_read mem q old = c" using assms True by (auto simp: min_def mem_read_def split: option.splits)
  also have "mem_read ?mem (q + old) (new - old) = replicate (new - old) 0" by (simp add: mem_read_write)
  finally show ?thesis using True assms(2,3) by (auto simp: resized_def split: option.splits)
next
  case False
  then have "min old new = new" "mem_read mem0 p new = take new (mem_read mem0 p old)" for p
    by (simp_all add: mem_read_take [of new old])
  then show ?thesis using assms False by (auto simp: resized_def mem_read_def split: option.splits)
qed

lemma resize_node_ok:
  assumes ok: "ramfs_ok m" and n: "inodes m n = Some (File c)" and re: "ramfs_resize_node m n sz now = (res, m')"
  obtains (fail) err where "res = Some err" "m' = m"
  | (resized) "res = None" "ramfs_ok m'" "inodes m' = (inodes m)(n \<mapsto> File (resized sz c))"
      "rm_files m' = rm_files m"
proof -
  define N where "N = rm_nodes m"
  obtain x where x: "N n = Some x" "\<not> rn_is_dir x" "c = content (rm_mem m) x" using n by (auto simp: view_Some N_def)
  note ar = ramfs_okD(1) [OF ok, folded N_def] and tree = ramfs_okD(2) [OF ok, folded N_def]
  note d = data_node [OF tree_butD [OF tree x(1)]]
  have nz: "n \<noteq> RAMFS_ROOT" using root_node [OF tree] x by (intro notI) auto
  text \<open>The mount with other data for \<open>n\<close>.\<close>
  have put: "ramfs_ok m2 \<and> inodes m2 = (inodes m)(n \<mapsto> File (content mem z)) \<and> rm_files m2 = rm_files m"
    if m2: "m2 = m\<lparr>rm_blocks := bs, rm_mem := mem, rm_nodes := N(n \<mapsto> z)\<rparr>"
      and z: "z = x\<lparr>rn_data := ptr, rn_size := k, rn_capacity := k, rn_mtime := now\<rparr>" "ptr = None \<longleftrightarrow> k = 0"
      and a: "arena_ok ((owned N)(Own_data n := map_option (\<lambda>p. (p, k)) ptr)) (m\<lparr>rm_blocks := bs\<rparr>)"
      and same: "\<And>j p l. j \<noteq> n \<Longrightarrow> owned N (Own_data j) = Some (p, l) \<Longrightarrow> mem_read mem p l = mem_read (rm_mem m) p l"
    for m2 bs mem z ptr k
  proof (intro conjI)
    have own: "owned (N(n \<mapsto> z)) = (owned N)(Own_data n := map_option (\<lambda>p. (p, k)) ptr)"
    proof
      fix w show "owned (N(n \<mapsto> z)) w = ((owned N)(Own_data n := map_option (\<lambda>p. (p, k)) ptr)) w"
        using x(1) z by (cases w) auto
    qed
    show "ramfs_ok m2"
    proof (rule ramfs_okI)
      have nodes: "rm_nodes m2 = N(n \<mapsto> z)" using m2 by simp
      show "arena_ok (owned (rm_nodes m2)) m2" unfolding nodes own
        using a by (subst arena_ok_cong [of _ "m\<lparr>rm_blocks := bs\<rparr>"]) (simp_all add: m2)
      show "tree_ok (rm_nodes m2)" unfolding nodes by (rule refit_tree [OF tree x(1)]) (use z x(2) in simp_all)
      show "count_ok (rm_nodes m2) (rm_file_count m2) (rm_dir_count m2)"
        unfolding nodes using count_same [OF ramfs_okD(3) [OF ok, folded N_def] x(1), of z] z m2 by simp
      show "length (rm_files m2) = RAMFS_MAX_OPEN_FILES" using ramfs_okD(4) [OF ok] m2 by simp
      fix f assume f: "f \<in> set (rm_files m2)" "rf_active f"
      then obtain j y where j: "rf_node f = Some j" "N j = Some y" "\<not> rn_is_dir y"
        using open_file [OF ok, of f] m2 by (auto simp: N_def)
      then have "\<exists>w. (N(n \<mapsto> z)) j = Some w \<and> \<not> rn_is_dir w"
        using x(2) z(1) by (cases "j = n") simp_all
      then show "\<exists>n x. rf_node f = Some n \<and> rm_nodes m2 n = Some x \<and> \<not> rn_is_dir x"
        unfolding nodes using j(1) by blast
    qed
    show "inodes m2 = (inodes m)(n \<mapsto> File (content mem z))"
      using view_data [where z = z and mem' = mem, OF tree x(1,2) _ _ same] x(2) z by (simp add: m2 N_def)
    show "rm_files m2 = rm_files m" using m2 by simp
  qed
  show ?thesis
  proof (cases "sz = 0")
    case True
    have "map_option fst (owned N (Own_data n)) = rn_data x" using x(1) by (cases "rn_data x") simp_all
    then obtain bs where bs: "mount_free m (rn_data x) = m\<lparr>rm_blocks := bs\<rparr>"
      "arena_ok ((owned N)(Own_data n := None)) (m\<lparr>rm_blocks := bs\<rparr>)"
      using free_option_ok [OF ar] by blast
    define z where "z = x\<lparr>rn_data := None, rn_size := 0, rn_capacity := 0, rn_mtime := now\<rparr>"
    have m': "res = None" "m' = m\<lparr>rm_blocks := bs, rm_mem := rm_mem m, rm_nodes := N(n \<mapsto> z)\<rparr>"
      using re True x bs(1) by (auto simp: ramfs_resize_node_def upd_node_def N_def z_def)
    have "ramfs_ok m' \<and> inodes m' = (inodes m)(n \<mapsto> File (content (rm_mem m) z)) \<and> rm_files m' = rm_files m"
      by (rule put [OF m'(2) z_def]) (use bs(2) in simp_all)
    moreover have "content (rm_mem m) z = resized sz c" using True by (simp add: z_def content_def resized_def)
    ultimately show ?thesis using resized [OF m'(1)] by simp
  next
    case False
    obtain r m1 where re1: "mount_realloc m (rn_data x) (rn_capacity x) sz = (r, m1)"
      by (cases "mount_realloc m (rn_data x) (rn_capacity x) sz")
    have own: "map_option fst (owned N (Own_data n)) = rn_data x"
      "(case owned N (Own_data n) of None \<Rightarrow> 0 | Some pk \<Rightarrow> snd pk) = rn_capacity x"
      using x(1) d by (cases "rn_data x"; simp)+
    show ?thesis
    proof (rule mount_realloc_ok [OF ar own _ re1])
      show "0 < sz" using False by simp
    next
      fix err assume "r = Inl err" "m1 = m"
      then show ?thesis using re re1 False x(1,2) by (intro fail [of err]) (auto simp: ramfs_resize_node_def N_def)
    next
      fix q mem bs
      assume r: "r = Inr (Some q)" "m1 = m\<lparr>rm_blocks := bs, rm_mem := mem\<rparr>"
        and ar1: "arena_ok ((owned N)(Own_data n \<mapsto> (q, sz))) m1"
        and here: "mem_read mem q (min (rn_capacity x) sz)
          = (case rn_data x of None \<Rightarrow> [] | Some p \<Rightarrow> mem_read (rm_mem m) p (min (rn_capacity x) sz))"
        and there: "\<And>y p k. y \<noteq> Own_data n \<Longrightarrow> owned N y = Some (p, k) \<Longrightarrow> mem_read mem p k = mem_read (rm_mem m) p k"
      define mem2 where "mem2 = (if rn_capacity x < sz
        then mem_write mem (q + rn_capacity x) (replicate (sz - rn_capacity x) 0) else mem)"
      define z where "z = x\<lparr>rn_data := Some q, rn_size := sz, rn_capacity := sz, rn_mtime := now\<rparr>"
      have z: "z = x\<lparr>rn_data := Some q, rn_capacity := sz, rn_size := sz, rn_mtime := now\<rparr>"
        by (rule ramfs_node.equality) (simp_all add: z_def)
      have m': "res = None" "m' = m\<lparr>rm_blocks := bs, rm_mem := mem2, rm_nodes := N(n \<mapsto> z)\<rparr>"
        using re re1 False x r by (auto simp: ramfs_resize_node_def upd_node_def N_def z mem2_def Let_def split: if_splits)
      have same: "mem_read mem2 p l = mem_read (rm_mem m) p l" if k: "k \<noteq> n" "owned N (Own_data k) = Some (p, l)" for k p l
      proof -
        have "q + sz \<le> p \<or> p + l \<le> q"
          using owners_apart [OF ar1, of "Own_data n" q sz "Own_data k" p l] k by simp
        then have "mem_read mem2 p l = mem_read mem p l"
          unfolding mem2_def by (auto intro!: mem_read_cong mem_write_outside)
        then show ?thesis using there [of "Own_data k" p l] k by simp
      qed
      have "ramfs_ok m' \<and> inodes m' = (inodes m)(n \<mapsto> File (content mem2 z)) \<and> rm_files m' = rm_files m"
      proof (rule put [OF m'(2) z_def])
        show "arena_ok ((owned N)(Own_data n := map_option (\<lambda>p. (p, sz)) (Some q))) (m\<lparr>rm_blocks := bs\<rparr>)"
          using ar1 by (subst arena_ok_cong [of _ m1]) (simp_all add: r(2))
      qed (use same False in simp_all)
      moreover have "content mem2 z = mem_read mem2 q sz" by (simp add: z_def content_def)
      moreover have "mem_read mem2 q sz = resized sz c"
        unfolding mem2_def by (rule realloc_content [OF here]) (use x(3) d(2,3) in \<open>auto simp: content_def split: option.splits\<close>)
      ultimately show ?thesis using resized [OF m'(1)] by simp
    qed
  qed
qed

section \<open>Removing and moving a node\<close>

lemma unlink_node_detach:
  assumes "rm_nodes m n = Some x" "rn_parent x = Some p"
  shows "ramfs_unlink_node m n = m\<lparr>rm_nodes := detach p n (rm_nodes m)\<rparr>"
  using assms by (simp add: ramfs_unlink_node_def upd_node_def detach_def)

lemma free_node_ok:
  assumes ar: "arena_ok (owned (rm_nodes m)) m" and n: "rm_nodes m n = Some x" "n \<noteq> RAMFS_ROOT" "rn_name_ptr x \<noteq> None"
  obtains bs where "arena_ok (owned ((rm_nodes m)(n := None))) (free_node m n)"
    "free_node m n = m\<lparr>rm_file_count := (if rn_is_dir x then rm_file_count m else rm_file_count m - 1),
       rm_dir_count := (if rn_is_dir x then rm_dir_count m - 1 else rm_dir_count m),
       rm_blocks := bs, rm_nodes := (rm_nodes m)(n := None)\<rparr>"
proof -
  define m1 where "m1 = m\<lparr>rm_file_count := (if rn_is_dir x then rm_file_count m else rm_file_count m - 1),
    rm_dir_count := (if rn_is_dir x then rm_dir_count m - 1 else rm_dir_count m)\<rparr>"
  define ow where "ow = owned (rm_nodes m)"
  have ar1: "arena_ok ow m1" using ar by (subst arena_ok_cong [of _ m]) (simp_all add: m1_def ow_def)
  have own: "map_option fst (ow (Own_data n)) = rn_data x" "map_option fst ((ow(Own_data n := None)) (Own_name n)) = rn_name_ptr x"
    "map_option fst ((ow(Own_data n := None, Own_name n := None)) (Own_node n)) = Some n"
    using n by (cases "rn_data x"; cases "rn_name_ptr x"; simp add: ow_def)+
  obtain bs1 where bs1: "mount_free m1 (rn_data x) = m1\<lparr>rm_blocks := bs1\<rparr>"
    "arena_ok (ow(Own_data n := None)) (m1\<lparr>rm_blocks := bs1\<rparr>)"
    using free_option_ok [OF ar1 own(1)] by blast
  obtain bs2 where bs2: "mount_free (m1\<lparr>rm_blocks := bs1\<rparr>) (rn_name_ptr x) = m1\<lparr>rm_blocks := bs2\<rparr>"
    "arena_ok (ow(Own_data n := None, Own_name n := None)) (m1\<lparr>rm_blocks := bs2\<rparr>)"
    using free_option_ok [OF bs1(2) own(2)] by (auto simp del: fun_upd_apply)
  obtain bs where bs: "mount_free (m1\<lparr>rm_blocks := bs2\<rparr>) (Some n) = m1\<lparr>rm_blocks := bs\<rparr>"
    "arena_ok (ow(Own_data n := None, Own_name n := None, Own_node n := None)) (m1\<lparr>rm_blocks := bs\<rparr>)"
    using free_option_ok [OF bs2(2) own(3)] by (auto simp del: fun_upd_apply)
  have "(if rn_is_dir x then m\<lparr>rm_dir_count := rm_dir_count m - 1\<rparr>
      else m\<lparr>rm_file_count := rm_file_count m - 1\<rparr>) = m1" by (simp add: m1_def)
  then have free: "free_node m n = m1\<lparr>rm_blocks := bs, rm_nodes := (rm_nodes m)(n := None)\<rparr>"
    unfolding free_node_def Let_def n(1) option.sel using n(2) bs1(1) bs2(1) bs(1)
    by (simp only: if_True not_False_eq_True simp_thms) (simp add: m1_def)
  have "owned ((rm_nodes m)(n := None)) = ow(Own_data n := None, Own_name n := None, Own_node n := None)"
    unfolding ow_def by (subst owned_upd) auto
  then have "arena_ok (owned ((rm_nodes m)(n := None))) (free_node m n)"
    using bs(2) by (subst arena_ok_cong [of _ "m1\<lparr>rm_blocks := bs\<rparr>"]) (simp_all add: free del: fun_upd_apply)
  then show ?thesis using that [of bs] free by (simp add: m1_def)
qed

lemma remove_node_ok:
  assumes ok: "ramfs_ok m" and n: "rm_nodes m n = Some x" "n \<noteq> RAMFS_ROOT" "rn_children x = []"
    and closed: "\<not> ramfs_node_is_open m n"
  defines "m' \<equiv> free_tree (ramfs_unlink_node m n) n"
  obtains p es where "ramfs_ok m'" "inodes m p = Some (Dir es)" "es (rn_name x) = Some n" "p \<noteq> n"
    "inodes m' = (inodes m)(p \<mapsto> Dir (es(rn_name x := None)), n := None)" "rm_files m' = rm_files m"
proof -
  define N where "N = rm_nodes m"
  note n' = n [folded N_def] and tree = ramfs_okD(2) [OF ok, folded N_def]
  note rec = node_record [OF tree_butD [OF tree n'(1)]]
  obtain p y where p: "rn_parent x = Some p" "N p = Some y" "rn_is_dir y" "n \<in> set (rn_children y)"
    using parent_node [OF tree n'(1,2)] by auto
  then have pn: "p \<noteq> n" using n'(1,3) by auto
  define m1 where "m1 = m\<lparr>rm_nodes := detach p n N\<rparr>"
  have unlink: "ramfs_unlink_node m n = m1" using unlink_node_detach [OF n(1) p(1)] by (simp add: m1_def N_def)
  have N1: "detach p n N n = Some x" using n'(1) pn by (simp add: detach_def)
  have own1: "owned (detach p n N) = owned N" using owned_links(1) [of N p n] p(2) by simp
  note cnt = ramfs_okD(3) [OF ok, folded N_def]
  have cnt1: "count_ok (detach p n N) (rm_file_count m) (rm_dir_count m)"
    unfolding detach_def by (rule count_same [OF cnt p(2)]) (simp add: p(2))
  have ar1: "arena_ok (owned (rm_nodes m1)) m1"
    using ramfs_okD(1) [OF ok] own1 by (subst arena_ok_cong [of _ m]) (simp_all add: m1_def N_def)
  have N1': "rm_nodes m1 n = Some x" using N1 by (simp add: m1_def)
  have ptr: "rn_name_ptr x \<noteq> None" using rec n(2) by (simp add: record_ok_def)
  obtain bs where free: "arena_ok (owned ((rm_nodes m1)(n := None))) (free_node m1 n)"
    "free_node m1 n = m1\<lparr>rm_file_count := (if rn_is_dir x then rm_file_count m1 else rm_file_count m1 - 1),
       rm_dir_count := (if rn_is_dir x then rm_dir_count m1 - 1 else rm_dir_count m1),
       rm_blocks := bs, rm_nodes := (rm_nodes m1)(n := None)\<rparr>"
    using free_node_ok [OF ar1 N1' n(2) ptr] .
  obtain k where k: "rm_file_count m + rm_dir_count m = Suc k" 
    using gr0_implies_Suc [OF count_del(2) [OF cnt n'(1)]] ..
  have k1: "rm_file_count m1 + rm_dir_count m1 = Suc k" using k by (simp add: m1_def)
  have m': "m' = free_node m1 n"
    unfolding m'_def unlink k1 ramfs_free_tree.simps N1' option.sel n(3) by simp
  have nodes: "rm_nodes m' = (detach p n N)(n := None)" "rm_files m' = rm_files m" "rm_mem m' = rm_mem m"
    unfolding m' free(2) by (simp_all add: m1_def)
  have t1: "tree_but {n} (detach p n N)" by (rule detach_tree [OF tree n'(1,2) p(1)])
  have "ramfs_ok m'"
  proof (rule ramfs_okI)
    show "arena_ok (owned (rm_nodes m')) m'" unfolding nodes(1) using free(1) m' by (simp add: m1_def)
    show "tree_ok (rm_nodes m')" unfolding nodes(1) by (rule delete_tree [OF t1 N1 n(2,3)])
    show "count_ok (rm_nodes m') (rm_file_count m') (rm_dir_count m')"
      unfolding nodes(1) using count_del(1) [OF cnt1 N1] unfolding m' free(2) by (cases "rn_is_dir x") (simp_all add: m1_def)
    show "length (rm_files m') = RAMFS_MAX_OPEN_FILES" using ramfs_okD(4) [OF ok] nodes(2) by simp
    fix f assume f: "f \<in> set (rm_files m')" "rf_active f"
    then obtain k z where kz: "rf_node f = Some k" "N k = Some z" "\<not> rn_is_dir z"
      using open_file [OF ok, of f] nodes(2) by (auto simp: N_def)
    have "k \<noteq> n" using f kz(1) closed nodes(2) by (auto simp: ramfs_node_is_open_def list_ex_iff)
    moreover have "k \<noteq> p" using kz p by auto
    ultimately have "rm_nodes m' k = Some z" using kz(2) by (simp add: nodes(1) detach_def)
    then show "\<exists>n x. rf_node f = Some n \<and> rm_nodes m' n = Some x \<and> \<not> rn_is_dir x" using kz by blast
  qed
  moreover have "inodes m' = (inodes m)(p \<mapsto> Dir ((entries N y)(rn_name x := None)), n := None)"
    unfolding nodes(1,3) view_delete [OF t1] view_detach [OF tree n'(1) p(1,2,4)] by (simp add: N_def)
  moreover have "inodes m p = Some (Dir (entries N y))" using p by (simp add: view_def N_def)
  moreover have "entries N y (rn_name x) = Some n"
    using entries_Some [OF tree_butD [OF tree p(2)]] p(4) n'(1) by simp
  ultimately show ?thesis using that pn nodes(2) by blast
qed

lemma arena_transfer:
  assumes "arena_ok ow m" "ow x = Some pk" "ow y = None"
  shows "arena_ok (ow(x := None, y \<mapsto> pk)) m"
proof -
  obtain p k where pk: "pk = (p, k)" by (cases pk)
  define ow' where "ow' = ow(x := None, y \<mapsto> pk)"
  have xy: "x \<noteq> y" using assms by auto
  have split: "(z = y \<and> ow x = Some (q, l)) \<or> (z \<noteq> x \<and> z \<noteq> y \<and> ow z = Some (q, l))" if "ow' z = Some (q, l)" for z q l
    using that assms(2) xy by (auto simp: ow'_def split: if_splits)
  have kept: "\<exists>z l. ow' z = Some (q, l)" if z: "ow z = Some (q, l)" for z q l
  proof (cases "z = x")
    case True
    then show ?thesis using z assms(2) by (intro exI [of _ y] exI [of _ l]) (simp add: ow'_def)
  next
    case False
    then have "z \<noteq> y" using z assms(3) by auto
    then show ?thesis using z False by (intro exI [of _ z] exI [of _ l]) (simp add: ow'_def)
  qed
  show ?thesis unfolding ow'_def [symmetric] arena_ok_def
  proof (intro conjI allI impI)
    show "tiles 0 (rm_blocks m) (rm_arena_bytes m)" "\<not> rm_fault m" using arena_okD(1,2) [OF assms(1)] .
    show "0 < l" "\<exists>w \<ge> l. used_map (rm_blocks m) q = Some w" if "ow' z = Some (q, l)" for z q l
      using split [OF that] arena_okD(3) [OF assms(1), of _ q l] by blast+
    show "\<exists>z l. ow' z = Some (q, l)" if "used_map (rm_blocks m) q = Some w" for q w
      using arena_okD(4) [OF assms(1) that] kept by blast
    show "z = z'" if "ow' z = Some (q, l)" "ow' z' = Some (q, l')" for z z' q l l'
      using split [OF that(1)] split [OF that(2)] arena_okD(5) [OF assms(1)] by blast
  qed
qed

lemma owned_relabel:
  "N n \<noteq> None \<Longrightarrow> owned (relabel n s ptr q N) = (owned N)(Own_name n \<mapsto> (ptr, length s + 1))"
proof
  fix x assume "N n \<noteq> None"
  then show "owned (relabel n s ptr q N) x = ((owned N)(Own_name n \<mapsto> (ptr, length s + 1))) x"
    by (cases x) (auto simp: relabel_def)
qed

text \<open>The table after moving \<open>n\<close> from \<open>old\<close> in \<open>p\<close> to \<open>s\<close> in \<open>q\<close>.\<close>

definition moved_inodes :: "nat \<Rightarrow> string \<Rightarrow> nat \<Rightarrow> string \<Rightarrow> nat \<Rightarrow> (nat \<rightharpoonup> inode) \<Rightarrow> nat \<rightharpoonup> inode" where
  "moved_inodes p old q s n I =
     (let remove = (\<lambda>i. case i of Some (Dir es) \<Rightarrow> Some (Dir (es(old := None))) | _ \<Rightarrow> i);
          add = (\<lambda>i. case i of Some (Dir es) \<Rightarrow> Some (Dir (es(s \<mapsto> n))) | _ \<Rightarrow> i);
          J = I(p := remove (I p))
      in J(q := add (J q)))"

lemma move_node_ok:
  fixes now :: int
  assumes ok: "ramfs_ok m" and n: "rm_nodes m n = Some x" "n \<noteq> RAMFS_ROOT"
    and q: "inodes m q = Some (Dir es)" "es s = None" "name_ok s"
    and al: "mount_alloc m (length s + 1) = (Inr new, m1)"
  defines "m2 \<equiv> ramfs_unlink_node m1 n"
  defines "m3 \<equiv> mount_free m2 (rn_name_ptr (node m2 n))"
  defines "m4 \<equiv> upd_node n (\<lambda>x. x\<lparr>rn_name := s, rn_name_ptr := Some new, rn_parent := Some q\<rparr>) m3"
  defines "m5 \<equiv> upd_node q (\<lambda>p. p\<lparr>rn_children := n # rn_children p\<rparr>) m4"
  defines "m' \<equiv> upd_node n (\<lambda>x. x\<lparr>rn_mtime := now\<rparr>) m5"
  obtains p ep where "ramfs_ok m'" "rn_parent x = Some p" "inodes m p = Some (Dir ep)" "ep (rn_name x) = Some n"
    "inodes m' = moved_inodes p (rn_name x) q s n (inodes m)" "rm_files m' = rm_files m"
proof -
  define N where "N = rm_nodes m"
  note n' = n [folded N_def] and tree = ramfs_okD(2) [OF ok, folded N_def]
  obtain yq where yq: "N q = Some yq" "rn_is_dir yq" "es = entries N yq" using q(1) by (auto simp: view_Some N_def)
  obtain p yp where p: "rn_parent x = Some p" "N p = Some yp" "rn_is_dir yp" "n \<in> set (rn_children yp)"
    using parent_node [OF tree n'(1,2)] by auto
  obtain bs1 where a: "m1 = m\<lparr>rm_blocks := bs1\<rparr>"
    "\<And>y. owned N y = None \<Longrightarrow> arena_ok ((owned N)(y \<mapsto> (new, length s + 1))) m1"
  proof (rule mount_alloc_ok [OF ramfs_okD(1) [OF ok] al])
    fix p bs assume r: "Inr new = (Inr p :: ramfs_errno + nat)" "m1 = m\<lparr>rm_blocks := bs\<rparr>"
      "\<And>x. owned (rm_nodes m) x = None \<Longrightarrow> 0 < length s + 1
         \<Longrightarrow> arena_ok ((owned (rm_nodes m))(x \<mapsto> (p, length s + 1))) m1"
    show ?thesis by (rule that [OF r(2)]) (use r(1,3) in \<open>simp add: N_def\<close>)
  qed simp
  define N1 where "N1 = detach p n N"
  obtain x1 where x1: "N1 n = Some x1" "rn_name x1 = rn_name x" "rn_name_ptr x1 = rn_name_ptr x"
    "rn_is_dir x1 = rn_is_dir x" "rn_data x1 = rn_data x" "rn_capacity x1 = rn_capacity x"
    using n'(1) p(2) by (cases "p = n") (simp_all add: N1_def detach_def)
  have m2: "m2 = m1\<lparr>rm_nodes := N1\<rparr>"
    unfolding m2_def N1_def N_def by (subst unlink_node_detach [where x = x]) (use n p a(1) in simp_all)
  define N2 where "N2 = relabel n s new q N1"
  define N3 where "N3 = attach q n N2"
  have own1: "owned N1 = owned N" unfolding N1_def by (rule owned_links(1)) (simp add: p(2))
  have t1: "tree_but {n} N1" unfolding N1_def by (rule detach_tree [OF tree n'(1,2) p(1)])
  obtain c where c: "rn_name_ptr x = Some c"
    using node_record [OF tree_butD [OF tree n'(1)]] n(2) by (auto simp: record_ok_def)
  text \<open>The arena: the new name is allocated, then the old one is freed.\<close>
  define ow1 where "ow1 = (owned N)(Own_node RAMFS_ROOT \<mapsto> (new, length s + 1))"
  have ar2: "arena_ok ow1 m2"
    unfolding ow1_def using a(2) [of "Own_node RAMFS_ROOT"] by (subst arena_ok_cong [of _ m1]) (simp_all add: m2)
  obtain bs where bs: "m3 = m2\<lparr>rm_blocks := bs\<rparr>" "arena_ok (ow1(Own_name n := None)) m3"
    using mount_free_ok [OF ar2, of "Own_name n" c "length (rn_name x) + 1"] n' x1 c
    by (auto simp: m3_def m2 ow1_def simp del: fun_upd_apply) (auto simp: fun_upd_apply)
  have "(ow1(Own_name n := None))(Own_node RAMFS_ROOT := None, Own_name n \<mapsto> (new, length s + 1))
      = (owned N)(Own_name n \<mapsto> (new, length s + 1))"
    by (auto simp: ow1_def)
  then have ar3: "arena_ok ((owned N)(Own_name n \<mapsto> (new, length s + 1))) m3"
    using arena_transfer [OF bs(2), of "Own_node RAMFS_ROOT" "(new, length s + 1)" "Own_name n"]
    by (simp add: ow1_def)
  text \<open>The table of nodes: detached, named anew, attached, touched.\<close>
  define x2 where "x2 = x1\<lparr>rn_name := s, rn_name_ptr := Some new, rn_parent := Some q\<rparr>"
  have N2n: "N2 n = Some x2" using x1(1) by (simp add: N2_def relabel_def x2_def)
  have t2: "tree_but {n} N2" unfolding N2_def by (rule relabel_tree [OF t1 x1(1) n(2) q(3)])
  define ep where "ep = entries N yp"
  define J where "J = (inodes m)(p \<mapsto> Dir (ep(rn_name x := None)))"
  have v2: "view N2 (rm_mem m) = J"
    unfolding N2_def view_relabel [OF t1 x1(1)]
    unfolding J_def N1_def ep_def N_def [symmetric] by (rule view_detach [OF tree n'(1) p(1,2,4)])
  have Ip: "inodes m p = Some (Dir ep)" using p by (simp add: view_def N_def ep_def)
  define e2 where "e2 = (if q = p then ep(rn_name x := None) else es)"
  have Jq: "J q = Some (Dir e2)" using q(1) by (simp add: J_def e2_def)
  have "e2 s = None" using q(1,2) Ip by (auto simp: e2_def)
  moreover obtain y2 where y2: "N2 q = Some y2" "rn_is_dir y2" "e2 = entries N2 y2"
    using Jq unfolding v2 [symmetric] view_Some by blast
  ultimately have t3: "tree_ok N3"
    unfolding N3_def by (intro attach_tree [OF t2 N2n n(2) _ y2(1,2)]) (simp_all add: x2_def)
  have v3: "view N3 (rm_mem m) = J(q \<mapsto> Dir (e2(s \<mapsto> n)))"
    unfolding N3_def view_attach [where N = N2, OF N2n y2(1,2)] y2(3) [symmetric] v2 by (simp add: x2_def)
  obtain x3 where x3: "N3 n = Some x3" using N2n y2(1) by (cases "q = n") (simp_all add: N3_def attach_def)
  define N4 where "N4 = N3(n \<mapsto> x3\<lparr>rn_mtime := now\<rparr>)"
  note rec3 = node_record [OF tree_butD [OF t3 x3]]
  have t4: "tree_ok N4"
    unfolding N4_def by (rule refit_tree [OF t3 x3]) (use rec3 in \<open>simp_all add: record_ok_def\<close>)
  have "view N4 (rm_mem m) = (view N3 (rm_mem m))(n \<mapsto> inode_of N3 (rm_mem m) (x3\<lparr>rn_mtime := now\<rparr>))"
    unfolding N4_def by (rule view_upd_same_name [where N = N3, OF x3]) simp
  also have "\<dots> = view N3 (rm_mem m)"
    using x3 by (auto simp: view_def fun_eq_iff entries_def content_def split: option.splits)
  finally have v4: "view N4 (rm_mem m) = J(q \<mapsto> Dir (e2(s \<mapsto> n)))" using v3 by simp
  have "owned N2 = (owned N)(Own_name n \<mapsto> (new, length s + 1))"
    unfolding N2_def own1 [symmetric] by (rule owned_relabel) (simp add: x1(1))
  moreover have "owned N3 = owned N2" unfolding N3_def by (rule owned_links(2)) (simp add: y2(1))
  moreover have "owned N4 = owned N3" unfolding N4_def by (rule owned_same [where N = N3, OF x3]) simp_all
  ultimately have own4: "owned N4 = (owned N)(Own_name n \<mapsto> (new, length s + 1))" by simp
  have "count_ok N1 (rm_file_count m) (rm_dir_count m)"
    unfolding N1_def detach_def by (rule count_same [OF ramfs_okD(3) [OF ok, folded N_def] p(2)]) (simp add: p(2))
  then have "count_ok N2 (rm_file_count m) (rm_dir_count m)"
    unfolding N2_def relabel_def by (rule count_same [where N = N1, OF _ x1(1)]) (simp add: x1(1))
  then have "count_ok N3 (rm_file_count m) (rm_dir_count m)"
    unfolding N3_def attach_def by (rule count_same [where N = N2, OF _ y2(1)]) (simp add: y2(1))
  then have cnt4: "count_ok N4 (rm_file_count m) (rm_dir_count m)"
    unfolding N4_def by (rule count_same [where N = N3, OF _ x3]) simp
  have "m4 = m3\<lparr>rm_nodes := N2\<rparr>"
    using x1(1) by (simp add: m4_def upd_node_def bs(1) m2 N2_def relabel_def)
  then have "m5 = m3\<lparr>rm_nodes := N3\<rparr>" by (simp add: m5_def upd_node_def N3_def attach_def)
  then have m': "m' = m3\<lparr>rm_nodes := N4\<rparr>" by (simp add: m'_def upd_node_def N4_def x3)
  have nodes: "rm_nodes m' = N4" "rm_files m' = rm_files m" "rm_mem m' = rm_mem m"
    "rm_file_count m' = rm_file_count m" "rm_dir_count m' = rm_dir_count m"
    by (simp_all add: m' bs(1) m2 a(1))
  have v': "inodes m' = J(q \<mapsto> Dir (e2(s \<mapsto> n)))" unfolding nodes v4 ..
  have "ramfs_ok m'"
  proof (rule ramfs_okI)
    show "arena_ok (owned (rm_nodes m')) m'"
      unfolding nodes(1) own4 using ar3 by (subst arena_ok_cong [of _ m3]) (simp_all add: m')
    show "tree_ok (rm_nodes m')" unfolding nodes(1) by (rule t4)
    show "count_ok (rm_nodes m') (rm_file_count m') (rm_dir_count m')" unfolding nodes by (rule cnt4)
    show "length (rm_files m') = RAMFS_MAX_OPEN_FILES" using ramfs_okD(4) [OF ok] nodes(2) by simp
    fix f assume f: "f \<in> set (rm_files m')" "rf_active f"
    then obtain k z where kz: "rf_node f = Some k" "N k = Some z" "\<not> rn_is_dir z"
      using open_file [OF ok, of f] nodes(2) by (auto simp: N_def)
    then have "k \<noteq> p" "k \<noteq> q" using p yq by auto
    then have "inodes m' k = Some (File (content (rm_mem m) z))"
      using kz(2,3) unfolding v' J_def by (simp add: view_def N_def)
    then show "\<exists>n x. rf_node f = Some n \<and> rm_nodes m' n = Some x \<and> \<not> rn_is_dir x"
      using kz(1) unfolding view_Some by blast
  qed
  moreover have "ep (rn_name x) = Some n"
    using entries_Some [OF tree_butD [OF tree p(2)]] p(4) n'(1) by (simp add: ep_def)
  moreover have "inodes m' = moved_inodes p (rn_name x) q s n (inodes m)"
    unfolding v' using Ip q(1) by (simp add: moved_inodes_def J_def e2_def)
  ultimately show thesis using that p(1) Ip nodes(2) by blast
qed

end
