(* ===== verification/RamPaths.thy ===== *)
theory RamPaths
  imports RamInvariant
begin

text \<open>
  Path resolution of the RAM file system: the cursor loops of \<open>ramfs_find_node\<close> and
  \<open>ramfs_resolve_parent\<close> compute a walk along the list of names in the path. Of a path with a name that
  is too long they walk the part before it.
\<close>

section \<open>The names of a path\<close>

fun split_slash :: "string \<Rightarrow> string list" where
  "split_slash [] = [[]]"
| "split_slash (c # cs) =
     (if c = CHR ''/'' then [] # split_slash cs
      else (case split_slash cs of [] \<Rightarrow> [[c]] | s # ss \<Rightarrow> (c # s) # ss))"

definition path_names :: "string \<Rightarrow> string list" where
  "path_names path = filter (\<lambda>s. s \<noteq> []) (split_slash path)"

text \<open>The names the code gets to see.\<close>

definition seen_names :: "string \<Rightarrow> string list" where
  "seen_names path = takeWhile (\<lambda>s. length s \<le> NAME_MAX) (path_names path)"

lemma split_slash_head:
  "split_slash p = takeWhile (\<lambda>c. c \<noteq> CHR ''/'') p # (case dropWhile (\<lambda>c. c \<noteq> CHR ''/'') p of
     [] \<Rightarrow> [] | c # cs \<Rightarrow> split_slash cs)"
  by (induction p) auto

lemma path_names_slashes: "path_names (dropWhile (\<lambda>c. c = CHR ''/'') p) = path_names p"
  by (induction p) (auto simp: path_names_def)

lemma path_names_word:
  assumes "p \<noteq> []" "hd p \<noteq> CHR ''/''"
  shows "path_names p = takeWhile (\<lambda>c. c \<noteq> CHR ''/'') p # path_names (dropWhile (\<lambda>c. c \<noteq> CHR ''/'') p)"
proof -
  define q where "q = dropWhile (\<lambda>c. c \<noteq> CHR ''/'') p"
  have "takeWhile (\<lambda>c. c \<noteq> CHR ''/'') p \<noteq> []" using assms by (cases p) auto
  moreover have "hd q = CHR ''/''" if "q \<noteq> []" using hd_dropWhile [of "\<lambda>c. c \<noteq> CHR ''/''" p] that by (simp add: q_def)
  ultimately show ?thesis
    unfolding path_names_def split_slash_head [of p] q_def [symmetric] by (cases q) auto
qed

lemma next_segment_names:
  "case ramfs_next_segment p of
     SEG_END \<Rightarrow> path_names p = []
   | SEG_TOO_LONG \<Rightarrow> (\<exists>s ss. path_names p = s # ss \<and> NAME_MAX < length s)
   | SEG s rest \<Rightarrow> path_names p = s # path_names rest \<and> length s \<le> NAME_MAX"
proof -
  define q where "q = dropWhile (\<lambda>c. c = CHR ''/'') p"
  define s where "s = takeWhile (\<lambda>c. c \<noteq> CHR ''/'') q"
  have names: "path_names p = path_names q" by (simp add: q_def path_names_slashes)
  have rest: "drop (length s) q = dropWhile (\<lambda>c. c \<noteq> CHR ''/'') q" by (simp add: s_def dropWhile_eq_drop)
  show ?thesis
  proof (cases "q = []")
    case True
    then show ?thesis using names by (simp add: ramfs_next_segment_def q_def [symmetric] path_names_def)
  next
    case False
    then have "hd q \<noteq> CHR ''/''" using hd_dropWhile [of "\<lambda>c. c = CHR ''/''" p] by (simp add: q_def)
    then have "path_names q = s # path_names (drop (length s) q)"
      using path_names_word [OF False] by (simp only: rest) (simp add: s_def)
    then show ?thesis using False names
      by (simp add: ramfs_next_segment_def q_def [symmetric] s_def [symmetric] Let_def not_le Suc_le_eq)
  qed
qed

lemma seen_names_segment:
  "seen_names p = (case ramfs_next_segment p of SEG s rest \<Rightarrow> s # seen_names rest | _ \<Rightarrow> [])"
  using next_segment_names [of p] by (auto simp: seen_names_def split: ramfs_segment.splits)

lemma path_names_ok: "s \<in> set (path_names p) \<Longrightarrow> s \<noteq> [] \<and> CHR ''/'' \<notin> set s"
proof -
  have "CHR ''/'' \<notin> set s" if "s \<in> set (split_slash p)"
    using that
  proof (induction p arbitrary: s)
    case (Cons c cs)
    then show ?case by (auto split: if_splits list.splits)
  qed simp
  then show "s \<in> set (path_names p) \<Longrightarrow> s \<noteq> [] \<and> CHR ''/'' \<notin> set s" by (auto simp: path_names_def)
qed

lemma seen_names_ok: "s \<in> set (seen_names p) \<Longrightarrow> s \<noteq> [] \<and> CHR ''/'' \<notin> set s \<and> length s \<le> NAME_MAX"
  unfolding seen_names_def using path_names_ok set_takeWhileD by (metis (no_types, lifting))

section \<open>The walks\<close>

definition parent_of :: "ramfs_mount \<Rightarrow> nat \<Rightarrow> nat" where
  "parent_of m n = (case rn_parent (node m n) of None \<Rightarrow> n | Some p \<Rightarrow> p)"

fun walk :: "ramfs_mount \<Rightarrow> nat \<Rightarrow> string list \<Rightarrow> ramfs_errno + nat" where
  "walk m n [] = Inr n"
| "walk m n (s # ss) =
     (if s = ''.'' then walk m n ss
      else if s = ''..'' then walk m (parent_of m n) ss
      else if \<not> rn_is_dir (node m n) then Inl ENOTDIR
      else (case ramfs_find_child m n s of None \<Rightarrow> Inl ENOENT | Some c \<Rightarrow> walk m c ss))"

fun walk_dirs :: "ramfs_mount \<Rightarrow> nat \<Rightarrow> string list \<Rightarrow> ramfs_errno + nat" where
  "walk_dirs m n [] = Inr n"
| "walk_dirs m n (s # ss) =
     (if s = ''..'' then walk_dirs m (parent_of m n) ss
      else (case ramfs_find_child m n s of
              None \<Rightarrow> Inl ENOENT
            | Some c \<Rightarrow> if \<not> rn_is_dir (node m c) then Inl ENOTDIR else walk_dirs m c ss))"

text \<open>The directory and the name of the last component.\<close>

definition split_last :: "ramfs_mount \<Rightarrow> nat \<Rightarrow> string list \<Rightarrow> ramfs_errno + nat \<times> string" where
  "split_last m n ns =
     (if ns = [] then Inl EINVAL
      else if last ns = ''..'' then (case walk_dirs m n ns of Inl err \<Rightarrow> Inl err | Inr _ \<Rightarrow> Inl EINVAL)
      else (case walk_dirs m n (butlast ns) of
              Inl err \<Rightarrow> Inl err
            | Inr q \<Rightarrow> if rn_is_dir (node m q) then Inr (q, last ns) else Inl ENOTDIR))"

lemma find_from_walk: "find_from m n p = walk m n (seen_names p)"
proof (induction "length p" arbitrary: p n rule: less_induct)
  case less
  show ?case
  proof (cases "ramfs_next_segment p")
    case (SEG s rest)
    then have "find_from m k rest = walk m k (seen_names rest)" for k
      using less [OF next_segment_shorter [OF SEG]] by simp
    then show ?thesis
      using SEG by (subst find_from.simps, subst seen_names_segment)
        (auto simp: parent_of_def split: option.splits)
  qed (simp_all add: find_from.simps [of m n p] seen_names_segment [of p])
qed

lemma has_next_names: "has_next_segment p \<longleftrightarrow> filter (\<lambda>s. s \<noteq> ''.'') (seen_names p) \<noteq> []"
proof (induction "length p" arbitrary: p rule: less_induct)
  case less
  show ?case
  proof (cases "ramfs_next_segment p")
    case (SEG s rest)
    then show ?thesis
      using less [OF next_segment_shorter [OF SEG]]
      by (subst has_next_segment.simps, subst seen_names_segment) simp
  qed (simp_all add: has_next_segment.simps [of p] seen_names_segment [of p])
qed

lemma split_last_step:
  assumes "ns \<noteq> []"
  shows "split_last m n (s # ns) =
     (if s = ''..'' then split_last m (parent_of m n) ns
      else (case ramfs_find_child m n s of
              None \<Rightarrow> Inl ENOENT
            | Some c \<Rightarrow> if \<not> rn_is_dir (node m c) then Inl ENOTDIR else split_last m c ns))"
  unfolding split_last_def last_ConsR [OF assms] using assms by (simp split: option.split)

lemma resolve_from_split: "resolve_from m n [] p = split_last m n (filter (\<lambda>s. s \<noteq> ''.'') (seen_names p))"
proof (induction "length p" arbitrary: p n rule: less_induct)
  case less
  show ?case
  proof (cases "ramfs_next_segment p")
    case (SEG s rest)
    have IH: "resolve_from m k [] rest = split_last m k (filter (\<lambda>s. s \<noteq> ''.'') (seen_names rest))" for k
      using less [OF next_segment_shorter [OF SEG]] by simp
    have s: "s \<noteq> []" using seen_names_ok [of s p] seen_names_segment [of p] SEG by simp
    show ?thesis
    proof (cases "filter (\<lambda>s. s \<noteq> ''.'') (seen_names rest) = []")
      case True
      then show ?thesis
        using SEG IH s has_next_names [of rest]
        by (subst resolve_from.simps, subst seen_names_segment)
           (auto simp: split_last_def resolve_finish_def parent_of_def)
    next
      case False
      then show ?thesis
        using SEG IH has_next_names [of rest] split_last_step [OF False, of m n s]
        by (subst resolve_from.simps, subst seen_names_segment)
           (auto simp: parent_of_def split: option.splits)
    qed
  qed (simp_all add: resolve_from.simps [of m n "[]" p] seen_names_segment [of p] split_last_def resolve_finish_def)
qed

section \<open>Where the walks end\<close>

lemma parent_of_live:
  assumes "tree_ok (rm_nodes m)" "rm_nodes m n = Some x"
  shows "\<exists>y. rm_nodes m (parent_of m n) = Some y"
  using assms root_node [OF assms(1)] parent_node [OF assms] by (cases "n = RAMFS_ROOT") (auto simp: parent_of_def)

lemma find_child_live:
  assumes "tree_ok (rm_nodes m)" "rm_nodes m n = Some x" "ramfs_find_child m n s = Some c"
  shows "\<exists>y. rm_nodes m c = Some y"
proof -
  have "c \<in> set (rn_children x)" using assms(2,3) by (auto simp: ramfs_find_child_def find_Some_iff)
  then show ?thesis using child_node [OF assms(1,2)] by blast
qed

lemma walk_live:
  assumes t: "tree_ok (rm_nodes m)"
  shows "rm_nodes m n = Some x \<Longrightarrow> walk m n ss = Inr k \<Longrightarrow> \<exists>y. rm_nodes m k = Some y"
proof (induction ss arbitrary: n x)
  case (Cons s ss)
  show ?case
    using Cons.IH Cons.prems parent_of_live [OF t Cons.prems(1)] find_child_live [OF t Cons.prems(1), of s]
    by (auto split: if_splits option.splits)
qed auto

lemma walk_dirs_live:
  assumes t: "tree_ok (rm_nodes m)"
  shows "rm_nodes m n = Some x \<Longrightarrow> walk_dirs m n ss = Inr k \<Longrightarrow> \<exists>y. rm_nodes m k = Some y"
proof (induction ss arbitrary: n x)
  case (Cons s ss)
  show ?case
    using Cons.IH Cons.prems parent_of_live [OF t Cons.prems(1)] find_child_live [OF t Cons.prems(1), of s]
    by (auto split: if_splits option.splits)
qed auto

lemma find_node_live:
  assumes "ramfs_ok m" "ramfs_find_node m path = Inr n"
  shows "\<exists>x. rm_nodes m n = Some x"
  using assms walk_live [OF ramfs_okD(2) [OF assms(1)]] root_node [OF ramfs_okD(2) [OF assms(1)]]
  by (auto simp: ramfs_find_node_def find_from_walk split: option.splits if_splits)

lemma resolve_parent_live:
  assumes ok: "ramfs_ok m" and r: "ramfs_resolve_parent m path = Inr (q, s)"
  shows "\<exists>es. inodes m q = Some (Dir es)" and "name_ok s"
proof -
  note t = ramfs_okD(2) [OF ok]
  obtain p where "path = Some p" "resolve_from m RAMFS_ROOT [] p = Inr (q, s)"
    using r by (auto simp: ramfs_resolve_parent_def split: option.splits)
  then obtain ns where ns: "ns = filter (\<lambda>s. s \<noteq> ''.'') (seen_names p)" "split_last m RAMFS_ROOT ns = Inr (q, s)"
    by (simp add: resolve_from_split)
  then have s: "ns \<noteq> []" "s = last ns" "s \<noteq> ''..''" "walk_dirs m RAMFS_ROOT (butlast ns) = Inr q" "rn_is_dir (node m q)"
    by (auto simp: split_last_def split: if_splits sum.splits)
  have "s \<in> set ns" using s(1,2) by simp
  then show "name_ok s" using ns(1) s(3) seen_names_ok [of s p] by (auto simp: name_ok_def)
  obtain y where "rm_nodes m q = Some y" using walk_dirs_live [OF t _ s(4)] root_node [OF t] by auto
  then have "inodes m q = Some (Dir (entries (rm_nodes m) y))" using s(5) by (simp add: view_def)
  then show "\<exists>es. inodes m q = Some (Dir es)" by blast
qed

end
