(* ===== verification/RamCalls.thy ===== *)
theory RamCalls
  imports RamOperations RamPaths
begin

text \<open>
  The VFS callbacks of the RAM file system against the table of inodes: what every call returns and how it
  changes the table, and that the invariant holds after any sequence of calls on a fresh mount.
\<close>

section \<open>Open files\<close>

text \<open>Descriptor \<open>fd\<close> is open on the inode \<open>n\<close> with content \<open>c\<close>.\<close>

definition open_on :: "ramfs_mount \<Rightarrow> int \<Rightarrow> nat \<Rightarrow> u8 list \<Rightarrow> ramfs_file \<Rightarrow> bool" where
  "open_on m fd n c f \<longleftrightarrow>
     0 \<le> fd \<and> fd < int RAMFS_MAX_OPEN_FILES \<and> f = rm_files m ! nat fd \<and> rf_active f
     \<and> rf_node f = Some n \<and> inodes m n = Some (File c)"

lemma get_file_open:
  assumes ok: "ramfs_ok m" and g: "ramfs_get_file m fd = Inr k"
  shows "k < length (rm_files m)" "k = nat fd" "\<exists>n c. open_on m fd n c (rm_files m ! k)"
proof -
  have k: "k = nat fd" "0 \<le> fd" "fd < int RAMFS_MAX_OPEN_FILES" "rf_active (rm_files m ! k)"
    using g by (auto simp: ramfs_get_file_def split: if_splits)
  then show "k < length (rm_files m)" "k = nat fd" using ramfs_okD(4) [OF ok] by auto
  then obtain n x where "rf_node (rm_files m ! k) = Some n" "rm_nodes m n = Some x" "\<not> rn_is_dir x"
    using open_file [OF ok, of "rm_files m ! k"] k(4) by auto
  then show "\<exists>n c. open_on m fd n c (rm_files m ! k)" using k by (auto simp: open_on_def view_def)
qed

lemma open_onD:
  assumes ok: "ramfs_ok m" and on: "open_on m fd n c f"
  shows "ramfs_get_file m fd = Inr (nat fd)" "rm_files m ! nat fd = f" "rf_node f = Some n" "rf_active f"
    "inodes m n = Some (File c)" "follow (rf_node f) m = m" "nat fd < length (rm_files m)"
    "rm_nodes m n \<noteq> None" "rn_size (node m n) = length c" "rn_capacity (node m n) = length c"
    "content (rm_mem m) (node m n) = c" "\<not> rn_is_dir (node m n)"
    "rn_data (node m n) = None \<longleftrightarrow> length c = 0"
proof -
  show f: "ramfs_get_file m fd = Inr (nat fd)" "rm_files m ! nat fd = f" "rf_node f = Some n" "rf_active f"
    and n: "inodes m n = Some (File c)"
    using on by (auto simp: open_on_def ramfs_get_file_def)
  show "nat fd < length (rm_files m)" using on ramfs_okD(4) [OF ok] by (simp add: open_on_def nat_less_iff)
  obtain x where x: "rm_nodes m n = Some x" "\<not> rn_is_dir x" "c = content (rm_mem m) x"
    using n by (auto simp: view_Some)
  note d = data_node [OF tree_butD [OF ramfs_okD(2) [OF ok] x(1)]]
  show "rm_nodes m n \<noteq> None" "rn_size (node m n) = length c" "rn_capacity (node m n) = length c"
    "content (rm_mem m) (node m n) = c" "\<not> rn_is_dir (node m n)" "rn_data (node m n) = None \<longleftrightarrow> length c = 0"
    using x d by simp_all
  show "follow (rf_node f) m = m" using f(3) x(1) by (simp add: follow_def)
qed

lemma inodes_upd_file [simp]: "inodes (upd_file k g m) = inodes m"
  by (simp add: upd_file_def)

lemma ramfs_ok_files:
  assumes ok: "ramfs_ok m" and len: "length fs = RAMFS_MAX_OPEN_FILES"
    and "\<And>f. f \<in> set fs \<Longrightarrow> rf_active f \<Longrightarrow> \<exists>n c. rf_node f = Some n \<and> inodes m n = Some (File c)"
  shows "ramfs_ok (m\<lparr>rm_files := fs\<rparr>)"
proof (rule ramfs_okI)
  show "arena_ok (owned (rm_nodes (m\<lparr>rm_files := fs\<rparr>))) (m\<lparr>rm_files := fs\<rparr>)"
    using ramfs_okD(1) [OF ok] by (subst arena_ok_cong [of _ m]) simp_all
  show "\<exists>n x. rf_node f = Some n \<and> rm_nodes (m\<lparr>rm_files := fs\<rparr>) n = Some x \<and> \<not> rn_is_dir x"
    if "f \<in> set (rm_files (m\<lparr>rm_files := fs\<rparr>))" "rf_active f" for f
    using assms(3) [of f] that by (simp add: view_Some)
qed (use ramfs_okD(2,3) [OF ok] len in simp_all)

lemma ramfs_ok_upd_file:
  assumes ok: "ramfs_ok m" and "rf_active (g (rm_files m ! k))
    \<Longrightarrow> \<exists>n c. rf_node (g (rm_files m ! k)) = Some n \<and> inodes m n = Some (File c)"
  shows "ramfs_ok (upd_file k g m)"
  unfolding upd_file_def
proof (rule ramfs_ok_files [OF ok])
  fix f assume f: "f \<in> set ((rm_files m)[k := g (rm_files m ! k)])" "rf_active f"
  then consider "f = g (rm_files m ! k)" | "f \<in> set (rm_files m)" using set_update_subset_insert by fastforce
  then show "\<exists>n c. rf_node f = Some n \<and> inodes m n = Some (File c)"
  proof cases
    case 2
    then show ?thesis using open_file [OF ok, of f] f(2) by (auto simp: view_def)
  qed (use assms(2) f(2) in simp)
qed (use ramfs_okD(4) [OF ok] in simp)

section \<open>Reading and writing\<close>

text \<open>Bytes are put at a position; a gap before it is filled with zeros.\<close>

definition overwrite :: "nat \<Rightarrow> u8 list \<Rightarrow> u8 list \<Rightarrow> u8 list" where
  "overwrite pos bs c = take pos (resized (max pos (length c)) c) @ bs @ drop (pos + length bs) c"

lemma read_spec:
  assumes ok: "ramfs_ok m" and on: "open_on m fd n c f"
  shows "ramfs_vfs_read m fd True sz =
    (if rf_flags f AND O_ACCMODE = O_WRONLY then (Inl EBADF, m)
     else (Inr (take sz (drop (rf_offset f) c)),
           upd_file (nat fd) (\<lambda>f. f\<lparr>rf_offset := rf_offset f + min sz (length c - rf_offset f)\<rparr>) m))"
proof -
  note d = open_onD [OF ok on]
  define off where "off = rf_offset f"
  show ?thesis
  proof (cases "length c \<le> off")
    case True
    have "(rm_files m)[nat fd := f] = rm_files m" using d(2) by (metis list_update_id)
    then have "upd_file (nat fd) (\<lambda>f. f\<lparr>rf_offset := rf_offset f + min sz (length c - rf_offset f)\<rparr>) m = m"
      using True d(2) by (simp add: upd_file_def off_def)
    then show ?thesis using True d by (simp add: ramfs_vfs_read_def off_def Let_def)
  next
    case False
    then obtain p where p: "rn_data (node m n) = Some p" "c = mem_read (rm_mem m) p (length c)"
      using d(9,11,13) by (cases "rn_data (node m n)") (auto simp: content_def)
    define k where "k = min sz (length c - off)"
    have "mem_read (rm_mem m) p (length c) = mem_read (rm_mem m) p off @ mem_read (rm_mem m) (p + off) (length c - off)"
      using mem_read_append [of "rm_mem m" p off "length c - off"] False by simp
    then have "mem_read (rm_mem m) (p + off) (length c - off) = drop off c" using p(2) by (metis append_eq_conv_conj mem_read_length)
    then have "mem_read (rm_mem m) (p + off) k = take sz (drop off c)"
      using mem_read_take [of k "length c - off" "rm_mem m" "p + off"]
      by (simp add: k_def) (metis length_drop min.commute take_all_iff take_take nle_le)
    then show ?thesis using False d p(1)
      by (simp add: ramfs_vfs_read_def Let_def off_def k_def upd_file_def)
  qed
qed

text \<open>Bytes inside the data of a file are replaced and its time is set.\<close>

lemma touch_ok:
  fixes now :: int
  assumes ok: "ramfs_ok m" and n: "rm_nodes m n = Some x" "\<not> rn_is_dir x"
    and same: "\<And>k q l. k \<noteq> n \<Longrightarrow> owned (rm_nodes m) (Own_data k) = Some (q, l)
      \<Longrightarrow> mem_read mem q l = mem_read (rm_mem m) q l"
  defines "m' \<equiv> m\<lparr>rm_mem := mem, rm_nodes := (rm_nodes m)(n \<mapsto> x\<lparr>rn_mtime := now\<rparr>)\<rparr>"
  shows "ramfs_ok m'" and "inodes m' = (inodes m)(n \<mapsto> File (content mem x))"
proof -
  define N where "N = rm_nodes m"
  note n' = n [folded N_def] and ar = ramfs_okD(1) [OF ok, folded N_def] and tree = ramfs_okD(2) [OF ok, folded N_def]
  define z where "z = x\<lparr>rn_mtime := now\<rparr>"
  have own: "owned (N(n \<mapsto> z)) = owned N" by (rule owned_same [where N = N, OF n'(1)]) (simp_all add: z_def)
  have nodes: "rm_nodes m' = N(n \<mapsto> z)" "rm_files m' = rm_files m" "rm_mem m' = mem"
    by (simp_all add: m'_def N_def z_def)
  show "ramfs_ok m'"
  proof (rule ramfs_okI)
    show "arena_ok (owned (rm_nodes m')) m'"
      unfolding nodes own using ar by (subst arena_ok_cong [of _ m]) (simp_all add: m'_def)
    show "tree_ok (rm_nodes m')"
      unfolding nodes
      by (rule refit_tree [OF tree n'(1)])
        (use node_record [OF tree_butD [OF tree n'(1)]] in \<open>simp_all add: z_def record_ok_def\<close>)
    show "count_ok (rm_nodes m') (rm_file_count m') (rm_dir_count m')"
      unfolding nodes using count_same [OF ramfs_okD(3) [OF ok, folded N_def] n'(1), of z] by (simp add: m'_def z_def)
    show "length (rm_files m') = RAMFS_MAX_OPEN_FILES" using ramfs_okD(4) [OF ok] nodes(2) by simp
    fix f assume f: "f \<in> set (rm_files m')" "rf_active f"
    then obtain k y where k: "rf_node f = Some k" "N k = Some y" "\<not> rn_is_dir y"
      using open_file [OF ok, of f] nodes(2) by (auto simp: N_def)
    then have "\<exists>w. (N(n \<mapsto> z)) k = Some w \<and> \<not> rn_is_dir w"
      using n(2) by (cases "k = n") (simp_all add: z_def)
    then show "\<exists>n x. rf_node f = Some n \<and> rm_nodes m' n = Some x \<and> \<not> rn_is_dir x"
      unfolding nodes using k(1) by blast
  qed
  have "view (N(n \<mapsto> z)) mem = (view N (rm_mem m))(n \<mapsto> File (content mem z))"
    by (rule view_data [OF tree n'(1,2)]) (use n'(2) same in \<open>simp_all add: z_def N_def\<close>)
  moreover have "content mem z = content mem x" by (simp add: z_def content_def split: option.split)
  ultimately show "inodes m' = (inodes m)(n \<mapsto> File (content mem x))"
    unfolding nodes by (simp add: N_def)
qed

lemma mem_write_content:
  assumes "rn_data x = Some p" "pos + length bs \<le> rn_size x"
  shows "content (mem_write mem (p + pos) bs) x = overwrite pos bs (content mem x)"
proof -
  define rest where "rest = rn_size x - pos - length bs"
  let ?mem = "mem_write mem (p + pos) bs"
  have "content ?mem x = mem_read ?mem p (pos + (length bs + rest))"
    using assms by (simp add: content_def rest_def)
  also have "\<dots> = mem_read ?mem p pos @ mem_read ?mem (p + pos) (length bs) @ mem_read ?mem (p + pos + length bs) rest"
    by (simp only: mem_read_append)
  also have "mem_read ?mem p pos = mem_read mem p pos"
    by (rule mem_read_cong) (simp add: mem_write_outside)
  also have "mem_read ?mem (p + pos) (length bs) = bs" by (simp add: mem_read_write)
  also have "mem_read ?mem (p + pos + length bs) rest = mem_read mem (p + pos + length bs) rest"
    by (rule mem_read_cong) (simp add: mem_write_outside)
  finally show ?thesis
    using assms by (simp add: content_def overwrite_def resized_def mem_read_def take_map drop_map take_upt
      drop_upt max_def rest_def add.assoc)
qed

lemma poke_ok:
  fixes now :: int
  assumes ok: "ramfs_ok m" and n: "rm_nodes m n = Some x" "\<not> rn_is_dir x" "rn_data x = Some p"
    and len: "pos + length bs \<le> rn_size x"
  defines "m' \<equiv> m\<lparr>rm_mem := mem_write (rm_mem m) (p + pos) bs, rm_nodes := (rm_nodes m)(n \<mapsto> x\<lparr>rn_mtime := now\<rparr>)\<rparr>"
  shows "ramfs_ok m'" and "inodes m' = (inodes m)(n \<mapsto> File (overwrite pos bs (content (rm_mem m) x)))"
proof -
  note d = data_node [OF tree_butD [OF ramfs_okD(2) [OF ok] n(1)]]
  have same: "mem_read (mem_write (rm_mem m) (p + pos) bs) q l = mem_read (rm_mem m) q l"
    if k: "k \<noteq> n" "owned (rm_nodes m) (Own_data k) = Some (q, l)" for k q l
  proof -
    have "p + rn_capacity x \<le> q \<or> q + l \<le> p"
      using owners_apart [OF ramfs_okD(1) [OF ok], of "Own_data n" p "rn_capacity x" "Own_data k" q l] k n by simp
    then show ?thesis using len d(2) by (intro mem_read_cong mem_write_outside) auto
  qed
  show "ramfs_ok m'" unfolding m'_def by (rule touch_ok(1) [OF ok n(1,2) same])
  show "inodes m' = (inodes m)(n \<mapsto> File (overwrite pos bs (content (rm_mem m) x)))"
    using touch_ok(2) [OF ok n(1,2) same] mem_write_content [OF n(3) len] by (simp add: m'_def)
qed

lemma overwrite_resized:
  "length bs = sz \<Longrightarrow> overwrite pos bs (resized (max (pos + sz) (length c)) c) = overwrite pos bs c"
  unfolding overwrite_def resized_def by (auto simp: max_def)

lemma overwrite_nothing: "pos \<le> length c \<Longrightarrow> overwrite pos [] c = c"
  by (simp add: overwrite_def resized_def max_absorb2)

lemma resized_length [simp]: "length (resized n c) = n" "resized (length c) c = c"
  by (simp_all add: resized_def)

lemma write_ok:
  assumes ok: "ramfs_ok m" and on: "open_on m fd n c f" and wr: "ramfs_vfs_write m fd data sz now = (res, m')"
  defines "pos \<equiv> if rf_flags f AND O_APPEND \<noteq> 0 then length c else rf_offset f"
  defines "bs \<equiv> case data of None \<Rightarrow> [] | Some b \<Rightarrow> take sz b"
  obtains (failed) err where "res = Inl err" "ramfs_ok m'" "inodes m' = inodes m"
    "m' = m \<or> m' = upd_file (nat fd) (\<lambda>f. f\<lparr>rf_offset := pos\<rparr>) m"
  | (written) "res = Inr sz" "ramfs_ok m'" "rm_files m' = (rm_files m)[nat fd := f\<lparr>rf_offset := pos + sz\<rparr>]"
      "rf_flags f AND O_ACCMODE \<noteq> 0"
      "inodes m' = (inodes m)(n \<mapsto> File (overwrite pos bs (resized (max (pos + sz) (length c)) c)))"
proof -
  note d = open_onD [OF ok on]
  show ?thesis
  proof (cases "(data = None \<and> 0 < sz) \<or> rf_flags f AND O_ACCMODE = 0")
    case True
    then obtain err where "res = Inl err" "m' = m"
      using wr d(1,2) by (auto simp: ramfs_vfs_write_def split: if_splits)
    then show ?thesis using failed ok by blast
  next
    case False
    define m2 where "m2 = (if rf_flags f AND O_APPEND \<noteq> 0 then upd_file (nat fd) (\<lambda>f. f\<lparr>rf_offset := pos\<rparr>) m else m)"
    have file2: "rm_files m2 = (rm_files m)[nat fd := f\<lparr>rf_offset := pos\<rparr>]"
      using d(2) by (auto simp: m2_def upd_file_def pos_def)
    have m2: "ramfs_ok m2" "inodes m2 = inodes m" "rm_nodes m2 = rm_nodes m"
      using ok ramfs_ok_upd_file [OF ok, of "\<lambda>f. f\<lparr>rf_offset := pos\<rparr>" "nat fd"] d(2,3,5)
      by (auto simp: m2_def upd_file_def)
    have off2: "rf_offset (rm_files m2 ! nat fd) = pos" using file2 d(7) by simp
    show ?thesis
    proof (cases "SIZE_MAX - pos < sz")
      case True
      have "res = Inl EFBIG \<and> m' = m2"
        using wr d(1-3,6,9) False True off2
        by (auto simp: ramfs_vfs_write_def m2_def Let_def pos_def split: if_splits)
      then show ?thesis using failed m2 by (auto simp: m2_def)
    next
      case fits: False
      obtain r m3 where re: "(if rn_capacity (node m2 n) < pos + sz then ramfs_resize_node m2 n (pos + sz) now
          else (None, m2)) = (r, m3)" by (cases "if rn_capacity (node m2 n) < pos + sz
          then ramfs_resize_node m2 n (pos + sz) now else (None, m2)")
      have m2': "(if rf_flags f AND O_APPEND \<noteq> 0
          then upd_file (nat fd) (\<lambda>f. f\<lparr>rf_offset := rn_size (node m n)\<rparr>) m else m) = m2"
        by (simp add: m2_def pos_def d(9))
      define m4 where "m4 = (case (rn_data (node m3 n), data) of
          (Some p, Some b) \<Rightarrow> m3\<lparr>rm_mem := mem_write (rm_mem m3) (p + pos) (take sz b)\<rparr> | _ \<Rightarrow> m3)"
      have eq: "(res, m') = (case r of Some err \<Rightarrow> (Inl err, m3) | None \<Rightarrow>
          (Inr sz, upd_node n (\<lambda>x. x\<lparr>rn_size := (if rn_size x < pos + sz then pos + sz else rn_size x), rn_mtime := now\<rparr>)
             (upd_file (nat fd) (\<lambda>f. f\<lparr>rf_offset := pos + sz\<rparr>) m4)))"
        unfolding wr [symmetric] ramfs_vfs_write_def d(1) sum.case Let_def d(2,3) option.sel d(6) [unfolded d(3)] m2' off2
          re m4_def
        using False fits by (auto split: option.split)
      have grown: "length c = rn_capacity (node m2 n)" using m2(3) d(10) by simp
      show ?thesis
      proof (cases "r = None")
        case False
        then obtain err where err: "r = Some err" by blast
        then have re': "ramfs_resize_node m2 n (pos + sz) now = (Some err, m3)" using re by (auto split: if_splits)
        have "m3 = m2"
          by (rule resize_node_ok [OF m2(1) _ re', of c]) (use m2(2) d(5) in simp_all)
        then show ?thesis using eq err failed [of err] m2 by (auto simp: m2_def)
      next
        case None: True
        define c3 where "c3 = resized (max (pos + sz) (length c)) c"
        have m3: "ramfs_ok m3 \<and> inodes m3 = (inodes m)(n \<mapsto> File c3) \<and> rm_files m3 = rm_files m2"
        proof (cases "length c < pos + sz")
          case True
          then have re': "ramfs_resize_node m2 n (pos + sz) now = (None, m3)" using re None grown by simp
          show ?thesis
            by (rule resize_node_ok [OF m2(1) _ re', of c]) (use m2(2) d(5) True in \<open>simp_all add: c3_def max_absorb1\<close>)
        next
          case False
          then have "m3 = m2" using re by (simp add: grown)
          moreover have "c3 = c" using False by (simp add: c3_def max_absorb2)
          ultimately show ?thesis using m2(1,2) d(5) by (simp add: fun_upd_idem)
        qed
        then obtain x3 where x3: "rm_nodes m3 n = Some x3" "\<not> rn_is_dir x3" "c3 = content (rm_mem m3) x3"
          by (metis fun_upd_same view_Some(2))
        note d3 = data_node [OF tree_butD [OF ramfs_okD(2) [OF m3 [THEN conjunct1]] x3(1)]]
        have "length c3 = max (pos + sz) (length c)" by (simp add: c3_def)
        then have room: "pos + sz \<le> rn_size x3" using d3(1) [of "rm_mem m3"] x3(3) by simp
        have bs: "length bs \<le> sz" by (simp add: bs_def split: option.split)
        define mem where "mem = rm_mem m4"
        have m4: "m4 = m3\<lparr>rm_mem := mem\<rparr>" by (simp add: mem_def m4_def split: option.split)
        define m5 where "m5 = m3\<lparr>rm_mem := mem, rm_nodes := (rm_nodes m3)(n \<mapsto> x3\<lparr>rn_mtime := now\<rparr>)\<rparr>"
        have m': "res = Inr sz" "m' = upd_file (nat fd) (\<lambda>f. f\<lparr>rf_offset := pos + sz\<rparr>) m5"
          using eq None room x3(1) by (simp_all add: m4 m5_def upd_node_def upd_file_def)
        have m5: "ramfs_ok m5 \<and> inodes m5 = (inodes m3)(n \<mapsto> File (overwrite pos bs c3))"
        proof (cases "rn_data x3 = None \<or> data = None")
          case True
          have "rn_data x3 = None \<Longrightarrow> sz = 0" using room d3(3) by simp
          then have idle: "bs = [] \<and> mem = rm_mem m3"
            using True x3(1) by (cases "rn_data x3"; cases data) (auto simp: bs_def mem_def m4_def)
          have "overwrite pos bs c3 = content (rm_mem m3) x3"
            using overwrite_nothing [of pos c3] room d3(1) [of "rm_mem m3"] x3(3) idle by simp
          then show ?thesis
            using touch_ok [OF m3 [THEN conjunct1] x3(1,2), of "rm_mem m3" now] idle by (simp add: m5_def)
        next
          case False
          then obtain p b where pb: "rn_data x3 = Some p" "data = Some b" by auto
          then have "mem = mem_write (rm_mem m3) (p + pos) bs" using x3(1) by (simp add: mem_def m4_def bs_def)
          then show ?thesis
            using poke_ok [OF m3 [THEN conjunct1] x3(1,2) pb(1), of pos bs now] room bs x3(3) by (simp add: m5_def)
        qed
        have files5: "rm_files m5 = rm_files m2" using m3 by (simp add: m5_def)
        have ok': "ramfs_ok m'" unfolding m'(2)
          by (rule ramfs_ok_upd_file [OF m5 [THEN conjunct1]]) (use m5 m3 d(3,7) in \<open>simp add: files5 file2\<close>)
        show ?thesis
        proof (rule written [OF m'(1) ok'])
          show "rm_files m' = (rm_files m)[nat fd := f\<lparr>rf_offset := pos + sz\<rparr>]"
            using d(7) by (simp add: m'(2) upd_file_def files5 file2)
          show "rf_flags f AND O_ACCMODE \<noteq> 0" using \<open>\<not> (data = None \<and> 0 < sz \<or> _)\<close> by simp
          show "inodes m' = (inodes m)(n \<mapsto> File (overwrite pos bs (resized (max (pos + sz) (length c)) c)))"
            unfolding m'(2) using m5 m3 by (simp add: c3_def)
        qed
      qed
    qed
  qed
qed

section \<open>Names\<close>

datatype name_call =
    Mkdir "string option" | Rmdir "string option" | Unlink "string option"
  | Rename "string option" "string option" | Truncate "string option" int

fun name_do :: "name_call \<Rightarrow> int \<Rightarrow> ramfs_mount \<Rightarrow> (ramfs_errno + unit) \<times> ramfs_mount" where
  "name_do (Mkdir path) now m = ramfs_vfs_mkdir m path now"
| "name_do (Rmdir path) now m = ramfs_vfs_rmdir m path"
| "name_do (Unlink path) now m = ramfs_vfs_unlink m path"
| "name_do (Rename src dst) now m = ramfs_vfs_rename m src dst now"
| "name_do (Truncate path len) now m = ramfs_vfs_truncate m path len now"

text \<open>The table of inodes after a call that succeeds.\<close>

fun name_effect :: "ramfs_mount \<Rightarrow> name_call \<Rightarrow> (nat \<rightharpoonup> inode) \<Rightarrow> bool" where
  "name_effect m (Mkdir path) I' \<longleftrightarrow>
     (\<exists>q s es n. ramfs_resolve_parent m path = Inr (q, s) \<and> inodes m q = Some (Dir es) \<and> es s = None
        \<and> inodes m n = None \<and> I' = (inodes m)(n \<mapsto> Dir Map.empty, q \<mapsto> Dir (es(s \<mapsto> n))))"
| "name_effect m (Rmdir path) I' \<longleftrightarrow>
     (\<exists>n p s es. ramfs_find_node m path = Inr n \<and> inodes m n = Some (Dir Map.empty)
        \<and> inodes m p = Some (Dir es) \<and> es s = Some n \<and> I' = (inodes m)(p \<mapsto> Dir (es(s := None)), n := None))"
| "name_effect m (Unlink path) I' \<longleftrightarrow>
     (\<exists>n c p s es. ramfs_find_node m path = Inr n \<and> inodes m n = Some (File c) \<and> \<not> ramfs_node_is_open m n
        \<and> inodes m p = Some (Dir es) \<and> es s = Some n \<and> I' = (inodes m)(p \<mapsto> Dir (es(s := None)), n := None))"
| "name_effect m (Rename src dst) I' \<longleftrightarrow>
     (\<exists>n q s es p old ep. ramfs_find_node m src = Inr n \<and> ramfs_resolve_parent m dst = Inr (q, s)
        \<and> inodes m q = Some (Dir es) \<and> es s = None \<and> inodes m p = Some (Dir ep) \<and> ep old = Some n
        \<and> I' = moved_inodes p old q s n (inodes m))"
| "name_effect m (Truncate path len) I' \<longleftrightarrow>
     (\<exists>n c. 0 \<le> len \<and> ramfs_find_node m path = Inr n \<and> inodes m n = Some (File c)
        \<and> I' = (inodes m)(n \<mapsto> File (resized (nat len) c)))"

definition name_outcome ::
  "ramfs_mount \<Rightarrow> name_call \<Rightarrow> ramfs_errno + unit \<Rightarrow> ramfs_mount \<Rightarrow> bool" where
  "name_outcome m c res m' \<longleftrightarrow>
     ramfs_ok m' \<and> rm_files m' = rm_files m
     \<and> (case res of Inl _ \<Rightarrow> inodes m' = inodes m | Inr _ \<Rightarrow> name_effect m c (inodes m'))"

lemma outcome_error [simp]: "ramfs_ok m \<Longrightarrow> name_outcome m c (Inl err) m"
  by (simp add: name_outcome_def)

lemma find_child_inodes:
  "inodes m q = Some (Dir es) \<Longrightarrow> ramfs_find_child m q s = es s"
  by (auto simp: view_Some find_child_entries)

lemma mkdir_outcome:
  assumes ok: "ramfs_ok m" and call: "ramfs_vfs_mkdir m path now = (res, m')"
  shows "name_outcome m (Mkdir path) res m'"
proof (cases "ramfs_resolve_parent m path")
  case (Inl err)
  then show ?thesis using call ok by (auto simp: ramfs_vfs_mkdir_def)
next
  case (Inr qs)
  then obtain q s where r: "ramfs_resolve_parent m path = Inr (q, s)" by (cases qs) simp
  obtain es where q: "inodes m q = Some (Dir es)" "name_ok s" using resolve_parent_live [OF ok r] by blast
  show ?thesis
  proof (cases "es s")
    case (Some c)
    then show ?thesis using call r ok find_child_inodes [OF q(1), of s] by (auto simp: ramfs_vfs_mkdir_def)
  next
    case None
    obtain r1 m1 where a: "ramfs_alloc_node m q s True now = (r1, m1)" by (cases "ramfs_alloc_node m q s True now")
    have res: "res = map_sum (\<lambda>x. x) (\<lambda>_. ()) r1" "m' = m1"
      using call r None find_child_inodes [OF q(1), of s] a by (auto simp: ramfs_vfs_mkdir_def split: sum.splits)
    show ?thesis
    proof (rule alloc_node_ok [OF ok q None a])
      fix err bs assume "r1 = Inl err" "m1 = m\<lparr>rm_blocks := bs\<rparr>" "ramfs_ok m1"
      then show ?thesis using res by (simp add: name_outcome_def)
    next
      fix n assume n: "r1 = Inr n" "ramfs_ok m1" "inodes m n = None" "rm_files m1 = rm_files m"
        "inodes m1 = (inodes m)(n \<mapsto> if True then Dir Map.empty else File [], q \<mapsto> Dir (es(s \<mapsto> n)))"
      have "name_effect m (Mkdir path) (inodes m1)" using r q(1) None n(3,5) by auto
      then show ?thesis using res n(1,2,4) by (simp add: name_outcome_def)
    qed
  qed
qed

lemma removal_outcome:
  assumes ok: "ramfs_ok m" and n: "rm_nodes m n = Some x" "n \<noteq> RAMFS_ROOT" "rn_children x = []"
    and closed: "\<not> ramfs_node_is_open m n"
  shows "\<exists>p s es. ramfs_ok (free_tree (ramfs_unlink_node m n) n)
    \<and> rm_files (free_tree (ramfs_unlink_node m n) n) = rm_files m
    \<and> inodes m p = Some (Dir es) \<and> es s = Some n
    \<and> inodes (free_tree (ramfs_unlink_node m n) n) = (inodes m)(p \<mapsto> Dir (es(s := None)), n := None)"
  by (rule remove_node_ok [OF ok n closed]) blast

lemma rmdir_outcome:
  assumes ok: "ramfs_ok m" and call: "ramfs_vfs_rmdir m path = (res, m')"
  shows "name_outcome m (Rmdir path) res m'"
proof (cases "ramfs_find_node m path")
  case (Inl err)
  then show ?thesis using call ok by (auto simp: ramfs_vfs_rmdir_def)
next
  case (Inr n)
  obtain x where x: "rm_nodes m n = Some x" using find_node_live [OF ok Inr] by blast
  show ?thesis
  proof (cases "n \<noteq> RAMFS_ROOT \<and> rn_is_dir x \<and> rn_children x = []")
    case False
    then show ?thesis using call ok Inr x by (auto simp: ramfs_vfs_rmdir_def split: if_splits)
  next
    case True
    have "\<not> ramfs_node_is_open m n"
      using open_file [OF ok] x True by (fastforce simp: ramfs_node_is_open_def list_ex_iff)
    then obtain p s es where r: "ramfs_ok (free_tree (ramfs_unlink_node m n) n)"
      "rm_files (free_tree (ramfs_unlink_node m n) n) = rm_files m" "inodes m p = Some (Dir es)" "es s = Some n"
      "inodes (free_tree (ramfs_unlink_node m n) n) = (inodes m)(p \<mapsto> Dir (es(s := None)), n := None)"
      using removal_outcome [OF ok x] True by blast
    have "inodes m n = Some (Dir Map.empty)" using x True by (auto simp: view_def entries_def)
    then have "name_effect m (Rmdir path) (inodes (free_tree (ramfs_unlink_node m n) n))"
      using Inr r(3-5) by auto
    moreover have "res = Inr ()" "m' = free_tree (ramfs_unlink_node m n) n"
      using call Inr x True by (simp_all add: ramfs_vfs_rmdir_def Let_def)
    ultimately show ?thesis using r(1,2) by (simp add: name_outcome_def)
  qed
qed

lemma unlink_outcome:
  assumes ok: "ramfs_ok m" and call: "ramfs_vfs_unlink m path = (res, m')"
  shows "name_outcome m (Unlink path) res m'"
proof (cases "ramfs_find_node m path")
  case (Inl err)
  then show ?thesis using call ok by (auto simp: ramfs_vfs_unlink_def)
next
  case (Inr n)
  obtain x where x: "rm_nodes m n = Some x" using find_node_live [OF ok Inr] by blast
  show ?thesis
  proof (cases "rn_is_dir x \<or> ramfs_node_is_open m n")
    case True
    then show ?thesis using call ok Inr x by (auto simp: ramfs_vfs_unlink_def split: if_splits)
  next
    case False
    have "n \<noteq> RAMFS_ROOT" using root_node [OF ramfs_okD(2) [OF ok]] x False by (intro notI) auto
    moreover have "rn_children x = []"
      using node_record [OF tree_butD [OF ramfs_okD(2) [OF ok] x]] False by (simp add: record_ok_def)
    ultimately obtain p s es where r: "ramfs_ok (free_tree (ramfs_unlink_node m n) n)"
      "rm_files (free_tree (ramfs_unlink_node m n) n) = rm_files m" "inodes m p = Some (Dir es)" "es s = Some n"
      "inodes (free_tree (ramfs_unlink_node m n) n) = (inodes m)(p \<mapsto> Dir (es(s := None)), n := None)"
      using removal_outcome [OF ok x] False by blast
    have "inodes m n = Some (File (content (rm_mem m) x))" using x False by (simp add: view_def)
    then have "name_effect m (Unlink path) (inodes (free_tree (ramfs_unlink_node m n) n))"
      using Inr r(3-5) False by auto
    moreover have "res = Inr ()" "m' = free_tree (ramfs_unlink_node m n) n"
      using call Inr x False by (simp_all add: ramfs_vfs_unlink_def Let_def)
    ultimately show ?thesis using r(1,2) by (simp add: name_outcome_def)
  qed
qed

lemma rename_outcome:
  assumes ok: "ramfs_ok m" and call: "ramfs_vfs_rename m src dst now = (res, m')"
  shows "name_outcome m (Rename src dst) res m'"
proof -
  consider (err) err where "res = Inl err" "m' = m"
    | (go) n q s where "ramfs_find_node m src = Inr n" "n \<noteq> RAMFS_ROOT" "ramfs_resolve_parent m dst = Inr (q, s)"
        "ramfs_find_child m q s = None"
    using call by (auto simp: ramfs_vfs_rename_def split: sum.splits if_splits)
  then show ?thesis
  proof cases
    case err
    then show ?thesis using ok by simp
  next
    case go
    obtain x where x: "rm_nodes m n = Some x" using find_node_live [OF ok go(1)] by blast
    obtain es where q: "inodes m q = Some (Dir es)" "name_ok s" using resolve_parent_live [OF ok go(3)] by blast
    then have free: "es s = None" using find_child_inodes [OF q(1), of s] go(4) by simp
    obtain r1 m1 where a: "mount_alloc m (length s + 1) = (r1, m1)" by (cases "mount_alloc m (length s + 1)")
    show ?thesis
    proof (cases r1)
      case (Inl err)
      then have "m1 = m" by (rule_tac mount_alloc_ok [OF ramfs_okD(1) [OF ok] a]) simp_all
      then show ?thesis using call go a Inl ok by (auto simp: ramfs_vfs_rename_def)
    next
      case (Inr new)
      note moved = move_node_ok [OF ok x go(2) q(1) free q(2) a [unfolded Inr], of now]
      have res: "res = Inr ()"
        "m' = upd_node n (\<lambda>x. x\<lparr>rn_mtime := now\<rparr>)
          (upd_node q (\<lambda>p. p\<lparr>rn_children := n # rn_children p\<rparr>)
            (upd_node n (\<lambda>x. x\<lparr>rn_name := s, rn_name_ptr := Some new, rn_parent := Some q\<rparr>)
              (mount_free (ramfs_unlink_node m1 n) (rn_name_ptr (node (ramfs_unlink_node m1 n) n)))))"
        using call go a Inr by (auto simp: ramfs_vfs_rename_def Let_def)
      show ?thesis
        by (rule moved, unfold res(2) [symmetric])
          (use res(1) go q(1) free in \<open>simp add: name_outcome_def, blast\<close>)
    qed
  qed
qed

lemma truncate_outcome:
  assumes ok: "ramfs_ok m" and call: "ramfs_vfs_truncate m path len now = (res, m')"
  shows "name_outcome m (Truncate path len) res m'"
proof (cases "len < 0")
  case True
  then show ?thesis using call ok by (auto simp: ramfs_vfs_truncate_def)
next
  case pos: False
  show ?thesis
  proof (cases "ramfs_find_node m path")
    case (Inl err)
    then show ?thesis using call ok pos by (auto simp: ramfs_vfs_truncate_def)
  next
    case (Inr n)
    obtain x where x: "rm_nodes m n = Some x" using find_node_live [OF ok Inr] by blast
    show ?thesis
    proof (cases "rn_is_dir x")
      case True
      then show ?thesis using call ok pos Inr x by (auto simp: ramfs_vfs_truncate_def ramfs_resize_node_def)
    next
      case False
      define c where "c = content (rm_mem m) x"
      have n: "inodes m n = Some (File c)" using x False by (simp add: view_def c_def)
      obtain r m1 where re: "ramfs_resize_node m n (nat len) now = (r, m1)" by (cases "ramfs_resize_node m n (nat len) now")
      have res: "(res, m') = (case r of Some err \<Rightarrow> (Inl err, m1) | None \<Rightarrow> (Inr (), m1))"
        using call pos Inr re by (simp add: ramfs_vfs_truncate_def)
      show ?thesis
      proof (rule resize_node_ok [OF ok n re])
        fix err assume "r = Some err" "m1 = m"
        then show ?thesis using res ok by simp
      next
        assume "r = None" "ramfs_ok m1" "inodes m1 = (inodes m)(n \<mapsto> File (resized (nat len) c))" "rm_files m1 = rm_files m"
        then show ?thesis using res Inr n pos by (auto simp: name_outcome_def)
      qed
    qed
  qed
qed

lemma name_call_outcome:
  assumes "ramfs_ok m" "name_do c now m = (res, m')"
  shows "name_outcome m c res m'"
  using assms
  by (cases c) (simp_all add: mkdir_outcome rmdir_outcome unlink_outcome rename_outcome truncate_outcome)

section \<open>Opening, seeking and closing\<close>

definition opened :: "nat \<Rightarrow> u8 list \<Rightarrow> u32 \<Rightarrow> ramfs_file" where
  "opened n c flags =
     \<lparr>rf_active = True, rf_node = Some n,
      rf_offset = (if flags AND O_APPEND \<noteq> 0 then length c else 0), rf_flags = flags\<rparr>"

lemma allocate_fd_ok:
  assumes ok: "ramfs_ok m" and n: "inodes m n = Some (File c)" and al: "ramfs_allocate_fd m n flags = (res, m')"
  obtains (full) "res = Inl EMFILE" "m' = m" "\<forall>f \<in> set (rm_files m). rf_active f"
  | (got) fd where "res = Inr fd" "ramfs_ok m'" "inodes m' = inodes m" "\<not> rf_active (rm_files m ! fd)"
      "open_on m' (int fd) n c (opened n c flags)"
      "\<And>k. k \<noteq> fd \<Longrightarrow> rm_files m' ! k = rm_files m ! k"
proof (cases "first_index (\<lambda>f. \<not> rf_active f) (rm_files m)")
  case None
  then have "\<forall>f \<in> set (rm_files m). rf_active f" by (simp add: first_index_None)
  then show ?thesis using None al by (intro full) (auto simp: ramfs_allocate_fd_def)
next
  case (Some fd)
  note fd = first_indexD [OF Some]
  obtain x where x: "rm_nodes m n = Some x" "\<not> rn_is_dir x" "c = content (rm_mem m) x" using n by (auto simp: view_Some)
  note d = data_node [OF tree_butD [OF ramfs_okD(2) [OF ok] x(1)]]
  define f where "f = opened n c flags"
  have m': "res = Inr fd" "m' = upd_file fd (\<lambda>_. f) m"
    using al Some x d(1) [of "rm_mem m"] by (auto simp: ramfs_allocate_fd_def f_def opened_def)
  have "ramfs_ok m'" unfolding m'(2) by (rule ramfs_ok_upd_file [OF ok]) (use n in \<open>simp add: f_def opened_def\<close>)
  moreover have "open_on m' (int fd) n c f"
    using fd(1) n ramfs_okD(4) [OF ok] by (simp add: open_on_def m'(2) upd_file_def f_def opened_def)
  ultimately show ?thesis using m' fd(2) by (intro got [of fd]) (simp_all add: f_def upd_file_def)
qed

text \<open>
  The table of inodes after the file was found or created, and truncated if that is asked for. The
  call still fails when no descriptor is left.
\<close>

definition open_effect :: "ramfs_mount \<Rightarrow> string option \<Rightarrow> u32 \<Rightarrow> nat \<Rightarrow> u8 list \<Rightarrow> (nat \<rightharpoonup> inode) \<Rightarrow> bool" where
  "open_effect m path flags n c I' \<longleftrightarrow>
     (case ramfs_find_node m path of
        Inr k \<Rightarrow> k = n \<and> (flags AND O_CREAT = 0 \<or> flags AND O_EXCL = 0)
          \<and> (if flags AND O_TRUNC \<noteq> 0 \<and> flags AND O_ACCMODE \<noteq> 0
             then c = [] \<and> (\<exists>c0. inodes m n = Some (File c0)) else inodes m n = Some (File c))
          \<and> I' = (inodes m)(n \<mapsto> File c)
      | Inl _ \<Rightarrow> flags AND O_CREAT \<noteq> 0 \<and> c = []
          \<and> (\<exists>q s es. ramfs_resolve_parent m path = Inr (q, s) \<and> inodes m q = Some (Dir es) \<and> es s = None
                \<and> inodes m n = None \<and> I' = (inodes m)(n \<mapsto> File [], q \<mapsto> Dir (es(s \<mapsto> n)))))"

lemma open_finish:
  assumes ok: "ramfs_ok m1" and n: "inodes m1 n = Some (File c1)"
    and call: "(res, m') = (if flags AND O_TRUNC \<noteq> 0 \<and> flags AND O_ACCMODE \<noteq> 0
          then (case ramfs_resize_node m1 n 0 now of
                  (Some err, m2) \<Rightarrow> (Inl err, m2)
                | (None, m2) \<Rightarrow> ramfs_allocate_fd m2 n flags)
          else ramfs_allocate_fd m1 n flags)"
  defines "c \<equiv> if flags AND O_TRUNC \<noteq> 0 \<and> flags AND O_ACCMODE \<noteq> 0 then [] else c1"
  shows "ramfs_ok m' \<and> (case res of
      Inl err \<Rightarrow> rm_files m' = rm_files m1 \<and> (inodes m' = (inodes m1)(n \<mapsto> File c) \<or> inodes m' = inodes m1)
    | Inr fd \<Rightarrow> inodes m' = (inodes m1)(n \<mapsto> File c) \<and> \<not> rf_active (rm_files m1 ! fd)
        \<and> open_on m' (int fd) n c (opened n c flags)
        \<and> (\<forall>k. k \<noteq> fd \<longrightarrow> rm_files m' ! k = rm_files m1 ! k))"
proof (cases "flags AND O_TRUNC \<noteq> 0 \<and> flags AND O_ACCMODE \<noteq> 0")
  case True
  obtain r m2 where re: "ramfs_resize_node m1 n 0 now = (r, m2)" by (cases "ramfs_resize_node m1 n 0 now")
  show ?thesis
  proof (rule resize_node_ok [OF ok n re])
    fix err assume "r = Some err" "m2 = m1"
    then show ?thesis using call True re ok by simp
  next
    assume m2: "r = None" "ramfs_ok m2" "inodes m2 = (inodes m1)(n \<mapsto> File (resized 0 c1))" "rm_files m2 = rm_files m1"
    then have al: "ramfs_allocate_fd m2 n flags = (res, m')" using call True re by simp
    have c: "resized 0 c1 = c" using True by (simp add: resized_def c_def)
    show ?thesis
      by (rule allocate_fd_ok [OF m2(2) _ al, of c]) (use m2 c in auto)
  qed
next
  case False
  then have al: "ramfs_allocate_fd m1 n flags = (res, m')" "c = c1" using call unfolding c_def if_not_P [OF False] by simp_all
  have same: "(inodes m1)(n \<mapsto> File c1) = inodes m1" using n by (rule fun_upd_idem)
  show ?thesis
    by (rule allocate_fd_ok [OF ok n al(1)]) (use ok al(2) same in auto)
qed

lemma open_ok:
  assumes ok: "ramfs_ok m" and call: "ramfs_vfs_open m path flags now = (res, m')"
  shows "ramfs_ok m' \<and> (case res of
      Inl err \<Rightarrow> rm_files m' = rm_files m \<and> (inodes m' = inodes m \<or> (\<exists>n c. open_effect m path flags n c (inodes m')))
    | Inr fd \<Rightarrow> \<exists>n c. open_effect m path flags n c (inodes m') \<and> \<not> rf_active (rm_files m ! fd)
        \<and> open_on m' (int fd) n c (opened n c flags)
        \<and> (\<forall>k. k \<noteq> fd \<longrightarrow> rm_files m' ! k = rm_files m ! k))"
proof (cases "ramfs_find_node m path")
  case (Inr n)
  obtain x where x: "rm_nodes m n = Some x" using find_node_live [OF ok Inr] by blast
  show ?thesis
  proof (cases "(flags AND O_CREAT \<noteq> 0 \<and> flags AND O_EXCL \<noteq> 0) \<or> rn_is_dir x")
    case True
    then show ?thesis using call Inr x ok by (auto simp: ramfs_vfs_open_def split: if_splits)
  next
    case False
    then obtain c1 where n: "inodes m n = Some (File c1)" using x by (simp add: view_def)
    have call': "(res, m') = (if flags AND O_TRUNC \<noteq> 0 \<and> flags AND O_ACCMODE \<noteq> 0
          then (case ramfs_resize_node m n 0 now of
                  (Some err, m2) \<Rightarrow> (Inl err, m2)
                | (None, m2) \<Rightarrow> ramfs_allocate_fd m2 n flags)
          else ramfs_allocate_fd m n flags)"
      unfolding call [symmetric] using Inr x False by (auto simp: ramfs_vfs_open_def)
    define c where "c = (if flags AND O_TRUNC \<noteq> 0 \<and> flags AND O_ACCMODE \<noteq> 0 then [] else c1)"
    have "open_effect m path flags n c ((inodes m)(n \<mapsto> File c))"
      using Inr False n by (simp add: open_effect_def c_def)
    then show ?thesis
      using open_finish [OF ok n call', folded c_def] by (auto split: sum.splits)
  qed
next
  case nf: (Inl err0)
  show ?thesis
  proof (cases "flags AND O_CREAT \<noteq> 0 \<and> (\<exists>q s. ramfs_resolve_parent m path = Inr (q, s) \<and> ramfs_find_child m q s = None)")
    case False
    then have "(\<exists>err. res = Inl err) \<and> m' = m"
      using call nf by (auto simp: ramfs_vfs_open_def split: sum.splits if_splits) (metis nf)+
    then show ?thesis using ok by auto
  next
    case True
    then obtain q s where r: "ramfs_resolve_parent m path = Inr (q, s)" "ramfs_find_child m q s = None" by blast
    obtain es where q: "inodes m q = Some (Dir es)" "name_ok s" using resolve_parent_live [OF ok r(1)] by blast
    then have free: "es s = None" using find_child_inodes [OF q(1), of s] r(2) by simp
    obtain r1 m1 where a: "ramfs_alloc_node m q s False now = (r1, m1)" by (cases "ramfs_alloc_node m q s False now")
    show ?thesis
    proof (rule alloc_node_ok [OF ok q(1,2) free a])
      fix err bs assume "r1 = Inl err" "m1 = m\<lparr>rm_blocks := bs\<rparr>" "ramfs_ok m1"
      moreover from this have "res = Inl err \<and> m' = m1" using call nf True r a by (simp add: ramfs_vfs_open_def)
      ultimately show ?thesis by simp
    next
      fix n assume n: "r1 = Inr n" "ramfs_ok m1" "inodes m n = None" "rm_files m1 = rm_files m"
        "inodes m1 = (inodes m)(n \<mapsto> if False then Dir Map.empty else File [], q \<mapsto> Dir (es(s \<mapsto> n)))"
      have "n \<noteq> q" using n(3) q(1) by auto
      then have empty: "inodes m1 n = Some (File [])" using n(5) by simp
      then have "\<not> rn_is_dir (node m1 n)" by (auto simp: view_Some)
      then have call': "(res, m') = (if flags AND O_TRUNC \<noteq> 0 \<and> flags AND O_ACCMODE \<noteq> 0
            then (case ramfs_resize_node m1 n 0 now of
                    (Some err, m2) \<Rightarrow> (Inl err, m2)
                  | (None, m2) \<Rightarrow> ramfs_allocate_fd m2 n flags)
            else ramfs_allocate_fd m1 n flags)"
        unfolding call [symmetric] using nf True r a n(1) by (auto simp: ramfs_vfs_open_def)
      have "open_effect m path flags n [] (inodes m1)"
        using nf True r(1) q(1) free n(3,5) by (auto simp: open_effect_def)
      moreover have "(inodes m1)(n \<mapsto> File []) = inodes m1" using empty by (rule fun_upd_idem)
      ultimately show ?thesis
        using open_finish [OF n(2) empty call'] n(4) by (auto split: sum.splits)
    qed
  qed
qed

section \<open>Any sequence of calls\<close>

lemma close_ok: "ramfs_ok m \<Longrightarrow> ramfs_ok (snd (ramfs_vfs_close m fd)) \<and> inodes (snd (ramfs_vfs_close m fd)) = inodes m"
  using ramfs_ok_upd_file [of m "\<lambda>_. ramfs_file_zero"]
  by (auto simp: ramfs_vfs_close_def ramfs_file_zero_def split: sum.split)

lemma upd_file_idle [simp]: "upd_file k (\<lambda>f. f) m = m"
  by (simp add: upd_file_def)

text \<open>Moving the position of an open file keeps the invariant.\<close>

lemma move_position_ok:
  assumes "ramfs_ok m" "ramfs_get_file m fd = Inr k"
  shows "ramfs_ok (upd_file k (\<lambda>f. f\<lparr>rf_offset := pos f\<rparr>) m)"
proof -
  obtain n c where "open_on m fd n c (rm_files m ! k)" using get_file_open [OF assms] by blast
  then show ?thesis by (intro ramfs_ok_upd_file [OF assms(1)]) (auto simp: open_on_def)
qed

lemma follow_open:
  assumes "ramfs_ok m" "ramfs_get_file m fd = Inr k"
  shows "follow (rf_node (rm_files m ! k)) m = m"
  using open_onD(6) [OF assms(1)] get_file_open [OF assms] by blast

lemma read_ok:
  assumes ok: "ramfs_ok m"
  shows "ramfs_ok (snd (ramfs_vfs_read m fd present sz))"
proof (cases "ramfs_get_file m fd")
  case (Inr k)
  show ?thesis
    using ok move_position_ok [OF ok Inr] follow_open [OF ok Inr]
    by (auto simp: ramfs_vfs_read_def Inr Let_def)
qed (use ok in \<open>auto simp: ramfs_vfs_read_def\<close>)

lemma lseek_ok:
  assumes ok: "ramfs_ok m"
  shows "ramfs_ok (snd (ramfs_vfs_lseek m fd offset mode))"
proof (cases "ramfs_get_file m fd")
  case (Inr k)
  show ?thesis
    using ok move_position_ok [OF ok Inr] follow_open [OF ok Inr]
    by (cases mode) (auto simp: ramfs_vfs_lseek_def Inr Let_def)
qed (use ok in \<open>auto simp: ramfs_vfs_lseek_def\<close>)

lemma fstat_ok:
  assumes ok: "ramfs_ok m"
  shows "snd (ramfs_vfs_fstat m fd present) = m"
proof (cases "ramfs_get_file m fd")
  case (Inr k)
  show ?thesis using follow_open [OF ok Inr] by (simp add: ramfs_vfs_fstat_def Inr Let_def)
qed (auto simp: ramfs_vfs_fstat_def)

lemma ftruncate_ok:
  assumes ok: "ramfs_ok m"
  shows "ramfs_ok (snd (ramfs_vfs_ftruncate m fd len now))"
proof (cases "len < 0 \<or> (\<exists>err. ramfs_get_file m fd = Inl err)")
  case True
  then show ?thesis using ok by (auto simp: ramfs_vfs_ftruncate_def)
next
  case False
  then obtain k where k: "ramfs_get_file m fd = Inr k" by (cases "ramfs_get_file m fd") auto
  obtain n c where on: "open_on m fd n c (rm_files m ! k)" using get_file_open [OF ok k] by blast
  note d = open_onD [OF ok on] and fl = follow_open [OF ok k]
  obtain r m1 where re: "ramfs_resize_node m n (nat len) now = (r, m1)" by (cases "ramfs_resize_node m n (nat len) now")
  have eq: "snd (ramfs_vfs_ftruncate m fd len now) =
      (case r of Some _ \<Rightarrow> m1 | None \<Rightarrow> if nat len < rf_offset (rm_files m1 ! k)
         then upd_file k (\<lambda>f. f\<lparr>rf_offset := nat len\<rparr>) m1 else m1)"
    using False k re fl d(3) by (simp add: ramfs_vfs_ftruncate_def Let_def split: option.split)
  show ?thesis
  proof (rule resize_node_ok [OF ok d(5) re])
    fix err assume "r = Some err" "m1 = m"
    then show ?thesis using eq ok by simp
  next
    assume m1: "r = None" "ramfs_ok m1" "rm_files m1 = rm_files m"
    then have "ramfs_get_file m1 fd = Inr k" using k by (simp add: ramfs_get_file_def)
    then show ?thesis using eq m1(1,2) move_position_ok [OF m1(2)] by simp
  qed
qed

lemma write_keeps_ok:
  assumes ok: "ramfs_ok m"
  shows "ramfs_ok (snd (ramfs_vfs_write m fd data sz now))"
proof (cases "ramfs_get_file m fd")
  case (Inl err)
  then show ?thesis using ok by (simp add: ramfs_vfs_write_def)
next
  case (Inr k)
  obtain n c where on: "open_on m fd n c (rm_files m ! k)" using get_file_open [OF ok Inr] by blast
  obtain res m' where wr: "ramfs_vfs_write m fd data sz now = (res, m')" by (cases "ramfs_vfs_write m fd data sz now")
  show ?thesis by (rule write_ok [OF ok on wr]) (simp_all add: wr)
qed

text \<open>The calls that applications make on a mount.\<close>

datatype vfs_call =
    Open "string option" u32 | Close int | Read int bool nat | Write int "u8 list option" nat
  | Seek int int seek_mode | Fstat int bool | Ftruncate int int | Named name_call

fun vfs_do :: "vfs_call \<times> int \<Rightarrow> ramfs_mount \<Rightarrow> ramfs_mount" where
  "vfs_do (Open path flags, now) m = snd (ramfs_vfs_open m path flags now)"
| "vfs_do (Close fd, now) m = snd (ramfs_vfs_close m fd)"
| "vfs_do (Read fd present sz, now) m = snd (ramfs_vfs_read m fd present sz)"
| "vfs_do (Write fd data sz, now) m = snd (ramfs_vfs_write m fd data sz now)"
| "vfs_do (Seek fd offset mode, now) m = snd (ramfs_vfs_lseek m fd offset mode)"
| "vfs_do (Fstat fd present, now) m = snd (ramfs_vfs_fstat m fd present)"
| "vfs_do (Ftruncate fd len, now) m = snd (ramfs_vfs_ftruncate m fd len now)"
| "vfs_do (Named c, now) m = snd (name_do c now m)"

lemma vfs_do_ok: "ramfs_ok m \<Longrightarrow> ramfs_ok (vfs_do (c, now) m)"
proof (cases c)
  case (Named x)
  assume "ramfs_ok m"
  moreover obtain res m' where "name_do x now m = (res, m')" by (cases "name_do x now m")
  ultimately show ?thesis using Named name_call_outcome [of m x now res m'] by (simp add: name_outcome_def)
next
  case (Open path flags)
  assume "ramfs_ok m"
  moreover obtain res m' where "ramfs_vfs_open m path flags now = (res, m')" by (cases "ramfs_vfs_open m path flags now")
  ultimately show ?thesis using Open open_ok [of m path flags now res m'] by simp
qed (simp_all add: close_ok read_ok write_keeps_ok lseek_ok fstat_ok ftruncate_ok)

lemma fold_vfs_ok: "ramfs_ok m \<Longrightarrow> ramfs_ok (fold vfs_do calls m)"
  by (induction calls arbitrary: m) (auto simp: vfs_do_ok)

lemma fresh_ok:
  assumes "RAMFS_HEADER \<le> quota"
  shows "ramfs_ok (ramfs_fresh mem quota mp now)"
proof -
  define m where "m = ramfs_fresh mem quota mp now"
  obtain r where r: "rm_nodes m = [RAMFS_ROOT \<mapsto> r]" "rn_is_dir r" "rn_parent r = None" "rn_children r = []"
    "rn_name_ptr r = None" "rn_data r = None" "rn_size r = 0" "rn_capacity r = 0"
    by (simp add: m_def ramfs_fresh_def)
  have own: "owned (rm_nodes m) = Map.empty"
  proof
    fix x show "owned (rm_nodes m) x = None" using r by (cases x) auto
  qed
  show ?thesis unfolding m_def [symmetric]
  proof (rule ramfs_okI)
    have "used_map (rm_blocks m) = Map.empty" by (simp add: m_def ramfs_fresh_def used_map_def)
    then show "arena_ok (owned (rm_nodes m)) m"
      unfolding arena_ok_def own
      using assms by (simp add: m_def ramfs_fresh_def ramfs_mount_zero_def block_end_def)
    show "tree_ok (rm_nodes m)"
      using r by (auto simp: tree_but_def node_ok_def record_ok_def split: if_splits)
    show "count_ok (rm_nodes m) (rm_file_count m) (rm_dir_count m)"
    proof -
      have "nodes_of_kind d (rm_nodes m) = (if d then {RAMFS_ROOT} else {})" for d
        using r by (auto simp: nodes_of_kind_def split: if_splits)
      then show ?thesis using r(1) by (simp add: count_ok_def) (simp add: m_def ramfs_fresh_def ramfs_mount_zero_def)
    qed
  qed (auto simp: m_def ramfs_fresh_def ramfs_mount_zero_def ramfs_file_zero_def)
qed

end
