(* ===== verification/RamProperties.thy ===== *)
theory RamProperties
  imports RamCalls
begin

text \<open>The properties of the RAM file system.\<close>

section \<open>A mount to try them on\<close>

text \<open>1 KB mounted at \<open>/r\<close>, before and after the file \<open>/a\<close> is created and opened.\<close>

definition example_mount :: ramfs_mount where
  "example_mount = ramfs_fresh (\<lambda>_. 0) 1024 ''/r'' 0"

definition example_open :: ramfs_mount where
  "example_open = example_mount\<lparr>
     rm_blocks := [\<lparr>rb_offset = 0, rb_size = 40, rb_free = False\<rparr>, \<lparr>rb_offset = 56, rb_size = 4, rb_free = False\<rparr>,
       \<lparr>rb_offset = 76, rb_size = 932, rb_free = True\<rparr>],
     rm_file_count := 1,
     rm_nodes := [16 \<mapsto> \<lparr>rn_name = ''a'', rn_name_ptr = Some 72, rn_is_dir = False, rn_parent = Some 0,
         rn_children = [], rn_data = None, rn_size = 0, rn_capacity = 0, rn_mtime = 7\<rparr>,
       0 \<mapsto> \<lparr>rn_name = [], rn_name_ptr = None, rn_is_dir = True, rn_parent = None, rn_children = [16],
         rn_data = None, rn_size = 0, rn_capacity = 0, rn_mtime = 0\<rparr>],
     rm_files := (replicate 16 ramfs_file_zero)[0 := opened 16 [] (O_CREAT OR O_RDWR)]\<rparr>"

lemma first_index_replicate: "first_index P (replicate n x) = (if 0 < n \<and> P x then Some 0 else None)"
  by (induction n) auto

lemmas eval_alloc = mount_alloc_def ramfs_alloc_def ramfs_align_size_def RAMFS_ALIGNMENT_def RAMFS_HEADER_def
  SIZE_MAX_def NODE_SIZE_def ramfs_split_block_def ramfs_block_payload_def Let_def

lemmas eval_flags = O_CREAT_def O_RDWR_def O_TRUNC_def O_ACCMODE_def O_APPEND_def O_EXCL_def O_WRONLY_def

lemmas eval_paths = ramfs_find_node_def find_from_walk ramfs_resolve_parent_def resolve_from_split split_last_def
  seen_names_def path_names_def NAME_MAX_def ramfs_find_child_def

lemmas eval_mount = ramfs_fresh_def ramfs_mount_zero_def ramfs_file_zero_def RAMFS_MAX_OPEN_FILES_def
  RAMFS_HEADER_def

lemma example_ok: "ramfs_ok example_mount"
  unfolding example_mount_def by (rule fresh_ok) (simp add: RAMFS_HEADER_def)

lemma example_fd: "ramfs_vfs_open example_mount (Some ''/a'') (O_CREAT OR O_RDWR) 7 = (Inr 0, example_open)"
proof -
  have find: "ramfs_find_node example_mount (Some ''/a'') = Inl ENOENT"
    and parent: "ramfs_resolve_parent example_mount (Some ''/a'') = Inr (0, ''a'')"
    and free: "ramfs_find_child example_mount 0 ''a'' = None"
    by (simp_all add: eval_paths example_mount_def ramfs_fresh_def)
  have first: "mount_alloc example_mount NODE_SIZE = (Inr 16, example_mount\<lparr>rm_blocks :=
      [\<lparr>rb_offset = 0, rb_size = 40, rb_free = False\<rparr>, \<lparr>rb_offset = 56, rb_size = 952, rb_free = True\<rparr>]\<rparr>)"
    by (simp add: eval_alloc example_mount_def ramfs_fresh_def)
  show ?thesis
    by (simp add: ramfs_vfs_open_def find parent free eval_flags ramfs_alloc_node_def first)
       (simp add: eval_alloc eval_mount eval_flags example_open_def example_mount_def upd_node_def upd_file_def
         ramfs_allocate_fd_def first_index_replicate opened_def)
qed

lemma example_on: "open_on example_open 0 16 [] (opened 16 [] (O_CREAT OR O_RDWR))" "ramfs_ok example_open"
  using open_ok [OF example_ok example_fd]
  by (simp_all add: open_on_def example_open_def RAMFS_MAX_OPEN_FILES_def opened_def view_def content_def)

lemma example_write: "fst (ramfs_vfs_write example_open 0 (Some [1, 2, 3]) 3 8) = Inr 3"
  by (simp add: ramfs_vfs_write_def ramfs_get_file_def ramfs_resize_node_def mount_realloc_def ramfs_realloc_def
    example_open_def example_mount_def RAMFS_MAX_OPEN_FILES_def opened_def follow_def eval_flags eval_alloc
    eval_mount upd_node_def upd_file_def)

definition example_written :: ramfs_mount where
  "example_written = snd (ramfs_vfs_write example_open 0 (Some [1, 2, 3]) 3 8)"

lemma example_write_eq: "ramfs_vfs_write example_open 0 (Some [1, 2, 3]) (length [1, 2, 3 :: u8]) 8 = (Inr 3, example_written)"
proof -
  have "length [1, 2, 3 :: u8] = 3" by simp
  then show ?thesis using example_write by (simp only:) (simp add: example_written_def prod_eq_iff)
qed

lemma example_seek: "fst (ramfs_vfs_lseek example_written 0 (- int (length [1, 2, 3 :: u8])) SEEK_CUR) = Inr 0"
proof -
  have "rm_files example_written = (rm_files example_open)[0 := (opened 16 [] (O_CREAT OR O_RDWR))\<lparr>rf_offset := 3\<rparr>]"
    by (rule write_ok [OF example_on(2,1) example_write_eq]) (simp_all add: opened_def eval_flags numeral_3_eq_3)
  then show ?thesis
    by (simp add: ramfs_vfs_lseek_def ramfs_get_file_def RAMFS_MAX_OPEN_FILES_def example_open_def opened_def to_off_t_def)
qed

lemma example_rename:
  "fst (ramfs_vfs_rename example_open (Some ''/a'') (Some ''/b'') 9) = Inr ()"
proof -
  have find: "ramfs_find_node example_open (Some ''/a'') = Inr 16"
    and parent: "ramfs_resolve_parent example_open (Some ''/b'') = Inr (0, ''b'')"
    and free: "ramfs_find_child example_open 0 ''b'' = None"
    by (simp_all add: eval_paths example_open_def)
  show ?thesis
    by (simp add: ramfs_vfs_rename_def find parent free)
       (simp add: eval_alloc eval_mount example_open_def example_mount_def)
qed

section \<open>Helper facts\<close>

lemma ramfs_ok_active: "ramfs_ok m \<Longrightarrow> ramfs_ok (m\<lparr>rm_active := a\<rparr>)"
  unfolding ramfs_ok_def by (simp add: arena_ok_cong [of "m\<lparr>rm_active := a\<rparr>" m])

lemma only_root_free:
  assumes ok: "ramfs_ok m" and root: "dom (rm_nodes m) = {RAMFS_ROOT}"
  shows "list_all rb_free (rm_blocks m)"
  unfolding list_all_iff
proof (intro ballI, rule ccontr)
  fix b assume b: "b \<in> set (rm_blocks m)" "\<not> rb_free b"
  note ar = ramfs_okD(1) [OF ok]
  obtain x where x: "rm_nodes m RAMFS_ROOT = Some x" "rn_is_dir x" using root_node [OF ramfs_okD(2) [OF ok]] by blast
  have "rn_name_ptr x = None" "rn_data x = None"
    using node_record [OF tree_butD [OF ramfs_okD(2) [OF ok] x(1)]] x(2) by (simp_all add: record_ok_def)
  moreover have "rm_nodes m n = None" if "n \<noteq> RAMFS_ROOT" for n
  proof -
    have "n \<notin> dom (rm_nodes m)" using root that by simp
    then show ?thesis by (simp add: domIff)
  qed
  ultimately have "owned (rm_nodes m) z = None" for z
    using x(1) by (cases z; rename_tac n, case_tac "n = RAMFS_ROOT"; simp)
  moreover have "used_map (rm_blocks m) (ramfs_block_payload b) = Some (rb_size b)"
    using b used_map_iff [OF arena_okD(1) [OF ar]] by blast
  ultimately show False using arena_okD(4) [OF ar] by fastforce
qed

lemma mount_fresh:
  assumes "solar_os_ramfs_mount pf ms mount_point quota now = (ESP_OK, ms')"
  obtains i mem where "i < length ms" "\<not> rm_active (ms ! i)" "RAMFS_HEADER \<le> quota"
    "ms' = ms[i := (ramfs_fresh mem quota (cstr mount_point) now)\<lparr>rm_active := True\<rparr>]"
  using assms first_indexD [of "\<lambda>m. \<not> rm_active m" ms]
  by (auto simp: solar_os_ramfs_mount_def Let_def split: if_splits option.splits)

section \<open>The properties\<close>



text \<open>
  C31. Writing to an open file puts the bytes at the position of the descriptor, or at the end of the file when it
  was opened for appending, fills a gap before them with zeros, moves the position behind them, and changes no other
  file or directory and no other descriptor; a write that fails changes no content at all.
\<close>

theorem ramfs_write_refines:
  assumes "ramfs_ok m" and "open_on m fd n c f" and "rf_flags f AND O_ACCMODE \<noteq> 0"
    and "ramfs_vfs_write m fd (Some bs) (length bs) now = (res, m')"
  shows "let pos = (if rf_flags f AND O_APPEND \<noteq> 0 then length c else rf_offset f)
    in case res of
         Inl err \<Rightarrow> inodes m' = inodes m
       | Inr k \<Rightarrow> k = length bs \<and> inodes m' = (inodes m)(n \<mapsto> File (overwrite pos bs c))
           \<and> rm_files m' = (rm_files m)[nat fd := f\<lparr>rf_offset := pos + k\<rparr>]"
  by (rule write_ok [OF assms(1,2,4)]) (simp_all add: Let_def overwrite_resized)

theorem ramfs_write_refines_witness:
  "inodes example_written 16 = Some (File [1, 2, 3])"
proof -
  from ramfs_write_refines [OF example_on(2,1) _ example_write_eq] show ?thesis
    by (simp add: opened_def eval_flags overwrite_def resized_def)
qed

text \<open>
  What was written is read back: after a write through a descriptor opened for reading and writing, seeking
  back by the number of bytes and reading them returns exactly these bytes.
\<close>

theorem ramfs_write_read:
  assumes "ramfs_ok m" and "open_on m fd n c f" and "rf_flags f AND O_ACCMODE = O_RDWR"
    and "ramfs_vfs_write m fd (Some bs) (length bs) now = (Inr k, m1)"
    and "ramfs_vfs_lseek m1 fd (- int (length bs)) SEEK_CUR = (Inr at, m2)"
  shows "fst (ramfs_vfs_read m2 fd True (length bs)) = Inr bs"
proof -
  define pos where "pos = (if rf_flags f AND O_APPEND \<noteq> 0 then length c else rf_offset f)"
  obtain ok1: "ramfs_ok m1" and k: "k = length bs"
    and files: "rm_files m1 = (rm_files m)[nat fd := f\<lparr>rf_offset := pos + k\<rparr>]"
    and nodes: "inodes m1 = (inodes m)(n \<mapsto> File (overwrite pos bs c))"
    by (rule write_ok [OF assms(1,2,4)]) (simp_all add: pos_def overwrite_resized)
  note d = open_onD [OF assms(1,2)]
  have g1: "ramfs_get_file m1 fd = Inr (nat fd)"
    using assms(2) d(4,7) by (simp add: ramfs_get_file_def open_on_def files)
  have m2: "m2 = upd_file (nat fd) (\<lambda>f. f\<lparr>rf_offset := pos\<rparr>) m1"
    using assms(5) d(7) by (auto simp: ramfs_vfs_lseek_def g1 files k Let_def split: if_splits)
  have on2: "open_on m2 fd n (overwrite pos bs c) (f\<lparr>rf_offset := pos\<rparr>)"
    using assms(2) d(3,4,7) nodes by (simp add: open_on_def m2 upd_file_def files)
  have ok2: "ramfs_ok m2" unfolding m2 by (rule move_position_ok [OF ok1 g1])
  have "take (length bs) (drop pos (overwrite pos bs c)) = bs"
    by (simp add: overwrite_def resized_def)
  then show ?thesis using read_spec [OF ok2 on2, of "length bs"] assms(3) by (simp add: eval_flags)
qed

theorem ramfs_write_read_witness:
  "fst (ramfs_vfs_read (snd (ramfs_vfs_lseek example_written 0 (- 3) SEEK_CUR)) 0 True 3) = Inr [1, 2, 3]"
proof -
  have "ramfs_vfs_lseek example_written 0 (- int (length [1, 2, 3 :: u8])) SEEK_CUR
      = (Inr 0, snd (ramfs_vfs_lseek example_written 0 (- 3) SEEK_CUR))"
    using example_seek by (simp add: prod_eq_iff)
  from ramfs_write_read [OF example_on(2,1) _ example_write_eq this] show ?thesis
    by (simp add: opened_def eval_flags numeral_3_eq_3)
qed

text \<open>
  C32. Creating a directory, removing a directory or a file, renaming and truncating change the table of inodes
  exactly as their specification says: one entry added, one inode and its entry removed, one entry moved, one content
  cut or filled with zeros; a call that fails changes nothing, and no call disturbs an open descriptor.
\<close>

theorem ramfs_names_refine:
  assumes "ramfs_ok m" and "name_do c now m = (res, m')"
  shows "rm_files m' = rm_files m
    \<and> (case res of Inl _ \<Rightarrow> inodes m' = inodes m | Inr _ \<Rightarrow> name_effect m c (inodes m'))"
  using name_call_outcome [OF assms] by (simp add: name_outcome_def)

theorem ramfs_names_refine_witness:
  "name_effect example_open (Rename (Some ''/a'') (Some ''/b''))
     (inodes (snd (ramfs_vfs_rename example_open (Some ''/a'') (Some ''/b'') 9)))"
proof -
  have "name_do (Rename (Some ''/a'') (Some ''/b'')) 9 example_open
      = (Inr (), snd (ramfs_vfs_rename example_open (Some ''/a'') (Some ''/b'') 9))"
    using example_rename by (simp add: prod_eq_iff)
  from ramfs_names_refine [OF example_on(2) this] show ?thesis by simp
qed

text \<open>
  C33. The cursor loops of path resolution are a walk along the names of the path, as far as the names have at most
  255 characters: what follows a longer name is ignored, and the name as well, so that \<open>/d/<long name>\<close> resolves
  to the directory \<open>/d\<close> itself.
\<close>

theorem ramfs_path_walk:
  "ramfs_find_node m (Some p) =
     (if p = [] then Inl EINVAL
      else walk m RAMFS_ROOT (takeWhile (\<lambda>s. length s \<le> NAME_MAX) (path_names p)))
   \<and> ramfs_resolve_parent m (Some p) =
     split_last m RAMFS_ROOT (filter (\<lambda>s. s \<noteq> ''.'') (takeWhile (\<lambda>s. length s \<le> NAME_MAX) (path_names p)))"
  by (simp add: ramfs_find_node_def ramfs_resolve_parent_def find_from_walk resolve_from_split seen_names_def)

end
