(* ===== verification/ClockTime.thy ===== *)
theory ClockTime
  imports SolarBase
begin

text \<open>
  The clock service: calendar arithmetic and the time provider of \<open>src/src/services/solar_os_time.c\<close>, the
  UTC offsets and POSIX zone strings of \<open>src/src/services/solar_os_timezone.c\<close>.

  The C library and ESP-IDF are the record \<open>time_platform\<close>: the uptime counter, the time of day, the
  conversions \<open>gmtime_r\<close>, \<open>localtime_r\<close> and \<open>mktime\<close>, the calls of a registered provider and the
  non-volatile store. Times of 64 bits are integers: nothing here comes near their bounds.
\<close>

unbundle bit_operations_syntax

section \<open>Dates\<close>

record solar_os_datetime =
  dt_year :: u16
  dt_month :: u8
  dt_day :: u8
  dt_hour :: u8
  dt_minute :: u8
  dt_second :: u8
  dt_weekday :: u8
  dt_clock_integrity :: bool

record tm =
  tm_sec :: int
  tm_min :: int
  tm_hour :: int
  tm_mday :: int
  tm_mon :: int
  tm_year :: int
  tm_wday :: int

definition SECONDS_PER_DAY :: int where "SECONDS_PER_DAY = 86400"
definition TIME_VALID_EPOCH_SECONDS :: int where "TIME_VALID_EPOCH_SECONDS = 946684800"
definition SOLAR_OS_TIMEZONE_NAME_MAX :: nat where "SOLAR_OS_TIMEZONE_NAME_MAX = 32"
definition SOLAR_OS_TIMEZONE_POSIX_MAX :: nat where "SOLAR_OS_TIMEZONE_POSIX_MAX = 80"
definition TIME_NTP_SERVER_MAX :: nat where "TIME_NTP_SERVER_MAX = 96"
definition TIME_OWNER_MAX :: nat where "TIME_OWNER_MAX = 24"

definition datetime_from_tm :: "tm \<Rightarrow> bool \<Rightarrow> solar_os_datetime" where
  "datetime_from_tm t clock_integrity =
     \<lparr>dt_year = word_of_int (tm_year t + 1900), dt_month = word_of_int (tm_mon t + 1),
      dt_day = word_of_int (tm_mday t), dt_hour = word_of_int (tm_hour t), dt_minute = word_of_int (tm_min t),
      dt_second = word_of_int (tm_sec t), dt_weekday = word_of_int (tm_wday t),
      dt_clock_integrity = clock_integrity\<rparr>"

definition days_per_month :: "nat list" where
  "days_per_month = [31, 28, 31, 30, 31, 30, 31, 31, 30, 31, 30, 31]"

definition leap_year :: "nat \<Rightarrow> bool" where
  "leap_year y \<longleftrightarrow> (y mod 4 = 0 \<and> y mod 100 \<noteq> 0) \<or> y mod 400 = 0"

definition datetime_is_valid :: "solar_os_datetime option \<Rightarrow> bool" where
  "datetime_is_valid datetime =
     (case datetime of
        None \<Rightarrow> False
      | Some d \<Rightarrow>
          if dt_year d < 2000 \<or> dt_month d < 1 \<or> 12 < dt_month d \<or> dt_day d < 1 \<or> 23 < dt_hour d
             \<or> 59 < dt_minute d \<or> 59 < dt_second d \<or> 6 < dt_weekday d
          then False
          else let days = (if dt_month d = 2 \<and> leap_year (unat (dt_year d)) then 29
                           else days_per_month ! (unat (dt_month d) - 1))
               in unat (dt_day d) \<le> days)"

text \<open>
  The two files have a copy each. The months are counted from March, so that the leap day is the
  last day of a year; the divisions of C truncate, which only matters before the year 0.
\<close>

definition c_div :: "int \<Rightarrow> int \<Rightarrow> int" where
  "c_div a b = (if 0 \<le> a then a div b else - ((- a) div b))"

definition time_days_from_civil :: "int \<Rightarrow> int \<Rightarrow> int \<Rightarrow> int" where
  "time_days_from_civil year month day =
     (let y = (if month \<le> 2 then year - 1 else year);
          era = c_div (if 0 \<le> y then y else y - 399) 400;
          yoe = y - era * 400;
          doy = (153 * (month + (if 2 < month then - 3 else 9)) + 2) div 5 + day - 1;
          doe = yoe * 365 + yoe div 4 - yoe div 100 + doy
      in era * 146097 + doe - 719468)"

definition schedule_days_from_civil :: "int \<Rightarrow> int \<Rightarrow> int \<Rightarrow> int" where
  "schedule_days_from_civil year month day =
     (let y = (if month \<le> 2 then year - 1 else year);
          era = c_div (if 0 \<le> y then y else y - 399) 400;
          yoe = y - era * 400;
          shifted_month = (if 2 < month then month - 3 else month + 9);
          doy = (153 * shifted_month + 2) div 5 + day - 1;
          doe = yoe * 365 + yoe div 4 - yoe div 100 + doy
      in era * 146097 + doe - 719468)"

definition epoch_from_utc_datetime :: "solar_os_datetime option \<Rightarrow> esp_err \<times> int" where
  "epoch_from_utc_datetime datetime =
     (if \<not> datetime_is_valid datetime then (ESP_ERR_INVALID_ARG, 0)
      else let d = the datetime;
               days = time_days_from_civil (uint (dt_year d)) (uint (dt_month d)) (uint (dt_day d))
           in (ESP_OK, days * SECONDS_PER_DAY + uint (dt_hour d) * 3600 + uint (dt_minute d) * 60
                       + uint (dt_second d)))"

section \<open>The clock\<close>

record time_provider =
  tpv_get :: "nat option"
  tpv_set :: "nat option"

record time_platform =
  tp_uptime_us :: int
  tp_gettimeofday :: "int option"
  tp_settimeofday :: "int \<Rightarrow> bool"
  tp_gmtime :: "int \<Rightarrow> tm option"
  tp_localtime :: "string \<Rightarrow> int \<Rightarrow> tm option"
  tp_mktime :: "string \<Rightarrow> tm \<Rightarrow> int"
  tp_provider_get :: "nat \<Rightarrow> esp_err \<times> solar_os_datetime"
  tp_provider_set :: "nat \<Rightarrow> solar_os_datetime \<Rightarrow> esp_err"
  tp_nvs_stored :: "(esp_err \<times> string) option \<times> (esp_err \<times> string)"
  tp_nvs_save :: esp_err

record time_state =
  tz_name :: string
  tz_posix :: string
  tz_loaded :: bool
  tz_applied :: string
  tz_provider :: time_provider
  tz_provider_owner :: string

definition time_state_init :: time_state where
  "time_state_init = \<lparr>tz_name = ''UTC'', tz_posix = ''UTC0'', tz_loaded = False, tz_applied = [],
     tz_provider = \<lparr>tpv_get = None, tpv_set = None\<rparr>, tz_provider_owner = []\<rparr>"

definition datetime_zero :: solar_os_datetime where
  "datetime_zero = \<lparr>dt_year = 0, dt_month = 0, dt_day = 0, dt_hour = 0, dt_minute = 0, dt_second = 0,
     dt_weekday = 0, dt_clock_integrity = False\<rparr>"

definition datetime_from_utc_epoch ::
  "time_platform \<Rightarrow> int \<Rightarrow> bool \<Rightarrow> esp_err \<times> solar_os_datetime" where
  "datetime_from_utc_epoch tp epoch clock_integrity =
     (case tp_gmtime tp epoch of
        None \<Rightarrow> (ESP_ERR_INVALID_RESPONSE, datetime_zero)
      | Some t \<Rightarrow>
          let d = datetime_from_tm t clock_integrity
          in (if datetime_is_valid (Some d) then ESP_OK else ESP_ERR_INVALID_RESPONSE, d))"

definition isprint :: "char \<Rightarrow> bool" where
  "isprint c \<longleftrightarrow> (let n = (of_char c :: nat) in 32 \<le> n \<and> n \<le> 126)"

definition ntp_server_is_valid :: "string option \<Rightarrow> bool" where
  "ntp_server_is_valid server =
     (case server of
        None \<Rightarrow> False
      | Some s \<Rightarrow> s \<noteq> [] \<and> length s < TIME_NTP_SERVER_MAX \<and> list_all (\<lambda>c. isprint c \<and> \<not> isspace c) s)"

definition solar_os_time_register_provider ::
  "string option \<Rightarrow> time_provider option \<Rightarrow> time_state \<Rightarrow> esp_err \<times> time_state" where
  "solar_os_time_register_provider owner provider s =
     (case (owner, provider) of
        (Some own, Some p) \<Rightarrow>
          if own = [] \<or> TIME_OWNER_MAX \<le> length own \<or> tpv_get p = None \<or> tpv_set p = None
          then (ESP_ERR_INVALID_ARG, s)
          else if tz_provider_owner s \<noteq> [] then (ESP_ERR_INVALID_STATE, s)
          else (ESP_OK, s\<lparr>tz_provider := p, tz_provider_owner := strlcpy TIME_OWNER_MAX own\<rparr>)
      | _ \<Rightarrow> (ESP_ERR_INVALID_ARG, s))"

definition solar_os_time_unregister_provider :: "string option \<Rightarrow> time_state \<Rightarrow> esp_err \<times> time_state" where
  "solar_os_time_unregister_provider owner s =
     (case owner of
        None \<Rightarrow> (ESP_ERR_INVALID_ARG, s)
      | Some own \<Rightarrow>
          if tz_provider_owner s \<noteq> own then (ESP_ERR_NOT_FOUND, s)
          else (ESP_OK, s\<lparr>tz_provider := \<lparr>tpv_get = None, tpv_set = None\<rparr>, tz_provider_owner := []\<rparr>))"

definition solar_os_time_has_provider :: "time_state \<Rightarrow> bool" where
  "solar_os_time_has_provider s \<longleftrightarrow> tz_provider_owner s \<noteq> []"

definition time_provider_snapshot :: "time_state \<Rightarrow> time_provider option" where
  "time_provider_snapshot s = (if tz_provider_owner s \<noteq> [] then Some (tz_provider s) else None)"

definition solar_os_time_uptime_ms :: "time_platform \<Rightarrow> nat" where
  "solar_os_time_uptime_ms tp = (if tp_uptime_us tp \<le> 0 then 0 else nat (tp_uptime_us tp div 1000))"

definition solar_os_time_get_utc_datetime :: "time_platform \<Rightarrow> time_state \<Rightarrow> esp_err \<times> solar_os_datetime" where
  "solar_os_time_get_utc_datetime tp s =
     (case time_provider_snapshot s of
        Some p \<Rightarrow> tp_provider_get tp (the (tpv_get p))
      | None \<Rightarrow>
          (case tp_gettimeofday tp of
             None \<Rightarrow> (ESP_FAIL, datetime_zero)
           | Some sec \<Rightarrow>
               if sec < TIME_VALID_EPOCH_SECONDS then (ESP_ERR_INVALID_STATE, datetime_zero)
               else datetime_from_utc_epoch tp sec True))"

definition solar_os_time_set_utc_datetime ::
  "time_platform \<Rightarrow> time_state \<Rightarrow> solar_os_datetime option \<Rightarrow> esp_err" where
  "solar_os_time_set_utc_datetime tp s datetime =
     (case datetime of
        None \<Rightarrow> ESP_ERR_INVALID_ARG
      | Some d \<Rightarrow>
          (case time_provider_snapshot s of
             Some p \<Rightarrow> tp_provider_set tp (the (tpv_set p)) d
           | None \<Rightarrow>
               (case epoch_from_utc_datetime (Some d) of
                  (ESP_OK, epoch) \<Rightarrow> if tp_settimeofday tp epoch then ESP_OK else ESP_FAIL
                | (ret, _) \<Rightarrow> ret)))"

definition solar_os_time_get_utc_epoch_ms :: "time_platform \<Rightarrow> time_state \<Rightarrow> bool \<Rightarrow> esp_err \<times> nat" where
  "solar_os_time_get_utc_epoch_ms tp s out_present =
     (if \<not> out_present then (ESP_ERR_INVALID_ARG, 0)
      else case solar_os_time_get_utc_datetime tp s of
             (ESP_OK, utc) \<Rightarrow>
               if \<not> dt_clock_integrity utc then (ESP_ERR_INVALID_STATE, 0)
               else (case epoch_from_utc_datetime (Some utc) of
                       (ESP_OK, epoch) \<Rightarrow> (ESP_OK, nat (epoch * 1000))
                     | (ret, _) \<Rightarrow> (ret, 0))
           | (ret, _) \<Rightarrow> (ret, 0))"

section \<open>Time zones\<close>

definition timezone_aliases :: "(string \<times> string \<times> string) list" where
  "timezone_aliases =
     [(''UTC'', ''UTC'', ''UTC0''), (''utc'', ''UTC'', ''UTC0''), (''Etc/UTC'', ''UTC'', ''UTC0''),
      (''Europe/Berlin'', ''Europe/Berlin'', ''CET-1CEST,M3.5.0/2,M10.5.0/3''),
      (''europe/berlin'', ''Europe/Berlin'', ''CET-1CEST,M3.5.0/2,M10.5.0/3''),
      (''Berlin'', ''Europe/Berlin'', ''CET-1CEST,M3.5.0/2,M10.5.0/3''),
      (''berlin'', ''Europe/Berlin'', ''CET-1CEST,M3.5.0/2,M10.5.0/3'')]"

definition char_at :: "string \<Rightarrow> nat \<Rightarrow> char" where
  "char_at s i = (if i < length s then s ! i else CHR 0x00)"

definition timezone_has_utc_prefix :: "string option \<Rightarrow> bool" where
  "timezone_has_utc_prefix timezone =
     (case timezone of
        None \<Rightarrow> False
      | Some s \<Rightarrow> (char_at s 0 = CHR ''U'' \<or> char_at s 0 = CHR ''u'')
                  \<and> (char_at s 1 = CHR ''T'' \<or> char_at s 1 = CHR ''t'')
                  \<and> (char_at s 2 = CHR ''C'' \<or> char_at s 2 = CHR ''c''))"

definition digit_of :: "char \<Rightarrow> nat" where
  "digit_of c = of_char c - 48"

text \<open>The value of the two digits and the cursor after them.\<close>

definition timezone_parse_offset_component :: "string \<Rightarrow> (nat \<times> string) option" where
  "timezone_parse_offset_component p =
     (case p of
        a # b # rest \<Rightarrow> if isdigit a \<and> isdigit b then Some (digit_of a * 10 + digit_of b, rest) else None
      | _ \<Rightarrow> None)"

definition timezone_utc_offset_is_valid :: "string \<Rightarrow> bool" where
  "timezone_utc_offset_is_valid offset =
     (case offset of
        sign # h1 # p \<Rightarrow>
          if (sign \<noteq> CHR ''+'' \<and> sign \<noteq> CHR ''-'') \<or> \<not> isdigit h1 then False
          else
            let (hours, p) = (case p of
                  h2 # q \<Rightarrow> if isdigit h2 then (digit_of h1 * 10 + digit_of h2, q) else (digit_of h1, p)
                | [] \<Rightarrow> (digit_of h1, p));
                ending = (\<lambda>minutes seconds p. p = [] \<and> hours \<le> 24 \<and> minutes \<le> 59 \<and> seconds \<le> 59
                                            \<and> (hours < 24 \<or> (minutes = 0 \<and> seconds = (0 :: nat))))
            in if take 1 p = '':'' then
                 (case timezone_parse_offset_component (drop 1 p) of
                    None \<Rightarrow> False
                  | Some (minutes, p1) \<Rightarrow>
                      if take 1 p1 = '':'' then
                        (case timezone_parse_offset_component (drop 1 p1) of
                           None \<Rightarrow> False
                         | Some (seconds, p2) \<Rightarrow> ending minutes seconds p2)
                      else ending minutes 0 p1)
               else ending (0 :: nat) 0 p
      | _ \<Rightarrow> False)"

text \<open>Name and POSIX string, where both fit.\<close>

definition timezone_resolve_utc_offset :: "string option \<Rightarrow> nat \<Rightarrow> nat \<Rightarrow> (string \<times> string) option" where
  "timezone_resolve_utc_offset timezone name_len posix_len =
     (if \<not> timezone_has_utc_prefix timezone \<or> \<not> timezone_utc_offset_is_valid (drop 3 (cstr timezone)) then None
      else
        let s = cstr timezone;
            posix_sign = (if char_at s 3 = CHR ''+'' then CHR ''-'' else CHR ''+'');
            name = ''UTC'' @ drop 3 s;
            posix = ''UTC'' @ [posix_sign] @ drop 4 s
        in if length name < name_len \<and> length posix < posix_len then Some (name, posix) else None)"

definition solar_os_timezone_value_is_raw_posix :: "string option \<Rightarrow> bool" where
  "solar_os_timezone_value_is_raw_posix timezone =
     (case timezone of
        None \<Rightarrow> False
      | Some s \<Rightarrow>
          if s = [] then False
          else if list_ex (\<lambda>c. \<not> isprint c \<or> isspace c) s then False
          else CHR ''/'' \<notin> set s \<or> list_ex isdigit s \<or> CHR '','' \<in> set s)"

text \<open>\<open>None\<close> is false, with whatever the buffers hold then.\<close>

definition solar_os_timezone_resolve ::
  "string option \<Rightarrow> bool \<Rightarrow> nat \<Rightarrow> bool \<Rightarrow> nat \<Rightarrow> (string \<times> string) option" where
  "solar_os_timezone_resolve timezone name_present name_len posix_present posix_len =
     (if timezone = None \<or> \<not> name_present \<or> name_len = 0 \<or> \<not> posix_present \<or> posix_len = 0 then None
      else case find (\<lambda>(alias, name, posix). alias = cstr timezone) timezone_aliases of
             Some (alias, name, posix) \<Rightarrow>
               if length name < name_len \<and> length posix < posix_len then Some (name, posix) else None
           | None \<Rightarrow>
               (case timezone_resolve_utc_offset timezone name_len posix_len of
                  Some r \<Rightarrow> Some r
                | None \<Rightarrow>
                    if timezone_has_utc_prefix timezone
                       \<and> (char_at (cstr timezone) 3 = CHR ''+'' \<or> char_at (cstr timezone) 3 = CHR ''-'') then None
                    else if \<not> solar_os_timezone_value_is_raw_posix timezone then None
                    else if length (cstr timezone) < posix_len
                    then Some (strlcpy name_len (cstr timezone), cstr timezone) else None))"

definition timezone_apply :: "time_state \<Rightarrow> time_state" where
  "timezone_apply s = s\<lparr>tz_applied := tz_posix s\<rparr>"

text \<open>The stored name and zone; \<open>None\<close> when the store cannot be opened.\<close>

definition timezone_load :: "time_platform \<Rightarrow> time_state \<Rightarrow> time_state" where
  "timezone_load tp s =
     (if tz_loaded s then s
      else
        let s1 = s\<lparr>tz_loaded := True\<rparr>
        in case tp_nvs_stored tp of
             (None, _) \<Rightarrow> timezone_apply s1
           | (Some (ret, stored_name), (posix_ret, stored_posix)) \<Rightarrow>
               timezone_apply
                 (if ret = ESP_OK \<and> posix_ret = ESP_OK \<and> solar_os_timezone_value_is_raw_posix (Some stored_posix)
                  then s1\<lparr>tz_name := strlcpy SOLAR_OS_TIMEZONE_NAME_MAX stored_name,
                          tz_posix := strlcpy SOLAR_OS_TIMEZONE_POSIX_MAX stored_posix\<rparr>
                  else s1))"

definition solar_os_time_init :: "time_platform \<Rightarrow> time_state \<Rightarrow> esp_err \<times> time_state" where
  "solar_os_time_init tp s = (ESP_OK, timezone_load tp s)"

definition solar_os_time_set_timezone ::
  "time_platform \<Rightarrow> string option \<Rightarrow> time_state \<Rightarrow> esp_err \<times> time_state" where
  "solar_os_time_set_timezone tp timezone s =
     (case solar_os_timezone_resolve timezone True SOLAR_OS_TIMEZONE_NAME_MAX True SOLAR_OS_TIMEZONE_POSIX_MAX of
        None \<Rightarrow> (ESP_ERR_INVALID_ARG, s)
      | Some (name, posix) \<Rightarrow>
          (tp_nvs_save tp,
           timezone_apply (s\<lparr>tz_loaded := True, tz_name := strlcpy SOLAR_OS_TIMEZONE_NAME_MAX name,
                             tz_posix := strlcpy SOLAR_OS_TIMEZONE_POSIX_MAX posix\<rparr>)))"

definition solar_os_time_get_timezone ::
  "time_platform \<Rightarrow> nat option \<Rightarrow> nat option \<Rightarrow> time_state \<Rightarrow> (string option \<times> string option) \<times> time_state" where
  "solar_os_time_get_timezone tp name_len posix_len s =
     (let s1 = timezone_load tp s;
          copy = (\<lambda>len text. case len of None \<Rightarrow> None | Some n \<Rightarrow> if 0 < n then Some (strlcpy n text) else None)
      in ((copy name_len (tz_name s1), copy posix_len (tz_posix s1)), s1))"

section \<open>Local time\<close>

definition solar_os_time_utc_to_local ::
  "time_platform \<Rightarrow> solar_os_datetime option \<Rightarrow> time_state \<Rightarrow> (esp_err \<times> solar_os_datetime) \<times> time_state" where
  "solar_os_time_utc_to_local tp utc s =
     (let s1 = timezone_load tp s
      in case epoch_from_utc_datetime utc of
           (ESP_OK, epoch) \<Rightarrow>
             (case tp_localtime tp (tz_applied s1) epoch of
                None \<Rightarrow> ((ESP_ERR_INVALID_RESPONSE, datetime_zero), s1)
              | Some t \<Rightarrow>
                  let d = datetime_from_tm t (dt_clock_integrity (the utc))
                  in ((if datetime_is_valid (Some d) then ESP_OK else ESP_ERR_INVALID_RESPONSE, d), s1))
         | (ret, _) \<Rightarrow> ((ret, datetime_zero), s1))"

definition solar_os_time_local_to_utc ::
  "time_platform \<Rightarrow> solar_os_datetime option \<Rightarrow> bool \<Rightarrow> time_state
   \<Rightarrow> (esp_err \<times> solar_os_datetime) \<times> time_state" where
  "solar_os_time_local_to_utc tp local utc_present s =
     (if \<not> datetime_is_valid local \<or> \<not> utc_present then ((ESP_ERR_INVALID_ARG, datetime_zero), s)
      else
        let s1 = timezone_load tp s;
            d = the local;
            t = \<lparr>tm_sec = uint (dt_second d), tm_min = uint (dt_minute d), tm_hour = uint (dt_hour d),
                 tm_mday = uint (dt_day d), tm_mon = uint (dt_month d) - 1, tm_year = uint (dt_year d) - 1900,
                 tm_wday = 0\<rparr>;
            epoch = tp_mktime tp (tz_applied s1) t
        in if epoch = - 1 then ((ESP_ERR_INVALID_RESPONSE, datetime_zero), s1)
           else (datetime_from_utc_epoch tp epoch (dt_clock_integrity d), s1))"

definition solar_os_time_get_datetime ::
  "time_platform \<Rightarrow> time_state \<Rightarrow> (esp_err \<times> solar_os_datetime) \<times> time_state" where
  "solar_os_time_get_datetime tp s =
     (case solar_os_time_get_utc_datetime tp s of
        (ESP_OK, utc) \<Rightarrow> solar_os_time_utc_to_local tp (Some utc) s
      | (ret, _) \<Rightarrow> ((ret, datetime_zero), s))"

definition solar_os_time_set_datetime ::
  "time_platform \<Rightarrow> solar_os_datetime option \<Rightarrow> time_state \<Rightarrow> esp_err \<times> time_state" where
  "solar_os_time_set_datetime tp datetime s =
     (case solar_os_time_local_to_utc tp datetime True s of
        ((ESP_OK, utc), s1) \<Rightarrow> (solar_os_time_set_utc_datetime tp s1 (Some utc), s1)
      | ((ret, _), s1) \<Rightarrow> (ret, s1))"

definition solar_os_time_datetime_is_valid :: "solar_os_datetime option \<Rightarrow> bool" where
  "solar_os_time_datetime_is_valid = datetime_is_valid"

section \<open>The calendar\<close>

text \<open>The days before a year, counted from 1970, and before a month of the year.\<close>

fun days_before_year :: "nat \<Rightarrow> int" where
  "days_before_year 0 = 0"
| "days_before_year (Suc k) = days_before_year k + (if leap_year (1970 + k) then 366 else 365)"

definition month_length :: "nat \<Rightarrow> nat \<Rightarrow> nat" where
  "month_length y m = (if m = 2 \<and> leap_year y then 29 else days_per_month ! (m - 1))"

fun days_before_month :: "nat \<Rightarrow> nat \<Rightarrow> int" where
  "days_before_month y 0 = 0"
| "days_before_month y (Suc m) = days_before_month y m + int (month_length y (Suc m))"

lemma div_split:
  fixes y r q n k :: int
  assumes "y = r + n * k * q" "0 < n"
  shows "y div n = r div n + k * q"
  using assms div_mult_self2 [of n r "k * q"] by (simp add: mult.assoc)

lemma era_formula:
  fixes y :: int
  shows "(y div 400) * 146097 + (y - y div 400 * 400) * 365 + (y - y div 400 * 400) div 4
      - (y - y div 400 * 400) div 100 = 365 * y + y div 4 - y div 100 + y div 400"
proof -
  define q r where "q = y div 400" and "r = y - y div 400 * 400"
  have y: "y = r + 400 * q" by (simp add: q_def r_def)
  have "y div 4 = r div 4 + 100 * q" "y div 100 = r div 100 + 4 * q"
    by (rule div_split; use y in simp)+
  then show ?thesis unfolding q_def [symmetric] r_def [symmetric] using y by simp
qed

lemma div_pred:
  fixes y n :: int
  assumes "0 < n"
  shows "y div n - (y - 1) div n = (if y mod n = 0 then 1 else 0)"
proof -
  define k r where "k = y div n" and "r = y mod n"
  have y: "y = n * k + r" "0 \<le> r" "r < n" using assms by (simp_all add: k_def r_def)
  have "(y - 1) div n = (if r = 0 then k - 1 else k)"
    by (rule int_div_pos_eq [where r = "if r = 0 then n - 1 else r - 1"]) (use y in \<open>auto simp: algebra_simps\<close>)
  then show ?thesis by (simp add: k_def r_def)
qed

lemma leap_formula:
  fixes y :: int
  shows "y div 4 - y div 100 + y div 400 - ((y - 1) div 4 - (y - 1) div 100 + (y - 1) div 400)
    = (if (y mod 4 = 0 \<and> y mod 100 \<noteq> 0) \<or> y mod 400 = 0 then 1 else 0)"
proof -
  have "y mod 100 = y mod 400 mod 100" "y mod 4 = y mod 100 mod 4" by (simp_all add: mod_mod_cancel)
  then have h: "y mod 400 = 0 \<Longrightarrow> y mod 100 = 0" and f: "y mod 100 = 0 \<Longrightarrow> y mod 4 = 0" by simp_all
  define a b c where abc: "a = y div 4" "b = y div 100" "c = y div 400"
  define a' b' c' where abc': "a' = (y - 1) div 4" "b' = (y - 1) div 100" "c' = (y - 1) div 400"
  define p q r where pqr: "p = (y mod 4 = 0)" "q = (y mod 100 = 0)" "r = (y mod 400 = 0)"
  have "a - a' = (if p then 1 else 0)" "b - b' = (if q then 1 else 0)" "c - c' = (if r then 1 else 0)"
    unfolding abc abc' pqr by (simp_all only: div_pred zero_less_numeral)
  moreover have "r \<longrightarrow> q" "q \<longrightarrow> p" using h f unfolding pqr by blast+
  ultimately have "a - b + c - (a' - b' + c') = (if (p \<and> \<not> q) \<or> r then 1 else 0)"
    by (cases p; cases q; cases r) simp_all
  then show ?thesis unfolding abc abc' pqr .
qed

text \<open>Closed form of the code's computation: a linear part for the month, and one for the year.\<close>

definition year_days :: "int \<Rightarrow> int" where
  "year_days y = 365 * y + y div 4 - y div 100 + y div 400 - 719468"

lemma era_days:
  "y div 400 * 146097 + ((y - y div 400 * 400) * 365 + (y - y div 400 * 400) div 4 - (y - y div 400 * 400) div 100 + d)
     - 719468 = year_days y + d"
  using era_formula [of y] unfolding year_days_def by (simp only:)

lemma days_closed:
  assumes "1 \<le> year"
  shows "schedule_days_from_civil year month day =
      (if month \<le> 2 then year_days (year - 1) + ((153 * (month + 9) + 2) div 5 + day - 1)
       else year_days year + ((153 * (month - 3) + 2) div 5 + day - 1))"
proof -
  have c: "c_div (if 0 \<le> y then y else y - 399) 400 = y div 400" if "0 \<le> y" for y
    using that by (simp only: c_div_def if_P)
  show ?thesis
  proof (cases "month \<le> 2")
    case True
    then have nle: "\<not> 2 < month" by simp
    have "0 \<le> year - 1" using assms by simp
    note cy = c [OF this]
    show ?thesis unfolding schedule_days_from_civil_def Let_def if_P [OF True] if_not_P [OF nle] cy
      by (rule era_days)
  next
    case False
    then have lt: "2 < month" by simp
    have "0 \<le> year" using assms by simp
    note cy = c [OF this]
    show ?thesis unfolding schedule_days_from_civil_def Let_def if_not_P [OF False] if_P [OF lt] cy
      by (rule era_days)
  qed
qed

lemma time_days_same: "time_days_from_civil year month day = schedule_days_from_civil year month day"
  by (simp add: time_days_from_civil_def schedule_days_from_civil_def Let_def algebra_simps)

lemma leap_year_int: "leap_year y \<longleftrightarrow> (int y mod 4 = 0 \<and> int y mod 100 \<noteq> 0) \<or> int y mod 400 = 0"
proof -
  have "int y mod int k = int (y mod k)" for k by (simp add: zmod_int)
  from this [of 4] this [of 100] this [of 400] show ?thesis by (simp add: leap_year_def)
qed

lemma year_step: "year_days (int y) - year_days (int y - 1) = (if leap_year y then 366 else 365)"
proof -
  define a b c a' b' c' where "a = int y div 4" and "b = int y div 100" and "c = int y div 400"
    and "a' = (int y - 1) div 4" and "b' = (int y - 1) div 100" and "c' = (int y - 1) div 400"
  note d = this
  have "a - b + c - (a' - b' + c') = (if leap_year y then 1 else 0)"
    unfolding leap_year_int d by (rule leap_formula)
  then show ?thesis unfolding year_days_def d [symmetric] by (cases "leap_year y") simp_all
qed

lemma january: "schedule_days_from_civil (int (1970 + k)) 1 1 = days_before_year k"
proof (induction k)
  case 0
  show ?case by (simp add: schedule_days_from_civil_def c_div_def Let_def)
next
  case (Suc k)
  have "schedule_days_from_civil (int (1970 + Suc k)) 1 1 = year_days (int (1970 + k)) + 306"
    by (subst days_closed) simp_all
  moreover have "schedule_days_from_civil (int (1970 + k)) 1 1 = year_days (int (1970 + k) - 1) + 306"
    by (subst days_closed) simp_all
  ultimately show ?case using Suc year_step [of "1970 + k"] by simp
qed

text \<open>Both copies of the function count the days since the first of January 1970.\<close>

lemma days_from_civil_counts:
  assumes "1970 \<le> y" "1 \<le> m" "m \<le> 12"
  shows "schedule_days_from_civil (int y) (int m) d = days_before_year (y - 1970) + days_before_month y (m - 1) + d - 1"
proof -
  obtain k where y: "y = 1970 + k" using assms(1) le_Suc_ex by blast
  have base: "year_days (int y - 1) + 306 = days_before_year k"
    using january [of k] days_closed [of "int y" 1 1] assms(1) y by simp
  have m: "m = 1 \<or> m = 2 \<or> m = 3 \<or> m = 4 \<or> m = 5 \<or> m = 6 \<or> m = 7 \<or> m = 8 \<or> m = 9 \<or> m = 10 \<or> m = 11 \<or> m = 12"
    using assms(2,3) by arith
  have len: "days_before_month y (m - 1) =
    (if m \<le> 2 then (if m = 1 then 0 else 31)
     else (if leap_year y then 1 else 0) + (153 * (int m - 3) + 2) div 5 + 59)"
    using m by (auto simp: month_length_def days_per_month_def numeral_eq_Suc)
  show ?thesis
    using base len year_step [of y] m assms(1) y by (subst days_closed) (auto split: if_splits)
qed

end
