(* ===== verification/RtcAlarm.thy ===== *)
theory RtcAlarm
  imports ClockTime
begin

text \<open>
  The real-time clock service of \<open>src/src/services/solar_os_rtc.c\<close>: one provider, and one slot each for the
  alarm and the countdown, held by the owner that set it.

  What a provider answers is the record \<open>rtc_device\<close>; the calls made to it are kept in the order they
  are made in \<open>rt_calls\<close>. Every operation runs its critical sections one after the other.
\<close>

unbundle bit_operations_syntax

definition SOLAR_OS_RTC_OWNER_NAME_MAX :: nat where "SOLAR_OS_RTC_OWNER_NAME_MAX = 24"
definition SOLAR_OS_RTC_CAP_CALENDAR :: u32 where "SOLAR_OS_RTC_CAP_CALENDAR = 1"
definition SOLAR_OS_RTC_CAP_ALARM :: u32 where "SOLAR_OS_RTC_CAP_ALARM = 2"
definition SOLAR_OS_RTC_CAP_COUNTDOWN :: u32 where "SOLAR_OS_RTC_CAP_COUNTDOWN = 4"
definition SOLAR_OS_RTC_CAP_INTERRUPT_STATUS :: u32 where "SOLAR_OS_RTC_CAP_INTERRUPT_STATUS = 8"
definition MATCH_SECOND :: u32 where "MATCH_SECOND = 1"
definition MATCH_MINUTE :: u32 where "MATCH_MINUTE = 2"
definition MATCH_HOUR :: u32 where "MATCH_HOUR = 4"
definition MATCH_DAY :: u32 where "MATCH_DAY = 8"
definition MATCH_WEEKDAY :: u32 where "MATCH_WEEKDAY = 16"
definition RTC_ALARM_MATCH_ALL :: u32 where
  "RTC_ALARM_MATCH_ALL = MATCH_SECOND OR MATCH_MINUTE OR MATCH_HOUR OR MATCH_DAY OR MATCH_WEEKDAY"
definition SOLAR_OS_RTC_INTERRUPT_ALARM :: u32 where "SOLAR_OS_RTC_INTERRUPT_ALARM = 1"
definition SOLAR_OS_RTC_INTERRUPT_COUNTDOWN :: u32 where "SOLAR_OS_RTC_INTERRUPT_COUNTDOWN = 2"
definition RTC_INTERRUPT_ALL :: u32 where
  "RTC_INTERRUPT_ALL = SOLAR_OS_RTC_INTERRUPT_ALARM OR SOLAR_OS_RTC_INTERRUPT_COUNTDOWN"

record rtc_alarm =
  ra_match_fields :: u32
  ra_second :: u8
  ra_minute :: u8
  ra_hour :: u8
  ra_day :: u8
  ra_weekday :: u8

record rtc_provider =
  rp_time :: time_provider
  rp_set_alarm :: bool
  rp_disable_alarm :: bool
  rp_set_countdown :: bool
  rp_disable_countdown :: bool
  rp_get_interrupt_status :: bool
  rp_clear_interrupt_status :: bool
  rp_interrupt_gpio :: int
  rp_interrupt_active_level :: int

record rtc_device =
  rd_set_alarm :: "rtc_alarm \<Rightarrow> esp_err"
  rd_disable_alarm :: esp_err
  rd_set_countdown :: "u32 \<Rightarrow> bool \<Rightarrow> esp_err"
  rd_disable_countdown :: esp_err
  rd_get_interrupt_status :: "esp_err \<times> u32"
  rd_clear_interrupt_status :: "u32 \<Rightarrow> esp_err"

datatype rtc_call =
    Set_alarm rtc_alarm
  | Disable_alarm
  | Set_countdown u32 bool
  | Disable_countdown
  | Clear_interrupts u32

record rtc_state =
  rt_provider :: rtc_provider
  rt_provider_owner :: string
  rt_alarm_owner :: string
  rt_countdown_owner :: string
  rt_calls :: "rtc_call list"

definition no_provider :: rtc_provider where
  "no_provider = \<lparr>rp_time = \<lparr>tpv_get = None, tpv_set = None\<rparr>, rp_set_alarm = False, rp_disable_alarm = False,
     rp_set_countdown = False, rp_disable_countdown = False, rp_get_interrupt_status = False,
     rp_clear_interrupt_status = False, rp_interrupt_gpio = 0, rp_interrupt_active_level = 0\<rparr>"

definition rtc_state_init :: rtc_state where
  "rtc_state_init = \<lparr>rt_provider = no_provider, rt_provider_owner = [], rt_alarm_owner = [],
     rt_countdown_owner = [], rt_calls = []\<rparr>"

abbreviation rtc_log :: "rtc_call \<Rightarrow> rtc_state \<Rightarrow> rtc_state" where
  "rtc_log c s \<equiv> s\<lparr>rt_calls := rt_calls s @ [c]\<rparr>"

section \<open>Slots\<close>

definition callback_pair_is_valid :: "bool \<Rightarrow> bool \<Rightarrow> bool" where
  "callback_pair_is_valid first_present second_present = (first_present = second_present)"

definition owner_is_valid :: "string option \<Rightarrow> bool" where
  "owner_is_valid owner =
     (case owner of None \<Rightarrow> False | Some s \<Rightarrow> s \<noteq> [] \<and> length s < SOLAR_OS_RTC_OWNER_NAME_MAX)"

definition claim_slot :: "string \<Rightarrow> string option \<Rightarrow> esp_err \<times> string" where
  "claim_slot slot owner =
     (if \<not> owner_is_valid owner then (ESP_ERR_INVALID_ARG, slot)
      else if slot \<noteq> [] \<and> slot \<noteq> the owner then (ESP_ERR_INVALID_STATE, slot)
      else (ESP_OK, strlcpy SOLAR_OS_RTC_OWNER_NAME_MAX (the owner)))"

definition check_slot_owner :: "string \<Rightarrow> string option \<Rightarrow> esp_err" where
  "check_slot_owner slot owner =
     (if \<not> owner_is_valid owner then ESP_ERR_INVALID_ARG
      else if slot \<noteq> [] \<and> slot = the owner then ESP_OK else ESP_ERR_INVALID_STATE)"

definition release_slot :: "string \<Rightarrow> string \<Rightarrow> string" where
  "release_slot slot owner = (if slot = owner then [] else slot)"

definition rtc_provider_snapshot :: "rtc_state \<Rightarrow> rtc_provider option" where
  "rtc_provider_snapshot s = (if rt_provider_owner s \<noteq> [] then Some (rt_provider s) else None)"

definition alarm_is_valid :: "rtc_alarm option \<Rightarrow> bool" where
  "alarm_is_valid alarm =
     (case alarm of
        None \<Rightarrow> False
      | Some a \<Rightarrow>
          if ra_match_fields a = 0 \<or> ra_match_fields a AND NOT RTC_ALARM_MATCH_ALL \<noteq> 0 then False
          else (ra_match_fields a AND MATCH_SECOND = 0 \<or> ra_second a \<le> 59)
             \<and> (ra_match_fields a AND MATCH_MINUTE = 0 \<or> ra_minute a \<le> 59)
             \<and> (ra_match_fields a AND MATCH_HOUR = 0 \<or> ra_hour a \<le> 23)
             \<and> (ra_match_fields a AND MATCH_DAY = 0 \<or> (1 \<le> ra_day a \<and> ra_day a \<le> 31))
             \<and> (ra_match_fields a AND MATCH_WEEKDAY = 0 \<or> ra_weekday a \<le> 6))"

section \<open>The provider\<close>

definition rtc_clear_provider :: "rtc_state \<Rightarrow> rtc_state" where
  "rtc_clear_provider s = s\<lparr>rt_provider := no_provider, rt_provider_owner := [], rt_alarm_owner := [],
     rt_countdown_owner := []\<rparr>"

definition rtc_quiet_provider :: "rtc_device \<Rightarrow> rtc_provider \<Rightarrow> rtc_state \<Rightarrow> esp_err \<times> rtc_state" where
  "rtc_quiet_provider dev p s =
     (let (ret, s1) = (if rp_disable_alarm p then (rd_disable_alarm dev, rtc_log Disable_alarm s) else (ESP_OK, s));
          (ret, s2) = (if ret = ESP_OK \<and> rp_disable_countdown p
                       then (rd_disable_countdown dev, rtc_log Disable_countdown s1) else (ret, s1))
      in if ret = ESP_OK \<and> rp_clear_interrupt_status p
         then (rd_clear_interrupt_status dev RTC_INTERRUPT_ALL, rtc_log (Clear_interrupts RTC_INTERRUPT_ALL) s2)
         else (ret, s2))"

definition solar_os_rtc_register_provider ::
  "rtc_device \<Rightarrow> string option \<Rightarrow> rtc_provider option \<Rightarrow> rtc_state \<times> time_state
   \<Rightarrow> esp_err \<times> rtc_state \<times> time_state" where
  "solar_os_rtc_register_provider dev owner provider st =
     (case (owner, provider) of
        (Some own, Some p) \<Rightarrow>
          if own = [] \<or> SOLAR_OS_RTC_OWNER_NAME_MAX \<le> length own
             \<or> tpv_get (rp_time p) = None \<or> tpv_set (rp_time p) = None
             \<or> \<not> callback_pair_is_valid (rp_set_alarm p) (rp_disable_alarm p)
             \<or> \<not> callback_pair_is_valid (rp_set_countdown p) (rp_disable_countdown p)
             \<or> \<not> callback_pair_is_valid (rp_get_interrupt_status p) (rp_clear_interrupt_status p)
             \<or> rp_interrupt_gpio p < - 1
             \<or> (rp_interrupt_gpio p \<noteq> - 1 \<and> rp_interrupt_active_level p \<noteq> 0 \<and> rp_interrupt_active_level p \<noteq> 1)
          then (ESP_ERR_INVALID_ARG, st)
          else
            (case solar_os_time_register_provider owner (Some (rp_time p)) (snd st) of
               (ESP_OK, t1) \<Rightarrow>
                 let s = fst st;
                     (ret, s1) = (if rt_provider_owner s \<noteq> [] then (ESP_ERR_INVALID_STATE, s)
                                  else (ESP_OK, s\<lparr>rt_provider := p,
                                    rt_provider_owner := strlcpy SOLAR_OS_RTC_OWNER_NAME_MAX own\<rparr>));
                     (ret, s2) = (if ret = ESP_OK then rtc_quiet_provider dev p s1 else (ret, s1))
                 in if ret \<noteq> ESP_OK
                    then (ret, if rt_provider_owner s2 = own then rtc_clear_provider s2 else s2,
                          snd (solar_os_time_unregister_provider owner t1))
                    else (ret, s2, t1)
             | (ret, t1) \<Rightarrow> (ret, fst st, t1))
      | _ \<Rightarrow> (ESP_ERR_INVALID_ARG, st))"

definition solar_os_rtc_unregister_provider ::
  "string option \<Rightarrow> rtc_state \<times> time_state \<Rightarrow> esp_err \<times> rtc_state \<times> time_state" where
  "solar_os_rtc_unregister_provider owner st =
     (if owner = None then (ESP_ERR_INVALID_ARG, st)
      else if rt_provider_owner (fst st) \<noteq> the owner then (ESP_ERR_NOT_FOUND, st)
      else case solar_os_time_unregister_provider owner (snd st) of
             (ESP_OK, t1) \<Rightarrow> (ESP_OK, rtc_clear_provider (fst st), t1)
           | (ret, t1) \<Rightarrow> (ret, fst st, t1))"

definition solar_os_rtc_has_provider :: "rtc_state \<Rightarrow> bool" where
  "solar_os_rtc_has_provider s \<longleftrightarrow> rt_provider_owner s \<noteq> []"

record rtc_info =
  ri_provider :: string
  ri_capabilities :: u32
  ri_interrupt_gpio :: int
  ri_interrupt_active_level :: int
  ri_alarm_owner :: string
  ri_countdown_owner :: string

definition solar_os_rtc_get_info :: "bool \<Rightarrow> rtc_state \<Rightarrow> esp_err \<times> rtc_info option" where
  "solar_os_rtc_get_info info_present s =
     (if \<not> info_present then (ESP_ERR_INVALID_ARG, None)
      else if rt_provider_owner s = [] then (ESP_ERR_NOT_SUPPORTED, None)
      else
        let p = rt_provider s;
            caps = SOLAR_OS_RTC_CAP_CALENDAR
                   OR (if rp_set_alarm p then SOLAR_OS_RTC_CAP_ALARM else 0)
                   OR (if rp_set_countdown p then SOLAR_OS_RTC_CAP_COUNTDOWN else 0)
                   OR (if rp_get_interrupt_status p then SOLAR_OS_RTC_CAP_INTERRUPT_STATUS else 0)
        in (ESP_OK, Some \<lparr>ri_provider = strlcpy SOLAR_OS_RTC_OWNER_NAME_MAX (rt_provider_owner s),
              ri_capabilities = caps, ri_interrupt_gpio = rp_interrupt_gpio p,
              ri_interrupt_active_level = rp_interrupt_active_level p,
              ri_alarm_owner = strlcpy SOLAR_OS_RTC_OWNER_NAME_MAX (rt_alarm_owner s),
              ri_countdown_owner = strlcpy SOLAR_OS_RTC_OWNER_NAME_MAX (rt_countdown_owner s)\<rparr>))"

section \<open>Alarm and countdown\<close>

definition solar_os_rtc_set_alarm_for ::
  "rtc_device \<Rightarrow> string option \<Rightarrow> rtc_alarm option \<Rightarrow> rtc_state \<Rightarrow> esp_err \<times> rtc_state" where
  "solar_os_rtc_set_alarm_for dev owner alarm s =
     (if \<not> alarm_is_valid alarm then (ESP_ERR_INVALID_ARG, s)
      else case claim_slot (rt_alarm_owner s) owner of
             (ESP_OK, slot) \<Rightarrow>
               let s1 = s\<lparr>rt_alarm_owner := slot\<rparr>;
                   release = (\<lambda>s. s\<lparr>rt_alarm_owner := release_slot (rt_alarm_owner s) (the owner)\<rparr>)
               in (case rtc_provider_snapshot s1 of
                     None \<Rightarrow> (ESP_ERR_NOT_SUPPORTED, release s1)
                   | Some p \<Rightarrow>
                       if \<not> rp_set_alarm p then (ESP_ERR_NOT_SUPPORTED, release s1)
                       else
                         let ret = rd_set_alarm dev (the alarm); s2 = rtc_log (Set_alarm (the alarm)) s1
                         in (ret, if ret \<noteq> ESP_OK then release s2 else s2))
           | (ret, slot) \<Rightarrow> (ret, s))"

definition solar_os_rtc_disable_alarm_for :: "rtc_device \<Rightarrow> string option \<Rightarrow> rtc_state \<Rightarrow> esp_err \<times> rtc_state" where
  "solar_os_rtc_disable_alarm_for dev owner s =
     (case check_slot_owner (rt_alarm_owner s) owner of
        ESP_OK \<Rightarrow>
          (case rtc_provider_snapshot s of
             None \<Rightarrow> (ESP_ERR_NOT_SUPPORTED, s)
           | Some p \<Rightarrow>
               if \<not> rp_disable_alarm p then (ESP_ERR_NOT_SUPPORTED, s)
               else
                 let ret = rd_disable_alarm dev; s1 = rtc_log Disable_alarm s
                 in (ret, if ret = ESP_OK then s1\<lparr>rt_alarm_owner := release_slot (rt_alarm_owner s1) (the owner)\<rparr>
                          else s1))
      | ret \<Rightarrow> (ret, s))"

definition solar_os_rtc_set_countdown_for ::
  "rtc_device \<Rightarrow> string option \<Rightarrow> u32 \<Rightarrow> bool \<Rightarrow> rtc_state \<Rightarrow> esp_err \<times> rtc_state" where
  "solar_os_rtc_set_countdown_for dev owner period_seconds repeat s =
     (if period_seconds = 0 then (ESP_ERR_INVALID_ARG, s)
      else case claim_slot (rt_countdown_owner s) owner of
             (ESP_OK, slot) \<Rightarrow>
               let s1 = s\<lparr>rt_countdown_owner := slot\<rparr>;
                   release = (\<lambda>s. s\<lparr>rt_countdown_owner := release_slot (rt_countdown_owner s) (the owner)\<rparr>)
               in (case rtc_provider_snapshot s1 of
                     None \<Rightarrow> (ESP_ERR_NOT_SUPPORTED, release s1)
                   | Some p \<Rightarrow>
                       if \<not> rp_set_countdown p then (ESP_ERR_NOT_SUPPORTED, release s1)
                       else
                         let ret = rd_set_countdown dev period_seconds repeat;
                             s2 = rtc_log (Set_countdown period_seconds repeat) s1
                         in (ret, if ret \<noteq> ESP_OK then release s2 else s2))
           | (ret, slot) \<Rightarrow> (ret, s))"

definition solar_os_rtc_disable_countdown_for ::
  "rtc_device \<Rightarrow> string option \<Rightarrow> rtc_state \<Rightarrow> esp_err \<times> rtc_state" where
  "solar_os_rtc_disable_countdown_for dev owner s =
     (case check_slot_owner (rt_countdown_owner s) owner of
        ESP_OK \<Rightarrow>
          (case rtc_provider_snapshot s of
             None \<Rightarrow> (ESP_ERR_NOT_SUPPORTED, s)
           | Some p \<Rightarrow>
               if \<not> rp_disable_countdown p then (ESP_ERR_NOT_SUPPORTED, s)
               else
                 let ret = rd_disable_countdown dev; s1 = rtc_log Disable_countdown s
                 in (ret, if ret = ESP_OK
                          then s1\<lparr>rt_countdown_owner := release_slot (rt_countdown_owner s1) (the owner)\<rparr> else s1))
      | ret \<Rightarrow> (ret, s))"

definition solar_os_rtc_release_owner :: "rtc_device \<Rightarrow> string option \<Rightarrow> rtc_state \<Rightarrow> rtc_state" where
  "solar_os_rtc_release_owner dev owner s =
     (if \<not> owner_is_valid owner then s
      else case rtc_provider_snapshot s of
             None \<Rightarrow> s
           | Some p \<Rightarrow>
               let own = the owner;
                   owns_alarm = (rt_alarm_owner s = own);
                   owns_countdown = (rt_countdown_owner s = own);
                   s1 = (if owns_alarm \<and> rp_disable_alarm p then
                           let l = rtc_log Disable_alarm s
                           in if rd_disable_alarm dev = ESP_OK
                              then l\<lparr>rt_alarm_owner := release_slot (rt_alarm_owner l) own\<rparr> else l
                         else s)
               in if owns_countdown \<and> rp_disable_countdown p then
                    let l = rtc_log Disable_countdown s1
                    in if rd_disable_countdown dev = ESP_OK
                       then l\<lparr>rt_countdown_owner := release_slot (rt_countdown_owner l) own\<rparr> else l
                  else s1)"

definition solar_os_rtc_set_alarm :: "rtc_device \<Rightarrow> rtc_alarm option \<Rightarrow> rtc_state \<Rightarrow> esp_err \<times> rtc_state" where
  "solar_os_rtc_set_alarm dev alarm = solar_os_rtc_set_alarm_for dev (Some ''direct'') alarm"

definition solar_os_rtc_disable_alarm :: "rtc_device \<Rightarrow> rtc_state \<Rightarrow> esp_err \<times> rtc_state" where
  "solar_os_rtc_disable_alarm dev = solar_os_rtc_disable_alarm_for dev (Some ''direct'')"

definition solar_os_rtc_set_countdown :: "rtc_device \<Rightarrow> u32 \<Rightarrow> bool \<Rightarrow> rtc_state \<Rightarrow> esp_err \<times> rtc_state" where
  "solar_os_rtc_set_countdown dev period_seconds repeat =
     solar_os_rtc_set_countdown_for dev (Some ''direct'') period_seconds repeat"

definition solar_os_rtc_disable_countdown :: "rtc_device \<Rightarrow> rtc_state \<Rightarrow> esp_err \<times> rtc_state" where
  "solar_os_rtc_disable_countdown dev = solar_os_rtc_disable_countdown_for dev (Some ''direct'')"

definition solar_os_rtc_get_interrupt_status :: "rtc_device \<Rightarrow> bool \<Rightarrow> rtc_state \<Rightarrow> esp_err \<times> u32" where
  "solar_os_rtc_get_interrupt_status dev present s =
     (if \<not> present then (ESP_ERR_INVALID_ARG, 0)
      else case rtc_provider_snapshot s of
             None \<Rightarrow> (ESP_ERR_NOT_SUPPORTED, 0)
           | Some p \<Rightarrow> if \<not> rp_get_interrupt_status p then (ESP_ERR_NOT_SUPPORTED, 0)
                       else rd_get_interrupt_status dev)"

definition solar_os_rtc_clear_interrupt_status :: "rtc_device \<Rightarrow> u32 \<Rightarrow> rtc_state \<Rightarrow> esp_err \<times> rtc_state" where
  "solar_os_rtc_clear_interrupt_status dev interrupts s =
     (if interrupts = 0 \<or> interrupts AND NOT RTC_INTERRUPT_ALL \<noteq> 0 then (ESP_ERR_INVALID_ARG, s)
      else case rtc_provider_snapshot s of
             None \<Rightarrow> (ESP_ERR_NOT_SUPPORTED, s)
           | Some p \<Rightarrow> if \<not> rp_clear_interrupt_status p then (ESP_ERR_NOT_SUPPORTED, s)
                       else (rd_clear_interrupt_status dev interrupts, rtc_log (Clear_interrupts interrupts) s))"

end
