(* ===== verification/StorageFiles.thy ===== *)
theory StorageFiles
  imports SolarBase
begin

text \<open>
  The path and file helpers of \<open>src/src/services/solar_os_storage.c\<close> that the services share: joining a path
  to a mount point, the names beside a file, and the replacement of a file by a staged copy.

  The file system below is a map from paths to files. Whether a changing call is carried out is a
  parameter, one answer for each call of the function in its order; a call that the file system
  refuses changes nothing. \<open>solar_os_storage_replace_file\<close> also returns every state of the disc on
  the way, because the power can fail between any two calls.
\<close>

section \<open>Paths\<close>

definition SOLAR_OS_STORAGE_PATH_MAX :: nat where "SOLAR_OS_STORAGE_PATH_MAX = 160"

definition storage_append_path_segment :: "string \<Rightarrow> nat \<Rightarrow> string \<Rightarrow> string option" where
  "storage_append_path_segment out out_len segment =
     (let slash = (if out = ''/'' then [] else ''/'')
      in if out_len \<le> length out + length slash + length segment then None else Some (out @ slash @ segment))"

definition storage_pop_path_segment :: "string \<Rightarrow> nat \<Rightarrow> string" where
  "storage_pop_path_segment out root_len =
     (if length out \<le> root_len then take root_len out
      else
        let tail = takeWhile (\<lambda>c. c \<noteq> CHR ''/'') (rev out);
            slash = length out - length tail - 1
        in if CHR ''/'' \<notin> set out \<or> slash \<le> root_len then take root_len out else take slash out)"

function storage_join_loop :: "nat \<Rightarrow> nat \<Rightarrow> string \<Rightarrow> string \<Rightarrow> string option" where
  "storage_join_loop root_len path_len path cursor =
     (if cursor = [] then Some path
      else
        let start = dropWhile (\<lambda>c. c = CHR ''/'') cursor;
            segment = takeWhile (\<lambda>c. c \<noteq> CHR ''/'') start;
            next_cursor = dropWhile (\<lambda>c. c \<noteq> CHR ''/'') start
        in if segment = [] \<or> segment = ''.'' then storage_join_loop root_len path_len path next_cursor
           else if segment = ''..'' then
             storage_join_loop root_len path_len (storage_pop_path_segment path root_len) next_cursor
           else case storage_append_path_segment path path_len segment of
                  None \<Rightarrow> None
                | Some path' \<Rightarrow> storage_join_loop root_len path_len path' next_cursor)"
  by pat_completeness auto

lemma segment_shorter:
  "cursor \<noteq> [] \<Longrightarrow> length (dropWhile (\<lambda>c. c \<noteq> CHR ''/'') (dropWhile (\<lambda>c. c = CHR ''/'') cursor)) < length cursor"
proof -
  assume ne: "cursor \<noteq> []"
  show ?thesis
  proof (cases "dropWhile (\<lambda>c. c = CHR ''/'') cursor")
    case Nil
    show ?thesis unfolding Nil using ne by simp
  next
    case (Cons c s)
    then have "c \<noteq> CHR ''/''" by (metis (mono_tags, lifting) dropWhile_eq_Cons_conv)
    moreover have "length (c # s) \<le> length cursor" using length_dropWhile_le [of "\<lambda>c. c = CHR ''/''" cursor] Cons by simp
    ultimately show ?thesis using Cons length_dropWhile_le [of "\<lambda>c. c \<noteq> CHR ''/''" s] by simp
  qed
qed

termination storage_join_loop
  by (relation "measure (\<lambda>(_, _, _, cursor). length cursor)") (simp_all add: segment_shorter)

declare storage_join_loop.simps [simp del]

definition solar_os_storage_join_path :: "string option \<Rightarrow> string option \<Rightarrow> nat \<Rightarrow> esp_err \<times> string" where
  "solar_os_storage_join_path base_path relative_path path_len =
     (case base_path of
        None \<Rightarrow> (ESP_ERR_INVALID_ARG, [])
      | Some s \<Rightarrow>
          if take 1 s \<noteq> ''/'' \<or> path_len = 0 then (ESP_ERR_INVALID_ARG, [])
          else
            let stripped = rev (dropWhile (\<lambda>c. c = CHR ''/'') (rev s));
                base = (if stripped = [] then ''/'' else stripped)
            in if path_len \<le> length base then (ESP_ERR_INVALID_SIZE, [])
               else case storage_join_loop (length base) path_len base (cstr relative_path) of
                      None \<Rightarrow> (ESP_ERR_INVALID_SIZE, [])
                    | Some path \<Rightarrow> (ESP_OK, path))"

definition solar_os_storage_sibling_path :: "string option \<Rightarrow> string option \<Rightarrow> nat \<Rightarrow> esp_err \<times> string" where
  "solar_os_storage_sibling_path path suffix out_len =
     (if cstr path = [] \<or> cstr suffix = [] \<or> out_len = 0 then (ESP_ERR_INVALID_ARG, [])
      else
        let out = cstr path @ cstr suffix
        in (if length out < out_len then ESP_OK else ESP_ERR_INVALID_SIZE, strlcpy out_len out))"

section \<open>Files\<close>

datatype 'c file_node = Regular 'c | Other_node

type_synonym 'c disc = "string \<Rightarrow> 'c file_node option"

definition disc_remove :: "bool \<Rightarrow> string \<Rightarrow> 'c disc \<Rightarrow> bool \<times> 'c disc" where
  "disc_remove accepted path d = (if accepted \<and> d path \<noteq> None then (True, d(path := None)) else (False, d))"

definition disc_rename :: "bool \<Rightarrow> string \<Rightarrow> string \<Rightarrow> 'c disc \<Rightarrow> bool \<times> 'c disc" where
  "disc_rename accepted old new d =
     (if accepted \<and> d old \<noteq> None then (True, d(old := None, new := d old)) else (False, d))"

definition is_regular :: "'c file_node option \<Rightarrow> bool" where
  "is_regular n = (case n of Some (Regular c) \<Rightarrow> True | _ \<Rightarrow> False)"

definition solar_os_storage_remove :: "bool \<Rightarrow> string option \<Rightarrow> 'c disc \<Rightarrow> esp_err \<times> 'c disc" where
  "solar_os_storage_remove accepted path d =
     (if cstr path = [] then (ESP_ERR_INVALID_ARG, d)
      else let (removed, d') = disc_remove accepted (cstr path) d in (if removed then ESP_OK else ESP_FAIL, d'))"

definition solar_os_storage_rename :: "bool \<Rightarrow> string option \<Rightarrow> string option \<Rightarrow> 'c disc \<Rightarrow> esp_err \<times> 'c disc" where
  "solar_os_storage_rename accepted old new d =
     (if cstr old = [] \<or> cstr new = [] then (ESP_ERR_INVALID_ARG, d)
      else let (moved, d') = disc_rename accepted (cstr old) (cstr new) d in (if moved then ESP_OK else ESP_FAIL, d'))"

definition solar_os_storage_mkdir :: "bool \<Rightarrow> string option \<Rightarrow> esp_err" where
  "solar_os_storage_mkdir made path =
     (if cstr path = [] then ESP_ERR_INVALID_ARG else if made then ESP_OK else ESP_FAIL)"

text \<open>The stream handle is present or \<open>NULL\<close>; the answers of \<open>fflush\<close> and of \<open>fileno\<close> with \<open>fsync\<close>.\<close>

definition solar_os_storage_sync_file :: "bool \<Rightarrow> bool \<Rightarrow> bool \<Rightarrow> esp_err" where
  "solar_os_storage_sync_file present flushed synced =
     (if \<not> present then ESP_ERR_INVALID_ARG else if \<not> flushed then ESP_FAIL
      else if synced then ESP_OK else ESP_FAIL)"

text \<open>The calls are numbered: remove the backup, move the active file, move the staged file, move the
  backup back, remove the backup. The result has the states of the disc from the first to the last.\<close>

definition solar_os_storage_replace_file ::
  "(nat \<Rightarrow> bool) \<Rightarrow> string option \<Rightarrow> string option \<Rightarrow> string option \<Rightarrow> 'c disc \<Rightarrow> esp_err \<times> 'c disc list" where
  "solar_os_storage_replace_file accepts staged_path active_path backup_path d =
     (let staged = cstr staged_path; active = cstr active_path; backup = cstr backup_path
      in if staged = [] \<or> active = [] \<or> backup = [] \<or> staged = active \<or> staged = backup \<or> active = backup
         then (ESP_ERR_INVALID_ARG, [d])
         else if \<not> is_regular (d staged) then (ESP_ERR_NOT_FOUND, [d])
         else
           let had_active = (d active \<noteq> None);
               (cleared, d1) = (if d backup = None then (True, d) else disc_remove (accepts 0) backup d)
           in if \<not> cleared then (ESP_FAIL, [d, d1])
              else
                let (moved, d2) = (if had_active then disc_rename (accepts 1) active backup d1 else (True, d1))
                in if \<not> moved then (ESP_FAIL, [d, d1, d2])
                   else
                     let (replaced, d3) = disc_rename (accepts 2) staged active d2
                     in if \<not> replaced
                        then (ESP_FAIL,
                              [d, d1, d2, d3, if had_active then snd (disc_rename (accepts 3) backup active d3) else d3])
                        else (ESP_OK,
                              [d, d1, d2, d3, if had_active then snd (disc_remove (accepts 4) backup d3) else d3]))"


subsection \<open>Sibling paths\<close>

lemma sibling_ok:
  assumes "solar_os_storage_sibling_path (Some path) (Some suffix) out_len = (ESP_OK, out)"
  shows "out = path @ suffix \<and> path \<noteq> [] \<and> suffix \<noteq> [] \<and> length out < out_len"
  using assms by (auto simp: solar_os_storage_sibling_path_def cstr_def Let_def strlcpy_id split: if_splits)

lemma sibling_short:
  assumes "path \<noteq> []" "suffix \<noteq> []" "length path + length suffix < out_len"
  shows "solar_os_storage_sibling_path (Some path) (Some suffix) out_len = (ESP_OK, path @ suffix)"
  using assms by (simp add: solar_os_storage_sibling_path_def cstr_def strlcpy_id)

subsection \<open>The replacement\<close>

lemmas disc_calls = disc_remove_def disc_rename_def

text \<open>The cases of a call with three different names and a regular staged file.\<close>

lemma replace_unfold:
  assumes "staged \<noteq> []" "active \<noteq> []" "backup \<noteq> []" "staged \<noteq> active" "staged \<noteq> backup" "active \<noteq> backup"
    and "d staged = Some (Regular c)"
  shows "solar_os_storage_replace_file accepts (Some staged) (Some active) (Some backup) d =
    (let had_active = (d active \<noteq> None); d1 = d(backup := None); d2 = d1(active := None, backup := d active);
         d3 = d2(staged := None, active := Some (Regular c))
     in if d backup \<noteq> None \<and> \<not> accepts 0 then (ESP_FAIL, [d, d])
        else if had_active \<and> \<not> accepts 1 then (ESP_FAIL, [d, d1, d1])
        else if \<not> accepts 2
        then (ESP_FAIL, [d, d1, d2, d2, if had_active \<and> accepts 3 then d1 else d2])
        else (ESP_OK, [d, d1, d2, d3, if had_active \<and> accepts 4 then d3(backup := None) else d3]))"
proof -
  have names: "cstr (Some staged) = staged" "cstr (Some active) = active" "cstr (Some backup) = backup"
    by (simp_all add: cstr_def)
  have same: "d(backup := None) = d" if "d backup = None" using that by (simp add: fun_upd_idem)
  have noactive: "d(backup := None, active := None, backup := None) = d(backup := None)" if "d active = None"
    using that assms(6) by (auto simp: fun_eq_iff)
  show ?thesis
    unfolding solar_os_storage_replace_file_def names Let_def
    using assms same noactive
    by (cases "d backup"; cases "d active"; cases "accepts 0"; cases "accepts 1"; cases "accepts 2";
        cases "accepts 3"; cases "accepts 4")
      (simp_all add: is_regular_def disc_calls fun_upd_idem fun_upd_twist)
qed

lemma replace_keeps_a_copy:
  assumes "staged \<noteq> []" "active \<noteq> []" "backup \<noteq> []" "staged \<noteq> active" "staged \<noteq> backup" "active \<noteq> backup"
    and "d staged = Some (Regular c)"
    and "solar_os_storage_replace_file accepts (Some staged) (Some active) (Some backup) d = (err, discs)"
  shows "(\<forall>x\<in>set discs. (x active = d active \<or> (x active = None \<and> x backup = d active) \<or> x active = Some (Regular c))
           \<and> (x staged = Some (Regular c) \<or> x active = Some (Regular c))
           \<and> (\<forall>p. p \<notin> {staged, active, backup} \<longrightarrow> x p = d p))
     \<and> (err = ESP_OK \<longrightarrow> last discs active = Some (Regular c) \<and> last discs staged = None)
     \<and> (err \<noteq> ESP_OK \<longrightarrow> last discs staged = Some (Regular c)
          \<and> (last discs active = d active \<or> (last discs active = None \<and> last discs backup = d active)))"
  using assms(8) unfolding replace_unfold [where d = d, OF assms(1-7), of accepts] Let_def
  using assms(1-7) by (auto split: if_splits)

text \<open>
  C34. While a staged file replaces an active one the disc has, at every moment, the old file in its place
  or under the name of the backup, or the new file in its place; the staged file is there until it is
  the active one, and no other file changes. After success the new file is active; after a failure the
  old one is, unless the system also refused to move it back: then it is under the name of the backup.
\<close>

theorem storage_replace_crash_safe:
  assumes "staged \<noteq> []" "active \<noteq> []" "backup \<noteq> []" "staged \<noteq> active" "staged \<noteq> backup" "active \<noteq> backup"
    and "d staged = Some (Regular c)"
    and "solar_os_storage_replace_file accepts (Some staged) (Some active) (Some backup) d = (err, discs)"
  shows "(\<forall>x\<in>set discs. (x active = d active \<or> (x active = None \<and> x backup = d active) \<or> x active = Some (Regular c))
           \<and> (x staged = Some (Regular c) \<or> x active = Some (Regular c))
           \<and> (\<forall>p. p \<notin> {staged, active, backup} \<longrightarrow> x p = d p))
     \<and> (err = ESP_OK \<longrightarrow> last discs active = Some (Regular c) \<and> last discs staged = None)
     \<and> (err \<noteq> ESP_OK \<longrightarrow> last discs staged = Some (Regular c)
          \<and> (last discs active = d active \<or> (last discs active = None \<and> last discs backup = d active)))"
  by (rule replace_keeps_a_copy) (fact assms)+

definition sample_disc :: "nat disc" where
  "sample_disc = [''new'' \<mapsto> Regular 2, ''old'' \<mapsto> Regular 1]"

lemma storage_replace_crash_safe_witness:
  "(\<lambda>(err, discs). err = ESP_FAIL \<and> last discs ''old'' = None \<and> last discs ''bak'' = Some (Regular 1))
     (solar_os_storage_replace_file (\<lambda>n. n = 1) (Some ''new'') (Some ''old'') (Some ''bak'') sample_disc)"
proof -
  obtain err discs where r:
    "solar_os_storage_replace_file (\<lambda>n. n = 1) (Some ''new'') (Some ''old'') (Some ''bak'') sample_disc = (err, discs)"
    by fastforce
  have v: "solar_os_storage_replace_file (\<lambda>n. n = 1) (Some ''new'') (Some ''old'') (Some ''bak'') sample_disc
      = (ESP_FAIL, [sample_disc, sample_disc, [''new'' \<mapsto> Regular 2, ''bak'' \<mapsto> Regular 1],
           [''new'' \<mapsto> Regular 2, ''bak'' \<mapsto> Regular 1], [''new'' \<mapsto> Regular 2, ''bak'' \<mapsto> Regular 1]])"
    by (subst replace_unfold [where c = 2]) (simp_all add: sample_disc_def Let_def fun_upd_twist)
  have "last discs ''old'' = sample_disc ''old'' \<or> (last discs ''old'' = None \<and> last discs ''bak'' = sample_disc ''old'')"
    using storage_replace_crash_safe [where c = 2 and d = sample_disc, OF _ _ _ _ _ _ _ r] r v by (simp add: sample_disc_def)
  then show ?thesis using r v by (auto simp: sample_disc_def)
qed

text \<open>
  When a replacement fails and the move back fails too, the next replacement clears the backup first. If
  it fails as well, nothing of the old file is left.
\<close>

lemma replace_twice_loses:
  assumes "staged \<noteq> []" "active \<noteq> []" "backup \<noteq> []" "staged \<noteq> active" "staged \<noteq> backup" "active \<noteq> backup"
    and "d staged = Some (Regular c)" "d active = Some old"
  shows "\<exists>d1 d2. solar_os_storage_replace_file (\<lambda>n. n < 2) (Some staged) (Some active) (Some backup) d = (ESP_FAIL, d1)
    \<and> solar_os_storage_replace_file (\<lambda>n. n < 2) (Some staged) (Some active) (Some backup) (last d1) = (ESP_FAIL, d2)
    \<and> last d2 active = None \<and> last d2 backup = None"
proof -
  let ?x = "d(backup := None, active := None, backup := d active)"
  obtain d1 where r: "solar_os_storage_replace_file (\<lambda>n. n < 2) (Some staged) (Some active) (Some backup) d = (ESP_FAIL, d1)"
    and x: "last d1 = ?x"
    unfolding replace_unfold [where d = d, OF assms(1-7)] Let_def using assms by auto
  have s: "?x staged = Some (Regular c)" "?x active = None" using assms by auto
  have "solar_os_storage_replace_file (\<lambda>n. n < 2) (Some staged) (Some active) (Some backup) ?x
      = (ESP_FAIL, [?x, ?x(backup := None), ?x(backup := None), ?x(backup := None), ?x(backup := None)])"
    using replace_unfold [where d = ?x, OF assms(1-6) s(1), of "\<lambda>n. n < 2"] s(2) assms(6,8)
    by (simp add: Let_def fun_upd_idem)
  then show ?thesis unfolding r x [symmetric] using x assms(6) by fastforce
qed

end
