(* ===== verification/ScheduleCore.thy ===== *)
theory ScheduleCore
  imports RtcAlarm StorageFiles
begin

text \<open>
  The schedule service of \<open>src/src/services/solar_os_schedule.c\<close>: the table of entries, its store on the flash
  disc, the calendar, the poll of the main loop, the alarm registers of the real-time clock, and the
  calls of the header.

  The clock, the real-time clock and the disc are the models of \<open>ClockTime\<close>, \<open>RtcAlarm\<close> and
  \<open>StorageFiles\<close>. The answers of the C library and of ESP-IDF are the record \<open>schedule_env\<close>; the clock
  may give another answer for every entry of a poll. Numbers of 64 bits are \<open>nat\<close> with the
  wrap-around written out.
\<close>

unbundle bit_operations_syntax

section \<open>Entries\<close>

definition SOLAR_OS_SCHEDULE_MAX_ENTRIES :: nat where "SOLAR_OS_SCHEDULE_MAX_ENTRIES = 16"
definition SOLAR_OS_SCHEDULE_NAME_MAX :: nat where "SOLAR_OS_SCHEDULE_NAME_MAX = 24"
definition SOLAR_OS_SCHEDULE_VALUE_MAX :: nat where "SOLAR_OS_SCHEDULE_VALUE_MAX = 128"
definition SCHEDULE_STORE_MAGIC :: u32 where "SCHEDULE_STORE_MAGIC = 0x53434844"
definition SCHEDULE_STORE_VERSION :: u16 where "SCHEDULE_STORE_VERSION = 1"
definition SCHEDULE_STORE_DIR :: string where "SCHEDULE_STORE_DIR = ''.solar''"
definition SCHEDULE_STORE_FILE :: string where "SCHEDULE_STORE_FILE = ''.solar/schedule.bin''"
definition SCHEDULE_RTC_OWNER :: string where "SCHEDULE_RTC_OWNER = ''schedule''"
definition SCHEDULE_ALARM_TONE_INTERVAL_MS :: nat where "SCHEDULE_ALARM_TONE_INTERVAL_MS = 1600"

datatype schedule_kind = ONCE_RELATIVE | ONCE_CALENDAR | INTERVAL | DAILY | WEEKLY | KIND_OTHER nat

datatype schedule_action = ACTION_ALARM | ACTION_SCRIPT | ACTION_OTHER nat

record schedule_entry =
  en_name :: string
  en_kind :: schedule_kind
  en_action :: schedule_action
  en_value :: string
  en_enabled :: bool
  en_persistent :: bool
  en_interval_seconds :: u32
  en_at_utc_seconds :: nat
  en_hour :: u8
  en_minute :: u8
  en_second :: u8
  en_weekdays :: u8
  en_next_utc_seconds :: nat
  en_next_uptime_ms :: nat
  en_run_count :: u32
  en_skipped_count :: u32

definition zero_entry :: schedule_entry where
  "zero_entry = \<lparr>en_name = [], en_kind = ONCE_RELATIVE, en_action = ACTION_ALARM, en_value = [],
     en_enabled = False, en_persistent = False, en_interval_seconds = 0, en_at_utc_seconds = 0, en_hour = 0,
     en_minute = 0, en_second = 0, en_weekdays = 0, en_next_utc_seconds = 0, en_next_uptime_ms = 0,
     en_run_count = 0, en_skipped_count = 0\<rparr>"

record schedule_store =
  st_magic :: u32
  st_version :: u16
  st_count :: u16
  st_slots :: "schedule_entry list"

text \<open>What a file holds: a whole store, or bytes that are none.\<close>

datatype store_file = Whole schedule_store | Damaged

record schedule_state =
  sc_mutex :: bool
  sc_entries :: "schedule_entry list"
  sc_script_runner :: "nat option"
  sc_script_task :: bool
  sc_pending_script :: string
  sc_alarm_active :: bool
  sc_alarm_name :: string
  sc_last_alarm_tone_ms :: nat
  sc_armed_utc_seconds :: nat
  sc_armed_countdown_uptime_ms :: nat
  sc_attempted_countdown_uptime_ms :: nat
  sc_countdown_attempt_ms :: nat
  sc_store_path :: string
  sc_tones :: nat
  sc_time :: time_state
  sc_rtc :: rtc_state
  sc_disc :: "store_file disc"

record schedule_env =
  ev_clock :: time_platform
  ev_later :: "nat \<Rightarrow> time_platform"
  ev_flash_mounted :: bool
  ev_mount_point :: "string option"
  ev_mkdir :: bool
  ev_eexist :: bool
  ev_mutex :: bool
  ev_calloc :: bool
  ev_fopen :: bool
  ev_fwrite :: bool
  ev_fflush :: bool
  ev_fsync :: bool
  ev_fclose :: bool
  ev_replace :: "nat \<Rightarrow> bool"
  ev_remove :: bool
  ev_task_create :: "string \<Rightarrow> bool"
  ev_audio :: bool
  ev_rtc :: rtc_device

definition u64 :: "nat \<Rightarrow> nat" where "u64 n = n mod 18446744073709551616"

definition u64_sub :: "nat \<Rightarrow> nat \<Rightarrow> nat" where "u64_sub a b = u64 (a + (18446744073709551616 - b))"

definition u64_of_int :: "int \<Rightarrow> nat" where "u64_of_int i = nat (i mod 18446744073709551616)"

definition time_t_of :: "nat \<Rightarrow> int" where
  "time_t_of n = (if n < 9223372036854775808 then int n else int n - 18446744073709551616)"

definition UINT32_MAX :: nat where "UINT32_MAX = 4294967295"
definition U64_MAX :: nat where "U64_MAX = 18446744073709551615"

abbreviation interval_ms :: "schedule_entry \<Rightarrow> nat" where
  "interval_ms e \<equiv> unat (en_interval_seconds e) * 1000"

definition name_char :: "char \<Rightarrow> bool" where
  "name_char c \<longleftrightarrow> (let n = (of_char c :: nat) in (97 \<le> n \<and> n \<le> 122) \<or> (65 \<le> n \<and> n \<le> 90)
                     \<or> (48 \<le> n \<and> n \<le> 57) \<or> n = 45 \<or> n = 95)"

definition name_valid :: "string option \<Rightarrow> bool" where
  "name_valid name =
     (case name of
        None \<Rightarrow> False
      | Some s \<Rightarrow> \<not> (s = [] \<or> SOLAR_OS_SCHEDULE_NAME_MAX \<le> length s) \<and> list_all name_char s)"

definition action_valid :: "schedule_action \<Rightarrow> string option \<Rightarrow> bool" where
  "action_valid action text =
     (if action = ACTION_ALARM then cstr text = []
      else action = ACTION_SCRIPT \<and> text \<noteq> None \<and> take 1 (cstr text) = ''/''
           \<and> length (cstr text) < SOLAR_OS_SCHEDULE_VALUE_MAX)"

definition entry_index :: "string \<Rightarrow> schedule_entry list \<Rightarrow> nat option" where
  "entry_index name es = find (\<lambda>i. en_name (es ! i) = name) [0..<length es]"

definition stored_entry_valid :: "schedule_entry \<Rightarrow> bool" where
  "stored_entry_valid e =
     (if \<not> en_persistent e \<or> \<not> name_valid (Some (en_name e)) \<or> \<not> action_valid (en_action e) (Some (en_value e))
         \<or> en_kind e \<notin> {ONCE_RELATIVE, ONCE_CALENDAR, INTERVAL, DAILY, WEEKLY} then False
      else if (en_kind e = ONCE_RELATIVE \<or> en_kind e = INTERVAL) \<and> en_interval_seconds e = 0 then False
      else if en_kind e = ONCE_CALENDAR \<and> en_at_utc_seconds e = 0 then False
      else if (en_kind e = DAILY \<or> en_kind e = WEEKLY)
              \<and> (23 < en_hour e \<or> 59 < en_minute e \<or> 59 < en_second e) then False
      else en_kind e \<noteq> WEEKLY \<or> (en_weekdays e \<noteq> 0 \<and> en_weekdays e AND 0x80 = 0))"

definition store_valid :: "schedule_store \<Rightarrow> bool" where
  "store_valid st =
     (if st_magic st \<noteq> SCHEDULE_STORE_MAGIC \<or> st_version st \<noteq> SCHEDULE_STORE_VERSION
         \<or> SOLAR_OS_SCHEDULE_MAX_ENTRIES < unat (st_count st) then False
      else list_all (\<lambda>i. stored_entry_valid (st_slots st ! i)
                       \<and> list_all (\<lambda>j. en_name (st_slots st ! i) \<noteq> en_name (st_slots st ! j)) [0..<i])
             [0..<unat (st_count st)])"

section \<open>The store\<close>

definition prepare_store_path :: "schedule_env \<Rightarrow> schedule_state \<Rightarrow> esp_err \<times> schedule_state" where
  "prepare_store_path ev s =
     (if \<not> ev_flash_mounted ev then (ESP_ERR_INVALID_STATE, s)
      else case solar_os_storage_join_path (ev_mount_point ev) (Some SCHEDULE_STORE_DIR) SOLAR_OS_STORAGE_PATH_MAX of
             (ESP_OK, directory) \<Rightarrow>
               if solar_os_storage_mkdir (ev_mkdir ev) (Some directory) \<noteq> ESP_OK \<and> \<not> ev_eexist ev then (ESP_FAIL, s)
               else (case solar_os_storage_join_path (ev_mount_point ev) (Some SCHEDULE_STORE_FILE)
                            SOLAR_OS_STORAGE_PATH_MAX of
                       (err, path) \<Rightarrow> (err, s\<lparr>sc_store_path := path\<rparr>))
           | (err, _) \<Rightarrow> (err, s))"

definition stored_copy :: "schedule_entry \<Rightarrow> schedule_entry" where
  "stored_copy e = e\<lparr>en_next_utc_seconds := 0, en_next_uptime_ms := 0\<rparr>"

definition store_of :: "schedule_entry list \<Rightarrow> schedule_store" where
  "store_of es =
     (let kept = map stored_copy (filter en_persistent es)
      in \<lparr>st_magic = SCHEDULE_STORE_MAGIC, st_version = SCHEDULE_STORE_VERSION, st_count = of_nat (length kept),
          st_slots = kept @ replicate (SOLAR_OS_SCHEDULE_MAX_ENTRIES - length kept) zero_entry\<rparr>)"

text \<open>The result and the states of the disc on the way.\<close>

definition save_locked_steps :: "schedule_env \<Rightarrow> schedule_state \<Rightarrow> esp_err \<times> store_file disc list" where
  "save_locked_steps ev s =
     (let d = sc_disc s; active = sc_store_path s
      in if active = [] then (ESP_ERR_INVALID_STATE, [d])
         else if \<not> ev_calloc ev then (ESP_ERR_NO_MEM, [d])
         else
           let (err, staged) = solar_os_storage_sibling_path (Some active) (Some ''.tmp'') SOLAR_OS_STORAGE_PATH_MAX;
               (err, backup) = (if err = ESP_OK
                 then solar_os_storage_sibling_path (Some active) (Some ''.bak'') SOLAR_OS_STORAGE_PATH_MAX
                 else (err, []));
               (err, discs) =
                 (if err \<noteq> ESP_OK then (err, [d])
                  else if \<not> ev_fopen ev then (ESP_FAIL, [d])
                  else
                    let opened = d(staged := Some (Regular Damaged));
                        err = (if \<not> ev_fwrite ev then ESP_FAIL
                               else solar_os_storage_sync_file True (ev_fflush ev) (ev_fsync ev));
                        err = (if \<not> ev_fclose ev \<and> err = ESP_OK then ESP_FAIL else err)
                    in (err, if err = ESP_OK then [d, opened, d(staged := Some (Regular (Whole (store_of (sc_entries s)))))]
                             else [d, opened]));
               (err, discs) =
                 (if err \<noteq> ESP_OK then (err, discs)
                  else case solar_os_storage_replace_file (ev_replace ev) (Some staged) (Some active) (Some backup)
                              (last discs) of
                         (err, replaced) \<Rightarrow> (err, discs @ replaced))
           in (err, if err \<noteq> ESP_OK \<and> staged \<noteq> []
                    then discs @ [snd (solar_os_storage_remove (ev_remove ev) (Some staged) (last discs))] else discs))"

definition save_locked :: "schedule_env \<Rightarrow> schedule_state \<Rightarrow> esp_err \<times> schedule_state" where
  "save_locked ev s = (let (err, discs) = save_locked_steps ev s in (err, s\<lparr>sc_disc := last discs\<rparr>))"

definition load_entries :: "schedule_env \<Rightarrow> schedule_state \<Rightarrow> schedule_state" where
  "load_entries ev s =
     (if sc_store_path s = [] then s
      else case sc_disc s (sc_store_path s) of
             Some (Regular (Whole st)) \<Rightarrow>
               if ev_fopen ev \<and> ev_calloc ev \<and> store_valid st
               then s\<lparr>sc_entries := take (unat (st_count st)) (st_slots st)\<rparr> else s
           | _ \<Rightarrow> s)"

section \<open>The calendar\<close>

definition utc_seconds_from_datetime :: "solar_os_datetime option \<Rightarrow> nat option" where
  "utc_seconds_from_datetime datetime =
     (if \<not> solar_os_time_datetime_is_valid datetime then None
      else
        let d = the datetime;
            days = schedule_days_from_civil (uint (dt_year d)) (uint (dt_month d)) (uint (dt_day d))
        in if days < 0 then None
           else Some (u64 (nat days * 86400 + unat (dt_hour d) * 3600 + unat (dt_minute d) * 60 + unat (dt_second d))))"

definition local_seconds ::
  "time_platform \<Rightarrow> u16 \<Rightarrow> u8 \<Rightarrow> u8 \<Rightarrow> u8 \<Rightarrow> u8 \<Rightarrow> u8 \<Rightarrow> time_state \<Rightarrow> nat option \<times> time_state" where
  "local_seconds tp year month day hour minute second t =
     (let here = \<lparr>dt_year = year, dt_month = month, dt_day = day, dt_hour = hour, dt_minute = minute,
                   dt_second = second, dt_weekday = 0, dt_clock_integrity = True\<rparr>
      in if \<not> solar_os_time_datetime_is_valid (Some here) then (None, t)
         else case solar_os_time_local_to_utc tp (Some here) True t of
                ((ESP_OK, utc), t1) \<Rightarrow> (utc_seconds_from_datetime (Some utc), t1)
              | ((_, _), t1) \<Rightarrow> (None, t1))"

definition month_days :: "u16 \<Rightarrow> u8 \<Rightarrow> nat" where
  "month_days year month =
     (if month = 2 \<and> leap_year (unat year) then 29 else days_per_month ! (unat month - 1))"

definition next_local_day :: "solar_os_datetime \<Rightarrow> solar_os_datetime" where
  "next_local_day d =
     (let d1 = d\<lparr>dt_day := dt_day d + 1, dt_weekday := of_nat ((unat (dt_weekday d) + 1) mod 7)\<rparr>
      in if month_days (dt_year d1) (dt_month d1) < unat (dt_day d1)
         then let d2 = d1\<lparr>dt_day := 1, dt_month := dt_month d1 + 1\<rparr>
              in if 12 < dt_month d2 then d2\<lparr>dt_month := 1, dt_year := dt_year d2 + 1\<rparr> else d2
         else d1)"

definition weekday_matches :: "schedule_entry \<Rightarrow> solar_os_datetime \<Rightarrow> bool" where
  "weekday_matches e here \<longleftrightarrow>
     en_kind e = DAILY \<or> (ucast (en_weekdays e) AND push_bit (unat (dt_weekday here)) (1 :: u32)) \<noteq> 0"

fun calendar_search ::
  "time_platform \<Rightarrow> nat \<Rightarrow> schedule_entry \<Rightarrow> nat \<Rightarrow> solar_os_datetime \<Rightarrow> time_state \<Rightarrow> nat option \<times> time_state" where
  "calendar_search tp 0 e now_utc here t = (None, t)"
| "calendar_search tp (Suc days) e now_utc here t =
     (let (candidate, t1) = (if weekday_matches e here
                             then local_seconds tp (dt_year here) (dt_month here) (dt_day here)
                                    (en_hour e) (en_minute e) (en_second e) t
                             else (None, t))
      in case candidate of
           Some c \<Rightarrow> if now_utc < c then (Some c, t1)
                     else calendar_search tp days e now_utc (next_local_day here) t1
         | None \<Rightarrow> calendar_search tp days e now_utc (next_local_day here) t1)"

definition compute_calendar_next_locked ::
  "time_platform \<Rightarrow> schedule_entry \<Rightarrow> nat \<Rightarrow> time_state \<Rightarrow> bool \<times> schedule_entry \<times> time_state" where
  "compute_calendar_next_locked tp e now_utc t =
     (if en_kind e = ONCE_CALENDAR
      then (now_utc < en_at_utc_seconds e, e\<lparr>en_next_utc_seconds := en_at_utc_seconds e\<rparr>, t)
      else case solar_os_time_get_datetime tp t of
             ((ret, here), t1) \<Rightarrow>
               if ret \<noteq> ESP_OK \<or> \<not> dt_clock_integrity here then (False, e\<lparr>en_next_utc_seconds := 0\<rparr>, t1)
               else case calendar_search tp 8 e now_utc here t1 of
                      (Some c, t2) \<Rightarrow> (True, e\<lparr>en_next_utc_seconds := c\<rparr>, t2)
                    | (None, t2) \<Rightarrow> (False, e\<lparr>en_next_utc_seconds := 0\<rparr>, t2))"

end
