(* ===== verification/ScheduleCalls.thy ===== *)
theory ScheduleCalls
  imports ScheduleCore "HOL-Library.Monad_Syntax"
begin

text \<open>
  The operations of the schedule service \<open>src/src/services/solar_os_schedule.c\<close>: starting, triggering an
  entry, the poll of the main loop with the registers of the real-time clock, and the calls of the header.

  The catch-up loop of an interval entry is a \<open>partial_function\<close>: a poll that would not return is
  \<open>None\<close>.
\<close>

unbundle bit_operations_syntax

section \<open>Start and table\<close>

definition schedule_state_init :: "time_state \<Rightarrow> rtc_state \<Rightarrow> store_file disc \<Rightarrow> schedule_state" where
  "schedule_state_init t r d = \<lparr>sc_mutex = False, sc_entries = [], sc_script_runner = None, sc_script_task = False,
     sc_pending_script = [], sc_alarm_active = False, sc_alarm_name = [], sc_last_alarm_tone_ms = 0,
     sc_armed_utc_seconds = 0, sc_armed_countdown_uptime_ms = 0, sc_attempted_countdown_uptime_ms = 0,
     sc_countdown_attempt_ms = 0, sc_store_path = [], sc_tones = 0, sc_time = t, sc_rtc = r, sc_disc = d\<rparr>"

definition solar_os_schedule_init :: "schedule_env \<Rightarrow> schedule_state \<Rightarrow> esp_err \<times> schedule_state" where
  "solar_os_schedule_init ev s =
     (if sc_mutex s then (ESP_OK, s)
      else
        let s0 = (schedule_state_init (sc_time s) (sc_rtc s) (sc_disc s))\<lparr>sc_tones := sc_tones s\<rparr>
        in if \<not> ev_mutex ev then (ESP_ERR_NO_MEM, s0)
           else
             let (store_err, s1) = prepare_store_path ev (s0\<lparr>sc_mutex := True\<rparr>);
                 s2 = (if store_err = ESP_OK then load_entries ev s1 else s1);
                 now_ms = solar_os_time_uptime_ms (ev_clock ev)
             in (ESP_OK, s2\<lparr>sc_entries := map (\<lambda>e. if en_kind e = INTERVAL
                   then e\<lparr>en_next_uptime_ms := u64 (now_ms + interval_ms e)\<rparr> else e) (sc_entries s2)\<rparr>))"

definition solar_os_schedule_set_script_runner :: "nat option \<Rightarrow> schedule_state \<Rightarrow> schedule_state" where
  "solar_os_schedule_set_script_runner runner s = (if sc_mutex s then s\<lparr>sc_script_runner := runner\<rparr> else s)"

text \<open>The task that runs a script: what it reads when it starts, and how it ends.\<close>

definition script_task_start :: "schedule_state \<Rightarrow> string \<times> nat option" where
  "script_task_start s = (strlcpy SOLAR_OS_SCHEDULE_VALUE_MAX (sc_pending_script s), sc_script_runner s)"

definition script_task_end :: "schedule_state \<Rightarrow> schedule_state" where
  "script_task_end s = s\<lparr>sc_pending_script := [], sc_script_task := False\<rparr>"

definition add_entry :: "schedule_env \<Rightarrow> schedule_entry \<Rightarrow> schedule_state \<Rightarrow> esp_err \<times> schedule_state" where
  "add_entry ev e s =
     (if \<not> sc_mutex s \<or> \<not> name_valid (Some (en_name e)) \<or> \<not> action_valid (en_action e) (Some (en_value e))
      then (ESP_ERR_INVALID_ARG, s)
      else if entry_index (en_name e) (sc_entries s) \<noteq> None then (ESP_ERR_INVALID_STATE, s)
      else if SOLAR_OS_SCHEDULE_MAX_ENTRIES \<le> length (sc_entries s) then (ESP_ERR_NO_MEM, s)
      else
        let s1 = s\<lparr>sc_entries := sc_entries s @ [e]\<rparr>;
            (err, s2) = (if en_persistent e then save_locked ev s1 else (ESP_OK, s1))
        in (err, if err \<noteq> ESP_OK then s2\<lparr>sc_entries := butlast (sc_entries s2)\<rparr> else s2))"

section \<open>Due entries\<close>

definition trigger_locked ::
  "schedule_env \<Rightarrow> schedule_entry \<Rightarrow> schedule_state \<Rightarrow> bool \<times> schedule_entry \<times> schedule_state" where
  "trigger_locked ev entry s =
     (let e = entry\<lparr>en_run_count := en_run_count entry + 1\<rparr>
      in if en_action e = ACTION_ALARM
         then (True, e, s\<lparr>sc_alarm_active := True, sc_alarm_name := strlcpy SOLAR_OS_SCHEDULE_NAME_MAX (en_name e),
                           sc_last_alarm_tone_ms := 0\<rparr>)
         else if sc_script_task s \<or> sc_pending_script s \<noteq> [] \<or> sc_script_runner s = None
         then (False, e\<lparr>en_skipped_count := en_skipped_count e + 1\<rparr>, s)
         else if \<not> ev_task_create ev (strlcpy SOLAR_OS_SCHEDULE_VALUE_MAX (en_value e))
         then (False, e\<lparr>en_skipped_count := en_skipped_count e + 1\<rparr>,
               s\<lparr>sc_pending_script := [], sc_script_task := False\<rparr>)
         else (True, e, s\<lparr>sc_pending_script := strlcpy SOLAR_OS_SCHEDULE_VALUE_MAX (en_value e),
                          sc_script_task := True\<rparr>))"

definition service_alarm_sound :: "schedule_env \<Rightarrow> nat \<Rightarrow> schedule_state \<Rightarrow> schedule_state" where
  "service_alarm_sound ev now_ms s =
     (if \<not> ev_audio ev then s
      else
        let due = (sc_alarm_active s \<and> (sc_last_alarm_tone_ms s = 0
                   \<or> SCHEDULE_ALARM_TONE_INTERVAL_MS \<le> u64_sub now_ms (sc_last_alarm_tone_ms s)))
        in if due then s\<lparr>sc_last_alarm_tone_ms := now_ms, sc_tones := sc_tones s + 1\<rparr> else s)"

section \<open>The registers of the real-time clock\<close>

definition tm_time_of_day :: "tm \<Rightarrow> nat" where
  "tm_time_of_day t = u64 (u64_of_int (tm_hour t) * 3600 + u64_of_int (tm_min t) * 60 + u64_of_int (tm_sec t))"

fun rtc_alarm_search :: "time_platform \<Rightarrow> nat \<Rightarrow> nat \<Rightarrow> nat \<Rightarrow> nat \<Rightarrow> nat \<Rightarrow> tm \<Rightarrow> nat \<Rightarrow> bool" where
  "rtc_alarm_search tp 0 offset day_start time_of_day now_utc target_tm target_utc = False"
| "rtc_alarm_search tp (Suc n) offset day_start time_of_day now_utc target_tm target_utc =
     (let candidate = u64 (day_start + offset * 86400 + time_of_day)
      in if candidate \<le> now_utc
         then rtc_alarm_search tp n (offset + 1) day_start time_of_day now_utc target_tm target_utc
         else case tp_gmtime tp (time_t_of candidate) of
                None \<Rightarrow> False
              | Some candidate_tm \<Rightarrow>
                  if tm_mday candidate_tm = tm_mday target_tm then candidate = target_utc
                  else rtc_alarm_search tp n (offset + 1) day_start time_of_day now_utc target_tm target_utc)"

definition rtc_alarm_can_represent :: "time_platform \<Rightarrow> nat \<Rightarrow> nat \<Rightarrow> bool" where
  "rtc_alarm_can_represent tp now_utc target_utc =
     (case tp_gmtime tp (time_t_of target_utc) of
        None \<Rightarrow> False
      | Some target_tm \<Rightarrow>
          rtc_alarm_search tp 63 0 (now_utc - now_utc mod 86400) (tm_time_of_day target_tm) now_utc target_tm
            target_utc)"

definition schedule_rtc_alarm :: "tm \<Rightarrow> rtc_alarm" where
  "schedule_rtc_alarm t =
     \<lparr>ra_match_fields = MATCH_SECOND OR MATCH_MINUTE OR MATCH_HOUR OR MATCH_DAY,
      ra_second = word_of_int (tm_sec t), ra_minute = word_of_int (tm_min t), ra_hour = word_of_int (tm_hour t),
      ra_day = word_of_int (tm_mday t), ra_weekday = 0\<rparr>"

definition update_rtc_alarm :: "schedule_env \<Rightarrow> nat \<Rightarrow> nat \<Rightarrow> schedule_state \<Rightarrow> schedule_state" where
  "update_rtc_alarm ev next_utc now_utc s =
     (let clear = (\<lambda>info s. (if ri_alarm_owner info = SCHEDULE_RTC_OWNER
                      then s\<lparr>sc_rtc := snd (solar_os_rtc_disable_alarm_for (ev_rtc ev) (Some SCHEDULE_RTC_OWNER) (sc_rtc s))\<rparr>
                      else s)\<lparr>sc_armed_utc_seconds := 0\<rparr>)
      in case solar_os_rtc_get_info True (sc_rtc s) of
           (ESP_OK, Some info) \<Rightarrow>
             if ri_capabilities info AND SOLAR_OS_RTC_CAP_ALARM = 0 then s\<lparr>sc_armed_utc_seconds := 0\<rparr>
             else if next_utc = 0 then clear info s
             else if \<not> rtc_alarm_can_represent (ev_clock ev) now_utc next_utc then clear info s
             else if sc_armed_utc_seconds s = next_utc \<and> ri_alarm_owner info = SCHEDULE_RTC_OWNER then s
             else (case tp_gmtime (ev_clock ev) (time_t_of next_utc) of
                     None \<Rightarrow> s
                   | Some utc_tm \<Rightarrow>
                       let (err, r) = solar_os_rtc_set_alarm_for (ev_rtc ev) (Some SCHEDULE_RTC_OWNER)
                             (Some (schedule_rtc_alarm utc_tm)) (sc_rtc s)
                       in s\<lparr>sc_rtc := r, sc_armed_utc_seconds := (if err = ESP_OK then next_utc else 0)\<rparr>)
         | (_, _) \<Rightarrow> s\<lparr>sc_armed_utc_seconds := 0\<rparr>)"

definition update_rtc_countdown :: "schedule_env \<Rightarrow> nat \<Rightarrow> nat \<Rightarrow> schedule_state \<Rightarrow> schedule_state" where
  "update_rtc_countdown ev next_uptime_ms now_ms s =
     (case solar_os_rtc_get_info True (sc_rtc s) of
        (ESP_OK, Some info) \<Rightarrow>
          if ri_capabilities info AND SOLAR_OS_RTC_CAP_COUNTDOWN = 0
          then s\<lparr>sc_armed_countdown_uptime_ms := 0, sc_attempted_countdown_uptime_ms := 0\<rparr>
          else if next_uptime_ms = 0
          then (if ri_countdown_owner info = SCHEDULE_RTC_OWNER
                then s\<lparr>sc_rtc := snd (solar_os_rtc_disable_countdown_for (ev_rtc ev) (Some SCHEDULE_RTC_OWNER) (sc_rtc s))\<rparr>
                else s)\<lparr>sc_armed_countdown_uptime_ms := 0, sc_attempted_countdown_uptime_ms := 0\<rparr>
          else if sc_armed_countdown_uptime_ms s = next_uptime_ms \<and> ri_countdown_owner info = SCHEDULE_RTC_OWNER
          then s
          else if sc_attempted_countdown_uptime_ms s = next_uptime_ms
                  \<and> u64_sub now_ms (sc_countdown_attempt_ms s) < 1000
          then s
          else
            let s1 = s\<lparr>sc_attempted_countdown_uptime_ms := next_uptime_ms, sc_countdown_attempt_ms := now_ms\<rparr>;
                remaining = (if now_ms < next_uptime_ms then u64 (next_uptime_ms - now_ms + 999) div 1000 else 1)
            in if UINT32_MAX < remaining then s1\<lparr>sc_armed_countdown_uptime_ms := 0\<rparr>
               else
                 let (err, r) = solar_os_rtc_set_countdown_for (ev_rtc ev) (Some SCHEDULE_RTC_OWNER)
                                  (of_nat remaining) False (sc_rtc s1)
                 in s1\<lparr>sc_rtc := r, sc_armed_countdown_uptime_ms := (if err = ESP_OK then next_uptime_ms else 0)\<rparr>
      | (_, _) \<Rightarrow> s\<lparr>sc_armed_countdown_uptime_ms := 0, sc_attempted_countdown_uptime_ms := 0\<rparr>)"

section \<open>The poll\<close>

partial_function (option) interval_catch_up :: "nat \<Rightarrow> nat \<Rightarrow> nat \<Rightarrow> nat option" where
  "interval_catch_up now_ms step next_ms =
     (let n = u64 (next_ms + step) in if n \<le> now_ms then interval_catch_up now_ms step n else Some n)"

record poll_acc =
  pa_state :: schedule_state
  pa_next_utc :: nat
  pa_next_uptime :: nat
  pa_changed :: bool

definition earlier :: "nat \<Rightarrow> nat \<Rightarrow> nat" where
  "earlier best candidate = (if best = 0 \<or> candidate < best then candidate else best)"

abbreviation is_timer :: "schedule_kind \<Rightarrow> bool" where
  "is_timer k \<equiv> k = ONCE_RELATIVE \<or> k = INTERVAL"

text \<open>A timer entry: whether it is due, with its next time.\<close>

definition poll_timer :: "nat \<Rightarrow> schedule_entry \<Rightarrow> (bool \<times> schedule_entry) option" where
  "poll_timer now_ms entry =
     (let e = (if en_next_uptime_ms entry = 0
               then entry\<lparr>en_next_uptime_ms := u64 (now_ms + interval_ms entry)\<rparr> else entry);
          due = (en_next_uptime_ms e \<le> now_ms)
      in if due \<and> en_kind e = INTERVAL
         then do { n \<leftarrow> interval_catch_up now_ms (interval_ms e) (en_next_uptime_ms e);
                   Some (due, e\<lparr>en_next_uptime_ms := n\<rparr>) }
         else Some (due, e))"

definition poll_timer_wakes :: "nat \<Rightarrow> bool \<Rightarrow> nat \<Rightarrow> schedule_entry \<Rightarrow> poll_acc \<Rightarrow> poll_acc" where
  "poll_timer_wakes now_ms time_valid now_utc e a =
     (let a1 = (if time_valid \<and> now_ms < en_next_uptime_ms e
                then a\<lparr>pa_next_utc := earlier (pa_next_utc a)
                         (u64 (now_utc + u64 (en_next_uptime_ms e - now_ms + 999) div 1000))\<rparr>
                else a)
      in if now_ms < en_next_uptime_ms e
         then a1\<lparr>pa_next_uptime := earlier (pa_next_uptime a1) (en_next_uptime_ms e)\<rparr> else a1)"

text \<open>A calendar entry, once the time is known.\<close>

definition poll_calendar ::
  "time_platform \<Rightarrow> nat \<Rightarrow> schedule_entry \<Rightarrow> poll_acc \<Rightarrow> bool \<times> schedule_entry \<times> poll_acc" where
  "poll_calendar tp now_utc entry a =
     (let s = pa_state a;
          (e, t) = (if en_next_utc_seconds entry = 0
                    then snd (compute_calendar_next_locked tp entry now_utc (sc_time s)) else (entry, sc_time s));
          a1 = a\<lparr>pa_state := s\<lparr>sc_time := t\<rparr>\<rparr>;
          due = (en_next_utc_seconds e \<noteq> 0 \<and> en_next_utc_seconds e \<le> now_utc)
      in (due, e,
          if \<not> due \<and> en_next_utc_seconds e \<noteq> 0
          then a1\<lparr>pa_next_utc := earlier (pa_next_utc a1) (en_next_utc_seconds e)\<rparr> else a1))"

definition poll_due ::
  "schedule_env \<Rightarrow> time_platform \<Rightarrow> bool \<Rightarrow> nat \<Rightarrow> schedule_entry \<Rightarrow> poll_acc \<Rightarrow> schedule_entry \<times> poll_acc" where
  "poll_due ev tp time_valid now_utc entry a =
     (let (ran, e, s) = trigger_locked ev entry (pa_state a)
      in if en_kind e = ONCE_RELATIVE \<or> en_kind e = ONCE_CALENDAR
         then (e\<lparr>en_enabled := False\<rparr>, a\<lparr>pa_state := s, pa_changed := (pa_changed a \<or> en_persistent e)\<rparr>)
         else if en_kind e = DAILY \<or> en_kind e = WEEKLY
         then
           let e0 = e\<lparr>en_next_utc_seconds := 0\<rparr>
           in if \<not> time_valid then (e0, a\<lparr>pa_state := s\<rparr>)
              else case compute_calendar_next_locked tp e0 now_utc (sc_time s) of
                     (found, e1, t) \<Rightarrow>
                       (e1, a\<lparr>pa_state := s\<lparr>sc_time := t\<rparr>,
                              pa_next_utc := (if found then earlier (pa_next_utc a) (en_next_utc_seconds e1)
                                              else pa_next_utc a)\<rparr>)
         else (e, a\<lparr>pa_state := s\<rparr>))"

definition poll_entry ::
  "schedule_env \<Rightarrow> time_platform \<Rightarrow> nat \<Rightarrow> bool \<Rightarrow> nat \<Rightarrow> schedule_entry \<Rightarrow> poll_acc
   \<Rightarrow> (schedule_entry \<times> poll_acc) option" where
  "poll_entry ev tp now_ms time_valid now_utc entry a =
     (if \<not> en_enabled entry then Some (entry, a)
      else do {
        (due, e, a1) \<leftarrow>
          (if is_timer (en_kind entry)
           then do { (due, e) \<leftarrow> poll_timer now_ms entry;
                     Some (due, e, poll_timer_wakes now_ms time_valid now_utc e a) }
           else if time_valid then Some (poll_calendar tp now_utc entry a)
           else Some (False, entry, a));
        Some (if due then poll_due ev tp time_valid now_utc e a1 else (e, a1)) })"

definition poll_at ::
  "schedule_env \<Rightarrow> nat \<Rightarrow> bool \<Rightarrow> nat \<Rightarrow> nat \<Rightarrow> poll_acc \<Rightarrow> poll_acc option" where
  "poll_at ev now_ms time_valid now_utc i a =
     do { (e, a1) \<leftarrow> poll_entry ev (ev_later ev i) now_ms time_valid now_utc (sc_entries (pa_state a) ! i) a;
          Some (a1\<lparr>pa_state := (pa_state a1)\<lparr>sc_entries := (sc_entries (pa_state a1))[i := e]\<rparr>\<rparr>) }"

fun poll_loop ::
  "schedule_env \<Rightarrow> nat \<Rightarrow> bool \<Rightarrow> nat \<Rightarrow> nat list \<Rightarrow> poll_acc \<Rightarrow> poll_acc option" where
  "poll_loop ev now_ms time_valid now_utc [] a = Some a"
| "poll_loop ev now_ms time_valid now_utc (i # is) a =
     do { a1 \<leftarrow> poll_at ev now_ms time_valid now_utc i a; poll_loop ev now_ms time_valid now_utc is a1 }"

definition poll_interrupts :: "schedule_env \<Rightarrow> schedule_state \<Rightarrow> schedule_state" where
  "poll_interrupts ev s =
     (case solar_os_rtc_get_info True (sc_rtc s) of
        (ESP_OK, Some info) \<Rightarrow>
          let owned = (if ri_alarm_owner info = SCHEDULE_RTC_OWNER then SOLAR_OS_RTC_INTERRUPT_ALARM else 0)
                      OR (if ri_countdown_owner info = SCHEDULE_RTC_OWNER then SOLAR_OS_RTC_INTERRUPT_COUNTDOWN else 0);
              (err, pending) = solar_os_rtc_get_interrupt_status (ev_rtc ev) True (sc_rtc s)
          in if err = ESP_OK \<and> pending AND owned \<noteq> 0
             then s\<lparr>sc_rtc := snd (solar_os_rtc_clear_interrupt_status (ev_rtc ev) (pending AND owned) (sc_rtc s))\<rparr>
             else s
      | (_, _) \<Rightarrow> s)"

definition solar_os_schedule_poll :: "schedule_env \<Rightarrow> schedule_state \<Rightarrow> schedule_state option" where
  "solar_os_schedule_poll ev s =
     (if \<not> sc_mutex s then Some s
      else
        let now_ms = solar_os_time_uptime_ms (ev_clock ev);
            (err, epoch_ms) = solar_os_time_get_utc_epoch_ms (ev_clock ev) (sc_time s) True;
            time_valid = (err = ESP_OK);
            now_utc = epoch_ms div 1000
        in do {
          a \<leftarrow> poll_loop ev now_ms time_valid now_utc [0..<length (sc_entries s)]
                 \<lparr>pa_state = s, pa_next_utc = 0, pa_next_uptime = 0, pa_changed = False\<rparr>;
          let s1 = (if pa_changed a then snd (save_locked ev (pa_state a)) else pa_state a);
          let s2 = service_alarm_sound ev now_ms s1;
          let s3 = update_rtc_alarm ev (pa_next_utc a) now_utc s2;
          let s4 = update_rtc_countdown ev (pa_next_uptime a) now_ms s3;
          Some (poll_interrupts ev s4) })"

section \<open>The calls of the header\<close>

definition fill_action :: "schedule_entry \<Rightarrow> schedule_action \<Rightarrow> string option \<Rightarrow> schedule_entry" where
  "fill_action e action text =
     (let e1 = e\<lparr>en_action := action\<rparr>
      in case text of None \<Rightarrow> e1 | Some v \<Rightarrow> e1\<lparr>en_value := strlcpy SOLAR_OS_SCHEDULE_VALUE_MAX v\<rparr>)"

abbreviation named_entry :: "string option \<Rightarrow> schedule_kind \<Rightarrow> schedule_entry" where
  "named_entry name kind \<equiv> zero_entry\<lparr>en_name := strlcpy SOLAR_OS_SCHEDULE_NAME_MAX (cstr name), en_kind := kind,
     en_enabled := True, en_persistent := True\<rparr>"

definition solar_os_schedule_add_relative ::
  "schedule_env \<Rightarrow> string option \<Rightarrow> u32 \<Rightarrow> schedule_action \<Rightarrow> string option \<Rightarrow> bool \<Rightarrow> schedule_state
   \<Rightarrow> esp_err \<times> schedule_state" where
  "solar_os_schedule_add_relative ev name seconds action text persistent s =
     (if seconds = 0 \<or> \<not> name_valid name \<or> \<not> action_valid action text then (ESP_ERR_INVALID_ARG, s)
      else
        let e = (named_entry name ONCE_RELATIVE)\<lparr>en_persistent := persistent, en_interval_seconds := seconds,
                  en_next_uptime_ms := u64 (solar_os_time_uptime_ms (ev_clock ev) + unat seconds * 1000)\<rparr>
        in add_entry ev (fill_action e action text) s)"

definition solar_os_schedule_add_interval ::
  "schedule_env \<Rightarrow> string option \<Rightarrow> u32 \<Rightarrow> schedule_action \<Rightarrow> string option \<Rightarrow> schedule_state
   \<Rightarrow> esp_err \<times> schedule_state" where
  "solar_os_schedule_add_interval ev name seconds action text s =
     (if seconds = 0 \<or> \<not> name_valid name \<or> \<not> action_valid action text then (ESP_ERR_INVALID_ARG, s)
      else
        let e = (named_entry name INTERVAL)\<lparr>en_interval_seconds := seconds,
                  en_next_uptime_ms := u64 (solar_os_time_uptime_ms (ev_clock ev) + unat seconds * 1000)\<rparr>
        in add_entry ev (fill_action e action text) s)"

definition solar_os_schedule_add_at ::
  "schedule_env \<Rightarrow> string option \<Rightarrow> u16 \<Rightarrow> u8 \<Rightarrow> u8 \<Rightarrow> u8 \<Rightarrow> u8 \<Rightarrow> u8 \<Rightarrow> schedule_action \<Rightarrow> string option
   \<Rightarrow> schedule_state \<Rightarrow> esp_err \<times> schedule_state" where
  "solar_os_schedule_add_at ev name year month day hour minute second action text s =
     (if \<not> name_valid name \<or> \<not> action_valid action text then (ESP_ERR_INVALID_ARG, s)
      else case local_seconds (ev_clock ev) year month day hour minute second (sc_time s) of
             (None, t) \<Rightarrow> (ESP_ERR_INVALID_ARG, s\<lparr>sc_time := t\<rparr>)
           | (Some at_utc, t) \<Rightarrow>
               let s1 = s\<lparr>sc_time := t\<rparr>;
                   (err, now_ms) = solar_os_time_get_utc_epoch_ms (ev_clock ev) t True
               in if err \<noteq> ESP_OK \<or> at_utc \<le> now_ms div 1000 then (ESP_ERR_INVALID_ARG, s1)
                  else
                    let e = (named_entry name ONCE_CALENDAR)\<lparr>en_at_utc_seconds := at_utc,
                              en_next_utc_seconds := at_utc\<rparr>
                    in add_entry ev (fill_action e action text) s1)"

definition add_recurring ::
  "schedule_env \<Rightarrow> string option \<Rightarrow> schedule_kind \<Rightarrow> u8 \<Rightarrow> u8 \<Rightarrow> u8 \<Rightarrow> u8 \<Rightarrow> schedule_action \<Rightarrow> string option
   \<Rightarrow> schedule_state \<Rightarrow> esp_err \<times> schedule_state" where
  "add_recurring ev name kind weekdays hour minute second action text s =
     (if \<not> name_valid name \<or> \<not> action_valid action text \<or> 23 < hour \<or> 59 < minute \<or> 59 < second
         \<or> (kind = WEEKLY \<and> (weekdays = 0 \<or> weekdays AND 0x80 \<noteq> 0))
      then (ESP_ERR_INVALID_ARG, s)
      else
        let e = (named_entry name kind)\<lparr>en_hour := hour, en_minute := minute, en_second := second,
                  en_weekdays := weekdays\<rparr>
        in add_entry ev (fill_action e action text) s)"

definition solar_os_schedule_add_daily ::
  "schedule_env \<Rightarrow> string option \<Rightarrow> u8 \<Rightarrow> u8 \<Rightarrow> u8 \<Rightarrow> schedule_action \<Rightarrow> string option \<Rightarrow> schedule_state
   \<Rightarrow> esp_err \<times> schedule_state" where
  "solar_os_schedule_add_daily ev name hour minute second action text =
     add_recurring ev name DAILY 0 hour minute second action text"

definition solar_os_schedule_add_weekly ::
  "schedule_env \<Rightarrow> string option \<Rightarrow> u8 \<Rightarrow> u8 \<Rightarrow> u8 \<Rightarrow> u8 \<Rightarrow> schedule_action \<Rightarrow> string option \<Rightarrow> schedule_state
   \<Rightarrow> esp_err \<times> schedule_state" where
  "solar_os_schedule_add_weekly ev name weekdays hour minute second action text =
     add_recurring ev name WEEKLY weekdays hour minute second action text"

definition solar_os_schedule_count :: "schedule_state \<Rightarrow> nat" where
  "solar_os_schedule_count s = (if sc_mutex s then length (sc_entries s) else 0)"

definition solar_os_schedule_get :: "nat \<Rightarrow> bool \<Rightarrow> schedule_state \<Rightarrow> schedule_entry option" where
  "solar_os_schedule_get index present s =
     (if sc_mutex s \<and> present \<and> index < length (sc_entries s) then Some (sc_entries s ! index) else None)"

definition solar_os_schedule_get_by_name ::
  "string option \<Rightarrow> bool \<Rightarrow> schedule_state \<Rightarrow> esp_err \<times> schedule_entry option" where
  "solar_os_schedule_get_by_name name present s =
     (if \<not> sc_mutex s \<or> name = None \<or> \<not> present then (ESP_ERR_INVALID_ARG, None)
      else case entry_index (the name) (sc_entries s) of
             None \<Rightarrow> (ESP_ERR_NOT_FOUND, None)
           | Some i \<Rightarrow> (ESP_OK, Some (sc_entries s ! i)))"

definition solar_os_schedule_remove ::
  "schedule_env \<Rightarrow> string option \<Rightarrow> schedule_state \<Rightarrow> esp_err \<times> schedule_state" where
  "solar_os_schedule_remove ev name s =
     (if \<not> sc_mutex s \<or> name = None then (ESP_ERR_INVALID_ARG, s)
      else case entry_index (the name) (sc_entries s) of
             None \<Rightarrow> (ESP_ERR_NOT_FOUND, s)
           | Some i \<Rightarrow>
               let removed = sc_entries s ! i;
                   s1 = s\<lparr>sc_entries := take i (sc_entries s) @ drop (Suc i) (sc_entries s)\<rparr>;
                   (err, s2) = (if en_persistent removed then save_locked ev s1 else (ESP_OK, s1))
               in (err, if err \<noteq> ESP_OK
                        then s2\<lparr>sc_entries := take i (sc_entries s2) @ removed # drop i (sc_entries s2)\<rparr> else s2))"

text \<open>An entry that is switched: its times are computed anew.\<close>

definition enabled_entry :: "schedule_env \<Rightarrow> bool \<Rightarrow> schedule_entry \<Rightarrow> schedule_entry" where
  "enabled_entry ev enabled previous =
     (let e = previous\<lparr>en_enabled := enabled, en_next_utc_seconds := 0\<rparr>
      in if enabled \<and> is_timer (en_kind e)
         then e\<lparr>en_next_uptime_ms := u64 (solar_os_time_uptime_ms (ev_clock ev) + interval_ms e)\<rparr> else e)"

definition solar_os_schedule_set_enabled ::
  "schedule_env \<Rightarrow> string option \<Rightarrow> bool \<Rightarrow> schedule_state \<Rightarrow> esp_err \<times> schedule_state" where
  "solar_os_schedule_set_enabled ev name enabled s =
     (if \<not> sc_mutex s \<or> name = None then (ESP_ERR_INVALID_ARG, s)
      else case entry_index (the name) (sc_entries s) of
             None \<Rightarrow> (ESP_ERR_NOT_FOUND, s)
           | Some i \<Rightarrow>
               let previous = sc_entries s ! i;
                   e = enabled_entry ev enabled previous;
                   s1 = s\<lparr>sc_entries := (sc_entries s)[i := e]\<rparr>;
                   (err, s2) = (if en_persistent e then save_locked ev s1 else (ESP_OK, s1))
               in (err, if err \<noteq> ESP_OK then s2\<lparr>sc_entries := (sc_entries s2)[i := previous]\<rparr> else s2))"

definition solar_os_schedule_run ::
  "schedule_env \<Rightarrow> string option \<Rightarrow> schedule_state \<Rightarrow> esp_err \<times> schedule_state" where
  "solar_os_schedule_run ev name s =
     (if \<not> sc_mutex s \<or> name = None then (ESP_ERR_INVALID_ARG, s)
      else case entry_index (the name) (sc_entries s) of
             None \<Rightarrow> (ESP_ERR_NOT_FOUND, s)
           | Some i \<Rightarrow>
               let (ran, e, s1) = trigger_locked ev (sc_entries s ! i) s
               in (if ran then ESP_OK else ESP_ERR_INVALID_STATE, s1\<lparr>sc_entries := (sc_entries s1)[i := e]\<rparr>))"

definition solar_os_schedule_remaining_seconds ::
  "schedule_env \<Rightarrow> string option \<Rightarrow> bool \<Rightarrow> schedule_state \<Rightarrow> esp_err \<times> u32 option" where
  "solar_os_schedule_remaining_seconds ev name present s =
     (if \<not> sc_mutex s \<or> name = None \<or> \<not> present then (ESP_ERR_INVALID_ARG, None)
      else case entry_index (the name) (sc_entries s) of
             None \<Rightarrow> (ESP_ERR_NOT_FOUND, None)
           | Some i \<Rightarrow>
               let e = sc_entries s ! i;
                   cut = (\<lambda>remaining. (ESP_OK, Some (of_nat (if UINT32_MAX < remaining then UINT32_MAX else remaining))))
               in if \<not> en_enabled e then (ESP_ERR_NOT_FOUND, None)
                  else if is_timer (en_kind e) then
                    let now = solar_os_time_uptime_ms (ev_clock ev)
                    in cut (if now < en_next_uptime_ms e then u64 (en_next_uptime_ms e - now + 999) div 1000 else 0)
                  else
                    let (err, epoch_ms) = solar_os_time_get_utc_epoch_ms (ev_clock ev) (sc_time s) True
                    in if err \<noteq> ESP_OK \<or> en_next_utc_seconds e = 0 then (ESP_ERR_INVALID_STATE, None)
                       else cut (if epoch_ms div 1000 < en_next_utc_seconds e
                                 then en_next_utc_seconds e - epoch_ms div 1000 else 0))"

definition solar_os_schedule_alarm_active :: "nat option \<Rightarrow> schedule_state \<Rightarrow> bool \<times> string option" where
  "solar_os_schedule_alarm_active name_len s =
     (if \<not> sc_mutex s then (False, None)
      else (sc_alarm_active s,
            case name_len of
              None \<Rightarrow> None
            | Some n \<Rightarrow> if 0 < n then Some (strlcpy n (if sc_alarm_active s then sc_alarm_name s else [])) else None))"

definition solar_os_schedule_stop_alarm :: "schedule_state \<Rightarrow> schedule_state" where
  "solar_os_schedule_stop_alarm s = (if sc_mutex s then s\<lparr>sc_alarm_active := False, sc_alarm_name := []\<rparr> else s)"

text \<open>Milliseconds until an entry needs the device, or the largest number.\<close>

definition wake_candidate :: "nat \<Rightarrow> bool \<Rightarrow> nat \<Rightarrow> schedule_entry \<Rightarrow> nat" where
  "wake_candidate now_ms time_valid epoch_ms e =
     (if is_timer (en_kind e)
      then (if now_ms < en_next_uptime_ms e then en_next_uptime_ms e - now_ms else 1)
      else if time_valid \<and> en_next_utc_seconds e \<noteq> 0
      then let due_ms = u64 (en_next_utc_seconds e * 1000) in if epoch_ms < due_ms then due_ms - epoch_ms else 1
      else U64_MAX)"

definition best_wake :: "nat \<Rightarrow> bool \<Rightarrow> nat \<Rightarrow> schedule_entry list \<Rightarrow> nat" where
  "best_wake now_ms time_valid epoch_ms es =
     fold (\<lambda>e best. if \<not> en_enabled e then best
                    else let candidate = wake_candidate now_ms time_valid epoch_ms e
                         in if candidate < best then candidate else best) es U64_MAX"

definition solar_os_schedule_next_wake_us :: "schedule_env \<Rightarrow> bool \<Rightarrow> schedule_state \<Rightarrow> nat option" where
  "solar_os_schedule_next_wake_us ev present s =
     (if \<not> sc_mutex s \<or> \<not> present then None
      else
        let (err, epoch_ms) = solar_os_time_get_utc_epoch_ms (ev_clock ev) (sc_time s) True;
            best_ms = best_wake (solar_os_time_uptime_ms (ev_clock ev)) (err = ESP_OK) epoch_ms (sc_entries s)
        in if best_ms = U64_MAX then None else Some (u64 (best_ms * 1000)))"

definition solar_os_schedule_kind_name :: "schedule_kind \<Rightarrow> string" where
  "solar_os_schedule_kind_name kind =
     (case kind of ONCE_RELATIVE \<Rightarrow> ''in'' | ONCE_CALENDAR \<Rightarrow> ''at'' | INTERVAL \<Rightarrow> ''every'' | DAILY \<Rightarrow> ''daily''
      | WEEKLY \<Rightarrow> ''weekly'' | KIND_OTHER n \<Rightarrow> ''unknown'')"

definition solar_os_schedule_action_name :: "schedule_action \<Rightarrow> string" where
  "solar_os_schedule_action_name action =
     (if action = ACTION_ALARM then ''alarm'' else if action = ACTION_SCRIPT then ''run'' else ''unknown'')"

end
