(* ===== verification/ScheduleCalendar.thy ===== *)
theory ScheduleCalendar
  imports ScheduleCalls
begin

text \<open>
  The calendar of the schedule service: the day numbers of the two services, the next local day, and
  what the search for the next occurrence of an entry finds.
\<close>

section \<open>Valid dates\<close>

lemma valid_date:
  assumes "datetime_is_valid (Some d)"
  shows "2000 \<le> unat (dt_year d)" "1 \<le> unat (dt_month d)" "unat (dt_month d) \<le> 12" "1 \<le> unat (dt_day d)"
    "unat (dt_day d) \<le> month_length (unat (dt_year d)) (unat (dt_month d))" "unat (dt_hour d) \<le> 23"
    "unat (dt_minute d) \<le> 59" "unat (dt_second d) \<le> 59" "unat (dt_weekday d) \<le> 6"
proof -
  have m2: "(dt_month d = 2) = (unat (dt_month d) = 2)" by (simp add: word_unat_eq_iff)
  show "2000 \<le> unat (dt_year d)" "1 \<le> unat (dt_month d)" "unat (dt_month d) \<le> 12" "1 \<le> unat (dt_day d)"
    "unat (dt_day d) \<le> month_length (unat (dt_year d)) (unat (dt_month d))" "unat (dt_hour d) \<le> 23"
    "unat (dt_minute d) \<le> 59" "unat (dt_second d) \<le> 59" "unat (dt_weekday d) \<le> 6"
    using assms unfolding datetime_is_valid_def month_length_def
    by (auto simp: Let_def m2 word_less_nat_alt word_le_nat_alt split: if_splits)
qed


lemma valid_dateI:
  assumes "2000 \<le> unat (dt_year d)" "1 \<le> unat (dt_month d)" "unat (dt_month d) \<le> 12" "1 \<le> unat (dt_day d)"
    "unat (dt_day d) \<le> month_length (unat (dt_year d)) (unat (dt_month d))" "unat (dt_hour d) \<le> 23"
    "unat (dt_minute d) \<le> 59" "unat (dt_second d) \<le> 59" "unat (dt_weekday d) \<le> 6"
  shows "datetime_is_valid (Some d)"
proof -
  have m2: "(dt_month d = 2) = (unat (dt_month d) = 2)" by (simp add: word_unat_eq_iff)
  show ?thesis
    using assms unfolding datetime_is_valid_def month_length_def
    by (auto simp: Let_def m2 word_less_nat_alt word_le_nat_alt)
qed

lemma month_length_bounds: "1 \<le> m \<Longrightarrow> m \<le> 12 \<Longrightarrow> 28 \<le> month_length y m \<and> month_length y m \<le> 31"
proof -
  assume "1 \<le> m" "m \<le> 12"
  then have "m - 1 < 12" by simp
  moreover have "list_all (\<lambda>n. 28 \<le> n \<and> n \<le> 31) days_per_month" by (simp add: days_per_month_def)
  ultimately have "28 \<le> days_per_month ! (m - 1) \<and> days_per_month ! (m - 1) \<le> 31"
    by (simp add: list_all_length days_per_month_def)
  then show ?thesis by (simp add: month_length_def)
qed

lemma month_days_length: "unat m = k \<Longrightarrow> month_days y m = month_length (unat y) k"
  by (auto simp: month_days_def month_length_def word_unat_eq_iff)

section \<open>The next day\<close>

lemma unat_u8_suc: "unat (w :: u8) < 255 \<Longrightarrow> unat (w + 1) = unat w + 1"
  by (simp add: unat_word_ariths)

lemma unat_u16_suc: "unat (w :: u16) < 65535 \<Longrightarrow> unat (w + 1) = unat w + 1"
  by (simp add: unat_word_ariths)


text \<open>The date in numbers: the day is followed by the next of its month, of the year, or of the next year.\<close>

lemma next_local_day_cases:
  assumes "datetime_is_valid (Some d)"
  defines "y \<equiv> unat (dt_year d)" and "m \<equiv> unat (dt_month d)" and "k \<equiv> unat (dt_day d)" and "e \<equiv> next_local_day d"
  assumes "y < 65535"
  shows "(unat (dt_year e), unat (dt_month e), unat (dt_day e)) =
      (if k < month_length y m then (y, m, k + 1) else if m < 12 then (y, m + 1, 1) else (y + 1, 1, 1))
    \<and> unat (dt_weekday e) = (unat (dt_weekday d) + 1) mod 7
    \<and> dt_hour e = dt_hour d \<and> dt_minute e = dt_minute d \<and> dt_second e = dt_second d"
proof -
  note v = valid_date [OF assms(1)]
  have b: "1 \<le> m" "m \<le> 12" "k \<le> month_length y m" "k \<le> 31" "month_length y m \<le> 31"
    using v month_length_bounds [of m y] by (simp_all add: y_def m_def k_def)
  have "unat (dt_day d + 1) = k + 1" "unat (dt_month d + 1) = m + 1" "unat (dt_year d + 1) = y + 1"
    using b assms(6) unat_u8_suc [of "dt_day d"] unat_u8_suc [of "dt_month d"] unat_u16_suc [of "dt_year d"]
    by (simp_all add: y_def m_def k_def)
  moreover have "month_days (dt_year d) (dt_month d) = month_length y m"
    by (simp add: month_days_length y_def m_def)
  moreover have "unat (of_nat ((unat (dt_weekday d) + 1) mod 7) :: u8) = (unat (dt_weekday d) + 1) mod 7"
    by (simp add: unat_of_nat)
  ultimately show ?thesis
    using b unfolding e_def next_local_day_def
    by (simp add: Let_def word_less_nat_alt y_def [symmetric] m_def [symmetric] k_def [symmetric])
qed


abbreviation day_number :: "solar_os_datetime \<Rightarrow> int" where
  "day_number d \<equiv> schedule_days_from_civil (uint (dt_year d)) (uint (dt_month d)) (uint (dt_day d))"

definition civil_days :: "nat \<Rightarrow> nat \<Rightarrow> nat \<Rightarrow> int" where
  "civil_days y m k = days_before_year (y - 1970) + days_before_month y (m - 1) + int k - 1"

lemma day_number_counts:
  assumes "datetime_is_valid (Some d)"
  shows "day_number d = civil_days (unat (dt_year d)) (unat (dt_month d)) (unat (dt_day d))"
proof -
  have "uint (dt_year d) = int (unat (dt_year d))" "uint (dt_month d) = int (unat (dt_month d))"
    "uint (dt_day d) = int (unat (dt_day d))" by simp_all
  then show ?thesis
    using days_from_civil_counts [of "unat (dt_year d)" "unat (dt_month d)" "int (unat (dt_day d))"]
      valid_date [OF assms] by (simp add: civil_days_def)
qed

lemma year_months: "days_before_month y 12 = (if leap_year y then 366 else 365)"
  by (simp add: numeral_eq_Suc month_length_def days_per_month_def)

lemma next_local_day_valid:
  assumes "datetime_is_valid (Some d)" "unat (dt_year d) < 65535"
  shows "datetime_is_valid (Some (next_local_day d))"
proof (rule valid_dateI)
  define y m k where "y = unat (dt_year d)" and "m = unat (dt_month d)" and "k = unat (dt_day d)"
  note c = next_local_day_cases [OF assms, folded y_def m_def k_def] and v = valid_date [OF assms(1), folded y_def m_def k_def]
  note b = month_length_bounds [of m y] month_length_bounds [of "m + 1" y] month_length_bounds [of 1 "y + 1"]
  let ?e = "next_local_day d"
  show "2000 \<le> unat (dt_year ?e)" "1 \<le> unat (dt_month ?e)" "unat (dt_month ?e) \<le> 12" "1 \<le> unat (dt_day ?e)"
    "unat (dt_day ?e) \<le> month_length (unat (dt_year ?e)) (unat (dt_month ?e))" "unat (dt_weekday ?e) \<le> 6"
    using c v b by (auto split: if_splits)
  show "unat (dt_hour ?e) \<le> 23" "unat (dt_minute ?e) \<le> 59" "unat (dt_second ?e) \<le> 59" using c v by auto
qed

lemma next_local_day_number:
  assumes "datetime_is_valid (Some d)" "unat (dt_year d) < 65535"
  shows "day_number (next_local_day d) = day_number d + 1"
proof -
  define y m k where "y = unat (dt_year d)" and "m = unat (dt_month d)" and "k = unat (dt_day d)"
  note c = next_local_day_cases [OF assms, folded y_def m_def k_def] and v = valid_date [OF assms(1), folded y_def m_def k_def]
  have m: "days_before_month y (m - 1) + int (month_length y m) = days_before_month y m"
    using v(2) by (cases m) simp_all
  have e: "y + 1 - 1970 = Suc (y - 1970)" "1970 + (y - 1970) = y" using v(1) by simp_all
  have y: "days_before_year (y + 1 - 1970) = days_before_year (y - 1970) + (if leap_year y then 366 else 365)"
    unfolding e(1) days_before_year.simps e(2) by (rule refl)
  have s1: "civil_days y m (k + 1) = civil_days y m k + 1" by (simp only: civil_days_def of_nat_add of_nat_1)
  have s2: "civil_days y (m + 1) 1 = civil_days y m k + 1" if "k = month_length y m"
    unfolding civil_days_def add_diff_cancel_right' that using m by linarith
  have s3: "civil_days (y + 1) 1 1 = civil_days y m k + 1" if k: "k = month_length y m" and "m = 12"
  proof -
    have "days_before_month y (m - 1) + int (month_length y m) = (if leap_year y then 366 else 365)"
      using m unfolding that(2) year_months .
    moreover have "days_before_month (y + 1) (1 - 1) = 0" by simp
    ultimately show ?thesis unfolding civil_days_def y k by linarith
  qed
  note step = s1 s2 s3
  show ?thesis
    unfolding day_number_counts [OF next_local_day_valid [OF assms]] day_number_counts [OF assms(1), folded y_def m_def k_def]
    using c v(3,5) step by (auto simp del: of_nat_add split: if_splits)
qed


text \<open>
  The day numbers of the clock service and of the schedule service are the same and count the days
  since the first of January 1970, for every valid date. The next local day is valid, has the next day
  number and the next weekday.
\<close>

lemma calendar_counts_days:
  assumes "datetime_is_valid (Some d)" "unat (dt_year d) < 65535"
  shows "day_number d = days_before_year (unat (dt_year d) - 1970) + days_before_month (unat (dt_year d)) (unat (dt_month d) - 1)
      + int (unat (dt_day d)) - 1
    \<and> time_days_from_civil (uint (dt_year d)) (uint (dt_month d)) (uint (dt_day d)) = day_number d
    \<and> datetime_is_valid (Some (next_local_day d)) \<and> day_number (next_local_day d) = day_number d + 1
    \<and> unat (dt_weekday (next_local_day d)) = (unat (dt_weekday d) + 1) mod 7"
  using day_number_counts [OF assms(1)] next_local_day_valid [OF assms] next_local_day_number [OF assms]
    next_local_day_cases [OF assms]
  unfolding civil_days_def time_days_same by blast

section \<open>The search for the next occurrence\<close>

abbreviation loaded_here :: "time_platform \<Rightarrow> schedule_entry \<Rightarrow> solar_os_datetime \<Rightarrow> time_state \<Rightarrow> nat option" where
  "loaded_here tp e here t \<equiv> fst (local_seconds tp (dt_year here) (dt_month here) (dt_day here)
     (en_hour e) (en_minute e) (en_second e) t)"

definition occurrence :: "time_platform \<Rightarrow> schedule_entry \<Rightarrow> time_state \<Rightarrow> solar_os_datetime \<Rightarrow> nat option" where
  "occurrence tp e t here = (if weekday_matches e here then loaded_here tp e here t else None)"

definition after :: "nat \<Rightarrow> nat option \<Rightarrow> bool" where
  "after now_utc c = (case c of None \<Rightarrow> False | Some c \<Rightarrow> now_utc < c)"

lemma load_loaded: "tz_loaded t \<Longrightarrow> timezone_load tp t = t"
  by (simp add: timezone_load_def)

lemma local_to_utc_loaded: "tz_loaded t \<Longrightarrow> snd (solar_os_time_local_to_utc tp d b t) = t"
  by (simp add: solar_os_time_local_to_utc_def load_loaded Let_def)

lemma local_seconds_loaded: "tz_loaded t \<Longrightarrow> snd (local_seconds tp y m d h mi s t) = t"
  using local_to_utc_loaded [of t tp]
  by (auto simp: local_seconds_def Let_def split: prod.splits esp_err.splits) (metis snd_conv)+

lemma find_upt_Suc: "find P [0..<Suc n] = (if P 0 then Some 0 else map_option Suc (find (\<lambda>k. P (Suc k)) [0..<n]))"
proof -
  have "find P (map Suc ks) = map_option Suc (find (\<lambda>k. P (Suc k)) ks)" for ks
    by (induction ks) simp_all
  from this [of "[0..<n]"] show ?thesis by (simp only: upt_conv_Cons zero_less_Suc map_Suc_upt [symmetric] find.simps)
qed

lemma calendar_search_finds:
  assumes "tz_loaded t"
  shows "calendar_search tp n e now_utc here t =
    (map_option (\<lambda>k. the (occurrence tp e t ((next_local_day ^^ k) here)))
       (find (\<lambda>k. after now_utc (occurrence tp e t ((next_local_day ^^ k) here))) [0..<n]), t)"
proof (induction n arbitrary: here)
  case (Suc n)
  let ?l = "local_seconds tp (dt_year here) (dt_month here) (dt_day here) (en_hour e) (en_minute e) (en_second e) t"
  obtain c where l: "?l = (c, t)" using local_seconds_loaded [OF assms] by (metis prod.collapse)
  note s = Suc [of "next_local_day here"]
  have step: "calendar_search tp (Suc n) e now_utc here t =
    (if after now_utc (occurrence tp e t here) then (Some (the (occurrence tp e t here)), t)
     else calendar_search tp n e now_utc (next_local_day here) t)"
    by (cases "weekday_matches e here"; cases c) (simp_all add: l occurrence_def after_def)
  show ?case
    unfolding step s find_upt_Suc
    by (simp add: funpow_swap1 option.map_comp comp_def)
qed simp

section \<open>The next occurrence\<close>

text \<open>The days from a valid date on.\<close>

lemma later_days:
  assumes "datetime_is_valid (Some here)" "unat (dt_year here) < 65000" "n \<le> 8"
  shows "datetime_is_valid (Some ((next_local_day ^^ n) here)) \<and> day_number ((next_local_day ^^ n) here) = day_number here + int n
    \<and> unat (dt_weekday ((next_local_day ^^ n) here)) = (unat (dt_weekday here) + n) mod 7
    \<and> unat (dt_year ((next_local_day ^^ n) here)) \<le> unat (dt_year here) + n"
  using assms(3)
proof (induction n)
  case 0
  then show ?case using assms valid_date [OF assms(1)] by simp
next
  case (Suc n)
  let ?d = "(next_local_day ^^ n) here"
  have v: "datetime_is_valid (Some ?d)" "unat (dt_year ?d) < 65535" using Suc assms(2) by auto
  have "unat (dt_year (next_local_day ?d)) \<le> unat (dt_year ?d) + 1"
    using next_local_day_cases [OF v] by (auto split: if_splits)
  moreover have "unat (dt_weekday (next_local_day ?d)) = (unat (dt_weekday here) + Suc n) mod 7"
    using next_local_day_cases [OF v] Suc by (simp add: mod_Suc_eq)
  ultimately show ?case using next_local_day_valid [OF v] next_local_day_number [OF v] Suc by simp
qed

definition time_of_day :: "schedule_entry \<Rightarrow> int" where
  "time_of_day e = int (unat (en_hour e) * 3600 + unat (en_minute e) * 60 + unat (en_second e))"

definition on_day :: "schedule_entry \<Rightarrow> solar_os_datetime \<Rightarrow> solar_os_datetime" where
  "on_day e here = \<lparr>dt_year = dt_year here, dt_month = dt_month here, dt_day = dt_day here, dt_hour = en_hour e,
     dt_minute = en_minute e, dt_second = en_second e, dt_weekday = 0, dt_clock_integrity = True\<rparr>"

definition tm_of :: "solar_os_datetime \<Rightarrow> tm" where
  "tm_of d = \<lparr>tm_sec = uint (dt_second d), tm_min = uint (dt_minute d), tm_hour = uint (dt_hour d),
     tm_mday = uint (dt_day d), tm_mon = uint (dt_month d) - 1, tm_year = uint (dt_year d) - 1900, tm_wday = 0\<rparr>"

text \<open>
  What the C library documents of \<open>mktime\<close> in a zone \<open>off\<close> seconds ahead of UTC and of \<open>gmtime_r\<close>, at one
  local time: the first counts the seconds since 1970, the second gives the date these seconds are on.
\<close>

definition converts_local :: "time_platform \<Rightarrow> string \<Rightarrow> int \<Rightarrow> schedule_entry \<Rightarrow> solar_os_datetime \<Rightarrow> bool" where
  "converts_local tp zone off e here =
     (let x = day_number here * 86400 + time_of_day e - off
      in tp_mktime tp zone (tm_of (on_day e here)) = x
       \<and> (case tp_gmtime tp x of
            None \<Rightarrow> False
          | Some t \<Rightarrow> datetime_is_valid (Some (datetime_from_tm t True))
                    \<and> utc_seconds_from_datetime (Some (datetime_from_tm t True)) = Some (nat x)))"

lemma local_seconds_fixed:
  assumes "converts_local tp (tz_applied t) off e here" "tz_loaded t" "datetime_is_valid (Some (on_day e here))"
    and "0 \<le> day_number here * 86400 + time_of_day e - off"
  shows "loaded_here tp e here t = Some (nat (day_number here * 86400 + time_of_day e - off))"
proof -
  define x where "x = day_number here * 86400 + time_of_day e - off"
  have m: "tp_mktime tp (tz_applied t) (tm_of (on_day e here)) = x" and x: "0 \<le> x" "x \<noteq> - 1"
    using assms(1,4) by (simp_all add: converts_local_def Let_def x_def)
  obtain g where g: "tp_gmtime tp x = Some g" "datetime_is_valid (Some (datetime_from_tm g True))"
    "utc_seconds_from_datetime (Some (datetime_from_tm g True)) = Some (nat x)"
    using assms(1) by (auto simp: converts_local_def Let_def x_def split: option.splits)
  have tm: "\<lparr>tm_sec = uint (dt_second d), tm_min = uint (dt_minute d), tm_hour = uint (dt_hour d),
     tm_mday = uint (dt_day d), tm_mon = uint (dt_month d) - 1, tm_year = uint (dt_year d) - 1900, tm_wday = 0\<rparr> = tm_of d" for d
    by (simp add: tm_of_def)
  have utc: "solar_os_time_local_to_utc tp (Some (on_day e here)) True t = ((ESP_OK, datetime_from_tm g True), t)"
    unfolding solar_os_time_local_to_utc_def load_loaded [OF assms(2)] Let_def option.sel tm m
    using assms(3) x g by (simp add: datetime_from_utc_epoch_def on_day_def)
  show ?thesis
    unfolding local_seconds_def on_day_def [symmetric] Let_def solar_os_time_datetime_is_valid_def
    using assms(3) utc g(3) by (simp add: x_def)
qed

definition day_matches :: "schedule_entry \<Rightarrow> nat \<Rightarrow> bool" where
  "day_matches e k \<longleftrightarrow> en_kind e = DAILY \<or> bit (en_weekdays e) k"

definition rings_at :: "schedule_entry \<Rightarrow> int \<Rightarrow> nat \<Rightarrow> bool" where
  "rings_at e off x \<longleftrightarrow> (int x + off) mod 86400 = time_of_day e
     \<and> day_matches e (nat (((int x + off) div 86400 + 4) mod 7))"

lemma weekday_matches_bit: "unat (dt_weekday here) < 8 \<Longrightarrow> weekday_matches e here = day_matches e (unat (dt_weekday here))"
  by (simp add: weekday_matches_def day_matches_def push_bit_eq_mult and_exp_eq_0_iff_not_bit bit_ucast_iff)

lemma some_weekday:
  assumes "w \<noteq> 0" "w AND 0x80 = (0 :: u8)"
  shows "\<exists>k < 7. bit w k"
proof -
  obtain k where k: "bit w k" using assms(1) bit_eq_iff [of w 0] by auto
  have "k < 8" using k bit_imp_le_length [OF k] by simp
  moreover have "\<not> bit w 7"
  proof -
    have "(0x80 :: u8) = 2 ^ 7" by simp
    then show ?thesis using assms(2) by (metis and_exp_eq_0_iff_not_bit)
  qed
  ultimately have "k < 7" using k by (cases "k = 7") simp_all
  then show ?thesis using k by blast
qed

text \<open>In eight days from any day every day of the week comes up.\<close>

lemma weekday_comes:
  assumes "k < 7" "w < 7"
  shows "\<exists>n < 7. (w + n) mod 7 = (k :: nat)"
proof (cases "w \<le> k")
  case True
  then show ?thesis using assms by (intro exI [of _ "k - w"]) simp
next
  case False
  then have "(w + (7 + k - w)) mod 7 = k" using assms by simp
  then show ?thesis using False assms by (intro exI [of _ "7 + k - w"]) simp
qed


text \<open>The first of the ringing days in closed form: what the search finds, and that it is the earliest time.\<close>

lemma first_ring:
  fixes now D :: int
  assumes D: "D = (now + off) div 86400" and tod: "0 \<le> tod" "tod < 86400" and k: "k < 7" "P ((w + k) mod 7)" and w: "w < 7"
    and now: "86400 \<le> now"
  defines "cand \<equiv> \<lambda>n :: nat. (D + int n) * 86400 + tod - off"
  shows "\<exists>n < 8. P ((w + n) mod 7) \<and> now < cand n \<and> (\<forall>j. 0 \<le> cand j)
    \<and> (\<forall>j < n. \<not> (P ((w + j) mod 7) \<and> now < cand j))
    \<and> (\<forall>x m. now < x \<and> x < cand n \<longrightarrow> x \<noteq> m * 86400 + tod - off \<or> \<not> P (nat ((int w + (m - D)) mod 7)))"
proof -
  have bounds: "D * 86400 \<le> now + off" "now + off < D * 86400 + 86400" unfolding D by (simp_all add: algebra_simps)
  have next_day: "now < cand n" if "1 \<le> n" for n using that bounds tod by (simp add: cand_def algebra_simps)
  let ?Q = "\<lambda>n. P ((w + n) mod 7) \<and> now < cand n"
  have ex: "\<exists>n < 8. ?Q n"
  proof (cases "1 \<le> k")
    case True
    then show ?thesis using k next_day [of k] by (intro exI [of _ k]) simp
  next
    case False
    then have "k = 0" by simp
    then show ?thesis using k next_day [of 7] by (intro exI [of _ 7]) simp
  qed
  define n where "n = (LEAST n. ?Q n)"
  have q: "?Q n" unfolding n_def using ex by (metis (mono_tags, lifting) LeastI)
  have least: "\<not> ?Q j" if "j < n" for j using that not_less_Least unfolding n_def by blast
  have n8: "n < 8" using ex least by (meson linorder_not_less order_le_less_trans)
  have "x \<noteq> m * 86400 + tod - off \<or> \<not> P (nat ((int w + (m - D)) mod 7))" if x: "now < x" "x < cand n" for x m
  proof (rule ccontr)
    assume "\<not> ?thesis"
    then have m: "x = m * 86400 + tod - off" and p: "P (nat ((int w + (m - D)) mod 7))" by simp_all
    have "D * 86400 < m * 86400 + 86400" using bounds x m tod by linarith
    then have ge: "D \<le> m" by linarith
    have j: "m = D + int (nat (m - D))" using ge by simp
    then have c: "x = cand (nat (m - D))" unfolding cand_def m by simp
    have "m < D + int n" using x(2) unfolding cand_def m by simp
    then have "nat (m - D) < n" using ge by linarith
    moreover have "nat ((int w + (m - D)) mod 7) = (w + nat (m - D)) mod 7"
      using ge by (metis j add_diff_cancel_left' nat_int of_nat_add of_nat_numeral zmod_int)
    ultimately show False using least [of "nat (m - D)"] p c x by simp
  qed
  moreover have "0 \<le> cand j" for j using bounds tod now by (simp add: cand_def algebra_simps)
  ultimately show ?thesis using q n8 least by (intro exI [of _ n]) auto
qed


lemma ring_day:
  assumes "en_kind e = DAILY \<or> (en_weekdays e \<noteq> 0 \<and> en_weekdays e AND 0x80 = 0)" "w < 7"
  shows "\<exists>k < 7. day_matches e ((w + k) mod 7)"
proof (cases "en_kind e = DAILY")
  case True
  then show ?thesis by (intro exI [of _ 0]) (simp add: day_matches_def)
next
  case False
  then obtain b where b: "b < 7" "bit (en_weekdays e) b" using assms(1) some_weekday by blast
  then show ?thesis using weekday_comes [OF b(1) assms(2)] by (auto simp: day_matches_def)
qed

lemma days_and_seconds:
  fixes tod y :: int
  assumes "0 \<le> tod" "tod < 86400"
  shows "(y mod 86400 = tod \<and> P (y div 86400)) = (\<exists>m. y = m * 86400 + tod \<and> P m)"
proof
  assume "y mod 86400 = tod \<and> P (y div 86400)"
  then show "\<exists>m. y = m * 86400 + tod \<and> P m"
    using div_mult_mod_eq [of y 86400] by (intro exI [of _ "y div 86400"]) simp
next
  assume "\<exists>m. y = m * 86400 + tod \<and> P m"
  then obtain m where m: "y = tod + m * 86400" "P m" by auto
  have "y div 86400 = m" "y mod 86400 = tod"
    using assms unfolding m(1) by (simp_all add: div_mult_self1 div_pos_pos_trivial mod_pos_pos_trivial)
  then show "y mod 86400 = tod \<and> P (y div 86400)" using m(2) by simp
qed

lemma find_first: "n < m \<Longrightarrow> P n \<Longrightarrow> (\<And>j. j < n \<Longrightarrow> \<not> P j) \<Longrightarrow> find P [0..<m] = Some n"
  by (auto simp: find_Some_iff)


text \<open>The first days of 2025 in Berlin, an hour ahead of UTC.\<close>

definition january_tm :: "int \<Rightarrow> tm" where
  "january_tm x = \<lparr>tm_sec = x mod 60, tm_min = x div 60 mod 60, tm_hour = x div 3600 mod 24,
     tm_mday = x div 86400 - 20088, tm_mon = 0, tm_year = 125, tm_wday = (x div 86400 + 4) mod 7\<rparr>"

definition sample_clock :: time_platform where
  "sample_clock = \<lparr>tp_uptime_us = 5000000, tp_gettimeofday = Some 1735689600, tp_settimeofday = (\<lambda>x. True),
     tp_gmtime = (\<lambda>x. Some (january_tm x)), tp_localtime = (\<lambda>zone x. Some (january_tm (x + 3600))),
     tp_mktime = (\<lambda>zone t. (20088 + tm_mday t) * 86400 + tm_hour t * 3600 + tm_min t * 60 + tm_sec t - 3600),
     tp_provider_get = (\<lambda>p. (ESP_FAIL, datetime_zero)), tp_provider_set = (\<lambda>p d. ESP_FAIL),
     tp_nvs_stored = (None, (ESP_FAIL, [])), tp_nvs_save = ESP_OK\<rparr>"

definition sample_zone :: time_state where
  "sample_zone = time_state_init\<lparr>tz_name := ''Europe/Berlin'', tz_posix := ''CET-1CEST,M3.5.0/2,M10.5.0/3'',
     tz_loaded := True, tz_applied := ''CET-1CEST,M3.5.0/2,M10.5.0/3''\<rparr>"

definition sample_day :: "nat \<Rightarrow> solar_os_datetime" where
  "sample_day n = \<lparr>dt_year = 2025, dt_month = 1, dt_day = of_nat (1 + n), dt_hour = 1, dt_minute = 0, dt_second = 0,
     dt_weekday = of_nat ((3 + n) mod 7), dt_clock_integrity = True\<rparr>"

definition sample_entry :: schedule_entry where
  "sample_entry = zero_entry\<lparr>en_name := ''wake'', en_kind := WEEKLY, en_enabled := True, en_persistent := True,
     en_hour := 7, en_minute := 30, en_weekdays := 0x20\<rparr>"

lemma less_eight: "n < (8 :: nat) \<longleftrightarrow> n \<in> {0, 1, 2, 3, 4, 5, 6, 7}"
  by auto

lemma sample_days: "n < 8 \<Longrightarrow> (next_local_day ^^ n) (sample_day 0) = sample_day n"
proof (induction n)
  case (Suc n)
  have "next_local_day (sample_day n) = sample_day (Suc n)" if "n < 7"
  proof -
    have "n \<in> {0, 1, 2, 3, 4, 5, 6}" using that by auto
    then show ?thesis
    by (elim insertE emptyE; hypsubst) (simp_all add: sample_day_def next_local_day_def month_days_def days_per_month_def Let_def leap_year_def)
  qed
  then show ?case using Suc by simp
qed simp

lemma sample_get: "solar_os_time_get_datetime sample_clock sample_zone = ((ESP_OK, sample_day 0), sample_zone)"
  by (simp add: solar_os_time_get_datetime_def solar_os_time_get_utc_datetime_def time_provider_snapshot_def sample_zone_def
      time_state_init_def sample_clock_def TIME_VALID_EPOCH_SECONDS_def datetime_from_utc_epoch_def datetime_from_tm_def
      january_tm_def datetime_is_valid_def days_per_month_def solar_os_time_utc_to_local_def timezone_load_def
      epoch_from_utc_datetime_def time_days_from_civil_def c_div_def SECONDS_PER_DAY_def sample_day_def Let_def leap_year_def)

lemma sample_converts: "n < 8 \<Longrightarrow> converts_local sample_clock (tz_applied sample_zone) 3600 sample_entry (sample_day n)"
  unfolding less_eight
  by (elim insertE emptyE; hypsubst) (simp_all add: converts_local_def schedule_days_from_civil_def c_div_def time_of_day_def
      tm_of_def on_day_def sample_entry_def zero_entry_def sample_clock_def january_tm_def sample_day_def datetime_from_tm_def
      datetime_is_valid_def days_per_month_def utc_seconds_from_datetime_def solar_os_time_datetime_is_valid_def u64_def
      Let_def leap_year_def)



end
