(* ===== verification/SchedulePoll.thy ===== *)
theory SchedulePoll
  imports ScheduleCalendar
begin

text \<open>
  What a poll of the schedule service does: the catch-up loop of an interval ends, every due entry is
  triggered once and no other, and the table keeps its order.
\<close>

section \<open>Valid entries\<close>

definition entry_valid :: "schedule_entry \<Rightarrow> bool" where
  "entry_valid e = stored_entry_valid (e\<lparr>en_persistent := True\<rparr>)"

lemma entry_valid_cong:
  "en_name e' = en_name e \<Longrightarrow> en_kind e' = en_kind e \<Longrightarrow> en_action e' = en_action e \<Longrightarrow> en_value e' = en_value e
   \<Longrightarrow> en_interval_seconds e' = en_interval_seconds e \<Longrightarrow> en_at_utc_seconds e' = en_at_utc_seconds e
   \<Longrightarrow> en_hour e' = en_hour e \<Longrightarrow> en_minute e' = en_minute e \<Longrightarrow> en_second e' = en_second e
   \<Longrightarrow> en_weekdays e' = en_weekdays e \<Longrightarrow> entry_valid e' = entry_valid e"
  by (simp add: entry_valid_def stored_entry_valid_def)

lemma entry_valid_interval: "entry_valid e \<Longrightarrow> is_timer (en_kind e) \<Longrightarrow> 0 < unat (en_interval_seconds e)"
  by (auto simp: entry_valid_def stored_entry_valid_def unat_gt_0 split: if_splits)

lemma entry_valid_kind: "entry_valid e \<Longrightarrow> en_kind e \<in> {ONCE_RELATIVE, ONCE_CALENDAR, INTERVAL, DAILY, WEEKLY}"
  by (auto simp: entry_valid_def stored_entry_valid_def split: if_splits)

lemma entry_valid_at: "entry_valid e \<Longrightarrow> en_kind e = ONCE_CALENDAR \<Longrightarrow> en_at_utc_seconds e \<noteq> 0"
  by (auto simp: entry_valid_def stored_entry_valid_def split: if_splits)

lemma entry_valid_script:
  "entry_valid e \<Longrightarrow> en_action e \<noteq> ACTION_ALARM \<Longrightarrow> en_action e = ACTION_SCRIPT \<and> en_value e \<noteq> [] \<and> length (en_value e) < 128"
  by (auto simp: entry_valid_def stored_entry_valid_def action_valid_def cstr_def SOLAR_OS_SCHEDULE_VALUE_MAX_def split: if_splits)

lemma entry_valid_name: "entry_valid e \<Longrightarrow> en_name e \<noteq> [] \<and> length (en_name e) < 24"
  by (auto simp: entry_valid_def stored_entry_valid_def name_valid_def SOLAR_OS_SCHEDULE_NAME_MAX_def split: if_splits)

section \<open>The catch-up loop\<close>

text \<open>An interval of at most 32 bits of seconds, and less than 63 bits of uptime.\<close>

lemma catch_up:
  assumes "0 < step" "step \<le> 4294967296000" "now_ms < 9223372036854775808" "next_ms \<le> now_ms"
  shows "\<exists>n. interval_catch_up now_ms step next_ms = Some n \<and> now_ms < n \<and> n \<le> now_ms + step
    \<and> (n - next_ms) mod step = 0 \<and> next_ms < n"
  using assms(4)
proof (induction "now_ms - next_ms" arbitrary: next_ms rule: less_induct)
  case less
  have w: "u64 (next_ms + step) = next_ms + step" using assms less by (simp add: u64_def)
  show ?case
  proof (cases "next_ms + step \<le> now_ms")
    case True
    have "now_ms - (next_ms + step) < now_ms - next_ms" using True assms(1) by simp
    from less.hyps [OF this True] obtain n where n: "interval_catch_up now_ms step (next_ms + step) = Some n
        \<and> now_ms < n \<and> n \<le> now_ms + step \<and> (n - (next_ms + step)) mod step = 0 \<and> next_ms + step < n" ..
    have "n - next_ms = n - (next_ms + step) + step" using n by linarith
    then have "(n - next_ms) mod step = 0" using n by (metis mod_add_self2)
    then show ?thesis using n True w by (subst interval_catch_up.simps) (simp add: Let_def)
  next
    case False
    then show ?thesis using w less.prems assms(1) by (subst interval_catch_up.simps) (simp add: Let_def)
  qed
qed

lemma interval_ms_bound: "unat (s :: u32) * 1000 \<le> 4294967296000"
  using unat_u32_less [of s] by simp

section \<open>One entry\<close>

definition due_entry :: "nat \<Rightarrow> bool \<Rightarrow> nat \<Rightarrow> schedule_entry \<Rightarrow> bool" where
  "due_entry now_ms time_valid now_utc e \<longleftrightarrow> en_enabled e
     \<and> (if is_timer (en_kind e) then en_next_uptime_ms e \<noteq> 0 \<and> en_next_uptime_ms e \<le> now_ms
        else time_valid \<and> (if en_next_utc_seconds e \<noteq> 0 then en_next_utc_seconds e \<le> now_utc
                           else en_kind e = ONCE_CALENDAR \<and> en_at_utc_seconds e \<le> now_utc))"

definition same_job :: "schedule_entry \<Rightarrow> schedule_entry \<Rightarrow> bool" where
  "same_job e e' \<longleftrightarrow> en_name e' = en_name e \<and> en_kind e' = en_kind e \<and> en_action e' = en_action e
     \<and> en_value e' = en_value e \<and> en_persistent e' = en_persistent e \<and> en_interval_seconds e' = en_interval_seconds e
     \<and> en_at_utc_seconds e' = en_at_utc_seconds e \<and> en_hour e' = en_hour e \<and> en_minute e' = en_minute e
     \<and> en_second e' = en_second e \<and> en_weekdays e' = en_weekdays e"

text \<open>An entry after the poll: once more run, once more in the future, or as it was.\<close>

definition triggered :: "nat \<Rightarrow> nat \<Rightarrow> schedule_entry \<Rightarrow> schedule_entry \<Rightarrow> bool" where
  "triggered now_ms now_utc e e' \<longleftrightarrow> same_job e e' \<and> en_run_count e' = en_run_count e + 1
     \<and> (en_skipped_count e' = en_skipped_count e
        \<or> en_action e \<noteq> ACTION_ALARM \<and> en_skipped_count e' = en_skipped_count e + 1)
     \<and> en_enabled e' = (en_kind e \<noteq> ONCE_RELATIVE \<and> en_kind e \<noteq> ONCE_CALENDAR)
     \<and> (en_kind e = INTERVAL \<longrightarrow> now_ms < en_next_uptime_ms e' \<and> en_next_uptime_ms e' \<le> now_ms + interval_ms e
          \<and> (en_next_uptime_ms e' - en_next_uptime_ms e) mod interval_ms e = 0)
     \<and> (en_kind e = DAILY \<or> en_kind e = WEEKLY \<longrightarrow> en_next_utc_seconds e' = 0 \<or> now_utc < en_next_utc_seconds e')"

definition waiting :: "nat \<Rightarrow> bool \<Rightarrow> nat \<Rightarrow> schedule_entry \<Rightarrow> schedule_entry \<Rightarrow> bool" where
  "waiting now_ms time_valid now_utc e e' \<longleftrightarrow>
     (if \<not> en_enabled e then e' = e
      else if is_timer (en_kind e) then
        e' = (if en_next_uptime_ms e = 0 then e\<lparr>en_next_uptime_ms := now_ms + interval_ms e\<rparr> else e)
        \<and> now_ms < en_next_uptime_ms e'
      else if \<not> time_valid then e' = e
      else \<exists>n. e' = e\<lparr>en_next_utc_seconds := n\<rparr> \<and> (n = 0 \<or> now_utc < n)
             \<and> (en_next_utc_seconds e \<noteq> 0 \<longrightarrow> n = en_next_utc_seconds e))"

definition polled :: "nat \<Rightarrow> bool \<Rightarrow> nat \<Rightarrow> schedule_entry \<Rightarrow> schedule_entry \<Rightarrow> bool" where
  "polled now_ms time_valid now_utc e e' \<longleftrightarrow>
     (if due_entry now_ms time_valid now_utc e then triggered now_ms now_utc e e'
      else waiting now_ms time_valid now_utc e e')"

text \<open>
  What the poll of an entry does beside it: an alarm entry that is due rings, a script entry that is due is
  started if no script runs.
\<close>

definition alarm_script_ok :: "schedule_state \<Rightarrow> bool" where
  "alarm_script_ok s \<longleftrightarrow> sc_script_task s = (sc_pending_script s \<noteq> []) \<and> sc_alarm_active s = (sc_alarm_name s \<noteq> [])"

definition starts_script :: "schedule_env \<Rightarrow> schedule_state \<Rightarrow> schedule_entry \<Rightarrow> bool" where
  "starts_script ev s e \<longleftrightarrow> en_action e \<noteq> ACTION_ALARM \<and> sc_pending_script s = [] \<and> sc_script_runner s \<noteq> None
     \<and> ev_task_create ev (en_value e)"

definition frame :: "schedule_state \<Rightarrow> schedule_state \<Rightarrow> bool" where
  "frame s s' \<longleftrightarrow> sc_mutex s' = sc_mutex s \<and> sc_script_runner s' = sc_script_runner s \<and> sc_store_path s' = sc_store_path s
     \<and> sc_disc s' = sc_disc s \<and> sc_rtc s' = sc_rtc s \<and> sc_entries s' = sc_entries s"

definition effect :: "schedule_env \<Rightarrow> bool \<Rightarrow> schedule_entry \<Rightarrow> schedule_state \<Rightarrow> schedule_state \<Rightarrow> bool" where
  "effect ev due e s s' \<longleftrightarrow> frame s s' \<and> alarm_script_ok s'
     \<and> sc_alarm_active s' = (sc_alarm_active s \<or> (due \<and> en_action e = ACTION_ALARM))
     \<and> sc_pending_script s' = (if due \<and> starts_script ev s e then en_value e else sc_pending_script s)"

lemma effect_none: "alarm_script_ok s \<Longrightarrow> effect ev False e s (s\<lparr>sc_time := t\<rparr>)"
  by (simp add: effect_def frame_def alarm_script_ok_def)

lemma effect_none': "alarm_script_ok s \<Longrightarrow> effect ev False e s s"
  by (simp add: effect_def frame_def)

lemma effect_time: "effect ev due e s s' \<Longrightarrow> effect ev due e s (s'\<lparr>sc_time := t\<rparr>)"
  unfolding effect_def frame_def alarm_script_ok_def by auto

lemma effect_time': "effect ev due e (s\<lparr>sc_time := t\<rparr>) s' \<Longrightarrow> effect ev due e s s'"
  unfolding effect_def frame_def starts_script_def by auto

lemma effect_same_job: "same_job e0 e \<Longrightarrow> effect ev due e s s' \<Longrightarrow> effect ev due e0 s s'"
  unfolding effect_def same_job_def starts_script_def by auto

lemma trigger_ok:
  assumes "trigger_locked ev e s = (fired, e', s')" "entry_valid e" "alarm_script_ok s"
  shows "effect ev True e s s' \<and> same_job e e' \<and> en_run_count e' = en_run_count e + 1
    \<and> (en_skipped_count e' = en_skipped_count e
       \<or> en_action e \<noteq> ACTION_ALARM \<and> en_skipped_count e' = en_skipped_count e + 1)
    \<and> en_enabled e' = en_enabled e \<and> en_next_uptime_ms e' = en_next_uptime_ms e
    \<and> en_next_utc_seconds e' = en_next_utc_seconds e
    \<and> (fired \<longrightarrow> en_action e = ACTION_ALARM \<or> starts_script ev s e)"
proof -
  have n: "en_name e \<noteq> []" "strlcpy SOLAR_OS_SCHEDULE_NAME_MAX (en_name e) = en_name e"
    using entry_valid_name [OF assms(2)] by (simp_all add: strlcpy_id SOLAR_OS_SCHEDULE_NAME_MAX_def)
  show ?thesis
  proof (cases "en_action e = ACTION_ALARM")
    case True
    then show ?thesis
      using assms n by (auto simp: trigger_locked_def effect_def frame_def alarm_script_ok_def same_job_def starts_script_def)
  next
    case False
    note v = entry_valid_script [OF assms(2) False]
    have c: "strlcpy SOLAR_OS_SCHEDULE_VALUE_MAX (en_value e) = en_value e"
      using v by (simp add: strlcpy_id SOLAR_OS_SCHEDULE_VALUE_MAX_def)
    show ?thesis
      using assms(1,3) False v c
      by (auto simp: trigger_locked_def effect_def frame_def alarm_script_ok_def same_job_def starts_script_def Let_def
          split: if_splits)
  qed
qed

lemma calendar_search_after: "calendar_search tp n e now_utc here t = (Some c, t') \<Longrightarrow> now_utc < c"
  by (induction tp n e now_utc here t rule: calendar_search.induct)
    (auto simp: Let_def split: option.splits prod.splits if_splits)

lemma calendar_next_shape:
  "compute_calendar_next_locked tp e now_utc t = (found, e', t') \<Longrightarrow> \<exists>n. e' = e\<lparr>en_next_utc_seconds := n\<rparr>
     \<and> (if en_kind e = ONCE_CALENDAR then n = en_at_utc_seconds e else n = 0 \<or> now_utc < n)
     \<and> (found \<longrightarrow> now_utc < n)"
  by (auto simp: compute_calendar_next_locked_def dest: calendar_search_after split: if_splits option.splits prod.splits)

text \<open>The two ways an entry is changed: its times only, or by a run.\<close>

definition only_times :: "schedule_entry \<Rightarrow> schedule_entry \<Rightarrow> bool" where
  "only_times e e' \<longleftrightarrow> same_job e e' \<and> en_run_count e' = en_run_count e \<and> en_skipped_count e' = en_skipped_count e
     \<and> en_enabled e' = en_enabled e"

definition run_once :: "nat \<Rightarrow> schedule_entry \<Rightarrow> schedule_entry \<Rightarrow> bool" where
  "run_once utc e e' \<longleftrightarrow> same_job e e' \<and> en_run_count e' = en_run_count e + 1
     \<and> (en_skipped_count e' = en_skipped_count e
        \<or> en_action e \<noteq> ACTION_ALARM \<and> en_skipped_count e' = en_skipped_count e + 1)
     \<and> en_enabled e' = (en_enabled e \<and> en_kind e \<noteq> ONCE_RELATIVE \<and> en_kind e \<noteq> ONCE_CALENDAR)
     \<and> en_next_uptime_ms e' = en_next_uptime_ms e
     \<and> (en_kind e = DAILY \<or> en_kind e = WEEKLY \<longrightarrow> en_next_utc_seconds e' = 0 \<or> utc < en_next_utc_seconds e')"

definition caught_up :: "nat \<Rightarrow> schedule_entry \<Rightarrow> schedule_entry \<Rightarrow> bool" where
  "caught_up now_ms e e' \<longleftrightarrow> now_ms < en_next_uptime_ms e' \<and> en_next_uptime_ms e' \<le> now_ms + interval_ms e
     \<and> (en_next_uptime_ms e' - en_next_uptime_ms e) mod interval_ms e = 0"

lemma run_triggered:
  assumes "only_times e e1" "run_once utc e1 e2" "en_enabled e" "en_kind e = INTERVAL \<longrightarrow> caught_up now_ms e e1"
  shows "triggered now_ms utc e e2"
  using assms unfolding only_times_def run_once_def triggered_def same_job_def caught_up_def by auto

lemma only_times_job: "only_times e e1 \<Longrightarrow> same_job e e1"
  by (simp add: only_times_def)

text \<open>A timer that is due has its next time already; anything else waits.\<close>

lemma poll_timer_ok:
  assumes "entry_valid e" "en_enabled e" "is_timer (en_kind e)" "now_ms < 9223372036854775808"
  shows "\<exists>e'. poll_timer now_ms e = Some (due_entry now_ms tv utc e, e') \<and> only_times e e'
    \<and> (due_entry now_ms tv utc e \<and> en_kind e = INTERVAL \<longrightarrow> caught_up now_ms e e')
    \<and> (\<not> due_entry now_ms tv utc e \<longrightarrow> waiting now_ms tv utc e e')"
proof -
  have iv: "0 < interval_ms e" "interval_ms e \<le> 4294967296000"
    using entry_valid_interval [OF assms(1,3)] interval_ms_bound by simp_all
  have w: "u64 (now_ms + interval_ms e) = now_ms + interval_ms e" using iv assms(4) by (simp add: u64_def)
  have d: "due_entry now_ms tv utc e = (en_next_uptime_ms e \<noteq> 0 \<and> en_next_uptime_ms e \<le> now_ms)"
    using assms(2,3) by (simp add: due_entry_def)
  show ?thesis
  proof (cases "due_entry now_ms tv utc e \<and> en_kind e = INTERVAL")
    case True
    then have "en_next_uptime_ms e \<le> now_ms" using d by simp
    from catch_up [OF iv assms(4) this] obtain n where n: "interval_catch_up now_ms (interval_ms e) (en_next_uptime_ms e) = Some n
        \<and> now_ms < n \<and> n \<le> now_ms + interval_ms e \<and> (n - en_next_uptime_ms e) mod interval_ms e = 0
        \<and> en_next_uptime_ms e < n" ..
    have "poll_timer now_ms e = Some (True, e\<lparr>en_next_uptime_ms := n\<rparr>)"
      using True d n by (simp add: poll_timer_def)
    then show ?thesis using True n by (simp add: same_job_def only_times_def caught_up_def)
  next
    case False
    have "poll_timer now_ms e = Some (due_entry now_ms tv utc e,
        if en_next_uptime_ms e = 0 then e\<lparr>en_next_uptime_ms := now_ms + interval_ms e\<rparr> else e)"
      using False d w iv by (auto simp: poll_timer_def)
    then show ?thesis using False d iv assms(2,3) by (auto simp: only_times_def same_job_def waiting_def)
  qed
qed

lemma poll_timer_wakes_state: "pa_state (poll_timer_wakes now_ms tv utc e a) = pa_state a"
  by (simp add: poll_timer_wakes_def Let_def)

lemma poll_calendar_ok:
  assumes "entry_valid e" "en_enabled e" "\<not> is_timer (en_kind e)"
  shows "\<exists>e' t a'. poll_calendar tp utc e a = (due_entry now_ms True utc e, e', a')
    \<and> pa_state a' = (pa_state a)\<lparr>sc_time := t\<rparr> \<and> only_times e e'
    \<and> (\<not> due_entry now_ms True utc e \<longrightarrow> waiting now_ms True utc e e')"
proof (cases "en_next_utc_seconds e = 0")
  case True
  obtain found e1 t where c: "compute_calendar_next_locked tp e utc (sc_time (pa_state a)) = (found, e1, t)"
    by (metis prod_cases3)
  obtain n where n: "e1 = e\<lparr>en_next_utc_seconds := n\<rparr>"
      "if en_kind e = ONCE_CALENDAR then n = en_at_utc_seconds e else n = 0 \<or> utc < n"
    using calendar_next_shape [OF c] by auto
  have d: "due_entry now_ms True utc e = (n \<noteq> 0 \<and> n \<le> utc)"
    using assms True n(2) entry_valid_at [OF assms(1)] by (auto simp: due_entry_def split: if_splits)
  obtain a' where pc: "poll_calendar tp utc e a = (n \<noteq> 0 \<and> n \<le> utc, e1, a')" "pa_state a' = (pa_state a)\<lparr>sc_time := t\<rparr>"
    using True c n(1) by (simp add: poll_calendar_def Let_def)
  have "waiting now_ms True utc e e1" if "\<not> (n \<noteq> 0 \<and> n \<le> utc)"
    using that n(1) assms(2,3) True by (auto simp: waiting_def)
  then show ?thesis
    unfolding d using pc n(1) by (intro exI [of _ e1] exI [of _ t] exI [of _ a']) (simp add: same_job_def only_times_def)
next
  case False
  then show ?thesis
    using assms by (auto simp: poll_calendar_def Let_def only_times_def same_job_def waiting_def due_entry_def
        intro!: exI [of _ "sc_time (pa_state a)"])
qed

lemma poll_due_ok:
  assumes "entry_valid e" "alarm_script_ok (pa_state a)"
  shows "\<exists>e' a'. poll_due ev tp tv utc e a = (e', a') \<and> effect ev True e (pa_state a) (pa_state a') \<and> run_once utc e e'"
proof -
  obtain fired e1 s where t: "trigger_locked ev e (pa_state a) = (fired, e1, s)" by (metis prod_cases3)
  note k = trigger_ok [OF t assms]
  then have kind: "en_kind e1 = en_kind e" "en_persistent e1 = en_persistent e" by (simp_all add: same_job_def)
  obtain found e2 t2 where c: "compute_calendar_next_locked tp (e1\<lparr>en_next_utc_seconds := 0\<rparr>) utc (sc_time s) = (found, e2, t2)"
    by (metis prod_cases3)
  obtain n where n: "e2 = (e1\<lparr>en_next_utc_seconds := 0\<rparr>)\<lparr>en_next_utc_seconds := n\<rparr>"
      "if en_kind e = ONCE_CALENDAR then n = en_at_utc_seconds e1 else n = 0 \<or> utc < n"
    using calendar_next_shape [OF c] kind by auto
  have "effect ev True e (pa_state a) (s\<lparr>sc_time := t2\<rparr>)" using k by (blast intro: effect_time)
  then show ?thesis
    using k c n kind by (simp add: poll_due_def t run_once_def same_job_def Let_def split: if_splits)
qed


lemma polled_due: "due_entry now_ms tv utc e \<Longrightarrow> polled now_ms tv utc e e' = triggered now_ms utc e e'"
  by (simp add: polled_def)

lemma polled_waiting: "\<not> due_entry now_ms tv utc e \<Longrightarrow> polled now_ms tv utc e e' = waiting now_ms tv utc e e'"
  by (simp add: polled_def)

lemma same_job_valid: "same_job e e' \<Longrightarrow> entry_valid e' = entry_valid e"
  unfolding same_job_def by (rule entry_valid_cong) simp_all

lemma polled_job: "polled now_ms tv utc e e' \<Longrightarrow> same_job e e'"
  by (auto simp: polled_def triggered_def waiting_def same_job_def split: if_splits)

lemma poll_entry_ok:
  assumes "entry_valid e" "alarm_script_ok (pa_state a)" "now_ms < 9223372036854775808"
  shows "\<exists>e' a'. poll_entry ev tp now_ms tv utc e a = Some (e', a') \<and> polled now_ms tv utc e e'
    \<and> effect ev (due_entry now_ms tv utc e) e (pa_state a) (pa_state a')"
proof -
  let ?d = "due_entry now_ms tv utc e"
  consider "\<not> en_enabled e" | "en_enabled e" "\<not> is_timer (en_kind e)" "\<not> tv"
    | "en_enabled e" "is_timer (en_kind e)" | "en_enabled e" "\<not> is_timer (en_kind e)" "tv" by blast
  then show ?thesis
  proof cases
    case 1
    then show ?thesis using assms(2) by (simp add: poll_entry_def polled_def due_entry_def waiting_def effect_none')
  next
    case 2
    then show ?thesis using assms(2) by (simp add: poll_entry_def polled_def due_entry_def waiting_def effect_none')
  next
    case 3
    obtain e1 where e1: "poll_timer now_ms e = Some (?d, e1)" and job: "only_times e e1"
      and iv: "?d \<and> en_kind e = INTERVAL \<longrightarrow> caught_up now_ms e e1" and w: "\<not> ?d \<longrightarrow> waiting now_ms tv utc e e1"
      using poll_timer_ok [OF assms(1) 3 assms(3)] by blast
    let ?a = "poll_timer_wakes now_ms tv utc e1 a"
    show ?thesis
    proof (cases ?d)
      case False
      then show ?thesis
        using 3 e1 w assms(2) by (simp add: poll_entry_def polled_waiting poll_timer_wakes_state effect_none')
    next
      case True
      have "entry_valid e1" "alarm_script_ok (pa_state ?a)"
        using same_job_valid [OF only_times_job [OF job]] assms(1,2) by (simp_all add: poll_timer_wakes_state)
      then obtain e2 a2 where p: "poll_due ev tp tv utc e1 ?a = (e2, a2)" "effect ev True e1 (pa_state ?a) (pa_state a2)"
          "run_once utc e1 e2"
        using poll_due_ok by blast
      note p(2) [unfolded poll_timer_wakes_state]
      from effect_same_job [OF only_times_job [OF job] this] have eff: "effect ev True e (pa_state a) (pa_state a2)" .
      have "triggered now_ms utc e e2" using run_triggered [OF job p(3) 3(1)] iv True by blast
      then show ?thesis
        using 3 True e1 p(1) eff by (simp add: poll_entry_def polled_due)
    qed
  next
    case 4
    obtain e1 t a1 where e1: "poll_calendar tp utc e a = (?d, e1, a1)" "pa_state a1 = (pa_state a)\<lparr>sc_time := t\<rparr>"
      and job: "only_times e e1" and w: "\<not> ?d \<longrightarrow> waiting now_ms tv utc e e1"
      using poll_calendar_ok [OF assms(1) 4(1,2), of tp utc a now_ms] unfolding eqTrueI [OF 4(3)] by blast
    show ?thesis
    proof (cases ?d)
      case False
      then show ?thesis
        using 4 e1 w assms(2) by (simp add: poll_entry_def polled_waiting effect_none)
    next
      case True
      have "entry_valid e1" "alarm_script_ok (pa_state a1)"
        using same_job_valid [OF only_times_job [OF job]] assms(1,2) e1(2) by (simp_all add: alarm_script_ok_def)
      then obtain e2 a2 where p: "poll_due ev tp tv utc e1 a1 = (e2, a2)" "effect ev True e1 (pa_state a1) (pa_state a2)"
          "run_once utc e1 e2"
        using poll_due_ok by blast
      have "triggered now_ms utc e e2" using run_triggered [OF job p(3) 4(1)] 4(2) by blast
      moreover have "effect ev True e (pa_state a) (pa_state a2)"
        using p(2) unfolding e1(2) by (rule effect_same_job [OF only_times_job [OF job] effect_time'])
      ultimately show ?thesis using 4 True e1(1) p(1) by (simp add: poll_entry_def polled_due)
    qed
  qed
qed

section \<open>The table\<close>

definition runs_script :: "schedule_env \<Rightarrow> nat \<Rightarrow> bool \<Rightarrow> nat \<Rightarrow> schedule_entry \<Rightarrow> bool" where
  "runs_script ev now_ms tv utc e \<longleftrightarrow> due_entry now_ms tv utc e \<and> en_action e \<noteq> ACTION_ALARM \<and> ev_task_create ev (en_value e)"

definition script_after :: "schedule_env \<Rightarrow> nat \<Rightarrow> bool \<Rightarrow> nat \<Rightarrow> schedule_state \<Rightarrow> schedule_entry list \<Rightarrow> string" where
  "script_after ev now_ms tv utc s es =
     (if sc_pending_script s \<noteq> [] \<or> sc_script_runner s = None then sc_pending_script s
      else case find (runs_script ev now_ms tv utc) es of None \<Rightarrow> [] | Some e \<Rightarrow> en_value e)"

definition rings_alarm :: "nat \<Rightarrow> bool \<Rightarrow> nat \<Rightarrow> schedule_entry \<Rightarrow> bool" where
  "rings_alarm now_ms tv utc e \<longleftrightarrow> due_entry now_ms tv utc e \<and> en_action e = ACTION_ALARM"

abbreviation but_entries :: "schedule_state \<Rightarrow> schedule_state" where
  "but_entries s \<equiv> s\<lparr>sc_entries := []\<rparr>"

text \<open>The state after the poll of the entries \<open>es\<close>, in their order.\<close>

definition after_poll ::
  "schedule_env \<Rightarrow> nat \<Rightarrow> bool \<Rightarrow> nat \<Rightarrow> schedule_entry list \<Rightarrow> schedule_state \<Rightarrow> schedule_state \<Rightarrow> bool" where
  "after_poll ev now_ms tv utc es s s' \<longleftrightarrow> frame (but_entries s) (but_entries s') \<and> alarm_script_ok s'
     \<and> sc_alarm_active s' = (sc_alarm_active s \<or> (\<exists>e \<in> set es. rings_alarm now_ms tv utc e))
     \<and> sc_pending_script s' = script_after ev now_ms tv utc s es"

lemma after_poll_none: "alarm_script_ok s \<Longrightarrow> after_poll ev now_ms tv utc [] s s"
  by (simp add: after_poll_def frame_def script_after_def)

lemma after_poll_step:
  assumes "effect ev (due_entry now_ms tv utc e) e s s1" "entry_valid e"
    and "after_poll ev now_ms tv utc es (s1\<lparr>sc_entries := l\<rparr>) s2"
  shows "after_poll ev now_ms tv utc (e # es) s s2"
proof -
  have v: "en_value e \<noteq> []" if "en_action e \<noteq> ACTION_ALARM" using entry_valid_script [OF assms(2) that] by simp
  have f: "frame (but_entries s) (but_entries s2)" using assms(1,3) unfolding after_poll_def effect_def frame_def by simp
  have a: "sc_alarm_active s2 = (sc_alarm_active s \<or> (\<exists>e \<in> set (e # es). rings_alarm now_ms tv utc e))"
    using assms(1,3) unfolding after_poll_def effect_def rings_alarm_def by auto
  have r: "sc_script_runner s1 = sc_script_runner s" using assms(1) by (simp add: effect_def frame_def)
  have p: "sc_pending_script s1 = (if due_entry now_ms tv utc e \<and> starts_script ev s e then en_value e else sc_pending_script s)"
    using assms(1) by (simp add: effect_def)
  have "sc_pending_script s2 = script_after ev now_ms tv utc (s1\<lparr>sc_entries := l\<rparr>) es"
    using assms(3) by (simp add: after_poll_def)
  also have "\<dots> = script_after ev now_ms tv utc s (e # es)"
  proof (cases "sc_pending_script s \<noteq> [] \<or> sc_script_runner s = None")
    case True
    then have "sc_pending_script s1 = sc_pending_script s" unfolding p starts_script_def by auto
    then show ?thesis using True r by (simp add: script_after_def)
  next
    case False
    then have n: "sc_pending_script s = []" "sc_script_runner s \<noteq> None" by simp_all
    have "sc_pending_script s1 = (if runs_script ev now_ms tv utc e then en_value e else [])"
      unfolding p runs_script_def starts_script_def using n by simp
    moreover have "runs_script ev now_ms tv utc e \<Longrightarrow> en_value e \<noteq> []" using v by (simp add: runs_script_def)
    ultimately show ?thesis using n r by (cases "runs_script ev now_ms tv utc e") (auto simp: script_after_def)
  qed
  finally have "sc_pending_script s2 = script_after ev now_ms tv utc s (e # es)" .
  then show ?thesis using assms(3) f a unfolding after_poll_def by blast
qed

lemma poll_loop_ok:
  assumes "now_ms < 9223372036854775808"
  shows "distinct is \<Longrightarrow> \<forall>i \<in> set is. i < length (sc_entries (pa_state a)) \<Longrightarrow> \<forall>e \<in> set (sc_entries (pa_state a)). entry_valid e
    \<Longrightarrow> alarm_script_ok (pa_state a) \<Longrightarrow>
    \<exists>a'. poll_loop ev now_ms tv utc is a = Some a'
      \<and> after_poll ev now_ms tv utc (map ((!) (sc_entries (pa_state a))) is) (pa_state a) (pa_state a')
      \<and> length (sc_entries (pa_state a')) = length (sc_entries (pa_state a))
      \<and> (\<forall>i < length (sc_entries (pa_state a)).
           if i \<in> set is then polled now_ms tv utc (sc_entries (pa_state a) ! i) (sc_entries (pa_state a') ! i)
           else sc_entries (pa_state a') ! i = sc_entries (pa_state a) ! i)"
proof (induction "is" arbitrary: a)
  case Nil
  then show ?case by (simp add: after_poll_none)
next
  case (Cons i js)
  let ?es = "sc_entries (pa_state a)"
  have i: "i < length ?es" "i \<notin> set js" "entry_valid (?es ! i)" using Cons.prems by auto
  obtain e' a1 where p: "poll_entry ev (ev_later ev i) now_ms tv utc (?es ! i) a = Some (e', a1)"
      and e': "polled now_ms tv utc (?es ! i) e'"
      and eff: "effect ev (due_entry now_ms tv utc (?es ! i)) (?es ! i) (pa_state a) (pa_state a1)"
    using poll_entry_ok [OF i(3) Cons.prems(4) assms] by blast
  have es1: "sc_entries (pa_state a1) = ?es" and ok1: "alarm_script_ok (pa_state a1)"
    using eff by (simp_all add: effect_def frame_def)
  define a2 where "a2 = a1\<lparr>pa_state := (pa_state a1)\<lparr>sc_entries := ?es[i := e']\<rparr>\<rparr>"
  have at: "poll_at ev now_ms tv utc i a = Some a2" using p es1 by (simp add: poll_at_def a2_def)
  have es2: "sc_entries (pa_state a2) = ?es[i := e']" by (simp add: a2_def)
  have val: "entry_valid e'"
  proof -
    show ?thesis using i(3) same_job_valid [OF polled_job [OF e']] by blast
  qed
  have "\<exists>a'. poll_loop ev now_ms tv utc js a2 = Some a'
      \<and> after_poll ev now_ms tv utc (map ((!) (sc_entries (pa_state a2))) js) (pa_state a2) (pa_state a')
      \<and> length (sc_entries (pa_state a')) = length (sc_entries (pa_state a2))
      \<and> (\<forall>k < length (sc_entries (pa_state a2)).
           if k \<in> set js then polled now_ms tv utc (sc_entries (pa_state a2) ! k) (sc_entries (pa_state a') ! k)
           else sc_entries (pa_state a') ! k = sc_entries (pa_state a2) ! k)"
    using Cons.prems val ok1 by (intro Cons.IH) (auto simp: a2_def alarm_script_ok_def dest: set_update_subset_insert [THEN subsetD])
  then obtain a' where a': "poll_loop ev now_ms tv utc js a2 = Some a'"
      "after_poll ev now_ms tv utc (map ((!) (sc_entries (pa_state a2))) js) (pa_state a2) (pa_state a')"
      "length (sc_entries (pa_state a')) = length ?es"
      and each: "\<forall>k < length ?es. if k \<in> set js then polled now_ms tv utc (?es[i := e'] ! k) (sc_entries (pa_state a') ! k)
           else sc_entries (pa_state a') ! k = ?es[i := e'] ! k"
    unfolding es2 by auto
  have "map ((!) (?es[i := e'])) js = map ((!) ?es) js"
    by (rule map_cong [OF refl]) (use i(2) in \<open>metis nth_list_update_neq\<close>)
  note a'(2) [unfolded es2 this]
  moreover have "pa_state a2 = (pa_state a1)\<lparr>sc_entries := ?es[i := e']\<rparr>" by (simp add: a2_def)
  ultimately have "after_poll ev now_ms tv utc (map ((!) ?es) js) ((pa_state a1)\<lparr>sc_entries := ?es[i := e']\<rparr>) (pa_state a')"
    by simp
  from after_poll_step [OF eff i(3) this]
  have "after_poll ev now_ms tv utc (map ((!) ?es) (i # js)) (pa_state a) (pa_state a')" by simp
  moreover have "if k \<in> set (i # js) then polled now_ms tv utc (?es ! k) (sc_entries (pa_state a') ! k)
      else sc_entries (pa_state a') ! k = ?es ! k" if "k < length ?es" for k
    using each [rule_format, OF that] e' i that by (cases "k = i") (auto split: if_splits)
  ultimately show ?case using at a'(1,3) by simp
qed


section \<open>The end of a poll\<close>

text \<open>The alarm sound, the store and the registers of the real-time clock leave the table and the jobs alone.\<close>

definition same_jobs :: "schedule_state \<Rightarrow> schedule_state \<Rightarrow> bool" where
  "same_jobs s s' \<longleftrightarrow> sc_mutex s' = sc_mutex s \<and> sc_entries s' = sc_entries s \<and> sc_script_runner s' = sc_script_runner s
     \<and> sc_script_task s' = sc_script_task s \<and> sc_pending_script s' = sc_pending_script s
     \<and> sc_alarm_active s' = sc_alarm_active s \<and> sc_alarm_name s' = sc_alarm_name s \<and> sc_store_path s' = sc_store_path s"

lemma same_jobs_refl [intro]: "same_jobs s s"
  by (simp add: same_jobs_def)

lemma same_jobs_trans: "same_jobs s s' \<Longrightarrow> same_jobs s' s'' \<Longrightarrow> same_jobs s s''"
  by (simp add: same_jobs_def)

lemma same_jobs_ok: "same_jobs s s' \<Longrightarrow> alarm_script_ok s' = alarm_script_ok s"
  by (simp add: same_jobs_def alarm_script_ok_def)

lemma save_same_jobs: "same_jobs s (snd (save_locked ev s))"
  by (simp add: save_locked_def same_jobs_def split: prod.splits)

lemma sound_same_jobs: "same_jobs s (service_alarm_sound ev now_ms s)"
  by (simp add: service_alarm_sound_def same_jobs_def Let_def)

lemma alarm_same_jobs: "same_jobs s (update_rtc_alarm ev next_utc now_utc s)"
  by (simp add: update_rtc_alarm_def same_jobs_def Let_def split: prod.splits esp_err.splits option.splits)

lemma countdown_same_jobs: "same_jobs s (update_rtc_countdown ev next_ms now_ms s)"
  by (simp add: update_rtc_countdown_def same_jobs_def Let_def split: prod.splits esp_err.splits option.splits)

lemma interrupts_same_jobs: "same_jobs s (poll_interrupts ev s)"
  by (simp add: poll_interrupts_def same_jobs_def Let_def split: prod.splits esp_err.splits option.splits)


definition poll_uptime :: "schedule_env \<Rightarrow> nat" where
  "poll_uptime ev = solar_os_time_uptime_ms (ev_clock ev)"

definition poll_epoch :: "schedule_env \<Rightarrow> schedule_state \<Rightarrow> bool \<times> nat" where
  "poll_epoch ev s = (let (err, epoch_ms) = solar_os_time_get_utc_epoch_ms (ev_clock ev) (sc_time s) True
                      in (err = ESP_OK, epoch_ms div 1000))"

lemma uptime_bound: "tp_uptime_us tp < 9223372036854775808 \<Longrightarrow> solar_os_time_uptime_ms tp < 9223372036854775808"
  by (auto simp: solar_os_time_uptime_ms_def nat_less_iff)

lemma schedule_poll_total:
  assumes "sc_mutex s" "\<forall>e \<in> set (sc_entries s). entry_valid e" "alarm_script_ok s"
    and "tp_uptime_us (ev_clock ev) < 9223372036854775808"
    and "now_ms = poll_uptime ev" "(tv, utc) = poll_epoch ev s"
  shows "\<exists>s'. solar_os_schedule_poll ev s = Some s' \<and> alarm_script_ok s'
    \<and> length (sc_entries s') = length (sc_entries s)
    \<and> (\<forall>i < length (sc_entries s). polled now_ms tv utc (sc_entries s ! i) (sc_entries s' ! i))
    \<and> sc_alarm_active s' = (sc_alarm_active s \<or> (\<exists>e \<in> set (sc_entries s). rings_alarm now_ms tv utc e))
    \<and> sc_pending_script s' = script_after ev now_ms tv utc s (sc_entries s)"
proof -
  let ?a = "\<lparr>pa_state = s, pa_next_utc = 0, pa_next_uptime = 0, pa_changed = False\<rparr>"
  have b: "now_ms < 9223372036854775808" using assms(4,5) uptime_bound by (simp add: poll_uptime_def)
  obtain a where a: "poll_loop ev now_ms tv utc [0..<length (sc_entries s)] ?a = Some a"
      "after_poll ev now_ms tv utc (map ((!) (sc_entries s)) [0..<length (sc_entries s)]) s (pa_state a)"
      "length (sc_entries (pa_state a)) = length (sc_entries s)"
      "\<forall>i < length (sc_entries s). polled now_ms tv utc (sc_entries s ! i) (sc_entries (pa_state a) ! i)"
    using poll_loop_ok [OF b, of "[0..<length (sc_entries s)]" ?a ev tv utc] assms(2,3) by auto
  define s1 where "s1 = (if pa_changed a then snd (save_locked ev (pa_state a)) else pa_state a)"
  define s' where "s' = poll_interrupts ev (update_rtc_countdown ev (pa_next_uptime a) now_ms
    (update_rtc_alarm ev (pa_next_utc a) utc (service_alarm_sound ev now_ms s1)))"
  have "solar_os_schedule_poll ev s = Some s'"
    using assms(1,5,6) a(1) unfolding poll_uptime_def poll_epoch_def s'_def s1_def
    by (simp add: solar_os_schedule_poll_def Let_def split: prod.splits)
  moreover have "same_jobs (pa_state a) s'"
  proof -
    have "same_jobs (pa_state a) s1" using save_same_jobs by (auto simp: s1_def)
    note same_jobs_trans [OF same_jobs_trans [OF this sound_same_jobs] alarm_same_jobs]
    from same_jobs_trans [OF same_jobs_trans [OF this countdown_same_jobs] interrupts_same_jobs]
    show ?thesis unfolding s'_def .
  qed
  ultimately show ?thesis
    using a(2,3,4) unfolding after_poll_def map_nth by (intro exI [of _ s']) (simp add: same_jobs_ok, simp add: same_jobs_def)
qed


text \<open>An interval of two seconds that has been due for two seconds.\<close>

definition sample_interval :: schedule_entry where
  "sample_interval = zero_entry\<lparr>en_name := ''tea'', en_kind := INTERVAL, en_enabled := True, en_persistent := True,
     en_interval_seconds := 2, en_next_uptime_ms := 3000\<rparr>"

definition sample_env :: schedule_env where
  "sample_env = \<lparr>ev_clock = sample_clock, ev_later = (\<lambda>i. sample_clock), ev_flash_mounted = True, ev_mount_point = Some ''/flash'',
     ev_mkdir = True, ev_eexist = False, ev_mutex = True, ev_calloc = True, ev_fopen = True, ev_fwrite = True, ev_fflush = True,
     ev_fsync = True, ev_fclose = True, ev_replace = (\<lambda>n. True), ev_remove = True, ev_task_create = (\<lambda>p. True),
     ev_audio = True, ev_rtc = \<lparr>rd_set_alarm = (\<lambda>a. ESP_OK), rd_disable_alarm = ESP_OK, rd_set_countdown = (\<lambda>n r. ESP_OK),
       rd_disable_countdown = ESP_OK, rd_get_interrupt_status = (ESP_OK, 0), rd_clear_interrupt_status = (\<lambda>i. ESP_OK)\<rparr>\<rparr>"

definition sample_schedule :: schedule_state where
  "sample_schedule = (schedule_state_init sample_zone rtc_state_init (\<lambda>p. None))\<lparr>sc_mutex := True,
     sc_store_path := ''/flash/.solar/schedule.bin'', sc_entries := [sample_interval]\<rparr>"

lemma sample_interval_valid: "entry_valid sample_interval"
  by (simp add: sample_interval_def zero_entry_def entry_valid_def stored_entry_valid_def name_valid_def name_char_def
      action_valid_def cstr_def SOLAR_OS_SCHEDULE_NAME_MAX_def)


end
