(* ===== verification/ScheduleTable.thy ===== *)
theory ScheduleTable
  imports SchedulePoll
begin

text \<open>
  The table of the schedule service over all its calls: its invariant, what a call that fails leaves
  behind, and the store on the flash disc that a reboot reads.
\<close>

section \<open>The invariant\<close>

definition table_ok :: "schedule_entry list \<Rightarrow> bool" where
  "table_ok es \<longleftrightarrow> length es \<le> SOLAR_OS_SCHEDULE_MAX_ENTRIES \<and> distinct (map en_name es) \<and> (\<forall>e \<in> set es. entry_valid e)"

definition schedule_ok :: "schedule_state \<Rightarrow> bool" where
  "schedule_ok s \<longleftrightarrow> table_ok (sc_entries s) \<and> alarm_script_ok s"

lemma entry_index_Some: "entry_index name es = Some i \<Longrightarrow> i < length es \<and> en_name (es ! i) = name"
  by (auto simp: entry_index_def find_Some_iff)

lemma entry_index_None: "entry_index name es = None \<Longrightarrow> name \<notin> en_name ` set es"
  by (auto simp: entry_index_def find_None_iff in_set_conv_nth)

lemma table_ok_append:
  "table_ok es \<Longrightarrow> entry_index (en_name e) es = None \<Longrightarrow> \<not> SOLAR_OS_SCHEDULE_MAX_ENTRIES \<le> length es \<Longrightarrow> entry_valid e
   \<Longrightarrow> table_ok (es @ [e])"
  using entry_index_None by (auto simp: table_ok_def)

lemma table_ok_update:
  assumes "table_ok es" "i < length es" "same_job (es ! i) e"
  shows "table_ok (es[i := e])"
proof -
  have "en_name e = en_name (es ! i)" "entry_valid e"
    using assms same_job_valid [OF assms(3)] by (simp_all add: same_job_def table_ok_def)
  moreover have "map en_name (es[i := e]) = map en_name es"
    using assms(2) calculation(1) by (metis list_update_id map_update nth_map length_map)
  ultimately show ?thesis using assms(1) by (auto simp: table_ok_def dest: set_update_subset_insert [THEN subsetD])
qed

lemma table_ok_delete: "table_ok es \<Longrightarrow> table_ok (take i es @ drop (Suc i) es)"
  by (auto simp: table_ok_def distinct_append take_map [symmetric] drop_map [symmetric] dest: in_set_takeD in_set_dropD)
    (metis IntI disjoint_iff le_SucI order_refl set_take_disj_set_drop_if_distinct)+

lemma same_jobs_schedule_ok: "same_jobs s s' \<Longrightarrow> schedule_ok s' = schedule_ok s"
  unfolding schedule_ok_def by (simp add: same_jobs_ok) (simp add: same_jobs_def)

lemma schedule_ok_entries: "schedule_ok s \<Longrightarrow> table_ok es \<Longrightarrow> schedule_ok (s\<lparr>sc_entries := es\<rparr>)"
  by (simp add: schedule_ok_def alarm_script_ok_def)

lemma schedule_ok_time: "schedule_ok (s\<lparr>sc_time := t\<rparr>) = schedule_ok s"
  by (simp add: schedule_ok_def alarm_script_ok_def)


lemma save_locked_entries [simp]: "sc_entries (snd (save_locked ev s)) = sc_entries s"
  using save_same_jobs [of s ev] by (simp add: same_jobs_def)

lemma save_locked_ok: "schedule_ok (snd (save_locked ev s)) = schedule_ok s"
  by (rule same_jobs_schedule_ok) (rule save_same_jobs)

section \<open>The calls\<close>

lemma action_value_valid: "action_valid action content \<Longrightarrow> action_valid action (Some (strlcpy SOLAR_OS_SCHEDULE_VALUE_MAX (cstr content)))"
  by (cases content; cases action) (auto simp: action_valid_def cstr_def strlcpy_def SOLAR_OS_SCHEDULE_VALUE_MAX_def)

lemma filled_entry_valid:
  assumes "name_valid name" "action_valid action content"
    and "stored_entry_valid (e\<lparr>en_name := ''a'', en_action := ACTION_ALARM, en_value := [], en_persistent := True\<rparr>)"
    and "en_name e = strlcpy SOLAR_OS_SCHEDULE_NAME_MAX (cstr name)" "en_value e = []"
  shows "entry_valid (fill_action e action content)"
proof -
  have "name_valid (Some (en_name e))"
    using assms(1,4) by (cases name) (auto simp: name_valid_def cstr_def strlcpy_id)
  moreover have "action_valid action (Some (en_value (fill_action e action content)))"
    using assms(2,5) action_value_valid [OF assms(2)]
    by (cases content) (auto simp: fill_action_def Let_def cstr_def action_valid_def split: if_splits)
  ultimately show ?thesis
    using assms(3) by (cases content) (auto simp: entry_valid_def stored_entry_valid_def fill_action_def Let_def split: if_splits)
qed

text \<open>A call keeps the invariant, and the table when it fails.\<close>

abbreviation keeps :: "schedule_state \<Rightarrow> esp_err \<times> schedule_state \<Rightarrow> bool" where
  "keeps s r \<equiv> schedule_ok (snd r) \<and> (fst r \<noteq> ESP_OK \<longrightarrow> sc_entries (snd r) = sc_entries s)"

lemmas fresh_entry = zero_entry_def stored_entry_valid_def name_valid_def name_char_def action_valid_def cstr_def
  SOLAR_OS_SCHEDULE_NAME_MAX_def

lemma add_entry_ok:
  assumes "schedule_ok s" "entry_valid e"
  shows "keeps s (add_entry ev e s)"
proof -
  define s1 where "s1 = s\<lparr>sc_entries := sc_entries s @ [e]\<rparr>"
  have ok1: "schedule_ok s1"
    if "entry_index (en_name e) (sc_entries s) = None" "\<not> SOLAR_OS_SCHEDULE_MAX_ENTRIES \<le> length (sc_entries s)"
    using assms that schedule_ok_entries [OF assms(1) table_ok_append] by (simp add: s1_def schedule_ok_def)
  obtain err s2 where sv: "save_locked ev s1 = (err, s2)" by fastforce
  have s2: "sc_entries s2 = sc_entries s @ [e]" "schedule_ok s2 = schedule_ok s1"
    using save_locked_entries [of ev s1] save_locked_ok [of ev s1] unfolding sv by (simp_all add: s1_def)
  have restored: "schedule_ok s1 \<Longrightarrow> schedule_ok (s2\<lparr>sc_entries := sc_entries s\<rparr>)"
    by (rule schedule_ok_entries) (use s2(2) assms(1) in \<open>simp_all add: schedule_ok_def [of s]\<close>)
  show ?thesis
    using assms(1) ok1 sv s2 restored unfolding add_entry_def s1_def [symmetric] Let_def by (auto split: if_splits)
qed

lemma add_relative_ok:
  assumes "schedule_ok s"
  shows "keeps s (solar_os_schedule_add_relative ev name seconds action content persistent s)"
proof (cases "seconds = 0 \<or> \<not> name_valid name \<or> \<not> action_valid action content")
  case True
  then show ?thesis using assms by (simp add: solar_os_schedule_add_relative_def)
next
  case False
  then have a: "name_valid name" "action_valid action content" "seconds \<noteq> 0" by simp_all
  have v: "entry_valid (fill_action ((named_entry name ONCE_RELATIVE)\<lparr>en_persistent := persistent,
      en_interval_seconds := seconds, en_next_uptime_ms := n\<rparr>) action content)" for n
    by (rule filled_entry_valid [OF a(1,2)]) (simp_all add: a(3) fresh_entry)
  show ?thesis
    unfolding solar_os_schedule_add_relative_def if_not_P [OF False] Let_def by (rule add_entry_ok [OF assms v])
qed


lemma add_interval_ok:
  assumes "schedule_ok s"
  shows "keeps s (solar_os_schedule_add_interval ev name seconds action content s)"
proof (cases "seconds = 0 \<or> \<not> name_valid name \<or> \<not> action_valid action content")
  case True
  then show ?thesis using assms by (simp add: solar_os_schedule_add_interval_def)
next
  case False
  then have a: "name_valid name" "action_valid action content" "seconds \<noteq> 0" by simp_all
  have v: "entry_valid (fill_action ((named_entry name INTERVAL)\<lparr>en_interval_seconds := seconds, en_next_uptime_ms := n\<rparr>)
      action content)" for n
    by (rule filled_entry_valid [OF a(1,2)]) (simp_all add: a(3) fresh_entry)
  show ?thesis
    unfolding solar_os_schedule_add_interval_def if_not_P [OF False] Let_def by (rule add_entry_ok [OF assms v])
qed

lemma add_at_ok:
  assumes "schedule_ok s"
  shows "keeps s (solar_os_schedule_add_at ev name year month day hour minute second action content s)"
proof (cases "\<not> name_valid name \<or> \<not> action_valid action content")
  case True
  then show ?thesis using assms by (simp add: solar_os_schedule_add_at_def)
next
  case False
  then have a: "name_valid name" "action_valid action content" by simp_all
  obtain at_utc t where l: "local_seconds (ev_clock ev) year month day hour minute second (sc_time s) = (at_utc, t)" by fastforce
  obtain err now_ms where g: "solar_os_time_get_utc_epoch_ms (ev_clock ev) t True = (err, now_ms)" by fastforce
  have v: "entry_valid (fill_action ((named_entry name ONCE_CALENDAR)\<lparr>en_at_utc_seconds := n, en_next_utc_seconds := n\<rparr>)
      action content)" if "k < n" for n k :: nat
    by (rule filled_entry_valid [OF a(1,2)]) (use that in \<open>simp_all add: fresh_entry\<close>)
  have t: "schedule_ok (s\<lparr>sc_time := t\<rparr>)" using assms by (simp add: schedule_ok_time)
  show ?thesis
    using add_entry_ok [OF t v] t unfolding solar_os_schedule_add_at_def if_not_P [OF False] l g Let_def
    by (auto split: option.splits simp: g linorder_not_le)
qed

lemma add_recurring_ok:
  assumes "schedule_ok s" "kind = DAILY \<or> kind = WEEKLY"
  shows "keeps s (add_recurring ev name kind weekdays hour minute second action content s)"
proof (cases "\<not> name_valid name \<or> \<not> action_valid action content \<or> 23 < hour \<or> 59 < minute \<or> 59 < second
         \<or> (kind = WEEKLY \<and> (weekdays = 0 \<or> weekdays AND 0x80 \<noteq> 0))")
  case True
  then show ?thesis using assms by (simp add: add_recurring_def)
next
  case False
  then have a: "name_valid name" "action_valid action content"
    and b: "\<not> 23 < hour" "\<not> 59 < minute" "\<not> 59 < second" "kind = WEEKLY \<Longrightarrow> weekdays \<noteq> 0 \<and> weekdays AND 0x80 = 0" by blast+
  have v: "entry_valid (fill_action ((named_entry name kind)\<lparr>en_hour := hour, en_minute := minute, en_second := second,
      en_weekdays := weekdays\<rparr>) action content)"
    by (rule filled_entry_valid [OF a(1,2)]) (use assms(2) b in \<open>auto simp: fresh_entry\<close>)
  show ?thesis unfolding add_recurring_def if_not_P [OF False] Let_def by (rule add_entry_ok [OF assms(1) v])
qed


lemma saved_or_restored:
  assumes "schedule_ok s" "table_ok es" "save_locked ev (s\<lparr>sc_entries := es\<rparr>) = (err, s2)"
  shows "sc_entries s2 = es \<and> schedule_ok s2 \<and> schedule_ok (s2\<lparr>sc_entries := sc_entries s\<rparr>)"
proof -
  let ?s1 = "s\<lparr>sc_entries := es\<rparr>"
  have ok1: "schedule_ok ?s1" using assms(1,2) by (rule schedule_ok_entries)
  have "sc_entries s2 = es" using save_locked_entries [of ev ?s1] unfolding assms(3) by simp
  moreover have ok2: "schedule_ok s2" using save_locked_ok [of ev ?s1] ok1 unfolding assms(3) by simp
  moreover have "schedule_ok (s2\<lparr>sc_entries := sc_entries s\<rparr>)"
    using ok2 assms(1) by (intro schedule_ok_entries) (simp_all add: schedule_ok_def [of s])
  ultimately show ?thesis by blast
qed

lemma remove_ok:
  assumes "schedule_ok s"
  shows "keeps s (solar_os_schedule_remove ev name s)"
proof (cases "\<not> sc_mutex s \<or> name = None \<or> entry_index (the name) (sc_entries s) = None")
  case True
  then show ?thesis using assms by (auto simp: solar_os_schedule_remove_def)
next
  case False
  then obtain i where i: "sc_mutex s" "name \<noteq> None" "entry_index (the name) (sc_entries s) = Some i" by auto
  let ?es = "take i (sc_entries s) @ drop (Suc i) (sc_entries s)"
  have t: "table_ok ?es" using assms by (simp add: schedule_ok_def table_ok_delete)
  obtain err s2 where sv: "save_locked ev (s\<lparr>sc_entries := ?es\<rparr>) = (err, s2)" by fastforce
  note r = saved_or_restored [OF assms t sv]
  have restored: "take i (sc_entries s2) @ sc_entries s ! i # drop i (sc_entries s2) = sc_entries s"
    using r entry_index_Some [OF i(3)] by (simp add: id_take_nth_drop [symmetric])
  show ?thesis
    using i r restored schedule_ok_entries [OF assms t] by (auto simp: solar_os_schedule_remove_def Let_def sv)
qed

lemma set_enabled_ok:
  assumes "schedule_ok s"
  shows "keeps s (solar_os_schedule_set_enabled ev name enabled s)"
proof (cases "\<not> sc_mutex s \<or> name = None \<or> entry_index (the name) (sc_entries s) = None")
  case True
  then show ?thesis using assms by (auto simp: solar_os_schedule_set_enabled_def)
next
  case False
  then obtain i where i: "sc_mutex s" "name \<noteq> None" "entry_index (the name) (sc_entries s) = Some i" by auto
  define e where "e = enabled_entry ev enabled (sc_entries s ! i)"
  have "same_job (sc_entries s ! i) e" by (simp add: e_def enabled_entry_def same_job_def Let_def)
  then have t: "table_ok ((sc_entries s)[i := e])"
    using assms entry_index_Some [OF i(3)] by (simp add: schedule_ok_def table_ok_update)
  obtain err s2 where sv: "save_locked ev (s\<lparr>sc_entries := (sc_entries s)[i := e]\<rparr>) = (err, s2)" by fastforce
  note r = saved_or_restored [OF assms t sv]
  have restored: "(sc_entries s2)[i := sc_entries s ! i] = sc_entries s" using r by simp
  have "solar_os_schedule_set_enabled ev name enabled s = (if en_persistent e
      then (err, if err \<noteq> ESP_OK then s2\<lparr>sc_entries := (sc_entries s2)[i := sc_entries s ! i]\<rparr> else s2)
      else (ESP_OK, s\<lparr>sc_entries := (sc_entries s)[i := e]\<rparr>))"
    using i by (auto simp: solar_os_schedule_set_enabled_def Let_def e_def [symmetric] sv)
  then show ?thesis using r restored schedule_ok_entries [OF assms t] by simp
qed


lemma run_ok:
  assumes "schedule_ok s"
  shows "schedule_ok (snd (solar_os_schedule_run ev name s))"
proof (cases "\<not> sc_mutex s \<or> name = None \<or> entry_index (the name) (sc_entries s) = None")
  case True
  then show ?thesis using assms by (auto simp: solar_os_schedule_run_def)
next
  case False
  then obtain i where i: "sc_mutex s" "name \<noteq> None" "entry_index (the name) (sc_entries s) = Some i" by auto
  have l: "i < length (sc_entries s)" using entry_index_Some [OF i(3)] by simp
  obtain fired e s1 where t: "trigger_locked ev (sc_entries s ! i) s = (fired, e, s1)" by (metis prod_cases3)
  have "entry_valid (sc_entries s ! i)" "alarm_script_ok s" using assms l by (auto simp: schedule_ok_def table_ok_def)
  from trigger_ok [OF t this] have k: "sc_entries s1 = sc_entries s" "alarm_script_ok s1" "same_job (sc_entries s ! i) e"
    by (simp_all add: effect_def frame_def)
  then have "schedule_ok s1" "table_ok ((sc_entries s1)[i := e])"
    using assms l by (simp_all add: schedule_ok_def table_ok_update)
  then have "schedule_ok (s1\<lparr>sc_entries := (sc_entries s1)[i := e]\<rparr>)" by (rule schedule_ok_entries)
  then show ?thesis using i by (auto simp: solar_os_schedule_run_def t)
qed

lemma poll_schedule_ok:
  assumes "schedule_ok s" "tp_uptime_us (ev_clock ev) < 9223372036854775808"
  shows "\<exists>s'. solar_os_schedule_poll ev s = Some s' \<and> schedule_ok s'"
proof (cases "sc_mutex s")
  case False
  then show ?thesis using assms(1) by (simp add: solar_os_schedule_poll_def)
next
  case True
  let ?es = "sc_entries s"
  obtain tv utc where e: "(tv, utc) = poll_epoch ev s" by (metis prod.collapse)
  have v: "\<forall>e \<in> set ?es. entry_valid e" "alarm_script_ok s" using assms(1) by (auto simp: schedule_ok_def table_ok_def)
  from schedule_poll_total [OF True v assms(2) refl e] obtain s' where p: "solar_os_schedule_poll ev s = Some s'" "alarm_script_ok s'"
      "length (sc_entries s') = length ?es"
      and each: "\<forall>i < length ?es. polled (poll_uptime ev) tv utc (?es ! i) (sc_entries s' ! i)" by blast
  have job: "\<forall>i < length ?es. same_job (?es ! i) (sc_entries s' ! i)" using each polled_job by blast
  then have "map en_name (sc_entries s') = map en_name ?es"
    by (intro nth_equalityI) (simp_all add: p(3) same_job_def)
  moreover have "\<forall>e \<in> set (sc_entries s'). entry_valid e"
    using job v(1) p(3) same_job_valid by (metis in_set_conv_nth)
  ultimately have "table_ok (sc_entries s')" using assms(1) p(3) by (simp add: schedule_ok_def table_ok_def)
  then show ?thesis using p by (simp add: schedule_ok_def)
qed

section \<open>The store\<close>

lemma stored_entries_valid:
  assumes "store_valid st" "e \<in> set (take (unat (st_count st)) (st_slots st))"
  shows "entry_valid e"
proof -
  obtain i where i: "i < unat (st_count st)" "e = st_slots st ! i" using assms(2) by (auto simp: in_set_conv_nth)
  then have "stored_entry_valid e" using assms(1) by (auto simp: store_valid_def list_all_iff split: if_splits)
  moreover from this have "e\<lparr>en_persistent := True\<rparr> = e" by (auto simp: stored_entry_valid_def split: if_splits)
  ultimately show ?thesis by (simp add: entry_valid_def)
qed

lemma stored_names_distinct:
  assumes "store_valid st"
  shows "distinct (map en_name (take (unat (st_count st)) (st_slots st)))"
proof -
  have ne: "en_name (st_slots st ! i) \<noteq> en_name (st_slots st ! j)" if "j < i" "i < unat (st_count st)" for i j
    using assms that by (auto simp: store_valid_def list_all_iff split: if_splits)
  show ?thesis
    unfolding distinct_conv_nth by (auto dest: ne) (metis ne linorder_neqE_nat)
qed

lemma stored_table_ok: "store_valid st \<Longrightarrow> table_ok (take (unat (st_count st)) (st_slots st))"
  using stored_entries_valid stored_names_distinct
  by (auto simp: table_ok_def store_valid_def split: if_splits)

definition restart_entry :: "schedule_env \<Rightarrow> schedule_entry \<Rightarrow> schedule_entry" where
  "restart_entry ev e = (if en_kind e = INTERVAL
     then e\<lparr>en_next_uptime_ms := u64 (solar_os_time_uptime_ms (ev_clock ev) + interval_ms e)\<rparr> else e)"

lemma restart_same_job: "same_job e (restart_entry ev e)"
  by (simp add: restart_entry_def same_job_def)

lemma table_ok_map:
  assumes "table_ok es" "\<And>e. same_job e (f e)"
  shows "table_ok (map f es)"
proof -
  have "en_name (f e) = en_name e" "entry_valid (f e) = entry_valid e" for e
    using assms(2) [of e] same_job_valid [OF assms(2) [of e]] by (simp_all add: same_job_def)
  then show ?thesis using assms(1) by (simp add: table_ok_def comp_def)
qed

lemma init_ok:
  assumes "schedule_ok s"
  shows "schedule_ok (snd (solar_os_schedule_init ev s))"
proof (cases "sc_mutex s \<or> \<not> ev_mutex ev")
  case True
  then show ?thesis
    using assms by (auto simp: solar_os_schedule_init_def schedule_state_init_def schedule_ok_def table_ok_def alarm_script_ok_def)
next
  case False
  define s0 where "s0 = (schedule_state_init (sc_time s) (sc_rtc s) (sc_disc s))\<lparr>sc_tones := sc_tones s, sc_mutex := True\<rparr>"
  obtain err s1 where p: "prepare_store_path ev s0 = (err, s1)" by fastforce
  then have s1: "sc_entries s1 = []" "alarm_script_ok s1"
    by (auto simp: prepare_store_path_def s0_def schedule_state_init_def alarm_script_ok_def split: if_splits prod.splits esp_err.splits)
  define s2 where "s2 = (if err = ESP_OK then load_entries ev s1 else s1)"
  have "table_ok (sc_entries s2) \<and> alarm_script_ok s2"
    using s1 stored_table_ok by (auto simp: s2_def load_entries_def alarm_script_ok_def table_ok_def
      split: option.splits file_node.splits store_file.splits)
  moreover have "solar_os_schedule_init ev s = (ESP_OK, s2\<lparr>sc_entries := map (restart_entry ev) (sc_entries s2)\<rparr>)"
    using False p by (simp add: solar_os_schedule_init_def Let_def s0_def s2_def restart_entry_def [abs_def])
  ultimately show ?thesis
    using table_ok_map [of "sc_entries s2" "restart_entry ev"] restart_same_job
    by (simp add: schedule_ok_def alarm_script_ok_def)
qed

section \<open>Sequences of calls\<close>

text \<open>The calls of the service, and whatever other services do to the clock, the real-time clock and the disc.\<close>

datatype schedule_call =
    Call_init
  | Call_set_runner "nat option"
  | Call_script_end
  | Call_add_relative "string option" u32 schedule_action "string option" bool
  | Call_add_interval "string option" u32 schedule_action "string option"
  | Call_add_at "string option" u16 u8 u8 u8 u8 u8 schedule_action "string option"
  | Call_add_daily "string option" u8 u8 u8 schedule_action "string option"
  | Call_add_weekly "string option" u8 u8 u8 u8 schedule_action "string option"
  | Call_remove "string option"
  | Call_set_enabled "string option" bool
  | Call_run "string option"
  | Call_poll
  | Call_stop_alarm
  | Other_services time_state rtc_state "store_file disc"

fun call_result :: "schedule_env \<Rightarrow> schedule_call \<Rightarrow> schedule_state \<Rightarrow> esp_err \<times> schedule_state" where
  "call_result ev Call_init s = solar_os_schedule_init ev s"
| "call_result ev (Call_set_runner r) s = (ESP_OK, solar_os_schedule_set_script_runner r s)"
| "call_result ev Call_script_end s = (ESP_OK, script_task_end s)"
| "call_result ev (Call_add_relative n sec a v p) s = solar_os_schedule_add_relative ev n sec a v p s"
| "call_result ev (Call_add_interval n sec a v) s = solar_os_schedule_add_interval ev n sec a v s"
| "call_result ev (Call_add_at n y m d h mi sec a v) s = solar_os_schedule_add_at ev n y m d h mi sec a v s"
| "call_result ev (Call_add_daily n h m sec a v) s = solar_os_schedule_add_daily ev n h m sec a v s"
| "call_result ev (Call_add_weekly n w h m sec a v) s = solar_os_schedule_add_weekly ev n w h m sec a v s"
| "call_result ev (Call_remove n) s = solar_os_schedule_remove ev n s"
| "call_result ev (Call_set_enabled n b) s = solar_os_schedule_set_enabled ev n b s"
| "call_result ev (Call_run n) s = solar_os_schedule_run ev n s"
| "call_result ev Call_poll s = (ESP_OK, s)"
| "call_result ev Call_stop_alarm s = (ESP_OK, solar_os_schedule_stop_alarm s)"
| "call_result ev (Other_services t r d) s = (ESP_OK, s\<lparr>sc_time := t, sc_rtc := r, sc_disc := d\<rparr>)"

definition schedule_do :: "schedule_env \<Rightarrow> schedule_call \<Rightarrow> schedule_state \<Rightarrow> schedule_state option" where
  "schedule_do ev c s = (if c = Call_poll then solar_os_schedule_poll ev s else Some (snd (call_result ev c s)))"

fun run_all :: "('c \<Rightarrow> 's \<Rightarrow> 's option) \<Rightarrow> 'c list \<Rightarrow> 's \<Rightarrow> 's option" where
  "run_all step [] s = Some s"
| "run_all step (c # cs) s = do { s1 \<leftarrow> step c s; run_all step cs s1 }"

definition schedule_run_calls :: "(schedule_env \<times> schedule_call) list \<Rightarrow> schedule_state \<Rightarrow> schedule_state option" where
  "schedule_run_calls = run_all (\<lambda>(ev, c). schedule_do ev c)"

text \<open>What a service promises whose calls return and keep an invariant, and what its callers get for any sequence.\<close>

locale total_service =
  fixes step :: "'c \<Rightarrow> 's \<Rightarrow> 's option" and allowed :: "'c \<Rightarrow> bool" and ok :: "'s \<Rightarrow> bool"
  assumes step_keeps: "allowed c \<Longrightarrow> ok s \<Longrightarrow> \<exists>s'. step c s = Some s' \<and> ok s'"
begin

lemma run_keeps: "\<forall>c \<in> set cs. allowed c \<Longrightarrow> ok s \<Longrightarrow> \<exists>s'. run_all step cs s = Some s' \<and> ok s'"
proof (induction cs arbitrary: s)
  case (Cons c cs)
  then obtain s1 where "step c s = Some s1" "ok s1" using step_keeps [of c s] by auto
  then show ?case using Cons by simp
qed simp

end

lemma call_result_ok: "schedule_ok s \<Longrightarrow> schedule_ok (snd (call_result ev c s))"
  by (cases c)
    (simp_all add: init_ok add_relative_ok add_interval_ok add_at_ok add_recurring_ok solar_os_schedule_add_daily_def
      solar_os_schedule_add_weekly_def remove_ok set_enabled_ok run_ok,
     simp_all add: schedule_ok_def alarm_script_ok_def script_task_end_def solar_os_schedule_set_script_runner_def
      solar_os_schedule_stop_alarm_def)

lemma schedule_do_ok:
  assumes "schedule_ok s" "tp_uptime_us (ev_clock ev) < 9223372036854775808"
  shows "\<exists>s'. schedule_do ev c s = Some s' \<and> schedule_ok s'"
  using poll_schedule_ok [OF assms] call_result_ok [OF assms(1)] by (simp add: schedule_do_def)

definition real_clock :: "schedule_env \<times> schedule_call \<Rightarrow> bool" where
  "real_clock x = (tp_uptime_us (ev_clock (fst x)) < 9223372036854775808)"

interpretation schedule: total_service "\<lambda>(ev, c). schedule_do ev c" real_clock schedule_ok
  by unfold_locales (use schedule_do_ok in \<open>auto simp: real_clock_def\<close>)

lemma schedule_init_ok: "schedule_ok (schedule_state_init t r d)"
  by (simp add: schedule_state_init_def schedule_ok_def table_ok_def alarm_script_ok_def)

text \<open>The calls that change the table from outside.\<close>

definition changes_table :: "schedule_call \<Rightarrow> bool" where
  "changes_table c \<longleftrightarrow> c \<noteq> Call_init \<and> c \<noteq> Call_poll \<and> (\<forall>n. c \<noteq> Call_run n)"

lemma failed_call_keeps:
  "schedule_ok s \<Longrightarrow> changes_table c \<Longrightarrow> fst (call_result ev c s) \<noteq> ESP_OK \<Longrightarrow> sc_entries (snd (call_result ev c s)) = sc_entries s"
  by (cases c) (simp_all add: changes_table_def add_relative_ok add_interval_ok add_at_ok add_recurring_ok
    solar_os_schedule_add_daily_def solar_os_schedule_add_weekly_def remove_ok set_enabled_ok)

text \<open>
  C37. From a start with any disc, whatever calls come in whatever order and with whatever arguments and
  answers of the system, and whatever other services do, every call returns. The table then has at most
  sixteen entries with different valid names, each fit to be stored; a script is pending exactly while
  its task is, and an alarm rings exactly while it has a name. A call to add, remove or switch an entry
  that fails leaves the table as it was.
\<close>

theorem schedule_table_invariant:
  assumes "\<forall>x \<in> set cs. real_clock x"
  shows "\<exists>s. schedule_run_calls cs (schedule_state_init t r d) = Some s \<and> schedule_ok s
    \<and> (\<forall>ev c. changes_table c \<and> fst (call_result ev c s) \<noteq> ESP_OK \<longrightarrow> sc_entries (snd (call_result ev c s)) = sc_entries s)"
  using schedule.run_keeps [OF assms schedule_init_ok] failed_call_keeps unfolding schedule_run_calls_def by blast

lemma schedule_table_invariant_witness:
  "\<exists>s. schedule_run_calls [(sample_env, Call_init), (sample_env, Call_add_interval (Some ''tea'') 2 ACTION_ALARM None),
       (sample_env, Call_poll)] (schedule_state_init sample_zone rtc_state_init (\<lambda>p. None)) = Some s
     \<and> length (sc_entries s) \<le> 16"
proof -
  have u: "real_clock (sample_env, c)" for c by (simp add: real_clock_def sample_env_def sample_clock_def)
  show ?thesis
    using schedule_table_invariant [of "[(sample_env, Call_init), (sample_env, Call_add_interval (Some ''tea'') 2 ACTION_ALARM None),
       (sample_env, Call_poll)]" sample_zone rtc_state_init "\<lambda>p. None"] u
    by (auto simp: schedule_ok_def table_ok_def SOLAR_OS_SCHEDULE_MAX_ENTRIES_def )
qed

section \<open>The store and the next start\<close>

lemma stored_copy_valid: "entry_valid e \<Longrightarrow> en_persistent e \<Longrightarrow> stored_entry_valid (stored_copy e)"
proof -
  assume v: "entry_valid e" and p: "en_persistent e"
  have "stored_entry_valid (stored_copy e) = stored_entry_valid e" by (simp add: stored_entry_valid_def stored_copy_def)
  moreover have "e\<lparr>en_persistent := True\<rparr> = e" using p by simp
  ultimately show ?thesis using v by (simp only: entry_valid_def)
qed

text \<open>The table that a start finds: the persistent entries with their times cleared.\<close>

definition kept_entries :: "schedule_entry list \<Rightarrow> schedule_entry list" where
  "kept_entries es = map stored_copy (filter en_persistent es)"

lemma store_of_valid:
  assumes "table_ok es"
  shows "store_valid (store_of es) \<and> take (unat (st_count (store_of es))) (st_slots (store_of es)) = kept_entries es"
proof -
  have len: "length (kept_entries es) \<le> 16"
    using assms order_trans [OF length_filter_le [of en_persistent es], of 16]
    by (simp add: kept_entries_def table_ok_def SOLAR_OS_SCHEDULE_MAX_ENTRIES_def)
  then have c: "unat (of_nat (length (kept_entries es)) :: u16) = length (kept_entries es)" by (simp add: unat_of_nat)
  have names: "distinct (map en_name (kept_entries es))"
    using assms by (simp add: kept_entries_def table_ok_def comp_def stored_copy_def distinct_map_filter)
  have valid: "stored_entry_valid e" if "e \<in> set (kept_entries es)" for e
    using that assms stored_copy_valid by (auto simp: kept_entries_def table_ok_def)
  have "en_name (kept_entries es ! i) \<noteq> en_name (kept_entries es ! j)" if "j < i" "i < length (kept_entries es)" for i j
    using names that by (simp add: distinct_conv_nth)
  then have "store_valid (store_of es)"
    using valid len c by (simp add: store_valid_def store_of_def kept_entries_def [symmetric] Let_def list_all_iff
        SOLAR_OS_SCHEDULE_MAX_ENTRIES_def nth_append)
  then show ?thesis using c by (simp add: store_of_def kept_entries_def [symmetric] Let_def)
qed

text \<open>A start on a flash disc whose store is at \<open>path\<close>.\<close>

definition starts_at :: "schedule_env \<Rightarrow> string \<Rightarrow> bool" where
  "starts_at ev path \<longleftrightarrow> ev_mutex ev \<and> ev_flash_mounted ev \<and> ev_fopen ev \<and> ev_calloc ev \<and> (ev_mkdir ev \<or> ev_eexist ev)
     \<and> fst (solar_os_storage_join_path (ev_mount_point ev) (Some SCHEDULE_STORE_DIR) SOLAR_OS_STORAGE_PATH_MAX) = ESP_OK
     \<and> snd (solar_os_storage_join_path (ev_mount_point ev) (Some SCHEDULE_STORE_DIR) SOLAR_OS_STORAGE_PATH_MAX) \<noteq> []
     \<and> solar_os_storage_join_path (ev_mount_point ev) (Some SCHEDULE_STORE_FILE) SOLAR_OS_STORAGE_PATH_MAX = (ESP_OK, path)
     \<and> path \<noteq> []"

lemma start_reads:
  assumes "starts_at ev path" "table_ok es" "d path = Some (Regular (Whole (store_of es)))"
  shows "sc_entries (snd (solar_os_schedule_init ev (schedule_state_init t r d))) = map (restart_entry ev) (kept_entries es)"
proof -
  have p: "prepare_store_path ev s = (ESP_OK, s\<lparr>sc_store_path := path\<rparr>)" for s
    using assms(1) by (auto simp: prepare_store_path_def starts_at_def solar_os_storage_mkdir_def cstr_def split: prod.splits)
  show ?thesis
    using assms store_of_valid [OF assms(2)]
    by (simp add: solar_os_schedule_init_def schedule_state_init_def p load_entries_def starts_at_def Let_def
        restart_entry_def [abs_def])
qed


text \<open>What a disc on the way of a save holds of the store: the old one in its place or as the backup, or the new one.\<close>

definition store_kept :: "string \<Rightarrow> store_file disc \<Rightarrow> schedule_entry list \<Rightarrow> store_file disc \<Rightarrow> bool" where
  "store_kept active d es x \<longleftrightarrow> x active = d active \<or> (x active = None \<and> x (active @ ''.bak'') = d active)
     \<or> x active = Some (Regular (Whole (store_of es)))"

lemma save_steps_keep:
  assumes "sc_store_path s \<noteq> []" "length (sc_store_path s) + 4 < SOLAR_OS_STORAGE_PATH_MAX"
    and "save_locked_steps ev s = (err, discs)"
  shows "(\<forall>x \<in> set discs. store_kept (sc_store_path s) (sc_disc s) (sc_entries s) x)
    \<and> (err = ESP_OK \<longrightarrow> last discs (sc_store_path s) = Some (Regular (Whole (store_of (sc_entries s)))))"
proof -
  define active d staged backup where "active = sc_store_path s" and "d = sc_disc s"
    and "staged = active @ ''.tmp''" and "backup = active @ ''.bak''"
  define new where "new = d(staged := Some (Regular (Whole (store_of (sc_entries s)))))"
  obtain err1 more_discs where r:
      "solar_os_storage_replace_file (ev_replace ev) (Some staged) (Some active) (Some backup) new = (err1, more_discs)" by fastforce
  have ne: "staged \<noteq> []" "active \<noteq> []" "backup \<noteq> []" "staged \<noteq> active" "staged \<noteq> backup" "active \<noteq> backup"
    using assms(1) by (simp_all add: active_def staged_def backup_def)
  have n: "new staged = Some (Regular (Whole (store_of (sc_entries s))))" "new active = d active"
    using ne(4) by (simp_all add: new_def)
  note k = replace_keeps_a_copy [where d = new, OF ne n(1) r]
  have sib: "solar_os_storage_sibling_path (Some active) (Some ''.tmp'') SOLAR_OS_STORAGE_PATH_MAX = (ESP_OK, staged)"
      "solar_os_storage_sibling_path (Some active) (Some ''.bak'') SOLAR_OS_STORAGE_PATH_MAX = (ESP_OK, backup)"
    using assms(1,2) by (simp_all add: sibling_short active_def staged_def backup_def)
  have rm: "snd (solar_os_storage_remove b (Some staged) x) = x \<or> snd (solar_os_storage_remove b (Some staged) x) = x(staged := None)"
    for b and x :: "store_file disc"
    by (auto simp: solar_os_storage_remove_def disc_remove_def cstr_def split: prod.splits if_splits)
  let ?K = "store_kept active d (sc_entries s)"
  have K: "?K d" "?K (d(staged := y))" "?K x \<Longrightarrow> ?K (x(staged := None))" for x y
    using ne by (auto simp: store_kept_def backup_def [symmetric])
  have Krm: "?K x \<Longrightarrow> ?K (snd (solar_os_storage_remove b (Some staged) x))" for b x using rm [of b x] K(3) by metis
  have Kmore: "\<forall>x \<in> set more_discs. ?K x" using k n(2) by (auto simp: store_kept_def backup_def [symmetric])
  have ne_discs: "more_discs \<noteq> []"
    using r unfolding replace_unfold [where d = new, OF ne n(1)] Let_def by (auto split: if_splits)
  define werr where "werr = (if \<not> ev_fclose ev \<and> (if \<not> ev_fwrite ev then ESP_FAIL
      else solar_os_storage_sync_file True (ev_fflush ev) (ev_fsync ev)) = ESP_OK then ESP_FAIL
    else if \<not> ev_fwrite ev then ESP_FAIL else solar_os_storage_sync_file True (ev_fflush ev) (ev_fsync ev))"
  let ?opened = "d(staged := Some (Regular Damaged))"
  let ?rm = "\<lambda>x. snd (solar_os_storage_remove (ev_remove ev) (Some staged) x)"
  have steps: "save_locked_steps ev s =
    (if \<not> ev_calloc ev then (ESP_ERR_NO_MEM, [d]) else if \<not> ev_fopen ev then (ESP_FAIL, [d, ?rm d])
     else if werr \<noteq> ESP_OK then (werr, [d, ?opened, ?rm ?opened])
     else (err1, [d, ?opened, new] @ more_discs @ (if err1 \<noteq> ESP_OK then [?rm (last more_discs)] else [])))"
    using r sib ne(1,2) ne_discs
    unfolding save_locked_steps_def active_def [symmetric] d_def [symmetric] werr_def
    by (simp add: Let_def new_def [symmetric])
  have "?K x" if "x \<in> set discs" for x
    using that assms(3) K(1,2) Krm Kmore ne_discs unfolding steps new_def by (auto split: if_splits)
  moreover have "last discs active = Some (Regular (Whole (store_of (sc_entries s))))" if "err = ESP_OK"
    using that assms(3) k ne_discs unfolding steps by (auto split: if_splits)
  ultimately show ?thesis by (simp add: active_def d_def)
qed

text \<open>
  C38. While the table is saved the disc has, at every moment, the store of the old table in its place or
  as the backup, or the store of the new one. After a save that succeeded the next start finds the
  persistent entries of the table, in their order and with their counts, and the intervals start anew.
\<close>

theorem schedule_store_durable:
  assumes "schedule_ok s" "sc_store_path s \<noteq> []" "length (sc_store_path s) + 4 < SOLAR_OS_STORAGE_PATH_MAX"
    and "save_locked_steps ev s = (err, discs)"
  shows "(\<forall>x \<in> set discs. store_kept (sc_store_path s) (sc_disc s) (sc_entries s) x)
    \<and> (err = ESP_OK \<and> starts_at ev' (sc_store_path s) \<longrightarrow>
        sc_entries (snd (solar_os_schedule_init ev' (schedule_state_init t r (sc_disc (snd (save_locked ev s))))))
        = map (restart_entry ev') (kept_entries (sc_entries s)))"
  using save_steps_keep [OF assms(2,3,4)] start_reads [of ev' "sc_store_path s" "sc_entries s" "last discs"] assms(1)
  by (simp add: save_locked_def assms(4) schedule_ok_def)

lemma schedule_store_durable_witness:
  "fst (save_locked_steps sample_env sample_schedule) = ESP_OK
   \<and> sc_entries (snd (solar_os_schedule_init sample_env (schedule_state_init sample_zone rtc_state_init
       (sc_disc (snd (save_locked sample_env sample_schedule)))))) = [sample_interval\<lparr>en_next_uptime_ms := 7000\<rparr>]"
proof -
  obtain err discs where st: "save_locked_steps sample_env sample_schedule = (err, discs)" by fastforce
  have ok: "schedule_ok sample_schedule"
    using sample_interval_valid
    by (simp add: schedule_ok_def table_ok_def sample_schedule_def schedule_state_init_def alarm_script_ok_def
        SOLAR_OS_SCHEDULE_MAX_ENTRIES_def)
  have path: "sc_store_path sample_schedule = ''/flash/.solar/schedule.bin''" by (simp add: sample_schedule_def)
  have starts: "starts_at sample_env ''/flash/.solar/schedule.bin''"
    by (simp add: starts_at_def sample_env_def solar_os_storage_join_path_def storage_join_loop.simps cstr_def
        SCHEDULE_STORE_DIR_def SCHEDULE_STORE_FILE_def SOLAR_OS_STORAGE_PATH_MAX_def storage_append_path_segment_def Let_def)
  have e: "err = ESP_OK"
    using st by (auto simp: save_locked_steps_def sample_schedule_def sample_env_def Let_def schedule_state_init_def
        solar_os_storage_sibling_path_def cstr_def SOLAR_OS_STORAGE_PATH_MAX_def strlcpy_def solar_os_storage_sync_file_def
        solar_os_storage_replace_file_def is_regular_def disc_rename_def)
  have "map (restart_entry sample_env) (kept_entries (sc_entries sample_schedule)) = [sample_interval\<lparr>en_next_uptime_ms := 7000\<rparr>]"
    by (simp add: sample_schedule_def kept_entries_def stored_copy_def restart_entry_def sample_interval_def zero_entry_def
        sample_env_def sample_clock_def solar_os_time_uptime_ms_def u64_def)
  then show ?thesis
    using schedule_store_durable [OF ok _ _ st, of sample_env sample_zone rtc_state_init] path starts e st
    by (simp add: SOLAR_OS_STORAGE_PATH_MAX_def)
qed

end
