(* ===== verification/ScheduleWake.thy ===== *)
theory ScheduleWake
  imports SchedulePoll
begin

text \<open>
  When the device has to wake for the schedule: the time given to the sleep timer, and the alarm register
  of the real-time clock.
\<close>

section \<open>The sleep timer\<close>

lemma best_wake_fold:
  "fold (\<lambda>e best. if \<not> en_enabled e then best
       else let candidate = wake_candidate now_ms tv epoch_ms e in if candidate < best then candidate else best) es b
   = fold min (map (wake_candidate now_ms tv epoch_ms) (filter en_enabled es)) b"
  by (induction es arbitrary: b) (simp_all add: Let_def min_def not_less)

lemma fold_min: "fold min xs (b :: nat) \<le> b \<and> (\<forall>x \<in> set xs. fold min xs b \<le> x) \<and> (fold min xs b = b \<or> fold min xs b \<in> set xs)"
proof (induction xs arbitrary: b)
  case (Cons x xs)
  from Cons [of "min x b"] show ?case by (auto simp: min_def split: if_splits)
qed simp

lemma best_wake_least:
  shows "\<And>e. e \<in> set es \<Longrightarrow> en_enabled e \<Longrightarrow> best_wake now_ms tv epoch_ms es \<le> wake_candidate now_ms tv epoch_ms e"
    and "best_wake now_ms tv epoch_ms es = U64_MAX
      \<or> (\<exists>e \<in> set es. en_enabled e \<and> best_wake now_ms tv epoch_ms es = wake_candidate now_ms tv epoch_ms e)"
  using fold_min [of "map (wake_candidate now_ms tv epoch_ms) (filter en_enabled es)" U64_MAX]
  unfolding best_wake_def best_wake_fold by auto

text \<open>Times far from the end of 64 bits.\<close>

definition small_times :: "nat \<Rightarrow> nat \<Rightarrow> schedule_entry list \<Rightarrow> bool" where
  "small_times now_ms epoch_ms es \<longleftrightarrow> now_ms < 9000000000000000 \<and> epoch_ms < 9000000000000000
     \<and> list_all (\<lambda>e. en_next_uptime_ms e < 9000000000000000 \<and> en_next_utc_seconds e < 9000000000000) es"

lemma small_candidate:
  assumes "small_times now_ms epoch_ms es" "e \<in> set es" "is_timer (en_kind e) \<or> (tv \<and> en_next_utc_seconds e \<noteq> 0)"
  shows "0 < wake_candidate now_ms tv epoch_ms e \<and> wake_candidate now_ms tv epoch_ms e \<le> 9000000000000000"
  using assms by (auto simp: wake_candidate_def small_times_def list_all_iff u64_def Let_def)

text \<open>An entry is not due before its candidate, and is due then.\<close>

lemma candidate_due:
  assumes "small_times now_ms epoch_ms es" "e \<in> set es" "en_enabled e" "is_timer (en_kind e) \<or> en_next_utc_seconds e \<noteq> 0"
  defines "c \<equiv> wake_candidate now_ms True epoch_ms e"
  shows "1 < c \<Longrightarrow> k < c \<Longrightarrow> \<not> due_entry (now_ms + k) True ((epoch_ms + k) div 1000) e"
    and "1 < c \<Longrightarrow> due_entry (now_ms + c) True ((epoch_ms + c) div 1000) e"
proof -
  have u: "en_next_utc_seconds e * 1000 < 18446744073709551616"
    using assms(1,2) by (auto simp: small_times_def list_all_iff)
  have w: "u64 (en_next_utc_seconds e * 1000) = en_next_utc_seconds e * 1000" using u by (simp add: u64_def)
  { assume "1 < c" "k < c"
    then show "\<not> due_entry (now_ms + k) True ((epoch_ms + k) div 1000) e"
      using assms(3,4) unfolding c_def
      by (auto simp: wake_candidate_def due_entry_def w Let_def less_mult_imp_div_less not_le split: if_splits) }
  { assume "1 < c"
    then show "due_entry (now_ms + c) True ((epoch_ms + c) div 1000) e"
      using assms(3,4) unfolding c_def
      by (auto simp: wake_candidate_def due_entry_def w Let_def split: if_splits) }
qed


lemma sample_epoch: "solar_os_time_get_utc_epoch_ms sample_clock sample_zone True = (ESP_OK, 1735689600000)"
  by (simp add: solar_os_time_get_utc_epoch_ms_def solar_os_time_get_utc_datetime_def time_provider_snapshot_def sample_zone_def
      time_state_init_def sample_clock_def TIME_VALID_EPOCH_SECONDS_def datetime_from_utc_epoch_def datetime_from_tm_def
      january_tm_def datetime_is_valid_def days_per_month_def epoch_from_utc_datetime_def time_days_from_civil_def c_div_def
      SECONDS_PER_DAY_def Let_def leap_year_def)


section \<open>The alarm register\<close>

text \<open>What the alarm register of the device holds after a list of calls.\<close>

definition alarm_register :: "rtc_call list \<Rightarrow> rtc_alarm option" where
  "alarm_register calls = fold (\<lambda>c r. case c of Set_alarm a \<Rightarrow> Some a | Disable_alarm \<Rightarrow> None | _ \<Rightarrow> r) calls None"

lemma alarm_register_set: "alarm_register (calls @ [Set_alarm a]) = Some a"
  by (simp add: alarm_register_def)

text \<open>
  The device rings when the second, minute, hour and day of the month are those of the register. What the
  C library documents of \<open>gmtime_r\<close>: the time of day is that of the second, and the day of the month
  depends on the day only.
\<close>

definition alarm_rings :: "time_platform \<Rightarrow> rtc_alarm \<Rightarrow> nat \<Rightarrow> bool" where
  "alarm_rings tp a x = (case tp_gmtime tp (int x) of
       None \<Rightarrow> False
     | Some t \<Rightarrow> word_of_int (tm_sec t) = ra_second a \<and> word_of_int (tm_min t) = ra_minute a
                \<and> word_of_int (tm_hour t) = ra_hour a \<and> word_of_int (tm_mday t) = ra_day a)"

definition gmtime_documented :: "time_platform \<Rightarrow> bool" where
  "gmtime_documented tp \<longleftrightarrow> (\<forall>x. \<exists>t. tp_gmtime tp (int x) = Some t
     \<and> 0 \<le> tm_sec t \<and> tm_sec t < 60 \<and> 0 \<le> tm_min t \<and> tm_min t < 60 \<and> 0 \<le> tm_hour t \<and> tm_hour t < 24
     \<and> tm_hour t * 3600 + tm_min t * 60 + tm_sec t = int (x mod 86400))
   \<and> (\<forall>x y. x div 86400 = y div 86400 \<longrightarrow> tm_mday (the (tp_gmtime tp (int x))) = tm_mday (the (tp_gmtime tp (int y))))"

definition month_day :: "time_platform \<Rightarrow> nat \<Rightarrow> int" where
  "month_day tp x = tm_mday (the (tp_gmtime tp (int x)))"

lemma gmtime_time_of_day:
  assumes "gmtime_documented tp"
  shows "\<exists>t. tp_gmtime tp (int x) = Some t \<and> tm_time_of_day t = x mod 86400 \<and> tm_mday t = month_day tp x"
proof -
  obtain t where t: "tp_gmtime tp (int x) = Some t" "0 \<le> tm_sec t" "0 \<le> tm_min t" "0 \<le> tm_hour t"
      "tm_sec t < 60" "tm_min t < 60" "tm_hour t < 24"
      "tm_hour t * 3600 + tm_min t * 60 + tm_sec t = int (x mod 86400)"
    using assms unfolding gmtime_documented_def by blast
  have "u64_of_int (tm_hour t) = nat (tm_hour t)" "u64_of_int (tm_min t) = nat (tm_min t)" "u64_of_int (tm_sec t) = nat (tm_sec t)"
    using t by (simp_all add: u64_of_int_def)
  moreover have "nat (tm_hour t) * 3600 + nat (tm_min t) * 60 + nat (tm_sec t) = x mod 86400"
  proof -
    obtain h m c where hmc: "tm_hour t = int h" "tm_min t = int m" "tm_sec t = int c"
      using t(2-4) nonneg_int_cases by metis
    have "int (h * 3600 + m * 60 + c) = int (x mod 86400)"
      using t(8) unfolding hmc by (simp only: of_nat_add of_nat_mult of_nat_numeral)
    then have "h * 3600 + m * 60 + c = x mod 86400" by (simp only: of_nat_eq_iff)
    then show ?thesis unfolding hmc by simp
  qed
  moreover have "x mod 86400 < 86400" by simp
  ultimately have "tm_time_of_day t = x mod 86400" by (simp add: tm_time_of_day_def u64_def)
  then show ?thesis using t(1) by (simp add: month_day_def)
qed

lemma time_t_small: "x < 9223372036854775808 \<Longrightarrow> time_t_of x = int x"
  by (simp add: time_t_of_def)

text \<open>The search tries the days in their order.\<close>

lemma rtc_alarm_search_finds:
  assumes "gmtime_documented tp" "day_start + (offset + n) * 86400 + tod < 9223372036854775808"
    and "rtc_alarm_search tp n offset day_start tod now_utc target_tm target"
  shows "\<exists>k \<ge> offset. target = day_start + k * 86400 + tod \<and> now_utc < target \<and> month_day tp target = tm_mday target_tm
    \<and> (\<forall>j. offset \<le> j \<and> j < k \<longrightarrow> day_start + j * 86400 + tod \<le> now_utc
         \<or> month_day tp (day_start + j * 86400 + tod) \<noteq> tm_mday target_tm)"
  using assms(2,3)
proof (induction n arbitrary: offset)
  case (Suc n)
  let ?c = "day_start + offset * 86400 + tod"
  have c: "u64 ?c = ?c" "time_t_of ?c = int ?c"
    using Suc.prems(1) by (simp_all add: u64_def time_t_small algebra_simps)
  obtain t where t: "tp_gmtime tp (int ?c) = Some t" "tm_mday t = month_day tp ?c"
    using gmtime_time_of_day [OF assms(1)] by blast
  have later: "\<exists>k \<ge> offset. target = day_start + k * 86400 + tod \<and> now_utc < target \<and> month_day tp target = tm_mday target_tm
      \<and> (\<forall>j. offset \<le> j \<and> j < k \<longrightarrow> day_start + j * 86400 + tod \<le> now_utc
           \<or> month_day tp (day_start + j * 86400 + tod) \<noteq> tm_mday target_tm)"
    if h: "rtc_alarm_search tp n (offset + 1) day_start tod now_utc target_tm target"
      and skip: "?c \<le> now_utc \<or> month_day tp ?c \<noteq> tm_mday target_tm"
  proof -
    have "day_start + (offset + 1 + n) * 86400 + tod < 9223372036854775808" using Suc.prems(1) by (simp add: add_ac)
    from Suc.IH [OF this h] obtain k where k: "k \<ge> offset + 1" "target = day_start + k * 86400 + tod" "now_utc < target"
        "month_day tp target = tm_mday target_tm"
        "\<forall>j. offset + 1 \<le> j \<and> j < k \<longrightarrow> day_start + j * 86400 + tod \<le> now_utc
           \<or> month_day tp (day_start + j * 86400 + tod) \<noteq> tm_mday target_tm" by blast
    have "day_start + j * 86400 + tod \<le> now_utc \<or> month_day tp (day_start + j * 86400 + tod) \<noteq> tm_mday target_tm"
      if "offset \<le> j" "j < k" for j
      using k(5) skip that by (cases "j = offset") auto
    then show ?thesis using k by (intro exI [of _ k]) auto
  qed
  have step: "rtc_alarm_search tp (Suc n) offset day_start tod now_utc target_tm target =
    (if ?c \<le> now_utc \<or> month_day tp ?c \<noteq> tm_mday target_tm
     then rtc_alarm_search tp n (offset + 1) day_start tod now_utc target_tm target else ?c = target)"
    unfolding rtc_alarm_search.simps Let_def c t(1) using t(2) by simp
  show ?case
  proof (cases "?c \<le> now_utc \<or> month_day tp ?c \<noteq> tm_mday target_tm")
    case True
    then show ?thesis using later Suc.prems(2) unfolding step by simp
  next
    case False
    then have "?c = target" using Suc.prems(2) unfolding step by simp
    then show ?thesis using False by (intro exI [of _ offset]) auto
  qed
qed simp


text \<open>
  When the search accepts a time, the register made of it rings then, and not between now and then.
\<close>

lemma word_u8_inj: "0 \<le> a \<Longrightarrow> a < 256 \<Longrightarrow> 0 \<le> b \<Longrightarrow> b < 256 \<Longrightarrow> (word_of_int a :: u8) = word_of_int b \<longleftrightarrow> a = b"
  by (simp add: word_uint_eq_iff uint_word_of_int take_bit_eq_mod)

lemma hms_unique:
  fixes s s' m m' h h' :: int
  assumes "0 \<le> s" "s < 60" "0 \<le> m" "m < 60" "0 \<le> s'" "s' < 60" "0 \<le> m'" "m' < 60"
    and "h * 3600 + m * 60 + s = h' * 3600 + m' * 60 + s'"
  shows "s = s' \<and> m = m' \<and> h = h'"
proof -
  have h: "h = h'"
  proof (rule ccontr)
    assume "h \<noteq> h'"
    then consider "h + 1 \<le> h'" | "h' + 1 \<le> h" by linarith
    then show False by cases (use assms in linarith)+
  qed
  have "m = m'"
  proof (rule ccontr)
    assume "m \<noteq> m'"
    then consider "m + 1 \<le> m'" | "m' + 1 \<le> m" by linarith
    then show False by cases (use assms h in linarith)+
  qed
  then show ?thesis using h assms(9) by simp
qed

lemma same_ring:
  assumes "gmtime_documented tp" "\<forall>x. 0 \<le> month_day tp x \<and> month_day tp x < 256" "tp_gmtime tp (int y) = Some t"
  shows "alarm_rings tp (schedule_rtc_alarm t) x \<longleftrightarrow> x mod 86400 = y mod 86400 \<and> month_day tp x = month_day tp y"
proof -
  obtain u where u: "tp_gmtime tp (int x) = Some u" "0 \<le> tm_sec u" "tm_sec u < 60" "0 \<le> tm_min u" "tm_min u < 60"
      "0 \<le> tm_hour u" "tm_hour u < 24" "tm_hour u * 3600 + tm_min u * 60 + tm_sec u = int (x mod 86400)"
    using assms(1) unfolding gmtime_documented_def by blast
  obtain t' where "tp_gmtime tp (int y) = Some t'" "0 \<le> tm_sec t'" "tm_sec t' < 60" "0 \<le> tm_min t'" "tm_min t' < 60"
      "0 \<le> tm_hour t'" "tm_hour t' < 24" "tm_hour t' * 3600 + tm_min t' * 60 + tm_sec t' = int (y mod 86400)"
    using assms(1) unfolding gmtime_documented_def by blast
  then have t: "0 \<le> tm_sec t" "tm_sec t < 60" "0 \<le> tm_min t" "tm_min t < 60"
      "0 \<le> tm_hour t" "tm_hour t < 24" "tm_hour t * 3600 + tm_min t * 60 + tm_sec t = int (y mod 86400)"
    using assms(3) by simp_all
  have d: "tm_mday u = month_day tp x" "tm_mday t = month_day tp y" using u(1) assms(3) by (simp_all add: month_day_def)
  have r: "alarm_rings tp (schedule_rtc_alarm t) x \<longleftrightarrow>
      tm_sec u = tm_sec t \<and> tm_min u = tm_min t \<and> tm_hour u = tm_hour t \<and> month_day tp x = month_day tp y"
    using u t d assms(2) by (simp add: alarm_rings_def schedule_rtc_alarm_def word_u8_inj)
  have "int (x mod 86400) = int (y mod 86400)
      \<longleftrightarrow> tm_sec u = tm_sec t \<and> tm_min u = tm_min t \<and> tm_hour u = tm_hour t"
    unfolding u(8) [symmetric] t(7) [symmetric]
  proof
    assume "tm_hour u * 3600 + tm_min u * 60 + tm_sec u = tm_hour t * 3600 + tm_min t * 60 + tm_sec t"
    from hms_unique [OF u(2-5) t(1-4) this] show "tm_sec u = tm_sec t \<and> tm_min u = tm_min t \<and> tm_hour u = tm_hour t" .
  qed simp
  then show ?thesis unfolding r of_nat_eq_iff by blast
qed

lemma represented_rings:
  assumes "gmtime_documented tp" "\<forall>x. 0 \<le> month_day tp x \<and> month_day tp x < 256" "now_utc < 4611686018427387904"
    and "target < 4611686018427387904" "rtc_alarm_can_represent tp now_utc target"
  shows "now_utc < target \<and> (\<exists>t. tp_gmtime tp (time_t_of target) = Some t \<and> alarm_rings tp (schedule_rtc_alarm t) target
    \<and> (\<forall>x. now_utc < x \<and> x < target \<longrightarrow> \<not> alarm_rings tp (schedule_rtc_alarm t) x))"
proof -
  have tt: "time_t_of target = int target" using assms(4) by (simp add: time_t_small)
  obtain t where t: "tp_gmtime tp (int target) = Some t" "tm_time_of_day t = target mod 86400" "tm_mday t = month_day tp target"
    using gmtime_time_of_day [OF assms(1)] by blast
  define ds where "ds = now_utc - now_utc mod 86400"
  have search: "rtc_alarm_search tp 63 0 ds (target mod 86400) now_utc t target"
    using assms(5) t by (simp add: rtc_alarm_can_represent_def tt ds_def)
  have bound: "ds + (0 + 63) * 86400 + target mod 86400 < 9223372036854775808"
    using assms(3) mod_less_divisor [of 86400 target] by (simp add: ds_def)
  obtain k where k: "target = ds + k * 86400 + target mod 86400" "now_utc < target"
      "\<forall>j < k. ds + j * 86400 + target mod 86400 \<le> now_utc
         \<or> month_day tp (ds + j * 86400 + target mod 86400) \<noteq> month_day tp target"
    using rtc_alarm_search_finds [OF assms(1) bound search] unfolding t(3) by blast
  note rings = same_ring [OF assms(1,2) t(1)]
  have "\<not> alarm_rings tp (schedule_rtc_alarm t) x" if x: "now_utc < x" "x < target" for x
  proof
    assume "alarm_rings tp (schedule_rtc_alarm t) x"
    then have m: "x mod 86400 = target mod 86400" "month_day tp x = month_day tp target" by (simp_all add: rings)
    define q where "q = now_utc div 86400"
    have ds: "ds = q * 86400" by (simp add: ds_def q_def minus_mod_eq_div_mult)
    have "q \<le> x div 86400" using x(1) by (simp add: q_def div_le_mono)
    then have xk: "x = ds + (x div 86400 - q) * 86400 + target mod 86400"
      unfolding ds m(1) [symmetric] by (metis add_mult_distrib div_mult_mod_eq le_add_diff_inverse)
    then have "(x div 86400 - q) * 86400 < k * 86400" using x(2) k(1) by linarith
    then have "x div 86400 - q < k" by simp
    with k(3) have "ds + (x div 86400 - q) * 86400 + target mod 86400 \<le> now_utc
        \<or> month_day tp (ds + (x div 86400 - q) * 86400 + target mod 86400) \<noteq> month_day tp target" by blast
    then show False unfolding xk [symmetric] using m(2) x(1) by simp
  qed
  then show ?thesis using k(2) t(1) tt rings by auto
qed

text \<open>The register is the one that was set, as long as the service holds the slot of the alarm.\<close>

definition armed_ok :: "time_platform \<Rightarrow> schedule_state \<Rightarrow> bool" where
  "armed_ok tp s \<longleftrightarrow> (sc_armed_utc_seconds s \<noteq> 0 \<and> rt_alarm_owner (sc_rtc s) = SCHEDULE_RTC_OWNER \<longrightarrow>
     alarm_register (rt_calls (sc_rtc s))
     = map_option schedule_rtc_alarm (tp_gmtime tp (time_t_of (sc_armed_utc_seconds s))))"

lemma set_alarm_done:
  assumes "solar_os_rtc_set_alarm_for dev (Some SCHEDULE_RTC_OWNER) (Some a) r = (ESP_OK, r')"
  shows "rt_alarm_owner r' = SCHEDULE_RTC_OWNER \<and> alarm_register (rt_calls r') = Some a"
  using assms by (auto simp: solar_os_rtc_set_alarm_for_def claim_slot_def owner_is_valid_def SCHEDULE_RTC_OWNER_def
      SOLAR_OS_RTC_OWNER_NAME_MAX_def strlcpy_def Let_def alarm_register_set split: if_splits option.splits)

lemma info_owner:
  "solar_os_rtc_get_info True r = (ESP_OK, Some info) \<Longrightarrow> length (rt_alarm_owner r) < SOLAR_OS_RTC_OWNER_NAME_MAX
   \<Longrightarrow> ri_alarm_owner info = rt_alarm_owner r"
  by (auto simp: solar_os_rtc_get_info_def Let_def strlcpy_id split: if_splits)

lemma update_alarm_armed:
  assumes "update_rtc_alarm ev next_utc now_utc s = s'" "sc_armed_utc_seconds s' \<noteq> 0" "armed_ok (ev_clock ev) s"
    and "length (rt_alarm_owner (sc_rtc s)) < SOLAR_OS_RTC_OWNER_NAME_MAX"
  shows "sc_armed_utc_seconds s' = next_utc \<and> rt_alarm_owner (sc_rtc s') = SCHEDULE_RTC_OWNER
    \<and> rtc_alarm_can_represent (ev_clock ev) now_utc next_utc
    \<and> alarm_register (rt_calls (sc_rtc s')) = map_option schedule_rtc_alarm (tp_gmtime (ev_clock ev) (time_t_of next_utc))"
proof -
  have none: "s' = s\<lparr>sc_armed_utc_seconds := 0\<rparr> \<Longrightarrow> False" using assms(2) by simp
  obtain info where i: "solar_os_rtc_get_info True (sc_rtc s) = (ESP_OK, Some info)"
  proof -
    obtain e x where "solar_os_rtc_get_info True (sc_rtc s) = (e, x)" by fastforce
    then show ?thesis using that assms(1) none
      by (cases e; cases x) (auto simp: update_rtc_alarm_def)
  qed
  have own: "ri_alarm_owner info = rt_alarm_owner (sc_rtc s)" by (rule info_owner [OF i assms(4)])
  have caps: "ri_capabilities info AND SOLAR_OS_RTC_CAP_ALARM \<noteq> 0" "next_utc \<noteq> 0"
      "rtc_alarm_can_represent (ev_clock ev) now_utc next_utc"
    using assms(1,2) i by (auto simp: update_rtc_alarm_def Let_def split: if_splits)
  obtain t where t: "tp_gmtime (ev_clock ev) (time_t_of next_utc) = Some t"
    using caps(3) by (auto simp: rtc_alarm_can_represent_def split: option.splits)
  obtain err r where r: "solar_os_rtc_set_alarm_for (ev_rtc ev) (Some SCHEDULE_RTC_OWNER) (Some (schedule_rtc_alarm t)) (sc_rtc s)
      = (err, r)" by fastforce
  have s': "s' = (if sc_armed_utc_seconds s = next_utc \<and> rt_alarm_owner (sc_rtc s) = SCHEDULE_RTC_OWNER then s
      else s\<lparr>sc_rtc := r, sc_armed_utc_seconds := (if err = ESP_OK then next_utc else 0)\<rparr>)"
    unfolding assms(1) [symmetric] using i caps t r own by (simp add: update_rtc_alarm_def Let_def)
  show ?thesis
  proof (cases "sc_armed_utc_seconds s = next_utc \<and> rt_alarm_owner (sc_rtc s) = SCHEDULE_RTC_OWNER")
    case True
    then show ?thesis using s' assms(2,3) caps(3) by (simp add: armed_ok_def)
  next
    case False
    have e: "s' = s\<lparr>sc_rtc := r, sc_armed_utc_seconds := (if err = ESP_OK then next_utc else 0)\<rparr>"
      using s' False by simp
    then have "err = ESP_OK" using assms(2) by (simp split: if_splits)
    then show ?thesis using e set_alarm_done r caps(3) t by simp
  qed
qed


definition sample_rtc :: rtc_state where
  "sample_rtc = rtc_state_init\<lparr>rt_provider := no_provider\<lparr>rp_set_alarm := True, rp_disable_alarm := True\<rparr>,
     rt_provider_owner := ''pcf85063''\<rparr>"

text \<open>A clock without months: the day of the month counts the days of a month of 31 days.\<close>

definition plain_tm :: "int \<Rightarrow> tm" where
  "plain_tm x = \<lparr>tm_sec = x mod 60, tm_min = x mod 3600 div 60, tm_hour = x mod 86400 div 3600,
     tm_mday = x div 86400 mod 31 + 1, tm_mon = 0, tm_year = 125, tm_wday = 0\<rparr>"

definition plain_clock :: time_platform where
  "plain_clock = sample_clock\<lparr>tp_gmtime := \<lambda>x. Some (plain_tm x)\<rparr>"

lemma plain_documented: "gmtime_documented plain_clock"
proof -
  have tod: "x mod 86400 div 3600 * 3600 + x mod 3600 div 60 * 60 + x mod 60 = x mod 86400" for x :: int
  proof -
    have "x mod 86400 mod 3600 = x mod 3600" "x mod 3600 mod 60 = x mod 60" by (simp_all add: mod_mod_cancel)
    then show ?thesis using div_mult_mod_eq [of "x mod 86400" 3600] div_mult_mod_eq [of "x mod 3600" 60] by linarith
  qed
  have hours: "x mod 86400 div 3600 < 24" "x mod 3600 div 60 < 60" for x :: int
    using zdiv_mono1 [of "x mod 86400" 86399 3600] zdiv_mono1 [of "x mod 3600" 3599 60] by simp_all
  have pos: "0 \<le> x mod 86400 div 3600" "0 \<le> x mod 3600 div 60" for x :: int
    by (simp_all add: pos_imp_zdiv_nonneg_iff)
  have gm: "tp_gmtime plain_clock x = Some (plain_tm x)" for x by (simp add: plain_clock_def)
  have one: "\<exists>t. tp_gmtime plain_clock (int x) = Some t
     \<and> 0 \<le> tm_sec t \<and> tm_sec t < 60 \<and> 0 \<le> tm_min t \<and> tm_min t < 60 \<and> 0 \<le> tm_hour t \<and> tm_hour t < 24
     \<and> tm_hour t * 3600 + tm_min t * 60 + tm_sec t = int (x mod 86400)" for x
    using tod [of "int x"] hours [of "int x"] pos [of "int x"] pos_mod_sign [of 60 "int x"] pos_mod_bound [of 60 "int x"]
    by (intro exI [of _ "plain_tm (int x)"] conjI gm)
      (simp_all only: plain_tm_def tm.select_convs zmod_int of_nat_numeral zero_less_numeral)
  have "tm_mday (the (tp_gmtime plain_clock (int x))) = tm_mday (the (tp_gmtime plain_clock (int y)))"
    if "x div 86400 = y div 86400" for x y
  proof -
    have "int x div 86400 = int y div 86400" using arg_cong [OF that, of int] by (simp only: zdiv_int of_nat_numeral)
    then show ?thesis by (simp only: gm plain_tm_def option.sel tm.select_convs)
  qed
  then show ?thesis using one unfolding gmtime_documented_def by blast
qed

lemma plain_represents: "rtc_alarm_can_represent plain_clock 1735689600 1735700000"
proof -
  have n: "(63 :: nat) = Suc 62" by simp
  show ?thesis
    unfolding rtc_alarm_can_represent_def n rtc_alarm_search.simps(2)
    by (simp add: plain_clock_def plain_tm_def time_t_of_def tm_time_of_day_def u64_of_int_def u64_def)
qed

lemma plain_month_day: "0 \<le> month_day plain_clock x \<and> month_day plain_clock x < 256"
  using pos_mod_bound [of 31 "int x div 86400"] by (simp add: month_day_def plain_clock_def plain_tm_def)


end
