(* ===== verification/Spec2Isabelle.thy ===== *)
theory Spec2Isabelle
  imports Scheduler Resources LinkDelivery LinkRepeater ShellParse ShellEdit MidiCodec JsonScan StreamTransfer
    WriterProperties PocsagReceive JobsSafety RamProperties ScheduleTable ScheduleWake
begin

text \<open>
  \<^bold>\<open>SolarOS services: a verification development.\<close>

  SolarOS is a firmware for ESP32 boards, written in C under \<open>src/src/\<close>. \<open>main.c\<close> runs one loop that
  dispatches the foreground application and the background jobs; services (\<open>services/\<close>) offer ports,
  links, codecs and hardware to applications (\<open>apps/\<close>), jobs (\<open>jobs/\<close>) and the command shell
  (\<open>shell/\<close>). The development models the parts of it that decide something: who may run, who owns a
  pin, which bytes travel and how they are read again, what an edit or a command line means.

  \<^bold>\<open>Parts, and how they interact.\<close>

  \<^item> The main loop asks the tick scheduler (\<open>solar_os_scheduler.c\<close>) which application or job is due and
    how long it may sleep. The job manager (\<open>solar_os_jobs.c\<close>) calls it for every running job, and is
    itself called by shells, network workers and the jobs.
  \<^item> Services that drive hardware claim pins and buses from the resource registry
    (\<open>services/solar_os_resources.c\<close>).
  \<^item> The radio link job (\<open>jobs/solar_os_radio_link_job.c\<close>) moves frames between a radio and a link
    (\<open>services/solar_os_link.c\<close>), and, when it repeats, through the repeater
    (\<open>services/solar_os_link_repeater.c\<close>). Byte streams (\<open>services/solar_os_link_stream.c\<close>) are virtual
    ports whose frames are messages of a link.
  \<^item> The pager codec (\<open>services/solar_os_pocsag.c\<close>), the MIDI codec (\<open>services/solar_os_midi_codec.c\<close>)
    and the JSON scanner (\<open>services/solar_os_json_scan.c\<close>) are used by jobs and applications.
  \<^item> The shell splits a line into arguments and suggests commands (\<open>shell/solar_os_shell_parse.c\<close>).
  \<^item> The Writer application keeps its text in a gap buffer with undo
    (\<open>apps/solar_os_writer_buffer.c\<close>).
  \<^item> The RAM file system (\<open>services/solar_os_ramfs.c\<close>) serves the C library's file calls of every
    application through the VFS layer of ESP-IDF, from an arena in PSRAM that it manages itself.
  \<^item> The schedule service (\<open>services/solar_os_schedule.c\<close>) is polled by the main loop, runs scripts and
    rings alarms. It asks the clock (\<open>services/solar_os_time.c\<close>, with the zones of
    \<open>services/solar_os_timezone.c\<close>), arms the real-time clock (\<open>services/solar_os_rtc.c\<close>) and keeps its
    table in a file that it replaces through \<open>services/solar_os_storage.c\<close>.

  \<^bold>\<open>Theories.\<close>

  \<^item> \<open>SolarBase\<close>: machine integers, \<open>esp_err\<close>, C strings, tables of slots (locale \<open>keyed_slots\<close>) and
    big-endian fields (locale \<open>byte_codec\<close>). \<open>BoundedQueue\<close>: the FreeRTOS queues, as the contract
    \<open>bounded_fifo\<close> that the link and stream proofs use, with an instance.
  \<^item> \<open>Scheduler\<close>: \<open>tick_stats\<close> is \<open>solar_os_tick_stats_t\<close>, the definitions have the names of the
    functions of \<open>solar_os_scheduler.c\<close>. Spacing of dispatches (C1), the powers of two at which misses
    are logged, the report of the main loop.
  \<^item> \<open>JobsCore\<close>: the variables of \<open>solar_os_jobs.c\<close> are the record \<open>jobs_state\<close>, an entry of its table
    is \<open>job_runtime\<close>; an operation that leaves the spin lock is cut into one definition per critical
    section (\<open>jobs_start_admit\<close>, \<open>jobs_start_begin\<close>, \<open>jobs_start_queue\<close>, \<open>jobs_start_finish\<close> are
    \<open>solar_os_jobs_start\<close>; \<open>retry_read\<close>, \<open>retry_claim\<close>, \<open>retry_finish\<close> are
    \<open>job_retry_pending_start\<close>; \<open>tick_enter\<close> and \<open>tick_leave\<close> are the two halves of
    \<open>solar_os_jobs_tick\<close>). \<open>JobsSafety\<close>: the step relation of all tasks and the exclusion of a job's
    start, stop and event code (C29).
  \<^item> \<open>Resources\<close>: the table of claims as a list of slots, its abstraction the map \<open>holders\<close> from
    resources to owners. Ownership (C2), bundles (C3), release, long owners (C4).
  \<^item> \<open>LinkCodec\<close>: frames and their CRC (C5 to C7). \<open>LinkCore\<close>: the table of links, one definition per
    critical section and per queue call of \<open>solar_os_link.c\<close>, queue handles as keys of a heap.
    \<open>LinkProtocol\<close>: the step relation of tasks and destroyers, exact reference counts (C8), the
    public operations as runs of it (C9), the timeout of a destroy (C10). \<open>LinkDelivery\<close>: delivery
    with acknowledgement (C11), duplicates (C12), undecodable frames.
  \<^item> \<open>LinkRepeater\<close>: the repeater and the part of the radio link job that feeds it; faithful single hop
    relaying (C13), and, as lemmas, the back-off window and the suppression of duplicates.
  \<^item> \<open>LinkStream\<close>: streams, their ports and frames, one definition per critical section.
    \<open>StreamFrames\<close>: the frame format (C21), the service invariant (C22), the first OPEN, the
    acknowledgement that travels to another peer. \<open>StreamTransfer\<close>: two streams over a link
    that loses, repeats and reorders frames deliver a prefix of what was written (C23).
  \<^item> \<open>ShellParse\<close>: the tokenizer on the bytes of the line and its pure specification (C14, C15).
    \<open>ShellEdit\<close>: edit distance (C16) and the suggestion, a lemma.
  \<^item> \<open>MidiCodec\<close> (C17, C18) and \<open>JsonScan\<close> (C19, C20).
  \<^item> \<open>WriterBuffer\<close>: the gap buffer as a byte array with the two ends of the gap, its undo operations as
    a list with a cursor. \<open>WriterHistory\<close>: the history as a chain of texts. \<open>WriterProperties\<close>: the
    invariant (C24), the refinement of a flat text (C25), edits (C26), undo and redo (C27), and the
    cursor motions.
  \<^item> \<open>Pocsag\<close>: the pager codec. \<open>PocsagCode\<close>: two errors in a code word are corrected, by evaluating the
    syndromes of all pairs of bits. \<open>PocsagMessage\<close>: the bits of a message.
    \<open>PocsagReceive\<close>: a transmission from end to end (C28).
  \<^item> \<open>RamAlloc\<close>: the blocks of an arena as a list that tiles it, abstracted to the map \<open>used_map\<close> from
    payload pointers to sizes. \<open>RamFs\<close>: the mount, its nodes by address, and the VFS callbacks.
    \<open>RamInvariant\<close>: who owns which block, the invariant \<open>ramfs_ok\<close>, and the abstraction \<open>inodes\<close>, a
    table of byte strings and of maps from names to inodes, with the lemmas on detaching, attaching,
    naming, creating and deleting a node. \<open>RamOperations\<close> and \<open>RamPaths\<close>: the building blocks and the
    path walks; \<open>RamCalls\<close>: every callback; \<open>RamProperties\<close>: the invariant under any calls (C30),
    writing (C31), reading back, the calls on names (C32), path resolution (C33).
  \<^item> \<open>ClockTime\<close> and \<open>RtcAlarm\<close>: the variables of the clock are \<open>time_state\<close>, those of the real-time
    clock \<open>rtc_state\<close>, which also lists the calls made to the device. \<open>StorageFiles\<close>: a file system as
    a map from paths to files, and the replacement of a file with every disc on the way (C34).
  \<^item> \<open>ScheduleCore\<close>: the table, its store and the calendar, over the record \<open>schedule_state\<close>, which
    holds the three states above; \<open>schedule_env\<close> has the answers of the system. \<open>ScheduleCalls\<close>: the
    poll, cut into its parts, and the calls of the header. \<open>ScheduleCalendar\<close>: the day numbers and the
    next occurrence of an entry (C35). \<open>SchedulePoll\<close>: what a poll does (C36). \<open>ScheduleTable\<close>: the
    invariant under any calls, by the contract \<open>total_service\<close> (C37), and the store that a start
    reads (C38). \<open>ScheduleWake\<close>: the sleep timer (C39) and the alarm register (C40).

  \<^bold>\<open>How the code is modelled.\<close> A struct is a record, an enumeration a datatype, a fixed-width integer a
  word; a pointer that the code compares with NULL is an option and an out-parameter is a component
  of the result. Where the code takes a mutex or a spin lock, each critical section is one
  definition, and a step relation interleaves them: \<open>link_step\<close>, \<open>stream_step\<close>, \<open>jobs_step\<close>, and
  \<open>resource_step\<close> where a whole call is one section. Reachability from the boot state and an
  invariant give the safety theorems; the theorems on sequences of calls are about the compositions.
  What is not in the sources is an argument: the clock, random numbers, the outcome of an allocation
  or of taking a mutex, the FreeRTOS queues, the radio, the code of a job, the memory test of the task
  service, the job registry (a table that depends on the build configuration), the conversions of the
  C library between seconds and dates, the real-time clock device, what the flash disc accepts.

  \<^bold>\<open>Bounds and termination.\<close> There is no fuel: loops over strings and buffers are recursive functions
  with a termination proof (the tokenizer, the JSON scanner, the character and word motions of the
  Writer), loops over tables recur over the list. The catch-up loop of an interval entry ends only for
  an interval that is not zero, so it is a \<open>partial_function\<close> and C36 and C37 state that a poll
  returns. A loop that waits for another task (the destroy
  of a link, a start or stop that waits for a callback) is a step that may be repeated, so theorems
  about such systems are about every reachable state. Counters that can wrap are words; sizes of
  buffers are natural numbers below the size of the memory.

  \<^bold>\<open>Not modelled.\<close> Third-party code (\<open>components/\<close>, \<open>src/src/vendor\<close>, fonts), drivers and their
  registers, terminal and graphics output, the network, Bluetooth, audio and file services, the
  script bindings, and the commands of the shell, whose work is calls of those. The radio link job
  is modelled as far as it feeds the repeater and parses its arguments; its radio receive loop is
  not. Logging is left out everywhere. Of the clock the SNTP client is not modelled, of the storage
  service the volumes, listings and copies are not. Of the services with logic of their own the ZMODEM
  transfer and the port registry are not modelled.
\<close>

end
